(* ===== verification/Golem_Prelude.thy ===== *)
theory Golem_Prelude
  imports Main "HOL-Library.Word" "HOL-Library.AList"
begin

text \<open>
  Shared vocabulary of the development: the machine types of the Go sources, Go maps and
  their iteration order, Go's \<^verbatim>\<open>time.Time\<close>, the big- and little-endian codecs of
  \<^verbatim>\<open>encoding/binary\<close>, and the three interfaces the components are written against:
  a finite map, a FIFO queue and a self-delimiting byte codec.  Each interface is a locale;
  its client lemmas are proved once here and reach the components through interpretations.
\<close>

unbundle bit_operations_syntax

named_theorems golem_simps \<open>unfolding rules of the model's small definitions\<close>
named_theorems map_simps \<open>lookup and domain rules of Go maps\<close>
named_theorems inv_intros \<open>preservation of component invariants\<close>

section \<open>Machine types\<close>

type_synonym byte = "8 word"
type_synonym bytes = "byte list"
type_synonym u16 = "16 word"
type_synonym u32 = "32 word"
type_synonym u64 = "64 word"

text \<open>
  A signed 64-bit integer (\<^verbatim>\<open>int64\<close>, entity and session identifiers) is kept as its
  64-bit pattern; \<open>sint\<close> reads its value.
\<close>

type_synonym int64 = "64 word"

section \<open>Results\<close>

text \<open>A Go call that returns a value or an error; \<open>Inl\<close> carries the error.\<close>

fun res_bind :: "'e + 'a \<Rightarrow> ('a \<Rightarrow> 'e + 'b) \<Rightarrow> 'e + 'b" where
  "res_bind (Inl e) f = Inl e"
| "res_bind (Inr x) f = f x"

lemma res_bind_Inr_iff [simp]:
  "res_bind r f = Inr y \<longleftrightarrow> (\<exists>x. r = Inr x \<and> f x = Inr y)"
  by (cases r) auto

lemma res_bind_Inl_iff:
  "res_bind r f = Inl e \<longleftrightarrow> r = Inl e \<or> (\<exists>x. r = Inr x \<and> f x = Inl e)"
  by (cases r) auto

section \<open>Time\<close>

text \<open>
  \<^verbatim>\<open>time.Time\<close> is an instant in nanoseconds counted from Go's zero time, so
  \<^verbatim>\<open>IsZero\<close> is equality with 0, \<^verbatim>\<open>Before\<close> is \<open><\<close> and \<^verbatim>\<open>Add\<close> is \<open>+\<close>.
  \<^verbatim>\<open>Sub\<close> saturates at the ends of the 64-bit \<^verbatim>\<open>Duration\<close>.
\<close>

type_synonym time = int
type_synonym duration = int

definition maxDuration :: duration where "maxDuration = 2 ^ 63 - 1"
definition minDuration :: duration where "minDuration = - (2 ^ 63)"

definition timeSub :: "time \<Rightarrow> time \<Rightarrow> duration" where
  "timeSub t u = (if t - u > maxDuration then maxDuration
                  else if t - u < minDuration then minDuration else t - u)"

definition millisecond :: duration where "millisecond = 1000000"
definition second :: duration where "second = 1000 * millisecond"

lemma durations [simp]: "millisecond = 1000000" "second = 1000000000"
  by (simp_all add: millisecond_def second_def)

text \<open>The saturation never shows in a comparison with a duration that fits.\<close>

lemma timeSub_gt [simp]: "minDuration \<le> d \<Longrightarrow> d < maxDuration \<Longrightarrow> timeSub t u > d \<longleftrightarrow> t - u > d"
  by (auto simp: timeSub_def)

section \<open>Go maps\<close>

text \<open>
  A Go map is an association list with distinct keys.  Reading, storing and deleting go
  through \<open>map_of\<close>, \<open>AList.update\<close> and \<open>AList.delete\<close>; \<^verbatim>\<open>len\<close> is the length of
  the list.  A \<^verbatim>\<open>range\<close> over a map visits the keys in an order the runtime chooses:
  every definition that iterates over a map takes that order as an argument, and
  \<open>iter_order\<close> says which lists the runtime may choose.
\<close>

type_synonym ('k, 'v) gomap = "('k \<times> 'v) list"

definition gm_wf :: "('k, 'v) gomap \<Rightarrow> bool" where
  "gm_wf m \<longleftrightarrow> distinct (map fst m)"

definition gm_keys :: "('k, 'v) gomap \<Rightarrow> 'k set" where
  "gm_keys m = set (map fst m)"

definition gm_len :: "('k, 'v) gomap \<Rightarrow> nat" where
  "gm_len m = length m"

definition iter_order :: "'k list \<Rightarrow> ('k, 'v) gomap \<Rightarrow> bool" where
  "iter_order ks m \<longleftrightarrow> distinct ks \<and> set ks = gm_keys m"

lemma gm_keys_dom: "gm_keys m = dom (map_of m)"
  by (simp add: gm_keys_def dom_map_of_conv_image_fst)

lemma gm_wf_Nil [simp]: "gm_wf []"
  by (simp add: gm_wf_def)

lemma gm_keys_Nil [simp]: "gm_keys [] = {}"
  by (simp add: gm_keys_def)

lemma gm_wf_update [simp, inv_intros]: "gm_wf m \<Longrightarrow> gm_wf (AList.update k v m)"
  by (simp add: gm_wf_def distinct_update)

lemma gm_wf_delete [simp, inv_intros]: "gm_wf m \<Longrightarrow> gm_wf (AList.delete k m)"
  by (simp add: gm_wf_def distinct_delete)

lemma gm_wf_Cons [simp]: "gm_wf ((k, v) # m) \<longleftrightarrow> k \<notin> gm_keys m \<and> gm_wf m"
  by (simp add: gm_wf_def gm_keys_def)

lemma map_of_update [simp, map_simps]: "map_of (AList.update k v m) = (map_of m)(k \<mapsto> v)"
  by (simp add: update_conv')

lemma map_of_delete [simp, map_simps]: "map_of (AList.delete k m) = (map_of m)(k := None)"
  by (simp add: delete_conv')

lemma gm_keys_update [simp, map_simps]: "gm_keys (AList.update k v m) = insert k (gm_keys m)"
  by (simp add: gm_keys_dom)

lemma gm_keys_delete [simp, map_simps]: "gm_keys (AList.delete k m) = gm_keys m - {k}"
  by (auto simp: gm_keys_dom)

lemma gm_keys_None: "map_of m k = None \<longleftrightarrow> k \<notin> gm_keys m"
  by (simp add: gm_keys_dom domIff)

lemma gm_keys_Some: "k \<in> gm_keys m \<longleftrightarrow> (\<exists>v. map_of m k = Some v)"
  by (auto simp: gm_keys_dom)

lemma gm_len_card: "gm_wf m \<Longrightarrow> gm_len m = card (gm_keys m)"
  by (metis distinct_card gm_keys_def gm_len_def gm_wf_def length_map)

lemma gm_len_0 [simp]: "gm_len m = 0 \<longleftrightarrow> m = []"
  by (simp add: gm_len_def)

lemma gm_keys_empty_iff [simp]: "gm_keys m = {} \<longleftrightarrow> m = []"
  by (simp add: gm_keys_def)

lemma iter_order_Nil [simp]: "iter_order ks [] \<longleftrightarrow> ks = []"
  by (auto simp: iter_order_def)

lemma iter_order_keys: "gm_wf m \<Longrightarrow> iter_order (map fst m) m"
  by (simp add: iter_order_def gm_wf_def gm_keys_def)

lemma gm_wf_filter [simp, inv_intros]: "gm_wf m \<Longrightarrow> gm_wf (filter P m)"
  by (induction m) (auto simp: gm_wf_def)

lemma finite_gm_keys [simp]: "finite (gm_keys m)"
  by (simp add: gm_keys_def)

subsection \<open>The finite-map interface\<close>

text \<open>
  What the stores of the engine (registry, world store, visibility sets, trackers) rely
  on.  \<open>lkp\<close> gives a map its meaning; the laws are the usual ones, and \<open>len\<close> counts the
  keys.
\<close>

locale finite_map =
  fixes emp :: 'm
    and put :: "'k \<Rightarrow> 'v \<Rightarrow> 'm \<Rightarrow> 'm"
    and del :: "'k \<Rightarrow> 'm \<Rightarrow> 'm"
    and lkp :: "'m \<Rightarrow> 'k \<Rightarrow> 'v option"
    and len :: "'m \<Rightarrow> nat"
    and wf :: "'m \<Rightarrow> bool"
  assumes lkp_emp: "lkp emp k = None"
    and lkp_put: "wf m \<Longrightarrow> lkp (put k v m) k' = (if k' = k then Some v else lkp m k')"
    and lkp_del: "wf m \<Longrightarrow> lkp (del k m) k' = (if k' = k then None else lkp m k')"
    and len_card: "wf m \<Longrightarrow> finite (dom (lkp m)) \<and> len m = card (dom (lkp m))"
    and wf_emp: "wf emp"
    and wf_put: "wf m \<Longrightarrow> wf (put k v m)"
    and wf_del: "wf m \<Longrightarrow> wf (del k m)"
begin

lemma dom_put: "wf m \<Longrightarrow> dom (lkp (put k v m)) = insert k (dom (lkp m))"
  by (auto simp: dom_def lkp_put split: if_splits)

lemma dom_del: "wf m \<Longrightarrow> dom (lkp (del k m)) = dom (lkp m) - {k}"
  by (auto simp: dom_def lkp_del split: if_splits)

lemma len_put:
  assumes "wf m"
  shows "len (put k v m) = (if k \<in> dom (lkp m) then len m else Suc (len m))"
  using assms len_card [OF wf_put [OF assms], of k v] len_card [OF assms]
  by (simp add: dom_put insert_absorb)

lemma len_del:
  assumes "wf m"
  shows "len (del k m) = (if k \<in> dom (lkp m) then len m - 1 else len m)"
  using assms len_card [OF wf_del [OF assms], of k] len_card [OF assms]
  by (simp add: dom_del)

lemma len_0_iff: "wf m \<Longrightarrow> len m = 0 \<longleftrightarrow> (\<forall>k. lkp m k = None)"
  using len_card [of m] by (auto simp: dom_def)

end

interpretation gm: finite_map "[]" AList.update AList.delete map_of gm_len gm_wf
proof unfold_locales
  fix m :: "('a, 'b) gomap"
  assume "gm_wf m"
  then show "finite (dom (map_of m)) \<and> gm_len m = card (dom (map_of m))"
    using gm_len_card [of m] by (simp add: gm_keys_dom finite_dom_map_of)
qed (auto simp: fun_upd_def)

section \<open>The FIFO interface\<close>

text \<open>
  A queue with a list meaning.  The eventual-state send queue of the datagram protocol, a
  slice with a moving head index, implements it.
\<close>

locale fifo =
  fixes q_list :: "'q \<Rightarrow> 'a list"
    and q_push :: "'a \<Rightarrow> 'q \<Rightarrow> 'q"
    and q_pop :: "'q \<Rightarrow> 'a \<times> 'q"
    and q_len :: "'q \<Rightarrow> nat"
    and q_inv :: "'q \<Rightarrow> bool"
  assumes push_list: "q_inv q \<Longrightarrow> q_list (q_push x q) = q_list q @ [x]"
    and pop_list: "q_inv q \<Longrightarrow> q_list q \<noteq> [] \<Longrightarrow>
          fst (q_pop q) = hd (q_list q) \<and> q_list (snd (q_pop q)) = tl (q_list q)"
    and len_list: "q_inv q \<Longrightarrow> q_len q = length (q_list q)"
    and inv_push: "q_inv q \<Longrightarrow> q_inv (q_push x q)"
    and inv_pop: "q_inv q \<Longrightarrow> q_list q \<noteq> [] \<Longrightarrow> q_inv (snd (q_pop q))"
begin

primrec pops :: "nat \<Rightarrow> 'q \<Rightarrow> 'a list \<times> 'q" where
  "pops 0 q = ([], q)"
| "pops (Suc n) q = (case q_pop q of (x, q') \<Rightarrow> case pops n q' of (xs, q'') \<Rightarrow> (x # xs, q''))"

lemma fold_push_list:
  "q_inv q \<Longrightarrow> q_inv (fold q_push xs q) \<and> q_list (fold q_push xs q) = q_list q @ xs"
  by (induction xs arbitrary: q) (auto simp: push_list inv_push)

lemma pops_take:
  "q_inv q \<Longrightarrow> n \<le> length (q_list q) \<Longrightarrow>
     fst (pops n q) = take n (q_list q) \<and> q_list (snd (pops n q)) = drop n (q_list q)
     \<and> q_inv (snd (pops n q))"
proof (induction n arbitrary: q)
  case 0
  then show ?case by simp
next
  case (Suc n)
  then have ne: "q_list q \<noteq> []" by auto
  obtain x q' where p: "q_pop q = (x, q')" by (cases "q_pop q")
  have x: "x = hd (q_list q)" and q': "q_list q' = tl (q_list q)" and i: "q_inv q'"
    using pop_list [OF Suc.prems(1) ne] inv_pop [OF Suc.prems(1) ne] p by auto
  have "n \<le> length (q_list q')" using Suc.prems(2) q' by simp
  from Suc.IH [OF i this] show ?case
    using p x q' ne by (cases "q_list q") (auto split: prod.splits)
qed

lemma fifo_order:
  "q_inv q \<Longrightarrow> q_list q = [] \<Longrightarrow> fst (pops (length xs) (fold q_push xs q)) = xs"
  using fold_push_list [of q xs] pops_take [of "fold q_push xs q" "length xs"] by simp

end

section \<open>Self-delimiting byte codecs\<close>

text \<open>
  An encoder together with a decoder that consumes a prefix of its input.  The length
  prefixed stream frames, the varints and the snapshot records implement it; the client
  lemma is that a run of encoded values decodes back to the values.
\<close>

locale byte_codec =
  fixes enc :: "'a \<Rightarrow> bytes"
    and dec :: "bytes \<Rightarrow> ('a \<times> bytes) option"
    and ok :: "'a \<Rightarrow> bool"
  assumes dec_enc: "ok x \<Longrightarrow> dec (enc x @ rest) = Some (x, rest)"
begin

primrec dec_many :: "nat \<Rightarrow> bytes \<Rightarrow> ('a list \<times> bytes) option" where
  "dec_many 0 bs = Some ([], bs)"
| "dec_many (Suc n) bs =
     (case dec bs of None \<Rightarrow> None
      | Some (x, bs') \<Rightarrow> (case dec_many n bs' of None \<Rightarrow> None
                        | Some (xs, bs'') \<Rightarrow> Some (x # xs, bs'')))"

lemma dec_many_concat:
  "list_all ok xs \<Longrightarrow> dec_many (length xs) (concat (map enc xs) @ rest) = Some (xs, rest)"
  by (induction xs) (simp_all add: dec_enc)

lemma enc_prefix_inj: "ok x \<Longrightarrow> ok y \<Longrightarrow> enc x @ r = enc y @ s \<Longrightarrow> x = y \<and> r = s"
  by (metis dec_enc option.inject prod.inject)

end

end
