(* ===== verification/Go_Binary.thy ===== *)
theory Go_Binary
  imports Golem_Prelude
begin

text \<open>
  The fixed-width codecs of Go's \<^verbatim>\<open>encoding/binary\<close> the sources use:
  \<^verbatim>\<open>BigEndian\<close> for the datagram and stream headers, \<^verbatim>\<open>LittleEndian\<close> for the
  protobuf fixed32/fixed64 fields.  The readers take an index, as the sources slice
  \<^verbatim>\<open>data[i:i+n]\<close> after checking the length.
\<close>

unbundle bit_operations_syntax

definition put_be16 :: "u16 \<Rightarrow> bytes" where
  "put_be16 v = [ucast (drop_bit 8 v), ucast v]"

definition put_be32 :: "u32 \<Rightarrow> bytes" where
  "put_be32 v = [ucast (drop_bit 24 v), ucast (drop_bit 16 v), ucast (drop_bit 8 v), ucast v]"

definition put_be64 :: "u64 \<Rightarrow> bytes" where
  "put_be64 v = [ucast (drop_bit 56 v), ucast (drop_bit 48 v), ucast (drop_bit 40 v),
     ucast (drop_bit 32 v), ucast (drop_bit 24 v), ucast (drop_bit 16 v), ucast (drop_bit 8 v),
     ucast v]"

definition put_le32 :: "u32 \<Rightarrow> bytes" where
  "put_le32 v = rev (put_be32 v)"

definition put_le64 :: "u64 \<Rightarrow> bytes" where
  "put_le64 v = rev (put_be64 v)"

definition be16_at :: "bytes \<Rightarrow> nat \<Rightarrow> u16" where
  "be16_at xs i = push_bit 8 (ucast (xs ! i)) OR ucast (xs ! (i + 1))"

definition be32_at :: "bytes \<Rightarrow> nat \<Rightarrow> u32" where
  "be32_at xs i = push_bit 24 (ucast (xs ! i)) OR push_bit 16 (ucast (xs ! (i + 1)))
     OR push_bit 8 (ucast (xs ! (i + 2))) OR ucast (xs ! (i + 3))"

definition be64_at :: "bytes \<Rightarrow> nat \<Rightarrow> u64" where
  "be64_at xs i = push_bit 56 (ucast (xs ! i)) OR push_bit 48 (ucast (xs ! (i + 1)))
     OR push_bit 40 (ucast (xs ! (i + 2))) OR push_bit 32 (ucast (xs ! (i + 3)))
     OR push_bit 24 (ucast (xs ! (i + 4))) OR push_bit 16 (ucast (xs ! (i + 5)))
     OR push_bit 8 (ucast (xs ! (i + 6))) OR ucast (xs ! (i + 7))"

definition le32_at :: "bytes \<Rightarrow> nat \<Rightarrow> u32" where
  "le32_at xs i = be32_at (rev (take 4 (drop i xs))) 0"

definition le64_at :: "bytes \<Rightarrow> nat \<Rightarrow> u64" where
  "le64_at xs i = be64_at (rev (take 8 (drop i xs))) 0"

lemma length_put_be [simp]:
  "length (put_be16 v16) = 2" "length (put_be32 v32) = 4" "length (put_be64 v64) = 8"
  by (simp_all add: put_be16_def put_be32_def put_be64_def)

lemma length_put_le [simp]: "length (put_le32 v32) = 4" "length (put_le64 v64) = 8"
  by (simp_all add: put_le32_def put_le64_def)

text \<open>One byte of a word, shifted back into place, is that word restricted to the byte.\<close>

lemma byte_slice_bit:
  fixes v :: "'a::len word"
  shows "bit (push_bit k (ucast (ucast (drop_bit k v) :: byte)) :: 'a word) n
     \<longleftrightarrow> k \<le> n \<and> n < k + 8 \<and> bit v n"
  by (auto simp: bit_simps dest: bit_imp_le_length)

lemma byte_slice_bit0:
  fixes v :: "'a::len word"
  shows "bit (ucast (ucast v :: byte) :: 'a word) n \<longleftrightarrow> n < 8 \<and> bit v n"
  by (auto simp: bit_simps dest: bit_imp_le_length)

lemma be16_join:
  "push_bit 8 (ucast (ucast (drop_bit 8 v) :: byte)) OR ucast (ucast v :: byte) = (v :: u16)"
  by (rule bit_word_eqI) (auto simp: bit_or_iff byte_slice_bit byte_slice_bit0)

lemma be32_join:
  "push_bit 24 (ucast (ucast (drop_bit 24 v) :: byte))
     OR push_bit 16 (ucast (ucast (drop_bit 16 v) :: byte))
     OR push_bit 8 (ucast (ucast (drop_bit 8 v) :: byte)) OR ucast (ucast v :: byte) = (v :: u32)"
  by (rule bit_word_eqI) (auto simp: bit_or_iff byte_slice_bit byte_slice_bit0)

lemma be64_join:
  "push_bit 56 (ucast (ucast (drop_bit 56 v) :: byte))
     OR push_bit 48 (ucast (ucast (drop_bit 48 v) :: byte))
     OR push_bit 40 (ucast (ucast (drop_bit 40 v) :: byte))
     OR push_bit 32 (ucast (ucast (drop_bit 32 v) :: byte))
     OR push_bit 24 (ucast (ucast (drop_bit 24 v) :: byte))
     OR push_bit 16 (ucast (ucast (drop_bit 16 v) :: byte))
     OR push_bit 8 (ucast (ucast (drop_bit 8 v) :: byte)) OR ucast (ucast v :: byte) = (v :: u64)"
  by (rule bit_word_eqI) (auto simp: bit_or_iff byte_slice_bit byte_slice_bit0)

lemma be16_at_put: "i = length pre \<Longrightarrow> be16_at (pre @ put_be16 v @ post) i = v"
  by (simp add: be16_at_def put_be16_def nth_append be16_join)

lemma be32_at_put: "i = length pre \<Longrightarrow> be32_at (pre @ put_be32 v @ post) i = v"
  by (simp add: be32_at_def put_be32_def nth_append be32_join)

lemma be64_at_put: "i = length pre \<Longrightarrow> be64_at (pre @ put_be64 v @ post) i = v"
  by (simp add: be64_at_def put_be64_def nth_append be64_join)

lemma le32_at_put: "i = length pre \<Longrightarrow> le32_at (pre @ put_le32 v @ post) i = v"
  using be32_at_put [of 0 "[]" v "[]"] by (simp add: le32_at_def put_le32_def)

lemma le64_at_put: "i = length pre \<Longrightarrow> le64_at (pre @ put_le64 v @ post) i = v"
  using be64_at_put [of 0 "[]" v "[]"] by (simp add: le64_at_def put_le64_def)

lemmas be_at_put = be16_at_put be32_at_put be64_at_put le32_at_put le64_at_put

lemma be16_at_append [simp]: "be16_at (pre @ xs) (length pre + i) = be16_at xs i"
  by (simp add: be16_at_def nth_append)

lemma be32_at_append [simp]: "be32_at (pre @ xs) (length pre + i) = be32_at xs i"
  by (simp add: be32_at_def nth_append)

lemma be64_at_append [simp]: "be64_at (pre @ xs) (length pre + i) = be64_at xs i"
  by (simp add: be64_at_def nth_append)

text \<open>The other direction: storing a word that was read gives back the bytes.\<close>

lemma take_drop_Cons: "i + Suc n \<le> length xs \<Longrightarrow> take (Suc n) (drop i xs) = xs ! i # take n (drop (Suc i) xs)"
  by (simp add: take_Suc_conv_app_nth Cons_nth_drop_Suc [symmetric])

lemma take_drop_nths:
  "i + 2 \<le> length xs \<Longrightarrow> take 2 (drop i xs) = [xs ! i, xs ! (i + 1)]"
  "i + 4 \<le> length xs \<Longrightarrow> take 4 (drop i xs) = [xs ! i, xs ! (i + 1), xs ! (i + 2), xs ! (i + 3)]"
  "i + 8 \<le> length xs \<Longrightarrow> take 8 (drop i xs) = [xs ! i, xs ! (i + 1), xs ! (i + 2), xs ! (i + 3),
     xs ! (i + 4), xs ! (i + 5), xs ! (i + 6), xs ! (i + 7)]"
  by (simp_all add: take_drop_Cons eval_nat_numeral)

lemma byte_of_slice:
  "(\<And>n. n < 8 \<Longrightarrow> bit v (k + n) \<longleftrightarrow> bit b n) \<Longrightarrow> ucast (drop_bit k (v :: 'a::len word)) = (b :: byte)"
  by (rule bit_word_eqI) (simp add: bit_ucast_iff bit_drop_bit_eq)

lemma byte_of_slice0:
  "(\<And>n. n < 8 \<Longrightarrow> bit v n \<longleftrightarrow> bit b n) \<Longrightarrow> ucast (v :: 'a::len word) = (b :: byte)"
  by (rule bit_word_eqI) (simp add: bit_ucast_iff)

lemma bit_byte_8 [simp]: "8 \<le> n \<Longrightarrow> \<not> bit (b :: byte) n"
  using bit_imp_le_length [of b n] by auto

lemma bit_slot:
  "bit (push_bit k (ucast (b :: byte)) :: 'a::len word) n
     \<longleftrightarrow> k \<le> n \<and> n < LENGTH('a) \<and> n < k + 8 \<and> bit b (n - k)"
  by (auto simp: bit_push_bit_iff bit_ucast_iff not_le dest: bit_imp_le_length)

lemma bit_slot0:
  "bit (ucast (b :: byte) :: 'a::len word) n \<longleftrightarrow> n < LENGTH('a) \<and> n < 8 \<and> bit b n"
  by (auto simp: bit_ucast_iff dest: bit_imp_le_length)

lemma put_be16_at: "i + 2 \<le> length xs \<Longrightarrow> put_be16 (be16_at xs i) = take 2 (drop i xs)"
  unfolding put_be16_def be16_at_def take_drop_nths
  by (intro list.inject [THEN iffD2] conjI refl byte_of_slice byte_of_slice0)
    (simp_all only: bit_or_iff bit_slot bit_slot0, auto)

lemma put_be32_at: "i + 4 \<le> length xs \<Longrightarrow> put_be32 (be32_at xs i) = take 4 (drop i xs)"
  unfolding put_be32_def be32_at_def take_drop_nths
  by (intro list.inject [THEN iffD2] conjI refl byte_of_slice byte_of_slice0)
    (simp_all only: bit_or_iff bit_slot bit_slot0, auto)

lemma put_be64_at: "i + 8 \<le> length xs \<Longrightarrow> put_be64 (be64_at xs i) = take 8 (drop i xs)"
  unfolding put_be64_def be64_at_def take_drop_nths
  by (intro list.inject [THEN iffD2] conjI refl byte_of_slice byte_of_slice0)
    (simp_all only: bit_or_iff bit_slot bit_slot0, auto)

lemmas put_be_at = put_be16_at put_be32_at put_be64_at

end
