(* ===== verification/Ack_Window.thy ===== *)
theory Ack_Window
  imports Golem_Prelude
begin

text \<open>
  Sequence numbers and selective acknowledgements of the datagram protocol
  (\<^verbatim>\<open>golem/net/datagram_protocol.go\<close>, \<^verbatim>\<open>datagram_receiver.go\<close>,
  \<^verbatim>\<open>datagram_sender.go\<close>): the 16-bit serial order, the 128-bit mask \<open>ackMask128\<close>, the
  duplicate-suppressing \<open>sequenceWindow\<close> and the sender's reading of an acknowledgement,
  \<open>packetAckState\<close>.  The specification of a window is the set \<open>seen\<close> of the sequence
  numbers it remembers.
\<close>

unbundle bit_operations_syntax

section \<open>Constants\<close>

definition datagramAckMaskWordCount :: nat where
  "datagramAckMaskWordCount = 4"

definition datagramAckMaskWordBytes :: nat where
  "datagramAckMaskWordBytes = 4"

definition datagramPacketAckWindow :: nat where
  "datagramPacketAckWindow = datagramAckMaskWordCount * 32"

lemma ack_consts [simp]:
  "datagramAckMaskWordCount = 4" "datagramAckMaskWordBytes = 4" "datagramPacketAckWindow = 128"
  by (simp_all add: datagramAckMaskWordCount_def datagramAckMaskWordBytes_def
      datagramPacketAckWindow_def)

section \<open>The 128-bit mask\<close>

text \<open>\<^verbatim>\<open>[4]uint32\<close>: a list of four words (\<open>mask_wf\<close>).\<close>

type_synonym ackMask128 = "u32 list"

definition mask_zero :: ackMask128 where
  "mask_zero = replicate datagramAckMaskWordCount 0"

definition mask_wf :: "ackMask128 \<Rightarrow> bool" where
  "mask_wf m \<longleftrightarrow> length m = datagramAckMaskWordCount"

definition setBit :: "ackMask128 \<Rightarrow> int \<Rightarrow> ackMask128" where
  "setBit m b =
     (if b < 0 \<or> b \<ge> int datagramPacketAckWindow then m
      else let word = nat b div 32; shift = nat b mod 32
           in m[word := m ! word OR push_bit shift 1])"

definition hasBit :: "ackMask128 \<Rightarrow> int \<Rightarrow> bool" where
  "hasBit m b =
     (if b < 0 \<or> b \<ge> int datagramPacketAckWindow then False
      else let word = nat b div 32; shift = nat b mod 32
           in m ! word AND push_bit shift 1 \<noteq> 0)"

definition shiftLeft :: "ackMask128 \<Rightarrow> int \<Rightarrow> ackMask128" where
  "shiftLeft m bits =
     (if bits \<le> 0 then m
      else if bits \<ge> int datagramPacketAckWindow then mask_zero
      else let wordShift = nat bits div 32; bitShift = nat bits mod 32
           in map (\<lambda>i. if i < wordShift then 0
                       else let src = i - wordShift; x = push_bit bitShift (m ! src)
                            in if bitShift > 0 \<and> src > 0
                               then x OR drop_bit (32 - bitShift) (m ! (src - 1)) else x)
                [0..<datagramAckMaskWordCount])"

section \<open>Serial order\<close>

definition seqDistance :: "u16 \<Rightarrow> u16 \<Rightarrow> u16" where
  "seqDistance older newer = newer - older"

definition seqGreater :: "u16 \<Rightarrow> u16 \<Rightarrow> bool" where
  "seqGreater a b \<longleftrightarrow>
     a \<noteq> b \<and> ((a > b \<and> a - b \<le> push_bit 15 1) \<or> (a < b \<and> b - a > push_bit 15 1))"

section \<open>The duplicate window\<close>

record sequenceWindow =
  sw_init :: bool
  sw_latest :: u16
  sw_mask :: ackMask128

definition sw_new :: sequenceWindow where
  "sw_new = \<lparr>sw_init = False, sw_latest = 0, sw_mask = mask_zero\<rparr>"

definition sw_accept :: "sequenceWindow \<Rightarrow> u16 \<Rightarrow> bool \<times> sequenceWindow" where
  "sw_accept w seq =
     (if \<not> sw_init w then (True, \<lparr>sw_init = True, sw_latest = seq, sw_mask = mask_zero\<rparr>)
      else if seq = sw_latest w then (False, w)
      else if seqGreater seq (sw_latest w)
        then let delta = seqDistance (sw_latest w) seq;
                 mask = (if unat delta > datagramPacketAckWindow then mask_zero
                         else setBit (shiftLeft (sw_mask w) (int (unat delta))) (int (unat (delta - 1))))
             in (True, w\<lparr>sw_mask := mask, sw_latest := seq\<rparr>)
      else let delta = seqDistance seq (sw_latest w)
           in if delta = 0 \<or> unat delta > datagramPacketAckWindow then (False, w)
              else if hasBit (sw_mask w) (int (unat (delta - 1))) then (False, w)
              else (True, w\<lparr>sw_mask := setBit (sw_mask w) (int (unat (delta - 1)))\<rparr>))"

section \<open>Reading an acknowledgement\<close>

datatype packetAckStatus = packetAckPending | packetAckDelivered | packetAckLost

definition packetAckState :: "u16 \<Rightarrow> u16 \<Rightarrow> ackMask128 \<Rightarrow> packetAckStatus" where
  "packetAckState packetSeq ackSeq ackMask =
     (if packetSeq = ackSeq then packetAckDelivered
      else if \<not> seqGreater ackSeq packetSeq then packetAckPending
      else let delta = seqDistance packetSeq ackSeq
           in if delta = 0 then packetAckPending
              else if unat delta > datagramPacketAckWindow then packetAckLost
              else if hasBit ackMask (int (unat (delta - 1))) then packetAckDelivered
              else packetAckLost)"

section \<open>Mask laws\<close>

lemma mask_wf_zero [simp, inv_intros]: "mask_wf mask_zero"
  by (simp add: mask_wf_def mask_zero_def)

lemma mask_wf_setBit [simp, inv_intros]: "mask_wf m \<Longrightarrow> mask_wf (setBit m b)"
  by (simp add: mask_wf_def setBit_def Let_def)

lemma mask_wf_shiftLeft [simp, inv_intros]: "mask_wf m \<Longrightarrow> mask_wf (shiftLeft m b)"
  by (simp add: mask_wf_def shiftLeft_def mask_zero_def Let_def)

lemma and_exp_bit: "x AND 2 ^ k \<noteq> 0 \<longleftrightarrow> bit x k" if "k < 32" for x :: u32
  using that by (simp add: bit_iff_and_push_bit_not_eq_0)

lemma hasBit_bit:
  "hasBit m (int k) \<longleftrightarrow> k < 128 \<and> bit (m ! (k div 32)) (k mod 32)"
  by (auto simp: hasBit_def Let_def and_exp_bit)

lemma hasBit_zero [simp]: "\<not> hasBit mask_zero b"
  by (auto simp: hasBit_def mask_zero_def Let_def)

lemma hasBit_range: "hasBit m b \<Longrightarrow> 0 \<le> b \<and> b < 128"
  by (auto simp: hasBit_def split: if_splits)

lemma hasBit_setBit:
  assumes "mask_wf m" and "b < 128"
  shows "hasBit (setBit m (int b)) (int k) \<longleftrightarrow> k = b \<or> hasBit m (int k)"
proof -
  have k: "k = b" if "k div 32 = b div 32" "k mod 32 = b mod 32"
    using that by (metis div_mod_decomp)
  show ?thesis
    using assms k
    by (auto simp: hasBit_bit setBit_def Let_def mask_wf_def nth_list_update bit_or_iff
        bit_exp_iff)
qed

text \<open>One word of a shifted mask, bit by bit.\<close>

lemma shiftLeft_word:
  assumes "mask_wf m" and "0 < s" and "s < 128" and "i < 4" and "j < 32"
  shows "bit (shiftLeft m (int s) ! i) j \<longleftrightarrow>
    (\<exists>k. k + s = 32 * i + j \<and> bit (m ! (k div 32)) (k mod 32))"
proof -
  let ?w = "s div 32" and ?b = "s mod 32"
  have s: "s = 32 * ?w + ?b" by simp
  have dm: "(32 * a + c) div 32 = a" "(32 * a + c) mod 32 = c" if "c < 32" for a c :: nat
    using that by simp_all
  consider "i < ?w" | "?w \<le> i" "?b \<le> j" | "?w < i" "j < ?b" | "?w = i" "j < ?b" by linarith
  then show ?thesis
  proof cases
    case 1
    then have "32 * i + j < s" using assms(5) s by linarith
    then show ?thesis using 1 assms by (auto simp: shiftLeft_def Let_def)
  next
    case 2
    have c: "j - ?b < 32" using assms(5) by simp
    have "32 * i = 32 * ?w + 32 * (i - ?w)" and "j = ?b + (j - ?b)"
      using 2 by (simp_all flip: add_mult_distrib2)
    then have k: "k + s = 32 * i + j \<longleftrightarrow> k = 32 * (i - ?w) + (j - ?b)" for k
      using s by linarith
    have "(\<exists>k. k + s = 32 * i + j \<and> bit (m ! (k div 32)) (k mod 32)) \<longleftrightarrow> bit (m ! (i - ?w)) (j - ?b)"
      unfolding k by (simp only: simp_thms dm [OF c])
    then show ?thesis
      using 2 assms(2-5)
      by (auto simp: shiftLeft_def Let_def bit_simps dest: bit_imp_le_length)
  next
    case 3
    have c: "32 + j - ?b < 32" using 3 by simp
    have "32 * i = 32 * ?w + 32 * (i - ?w - 1) + 32" and "32 + j = ?b + (32 + j - ?b)"
      using 3 by (simp_all add: algebra_simps)
    then have k: "k + s = 32 * i + j \<longleftrightarrow> k = 32 * (i - ?w - 1) + (32 + j - ?b)" for k
      using s by linarith
    have "(\<exists>k. k + s = 32 * i + j \<and> bit (m ! (k div 32)) (k mod 32))
        \<longleftrightarrow> bit (m ! (i - ?w - 1)) (32 + j - ?b)"
      unfolding k by (simp only: simp_thms dm [OF c])
    then show ?thesis
      using 3 assms(2-5)
      by (auto simp: shiftLeft_def Let_def bit_simps algebra_simps)
  next
    case 4
    then have "32 * i + j < s" using s by linarith
    then show ?thesis using 4 assms(2-5) by (auto simp: shiftLeft_def Let_def bit_simps)
  qed
qed

lemma hasBit_shiftLeft:
  assumes "mask_wf m"
  shows "hasBit (shiftLeft m (int s)) (int k) \<longleftrightarrow> s \<le> k \<and> k < 128 \<and> hasBit m (int (k - s))"
proof -
  consider "s = 0" | "128 \<le> s" | "0 < s" "s < 128" by linarith
  then show ?thesis
  proof cases
    case 1
    then show ?thesis by (auto simp: shiftLeft_def hasBit_bit)
  next
    case 2
    then show ?thesis by (simp add: shiftLeft_def)
  next
    case 3
    have e: "k' + s = k \<longleftrightarrow> s \<le> k \<and> k' = k - s" for k' by auto
    show ?thesis
      using shiftLeft_word [OF assms 3, of "k div 32" "k mod 32"]
      by (auto simp: hasBit_bit e)
  qed
qed

declare of_nat_unat [simp del]

section \<open>Serial-order laws\<close>

lemma unat_diff_16:
  "unat (a - b :: u16) = (if b \<le> a then unat a - unat b else 65536 + unat a - unat b)"
  by (auto simp: unat_sub_if_size word_size word_le_nat_alt)

lemma unat_16_bound: "unat (a :: u16) < 65536"
  using unsigned_less [where 'a = nat, of a] by simp

lemma seqGreater_dist:
  "seqGreater a b \<longleftrightarrow>
     a \<noteq> b \<and> (unat (a - b) < 32768 \<or> unat (a - b) = 32768 \<and> b < a)"
  using unat_16_bound [of a] unat_16_bound [of b]
  by (auto simp: seqGreater_def unat_diff_16 word_less_nat_alt word_le_nat_alt word_unat_eq_iff)

lemma seqGreater_tournament: "a \<noteq> b \<Longrightarrow> seqGreater a b = (\<not> seqGreater b a)"
  using unat_16_bound [of a] unat_16_bound [of b]
  by (auto simp: seqGreater_def unat_diff_16 word_less_nat_alt word_le_nat_alt word_unat_eq_iff)

lemma seqGreater_ahead:
  assumes "0 < d" and "d < 32768"
  shows "seqGreater (a + of_nat d) a \<and> \<not> seqGreater a (a + of_nat d)"
proof -
  have u: "unat (of_nat d :: u16) = d"
    using assms by (simp add: unsigned_of_nat take_bit_nat_eq_self)
  then have "a + of_nat d \<noteq> a" using assms by auto
  with u assms show ?thesis
    using seqGreater_tournament [of "a + of_nat d" a] by (auto simp: seqGreater_dist)
qed

text \<open>
  The 16-bit serial comparison is a tournament: of two different sequence numbers exactly
  one is the greater, also when they are half the number space apart; and a number less than
  half the space ahead of another is always greater, across the wrap-around.
\<close>

theorem seqGreater_serial:
  "(a \<noteq> b \<longrightarrow> seqGreater a b = (\<not> seqGreater b a)) \<and> \<not> seqGreater a a
   \<and> (0 < d \<and> d < 32768 \<longrightarrow> seqGreater (a + of_nat d) a \<and> \<not> seqGreater a (a + of_nat d))"
  using seqGreater_tournament seqGreater_ahead by (auto simp: seqGreater_def)

theorem seqGreater_serial_witness:
  "seqGreater (65530 + of_nat 10) 65530 \<and> seqGreater 0 1 = (\<not> seqGreater 1 0)"
  using seqGreater_serial [of 65530 0 10] seqGreater_serial [of 0 1 1] by simp

section \<open>The window remembers the last 128 sequence numbers\<close>

definition sw_wf :: "sequenceWindow \<Rightarrow> bool" where
  "sw_wf w \<longleftrightarrow> mask_wf (sw_mask w) \<and> (\<not> sw_init w \<longrightarrow> sw_latest w = 0 \<and> sw_mask w = mask_zero)"

text \<open>The sequence numbers an acknowledgement \<open>(latest, mask)\<close> stands for.\<close>

definition acked :: "u16 \<Rightarrow> ackMask128 \<Rightarrow> u16 set" where
  "acked latest am = {s. s = latest \<or>
     (\<exists>k < 128. unat (latest - s) = Suc k \<and> hasBit am (int k))}"

definition seen :: "sequenceWindow \<Rightarrow> u16 set" where
  "seen w = (if sw_init w then acked (sw_latest w) (sw_mask w) else {})"

lemma sw_wf_new [simp]: "sw_wf sw_new"
  by (simp add: sw_wf_def sw_new_def)

lemma sw_wf_accept [inv_intros]: "sw_wf w \<Longrightarrow> sw_wf (snd (sw_accept w seq))"
  by (auto simp: sw_wf_def sw_accept_def Let_def)

lemma unat_pred_16: "d \<noteq> 0 \<Longrightarrow> unat (d - 1 :: u16) = unat d - 1"
  by (simp add: unat_minus_one)

lemma acked_iff:
  "s \<in> acked latest am \<longleftrightarrow>
     s = latest \<or> (s \<noteq> latest \<and> unat (latest - s) \<le> 128
       \<and> hasBit am (int (unat (latest - s - 1))))"
proof (cases "s = latest")
  case False
  then have p: "unat (latest - s) = Suc (unat (latest - s - 1))"
    using unat_gt_0 [of "latest - s"] by (simp add: unat_pred_16)
  then show ?thesis using False by (auto simp: acked_def)
qed (simp add: acked_def)

text \<open>
  The sender's reading of an acknowledgement agrees with the receiver's window: given the
  \<open>latest\<close> and \<open>mask\<close> of an initialised window, the sender takes a packet for delivered
  exactly when the window has seen it, and for lost only when it is older than \<open>latest\<close> and
  the window does not remember it.
\<close>

theorem ack_state_spec:
  assumes "sw_init w"
  shows "(packetAckState p (sw_latest w) (sw_mask w) = packetAckDelivered \<longleftrightarrow> p \<in> seen w)
    \<and> (packetAckState p (sw_latest w) (sw_mask w) = packetAckLost
         \<longleftrightarrow> p \<notin> seen w \<and> seqGreater (sw_latest w) p)"
proof -
  have near: "seqGreater (sw_latest w) p" if "p \<noteq> sw_latest w" "unat (sw_latest w - p) \<le> 128"
    using that by (simp add: seqGreater_dist)
  show ?thesis
  proof (cases "p = sw_latest w")
    case True
    then show ?thesis using assms by (simp add: packetAckState_def seen_def acked_iff seqGreater_def)
  next
    case False
    then show ?thesis using assms near [OF False]
      by (auto simp: packetAckState_def seen_def acked_iff seqDistance_def Let_def)
  qed
qed

theorem ack_state_spec_witness:
  "packetAckState 3 5 [2, 0, 0, 0] = packetAckDelivered"
  using ack_state_spec [of "\<lparr>sw_init = True, sw_latest = 5, sw_mask = [2, 0, 0, 0]\<rparr>" 3]
  by (simp add: seen_def acked_iff hasBit_def)

lemma unat_diff_inj: "unat (l - s) = unat (l - t) \<longleftrightarrow> s = t" for l :: u16
  by (simp add: word_unat_eq_iff [symmetric])

lemma acked_dist:
  "s \<in> acked l am \<longleftrightarrow> s = l \<or>
     (0 < unat (l - s) \<and> unat (l - s) \<le> 128 \<and> hasBit am (int (unat (l - s) - 1)))"
  by (cases "unat (l - s)") (auto simp: acked_def)

lemma acked_near: "s \<in> acked l am \<Longrightarrow> unat (l - s) \<le> 128"
  by (auto simp: acked_iff)

lemma accept_newer:
  assumes wf: "sw_wf w" and "sw_init w" and g: "seqGreater seq (sw_latest w)"
  shows "seen (snd (sw_accept w seq)) = {s \<in> insert seq (seen w). unat (seq - s) \<le> 128}"
proof -
  let ?l = "sw_latest w" and ?d = "seq - sw_latest w"
  have ne: "seq \<noteq> ?l" using g by (simp add: seqGreater_def)
  then have d0: "0 < unat ?d" by (simp add: unat_gt_0)
  have dle: "unat ?d \<le> 32768" using g by (auto simp: seqGreater_dist)
  have sum: "unat (seq - s) = unat ?d + unat (?l - s)" if "unat (?l - s) \<le> 128" for s
  proof -
    have "seq - s = ?d + (?l - s)" by simp
    then show ?thesis using that dle by (simp only: unat_word_ariths) simp
  qed
  show ?thesis
  proof (cases "unat ?d > 128")
    case True
    then have "seen (snd (sw_accept w seq)) = {seq}"
      using assms ne by (auto simp: sw_accept_def seqDistance_def seen_def acked_def Let_def)
    moreover have "\<not> unat (seq - s) \<le> 128" if "s \<in> seen w" for s
      using that assms True sum [of s] by (auto simp: seen_def dest: acked_near)
    ultimately show ?thesis by auto
  next
    case False
    let ?m = "setBit (shiftLeft (sw_mask w) (int (unat ?d))) (int (unat ?d - 1))"
    have m: "hasBit ?m (int k) \<longleftrightarrow> k = unat ?d - 1 \<or>
        (unat ?d \<le> k \<and> k < 128 \<and> hasBit (sw_mask w) (int (k - unat ?d)))" for k
      using False wf by (subst hasBit_setBit) (auto simp: hasBit_shiftLeft sw_wf_def)
    have pred: "int (unat (?d - 1)) = int (unat ?d - 1)"
      using ne by (simp add: unat_pred_16)
    have new: "seen (snd (sw_accept w seq)) = acked seq ?m"
      using assms ne False
      by (simp add: sw_accept_def seqDistance_def seen_def Let_def pred)
    have inv: "unat (?l - s) = unat (seq - s) - unat ?d"
      if "unat ?d \<le> unat (seq - s)" for s
    proof -
      have "?l - s = (seq - s) - ?d" by simp
      then show ?thesis using that
        by (metis word_le_nat_alt unat_sub)
    qed
    show ?thesis
    proof (rule set_eqI)
      fix s
      show "s \<in> seen (snd (sw_accept w seq)) \<longleftrightarrow> s \<in> {s \<in> insert seq (seen w). unat (seq - s) \<le> 128}"
      proof (cases "s = seq")
        case False
        have p0: "0 < unat (seq - s)" using False by (simp add: unat_gt_0)
        have eqd: "unat (seq - s) - 1 = unat ?d - 1 \<longleftrightarrow> s = ?l"
          using p0 d0 unat_diff_inj [of seq s ?l] by linarith
        have "s \<in> acked seq ?m \<longleftrightarrow>
          unat (seq - s) \<le> 128 \<and> (s = ?l \<or> unat ?d < unat (seq - s) \<and>
            hasBit (sw_mask w) (int (unat (seq - s) - 1 - unat ?d)))"
          using False d0 p0 \<open>\<not> unat ?d > 128\<close> unfolding acked_dist m eqd by auto
        also have "\<dots> \<longleftrightarrow> unat (seq - s) \<le> 128 \<and> s \<in> acked ?l (sw_mask w)"
        proof (cases "s = ?l")
          case sl: False
          have 1: "\<exists>k<128. unat (?l - s) = Suc k \<and> hasBit (sw_mask w) (int k)"
            if "unat (seq - s) \<le> 128" "unat ?d < unat (seq - s)"
              "hasBit (sw_mask w) (int (unat (seq - s) - 1 - unat ?d))"
            using that inv [of s] by (intro exI [of _ "unat (seq - s) - 1 - unat ?d"]) auto
          have 2: "unat ?d < unat (seq - s) \<and> hasBit (sw_mask w) (int (unat (seq - s) - 1 - unat ?d))"
            if "k < 128" "unat (?l - s) = Suc k" "hasBit (sw_mask w) (int k)" for k
            using that sum [of s] by auto
          show ?thesis using sl 1 2 by (auto simp: acked_def)
        qed (simp add: acked_def)
        finally show ?thesis using False assms new by (auto simp: seen_def)
      qed (simp add: new acked_def)
    qed
  qed
qed

lemma accept_older:
  assumes wf: "sw_wf w" and "sw_init w" and "seq \<noteq> sw_latest w"
    and g: "\<not> seqGreater seq (sw_latest w)"
  shows "fst (sw_accept w seq) \<longleftrightarrow> seq \<notin> seen w \<and> unat (sw_latest w - seq) \<le> 128"
    and "fst (sw_accept w seq) \<Longrightarrow> sw_latest (snd (sw_accept w seq)) = sw_latest w
      \<and> seen (snd (sw_accept w seq)) = insert seq (seen w)"
proof -
  let ?d = "sw_latest w - seq"
  have d0: "?d \<noteq> 0" using assms by simp
  show 1: "fst (sw_accept w seq) \<longleftrightarrow> seq \<notin> seen w \<and> unat (sw_latest w - seq) \<le> 128"
    using assms d0 by (auto simp: sw_accept_def seqDistance_def seen_def acked_iff Let_def)
  assume a: "fst (sw_accept w seq)"
  then have le: "unat ?d \<le> 128" using 1 by simp
  have w': "snd (sw_accept w seq) = w\<lparr>sw_mask := setBit (sw_mask w) (int (unat ?d - 1))\<rparr>"
    using a assms d0
    by (auto simp: sw_accept_def seqDistance_def Let_def unat_pred_16 split: if_splits)
  have m: "hasBit (setBit (sw_mask w) (int (unat ?d - 1))) (int k)
      \<longleftrightarrow> k = unat ?d - 1 \<or> hasBit (sw_mask w) (int k)" for k
    using wf le d0 by (subst hasBit_setBit) (auto simp: sw_wf_def unat_gt_0)
  have d1: "0 < unat ?d" using d0 by (simp add: unat_gt_0)
  have "s \<in> acked (sw_latest w) (setBit (sw_mask w) (int (unat ?d - 1)))
      \<longleftrightarrow> s \<in> insert seq (acked (sw_latest w) (sw_mask w))" for s
  proof (cases "unat (sw_latest w - s)")
    case 0
    then show ?thesis by (simp add: acked_dist unat_eq_zero)
  next
    case (Suc k)
    have "s = seq \<longleftrightarrow> Suc k - 1 = unat ?d - 1"
      using Suc d1 unat_diff_inj [of "sw_latest w" s seq] by linarith
    then show ?thesis using le d1 unfolding acked_dist m insert_iff Suc by auto
  qed
  then have "acked (sw_latest w) (setBit (sw_mask w) (int (unat ?d - 1)))
      = insert seq (acked (sw_latest w) (sw_mask w))" by blast
  then show "sw_latest (snd (sw_accept w seq)) = sw_latest w
      \<and> seen (snd (sw_accept w seq)) = insert seq (seen w)"
    using w' assms by (simp add: seen_def)
qed

text \<open>Offering the same number again is always refused.\<close>

lemma sw_accept_again:
  assumes "sw_wf w"
  shows "\<not> fst (sw_accept (snd (sw_accept w seq)) seq)"
proof (cases "sw_init w \<and> seq \<noteq> sw_latest w \<and> \<not> seqGreater seq (sw_latest w)")
  case True
  let ?d = "sw_latest w - seq"
  have "hasBit (setBit (sw_mask w) (int (unat (?d - 1)))) (int (unat (?d - 1)))"
    if "unat ?d \<le> 128" "?d \<noteq> 0"
    using that assms hasBit_setBit [of "sw_mask w" "unat (?d - 1)" "unat (?d - 1)"]
    by (simp add: sw_wf_def unat_pred_16 del: of_nat_diff)
  with True show ?thesis
    by (auto simp: sw_accept_def seqDistance_def Let_def)
next
  case False
  then show ?thesis by (auto simp: sw_accept_def Let_def)
qed

text \<open>
  C8.  What \<open>accept\<close> does to the set of remembered numbers.  A number is refused exactly when it is
  already remembered or is older than \<open>latest\<close> by more than the 128 numbers the mask covers;
  a refusal changes nothing.  An accepted number is added, and only numbers within 128 of the
  new \<open>latest\<close> stay remembered.
\<close>

theorem accept_spec:
  assumes "sw_wf w"
  shows "(fst (sw_accept w seq) \<longleftrightarrow>
      \<not> sw_init w \<or> (seq \<notin> seen w \<and> (seqGreater seq (sw_latest w) \<or> unat (sw_latest w - seq) \<le> 128)))
    \<and> (\<not> fst (sw_accept w seq) \<longrightarrow> snd (sw_accept w seq) = w)
    \<and> (fst (sw_accept w seq) \<longrightarrow>
         seen (snd (sw_accept w seq))
           = {s \<in> insert seq (seen w). unat (sw_latest (snd (sw_accept w seq)) - s) \<le> 128})"
proof -
  have far: "\<not> seqGreater seq (sw_latest w)" if "s = seq" "seq \<in> acked (sw_latest w) am" for s am
    using that acked_near [OF that(2)] unat_16_bound [of seq] unat_16_bound [of "sw_latest w"]
    by (auto simp: seqGreater_dist unat_diff_16 split: if_splits)
  consider "\<not> sw_init w" | "sw_init w" "seq = sw_latest w"
    | "sw_init w" "seqGreater seq (sw_latest w)"
    | "sw_init w" "seq \<noteq> sw_latest w" "\<not> seqGreater seq (sw_latest w)" by blast
  then show ?thesis
  proof cases
    case 1
    then show ?thesis by (auto simp: sw_accept_def seen_def acked_def)
  next
    case 2
    then show ?thesis by (simp add: sw_accept_def seen_def acked_def)
  next
    case 3
    then have "fst (sw_accept w seq)" "sw_latest (snd (sw_accept w seq)) = seq"
      by (auto simp: sw_accept_def seqGreater_def Let_def)
    moreover have "seq \<notin> seen w" using 3 far by (auto simp: seen_def)
    ultimately show ?thesis using 3 accept_newer [OF assms 3] by simp
  next
    case 4
    have "\<not> fst (sw_accept w seq) \<longrightarrow> snd (sw_accept w seq) = w"
      using 4 by (auto simp: sw_accept_def Let_def)
    then show ?thesis
      using 4 accept_older [OF assms 4] by (auto simp: seen_def dest: acked_near)
  qed
qed

theorem accept_spec_witness:
  "fst (sw_accept \<lparr>sw_init = True, sw_latest = 5, sw_mask = [2, 0, 0, 0]\<rparr> 4)
   \<and> \<not> fst (sw_accept \<lparr>sw_init = True, sw_latest = 5, sw_mask = [2, 0, 0, 0]\<rparr> 3)"
  using accept_spec [of "\<lparr>sw_init = True, sw_latest = 5, sw_mask = [2, 0, 0, 0]\<rparr>" 4]
    accept_spec [of "\<lparr>sw_init = True, sw_latest = 5, sw_mask = [2, 0, 0, 0]\<rparr>" 3]
  by (simp add: sw_wf_def mask_wf_def seen_def acked_iff hasBit_def)

text \<open>
  The window of an endpoint that has received nothing reads, on the peer's side, as an
  acknowledgement of packet 0: \<open>packetAckState\<close> says delivered, although the window has seen
  no packet.  The wire header has no bit for an uninitialised window.
\<close>

theorem fresh_window_acks_zero:
  "packetAckState 0 (sw_latest sw_new) (sw_mask sw_new) = packetAckDelivered \<and> seen sw_new = {}"
  by (simp add: packetAckState_def sw_new_def seen_def)

declare of_nat_unat [simp]

end
