(* ===== verification/Datagram_Codec.thy ===== *)
theory Datagram_Codec
  imports Go_Binary Ack_Window
begin

text \<open>
  The datagram wire format (\<^verbatim>\<open>golem/net/datagram_codec.go\<close>, with the size constants of
  \<^verbatim>\<open>datagram_protocol.go\<close> and \<^verbatim>\<open>payload.go\<close>).  The encoder writes into a caller
  supplied buffer when its capacity suffices; the model keeps that buffer and every write into
  it.  The lemmas show that the bytes do not depend on the buffer, that no packet is larger
  than a WebTransport datagram, and that decoding inverts encoding on every lane.
\<close>

unbundle bit_operations_syntax

section \<open>Sizes, dp_flags and lanes\<close>

definition datagramAckMaskBytes :: nat where
  "datagramAckMaskBytes = datagramAckMaskWordCount * datagramAckMaskWordBytes"

definition datagramPacketHeaderBytes :: nat where
  "datagramPacketHeaderBytes = 2 + 2 + datagramAckMaskBytes + 1"

definition datagramLaneHeaderBytes :: nat where
  "datagramLaneHeaderBytes = 1"

definition datagramReliableMessageIDBytes :: nat where
  "datagramReliableMessageIDBytes = 2"

definition datagramReliableOrderedSequenceBytes :: nat where
  "datagramReliableOrderedSequenceBytes = 2"

definition datagramEventualStateTokenBytes :: nat where
  "datagramEventualStateTokenBytes = 8"

definition maxWebTransportDatagramBytes :: nat where
  "maxWebTransportDatagramBytes = 1200"

definition maxUnreliableStateDatagramPayloadBytes :: nat where
  "maxUnreliableStateDatagramPayloadBytes = maxWebTransportDatagramBytes"

definition maxUnreliableDatagramPayloadBytes :: nat where
  "maxUnreliableDatagramPayloadBytes =
     maxWebTransportDatagramBytes - datagramPacketHeaderBytes - datagramLaneHeaderBytes"

definition maxReliableUnorderedDatagramPayloadBytes :: nat where
  "maxReliableUnorderedDatagramPayloadBytes =
     maxWebTransportDatagramBytes - datagramPacketHeaderBytes - datagramLaneHeaderBytes
       - datagramReliableMessageIDBytes"

definition maxReliableOrderedDatagramPayloadBytes :: nat where
  "maxReliableOrderedDatagramPayloadBytes =
     maxWebTransportDatagramBytes - datagramPacketHeaderBytes - datagramLaneHeaderBytes
       - datagramReliableMessageIDBytes - datagramReliableOrderedSequenceBytes"

definition maxEventualStateDatagramPayloadBytes :: nat where
  "maxEventualStateDatagramPayloadBytes =
     maxWebTransportDatagramBytes - datagramPacketHeaderBytes - datagramLaneHeaderBytes
       - datagramEventualStateTokenBytes"

lemma codec_consts [simp]:
  "datagramAckMaskBytes = 16" "datagramPacketHeaderBytes = 21" "datagramLaneHeaderBytes = 1"
  "datagramReliableMessageIDBytes = 2" "datagramReliableOrderedSequenceBytes = 2"
  "datagramEventualStateTokenBytes = 8" "maxWebTransportDatagramBytes = 1200"
  "maxUnreliableDatagramPayloadBytes = 1178" "maxReliableUnorderedDatagramPayloadBytes = 1176"
  "maxReliableOrderedDatagramPayloadBytes = 1174" "maxEventualStateDatagramPayloadBytes = 1170"
  "maxUnreliableStateDatagramPayloadBytes = 1200"
  by (simp_all add: datagramAckMaskBytes_def datagramPacketHeaderBytes_def
      datagramLaneHeaderBytes_def datagramReliableMessageIDBytes_def
      datagramReliableOrderedSequenceBytes_def datagramEventualStateTokenBytes_def
      maxWebTransportDatagramBytes_def maxUnreliableDatagramPayloadBytes_def
      maxReliableUnorderedDatagramPayloadBytes_def maxReliableOrderedDatagramPayloadBytes_def
      maxEventualStateDatagramPayloadBytes_def maxUnreliableStateDatagramPayloadBytes_def)

definition datagramFlagAckOnly :: byte where
  "datagramFlagAckOnly = 1"

text \<open>\<^verbatim>\<open>type datagramLane uint8\<close>: any byte; the four named lanes count from 1.\<close>

type_synonym datagramLane = byte

definition datagramLaneUnreliable :: datagramLane where
  "datagramLaneUnreliable = 1"

definition datagramLaneReliableUnordered :: datagramLane where
  "datagramLaneReliableUnordered = 2"

definition datagramLaneReliableOrdered :: datagramLane where
  "datagramLaneReliableOrdered = 3"

definition datagramLaneEventualState :: datagramLane where
  "datagramLaneEventualState = 4"

lemmas lane_defs = datagramLaneUnreliable_def datagramLaneReliableUnordered_def
  datagramLaneReliableOrdered_def datagramLaneEventualState_def

lemma lanes_distinct [simp]:
  "datagramLaneUnreliable \<noteq> datagramLaneReliableUnordered"
  "datagramLaneUnreliable \<noteq> datagramLaneReliableOrdered"
  "datagramLaneUnreliable \<noteq> datagramLaneEventualState"
  "datagramLaneReliableUnordered \<noteq> datagramLaneUnreliable"
  "datagramLaneReliableUnordered \<noteq> datagramLaneReliableOrdered"
  "datagramLaneReliableUnordered \<noteq> datagramLaneEventualState"
  "datagramLaneReliableOrdered \<noteq> datagramLaneUnreliable"
  "datagramLaneReliableOrdered \<noteq> datagramLaneReliableUnordered"
  "datagramLaneReliableOrdered \<noteq> datagramLaneEventualState"
  "datagramLaneEventualState \<noteq> datagramLaneUnreliable"
  "datagramLaneEventualState \<noteq> datagramLaneReliableUnordered"
  "datagramLaneEventualState \<noteq> datagramLaneReliableOrdered"
  by (simp_all add: lane_defs)

text \<open>The errors of the datagram protocol; the formatted ones carry their arguments.\<close>

datatype datagramError =
    errDatagramPacketTooSmall
  | errDatagramUnknownLane datagramLane
  | errPayloadSize nat nat
  | errDatagramSize nat
  | errReliableDatagramStalled
  | errReliableOrderedDatagramGap
  | errEventualStateDatagramStalled
  | errSendBufferOverflow datagramLane

record datagramPacket =
  dp_packetSeq :: u16
  dp_ackSeq :: u16
  dp_ackMask :: ackMask128
  dp_flags :: byte
  dp_lane :: datagramLane
  dp_messageID :: u16
  dp_orderedSeq :: u16
  dp_stateToken :: u64
  dp_payload :: bytes

text \<open>The zero value \<^verbatim>\<open>datagramPacket{}\<close>.\<close>

definition zero_packet :: datagramPacket where
  "zero_packet = \<lparr>dp_packetSeq = 0, dp_ackSeq = 0, dp_ackMask = mask_zero, dp_flags = 0, dp_lane = 0,
     dp_messageID = 0, dp_orderedSeq = 0, dp_stateToken = 0, dp_payload = []\<rparr>"

section \<open>Validation\<close>

text \<open>A Go \<^verbatim>\<open>error\<close> result: \<open>None\<close> is \<^verbatim>\<open>nil\<close>.\<close>

definition validateDatagramLane :: "datagramLane \<Rightarrow> datagramError option" where
  "validateDatagramLane l =
     (if l = datagramLaneUnreliable \<or> l = datagramLaneReliableUnordered
        \<or> l = datagramLaneReliableOrdered \<or> l = datagramLaneEventualState
      then None else Some (errDatagramUnknownLane l))"

definition validateReliableDatagramMessageSize ::
  "datagramLane \<Rightarrow> bytes \<Rightarrow> datagramError option" where
  "validateReliableDatagramMessageSize l data =
     (case validateDatagramLane l of
        Some e \<Rightarrow> Some e
      | None \<Rightarrow>
          (let maxPayload = (if l = datagramLaneReliableUnordered
                             then maxReliableUnorderedDatagramPayloadBytes
                             else maxReliableOrderedDatagramPayloadBytes)
           in if length data > maxPayload then Some (errPayloadSize (length data) maxPayload)
              else None))"

definition validateUnreliableDatagramPayloadSize :: "bytes \<Rightarrow> datagramError option" where
  "validateUnreliableDatagramPayloadSize data =
     (if length data > maxUnreliableDatagramPayloadBytes
      then Some (errPayloadSize (length data) maxUnreliableDatagramPayloadBytes) else None)"

definition validateEventualStateDatagramPayloadSize :: "bytes \<Rightarrow> datagramError option" where
  "validateEventualStateDatagramPayloadSize data =
     (if length data > maxEventualStateDatagramPayloadBytes
      then Some (errPayloadSize (length data) maxEventualStateDatagramPayloadBytes) else None)"

definition validateDatagramSize :: "bytes \<Rightarrow> datagramError option" where
  "validateDatagramSize data =
     (if length data > maxWebTransportDatagramBytes then Some (errDatagramSize (length data))
      else None)"

section \<open>Encoding\<close>

text \<open>\<open>write_at out i bs\<close> is \<^verbatim>\<open>copy(out[i:], bs)\<close> for \<open>bs\<close> that fits.\<close>

definition write_at :: "bytes \<Rightarrow> nat \<Rightarrow> bytes \<Rightarrow> bytes" where
  "write_at out i bs = take i out @ bs @ drop (i + length bs) out"

text \<open>
  \<open>dst\<close> is the caller's buffer up to its capacity.  The size of the lane-specific header
  depends on the lane alone, so the switch that validates and the one that sizes are one.
\<close>

definition packetBaseLen :: "datagramPacket \<Rightarrow> datagramError + nat" where
  "packetBaseLen p =
     (if dp_flags p AND datagramFlagAckOnly = 0
      then (case validateDatagramLane (dp_lane p) of
              Some e \<Rightarrow> Inl e
            | None \<Rightarrow>
                (let base = datagramPacketHeaderBytes + datagramLaneHeaderBytes;
                     sized = (\<lambda>err extra. case err of Some e \<Rightarrow> Inl e
                                | None \<Rightarrow> Inr (base + extra + length (dp_payload p)))
                 in if dp_lane p = datagramLaneUnreliable
                    then sized (validateUnreliableDatagramPayloadSize (dp_payload p)) 0
                    else if dp_lane p = datagramLaneReliableUnordered
                    then sized (validateReliableDatagramMessageSize (dp_lane p) (dp_payload p))
                           datagramReliableMessageIDBytes
                    else if dp_lane p = datagramLaneReliableOrdered
                    then sized (validateReliableDatagramMessageSize (dp_lane p) (dp_payload p))
                           (datagramReliableMessageIDBytes + datagramReliableOrderedSequenceBytes)
                    else sized (validateEventualStateDatagramPayloadSize (dp_payload p))
                           datagramEventualStateTokenBytes))
      else Inr datagramPacketHeaderBytes)"

definition writeHeader :: "bytes \<Rightarrow> datagramPacket \<Rightarrow> bytes" where
  "writeHeader out p =
     (let out = write_at out 0 (put_be16 (dp_packetSeq p));
          out = write_at out 2 (put_be16 (dp_ackSeq p));
          out = fold (\<lambda>i out. write_at out (4 + i * datagramAckMaskWordBytes)
                                 (put_be32 (dp_ackMask p ! i)))
                  [0..<datagramAckMaskWordCount] out
      in write_at out (datagramPacketHeaderBytes - 1) [dp_flags p])"

definition writeBody :: "bytes \<Rightarrow> datagramPacket \<Rightarrow> bytes" where
  "writeBody out p =
     (let offset = datagramPacketHeaderBytes;
          out = write_at out offset [dp_lane p];
          offset = offset + 1
      in if dp_lane p = datagramLaneReliableUnordered
         then write_at (write_at out offset (put_be16 (dp_messageID p))) (offset + 2) (dp_payload p)
         else if dp_lane p = datagramLaneReliableOrdered
         then write_at (write_at (write_at out offset (put_be16 (dp_messageID p)))
                 (offset + 2) (put_be16 (dp_orderedSeq p))) (offset + 2 + 2) (dp_payload p)
         else if dp_lane p = datagramLaneEventualState
         then write_at (write_at out offset (put_be64 (dp_stateToken p)))
                (offset + datagramEventualStateTokenBytes) (dp_payload p)
         else write_at out offset (dp_payload p))"

definition appendDatagramPacket :: "bytes \<Rightarrow> datagramPacket \<Rightarrow> datagramError + bytes" where
  "appendDatagramPacket dst p =
     (case packetBaseLen p of
        Inl e \<Rightarrow> Inl e
      | Inr baseLen \<Rightarrow>
          (let out = (if length dst < baseLen then replicate baseLen 0 else take baseLen dst);
               out = writeHeader out p
           in if dp_flags p AND datagramFlagAckOnly \<noteq> 0 then Inr out
              else let out = writeBody out p
                   in case validateDatagramSize out of Some e \<Rightarrow> Inl e | None \<Rightarrow> Inr out))"

definition encodeDatagramPacket :: "datagramPacket \<Rightarrow> datagramError + bytes" where
  "encodeDatagramPacket p = appendDatagramPacket [] p"

section \<open>Decoding\<close>

definition decodeDatagramPacket :: "bytes \<Rightarrow> datagramError + datagramPacket" where
  "decodeDatagramPacket data =
     (if length data < datagramPacketHeaderBytes then Inl errDatagramPacketTooSmall
      else
        let p = zero_packet\<lparr>dp_packetSeq := be16_at data 0, dp_ackSeq := be16_at data 2,
                  dp_flags := data ! (datagramPacketHeaderBytes - 1),
                  dp_ackMask := map (\<lambda>i. be32_at data (4 + i * datagramAckMaskWordBytes))
                               [0..<datagramAckMaskWordCount]\<rparr>
        in if dp_flags p AND datagramFlagAckOnly \<noteq> 0 then Inr p
           else if length data < datagramPacketHeaderBytes + datagramLaneHeaderBytes
           then Inl errDatagramPacketTooSmall
           else
             let offset = datagramPacketHeaderBytes;
                 p = p\<lparr>dp_lane := data ! offset\<rparr>;
                 offset = offset + 1;
                 checked = (\<lambda>err p. case err of Some e \<Rightarrow> Inl e | None \<Rightarrow> Inr p)
             in case validateDatagramLane (dp_lane p) of
                  Some e \<Rightarrow> Inl e
                | None \<Rightarrow>
                    if dp_lane p = datagramLaneReliableUnordered
                    then if length data < offset + datagramReliableMessageIDBytes
                         then Inl errDatagramPacketTooSmall
                         else let p = p\<lparr>dp_messageID := be16_at data offset,
                                        dp_payload := drop (offset + 2) data\<rparr>
                              in checked (validateReliableDatagramMessageSize (dp_lane p) (dp_payload p)) p
                    else if dp_lane p = datagramLaneReliableOrdered
                    then if length data < offset + datagramReliableMessageIDBytes
                              + datagramReliableOrderedSequenceBytes
                         then Inl errDatagramPacketTooSmall
                         else let p = p\<lparr>dp_messageID := be16_at data offset,
                                        dp_orderedSeq := be16_at data (offset + 2),
                                        dp_payload := drop (offset + 2 + 2) data\<rparr>
                              in checked (validateReliableDatagramMessageSize (dp_lane p) (dp_payload p)) p
                    else if dp_lane p = datagramLaneEventualState
                    then if length data < offset + datagramEventualStateTokenBytes
                         then Inl errDatagramPacketTooSmall
                         else let p = p\<lparr>dp_stateToken := be64_at data offset,
                                        dp_payload := drop (offset + datagramEventualStateTokenBytes) data\<rparr>
                              in checked (validateEventualStateDatagramPayloadSize (dp_payload p)) p
                    else let p = p\<lparr>dp_payload := drop offset data\<rparr>
                         in checked (validateUnreliableDatagramPayloadSize (dp_payload p)) p)"

section \<open>The bytes of a packet\<close>

text \<open>The wire format as one expression: what the writes into the buffer amount to.\<close>

definition header_bytes :: "datagramPacket \<Rightarrow> bytes" where
  "header_bytes p = put_be16 (dp_packetSeq p) @ put_be16 (dp_ackSeq p)
     @ concat (map put_be32 (dp_ackMask p)) @ [dp_flags p]"

definition lane_fields :: "datagramPacket \<Rightarrow> bytes" where
  "lane_fields p =
     (if dp_lane p = datagramLaneReliableUnordered then put_be16 (dp_messageID p)
      else if dp_lane p = datagramLaneReliableOrdered
      then put_be16 (dp_messageID p) @ put_be16 (dp_orderedSeq p)
      else if dp_lane p = datagramLaneEventualState then put_be64 (dp_stateToken p) else [])"

definition packet_bytes :: "datagramPacket \<Rightarrow> bytes" where
  "packet_bytes p =
     (if dp_flags p AND datagramFlagAckOnly \<noteq> 0 then header_bytes p
      else header_bytes p @ [dp_lane p] @ lane_fields p @ dp_payload p)"

lemma length_write_at [simp]: "i + length bs \<le> length out \<Longrightarrow> length (write_at out i bs) = length out"
  by (simp add: write_at_def)

lemma write_at_write_at:
  "j = i + length a \<Longrightarrow> i + length a \<le> length out \<Longrightarrow>
     write_at (write_at out i a) j b = write_at out i (a @ b)"
  by (simp add: write_at_def ac_simps)

lemma write_at_all: "length a = length out \<Longrightarrow> write_at out 0 a = a"
  by (simp add: write_at_def)

lemma mask_list: "mask_wf m \<Longrightarrow> m = [m ! 0, m ! 1, m ! 2, m ! 3]"
  by (auto simp: mask_wf_def numeral_eq_Suc length_Suc_conv)

lemma fourth_upt: "[0..<4] = [0, 1, 2, 3 :: nat]"
  by (simp add: upt_rec)

lemma header_bytes_alt:
  "mask_wf (dp_ackMask p) \<Longrightarrow> header_bytes p =
     ((((put_be16 (dp_packetSeq p) @ put_be16 (dp_ackSeq p)) @ put_be32 (dp_ackMask p ! 0))
       @ put_be32 (dp_ackMask p ! 1)) @ put_be32 (dp_ackMask p ! 2)) @ put_be32 (dp_ackMask p ! 3) @ [dp_flags p]"
  using arg_cong [OF mask_list [of "dp_ackMask p"], of "\<lambda>m. concat (map put_be32 m)"]
  by (simp add: header_bytes_def)

lemma length_header_bytes [simp]: "mask_wf (dp_ackMask p) \<Longrightarrow> length (header_bytes p) = 21"
  by (simp add: header_bytes_alt)

lemma writeHeader_bytes:
  "mask_wf (dp_ackMask p) \<Longrightarrow> 21 \<le> length out \<Longrightarrow> writeHeader out p = write_at out 0 (header_bytes p)"
  by (simp add: writeHeader_def fourth_upt write_at_write_at header_bytes_alt del: One_nat_def)

lemma write_at_app: "write_at out 0 a = a @ drop (length a) out"
  by (simp add: write_at_def)

text \<open>The length \<open>packetBaseLen\<close> computes is the length of the wire format.\<close>

lemma packetBaseLen_bytes:
  assumes "mask_wf (dp_ackMask p)" and "packetBaseLen p = Inr n"
  shows "length (packet_bytes p) = n \<and> n \<le> maxWebTransportDatagramBytes
    \<and> (dp_flags p AND datagramFlagAckOnly = 0 \<longrightarrow> validateDatagramLane (dp_lane p) = None)"
  using assms
  by (auto simp: packetBaseLen_def packet_bytes_def lane_fields_def Let_def
      validateUnreliableDatagramPayloadSize_def validateReliableDatagramMessageSize_def
      validateEventualStateDatagramPayloadSize_def validateDatagramLane_def
      split: if_splits option.splits)

lemma writeBody_bytes:
  assumes "mask_wf (dp_ackMask p)" and "dp_flags p AND datagramFlagAckOnly = 0"
    and "length out = length (packet_bytes p)"
  shows "writeBody (write_at out 0 (header_bytes p)) p = packet_bytes p"
  using assms
  by (simp add: writeBody_def packet_bytes_def lane_fields_def Let_def write_at_write_at
      write_at_all)

lemma append_packet_bytes:
  assumes "mask_wf (dp_ackMask p)" and "packetBaseLen p = Inr n"
  shows "appendDatagramPacket dst p = Inr (packet_bytes p)"
proof -
  note L = packetBaseLen_bytes [OF assms]
  define out where "out = (if length dst < n then replicate n 0 else take n dst)"
  have lo: "length out = n" by (simp add: out_def)
  have n21: "21 \<le> n" using L assms(1) by (auto simp: packet_bytes_def split: if_splits)
  have h: "writeHeader out p = write_at out 0 (header_bytes p)"
    using assms(1) lo n21 by (simp add: writeHeader_bytes)
  show ?thesis
  proof (cases "dp_flags p AND datagramFlagAckOnly = 0")
    case True
    then have "writeBody (writeHeader out p) p = packet_bytes p"
      using assms(1) lo L by (simp add: h writeBody_bytes)
    then show ?thesis using True L assms(2)
      by (simp add: appendDatagramPacket_def validateDatagramSize_def Let_def out_def)
  next
    case False
    then have "writeHeader out p = packet_bytes p"
      using lo L assms(1) h by (simp add: packet_bytes_def write_at_all)
    then show ?thesis using False assms(2)
      by (simp add: appendDatagramPacket_def Let_def out_def)
  qed
qed

lemma encode_Inr:
  assumes "mask_wf (dp_ackMask p)" and "encodeDatagramPacket p = Inr data"
  shows "\<exists>n. packetBaseLen p = Inr n \<and> data = packet_bytes p"
  using assms append_packet_bytes [OF assms(1), of _ "[]"]
  by (cases "packetBaseLen p") (auto simp: encodeDatagramPacket_def appendDatagramPacket_def)

text \<open>
  Encoding never depends on the caller's buffer: whatever \<open>dst\<close> held, the result is that of
  encoding into no buffer.  It fails exactly when the size and lane checks fail, and otherwise
  yields the wire format, at most 1200 bytes long (the final size check never fires).
\<close>

theorem append_datagram_spec:
  assumes "mask_wf (dp_ackMask p)"
  shows "appendDatagramPacket dst p = encodeDatagramPacket p
    \<and> (case packetBaseLen p of
         Inl e \<Rightarrow> encodeDatagramPacket p = Inl e
       | Inr n \<Rightarrow> encodeDatagramPacket p = Inr (packet_bytes p)
           \<and> length (packet_bytes p) = n \<and> n \<le> maxWebTransportDatagramBytes)"
proof (cases "packetBaseLen p")
  case (Inl e)
  then show ?thesis by (simp add: appendDatagramPacket_def encodeDatagramPacket_def)
next
  case (Inr n)
  then show ?thesis
    using append_packet_bytes [OF assms Inr] packetBaseLen_bytes [OF assms Inr]
    by (simp add: encodeDatagramPacket_def)
qed

theorem append_datagram_spec_witness:
  "appendDatagramPacket (replicate 40 7) (zero_packet\<lparr>dp_lane := 2, dp_payload := [1, 2]\<rparr>)
   = encodeDatagramPacket (zero_packet\<lparr>dp_lane := 2, dp_payload := [1, 2]\<rparr>)"
  using append_datagram_spec [of "zero_packet\<lparr>dp_lane := 2, dp_payload := [1, 2]\<rparr>" "replicate 40 7"]
  by (simp add: zero_packet_def)

section \<open>Round trips\<close>

text \<open>What a packet carries over the wire: the fields its lane has no room for are zero.\<close>

definition wire_view :: "datagramPacket \<Rightarrow> datagramPacket" where
  "wire_view p =
     (if dp_flags p AND datagramFlagAckOnly \<noteq> 0
      then p\<lparr>dp_lane := 0, dp_messageID := 0, dp_orderedSeq := 0, dp_stateToken := 0, dp_payload := []\<rparr>
      else p\<lparr>dp_messageID := (if dp_lane p = datagramLaneReliableUnordered
                             \<or> dp_lane p = datagramLaneReliableOrdered then dp_messageID p else 0),
             dp_orderedSeq := (if dp_lane p = datagramLaneReliableOrdered then dp_orderedSeq p else 0),
             dp_stateToken := (if dp_lane p = datagramLaneEventualState then dp_stateToken p else 0)\<rparr>)"

lemma be16_at_0: "be16_at (put_be16 v @ r) 0 = v"
  using be16_at_put [of 0 "[]"] by simp

lemma header_read:
  assumes "mask_wf (dp_ackMask p)"
  shows "be16_at (header_bytes p @ r) 0 = dp_packetSeq p"
    and "be16_at (header_bytes p @ r) 2 = dp_ackSeq p"
    and "map (\<lambda>i. be32_at (header_bytes p @ r) (4 + i * 4)) [0..<4] = dp_ackMask p"
    and "(header_bytes p @ r) ! 20 = dp_flags p"
proof -
  let ?q = "put_be16 (dp_packetSeq p)" and ?a = "put_be16 (dp_ackSeq p)"
  let ?m = "\<lambda>i. put_be32 (dp_ackMask p ! i)"
  have h: "header_bytes p @ r = ?q @ ?a @ ?m 0 @ ?m 1 @ ?m 2 @ ?m 3 @ [dp_flags p] @ r"
    using assms by (simp add: header_bytes_alt)
  show "be16_at (header_bytes p @ r) 0 = dp_packetSeq p" unfolding h by (rule be16_at_0)
  show "be16_at (header_bytes p @ r) 2 = dp_ackSeq p"
    unfolding h by (rule be16_at_put) simp
  have "be32_at (header_bytes p @ r) 4 = dp_ackMask p ! 0"
    unfolding h using be32_at_put [of 4 "?q @ ?a"] by simp
  moreover have "be32_at (header_bytes p @ r) 8 = dp_ackMask p ! 1"
    unfolding h using be32_at_put [of 8 "?q @ ?a @ ?m 0"] by simp
  moreover have "be32_at (header_bytes p @ r) 12 = dp_ackMask p ! 2"
    unfolding h using be32_at_put [of 12 "?q @ ?a @ ?m 0 @ ?m 1"] by simp
  moreover have "be32_at (header_bytes p @ r) 16 = dp_ackMask p ! 3"
    unfolding h using be32_at_put [of 16 "?q @ ?a @ ?m 0 @ ?m 1 @ ?m 2"] by simp
  ultimately show "map (\<lambda>i. be32_at (header_bytes p @ r) (4 + i * 4)) [0..<4] = dp_ackMask p"
    using mask_list [OF assms] by (simp add: fourth_upt)
  show "(header_bytes p @ r) ! 20 = dp_flags p"
    unfolding h by (simp add: nth_append)
qed

lemma lane_read:
  assumes "mask_wf (dp_ackMask p)" and d_def: "d = header_bytes p @ dp_lane p # x @ r"
  shows "d ! 21 = dp_lane p"
    and "x = put_be16 v \<Longrightarrow> be16_at d 22 = v"
    and "x = put_be64 t \<Longrightarrow> be64_at d 22 = t"
    and "x = put_be16 w @ put_be16 v \<Longrightarrow> be16_at d 22 = w \<and> be16_at d 24 = v"
    and "drop (22 + length x) d = r"
proof -
  have d: "d = (header_bytes p @ [dp_lane p]) @ x @ r" by (simp add: d_def)
  have l: "length (header_bytes p @ [dp_lane p]) = 22" using assms by simp
  show "d ! 21 = dp_lane p" using assms by (simp add: d_def nth_append)
  show "x = put_be16 v \<Longrightarrow> be16_at d 22 = v" unfolding d using l by (metis be16_at_put)
  show "x = put_be64 t \<Longrightarrow> be64_at d 22 = t" unfolding d using l by (metis be64_at_put)
  show "x = put_be16 w @ put_be16 v \<Longrightarrow> be16_at d 22 = w \<and> be16_at d 24 = v"
    unfolding d using l be16_at_put [of 22 "header_bytes p @ [dp_lane p]" w "put_be16 v @ r"]
      be16_at_put [of 24 "(header_bytes p @ [dp_lane p]) @ put_be16 w" v r] by simp
  show "drop (22 + length x) d = r" unfolding d using l by simp
qed

lemma decode_packet_bytes:
  assumes "mask_wf (dp_ackMask p)" and n: "packetBaseLen p = Inr n" and data: "data = packet_bytes p"
  shows "decodeDatagramPacket data = Inr (wire_view p)"
proof -
  note H = header_read [OF assms(1)]
  show ?thesis
  proof (cases "dp_flags p AND datagramFlagAckOnly = 0")
    case False
    then have "data = header_bytes p @ []" using data by (simp add: packet_bytes_def)
    then show ?thesis using False H [of "[]"] assms(1)
      by (simp add: decodeDatagramPacket_def wire_view_def zero_packet_def Let_def)
  next
    case True
    have d: "data = header_bytes p @ dp_lane p # lane_fields p @ dp_payload p"
      using True data by (simp add: packet_bytes_def)
    note L = lane_read [OF assms(1) d]
    have fl: "dp_lane p = datagramLaneUnreliable \<or> dp_lane p = datagramLaneReliableUnordered \<or>
        dp_lane p = datagramLaneReliableOrdered \<or> dp_lane p = datagramLaneEventualState"
      using packetBaseLen_bytes [OF assms(1) n] True
      by (auto simp: validateDatagramLane_def split: if_splits)
    have len: "length data = 22 + length (lane_fields p) + length (dp_payload p)"
      using assms(1) d by simp
    have hd: "be16_at data 0 = dp_packetSeq p" "be16_at data 2 = dp_ackSeq p"
      "map (\<lambda>i. be32_at data (4 + i * 4)) [0..<4] = dp_ackMask p" "data ! 20 = dp_flags p"
      using H [of "dp_lane p # lane_fields p @ dp_payload p"] d by simp_all
    note decode = decodeDatagramPacket_def wire_view_def zero_packet_def Let_def
      packetBaseLen_def lane_fields_def validateDatagramLane_def
    from fl show ?thesis
    proof (elim disjE)
      assume "dp_lane p = datagramLaneUnreliable"
      then show ?thesis using hd L(1,5) len True n
        by (simp add: decode split: option.splits)
    next
      assume "dp_lane p = datagramLaneReliableUnordered"
      then show ?thesis using hd L(1,2,5) len True n
        by (simp add: decode split: option.splits)
    next
      assume "dp_lane p = datagramLaneReliableOrdered"
      then show ?thesis using hd L(1,4,5) len True n
        by (simp add: decode split: option.splits)
    next
      assume "dp_lane p = datagramLaneEventualState"
      then show ?thesis using hd L(1,3,5) len True n
        by (simp add: decode split: option.splits)
    qed
  qed
qed

text \<open>
  C2.  Every packet the encoder accepts decodes to the packet it carries: the sequence number, the
  acknowledgement, the flags, the lane, the identifiers of that lane and the payload all
  arrive, on each of the four lanes and for acknowledgement-only packets.
\<close>

theorem decode_encode_datagram:
  assumes "mask_wf (dp_ackMask p)" and "encodeDatagramPacket p = Inr data"
  shows "decodeDatagramPacket data = Inr (wire_view p)"
  using encode_Inr [OF assms] decode_packet_bytes [OF assms(1)] by blast

theorem decode_encode_datagram_witness:
  "\<exists>data. encodeDatagramPacket (zero_packet\<lparr>dp_lane := 3, dp_orderedSeq := 9, dp_payload := [1, 2]\<rparr>) = Inr data
     \<and> decodeDatagramPacket data
         = Inr (wire_view (zero_packet\<lparr>dp_lane := 3, dp_orderedSeq := 9, dp_payload := [1, 2]\<rparr>))"
proof -
  let ?p = "zero_packet\<lparr>dp_lane := 3, dp_orderedSeq := 9, dp_payload := [1, 2]\<rparr>"
  have wf: "mask_wf (dp_ackMask ?p)" by (simp add: zero_packet_def)
  have "packetBaseLen ?p = Inr 28"
    by (simp add: packetBaseLen_def zero_packet_def validateDatagramLane_def lane_defs
        validateReliableDatagramMessageSize_def Let_def)
  then have "encodeDatagramPacket ?p = Inr (packet_bytes ?p)"
    using append_packet_bytes [OF wf] by (simp add: encodeDatagramPacket_def)
  with decode_encode_datagram [OF wf this] show ?thesis by blast
qed

lemma header_of_read:
  assumes "21 \<le> length data" and "dp_packetSeq p = be16_at data 0" and "dp_ackSeq p = be16_at data 2"
    and "dp_flags p = data ! 20" and "dp_ackMask p = map (\<lambda>i. be32_at data (4 + i * 4)) [0..<4]"
  shows "header_bytes p = take 21 data" and "mask_wf (dp_ackMask p)"
proof -
  have "take 21 data = take 2 (drop 0 data) @ take 2 (drop 2 data) @ take 4 (drop 4 data)
      @ take 4 (drop 8 data) @ take 4 (drop 12 data) @ take 4 (drop 16 data) @ take 1 (drop 20 data)"
    using take_add [of 2 19 data] take_add [of 2 17 "drop 2 data"] take_add [of 4 13 "drop 4 data"]
      take_add [of 4 9 "drop 8 data"] take_add [of 4 5 "drop 12 data"] take_add [of 4 1 "drop 16 data"]
    by simp
  moreover have "take 1 (drop 20 data) = [data ! 20]"
    using assms(1) by (simp add: take_drop_Cons)
  ultimately show "header_bytes p = take 21 data"
    using assms by (simp add: header_bytes_def fourth_upt put_be_at)
  show "mask_wf (dp_ackMask p)" using assms(5) by (simp add: mask_wf_def)
qed

lemma decode_fields:
  assumes "decodeDatagramPacket data = Inr p" and "dp_flags p AND datagramFlagAckOnly = 0"
  shows "22 \<le> length data" "dp_packetSeq p = be16_at data 0" "dp_ackSeq p = be16_at data 2"
    "dp_flags p = data ! 20" "dp_ackMask p = map (\<lambda>i. be32_at data (4 + i * 4)) [0..<4]"
    "dp_lane p = data ! 21"
  using assms
  by (auto simp: decodeDatagramPacket_def zero_packet_def Let_def split: if_splits option.splits)

text \<open>The lane-specific part: its bytes are those after the lane, and its checks all passed.\<close>

lemma decode_lane_part:
  assumes "decodeDatagramPacket data = Inr p" and "dp_flags p AND datagramFlagAckOnly = 0"
  shows "lane_fields p @ dp_payload p = drop 22 data \<and> (\<exists>n. packetBaseLen p = Inr n)"
proof -
  have j: "take k (drop i xs) @ drop (i + k) xs = drop i xs" for i k and xs :: bytes
    by (metis append_take_drop_id drop_drop add.commute)
  note dec = decodeDatagramPacket_def zero_packet_def Let_def packetBaseLen_def
    validateDatagramLane_def
  have "dp_lane p = datagramLaneUnreliable \<or> dp_lane p = datagramLaneReliableUnordered \<or>
      dp_lane p = datagramLaneReliableOrdered \<or> dp_lane p = datagramLaneEventualState"
    using assms by (auto simp: dec split: if_splits option.splits)
  then show ?thesis
  proof (elim disjE)
    assume "dp_lane p = datagramLaneUnreliable"
    then show ?thesis using assms
      by (auto simp: dec lane_fields_def split: if_splits option.splits)
  next
    assume "dp_lane p = datagramLaneReliableUnordered"
    then show ?thesis using assms j [of 2 22 data]
      by (auto simp: dec lane_fields_def put_be_at split: if_splits option.splits)
  next
    assume "dp_lane p = datagramLaneReliableOrdered"
    then show ?thesis using assms j [of 2 22 data] j [of 2 24 data]
      by (auto simp: dec lane_fields_def put_be_at split: if_splits option.splits)
  next
    assume "dp_lane p = datagramLaneEventualState"
    then show ?thesis using assms j [of 8 22 data]
      by (auto simp: dec lane_fields_def put_be_at split: if_splits option.splits)
  qed
qed

text \<open>
  The decoder accepts nothing the encoder could not have sent: a data packet it accepts is at
  most 1200 bytes long, has one of the four lanes, and re-encodes to the very bytes that were
  received.
\<close>

theorem decode_datagram_exact:
  assumes "decodeDatagramPacket data = Inr p" and "dp_flags p AND datagramFlagAckOnly = 0"
  shows "encodeDatagramPacket p = Inr data \<and> length data \<le> maxWebTransportDatagramBytes
    \<and> validateDatagramLane (dp_lane p) = None"
proof -
  note F = decode_fields [OF assms]
  have h: "header_bytes p = take 21 data" and wf: "mask_wf (dp_ackMask p)"
    using header_of_read [of data p] F by simp_all
  obtain n where n: "packetBaseLen p = Inr n" and b: "lane_fields p @ dp_payload p = drop 22 data"
    using decode_lane_part [OF assms] by blast
  have "data ! 21 # drop 22 data = drop 21 data"
    using F(1) Cons_nth_drop_Suc [of 21 data] by simp
  then have "packet_bytes p = data"
    using assms(2) h b F(6) by (simp add: packet_bytes_def)
  then show ?thesis
    using append_packet_bytes [OF wf n, of "[]"] packetBaseLen_bytes [OF wf n] assms(2)
    by (simp add: encodeDatagramPacket_def)
qed

theorem decode_datagram_exact_witness:
  "\<exists>data p. decodeDatagramPacket data = Inr p \<and> encodeDatagramPacket p = Inr data"
proof -
  let ?d = "replicate 21 (0 :: byte) @ [1, 5]"
  have nth: "?d ! 20 = 0" "?d ! 21 = 1" by (simp_all add: nth_append)
  have "\<exists>p. decodeDatagramPacket ?d = Inr p \<and> dp_flags p AND datagramFlagAckOnly = 0"
    using nth by (simp add: decodeDatagramPacket_def zero_packet_def validateDatagramLane_def
        lane_defs validateUnreliableDatagramPayloadSize_def Let_def)
  then obtain p where "decodeDatagramPacket ?d = Inr p" "dp_flags p AND datagramFlagAckOnly = 0"
    by blast
  with decode_datagram_exact [of ?d p] show ?thesis by blast
qed

end
