(* ===== verification/Payload_Framing.thy ===== *)
theory Payload_Framing
  imports Datagram_Codec
begin

text \<open>
  Framing of the reliable stream and of the state datagrams
  (\<^verbatim>\<open>golem/net/payload.go\<close>) and the reserved control frames
  (\<^verbatim>\<open>control_frame.go\<close>).  Frames are packed greedily into chunks; three functions of the
  source repeat the packing loop (collect, write, count) and are shown to agree.  Length
  prefixed frames implement the byte-codec interface, from which it follows that what was
  packed can be read back.
\<close>

section \<open>Sizes, errors, transports\<close>

definition maxReliableMessageBytes :: nat where "maxReliableMessageBytes = 256 * 1024"
definition maxReliableChunkBytes :: nat where "maxReliableChunkBytes = 32000"
definition maxWebSocketPayloadBytes :: nat where
  "maxWebSocketPayloadBytes = maxReliableMessageBytes"
definition reliableFrameHeaderBytes :: nat where "reliableFrameHeaderBytes = 4"

lemma framing_consts [simp]:
  "maxReliableMessageBytes = 262144" "maxReliableChunkBytes = 32000"
  "maxWebSocketPayloadBytes = 262144" "reliableFrameHeaderBytes = 4"
  by (simp_all add: maxReliableMessageBytes_def maxReliableChunkBytes_def
      maxWebSocketPayloadBytes_def reliableFrameHeaderBytes_def)

datatype payloadError =
    errMessageSize nat
  | errFrame nat payloadError
  | errEncodedFrameSize nat int
  | errChunkSize int
  | errTransport string
  | errWebSocketPayload nat
  | errFrameLength nat
  | errEOF
  | errUnexpectedEOF
  | errControlTooShort nat

type_synonym Transport = string

definition TransportWebSocket :: Transport where "TransportWebSocket = ''websocket''"
definition TransportWebTransport :: Transport where "TransportWebTransport = ''webtransport''"

definition normalizeTransport :: "Transport \<Rightarrow> Transport" where
  "normalizeTransport t = (if t = '''' then TransportWebSocket else t)"

definition validateReliableMessageSize :: "bytes \<Rightarrow> payloadError option" where
  "validateReliableMessageSize frame =
     (if length frame > maxReliableMessageBytes then Some (errMessageSize (length frame)) else None)"

fun validateSizesFrom :: "nat \<Rightarrow> bytes list \<Rightarrow> payloadError option" where
  "validateSizesFrom i [] = None"
| "validateSizesFrom i (frame # frames) =
     (case validateReliableMessageSize frame of
        Some e \<Rightarrow> Some (errFrame i e)
      | None \<Rightarrow> validateSizesFrom (i + 1) frames)"

definition validateReliableMessageSizes :: "bytes list \<Rightarrow> payloadError option" where
  "validateReliableMessageSizes frames = validateSizesFrom 0 frames"

definition validateWebSocketPayloadSize :: "bytes \<Rightarrow> payloadError option" where
  "validateWebSocketPayloadSize data =
     (if length data > maxWebSocketPayloadBytes then Some (errWebSocketPayload (length data)) else None)"

section \<open>Chunk encoders\<close>

record reliableChunkEncoder =
  encodedLen :: "bytes \<Rightarrow> nat"
  appendFrame :: "bytes \<Rightarrow> bytes \<Rightarrow> bytes"

definition rawReliableChunkEncoder :: reliableChunkEncoder where
  "rawReliableChunkEncoder =
     \<lparr>encodedLen = (\<lambda>frame. length frame), appendFrame = (\<lambda>dst frame. dst @ frame)\<rparr>"

definition appendLengthPrefixedReliableFrame :: "bytes \<Rightarrow> bytes \<Rightarrow> bytes" where
  "appendLengthPrefixedReliableFrame dst data =
     (let start = length dst;
          dst = dst @ [0, 0, 0, 0];
          dst = write_at dst start (put_be32 (of_nat (length data)))
      in dst @ data)"

definition lengthPrefixedReliableChunkEncoder :: reliableChunkEncoder where
  "lengthPrefixedReliableChunkEncoder =
     \<lparr>encodedLen = (\<lambda>frame. reliableFrameHeaderBytes + length frame),
      appendFrame = appendLengthPrefixedReliableFrame\<rparr>"

section \<open>Packing frames into chunks\<close>

text \<open>
  The loop of \<^verbatim>\<open>chunkFrames\<close>: the index of the next frame, the chunks finished so far,
  the chunk under construction.  (That a chunk's buffer is \<^verbatim>\<open>nil\<close> rather than empty only
  decides its initial capacity.)
\<close>

fun chunkLoop :: "reliableChunkEncoder \<Rightarrow> nat \<Rightarrow> bool \<Rightarrow> nat \<Rightarrow> bytes list \<Rightarrow> bytes \<Rightarrow> bytes list
    \<Rightarrow> payloadError + bytes list" where
  "chunkLoop enc maxb ovr i chunks buf [] =
     Inr (if length buf > 0 then chunks @ [buf] else chunks)"
| "chunkLoop enc maxb ovr i chunks buf (frame # frames) =
     (case validateReliableMessageSize frame of
        Some e \<Rightarrow> Inl (errFrame i e)
      | None \<Rightarrow>
          (let n = encodedLen enc frame
           in if n > maxb \<and> \<not> ovr then Inl (errFrame i (errEncodedFrameSize n (int maxb)))
              else if length buf > 0 \<and> length buf + n > maxb
              then chunkLoop enc maxb ovr (i + 1) (chunks @ [buf]) (appendFrame enc [] frame) frames
              else chunkLoop enc maxb ovr (i + 1) chunks (appendFrame enc buf frame) frames))"

definition chunkFrames :: "bytes list \<Rightarrow> int \<Rightarrow> reliableChunkEncoder \<Rightarrow> bool \<Rightarrow> payloadError + bytes list" where
  "chunkFrames frames maxChunkBytes enc ovr =
     (if length frames = 0 then Inr []
      else if maxChunkBytes \<le> 0 then Inl (errChunkSize maxChunkBytes)
      else chunkLoop enc (nat maxChunkBytes) ovr 0 [] [] frames)"

definition chunkReliableFrames :: "bytes list \<Rightarrow> int \<Rightarrow> reliableChunkEncoder \<Rightarrow> payloadError + bytes list" where
  "chunkReliableFrames frames maxChunkBytes enc = chunkFrames frames maxChunkBytes enc True"

definition chunkReliableOrderedDatagramFrames :: "bytes list \<Rightarrow> payloadError + bytes list" where
  "chunkReliableOrderedDatagramFrames frames =
     chunkFrames frames (int maxReliableOrderedDatagramPayloadBytes) lengthPrefixedReliableChunkEncoder False"

definition UnreliableStateDatagramPayloads :: "bytes list \<Rightarrow> payloadError + bytes list" where
  "UnreliableStateDatagramPayloads frames =
     chunkFrames frames (int maxUnreliableStateDatagramPayloadBytes) lengthPrefixedReliableChunkEncoder False"

definition EventualStateDatagramPayloads :: "bytes list \<Rightarrow> payloadError + bytes list" where
  "EventualStateDatagramPayloads frames =
     chunkFrames frames (int maxEventualStateDatagramPayloadBytes) lengthPrefixedReliableChunkEncoder False"

definition UnreliableStateDatagramPayloadBudget :: nat where
  "UnreliableStateDatagramPayloadBudget = maxUnreliableStateDatagramPayloadBytes"

definition UnreliableStateDatagramFramePayloadLen :: "bytes \<Rightarrow> nat" where
  "UnreliableStateDatagramFramePayloadLen frame = encodedLen lengthPrefixedReliableChunkEncoder frame"

definition AppendUnreliableStateDatagramFrame :: "bytes \<Rightarrow> bytes \<Rightarrow> bytes" where
  "AppendUnreliableStateDatagramFrame dst frame = appendFrame lengthPrefixedReliableChunkEncoder dst frame"

definition EventualStateDatagramPayloadBudget :: nat where
  "EventualStateDatagramPayloadBudget = maxEventualStateDatagramPayloadBytes"

definition EventualStateDatagramFramePayloadLen :: "bytes \<Rightarrow> nat" where
  "EventualStateDatagramFramePayloadLen frame = encodedLen lengthPrefixedReliableChunkEncoder frame"

definition AppendEventualStateDatagramFrame :: "bytes \<Rightarrow> bytes \<Rightarrow> bytes" where
  "AppendEventualStateDatagramFrame dst frame = appendFrame lengthPrefixedReliableChunkEncoder dst frame"

definition CompactStateDatagramFramePayloadLen :: "bytes \<Rightarrow> nat" where
  "CompactStateDatagramFramePayloadLen frame = encodedLen lengthPrefixedReliableChunkEncoder frame"

definition AppendCompactStateDatagramFrame :: "bytes \<Rightarrow> bytes \<Rightarrow> bytes" where
  "AppendCompactStateDatagramFrame dst frame = appendFrame lengthPrefixedReliableChunkEncoder dst frame"

definition ReliableOrderedStateDatagramPayloadBudget :: nat where
  "ReliableOrderedStateDatagramPayloadBudget = maxReliableOrderedDatagramPayloadBytes"

section \<open>Writing and counting chunks\<close>

text \<open>
  \<open>write\<close> is the callback of \<^verbatim>\<open>writeReliableFrameChunks\<close>: it changes the sink \<open>'w\<close> and
  may fail.  The scratch buffer that comes back is always empty, so it is left out.
\<close>

fun writeLoop :: "reliableChunkEncoder \<Rightarrow> nat \<Rightarrow> (bytes \<Rightarrow> 'w \<Rightarrow> payloadError option \<times> 'w) \<Rightarrow> nat \<Rightarrow> bytes
    \<Rightarrow> bytes list \<Rightarrow> 'w \<Rightarrow> payloadError option \<times> 'w" where
  "writeLoop enc maxb write i buf [] w = (if length buf > 0 then write buf w else (None, w))"
| "writeLoop enc maxb write i buf (frame # frames) w =
     (case validateReliableMessageSize frame of
        Some e \<Rightarrow> (Some (errFrame i e), w)
      | None \<Rightarrow>
          if length buf > 0 \<and> length buf + encodedLen enc frame > maxb
          then (case write buf w of
                  (Some e, w) \<Rightarrow> (Some e, w)
                | (None, w) \<Rightarrow> writeLoop enc maxb write (i + 1) (appendFrame enc [] frame) frames w)
          else writeLoop enc maxb write (i + 1) (appendFrame enc buf frame) frames w)"

definition writeReliableFrameChunks ::
  "bytes list \<Rightarrow> int \<Rightarrow> reliableChunkEncoder \<Rightarrow> (bytes \<Rightarrow> 'w \<Rightarrow> payloadError option \<times> 'w) \<Rightarrow> 'w
     \<Rightarrow> payloadError option \<times> 'w" where
  "writeReliableFrameChunks frames maxChunkBytes enc write w =
     (if length frames = 0 then (None, w)
      else if maxChunkBytes \<le> 0 then (Some (errChunkSize maxChunkBytes), w)
      else writeLoop enc (nat maxChunkBytes) write 0 [] frames w)"

fun countLoop :: "reliableChunkEncoder \<Rightarrow> nat \<Rightarrow> nat \<Rightarrow> nat \<Rightarrow> nat \<Rightarrow> bytes list \<Rightarrow> payloadError + nat" where
  "countLoop enc maxb i chunks pendingBytes [] = Inr (if pendingBytes > 0 then chunks + 1 else chunks)"
| "countLoop enc maxb i chunks pendingBytes (frame # frames) =
     (case validateReliableMessageSize frame of
        Some e \<Rightarrow> Inl (errFrame i e)
      | None \<Rightarrow>
          (let n = encodedLen enc frame
           in if pendingBytes > 0 \<and> pendingBytes + n > maxb
              then countLoop enc maxb (i + 1) (chunks + 1) (0 + n) frames
              else countLoop enc maxb (i + 1) chunks (pendingBytes + n) frames))"

definition countReliableFrameChunks :: "bytes list \<Rightarrow> int \<Rightarrow> reliableChunkEncoder \<Rightarrow> payloadError + nat" where
  "countReliableFrameChunks frames maxChunkBytes enc =
     (if length frames = 0 then Inr 0
      else if maxChunkBytes \<le> 0 then Inl (errChunkSize maxChunkBytes)
      else countLoop enc (nat maxChunkBytes) 0 0 0 frames)"

definition ReliableStreamWriteChunkCount :: "Transport \<Rightarrow> bytes list \<Rightarrow> payloadError + nat" where
  "ReliableStreamWriteChunkCount t frames =
     (if length frames = 0 then Inr 0
      else let t = normalizeTransport t
           in if t = TransportWebSocket
              then countReliableFrameChunks frames (int maxWebSocketPayloadBytes) rawReliableChunkEncoder
              else if t = TransportWebTransport
              then countReliableFrameChunks frames (int maxReliableChunkBytes) lengthPrefixedReliableChunkEncoder
              else Inl (errTransport t))"

definition ReliableOrderedDatagramPayloadCount :: "bytes list \<Rightarrow> payloadError + nat" where
  "ReliableOrderedDatagramPayloadCount frames =
     (if length frames = 0 then Inr 0
      else res_bind (chunkReliableOrderedDatagramFrames frames) (\<lambda>p. Inr (length p)))"

fun unreliableCountLoop :: "nat \<Rightarrow> nat \<Rightarrow> nat \<Rightarrow> bytes list \<Rightarrow> payloadError + nat" where
  "unreliableCountLoop i payloads pendingBytes [] = Inr payloads"
| "unreliableCountLoop i payloads pendingBytes (frame # frames) =
     (case validateReliableMessageSize frame of
        Some e \<Rightarrow> Inl (errFrame i e)
      | None \<Rightarrow>
          (let n = UnreliableStateDatagramFramePayloadLen frame
           in if n > maxUnreliableStateDatagramPayloadBytes
              then Inl (errFrame i (errEncodedFrameSize n (int maxUnreliableStateDatagramPayloadBytes)))
              else if pendingBytes > 0 \<and> pendingBytes + n > maxUnreliableStateDatagramPayloadBytes
              then unreliableCountLoop (i + 1) (payloads + 1) (0 + n) frames
              else unreliableCountLoop (i + 1) payloads (pendingBytes + n) frames))"

definition UnreliableStateDatagramPayloadCount :: "bytes list \<Rightarrow> payloadError + nat" where
  "UnreliableStateDatagramPayloadCount frames =
     (if length frames = 0 then Inr 0 else unreliableCountLoop 0 1 0 frames)"

definition EventualStateDatagramPayloadCount :: "bytes list \<Rightarrow> payloadError + nat" where
  "EventualStateDatagramPayloadCount frames =
     (if length frames = 0 then Inr 0
      else res_bind (EventualStateDatagramPayloads frames) (\<lambda>p. Inr (length p)))"

section \<open>Reading and writing one frame\<close>

text \<open>
  \<^verbatim>\<open>io.ReadFull\<close> on a stream whose remaining bytes are \<open>s\<close> and then ends: \<open>EOF\<close> when
  nothing is left, \<open>ErrUnexpectedEOF\<close> when it ends midway.
\<close>

definition ReadFull :: "nat \<Rightarrow> bytes \<Rightarrow> payloadError + bytes \<times> bytes" where
  "ReadFull n s =
     (if n \<le> length s then Inr (take n s, drop n s)
      else if s = [] then Inl errEOF else Inl errUnexpectedEOF)"

definition readReliableFrame :: "bytes \<Rightarrow> payloadError + bytes \<times> bytes" where
  "readReliableFrame s =
     res_bind (ReadFull reliableFrameHeaderBytes s) (\<lambda>(hdr, s).
       let n = unat (be32_at hdr 0)
       in if n > maxReliableMessageBytes then Inl (errFrameLength n)
          else if n = 0 then Inr ([], s)
          else ReadFull n s)"

definition writeReliableFrame ::
  "(bytes \<Rightarrow> 'w \<Rightarrow> payloadError option \<times> 'w) \<Rightarrow> bytes \<Rightarrow> 'w \<Rightarrow> payloadError option \<times> 'w" where
  "writeReliableFrame write data w =
     (case validateReliableMessageSize data of
        Some e \<Rightarrow> (Some e, w)
      | None \<Rightarrow> write (appendLengthPrefixedReliableFrame [] data) w)"

section \<open>Control frames\<close>

definition clientCloseControlFrame :: bytes where
  "clientCloseControlFrame = [0x00, 0x4F, 0x47, 0x53, 0x01]"

definition clientReliableAckControlFrame :: bytes where
  "clientReliableAckControlFrame = [0x00, 0x4F, 0x47, 0x53, 0x02]"

definition clientReliableAckControlHeaderBytes :: nat where
  "clientReliableAckControlHeaderBytes = 5 + 2 + datagramAckMaskBytes"

definition isClientCloseControlFrame :: "bytes \<Rightarrow> bool" where
  "isClientCloseControlFrame data \<longleftrightarrow> data = clientCloseControlFrame"

definition ClientCloseControlFrame :: bytes where
  "ClientCloseControlFrame = [] @ clientCloseControlFrame"

definition decodeClientReliableAckControlFrame ::
  "bytes \<Rightarrow> payloadError + bytes \<times> u16 \<times> ackMask128 \<times> bool" where
  "decodeClientReliableAckControlFrame data =
     (if take (length clientReliableAckControlFrame) data \<noteq> clientReliableAckControlFrame
      then Inr (data, 0, mask_zero, False)
      else if length data < clientReliableAckControlHeaderBytes
      then Inl (errControlTooShort (length data))
      else let offset = length clientReliableAckControlFrame;
               ack = be16_at data offset;
               offset = offset + 2;
               am = map (\<lambda>i. be32_at data (offset + i * datagramAckMaskWordBytes)) [0..<datagramAckMaskWordCount]
           in Inr (drop (offset + datagramAckMaskWordCount * datagramAckMaskWordBytes) data, ack, am, True))"

section \<open>What an encoder has to promise\<close>

text \<open>
  The contract between the packing loops and an encoder: appending adds a fixed string for the
  frame, of the announced length.
\<close>

locale chunk_encoder =
  fixes enc :: reliableChunkEncoder
    and code :: "bytes \<Rightarrow> bytes"
  assumes append_code: "appendFrame enc dst frame = dst @ code frame"
    and len_code: "encodedLen enc frame = length (code frame)"
begin

text \<open>The greedy packing of already encoded frames.\<close>

fun pack :: "nat \<Rightarrow> bytes \<Rightarrow> bytes list \<Rightarrow> bytes list" where
  "pack maxb buf [] = (if buf = [] then [] else [buf])"
| "pack maxb buf (f # fs) =
     (if buf \<noteq> [] \<and> length buf + length (code f) > maxb then buf # pack maxb (code f) fs
      else pack maxb (buf @ code f) fs)"

lemma pack_concat: "concat (pack maxb buf fs) = buf @ concat (map code fs)"
  by (induction fs arbitrary: buf) auto

lemma pack_bound:
  "length buf \<le> maxb \<Longrightarrow> list_all (\<lambda>f. length (code f) \<le> maxb) fs \<Longrightarrow>
     list_all (\<lambda>c. c \<noteq> [] \<and> length c \<le> maxb) (pack maxb buf fs)"
  by (induction fs arbitrary: buf) auto

text \<open>When no frame has an empty encoding, the chunks encode runs of consecutive frames.\<close>

lemma pack_runs:
  "(\<And>f. code f \<noteq> []) \<Longrightarrow>
     \<exists>gs. pack maxb (concat (map code pre)) fs = map (\<lambda>g. concat (map code g)) gs \<and> concat gs = pre @ fs"
proof (induction fs arbitrary: pre)
  case Nil
  show ?case by (cases pre) (auto simp: Nil intro: exI [of _ "[]"] exI [of _ "[pre]"])
next
  case (Cons f fs)
  obtain gs where g: "pack maxb (concat (map code [f])) fs = map (\<lambda>g. concat (map code g)) gs"
    "concat gs = f # fs" using Cons.IH [of "[f]"] Cons.prems by auto
  obtain hs where h: "pack maxb (concat (map code (pre @ [f]))) fs = map (\<lambda>g. concat (map code g)) hs"
    "concat hs = pre @ f # fs" using Cons.IH [of "pre @ [f]"] Cons.prems by auto
  show ?case
  proof (cases "concat (map code pre) \<noteq> [] \<and> length (concat (map code pre)) + length (code f) > maxb")
    case True
    then show ?thesis using g by (intro exI [of _ "pre # gs"]) simp
  next
    case False
    then show ?thesis using h by (intro exI [of _ hs]) auto
  qed
qed

lemma chunkLoop_pack:
  "list_all (\<lambda>f. validateReliableMessageSize f = None) fs \<Longrightarrow>
   ovr \<or> list_all (\<lambda>f. length (code f) \<le> maxb) fs \<Longrightarrow>
     chunkLoop enc maxb ovr i chunks buf fs = Inr (chunks @ pack maxb buf fs)"
  by (induction fs arbitrary: i chunks buf) (auto simp: append_code len_code Let_def)

lemma count_chunks:
  "countLoop enc maxb i (length chunks) (length buf) fs =
     (case chunkLoop enc maxb True i chunks buf fs of Inl e \<Rightarrow> Inl e | Inr cs \<Rightarrow> Inr (length cs))"
proof (induction fs arbitrary: i chunks buf)
  case (Cons f fs)
  show ?case
    using Cons.IH [of "i + 1" "chunks @ [buf]" "code f"] Cons.IH [of "i + 1" chunks "buf @ code f"]
    by (auto simp: append_code len_code Let_def split: option.splits)
qed simp

text \<open>A sink that accepts everything receives the chunks in order.\<close>

lemma write_chunks:
  "chunkLoop enc maxb True i chunks buf fs = Inr cs \<Longrightarrow>
     writeLoop enc maxb (\<lambda>c w. (None, w @ [c])) i buf fs chunks = (None, cs)"
  by (induction fs arbitrary: i chunks buf)
    (auto simp: append_code len_code Let_def split: option.splits if_splits)

lemma write_error:
  "chunkLoop enc maxb True i chunks buf fs = Inl e \<Longrightarrow>
     fst (writeLoop enc maxb (\<lambda>c w. (None, w @ [c])) i buf fs chunks) = Some e"
  by (induction fs arbitrary: i chunks buf)
    (auto simp: append_code len_code Let_def split: option.splits if_splits)

lemma chunkLoop_ok:
  "chunkLoop enc maxb ovr i chunks buf fs = Inr cs \<Longrightarrow>
     list_all (\<lambda>f. validateReliableMessageSize f = None) fs
     \<and> (ovr \<or> list_all (\<lambda>f. length (code f) \<le> maxb) fs) \<and> cs = chunks @ pack maxb buf fs"
proof (induction fs arbitrary: i chunks buf)
  case (Cons f fs)
  then show ?case
    using Cons.IH [of "i + 1" "chunks @ [buf]" "code f"] Cons.IH [of "i + 1" chunks "buf @ code f"]
    by (auto simp: append_code len_code Let_def split: option.splits if_splits)
qed (auto split: if_splits)

end

text \<open>The bytes of one length-prefixed frame.\<close>

definition frame_bytes :: "bytes \<Rightarrow> bytes" where
  "frame_bytes data = put_be32 (of_nat (length data)) @ data"

lemma appendLengthPrefixed_bytes: "appendLengthPrefixedReliableFrame dst data = dst @ frame_bytes data"
  by (simp add: appendLengthPrefixedReliableFrame_def frame_bytes_def write_at_def Let_def)

lemma length_frame_bytes [simp]: "length (frame_bytes data) = 4 + length data"
  by (simp add: frame_bytes_def)

lemma frame_bytes_ne [simp]: "frame_bytes data \<noteq> []"
  using length_frame_bytes [of data] by (metis add_is_0 list.size(3) zero_neq_numeral)

interpretation raw_enc: chunk_encoder rawReliableChunkEncoder "\<lambda>f. f"
  by unfold_locales (simp_all add: rawReliableChunkEncoder_def)

interpretation lp_enc: chunk_encoder lengthPrefixedReliableChunkEncoder frame_bytes
  by unfold_locales (simp_all add: lengthPrefixedReliableChunkEncoder_def appendLengthPrefixed_bytes)

section \<open>The packing loops agree\<close>

text \<open>The encoder of a stream transport: length prefixes on WebTransport, none on WebSocket.\<close>

definition streamEncoder :: "bool \<Rightarrow> reliableChunkEncoder" where
  "streamEncoder prefixed =
     (if prefixed then lengthPrefixedReliableChunkEncoder else rawReliableChunkEncoder)"

lemma unreliable_count:
  "0 < length buf \<Longrightarrow>
   unreliableCountLoop i (Suc (length chunks)) (length buf) fs =
     (case chunkLoop lengthPrefixedReliableChunkEncoder maxUnreliableStateDatagramPayloadBytes False i chunks buf fs of
        Inl e \<Rightarrow> Inl e | Inr cs \<Rightarrow> Inr (length cs))"
proof (induction fs arbitrary: i chunks buf)
  case (Cons f fs)
  show ?case
    using Cons.prems Cons.IH [of "frame_bytes f" "i + 1" "chunks @ [buf]"]
      Cons.IH [of "buf @ frame_bytes f" "i + 1" chunks]
    by (auto simp: lp_enc.append_code lp_enc.len_code UnreliableStateDatagramFramePayloadLen_def Let_def
        split: option.splits)
qed simp

lemma unreliable_count_start:
  "unreliableCountLoop 0 1 0 (f # fs) =
     (case chunkLoop lengthPrefixedReliableChunkEncoder maxUnreliableStateDatagramPayloadBytes False 0 [] [] (f # fs) of
        Inl e \<Rightarrow> Inl e | Inr cs \<Rightarrow> Inr (length cs))"
  using unreliable_count [of "frame_bytes f" 1 "[]" fs]
  by (auto simp: lp_enc.append_code lp_enc.len_code UnreliableStateDatagramFramePayloadLen_def Let_def
      split: option.splits)

text \<open>
  The copies of the packing loop agree, errors included, for both stream encoders: the counting
  functions return the number of chunks that packing produces, or its error; and writing to a
  sink hands over exactly the chunks that packing produces, in order, and reports its error.
\<close>

theorem chunk_loops_agree:
  "countReliableFrameChunks frames m (streamEncoder b) =
     (case chunkReliableFrames frames m (streamEncoder b) of Inl e \<Rightarrow> Inl e | Inr cs \<Rightarrow> Inr (length cs))
   \<and> UnreliableStateDatagramPayloadCount frames =
     (case UnreliableStateDatagramPayloads frames of Inl e \<Rightarrow> Inl e | Inr cs \<Rightarrow> Inr (length cs))
   \<and> (case chunkReliableFrames frames m (streamEncoder b) of
        Inl e \<Rightarrow> fst (writeReliableFrameChunks frames m (streamEncoder b) (\<lambda>c w. (None, w @ [c])) []) = Some e
      | Inr cs \<Rightarrow> writeReliableFrameChunks frames m (streamEncoder b) (\<lambda>c w. (None, w @ [c])) [] = (None, cs))"
proof (intro conjI)
  show "countReliableFrameChunks frames m (streamEncoder b) =
     (case chunkReliableFrames frames m (streamEncoder b) of Inl e \<Rightarrow> Inl e | Inr cs \<Rightarrow> Inr (length cs))"
    using raw_enc.count_chunks [of "nat m" 0 "[]" "[]" frames] lp_enc.count_chunks [of "nat m" 0 "[]" "[]" frames]
    by (simp add: countReliableFrameChunks_def chunkReliableFrames_def chunkFrames_def streamEncoder_def)
  show "UnreliableStateDatagramPayloadCount frames =
     (case UnreliableStateDatagramPayloads frames of Inl e \<Rightarrow> Inl e | Inr cs \<Rightarrow> Inr (length cs))"
    using unreliable_count_start
    by (cases frames) (simp_all add: UnreliableStateDatagramPayloadCount_def UnreliableStateDatagramPayloads_def
        chunkFrames_def del: unreliableCountLoop.simps chunkLoop.simps)
  show "case chunkReliableFrames frames m (streamEncoder b) of
        Inl e \<Rightarrow> fst (writeReliableFrameChunks frames m (streamEncoder b) (\<lambda>c w. (None, w @ [c])) []) = Some e
      | Inr cs \<Rightarrow> writeReliableFrameChunks frames m (streamEncoder b) (\<lambda>c w. (None, w @ [c])) [] = (None, cs)"
    by (auto simp: chunkReliableFrames_def chunkFrames_def writeReliableFrameChunks_def streamEncoder_def
        dest: raw_enc.write_chunks raw_enc.write_error lp_enc.write_chunks lp_enc.write_error split: sum.splits)
qed

section \<open>The WebTransport stream\<close>

text \<open>
  \<^verbatim>\<open>webTransportReliableChannel\<close>: \<^verbatim>\<open>WriteBatch\<close> and the loop of
  \<^verbatim>\<open>ReadMessages\<close>, over a stream that holds the bytes \<open>s\<close> and then ends.  The loop hands
  each frame to the callback and returns the first error.
\<close>

definition wt_WriteBatch ::
  "(bytes \<Rightarrow> 'w \<Rightarrow> payloadError option \<times> 'w) \<Rightarrow> bytes list \<Rightarrow> 'w \<Rightarrow> payloadError option \<times> 'w" where
  "wt_WriteBatch write frames w =
     writeReliableFrameChunks frames (int maxReliableChunkBytes) lengthPrefixedReliableChunkEncoder write w"

definition ws_WriteBatch ::
  "(bytes \<Rightarrow> 'w \<Rightarrow> payloadError option \<times> 'w) \<Rightarrow> bytes list \<Rightarrow> 'w \<Rightarrow> payloadError option \<times> 'w" where
  "ws_WriteBatch write frames w =
     writeReliableFrameChunks frames (int maxWebSocketPayloadBytes) rawReliableChunkEncoder write w"

lemma readReliableFrame_shorter: "readReliableFrame s = Inr (d, s') \<Longrightarrow> length s' < length s"
  by (auto simp: readReliableFrame_def ReadFull_def Let_def split: if_splits)

function wt_ReadMessages :: "bytes \<Rightarrow> bytes list \<times> payloadError" where
  "wt_ReadMessages s =
     (case readReliableFrame s of
        Inl e \<Rightarrow> ([], e)
      | Inr (d, s') \<Rightarrow> (case wt_ReadMessages s' of (ds, e) \<Rightarrow> (d # ds, e)))"
  by pat_completeness auto
termination
  by (relation "measure length") (auto intro: readReliableFrame_shorter)

declare wt_ReadMessages.simps [simp del]

text \<open>One frame: length-prefixed frames are a self-delimiting codec.\<close>

lemma read_frame_bytes:
  assumes "length f \<le> maxReliableMessageBytes"
  shows "readReliableFrame (frame_bytes f @ rest) = Inr (f, rest)"
proof -
  have "unat (of_nat (length f) :: u32) = length f"
    using assms by (simp add: unsigned_of_nat take_bit_nat_eq_self)
  moreover have "be32_at (put_be32 v) 0 = v" for v using be32_at_put [of 0 "[]" v "[]"] by simp
  ultimately show ?thesis using assms
    by (simp add: readReliableFrame_def ReadFull_def frame_bytes_def Let_def)
qed

interpretation stream_frame: byte_codec frame_bytes
  "\<lambda>s. case readReliableFrame s of Inl _ \<Rightarrow> None | Inr p \<Rightarrow> Some p"
  "\<lambda>f. length f \<le> maxReliableMessageBytes"
  by unfold_locales (simp add: read_frame_bytes del: framing_consts)

lemma dec_many_ReadMessages:
  "stream_frame.dec_many n s = Some (ds, s') \<Longrightarrow>
     wt_ReadMessages s = (case wt_ReadMessages s' of (es, e) \<Rightarrow> (ds @ es, e))"
proof (induction n arbitrary: s ds)
  case (Suc n)
  then show ?case
    by (subst wt_ReadMessages.simps) (fastforce split: option.splits sum.splits prod.splits)
qed auto

lemma ReadMessages_end: "wt_ReadMessages [] = ([], errEOF)"
  by (simp add: wt_ReadMessages.simps readReliableFrame_def ReadFull_def)

lemma WriteBatch_concat:
  assumes "list_all (\<lambda>f. length f \<le> maxReliableMessageBytes) frames"
  shows "\<exists>cs. wt_WriteBatch (\<lambda>c w. (None, w @ [c])) frames [] = (None, cs)
    \<and> concat cs = concat (map frame_bytes frames)"
proof -
  have "list_all (\<lambda>f. validateReliableMessageSize f = None) frames"
    using assms by (simp add: validateReliableMessageSize_def list_all_iff not_less)
  from lp_enc.chunkLoop_pack [OF this, of True "nat (int maxReliableChunkBytes)" 0 "[]" "[]"]
  have "wt_WriteBatch (\<lambda>c w. (None, w @ [c])) frames [] = (None, lp_enc.pack maxReliableChunkBytes [] frames)"
    by (auto simp: wt_WriteBatch_def writeReliableFrameChunks_def simp del: framing_consts
        dest: lp_enc.write_chunks) (simp_all add: maxReliableChunkBytes_def)
  then show ?thesis using lp_enc.pack_concat [of maxReliableChunkBytes "[]" frames] by auto
qed

text \<open>
  C11.  The reliable stream delivers what was written: when a batch of frames of legal size is
  written in chunks of at most 32000 bytes (or one oversized frame), the reader of the
  concatenated chunks receives exactly the frames of the batch, empty ones included, in order,
  and then the end of the stream.
\<close>

theorem stream_roundtrip:
  assumes "list_all (\<lambda>f. length f \<le> maxReliableMessageBytes) frames"
  shows "\<exists>cs. wt_WriteBatch (\<lambda>c w. (None, w @ [c])) frames [] = (None, cs)
    \<and> wt_ReadMessages (concat cs) = (frames, errEOF)"
proof -
  have "stream_frame.dec_many (length frames) (concat (map frame_bytes frames) @ []) = Some (frames, [])"
    using assms by (rule stream_frame.dec_many_concat)
  from dec_many_ReadMessages [OF this] have "wt_ReadMessages (concat (map frame_bytes frames)) = (frames, errEOF)"
    by (simp add: ReadMessages_end)
  with WriteBatch_concat [OF assms] show ?thesis by auto
qed

theorem stream_roundtrip_witness:
  "\<exists>cs. wt_WriteBatch (\<lambda>c w. (None, w @ [c])) [[1], [], [2, 3]] [] = (None, cs)
    \<and> wt_ReadMessages (concat cs) = ([[1], [], [2, 3]], errEOF)"
  using stream_roundtrip [of "[[1], [], [2, 3]]"] by simp

end
