(* ===== verification/Pb_Codec.thy ===== *)
theory Pb_Codec
  imports Go_Binary
begin

text \<open>
  The protobuf wire codec of \<^verbatim>\<open>golem/pb\<close>: \<open>pbWriter\<close> models \<^verbatim>\<open>Writer\<close>
  (\<^verbatim>\<open>writer.go\<close>), \<open>pbReader\<close> models \<^verbatim>\<open>Reader\<close> (\<^verbatim>\<open>reader.go\<close>), and the
  envelope functions those of \<^verbatim>\<open>golem/servermsg.go\<close>.  A float is its IEEE bit
  pattern (\<^verbatim>\<open>math.Float32bits\<close> and its inverse keep the pattern).  A run-time panic
  of the Go code is an \<open>Inl\<close> result.

  A slice expression \<^verbatim>\<open>buf[a:b]\<close> may reach beyond \<^verbatim>\<open>len(buf)\<close> up to
  \<^verbatim>\<open>cap(buf)\<close>: \<open>r_spare\<close> holds the bytes of the backing array between the two.
\<close>

unbundle bit_operations_syntax

section \<open>Writer\<close>

record pbWriter =
  w_buf :: bytes

definition w_empty :: pbWriter where
  "w_empty = \<lparr>w_buf = []\<rparr>"

lemma drop_bit_7_less: "0x7f < (v :: u64) \<Longrightarrow> unat (drop_bit 7 v) < unat v"
  by (simp add: drop_bit_eq_div unat_div word_less_nat_alt)

function w_uvarint :: "pbWriter \<Rightarrow> u64 \<Rightarrow> pbWriter" where
  "w_uvarint w v =
     (if 0x7f < v
      then w_uvarint (w\<lparr>w_buf := w_buf w @ [ucast (v AND 0x7f) OR 0x80]\<rparr>) (drop_bit 7 v)
      else w\<lparr>w_buf := w_buf w @ [ucast v]\<rparr>)"
  by pat_completeness auto

termination
  by (relation "measure (\<lambda>(w, v). unat v)") (auto simp: drop_bit_7_less)

declare w_uvarint.simps [simp del]

definition w_Tag :: "pbWriter \<Rightarrow> int64 \<Rightarrow> int64 \<Rightarrow> pbWriter" where
  "w_Tag w field wireType = w_uvarint w (push_bit 3 field OR wireType)"

definition w_Int32 :: "pbWriter \<Rightarrow> u32 \<Rightarrow> pbWriter" where
  "w_Int32 w v = w_uvarint w (scast v)"

definition w_Int64 :: "pbWriter \<Rightarrow> int64 \<Rightarrow> pbWriter" where
  "w_Int64 w v = w_uvarint w v"

definition w_Uint32 :: "pbWriter \<Rightarrow> u32 \<Rightarrow> pbWriter" where
  "w_Uint32 w v = w_uvarint w (ucast v)"

definition w_Uint64 :: "pbWriter \<Rightarrow> u64 \<Rightarrow> pbWriter" where
  "w_Uint64 w v = w_uvarint w v"

definition w_Sint32 :: "pbWriter \<Rightarrow> u32 \<Rightarrow> pbWriter" where
  "w_Sint32 w v = w_uvarint w (ucast (push_bit 1 v XOR signed_drop_bit 31 v))"

definition w_Sint64 :: "pbWriter \<Rightarrow> int64 \<Rightarrow> pbWriter" where
  "w_Sint64 w v = w_uvarint w (push_bit 1 v XOR signed_drop_bit 63 v)"

definition w_Bool :: "pbWriter \<Rightarrow> bool \<Rightarrow> pbWriter" where
  "w_Bool w v = (if v then w\<lparr>w_buf := w_buf w @ [1]\<rparr> else w\<lparr>w_buf := w_buf w @ [0]\<rparr>)"

definition w_Float32 :: "pbWriter \<Rightarrow> u32 \<Rightarrow> pbWriter" where
  "w_Float32 w v = w\<lparr>w_buf := w_buf w @ put_le32 v\<rparr>"

definition w_Float64 :: "pbWriter \<Rightarrow> u64 \<Rightarrow> pbWriter" where
  "w_Float64 w v = w\<lparr>w_buf := w_buf w @ put_le64 v\<rparr>"

definition w_String :: "pbWriter \<Rightarrow> bytes \<Rightarrow> pbWriter" where
  "w_String w v = (let w' = w_uvarint w (of_nat (length v)) in w'\<lparr>w_buf := w_buf w' @ v\<rparr>)"

definition w_Bytes :: "pbWriter \<Rightarrow> bytes \<Rightarrow> pbWriter" where
  "w_Bytes w v = (let w' = w_uvarint w (of_nat (length v)) in w'\<lparr>w_buf := w_buf w' @ v\<rparr>)"

definition w_Raw :: "pbWriter \<Rightarrow> bytes \<Rightarrow> pbWriter" where
  "w_Raw w v = w\<lparr>w_buf := w_buf w @ v\<rparr>"

definition w_Finish :: "pbWriter \<Rightarrow> bytes" where
  "w_Finish w = w_buf w"

section \<open>Reader\<close>

datatype pb_panic = IndexOutOfRange | SliceOutOfRange | UnsupportedWireType int64

record pbReader =
  r_buf :: bytes
  r_spare :: bytes
  r_pos :: int

definition NewReader :: "bytes \<Rightarrow> bytes \<Rightarrow> pbReader" where
  "NewReader buf spare = \<lparr>r_buf = buf, r_spare = spare, r_pos = 0\<rparr>"

definition r_Done :: "pbReader \<Rightarrow> bool" where
  "r_Done r \<longleftrightarrow> r_pos r \<ge> int (length (r_buf r))"

function r_uvarint_loop :: "pbReader \<Rightarrow> u64 \<Rightarrow> nat \<Rightarrow> pb_panic + u64 \<times> pbReader" where
  "r_uvarint_loop r v shift =
     (if r_pos r < int (length (r_buf r))
      then (if r_pos r < 0 then Inl IndexOutOfRange
            else let b = r_buf r ! nat (r_pos r);
                     r' = r\<lparr>r_pos := r_pos r + 1\<rparr>;
                     v' = v OR push_bit shift (ucast (b AND 0x7f))
                 in if b < 0x80 then Inr (v', r') else r_uvarint_loop r' v' (shift + 7))
      else Inr (v, r))"
  by pat_completeness auto

termination
  by (relation "measure (\<lambda>(r, v, shift). nat (int (length (r_buf r)) - r_pos r))") auto

declare r_uvarint_loop.simps [simp del]

definition r_uvarint :: "pbReader \<Rightarrow> pb_panic + u64 \<times> pbReader" where
  "r_uvarint r = r_uvarint_loop r 0 0"

definition r_Tag :: "pbReader \<Rightarrow> pb_panic + (int64 \<times> int64) \<times> pbReader" where
  "r_Tag r = res_bind (r_uvarint r) (\<lambda>(v, r'). Inr ((drop_bit 3 v, v AND 7), r'))"

definition r_Int32 :: "pbReader \<Rightarrow> pb_panic + u32 \<times> pbReader" where
  "r_Int32 r = res_bind (r_uvarint r) (\<lambda>(v, r'). Inr (ucast v, r'))"

definition r_Int64 :: "pbReader \<Rightarrow> pb_panic + int64 \<times> pbReader" where
  "r_Int64 r = r_uvarint r"

definition r_Uint32 :: "pbReader \<Rightarrow> pb_panic + u32 \<times> pbReader" where
  "r_Uint32 r = res_bind (r_uvarint r) (\<lambda>(v, r'). Inr (ucast v, r'))"

definition r_Uint64 :: "pbReader \<Rightarrow> pb_panic + u64 \<times> pbReader" where
  "r_Uint64 r = r_uvarint r"

definition r_Sint32 :: "pbReader \<Rightarrow> pb_panic + u32 \<times> pbReader" where
  "r_Sint32 r = res_bind (r_uvarint r)
     (\<lambda>(u, r'). let v = ucast u :: u32 in Inr (drop_bit 1 v XOR - (v AND 1), r'))"

definition r_Sint64 :: "pbReader \<Rightarrow> pb_panic + int64 \<times> pbReader" where
  "r_Sint64 r = res_bind (r_uvarint r) (\<lambda>(v, r'). Inr (drop_bit 1 v XOR - (v AND 1), r'))"

definition r_Bool :: "pbReader \<Rightarrow> pb_panic + bool \<times> pbReader" where
  "r_Bool r = res_bind (r_uvarint r) (\<lambda>(v, r'). Inr (v \<noteq> 0, r'))"

text \<open>\<^verbatim>\<open>buf[a:]\<close>: the lower bound is checked against \<^verbatim>\<open>len\<close>.\<close>

definition slice_from :: "pbReader \<Rightarrow> int \<Rightarrow> pb_panic + bytes" where
  "slice_from r a =
     (if 0 \<le> a \<and> a \<le> int (length (r_buf r)) then Inr (drop (nat a) (r_buf r))
      else Inl SliceOutOfRange)"

text \<open>\<^verbatim>\<open>buf[a:b]\<close>: the upper bound is checked against \<^verbatim>\<open>cap\<close>.\<close>

definition slice_range :: "pbReader \<Rightarrow> int \<Rightarrow> int \<Rightarrow> pb_panic + bytes" where
  "slice_range r a b =
     (let back = r_buf r @ r_spare r
      in if 0 \<le> a \<and> a \<le> b \<and> b \<le> int (length back)
         then Inr (take (nat (b - a)) (drop (nat a) back)) else Inl SliceOutOfRange)"

definition r_Float32 :: "pbReader \<Rightarrow> pb_panic + u32 \<times> pbReader" where
  "r_Float32 r = res_bind (slice_from r (r_pos r))
     (\<lambda>bs. if length bs < 4 then Inl IndexOutOfRange
           else Inr (le32_at bs 0, r\<lparr>r_pos := r_pos r + 4\<rparr>))"

definition r_Float64 :: "pbReader \<Rightarrow> pb_panic + u64 \<times> pbReader" where
  "r_Float64 r = res_bind (slice_from r (r_pos r))
     (\<lambda>bs. if length bs < 8 then Inl IndexOutOfRange
           else Inr (le64_at bs 0, r\<lparr>r_pos := r_pos r + 8\<rparr>))"

definition r_String :: "pbReader \<Rightarrow> pb_panic + bytes \<times> pbReader" where
  "r_String r = res_bind (r_uvarint r) (\<lambda>(u, r').
     let n = sint u
     in res_bind (slice_range r' (r_pos r') (r_pos r' + n))
          (\<lambda>s. Inr (s, r'\<lparr>r_pos := r_pos r' + n\<rparr>)))"

definition r_Bytes :: "pbReader \<Rightarrow> pb_panic + bytes \<times> pbReader" where
  "r_Bytes r = res_bind (r_uvarint r) (\<lambda>(u, r').
     let n = sint u
     in if n < 0 then Inl SliceOutOfRange
        else res_bind (slice_range r' (r_pos r') (r_pos r' + n))
          (\<lambda>s. Inr (s, r'\<lparr>r_pos := r_pos r' + n\<rparr>)))"

definition r_Remaining :: "pbReader \<Rightarrow> pb_panic + bytes \<times> pbReader" where
  "r_Remaining r = res_bind (slice_from r (r_pos r))
     (\<lambda>b. Inr (b, r\<lparr>r_pos := int (length (r_buf r))\<rparr>))"

text \<open>
  \<^verbatim>\<open>Skip\<close> advances \<^verbatim>\<open>pos\<close> without a bounds check; the addition of the signed
  length wraps at 64 bits.
\<close>

definition wrap_int :: "int \<Rightarrow> int" where
  "wrap_int x = sint (word_of_int x :: 64 word)"

definition r_Skip :: "pbReader \<Rightarrow> int64 \<Rightarrow> pb_panic + pbReader" where
  "r_Skip r wireType =
     (if wireType = 0 then res_bind (r_uvarint r) (\<lambda>(v, r'). Inr r')
      else if wireType = 1 then Inr (r\<lparr>r_pos := wrap_int (r_pos r + 8)\<rparr>)
      else if wireType = 2
        then res_bind (r_uvarint r) (\<lambda>(v, r'). Inr (r'\<lparr>r_pos := wrap_int (r_pos r' + sint v)\<rparr>))
      else if wireType = 5 then Inr (r\<lparr>r_pos := wrap_int (r_pos r + 4)\<rparr>)
      else Inl (UnsupportedWireType wireType))"

section \<open>Server message envelopes\<close>

definition WrapEntityUpdate :: "bytes \<Rightarrow> bytes" where
  "WrapEntityUpdate data = w_Finish (w_Bytes (w_Tag w_empty 1 2) data)"

definition WrapWorldUpdate :: "bytes \<Rightarrow> bytes" where
  "WrapWorldUpdate data = w_Finish (w_Bytes (w_Tag w_empty 2 2) data)"

definition WrapServerEvent :: "bytes \<Rightarrow> bytes" where
  "WrapServerEvent data = w_Finish (w_Bytes (w_Tag w_empty 3 2) data)"

section \<open>Varints\<close>

text \<open>The bytes \<open>w_uvarint\<close> appends do not depend on what is in the buffer.\<close>

definition uvarint_bytes :: "u64 \<Rightarrow> bytes" where
  "uvarint_bytes v = w_buf (w_uvarint w_empty v)"

lemma w_uvarint_prefix:
  "w_uvarint w v = w\<lparr>w_buf := w_buf w @ w_buf (w_uvarint \<lparr>w_buf = []\<rparr> v)\<rparr>"
proof (induction "unat v" arbitrary: w v rule: less_induct)
  case less
  show ?case
  proof (cases "0x7f < v")
    case True
    note IH = less [OF drop_bit_7_less [OF True]]
    show ?thesis
      using True IH [of "w\<lparr>w_buf := w_buf w @ [ucast (v AND 0x7f) OR 0x80]\<rparr>"]
        IH [of "\<lparr>w_buf = [ucast (v AND 0x7f) OR 0x80]\<rparr>"]
      by (simp add: w_uvarint.simps [of w v] w_uvarint.simps [of "\<lparr>w_buf = []\<rparr>" v])
  next
    case False
    then show ?thesis
      by (simp add: w_uvarint.simps [of w v] w_uvarint.simps [of "\<lparr>w_buf = []\<rparr>" v])
  qed
qed

lemma w_buf_uvarint [simp]: "w_buf (w_uvarint w v) = w_buf w @ uvarint_bytes v"
  by (subst w_uvarint_prefix) (simp add: uvarint_bytes_def w_empty_def)

lemma uvarint_bytes_step:
  "uvarint_bytes v =
     (if 0x7f < v then (ucast (v AND 0x7f) OR 0x80) # uvarint_bytes (drop_bit 7 v)
      else [ucast v])"
  unfolding uvarint_bytes_def [of v] w_empty_def
  by (subst w_uvarint.simps) simp

lemma uvarint_bytes_nonempty [simp]: "uvarint_bytes v \<noteq> []"
  by (subst uvarint_bytes_step) simp

lemma mask7: "(0x7f :: 'a::len word) = mask 7"
  by (simp add: mask_eq_exp_minus_1)

lemma low7_join:
  "push_bit s (v AND 0x7f) OR push_bit (s + 7) (drop_bit 7 v) = push_bit s (v :: u64)"
proof (rule bit_word_eqI)
  fix n assume "n < LENGTH(64)"
  show "bit (push_bit s (v AND 0x7f) OR push_bit (s + 7) (drop_bit 7 v)) n = bit (push_bit s v) n"
    unfolding mask7
    by (auto simp: bit_simps)
      (metis add.commute add_diff_inverse_nat diff_diff_left less_or_eq_imp_le not_less)
qed

lemma cont_byte: "ucast ((ucast (v AND 0x7f) OR 0x80 :: byte) AND 0x7f) = (v :: u64) AND 0x7f"
proof -
  have "(ucast (v AND 0x7f) OR 0x80 :: byte) AND 0x7f = ucast (v AND 0x7f) AND 0x7f"
    by (simp add: word_ao_dist)
  moreover have "ucast (ucast (v AND 0x7f) AND 0x7f :: byte) = v AND 0x7f"
    unfolding mask7 by (rule bit_word_eqI) (auto simp: bit_simps)
  ultimately show ?thesis by simp
qed

lemma cont_byte_high: "\<not> (ucast (v AND 0x7f :: u64) OR 0x80 :: byte) < 0x80"
  using le_word_or1 [of "0x80 :: byte" "ucast (v AND 0x7f :: u64)"] by simp

lemma last_byte:
  assumes "\<not> 0x7f < (v :: u64)"
  shows "(ucast v :: byte) < 0x80" "ucast ((ucast v :: byte) AND 0x7f) = v"
proof -
  have u: "unat v < 128" using assms by (simp add: word_less_nat_alt)
  then show "(ucast v :: byte) < 0x80" by (simp add: word_less_nat_alt unsigned_ucast_eq take_bit_nat_eq_self)
  have "take_bit 7 v = v" using u by (simp add: unsigned_take_bit_eq word_unat_eq_iff take_bit_nat_eq_self)
  moreover have "ucast ((ucast v :: byte) AND 0x7f) = take_bit 7 v"
    unfolding mask7 by (rule bit_word_eqI) (auto simp: bit_simps)
  ultimately show "ucast ((ucast v :: byte) AND 0x7f) = v" by simp
qed

lemma r_uvarint_loop_bytes:
  assumes "r_buf r = pre @ uvarint_bytes v @ post" and "r_pos r = int (length pre)"
  shows "r_uvarint_loop r acc shift =
     Inr (acc OR push_bit shift v, r\<lparr>r_pos := int (length (pre @ uvarint_bytes v))\<rparr>)"
  using assms
proof (induction "unat v" arbitrary: r pre v acc shift rule: less_induct)
  case less
  show ?case
  proof (cases "0x7f < v")
    case True
    let ?b = "ucast (v AND 0x7f) OR 0x80 :: byte"
    let ?r = "r\<lparr>r_pos := r_pos r + 1\<rparr>"
    have ub: "uvarint_bytes v = ?b # uvarint_bytes (drop_bit 7 v)"
      using True by (subst uvarint_bytes_step) simp
    have "r_buf ?r = (pre @ [?b]) @ uvarint_bytes (drop_bit 7 v) @ post"
      and "r_pos ?r = int (length (pre @ [?b]))"
      using less.prems ub by simp_all
    note IH = less.hyps [OF drop_bit_7_less [OF True] this]
    show ?thesis
      using less.prems ub IH [of "acc OR push_bit shift (v AND 0x7f)" "shift + 7"]
      by (subst r_uvarint_loop.simps)
        (simp add: Let_def nth_append cont_byte cont_byte_high low7_join [simplified] or.assoc)
  next
    case False
    then have "uvarint_bytes v = [ucast v]" by (subst uvarint_bytes_step) simp
    then show ?thesis
      using less.prems last_byte [OF False]
      by (subst r_uvarint_loop.simps) (simp add: Let_def nth_append)
  qed
qed

lemma r_uvarint_bytes:
  assumes "r_buf r = pre @ uvarint_bytes v @ post" and "r_pos r = int (length pre)"
  shows "r_uvarint r = Inr (v, r\<lparr>r_pos := int (length (pre @ uvarint_bytes v))\<rparr>)"
  unfolding r_uvarint_def using r_uvarint_loop_bytes [OF assms, of 0 0] by simp

lemma length_uvarint_bytes_bound:
  "unat v < 2 ^ (7 * Suc k) \<Longrightarrow> length (uvarint_bytes v) \<le> Suc k"
proof (induction k arbitrary: v)
  case 0
  then show ?case by (subst uvarint_bytes_step) (auto simp: word_less_nat_alt)
next
  case (Suc k)
  have "unat (drop_bit 7 v) < 2 ^ (7 * Suc k)"
    using Suc.prems by (simp add: drop_bit_eq_div unat_div power_add less_mult_imp_div_less)
  from Suc.IH [OF this] show ?case by (subst uvarint_bytes_step) auto
qed

lemma length_uvarint_bytes_le: "length (uvarint_bytes v) \<le> 10"
  using length_uvarint_bytes_bound [of v 9] unsigned_less [where 'a = nat, of v] by simp

lemma bit_zigzag_sign:
  fixes w :: "'a::len word"
  shows "bit (- (w AND 1)) n \<longleftrightarrow> n < LENGTH('a) \<and> bit w 0"
proof (cases "even w")
  case True
  then have "w AND 1 = 0" by (simp add: and_one_eq even_iff_mod_2_eq_zero)
  then show ?thesis using True by (simp add: bit_0)
next
  case False
  then have "w AND 1 = 1" by (simp add: and_one_eq odd_iff_mod_2_eq_one)
  then show ?thesis using False by (simp add: bit_0)
qed

lemma zigzag_word:
  fixes v :: "'a::len word"
  assumes "w = push_bit 1 v XOR signed_drop_bit (LENGTH('a) - 1) v"
  shows "drop_bit 1 w XOR - (w AND 1) = v"
proof (rule bit_word_eqI)
  fix n assume n: "n < LENGTH('a)"
  have b0: "bit w 0 \<longleftrightarrow> bit v (LENGTH('a) - 1)"
    unfolding assms bit_xor_iff bit_push_bit_iff by (simp add: bit_simps)
  have bS: "Suc n < LENGTH('a) \<Longrightarrow> bit w (Suc n) \<longleftrightarrow> bit v n \<noteq> bit v (LENGTH('a) - 1)"
    unfolding assms bit_xor_iff bit_push_bit_iff by (auto simp: bit_simps)
  show "bit (drop_bit 1 w XOR - (w AND 1)) n = bit v n"
  proof (cases "Suc n < LENGTH('a)")
    case True
    then show ?thesis using n b0 bS by (auto simp: bit_xor_iff bit_zigzag_sign bit_drop_bit_eq)
  next
    case False
    then have "n = LENGTH('a) - 1" using n by simp
    then show ?thesis using n b0 False
      by (auto simp: bit_xor_iff bit_zigzag_sign bit_drop_bit_eq dest: bit_imp_le_length)
  qed
qed
lemma tag_split:
  assumes "(field :: u64) < 2 ^ 61" and "wire < 8"
  shows "drop_bit 3 (push_bit 3 field OR wire) = field \<and> (push_bit 3 field OR wire) AND 7 = wire"
proof -
  have f: "take_bit 61 field = field" and w: "take_bit 3 wire = wire"
    using assms by (simp_all add: word_unat_eq_iff unsigned_take_bit_eq take_bit_nat_eq_self word_less_nat_alt)
  have fb: "bit field n \<Longrightarrow> n < 61" and wb: "bit wire n \<Longrightarrow> n < 3" for n
    using f w by (metis bit_take_bit_iff)+
  have m: "(7 :: u64) = mask 3" by (simp add: mask_eq_exp_minus_1)
  show ?thesis
    unfolding m
    by (intro conjI bit_word_eqI) (auto simp: bit_simps dest: fb wb)
qed

section \<open>Round trips\<close>

text \<open>
  \<open>rd_at w w' post spare\<close>: a reader over what \<open>w'\<close> has written, followed by any further
  bytes \<open>post\<close>, standing where the writer \<open>w\<close> stood.
\<close>

definition rd_at :: "pbWriter \<Rightarrow> pbWriter \<Rightarrow> bytes \<Rightarrow> bytes \<Rightarrow> pbReader" where
  "rd_at w w' post spare =
     \<lparr>r_buf = w_buf w' @ post, r_spare = spare, r_pos = int (length (w_buf w))\<rparr>"

lemma r_uvarint_at:
  "w' = w_uvarint w v \<Longrightarrow> r_uvarint (rd_at w w' post spare) = Inr (v, rd_at w' w' post spare)"
  using r_uvarint_bytes [of "rd_at w w' post spare" "w_buf w" v post]
  by (simp add: rd_at_def)

lemma ucast_scast_32 [simp]: "ucast (scast (v :: u32) :: u64) = v"
  by (rule bit_word_eqI) (auto simp: bit_simps)

lemma ucast_ucast_32 [simp]: "ucast (ucast (v :: u32) :: u64) = v"
  by (rule bit_word_eqI) (auto simp: bit_simps)

lemma r_Float32_at: "w' = w_Float32 w v \<Longrightarrow>
    r_Float32 (rd_at w w' post spare) = Inr (v, rd_at w' w' post spare)"
  using le32_at_put [of 0 "[]" v post]
  by (simp add: r_Float32_def rd_at_def slice_from_def w_Float32_def)

lemma r_Float64_at: "w' = w_Float64 w v \<Longrightarrow>
    r_Float64 (rd_at w w' post spare) = Inr (v, rd_at w' w' post spare)"
  using le64_at_put [of 0 "[]" v post]
  by (simp add: r_Float64_def rd_at_def slice_from_def w_Float64_def)

lemma w_Bool_uvarint: "w_Bool w b = w_uvarint w (of_bool b)"
  by (subst w_uvarint.simps) (auto simp: w_Bool_def)

lemma r_Bytes_at:
  assumes "length v < 2 ^ 63" and w': "w' = w_Bytes w v"
  shows "r_Bytes (rd_at w w' post spare) = Inr (v, rd_at w' w' post spare)"
    and "r_String (rd_at w w' post spare) = Inr (v, rd_at w' w' post spare)"
proof -
  define w1 where "w1 = w_uvarint w (of_nat (length v))"
  have s: "sint (of_nat (length v) :: u64) = int (length v)"
    using assms(1) by (simp add: signed_of_nat signed_take_bit_int_eq_self)
  have e: "rd_at w w' post spare = rd_at w w1 (v @ post) spare"
    and e1: "rd_at w1 w1 (v @ post) spare\<lparr>r_pos := r_pos (rd_at w1 w1 (v @ post) spare) + int (length v)\<rparr>
             = rd_at w' w' post spare"
    by (simp_all add: rd_at_def w' w1_def w_Bytes_def Let_def)
  have sl: "slice_range (rd_at w1 w1 (v @ post) spare) (r_pos (rd_at w1 w1 (v @ post) spare))
       (r_pos (rd_at w1 w1 (v @ post) spare) + int (length v)) = Inr v"
    by (simp add: slice_range_def rd_at_def)
  show "r_Bytes (rd_at w w' post spare) = Inr (v, rd_at w' w' post spare)"
    unfolding e r_Bytes_def r_uvarint_at [OF w1_def] by (simp add: Let_def s sl e1)
  show "r_String (rd_at w w' post spare) = Inr (v, rd_at w' w' post spare)"
    unfolding e r_String_def r_uvarint_at [OF w1_def] by (simp add: Let_def s sl e1)
qed

text \<open>
  Every scalar the writer encodes is read back unchanged, whatever was written before and
  after it, and the reader ends exactly where the writer ended: plain, sign-extended and
  zigzag varints, booleans and the fixed-width floats.
\<close>

theorem pb_scalar_roundtrip:
  "r_Int32 (rd_at w (w_Int32 w i32) post spare) = Inr (i32, rd_at (w_Int32 w i32) (w_Int32 w i32) post spare)
   \<and> r_Int64 (rd_at w (w_Int64 w i64) post spare) = Inr (i64, rd_at (w_Int64 w i64) (w_Int64 w i64) post spare)
   \<and> r_Uint32 (rd_at w (w_Uint32 w n32) post spare) = Inr (n32, rd_at (w_Uint32 w n32) (w_Uint32 w n32) post spare)
   \<and> r_Uint64 (rd_at w (w_Uint64 w n64) post spare) = Inr (n64, rd_at (w_Uint64 w n64) (w_Uint64 w n64) post spare)
   \<and> r_Sint32 (rd_at w (w_Sint32 w s32) post spare) = Inr (s32, rd_at (w_Sint32 w s32) (w_Sint32 w s32) post spare)
   \<and> r_Sint64 (rd_at w (w_Sint64 w s64) post spare) = Inr (s64, rd_at (w_Sint64 w s64) (w_Sint64 w s64) post spare)
   \<and> r_Bool (rd_at w (w_Bool w b) post spare) = Inr (b, rd_at (w_Bool w b) (w_Bool w b) post spare)
   \<and> r_Float32 (rd_at w (w_Float32 w f32) post spare) = Inr (f32, rd_at (w_Float32 w f32) (w_Float32 w f32) post spare)
   \<and> r_Float64 (rd_at w (w_Float64 w f64) post spare) = Inr (f64, rd_at (w_Float64 w f64) (w_Float64 w f64) post spare)"
proof (intro conjI)
  have z32: "drop_bit 1 x XOR - (x AND 1) = s32"
    if "x = push_bit 1 s32 XOR signed_drop_bit 31 s32" for x :: u32
    using zigzag_word [of x s32] that by simp
  have z64: "drop_bit 1 x XOR - (x AND 1) = s64"
    if "x = push_bit 1 s64 XOR signed_drop_bit 63 s64" for x :: u64
    using zigzag_word [of x s64] that by simp
  show "r_Sint32 (rd_at w (w_Sint32 w s32) post spare) = Inr (s32, rd_at (w_Sint32 w s32) (w_Sint32 w s32) post spare)"
    unfolding r_Sint32_def r_uvarint_at [OF w_Sint32_def] res_bind.simps prod.case Let_def ucast_ucast_32
    by (simp only: z32)
  show "r_Sint64 (rd_at w (w_Sint64 w s64) post spare) = Inr (s64, rd_at (w_Sint64 w s64) (w_Sint64 w s64) post spare)"
    unfolding r_Sint64_def r_uvarint_at [OF w_Sint64_def] res_bind.simps prod.case
    by (simp only: z64)
qed (simp_all add: r_Int32_def r_Int64_def r_Uint32_def r_Uint64_def r_Bool_def
      r_uvarint_at [OF w_Int32_def] r_uvarint_at [OF w_Int64_def] r_uvarint_at [OF w_Uint32_def]
      r_uvarint_at [OF w_Uint64_def] r_uvarint_at [OF w_Bool_uvarint] r_Float32_at r_Float64_at)

text \<open>
  A length-delimited field (\<^verbatim>\<open>Bytes\<close> or \<^verbatim>\<open>String\<close>) behind its tag is read back
  unchanged for every field number below \<open>2 ^ 61\<close> and wire type below 8, and the reader
  ends where the writer ended.
\<close>

lemma pb_field_roundtrip:
  assumes "length v < 2 ^ 63" and "field < 2 ^ 61" and "wire < 8"
    and "w1 = w_Tag w field wire" and "w2 = w_Bytes w1 v"
  shows "r_Tag (rd_at w w2 post spare) = Inr ((field, wire), rd_at w1 w2 post spare)
    \<and> r_Bytes (rd_at w1 w2 post spare) = Inr (v, rd_at w2 w2 post spare)
    \<and> r_String (rd_at w1 w2 post spare) = Inr (v, rd_at w2 w2 post spare)"
proof -
  define w1' where "w1' = w_uvarint w1 (of_nat (length v))"
  have e: "rd_at x w2 post spare = rd_at x w1 (uvarint_bytes (of_nat (length v)) @ v @ post) spare" for x
    by (simp add: rd_at_def assms(5) w_Bytes_def Let_def)
  have t: "r_uvarint (rd_at w w2 post spare) = Inr (push_bit 3 field OR wire, rd_at w1 w2 post spare)"
    unfolding e using r_uvarint_at [of w1 w "push_bit 3 field OR wire"] assms(4) by (simp add: w_Tag_def)
  have "drop_bit 3 (push_bit 3 field OR wire) = field \<and> (push_bit 3 field OR wire) AND 7 = wire"
    by (rule tag_split [OF assms(2,3)])
  then show ?thesis
    using t r_Bytes_at [OF assms(1,5)] by (simp add: r_Tag_def)
qed

text \<open>
  The three server-message envelopes decode to their payload and to the field
  numbers 1, 2 and 3, with nothing left over; so no wrapped entity update can be mistaken for
  a world update or a server event.
\<close>

theorem envelope_roundtrip:
  assumes "length data < 2 ^ 63"
  shows "\<forall>(wrap, tag) \<in> {(WrapEntityUpdate, 1), (WrapWorldUpdate, 2), (WrapServerEvent, 3)}.
      \<exists>r r'. r_Tag (NewReader (wrap data) spare) = Inr ((tag, 2), r)
           \<and> r_Bytes r = Inr (data, r') \<and> r_Done r'"
proof -
  have "\<exists>r r'. r_Tag (NewReader (w_Finish (w_Bytes (w_Tag w_empty tag 2) data)) spare) = Inr ((tag, 2), r)
           \<and> r_Bytes r = Inr (data, r') \<and> r_Done r'" if "tag < 2 ^ 61" for tag
  proof -
    have n: "NewReader (w_Finish (w_Bytes (w_Tag w_empty tag 2) data)) spare =
        rd_at w_empty (w_Bytes (w_Tag w_empty tag 2) data) [] spare"
      by (simp add: NewReader_def rd_at_def w_Finish_def w_empty_def)
    show ?thesis
      unfolding n using pb_field_roundtrip [OF assms that _ refl refl, of 2 w_empty "[]" spare]
      by (auto simp: r_Done_def rd_at_def)
  qed
  then show ?thesis
    by (auto simp: WrapEntityUpdate_def WrapWorldUpdate_def WrapServerEvent_def word_less_nat_alt)
qed

theorem envelope_roundtrip_witness:
  "\<exists>r r'. r_Tag (NewReader (WrapWorldUpdate [5, 6]) []) = Inr ((2, 2), r)
         \<and> r_Bytes r = Inr ([5, 6], r') \<and> r_Done r'"
  using envelope_roundtrip [of "[5, 6]" "[]"] by simp

text \<open>
  \<^verbatim>\<open>Skip\<close> of a length-delimited field trusts the sender's length: an eleven-byte field
  whose varint length is \<open>-11\<close> moves the reader back to where the field's tag began.  The
  generated \<^verbatim>\<open>Unmarshal\<close> loops (\<^verbatim>\<open>for !rd.Done()\<close> reading a tag and skipping an
  unknown field) are then in the very state they started from, and not done.
\<close>

definition rewind_field :: bytes where
  "rewind_field = [0x7a, 0xf5, 0xff, 0xff, 0xff, 0xff, 0xff, 0xff, 0xff, 0xff, 0x01]"

theorem skip_can_rewind:
  "\<not> r_Done (NewReader (rewind_field @ post) spare)
   \<and> (\<exists>r. r_Tag (NewReader (rewind_field @ post) spare) = Inr ((15, 2), r)
          \<and> r_Skip r 2 = Inr (NewReader (rewind_field @ post) spare))"
proof -
  let ?n = "NewReader (rewind_field @ post) spare"
  have b: "uvarint_bytes 0x7a = [0x7a]" and l: "uvarint_bytes (- 11) = tl rewind_field"
    by (simp_all add: uvarint_bytes_step rewind_field_def)
  have "r_uvarint ?n = Inr (0x7a, ?n\<lparr>r_pos := 1\<rparr>)"
    using r_uvarint_bytes [of ?n "[]" "0x7a" "tl rewind_field @ post"] b
    by (simp add: NewReader_def rewind_field_def)
  then have t: "r_Tag ?n = Inr ((15, 2), ?n\<lparr>r_pos := 1\<rparr>)"
    by (simp add: r_Tag_def)
  have "r_uvarint (?n\<lparr>r_pos := 1\<rparr>) = Inr (- 11, ?n\<lparr>r_pos := 11\<rparr>)"
    using r_uvarint_bytes [of "?n\<lparr>r_pos := 1\<rparr>" "[0x7a]" "- 11" post] l
    by (simp add: NewReader_def rewind_field_def)
  then have "r_Skip (?n\<lparr>r_pos := 1\<rparr>) 2 = Inr ?n"
    by (simp add: r_Skip_def wrap_int_def NewReader_def)
  with t show ?thesis by (simp add: r_Done_def NewReader_def rewind_field_def)
qed

end
