(* ===== verification/Client_Framing.thy ===== *)
theory Client_Framing
  imports Payload_Framing Pb_Codec
begin

unbundle bit_operations_syntax

text \<open>
  The receiving side of the Go client (\<^verbatim>\<open>golem-go-client/framing.go\<close>), against what the
  server sends: length-prefixed frames inside a state datagram, and server-message envelopes
  inside a reliable message.  The client's protobuf reader is the server's package.
\<close>

section \<open>Operations\<close>

datatype clientError =
    errBatchTruncated
  | errFrameTruncated
  | errClientMessageSize nat
  | errClientDatagramSize nat

record ServerMessage =
  sm_EntityUpdate :: "bytes option"
  sm_WorldUpdate :: "bytes option"
  sm_ServerEvent :: "bytes option"

text \<open>A nil slice is \<open>None\<close>; the zero \<^verbatim>\<open>ServerMessage\<close> has three of them.\<close>

definition sm_zero :: ServerMessage where
  "sm_zero = \<lparr>sm_EntityUpdate = None, sm_WorldUpdate = None, sm_ServerEvent = None\<rparr>"

text \<open>
  The loop of \<^verbatim>\<open>decodeServerMessages\<close>.  \<open>None\<close> is a run that never ends, which is possible
  because \<^verbatim>\<open>Skip\<close> can move the reader backwards; \<open>Some (Inl _)\<close> is a panic.
\<close>

partial_function (option) decodeServerLoop ::
  "pbReader \<Rightarrow> ServerMessage list \<Rightarrow> (pb_panic + ServerMessage list) option" where
  "decodeServerLoop r out =
     (if r_Done r then Some (Inr out)
      else case r_Tag r of
             Inl e \<Rightarrow> Some (Inl e)
           | Inr ((field, wire), r) \<Rightarrow>
               if wire = 2 \<and> (field = 1 \<or> field = 2 \<or> field = 3)
               then (case r_Bytes r of
                       Inl e \<Rightarrow> Some (Inl e)
                     | Inr (d, r) \<Rightarrow>
                         decodeServerLoop r (out @
                           [if field = 1 then sm_zero\<lparr>sm_EntityUpdate := Some d\<rparr>
                            else if field = 2 then sm_zero\<lparr>sm_WorldUpdate := Some d\<rparr>
                            else sm_zero\<lparr>sm_ServerEvent := Some d\<rparr>]))
               else (case r_Skip r wire of
                       Inl e \<Rightarrow> Some (Inl e)
                     | Inr r \<Rightarrow> decodeServerLoop r out))"

definition decodeServerMessages :: "bytes \<Rightarrow> bytes \<Rightarrow> (pb_panic + ServerMessage list) option" where
  "decodeServerMessages data spare = decodeServerLoop (NewReader data spare) []"

definition appendLengthPrefixedFrame :: "bytes \<Rightarrow> bytes \<Rightarrow> bytes" where
  "appendLengthPrefixedFrame dst data =
     (let start = length dst;
          dst = dst @ [0, 0, 0, 0];
          dst = write_at dst start (put_be32 (of_nat (length data)))
      in dst @ data)"

text \<open>The frames handed to the callback, and how the loop ended.\<close>

function decodePrefixedFrom :: "bytes \<Rightarrow> nat \<Rightarrow> bytes list \<times> clientError option" where
  "decodePrefixedFrom data offset =
     (if \<not> offset < length data then ([], None)
      else if length data - offset < reliableFrameHeaderBytes then ([], Some errBatchTruncated)
      else let n = unat (be32_at data offset);
               offset = offset + reliableFrameHeaderBytes
           in if length data - offset < n then ([], Some errFrameTruncated)
              else case decodePrefixedFrom data (offset + n) of
                     (fs, e) \<Rightarrow> (take n (drop offset data) # fs, e))"
  by pat_completeness auto
termination
  by (relation "measure (\<lambda>(data, offset). length data - offset)") auto

declare decodePrefixedFrom.simps [simp del]

definition decodeLengthPrefixedFrames :: "bytes \<Rightarrow> bytes list \<times> clientError option" where
  "decodeLengthPrefixedFrames data = decodePrefixedFrom data 0"

definition client_readReliableFrame :: "bytes \<Rightarrow> payloadError + bytes \<times> bytes" where
  "client_readReliableFrame s =
     res_bind (ReadFull reliableFrameHeaderBytes s) (\<lambda>(hdr, s).
       let n = unat (be32_at hdr 0)
       in if n > maxReliableMessageBytes then Inl (errFrameLength n) else ReadFull n s)"

definition client_writeReliableFrame ::
  "(bytes \<Rightarrow> 'w \<Rightarrow> clientError option \<times> 'w) \<Rightarrow> bytes \<Rightarrow> 'w \<Rightarrow> clientError option \<times> 'w" where
  "client_writeReliableFrame write data w =
     (if length data > maxReliableMessageBytes then (Some (errClientMessageSize (length data)), w)
      else write (appendLengthPrefixedFrame [] data) w)"

definition client_validateDatagramSize :: "bytes \<Rightarrow> clientError option" where
  "client_validateDatagramSize data =
     (if length data > maxWebTransportDatagramBytes then Some (errClientDatagramSize (length data)) else None)"

section \<open>State datagrams\<close>

lemma decodePrefixed_frames:
  assumes "list_all (\<lambda>f. length f \<le> maxReliableMessageBytes) fs"
  shows "decodePrefixedFrom (pre @ concat (map frame_bytes fs)) (length pre) = (fs, None)"
  using assms
proof (induction fs arbitrary: pre)
  case Nil
  then show ?case by (simp add: decodePrefixedFrom.simps)
next
  case (Cons f fs)
  let ?d = "pre @ concat (map frame_bytes (f # fs))"
  have l: "unat (of_nat (length f) :: u32) = length f"
    using Cons.prems by (simp add: unsigned_of_nat take_bit_nat_eq_self)
  have n: "be32_at ?d (length pre) = of_nat (length f)"
    using be32_at_put [of "length pre" pre _ "f @ concat (map frame_bytes fs)"] by (simp add: frame_bytes_def)
  have d: "?d = (pre @ frame_bytes f) @ concat (map frame_bytes fs)" by simp
  have IH: "decodePrefixedFrom ?d (length pre + 4 + length f) = (fs, None)"
    using Cons.IH [of "pre @ frame_bytes f"] Cons.prems unfolding d by (simp add: add.assoc)
  show ?case
    by (subst decodePrefixedFrom.simps) (use l n IH in \<open>simp add: frame_bytes_def Let_def\<close>)
qed

lemma decode_group:
  "list_all (\<lambda>f. length f \<le> maxReliableMessageBytes) g \<Longrightarrow>
     decodeLengthPrefixedFrames (concat (map frame_bytes g)) = (g, None)"
  using decodePrefixed_frames [of g "[]"] by (simp add: decodeLengthPrefixedFrames_def)

lemma chunks_decode:
  assumes "chunkFrames frames m lengthPrefixedReliableChunkEncoder False = Inr ps"
  shows "list_all (\<lambda>p. length p \<le> nat m \<and> snd (decodeLengthPrefixedFrames p) = None) ps
    \<and> concat (map (\<lambda>p. fst (decodeLengthPrefixedFrames p)) ps) = frames"
proof (cases "frames = []")
  case True
  then show ?thesis using assms by (simp add: chunkFrames_def)
next
  case False
  then have "chunkLoop lengthPrefixedReliableChunkEncoder (nat m) False 0 [] [] frames = Inr ps"
    using assms by (simp add: chunkFrames_def split: if_splits)
  note ok = lp_enc.chunkLoop_ok [OF this]
  have sz: "list_all (\<lambda>f. length f \<le> maxReliableMessageBytes) frames"
    using ok by (auto simp: validateReliableMessageSize_def list_all_iff not_less split: if_splits)
  have bound: "list_all (\<lambda>c. length c \<le> nat m) ps"
    using ok lp_enc.pack_bound [of "[]" "nat m" frames] by (auto simp: list_all_iff)
  obtain gs where gs: "ps = map (\<lambda>g. concat (map frame_bytes g)) gs" "concat gs = frames"
    using ok lp_enc.pack_runs [of "nat m" "[]" frames] by auto
  have dec: "decodeLengthPrefixedFrames (concat (map frame_bytes g)) = (g, None)" if "g \<in> set gs" for g
    using that sz gs(2) by (intro decode_group) (auto simp: list_all_iff)
  have "map (\<lambda>p. fst (decodeLengthPrefixedFrames p)) ps = gs"
    unfolding gs(1) by (simp add: dec map_idI)
  then show ?thesis using bound dec gs by (auto simp: list_all_iff)
qed

text \<open>
  State datagrams survive the loss of their neighbours.  When the server packs entity frames
  into state datagrams, every datagram is within the 1200-byte limit and the client decodes
  each of them on its own, without error; the frames of all datagrams, in order, are exactly
  the frames that were packed.  The same holds for eventual-state datagrams within their
  smaller budget.
\<close>

theorem state_datagram_roundtrip:
  assumes "UnreliableStateDatagramPayloads frames = Inr ps"
    and "EventualStateDatagramPayloads frames = Inr es"
  shows "list_all (\<lambda>p. length p \<le> maxWebTransportDatagramBytes \<and> snd (decodeLengthPrefixedFrames p) = None) ps
    \<and> concat (map (\<lambda>p. fst (decodeLengthPrefixedFrames p)) ps) = frames
    \<and> list_all (\<lambda>p. validateEventualStateDatagramPayloadSize p = None
         \<and> snd (decodeLengthPrefixedFrames p) = None) es
    \<and> concat (map (\<lambda>p. fst (decodeLengthPrefixedFrames p)) es) = frames"
  using chunks_decode [of frames "int maxUnreliableStateDatagramPayloadBytes" ps]
    chunks_decode [of frames "int maxEventualStateDatagramPayloadBytes" es] assms
  by (auto simp: UnreliableStateDatagramPayloads_def EventualStateDatagramPayloads_def list_all_iff
      validateEventualStateDatagramPayloadSize_def not_less)

theorem state_datagram_roundtrip_witness:
  "\<exists>ps es. UnreliableStateDatagramPayloads [[1], [2, 3]] = Inr ps
     \<and> EventualStateDatagramPayloads [[1], [2, 3]] = Inr es
     \<and> concat (map (\<lambda>p. fst (decodeLengthPrefixedFrames p)) ps) = [[1], [2, 3]]"
proof -
  obtain ps es where "UnreliableStateDatagramPayloads [[1], [2, 3]] = Inr ps"
    "EventualStateDatagramPayloads [[1], [2, 3]] = Inr es"
    by (simp add: UnreliableStateDatagramPayloads_def EventualStateDatagramPayloads_def chunkFrames_def
        validateReliableMessageSize_def lp_enc.append_code lp_enc.len_code)
  with state_datagram_roundtrip [OF this] show ?thesis by blast
qed

section \<open>Server messages\<close>

datatype serverFrame = EntityFrame bytes | WorldFrame bytes | EventFrame bytes

text \<open>What the server sends for a message, and what the client should get.\<close>

fun wrapFrame :: "serverFrame \<Rightarrow> bytes" where
  "wrapFrame (EntityFrame d) = WrapEntityUpdate d"
| "wrapFrame (WorldFrame d) = WrapWorldUpdate d"
| "wrapFrame (EventFrame d) = WrapServerEvent d"

fun frameMessage :: "serverFrame \<Rightarrow> ServerMessage" where
  "frameMessage (EntityFrame d) = sm_zero\<lparr>sm_EntityUpdate := Some d\<rparr>"
| "frameMessage (WorldFrame d) = sm_zero\<lparr>sm_WorldUpdate := Some d\<rparr>"
| "frameMessage (EventFrame d) = sm_zero\<lparr>sm_ServerEvent := Some d\<rparr>"

fun framePayload :: "serverFrame \<Rightarrow> bytes" where
  "framePayload (EntityFrame d) = d"
| "framePayload (WorldFrame d) = d"
| "framePayload (EventFrame d) = d"

fun frameTag :: "serverFrame \<Rightarrow> int64" where
  "frameTag (EntityFrame d) = 1"
| "frameTag (WorldFrame d) = 2"
| "frameTag (EventFrame d) = 3"

lemma wrapFrame_field: "wrapFrame f = w_buf (w_Bytes (w_Tag w_empty (frameTag f) 2) (framePayload f))"
  by (cases f) (simp_all add: WrapEntityUpdate_def WrapWorldUpdate_def WrapServerEvent_def w_Finish_def)

lemma w_field_append:
  "w_buf (w_Bytes (w_Tag w t x) d) = w_buf w @ w_buf (w_Bytes (w_Tag w_empty t x) d)"
  by (simp add: w_Bytes_def w_Tag_def w_empty_def Let_def)

lemma decodeServerLoop_frames:
  assumes "list_all (\<lambda>f. length (framePayload f) < 2 ^ 63) fs"
  shows "decodeServerLoop (rd_at w w (concat (map wrapFrame fs)) spare) out = Some (Inr (out @ map frameMessage fs))"
  using assms
proof (induction fs arbitrary: w out)
  case Nil
  then show ?case by (simp add: decodeServerLoop.simps r_Done_def rd_at_def)
next
  case (Cons f fs)
  let ?w1 = "w_Tag w (frameTag f) 2" and ?w2 = "w_Bytes (w_Tag w (frameTag f) 2) (framePayload f)"
  let ?post = "concat (map wrapFrame fs)"
  have e: "rd_at w w (concat (map wrapFrame (f # fs))) spare = rd_at w ?w2 ?post spare"
    using w_field_append [of w "frameTag f" 2 "framePayload f"] by (simp add: rd_at_def wrapFrame_field)
  have tag: "frameTag f < 2 ^ 61" by (cases f) (simp_all add: word_less_nat_alt)
  have rt: "r_Tag (rd_at w ?w2 ?post spare) = Inr ((frameTag f, 2), rd_at ?w1 ?w2 ?post spare)"
    "r_Bytes (rd_at ?w1 ?w2 ?post spare) = Inr (framePayload f, rd_at ?w2 ?w2 ?post spare)"
    using pb_field_roundtrip [OF _ tag _ refl refl, of "framePayload f" 2 w ?post spare] Cons.prems
    by (auto simp: word_less_nat_alt)
  have "\<not> r_Done (rd_at w ?w2 ?post spare)"
    using w_field_append [of w "frameTag f" 2 "framePayload f"]
      uvarint_bytes_nonempty [of "push_bit 3 (frameTag f) OR 2"]
    by (auto simp: r_Done_def rd_at_def not_le w_Bytes_def w_Tag_def w_empty_def Let_def add_pos_nonneg
        simp del: uvarint_bytes_nonempty)
  then have "decodeServerLoop (rd_at w ?w2 ?post spare) out = Some (Inr (out @ map frameMessage (f # fs)))"
    using Cons.IH [of ?w2] Cons.prems rt
    by (subst decodeServerLoop.simps) (cases f; simp)
  then show ?case by (simp only: e)
qed

text \<open>
  A reliable message that carries several envelopes back to back, as the WebSocket transport
  sends them, decodes on the client to the same messages in the same order: entity updates,
  world updates and server events are never confused, and the decoding loop terminates.
\<close>

theorem server_messages_roundtrip:
  assumes "list_all (\<lambda>f. length (framePayload f) < 2 ^ 63) fs"
  shows "decodeServerMessages (concat (map wrapFrame fs)) spare = Some (Inr (map frameMessage fs))"
  using decodeServerLoop_frames [OF assms, of w_empty spare "[]"]
  by (simp add: decodeServerMessages_def NewReader_def rd_at_def w_empty_def)

theorem server_messages_roundtrip_witness:
  "decodeServerMessages (WrapEntityUpdate [1] @ WrapServerEvent [2, 3]) []
     = Some (Inr [sm_zero\<lparr>sm_EntityUpdate := Some [1]\<rparr>, sm_zero\<lparr>sm_ServerEvent := Some [2, 3]\<rparr>])"
  using server_messages_roundtrip [of "[EntityFrame [1], EventFrame [2, 3]]" "[]"] by simp

end
