(* ===== verification/Ordered_Receive.thy ===== *)
theory Ordered_Receive
  imports Ack_Window
begin

text \<open>
  The reordering buffer of the reliable ordered lane
  (\<^verbatim>\<open>orderedReceiveState\<close> in \<^verbatim>\<open>golem/net/datagram_receiver.go\<close>).  Messages carry
  16-bit sequence numbers that wrap around; the buffer hands each message to the application
  once, in order.  The specification numbers the messages by natural numbers: \<open>first_missing\<close>
  is the length of the prefix that has arrived.
\<close>

section \<open>State and operations\<close>

definition datagramReliableOrderedGapTimeout :: duration where
  "datagramReliableOrderedGapTimeout = 3 * second"

text \<open>A nil map reads like an empty one, so \<open>or_pending = []\<close> stands for both.\<close>

record orderedReceiveState =
  or_nextSeq :: u16
  or_pending :: "(u16, bytes) gomap"
  or_gapSince :: time

definition or_new :: orderedReceiveState where
  "or_new = \<lparr>or_nextSeq = 0, or_pending = [], or_gapSince = 0\<rparr>"

lemma length_delete_less: "map_of m k \<noteq> None \<Longrightarrow> length (AList.delete k m) < length m"
proof (induction m)
  case (Cons p m)
  have "length (AList.delete k m) \<le> length m" by (simp add: length_delete_le)
  with Cons show ?case by (auto simp: delete_simps split: if_splits)
qed simp

text \<open>The inner loop: deliver buffered successors while there are any.\<close>

function or_drain :: "u16 \<Rightarrow> (u16, bytes) gomap \<Rightarrow> bytes list \<times> u16 \<times> (u16, bytes) gomap" where
  "or_drain n m =
     (case map_of m n of
        None \<Rightarrow> ([], n, m)
      | Some d \<Rightarrow> (case or_drain (n + 1) (AList.delete n m) of (ds, n', m') \<Rightarrow> (d # ds, n', m')))"
  by pat_completeness auto
termination
  by (relation "measure (\<lambda>(n, m). length m)") (auto intro: length_delete_less)

declare or_drain.simps [simp del]

definition or_accept ::
  "orderedReceiveState \<Rightarrow> u16 \<Rightarrow> bytes \<Rightarrow> time \<Rightarrow> bytes list \<times> orderedReceiveState" where
  "or_accept o' seq data now =
     (if seq = or_nextSeq o' then
        (case or_drain (or_nextSeq o' + 1) (or_pending o') of
           (ds, n, m) \<Rightarrow>
             (data # ds, o'\<lparr>or_nextSeq := n, or_pending := m,
                            or_gapSince := (if gm_len m = 0 then 0 else or_gapSince o')\<rparr>))
      else if seqGreater seq (or_nextSeq o') then
        (if map_of (or_pending o') seq = None
         then ([], o'\<lparr>or_pending := AList.update seq data (or_pending o'),
                      or_gapSince := (if or_gapSince o' = 0 then now else or_gapSince o')\<rparr>)
         else ([], o'))
      else ([], o'))"

definition or_checkTimeout :: "orderedReceiveState \<Rightarrow> time \<Rightarrow> bool" where
  "or_checkTimeout o' now \<longleftrightarrow>
     or_gapSince o' \<noteq> 0 \<and> timeSub now (or_gapSince o') > datagramReliableOrderedGapTimeout"

section \<open>Runs\<close>

text \<open>
  A sender numbers its messages \<open>0, 1, 2, \<dots>\<close> and message \<open>k\<close> travels with sequence number
  \<open>of_nat k\<close>.  An arrival is a message index with the time it arrives: any message, any
  number of times, in any order.
\<close>

fun or_run :: "(nat \<Rightarrow> bytes) \<Rightarrow> orderedReceiveState \<Rightarrow> (nat \<times> time) list
    \<Rightarrow> bytes list \<times> orderedReceiveState" where
  "or_run ms o' [] = ([], o')"
| "or_run ms o' ((k, now) # ks) =
     (case or_accept o' (of_nat k) (ms k) now of
        (ds, o1) \<Rightarrow> (case or_run ms o1 ks of (es, o2) \<Rightarrow> (ds @ es, o2)))"

definition first_missing :: "nat list \<Rightarrow> nat" where
  "first_missing ks = length (takeWhile (\<lambda>k. k \<in> set ks) [0..<Suc (length ks)])"

text \<open>Every arrival is less than half the number space away from the next expected message.\<close>

fun in_window :: "nat list \<Rightarrow> nat list \<Rightarrow> bool" where
  "in_window arrived [] = True"
| "in_window arrived (k # ks) \<longleftrightarrow>
     k < first_missing arrived + 32768 \<and> first_missing arrived < k + 32768
     \<and> in_window (k # arrived) ks"

lemma first_missing_iff: "first_missing ks = n \<longleftrightarrow> {..<n} \<subseteq> set ks \<and> n \<notin> set ks"
proof -
  let ?P = "\<lambda>k. k \<in> set ks"
  have ex: "\<exists>k < Suc (length ks). \<not> ?P k"
  proof (rule ccontr)
    assume "\<not> ?thesis"
    then have "{..<Suc (length ks)} \<subseteq> set ks" by auto
    then have "Suc (length ks) \<le> card (set ks)" using card_mono [of "set ks" "{..<Suc (length ks)}"] by simp
    then show False using card_length [of ks] by simp
  qed
  let ?n = "first_missing ks"
  have lt: "?n < Suc (length ks)"
  proof (rule ccontr)
    assume "\<not> ?thesis"
    then have "takeWhile ?P [0..<Suc (length ks)] = [0..<Suc (length ks)]"
      by (metis first_missing_def length_takeWhile_le length_upt minus_nat.diff_0 not_less
          takeWhile_eq_take take_all)
    then show False using ex unfolding takeWhile_eq_all_conv by (metis atLeastLessThan_iff le0 set_upt)
  qed
  have m: "?n \<notin> set ks"
    using nth_length_takeWhile [of ?P "[0..<Suc (length ks)]"] lt
    by (simp add: first_missing_def del: upt_Suc)
  have below: "k \<in> set ks" if "k < ?n" for k
  proof -
    have "takeWhile ?P [0..<Suc (length ks)] ! k = k"
      using that lt by (simp add: first_missing_def takeWhile_nth del: upt_Suc)
    moreover have "takeWhile ?P [0..<Suc (length ks)] ! k \<in> set (takeWhile ?P [0..<Suc (length ks)])"
      using that by (simp add: first_missing_def)
    ultimately show ?thesis by (metis set_takeWhileD)
  qed
  show ?thesis using m below
    by (metis lessThan_iff linorder_neqE_nat subset_iff)
qed

section \<open>The buffer holds the arrived messages beyond the gap\<close>

definition or_buf :: "(nat \<Rightarrow> bytes) \<Rightarrow> nat set \<Rightarrow> nat \<Rightarrow> (u16, bytes) gomap \<Rightarrow> bool" where
  "or_buf ms A n m \<longleftrightarrow>
     (\<forall>s d. map_of m s = Some d \<longleftrightarrow> (\<exists>k\<in>A. n \<le> k \<and> s = of_nat k \<and> d = ms k))
     \<and> (\<forall>k\<in>A. k < n + 32768)"

lemma of_nat_16_inj:
  assumes "(of_nat a :: u16) = of_nat b" and "a \<le> b" and "b < a + 65536"
  shows "a = b"
proof -
  have "a mod 65536 = b mod 65536"
    using assms(1) by (simp add: word_unat_eq_iff unsigned_of_nat take_bit_eq_mod)
  then have "(b - a) mod 65536 = 0" by (metis mod_eq_dvd_iff_nat assms(2) dvd_imp_mod_0)
  then show ?thesis using assms(2,3) by (simp add: mod_less)
qed

lemma or_buf_lookup:
  assumes "or_buf ms A n m"
  shows "map_of m (of_nat n) = (if n \<in> A then Some (ms n) else None)"
proof -
  have "k = n" if "k \<in> A" "n \<le> k" "(of_nat n :: u16) = of_nat k" for k
    using that assms of_nat_16_inj [of n k] by (auto simp: or_buf_def)
  then have "map_of m (of_nat n) = Some d \<longleftrightarrow> n \<in> A \<and> d = ms n" for d
    using assms unfolding or_buf_def by blast
  then show ?thesis by (cases "map_of m (of_nat n)") auto
qed

lemma or_buf_delete:
  assumes "or_buf ms A n m"
  shows "or_buf ms A (Suc n) (AList.delete (of_nat n) m)"
proof -
  have ne: "(of_nat k :: u16) \<noteq> of_nat n" if "k \<in> A" "Suc n \<le> k" for k
    using that assms of_nat_16_inj [of n k] by (auto simp: or_buf_def)
  have "map_of (AList.delete (of_nat n) m) s = Some d
      \<longleftrightarrow> (\<exists>k\<in>A. Suc n \<le> k \<and> s = of_nat k \<and> d = ms k)" for s d
  proof (cases "s = of_nat n")
    case True
    then show ?thesis using ne by (auto simp del: of_nat_eq_iff) metis
  next
    case False
    then have "(n \<le> k \<and> s = of_nat k) \<longleftrightarrow> (Suc n \<le> k \<and> s = of_nat k)" for k
      by (cases "k = n") auto
    then have "(\<exists>k\<in>A. n \<le> k \<and> s = of_nat k \<and> d = ms k) \<longleftrightarrow>
        (\<exists>k\<in>A. Suc n \<le> k \<and> s = of_nat k \<and> d = ms k)" by metis
    with False assms show ?thesis by (simp add: or_buf_def)
  qed
  with assms show ?thesis by (auto simp: or_buf_def)
qed

lemma or_buf_shift:
  assumes "or_buf ms A n m" and "n \<notin> A"
  shows "or_buf ms (insert n A) (Suc n) m"
proof -
  have "k \<in> insert n A \<and> Suc n \<le> k \<longleftrightarrow> k \<in> A \<and> n \<le> k" for k
    using assms(2) by (cases "k = n") auto
  then have "(\<exists>k\<in>insert n A. Suc n \<le> k \<and> Q k) \<longleftrightarrow> (\<exists>k\<in>A. n \<le> k \<and> Q k)" for Q
    unfolding Bex_def by (metis (full_types))
  moreover have "\<forall>k\<in>insert n A. k < Suc n + 32768"
    using assms(1) unfolding or_buf_def by (fastforce intro: less_SucI)
  ultimately show ?thesis using assms(1) unfolding or_buf_def by simp
qed

lemma or_drain_buf:
  assumes "or_buf ms A n m" and "or_drain (of_nat n) m = (ds, n2, m')"
  shows "\<exists>n'\<ge>n. n2 = of_nat n' \<and> ds = map ms [n..<n'] \<and> {n..<n'} \<subseteq> A \<and> n' \<notin> A \<and> or_buf ms A n' m'"
  using assms
proof (induction "length m" arbitrary: n m ds rule: less_induct)
  case less
  show ?case
  proof (cases "n \<in> A")
    case False
    then show ?thesis
      using less.prems or_buf_lookup [OF less.prems(1)]
      by (intro exI [of _ n]) (simp add: or_drain.simps)
  next
    case True
    let ?m = "AList.delete (of_nat n) m"
    have l: "map_of m (of_nat n) = Some (ms n)" using True or_buf_lookup [OF less.prems(1)] by simp
    have suc: "(of_nat (Suc n) :: u16) = of_nat n + 1" by simp
    obtain es where d: "or_drain (of_nat (Suc n)) ?m = (es, n2, m')" and ds: "ds = ms n # es"
      using less.prems(2) l or_drain.simps [of "of_nat n" m]
      by (auto simp: suc simp del: of_nat_Suc split: prod.splits)
    have "length ?m < length m" using l length_delete_less [of m] by simp
    from less.hyps [OF this or_buf_delete [OF less.prems(1)] d] obtain n' where
      n': "Suc n \<le> n'" "n2 = of_nat n'" "es = map ms [Suc n..<n']" "{Suc n..<n'} \<subseteq> A" "n' \<notin> A"
        "or_buf ms A n' m'" by blast
    moreover have "[n..<n'] = n # [Suc n..<n']" using n'(1) by (simp add: upt_conv_Cons)
    moreover have "{n..<n'} = insert n {Suc n..<n'}" using n'(1) by auto
    ultimately show ?thesis using ds True by (intro exI [of _ n']) simp
  qed
qed

text \<open>The invariant of a run: \<open>A\<close> is the set of the messages that have arrived.\<close>

definition or_inv :: "(nat \<Rightarrow> bytes) \<Rightarrow> nat list \<Rightarrow> orderedReceiveState \<Rightarrow> bool" where
  "or_inv ms ks o' \<longleftrightarrow> or_nextSeq o' = of_nat (first_missing ks)
     \<and> or_buf ms (set ks) (first_missing ks) (or_pending o')"

lemma or_buf_insert:
  assumes "or_buf ms A n m" and "n < k" and "k < n + 32768" and "n \<notin> A"
  shows "or_buf ms (insert k A) n
    (if map_of m (of_nat k) = None then AList.update (of_nat k) (ms k) m else m)"
proof -
  have inj: "j = k" if "j \<in> A" "n \<le> j" "(of_nat k :: u16) = of_nat j" for j
    using that assms of_nat_16_inj [of k j] of_nat_16_inj [of j k]
    by (cases "j \<le> k") (auto simp: or_buf_def)
  show ?thesis
  proof (cases "map_of m (of_nat k) = None")
    case True
    then have "\<not> (j \<in> A \<and> n \<le> j \<and> (of_nat k :: u16) = of_nat j)" for j
      using assms(1) unfolding or_buf_def by (metis option.simps(3))
    with True assms show ?thesis unfolding or_buf_def by (auto split: if_splits)
  next
    case False
    then have "k \<in> A" using assms(1) inj unfolding or_buf_def by blast
    with False assms(1) show ?thesis by (simp add: insert_absorb del: not_None_eq)
  qed
qed

lemma or_inv_new: "or_inv ms [] or_new"
  by (simp add: or_inv_def or_new_def or_buf_def first_missing_def)

lemma first_missing_props:
  "{..<first_missing ks} \<subseteq> set ks" "first_missing ks \<notin> set ks"
  using first_missing_iff [of ks "first_missing ks"] by auto

lemma or_accept_step:
  assumes inv: "or_inv ms ks o'"
    and w: "k < first_missing ks + 32768" "first_missing ks < k + 32768"
    and a: "or_accept o' (of_nat k) (ms k) now = (ds, o1)"
  shows "or_inv ms (k # ks) o1 \<and> first_missing ks \<le> first_missing (k # ks)
    \<and> ds = map ms [first_missing ks..<first_missing (k # ks)]"
proof -
  let ?n = "first_missing ks"
  note P = first_missing_props [of ks]
  have buf: "or_buf ms (set ks) ?n (or_pending o')" and nx: "or_nextSeq o' = of_nat ?n"
    using inv by (auto simp: or_inv_def)
  have eq: "of_nat k = (of_nat ?n :: u16) \<longleftrightarrow> k = ?n"
    using w of_nat_16_inj [of k ?n] of_nat_16_inj [of ?n k] by (cases "k \<le> ?n") auto
  consider "k = ?n" | "k < ?n" | "?n < k" by linarith
  then show ?thesis
  proof cases
    case 1
    obtain es n2 m' where d: "or_drain (of_nat (Suc ?n)) (or_pending o') = (es, n2, m')"
      by (cases "or_drain (of_nat (Suc ?n)) (or_pending o')")
    have r: "ds = ms k # es" "or_nextSeq o1 = n2" "or_pending o1 = m'"
      using a d 1 nx by (auto simp: or_accept_def add.commute [of 1])
    have "or_buf ms (insert k (set ks)) (Suc ?n) (or_pending o')"
      using or_buf_shift [OF buf P(2)] 1 by simp
    from or_drain_buf [OF this d] obtain n' where n': "Suc ?n \<le> n'" "n2 = of_nat n'"
      "es = map ms [Suc ?n..<n']" "{Suc ?n..<n'} \<subseteq> insert k (set ks)" "n' \<notin> insert k (set ks)"
      "or_buf ms (insert k (set ks)) n' m'" by blast
    have "{..<n'} = {..<?n} \<union> {?n} \<union> {Suc ?n..<n'}" using n'(1) by auto
    then have fm: "first_missing (k # ks) = n'"
      using n'(4,5) P(1) 1 by (auto simp: first_missing_iff)
    moreover have "[?n..<n'] = ?n # [Suc ?n..<n']" using n'(1) by (simp add: upt_conv_Cons)
    ultimately show ?thesis using r n' 1 by (simp add: or_inv_def)
  next
    case 2
    have "of_nat ?n = (of_nat k :: u16) + of_nat (?n - k)"
      using 2 by (simp flip: of_nat_add)
    then have "\<not> seqGreater (of_nat k) (of_nat ?n)"
      using seqGreater_ahead [of "?n - k" "of_nat k"] 2 w by simp
    then have "ds = []" "o1 = o'" using a nx eq 2 by (auto simp: or_accept_def)
    moreover have "k \<in> set ks" using P(1) 2 by auto
    then have "set (k # ks) = set ks" by auto
    then have "first_missing (k # ks) = ?n" using P first_missing_iff [of "k # ks" ?n] by simp
    ultimately show ?thesis using inv \<open>set (k # ks) = set ks\<close> by (simp add: or_inv_def)
  next
    case 3
    have "of_nat k = (of_nat ?n :: u16) + of_nat (k - ?n)" using 3 by (simp flip: of_nat_add)
    then have g: "seqGreater (of_nat k) (of_nat ?n)"
      using seqGreater_ahead [of "k - ?n" "of_nat ?n"] 3 w by simp
    have fm: "first_missing (k # ks) = ?n" using P 3 by (auto simp: first_missing_iff)
    have "ds = []" "or_nextSeq o1 = of_nat ?n"
      and "or_pending o1 = (if map_of (or_pending o') (of_nat k) = None
             then AList.update (of_nat k) (ms k) (or_pending o') else or_pending o')"
      using a g nx eq 3 by (auto simp: or_accept_def split: if_splits)
    then show ?thesis
      using or_buf_insert [OF buf 3 w(1) P(2)] fm by (simp add: or_inv_def)
  qed
qed

lemma or_run_from:
  assumes "or_inv ms ks o'" and "in_window ks (map fst as)" and "or_run ms o' as = (ds, o2)"
  shows "ds = map ms [first_missing ks..<first_missing (rev (map fst as) @ ks)]
    \<and> first_missing ks \<le> first_missing (rev (map fst as) @ ks) \<and> or_inv ms (rev (map fst as) @ ks) o2"
  using assms
proof (induction as arbitrary: ks o' ds)
  case Nil
  then show ?case by simp
next
  case (Cons a as)
  obtain k now where k: "a = (k, now)" by (cases a)
  obtain es o1 fs where e: "or_accept o' (of_nat k) (ms k) now = (es, o1)"
    and f: "or_run ms o1 as = (fs, o2)" and ds: "ds = es @ fs"
    using Cons.prems(3) k by (auto split: prod.splits)
  have w: "k < first_missing ks + 32768" "first_missing ks < k + 32768" "in_window (k # ks) (map fst as)"
    using Cons.prems(2) k by auto
  note S = or_accept_step [OF Cons.prems(1) w(1,2) e]
  have R: "fs = map ms [first_missing (k # ks)..<first_missing (rev (map fst as) @ k # ks)]"
    "first_missing (k # ks) \<le> first_missing (rev (map fst as) @ k # ks)"
    "or_inv ms (rev (map fst as) @ k # ks) o2"
    using Cons.IH [OF _ w(3) f] S by auto
  have "map ms [first_missing ks..<first_missing (k # ks)]
      @ map ms [first_missing (k # ks)..<first_missing (rev (map fst as) @ k # ks)]
    = map ms [first_missing ks..<first_missing (rev (map fst as) @ k # ks)]"
    using S R(2) by (metis le_Suc_ex map_append upt_add_eq_append)
  then show ?case using S R ds k by simp
qed

text \<open>
  C1.  The ordered lane delivers exactly once and in order, whatever the network does: for any
  sequence of arrivals (lost, duplicated and reordered messages, sequence numbers wrapping
  around), as long as no arrival is half the number space away from the next expected message,
  the payloads handed to the application are precisely messages \<open>0, 1, \<dots>, n - 1\<close> where \<open>n\<close> is
  the first message that has not arrived.
\<close>

theorem ordered_exactly_once:
  assumes "in_window [] (map fst as)"
  shows "fst (or_run ms or_new as) = map ms [0..<first_missing (map fst as)]"
proof -
  obtain ds o2 where r: "or_run ms or_new as = (ds, o2)" by (cases "or_run ms or_new as")
  have "first_missing (rev (map fst as)) = first_missing (map fst as)"
    using first_missing_props [of "map fst as"] by (auto simp: first_missing_iff)
  moreover have "first_missing [] = 0" by (simp add: first_missing_def)
  ultimately show ?thesis using or_run_from [OF or_inv_new assms r] r by simp
qed

theorem ordered_exactly_once_witness:
  "fst (or_run (\<lambda>k. [of_nat k]) or_new [(2, 1), (0, 1), (0, 2), (1, 3), (4, 3)]) = [[0], [1], [2]]"
proof -
  have fm: "first_missing [2, 0, 0, 1, 4] = 3" "first_missing [1, 0, 0, 2] = 3"
    "first_missing [0, 0, 2] = 1" "first_missing [0, 2] = 1" "first_missing [2] = 0"
    "first_missing [] = 0"
    by (simp_all add: first_missing_iff lessThan_nat_numeral lessThan_Suc)
  then show ?thesis
    using ordered_exactly_once [of "[(2, 1), (0, 1), (0, 2), (1, 3), (4, 3)]" "\<lambda>k. [of_nat k]"]
    by (simp add: upt_rec)
qed

section \<open>The gap timer\<close>

text \<open>
  The gap timer runs from the first time the buffer became non-empty and is cleared only
  when the buffer drains completely: here message 0 closes the gap that opened at time 1 and
  delivers messages 0 and 1, but because message 3 is buffered the timer keeps the old time,
  and the gap in front of message 3, which opened at 2.9 seconds, expires after a fraction of
  its 3 seconds.
\<close>

theorem gap_timer_not_refreshed:
  "case or_run (\<lambda>k. [of_nat k]) or_new
      [(1, 1 * second), (3, 29 * second div 10), (0, 29 * second div 10 + millisecond)] of
     (ds, o') \<Rightarrow> ds = [[0], [1]] \<and> or_nextSeq o' = 2
       \<and> or_checkTimeout o' (4 * second + millisecond)"
  by (simp add: or_accept_def or_new_def or_drain.simps seqGreater_def or_checkTimeout_def
      datagramReliableOrderedGapTimeout_def timeSub_def maxDuration_def minDuration_def gm_len_def)

end
