(* ===== verification/Datagram_Protocol.thy ===== *)
theory Datagram_Protocol
  imports Datagram_Codec Ordered_Receive
begin

text \<open>
  The datagram protocol endpoint (\<^verbatim>\<open>datagramProtocolState\<close> of
  \<^verbatim>\<open>golem/net/datagram_protocol.go\<close> with its sender, \<^verbatim>\<open>datagram_sender.go\<close>, and its
  receiver, \<^verbatim>\<open>datagram_receiver.go\<close>): reliable messages with retry and expiry, the
  eventual-state lane with its delivery feedback, acknowledgements and wake-up times.  An
  operation that fails after it has changed the state returns both the error and the state.
\<close>

unbundle bit_operations_syntax

section \<open>Constants\<close>

definition sendBufSize :: nat where "sendBufSize = 512"
definition datagramAckCoalesceDelay :: duration where
  "datagramAckCoalesceDelay = 1 * millisecond"
definition datagramReliableRetryBaseDelay :: duration where
  "datagramReliableRetryBaseDelay = 75 * millisecond"
definition datagramReliableRetryMaxDelay :: duration where
  "datagramReliableRetryMaxDelay = 400 * millisecond"
definition datagramReliableRetryLimit :: nat where "datagramReliableRetryLimit = 8"
definition datagramReliableMessageTTL :: duration where "datagramReliableMessageTTL = 3 * second"
definition datagramEventualStateTTL :: duration where "datagramEventualStateTTL = 3 * second"
definition datagramEventualStatePendingLimit :: nat where
  "datagramEventualStatePendingLimit = datagramPacketAckWindow * 2"

lemma protocol_consts [simp]:
  "sendBufSize = 512" "datagramAckCoalesceDelay = 1000000"
  "datagramReliableRetryBaseDelay = 75000000" "datagramReliableRetryMaxDelay = 400000000"
  "datagramReliableRetryLimit = 8" "datagramReliableMessageTTL = 3000000000"
  "datagramEventualStateTTL = 3000000000" "datagramEventualStatePendingLimit = 256"
  by (simp_all add: sendBufSize_def datagramAckCoalesceDelay_def datagramReliableRetryBaseDelay_def
      datagramReliableRetryMaxDelay_def datagramReliableRetryLimit_def
      datagramReliableMessageTTL_def datagramEventualStateTTL_def
      datagramEventualStatePendingLimit_def)

section \<open>State\<close>

record reliableDatagramMessage =
  rm_lane :: datagramLane
  rm_messageID :: u16
  rm_orderedSeq :: u16
  rm_payload :: bytes
  rm_queuedAt :: time
  rm_lastSentAt :: time
  rm_nextSendAt :: time
  rm_lastPacket :: u16
  rm_attempts :: nat
  rm_inFlight :: bool

record datagramDelivery =
  dd_lane :: datagramLane
  dd_data :: bytes

record EventualStateDelivery =
  ed_Token :: u64
  ed_Delivered :: bool

record eventualStateDatagram =
  es_token :: u64
  es_payload :: bytes
  es_queuedAt :: time

record pendingEventualStateDatagram =
  pe_token :: u64
  pe_sentAt :: time

text \<open>
  The eventual-state send queue: the slice \<^verbatim>\<open>pendingEventual\<close> with its capacity and the
  index \<^verbatim>\<open>pendingEventualHead\<close> of its oldest live slot.
\<close>

record eventualQueue =
  eq_slots :: "eventualStateDatagram list"
  eq_head :: nat
  eq_cap :: nat

record datagramProtocolState =
  ps_nextPacketSeq :: u16
  ps_nextMessageID :: u16
  ps_nextOrderedSeq :: u16
  ps_recvPackets :: sequenceWindow
  ps_peerPackets :: sequenceWindow
  ps_recvReliableMsgs :: sequenceWindow
  ps_orderedRecv :: orderedReceiveState
  ps_ackDirty :: bool
  ps_ackDueAt :: time
  ps_pendingOrdered :: "reliableDatagramMessage list"
  ps_pendingUnordered :: "reliableDatagramMessage list"
  ps_pendingEventual :: eventualQueue
  ps_inFlightEventual :: "(u16, pendingEventualStateDatagram) gomap"
  ps_eventualExpiry :: time
  ps_eventualFeedback :: "EventualStateDelivery list"
  ps_inboundPackets :: u64
  ps_inboundAckOnly :: u64

definition newDatagramProtocolState :: datagramProtocolState where
  "newDatagramProtocolState =
     \<lparr>ps_nextPacketSeq = 0, ps_nextMessageID = 0, ps_nextOrderedSeq = 0,
      ps_recvPackets = sw_new, ps_peerPackets = sw_new, ps_recvReliableMsgs = sw_new,
      ps_orderedRecv = or_new, ps_ackDirty = False, ps_ackDueAt = 0,
      ps_pendingOrdered = [], ps_pendingUnordered = [],
      ps_pendingEventual = \<lparr>eq_slots = [], eq_head = 0, eq_cap = sendBufSize\<rparr>,
      ps_inFlightEventual = [], ps_eventualExpiry = 0, ps_eventualFeedback = [],
      ps_inboundPackets = 0, ps_inboundAckOnly = 0\<rparr>"

section \<open>The eventual-state send queue\<close>

definition pendingEventualLen :: "eventualQueue \<Rightarrow> nat" where
  "pendingEventualLen q = length (eq_slots q) - eq_head q"

definition compactPendingEventualNow :: "eventualQueue \<Rightarrow> eventualQueue" where
  "compactPendingEventualNow q =
     (if eq_head q = 0 then q else q\<lparr>eq_slots := drop (eq_head q) (eq_slots q), eq_head := 0\<rparr>)"

definition compactPendingEventualForAppend :: "eventualQueue \<Rightarrow> eventualQueue" where
  "compactPendingEventualForAppend q =
     (if eq_head q = 0 then q
      else if eq_head q = length (eq_slots q) then q\<lparr>eq_slots := [], eq_head := 0\<rparr>
      else if length (eq_slots q) < eq_cap q \<and> eq_head q \<le> length (eq_slots q) div 2 then q
      else compactPendingEventualNow q)"

definition zeroEventual :: eventualStateDatagram where
  "zeroEventual = \<lparr>es_token = 0, es_payload = [], es_queuedAt = 0\<rparr>"

definition popPendingEventual :: "eventualQueue \<Rightarrow> eventualStateDatagram \<times> eventualQueue" where
  "popPendingEventual q =
     (let msg = eq_slots q ! eq_head q;
          q = q\<lparr>eq_slots := (eq_slots q)[eq_head q := zeroEventual], eq_head := eq_head q + 1\<rparr>
      in (msg,
          if eq_head q = length (eq_slots q) then q\<lparr>eq_slots := [], eq_head := 0\<rparr>
          else if eq_head q > 32 \<and> eq_head q > length (eq_slots q) div 2
          then compactPendingEventualNow q else q))"

text \<open>
  Compaction followed by the \<^verbatim>\<open>append\<close> of \<^verbatim>\<open>enqueueEventualState\<close>.  An append to
  a full slice gets a larger one from the runtime; \<open>enqueue_keeps_cap\<close> shows that this never
  happens.
\<close>

definition pushPendingEventual :: "eventualStateDatagram \<Rightarrow> eventualQueue \<Rightarrow> eventualQueue" where
  "pushPendingEventual msg q =
     (let q = compactPendingEventualForAppend q
      in q\<lparr>eq_slots := eq_slots q @ [msg], eq_cap := max (eq_cap q) (length (eq_slots q) + 1)\<rparr>)"

section \<open>Enqueueing\<close>

definition pendingQueue :: "datagramLane \<Rightarrow> datagramProtocolState \<Rightarrow> reliableDatagramMessage list" where
  "pendingQueue l p =
     (if l = datagramLaneReliableOrdered then ps_pendingOrdered p else ps_pendingUnordered p)"

definition setPendingQueue ::
  "datagramLane \<Rightarrow> reliableDatagramMessage list \<Rightarrow> datagramProtocolState \<Rightarrow> datagramProtocolState" where
  "setPendingQueue l q p =
     (if l = datagramLaneReliableOrdered then p\<lparr>ps_pendingOrdered := q\<rparr>
      else p\<lparr>ps_pendingUnordered := q\<rparr>)"

definition enqueueReliable ::
  "datagramLane \<Rightarrow> bytes \<Rightarrow> time \<Rightarrow> datagramProtocolState
     \<Rightarrow> datagramError option \<times> datagramProtocolState" where
  "enqueueReliable l data now p =
     (case validateReliableDatagramMessageSize l data of
        Some e \<Rightarrow> (Some e, p)
      | None \<Rightarrow>
          (let msg = \<lparr>rm_lane = l, rm_messageID = ps_nextMessageID p, rm_orderedSeq = 0,
                      rm_payload = data, rm_queuedAt = now, rm_lastSentAt = 0, rm_nextSendAt = now,
                      rm_lastPacket = 0, rm_attempts = 0, rm_inFlight = False\<rparr>;
               p = p\<lparr>ps_nextMessageID := ps_nextMessageID p + 1\<rparr>;
               msg = (if l = datagramLaneReliableOrdered
                      then msg\<lparr>rm_orderedSeq := ps_nextOrderedSeq p\<rparr> else msg);
               p = (if l = datagramLaneReliableOrdered
                    then p\<lparr>ps_nextOrderedSeq := ps_nextOrderedSeq p + 1\<rparr> else p)
           in if length (pendingQueue l p) \<ge> sendBufSize then (Some (errSendBufferOverflow l), p)
              else (None, setPendingQueue l (pendingQueue l p @ [msg]) p)))"

definition enqueueEventualState ::
  "u64 \<Rightarrow> bytes \<Rightarrow> time \<Rightarrow> datagramProtocolState
     \<Rightarrow> datagramError option \<times> datagramProtocolState" where
  "enqueueEventualState token data now p =
     (case validateEventualStateDatagramPayloadSize data of
        Some e \<Rightarrow> (Some e, p)
      | None \<Rightarrow>
          if pendingEventualLen (ps_pendingEventual p) \<ge> sendBufSize
          then (Some (errSendBufferOverflow datagramLaneEventualState), p)
          else (None, p\<lparr>ps_pendingEventual := pushPendingEventual
                  \<lparr>es_token = token, es_payload = data, es_queuedAt = now\<rparr> (ps_pendingEventual p)\<rparr>))"

section \<open>Building packets\<close>

definition lastPacketSeq :: "datagramProtocolState \<Rightarrow> u16" where
  "lastPacketSeq p = (if ps_nextPacketSeq p = 0 then NOT 0 else ps_nextPacketSeq p - 1)"

definition newPacketInto ::
  "datagramPacket \<Rightarrow> bytes \<Rightarrow> datagramProtocolState \<Rightarrow> (datagramError + bytes) \<times> datagramProtocolState" where
  "newPacketInto packet dst p =
     (let packet = packet\<lparr>dp_packetSeq := ps_nextPacketSeq p,
                          dp_ackSeq := sw_latest (ps_recvPackets p),
                          dp_ackMask := sw_mask (ps_recvPackets p)\<rparr>
      in case appendDatagramPacket dst packet of
           Inl e \<Rightarrow> (Inl e, p)
         | Inr bs \<Rightarrow> (Inr bs, p\<lparr>ps_nextPacketSeq := ps_nextPacketSeq p + 1, ps_ackDirty := False\<rparr>))"

definition newUnreliablePacketInto ::
  "bytes \<Rightarrow> bytes \<Rightarrow> datagramProtocolState \<Rightarrow> (datagramError + bytes) \<times> datagramProtocolState" where
  "newUnreliablePacketInto data dst p =
     (case validateUnreliableDatagramPayloadSize data of
        Some e \<Rightarrow> (Inl e, p)
      | None \<Rightarrow> newPacketInto (zero_packet\<lparr>dp_lane := datagramLaneUnreliable, dp_payload := data\<rparr>) dst p)"

text \<open>The result \<^verbatim>\<open>(packet, ok, err)\<close>: \<open>Inr None\<close> is \<^verbatim>\<open>ok = false\<close> without an error.\<close>

definition nextAckPacketInto ::
  "time \<Rightarrow> bytes \<Rightarrow> datagramProtocolState \<Rightarrow> (datagramError + bytes option) \<times> datagramProtocolState" where
  "nextAckPacketInto now dst p =
     (if \<not> ps_ackDirty p \<or> (ps_ackDueAt p \<noteq> 0 \<and> now < ps_ackDueAt p) then (Inr None, p)
      else case newPacketInto (zero_packet\<lparr>dp_flags := datagramFlagAckOnly\<rparr>) dst p of
             (Inl e, p) \<Rightarrow> (Inl e, p)
           | (Inr bs, p) \<Rightarrow> (Inr (Some bs), p\<lparr>ps_ackDirty := False\<rparr>))"

section \<open>Reliable sending\<close>

text \<open>\<open>retryLoop n d\<close>: \<open>n\<close> remaining iterations of the doubling loop with delay \<open>d\<close>.\<close>

primrec retryLoop :: "nat \<Rightarrow> duration \<Rightarrow> duration" where
  "retryLoop 0 delay =
     (if delay > datagramReliableRetryMaxDelay then datagramReliableRetryMaxDelay else delay)"
| "retryLoop (Suc n) delay =
     (if delay * 2 \<ge> datagramReliableRetryMaxDelay then datagramReliableRetryMaxDelay
      else retryLoop n (delay * 2))"

definition reliableRetryDelay :: "nat \<Rightarrow> duration" where
  "reliableRetryDelay attempt = retryLoop (attempt - 1) datagramReliableRetryBaseDelay"

definition rm_expired :: "time \<Rightarrow> reliableDatagramMessage \<Rightarrow> bool" where
  "rm_expired now msg \<longleftrightarrow> timeSub now (rm_queuedAt msg) > datagramReliableMessageTTL
     \<or> rm_attempts msg \<ge> datagramReliableRetryLimit"

text \<open>The scan for the message to send: its index, or none, or the stall error.\<close>

fun scanReliable :: "time \<Rightarrow> bool \<Rightarrow> nat \<Rightarrow> reliableDatagramMessage list \<Rightarrow> datagramError + nat option" where
  "scanReliable now allowResend i [] = Inr None"
| "scanReliable now allowResend i (msg # ms) =
     (if rm_inFlight msg \<and> now < rm_nextSendAt msg then scanReliable now allowResend (i + 1) ms
      else if rm_expired now msg then Inl errReliableDatagramStalled
      else if rm_inFlight msg \<and> \<not> allowResend then scanReliable now allowResend (i + 1) ms
      else Inr (Some i))"

definition markSent :: "time \<Rightarrow> u16 \<Rightarrow> reliableDatagramMessage \<Rightarrow> reliableDatagramMessage" where
  "markSent now pkt msg =
     msg\<lparr>rm_inFlight := True, rm_lastSentAt := now, rm_lastPacket := pkt,
         rm_attempts := rm_attempts msg + 1,
         rm_nextSendAt := now + reliableRetryDelay (rm_attempts msg + 1)\<rparr>"

definition nextReliablePacketInto ::
  "datagramLane \<Rightarrow> time \<Rightarrow> bool \<Rightarrow> bytes \<Rightarrow> datagramProtocolState
     \<Rightarrow> (datagramError + (bytes \<times> bool) option) \<times> datagramProtocolState" where
  "nextReliablePacketInto l now allowResend dst p =
     (case scanReliable now allowResend 0 (pendingQueue l p) of
        Inl e \<Rightarrow> (Inl e, p)
      | Inr None \<Rightarrow> (Inr None, p)
      | Inr (Some i) \<Rightarrow>
          (let msg = pendingQueue l p ! i
           in case newPacketInto (zero_packet\<lparr>dp_lane := l, dp_messageID := rm_messageID msg,
                     dp_orderedSeq := rm_orderedSeq msg, dp_payload := rm_payload msg\<rparr>) dst p of
                (Inl e, p) \<Rightarrow> (Inl e, p)
              | (Inr bs, p) \<Rightarrow>
                  (Inr (Some (bs, rm_inFlight msg)),
                   setPendingQueue l ((pendingQueue l p)[i := markSent now (lastPacketSeq p) msg]) p)))"

section \<open>Eventual-state sending and expiry\<close>

definition trackEventualExpiry :: "time \<Rightarrow> datagramProtocolState \<Rightarrow> datagramProtocolState" where
  "trackEventualExpiry expiry p =
     (if ps_eventualExpiry p = 0 \<or> expiry < ps_eventualExpiry p
      then p\<lparr>ps_eventualExpiry := expiry\<rparr> else p)"

text \<open>
  The loop of \<^verbatim>\<open>recomputeEventualExpiry\<close> over the in-flight entries.
  \<open>earliest_order\<close> below shows that the iteration order does not matter.
\<close>

definition earliestExpiry :: "pendingEventualStateDatagram list \<Rightarrow> time" where
  "earliestExpiry es =
     fold (\<lambda>pending expiry. let candidate = pe_sentAt pending + datagramEventualStateTTL
             in if expiry = 0 \<or> candidate < expiry then candidate else expiry) es 0"

definition recomputeEventualExpiry :: "datagramProtocolState \<Rightarrow> datagramProtocolState" where
  "recomputeEventualExpiry p =
     p\<lparr>ps_eventualExpiry := earliestExpiry (map snd (ps_inFlightEventual p))\<rparr>"

definition checkEventualStateExpiry ::
  "time \<Rightarrow> datagramProtocolState \<Rightarrow> datagramError option \<times> datagramProtocolState" where
  "checkEventualStateExpiry now p =
     (let p = (if ps_eventualExpiry p = 0 \<and> gm_len (ps_inFlightEventual p) > 0
               then recomputeEventualExpiry p else p)
      in if ps_eventualExpiry p = 0 \<or> now < ps_eventualExpiry p then (None, p)
         else let p = recomputeEventualExpiry p
              in if ps_eventualExpiry p = 0 \<or> now < ps_eventualExpiry p then (None, p)
                 else (Some errEventualStateDatagramStalled, p))"

definition nextEventualStatePacketInto ::
  "time \<Rightarrow> bytes \<Rightarrow> datagramProtocolState \<Rightarrow> (datagramError + bytes option) \<times> datagramProtocolState" where
  "nextEventualStatePacketInto now dst p =
     (if gm_len (ps_inFlightEventual p) > datagramEventualStatePendingLimit
      then (Inl errEventualStateDatagramStalled, p)
      else if pendingEventualLen (ps_pendingEventual p) = 0
      then (case checkEventualStateExpiry now p of
              (Some e, p) \<Rightarrow> (Inl e, p) | (None, p) \<Rightarrow> (Inr None, p))
      else
        (case popPendingEventual (ps_pendingEventual p) of (msg, q) \<Rightarrow>
           let p = p\<lparr>ps_pendingEventual := q\<rparr>
           in case newPacketInto (zero_packet\<lparr>dp_lane := datagramLaneEventualState,
                     dp_stateToken := es_token msg, dp_payload := es_payload msg\<rparr>) dst p of
                (Inl e, p) \<Rightarrow> (Inl e, p)
              | (Inr bs, p) \<Rightarrow>
                  (Inr (Some bs),
                   trackEventualExpiry (now + datagramEventualStateTTL)
                     (p\<lparr>ps_inFlightEventual := AList.update (lastPacketSeq p)
                          \<lparr>pe_token = es_token msg, pe_sentAt = now\<rparr> (ps_inFlightEventual p)\<rparr>))))"

text \<open>The variants that let the encoder allocate its buffer.\<close>

definition newPacket ::
  "datagramPacket \<Rightarrow> datagramProtocolState \<Rightarrow> (datagramError + bytes) \<times> datagramProtocolState" where
  "newPacket packet p = newPacketInto packet [] p"

definition newUnreliablePacket ::
  "bytes \<Rightarrow> datagramProtocolState \<Rightarrow> (datagramError + bytes) \<times> datagramProtocolState" where
  "newUnreliablePacket data p = newUnreliablePacketInto data [] p"

definition nextAckPacket ::
  "time \<Rightarrow> datagramProtocolState \<Rightarrow> (datagramError + bytes option) \<times> datagramProtocolState" where
  "nextAckPacket now p = nextAckPacketInto now [] p"

definition nextReliablePacket ::
  "datagramLane \<Rightarrow> time \<Rightarrow> bool \<Rightarrow> datagramProtocolState
     \<Rightarrow> (datagramError + (bytes \<times> bool) option) \<times> datagramProtocolState" where
  "nextReliablePacket l now allowResend p = nextReliablePacketInto l now allowResend [] p"

definition nextEventualStatePacket ::
  "time \<Rightarrow> datagramProtocolState \<Rightarrow> (datagramError + bytes option) \<times> datagramProtocolState" where
  "nextEventualStatePacket now p = nextEventualStatePacketInto now [] p"

section \<open>Wake-up times\<close>

text \<open>The closure \<^verbatim>\<open>add\<close>: \<open>None\<close> until the first call.\<close>

definition addWake :: "time \<Rightarrow> time \<Rightarrow> time option \<Rightarrow> time option" where
  "addWake now t wake =
     (let t = (if t = 0 then now else t)
      in case wake of None \<Rightarrow> Some t | Some w \<Rightarrow> if t < w then Some t else Some w)"

definition addReliableWake :: "time \<Rightarrow> reliableDatagramMessage \<Rightarrow> time option \<Rightarrow> time option" where
  "addReliableWake now msg wake =
     (let wake = addWake now (rm_queuedAt msg + datagramReliableMessageTTL) wake
      in if \<not> rm_inFlight msg \<or> rm_attempts msg \<ge> datagramReliableRetryLimit then addWake now now wake
         else if rm_nextSendAt msg > now then addWake now (rm_nextSendAt msg) wake
         else addWake now now wake)"

definition nextWakeTime :: "time \<Rightarrow> datagramProtocolState \<Rightarrow> time option \<times> datagramProtocolState" where
  "nextWakeTime now p =
     (let wake = None;
          wake = (if ps_ackDirty p
                  then if ps_ackDueAt p = 0 \<or> \<not> ps_ackDueAt p > now then addWake now now wake
                       else addWake now (ps_ackDueAt p) wake
                  else wake);
          wake = fold (addReliableWake now) (ps_pendingOrdered p) wake;
          wake = fold (addReliableWake now) (ps_pendingUnordered p) wake;
          wake = (if pendingEventualLen (ps_pendingEventual p) > 0 then addWake now now wake else wake);
          p = (if ps_eventualExpiry p = 0 \<and> gm_len (ps_inFlightEventual p) > 0
               then recomputeEventualExpiry p else p);
          wake = (if ps_eventualExpiry p \<noteq> 0 then addWake now (ps_eventualExpiry p) wake else wake);
          wake = (if or_gapSince (ps_orderedRecv p) \<noteq> 0
                  then addWake now (or_gapSince (ps_orderedRecv p) + datagramReliableOrderedGapTimeout) wake
                  else wake)
      in (wake, p))"

section \<open>Acknowledgements from the peer\<close>

text \<open>
  \<^verbatim>\<open>pruneReliableQueue\<close> filters the queue in place: \<open>dst\<close> shares the queue's array.  The
  loop returns the kept prefix, the messages not yet visited and whether it stopped with an
  error.  After an error the queue variable still has its old length, so it holds the kept
  messages followed by the old tail of the array.
\<close>

definition markLost :: "time \<Rightarrow> reliableDatagramMessage \<Rightarrow> reliableDatagramMessage" where
  "markLost now msg =
     msg\<lparr>rm_inFlight := False, rm_nextSendAt := (if rm_nextSendAt msg < now then now else rm_nextSendAt msg)\<rparr>"

record pruneResult =
  pr_kept :: "reliableDatagramMessage list"
  pr_seen :: "reliableDatagramMessage list"
  pr_changed :: bool
  pr_stalled :: bool

fun pruneLoop ::
  "u16 \<Rightarrow> ackMask128 \<Rightarrow> time \<Rightarrow> pruneResult \<Rightarrow> reliableDatagramMessage list \<Rightarrow> pruneResult" where
  "pruneLoop aseq am now r [] = r"
| "pruneLoop aseq am now r (msg # ms) =
     (if rm_expired now msg
      then r\<lparr>pr_seen := pr_seen r @ msg # ms, pr_changed := True, pr_stalled := True\<rparr>
      else if \<not> rm_inFlight msg
      then pruneLoop aseq am now (r\<lparr>pr_kept := pr_kept r @ [msg], pr_seen := pr_seen r @ [msg]\<rparr>) ms
      else case packetAckState (rm_lastPacket msg) aseq am of
             packetAckDelivered \<Rightarrow>
               pruneLoop aseq am now (r\<lparr>pr_seen := pr_seen r @ [msg], pr_changed := True\<rparr>) ms
           | packetAckLost \<Rightarrow>
               (let m' = markLost now msg
                in pruneLoop aseq am now (r\<lparr>pr_kept := pr_kept r @ [m'], pr_seen := pr_seen r @ [m'],
                     pr_changed := True\<rparr>) ms)
           | packetAckPending \<Rightarrow>
               pruneLoop aseq am now (r\<lparr>pr_kept := pr_kept r @ [msg], pr_seen := pr_seen r @ [msg]\<rparr>) ms)"

definition pruneReliableQueue ::
  "u16 \<Rightarrow> ackMask128 \<Rightarrow> time \<Rightarrow> reliableDatagramMessage list
     \<Rightarrow> (bool \<times> datagramError option) \<times> reliableDatagramMessage list" where
  "pruneReliableQueue aseq am now queue =
     (if length queue = 0 then ((False, None), queue)
      else let r = pruneLoop aseq am now
                     \<lparr>pr_kept = [], pr_seen = [], pr_changed = False, pr_stalled = False\<rparr> queue
           in if pr_stalled r
              then ((True, Some errReliableDatagramStalled),
                    pr_kept r @ drop (length (pr_kept r)) (pr_seen r))
              else ((pr_changed r, None), pr_kept r))"

text \<open>\<open>ks\<close> is the order in which the runtime visits the in-flight map.\<close>

fun pruneEventualLoop ::
  "u16 \<Rightarrow> ackMask128 \<Rightarrow> time \<Rightarrow> u16 list \<Rightarrow> bool \<Rightarrow> datagramProtocolState
     \<Rightarrow> (bool \<times> datagramError option) \<times> datagramProtocolState" where
  "pruneEventualLoop aseq am now [] changed p =
     ((changed, None), if changed then recomputeEventualExpiry p else p)"
| "pruneEventualLoop aseq am now (k # ks) changed p =
     (case map_of (ps_inFlightEventual p) k of
        None \<Rightarrow> pruneEventualLoop aseq am now ks changed p
      | Some pending \<Rightarrow>
          if timeSub now (pe_sentAt pending) > datagramEventualStateTTL
          then ((changed, Some errEventualStateDatagramStalled), p)
          else
            (let settle = (\<lambda>d. p\<lparr>ps_eventualFeedback :=
                     ps_eventualFeedback p @ [\<lparr>ed_Token = pe_token pending, ed_Delivered = d\<rparr>],
                   ps_inFlightEventual := AList.delete k (ps_inFlightEventual p)\<rparr>)
             in case packetAckState k aseq am of
                  packetAckDelivered \<Rightarrow> pruneEventualLoop aseq am now ks True (settle True)
                | packetAckLost \<Rightarrow> pruneEventualLoop aseq am now ks True (settle False)
                | packetAckPending \<Rightarrow> pruneEventualLoop aseq am now ks changed p))"

definition pruneEventualState ::
  "u16 list \<Rightarrow> u16 \<Rightarrow> ackMask128 \<Rightarrow> time \<Rightarrow> datagramProtocolState
     \<Rightarrow> (bool \<times> datagramError option) \<times> datagramProtocolState" where
  "pruneEventualState ks aseq am now p =
     (if gm_len (ps_inFlightEventual p) = 0 then ((False, None), p)
      else pruneEventualLoop aseq am now ks False p)"

definition pruneAckedMessages ::
  "u16 list \<Rightarrow> u16 \<Rightarrow> ackMask128 \<Rightarrow> time \<Rightarrow> datagramProtocolState
     \<Rightarrow> (bool \<times> datagramError option) \<times> datagramProtocolState" where
  "pruneAckedMessages ks aseq am now p =
     (case pruneReliableQueue aseq am now (ps_pendingOrdered p) of ((c1, e1), qo) \<Rightarrow>
      case pruneReliableQueue aseq am now (ps_pendingUnordered p) of ((c2, e2), qu) \<Rightarrow>
      case pruneEventualState ks aseq am now (p\<lparr>ps_pendingOrdered := qo, ps_pendingUnordered := qu\<rparr>) of
        ((c3, e3), p) \<Rightarrow>
          ((c1 \<or> c2 \<or> c3,
            if e1 \<noteq> None then e1 else if e2 \<noteq> None then e2 else e3), p))"

definition applyPeerAcks ::
  "u16 list \<Rightarrow> u16 \<Rightarrow> ackMask128 \<Rightarrow> time \<Rightarrow> datagramProtocolState
     \<Rightarrow> (bool \<times> datagramError option) \<times> datagramProtocolState" where
  "applyPeerAcks ks aseq am now p =
     (if \<not> sw_init (ps_peerPackets p)
      then pruneAckedMessages ks aseq am now
             (p\<lparr>ps_peerPackets := \<lparr>sw_init = True, sw_latest = aseq, sw_mask = am\<rparr>\<rparr>)
      else pruneAckedMessages ks aseq am now
             (if seqGreater aseq (sw_latest (ps_peerPackets p)) \<or> aseq = sw_latest (ps_peerPackets p)
              then p\<lparr>ps_peerPackets := (ps_peerPackets p)\<lparr>sw_latest := aseq, sw_mask := am\<rparr>\<rparr>
              else p))"

definition drainEventualFeedback ::
  "datagramProtocolState \<Rightarrow> EventualStateDelivery list \<times> datagramProtocolState" where
  "drainEventualFeedback p =
     (if ps_eventualFeedback p = [] then ([], p)
      else (ps_eventualFeedback p, p\<lparr>ps_eventualFeedback := []\<rparr>))"

section \<open>Receiving\<close>

definition deliverPayload ::
  "datagramPacket \<Rightarrow> time \<Rightarrow> datagramProtocolState
     \<Rightarrow> (datagramError + datagramDelivery list \<times> bool) \<times> datagramProtocolState" where
  "deliverPayload packet now p =
     (let one = [\<lparr>dd_lane = dp_lane packet, dd_data = dp_payload packet\<rparr>]
      in if dp_lane packet = datagramLaneUnreliable then (Inr (one, True), p)
         else if dp_lane packet = datagramLaneReliableUnordered
         then (case sw_accept (ps_recvReliableMsgs p) (dp_messageID packet) of
                 (ok, w) \<Rightarrow> (Inr (if ok then one else [], True), p\<lparr>ps_recvReliableMsgs := w\<rparr>))
         else if dp_lane packet = datagramLaneReliableOrdered
         then (case or_accept (ps_orderedRecv p) (dp_orderedSeq packet) (dp_payload packet) now of
                 (ds, o') \<Rightarrow>
                   (Inr (map (\<lambda>d. \<lparr>dd_lane = datagramLaneReliableOrdered, dd_data = d\<rparr>) ds, True),
                    p\<lparr>ps_orderedRecv := o'\<rparr>))
         else if dp_lane packet = datagramLaneEventualState then (Inr (one, True), p)
         else (Inl (errDatagramUnknownLane (dp_lane packet)), p))"

definition handleIncoming ::
  "u16 list \<Rightarrow> time \<Rightarrow> bytes \<Rightarrow> datagramProtocolState
     \<Rightarrow> (datagramError + datagramDelivery list \<times> bool) \<times> datagramProtocolState" where
  "handleIncoming ks now data p =
     (case decodeDatagramPacket data of
        Inl e \<Rightarrow> (Inl e, p)
      | Inr packet \<Rightarrow>
          (let p = p\<lparr>ps_inboundPackets := ps_inboundPackets p + 1\<rparr>
           in case applyPeerAcks ks (dp_ackSeq packet) (dp_ackMask packet) now p of
                ((ackedChanged, Some e), p) \<Rightarrow> (Inl e, p)
              | ((ackedChanged, None), p) \<Rightarrow>
                  if dp_flags packet AND datagramFlagAckOnly \<noteq> 0
                  then (Inr ([], ackedChanged), p\<lparr>ps_inboundAckOnly := ps_inboundAckOnly p + 1\<rparr>)
                  else
                    (case sw_accept (ps_recvPackets p) (dp_packetSeq packet) of
                       (accepted, w) \<Rightarrow>
                         let p = p\<lparr>ps_recvPackets := w\<rparr>;
                             p = (if accepted then p\<lparr>ps_ackDirty := True,
                                    ps_ackDueAt := now + datagramAckCoalesceDelay\<rparr> else p)
                         in if \<not> accepted then (Inr ([], ackedChanged \<or> accepted), p)
                            else deliverPayload packet now p)))"

definition checkOrderedGap :: "time \<Rightarrow> datagramProtocolState \<Rightarrow> datagramError option" where
  "checkOrderedGap now p =
     (if or_checkTimeout (ps_orderedRecv p) now then Some errReliableOrderedDatagramGap else None)"

end
