(* ===== verification/Datagram_Lanes.thy ===== *)
theory Datagram_Lanes
  imports Datagram_Protocol "HOL-Library.Multiset"
begin

text \<open>
  The lanes of the datagram protocol one by one: the eventual-state queue implements the FIFO
  interface, the retry delay is bounded exponential back-off, an acknowledgement prunes the
  reliable queues precisely, and eventual-state feedback conserves tokens.
\<close>

unbundle bit_operations_syntax

section \<open>The eventual-state queue is a FIFO\<close>

definition eq_list :: "eventualQueue \<Rightarrow> eventualStateDatagram list" where
  "eq_list q = drop (eq_head q) (eq_slots q)"

definition eq_inv :: "eventualQueue \<Rightarrow> bool" where
  "eq_inv q \<longleftrightarrow> eq_head q \<le> length (eq_slots q) \<and> length (eq_slots q) \<le> eq_cap q"

lemmas eq_ops = compactPendingEventualNow_def compactPendingEventualForAppend_def
  popPendingEventual_def pushPendingEventual_def pendingEventualLen_def eq_list_def eq_inv_def

lemma eq_pop:
  assumes "eq_inv q" and "eq_list q \<noteq> []"
  shows "fst (popPendingEventual q) = hd (eq_list q)
    \<and> eq_list (snd (popPendingEventual q)) = tl (eq_list q)"
proof -
  have "eq_head q < length (eq_slots q)" using assms by (simp add: eq_inv_def eq_list_def)
  moreover have "tl (drop n xs) = drop (Suc n) xs" for n and xs :: "eventualStateDatagram list"
    by (simp add: drop_Suc tl_drop)
  ultimately show ?thesis by (auto simp: eq_ops Let_def hd_drop_conv_nth)
qed

interpretation evq: fifo eq_list pushPendingEventual popPendingEventual pendingEventualLen eq_inv
proof unfold_locales
  fix q x
  assume i: "eq_inv q"
  show "eq_list (pushPendingEventual x q) = eq_list q @ [x]" "eq_inv (pushPendingEventual x q)"
    using i by (auto simp: eq_ops Let_def)
  show "pendingEventualLen q = length (eq_list q)" by (simp add: eq_ops)
  assume ne: "eq_list q \<noteq> []"
  show "fst (popPendingEventual q) = hd (eq_list q) \<and> eq_list (snd (popPendingEventual q)) = tl (eq_list q)"
    using i ne by (rule eq_pop)
  show "eq_inv (snd (popPendingEventual q))" using i ne by (auto simp: eq_ops Let_def)
qed

lemma enqueue_keeps_cap:
  assumes "eq_inv q" and "pendingEventualLen q < eq_cap q"
  shows "eq_cap (pushPendingEventual m q) = eq_cap q"
  using assms by (auto simp: eq_ops Let_def)

lemma pop_keeps_cap [simp]: "eq_cap (snd (popPendingEventual q)) = eq_cap q"
  by (simp add: eq_ops Let_def)

primrec popEventuals :: "nat \<Rightarrow> eventualQueue \<Rightarrow> eventualStateDatagram list \<times> eventualQueue" where
  "popEventuals 0 q = ([], q)"
| "popEventuals (Suc n) q =
     (case popPendingEventual q of (m, q1) \<Rightarrow> case popEventuals n q1 of (ms, q2) \<Rightarrow> (m # ms, q2))"

lemma popEventuals_pops: "popEventuals n q = evq.pops n q"
  by (induction n arbitrary: q) simp_all

text \<open>
  The eventual-state send queue, a slice with a moving head that is compacted in place, is a
  FIFO: after any messages \<open>ms\<close> are enqueued, the first pops yield the old contents and then
  \<open>ms\<close>, in order, whatever compactions happen in between; and an enqueue that passes the length
  check never makes the slice outgrow its initial capacity.
\<close>

theorem eventual_queue_fifo:
  assumes "eq_inv q"
  shows "fst (popEventuals (length (eq_list q @ ms)) (fold pushPendingEventual ms q)) = eq_list q @ ms
    \<and> (pendingEventualLen q < eq_cap q \<longrightarrow> eq_cap (pushPendingEventual m q) = eq_cap q)"
  using evq.fold_push_list [OF assms, of ms] evq.pops_take [of "fold pushPendingEventual ms q"]
    enqueue_keeps_cap [OF assms] by (simp add: popEventuals_pops)

theorem eventual_queue_fifo_witness:
  "eq_cap (pushPendingEventual zeroEventual \<lparr>eq_slots = [zeroEventual], eq_head = 1, eq_cap = 1\<rparr>) = 1"
  using eventual_queue_fifo [of "\<lparr>eq_slots = [zeroEventual], eq_head = 1, eq_cap = 1\<rparr>" "[]" zeroEventual]
  by (simp add: eq_inv_def pendingEventualLen_def)

section \<open>Retry delays\<close>

lemma retryLoop_min: "0 \<le> d \<Longrightarrow> retryLoop n d = min datagramReliableRetryMaxDelay (d * 2 ^ n)"
proof (induction n arbitrary: d)
  case (Suc n)
  show ?case
  proof (cases "d * 2 \<ge> datagramReliableRetryMaxDelay")
    case True
    have "d * 1 \<le> d * 2 ^ n" using Suc.prems by (intro mult_left_mono) simp_all
    with True have "datagramReliableRetryMaxDelay \<le> 2 * (d * 2 ^ n)" by linarith
    with True show ?thesis by (simp add: min_def)
  next
    case False
    then show ?thesis using Suc.IH [of "d * 2"] Suc.prems by (simp add: mult.assoc)
  qed
qed (simp add: min_def)

text \<open>
  The retry delay is exponential back-off with a ceiling: attempt \<open>a\<close> waits
  \<open>75 ms * 2 ^ (a - 1)\<close>, but never more than 400 ms, and delays never decrease.
\<close>

theorem retry_delay_spec:
  "reliableRetryDelay a = min (400 * millisecond) (75 * millisecond * 2 ^ (a - 1))
   \<and> 75 * millisecond \<le> reliableRetryDelay a \<and> reliableRetryDelay a \<le> reliableRetryDelay (Suc a)"
proof -
  have e: "reliableRetryDelay a = min 400000000 (75000000 * 2 ^ (a - 1))" for a
    by (simp add: reliableRetryDelay_def retryLoop_min)
  have "min 400000000 (75000000 * 2 ^ (a - 1)) \<le> min 400000000 (75000000 * 2 ^ (Suc a - 1) :: int)"
    by (intro min.mono mult_left_mono power_increasing) simp_all
  then show ?thesis unfolding e by (simp add: min_def)
qed

section \<open>Pruning the reliable queues\<close>

definition deliveredBy :: "u16 \<Rightarrow> ackMask128 \<Rightarrow> reliableDatagramMessage \<Rightarrow> bool" where
  "deliveredBy aseq am m \<longleftrightarrow> rm_inFlight m \<and> packetAckState (rm_lastPacket m) aseq am = packetAckDelivered"

definition relost :: "u16 \<Rightarrow> ackMask128 \<Rightarrow> time \<Rightarrow> reliableDatagramMessage \<Rightarrow> reliableDatagramMessage" where
  "relost aseq am now m =
     (if rm_inFlight m \<and> packetAckState (rm_lastPacket m) aseq am = packetAckLost then markLost now m else m)"

lemma pruneLoop_spec:
  "(pr_stalled (pruneLoop aseq am now r q) \<longleftrightarrow> pr_stalled r \<or> (\<exists>m\<in>set q. rm_expired now m))
   \<and> ((\<forall>m\<in>set q. \<not> rm_expired now m) \<longrightarrow>
        pr_kept (pruneLoop aseq am now r q)
          = pr_kept r @ map (relost aseq am now) (filter (\<lambda>m. \<not> deliveredBy aseq am m) q)
        \<and> pr_seen (pruneLoop aseq am now r q) = pr_seen r @ map (relost aseq am now) q)"
  by (induction q arbitrary: r)
    (auto simp: deliveredBy_def relost_def Let_def split: packetAckStatus.splits)

text \<open>
  An acknowledgement removes a reliable message from its queue only if the peer has
  acknowledged the very packet that last carried it.  The error is reported exactly when some
  queued message is past its lifetime or its retry limit; without an error the queue keeps its
  order, loses exactly the acknowledged messages, and those the acknowledgement shows as lost
  become eligible for a resend.
\<close>

theorem prune_reliable_spec:
  "(snd (fst (pruneReliableQueue aseq am now q)) = Some errReliableDatagramStalled
      \<longleftrightarrow> (\<exists>m. m \<in> set q \<and> rm_expired now m))
   \<and> ((\<exists>m. m \<in> set q \<and> rm_expired now m)
      \<or> pruneReliableQueue aseq am now q =
          ((fst (fst (pruneReliableQueue aseq am now q)), None),
           map (relost aseq am now) (filter (\<lambda>m. \<not> deliveredBy aseq am m) q)))"
  using pruneLoop_spec [of aseq am now "\<lparr>pr_kept = [], pr_seen = [], pr_changed = False, pr_stalled = False\<rparr>" q]
  by (auto simp: pruneReliableQueue_def Let_def)

section \<open>Eventual-state feedback\<close>

definition inFlightTokens :: "datagramProtocolState \<Rightarrow> u64 multiset" where
  "inFlightTokens p = image_mset (\<lambda>(k, e). pe_token e) (mset (ps_inFlightEventual p))"

definition reportedTokens :: "datagramProtocolState \<Rightarrow> u64 multiset" where
  "reportedTokens p = image_mset ed_Token (mset (ps_eventualFeedback p))"

lemma mset_delete:
  "gm_wf m \<Longrightarrow> map_of m k = Some v \<Longrightarrow> mset m = add_mset (k, v) (mset (AList.delete k m))"
proof (induction m)
  case (Cons x m)
  obtain a b where x: "x = (a, b)" by (cases x)
  show ?case
  proof (cases "a = k")
    case True
    then have "k \<notin> fst ` set m" using Cons.prems x by (auto simp: gm_keys_def)
    then have "AList.delete k m = m" by (simp add: delete_id)
    then show ?thesis using True Cons.prems x by (simp add: delete_simps)
  next
    case False
    then show ?thesis using Cons x by (simp add: delete_simps)
  qed
qed simp

lemma recompute_simps [simp]:
  "ps_inFlightEventual (recomputeEventualExpiry p) = ps_inFlightEventual p"
  "ps_eventualFeedback (recomputeEventualExpiry p) = ps_eventualFeedback p"
  by (simp_all add: recomputeEventualExpiry_def)

definition eventualSettled :: "u16 \<Rightarrow> ackMask128 \<Rightarrow> datagramProtocolState \<Rightarrow> datagramProtocolState \<Rightarrow> bool" where
  "eventualSettled aseq am p p' \<longleftrightarrow>
     (\<exists>fs. ps_eventualFeedback p' = ps_eventualFeedback p @ fs
        \<and> (\<forall>f\<in>set fs. \<exists>k e. map_of (ps_inFlightEventual p) k = Some e \<and> pe_token e = ed_Token f
             \<and> packetAckState k aseq am = (if ed_Delivered f then packetAckDelivered else packetAckLost)))"

definition settleEventual ::
  "u16 \<Rightarrow> pendingEventualStateDatagram \<Rightarrow> bool \<Rightarrow> datagramProtocolState \<Rightarrow> datagramProtocolState" where
  "settleEventual k e d p =
     p\<lparr>ps_eventualFeedback := ps_eventualFeedback p @ [\<lparr>ed_Token = pe_token e, ed_Delivered = d\<rparr>],
       ps_inFlightEventual := AList.delete k (ps_inFlightEventual p)\<rparr>"

lemma settle_simps [simp]:
  "ps_inFlightEventual (settleEventual k e d p) = AList.delete k (ps_inFlightEventual p)"
  "ps_eventualFeedback (settleEventual k e d p)
     = ps_eventualFeedback p @ [\<lparr>ed_Token = pe_token e, ed_Delivered = d\<rparr>]"
  by (simp_all add: settleEventual_def)

text \<open>What holds of a run of the loop; \<open>ks\<close> are the entries it has visited.\<close>

definition eventualPruned ::
  "u16 \<Rightarrow> ackMask128 \<Rightarrow> u16 set \<Rightarrow> bool \<Rightarrow> datagramProtocolState \<Rightarrow> datagramProtocolState \<Rightarrow> bool" where
  "eventualPruned aseq am K ok p p' \<longleftrightarrow>
     gm_wf (ps_inFlightEventual p')
     \<and> inFlightTokens p' + reportedTokens p' = inFlightTokens p + reportedTokens p
     \<and> eventualSettled aseq am p p'
     \<and> map_of (ps_inFlightEventual p') \<subseteq>\<^sub>m map_of (ps_inFlightEventual p)
     \<and> (ok \<longrightarrow> (\<forall>k\<in>K. map_of (ps_inFlightEventual p') k \<noteq> None
          \<longrightarrow> packetAckState k aseq am = packetAckPending))"

lemma settle_tokens:
  assumes "gm_wf (ps_inFlightEventual p)" and "map_of (ps_inFlightEventual p) k = Some e"
  shows "inFlightTokens (settleEventual k e d p) + reportedTokens (settleEventual k e d p)
    = inFlightTokens p + reportedTokens p"
  using mset_delete [OF assms] by (simp add: inFlightTokens_def reportedTokens_def)

lemma eventualPruned_settle:
  assumes "gm_wf (ps_inFlightEventual p)" and "map_of (ps_inFlightEventual p) k = Some e"
    and "packetAckState k aseq am = (if d then packetAckDelivered else packetAckLost)"
    and IH: "eventualPruned aseq am K ok (settleEventual k e d p) p'"
  shows "eventualPruned aseq am (insert k K) ok p p'"
proof -
  let ?q = "settleEventual k e d p"
  have le: "map_of (ps_inFlightEventual ?q) \<subseteq>\<^sub>m map_of (ps_inFlightEventual p)"
    by (auto simp: map_le_def)
  have gone: "map_of (ps_inFlightEventual p') k = None"
    using IH by (auto simp: eventualPruned_def map_le_def dom_def)
  obtain fs where fs: "ps_eventualFeedback p' = ps_eventualFeedback ?q @ fs"
    and f: "\<forall>f\<in>set fs. \<exists>k e. map_of (ps_inFlightEventual ?q) k = Some e \<and> pe_token e = ed_Token f
             \<and> packetAckState k aseq am = (if ed_Delivered f then packetAckDelivered else packetAckLost)"
    using IH unfolding eventualPruned_def eventualSettled_def by blast
  have "eventualSettled aseq am p p'"
    unfolding eventualSettled_def
  proof (intro exI [of _ "\<lparr>ed_Token = pe_token e, ed_Delivered = d\<rparr> # fs"] conjI ballI)
    show "ps_eventualFeedback p' = ps_eventualFeedback p @ \<lparr>ed_Token = pe_token e, ed_Delivered = d\<rparr> # fs"
      using fs by simp
    fix g
    assume "g \<in> set (\<lparr>ed_Token = pe_token e, ed_Delivered = d\<rparr> # fs)"
    then consider "g = \<lparr>ed_Token = pe_token e, ed_Delivered = d\<rparr>" | "g \<in> set fs" by auto
    then show "\<exists>k e. map_of (ps_inFlightEventual p) k = Some e \<and> pe_token e = ed_Token g
       \<and> packetAckState k aseq am = (if ed_Delivered g then packetAckDelivered else packetAckLost)"
    proof cases
      case 1
      then show ?thesis using assms(2,3) by (intro exI [of _ k] exI [of _ e]) simp
    next
      case 2
      then obtain k' e' where k': "map_of (ps_inFlightEventual ?q) k' = Some e'" "pe_token e' = ed_Token g"
        "packetAckState k' aseq am = (if ed_Delivered g then packetAckDelivered else packetAckLost)"
        using f by blast
      then have "map_of (ps_inFlightEventual p) k' = Some e'" by (simp split: if_splits)
      with k' show ?thesis by blast
    qed
  qed
  then show ?thesis
    using IH gone le settle_tokens [OF assms(1,2), of d]
    unfolding eventualPruned_def by (auto intro: map_le_trans)
qed

lemma eventualPruned_skip:
  assumes "eventualPruned aseq am K ok p p'"
    and "map_of (ps_inFlightEventual p) k = None \<or> packetAckState k aseq am = packetAckPending"
  shows "eventualPruned aseq am (insert k K) ok p p'"
proof -
  have "map_of (ps_inFlightEventual p') k = None" if "map_of (ps_inFlightEventual p) k = None"
    using that assms(1) by (auto simp: eventualPruned_def map_le_def dom_def)
  then show ?thesis using assms by (auto simp: eventualPruned_def)
qed

lemma eventualPruned_refl:
  "gm_wf (ps_inFlightEventual p) \<Longrightarrow> \<not> ok \<or> K = {} \<Longrightarrow> eventualPruned aseq am K ok p p"
  by (auto simp: eventualPruned_def eventualSettled_def)

lemma pruneEventualLoop_spec:
  assumes "pruneEventualLoop aseq am now ks c p = ((c', err), p')" and "gm_wf (ps_inFlightEventual p)"
  shows "eventualPruned aseq am (set ks) (err = None) p p'"
  using assms
proof (induction aseq am now ks c p rule: pruneEventualLoop.induct)
  case (1 aseq am now changed p)
  then show ?case
    by (auto simp: eventualPruned_def inFlightTokens_def reportedTokens_def eventualSettled_def)
next
  case (2 aseq am now k ks changed p)
  show ?case
  proof (cases "map_of (ps_inFlightEventual p) k")
    case None
    then show ?thesis using 2 eventualPruned_skip [of aseq am "set ks"] by simp
  next
    case (Some e)
    show ?thesis
    proof (cases "timeSub now (pe_sentAt e) > datagramEventualStateTTL")
      case True
      then show ?thesis using 2 Some by (auto simp: Let_def intro: eventualPruned_refl)
    next
      case False
      note IH = 2(2-4) [OF Some False refl]
      show ?thesis
      proof (cases "packetAckState k aseq am")
        case packetAckPending
        then show ?thesis using 2(5,6) False Some IH eventualPruned_skip [of aseq am "set ks"] by (simp add: Let_def)
      next
        case packetAckDelivered
        then show ?thesis using 2(5,6) False Some IH eventualPruned_settle [OF 2(6) Some, of aseq am True "set ks"]
          by (simp add: Let_def settleEventual_def)
      next
        case packetAckLost
        then show ?thesis using 2(5,6) False Some IH eventualPruned_settle [OF 2(6) Some, of aseq am False "set ks"]
          by (simp add: Let_def settleEventual_def)
      qed
    qed
  qed
qed

text \<open>
  C9.  No eventual-state token is lost or reported twice: processing an acknowledgement keeps the
  multiset of the tokens in flight together with the tokens reported, also when it stops with
  an error.  Every new report names a packet that the acknowledgement covers, delivered or lost
  as reported, and without an error only packets the acknowledgement says nothing about stay in
  flight.
\<close>

theorem eventual_feedback_conserved:
  assumes "gm_wf (ps_inFlightEventual p)" and "iter_order ks (ps_inFlightEventual p)"
    and "pruneEventualState ks aseq am now p = ((changed, err), p')"
  shows "inFlightTokens p' + reportedTokens p' = inFlightTokens p + reportedTokens p
    \<and> eventualSettled aseq am p p'
    \<and> (err = None \<longrightarrow> (\<forall>k. map_of (ps_inFlightEventual p') k \<noteq> None
          \<longrightarrow> packetAckState k aseq am = packetAckPending))"
proof (cases "ps_inFlightEventual p = []")
  case True
  then show ?thesis using assms(3) by (auto simp: pruneEventualState_def eventualSettled_def)
next
  case False
  then have "eventualPruned aseq am (set ks) (err = None) p p'"
    using pruneEventualLoop_spec assms(1,3) by (auto simp: pruneEventualState_def)
  moreover have "k \<in> set ks" if "map_of (ps_inFlightEventual p') k \<noteq> None" for k
    using that assms(2) calculation
    by (auto simp: eventualPruned_def map_le_def iter_order_def gm_keys_dom dom_def)
  ultimately show ?thesis by (auto simp: eventualPruned_def)
qed

theorem eventual_feedback_conserved_witness:
  "\<exists>p'. pruneEventualState [4, 6] 5 mask_zero 0
      (newDatagramProtocolState\<lparr>ps_inFlightEventual := [(4, \<lparr>pe_token = 70, pe_sentAt = 0\<rparr>),
         (6, \<lparr>pe_token = 71, pe_sentAt = 0\<rparr>)]\<rparr>) = ((True, None), p')
    \<and> ps_eventualFeedback p' = [\<lparr>ed_Token = 70, ed_Delivered = False\<rparr>]
    \<and> inFlightTokens p' + reportedTokens p' = {#70, 71#}"
proof -
  let ?p = "newDatagramProtocolState\<lparr>ps_inFlightEventual := [(4, \<lparr>pe_token = 70, pe_sentAt = 0\<rparr>),
         (6, \<lparr>pe_token = 71, pe_sentAt = 0\<rparr>)]\<rparr>"
  obtain p' where p': "pruneEventualState [4, 6] 5 mask_zero 0 ?p = ((True, None), p')"
    and f: "ps_eventualFeedback p' = [\<lparr>ed_Token = 70, ed_Delivered = False\<rparr>]"
    by (simp add: pruneEventualState_def packetAckState_def seqGreater_def seqDistance_def
        newDatagramProtocolState_def timeSub_def maxDuration_def minDuration_def gm_len_def
        recomputeEventualExpiry_def)
  moreover have "inFlightTokens ?p + reportedTokens ?p = {#70, 71#}"
    by (simp add: inFlightTokens_def reportedTokens_def newDatagramProtocolState_def)
  ultimately show ?thesis
    using eventual_feedback_conserved [OF _ _ p'] by (auto simp: iter_order_def gm_wf_def gm_keys_def)
qed

end
