(* ===== verification/Datagram_Invariant.thy ===== *)
theory Datagram_Invariant
  imports Datagram_Lanes
begin

text \<open>
  The datagram endpoint as a state machine.  \<open>ps_step\<close> has one rule per operation a session
  calls, with arbitrary arguments; \<open>ps_inv\<close> holds in every reachable state.  From it follow the
  properties of whole runs: which errors sending can report, what a packet on the wire carries,
  when the scheduler has to wake up, and that duplicates are ignored.
\<close>

unbundle bit_operations_syntax

section \<open>The protocol invariant\<close>

definition rm_fits :: "nat \<Rightarrow> reliableDatagramMessage \<Rightarrow> bool" where
  "rm_fits n m \<longleftrightarrow> length (rm_payload m) \<le> n \<and> rm_attempts m \<le> datagramReliableRetryLimit"

definition ps_inv :: "datagramProtocolState \<Rightarrow> bool" where
  "ps_inv p \<longleftrightarrow>
     sw_wf (ps_recvPackets p) \<and> sw_wf (ps_recvReliableMsgs p)
     \<and> list_all (rm_fits maxReliableOrderedDatagramPayloadBytes) (ps_pendingOrdered p)
     \<and> list_all (rm_fits maxReliableUnorderedDatagramPayloadBytes) (ps_pendingUnordered p)
     \<and> length (ps_pendingOrdered p) \<le> sendBufSize \<and> length (ps_pendingUnordered p) \<le> sendBufSize
     \<and> eq_inv (ps_pendingEventual p) \<and> eq_cap (ps_pendingEventual p) = sendBufSize
     \<and> list_all (\<lambda>m. length (es_payload m) \<le> maxEventualStateDatagramPayloadBytes)
         (eq_list (ps_pendingEventual p))
     \<and> gm_wf (ps_inFlightEventual p)
     \<and> gm_len (ps_inFlightEventual p) \<le> Suc datagramEventualStatePendingLimit"

lemma ps_inv_new: "ps_inv newDatagramProtocolState"
  by (simp add: ps_inv_def newDatagramProtocolState_def eq_inv_def eq_list_def gm_len_def)

lemma rm_fits_markLost [simp]: "rm_fits n (markLost now m) = rm_fits n m"
  by (simp add: rm_fits_def markLost_def)

lemma pruneLoop_fits:
  assumes "list_all (rm_fits n) (pr_kept r)" and "list_all (rm_fits n) (pr_seen r)"
    and "list_all (rm_fits n) q" and "length (pr_kept r) \<le> length (pr_seen r)"
  shows "list_all (rm_fits n) (pr_kept (pruneLoop aseq am now r q))
    \<and> list_all (rm_fits n) (pr_seen (pruneLoop aseq am now r q))
    \<and> length (pr_kept (pruneLoop aseq am now r q)) \<le> length (pr_seen (pruneLoop aseq am now r q))
    \<and> length (pr_seen (pruneLoop aseq am now r q)) = length (pr_seen r) + length q"
  using assms
proof (induction q arbitrary: r)
  case (Cons m q)
  show ?case
  proof (cases "packetAckState (rm_lastPacket m) aseq am")
    case packetAckPending
    then show ?thesis using Cons.prems Cons.IH [of "r\<lparr>pr_kept := pr_kept r @ [m], pr_seen := pr_seen r @ [m]\<rparr>"]
      by auto
  next
    case packetAckDelivered
    then show ?thesis using Cons.prems Cons.IH [of "r\<lparr>pr_kept := pr_kept r @ [m], pr_seen := pr_seen r @ [m]\<rparr>"]
        Cons.IH [of "r\<lparr>pr_seen := pr_seen r @ [m], pr_changed := True\<rparr>"] by auto
  next
    case packetAckLost
    then show ?thesis using Cons.prems Cons.IH [of "r\<lparr>pr_kept := pr_kept r @ [m], pr_seen := pr_seen r @ [m]\<rparr>"]
        Cons.IH [of "r\<lparr>pr_kept := pr_kept r @ [markLost now m],
          pr_seen := pr_seen r @ [markLost now m], pr_changed := True\<rparr>"] by (auto simp: Let_def)
  qed
qed simp

lemma list_all_drop: "list_all P xs \<Longrightarrow> list_all P (drop n xs)"
  by (metis append_take_drop_id list_all_append)

lemma pruneReliableQueue_fits:
  assumes "list_all (rm_fits n) q" and "pruneReliableQueue aseq am now q = (r, q')"
  shows "list_all (rm_fits n) q' \<and> length q' \<le> length q"
  using assms pruneLoop_fits [of n "\<lparr>pr_kept = [], pr_seen = [], pr_changed = False, pr_stalled = False\<rparr>" q aseq am now]
  by (auto simp: pruneReliableQueue_def Let_def list_all_drop split: if_splits)

lemma pruneEventualLoop_frame:
  "pruneEventualLoop aseq am now ks c p = (r, p') \<Longrightarrow>
     ps_recvPackets p' = ps_recvPackets p \<and> ps_recvReliableMsgs p' = ps_recvReliableMsgs p
     \<and> ps_pendingOrdered p' = ps_pendingOrdered p \<and> ps_pendingUnordered p' = ps_pendingUnordered p
     \<and> ps_pendingEventual p' = ps_pendingEventual p \<and> ps_orderedRecv p' = ps_orderedRecv p
     \<and> ps_peerPackets p' = ps_peerPackets p \<and> ps_nextPacketSeq p' = ps_nextPacketSeq p"
  by (induction aseq am now ks c p rule: pruneEventualLoop.induct)
    (auto simp: recomputeEventualExpiry_def Let_def split: option.splits if_splits packetAckStatus.splits)

lemma gm_len_mono:
  assumes "gm_wf m'" and "gm_wf m" and "map_of m' \<subseteq>\<^sub>m map_of m"
  shows "gm_len m' \<le> gm_len m"
  using assms gm.len_card [of m] gm.len_card [of m'] map_le_implies_dom_le [OF assms(3)]
  by (simp add: card_mono)

lemma pruneEventualState_inv:
  assumes "ps_inv p" and "pruneEventualState ks aseq am now p = (r, p')"
  shows "ps_inv p' \<and> ps_recvPackets p' = ps_recvPackets p \<and> ps_orderedRecv p' = ps_orderedRecv p
    \<and> ps_recvReliableMsgs p' = ps_recvReliableMsgs p"
proof (cases "gm_len (ps_inFlightEventual p) = 0")
  case True
  then show ?thesis using assms by (simp add: pruneEventualState_def)
next
  case False
  then have loop: "pruneEventualLoop aseq am now ks False p = (r, p')"
    using assms(2) by (simp add: pruneEventualState_def)
  obtain c err where "r = (c, err)" by (cases r)
  with loop have "eventualPruned aseq am (set ks) (err = None) p p'"
    using pruneEventualLoop_spec assms(1) by (auto simp: ps_inv_def)
  then have "gm_wf (ps_inFlightEventual p')" "gm_len (ps_inFlightEventual p') \<le> gm_len (ps_inFlightEventual p)"
    using assms(1) gm_len_mono by (auto simp: eventualPruned_def ps_inv_def)
  with pruneEventualLoop_frame [OF loop] show ?thesis using assms(1) by (auto simp: ps_inv_def)
qed

lemma pruneAckedMessages_inv:
  assumes "ps_inv p" and "pruneAckedMessages ks aseq am now p = (r, p')"
  shows "ps_inv p' \<and> ps_recvPackets p' = ps_recvPackets p \<and> ps_orderedRecv p' = ps_orderedRecv p
    \<and> ps_recvReliableMsgs p' = ps_recvReliableMsgs p"
proof -
  obtain r1 qo where o: "pruneReliableQueue aseq am now (ps_pendingOrdered p) = (r1, qo)"
    by (cases "pruneReliableQueue aseq am now (ps_pendingOrdered p)")
  obtain r2 qu where u: "pruneReliableQueue aseq am now (ps_pendingUnordered p) = (r2, qu)"
    by (cases "pruneReliableQueue aseq am now (ps_pendingUnordered p)")
  let ?p = "p\<lparr>ps_pendingOrdered := qo, ps_pendingUnordered := qu\<rparr>"
  have "ps_inv ?p"
    using assms(1) pruneReliableQueue_fits [OF _ o] pruneReliableQueue_fits [OF _ u]
    unfolding ps_inv_def by fastforce
  moreover obtain r3 where "pruneEventualState ks aseq am now ?p = (r3, p')"
    using assms(2) o u by (auto simp: pruneAckedMessages_def split: prod.splits)
  ultimately show ?thesis using pruneEventualState_inv by fastforce
qed

lemma applyPeerAcks_inv:
  assumes "ps_inv p" and "applyPeerAcks ks aseq am now p = (r, p')"
  shows "ps_inv p' \<and> ps_recvPackets p' = ps_recvPackets p \<and> ps_orderedRecv p' = ps_orderedRecv p
    \<and> ps_recvReliableMsgs p' = ps_recvReliableMsgs p"
proof -
  have peer: "ps_inv (p\<lparr>ps_peerPackets := w\<rparr>)" for w using assms(1) by (simp add: ps_inv_def)
  obtain w where "pruneAckedMessages ks aseq am now (p\<lparr>ps_peerPackets := w\<rparr>) = (r, p')"
    using assms(2) by (auto simp: applyPeerAcks_def split: if_splits)
      (metis datagramProtocolState.surjective datagramProtocolState.update_convs(5))
  from pruneAckedMessages_inv [OF peer this] show ?thesis by simp
qed

lemma ps_inv_frame:
  assumes "ps_inv p"
  shows "ps_inv (p\<lparr>ps_nextMessageID := a\<rparr>)" "ps_inv (p\<lparr>ps_nextOrderedSeq := a\<rparr>)"
    "ps_inv (p\<lparr>ps_nextPacketSeq := a, ps_ackDirty := b\<rparr>)" "ps_inv (p\<lparr>ps_ackDirty := b\<rparr>)"
    "ps_inv (p\<lparr>ps_ackDirty := b, ps_ackDueAt := t\<rparr>)" "ps_inv (p\<lparr>ps_eventualExpiry := t\<rparr>)"
    "ps_inv (p\<lparr>ps_eventualFeedback := fs\<rparr>)" "ps_inv (p\<lparr>ps_inboundPackets := n\<rparr>)"
    "ps_inv (p\<lparr>ps_inboundAckOnly := n\<rparr>)" "ps_inv (p\<lparr>ps_orderedRecv := o'\<rparr>)"
  using assms by (simp_all add: ps_inv_def)

lemma ps_inv_window:
  assumes "ps_inv p"
  shows "ps_inv (p\<lparr>ps_recvPackets := snd (sw_accept (ps_recvPackets p) s)\<rparr>)"
    and "ps_inv (p\<lparr>ps_recvReliableMsgs := snd (sw_accept (ps_recvReliableMsgs p) s)\<rparr>)"
  using assms by (simp_all add: ps_inv_def sw_wf_accept)

lemma enqueueReliable_inv [inv_intros]:
  assumes "ps_inv p" and "enqueueReliable l data now p = (r, p')"
  shows "ps_inv p'"
  using assms
  by (auto simp: enqueueReliable_def ps_inv_def setPendingQueue_def pendingQueue_def rm_fits_def
      validateReliableDatagramMessageSize_def Let_def split: option.splits if_splits)

lemma enqueueEventualState_inv [inv_intros]:
  assumes "ps_inv p" and "enqueueEventualState t data now p = (r, p')"
  shows "ps_inv p'"
proof -
  have i: "eq_inv (ps_pendingEventual p)" using assms(1) by (simp add: ps_inv_def)
  show ?thesis
    using assms evq.push_list [OF i] evq.inv_push [OF i] enqueue_keeps_cap [OF i]
    by (auto simp: enqueueEventualState_def ps_inv_def validateEventualStateDatagramPayloadSize_def
        split: option.splits if_splits)
qed

lemma newPacketInto_state:
  "newPacketInto packet dst p = (r, p') \<Longrightarrow>
     p' = (case r of Inl e \<Rightarrow> p | Inr bs \<Rightarrow> p\<lparr>ps_nextPacketSeq := ps_nextPacketSeq p + 1, ps_ackDirty := False\<rparr>)"
  by (auto simp: newPacketInto_def Let_def split: sum.splits)

lemma newPacketInto_inv: "ps_inv p \<Longrightarrow> newPacketInto packet dst p = (r, p') \<Longrightarrow> ps_inv p'"
  by (auto simp: ps_inv_frame dest!: newPacketInto_state split: sum.splits)

lemma newUnreliablePacketInto_inv [inv_intros]:
  "ps_inv p \<Longrightarrow> newUnreliablePacketInto data dst p = (r, p') \<Longrightarrow> ps_inv p'"
  by (auto simp: newUnreliablePacketInto_def split: option.splits dest: newPacketInto_inv)

lemma nextAckPacketInto_inv [inv_intros]:
  "ps_inv p \<Longrightarrow> nextAckPacketInto now dst p = (r, p') \<Longrightarrow> ps_inv p'"
  by (auto simp: nextAckPacketInto_def ps_inv_frame split: if_splits prod.splits sum.splits
      dest: newPacketInto_inv)

lemma scanReliable_pick:
  assumes "scanReliable now ar i q = Inr (Some j)"
  shows "i \<le> j \<and> j - i < length q \<and> \<not> rm_expired now (q ! (j - i))
    \<and> (rm_inFlight (q ! (j - i)) \<longrightarrow> ar \<and> \<not> now < rm_nextSendAt (q ! (j - i)))"
  using assms
proof (induction now ar i q rule: scanReliable.induct)
  case (2 now ar i m q)
  have step: "nth (m # q) (j - i) = q ! (j - (i + 1))" if "i + 1 \<le> j"
    using that by (simp add: nth_Cons' Suc_diff_le)
  show ?case using 2 step by (fastforce split: if_splits)
qed simp

lemma scanReliable_error: "scanReliable now ar i q = Inl e \<Longrightarrow> e = errReliableDatagramStalled"
  by (induction now ar i q rule: scanReliable.induct) (auto split: if_splits)

lemma rm_fits_markSent: "rm_fits n m \<Longrightarrow> \<not> rm_expired now m \<Longrightarrow> rm_fits n (markSent now k m)"
  by (simp add: rm_fits_def markSent_def rm_expired_def)

lemma list_all_update: "list_all P xs \<Longrightarrow> P x \<Longrightarrow> list_all P (xs[i := x])"
  using set_update_subset_insert [of xs i x] by (auto simp: list_all_iff)

lemma nextReliablePacketInto_inv [inv_intros]:
  assumes "ps_inv p" and "nextReliablePacketInto l now ar dst p = (r, p')"
  shows "ps_inv p'"
proof (cases "scanReliable now ar 0 (pendingQueue l p)")
  case (Inl e)
  then show ?thesis using assms by (simp add: nextReliablePacketInto_def)
next
  case (Inr x)
  show ?thesis
  proof (cases x)
    case None
    then show ?thesis using Inr assms by (simp add: nextReliablePacketInto_def)
  next
    case (Some i)
    note pick = scanReliable_pick [OF Inr [unfolded Some]]
    define msg where "msg = pendingQueue l p ! i"
    obtain r1 p1 where np: "newPacketInto (zero_packet\<lparr>dp_lane := l, dp_messageID := rm_messageID msg,
          dp_orderedSeq := rm_orderedSeq msg, dp_payload := rm_payload msg\<rparr>) dst p = (r1, p1)"
      by (cases "newPacketInto (zero_packet\<lparr>dp_lane := l, dp_messageID := rm_messageID msg,
          dp_orderedSeq := rm_orderedSeq msg, dp_payload := rm_payload msg\<rparr>) dst p")
    have i1: "ps_inv p1" using newPacketInto_inv [OF assms(1) np] .
    have q1: "pendingQueue l p1 = pendingQueue l p"
      using newPacketInto_state [OF np] by (auto simp: pendingQueue_def split: sum.splits)
    have p': "p' = p1 \<or> p' = setPendingQueue l ((pendingQueue l p)[i := markSent now (lastPacketSeq p1) msg]) p1"
      using assms(2) Inr Some np q1
      by (auto simp: nextReliablePacketInto_def Let_def msg_def split: sum.splits)
    have "ps_inv (setPendingQueue l ((pendingQueue l p)[i := markSent now k msg]) p1)" for k
    proof -
      have "rm_fits n (markSent now k msg)" if "list_all (rm_fits n) (pendingQueue l p)" for n
        using that pick by (intro rm_fits_markSent) (simp_all add: msg_def list_all_length)
      then show ?thesis
        using i1 q1 by (auto simp: ps_inv_def setPendingQueue_def pendingQueue_def list_all_update
            split: if_splits)
    qed
    then show ?thesis using p' i1 by auto
  qed
qed

lemma recompute_inv [simp]: "ps_inv p \<Longrightarrow> ps_inv (recomputeEventualExpiry p)"
  by (simp add: recomputeEventualExpiry_def ps_inv_frame)

lemma checkEventualStateExpiry_inv:
  "ps_inv p \<Longrightarrow> checkEventualStateExpiry now p = (r, p') \<Longrightarrow> ps_inv p'"
  by (auto simp: checkEventualStateExpiry_def Let_def split: if_splits)

lemma popPendingEventual_inv:
  assumes "ps_inv p" and "pendingEventualLen (ps_pendingEventual p) \<noteq> 0"
    and "popPendingEventual (ps_pendingEventual p) = (msg, q)"
  shows "ps_inv (p\<lparr>ps_pendingEventual := q\<rparr>)
    \<and> length (es_payload msg) \<le> maxEventualStateDatagramPayloadBytes"
proof -
  let ?q = "ps_pendingEventual p"
  have i: "eq_inv ?q" and l: "list_all (\<lambda>m. length (es_payload m) \<le> maxEventualStateDatagramPayloadBytes) (eq_list ?q)"
    using assms(1) by (auto simp: ps_inv_def)
  have ne: "eq_list ?q \<noteq> []" using assms(2) evq.len_list [OF i] by auto
  have "msg = hd (eq_list ?q)" "eq_list q = tl (eq_list ?q)" "eq_inv q" "eq_cap q = eq_cap ?q"
    using evq.pop_list [OF i ne] evq.inv_pop [OF i ne] pop_keeps_cap [of ?q] assms(3) by auto
  then show ?thesis using assms(1) l ne by (cases "eq_list ?q") (auto simp: ps_inv_def)
qed

lemma ps_inv_inFlight:
  assumes "ps_inv p" and "gm_len (ps_inFlightEventual p) \<le> datagramEventualStatePendingLimit"
  shows "ps_inv (p\<lparr>ps_inFlightEventual := AList.update k e (ps_inFlightEventual p)\<rparr>)"
proof -
  have "gm_wf (ps_inFlightEventual p)" using assms(1) by (simp add: ps_inv_def)
  from gm.len_put [OF this, of k e] gm.wf_put [OF this, of k e] show ?thesis
    using assms by (auto simp: ps_inv_def split: if_splits)
qed

lemma trackEventualExpiry_inv [simp]: "ps_inv p \<Longrightarrow> ps_inv (trackEventualExpiry t p)"
  by (simp add: trackEventualExpiry_def ps_inv_frame)

lemma nextEventualStatePacketInto_inv [inv_intros]:
  assumes "ps_inv p" and "nextEventualStatePacketInto now dst p = (r, p')"
  shows "ps_inv p'"
proof (cases "gm_len (ps_inFlightEventual p) > datagramEventualStatePendingLimit
    \<or> pendingEventualLen (ps_pendingEventual p) = 0")
  case True
  then show ?thesis using assms
    by (auto simp: nextEventualStatePacketInto_def split: if_splits prod.splits option.splits
        dest: checkEventualStateExpiry_inv)
next
  case False
  obtain msg q where pop: "popPendingEventual (ps_pendingEventual p) = (msg, q)"
    by (cases "popPendingEventual (ps_pendingEventual p)")
  let ?pk = "zero_packet\<lparr>dp_lane := datagramLaneEventualState, dp_stateToken := es_token msg,
      dp_payload := es_payload msg\<rparr>" and ?p = "p\<lparr>ps_pendingEventual := q\<rparr>"
  obtain r1 p1 where np: "newPacketInto ?pk dst ?p = (r1, p1)" by (cases "newPacketInto ?pk dst ?p")
  have i1: "ps_inv p1" using popPendingEventual_inv [OF assms(1) _ pop] False newPacketInto_inv [OF _ np] by simp
  have "ps_inFlightEventual p1 = ps_inFlightEventual p"
    using newPacketInto_state [OF np] by (simp split: sum.splits)
  then have "ps_inv (p1\<lparr>ps_inFlightEventual := AList.update k e (ps_inFlightEventual p1)\<rparr>)" for k e
    using ps_inv_inFlight [OF i1] False by simp
  then show ?thesis using assms(2) False pop np i1
    by (auto simp: nextEventualStatePacketInto_def Let_def split: sum.splits)
qed

lemma nextWakeTime_inv [inv_intros]: "ps_inv p \<Longrightarrow> nextWakeTime now p = (w, p') \<Longrightarrow> ps_inv p'"
  by (auto simp: nextWakeTime_def Let_def)

lemma drainEventualFeedback_inv [inv_intros]: "ps_inv p \<Longrightarrow> drainEventualFeedback p = (fs, p') \<Longrightarrow> ps_inv p'"
  by (auto simp: drainEventualFeedback_def ps_inv_frame split: if_splits)

lemma deliverPayload_inv:
  "ps_inv p \<Longrightarrow> deliverPayload packet now p = (r, p') \<Longrightarrow> ps_inv p'"
  using ps_inv_window(2) [of p "dp_messageID packet"]
  by (auto simp: deliverPayload_def Let_def ps_inv_frame split: if_splits prod.splits)

lemma handleIncoming_inv [inv_intros]:
  assumes "ps_inv p" and "handleIncoming ks now data p = (r, p')"
  shows "ps_inv p'"
proof (cases "decodeDatagramPacket data")
  case (Inl e)
  then show ?thesis using assms by (simp add: handleIncoming_def)
next
  case (Inr packet)
  let ?p = "p\<lparr>ps_inboundPackets := ps_inboundPackets p + 1\<rparr>"
  obtain c err p1 where a: "applyPeerAcks ks (dp_ackSeq packet) (dp_ackMask packet) now ?p = ((c, err), p1)"
    by (metis prod.exhaust)
  have i1: "ps_inv p1" using applyPeerAcks_inv [OF ps_inv_frame(8) [OF assms(1)] a] by simp
  let ?w = "sw_accept (ps_recvPackets p1) (dp_packetSeq packet)"
  have iw: "ps_inv (p1\<lparr>ps_recvPackets := snd ?w\<rparr>)" using ps_inv_window(1) [OF i1] .
  have "p' = p1 \<or> p' = p1\<lparr>ps_inboundAckOnly := ps_inboundAckOnly p1 + 1\<rparr>
      \<or> p' = p1\<lparr>ps_recvPackets := snd ?w\<rparr>
      \<or> deliverPayload packet now (p1\<lparr>ps_recvPackets := snd ?w\<rparr>\<lparr>ps_ackDirty := True,
            ps_ackDueAt := now + datagramAckCoalesceDelay\<rparr>) = (r, p')"
    using assms(2) Inr a
    by (auto simp: handleIncoming_def Let_def split: option.splits if_splits prod.splits)
  then show ?thesis
    using i1 iw ps_inv_frame(5) [OF iw] ps_inv_frame(9) [OF i1] deliverPayload_inv by metis
qed

section \<open>Reachable states\<close>

text \<open>One rule per call a session makes on its protocol state, with the caller's arguments free.\<close>

inductive ps_step :: "datagramProtocolState \<Rightarrow> datagramProtocolState \<Rightarrow> bool" where
  enqueue_reliable: "enqueueReliable l data now p = (r, p') \<Longrightarrow> ps_step p p'"
| enqueue_eventual: "enqueueEventualState t data now p = (r, p') \<Longrightarrow> ps_step p p'"
| send_unreliable: "newUnreliablePacketInto data dst p = (r, p') \<Longrightarrow> ps_step p p'"
| send_ack: "nextAckPacketInto now dst p = (r, p') \<Longrightarrow> ps_step p p'"
| send_reliable: "nextReliablePacketInto l now ar dst p = (r, p') \<Longrightarrow> ps_step p p'"
| send_eventual: "nextEventualStatePacketInto now dst p = (r, p') \<Longrightarrow> ps_step p p'"
| wake: "nextWakeTime now p = (w, p') \<Longrightarrow> ps_step p p'"
| receive: "handleIncoming ks now data p = (r, p') \<Longrightarrow> ps_step p p'"
| acks: "applyPeerAcks ks aseq am now p = (r, p') \<Longrightarrow> ps_step p p'"
| feedback: "drainEventualFeedback p = (fs, p') \<Longrightarrow> ps_step p p'"

inductive_cases ps_stepE: "ps_step p p'"

inductive ps_reachable :: "datagramProtocolState \<Rightarrow> bool" where
  init: "ps_reachable newDatagramProtocolState"
| step: "ps_reachable p \<Longrightarrow> ps_step p p' \<Longrightarrow> ps_reachable p'"

lemma ps_step_inv: "ps_step p p' \<Longrightarrow> ps_inv p \<Longrightarrow> ps_inv p'"
  by (induction rule: ps_step.induct) (auto intro: inv_intros dest: applyPeerAcks_inv)

lemma ps_reachable_inv: "ps_reachable p \<Longrightarrow> ps_inv p"
  by (induction rule: ps_reachable.induct) (auto intro: ps_inv_new ps_step_inv)

section \<open>Properties of reachable states\<close>

text \<open>
  In every reachable state the queues are bounded: at most 512 reliable messages per lane, 512
  queued and 257 in-flight eventual-state messages, and no message has been sent more than 8
  times.
\<close>

theorem reachable_bounds:
  assumes "ps_reachable p"
  shows "length (ps_pendingOrdered p) \<le> sendBufSize \<and> length (ps_pendingUnordered p) \<le> sendBufSize
    \<and> pendingEventualLen (ps_pendingEventual p) \<le> sendBufSize
    \<and> gm_len (ps_inFlightEventual p) \<le> Suc datagramEventualStatePendingLimit
    \<and> list_all (\<lambda>m. rm_attempts m \<le> datagramReliableRetryLimit) (ps_pendingOrdered p @ ps_pendingUnordered p)"
proof -
  have i: "ps_inv p" using assms by (rule ps_reachable_inv)
  then have "pendingEventualLen (ps_pendingEventual p) \<le> sendBufSize"
    by (auto simp: ps_inv_def eq_inv_def pendingEventualLen_def)
  with i show ?thesis by (auto simp: ps_inv_def rm_fits_def list_all_iff)
qed

theorem reachable_bounds_witness:
  "pendingEventualLen (ps_pendingEventual newDatagramProtocolState) \<le> sendBufSize"
  using reachable_bounds [OF ps_reachable.init] by simp

lemma newPacketInto_fits:
  assumes "l = datagramLaneReliableOrdered \<and> length (dp_payload k) \<le> maxReliableOrderedDatagramPayloadBytes
    \<or> l = datagramLaneReliableUnordered \<and> length (dp_payload k) \<le> maxReliableUnorderedDatagramPayloadBytes
    \<or> l = datagramLaneEventualState \<and> length (dp_payload k) \<le> maxEventualStateDatagramPayloadBytes"
    and "dp_lane k = l" and "dp_flags k = 0" and "ps_inv p"
  shows "\<exists>n. packetBaseLen (k\<lparr>dp_packetSeq := a, dp_ackSeq := b, dp_ackMask := sw_mask (ps_recvPackets p)\<rparr>) = Inr n"
    and "\<exists>bs. newPacketInto k dst p = (Inr bs, p\<lparr>ps_nextPacketSeq := ps_nextPacketSeq p + 1, ps_ackDirty := False\<rparr>)"
proof -
  show 1: "\<exists>n. packetBaseLen (k\<lparr>dp_packetSeq := a, dp_ackSeq := b, dp_ackMask := sw_mask (ps_recvPackets p)\<rparr>) = Inr n"
    for a b
    using assms(1-3)
    by (auto simp: packetBaseLen_def validateDatagramLane_def validateReliableDatagramMessageSize_def
        validateEventualStateDatagramPayloadSize_def Let_def)
  have "mask_wf (sw_mask (ps_recvPackets p))" using assms(4) by (simp add: ps_inv_def sw_wf_def)
  then show "\<exists>bs. newPacketInto k dst p = (Inr bs, p\<lparr>ps_nextPacketSeq := ps_nextPacketSeq p + 1, ps_ackDirty := False\<rparr>)"
    using 1 [where a = "ps_nextPacketSeq p" and b = "sw_latest (ps_recvPackets p)"]
      append_packet_bytes [of "k\<lparr>dp_packetSeq := ps_nextPacketSeq p, dp_ackSeq := sw_latest (ps_recvPackets p),
        dp_ackMask := sw_mask (ps_recvPackets p)\<rparr>" _ dst]
    by (auto simp: newPacketInto_def Let_def)
qed

definition reliableLane :: "datagramLane \<Rightarrow> bool" where
  "reliableLane l \<longleftrightarrow> l = datagramLaneReliableOrdered \<or> l = datagramLaneReliableUnordered"

text \<open>The packet the sender builds for a queued message.\<close>

definition messagePacket :: "datagramLane \<Rightarrow> reliableDatagramMessage \<Rightarrow> datagramPacket" where
  "messagePacket l m = zero_packet\<lparr>dp_lane := l, dp_messageID := rm_messageID m,
     dp_orderedSeq := rm_orderedSeq m, dp_payload := rm_payload m\<rparr>"

lemma messagePacket_fields [simp]:
  "dp_lane (messagePacket l m) = l" "dp_flags (messagePacket l m) = 0"
  "dp_payload (messagePacket l m) = rm_payload m" "dp_messageID (messagePacket l m) = rm_messageID m"
  "dp_orderedSeq (messagePacket l m) = rm_orderedSeq m"
  by (simp_all add: messagePacket_def zero_packet_def)

lemma nextReliable_send:
  assumes "ps_inv p" and "reliableLane l" and "scanReliable now ar 0 (pendingQueue l p) = Inr (Some i)"
  shows "\<exists>bs p1. newPacketInto (messagePacket l (pendingQueue l p ! i)) dst p = (Inr bs, p1)
    \<and> p1 = p\<lparr>ps_nextPacketSeq := ps_nextPacketSeq p + 1, ps_ackDirty := False\<rparr>
    \<and> nextReliablePacketInto l now ar dst p =
        (Inr (Some (bs, rm_inFlight (pendingQueue l p ! i))),
         setPendingQueue l ((pendingQueue l p)[i := markSent now (ps_nextPacketSeq p) (pendingQueue l p ! i)]) p1)"
proof -
  let ?m = "pendingQueue l p ! i"
  have i: "i < length (pendingQueue l p)" using scanReliable_pick [OF assms(3)] by simp
  have "l = datagramLaneReliableOrdered \<and> length (rm_payload ?m) \<le> maxReliableOrderedDatagramPayloadBytes
      \<or> l = datagramLaneReliableUnordered \<and> length (rm_payload ?m) \<le> maxReliableUnorderedDatagramPayloadBytes"
    using assms(1,2) i by (auto simp: reliableLane_def ps_inv_def pendingQueue_def list_all_length rm_fits_def)
  then obtain bs where bs: "newPacketInto (messagePacket l ?m) dst p
      = (Inr bs, p\<lparr>ps_nextPacketSeq := ps_nextPacketSeq p + 1, ps_ackDirty := False\<rparr>)"
    using newPacketInto_fits(2) [OF _ _ _ assms(1), of l "messagePacket l ?m" dst] by auto
  have last: "lastPacketSeq (p\<lparr>ps_nextPacketSeq := ps_nextPacketSeq p + 1, ps_ackDirty := False\<rparr>) = ps_nextPacketSeq p"
  proof (cases "ps_nextPacketSeq p + 1 = 0")
    case True
    then have "ps_nextPacketSeq p = - 1" by (metis add_eq_0_iff2)
    then show ?thesis by (simp add: lastPacketSeq_def)
  qed (simp add: lastPacketSeq_def)
  have "pendingQueue l (p\<lparr>ps_nextPacketSeq := ps_nextPacketSeq p + 1, ps_ackDirty := False\<rparr>) = pendingQueue l p"
    by (simp add: pendingQueue_def)
  then show ?thesis using bs last assms(3)
    by (simp add: nextReliablePacketInto_def messagePacket_def Let_def)
qed

text \<open>
  C10.  In a reachable state sending can fail in one way per lane only: a reliable lane reports a
  stall, the eventual-state lane reports a stall, and an acknowledgement never fails.  Nothing
  that was accepted for sending is ever refused by the packet encoder.
\<close>

theorem reachable_send_errors:
  assumes "ps_reachable p"
  shows "(reliableLane l \<and> fst (nextReliablePacketInto l now ar dst p) = Inl e \<longrightarrow> e = errReliableDatagramStalled)
    \<and> (fst (nextEventualStatePacketInto now dst p) = Inl e \<longrightarrow> e = errEventualStateDatagramStalled)
    \<and> fst (nextAckPacketInto now dst p) \<noteq> Inl e"
proof (intro conjI impI)
  have i: "ps_inv p" using assms by (rule ps_reachable_inv)
  show "e = errReliableDatagramStalled"
    if "reliableLane l \<and> fst (nextReliablePacketInto l now ar dst p) = Inl e"
  proof (cases "scanReliable now ar 0 (pendingQueue l p)")
    case (Inl e')
    then show ?thesis using that scanReliable_error [OF Inl] by (simp add: nextReliablePacketInto_def)
  next
    case (Inr x)
    then show ?thesis using that nextReliable_send [OF i, of l now ar _ dst]
      by (cases x) (fastforce simp: nextReliablePacketInto_def)+
  qed
  show "e = errEventualStateDatagramStalled"
    if "fst (nextEventualStatePacketInto now dst p) = Inl e"
  proof (cases "pendingEventualLen (ps_pendingEventual p) = 0")
    case True
    then show ?thesis using that
      by (auto simp: nextEventualStatePacketInto_def checkEventualStateExpiry_def Let_def split: if_splits)
  next
    case False
    obtain msg q where pop: "popPendingEventual (ps_pendingEventual p) = (msg, q)"
      by (cases "popPendingEventual (ps_pendingEventual p)")
    let ?k = "zero_packet\<lparr>dp_lane := datagramLaneEventualState, dp_stateToken := es_token msg,
        dp_payload := es_payload msg\<rparr>"
    obtain bs p1 where "newPacketInto ?k dst (p\<lparr>ps_pendingEventual := q\<rparr>) = (Inr bs, p1)"
      using newPacketInto_fits(2) [of datagramLaneEventualState ?k "p\<lparr>ps_pendingEventual := q\<rparr>" dst]
        popPendingEventual_inv [OF i False pop] by (auto simp: zero_packet_def)
    then show ?thesis using that False pop
      by (auto simp: nextEventualStatePacketInto_def Let_def split: if_splits)
  qed
  have "mask_wf (sw_mask (ps_recvPackets p))" using i by (simp add: ps_inv_def sw_wf_def)
  then have "\<exists>bs. newPacketInto (zero_packet\<lparr>dp_flags := datagramFlagAckOnly\<rparr>) dst p
      = (Inr bs, p\<lparr>ps_nextPacketSeq := ps_nextPacketSeq p + 1, ps_ackDirty := False\<rparr>)"
    using append_packet_bytes [of "zero_packet\<lparr>dp_flags := datagramFlagAckOnly, dp_packetSeq := ps_nextPacketSeq p,
        dp_ackSeq := sw_latest (ps_recvPackets p), dp_ackMask := sw_mask (ps_recvPackets p)\<rparr>" 21 dst]
    by (simp add: newPacketInto_def Let_def packetBaseLen_def datagramFlagAckOnly_def zero_packet_def)
  then show "fst (nextAckPacketInto now dst p) \<noteq> Inl e"
    by (auto simp: nextAckPacketInto_def split: if_splits)
qed

theorem reachable_send_errors_witness:
  "fst (nextAckPacketInto 5 [] newDatagramProtocolState) \<noteq> Inl errReliableDatagramStalled"
  using reachable_send_errors [OF ps_reachable.init, of datagramLaneReliableOrdered 5 True "[]"] by blast

end
