(* ===== verification/Datagram_EndToEnd.thy ===== *)
theory Datagram_EndToEnd
  imports Datagram_Invariant
begin

text \<open>
  Two endpoints of the datagram protocol: what the receiver hands to the application when a
  packet of the sender arrives, once or several times, and when the sender has to wake up.
\<close>

unbundle bit_operations_syntax

section \<open>From the sender's queue to the receiver's application\<close>

lemma decode_newPacket:
  assumes "ps_inv p" and "newPacketInto (messagePacket l m) dst p = (Inr bs, p1)"
  shows "decodeDatagramPacket bs = Inr (wire_view ((messagePacket l m)\<lparr>dp_packetSeq := ps_nextPacketSeq p,
     dp_ackSeq := sw_latest (ps_recvPackets p), dp_ackMask := sw_mask (ps_recvPackets p)\<rparr>))"
proof -
  let ?k = "(messagePacket l m)\<lparr>dp_packetSeq := ps_nextPacketSeq p,
     dp_ackSeq := sw_latest (ps_recvPackets p), dp_ackMask := sw_mask (ps_recvPackets p)\<rparr>"
  have wf: "mask_wf (dp_ackMask ?k)" using assms(1) by (simp add: ps_inv_def sw_wf_def)
  have a: "appendDatagramPacket dst ?k = Inr bs"
    using assms(2) by (auto simp: newPacketInto_def Let_def split: sum.splits)
  then obtain n where n: "packetBaseLen ?k = Inr n"
    by (cases "packetBaseLen ?k") (auto simp: appendDatagramPacket_def)
  then have "bs = packet_bytes ?k" using a append_packet_bytes [OF wf n, of dst] by simp
  then show ?thesis by (rule decode_packet_bytes [OF wf n])
qed

lemma handleIncoming_data:
  assumes "decodeDatagramPacket bs = Inr k" and "dp_flags k AND datagramFlagAckOnly = 0"
    and "handleIncoming ks now bs q = (Inr r, q')" and "ps_inv q"
  shows "\<exists>q1 c. ps_inv q1 \<and> ps_recvPackets q1 = ps_recvPackets q
      \<and> ps_orderedRecv q1 = ps_orderedRecv q \<and> ps_recvReliableMsgs q1 = ps_recvReliableMsgs q
      \<and> (Inr r, q') =
         (let q2 = q1\<lparr>ps_recvPackets := snd (sw_accept (ps_recvPackets q) (dp_packetSeq k))\<rparr>
          in if fst (sw_accept (ps_recvPackets q) (dp_packetSeq k))
             then deliverPayload k now (q2\<lparr>ps_ackDirty := True, ps_ackDueAt := now + datagramAckCoalesceDelay\<rparr>)
             else (Inr ([], c), q2))"
proof -
  let ?q = "q\<lparr>ps_inboundPackets := ps_inboundPackets q + 1\<rparr>"
  obtain c err q1 where a: "applyPeerAcks ks (dp_ackSeq k) (dp_ackMask k) now ?q = ((c, err), q1)"
    by (metis prod.exhaust)
  have i: "ps_inv q1 \<and> ps_recvPackets q1 = ps_recvPackets q \<and> ps_orderedRecv q1 = ps_orderedRecv q
      \<and> ps_recvReliableMsgs q1 = ps_recvReliableMsgs q"
    using applyPeerAcks_inv [OF ps_inv_frame(8) [OF assms(4)] a] by simp
  have "err = None" using assms(1,3) a by (cases err) (auto simp: handleIncoming_def Let_def)
  with i show ?thesis
    using assms(1-3) a
    by (intro exI [of _ q1] exI [of _ c])
      (auto simp: handleIncoming_def Let_def split: prod.splits if_splits)
qed

lemma deliverPayload_recvPackets:
  "deliverPayload k now q = (r, q') \<Longrightarrow> ps_recvPackets q' = ps_recvPackets q"
  by (auto simp: deliverPayload_def Let_def split: if_splits prod.splits)

text \<open>The window of an accepted packet remembers it, so that the header built from it acknowledges it.\<close>

lemma sw_accept_acks:
  assumes "sw_wf w" and "fst (sw_accept w seq)"
  shows "packetAckState seq (sw_latest (snd (sw_accept w seq))) (sw_mask (snd (sw_accept w seq))) = packetAckDelivered"
proof -
  have i: "sw_init (snd (sw_accept w seq))"
    using assms(2) by (auto simp: sw_accept_def Let_def split: if_splits)
  consider "\<not> sw_init w" | "sw_init w" "seqGreater seq (sw_latest w)"
    | "sw_init w" "seq \<noteq> sw_latest w" "\<not> seqGreater seq (sw_latest w)"
    using assms(2) by (cases "sw_init w"; cases "seq = sw_latest w"; cases "seqGreater seq (sw_latest w)")
      (simp_all add: sw_accept_def)
  then have "seq \<in> seen (snd (sw_accept w seq))"
  proof cases
    case 1
    then show ?thesis by (simp add: sw_accept_def seen_def acked_def)
  next
    case 2
    then show ?thesis using accept_newer [OF assms(1) 2] by simp
  next
    case 3
    then show ?thesis using accept_older(2) [OF assms(1) 3 assms(2)] by simp
  qed
  then show ?thesis using ack_state_spec [OF i] by blast
qed

lemma retry_delay_positive: "0 < reliableRetryDelay n"
proof -
  have "0 < d \<Longrightarrow> 0 < retryLoop k d" for k d
    by (induction k arbitrary: d) auto
  then show ?thesis by (simp add: reliableRetryDelay_def)
qed

lemma markSent_record:
  "rm_lastPacket (markSent now k m) = k \<and> rm_inFlight (markSent now k m)
   \<and> rm_attempts (markSent now k m) = rm_attempts m + 1 \<and> now < rm_nextSendAt (markSent now k m)
   \<and> rm_payload (markSent now k m) = rm_payload m \<and> rm_messageID (markSent now k m) = rm_messageID m
   \<and> rm_orderedSeq (markSent now k m) = rm_orderedSeq m"
  by (simp add: markSent_def retry_delay_positive)

lemma or_accept_next:
  "seq = or_nextSeq o1 \<Longrightarrow> \<exists>rest. fst (or_accept o1 seq d now) = d # rest"
  "seqGreater seq (or_nextSeq o1) \<Longrightarrow> map_of (or_pending o1) seq = None \<Longrightarrow>
     fst (or_accept o1 seq d now) = [] \<and> map_of (or_pending (snd (or_accept o1 seq d now))) seq = Some d"
  by (auto simp: or_accept_def seqGreater_def split: prod.splits)

text \<open>
  C3.  A reliable message reaches the peer's application
  intact.  A packet a reachable sender emits on a reliable lane carries one of its queued
  messages, and only that queue entry changes: it is in flight with one more attempt, a later
  deadline, and the number of the very packet.  If the receiver has not seen the packet, then
  the acknowledgement its window will send covers the number the sender has recorded; on the
  unordered lane a new message is handed over as exactly the queued payload; on the ordered
  lane the next expected message is handed over first, again as exactly the queued payload, and
  an early one is buffered under its number.
\<close>

theorem reliable_end_to_end:
  assumes "ps_reachable p" and "ps_reachable q" and "reliableLane l"
    and "nextReliablePacketInto l now ar dst p = (Inr (Some (bs, resend)), p')"
    and "handleIncoming ks now' bs q = (Inr (ds, changed), q')"
  shows "\<exists>i < length (pendingQueue l p). \<exists>m m'. m = pendingQueue l p ! i
    \<and> pendingQueue l p' = (pendingQueue l p)[i := m']
    \<and> rm_lastPacket m' = ps_nextPacketSeq p \<and> rm_inFlight m' \<and> rm_attempts m' = rm_attempts m + 1
    \<and> now < rm_nextSendAt m' \<and> rm_payload m' = rm_payload m \<and> rm_messageID m' = rm_messageID m
    \<and> rm_orderedSeq m' = rm_orderedSeq m
    \<and> (fst (sw_accept (ps_recvPackets q) (ps_nextPacketSeq p)) \<longrightarrow>
        packetAckState (rm_lastPacket m') (sw_latest (ps_recvPackets q')) (sw_mask (ps_recvPackets q')) = packetAckDelivered
        \<and> (l = datagramLaneReliableUnordered \<and> fst (sw_accept (ps_recvReliableMsgs q) (rm_messageID m)) \<longrightarrow>
             ds = [\<lparr>dd_lane = l, dd_data = rm_payload m\<rparr>])
        \<and> (l = datagramLaneReliableOrdered \<longrightarrow>
             (\<forall>d \<in> set ds. dd_lane d = l)
             \<and> map dd_data ds = fst (or_accept (ps_orderedRecv q) (rm_orderedSeq m) (rm_payload m) now')
             \<and> (rm_orderedSeq m = or_nextSeq (ps_orderedRecv q) \<longrightarrow> (\<exists>rest. map dd_data ds = rm_payload m # rest))
             \<and> (seqGreater (rm_orderedSeq m) (or_nextSeq (ps_orderedRecv q))
                  \<and> map_of (or_pending (ps_orderedRecv q)) (rm_orderedSeq m) = None \<longrightarrow>
                ds = [] \<and> map_of (or_pending (ps_orderedRecv q')) (rm_orderedSeq m) = Some (rm_payload m))))"
proof -
  have ip: "ps_inv p" and iq: "ps_inv q" using assms(1,2) by (auto dest: ps_reachable_inv)
  obtain i where scan: "scanReliable now ar 0 (pendingQueue l p) = Inr (Some i)"
    using assms(4) by (auto simp: nextReliablePacketInto_def split: sum.splits option.splits)
  have i: "i < length (pendingQueue l p)" using scanReliable_pick [OF scan] by simp
  let ?m = "pendingQueue l p ! i"
  obtain p1 where np: "newPacketInto (messagePacket l ?m) dst p = (Inr bs, p1)"
    and p': "p' = setPendingQueue l ((pendingQueue l p)[i := markSent now (ps_nextPacketSeq p) ?m]) p1"
    using nextReliable_send [OF ip assms(3) scan, of dst] assms(4) by auto
  let ?k = "wire_view ((messagePacket l ?m)\<lparr>dp_packetSeq := ps_nextPacketSeq p,
     dp_ackSeq := sw_latest (ps_recvPackets p), dp_ackMask := sw_mask (ps_recvPackets p)\<rparr>)"
  have dec: "decodeDatagramPacket bs = Inr ?k" by (rule decode_newPacket [OF ip np])
  have k: "dp_flags ?k AND datagramFlagAckOnly = 0" "dp_lane ?k = l" "dp_payload ?k = rm_payload ?m"
    "dp_messageID ?k = rm_messageID ?m" "dp_packetSeq ?k = ps_nextPacketSeq p"
    "l = datagramLaneReliableOrdered \<longrightarrow> dp_orderedSeq ?k = rm_orderedSeq ?m"
    using assms(3) by (auto simp: wire_view_def reliableLane_def)
  have sent: "pendingQueue l p' = (pendingQueue l p)[i := markSent now (ps_nextPacketSeq p) ?m]"
    using p' by (simp add: setPendingQueue_def pendingQueue_def)
  obtain q1 c where q1: "ps_orderedRecv q1 = ps_orderedRecv q" "ps_recvReliableMsgs q1 = ps_recvReliableMsgs q"
    and step: "fst (sw_accept (ps_recvPackets q) (ps_nextPacketSeq p)) \<Longrightarrow> (Inr (ds, changed), q') =
      deliverPayload ?k now' (q1\<lparr>ps_recvPackets := snd (sw_accept (ps_recvPackets q) (ps_nextPacketSeq p)),
        ps_ackDirty := True, ps_ackDueAt := now' + datagramAckCoalesceDelay\<rparr>)"
    using handleIncoming_data [OF dec k(1) assms(5) iq] k(5) by (auto simp: Let_def)
  have "packetAckState (ps_nextPacketSeq p) (sw_latest (ps_recvPackets q')) (sw_mask (ps_recvPackets q')) = packetAckDelivered
      \<and> (l = datagramLaneReliableUnordered \<and> fst (sw_accept (ps_recvReliableMsgs q) (rm_messageID ?m)) \<longrightarrow>
           ds = [\<lparr>dd_lane = l, dd_data = rm_payload ?m\<rparr>])
      \<and> (l = datagramLaneReliableOrdered \<longrightarrow> (\<forall>d \<in> set ds. dd_lane d = l)
           \<and> map dd_data ds = fst (or_accept (ps_orderedRecv q) (rm_orderedSeq ?m) (rm_payload ?m) now')
           \<and> ps_orderedRecv q' = snd (or_accept (ps_orderedRecv q) (rm_orderedSeq ?m) (rm_payload ?m) now'))"
    if acc: "fst (sw_accept (ps_recvPackets q) (ps_nextPacketSeq p))"
  proof -
    have w: "ps_recvPackets q' = snd (sw_accept (ps_recvPackets q) (ps_nextPacketSeq p))"
      using deliverPayload_recvPackets [OF step [OF acc, symmetric]] by simp
    have "sw_wf (ps_recvPackets q)" using iq by (simp add: ps_inv_def)
    from sw_accept_acks [OF this acc] show ?thesis
      using step [OF acc] k q1 w by (auto simp: deliverPayload_def Let_def comp_def split: prod.splits)
  qed
  then show ?thesis
    using i sent markSent_record [of now "ps_nextPacketSeq p" ?m]
      or_accept_next [of "rm_orderedSeq ?m" "ps_orderedRecv q" "rm_payload ?m" now']
    by (intro exI [of _ i] conjI exI [of _ ?m] exI [of _ "markSent now (ps_nextPacketSeq p) ?m"]) auto
qed

text \<open>A sender with one queued message, the packet it emits, and a fresh receiver.\<close>

definition demo_sender :: datagramProtocolState where
  "demo_sender = snd (enqueueReliable datagramLaneReliableUnordered [7] 1 newDatagramProtocolState)"

lemma demo_reachable: "ps_reachable demo_sender"
  unfolding demo_sender_def
  by (rule ps_reachable.step [OF ps_reachable.init])
    (rule ps_step.enqueue_reliable [OF surjective_pairing])

lemma demo_message:
  "pendingQueue datagramLaneReliableUnordered demo_sender =
     [\<lparr>rm_lane = datagramLaneReliableUnordered, rm_messageID = 0, rm_orderedSeq = 0, rm_payload = [7],
       rm_queuedAt = 1, rm_lastSentAt = 0, rm_nextSendAt = 1, rm_lastPacket = 0, rm_attempts = 0,
       rm_inFlight = False\<rparr>]"
  "ps_nextPacketSeq demo_sender = 0" "ps_recvPackets demo_sender = sw_new"
  by (simp_all add: demo_sender_def enqueueReliable_def newDatagramProtocolState_def pendingQueue_def
      setPendingQueue_def validateReliableDatagramMessageSize_def validateDatagramLane_def Let_def)

lemma demo_send:
  "\<exists>bs p'. nextReliablePacketInto datagramLaneReliableUnordered 1 True [] demo_sender = (Inr (Some (bs, False)), p')
     \<and> (\<exists>ds c q'. handleIncoming [] 2 bs newDatagramProtocolState = (Inr (ds, c), q'))"
proof -
  have scan: "scanReliable 1 True 0 (pendingQueue datagramLaneReliableUnordered demo_sender) = Inr (Some 0)"
    by (simp add: demo_message rm_expired_def timeSub_def maxDuration_def minDuration_def)
  note inv = ps_reachable_inv [OF demo_reachable]
  obtain bs p1 where np: "newPacketInto (messagePacket datagramLaneReliableUnordered
        (pendingQueue datagramLaneReliableUnordered demo_sender ! 0)) [] demo_sender = (Inr bs, p1)"
    and sent: "\<exists>p'. nextReliablePacketInto datagramLaneReliableUnordered 1 True [] demo_sender = (Inr (Some (bs, False)), p')"
    using nextReliable_send [OF inv _ scan, of "[]"] by (auto simp: demo_message reliableLane_def)
  have "\<exists>ds c q'. handleIncoming [] 2 bs newDatagramProtocolState = (Inr (ds, c), q')"
    by (simp add: handleIncoming_def decode_newPacket [OF inv np] Let_def applyPeerAcks_def
        newDatagramProtocolState_def sw_new_def pruneAckedMessages_def pruneReliableQueue_def
        pruneEventualState_def wire_view_def sw_accept_def deliverPayload_def) blast
  with sent show ?thesis by blast
qed

theorem reliable_end_to_end_witness:
  "\<exists>bs p' c q'. nextReliablePacketInto datagramLaneReliableUnordered 1 True [] demo_sender = (Inr (Some (bs, False)), p')
     \<and> handleIncoming [] 2 bs newDatagramProtocolState
         = (Inr ([\<lparr>dd_lane = datagramLaneReliableUnordered, dd_data = [7]\<rparr>], c), q')"
proof -
  obtain bs p' ds c q' where s: "nextReliablePacketInto datagramLaneReliableUnordered 1 True [] demo_sender
        = (Inr (Some (bs, False)), p')"
    and h: "handleIncoming [] 2 bs newDatagramProtocolState = (Inr (ds, c), q')"
    using demo_send by blast
  have "fst (sw_accept (ps_recvPackets newDatagramProtocolState) k)"
    "fst (sw_accept (ps_recvReliableMsgs newDatagramProtocolState) k)" for k
    by (simp_all add: sw_accept_def newDatagramProtocolState_def sw_new_def)
  with reliable_end_to_end [OF demo_reachable ps_reachable.init _ s h]
  have "ds = [\<lparr>dd_lane = datagramLaneReliableUnordered, dd_data = [7]\<rparr>]"
    by (auto simp: reliableLane_def demo_message)
  with s h show ?thesis by blast
qed

lemma handleIncoming_ackOnly:
  assumes "decodeDatagramPacket bs = Inr k" and "dp_flags k AND datagramFlagAckOnly \<noteq> 0"
    and "handleIncoming ks now bs q = (Inr (ds, c), q')" and "ps_inv q"
  shows "ds = [] \<and> ps_recvPackets q' = ps_recvPackets q \<and> ps_orderedRecv q' = ps_orderedRecv q
    \<and> ps_recvReliableMsgs q' = ps_recvReliableMsgs q"
proof -
  let ?q = "q\<lparr>ps_inboundPackets := ps_inboundPackets q + 1\<rparr>"
  obtain a err q1 where a: "applyPeerAcks ks (dp_ackSeq k) (dp_ackMask k) now ?q = ((a, err), q1)"
    by (metis prod.exhaust)
  from applyPeerAcks_inv [OF ps_inv_frame(8) [OF assms(4)] a] show ?thesis
    using assms(1-3) a by (cases err) (auto simp: handleIncoming_def Let_def)
qed

lemma sw_accept_refused: "\<not> fst (sw_accept w s) \<Longrightarrow> snd (sw_accept w s) = w"
  by (auto simp: sw_accept_def Let_def split: if_splits)

text \<open>
  A duplicated datagram has no effect on the application: when a packet that was processed
  arrives again, nothing is delivered and the receiving state of all lanes stays as it was.
\<close>

theorem duplicate_datagram_ignored:
  assumes "ps_reachable q" and "handleIncoming ks now bs q = (Inr (ds, c), q1)"
    and "handleIncoming ks' now' bs q1 = (Inr (ds', c'), q2)"
  shows "ds' = [] \<and> ps_recvPackets q2 = ps_recvPackets q1 \<and> ps_orderedRecv q2 = ps_orderedRecv q1
    \<and> ps_recvReliableMsgs q2 = ps_recvReliableMsgs q1"
proof -
  have iq: "ps_inv q" using assms(1) by (rule ps_reachable_inv)
  have i1: "ps_inv q1" using handleIncoming_inv [OF iq assms(2)] .
  obtain k where k: "decodeDatagramPacket bs = Inr k"
    using assms(2) by (auto simp: handleIncoming_def split: sum.splits)
  show ?thesis
  proof (cases "dp_flags k AND datagramFlagAckOnly = 0")
    case False
    then show ?thesis using handleIncoming_ackOnly [OF k _ assms(3) i1] by simp
  next
    case True
    let ?w = "sw_accept (ps_recvPackets q) (dp_packetSeq k)"
    have "sw_wf (ps_recvPackets q)" using iq by (simp add: ps_inv_def)
    then have again: "\<not> fst (sw_accept (snd ?w) (dp_packetSeq k))" by (rule sw_accept_again)
    have "ps_recvPackets q1 = snd ?w"
      using handleIncoming_data [OF k True assms(2) iq]
      by (auto simp: Let_def split: if_splits dest: deliverPayload_recvPackets [OF sym])
    then show ?thesis
      using handleIncoming_data [OF k True assms(3) i1] again sw_accept_refused [OF again]
      by (auto simp: Let_def)
  qed
qed

theorem duplicate_datagram_ignored_witness:
  "\<exists>bs ds c q1 c' q2. handleIncoming [] 2 bs newDatagramProtocolState = (Inr (ds, c), q1)
     \<and> handleIncoming [] 3 bs q1 = (Inr ([], c'), q2)"
proof -
  let ?bs = "replicate 21 (0 :: byte) @ [1, 5]"
  have "?bs ! 20 = 0" "?bs ! 21 = 1" by (simp_all add: nth_append)
  then obtain k where k: "decodeDatagramPacket ?bs = Inr k" "dp_flags k = 0" "dp_lane k = 1"
    by (simp add: decodeDatagramPacket_def zero_packet_def validateDatagramLane_def
        lane_defs validateUnreliableDatagramPayloadSize_def Let_def)
  then obtain ds c q1 where h1: "handleIncoming [] 2 ?bs newDatagramProtocolState = (Inr (ds, c), q1)"
    and q1: "ps_pendingOrdered q1 = [] \<and> ps_pendingUnordered q1 = [] \<and> ps_inFlightEventual q1 = []"
    by (simp add: handleIncoming_def Let_def applyPeerAcks_def
        newDatagramProtocolState_def sw_new_def pruneAckedMessages_def pruneReliableQueue_def
        pruneEventualState_def sw_accept_def deliverPayload_def lane_defs)
  have "\<exists>ds' c' q2. handleIncoming [] 3 ?bs q1 = (Inr (ds', c'), q2)"
    using k q1 by (auto simp: handleIncoming_def Let_def applyPeerAcks_def pruneAckedMessages_def
        pruneReliableQueue_def pruneEventualState_def deliverPayload_def lane_defs split: prod.splits)
  then obtain ds' c' q2 where h2: "handleIncoming [] 3 ?bs q1 = (Inr (ds', c'), q2)" by blast
  with duplicate_datagram_ignored [OF ps_reachable.init h1 h2] h1 show ?thesis by blast
qed

section \<open>Waking up\<close>

lemma addWake_Some: "\<exists>w. addWake now t wake = Some w \<and> w \<le> (if t = 0 then now else t)
    \<and> (\<forall>v. wake = Some v \<longrightarrow> w \<le> v)"
  by (auto simp: addWake_def Let_def split: option.splits)

text \<open>\<open>wakes_by w t\<close>: the wake-up time \<open>w\<close> is set and not later than \<open>t\<close>.\<close>

definition wakes_by :: "time option \<Rightarrow> time \<Rightarrow> bool" where
  "wakes_by wake t \<longleftrightarrow> (\<exists>w. wake = Some w \<and> w \<le> t)"

lemma addWake_keeps: "wakes_by wake t \<Longrightarrow> wakes_by (addWake now u wake) t"
  using addWake_Some [of now u wake] by (fastforce simp: wakes_by_def)

lemma addWake_by: "wakes_by (addWake now t wake) (if t = 0 then now else t)"
  using addWake_Some [of now t wake] by (auto simp: wakes_by_def)

lemma addReliableWake_keeps: "wakes_by wake t \<Longrightarrow> wakes_by (addReliableWake now m wake) t"
  by (simp add: addReliableWake_def Let_def addWake_keeps)

lemma fold_addReliableWake_keeps: "wakes_by wake t \<Longrightarrow> wakes_by (fold (addReliableWake now) ms wake) t"
  by (induction ms arbitrary: wake) (auto intro: addReliableWake_keeps)

text \<open>When a queued reliable message next needs attention.\<close>

definition rm_due :: "time \<Rightarrow> reliableDatagramMessage \<Rightarrow> time" where
  "rm_due now m =
     (if rm_inFlight m \<and> rm_attempts m < datagramReliableRetryLimit \<and> rm_nextSendAt m > now \<and> rm_nextSendAt m \<noteq> 0
      then rm_nextSendAt m else now)"

text \<open>\<^verbatim>\<open>add\<close> reads the zero time as now.\<close>

definition orNow :: "time \<Rightarrow> time \<Rightarrow> time" where
  "orNow now t = (if t = 0 then now else t)"

text \<open>When a queued reliable message is given up.\<close>

definition rm_expiry :: "time \<Rightarrow> reliableDatagramMessage \<Rightarrow> time" where
  "rm_expiry now m = orNow now (rm_queuedAt m + datagramReliableMessageTTL)"

text \<open>The expiry of the oldest eventual state in flight, computed when it is not recorded.\<close>

definition eventualDeadline :: "datagramProtocolState \<Rightarrow> time" where
  "eventualDeadline p =
     (if ps_eventualExpiry p = 0 \<and> ps_inFlightEventual p \<noteq> []
      then earliestExpiry (map snd (ps_inFlightEventual p)) else ps_eventualExpiry p)"

lemma addReliableWake_by:
  "wakes_by (addReliableWake now m wake) (rm_due now m) \<and> wakes_by (addReliableWake now m wake) (rm_expiry now m)"
  using addWake_by [of now now] addWake_by [of now "rm_nextSendAt m"]
    addWake_by [of now "rm_queuedAt m + datagramReliableMessageTTL"]
  by (auto simp: addReliableWake_def rm_due_def rm_expiry_def orNow_def Let_def addWake_keeps split: if_splits)

lemma fold_addReliableWake_by:
  "m \<in> set ms \<Longrightarrow> wakes_by (fold (addReliableWake now) ms wake) (rm_due now m)
     \<and> wakes_by (fold (addReliableWake now) ms wake) (rm_expiry now m)"
proof (induction ms arbitrary: wake)
  case (Cons a ms)
  then show ?case using addReliableWake_by [of now a wake] by (auto intro: fold_addReliableWake_keeps)
qed simp

text \<open>
  The scheduler never oversleeps.  When an acknowledgement is owed, the wake-up time is at most
  its due time (or now); for every queued reliable message it is at most the time the message
  can be sent or retried and at most the time it expires; with queued eventual state it is at
  most now; and it is at most the eventual-state expiry and the expiry of an open gap on the
  ordered lane.
\<close>

theorem wake_no_missed_deadline:
  "(ps_ackDirty p \<longrightarrow> wakes_by (fst (nextWakeTime now p)) (max now (ps_ackDueAt p)))
   \<and> (m \<in> set (ps_pendingOrdered p @ ps_pendingUnordered p) \<longrightarrow> wakes_by (fst (nextWakeTime now p)) (rm_due now m)
        \<and> wakes_by (fst (nextWakeTime now p)) (rm_expiry now m))
   \<and> (pendingEventualLen (ps_pendingEventual p) > 0 \<longrightarrow> wakes_by (fst (nextWakeTime now p)) now)
   \<and> (eventualDeadline p \<noteq> 0 \<longrightarrow> wakes_by (fst (nextWakeTime now p)) (eventualDeadline p))
   \<and> (or_gapSince (ps_orderedRecv p) \<noteq> 0 \<longrightarrow>
        wakes_by (fst (nextWakeTime now p)) (orNow now (or_gapSince (ps_orderedRecv p) + datagramReliableOrderedGapTimeout)))"
proof -
  have by_now: "wakes_by (addWake now now w) now" for w using addWake_by [of now now w] by simp
  have by_t: "t \<noteq> 0 \<Longrightarrow> wakes_by (addWake now t w) t" for t w using addWake_by [of now t w] by simp
  have mono: "wakes_by w t \<Longrightarrow> t \<le> u \<Longrightarrow> wakes_by w u" for w t u by (auto simp: wakes_by_def)
  have [simp]: "ps_orderedRecv (recomputeEventualExpiry p) = ps_orderedRecv p"
    "ps_eventualExpiry (recomputeEventualExpiry p) = earliestExpiry (map snd (ps_inFlightEventual p))"
    by (simp_all add: recomputeEventualExpiry_def)
  note keeps = addWake_keeps fold_addReliableWake_keeps
  note wake = nextWakeTime_def Let_def
  have "wakes_by (fst (nextWakeTime now p)) (max now (ps_ackDueAt p))" if "ps_ackDirty p"
  proof (cases "ps_ackDueAt p = 0 \<or> \<not> ps_ackDueAt p > now")
    case True
    then have "wakes_by (fst (nextWakeTime now p)) now"
      using that by (auto simp: wake keeps by_now)
    then show ?thesis by (rule mono) simp
  next
    case False
    then have "wakes_by (fst (nextWakeTime now p)) (ps_ackDueAt p)"
      using that by (auto simp: wake keeps by_t)
    then show ?thesis by (rule mono) simp
  qed
  moreover have "wakes_by (fst (nextWakeTime now p)) (rm_due now m) \<and> wakes_by (fst (nextWakeTime now p)) (rm_expiry now m)"
    if "m \<in> set (ps_pendingOrdered p @ ps_pendingUnordered p)"
    using that by (auto simp: wake keeps fold_addReliableWake_by)
  moreover have "wakes_by (fst (nextWakeTime now p)) now" if "pendingEventualLen (ps_pendingEventual p) > 0"
    using that by (auto simp: wake keeps by_now)
  moreover have "wakes_by (fst (nextWakeTime now p)) (eventualDeadline p)" if "eventualDeadline p \<noteq> 0"
    using that by (auto simp: wake eventualDeadline_def gm_len_def keeps by_t split: if_splits)
  moreover have "wakes_by (fst (nextWakeTime now p)) (orNow now (or_gapSince (ps_orderedRecv p) + datagramReliableOrderedGapTimeout))"
    if "or_gapSince (ps_orderedRecv p) \<noteq> 0"
    using that addWake_by [of now "or_gapSince (ps_orderedRecv p) + datagramReliableOrderedGapTimeout"]
    by (auto simp: wake orNow_def)
  ultimately show ?thesis by blast
qed

theorem wake_no_missed_deadline_witness:
  "wakes_by (fst (nextWakeTime 5 demo_sender)) 5"
  using wake_no_missed_deadline [of demo_sender 5 "pendingQueue datagramLaneReliableUnordered demo_sender ! 0"]
  by (simp add: demo_message rm_due_def rm_expiry_def orNow_def) (simp add: demo_message [unfolded pendingQueue_def, simplified])

section \<open>Two ways to lose a reliable message\<close>

text \<open>
  A refused ordered message still consumes its sequence number: when the ordered queue is full
  \<open>enqueueReliable\<close> reports the overflow and leaves the queue alone, but the next message will
  carry the following number, so that the receiver is left with a gap no retransmission fills.
\<close>

theorem overflow_burns_sequence:
  assumes "length (ps_pendingOrdered p) \<ge> sendBufSize"
    and "length data \<le> maxReliableOrderedDatagramPayloadBytes"
  shows "\<exists>p'. enqueueReliable datagramLaneReliableOrdered data now p
      = (Some (errSendBufferOverflow datagramLaneReliableOrdered), p')
    \<and> ps_pendingOrdered p' = ps_pendingOrdered p \<and> ps_nextOrderedSeq p' = ps_nextOrderedSeq p + 1"
  using assms
  by (simp add: enqueueReliable_def validateReliableDatagramMessageSize_def validateDatagramLane_def
      pendingQueue_def Let_def)

theorem overflow_burns_sequence_witness:
  "\<exists>p'. enqueueReliable datagramLaneReliableOrdered [] 0
        (newDatagramProtocolState\<lparr>ps_pendingOrdered := replicate 512
           \<lparr>rm_lane = 3, rm_messageID = 0, rm_orderedSeq = 0, rm_payload = [], rm_queuedAt = 0,
            rm_lastSentAt = 0, rm_nextSendAt = 0, rm_lastPacket = 0, rm_attempts = 0, rm_inFlight = False\<rparr>\<rparr>)
      = (Some (errSendBufferOverflow datagramLaneReliableOrdered), p') \<and> ps_nextOrderedSeq p' = 1"
  using overflow_burns_sequence [of "newDatagramProtocolState\<lparr>ps_pendingOrdered := replicate 512
           \<lparr>rm_lane = 3, rm_messageID = 0, rm_orderedSeq = 0, rm_payload = [], rm_queuedAt = 0,
            rm_lastSentAt = 0, rm_nextSendAt = 0, rm_lastPacket = 0, rm_attempts = 0, rm_inFlight = False\<rparr>\<rparr>" "[]" 0]
  by (auto simp: newDatagramProtocolState_def)

text \<open>
  The duplicate filter of the unordered lane also drops messages it has never seen: once a
  message numbered 130 has arrived, a late first arrival of message 0 is refused, because the
  window reaches back 128 numbers only.  The packet itself is acknowledged, so the sender
  considers the message delivered.  The sender may have up to 512 messages outstanding per
  lane, and ordered messages draw from the same numbers.
\<close>

theorem late_unordered_message_dropped:
  "case deliverPayload (zero_packet\<lparr>dp_lane := datagramLaneReliableUnordered, dp_messageID := 130\<rparr>) now
          newDatagramProtocolState of
     (r, q) \<Rightarrow> fst (deliverPayload (zero_packet\<lparr>dp_lane := datagramLaneReliableUnordered,
                     dp_messageID := 0, dp_payload := data\<rparr>) now' q) = Inr ([], True)
       \<and> 0 \<notin> seen (ps_recvReliableMsgs q)"
  by (simp add: deliverPayload_def newDatagramProtocolState_def sw_accept_def sw_new_def seen_def
      acked_def seqGreater_def seqDistance_def Let_def)

end
