(* ===== verification/Client_Datagram.thy ===== *)
theory Client_Datagram
  imports Client_Framing Datagram_EndToEnd
begin

text \<open>
  The Go client's own implementation of the datagram protocol
  (\<^verbatim>\<open>golem-go-client/webtransport.go\<close>): the duplicate window, the packet codec, the
  endpoint \<^verbatim>\<open>datagramProtocol\<close> and the acknowledgement header it puts in front of stream
  messages.  The client does not share the server's code, so the theory proves that the two
  agree on the wire: the codecs accept and produce the same bytes, the windows remember the
  same numbers, and a message handed to one endpoint comes out of the other.

  The endpoint is used by three goroutines; every operation below is composed of the critical
  sections of \<^verbatim>\<open>p.mu\<close>, and what it does outside them (encoding, writing, handing over)
  does not touch the state.
\<close>

unbundle bit_operations_syntax

section \<open>The duplicate window\<close>

definition cl_setBit :: "ackMask128 \<Rightarrow> int \<Rightarrow> ackMask128" where
  "cl_setBit m b =
     (if b < 0 \<or> b \<ge> int datagramPacketAckWindow then m
      else m[nat b div 32 := m ! (nat b div 32) OR push_bit (nat b mod 32) 1])"

text \<open>\<open>m[bit/32] & (uint32(1) << uint(bit%32)) != 0\<close>, the test both readers of a mask write out.\<close>

definition cl_testBit :: "ackMask128 \<Rightarrow> int \<Rightarrow> bool" where
  "cl_testBit m b \<longleftrightarrow> m ! (nat b div 32) AND push_bit (nat b mod 32) 1 \<noteq> 0"

definition cl_shiftLeft :: "ackMask128 \<Rightarrow> int \<Rightarrow> ackMask128" where
  "cl_shiftLeft m bits =
     (if bits \<le> 0 then m
      else if bits \<ge> int datagramPacketAckWindow then mask_zero
      else let wordShift = nat bits div 32; bitShift = nat bits mod 32
           in fold (\<lambda>i shifted.
                let src = int i - int wordShift
                in if src < 0 then shifted
                   else let shifted = shifted[i := push_bit bitShift (m ! nat src)]
                        in if bitShift > 0 \<and> src > 0
                           then shifted[i := shifted ! i OR drop_bit (32 - bitShift) (m ! nat (src - 1))]
                           else shifted)
                (rev [0..<datagramAckMaskWordCount]) mask_zero)"

definition sequenceNewer :: "u16 \<Rightarrow> u16 \<Rightarrow> bool" where
  "sequenceNewer a b \<longleftrightarrow> a \<noteq> b \<and> a - b < 0x8000"

definition sequenceDistance :: "u16 \<Rightarrow> u16 \<Rightarrow> int" where
  "sequenceDistance older newer = int (unat (newer - older))"

definition cl_accept :: "sequenceWindow \<Rightarrow> u16 \<Rightarrow> bool \<times> sequenceWindow" where
  "cl_accept w seq =
     (if \<not> sw_init w then (True, w\<lparr>sw_init := True, sw_latest := seq\<rparr>)
      else if seq = sw_latest w then (False, w)
      else if sequenceNewer seq (sw_latest w)
        then let diff = sequenceDistance (sw_latest w) seq
             in (True, w\<lparr>sw_mask := cl_setBit (cl_shiftLeft (sw_mask w) diff) (diff - 1), sw_latest := seq\<rparr>)
      else let diff = sequenceDistance seq (sw_latest w)
           in if diff = 0 \<or> diff > int datagramPacketAckWindow then (False, w)
              else if cl_testBit (sw_mask w) (diff - 1) then (False, w)
              else (True, w\<lparr>sw_mask := cl_setBit (sw_mask w) (diff - 1)\<rparr>))"

section \<open>The packet codec\<close>

text \<open>
  \<^verbatim>\<open>datagramPacket\<close> has the fields of the server's struct and is the same record here.
  \<open>errCdWrite\<close> is an error of the session's \<^verbatim>\<open>SendDatagram\<close>.
\<close>

datatype cdError =
    errCdUnknownLane datagramLane
  | errCdSize nat
  | errCdPacketTooSmall
  | errCdLaneMissing
  | errCdMessageIDMissing
  | errCdOrderedHeaderMissing
  | errCdTokenMissing
  | errCdGapExpired
  | errCdStalled
  | errCdWrite nat

definition cl_validateDatagramSize :: "bytes \<Rightarrow> cdError option" where
  "cl_validateDatagramSize data =
     (if length data > maxWebTransportDatagramBytes then Some (errCdSize (length data)) else None)"

definition cl_knownLane :: "datagramLane \<Rightarrow> bool" where
  "cl_knownLane l \<longleftrightarrow> l = datagramLaneUnreliable \<or> l = datagramLaneReliableUnordered
     \<or> l = datagramLaneReliableOrdered \<or> l = datagramLaneEventualState"

definition cl_encode :: "datagramPacket \<Rightarrow> cdError + bytes" where
  "cl_encode packet =
     (let ackOnly = dp_flags packet AND datagramFlagAckOnly \<noteq> 0
      in if \<not> ackOnly \<and> \<not> cl_knownLane (dp_lane packet) then Inl (errCdUnknownLane (dp_lane packet))
         else
           let baseLen = datagramPacketHeaderBytes;
               baseLen = (if ackOnly then baseLen
                 else baseLen + datagramLaneHeaderBytes + length (dp_payload packet)
                   + (if dp_lane packet = datagramLaneReliableUnordered then datagramReliableMessageIDBytes
                      else if dp_lane packet = datagramLaneReliableOrdered
                      then datagramReliableMessageIDBytes + datagramReliableOrderedSequenceBytes
                      else if dp_lane packet = datagramLaneEventualState then datagramEventualStateTokenBytes
                      else 0));
               out = replicate baseLen 0;
               out = write_at out 0 (put_be16 (dp_packetSeq packet));
               out = write_at out 2 (put_be16 (dp_ackSeq packet));
               out = fold (\<lambda>i out. write_at out (4 + i * 4) (put_be32 (dp_ackMask packet ! i)))
                       [0..<datagramAckMaskWordCount] out;
               out = write_at out (datagramPacketHeaderBytes - 1) [dp_flags packet];
               sized = (\<lambda>out. case cl_validateDatagramSize out of Some e \<Rightarrow> Inl e | None \<Rightarrow> Inr out)
           in if ackOnly then sized out
              else
                let offset = datagramPacketHeaderBytes;
                    out = write_at out offset [dp_lane packet];
                    offset = offset + 1
                in if dp_lane packet = datagramLaneReliableUnordered
                   then sized (write_at (write_at out offset (put_be16 (dp_messageID packet)))
                          (offset + 2) (dp_payload packet))
                   else if dp_lane packet = datagramLaneReliableOrdered
                   then sized (write_at (write_at (write_at out offset (put_be16 (dp_messageID packet)))
                          (offset + 2) (put_be16 (dp_orderedSeq packet))) (offset + 2 + 2) (dp_payload packet))
                   else if dp_lane packet = datagramLaneEventualState
                   then sized (write_at (write_at out offset (put_be64 (dp_stateToken packet)))
                          (offset + 8) (dp_payload packet))
                   else sized (write_at out offset (dp_payload packet)))"

definition cl_decode :: "bytes \<Rightarrow> cdError + datagramPacket" where
  "cl_decode data =
     (if length data < datagramPacketHeaderBytes then Inl errCdPacketTooSmall
      else
        let packet = zero_packet\<lparr>dp_packetSeq := be16_at data 0, dp_ackSeq := be16_at data 2,
                       dp_flags := data ! (datagramPacketHeaderBytes - 1),
                       dp_ackMask := map (\<lambda>i. be32_at data (4 + i * 4)) [0..<datagramAckMaskWordCount]\<rparr>
        in if dp_flags packet AND datagramFlagAckOnly \<noteq> 0 then Inr packet
           else
             let offset = datagramPacketHeaderBytes
             in if length data < offset + datagramLaneHeaderBytes then Inl errCdLaneMissing
                else
                  let packet = packet\<lparr>dp_lane := data ! offset\<rparr>;
                      offset = offset + 1
                  in if dp_lane packet = datagramLaneUnreliable
                     then Inr (packet\<lparr>dp_payload := drop offset data\<rparr>)
                     else if dp_lane packet = datagramLaneReliableUnordered
                     then if length data < offset + datagramReliableMessageIDBytes then Inl errCdMessageIDMissing
                          else Inr (packet\<lparr>dp_messageID := be16_at data offset, dp_payload := drop (offset + 2) data\<rparr>)
                     else if dp_lane packet = datagramLaneReliableOrdered
                     then if length data < offset + datagramReliableMessageIDBytes + datagramReliableOrderedSequenceBytes
                          then Inl errCdOrderedHeaderMissing
                          else Inr (packet\<lparr>dp_messageID := be16_at data offset,
                                           dp_orderedSeq := be16_at data (offset + 2),
                                           dp_payload := drop (offset + 2 + 2) data\<rparr>)
                     else if dp_lane packet = datagramLaneEventualState
                     then if length data < offset + datagramEventualStateTokenBytes then Inl errCdTokenMissing
                          else Inr (packet\<lparr>dp_stateToken := be64_at data offset, dp_payload := drop (offset + 8) data\<rparr>)
                     else Inl (errCdUnknownLane (dp_lane packet)))"

section \<open>The endpoint\<close>

record pendingReliableDatagram =
  pd_packet :: datagramPacket
  pd_queuedAt :: time
  pd_lastSentAt :: time
  pd_nextSendAt :: time
  pd_attempts :: nat

record cl_orderedReceiveState =
  co_nextSeq :: u16
  co_init :: bool
  co_pending :: "(u16, bytes) gomap"
  co_gapSince :: time

record clientProtocol =
  cp_nextPacketSeq :: u16
  cp_nextMessageID :: u16
  cp_nextOrderedSeq :: u16
  cp_recvPackets :: sequenceWindow
  cp_recvReliableMsg :: sequenceWindow
  cp_orderedRecv :: cl_orderedReceiveState
  cp_pendingReliable :: "(u16, pendingReliableDatagram) gomap"
  cp_ackDirty :: bool
  cp_ackDueAt :: time
  cp_ackInterval :: duration

definition newClientProtocol :: "duration \<Rightarrow> clientProtocol" where
  "newClientProtocol ackInterval =
     \<lparr>cp_nextPacketSeq = 0, cp_nextMessageID = 0, cp_nextOrderedSeq = 0,
      cp_recvPackets = sw_new, cp_recvReliableMsg = sw_new,
      cp_orderedRecv = \<lparr>co_nextSeq = 0, co_init = False, co_pending = [], co_gapSince = 0\<rparr>,
      cp_pendingReliable = [], cp_ackDirty = False, cp_ackDueAt = 0,
      cp_ackInterval = (if ackInterval \<le> 0 then datagramAckCoalesceDelay else ackInterval)\<rparr>"

definition datagramAckIntervalFromOptions :: "int \<Rightarrow> duration" where
  "datagramAckIntervalFromOptions eventualAckIntervalMs =
     (if eventualAckIntervalMs \<le> 0 then datagramAckCoalesceDelay else eventualAckIntervalMs * millisecond)"

text \<open>
  Encoding and writing a packet after the critical section.  \<open>sendDatagram\<close> is the session's
  method over the state \<open>'w\<close> of the network.
\<close>

definition writeDatagram ::
  "(bytes \<Rightarrow> 'w \<Rightarrow> cdError option \<times> 'w) \<Rightarrow> bytes \<Rightarrow> 'w \<Rightarrow> cdError option \<times> 'w" where
  "writeDatagram sendDatagram data w =
     (case cl_validateDatagramSize data of Some e \<Rightarrow> (Some e, w) | None \<Rightarrow> sendDatagram data w)"

definition encodeAndWrite ::
  "(bytes \<Rightarrow> 'w \<Rightarrow> cdError option \<times> 'w) \<Rightarrow> datagramPacket \<Rightarrow> 'w \<Rightarrow> cdError option \<times> 'w" where
  "encodeAndWrite write packet w =
     (case cl_encode packet of Inl e \<Rightarrow> (Some e, w) | Inr data \<Rightarrow> write data w)"

text \<open>The header fields every outgoing packet takes from the state.\<close>

definition cl_stamp :: "clientProtocol \<Rightarrow> datagramPacket \<Rightarrow> datagramPacket" where
  "cl_stamp p packet =
     packet\<lparr>dp_packetSeq := cp_nextPacketSeq p, dp_ackSeq := sw_latest (cp_recvPackets p),
            dp_ackMask := sw_mask (cp_recvPackets p)\<rparr>"

text \<open>The critical section of \<^verbatim>\<open>sendReliable\<close>.\<close>

definition cl_queueReliable :: "datagramLane \<Rightarrow> bytes \<Rightarrow> time \<Rightarrow> clientProtocol \<Rightarrow> datagramPacket \<times> clientProtocol" where
  "cl_queueReliable l payload now p =
     (let packet = cl_stamp p (zero_packet\<lparr>dp_lane := l, dp_messageID := cp_nextMessageID p, dp_payload := payload\<rparr>);
          p = p\<lparr>cp_nextPacketSeq := cp_nextPacketSeq p + 1, cp_nextMessageID := cp_nextMessageID p + 1\<rparr>;
          packet = (if l = datagramLaneReliableOrdered then packet\<lparr>dp_orderedSeq := cp_nextOrderedSeq p\<rparr> else packet);
          p = (if l = datagramLaneReliableOrdered then p\<lparr>cp_nextOrderedSeq := cp_nextOrderedSeq p + 1\<rparr> else p)
      in (packet, p\<lparr>cp_ackDirty := False, cp_ackDueAt := 0,
            cp_pendingReliable := AList.update (dp_packetSeq packet)
              \<lparr>pd_packet = packet, pd_queuedAt = now, pd_lastSentAt = now,
               pd_nextSendAt = now + datagramReliableRetryBaseDelay, pd_attempts = 1\<rparr>
              (cp_pendingReliable p)\<rparr>))"

definition sendReliable ::
  "(bytes \<Rightarrow> 'w \<Rightarrow> cdError option \<times> 'w) \<Rightarrow> datagramLane \<Rightarrow> bytes \<Rightarrow> time
     \<Rightarrow> clientProtocol \<times> 'w \<Rightarrow> cdError option \<times> clientProtocol \<times> 'w" where
  "sendReliable write l payload now s =
     (case cl_queueReliable l payload now (fst s) of (packet, p) \<Rightarrow>
      case encodeAndWrite write packet (snd s) of (e, w) \<Rightarrow> (e, p, w))"

definition cl_send ::
  "(bytes \<Rightarrow> 'w \<Rightarrow> cdError option \<times> 'w) \<Rightarrow> datagramLane \<Rightarrow> bytes \<Rightarrow> time
     \<Rightarrow> clientProtocol \<times> 'w \<Rightarrow> cdError option \<times> clientProtocol \<times> 'w" where
  "cl_send write l payload now s =
     (if l = datagramLaneReliableUnordered \<or> l = datagramLaneReliableOrdered
      then sendReliable write l payload now s
      else
        let p = fst s;
            packet = cl_stamp p (zero_packet\<lparr>dp_lane := l, dp_payload := payload\<rparr>);
            p = p\<lparr>cp_nextPacketSeq := cp_nextPacketSeq p + 1, cp_ackDirty := False, cp_ackDueAt := 0\<rparr>
        in case encodeAndWrite write packet (snd s) of (e, w) \<Rightarrow> (e, p, w))"

section \<open>Acknowledgements\<close>

definition scheduleAckLocked :: "time \<Rightarrow> clientProtocol \<Rightarrow> clientProtocol" where
  "scheduleAckLocked now p = p\<lparr>cp_ackDirty := True, cp_ackDueAt := now + cp_ackInterval p\<rparr>"

definition sendDueAck ::
  "(bytes \<Rightarrow> 'w \<Rightarrow> cdError option \<times> 'w) \<Rightarrow> time \<Rightarrow> clientProtocol \<times> 'w
     \<Rightarrow> cdError option \<times> clientProtocol \<times> 'w" where
  "sendDueAck write now s =
     (let p = fst s
      in if \<not> cp_ackDirty p \<or> (cp_ackDueAt p \<noteq> 0 \<and> now < cp_ackDueAt p) then (None, s)
         else
           let packet = cl_stamp p (zero_packet\<lparr>dp_flags := datagramFlagAckOnly\<rparr>);
               p = p\<lparr>cp_nextPacketSeq := cp_nextPacketSeq p + 1, cp_ackDirty := False, cp_ackDueAt := 0\<rparr>
           in case encodeAndWrite write packet (snd s) of (e, w) \<Rightarrow> (e, p, w))"

text \<open>
  Whether an acknowledgement covers a packet.  The loop of \<^verbatim>\<open>applyPeerAcksLocked\<close> judges
  each key by itself and deletes it, so its order does not matter and the loop is a filter.
\<close>

definition cl_covered :: "u16 \<Rightarrow> u16 \<Rightarrow> ackMask128 \<Rightarrow> bool" where
  "cl_covered seq ackSeq am =
     (if seq = ackSeq then True
      else let diff = sequenceDistance seq ackSeq
           in if diff \<le> 0 \<or> diff > int datagramPacketAckWindow then False
              else cl_testBit am (diff - 1))"

definition applyPeerAcksLocked :: "u16 \<Rightarrow> ackMask128 \<Rightarrow> clientProtocol \<Rightarrow> clientProtocol" where
  "applyPeerAcksLocked ackSeq am p =
     p\<lparr>cp_pendingReliable := filter (\<lambda>(seq, _). \<not> cl_covered seq ackSeq am) (cp_pendingReliable p)\<rparr>"

definition wrapStreamPayload :: "bytes \<Rightarrow> clientProtocol \<Rightarrow> bytes \<times> clientProtocol" where
  "wrapStreamPayload payload p =
     (if \<not> cp_ackDirty p
        \<or> length payload + length clientReliableAckControlFrame + 2 + datagramAckMaskBytes > maxReliableMessageBytes
      then (payload, p)
      else (clientReliableAckControlFrame @ put_be16 (sw_latest (cp_recvPackets p))
              @ concat (map put_be32 (sw_mask (cp_recvPackets p))) @ payload,
            p\<lparr>cp_ackDirty := False, cp_ackDueAt := 0\<rparr>))"

section \<open>Retries\<close>

text \<open>
  The loop over the map, which deletes the visited key and stores the message under a new one.
  \<open>ks\<close> are the keys in the order the runtime produces them: a key stored during the iteration
  may or may not be produced, a deleted one is not.
\<close>

definition retryStalled :: "time \<Rightarrow> pendingReliableDatagram \<Rightarrow> bool" where
  "retryStalled now pending \<longleftrightarrow> timeSub now (pd_queuedAt pending) > datagramReliableMessageTTL
     \<or> pd_attempts pending \<ge> datagramReliableRetryLimit"

text \<open>The message with the number, acknowledgement and deadline of its next transmission.\<close>

definition retried :: "time \<Rightarrow> clientProtocol \<Rightarrow> pendingReliableDatagram \<Rightarrow> pendingReliableDatagram" where
  "retried now p pending =
     (let packet = cl_stamp p (pd_packet pending);
          attempts = pd_attempts pending + 1;
          delay = datagramReliableRetryBaseDelay * 2 ^ min (attempts - 1) 3;
          delay = (if delay > datagramReliableRetryMaxDelay then datagramReliableRetryMaxDelay else delay)
      in pending\<lparr>pd_packet := packet, pd_attempts := attempts, pd_lastSentAt := now,
                 pd_nextSendAt := now + delay\<rparr>)"

definition storeRetried :: "u16 \<Rightarrow> pendingReliableDatagram \<Rightarrow> clientProtocol \<Rightarrow> clientProtocol" where
  "storeRetried seq pending p =
     p\<lparr>cp_nextPacketSeq := cp_nextPacketSeq p + 1,
       cp_pendingReliable := AList.update (dp_packetSeq (pd_packet pending)) pending
         (AList.delete seq (cp_pendingReliable p))\<rparr>"

fun retryVisits ::
  "time \<Rightarrow> u16 list \<Rightarrow> datagramPacket list \<Rightarrow> clientProtocol \<Rightarrow> (cdError + datagramPacket list) \<times> clientProtocol" where
  "retryVisits now [] packets p = (Inr packets, p)"
| "retryVisits now (seq # ks) packets p =
     (case map_of (cp_pendingReliable p) seq of
        None \<Rightarrow> retryVisits now ks packets p
      | Some pending \<Rightarrow>
          if retryStalled now pending then (Inl errCdStalled, p)
          else if now < pd_nextSendAt pending then retryVisits now ks packets p
          else let pending = retried now p pending
               in retryVisits now ks (packets @ [pd_packet pending]) (storeRetried seq pending p))"

fun writeAll ::
  "(bytes \<Rightarrow> 'w \<Rightarrow> cdError option \<times> 'w) \<Rightarrow> datagramPacket list \<Rightarrow> 'w \<Rightarrow> cdError option \<times> 'w" where
  "writeAll write [] w = (None, w)"
| "writeAll write (packet # packets) w =
     (case encodeAndWrite write packet w of
        (Some e, w) \<Rightarrow> (Some e, w)
      | (None, w) \<Rightarrow> writeAll write packets w)"

definition drainRetries ::
  "(bytes \<Rightarrow> 'w \<Rightarrow> cdError option \<times> 'w) \<Rightarrow> u16 list \<Rightarrow> time \<Rightarrow> clientProtocol \<times> 'w
     \<Rightarrow> cdError option \<times> clientProtocol \<times> 'w" where
  "drainRetries write ks now s =
     (case retryVisits now ks [] (fst s) of
        (Inl e, p) \<Rightarrow> (Some e, p, snd s)
      | (Inr packets, p) \<Rightarrow>
          (let p = (if packets \<noteq> [] then p\<lparr>cp_ackDirty := False, cp_ackDueAt := 0\<rparr> else p)
           in case writeAll write packets (snd s) of (e, w) \<Rightarrow> (e, p, w)))"

section \<open>Receiving\<close>

text \<open>The loop that hands over buffered successors is the server's \<open>or_drain\<close> word for word.\<close>

definition deliverOrdered ::
  "datagramPacket \<Rightarrow> time \<Rightarrow> cl_orderedReceiveState \<Rightarrow> cdError option \<times> bytes list \<times> cl_orderedReceiveState" where
  "deliverOrdered packet now o1 =
     (let o2 = (if co_init o1 then o1 else o1\<lparr>co_init := True, co_nextSeq := dp_orderedSeq packet\<rparr>)
      in if dp_orderedSeq packet = co_nextSeq o2
         then (case or_drain (co_nextSeq o2 + 1) (co_pending o2) of
                 (ds, n, m) \<Rightarrow>
                   (None, dp_payload packet # ds,
                    o2\<lparr>co_nextSeq := n, co_pending := m,
                       co_gapSince := (if gm_len m = 0 then 0 else co_gapSince o2)\<rparr>))
         else if sequenceNewer (dp_orderedSeq packet) (co_nextSeq o2)
         then let o3 = o2\<lparr>co_pending := AList.update (dp_orderedSeq packet) (dp_payload packet) (co_pending o2)\<rparr>;
                  o4 = (if co_gapSince o3 = 0 then o3\<lparr>co_gapSince := now\<rparr> else o3)
              in if timeSub now (co_gapSince o4) > datagramReliableOrderedGapTimeout
                 then (Some errCdGapExpired, [], o4) else (None, [], o4)
         else (None, [], o2))"

text \<open>\<^verbatim>\<open>receive\<close>: the error, what is handed to \<^verbatim>\<open>deliver\<close>, and the state.\<close>

definition cl_receive ::
  "time \<Rightarrow> bytes \<Rightarrow> clientProtocol \<Rightarrow> cdError option \<times> datagramDelivery list \<times> clientProtocol" where
  "cl_receive now data p =
     (case cl_decode data of
        Inl e \<Rightarrow> (Some e, [], p)
      | Inr packet \<Rightarrow>
          let p = applyPeerAcksLocked (dp_ackSeq packet) (dp_ackMask packet) p
          in if dp_flags packet AND datagramFlagAckOnly \<noteq> 0 then (None, [], p)
             else
               (case cl_accept (cp_recvPackets p) (dp_packetSeq packet) of
                  (accepted, w) \<Rightarrow>
                    let p = p\<lparr>cp_recvPackets := w\<rparr>;
                        p = (if accepted then scheduleAckLocked now p else p)
                    in if \<not> accepted then (None, [], p)
                       else
                         let reliable = dp_lane packet = datagramLaneReliableUnordered
                               \<or> dp_lane packet = datagramLaneReliableOrdered;
                             (fresh, w) = cl_accept (cp_recvReliableMsg p) (dp_messageID packet);
                             p = (if reliable then p\<lparr>cp_recvReliableMsg := w\<rparr> else p)
                         in if reliable \<and> \<not> fresh then (None, [], p)
                            else if dp_lane packet = datagramLaneReliableOrdered
                            then (case deliverOrdered packet now (cp_orderedRecv p) of
                                    (e, ds, o') \<Rightarrow>
                                      (e, map (\<lambda>d. \<lparr>dd_lane = datagramLaneReliableOrdered, dd_data = d\<rparr>) ds,
                                       p\<lparr>cp_orderedRecv := o'\<rparr>))
                            else (None, [\<lparr>dd_lane = dp_lane packet, dd_data = dp_payload packet\<rparr>], p)))"

section \<open>The windows agree\<close>

lemma cl_setBit_eq: "cl_setBit = setBit"
  by (intro ext) (simp add: cl_setBit_def setBit_def Let_def)

lemma cl_testBit_eq: "0 \<le> b \<Longrightarrow> b < 128 \<Longrightarrow> cl_testBit m b = hasBit m b"
  by (simp add: cl_testBit_def hasBit_def)

lemma cl_shiftLeft_eq:
  assumes "mask_wf m"
  shows "cl_shiftLeft m b = shiftLeft m b"
proof (cases "0 < b \<and> b < 128")
  case True
  define n where "n = nat b"
  have b: "b = int n" "0 < n" "n < 128" using True by (auto simp: n_def)
  define f where "f i = (if i < n div 32 then 0
      else let src = i - n div 32; x = push_bit (n mod 32) (m ! src)
           in if n mod 32 > 0 \<and> src > 0 then x OR drop_bit (32 - n mod 32) (m ! (src - 1)) else x)" for i
  define F where "F i shifted = (let src = int i - int (n div 32)
      in if src < 0 then shifted
         else let shifted = shifted[i := push_bit (n mod 32) (m ! nat src)]
              in if n mod 32 > 0 \<and> src > 0
                 then shifted[i := shifted ! i OR drop_bit (32 - n mod 32) (m ! nat (src - 1))]
                 else shifted)" for i and shifted :: ackMask128
  have F: "F i s = (if i < n div 32 then s else s[i := f i])" if "i < length s" for i s
  proof (cases "i < n div 32")
    case True
    then show ?thesis by (simp add: F_def)
  next
    case False
    have e: "nat (int i - int (n div 32)) = i - n div 32"
      "nat (int i - int (n div 32) - 1) = i - n div 32 - 1" by arith+
    show ?thesis using False that by (auto simp: F_def f_def e Let_def)
  qed
  have z: "i < n div 32 \<Longrightarrow> f i = 0" for i by (simp add: f_def)
  have four: "rev [0..<datagramAckMaskWordCount] = [3, 2, 1, 0]" "mask_zero = [0, 0, 0, 0]"
    by (simp_all add: fourth_upt mask_zero_def numeral_eq_Suc)
  have upd: "[a, c, d, e][3 := x] = [a, c, d, x]" "[a, c, d, e][2 := x] = [a, c, x, e]"
    for a c d e x :: u32 by (simp_all add: numeral_eq_Suc)
  have "fold F [3, 2, 1, 0] [0, 0, 0, 0] = [f 0, f 1, f 2, f 3]"
    by (simp add: F upd z)
  then have "cl_shiftLeft m b = [f 0, f 1, f 2, f 3]"
    using b unfolding cl_shiftLeft_def four F_def by (simp add: Let_def)
  also have "\<dots> = shiftLeft m b"
    using b by (simp add: shiftLeft_def fourth_upt f_def Let_def)
  finally show ?thesis .
qed (auto simp: cl_shiftLeft_def shiftLeft_def)

lemma sequenceNewer_eq: "unat (a - b) \<noteq> 32768 \<Longrightarrow> sequenceNewer a b = seqGreater a b"
  by (auto simp: sequenceNewer_def seqGreater_dist word_less_nat_alt)

text \<open>
  The two windows are the same function except on a number exactly half the number space
  ahead, which the client always refuses and the server takes for newer when it is also the
  larger one.
\<close>

lemma cl_accept_eq:
  assumes "sw_wf w"
  shows "unat (seq - sw_latest w) \<noteq> 32768 \<Longrightarrow> cl_accept w seq = sw_accept w seq"
    and "sw_init w \<Longrightarrow> unat (seq - sw_latest w) = 32768 \<Longrightarrow> cl_accept w seq = (False, w)"
proof -
  have wf: "mask_wf (sw_mask w)" using assms by (simp add: sw_wf_def)
  assume d: "unat (seq - sw_latest w) \<noteq> 32768"
  have new: "\<not> sw_init w \<Longrightarrow> w\<lparr>sw_init := True, sw_latest := seq\<rparr>
      = \<lparr>sw_init = True, sw_latest = seq, sw_mask = mask_zero\<rparr>"
    using assms by (simp add: sw_wf_def)

  have pred: "int (unat (x - 1)) = int (unat x) - 1" if "x \<noteq> 0" for x :: u16
    using that unat_gt_0 [of x] by (simp add: unat_pred_16)
  have far: "setBit (shiftLeft (sw_mask w) (int (unat x))) (int (unat x) - 1) = mask_zero"
    if "128 < unat x" for x :: u16
    using that by (simp add: setBit_def shiftLeft_def del: of_nat_unat)
  have test: "cl_testBit (sw_mask w) (int (unat x) - 1) = hasBit (sw_mask w) (int (unat x) - 1)"
    if "x \<noteq> 0" "\<not> 128 < unat x" for x :: u16
  proof -
    have "0 < unat x" using that(1) by (simp add: unat_gt_0)
    then show ?thesis using that(2) by (intro cl_testBit_eq) linarith+
  qed
  show "cl_accept w seq = sw_accept w seq"
  proof (cases "sw_init w \<and> seq \<noteq> sw_latest w")
    case True
    then have nz: "seq - sw_latest w \<noteq> 0" "sw_latest w - seq \<noteq> 0" by auto
    then have pos: "0 < unat (sw_latest w - seq)" by (simp add: unat_gt_0)
    show ?thesis
    proof (cases "seqGreater seq (sw_latest w)")
      case g: True
      then show ?thesis using True wf far nz
        by (simp add: cl_accept_def sw_accept_def sequenceNewer_eq [OF d] Let_def cl_setBit_eq
            cl_shiftLeft_eq sequenceDistance_def seqDistance_def pred del: of_nat_unat)
    next
      case False
      then show ?thesis using True nz pos test [OF nz(2)]
        by (simp add: cl_accept_def sw_accept_def sequenceNewer_eq [OF d] Let_def cl_setBit_eq
            sequenceDistance_def seqDistance_def pred del: of_nat_unat)
    qed
  qed (use new in \<open>auto simp: cl_accept_def sw_accept_def\<close>)
next
  assume "sw_init w" "unat (seq - sw_latest w) = 32768"
  moreover have "unat (sw_latest w - seq) = 32768"
    using calculation(2) by (auto simp: unat_diff_16 split: if_splits)
  ultimately show "cl_accept w seq = (False, w)"
    by (auto simp: cl_accept_def sequenceNewer_def sequenceDistance_def word_less_nat_alt)
qed

section \<open>The codecs agree\<close>

lemma cl_encode_writes:
  "cl_encode p =
     (if dp_flags p AND datagramFlagAckOnly = 0 \<and> \<not> cl_knownLane (dp_lane p)
      then Inl (errCdUnknownLane (dp_lane p))
      else let out = writeHeader (replicate (length (packet_bytes p)) 0) p;
               out = (if dp_flags p AND datagramFlagAckOnly \<noteq> 0 then out else writeBody out p)
           in case cl_validateDatagramSize out of Some e \<Rightarrow> Inl e | None \<Rightarrow> Inr out)"
  if "mask_wf (dp_ackMask p)"
  using that
  by (simp add: cl_encode_def writeHeader_def writeBody_def packet_bytes_def lane_fields_def Let_def
      cl_validateDatagramSize_def)

lemma cl_encode_bytes:
  assumes "mask_wf (dp_ackMask p)"
  shows "cl_encode p =
     (if dp_flags p AND datagramFlagAckOnly = 0 \<and> \<not> cl_knownLane (dp_lane p)
      then Inl (errCdUnknownLane (dp_lane p))
      else if length (packet_bytes p) > maxWebTransportDatagramBytes
      then Inl (errCdSize (length (packet_bytes p))) else Inr (packet_bytes p))"
proof -
  let ?n = "length (packet_bytes p)"
  have n: "21 \<le> ?n" using assms by (simp add: packet_bytes_def)
  have h: "writeHeader (replicate ?n 0) p = write_at (replicate ?n 0) 0 (header_bytes p)"
    using assms n by (simp add: writeHeader_bytes)
  have a: "dp_flags p AND datagramFlagAckOnly \<noteq> 0 \<Longrightarrow> write_at (replicate ?n 0) 0 (header_bytes p) = packet_bytes p"
    by (simp add: packet_bytes_def write_at_all)
  show ?thesis
    using assms
    by (simp add: cl_encode_writes Let_def h a writeBody_bytes cl_validateDatagramSize_def)
qed

lemma packetBaseLen_iff:
  assumes "mask_wf (dp_ackMask p)"
  shows "(\<exists>n. packetBaseLen p = Inr n) \<longleftrightarrow>
     (dp_flags p AND datagramFlagAckOnly = 0 \<longrightarrow> cl_knownLane (dp_lane p))
     \<and> length (packet_bytes p) \<le> maxWebTransportDatagramBytes"
  using assms
  by (auto simp: packetBaseLen_def packet_bytes_def lane_fields_def cl_knownLane_def Let_def
      validateDatagramLane_def validateUnreliableDatagramPayloadSize_def
      validateReliableDatagramMessageSize_def validateEventualStateDatagramPayloadSize_def)

lemma cl_encode_eq:
  assumes "mask_wf (dp_ackMask p)"
  shows "cl_encode p = Inr bs \<longleftrightarrow> encodeDatagramPacket p = Inr bs"
proof -
  have "encodeDatagramPacket p = Inr bs \<longleftrightarrow> (\<exists>n. packetBaseLen p = Inr n) \<and> bs = packet_bytes p"
    using encode_Inr [OF assms] append_packet_bytes [OF assms]
    by (auto simp: encodeDatagramPacket_def)
  then show ?thesis
    by (auto simp: packetBaseLen_iff [OF assms] cl_encode_bytes [OF assms])
qed

lemma cl_decode_eq:
  "decodeDatagramPacket data = Inr k \<longleftrightarrow> cl_decode data = Inr k
     \<and> (dp_flags k AND datagramFlagAckOnly = 0 \<longrightarrow> length data \<le> maxWebTransportDatagramBytes)"
  by (auto simp: cl_decode_def decodeDatagramPacket_def zero_packet_def Let_def validateDatagramLane_def
      validateUnreliableDatagramPayloadSize_def validateReliableDatagramMessageSize_def
      validateEventualStateDatagramPayloadSize_def)

section \<open>Events of an endpoint\<close>

text \<open>
  What the goroutines of a channel call: the application sends, the read loop receives, the
  scheduler acknowledges and retries, a stream message takes the acknowledgement along.
\<close>

datatype clEvent =
    EvSend datagramLane bytes time
  | EvReceive time bytes
  | EvDueAck time
  | EvRetry "u16 list" time
  | EvWrap bytes

fun cl_event ::
  "(bytes \<Rightarrow> 'w \<Rightarrow> cdError option \<times> 'w) \<Rightarrow> clEvent \<Rightarrow> clientProtocol \<times> 'w
     \<Rightarrow> cdError option \<times> datagramDelivery list \<times> clientProtocol \<times> 'w" where
  "cl_event write (EvSend l payload now) s = (case cl_send write l payload now s of (e, s) \<Rightarrow> (e, [], s))"
| "cl_event write (EvReceive now data) s =
     (case cl_receive now data (fst s) of (e, ds, p) \<Rightarrow> (e, ds, p, snd s))"
| "cl_event write (EvDueAck now) s = (case sendDueAck write now s of (e, s) \<Rightarrow> (e, [], s))"
| "cl_event write (EvRetry ks now) s = (case drainRetries write ks now s of (e, s) \<Rightarrow> (e, [], s))"
| "cl_event write (EvWrap payload) s = (None, [], snd (wrapStreamPayload payload (fst s)), snd s)"

fun cl_events ::
  "(bytes \<Rightarrow> 'w \<Rightarrow> cdError option \<times> 'w) \<Rightarrow> clEvent list \<Rightarrow> clientProtocol \<times> 'w
     \<Rightarrow> datagramDelivery list \<times> clientProtocol \<times> 'w" where
  "cl_events write [] s = ([], s)"
| "cl_events write (e # es) s =
     (case cl_event write e s of (_, ds, s) \<Rightarrow>
      case cl_events write es s of (ds', s) \<Rightarrow> (ds @ ds', s))"

lemma cl_events_append:
  "cl_events write (es @ fs) s =
     (let a = cl_events write es s; b = cl_events write fs (snd a) in (fst a @ fst b, snd b))"
  by (induction es arbitrary: s) (auto simp: Let_def split: prod.splits)

section \<open>Well-formed states\<close>

definition cp_inv :: "clientProtocol \<Rightarrow> bool" where
  "cp_inv p \<longleftrightarrow> sw_wf (cp_recvPackets p) \<and> sw_wf (cp_recvReliableMsg p) \<and> gm_wf (cp_pendingReliable p)
     \<and> (\<forall>k pd. map_of (cp_pendingReliable p) k = Some pd \<longrightarrow> mask_wf (dp_ackMask (pd_packet pd))
          \<and> dp_packetSeq (pd_packet pd) = k)"

lemma cp_inv_new [inv_intros]: "cp_inv (newClientProtocol d)"
  by (simp add: cp_inv_def newClientProtocol_def)

lemma cp_inv_frame:
  "cp_inv p \<Longrightarrow> cp_inv (p\<lparr>cp_ackDirty := b, cp_ackDueAt := t\<rparr>)"
  "cp_inv p \<Longrightarrow> cp_inv (p\<lparr>cp_nextPacketSeq := a, cp_ackDirty := b, cp_ackDueAt := t\<rparr>)"
  "cp_inv p \<Longrightarrow> cp_inv (p\<lparr>cp_orderedRecv := o1\<rparr>)"
  by (auto simp: cp_inv_def)

lemma sw_wf_cl_accept:
  assumes "sw_wf w"
  shows "sw_wf (snd (cl_accept w seq))"
  using assms cl_accept_eq [OF assms, of seq] sw_wf_accept [OF assms, of seq]
  by (cases "sw_init w"; cases "unat (seq - sw_latest w) = 32768")
    (auto simp: cl_accept_def sw_wf_def)

lemma retried_simps [simp]:
  "pd_packet (retried now p pd) = cl_stamp p (pd_packet pd)" "pd_queuedAt (retried now p pd) = pd_queuedAt pd"
  "pd_attempts (retried now p pd) = pd_attempts pd + 1"
  by (simp_all add: retried_def Let_def)

lemma cl_stamp_simps [simp]:
  "dp_packetSeq (cl_stamp p k) = cp_nextPacketSeq p" "dp_ackSeq (cl_stamp p k) = sw_latest (cp_recvPackets p)"
  "dp_ackMask (cl_stamp p k) = sw_mask (cp_recvPackets p)" "dp_lane (cl_stamp p k) = dp_lane k"
  "dp_messageID (cl_stamp p k) = dp_messageID k" "dp_orderedSeq (cl_stamp p k) = dp_orderedSeq k"
  "dp_payload (cl_stamp p k) = dp_payload k" "dp_flags (cl_stamp p k) = dp_flags k"
  by (simp_all add: cl_stamp_def)

lemma cp_inv_store: "cp_inv p \<Longrightarrow> cp_inv (storeRetried seq (retried now p pd) p)"
  by (simp add: cp_inv_def storeRetried_def sw_wf_def)

lemma cp_inv_retry: "cp_inv p \<Longrightarrow> retryVisits now ks packets p = (r, p') \<Longrightarrow> cp_inv p'"
proof (induction ks arbitrary: packets p)
  case (Cons seq ks)
  then show ?case
    using Cons.IH [OF cp_inv_store] by (auto simp: Let_def split: option.splits if_splits)
qed simp

lemma map_of_filter_keys: "map_of (filter (\<lambda>(k, _). P k) xs) k = (if P k then map_of xs k else None)"
  by (induction xs) auto

lemma gm_wf_filter_keys: "gm_wf xs \<Longrightarrow> gm_wf (filter (\<lambda>(k, _). P k) xs)"
  by (auto simp: gm_wf_def distinct_map intro: inj_on_subset)

lemma cp_inv_acks: "cp_inv p \<Longrightarrow> cp_inv (applyPeerAcksLocked a am p)"
  by (auto simp: cp_inv_def applyPeerAcksLocked_def map_of_filter_keys gm_wf_filter_keys split: if_splits)

lemma cp_inv_queue:
  "cp_inv p \<Longrightarrow> cl_queueReliable l payload now p = (packet, p') \<Longrightarrow> cp_inv p' \<and> mask_wf (dp_ackMask packet)"
  by (auto simp: cl_queueReliable_def cp_inv_def cl_stamp_def Let_def sw_wf_def split: if_splits)

lemma cp_inv_receive:
  assumes "cp_inv p" and "cl_receive now data p = (e, ds, p')"
  shows "cp_inv p'"
proof (cases "cl_decode data")
  case (Inl err)
  then show ?thesis using assms by (simp add: cl_receive_def)
next
  case (Inr packet)
  let ?q = "applyPeerAcksLocked (dp_ackSeq packet) (dp_ackMask packet) p"
  have q: "cp_inv ?q" using assms(1) by (rule cp_inv_acks)
  have a: "sw_wf (snd (cl_accept (cp_recvPackets ?q) s))" "sw_wf (snd (cl_accept (cp_recvReliableMsg ?q) s))" for s
    using q by (auto simp: cp_inv_def intro: sw_wf_cl_accept)
  then show ?thesis
    using q assms(2) Inr a [of "dp_packetSeq packet"] a [of "dp_messageID packet"]
    by (auto simp: cl_receive_def Let_def scheduleAckLocked_def cp_inv_def case_prod_beta split: if_splits)
qed

lemma cp_inv_event:
  assumes "cp_inv p" and "cl_event write e (p, w) = (r, ds, p', w')"
  shows "cp_inv p'"
proof (cases e)
  case (EvSend l payload now)
  then show ?thesis
    using assms cp_inv_queue [OF assms(1)]
    by (auto simp: cl_send_def sendReliable_def Let_def cp_inv_frame split: prod.splits if_splits)
next
  case (EvReceive now data)
  then show ?thesis using assms cp_inv_receive [OF assms(1)] by (auto split: prod.splits)
next
  case (EvDueAck now)
  then show ?thesis
    using assms by (auto simp: sendDueAck_def Let_def cp_inv_frame split: prod.splits if_splits)
next
  case (EvRetry ks now)
  then show ?thesis
    using assms cp_inv_retry [OF assms(1)]
    by (auto simp: drainRetries_def Let_def cp_inv_frame split: prod.splits if_splits sum.splits)
next
  case (EvWrap payload)
  then show ?thesis using assms by (auto simp: wrapStreamPayload_def cp_inv_frame split: if_splits)
qed

section \<open>Reading an acknowledgement\<close>

text \<open>
  The client's reading of an acknowledgement is exact: from the header of an initialised window
  it takes for delivered exactly the numbers that window remembers.
\<close>

lemma cl_covered_exact:
  assumes "sw_init w"
  shows "cl_covered k (sw_latest w) (sw_mask w) \<longleftrightarrow> k \<in> seen w"
proof (cases "k = sw_latest w")
  case False
  then have "0 < unat (sw_latest w - k)" by (simp add: unat_gt_0)
  then show ?thesis
    using assms False
    by (auto simp: cl_covered_def sequenceDistance_def seen_def acked_dist Let_def cl_testBit_eq
        of_nat_diff simp del: of_nat_unat)
qed (use assms in \<open>simp add: cl_covered_def seen_def acked_dist\<close>)

text \<open>
  The client's implementation agrees with the
  server's on the wire.  Both encoders produce the same bytes for the same packets; the two
  decoders accept the same datagrams with the same result, except that the client does not
  refuse data packets longer than a datagram can be; the duplicate windows are the same
  function on every number that is not exactly half the number space ahead, which the client
  refuses; and the client takes from an acknowledgement exactly the numbers the window that
  sent it remembers.
\<close>

theorem client_agrees_with_server:
  assumes "mask_wf (dp_ackMask p)" and "sw_wf w"
  shows "(cl_encode p = Inr bs \<longleftrightarrow> encodeDatagramPacket p = Inr bs)
    \<and> (decodeDatagramPacket data = Inr k \<longleftrightarrow> cl_decode data = Inr k
         \<and> (dp_flags k AND datagramFlagAckOnly = 0 \<longrightarrow> length data \<le> maxWebTransportDatagramBytes))
    \<and> (unat (seq - sw_latest w) \<noteq> 32768 \<longrightarrow> cl_accept w seq = sw_accept w seq)
    \<and> (sw_init w \<and> unat (seq - sw_latest w) = 32768 \<longrightarrow> cl_accept w seq = (False, w))
    \<and> (sw_init w \<longrightarrow> (cl_covered seq (sw_latest w) (sw_mask w) \<longleftrightarrow> seq \<in> seen w))"
  using cl_encode_eq [OF assms(1)] cl_decode_eq cl_accept_eq [OF assms(2)] cl_covered_exact by blast

theorem client_agrees_with_server_witness:
  "cl_accept \<lparr>sw_init = True, sw_latest = 5, sw_mask = [2, 0, 0, 0]\<rparr> 4
     = sw_accept \<lparr>sw_init = True, sw_latest = 5, sw_mask = [2, 0, 0, 0]\<rparr> 4
   \<and> cl_accept \<lparr>sw_init = True, sw_latest = 5, sw_mask = [2, 0, 0, 0]\<rparr> 32773
     = (False, \<lparr>sw_init = True, sw_latest = 5, sw_mask = [2, 0, 0, 0]\<rparr>)"
proof -
  let ?w = "\<lparr>sw_init = True, sw_latest = 5, sw_mask = [2, 0, 0, 0]\<rparr>"
  have w: "sw_wf ?w" "mask_wf (dp_ackMask zero_packet)"
    by (simp_all add: sw_wf_def mask_wf_def zero_packet_def mask_zero_def)
  have "unat (4 - sw_latest ?w) = 65535" "unat (32773 - sw_latest ?w) = 32768"
    by (simp_all add: unsigned_minus_1_eq_mask mask_eq_exp_minus_1)
  then show ?thesis
    using client_agrees_with_server [OF w(2,1), of _ _ _ 4]
      client_agrees_with_server [OF w(2,1), of _ _ _ 32773] by simp
qed

section \<open>A reliable message is kept until it is acknowledged\<close>

definition sameMessage :: "pendingReliableDatagram \<Rightarrow> pendingReliableDatagram \<Rightarrow> bool" where
  "sameMessage a b \<longleftrightarrow> dp_lane (pd_packet a) = dp_lane (pd_packet b)
     \<and> dp_messageID (pd_packet a) = dp_messageID (pd_packet b)
     \<and> dp_orderedSeq (pd_packet a) = dp_orderedSeq (pd_packet b)
     \<and> dp_payload (pd_packet a) = dp_payload (pd_packet b) \<and> pd_queuedAt a = pd_queuedAt b"

lemma sameMessage_refl [simp]: "sameMessage a a"
  by (simp add: sameMessage_def)

lemma sameMessage_trans: "sameMessage a b \<Longrightarrow> sameMessage b c \<Longrightarrow> sameMessage a c"
  by (simp add: sameMessage_def)

definition pendingAt :: "clientProtocol \<Rightarrow> u16 \<Rightarrow> pendingReliableDatagram \<Rightarrow> bool" where
  "pendingAt p k pd \<longleftrightarrow> (\<exists>pd'. map_of (cp_pendingReliable p) k = Some pd' \<and> sameMessage pd pd')"

text \<open>The next \<open>n\<close> packet numbers are not in use by an unacknowledged message.\<close>

definition roomy :: "nat \<Rightarrow> clientProtocol \<Rightarrow> bool" where
  "roomy n p \<longleftrightarrow> n < 65536 \<and> (\<forall>i < n. cp_nextPacketSeq p + of_nat i \<notin> gm_keys (cp_pendingReliable p))"

fun roomFor :: "clEvent \<Rightarrow> clientProtocol \<Rightarrow> bool" where
  "roomFor (EvSend _ _ _) p = roomy 1 p"
| "roomFor (EvRetry ks _) p = roomy (length ks) p"
| "roomFor _ p = True"

lemma roomy_step:
  assumes "roomy (Suc n) p"
  shows "roomy n (storeRetried k (retried now p pd) p)"
proof -
  have s: "cp_nextPacketSeq p + 1 + of_nat i = cp_nextPacketSeq p + of_nat (Suc i)" for i by simp
  have "cp_nextPacketSeq p + of_nat (Suc i) \<noteq> cp_nextPacketSeq p" if "i < n" for i
  proof
    assume "cp_nextPacketSeq p + of_nat (Suc i) = cp_nextPacketSeq p"
    then have "(of_nat (Suc i) :: u16) = 0" by (metis add_cancel_right_right)
    then have "2 ^ 16 dvd Suc i" by (simp only: word_of_nat_eq_0_iff) simp
    then show False using that assms by (auto simp: roomy_def dest: dvd_imp_le)
  qed
  then show ?thesis
    using assms by (auto simp: roomy_def storeRetried_def s simp del: of_nat_Suc)
qed

lemma store_keeps:
  assumes "pendingAt p k pd" and "roomy (Suc n) p" and "map_of (cp_pendingReliable p) seq = Some pending"
  shows "\<exists>k'. pendingAt (storeRetried seq (retried now p pending) p) k' pd"
proof (cases "seq = k")
  case True
  then show ?thesis using assms
    by (intro exI [of _ "cp_nextPacketSeq p"]) (auto simp: pendingAt_def storeRetried_def sameMessage_def)
next
  case False
  have "cp_nextPacketSeq p \<notin> gm_keys (cp_pendingReliable p)"
    using assms(2) by (auto simp: roomy_def dest: spec [of _ 0])
  then show ?thesis using False assms(1)
    by (intro exI [of _ k]) (auto simp: pendingAt_def storeRetried_def gm_keys_Some)
qed

lemma retry_keeps:
  assumes "pendingAt p k pd" and "roomy (length ks) p" and "retryVisits now ks packets p = (r, p')"
  shows "\<exists>k'. pendingAt p' k' pd"
  using assms
proof (induction ks arbitrary: k packets p)
  case (Cons seq ks)
  have room: "roomy (Suc (length ks)) p" using Cons.prems(2) by simp
  then have less: "roomy (length ks) p" by (auto simp: roomy_def)
  show ?case
  proof (cases "map_of (cp_pendingReliable p) seq")
    case None
    then show ?thesis using Cons.IH [OF Cons.prems(1) less] Cons.prems(3) by simp
  next
    case (Some pending)
    obtain k' where k: "pendingAt (storeRetried seq (retried now p pending) p) k' pd"
      using store_keeps [OF Cons.prems(1) room Some] by blast
    show ?thesis
      using Cons.IH [OF k roomy_step [OF room]] Cons.IH [OF Cons.prems(1) less] Cons.prems(1,3) Some
      by (auto simp: Let_def split: if_splits)
  qed
qed auto

text \<open>The datagram of an event acknowledges packet \<open>k\<close>.\<close>

fun acknowledges :: "clEvent \<Rightarrow> u16 \<Rightarrow> bool" where
  "acknowledges (EvReceive now data) k =
     (case cl_decode data of Inl _ \<Rightarrow> False
      | Inr packet \<Rightarrow> cl_covered k (dp_ackSeq packet) (dp_ackMask packet))"
| "acknowledges _ k = False"

lemma receive_pending:
  assumes "cl_receive now data p = (e, ds, p')"
  shows "cp_pendingReliable p' = (case cl_decode data of Inl _ \<Rightarrow> cp_pendingReliable p
     | Inr packet \<Rightarrow> cp_pendingReliable (applyPeerAcksLocked (dp_ackSeq packet) (dp_ackMask packet) p))"
  using assms
  by (cases "cl_decode data")
    (auto simp: cl_receive_def Let_def case_prod_beta scheduleAckLocked_def split: if_splits)

lemma pendingAt_frame:
  "cp_pendingReliable p' = cp_pendingReliable p \<Longrightarrow> pendingAt p' k pd = pendingAt p k pd"
  by (simp add: pendingAt_def)

lemma queue_pending:
  assumes "cl_queueReliable l payload now p = (packet, p')"
  shows "\<exists>pd. cp_pendingReliable p' = AList.update (cp_nextPacketSeq p) pd (cp_pendingReliable p)
    \<and> pd_packet pd = packet \<and> dp_lane packet = l \<and> dp_payload packet = payload
    \<and> dp_messageID packet = cp_nextMessageID p \<and> dp_packetSeq packet = cp_nextPacketSeq p
    \<and> pd_queuedAt pd = now"
  using assms
  by (intro exI [of _ "\<lparr>pd_packet = packet, pd_queuedAt = now, pd_lastSentAt = now,
      pd_nextSendAt = now + datagramReliableRetryBaseDelay, pd_attempts = 1\<rparr>"])
    (auto simp: cl_queueReliable_def Let_def)

lemma event_keeps:
  assumes "pendingAt p k pd" and "roomFor e p" and "cl_event write e (p, w) = (r, ds, p', w')"
    and "\<not> acknowledges e k"
  shows "\<exists>k'. pendingAt p' k' pd"
proof (cases e)
  case (EvSend l payload now)
  show ?thesis
  proof (cases "l = datagramLaneReliableUnordered \<or> l = datagramLaneReliableOrdered")
    case True
    obtain packet p1 where q: "cl_queueReliable l payload now p = (packet, p1)" by (cases "cl_queueReliable l payload now p")
    have "p' = p1" using assms(3) EvSend True q
      by (auto simp: cl_send_def sendReliable_def split: prod.splits)
    moreover have "cp_nextPacketSeq p \<noteq> k"
      using assms(1,2) EvSend by (auto simp: roomy_def pendingAt_def gm_keys_Some)
    ultimately show ?thesis
      using queue_pending [OF q] assms(1) by (intro exI [of _ k]) (auto simp: pendingAt_def)
  next
    case False
    then have "cp_pendingReliable p' = cp_pendingReliable p"
      using assms(3) EvSend by (auto simp: cl_send_def Let_def split: prod.splits)
    then show ?thesis using assms(1) pendingAt_frame by blast
  qed
next
  case (EvReceive now data)
  have "cl_receive now data p = (r, ds, p')" using assms(3) EvReceive by (auto split: prod.splits)
  from receive_pending [OF this] show ?thesis
    using assms(1,4) EvReceive
    by (intro exI [of _ k])
      (auto simp: pendingAt_def applyPeerAcksLocked_def map_of_filter_keys split: sum.splits)
next
  case (EvDueAck now)
  then have "cp_pendingReliable p' = cp_pendingReliable p"
    using assms(3) by (auto simp: sendDueAck_def Let_def split: prod.splits if_splits)
  then show ?thesis using assms(1) pendingAt_frame by blast
next
  case (EvRetry ks now)
  obtain x p1 where v: "retryVisits now ks [] p = (x, p1)" by (cases "retryVisits now ks [] p")
  have "cp_pendingReliable p' = cp_pendingReliable p1"
    using assms(3) EvRetry v
    by (auto simp: drainRetries_def Let_def split: prod.splits if_splits sum.splits)
  moreover have "\<exists>k'. pendingAt p1 k' pd" using retry_keeps [OF assms(1) _ v] assms(2) EvRetry by simp
  ultimately show ?thesis using pendingAt_frame by blast
next
  case (EvWrap payload)
  then have "cp_pendingReliable p' = cp_pendingReliable p"
    using assms(3) by (auto simp: wrapStreamPayload_def split: if_splits)
  then show ?thesis using assms(1) pendingAt_frame by blast
qed

text \<open>Every event of a run finds enough unused packet numbers.\<close>

fun roomyRun :: "(bytes \<Rightarrow> 'w \<Rightarrow> cdError option \<times> 'w) \<Rightarrow> clEvent list \<Rightarrow> clientProtocol \<times> 'w \<Rightarrow> bool" where
  "roomyRun write [] s = True"
| "roomyRun write (e # es) s \<longleftrightarrow> roomFor e (fst s) \<and> roomyRun write es (snd (snd (cl_event write e s)))"

lemma run_keeps:
  assumes "pendingAt (fst s) k pd" and "roomyRun write es s"
  shows "(\<exists>k'. pendingAt (fst (snd (cl_events write es s))) k' pd)
    \<or> (\<exists>fs e gs k'. es = fs @ e # gs \<and> pendingAt (fst (snd (cl_events write fs s))) k' pd \<and> acknowledges e k')"
  using assms
proof (induction es arbitrary: s k)
  case (Cons e es)
  obtain p w where s: "s = (p, w)" by (cases s)
  obtain r ds p' w' where ev: "cl_event write e (p, w) = (r, ds, p', w')"
    by (metis prod.exhaust)
  show ?case
  proof (cases "acknowledges e k")
    case True
    then show ?thesis using Cons.prems(1)
      by (intro disjI2 exI [of _ "[]"] exI [of _ e] exI [of _ es] exI [of _ k]) simp
  next
    case False
    obtain k' where k: "pendingAt p' k' pd"
      using event_keeps [OF _ _ ev False] Cons.prems s by auto
    have run: "cl_events write (e # fs) s = (ds @ fst (cl_events write fs (p', w')), snd (cl_events write fs (p', w')))" for fs
      using s ev by (simp split: prod.splits)
    have room: "roomyRun write es (p', w')" using Cons.prems(2) s ev by simp
    have "pendingAt (fst (p', w')) k' pd" using k by simp
    from Cons.IH [OF this room]
    consider "\<exists>k'. pendingAt (fst (snd (cl_events write es (p', w')))) k' pd"
      | fs f gs k2 where "es = fs @ f # gs" "pendingAt (fst (snd (cl_events write fs (p', w')))) k2 pd"
          "acknowledges f k2"
      by blast
    then show ?thesis
    proof cases
      case 1
      then show ?thesis using run by simp
    next
      case 2
      then show ?thesis using run [of fs]
        by (intro disjI2 exI [of _ "e # fs"] exI [of _ f] exI [of _ gs] exI [of _ k2]) simp
    qed
  qed
qed auto

text \<open>
  No reliable message is forgotten: whatever the
  client does after sending one, the message is still pending and will be retransmitted, or a
  datagram arrived that acknowledges the very packet number under which the message was pending
  at that moment.  Packet numbers must not be used up so fast that a number is reused while its
  message is pending.
\<close>

theorem client_keeps_until_acked:
  assumes "l = datagramLaneReliableUnordered \<or> l = datagramLaneReliableOrdered"
    and "cl_event write (EvSend l payload now) s = (r, ds, s1)" and "roomyRun write es s1"
  shows "\<exists>pd. dp_lane (pd_packet pd) = l \<and> dp_payload (pd_packet pd) = payload
    \<and> dp_messageID (pd_packet pd) = cp_nextMessageID (fst s) \<and> pd_queuedAt pd = now
    \<and> pendingAt (fst s1) (cp_nextPacketSeq (fst s)) pd
    \<and> ((\<exists>k. pendingAt (fst (snd (cl_events write es s1))) k pd)
       \<or> (\<exists>fs e gs k. es = fs @ e # gs \<and> pendingAt (fst (snd (cl_events write fs s1))) k pd \<and> acknowledges e k))"
proof -
  obtain packet p1 where q: "cl_queueReliable l payload now (fst s) = (packet, p1)"
    by (cases "cl_queueReliable l payload now (fst s)")
  have "fst s1 = p1" using assms(1,2) q by (auto simp: cl_send_def sendReliable_def split: prod.splits)
  with queue_pending [OF q] obtain pd where
    pd: "pd_packet pd = packet" "dp_lane packet = l" "dp_payload packet = payload" "pd_queuedAt pd = now"
      "dp_messageID packet = cp_nextMessageID (fst s)" "pendingAt (fst s1) (cp_nextPacketSeq (fst s)) pd"
    by (auto simp: pendingAt_def)
  from run_keeps [OF pd(6) assms(3)] show ?thesis using pd by (intro exI [of _ pd]) auto
qed

lemma sent_simps:
  "cl_event (\<lambda>_ w. (None, w)) (EvSend 3 [7] 1) (newClientProtocol 0, w) = (r, ds, s1)
     \<Longrightarrow> cp_pendingReliable (fst s1) = [(0, \<lparr>pd_packet = zero_packet\<lparr>dp_lane := 3, dp_payload := [7]\<rparr>,
           pd_queuedAt = 1, pd_lastSentAt = 1, pd_nextSendAt = 75000001, pd_attempts = 1\<rparr>)]
       \<and> cp_nextPacketSeq (fst s1) = 1"
  by (auto simp: cl_send_def sendReliable_def cl_queueReliable_def newClientProtocol_def cl_stamp_def
      zero_packet_def sw_new_def lane_defs Let_def split: prod.splits)

text \<open>A message that is retried after 75 ms is still pending, now as packet 1.\<close>

theorem client_keeps_until_acked_witness:
  "\<exists>k pd. dp_payload (pd_packet pd) = [7] \<and> pendingAt (fst (snd (cl_events (\<lambda>_ w. (None, w))
      [EvSend 3 [7] 1, EvRetry [0] 75000001] (newClientProtocol 0, ())))) k pd"
proof -
  let ?wr = "\<lambda>_ w. (None :: cdError option, w)" and ?s = "(newClientProtocol 0, ())"
  obtain r ds s1 where ev: "cl_event ?wr (EvSend 3 [7] 1) ?s = (r, ds, s1)" by (metis prod.exhaust)
  have l: "(3 :: datagramLane) = datagramLaneReliableUnordered \<or> (3 :: datagramLane) = datagramLaneReliableOrdered"
    by (simp add: lane_defs)
  have "roomyRun ?wr [EvRetry [0] 75000001] s1"
    using sent_simps [OF ev] by (simp add: roomy_def gm_keys_def)
  from client_keeps_until_acked [OF l ev this]
  obtain pd where pd: "dp_payload (pd_packet pd) = [7]"
    "(\<exists>k. pendingAt (fst (snd (cl_events ?wr [EvRetry [0] 75000001] s1))) k pd)
     \<or> (\<exists>fs e gs k. [EvRetry [0] 75000001] = fs @ e # gs
          \<and> pendingAt (fst (snd (cl_events ?wr fs s1))) k pd \<and> acknowledges e k)"
    by blast
  moreover have "\<not> acknowledges e k" if "[EvRetry [0] 75000001] = fs @ e # gs" for fs e gs k
    using that by (cases fs) auto
  ultimately have "\<exists>k. pendingAt (fst (snd (cl_events ?wr [EvRetry [0] 75000001] s1))) k pd" by blast
  moreover have "snd (cl_events ?wr [EvSend 3 [7] 1, EvRetry [0] 75000001] ?s)
      = snd (cl_events ?wr [EvRetry [0] 75000001] s1)"
    using ev by (simp split: prod.splits)
  ultimately show ?thesis using pd(1) by metis
qed

section \<open>Retries are complete\<close>

text \<open>
  A retry pass that visits every pending message either reports a stalled one or transmits
  every message that is due.
\<close>

lemma retry_sends_due:
  assumes "map_of (cp_pendingReliable p) k = Some pd" and "pd_nextSendAt pd \<le> now" and "k \<in> set ks"
    and "distinct ks" and "roomy (length ks) p" and "retryVisits now ks packets p = (Inr sent, p')"
  shows "set packets \<subseteq> set sent \<and> (\<exists>packet \<in> set sent. dp_lane packet = dp_lane (pd_packet pd)
    \<and> dp_messageID packet = dp_messageID (pd_packet pd) \<and> dp_payload packet = dp_payload (pd_packet pd))"
proof -
  have grows: "set packets \<subseteq> set sent" if "retryVisits now ks packets p = (Inr sent, p')" for ks packets p
    using that by (induction ks arbitrary: packets p) (fastforce simp: Let_def split: option.splits if_splits)+
  show ?thesis
    using assms
  proof (induction ks arbitrary: packets p)
    case (Cons seq ks)
    have room: "roomy (Suc (length ks)) p" using Cons.prems(5) by simp
    then have less: "roomy (length ks) p" by (auto simp: roomy_def)
    show ?case
    proof (cases "seq = k")
      case True
      then have rec: "retryVisits now ks (packets @ [pd_packet (retried now p pd)]) (storeRetried k (retried now p pd) p) = (Inr sent, p')"
        using Cons.prems(1,2,6) by (auto simp: Let_def split: if_splits)
      from grows [OF rec] show ?thesis by (intro conjI bexI [of _ "pd_packet (retried now p pd)"]) auto
    next
      case False
      then have k: "k \<in> set ks" "distinct ks" using Cons.prems(3,4) by auto
      show ?thesis
      proof (cases "map_of (cp_pendingReliable p) seq")
        case None
        then show ?thesis using Cons.IH [OF Cons.prems(1,2) k less] Cons.prems(6) by simp
      next
        case (Some pending)
        have "k \<noteq> cp_nextPacketSeq p"
          using Cons.prems(1) room by (auto simp: roomy_def gm_keys_Some dest: spec [of _ 0])
        then have st: "map_of (cp_pendingReliable (storeRetried seq (retried now p pending) p)) k = Some pd"
          using False Cons.prems(1) by (simp add: storeRetried_def)
        have "retryVisits now ks packets p = (Inr sent, p')
          \<or> retryVisits now ks (packets @ [pd_packet (retried now p pending)])
              (storeRetried seq (retried now p pending) p) = (Inr sent, p')"
          using Cons.prems(6) Some by (auto simp: Let_def split: if_splits)
        then show ?thesis
        proof
          assume "retryVisits now ks packets p = (Inr sent, p')"
          from Cons.IH [OF Cons.prems(1,2) k less this] show ?thesis .
        next
          assume "retryVisits now ks (packets @ [pd_packet (retried now p pending)])
              (storeRetried seq (retried now p pending) p) = (Inr sent, p')"
          from Cons.IH [OF st Cons.prems(2) k roomy_step [OF room] this] show ?thesis by simp
        qed
      qed
    qed
  qed simp
qed

section \<open>The ordered lane\<close>

lemma or_drain_spec:
  "or_drain n m = (ds, n', m') \<Longrightarrow> n' = n + of_nat (length ds) \<and> map_of m' n' = None
     \<and> (\<forall>i < length ds. map_of m (n + of_nat i) = Some (ds ! i))
     \<and> (\<forall>x d. map_of m' x = Some d \<longrightarrow> map_of m x = Some d)"
proof (induction n m arbitrary: ds rule: or_drain.induct)
  case (1 n m)
  show ?case
  proof (cases "map_of m n")
    case None
    then show ?thesis using 1(2) by (simp add: or_drain.simps)
  next
    case (Some d)
    obtain es where ds: "ds = d # es" and rec: "or_drain (n + 1) (AList.delete n m) = (es, n', m')"
      using 1(2) Some by (auto simp: or_drain.simps [of n m] split: prod.splits)
    note IH = 1(1) [OF Some rec]
    have sub: "map_of (AList.delete n m) x = Some y \<Longrightarrow> map_of m x = Some y" for x y
      by (simp split: if_splits)
    have "map_of m (n + of_nat i) = Some (ds ! i)" if "i < length ds" for i
    proof (cases i)
      case (Suc j)
      then have "map_of (AList.delete n m) (n + 1 + of_nat j) = Some (es ! j)" using IH that ds by simp
      from sub [OF this] show ?thesis using Suc ds by (simp add: ac_simps)
    qed (use Some ds in simp)
    moreover have "n' = n + of_nat (length ds)" using conjunct1 [OF IH] ds by (simp add: ac_simps)
    moreover have "map_of m' n' = None" using IH by blast
    moreover have "map_of m x = Some d" if "map_of m' x = Some d" for x d
      using IH that by (intro sub) blast
    ultimately show ?thesis by blast
  qed
qed

text \<open>
  \<open>A\<close> are the ordered packets that have arrived, \<open>out\<close> what has been handed over: a gapless
  run of sequence numbers, each with the payload of an arrived packet of that number.
\<close>

definition consecutive :: "datagramPacket set \<Rightarrow> u16 \<Rightarrow> bytes list \<Rightarrow> bool" where
  "consecutive A s out \<longleftrightarrow>
     (\<forall>i < length out. \<exists>k \<in> A. dp_orderedSeq k = s + of_nat i \<and> dp_payload k = out ! i)"

definition orderedOK :: "datagramPacket set \<Rightarrow> bytes list \<Rightarrow> cl_orderedReceiveState \<Rightarrow> bool" where
  "orderedOK A out o1 \<longleftrightarrow>
     (\<exists>s. consecutive A s out \<and> (co_init o1 \<longrightarrow> co_nextSeq o1 = s + of_nat (length out)))
     \<and> (\<not> co_init o1 \<longrightarrow> out = [])
     \<and> map_of (co_pending o1) (co_nextSeq o1) = None \<and> (\<not> co_init o1 \<longrightarrow> co_pending o1 = [])
     \<and> (\<forall>n d. map_of (co_pending o1) n = Some d \<longrightarrow> (\<exists>k \<in> A. dp_orderedSeq k = n \<and> dp_payload k = d))"

lemma consecutive_append:
  assumes "consecutive A s out" and "k \<in> A" and "dp_orderedSeq k = s + of_nat (length out)"
    and "\<And>i. i < length ds \<Longrightarrow> \<exists>k \<in> A. dp_orderedSeq k = s + of_nat (length out) + 1 + of_nat i \<and> dp_payload k = ds ! i"
  shows "consecutive A s (out @ dp_payload k # ds)"
  unfolding consecutive_def
proof (intro allI impI)
  fix i assume i: "i < length (out @ dp_payload k # ds)"
  consider "i < length out" | "i = length out" | "length out < i" by linarith
  then show "\<exists>k' \<in> A. dp_orderedSeq k' = s + of_nat i \<and> dp_payload k' = (out @ dp_payload k # ds) ! i"
  proof cases
    case 1
    then show ?thesis using assms(1) by (auto simp: consecutive_def nth_append)
  next
    case 2
    then show ?thesis using assms(2,3) by (intro bexI [of _ k]) auto
  next
    case 3
    define j where "j = i - length out - 1"
    have "i = length out + Suc j" "j < length ds" using 3 i by (simp_all add: j_def)
    then show ?thesis using assms(4) [of j] by (auto simp: nth_append ac_simps)
  qed
qed

lemma deliverOrdered_OK:
  assumes ok: "orderedOK A out o1" and k: "k \<in> A" and "deliverOrdered k now o1 = (e, ds, o2)"
  shows "orderedOK A (out @ ds) o2"
proof -
  define o' where "o' = (if co_init o1 then o1 else o1\<lparr>co_init := True, co_nextSeq := dp_orderedSeq k\<rparr>)"
  have ok': "orderedOK A out o'"
    using ok by (auto simp: orderedOK_def o'_def consecutive_def)
  have i: "co_init o'" by (simp add: o'_def)
  obtain s where s: "consecutive A s out" "co_nextSeq o' = s + of_nat (length out)"
    using ok' i by (auto simp: orderedOK_def)
  have pend: "\<And>n d. map_of (co_pending o') n = Some d \<Longrightarrow> \<exists>k \<in> A. dp_orderedSeq k = n \<and> dp_payload k = d"
    and none: "map_of (co_pending o') (co_nextSeq o') = None"
    using ok' by (auto simp: orderedOK_def)
  show ?thesis
  proof (cases "dp_orderedSeq k = co_nextSeq o'")
    case True
    obtain ds' n m where d: "or_drain (co_nextSeq o' + 1) (co_pending o') = (ds', n, m)" by (metis prod.exhaust)
    note D = or_drain_spec [OF d]
    have r: "ds = dp_payload k # ds'" "co_nextSeq o2 = n" "co_pending o2 = m" "co_init o2"
      using assms(3) True d i by (auto simp: deliverOrdered_def Let_def simp flip: o'_def)
    have "consecutive A s (out @ ds)"
      unfolding r(1) using D pend True s by (intro consecutive_append k) auto
    moreover have "co_nextSeq o2 = s + of_nat (length (out @ ds))" using r D s(2) by (simp add: ac_simps)
    ultimately show ?thesis using r D pend by (auto simp: orderedOK_def)
  next
    case False
    then have "ds = [] \<and> co_init o2 \<and> co_nextSeq o2 = co_nextSeq o'
      \<and> (co_pending o2 = co_pending o'
         \<or> co_pending o2 = AList.update (dp_orderedSeq k) (dp_payload k) (co_pending o'))"
      using assms(3) i by (auto simp: deliverOrdered_def Let_def split: if_splits simp flip: o'_def)
    then show ?thesis using False s pend none k by (auto simp: orderedOK_def split: if_splits)
  qed
qed

definition orderedOut :: "datagramDelivery list \<Rightarrow> bytes list" where
  "orderedOut ds = map dd_data (filter (\<lambda>d. dd_lane d = datagramLaneReliableOrdered) ds)"

definition orderedArrived :: "clEvent list \<Rightarrow> datagramPacket set" where
  "orderedArrived es = {k. \<exists>now data. EvReceive now data \<in> set es \<and> cl_decode data = Inr k
     \<and> dp_flags k AND datagramFlagAckOnly = 0 \<and> dp_lane k = datagramLaneReliableOrdered}"

lemma orderedOut_append [simp]: "orderedOut (a @ b) = orderedOut a @ orderedOut b"
  by (simp add: orderedOut_def)

lemma orderedOut_map [simp]:
  "orderedOut (map (\<lambda>d. \<lparr>dd_lane = datagramLaneReliableOrdered, dd_data = d\<rparr>) ds) = ds"
  by (induction ds) (auto simp: orderedOut_def)

lemma orderedOK_mono: "orderedOK A out o1 \<Longrightarrow> A \<subseteq> B \<Longrightarrow> orderedOK B out o1"
  unfolding orderedOK_def consecutive_def by blast

lemma retry_ordered: "retryVisits now ks packets p = (r, p') \<Longrightarrow> cp_orderedRecv p' = cp_orderedRecv p"
proof (induction ks arbitrary: packets p)
  case (Cons seq ks)
  have "cp_orderedRecv (storeRetried seq pd p) = cp_orderedRecv p" for pd by (simp add: storeRetried_def)
  then show ?case using Cons by (force simp: Let_def split: option.splits if_splits)
qed simp

lemma event_ordered:
  assumes "orderedOK A out (cp_orderedRecv p)" and "cl_event write e (p, w) = (r, ds, p', w')"
    and "orderedArrived [e] \<subseteq> A"
  shows "orderedOK A (out @ orderedOut ds) (cp_orderedRecv p')"
proof (cases e)
  case (EvReceive now data)
  have rc: "cl_receive now data p = (r, ds, p')" using assms(2) EvReceive by (auto split: prod.splits)
  show ?thesis
  proof (cases "\<exists>k. k \<in> orderedArrived [e] \<and> cl_decode data = Inr k")
    case False
    then have "orderedOut ds = [] \<and> cp_orderedRecv p' = cp_orderedRecv p"
      using rc EvReceive
      by (auto simp: cl_receive_def orderedArrived_def orderedOut_def applyPeerAcksLocked_def
          scheduleAckLocked_def Let_def case_prod_beta split: sum.splits if_splits)
    then show ?thesis using assms(1) by simp
  next
    case True
    then obtain k where k: "k \<in> A" "cl_decode data = Inr k" "dp_lane k = datagramLaneReliableOrdered"
      "dp_flags k AND datagramFlagAckOnly = 0"
      using assms(3) EvReceive by (auto simp: orderedArrived_def)
    obtain err ds1 o2 where d: "deliverOrdered k now (cp_orderedRecv p) = (err, ds1, o2)" by (metis prod.exhaust)
    have "(orderedOut ds = [] \<and> cp_orderedRecv p' = cp_orderedRecv p)
      \<or> (orderedOut ds = ds1 \<and> cp_orderedRecv p' = o2)"
      using rc k(2-) d
      by (auto simp: cl_receive_def applyPeerAcksLocked_def scheduleAckLocked_def Let_def case_prod_beta
          orderedOut_def comp_def split: if_splits)
    then show ?thesis using assms(1) deliverOrdered_OK [OF assms(1) k(1) d] by auto
  qed
next
  case (EvRetry ks now)
  obtain x p1 where v: "retryVisits now ks [] p = (x, p1)" by (cases "retryVisits now ks [] p")
  have "cp_orderedRecv p' = cp_orderedRecv p1 \<and> ds = []"
    using assms(2) EvRetry v by (auto simp: drainRetries_def Let_def split: prod.splits if_splits sum.splits)
  then show ?thesis using assms(1) retry_ordered [OF v] by (simp add: orderedOut_def)
qed (use assms in \<open>auto simp: cl_send_def sendReliable_def cl_queueReliable_def sendDueAck_def
    wrapStreamPayload_def orderedOut_def Let_def split: prod.splits if_splits\<close>)

lemma orderedArrived_Cons: "orderedArrived (e # es) = orderedArrived [e] \<union> orderedArrived es"
  by (auto simp: orderedArrived_def)

lemma events_ordered:
  assumes "orderedOK A out (cp_orderedRecv (fst s))" and "orderedArrived es \<subseteq> A"
  shows "orderedOK A (out @ orderedOut (fst (cl_events write es s)))
    (cp_orderedRecv (fst (snd (cl_events write es s))))"
  using assms
proof (induction es arbitrary: out s)
  case (Cons e es)
  obtain p w r ds p' w' where s: "s = (p, w)" and ev: "cl_event write e (p, w) = (r, ds, p', w')"
    by (metis prod.exhaust)
  have A: "orderedArrived [e] \<subseteq> A" "orderedArrived es \<subseteq> A"
    using Cons.prems(2) unfolding orderedArrived_Cons [of e es] by blast+
  have "orderedOK A (out @ orderedOut ds) (cp_orderedRecv p')"
    using event_ordered [OF _ ev A(1)] Cons.prems(1) s by simp
  from Cons.IH [of _ "(p', w')", simplified, OF this A(2)] show ?case
    unfolding s using ev by (cases "cl_events write es (p', w')") simp
qed (simp add: orderedOut_def)

text \<open>
  Whatever arrives, in whatever order and however
  often, the client hands over the reliable ordered lane as one gapless stream: the messages
  delivered carry consecutive sequence numbers, each with the payload of a packet that arrived
  under its number, and no message that could be next is left in the buffer.
\<close>

theorem client_ordered_stream:
  shows "\<exists>s. consecutive (orderedArrived es) s (orderedOut (fst (cl_events write es (newClientProtocol d, w))))
    \<and> (let o1 = cp_orderedRecv (fst (snd (cl_events write es (newClientProtocol d, w))))
       in map_of (co_pending o1) (co_nextSeq o1) = None
         \<and> (co_init o1 \<longrightarrow> co_nextSeq o1
              = s + of_nat (length (orderedOut (fst (cl_events write es (newClientProtocol d, w)))))))"
proof -
  have "orderedOK (orderedArrived es) [] (cp_orderedRecv (fst (newClientProtocol d, w)))"
    by (simp add: orderedOK_def consecutive_def newClientProtocol_def)
  from events_ordered [OF this subset_refl] show ?thesis
    by (auto simp: orderedOK_def Let_def)
qed

section \<open>Where the client differs\<close>

text \<open>
  The stream starts at the number of the first ordered packet that arrives: when it overtakes
  the server's first message, that message is dropped on arrival, although its packet is
  acknowledged and the server's own buffer delivers both.
\<close>

theorem overtaken_first_message_lost:
  assumes "dp_orderedSeq k1 = 1" and "dp_orderedSeq k0 = 0"
  shows "let o1 = snd (snd (deliverOrdered k1 now (cp_orderedRecv (newClientProtocol d))))
         in fst (snd (deliverOrdered k1 now (cp_orderedRecv (newClientProtocol d)))) = [dp_payload k1]
           \<and> deliverOrdered k0 now' o1 = (None, [], o1)"
    and "let o1 = snd (or_accept or_new 1 (dp_payload k1) now)
         in fst (or_accept or_new 1 (dp_payload k1) now) @ fst (or_accept o1 0 (dp_payload k0) now')
              = [dp_payload k0, dp_payload k1]"
proof -
  show "let o1 = snd (snd (deliverOrdered k1 now (cp_orderedRecv (newClientProtocol d))))
         in fst (snd (deliverOrdered k1 now (cp_orderedRecv (newClientProtocol d)))) = [dp_payload k1]
           \<and> deliverOrdered k0 now' o1 = (None, [], o1)"
    using assms
    by (simp add: deliverOrdered_def newClientProtocol_def or_drain.simps sequenceNewer_def
        gm_len_def word_less_nat_alt unat_diff_16)
  show "let o1 = snd (or_accept or_new 1 (dp_payload k1) now)
         in fst (or_accept or_new 1 (dp_payload k1) now) @ fst (or_accept o1 0 (dp_payload k0) now')
              = [dp_payload k0, dp_payload k1]"
    by (simp add: or_accept_def or_new_def seqGreater_dist unat_diff_16 or_drain.simps)
qed

text \<open>
  The attempt limit is checked before the deadline of the last attempt: the eighth transmission
  of a message is sent, and the next pass of the scheduler, whenever it runs, reports the
  message as stalled and closes the channel before an acknowledgement can arrive.  The
  server's scan skips a message in flight until its deadline has passed.
\<close>

theorem last_retry_unheard:
  assumes "map_of (cp_pendingReliable p) k = Some pd" and "\<not> retryStalled now pd"
    and "pd_nextSendAt pd \<le> now" and "pd_attempts pd + 1 = datagramReliableRetryLimit"
    and "retryVisits now [k] [] p = (Inr sent, p')"
  shows "sent = [cl_stamp p (pd_packet pd)]
    \<and> drainRetries write [cp_nextPacketSeq p] now' (p', w) = (Some errCdStalled, p', w)"
proof -
  have s: "sent = [pd_packet (retried now p pd)]" "p' = storeRetried k (retried now p pd) p"
    using assms by (auto simp: Let_def)
  have "map_of (cp_pendingReliable p') (cp_nextPacketSeq p) = Some (retried now p pd)"
    by (simp add: s storeRetried_def)
  moreover have "retryStalled now' (retried now p pd)" using assms(4) by (simp add: retryStalled_def)
  ultimately show ?thesis using s by (simp add: drainRetries_def)
qed

text \<open>
  The client checks the identifiers of ordered messages against the window of all reliable
  messages.  An ordered message that is more than 128 identifiers behind is dropped although it
  was never delivered; its packet is acknowledged, so the gap it leaves is never filled.
\<close>

theorem late_ordered_message_dropped:
  assumes "sw_init (cp_recvReliableMsg p)" and "cp_inv p"
    and "\<not> sequenceNewer (dp_messageID k) (sw_latest (cp_recvReliableMsg p))"
    and "unat (sw_latest (cp_recvReliableMsg p) - dp_messageID k) > 128"
    and "cl_decode data = Inr k" and "dp_flags k AND datagramFlagAckOnly = 0"
    and "dp_lane k = datagramLaneReliableOrdered"
    and "fst (cl_accept (cp_recvPackets p) (dp_packetSeq k))"
    and "cl_receive now data p = (e, ds, p')"
  shows "ds = [] \<and> e = None \<and> cp_orderedRecv p' = cp_orderedRecv p \<and> cp_ackDirty p'
    \<and> cp_recvPackets p' = snd (cl_accept (cp_recvPackets p) (dp_packetSeq k))"
proof -
  have ne: "dp_messageID k \<noteq> sw_latest (cp_recvReliableMsg p)" using assms(4) by auto
  then have "\<not> fst (cl_accept (cp_recvReliableMsg p) (dp_messageID k))"
    using assms(1,3,4) by (simp add: cl_accept_def sequenceDistance_def Let_def del: of_nat_unat)
  then show ?thesis using assms(5-)
    by (auto simp: cl_receive_def applyPeerAcksLocked_def scheduleAckLocked_def Let_def case_prod_beta)
qed

end
