(* ===== verification/World_Store.thy ===== *)
theory World_Store
  imports Golem_Prelude "HOL-Library.Char_ord" "HOL-Library.List_Lexorder"
begin

text \<open>
  The world-data store (\<^verbatim>\<open>golem/world/store.go\<close>) and the server's exclusion list for
  connect snapshots (\<^verbatim>\<open>golem/loop.go\<close>).  World data is user code behind an interface: a
  value type \<open>'d\<close> with the functions \<open>worldName\<close> and \<open>marshal\<close>.  The lemmas show that a
  snapshot does not depend on the order in which the runtime visits the map.
\<close>

section \<open>Operations\<close>

record 'd Store =
  ws_items :: "(string, 'd) gomap"

definition NewStore :: "'d Store" where
  "NewStore = \<lparr>ws_items = []\<rparr>"

definition ws_Set :: "('d \<Rightarrow> string) \<Rightarrow> 'd Store \<Rightarrow> 'd \<Rightarrow> 'd Store" where
  "ws_Set worldName s d = s\<lparr>ws_items := AList.update (worldName d) d (ws_items s)\<rparr>"

definition ws_Get :: "'d Store \<Rightarrow> string \<Rightarrow> 'd option" where
  "ws_Get s name = map_of (ws_items s) name"

fun marshalNames :: "('d \<Rightarrow> 'err + bytes) \<Rightarrow> 'd Store \<Rightarrow> string list \<Rightarrow> 'err + bytes list" where
  "marshalNames marshal s [] = Inr []"
| "marshalNames marshal s (name # names) =
     res_bind (marshal (the (map_of (ws_items s) name))) (\<lambda>data.
       res_bind (marshalNames marshal s names) (\<lambda>rest. Inr (data # rest)))"

text \<open>\<open>ks\<close> is the order in which the runtime visits the items.\<close>

definition MarshalAllExcept ::
  "('d \<Rightarrow> 'err + bytes) \<Rightarrow> string list \<Rightarrow> 'd Store \<Rightarrow> (string, unit) gomap \<Rightarrow> 'err + bytes list" where
  "MarshalAllExcept marshal ks s exclude =
     (if gm_len (ws_items s) = 0 then Inr []
      else let names = filter (\<lambda>name. map_of exclude name = None) ks
           in if length names = 0 then Inr []
              else marshalNames marshal s (sort names))"

definition MarshalAll :: "('d \<Rightarrow> 'err + bytes) \<Rightarrow> string list \<Rightarrow> 'd Store \<Rightarrow> 'err + bytes list" where
  "MarshalAll marshal ks s = MarshalAllExcept marshal ks s []"

fun excludeLoop :: "(string, unit) gomap \<Rightarrow> string list \<Rightarrow> string list \<Rightarrow> string list" where
  "excludeLoop found out [] = out"
| "excludeLoop found out (name # names) =
     (if name = '''' then excludeLoop found out names
      else if map_of found name \<noteq> None then excludeLoop found out names
      else excludeLoop (AList.update name () found) (out @ [name]) names)"

definition normalizeWorldSnapshotExclude :: "string list \<Rightarrow> string list" where
  "normalizeWorldSnapshotExclude names =
     (if length names = 0 then []
      else let out = excludeLoop [] [] names in if length out = 0 then [] else out)"

definition worldSnapshotExcludeSet :: "string list \<Rightarrow> (string, unit) gomap" where
  "worldSnapshotExcludeSet names =
     (if length names = 0 then [] else fold (\<lambda>name set. AList.update name () set) names [])"

section \<open>Properties\<close>

lemma excludeLoop_spec:
  "gm_keys found = set out \<Longrightarrow> distinct out \<Longrightarrow> '''' \<notin> set out \<Longrightarrow>
     distinct (excludeLoop found out names)
     \<and> set (excludeLoop found out names) = set out \<union> (set names - {''''})"
  by (induction found out names rule: excludeLoop.induct) (auto simp: gm_keys_None gm_keys_Some)

lemma excludeSet_keys: "gm_keys (worldSnapshotExcludeSet names) = set names"
proof -
  have "gm_keys (fold (\<lambda>name s. AList.update name () s) names m) = gm_keys m \<union> set names" for m
    by (induction names arbitrary: m) auto
  then show ?thesis by (simp add: worldSnapshotExcludeSet_def)
qed

text \<open>The names a snapshot with an exclusion list contains, in order.\<close>

definition snapshotNames :: "'d Store \<Rightarrow> string list \<Rightarrow> string list" where
  "snapshotNames s exclude = sorted_list_of_set (gm_keys (ws_items s) - set exclude)"

lemma sorted_names:
  assumes "iter_order ks (ws_items s)"
  shows "sort (filter (\<lambda>name. map_of (worldSnapshotExcludeSet ex) name = None) ks) = snapshotNames s ex"
proof -
  let ?ns = "filter (\<lambda>name. map_of (worldSnapshotExcludeSet ex) name = None) ks"
  have "distinct ?ns" "set ?ns = gm_keys (ws_items s) - set ex"
    using assms by (auto simp: iter_order_def gm_keys_None excludeSet_keys)
  then show ?thesis unfolding snapshotNames_def by (metis sorted_list_of_set_sort_remdups distinct_remdups_id)
qed

text \<open>
  The world snapshot sent to a client does not depend on the map iteration order: for every
  order, and for an exclusion list normalised by the server, it serialises the stored values
  whose non-empty name is not excluded, in ascending order of their names, and reports the
  first serialisation error.
\<close>

theorem world_snapshot_deterministic:
  assumes "iter_order ks (ws_items s)" and "'''' \<notin> gm_keys (ws_items s)"
  shows "MarshalAllExcept marshal ks s (worldSnapshotExcludeSet (normalizeWorldSnapshotExclude ex))
    = marshalNames marshal s (snapshotNames s ex)"
proof -
  have n: "set (normalizeWorldSnapshotExclude ex) = set ex - {''''}"
    using excludeLoop_spec [of "[]" "[]" ex] by (auto simp: normalizeWorldSnapshotExclude_def Let_def)
  have e: "snapshotNames s (normalizeWorldSnapshotExclude ex) = snapshotNames s ex"
    unfolding snapshotNames_def n using assms(2) by (intro arg_cong [of _ _ sorted_list_of_set]) auto
  let ?ns = "filter (\<lambda>name. map_of (worldSnapshotExcludeSet (normalizeWorldSnapshotExclude ex)) name = None) ks"
  have s: "sort ?ns = snapshotNames s ex" using sorted_names [OF assms(1)] e by simp
  show ?thesis
  proof (cases "ws_items s = [] \<or> ?ns = []")
    case True
    then have "snapshotNames s ex = []"
      using s by (cases "?ns = []") (simp_all add: snapshotNames_def [of s ex])
    then show ?thesis using True by (auto simp: MarshalAllExcept_def Let_def)
  next
    case False
    then show ?thesis using s by (simp add: MarshalAllExcept_def Let_def)
  qed
qed

theorem world_snapshot_deterministic_witness:
  "MarshalAllExcept (\<lambda>d. Inr d :: unit + bytes) [''b'', ''c'', ''a'']
     \<lparr>ws_items = [(''a'', [1]), (''b'', [2]), (''c'', [3])]\<rparr>
     (worldSnapshotExcludeSet (normalizeWorldSnapshotExclude [''c'', '''']))
   = marshalNames (\<lambda>d. Inr d) \<lparr>ws_items = [(''a'', [1]), (''b'', [2]), (''c'', [3])]\<rparr>
       (snapshotNames \<lparr>ws_items = [(''a'', [1]), (''b'', [2]), (''c'', [3 :: byte])]\<rparr> [''c'', ''''])"
  by (rule world_snapshot_deterministic) (auto simp: iter_order_def gm_keys_def)

end
