(* ===== verification/Registry.thy ===== *)
theory Registry
  imports Golem_Prelude
begin

text \<open>
  The entity registry (\<^verbatim>\<open>golem/registry\<close>): live entities, their owners, and the spawns
  and removals since the last flush.  Entities are user code behind an interface: the model
  takes the interface as a record of functions \<open>'e entityIface\<close>, and an entity value is a
  reference into a heap \<open>nat \<Rightarrow> 'e\<close>, because the registry keeps the same entity in several
  places and \<^verbatim>\<open>FlushUpdate\<close> changes it.  An optional interface is a function to an option:
  \<open>ei_PublicFullUpdate\<close> is \<open>None\<close> on an entity that is not an \<^verbatim>\<open>OwnerScopedEntity\<close>,
  \<open>ei_LastFlushMask\<close> on one that is not a \<^verbatim>\<open>ReplicationDeltaEntity\<close>.
\<close>

section \<open>Entities\<close>

record 'e entityIface =
  ei_EntityID :: "'e \<Rightarrow> int64"
  ei_TypeName :: "'e \<Rightarrow> string"
  ei_IsGlobal :: "'e \<Rightarrow> bool"
  ei_FlushUpdate :: "'e \<Rightarrow> (string + bytes option) \<times> 'e"
  ei_FullUpdate :: "'e \<Rightarrow> string + bytes option"
  ei_StateRevision :: "'e \<Rightarrow> u64 option"
  ei_PublicFullUpdate :: "'e \<Rightarrow> (string + bytes option) option"
  ei_PublicReplicationMask :: "'e \<Rightarrow> u64 \<Rightarrow> u64"
  ei_LastFlushMask :: "'e \<Rightarrow> u64 option"
  ei_MarshalDeltaMask :: "'e \<Rightarrow> u64 \<Rightarrow> string + bytes option"
  ei_MarshalCompactDeltaMask :: "'e \<Rightarrow> (u64 \<Rightarrow> string + bytes option) option"
  ei_Tick :: "'e \<Rightarrow> bool"
  ei_OnSpawn :: "'e \<Rightarrow> bool"
  ei_OnRemove :: "'e \<Rightarrow> bool"
  ei_SetEntityID :: "'e \<Rightarrow> (int64 \<Rightarrow> 'e) option"

type_synonym eref = nat
type_synonym 'e heap = "eref \<Rightarrow> 'e"

section \<open>State and operations\<close>

record FlushResult =
  fr_SpawnIDs :: "int64 list"
  fr_Spawns :: "bytes option list"
  fr_DeltaIDs :: "int64 list"
  fr_Deltas :: "bytes list"
  fr_Removals :: "int64 list"
  fr_RemovalRevisions :: "u64 list"

record Registry =
  rg_entities :: "(int64, eref) gomap"
  rg_owners :: "(int64, int64) gomap"
  rg_spawned :: "eref list"
  rg_despawned :: "int64 list"
  rg_despawnedRevision :: "u64 list"

datatype registryError =
    errAlreadyRegistered int64
  | errSpawning int64 string string
  | errFlushing int64 string string
  | errSnapshotting int64 string string

definition NewRegistry :: Registry where
  "NewRegistry = \<lparr>rg_entities = [], rg_owners = [], rg_spawned = [], rg_despawned = [], rg_despawnedRevision = []\<rparr>"

definition AddWithoutSpawn ::
  "'e entityIface \<Rightarrow> 'e heap \<Rightarrow> Registry \<Rightarrow> eref \<Rightarrow> registryError option \<times> Registry" where
  "AddWithoutSpawn ifc h r e =
     (let eid = ei_EntityID ifc (h e)
      in if map_of (rg_entities r) eid \<noteq> None then (Some (errAlreadyRegistered eid), r)
         else (None, r\<lparr>rg_entities := AList.update eid e (rg_entities r),
                       rg_spawned := rg_spawned r @ [e]\<rparr>))"

definition AddOwnedWithoutSpawn ::
  "'e entityIface \<Rightarrow> 'e heap \<Rightarrow> Registry \<Rightarrow> eref \<Rightarrow> int64 \<Rightarrow> registryError option \<times> Registry" where
  "AddOwnedWithoutSpawn ifc h r e ownerSessionID =
     (let eid = ei_EntityID ifc (h e)
      in if map_of (rg_entities r) eid \<noteq> None then (Some (errAlreadyRegistered eid), r)
         else (None, r\<lparr>rg_entities := AList.update eid e (rg_entities r),
                       rg_owners := AList.update eid ownerSessionID (rg_owners r),
                       rg_spawned := rg_spawned r @ [e]\<rparr>))"

text \<open>
  \<^verbatim>\<open>OnSpawn\<close>, \<^verbatim>\<open>OnRemove\<close> and \<^verbatim>\<open>Tick\<close> are user callbacks that run outside the
  lock; the model returns the entities they are called on, in order.
\<close>

definition NotifySpawn :: "'e entityIface \<Rightarrow> 'e heap \<Rightarrow> eref \<Rightarrow> eref list" where
  "NotifySpawn ifc h e = (if ei_OnSpawn ifc (h e) then [e] else [])"

definition reg_Add ::
  "'e entityIface \<Rightarrow> 'e heap \<Rightarrow> Registry \<Rightarrow> eref \<Rightarrow> registryError option \<times> eref list \<times> Registry" where
  "reg_Add ifc h r e =
     (case AddWithoutSpawn ifc h r e of
        (Some err, r) \<Rightarrow> (Some err, [], r)
      | (None, r) \<Rightarrow> (None, NotifySpawn ifc h e, r))"

definition reg_AddOwned ::
  "'e entityIface \<Rightarrow> 'e heap \<Rightarrow> Registry \<Rightarrow> eref \<Rightarrow> int64 \<Rightarrow> registryError option \<times> eref list \<times> Registry" where
  "reg_AddOwned ifc h r e ownerSessionID =
     (case AddOwnedWithoutSpawn ifc h r e ownerSessionID of
        (Some err, r) \<Rightarrow> (Some err, [], r)
      | (None, r) \<Rightarrow> (None, NotifySpawn ifc h e, r))"

definition reg_Owner :: "Registry \<Rightarrow> int64 \<Rightarrow> int64 option" where
  "reg_Owner r entityID = map_of (rg_owners r) entityID"

definition reg_SetOwner :: "Registry \<Rightarrow> int64 \<Rightarrow> int64 \<Rightarrow> bool \<times> Registry" where
  "reg_SetOwner r entityID sessionID =
     (if map_of (rg_entities r) entityID = None then (False, r)
      else (True, if sessionID = 0 then r\<lparr>rg_owners := AList.delete entityID (rg_owners r)\<rparr>
                  else r\<lparr>rg_owners := AList.update entityID sessionID (rg_owners r)\<rparr>))"

definition removalRevision :: "'e entityIface \<Rightarrow> 'e \<Rightarrow> u64" where
  "removalRevision ifc e = (case ei_StateRevision ifc e of Some v \<Rightarrow> v + 1 | None \<Rightarrow> 1)"

definition reg_DeleteEntity ::
  "'e entityIface \<Rightarrow> 'e heap \<Rightarrow> Registry \<Rightarrow> int64 \<Rightarrow> eref list \<times> Registry" where
  "reg_DeleteEntity ifc h r eid =
     (case map_of (rg_entities r) eid of
        None \<Rightarrow> ([], r)
      | Some e \<Rightarrow>
          (if ei_OnRemove ifc (h e) then [e] else [],
           r\<lparr>rg_entities := AList.delete eid (rg_entities r),
             rg_owners := AList.delete eid (rg_owners r),
             rg_despawned := rg_despawned r @ [eid],
             rg_despawnedRevision := rg_despawnedRevision r @ [removalRevision ifc (h e)]\<rparr>))"

definition reg_Get :: "Registry \<Rightarrow> int64 \<Rightarrow> eref option" where
  "reg_Get r eid = map_of (rg_entities r) eid"

definition reg_Len :: "Registry \<Rightarrow> nat" where
  "reg_Len r = gm_len (rg_entities r)"

text \<open>The entities in the order \<open>ks\<close> in which the runtime visits the map.\<close>

definition reg_All :: "int64 list \<Rightarrow> Registry \<Rightarrow> eref list" where
  "reg_All ks r = List.map_filter (map_of (rg_entities r)) ks"

definition reg_TickAll :: "'e entityIface \<Rightarrow> 'e heap \<Rightarrow> int64 list \<Rightarrow> Registry \<Rightarrow> eref list" where
  "reg_TickAll ifc h ks r = filter (\<lambda>e. ei_Tick ifc (h e)) (reg_All ks r)"

section \<open>Flushing\<close>

fun flushSpawns ::
  "'e entityIface \<Rightarrow> 'e heap \<Rightarrow> eref list \<Rightarrow> int64 set \<Rightarrow> FlushResult
     \<Rightarrow> (registryError option \<times> FlushResult) \<times> int64 set" where
  "flushSpawns ifc h [] spawnedIDs result = ((None, result), spawnedIDs)"
| "flushSpawns ifc h (e # es) spawnedIDs result =
     (let eid = ei_EntityID ifc (h e); spawnedIDs = insert eid spawnedIDs
      in case ei_FullUpdate ifc (h e) of
           Inl err \<Rightarrow> ((Some (errSpawning eid (ei_TypeName ifc (h e)) err), result), spawnedIDs)
         | Inr data \<Rightarrow>
             flushSpawns ifc h es spawnedIDs
               (result\<lparr>fr_SpawnIDs := fr_SpawnIDs result @ [eid], fr_Spawns := fr_Spawns result @ [data]\<rparr>))"

fun flushDeltas ::
  "'e entityIface \<Rightarrow> 'e heap \<Rightarrow> eref list \<Rightarrow> int64 set \<Rightarrow> FlushResult
     \<Rightarrow> (registryError option \<times> FlushResult) \<times> 'e heap" where
  "flushDeltas ifc h [] spawnedIDs result = ((None, result), h)"
| "flushDeltas ifc h (e # es) spawnedIDs result =
     (let eid = ei_EntityID ifc (h e)
      in if eid \<in> spawnedIDs then flushDeltas ifc h es spawnedIDs result
         else case ei_FlushUpdate ifc (h e) of
                (r, e') \<Rightarrow>
                  let typ = ei_TypeName ifc e'; h = h(e := e')
                  in case r of
                       Inl err \<Rightarrow> ((Some (errFlushing eid typ err), result), h)
                     | Inr None \<Rightarrow> flushDeltas ifc h es spawnedIDs result
                     | Inr (Some data) \<Rightarrow>
                         flushDeltas ifc h es spawnedIDs
                           (result\<lparr>fr_DeltaIDs := fr_DeltaIDs result @ [eid],
                                   fr_Deltas := fr_Deltas result @ [data]\<rparr>))"

definition emptyFlush :: FlushResult where
  "emptyFlush = \<lparr>fr_SpawnIDs = [], fr_Spawns = [], fr_DeltaIDs = [], fr_Deltas = [],
     fr_Removals = [], fr_RemovalRevisions = []\<rparr>"

text \<open>
  The slices \<^verbatim>\<open>Removals\<close> and \<^verbatim>\<open>RemovalRevisions\<close> that come back share their arrays
  with the registry; the model has their contents at the time of the return.
\<close>

definition reg_FlushAll ::
  "'e entityIface \<Rightarrow> int64 list \<Rightarrow> 'e heap \<Rightarrow> Registry
     \<Rightarrow> (registryError option \<times> FlushResult) \<times> 'e heap \<times> Registry" where
  "reg_FlushAll ifc ks h r =
     (case flushSpawns ifc h (rg_spawned r) {} emptyFlush of
        ((Some err, result), _) \<Rightarrow> ((Some err, result), h, r)
      | ((None, result), spawnedIDs) \<Rightarrow>
          (case flushDeltas ifc h (reg_All ks r) spawnedIDs result of
             ((Some err, result), h) \<Rightarrow> ((Some err, result), h, r)
           | ((None, result), h) \<Rightarrow>
               ((None, result\<lparr>fr_Removals := rg_despawned r, fr_RemovalRevisions := rg_despawnedRevision r\<rparr>),
                h, r\<lparr>rg_spawned := [], rg_despawned := [], rg_despawnedRevision := []\<rparr>)))"

fun snapshotLoop :: "'e entityIface \<Rightarrow> 'e heap \<Rightarrow> eref list \<Rightarrow> registryError + bytes option list" where
  "snapshotLoop ifc h [] = Inr []"
| "snapshotLoop ifc h (e # es) =
     (case ei_FullUpdate ifc (h e) of
        Inl err \<Rightarrow> Inl (errSnapshotting (ei_EntityID ifc (h e)) (ei_TypeName ifc (h e)) err)
      | Inr data \<Rightarrow> res_bind (snapshotLoop ifc h es) (\<lambda>ds. Inr (data # ds)))"

definition reg_SnapshotAll :: "'e entityIface \<Rightarrow> 'e heap \<Rightarrow> int64 list \<Rightarrow> Registry \<Rightarrow> registryError + bytes option list" where
  "reg_SnapshotAll ifc h ks r = snapshotLoop ifc h (reg_All ks r)"

section \<open>Invariant\<close>

text \<open>Keys are entity identifiers, only live entities have owners, revisions match removals.\<close>

definition rg_inv :: "'e entityIface \<Rightarrow> 'e heap \<Rightarrow> Registry \<Rightarrow> bool" where
  "rg_inv ifc h r \<longleftrightarrow> gm_wf (rg_entities r) \<and> gm_wf (rg_owners r)
     \<and> (\<forall>k e. map_of (rg_entities r) k = Some e \<longrightarrow> ei_EntityID ifc (h e) = k)
     \<and> gm_keys (rg_owners r) \<subseteq> gm_keys (rg_entities r)
     \<and> length (rg_despawned r) = length (rg_despawnedRevision r)"

lemma rg_inv_new: "rg_inv ifc h NewRegistry"
  by (simp add: rg_inv_def NewRegistry_def)

lemma AddWithoutSpawn_inv: "rg_inv ifc h r \<Longrightarrow> rg_inv ifc h (snd (AddWithoutSpawn ifc h r e))"
  by (auto simp: rg_inv_def AddWithoutSpawn_def Let_def split: if_splits)

lemma AddOwnedWithoutSpawn_inv: "rg_inv ifc h r \<Longrightarrow> rg_inv ifc h (snd (AddOwnedWithoutSpawn ifc h r e s))"
  by (auto simp: rg_inv_def AddOwnedWithoutSpawn_def Let_def split: if_splits)

lemma reg_SetOwner_inv: "rg_inv ifc h r \<Longrightarrow> rg_inv ifc h (snd (reg_SetOwner r i s))"
  by (auto simp: rg_inv_def reg_SetOwner_def gm_keys_Some split: if_splits)

lemma reg_DeleteEntity_inv: "rg_inv ifc h r \<Longrightarrow> rg_inv ifc h (snd (reg_DeleteEntity ifc h r i))"
  by (auto simp: rg_inv_def reg_DeleteEntity_def split: option.splits if_splits)

text \<open>What the generated entities promise: flushing does not change the identifier.\<close>

definition flush_keeps_id :: "'e entityIface \<Rightarrow> bool" where
  "flush_keeps_id ifc \<longleftrightarrow> (\<forall>e. ei_EntityID ifc (snd (ei_FlushUpdate ifc e)) = ei_EntityID ifc e)"

lemma flushSpawns_ok:
  "flushSpawns ifc h es S res = ((None, res'), S') \<Longrightarrow>
     S' = S \<union> set (map (\<lambda>e. ei_EntityID ifc (h e)) es)
     \<and> fr_SpawnIDs res' = fr_SpawnIDs res @ map (\<lambda>e. ei_EntityID ifc (h e)) es
     \<and> map Inr (fr_Spawns res') = map Inr (fr_Spawns res) @ map (\<lambda>e. ei_FullUpdate ifc (h e)) es
     \<and> fr_DeltaIDs res' = fr_DeltaIDs res \<and> fr_Deltas res' = fr_Deltas res"
  by (induction es arbitrary: S res) (auto simp: Let_def split: sum.splits)

text \<open>The delta an entity contributes to a flush.\<close>

definition deltaOf :: "'e entityIface \<Rightarrow> 'e heap \<Rightarrow> int64 set \<Rightarrow> eref \<Rightarrow> (int64 \<times> bytes) option" where
  "deltaOf ifc h S e =
     (if ei_EntityID ifc (h e) \<in> S then None
      else case fst (ei_FlushUpdate ifc (h e)) of
             Inr (Some d) \<Rightarrow> Some (ei_EntityID ifc (h e), d) | _ \<Rightarrow> None)"

lemma deltaOf_Some:
  "deltaOf ifc h S e = Some (k, d) \<longleftrightarrow>
     k = ei_EntityID ifc (h e) \<and> k \<notin> S \<and> fst (ei_FlushUpdate ifc (h e)) = Inr (Some d)"
  by (auto simp: deltaOf_def split: sum.splits option.splits)

lemma flushDeltas_ok:
  assumes "flushDeltas ifc h es S res = ((None, res'), h')" and "distinct es" and "flush_keeps_id ifc"
  shows "fr_DeltaIDs res' = fr_DeltaIDs res @ map fst (List.map_filter (deltaOf ifc h S) es)
    \<and> fr_Deltas res' = fr_Deltas res @ map snd (List.map_filter (deltaOf ifc h S) es)
    \<and> fr_SpawnIDs res' = fr_SpawnIDs res \<and> fr_Spawns res' = fr_Spawns res
    \<and> (\<forall>e. ei_EntityID ifc (h' e) = ei_EntityID ifc (h e))"
  using assms
proof (induction es arbitrary: h res)
  case (Cons e es)
  have other: "List.map_filter (deltaOf ifc (h(e := x)) S) es = List.map_filter (deltaOf ifc h S) es" for x
  proof -
    have "deltaOf ifc (h(e := x)) S y = deltaOf ifc h S y" if "y \<in> set es" for y
    proof -
      have "(h(e := x)) y = h y" using that Cons.prems(2) by auto
      then show ?thesis by (simp only: deltaOf_def)
    qed
    then show ?thesis unfolding List.map_filter_def by (intro map_cong filter_cong) auto
  qed
  obtain r e' where f: "ei_FlushUpdate ifc (h e) = (r, e')" by (cases "ei_FlushUpdate ifc (h e)")
  have eid: "ei_EntityID ifc e' = ei_EntityID ifc (h e)"
    using Cons.prems(3) f unfolding flush_keeps_id_def by (metis snd_conv)
  show ?case
  proof (cases "ei_EntityID ifc (h e) \<in> S")
    case True
    then show ?thesis using Cons.IH [of h res] Cons.prems
      by (simp add: deltaOf_def List.map_filter_simps)
  next
    case False
    show ?thesis
    proof (cases r)
      case (Inl err)
      then show ?thesis using Cons.prems(1) False f by (simp add: Let_def)
    next
      case (Inr d)
      let ?res = "case d of None \<Rightarrow> res | Some x \<Rightarrow> res\<lparr>fr_DeltaIDs := fr_DeltaIDs res @ [ei_EntityID ifc (h e)],
          fr_Deltas := fr_Deltas res @ [x]\<rparr>"
      have fl: "flushDeltas ifc (h(e := e')) es S ?res = ((None, res'), h')"
        using Cons.prems(1) False f Inr by (auto simp: Let_def split: option.splits)
      have "distinct es" using Cons.prems(2) by simp
      note R = Cons.IH [OF fl this Cons.prems(3), unfolded other]
      have "ei_EntityID ifc ((h(e := e')) x) = ei_EntityID ifc (h x)" for x by (simp add: eid)
      moreover have "deltaOf ifc h S e = (case d of None \<Rightarrow> None | Some x \<Rightarrow> Some (ei_EntityID ifc (h e), x))"
        using False f Inr by (simp add: deltaOf_def split: option.splits)
      ultimately show ?thesis using R by (cases d) (simp_all add: List.map_filter_simps)
    qed
  qed
qed simp

lemma map_filter_distinct:
  assumes "distinct (map g es)" and "\<And>e k x. f e = Some (k, x) \<Longrightarrow> k = g e"
  shows "distinct (map fst (List.map_filter f es))"
proof -
  have sub: "fst ` set (List.map_filter f es) \<subseteq> g ` set es" for es
    using assms(2) by (force simp: List.map_filter_def)
  show ?thesis using assms(1)
  proof (induction es)
    case (Cons e es)
    then show ?case using sub [of es] assms(2) [of e]
      by (force simp: List.map_filter_simps split: option.splits)
  qed (simp add: List.map_filter_simps)
qed

lemma reg_All_ids:
  assumes "rg_inv ifc h r" and "iter_order ks (rg_entities r)"
  shows "map (\<lambda>e. ei_EntityID ifc (h e)) (reg_All ks r) = ks"
    and "distinct (reg_All ks r)"
proof -
  have sub: "set ks \<subseteq> gm_keys (rg_entities r)" using assms(2) by (simp add: iter_order_def)
  then show ids: "map (\<lambda>e. ei_EntityID ifc (h e)) (reg_All ks r) = ks"
  proof (induction ks)
    case (Cons k ks)
    then obtain e where "map_of (rg_entities r) k = Some e" by (auto simp: gm_keys_Some)
    then show ?case using Cons assms(1) by (auto simp: reg_All_def List.map_filter_simps rg_inv_def)
  qed (simp add: reg_All_def List.map_filter_simps)
  have "distinct ks" using assms(2) by (simp add: iter_order_def)
  then show "distinct (reg_All ks r)" using ids by (metis distinct_map)
qed

text \<open>
  C15.  A successful flush splits the world cleanly.  Every entity added since the last flush is in
  the spawns with its full state, in order of addition; every other live entity that changed is
  in the deltas exactly once, with its own identifier; no entity is in both; the identifiers
  pair one to one with the data; the removals are those since the last flush; and the tracking
  is reset while the live entities and owners stay.  All of this holds for every order in which
  the runtime visits the map.
\<close>

theorem flush_partition:
  assumes "rg_inv ifc h r" and "iter_order ks (rg_entities r)" and "flush_keeps_id ifc"
    and "reg_FlushAll ifc ks h r = ((None, res), h', r')"
  shows "fr_SpawnIDs res = map (\<lambda>e. ei_EntityID ifc (h e)) (rg_spawned r)
    \<and> map Inr (fr_Spawns res) = map (\<lambda>e. ei_FullUpdate ifc (h e)) (rg_spawned r)
    \<and> distinct (fr_DeltaIDs res) \<and> set (fr_SpawnIDs res) \<inter> set (fr_DeltaIDs res) = {}
    \<and> set (zip (fr_DeltaIDs res) (fr_Deltas res)) =
        {(k, d). \<exists>e. map_of (rg_entities r) k = Some e \<and> k \<notin> set (fr_SpawnIDs res)
                   \<and> fst (ei_FlushUpdate ifc (h e)) = Inr (Some d)}
    \<and> length (fr_Deltas res) = length (fr_DeltaIDs res)
    \<and> fr_Removals res = rg_despawned r \<and> length (fr_RemovalRevisions res) = length (fr_Removals res)
    \<and> r' = r\<lparr>rg_spawned := [], rg_despawned := [], rg_despawnedRevision := []\<rparr> \<and> rg_inv ifc h' r'"
proof -
  obtain r1 S where s: "flushSpawns ifc h (rg_spawned r) {} emptyFlush = ((None, r1), S)"
    using assms(4) by (auto simp: reg_FlushAll_def split: prod.splits option.splits)
  obtain r2 where d: "flushDeltas ifc h (reg_All ks r) S r1 = ((None, r2), h')"
    and res: "res = r2\<lparr>fr_Removals := rg_despawned r, fr_RemovalRevisions := rg_despawnedRevision r\<rparr>"
    and r': "r' = r\<lparr>rg_spawned := [], rg_despawned := [], rg_despawnedRevision := []\<rparr>"
    using assms(4) s by (auto simp: reg_FlushAll_def split: prod.splits option.splits)
  note A = reg_All_ids [OF assms(1,2)]
  note S = flushSpawns_ok [OF s] and D = flushDeltas_ok [OF d A(2) assms(3)]
  let ?ps = "List.map_filter (deltaOf ifc h S) (reg_All ks r)"
  have ids: "fr_DeltaIDs res = map fst ?ps" "fr_Deltas res = map snd ?ps" and sp: "S = set (fr_SpawnIDs res)"
    using S D res by (simp_all add: emptyFlush_def)
  have in_ps: "(k, x) \<in> set ?ps \<longleftrightarrow> (\<exists>e\<in>set (reg_All ks r). deltaOf ifc h S e = Some (k, x))" for k x
    by (force simp: List.map_filter_def image_iff)
  have all: "e \<in> set (reg_All ks r) \<longleftrightarrow> map_of (rg_entities r) (ei_EntityID ifc (h e)) = Some e" for e
  proof -
    have "e \<in> set (reg_All ks r) \<longleftrightarrow> (\<exists>k\<in>set ks. map_of (rg_entities r) k = Some e)"
      by (force simp: reg_All_def List.map_filter_def image_iff)
    also have "\<dots> \<longleftrightarrow> (\<exists>k. map_of (rg_entities r) k = Some e)"
      using assms(2) by (auto simp: iter_order_def gm_keys_Some)
    finally show ?thesis using assms(1) by (auto simp: rg_inv_def)
  qed
  have set_ps: "set ?ps = {(k, d). \<exists>e. map_of (rg_entities r) k = Some e \<and> k \<notin> S
                   \<and> fst (ei_FlushUpdate ifc (h e)) = Inr (Some d)}"
  proof (rule set_eqI)
    fix kd :: "int64 \<times> bytes"
    obtain k d where kd: "kd = (k, d)" by (cases kd)
    have "ei_EntityID ifc (h e) = k" if "map_of (rg_entities r) k = Some e" for e
      using that assms(1) by (simp add: rg_inv_def)
    then show "kd \<in> set ?ps \<longleftrightarrow> kd \<in> {(k, d). \<exists>e. map_of (rg_entities r) k = Some e \<and> k \<notin> S
                   \<and> fst (ei_FlushUpdate ifc (h e)) = Inr (Some d)}"
      unfolding kd in_ps by (auto simp: Bex_def all deltaOf_Some)
  qed
  have "distinct (map fst ?ps)"
    using A assms(2) by (intro map_filter_distinct [where g = "\<lambda>e. ei_EntityID ifc (h e)"])
      (auto simp: iter_order_def deltaOf_def split: if_splits sum.splits option.splits)
  moreover have "set (fr_SpawnIDs res) \<inter> fst ` set ?ps = {}" using set_ps sp by auto
  moreover have "rg_inv ifc h' r'" using assms(1) r' D by (simp add: rg_inv_def)
  ultimately show ?thesis
    using S D res r' ids sp set_ps assms(1) by (simp add: emptyFlush_def zip_map_fst_snd rg_inv_def)
qed

text \<open>An entity type for examples: identifier, pending delta, full state.\<close>

record demoEntity =
  de_id :: int64
  de_delta :: "bytes option"
  de_full :: bytes

definition demoIface :: "demoEntity entityIface" where
  "demoIface = \<lparr>ei_EntityID = de_id, ei_TypeName = (\<lambda>_. ''Demo''), ei_IsGlobal = (\<lambda>_. False),
     ei_FlushUpdate = (\<lambda>e. (Inr (de_delta e), e\<lparr>de_delta := None\<rparr>)),
     ei_FullUpdate = (\<lambda>e. Inr (Some (de_full e))), ei_StateRevision = (\<lambda>_. Some 4),
     ei_PublicFullUpdate = (\<lambda>_. None), ei_PublicReplicationMask = (\<lambda>_ m. m),
     ei_LastFlushMask = (\<lambda>_. None), ei_MarshalDeltaMask = (\<lambda>_ _. Inr None),
     ei_MarshalCompactDeltaMask = (\<lambda>_. None),
     ei_Tick = (\<lambda>_. False), ei_OnSpawn = (\<lambda>_. False), ei_OnRemove = (\<lambda>_. False),
     ei_SetEntityID = (\<lambda>e. Some (\<lambda>i. e\<lparr>de_id := i\<rparr>))\<rparr>"

definition demoHeap :: "demoEntity heap" where
  "demoHeap e = \<lparr>de_id = of_nat e, de_delta = Some [9], de_full = [1, 2]\<rparr>"

definition demoRegistry :: Registry where
  "demoRegistry = \<lparr>rg_entities = [(1, 1), (2, 2)], rg_owners = [], rg_spawned = [2],
     rg_despawned = [7], rg_despawnedRevision = [5]\<rparr>"

theorem flush_partition_witness:
  "\<exists>res h' r'. reg_FlushAll demoIface [2, 1] demoHeap demoRegistry = ((None, res), h', r')
     \<and> fr_SpawnIDs res = [2] \<and> distinct (fr_DeltaIDs res) \<and> fr_Removals res = [7]"
proof -
  have inv: "rg_inv demoIface demoHeap demoRegistry"
    by (simp add: rg_inv_def demoIface_def demoHeap_def demoRegistry_def gm_keys_def split: if_splits)
  have it: "iter_order [2, 1] (rg_entities demoRegistry)"
    by (auto simp: iter_order_def demoRegistry_def gm_keys_def)
  have fk: "flush_keeps_id demoIface" by (simp add: flush_keeps_id_def demoIface_def)
  obtain res h' r' where f: "reg_FlushAll demoIface [2, 1] demoHeap demoRegistry = ((None, res), h', r')"
    by (simp add: reg_FlushAll_def demoRegistry_def demoIface_def demoHeap_def reg_All_def
        List.map_filter_simps emptyFlush_def)
  from flush_partition [OF inv it fk f] f show ?thesis
    by (simp add: demoRegistry_def) (simp add: demoIface_def demoHeap_def)
qed

end
