(* ===== verification/Snapshot.thy ===== *)
theory Snapshot
  imports Registry Pb_Codec
begin

text \<open>
  Snapshot files (\<^verbatim>\<open>golem/snapshot/snapshot.go\<close>) and their use by the server
  (\<^verbatim>\<open>golem/snapshot_api.go\<close>).  The file system is a map from paths to contents; the
  outcomes of \<^verbatim>\<open>os.WriteFile\<close> and \<^verbatim>\<open>os.Rename\<close>, and the clock, are arguments.  A
  string of the source is its bytes.
\<close>

section \<open>Records and errors\<close>

record snapRecord =
  rec_EntityID :: int64
  rec_TypeName :: bytes
  rec_StateData :: bytes

datatype snapshotError =
    errSerializing int64
  | errWritingTemp
  | errRenaming
  | errReading
  | errTooShort
  | errMagic
  | errVersion u32
  | ErrFingerprintMismatch
  | errUnexpectedEnd nat nat
  | snapPanic pb_panic

definition magic :: bytes where
  "magic = [0x47, 0x4C, 0x4D, 0x01]"

definition fileFormatVersion :: u32 where
  "fileFormatVersion = 1"

text \<open>What \<^verbatim>\<open>save\<close> asks of an entity: the interface plus the optional \<^verbatim>\<open>Persister\<close>.\<close>

record snapEntity =
  se_EntityID :: int64
  se_TypeName :: bytes
  se_FullUpdate :: "string + bytes option"
  se_IsPersistent :: "bool option"

section \<open>Saving\<close>

fun collectRecords :: "snapEntity list \<Rightarrow> snapRecord list \<Rightarrow> snapshotError + snapRecord list" where
  "collectRecords [] records = Inr records"
| "collectRecords (e # es) records =
     (if se_IsPersistent e = Some False then collectRecords es records
      else case se_FullUpdate e of
             Inl err \<Rightarrow> Inl (errSerializing (se_EntityID e))
           | Inr None \<Rightarrow> collectRecords es records
           | Inr (Some data) \<Rightarrow>
               collectRecords es (records @
                 [\<lparr>rec_EntityID = se_EntityID e, rec_TypeName = se_TypeName e, rec_StateData = data\<rparr>]))"

definition w_record :: "snapRecord \<Rightarrow> pbWriter \<Rightarrow> pbWriter" where
  "w_record r w = w_Bytes (w_String (w_Int64 w (rec_EntityID r)) (rec_TypeName r)) (rec_StateData r)"

definition encodeSnapshot :: "int64 \<Rightarrow> bytes \<Rightarrow> snapRecord list \<Rightarrow> bytes" where
  "encodeSnapshot now fingerprint records =
     (let w = w_Raw w_empty magic;
          w = w_Uint32 w fileFormatVersion;
          w = w_Int64 w now;
          w = w_String w fingerprint;
          w = w_Uint32 w (of_nat (length records))
      in w_Finish (fold w_record records w))"

type_synonym fs = "bytes \<Rightarrow> bytes option"

text \<open>\<open>wr\<close>: \<open>None\<close> when the write succeeds, else what it left in the file; \<open>rn\<close>: the rename succeeds.\<close>

definition tmp_path :: "bytes \<Rightarrow> bytes" where
  "tmp_path path = path @ [0x2E, 0x74, 0x6D, 0x70]"

definition save ::
  "int64 \<Rightarrow> bytes option option \<Rightarrow> bool \<Rightarrow> snapEntity list \<Rightarrow> bytes \<Rightarrow> bytes \<Rightarrow> fs
     \<Rightarrow> snapshotError option \<times> fs" where
  "save now wr rn entities fingerprint path fs =
     (case collectRecords entities [] of
        Inl e \<Rightarrow> (Some e, fs)
      | Inr records \<Rightarrow>
          (let encoded = encodeSnapshot now fingerprint records;
               tmp = tmp_path path
           in case wr of
                Some partial \<Rightarrow> (Some errWritingTemp, fs(tmp := partial))
              | None \<Rightarrow>
                  (let fs = fs(tmp \<mapsto> encoded)
                   in if rn then (None, fs(path := fs tmp, tmp := None))
                      else (Some errRenaming, fs(tmp := None)))))"

section \<open>Loading\<close>

definition r_lift :: "pb_panic + 'a \<Rightarrow> snapshotError + 'a" where
  "r_lift x = (case x of Inl p \<Rightarrow> Inl (snapPanic p) | Inr y \<Rightarrow> Inr y)"

definition r_record :: "pbReader \<Rightarrow> snapshotError + snapRecord \<times> pbReader" where
  "r_record r =
     res_bind (r_lift (r_Int64 r)) (\<lambda>(i, r).
     res_bind (r_lift (r_String r)) (\<lambda>(t, r).
     res_bind (r_lift (r_Bytes r)) (\<lambda>(d, r).
       Inr (\<lparr>rec_EntityID = i, rec_TypeName = t, rec_StateData = d\<rparr>, r))))"

fun loadRecords :: "nat \<Rightarrow> nat \<Rightarrow> pbReader \<Rightarrow> snapRecord list \<Rightarrow> snapshotError + snapRecord list" where
  "loadRecords 0 count r records = Inr records"
| "loadRecords (Suc n) count r records =
     (if r_Done r then Inl (errUnexpectedEnd (count - Suc n) count)
      else res_bind (r_record r) (\<lambda>(rec, r). loadRecords n count r (records @ [rec])))"

text \<open>\<open>data\<close> is the result of \<^verbatim>\<open>os.ReadFile\<close>, which allocates no spare capacity that matters.\<close>

definition decodeSnapshot :: "bytes \<Rightarrow> bytes \<Rightarrow> snapshotError + snapRecord list" where
  "decodeSnapshot data expectedFingerprint =
     (if length data < 4 then Inl errTooShort
      else if take 4 data \<noteq> magic then Inl errMagic
      else
        res_bind (r_lift (r_Uint32 (NewReader (drop 4 data) []))) (\<lambda>(version, r).
        if version \<noteq> fileFormatVersion then Inl (errVersion version)
        else
          res_bind (r_lift (r_Int64 r)) (\<lambda>(_, r).
          res_bind (r_lift (r_String r)) (\<lambda>(storedFingerprint, r).
          if storedFingerprint \<noteq> expectedFingerprint then Inl ErrFingerprintMismatch
          else
            res_bind (r_lift (r_Uint32 r)) (\<lambda>(count, r).
            loadRecords (unat count) (unat count) r [])))))"

definition Load :: "fs \<Rightarrow> bytes \<Rightarrow> bytes \<Rightarrow> snapshotError + snapRecord list" where
  "Load fs path expectedFingerprint =
     (case fs path of None \<Rightarrow> Inl errReading | Some data \<Rightarrow> decodeSnapshot data expectedFingerprint)"


section \<open>Reading back what was written\<close>

definition rdr :: "bytes \<Rightarrow> bytes \<Rightarrow> pbReader" where
  "rdr pre rest = \<lparr>r_buf = pre @ rest, r_spare = [], r_pos = int (length pre)\<rparr>"

definition lp_bytes :: "bytes \<Rightarrow> bytes" where
  "lp_bytes v = uvarint_bytes (of_nat (length v)) @ v"

definition rec_bytes :: "snapRecord \<Rightarrow> bytes" where
  "rec_bytes r = uvarint_bytes (rec_EntityID r) @ lp_bytes (rec_TypeName r) @ lp_bytes (rec_StateData r)"

lemma w_buf_lp [simp]: "w_buf (w_Bytes w v) = w_buf w @ lp_bytes v" "w_buf (w_String w v) = w_buf w @ lp_bytes v"
  by (simp_all add: w_Bytes_def w_String_def lp_bytes_def Let_def)

lemma w_buf_records: "w_buf (fold w_record rs w) = w_buf w @ concat (map rec_bytes rs)"
  by (induction rs arbitrary: w) (simp_all add: w_record_def w_Int64_def rec_bytes_def)

lemma encodeSnapshot_bytes:
  "encodeSnapshot now fp rs = magic @ uvarint_bytes (ucast fileFormatVersion) @ uvarint_bytes now @ lp_bytes fp
     @ uvarint_bytes (ucast (of_nat (length rs) :: u32)) @ concat (map rec_bytes rs)"
  by (simp add: encodeSnapshot_def Let_def w_Finish_def w_buf_records w_Raw_def w_Uint32_def w_Int64_def w_empty_def)

lemma r_uvarint_rdr: "r_uvarint (rdr pre (uvarint_bytes v @ rest)) = Inr (v, rdr (pre @ uvarint_bytes v) rest)"
  using r_uvarint_bytes [of "rdr pre (uvarint_bytes v @ rest)" pre v rest] by (simp add: rdr_def)

lemma r_Uint32_rdr [simp]: "r_Uint32 (rdr pre (uvarint_bytes (ucast v) @ rest)) = Inr (v, rdr (pre @ uvarint_bytes (ucast v)) rest)"
  by (simp add: r_Uint32_def r_uvarint_rdr)

lemma r_Int64_rdr [simp]: "r_Int64 (rdr pre (uvarint_bytes v @ rest)) = Inr (v, rdr (pre @ uvarint_bytes v) rest)"
  by (simp add: r_Int64_def r_uvarint_rdr)

lemma r_lp_rdr [simp]:
  assumes "length v < 2 ^ 63"
  shows "r_Bytes (rdr pre (lp_bytes v @ rest)) = Inr (v, rdr (pre @ lp_bytes v) rest)"
    and "r_String (rdr pre (lp_bytes v @ rest)) = Inr (v, rdr (pre @ lp_bytes v) rest)"
  using r_Bytes_at [OF assms refl, of "\<lparr>w_buf = pre\<rparr>" rest "[]"] by (simp_all add: rd_at_def rdr_def)

lemma r_Done_rdr: "r_Done (rdr pre rest) \<longleftrightarrow> rest = []"
  by (simp add: r_Done_def rdr_def)

lemma r_lift_Inr [simp]: "r_lift (Inr x) = Inr x"
  by (simp add: r_lift_def)

definition rec_small :: "snapRecord \<Rightarrow> bool" where
  "rec_small r \<longleftrightarrow> length (rec_TypeName r) < 2 ^ 63 \<and> length (rec_StateData r) < 2 ^ 63"

lemma r_record_rdr:
  "rec_small rc \<Longrightarrow> r_record (rdr pre (rec_bytes rc @ rest)) = Inr (rc, rdr (pre @ rec_bytes rc) rest)"
  by (simp add: r_record_def rec_bytes_def rec_small_def)

lemma loadRecords_rdr:
  "list_all rec_small rs \<Longrightarrow>
   loadRecords (length rs) n (rdr pre (concat (map rec_bytes rs) @ rest)) acc = Inr (acc @ rs)"
proof (induction rs arbitrary: pre acc)
  case (Cons rc rs)
  have "\<not> r_Done (rdr pre (rec_bytes rc @ concat (map rec_bytes rs) @ rest))"
    by (simp add: r_Done_rdr rec_bytes_def)
  with Cons show ?case by (simp add: r_record_rdr)
qed simp

lemma decode_encodeSnapshot:
  assumes "list_all rec_small rs" "length rs < 2 ^ 32" "length fp < 2 ^ 63"
  shows "decodeSnapshot (encodeSnapshot now fp rs) fp' =
    (if fp = fp' then Inr rs else Inl ErrFingerprintMismatch)"
proof -
  have m: "length magic = 4" by (simp add: magic_def)
  have n: "NewReader x [] = rdr [] x" for x by (simp add: NewReader_def rdr_def)
  have c: "unat (of_nat (length rs) :: u32) = length rs"
    using assms(2) by (simp add: unat_of_nat take_bit_nat_eq_self)
  show ?thesis
    using assms loadRecords_rdr [OF assms(1), of "length rs" _ "[]" "[]"]
    by (simp add: decodeSnapshot_def encodeSnapshot_bytes m n c)
qed

text \<open>What a snapshot must hold: the persistent entities with data, in registry order.\<close>

definition persistedRecord :: "snapEntity \<Rightarrow> snapRecord option" where
  "persistedRecord e =
     (if se_IsPersistent e = Some False then None
      else case se_FullUpdate e of
             Inr (Some d) \<Rightarrow> Some \<lparr>rec_EntityID = se_EntityID e, rec_TypeName = se_TypeName e, rec_StateData = d\<rparr>
           | _ \<Rightarrow> None)"

definition fails :: "snapEntity \<Rightarrow> bool" where
  "fails e \<longleftrightarrow> se_IsPersistent e \<noteq> Some False \<and> isl (se_FullUpdate e)"

lemma collectRecords_spec:
  "collectRecords es acc =
     (case find fails es of
        Some e \<Rightarrow> Inl (errSerializing (se_EntityID e))
      | None \<Rightarrow> Inr (acc @ List.map_filter persistedRecord es))"
  by (induction es arbitrary: acc)
     (auto simp: fails_def persistedRecord_def map_filter_simps split: option.splits sum.splits)

lemma tmp_path_neq [simp]: "tmp_path p \<noteq> p" "p \<noteq> tmp_path p"
  by (simp_all add: tmp_path_def)

text \<open>A save that reports success can be loaded.\<close>

lemma save_loads:
  assumes "save now wr rn entities fingerprint path fs = (None, fs')"
    and "list_all rec_small (List.map_filter persistedRecord entities)"
    and "length (List.map_filter persistedRecord entities) < 2 ^ 32" and "length fingerprint < 2 ^ 63"
  shows "Load fs' path fingerprint = Inr (List.map_filter persistedRecord entities)"
  using assms(1) decode_encodeSnapshot [OF assms(2-4), of now fingerprint]
  by (auto simp: save_def Let_def Load_def collectRecords_spec split: option.splits if_splits)

text \<open>
  C17.  Saving and loading.  If the write and the rename succeed and no persistent entity
  fails to serialise, \<^verbatim>\<open>Load\<close> with the same fingerprint returns exactly the persistent
  entities that have data, in order, and with any other fingerprint it returns
  \<^verbatim>\<open>ErrFingerprintMismatch\<close>; the temporary file is gone and no other file changed.
\<close>

theorem snapshot_roundtrip:
  assumes "find fails entities = None"
    and "list_all rec_small (List.map_filter persistedRecord entities)"
    and "length (List.map_filter persistedRecord entities) < 2 ^ 32" and "length fingerprint < 2 ^ 63"
    and "save now None True entities fingerprint path fs = (err, fs')"
  shows "err = None
    \<and> (\<forall>fp. Load fs' path fp = (if fp = fingerprint then Inr (List.map_filter persistedRecord entities)
                             else Inl ErrFingerprintMismatch))
    \<and> fs' (tmp_path path) = None
    \<and> (\<forall>p. p = path \<or> p = tmp_path path \<or> fs' p = fs p)"
proof -
  have e: "collectRecords entities [] = Inr (List.map_filter persistedRecord entities)"
    by (simp add: collectRecords_spec assms(1))
  note s = assms(5) [unfolded save_def Let_def e, simplified]
  have "err = None" "fs' (tmp_path path) = None" "\<forall>p. p = path \<or> p = tmp_path path \<or> fs' p = fs p"
    using s by (auto split: if_splits)
  moreover have "Load fs' path fp = (if fp = fingerprint then Inr (List.map_filter persistedRecord entities)
                             else Inl ErrFingerprintMismatch)" for fp
    using s decode_encodeSnapshot [OF assms(2,3,4), of now fp] by (auto simp: Load_def)
  ultimately show ?thesis by blast
qed

text \<open>
  A save that fails, in an entity, in the write of the temporary file or in
  the rename, leaves the previous snapshot at \<open>path\<close>, and so what \<^verbatim>\<open>Load\<close> returns,
  untouched, and changes no other file than the temporary one.
\<close>

theorem failed_save_keeps_snapshot:
  assumes "save now wr rn entities fingerprint path fs = (Some err, fs')"
  shows "Load fs' path fp = Load fs path fp \<and> (\<forall>p. p \<noteq> tmp_path path \<longrightarrow> fs' p = fs p)
    \<and> (\<forall>e. err = errSerializing e \<longleftrightarrow> (\<exists>x. find fails entities = Some x \<and> e = se_EntityID x))"
  using assms by (auto simp: save_def Let_def Load_def collectRecords_spec split: option.splits if_splits)


text \<open>A world of three entities, one of them not persistent.\<close>

definition demoSnapEntity :: "int64 \<Rightarrow> bool option \<Rightarrow> snapEntity" where
  "demoSnapEntity i p = \<lparr>se_EntityID = i, se_TypeName = [0x4E], se_FullUpdate = Inr (Some [1, 2]), se_IsPersistent = p\<rparr>"

theorem snapshot_roundtrip_witness:
  "\<exists>fs'. save 9 None True [demoSnapEntity 1 None, demoSnapEntity 2 (Some False), demoSnapEntity 3 (Some True)] [7] [0x61] (\<lambda>_. None)
      = (None, fs')
    \<and> Load fs' [0x61] [7] = Inr [\<lparr>rec_EntityID = 1, rec_TypeName = [0x4E], rec_StateData = [1, 2]\<rparr>,
                                  \<lparr>rec_EntityID = 3, rec_TypeName = [0x4E], rec_StateData = [1, 2]\<rparr>]
    \<and> Load fs' [0x61] [8] = Inl ErrFingerprintMismatch"
proof -
  let ?es = "[demoSnapEntity 1 None, demoSnapEntity 2 (Some False), demoSnapEntity 3 (Some True)]"
  obtain err fs' where s: "save 9 None True ?es [7] [0x61] (\<lambda>_. None) = (err, fs')"
    by (cases "save 9 None True ?es [7] [0x61] (\<lambda>_. None)") auto
  have f: "find fails ?es = None" by (simp add: fails_def demoSnapEntity_def)
  have m: "List.map_filter persistedRecord ?es =
      [\<lparr>rec_EntityID = 1, rec_TypeName = [0x4E], rec_StateData = [1, 2]\<rparr>,
       \<lparr>rec_EntityID = 3, rec_TypeName = [0x4E], rec_StateData = [1, 2]\<rparr>]"
    by (simp add: map_filter_simps persistedRecord_def demoSnapEntity_def)
  have l: "list_all rec_small (List.map_filter persistedRecord ?es)"
    "length (List.map_filter persistedRecord ?es) < 2 ^ 32" "length [7 :: byte] < 2 ^ 63"
    unfolding m by (simp_all add: rec_small_def)
  note R = snapshot_roundtrip [OF f l s, unfolded m]
  show ?thesis using R s by auto
qed

theorem failed_save_keeps_snapshot_witness:
  "\<exists>err fs'. save 9 None False [demoSnapEntity 1 None] [7] [0x61] [[0x61] \<mapsto> [5]] = (Some err, fs')
    \<and> Load fs' [0x61] [7] = Load [[0x61] \<mapsto> [5]] [0x61] [7]"
proof -
  have "fst (save 9 None False [demoSnapEntity 1 None] [7] [0x61] [[0x61] \<mapsto> [5]]) = Some errRenaming"
    by (simp add: save_def demoSnapEntity_def Let_def)
  then obtain fs' where s: "save 9 None False [demoSnapEntity 1 None] [7] [0x61] [[0x61] \<mapsto> [5]] = (Some errRenaming, fs')"
    by (metis prod.collapse)
  show ?thesis using s failed_save_keeps_snapshot [OF s, of "[7]"] by blast
qed

end
