(* ===== verification/Visibility.thy ===== *)
theory Visibility
  imports Golem_Prelude
begin

text \<open>
  The visibility policy (\<^verbatim>\<open>golem/visibility/manager.go\<close>): named groups that gate the
  replication of entities to sessions.  The specification of a manager is a policy: the group
  of every entity (the empty string for a public one) and the groups of every session.  Every
  operation refines its effect on the policy, the counter of grouped entities is exact, and
  the generation changes exactly when the policy does.
\<close>

section \<open>State and operations\<close>

text \<open>A set of group names is a \<^verbatim>\<open>map[string]struct{}\<close>, a map to \<open>unit\<close>.\<close>

record Manager =
  vm_entityGroup :: "(int64, string) gomap"
  vm_sessionGroups :: "(int64, (string, unit) gomap) gomap"
  vm_groupedCount :: int
  vm_generation :: u64

definition NewManager :: Manager where
  "NewManager = \<lparr>vm_entityGroup = [], vm_sessionGroups = [], vm_groupedCount = 0, vm_generation = 0\<rparr>"

definition Generation :: "Manager \<Rightarrow> u64" where
  "Generation m = vm_generation m"

definition bump :: "Manager \<Rightarrow> Manager" where
  "bump m = m\<lparr>vm_generation := vm_generation m + 1\<rparr>"

text \<open>Reading a string map: the zero value is the empty string.\<close>

definition EntityGroup :: "Manager \<Rightarrow> int64 \<Rightarrow> string" where
  "EntityGroup m entityID = (case map_of (vm_entityGroup m) entityID of None \<Rightarrow> '''' | Some g \<Rightarrow> g)"

definition SetEntityGroup :: "Manager \<Rightarrow> int64 \<Rightarrow> string \<Rightarrow> string \<times> Manager" where
  "SetEntityGroup m entityID grp =
     (let previous = EntityGroup m entityID
      in if grp = '''' then
           (previous,
            if previous \<noteq> '''' then
              bump (m\<lparr>vm_entityGroup := AList.delete entityID (vm_entityGroup m),
                      vm_groupedCount := vm_groupedCount m - 1\<rparr>)
            else m)
         else if previous = grp then (previous, m)
         else
           (let m = (if previous = '''' then m\<lparr>vm_groupedCount := vm_groupedCount m + 1\<rparr> else m)
            in (previous, bump (m\<lparr>vm_entityGroup := AList.update entityID grp (vm_entityGroup m)\<rparr>))))"

definition JoinGroup :: "Manager \<Rightarrow> int64 \<Rightarrow> string \<Rightarrow> Manager" where
  "JoinGroup m sessionID grp =
     (if grp = '''' then m
      else
        (let (groups, m) =
           (case map_of (vm_sessionGroups m) sessionID of
              Some groups \<Rightarrow> (groups, m)
            | None \<Rightarrow> ([], m\<lparr>vm_sessionGroups := AList.update sessionID [] (vm_sessionGroups m)\<rparr>))
         in if map_of groups grp \<noteq> None then m
            else bump (m\<lparr>vm_sessionGroups :=
                   AList.update sessionID (AList.update grp () groups) (vm_sessionGroups m)\<rparr>)))"

definition LeaveGroup :: "Manager \<Rightarrow> int64 \<Rightarrow> string \<Rightarrow> Manager" where
  "LeaveGroup m sessionID grp =
     (case map_of (vm_sessionGroups m) sessionID of
        None \<Rightarrow> m
      | Some groups \<Rightarrow>
          if map_of groups grp = None then m
          else
            (let groups = AList.delete grp groups;
                 m = m\<lparr>vm_sessionGroups := AList.update sessionID groups (vm_sessionGroups m)\<rparr>
             in bump (if gm_len groups = 0
                      then m\<lparr>vm_sessionGroups := AList.delete sessionID (vm_sessionGroups m)\<rparr> else m)))"

definition RemoveSession :: "Manager \<Rightarrow> int64 \<Rightarrow> Manager" where
  "RemoveSession m sessionID =
     (if map_of (vm_sessionGroups m) sessionID = None then m
      else bump (m\<lparr>vm_sessionGroups := AList.delete sessionID (vm_sessionGroups m)\<rparr>))"

definition RemoveEntity :: "Manager \<Rightarrow> int64 \<Rightarrow> Manager" where
  "RemoveEntity m entityID =
     (case map_of (vm_entityGroup m) entityID of
        None \<Rightarrow> m
      | Some prev \<Rightarrow>
          if prev \<noteq> '''' then
            bump (m\<lparr>vm_entityGroup := AList.delete entityID (vm_entityGroup m),
                    vm_groupedCount := vm_groupedCount m - 1\<rparr>)
          else bump (m\<lparr>vm_entityGroup := AList.delete entityID (vm_entityGroup m)\<rparr>))"

definition Allows :: "Manager \<Rightarrow> int64 \<Rightarrow> int64 \<Rightarrow> bool" where
  "Allows m sessionID entityID =
     (case map_of (vm_entityGroup m) entityID of
        None \<Rightarrow> True
      | Some grp \<Rightarrow>
          if grp = '''' then True
          else (case map_of (vm_sessionGroups m) sessionID of
                  None \<Rightarrow> False
                | Some groups \<Rightarrow> map_of groups grp \<noteq> None))"

definition HasGroupedEntities :: "Manager \<Rightarrow> bool" where
  "HasGroupedEntities m \<longleftrightarrow> vm_groupedCount m > 0"

definition InGroup :: "Manager \<Rightarrow> int64 \<Rightarrow> string \<Rightarrow> bool" where
  "InGroup m sessionID grp =
     (if grp = '''' then False
      else case map_of (vm_sessionGroups m) sessionID of
             None \<Rightarrow> False
           | Some groups \<Rightarrow> map_of groups grp \<noteq> None)"

section \<open>The policy\<close>

definition groups_of :: "Manager \<Rightarrow> int64 \<Rightarrow> string set" where
  "groups_of m s = (case map_of (vm_sessionGroups m) s of None \<Rightarrow> {} | Some g \<Rightarrow> gm_keys g)"

type_synonym policy = "(int64 \<Rightarrow> string) \<times> (int64 \<Rightarrow> string set)"

definition vm_policy :: "Manager \<Rightarrow> policy" where
  "vm_policy m = (EntityGroup m, groups_of m)"

lemma Allows_groups: "Allows m s e \<longleftrightarrow> EntityGroup m e = '''' \<or> EntityGroup m e \<in> groups_of m s"
  by (auto simp: Allows_def EntityGroup_def groups_of_def gm_keys_dom split: option.splits)

text \<open>
  No empty group is stored, no session is stored without a group, and the counter is the
  number of stored entities.
\<close>

definition vm_inv :: "Manager \<Rightarrow> bool" where
  "vm_inv m \<longleftrightarrow> gm_wf (vm_entityGroup m) \<and> gm_wf (vm_sessionGroups m)
     \<and> (\<forall>e g. map_of (vm_entityGroup m) e = Some g \<longrightarrow> g \<noteq> '''')
     \<and> (\<forall>s g. map_of (vm_sessionGroups m) s = Some g \<longrightarrow> gm_wf g \<and> g \<noteq> [] \<and> '''' \<notin> gm_keys g)
     \<and> vm_groupedCount m = int (gm_len (vm_entityGroup m))"

text \<open>The operations that change a manager, and what each means for the policy.\<close>

datatype vm_op =
    OpSetEntityGroup int64 string
  | OpJoinGroup int64 string
  | OpLeaveGroup int64 string
  | OpRemoveSession int64
  | OpRemoveEntity int64

fun vm_apply :: "vm_op \<Rightarrow> Manager \<Rightarrow> Manager" where
  "vm_apply (OpSetEntityGroup e g) m = snd (SetEntityGroup m e g)"
| "vm_apply (OpJoinGroup s g) m = JoinGroup m s g"
| "vm_apply (OpLeaveGroup s g) m = LeaveGroup m s g"
| "vm_apply (OpRemoveSession s) m = RemoveSession m s"
| "vm_apply (OpRemoveEntity e) m = RemoveEntity m e"

fun policy_apply :: "vm_op \<Rightarrow> policy \<Rightarrow> policy" where
  "policy_apply (OpSetEntityGroup e g) (eg, sg) = (eg(e := g), sg)"
| "policy_apply (OpJoinGroup s g) (eg, sg) = (eg, if g = '''' then sg else sg(s := insert g (sg s)))"
| "policy_apply (OpLeaveGroup s g) (eg, sg) = (eg, sg(s := sg s - {g}))"
| "policy_apply (OpRemoveSession s) (eg, sg) = (eg, sg(s := {}))"
| "policy_apply (OpRemoveEntity e) (eg, sg) = (eg(e := ''''), sg)"

lemma vm_inv_new: "vm_inv NewManager"
  by (simp add: vm_inv_def NewManager_def gm_len_def)

lemma vm_inv_bump [simp]: "vm_inv (bump m) = vm_inv m"
  by (simp add: vm_inv_def bump_def)

lemma vm_policy_bump [simp]: "vm_policy (bump m) = vm_policy m"
  by (auto simp: vm_policy_def bump_def EntityGroup_def groups_of_def fun_eq_iff)

lemma EntityGroup_dom: "vm_inv m \<Longrightarrow> EntityGroup m e \<noteq> '''' \<longleftrightarrow> e \<in> dom (map_of (vm_entityGroup m))"
  by (auto simp: EntityGroup_def vm_inv_def split: option.splits)

lemma policy_entity_delete:
  "vm_policy (m\<lparr>vm_entityGroup := AList.delete e (vm_entityGroup m), vm_groupedCount := c\<rparr>)
     = ((EntityGroup m)(e := ''''), groups_of m)"
  by (auto simp: vm_policy_def EntityGroup_def groups_of_def fun_eq_iff)

lemma policy_entity_update:
  "vm_policy (m\<lparr>vm_groupedCount := c, vm_entityGroup := AList.update e g (vm_entityGroup m)\<rparr>)
     = ((EntityGroup m)(e := g), groups_of m)"
  by (auto simp: vm_policy_def EntityGroup_def groups_of_def fun_eq_iff)

lemma SetEntityGroup_ok:
  assumes "vm_inv m"
  shows "vm_inv (snd (SetEntityGroup m e g))
    \<and> vm_policy (snd (SetEntityGroup m e g)) = ((EntityGroup m)(e := g), groups_of m)
    \<and> fst (SetEntityGroup m e g) = EntityGroup m e"
proof -
  have wf: "gm_wf (vm_entityGroup m)" using assms by (simp add: vm_inv_def)
  note len = gm.len_put [OF wf, of e g] gm.len_del [OF wf, of e]
  have len1: "gm_len (vm_entityGroup m) > 0" if "e \<in> dom (map_of (vm_entityGroup m))"
    using that by (auto simp: gm_len_def)
  consider "g = ''''" "EntityGroup m e = ''''" | "g = ''''" "EntityGroup m e \<noteq> ''''"
    | "g \<noteq> ''''" "EntityGroup m e = g" | "g \<noteq> ''''" "EntityGroup m e \<noteq> g" by blast
  then show ?thesis
  proof cases
    case 1
    then show ?thesis using assms
      by (auto simp: SetEntityGroup_def vm_policy_def fun_eq_iff)
  next
    case 2
    then have d: "e \<in> dom (map_of (vm_entityGroup m))" using EntityGroup_dom [OF assms] by blast
    have "vm_inv (m\<lparr>vm_entityGroup := AList.delete e (vm_entityGroup m), vm_groupedCount := vm_groupedCount m - 1\<rparr>)"
      using assms d len1 [OF d] len(2) by (auto simp: vm_inv_def of_nat_diff)
    with 2 show ?thesis by (simp add: SetEntityGroup_def policy_entity_delete Let_def)
  next
    case 3
    then show ?thesis using assms by (auto simp: SetEntityGroup_def vm_policy_def fun_eq_iff)
  next
    case 4
    define c where "c = (if EntityGroup m e = '''' then vm_groupedCount m + 1 else vm_groupedCount m)"
    let ?m = "m\<lparr>vm_groupedCount := c, vm_entityGroup := AList.update e g (vm_entityGroup m)\<rparr>"
    have "vm_inv ?m"
      using assms 4 len(1) EntityGroup_dom [OF assms, of e]
      by (auto simp: vm_inv_def c_def split: if_splits)
    moreover have "snd (SetEntityGroup m e g) = bump ?m"
      using 4 by (auto simp: SetEntityGroup_def c_def Let_def)
    ultimately show ?thesis using 4 by (simp add: policy_entity_update) (simp add: SetEntityGroup_def Let_def)
  qed
qed

lemma RemoveEntity_ok:
  assumes "vm_inv m"
  shows "vm_inv (RemoveEntity m e) \<and> vm_policy (RemoveEntity m e) = ((EntityGroup m)(e := ''''), groups_of m)"
proof -
  have "RemoveEntity m e = snd (SetEntityGroup m e '''')"
    using assms by (auto simp: RemoveEntity_def SetEntityGroup_def EntityGroup_def vm_inv_def Let_def
        split: option.splits)
  then show ?thesis using SetEntityGroup_ok [OF assms, of e "''''"] by simp
qed

text \<open>Replacing the group set of one session.\<close>

lemma session_update:
  assumes "vm_inv m" and "gm_wf gs" and "gs \<noteq> []" and "'''' \<notin> gm_keys gs"
  shows "vm_inv (m\<lparr>vm_sessionGroups := AList.update s gs (vm_sessionGroups m)\<rparr>)
    \<and> vm_policy (m\<lparr>vm_sessionGroups := AList.update s gs (vm_sessionGroups m)\<rparr>)
        = (EntityGroup m, (groups_of m)(s := gm_keys gs))"
  using assms by (auto simp: vm_inv_def vm_policy_def EntityGroup_def groups_of_def fun_eq_iff split: if_splits)

lemma session_delete:
  assumes "vm_inv m"
  shows "vm_inv (m\<lparr>vm_sessionGroups := AList.delete s (vm_sessionGroups m)\<rparr>)
    \<and> vm_policy (m\<lparr>vm_sessionGroups := AList.delete s (vm_sessionGroups m)\<rparr>)
        = (EntityGroup m, (groups_of m)(s := {}))"
  using assms by (auto simp: vm_inv_def vm_policy_def EntityGroup_def groups_of_def fun_eq_iff split: if_splits)

lemma update_update: "AList.update k v (AList.update k w m) = AList.update k v m"
  by (induction m) (auto simp: update.simps)

lemma JoinGroup_ok:
  assumes "vm_inv m"
  shows "vm_inv (JoinGroup m s g) \<and> vm_policy (JoinGroup m s g)
    = (EntityGroup m, if g = '''' then groups_of m else (groups_of m)(s := insert g (groups_of m s)))"
proof (cases "g = ''''")
  case True
  then show ?thesis using assms by (simp add: JoinGroup_def vm_policy_def)
next
  case g: False
  define gs where "gs = (case map_of (vm_sessionGroups m) s of None \<Rightarrow> [] | Some gs \<Rightarrow> gs)"
  have gs: "gm_wf gs" "'''' \<notin> gm_keys gs" "gm_keys gs = groups_of m s"
    using assms by (auto simp: gs_def vm_inv_def groups_of_def split: option.splits)
  show ?thesis
  proof (cases "map_of gs g = None")
    case True
    have ne: "AList.update g () gs \<noteq> []" using gm_keys_update [of g "()" gs] by fastforce
    have "JoinGroup m s g = bump (m\<lparr>vm_sessionGroups := AList.update s (AList.update g () gs) (vm_sessionGroups m)\<rparr>)"
      using g True by (auto simp: JoinGroup_def gs_def update_update split: option.splits)
    then show ?thesis
      using session_update [OF assms, of "AList.update g () gs" s] gs g ne by auto
  next
    case False
    then have "g \<in> gm_keys gs" unfolding gm_keys_None by (rule notnotD)
    then have "g \<in> groups_of m s" unfolding gs(3) .
    moreover have "JoinGroup m s g = m"
      using g False by (cases "map_of (vm_sessionGroups m) s") (simp_all add: JoinGroup_def gs_def)
    ultimately show ?thesis using assms g by (simp add: vm_policy_def insert_absorb)
  qed
qed

lemma LeaveGroup_ok:
  assumes "vm_inv m"
  shows "vm_inv (LeaveGroup m s g) \<and> vm_policy (LeaveGroup m s g)
    = (EntityGroup m, (groups_of m)(s := groups_of m s - {g}))"
proof (cases "map_of (vm_sessionGroups m) s")
  case None
  then show ?thesis using assms
    by (auto simp: LeaveGroup_def vm_policy_def groups_of_def fun_eq_iff)
next
  case (Some gs)
  have gs: "gm_wf gs" "'''' \<notin> gm_keys gs" "gm_keys gs = groups_of m s"
    using assms Some by (auto simp: vm_inv_def groups_of_def)
  show ?thesis
  proof (cases "map_of gs g = None")
    case True
    then have "g \<notin> groups_of m s" using gs(3) by (simp add: gm_keys_None)
    then show ?thesis using assms Some True by (auto simp: LeaveGroup_def vm_policy_def fun_eq_iff)
  next
    case False
    let ?gs = "AList.delete g gs"
    have del: "AList.delete s (AList.update s x ms) = AList.delete s ms" for x ms
      by (induction ms) (auto simp: update.simps delete_simps)
    have L: "LeaveGroup m s g = bump (if ?gs = [] then m\<lparr>vm_sessionGroups := AList.delete s (vm_sessionGroups m)\<rparr>
        else m\<lparr>vm_sessionGroups := AList.update s ?gs (vm_sessionGroups m)\<rparr>)"
      using Some False by (auto simp: LeaveGroup_def Let_def del)
    show ?thesis
    proof (cases "?gs = []")
      case True
      then have "groups_of m s - {g} = {}" using gs(3) gm_keys_delete [of g gs] by simp
      with L True session_delete [OF assms, of s] show ?thesis
        by (simp only: if_True vm_inv_bump vm_policy_bump refl simp_thms)
    next
      case ne: False
      then show ?thesis using L session_update [OF assms, of ?gs s] gs by auto
    qed
  qed
qed

lemma RemoveSession_ok:
  assumes "vm_inv m"
  shows "vm_inv (RemoveSession m s) \<and> vm_policy (RemoveSession m s) = (EntityGroup m, (groups_of m)(s := {}))"
proof (cases "map_of (vm_sessionGroups m) s")
  case None
  then show ?thesis using assms
    by (auto simp: RemoveSession_def vm_policy_def groups_of_def fun_eq_iff)
next
  case (Some gs)
  then show ?thesis using session_delete [OF assms, of s] by (simp add: RemoveSession_def)
qed

lemma vm_apply_ok: "vm_inv m \<Longrightarrow> vm_inv (vm_apply op m) \<and> vm_policy (vm_apply op m) = policy_apply op (vm_policy m)"
  by (cases op) (simp_all add: SetEntityGroup_ok JoinGroup_ok LeaveGroup_ok RemoveSession_ok RemoveEntity_ok
      vm_policy_def [of m])

lemma vm_run_ok:
  "vm_inv m \<Longrightarrow> vm_inv (fold vm_apply ops m) \<and> vm_policy (fold vm_apply ops m) = fold policy_apply ops (vm_policy m)"
  by (induction ops arbitrary: m) (simp_all add: vm_apply_ok)

lemma grouped_iff: "vm_inv m \<Longrightarrow> HasGroupedEntities m \<longleftrightarrow> (\<exists>e. EntityGroup m e \<noteq> '''')"
  using EntityGroup_dom [of m] gm.len_0_iff [of "vm_entityGroup m"]
  by (auto simp: HasGroupedEntities_def vm_inv_def gm_len_def domIff)

text \<open>
  C16.  After any sequence of policy operations on a fresh manager, the manager answers according to
  the policy those operations describe: a session may receive an entity exactly when the entity
  is public or the session is a member of its group, membership is as joined and left, and the
  fast-path test \<open>HasGroupedEntities\<close>, a counter, is true exactly when some entity has a group.
\<close>

theorem visibility_policy:
  "Allows (fold vm_apply ops NewManager) s e
     = (fst (fold policy_apply ops (\<lambda>_. '''', \<lambda>_. {})) e = ''''
        \<or> fst (fold policy_apply ops (\<lambda>_. '''', \<lambda>_. {})) e \<in> snd (fold policy_apply ops (\<lambda>_. '''', \<lambda>_. {})) s)
   \<and> EntityGroup (fold vm_apply ops NewManager) e = fst (fold policy_apply ops (\<lambda>_. '''', \<lambda>_. {})) e
   \<and> InGroup (fold vm_apply ops NewManager) s g
     = (g \<noteq> '''' \<and> g \<in> snd (fold policy_apply ops (\<lambda>_. '''', \<lambda>_. {})) s)
   \<and> HasGroupedEntities (fold vm_apply ops NewManager)
     = (\<exists>e. fst (fold policy_apply ops (\<lambda>_. '''', \<lambda>_. {})) e \<noteq> '''')"
proof -
  define m where "m = fold vm_apply ops NewManager"
  define P where "P = fold policy_apply ops (\<lambda>_. '''', \<lambda>_. {})"
  have "vm_policy NewManager = (\<lambda>_. '''', \<lambda>_. {})"
    by (simp add: vm_policy_def NewManager_def EntityGroup_def groups_of_def fun_eq_iff)
  then have inv: "vm_inv m" and pol: "vm_policy m = P"
    using vm_run_ok [OF vm_inv_new, of ops] by (auto simp: m_def P_def)
  then have E: "EntityGroup m = fst P" "groups_of m = snd P" by (auto simp: vm_policy_def)
  moreover note Allows_groups [of m s e]
  moreover have "InGroup m s g = (g \<noteq> '''' \<and> g \<in> groups_of m s)"
    by (auto simp: InGroup_def groups_of_def gm_keys_dom split: option.splits)
  ultimately show ?thesis using grouped_iff [OF inv] unfolding m_def [symmetric] P_def [symmetric] by simp
qed

lemma vm_generation_bump [simp]: "vm_generation (bump m) = vm_generation m + 1"
  by (simp add: bump_def)

text \<open>
  The generation detects concurrent policy changes exactly: an operation increments it when it
  changes the policy and leaves it alone when it does not.
\<close>

theorem generation_tracks_policy:
  assumes "vm_inv m"
  shows "vm_generation (vm_apply op m) =
    vm_generation m + (if vm_policy (vm_apply op m) = vm_policy m then 0 else 1)"
proof -
  have pol: "vm_policy (vm_apply op m) = policy_apply op (EntityGroup m, groups_of m)"
    using vm_apply_ok [OF assms] by (simp add: vm_policy_def)
  have upd: "f(x := y) = f \<longleftrightarrow> f x = y" for f :: "'a \<Rightarrow> 'b" and x y by (auto simp: fun_eq_iff)
  have ne: "groups_of m s \<noteq> {}" "g \<noteq> []" if "map_of (vm_sessionGroups m) s = Some g" for s g
    using that assms by (auto simp: groups_of_def vm_inv_def)
  have eg: "EntityGroup m e = g" "g \<noteq> ''''" if "map_of (vm_entityGroup m) e = Some g" for e g
    using that assms by (auto simp: EntityGroup_def vm_inv_def)
  have pm: "vm_policy m = (EntityGroup m, groups_of m)" by (simp add: vm_policy_def)
  show ?thesis unfolding pol pm
  proof (cases op)
    case (OpSetEntityGroup e g)
    then show "vm_generation (vm_apply op m) = vm_generation m +
      (if policy_apply op (EntityGroup m, groups_of m) = (EntityGroup m, groups_of m) then 0 else 1)"
      by (auto simp: SetEntityGroup_def Let_def upd)
  next
    case (OpJoinGroup s g)
    have "insert g (groups_of m s) = groups_of m s \<longleftrightarrow> g \<in> groups_of m s" by blast
    then show "vm_generation (vm_apply op m) = vm_generation m +
      (if policy_apply op (EntityGroup m, groups_of m) = (EntityGroup m, groups_of m) then 0 else 1)"
      using OpJoinGroup
      by (auto simp: JoinGroup_def upd groups_of_def gm_keys_dom split: option.splits)
  next
    case (OpLeaveGroup s g)
    then show "vm_generation (vm_apply op m) = vm_generation m +
      (if policy_apply op (EntityGroup m, groups_of m) = (EntityGroup m, groups_of m) then 0 else 1)"
      by (auto simp: LeaveGroup_def Let_def upd groups_of_def gm_keys_dom split: option.splits)
  next
    case (OpRemoveSession s)
    then show "vm_generation (vm_apply op m) = vm_generation m +
      (if policy_apply op (EntityGroup m, groups_of m) = (EntityGroup m, groups_of m) then 0 else 1)"
      using ne [of s] by (auto simp: RemoveSession_def upd groups_of_def split: option.splits)
  next
    case (OpRemoveEntity e)
    then show "vm_generation (vm_apply op m) = vm_generation m +
      (if policy_apply op (EntityGroup m, groups_of m) = (EntityGroup m, groups_of m) then 0 else 1)"
      using eg [of e] by (auto simp: RemoveEntity_def upd EntityGroup_def split: option.splits)
  qed
qed

theorem generation_tracks_policy_witness:
  "vm_generation (vm_apply (OpJoinGroup 7 ''red'') NewManager) = 1"
  using generation_tracks_policy [OF vm_inv_new, of "OpJoinGroup 7 ''red''"]
    vm_apply_ok [OF vm_inv_new, of "OpJoinGroup 7 ''red''"]
  by (auto simp: vm_policy_def NewManager_def groups_of_def fun_eq_iff split: if_splits)

end
