(* ===== verification/Eventual_Tracker.thy ===== *)
theory Eventual_Tracker
  imports Datagram_Protocol
begin

text \<open>
  The per-session tracker of eventual state (\<^verbatim>\<open>golem/eventual_state.go\<close>): which fields of
  which entities still have to reach a session (the dirty set, with a queue that remembers the
  order), which are in flight under which token, and what the feedback of the transport does.
  The model keeps the pool of reused in-flight buffers, a buffer being its capacity and its
  elements.  A \<^verbatim>\<open>range\<close> over the in-flight map visits the tokens in the order
  \<open>ord\<close> gives for the map.
\<close>

unbundle bit_operations_syntax

section \<open>State\<close>

record eventualStateChange =
  ch_id :: int64
  ch_mask :: u64
  ch_full :: bool
  ch_public :: bool

definition ch_zero :: eventualStateChange where
  "ch_zero = \<lparr>ch_id = 0, ch_mask = 0, ch_full = False, ch_public = False\<rparr>"

definition eventualInFlightFreeLimit :: nat where "eventualInFlightFreeLimit = 64"
definition eventualInFlightFreeMaxCap :: nat where "eventualInFlightFreeMaxCap = 256"

record inFlightBuf =
  ib_cap :: nat
  ib_changes :: "eventualStateChange list"

record eventualStateTracker =
  et_dirtySet :: "(int64, eventualStateChange) gomap"
  et_dirtyQueue :: "int64 list"
  et_inFlight :: "(u64, inFlightBuf) gomap"
  et_inFlightFree :: "nat list"

type_synonym flight_order = "(u64, inFlightBuf) gomap \<Rightarrow> u64 list"

definition newEventualStateTracker :: eventualStateTracker where
  "newEventualStateTracker = \<lparr>et_dirtySet = [], et_dirtyQueue = [], et_inFlight = [], et_inFlightFree = []\<rparr>"

section \<open>The dirty set\<close>

definition compactDirtyQueueNow :: "eventualStateTracker \<Rightarrow> eventualStateTracker" where
  "compactDirtyQueueNow t =
     (if length (et_dirtyQueue t) = 0 \<or> length (et_dirtyQueue t) = gm_len (et_dirtySet t) then t
      else if gm_len (et_dirtySet t) = 0 then t\<lparr>et_dirtyQueue := []\<rparr>
      else t\<lparr>et_dirtyQueue := filter (\<lambda>i. map_of (et_dirtySet t) i \<noteq> None) (et_dirtyQueue t)\<rparr>)"

definition compactDirtyQueue :: "eventualStateTracker \<Rightarrow> eventualStateTracker" where
  "compactDirtyQueue t =
     (if length (et_dirtyQueue t) = 0 \<or> length (et_dirtyQueue t) = gm_len (et_dirtySet t) then t
      else if gm_len (et_dirtySet t) = 0 then t\<lparr>et_dirtyQueue := []\<rparr>
      else if length (et_dirtyQueue t) \<le> gm_len (et_dirtySet t) * 2 + 32 then t
      else compactDirtyQueueNow t)"

definition mergeChange :: "eventualStateChange \<Rightarrow> eventualStateChange \<Rightarrow> eventualStateChange" where
  "mergeChange existing ch =
     (let existing = existing\<lparr>ch_public := ch_public existing \<or> ch_public ch\<rparr>
      in if ch_full existing \<or> ch_full ch then existing\<lparr>ch_full := True, ch_mask := 0\<rparr>
         else existing\<lparr>ch_mask := ch_mask existing OR ch_mask ch\<rparr>)"

definition markDirtyChange :: "eventualStateChange \<Rightarrow> eventualStateTracker \<Rightarrow> eventualStateTracker" where
  "markDirtyChange ch t =
     (if ch_id ch = 0 \<or> (\<not> ch_full ch \<and> ch_mask ch = 0) then t
      else case map_of (et_dirtySet t) (ch_id ch) of
        Some existing \<Rightarrow>
          t\<lparr>et_dirtySet := AList.update (ch_id ch) (mergeChange existing ch) (et_dirtySet t)\<rparr>
      | None \<Rightarrow>
          (let t = (if length (et_dirtyQueue t) \<noteq> gm_len (et_dirtySet t) then compactDirtyQueueNow t else t)
           in case map_of (et_dirtySet t) (ch_id ch) of
                Some existing \<Rightarrow>
                  t\<lparr>et_dirtySet := AList.update (ch_id ch) (mergeChange existing ch) (et_dirtySet t)\<rparr>
              | None \<Rightarrow>
                  t\<lparr>et_dirtySet := AList.update (ch_id ch) ch (et_dirtySet t),
                    et_dirtyQueue := et_dirtyQueue t @ [ch_id ch]\<rparr>))"

definition markDirtyMask :: "int64 \<Rightarrow> u64 \<Rightarrow> eventualStateTracker \<Rightarrow> eventualStateTracker" where
  "markDirtyMask i m = markDirtyChange (ch_zero\<lparr>ch_id := i, ch_mask := m\<rparr>)"

definition markDirtyFull :: "int64 \<Rightarrow> eventualStateTracker \<Rightarrow> eventualStateTracker" where
  "markDirtyFull i = markDirtyChange (ch_zero\<lparr>ch_id := i, ch_full := True\<rparr>)"

definition markDirty :: "int64 list \<Rightarrow> eventualStateTracker \<Rightarrow> eventualStateTracker" where
  "markDirty ids t = fold markDirtyFull ids t"

definition dirtyIDs :: "eventualStateTracker \<Rightarrow> int64 list" where
  "dirtyIDs t =
     (if gm_len (et_dirtySet t) = 0 then []
      else if length (et_dirtyQueue t) = gm_len (et_dirtySet t) then et_dirtyQueue t
      else filter (\<lambda>i. map_of (et_dirtySet t) i \<noteq> None) (et_dirtyQueue t))"

definition dirtyChanges :: "eventualStateTracker \<Rightarrow> eventualStateChange list" where
  "dirtyChanges t =
     (if gm_len (et_dirtySet t) = 0 then []
      else List.map_filter (map_of (et_dirtySet t)) (et_dirtyQueue t))"

definition hasDirty :: "eventualStateTracker \<Rightarrow> bool" where
  "hasDirty t \<longleftrightarrow> gm_len (et_dirtySet t) \<noteq> 0"

definition clearDirty :: "int64 \<Rightarrow> eventualStateTracker \<Rightarrow> eventualStateTracker" where
  "clearDirty i t = t\<lparr>et_dirtySet := AList.delete i (et_dirtySet t)\<rparr>"

section \<open>In flight\<close>

text \<open>The pool is searched from its end; the entry found is replaced by the last one.\<close>

fun borrowLoop :: "nat \<Rightarrow> nat \<Rightarrow> nat list \<Rightarrow> nat \<times> nat list" where
  "borrowLoop 0 n free = (n, free)"
| "borrowLoop (Suc i) n free =
     (if free ! i < n then borrowLoop i n free
      else (free ! i, butlast (free[i := last free])))"

definition borrowInFlightChanges :: "nat \<Rightarrow> eventualStateTracker \<Rightarrow> nat \<times> eventualStateTracker" where
  "borrowInFlightChanges n t =
     (let (c, free) = borrowLoop (length (et_inFlightFree t)) n (et_inFlightFree t)
      in (c, t\<lparr>et_inFlightFree := free\<rparr>))"

definition releaseInFlightChanges :: "inFlightBuf \<Rightarrow> eventualStateTracker \<Rightarrow> eventualStateTracker" where
  "releaseInFlightChanges b t =
     (if ib_cap b = 0 \<or> eventualInFlightFreeMaxCap < ib_cap b
         \<or> eventualInFlightFreeLimit \<le> length (et_inFlightFree t) then t
      else t\<lparr>et_inFlightFree := et_inFlightFree t @ [ib_cap b]\<rparr>)"

definition tracker_markSent :: "u64 \<Rightarrow> eventualStateChange list \<Rightarrow> eventualStateTracker \<Rightarrow> eventualStateTracker" where
  "tracker_markSent token changes t =
     (if length changes = 0 then t
      else
        (let t = (case map_of (et_inFlight t) token of
                    Some existing \<Rightarrow> releaseInFlightChanges existing t | None \<Rightarrow> t);
             (c, t) = borrowInFlightChanges (length changes) t;
             t = t\<lparr>et_inFlight := AList.update token \<lparr>ib_cap = c, ib_changes = changes\<rparr> (et_inFlight t)\<rparr>
         in fold (\<lambda>ch. clearDirty (ch_id ch)) changes t))"

definition clearEntityIn :: "int64 \<Rightarrow> u64 \<Rightarrow> eventualStateTracker \<Rightarrow> eventualStateTracker" where
  "clearEntityIn i token t =
     (case map_of (et_inFlight t) token of
        None \<Rightarrow> t
      | Some b \<Rightarrow>
          (let dst = filter (\<lambda>ch. ch_id ch \<noteq> i) (ib_changes b)
           in if length dst = 0 then
                releaseInFlightChanges b (t\<lparr>et_inFlight := AList.delete token (et_inFlight t)\<rparr>)
              else t\<lparr>et_inFlight := AList.update token (b\<lparr>ib_changes := dst\<rparr>) (et_inFlight t)\<rparr>))"

definition clearEntity :: "flight_order \<Rightarrow> int64 \<Rightarrow> eventualStateTracker \<Rightarrow> eventualStateTracker" where
  "clearEntity ord i t =
     (let t = clearDirty i t in fold (clearEntityIn i) (ord (et_inFlight t)) t)"

definition clearEntities :: "flight_order \<Rightarrow> int64 list \<Rightarrow> eventualStateTracker \<Rightarrow> eventualStateTracker" where
  "clearEntities ord ids t = fold (clearEntity ord) ids t"

section \<open>Feedback\<close>

text \<open>
  The two loops of \<^verbatim>\<open>subtractNewerInFlight\<close>: for a full change, whether a newer full one
  is in flight; for a mask, the bits no newer change in flight covers.
\<close>

definition flightChanges :: "(u64, inFlightBuf) gomap \<Rightarrow> u64 \<Rightarrow> eventualStateChange list" where
  "flightChanges fl token = (case map_of fl token of Some b \<Rightarrow> ib_changes b | None \<Rightarrow> [])"

fun newerFull :: "u64 \<Rightarrow> int64 \<Rightarrow> (u64, inFlightBuf) gomap \<Rightarrow> u64 list \<Rightarrow> bool" where
  "newerFull lost i fl [] = False"
| "newerFull lost i fl (token # ks) =
     (if token \<le> lost then newerFull lost i fl ks
      else (\<exists>newer \<in> set (flightChanges fl token). ch_id newer = i \<and> ch_full newer)
           \<or> newerFull lost i fl ks)"

fun subtractIn :: "int64 \<Rightarrow> eventualStateChange list \<Rightarrow> u64 \<Rightarrow> u64" where
  "subtractIn i [] m = m"
| "subtractIn i (newer # cs) m =
     (if ch_id newer \<noteq> i then subtractIn i cs m
      else if ch_full newer then 0
      else subtractIn i cs (m AND NOT (ch_mask newer)))"

fun subtractLoop :: "u64 \<Rightarrow> int64 \<Rightarrow> (u64, inFlightBuf) gomap \<Rightarrow> u64 list \<Rightarrow> u64 \<Rightarrow> u64 option" where
  "subtractLoop lost i fl [] m = Some m"
| "subtractLoop lost i fl (token # ks) m =
     (if token \<le> lost then subtractLoop lost i fl ks m
      else
        (let m = subtractIn i (flightChanges fl token) m
         in if m = 0 then None else subtractLoop lost i fl ks m))"

definition subtractNewerInFlight ::
  "flight_order \<Rightarrow> u64 \<Rightarrow> eventualStateChange \<Rightarrow> eventualStateTracker \<Rightarrow> eventualStateChange" where
  "subtractNewerInFlight ord lost ch t =
     (if ch_full ch then
        (if newerFull lost (ch_id ch) (et_inFlight t) (ord (et_inFlight t)) then ch_zero else ch)
      else case subtractLoop lost (ch_id ch) (et_inFlight t) (ord (et_inFlight t)) (ch_mask ch) of
             None \<Rightarrow> ch_zero
           | Some m \<Rightarrow> \<lparr>ch_id = ch_id ch, ch_mask = m, ch_full = False, ch_public = ch_public ch\<rparr>)"

definition requeue ::
  "flight_order \<Rightarrow> (int64 \<Rightarrow> bool) \<Rightarrow> u64 \<Rightarrow> eventualStateChange \<Rightarrow> eventualStateTracker \<Rightarrow> eventualStateTracker" where
  "requeue ord isLive lost ch t =
     (if \<not> isLive (ch_id ch) then t
      else
        (let remaining = subtractNewerInFlight ord lost ch t
         in if ch_id remaining \<noteq> 0 then markDirtyChange remaining t else t))"

definition applyDelivery ::
  "flight_order \<Rightarrow> (int64 \<Rightarrow> bool) \<Rightarrow> EventualStateDelivery \<Rightarrow> eventualStateTracker \<Rightarrow> eventualStateTracker" where
  "applyDelivery ord isLive f t =
     (case map_of (et_inFlight t) (ed_Token f) of
        None \<Rightarrow> t
      | Some ids \<Rightarrow>
          (let t = t\<lparr>et_inFlight := AList.delete (ed_Token f) (et_inFlight t)\<rparr>
           in if ed_Delivered f then releaseInFlightChanges ids t
              else
                releaseInFlightChanges ids
                  (fold (requeue ord isLive (ed_Token f)) (ib_changes ids) (compactDirtyQueueNow t))))"

definition applyFeedback ::
  "flight_order \<Rightarrow> (int64 \<Rightarrow> bool) \<Rightarrow> EventualStateDelivery list \<Rightarrow> eventualStateTracker \<Rightarrow> eventualStateTracker" where
  "applyFeedback ord isLive feedback t = fold (applyDelivery ord isLive) feedback t"


section \<open>What a tracker still owes\<close>

text \<open>
  A change covers the field of a mask bit (\<open>Some b\<close>) or asks for the full state (\<open>None\<close>).
  \<open>pend\<close>: the field is dirty; \<open>fly\<close>: it is in flight under a token.
\<close>

fun covers :: "eventualStateChange \<Rightarrow> nat option \<Rightarrow> bool" where
  "covers ch None = ch_full ch"
| "covers ch (Some b) = (ch_full ch \<or> bit (ch_mask ch) b)"

definition pend :: "eventualStateTracker \<Rightarrow> int64 \<Rightarrow> nat option \<Rightarrow> bool" where
  "pend t i x \<longleftrightarrow> (\<exists>ch. map_of (et_dirtySet t) i = Some ch \<and> covers ch x)"

definition fly :: "eventualStateTracker \<Rightarrow> u64 \<Rightarrow> int64 \<Rightarrow> nat option \<Rightarrow> bool" where
  "fly t k i x \<longleftrightarrow> (\<exists>b. map_of (et_inFlight t) k = Some b \<and> (\<exists>ch \<in> set (ib_changes b). ch_id ch = i \<and> covers ch x))"

definition owes :: "eventualStateTracker \<Rightarrow> int64 \<Rightarrow> nat option \<Rightarrow> bool" where
  "owes t i x \<longleftrightarrow> pend t i x \<or> (\<exists>k. fly t k i x)"

lemma fly_changes: "fly t k i x \<longleftrightarrow> (\<exists>ch \<in> set (flightChanges (et_inFlight t) k). ch_id ch = i \<and> covers ch x)"
  by (cases "map_of (et_inFlight t) k") (auto simp: fly_def flightChanges_def)

lemma covers_merge [simp]: "covers (mergeChange e c) x \<longleftrightarrow> covers e x \<or> covers c x"
  by (cases x) (auto simp: mergeChange_def Let_def bit_simps)

lemma covers_ignored: "\<not> ch_full ch \<Longrightarrow> ch_mask ch = 0 \<Longrightarrow> \<not> covers ch x"
  by (cases x) auto

lemma compactNow_fields [simp]:
  "et_dirtySet (compactDirtyQueueNow t) = et_dirtySet t" "et_inFlight (compactDirtyQueueNow t) = et_inFlight t"
  "et_inFlightFree (compactDirtyQueueNow t) = et_inFlightFree t"
  by (simp_all add: compactDirtyQueueNow_def)

lemma compact_fields [simp]:
  "et_dirtySet (compactDirtyQueue t) = et_dirtySet t" "et_inFlight (compactDirtyQueue t) = et_inFlight t"
  "et_inFlightFree (compactDirtyQueue t) = et_inFlightFree t"
  by (simp_all add: compactDirtyQueue_def)

lemma release_fields [simp]:
  "et_dirtySet (releaseInFlightChanges b t) = et_dirtySet t" "et_inFlight (releaseInFlightChanges b t) = et_inFlight t"
  "et_dirtyQueue (releaseInFlightChanges b t) = et_dirtyQueue t"
  by (simp_all add: releaseInFlightChanges_def)

lemma markDirtyChange_fields [simp]:
  "et_inFlight (markDirtyChange ch t) = et_inFlight t" "et_inFlightFree (markDirtyChange ch t) = et_inFlightFree t"
  by (simp_all add: markDirtyChange_def Let_def split: option.splits)

lemma pend_markDirtyChange:
  "pend (markDirtyChange ch t) i x \<longleftrightarrow> pend t i x \<or> (ch_id ch = i \<and> i \<noteq> 0 \<and> covers ch x)"
  using covers_ignored [of ch x]
  by (auto simp: pend_def markDirtyChange_def Let_def split: option.splits)

lemma requeue_inFlight [simp]: "et_inFlight (requeue ord isLive k ch t) = et_inFlight t"
  by (simp add: requeue_def Let_def)

lemma requeue_all_inFlight [simp]: "et_inFlight (fold (requeue ord isLive k) cs t) = et_inFlight t"
  by (induction cs arbitrary: t) simp_all

subsection \<open>Newer changes in flight\<close>

lemma newerFull_fly: "newerFull lost i (et_inFlight t) ks \<Longrightarrow> \<exists>k. lost < k \<and> fly t k i x"
proof (induction ks)
  case (Cons k ks)
  then show ?case
    by (cases x) (auto simp: fly_changes not_le split: if_splits)
qed simp

lemma bit_subtractIn:
  "bit (subtractIn i cs m) b \<longleftrightarrow> bit m b \<and> (\<forall>c \<in> set cs. ch_id c = i \<longrightarrow> \<not> covers c (Some b))"
proof (induction cs arbitrary: m)
  case (Cons c cs)
  have "b < 64" if "bit m b" using that bit_imp_le_length [of m b] by simp
  with Cons show ?case by (auto simp: bit_simps)
qed simp

lemma subtractLoop_spec:
  assumes "bit m b"
  shows "case subtractLoop lost i (et_inFlight t) ks m of
           None \<Rightarrow> \<exists>k. lost < k \<and> fly t k i (Some b)
         | Some m' \<Rightarrow> bit m' b \<or> (\<exists>k. lost < k \<and> fly t k i (Some b))"
  using assms
proof (induction ks arbitrary: m)
  case (Cons k ks)
  let ?cs = "flightChanges (et_inFlight t) k"
  let ?m = "subtractIn i ?cs m"
  have f: "\<exists>k. lost < k \<and> fly t k i (Some b)" if "\<not> bit ?m b" "\<not> k \<le> lost"
  proof -
    have "\<exists>c \<in> set ?cs. ch_id c = i \<and> covers c (Some b)"
      using that(1) Cons.prems by (auto simp: bit_subtractIn)
    then have "fly t k i (Some b)" by (auto simp: fly_changes)
    then show ?thesis using that(2) by (auto simp: not_le)
  qed
  show ?case
  proof (cases "k \<le> lost")
    case False
    show ?thesis
    proof (cases "bit ?m b")
      case True
      then have "?m \<noteq> 0" by auto
      then show ?thesis using Cons.IH [OF True] False by (simp add: Let_def)
    qed (use f False in \<open>auto simp: Let_def split: option.splits\<close>)
  qed (use Cons in simp)
qed simp

lemma subtractLoop_bits: "subtractLoop lost i fl ks m = Some m' \<Longrightarrow> bit m' b \<Longrightarrow> bit m b"
proof (induction ks arbitrary: m)
  case (Cons k ks)
  then show ?case
    using Cons.IH [of "subtractIn i (flightChanges fl k) m"] by (auto simp: Let_def bit_subtractIn split: if_splits)
qed simp

lemma subtract_covers:
  assumes "covers ch x"
  shows "(ch_id (subtractNewerInFlight ord lost ch t) = ch_id ch \<and> covers (subtractNewerInFlight ord lost ch t) x)
       \<or> (\<exists>k. lost < k \<and> fly t k (ch_id ch) x)"
proof (cases "ch_full ch")
  case True
  then show ?thesis
    using assms newerFull_fly [of lost "ch_id ch" t] by (auto simp: subtractNewerInFlight_def)
next
  case False
  then obtain b where x: "x = Some b" and b: "bit (ch_mask ch) b" using assms by (cases x) auto
  from subtractLoop_spec [OF b, where lost = lost and i = "ch_id ch" and t = t and ks = "ord (et_inFlight t)"] show ?thesis
    using False x by (auto simp: subtractNewerInFlight_def split: option.splits)
qed

lemma subtract_only:
  assumes "covers (subtractNewerInFlight ord lost ch t) x" and "ch_id (subtractNewerInFlight ord lost ch t) \<noteq> 0"
  shows "ch_id (subtractNewerInFlight ord lost ch t) = ch_id ch \<and> covers ch x"
  using assms subtractLoop_bits [of lost "ch_id ch" "et_inFlight t" "ord (et_inFlight t)" "ch_mask ch"]
  by (cases x) (auto simp: subtractNewerInFlight_def ch_zero_def split: if_splits option.splits)

subsection \<open>Feedback\<close>

lemma fly_requeue [simp]: "fly (requeue ord isLive k ch t) k' i x = fly t k' i x"
  by (simp add: fly_def)

lemma requeue_keeps: "pend t i x \<Longrightarrow> pend (requeue ord isLive k ch t) i x"
  by (simp add: requeue_def Let_def pend_markDirtyChange)

lemma requeue_all_keeps: "pend t i x \<Longrightarrow> pend (fold (requeue ord isLive k) cs t) i x"
  by (induction cs arbitrary: t) (simp_all add: requeue_keeps)

lemma requeue_owes:
  assumes "ch_id ch = i" "i \<noteq> 0" "isLive i" "covers ch x"
  shows "owes (requeue ord isLive k ch t) i x"
  using subtract_covers [OF assms(4), of ord k t] assms
  by (auto simp: requeue_def Let_def owes_def pend_markDirtyChange fly_def)

lemma owes_requeue_all: "owes t i x \<Longrightarrow> owes (fold (requeue ord isLive k) cs t) i x"
  by (auto simp: owes_def fly_def requeue_all_keeps)

lemma requeue_all_owes:
  assumes "ch \<in> set cs" "ch_id ch = i" "i \<noteq> 0" "isLive i" "covers ch x"
  shows "owes (fold (requeue ord isLive k) cs t) i x"
  using assms(1)
proof (induction cs arbitrary: t)
  case (Cons c cs)
  then show ?case
    using owes_requeue_all [where t = "requeue ord isLive k c t" and i = i and x = x]
      requeue_owes [where ch = c and t = t and isLive = isLive and i = i and x = x] assms(2-)
    by auto
qed simp

lemma requeue_only:
  "pend (requeue ord isLive k ch t) i x \<Longrightarrow> \<not> pend t i x \<Longrightarrow> isLive i \<and> ch_id ch = i \<and> covers ch x"
  using subtract_only [of ord k ch t x]
  by (auto simp: requeue_def Let_def pend_markDirtyChange split: if_splits)

lemma requeue_all_only:
  "pend (fold (requeue ord isLive k) cs t) i x \<Longrightarrow> \<not> pend t i x \<Longrightarrow>
     isLive i \<and> (\<exists>ch \<in> set cs. ch_id ch = i \<and> covers ch x)"
proof (induction cs arbitrary: t)
  case (Cons c cs)
  then show ?case using requeue_only [of ord isLive k c t i x] by (cases "pend (requeue ord isLive k c t) i x") auto
qed simp

lemma fly_applyDelivery: "fly (applyDelivery ord isLive f t) k i x \<longleftrightarrow> k \<noteq> ed_Token f \<and> fly t k i x"
  by (auto simp: applyDelivery_def fly_def Let_def split: option.splits if_splits)

lemma owes_cong: "et_dirtySet t = et_dirtySet t' \<Longrightarrow> et_inFlight t = et_inFlight t' \<Longrightarrow> owes t i x = owes t' i x"
  by (simp add: owes_def pend_def fly_def)

lemma applyDelivery_owes:
  assumes "owes t i x" "i \<noteq> 0" "isLive i"
  shows "owes (applyDelivery ord isLive f t) i x \<or> (ed_Delivered f \<and> fly t (ed_Token f) i x)"
proof (cases "map_of (et_inFlight t) (ed_Token f)")
  case (Some b)
  define t1 where "t1 = compactDirtyQueueNow (t\<lparr>et_inFlight := AList.delete (ed_Token f) (et_inFlight t)\<rparr>)"
  have "fly t1 k i x \<longleftrightarrow> k \<noteq> ed_Token f \<and> fly t k i x" for k by (auto simp: fly_def t1_def)
  then have o1: "owes t1 i x \<or> fly t (ed_Token f) i x"
    using assms(1) unfolding owes_def by (simp add: pend_def t1_def) metis
  show ?thesis
  proof (cases "ed_Delivered f")
    case True
    have "owes (applyDelivery ord isLive f t) i x = owes t1 i x"
      by (rule owes_cong) (simp_all add: applyDelivery_def Some True t1_def)
    then show ?thesis using o1 True by auto
  next
    case False
    let ?t2 = "fold (requeue ord isLive (ed_Token f)) (ib_changes b) t1"
    have e: "owes (applyDelivery ord isLive f t) i x = owes ?t2 i x"
      by (rule owes_cong) (simp_all add: applyDelivery_def Some False t1_def)
    show ?thesis
      using o1 owes_requeue_all [of t1 i x ord isLive "ed_Token f" "ib_changes b"]
        requeue_all_owes [of _ "ib_changes b" i isLive x ord "ed_Token f" t1] assms(2,3) Some
      unfolding e by (auto simp: fly_def)
  qed
qed (use assms in \<open>simp add: applyDelivery_def\<close>)

lemma applyDelivery_pend:
  assumes "pend (applyDelivery ord isLive f t) i x"
  shows "pend t i x \<or> (isLive i \<and> \<not> ed_Delivered f \<and> fly t (ed_Token f) i x)"
proof (cases "map_of (et_inFlight t) (ed_Token f)")
  case (Some b)
  then show ?thesis
    using assms requeue_all_only [of ord isLive "ed_Token f" "ib_changes b"
        "compactDirtyQueueNow (t\<lparr>et_inFlight := AList.delete (ed_Token f) (et_inFlight t)\<rparr>)" i x]
    by (auto simp: applyDelivery_def fly_def pend_def Let_def split: if_splits)
qed (use assms in \<open>simp add: applyDelivery_def\<close>)

lemma applyDelivery_keeps: "pend t i x \<Longrightarrow> pend (applyDelivery ord isLive f t) i x"
  using requeue_all_keeps [of "compactDirtyQueueNow (t\<lparr>et_inFlight := AList.delete (ed_Token f) (et_inFlight t)\<rparr>)" i x]
  by (auto simp: applyDelivery_def Let_def pend_def split: option.splits)

text \<open>A lost update is dirty again, unless a younger token carries it.\<close>

lemma requeue_all_lost:
  assumes "ch \<in> set cs" "ch_id ch = i" "i \<noteq> 0" "isLive i" "covers ch x"
  shows "pend (fold (requeue ord isLive k) cs t) i x \<or> (\<exists>k2. k < k2 \<and> fly t k2 i x)"
  using assms(1)
proof (induction cs arbitrary: t)
  case (Cons c cs)
  show ?case
  proof (cases "c = ch")
    case True
    have "pend (requeue ord isLive k ch t) i x \<or> (\<exists>k2. k < k2 \<and> fly t k2 i x)"
      using subtract_covers [OF assms(5), of ord k t] assms(2-4)
      by (auto simp: requeue_def Let_def pend_markDirtyChange)
    then show ?thesis using True by (auto intro: requeue_all_keeps)
  next
    case False
    then show ?thesis using Cons.IH [of "requeue ord isLive k c t"] Cons.prems by auto
  qed
qed simp

lemma applyDelivery_lost:
  assumes "\<not> ed_Delivered f" "fly t (ed_Token f) i x" "i \<noteq> 0" "isLive i"
  shows "pend (applyDelivery ord isLive f t) i x \<or> (\<exists>k2. ed_Token f < k2 \<and> fly t k2 i x)"
proof -
  obtain b ch where b: "map_of (et_inFlight t) (ed_Token f) = Some b"
    "ch \<in> set (ib_changes b)" "ch_id ch = i" "covers ch x"
    using assms(2) by (auto simp: fly_def)
  define t1 where "t1 = compactDirtyQueueNow (t\<lparr>et_inFlight := AList.delete (ed_Token f) (et_inFlight t)\<rparr>)"
  have "fly t1 k2 i x \<Longrightarrow> fly t k2 i x" for k2 by (auto simp: t1_def fly_def split: if_splits)
  moreover have "pend (applyDelivery ord isLive f t) i x
      = pend (fold (requeue ord isLive (ed_Token f)) (ib_changes b) t1) i x"
    using b(1) assms(1) by (simp add: applyDelivery_def t1_def pend_def)
  ultimately show ?thesis
    using requeue_all_lost [where ch = ch and cs = "ib_changes b" and i = i and isLive = isLive and x = x
        and ord = ord and k = "ed_Token f" and t = t1] b(2-4) assms(3,4) by auto
qed

lemma applyFeedback_pend: "pend t i x \<Longrightarrow> pend (applyFeedback ord isLive fb t) i x"
  unfolding applyFeedback_def by (induction fb arbitrary: t) (simp_all add: applyDelivery_keeps)

lemma fly_applyFeedback: "fly (applyFeedback ord isLive fb t) k i x \<longleftrightarrow> k \<notin> ed_Token ` set fb \<and> fly t k i x"
  unfolding applyFeedback_def by (induction fb arbitrary: t) (auto simp: fly_applyDelivery)

lemma applyFeedback_lost:
  assumes "fly t k i x" "i \<noteq> 0" "isLive i"
  shows "pend (applyFeedback ord isLive fb t) i x
    \<or> (\<exists>k2 \<ge> k. fly t k2 i x \<and> (fly (applyFeedback ord isLive fb t) k2 i x
          \<or> (\<exists>g \<in> set fb. ed_Delivered g \<and> ed_Token g = k2)))"
  using assms(1)
proof (induction fb arbitrary: t k)
  case (Cons f fb)
  let ?t1 = "applyDelivery ord isLive f t"
  have r: "applyFeedback ord isLive (f # fb) t = applyFeedback ord isLive fb ?t1" by (simp add: applyFeedback_def)
  have go: ?case if k2: "k \<le> k2" "fly ?t1 k2 i x" for k2
  proof -
    from Cons.IH [OF k2(2)]
    consider "pend (applyFeedback ord isLive fb ?t1) i x"
      | k3 where "k2 \<le> k3" "fly ?t1 k3 i x" "fly (applyFeedback ord isLive fb ?t1) k3 i x
          \<or> (\<exists>g \<in> set fb. ed_Delivered g \<and> ed_Token g = k3)" by blast
    then show ?thesis
    proof cases
      case 1
      then show ?thesis unfolding r by blast
    next
      case 2
      then have "k \<le> k3" "fly t k3 i x" using k2(1) by (simp_all add: fly_applyDelivery)
      with 2(3) show ?thesis unfolding r by (metis list.set_intros(2))
    qed
  qed
  consider "k \<noteq> ed_Token f" | "k = ed_Token f" "ed_Delivered f" | "k = ed_Token f" "\<not> ed_Delivered f" by blast
  then show ?case
  proof cases
    case 1
    then show ?thesis using Cons.prems go [of k] by (simp add: fly_applyDelivery)
  next
    case 2
    then show ?thesis using Cons.prems by auto
  next
    case 3
    from applyDelivery_lost [OF 3(2), of t i x isLive ord] Cons.prems assms(2,3) 3(1)
    consider "pend ?t1 i x" | k2 where "k < k2" "fly t k2 i x" by auto
    then show ?thesis
    proof cases
      case 1
      then show ?thesis unfolding r by (auto intro: applyFeedback_pend)
    next
      case 2
      then show ?thesis using go [of k2] 3(1) by (simp add: fly_applyDelivery)
    qed
  qed
qed (auto simp: applyFeedback_def)

text \<open>
  C14.  Feedback never loses an update and never invents one.  Whatever a live entity is owed (a
  field or the full state that is dirty or in flight) is still owed after any batch of feedback,
  in any order, unless the peer confirmed a packet that carried it.  An update in a packet
  reported lost is dirty afterwards unless it is superseded: a younger token carried it, and
  that one is still in flight or was confirmed.  What is dirty stays dirty, and what becomes
  dirty belongs to a live entity and was in a packet reported lost.
\<close>

theorem feedback_conserved:
  assumes "i \<noteq> 0"
  shows "(isLive i \<and> owes t i x \<longrightarrow>
      owes (applyFeedback ord isLive fb t) i x \<or> (\<exists>f \<in> set fb. ed_Delivered f \<and> fly t (ed_Token f) i x))
    \<and> (isLive i \<and> (\<exists>f \<in> set fb. ed_Token f = k) \<and> (\<forall>f \<in> set fb. ed_Token f = k \<longrightarrow> \<not> ed_Delivered f) \<and> fly t k i x \<longrightarrow>
      pend (applyFeedback ord isLive fb t) i x
      \<or> (\<exists>k2 > k. fly t k2 i x \<and> (fly (applyFeedback ord isLive fb t) k2 i x
            \<or> (\<exists>g \<in> set fb. ed_Delivered g \<and> ed_Token g = k2))))
    \<and> (pend t i x \<longrightarrow> pend (applyFeedback ord isLive fb t) i x)
    \<and> (pend (applyFeedback ord isLive fb t) i x \<longrightarrow>
      pend t i x \<or> isLive i \<and> (\<exists>f \<in> set fb. \<not> ed_Delivered f \<and> fly t (ed_Token f) i x))"
proof (intro conjI)
  show "isLive i \<and> owes t i x \<longrightarrow>
      owes (applyFeedback ord isLive fb t) i x \<or> (\<exists>f \<in> set fb. ed_Delivered f \<and> fly t (ed_Token f) i x)"
    unfolding applyFeedback_def
  proof (induction fb arbitrary: t)
    case (Cons f fb)
    have "owes (applyDelivery ord isLive f t) i x \<or> (ed_Delivered f \<and> fly t (ed_Token f) i x)"
      if "owes t i x" "isLive i" using applyDelivery_owes [of t i x isLive ord f] assms that by blast
    then show ?case using Cons.IH [of "applyDelivery ord isLive f t"] by (simp add: fly_applyDelivery) blast
  qed simp
  show "isLive i \<and> (\<exists>f \<in> set fb. ed_Token f = k) \<and> (\<forall>f \<in> set fb. ed_Token f = k \<longrightarrow> \<not> ed_Delivered f) \<and> fly t k i x \<longrightarrow>
      pend (applyFeedback ord isLive fb t) i x
      \<or> (\<exists>k2 > k. fly t k2 i x \<and> (fly (applyFeedback ord isLive fb t) k2 i x
            \<or> (\<exists>g \<in> set fb. ed_Delivered g \<and> ed_Token g = k2)))"
  proof (intro impI, elim conjE)
    assume l: "isLive i" "\<exists>f \<in> set fb. ed_Token f = k" "\<forall>f \<in> set fb. ed_Token f = k \<longrightarrow> \<not> ed_Delivered f" "fly t k i x"
    from applyFeedback_lost [where isLive = isLive and ord = ord and fb = fb, OF l(4) assms l(1)]
    consider "pend (applyFeedback ord isLive fb t) i x"
      | k2 where "k \<le> k2" "fly t k2 i x" "fly (applyFeedback ord isLive fb t) k2 i x
          \<or> (\<exists>g \<in> set fb. ed_Delivered g \<and> ed_Token g = k2)" by blast
    then show "pend (applyFeedback ord isLive fb t) i x
      \<or> (\<exists>k2 > k. fly t k2 i x \<and> (fly (applyFeedback ord isLive fb t) k2 i x
            \<or> (\<exists>g \<in> set fb. ed_Delivered g \<and> ed_Token g = k2)))"
    proof cases
      case 2
      have "k2 \<noteq> k" using 2(3) l(2,3) by (auto simp: fly_applyFeedback)
      then show ?thesis using 2 by (metis order_le_imp_less_or_eq)
    qed blast
  qed
  show "pend t i x \<longrightarrow> pend (applyFeedback ord isLive fb t) i x"
    by (simp add: applyFeedback_pend)
  show "pend (applyFeedback ord isLive fb t) i x \<longrightarrow>
      pend t i x \<or> isLive i \<and> (\<exists>f \<in> set fb. \<not> ed_Delivered f \<and> fly t (ed_Token f) i x)"
    unfolding applyFeedback_def
  proof (induction fb arbitrary: t)
    case (Cons f fb)
    then show ?case using applyDelivery_pend [of ord isLive f t i x] Cons.IH [of "applyDelivery ord isLive f t"]
      by (simp add: fly_applyDelivery) blast
  qed simp
qed


section \<open>The invariant of a tracker\<close>

definition et_inv :: "eventualStateTracker \<Rightarrow> bool" where
  "et_inv t \<longleftrightarrow> gm_wf (et_dirtySet t) \<and> distinct (et_dirtyQueue t) \<and> gm_keys (et_dirtySet t) \<subseteq> set (et_dirtyQueue t)
     \<and> (\<forall>i ch. map_of (et_dirtySet t) i = Some ch \<longrightarrow> ch_id ch = i \<and> i \<noteq> 0 \<and> (ch_full ch \<or> ch_mask ch \<noteq> 0))
     \<and> length (et_inFlightFree t) \<le> eventualInFlightFreeLimit
     \<and> (\<forall>c \<in> set (et_inFlightFree t). 0 < c \<and> c \<le> eventualInFlightFreeMaxCap)
     \<and> (\<forall>k b. map_of (et_inFlight t) k = Some b \<longrightarrow> ib_changes b \<noteq> [] \<and> length (ib_changes b) \<le> ib_cap b)"

lemma et_inv_new: "et_inv newEventualStateTracker"
  by (simp add: et_inv_def newEventualStateTracker_def)

lemma queue_exact:
  assumes "et_inv t" "length (et_dirtyQueue t) = gm_len (et_dirtySet t)"
  shows "set (et_dirtyQueue t) = gm_keys (et_dirtySet t)"
proof -
  have "card (set (et_dirtyQueue t)) = card (gm_keys (et_dirtySet t))"
    using assms gm_len_card [of "et_dirtySet t"] by (simp add: et_inv_def distinct_card)
  then show ?thesis
    using assms(1) card_subset_eq [of "set (et_dirtyQueue t)" "gm_keys (et_dirtySet t)"] by (simp add: et_inv_def)
qed

lemma dirty_filter:
  "filter (\<lambda>i. map_of m i \<noteq> None) q = filter (\<lambda>i. i \<in> gm_keys m) q"
  "filter (\<lambda>i. \<exists>y. map_of m i = Some y) q = filter (\<lambda>i. i \<in> gm_keys m) q"
  by (simp_all add: gm_keys_Some)

lemma dirtyIDs_filter: "et_inv t \<Longrightarrow> dirtyIDs t = filter (\<lambda>i. i \<in> gm_keys (et_dirtySet t)) (et_dirtyQueue t)"
  using queue_exact [of t] by (auto simp: dirtyIDs_def dirty_filter filter_id_conv)

lemma queue_compactNow:
  assumes "et_inv t"
  shows "et_dirtyQueue (compactDirtyQueueNow t) = filter (\<lambda>i. i \<in> gm_keys (et_dirtySet t)) (et_dirtyQueue t)"
  using queue_exact [OF assms] assms
  by (auto simp: compactDirtyQueueNow_def dirty_filter filter_id_conv)

lemma compactNow_inv [inv_intros]: "et_inv t \<Longrightarrow> et_inv (compactDirtyQueueNow t)"
  using queue_compactNow [of t] by (auto simp: et_inv_def)

lemma compact_cases:
  assumes "et_inv t"
  shows "et_dirtyQueue (compactDirtyQueue t) = et_dirtyQueue t
       \<or> et_dirtyQueue (compactDirtyQueue t) = filter (\<lambda>i. i \<in> gm_keys (et_dirtySet t)) (et_dirtyQueue t)"
  using queue_compactNow [OF assms] by (auto simp: compactDirtyQueue_def)

lemma compact_inv [inv_intros]: "et_inv t \<Longrightarrow> et_inv (compactDirtyQueue t)"
  using compact_cases [of t] by (auto simp: et_inv_def)

lemma dirtyIDs_compact:
  assumes "et_inv t"
  shows "dirtyIDs (compactDirtyQueue t) = dirtyIDs t" "dirtyIDs (compactDirtyQueueNow t) = dirtyIDs t"
  using assms compact_cases [OF assms] compact_inv [OF assms] compactNow_inv [OF assms] queue_compactNow [OF assms]
  by (auto simp: dirtyIDs_filter)

lemma markDirtyChange_split:
  assumes "et_inv t"
  shows "markDirtyChange ch t =
    (if ch_id ch = 0 \<or> (\<not> ch_full ch \<and> ch_mask ch = 0) then t
     else case map_of (et_dirtySet t) (ch_id ch) of
       Some e \<Rightarrow> t\<lparr>et_dirtySet := AList.update (ch_id ch) (mergeChange e ch) (et_dirtySet t)\<rparr>
     | None \<Rightarrow> t\<lparr>et_dirtySet := AList.update (ch_id ch) ch (et_dirtySet t), et_dirtyQueue := dirtyIDs t @ [ch_id ch]\<rparr>)"
proof -
  have "et_dirtyQueue (if length (et_dirtyQueue t) \<noteq> gm_len (et_dirtySet t) then compactDirtyQueueNow t else t) = dirtyIDs t"
    using assms queue_compactNow [OF assms] queue_exact [OF assms] by (auto simp: dirtyIDs_filter filter_id_conv)
  then show ?thesis by (auto simp: markDirtyChange_def Let_def compactDirtyQueueNow_def split: option.splits)
qed

lemma merge_fields [simp]:
  "ch_id (mergeChange e c) = ch_id e"
  "ch_full (mergeChange e c) \<longleftrightarrow> ch_full e \<or> ch_full c"
  "ch_public (mergeChange e c) \<longleftrightarrow> ch_public e \<or> ch_public c"
  by (simp_all add: mergeChange_def Let_def)

lemma merge_mask: "ch_full e \<or> ch_mask e \<noteq> 0 \<Longrightarrow> ch_full (mergeChange e c) \<or> ch_mask (mergeChange e c) \<noteq> 0"
  by (auto simp: mergeChange_def Let_def or_eq_0_iff)

lemma set_dirtyIDs: "et_inv t \<Longrightarrow> set (dirtyIDs t) = gm_keys (et_dirtySet t) \<and> distinct (dirtyIDs t)"
  by (auto simp: dirtyIDs_filter et_inv_def)

lemma markDirtyChange_inv [inv_intros]:
  assumes "et_inv t"
  shows "et_inv (markDirtyChange ch t)"
proof (cases "map_of (et_dirtySet t) (ch_id ch)")
  case None
  then have "ch_id ch \<notin> gm_keys (et_dirtySet t)" by (simp add: gm_keys_None)
  with None show ?thesis
    using assms set_dirtyIDs [OF assms] by (auto simp: markDirtyChange_split [OF assms] et_inv_def)
next
  case (Some e)
  then show ?thesis
    using assms merge_mask [of e ch]
    by (auto simp: markDirtyChange_split [OF assms] et_inv_def insert_absorb gm_keys_Some)
qed

lemma dirtyIDs_markDirtyChange:
  assumes "et_inv t"
  shows "dirtyIDs (markDirtyChange ch t) =
    (if ch_id ch = 0 \<or> (\<not> ch_full ch \<and> ch_mask ch = 0) \<or> ch_id ch \<in> set (dirtyIDs t) then dirtyIDs t
     else dirtyIDs t @ [ch_id ch])"
proof -
  note i = markDirtyChange_inv [OF assms, of ch] and s = set_dirtyIDs [OF assms]
  show ?thesis
  proof (cases "map_of (et_dirtySet t) (ch_id ch)")
    case None
    then have "ch_id ch \<notin> gm_keys (et_dirtySet t)" by (simp add: gm_keys_None)
    moreover have "filter (\<lambda>i. i = c \<or> i \<in> K) (filter (\<lambda>i. i \<in> K) q) = filter (\<lambda>i. i \<in> K) q" for c :: int64 and K q
      by (induction q) auto
    moreover have e: "markDirtyChange ch t = (if ch_id ch = 0 \<or> (\<not> ch_full ch \<and> ch_mask ch = 0) then t else
        t\<lparr>et_dirtySet := AList.update (ch_id ch) ch (et_dirtySet t), et_dirtyQueue := dirtyIDs t @ [ch_id ch]\<rparr>)"
      by (simp add: markDirtyChange_split [OF assms] None)
    ultimately show ?thesis
      using s dirtyIDs_filter [OF i] by (auto simp: e dirtyIDs_filter [OF assms])
  next
    case (Some e)
    then have "ch_id ch \<in> gm_keys (et_dirtySet t)" by (auto simp: gm_keys_Some)
    moreover have m: "markDirtyChange ch t = (if ch_id ch = 0 \<or> (\<not> ch_full ch \<and> ch_mask ch = 0) then t else
        t\<lparr>et_dirtySet := AList.update (ch_id ch) (mergeChange e ch) (et_dirtySet t)\<rparr>)"
      by (simp add: markDirtyChange_split [OF assms] Some)
    ultimately show ?thesis
      using s dirtyIDs_filter [OF i] by (auto simp: m dirtyIDs_filter [OF assms] insert_absorb)
  qed
qed

lemma clearDirty_inv [inv_intros]: "et_inv t \<Longrightarrow> et_inv (clearDirty i t)"
  by (auto simp: et_inv_def clearDirty_def split: if_splits)

lemma dirtyIDs_clearDirty: "et_inv t \<Longrightarrow> dirtyIDs (clearDirty i t) = removeAll i (dirtyIDs t)"
  using clearDirty_inv [of t i] by (auto simp: dirtyIDs_filter removeAll_filter_not_eq clearDirty_def intro!: filter_cong)

lemma release_inv [inv_intros]: "et_inv t \<Longrightarrow> et_inv (releaseInFlightChanges b t)"
  by (auto simp: et_inv_def releaseInFlightChanges_def)

lemma borrowLoop_spec:
  "i \<le> length free \<Longrightarrow> borrowLoop i n free = (c, free') \<Longrightarrow>
     n \<le> c \<and> length free' \<le> length free \<and> set free' \<subseteq> set free"
proof (induction i)
  case (Suc i)
  have "set (butlast (free[i := last free])) \<subseteq> set free"
  proof -
    have "last free \<in> set free" using Suc.prems(1) by (cases free) auto
    then have "set (free[i := last free]) \<subseteq> set free"
      using set_update_subset_insert [of free i "last free"] by auto
    then show ?thesis by (auto dest: in_set_butlastD)
  qed
  with Suc show ?case by (auto split: if_splits)
qed simp

lemma borrow_spec:
  assumes "borrowInFlightChanges n t = (c, t')"
  shows "n \<le> c" and "et_inv t \<Longrightarrow> et_inv t'" and "et_dirtySet t' = et_dirtySet t" "et_inFlight t' = et_inFlight t"
proof -
  obtain free' where b: "borrowLoop (length (et_inFlightFree t)) n (et_inFlightFree t) = (c, free')"
    and t': "t' = t\<lparr>et_inFlightFree := free'\<rparr>"
    using assms by (auto simp: borrowInFlightChanges_def split: prod.splits)
  note S = borrowLoop_spec [OF _ b]
  show "n \<le> c" "et_dirtySet t' = et_dirtySet t" "et_inFlight t' = et_inFlight t" using S t' by simp_all
  show "et_inv t'" if "et_inv t"
    using that S unfolding t' et_inv_def by (simp add: subset_iff)
qed

lemma inFlight_inv:
  "et_inv t \<Longrightarrow> b = None \<or> (\<exists>x. b = Some x \<and> ib_changes x \<noteq> [] \<and> length (ib_changes x) \<le> ib_cap x) \<Longrightarrow>
     map_of fl = (map_of (et_inFlight t))(k := b) \<Longrightarrow> et_inv (t\<lparr>et_inFlight := fl\<rparr>)"
  unfolding et_inv_def by (elim disjE exE) simp_all

lemma fold_inv: "(\<And>x t. P t \<Longrightarrow> P (f x t)) \<Longrightarrow> P t \<Longrightarrow> P (fold f xs t)"
  by (induction xs arbitrary: t) auto

lemma tracker_markSent_inv [inv_intros]:
  assumes "et_inv t"
  shows "et_inv (tracker_markSent token changes t)"
proof (cases "changes = []")
  case False
  define t1 where "t1 = (case map_of (et_inFlight t) token of Some e \<Rightarrow> releaseInFlightChanges e t | None \<Rightarrow> t)"
  have 1: "et_inv t1" using assms by (simp add: t1_def release_inv split: option.split)
  obtain c t2 where b: "borrowInFlightChanges (length changes) t1 = (c, t2)" by fastforce
  have "et_inv (t2\<lparr>et_inFlight := AList.update token \<lparr>ib_cap = c, ib_changes = changes\<rparr> (et_inFlight t2)\<rparr>)"
    using borrow_spec(1,2) [OF b] 1 False by (intro inFlight_inv) auto
  then show ?thesis
    using False b by (simp add: tracker_markSent_def t1_def [symmetric] clearDirty_inv fold_inv [where P = et_inv])
qed (use assms in \<open>simp add: tracker_markSent_def\<close>)

lemma clearEntityIn_inv [inv_intros]: "et_inv t \<Longrightarrow> et_inv (clearEntityIn i token t)"
proof (cases "map_of (et_inFlight t) token")
  case (Some b)
  assume i: "et_inv t"
  have "length (ib_changes b) \<le> ib_cap b" using i Some unfolding et_inv_def by blast
  then have "length (filter (\<lambda>ch. ch_id ch \<noteq> i) (ib_changes b)) \<le> ib_cap b"
    using length_filter_le le_trans by blast
  then have "filter (\<lambda>ch. ch_id ch \<noteq> i) (ib_changes b) \<noteq> [] \<Longrightarrow>
      et_inv (t\<lparr>et_inFlight := AList.update token (b\<lparr>ib_changes := filter (\<lambda>ch. ch_id ch \<noteq> i) (ib_changes b)\<rparr>) (et_inFlight t)\<rparr>)"
    by (intro inFlight_inv [OF \<open>et_inv t\<close>]) auto
  moreover have "et_inv (t\<lparr>et_inFlight := AList.delete token (et_inFlight t)\<rparr>)"
    by (rule inFlight_inv [OF \<open>et_inv t\<close>]) auto
  ultimately show ?thesis
    using Some by (simp add: clearEntityIn_def Let_def release_inv)
qed (simp add: clearEntityIn_def)

lemma clearEntity_inv [inv_intros]: "et_inv t \<Longrightarrow> et_inv (clearEntity ord i t)"
  by (simp add: clearEntity_def Let_def clearEntityIn_inv clearDirty_inv fold_inv [where P = et_inv])

lemma requeue_inv [inv_intros]: "et_inv t \<Longrightarrow> et_inv (requeue ord isLive k ch t)"
  by (simp add: requeue_def Let_def markDirtyChange_inv)

lemma applyDelivery_inv [inv_intros]: "et_inv t \<Longrightarrow> et_inv (applyDelivery ord isLive f t)"
proof -
  assume "et_inv t"
  then have "et_inv (t\<lparr>et_inFlight := AList.delete (ed_Token f) (et_inFlight t)\<rparr>)"
    by (rule inFlight_inv) auto
  then show ?thesis
    using \<open>et_inv t\<close> by (simp add: applyDelivery_def Let_def release_inv compactNow_inv requeue_inv
        fold_inv [where P = et_inv] split: option.split)
qed

text \<open>The operations of a tracker.\<close>

datatype et_op =
    EtMarkDirtyChange eventualStateChange
  | EtMarkDirty "int64 list"
  | EtMarkSent u64 "eventualStateChange list"
  | EtClearDirty int64
  | EtClearEntities "int64 list"
  | EtCompact
  | EtFeedback "int64 \<Rightarrow> bool" "EventualStateDelivery list"

fun et_apply :: "flight_order \<Rightarrow> et_op \<Rightarrow> eventualStateTracker \<Rightarrow> eventualStateTracker" where
  "et_apply ord (EtMarkDirtyChange ch) t = markDirtyChange ch t"
| "et_apply ord (EtMarkDirty ids) t = markDirty ids t"
| "et_apply ord (EtMarkSent token chs) t = tracker_markSent token chs t"
| "et_apply ord (EtClearDirty i) t = clearDirty i t"
| "et_apply ord (EtClearEntities ids) t = clearEntities ord ids t"
| "et_apply ord EtCompact t = compactDirtyQueue t"
| "et_apply ord (EtFeedback isLive fb) t = applyFeedback ord isLive fb t"

lemma et_apply_inv [inv_intros]: "et_inv t \<Longrightarrow> et_inv (et_apply ord op t)"
  by (cases op) (simp_all add: markDirty_def markDirtyFull_def clearEntities_def applyFeedback_def inv_intros
      fold_inv [where P = et_inv])

lemma dirtyChanges_ids:
  assumes "et_inv t"
  shows "map ch_id (dirtyChanges t) = dirtyIDs t"
    and "set (dirtyChanges t) = {ch. map_of (et_dirtySet t) (ch_id ch) = Some ch}"
proof -
  have e: "dirtyChanges t = map (\<lambda>i. the (map_of (et_dirtySet t) i)) (dirtyIDs t)"
    using assms by (auto simp: dirtyChanges_def dirtyIDs_filter List.map_filter_def dirty_filter simp flip: gm_keys_None)
  have k: "ch_id ch = i" if "map_of (et_dirtySet t) i = Some ch" for i ch using that assms by (simp add: et_inv_def)
  show "map ch_id (dirtyChanges t) = dirtyIDs t"
    unfolding e using set_dirtyIDs [OF assms] k by (auto simp: gm_keys_Some intro!: map_idI)
  show "set (dirtyChanges t) = {ch. map_of (et_dirtySet t) (ch_id ch) = Some ch}"
  proof (intro set_eqI iffI)
    fix ch assume "ch \<in> set (dirtyChanges t)"
    then obtain i where "map_of (et_dirtySet t) i = Some ch"
      using set_dirtyIDs [OF assms] by (auto simp: e gm_keys_Some)
    then show "ch \<in> {ch. map_of (et_dirtySet t) (ch_id ch) = Some ch}" using k by auto
  next
    fix ch assume "ch \<in> {ch. map_of (et_dirtySet t) (ch_id ch) = Some ch}"
    then have c: "map_of (et_dirtySet t) (ch_id ch) = Some ch" by simp
    then have "ch_id ch \<in> set (dirtyIDs t)" using set_dirtyIDs [OF assms] by (auto simp: gm_keys_Some)
    then show "ch \<in> set (dirtyChanges t)" unfolding e using c by (force simp: image_iff)
  qed
qed

text \<open>
  In every tracker that operations can produce, the dirty queue, with its stale entries and
  its two compaction strategies, is a FIFO without duplicates over exactly the dirty entities:
  a newly dirty entity goes to the end, a dirty one keeps its place (its change only grows and a
  redacted one stays redacted), clearing removes just the one, and compaction changes nothing;
  the changes come out in that order, one per entity.  The pool of buffers never exceeds 64
  entries of at most 256 elements.
\<close>

theorem dirty_queue_fifo:
  assumes "t = fold (et_apply ord) ops newEventualStateTracker"
  shows "distinct (dirtyIDs t) \<and> set (dirtyIDs t) = gm_keys (et_dirtySet t) \<and> map ch_id (dirtyChanges t) = dirtyIDs t
      \<and> set (dirtyChanges t) = {ch. map_of (et_dirtySet t) (ch_id ch) = Some ch}
    \<and> dirtyIDs (markDirtyChange ch t) =
      (if ch_id ch = 0 \<or> (\<not> ch_full ch \<and> ch_mask ch = 0) \<or> ch_id ch \<in> set (dirtyIDs t) then dirtyIDs t
       else dirtyIDs t @ [ch_id ch])
    \<and> (\<forall>old. map_of (et_dirtySet t) i = Some old \<longrightarrow>
      (\<exists>new. map_of (et_dirtySet (markDirtyChange ch t)) i = Some new
          \<and> (\<forall>x. covers old x \<longrightarrow> covers new x) \<and> (ch_public old \<longrightarrow> ch_public new)))
    \<and> dirtyIDs (clearDirty i t) = removeAll i (dirtyIDs t) \<and> dirtyIDs (compactDirtyQueue t) = dirtyIDs t
    \<and> length (et_inFlightFree t) \<le> 64 \<and> (\<forall>c \<in> set (et_inFlightFree t). c \<le> 256)"
proof -
  have i: "et_inv t" unfolding assms by (rule fold_inv) (simp_all add: et_apply_inv et_inv_new)
  have "distinct (dirtyIDs t) \<and> set (dirtyIDs t) = gm_keys (et_dirtySet t) \<and> map ch_id (dirtyChanges t) = dirtyIDs t
      \<and> set (dirtyChanges t) = {ch. map_of (et_dirtySet t) (ch_id ch) = Some ch}"
    using set_dirtyIDs [OF i] dirtyChanges_ids [OF i] by simp
  moreover have "length (et_inFlightFree t) \<le> 64 \<and> (\<forall>c \<in> set (et_inFlightFree t). c \<le> 256)"
    using i by (simp add: et_inv_def eventualInFlightFreeLimit_def eventualInFlightFreeMaxCap_def)
  moreover have "\<forall>old. map_of (et_dirtySet t) i = Some old \<longrightarrow>
      (\<exists>new. map_of (et_dirtySet (markDirtyChange ch t)) i = Some new
          \<and> (\<forall>x. covers old x \<longrightarrow> covers new x) \<and> (ch_public old \<longrightarrow> ch_public new))"
    by (auto simp: markDirtyChange_split [OF i] split: option.splits)
  ultimately show ?thesis by (simp add: dirtyIDs_markDirtyChange dirtyIDs_clearDirty dirtyIDs_compact i)
qed


text \<open>Two fields of entity 5 sent under token 1, one of them again under token 2; packet 1 is lost.\<close>

definition demoTracker :: eventualStateTracker where
  "demoTracker = fold (et_apply (map fst)) [
     EtMarkDirtyChange \<lparr>ch_id = 5, ch_mask = 3, ch_full = False, ch_public = False\<rparr>,
     EtMarkSent 1 [\<lparr>ch_id = 5, ch_mask = 3, ch_full = False, ch_public = False\<rparr>],
     EtMarkDirtyChange \<lparr>ch_id = 5, ch_mask = 1, ch_full = False, ch_public = False\<rparr>,
     EtMarkSent 2 [\<lparr>ch_id = 5, ch_mask = 1, ch_full = False, ch_public = False\<rparr>]] newEventualStateTracker"

lemma demoTracker_flight:
  "et_dirtySet demoTracker = []"
  "et_inFlight demoTracker = [(1, \<lparr>ib_cap = 1, ib_changes = [\<lparr>ch_id = 5, ch_mask = 3, ch_full = False, ch_public = False\<rparr>]\<rparr>),
     (2, \<lparr>ib_cap = 1, ib_changes = [\<lparr>ch_id = 5, ch_mask = 1, ch_full = False, ch_public = False\<rparr>]\<rparr>)]"
  by (simp_all add: demoTracker_def newEventualStateTracker_def markDirtyChange_def tracker_markSent_def
      borrowInFlightChanges_def clearDirty_def compactDirtyQueueNow_def gm_len_def Let_def)

theorem feedback_conserved_witness:
  "owes (applyFeedback (map fst) (\<lambda>_. True) [\<lparr>ed_Token = 1, ed_Delivered = False\<rparr>] demoTracker) 5 (Some 1)
   \<and> owes (applyFeedback (map fst) (\<lambda>_. True) [\<lparr>ed_Token = 1, ed_Delivered = False\<rparr>] demoTracker) 5 (Some 0)
   \<and> \<not> pend demoTracker 5 (Some 1)"
proof -
  have b: "bit (3 :: u64) 1" "bit (3 :: u64) 0" "bit (1 :: u64) 0" by (simp_all add: bit_numeral_rec bit_1_iff)
  have "owes demoTracker 5 (Some 1)" "owes demoTracker 5 (Some 0)" "\<not> pend demoTracker 5 (Some 1)"
    unfolding owes_def pend_def fly_def demoTracker_flight using b by (auto intro: exI [of _ 1])
  then show ?thesis
    using feedback_conserved [of 5 "\<lambda>_. True" demoTracker "Some 1" "map fst" "[\<lparr>ed_Token = 1, ed_Delivered = False\<rparr>]"]
      feedback_conserved [of 5 "\<lambda>_. True" demoTracker "Some 0" "map fst" "[\<lparr>ed_Token = 1, ed_Delivered = False\<rparr>]"] by simp
qed

theorem dirty_queue_fifo_witness:
  "dirtyIDs (markDirtyChange \<lparr>ch_id = 9, ch_mask = 4, ch_full = False, ch_public = True\<rparr>
     (fold (et_apply (map fst)) [EtMarkDirty [3, 4], EtClearDirty 3] newEventualStateTracker)) = [4, 9]"
proof -
  let ?t = "fold (et_apply (map fst)) [EtMarkDirty [3, 4], EtClearDirty 3] newEventualStateTracker"
  have "dirtyIDs ?t = [4]"
    by (simp add: markDirty_def markDirtyFull_def newEventualStateTracker_def markDirtyChange_def clearDirty_def
        compactDirtyQueueNow_def dirtyIDs_def ch_zero_def gm_len_def Let_def)
  then show ?thesis
    using dirty_queue_fifo [OF refl, of "map fst" "[EtMarkDirty [3, 4], EtClearDirty 3]"
        "\<lparr>ch_id = 9, ch_mask = 4, ch_full = False, ch_public = True\<rparr>"] by simp
qed

end
