(* ===== verification/Server_State.thy ===== *)
theory Server_State
  imports Registry Visibility Eventual_Tracker Payload_Framing Snapshot
begin

text \<open>
  The state of the server (\<^verbatim>\<open>golem/loop.go\<close>, \<^verbatim>\<open>type Server\<close>) as far as replication
  needs it, what the listener (\<^verbatim>\<open>golem/net/listener.go\<close>) does with a send, and the
  operations on entities, owners, visibility groups and snapshots.

  Connections come and go on other goroutines.  The model records every interaction with the
  listener in a history and takes the set of connected sessions as a function of that history:
  any behaviour of the connections is some such function.  Collision shapes, which
  \<^verbatim>\<open>CreateEntity\<close> and \<^verbatim>\<open>DeleteEntity\<close> register when layers are configured, and the
  back reference of \<^verbatim>\<open>BindServer\<close> are outside the model.
\<close>

section \<open>The environment\<close>

datatype netCall =
    NetSessionIDs
  | NetTransport int64
  | NetSendBatch int64 "bytes list" bool
  | NetSendEventual int64 u64 bytes bool

type_synonym StateUpdateLane = string

definition StateUpdateLaneStream :: StateUpdateLane where "StateUpdateLaneStream = ''stream''"
definition StateUpdateLaneDatagram :: StateUpdateLane where "StateUpdateLaneDatagram = ''datagram''"

definition normalizeStateUpdateLane :: "StateUpdateLane \<Rightarrow> StateUpdateLane" where
  "normalizeStateUpdateLane ln = (if ln = '''' then StateUpdateLaneDatagram else ln)"

definition normalizeServerTransport :: "Transport \<Rightarrow> Transport" where
  "normalizeServerTransport t = (if t = '''' then TransportWebTransport else t)"

text \<open>\<open>False\<close>: the source panics.\<close>

definition validateStateUpdateLane :: "StateUpdateLane \<Rightarrow> Transport \<Rightarrow> bool" where
  "validateStateUpdateLane ln t =
     (if ln = StateUpdateLaneStream then True
      else if ln = StateUpdateLaneDatagram then t = TransportWebTransport
      else False)"

text \<open>A pending change of owner (\<^verbatim>\<open>owner_replication.go\<close>).\<close>

record ownershipRefresh =
  rf_clearOwner :: int64
  rf_newOwner :: int64

text \<open>
  What an operation finds outside the server state: the interface of the entities, the
  configuration, the serializer of removals, the connections, and the order in which the
  runtime visits each kind of map.
\<close>

record 'e srvEnv =
  en_ifc :: "'e entityIface"
  en_Transport :: Transport
  en_StateUpdateLane :: StateUpdateLane
  en_removalSerializer :: "(int64 \<Rightarrow> u64 \<Rightarrow> string + bytes) option"
  en_sessions :: "netCall list \<Rightarrow> (int64, Transport) gomap"
  en_protocol :: "int64 \<Rightarrow> bool"
  en_isClosing :: "netCall list \<Rightarrow> int64 \<Rightarrow> bool"
  en_ordEntities :: "(int64, eref) gomap \<Rightarrow> int64 list"
  en_ordIDs :: "(int64, unit) gomap \<Rightarrow> int64 list"
  en_ordRefresh :: "(int64, ownershipRefresh) gomap \<Rightarrow> int64 list"
  en_ordChanges :: "(int64, eventualStateChange) gomap \<Rightarrow> int64 list"
  en_ordFlight :: flight_order

datatype serverError =
    errPayload payloadError
  | errDatagram datagramError
  | ErrSessionNotFound int64
  | ErrReliableDatagramsNotSupported
  | errOwnerCount nat
  | errNoIDSetter
  | errRegistry registryError
  | errSnapshot snapshotError
  | errRestoring int64 serverError
  | errNoRemovalSerializer int64
  | errSerializingRemoval int64 string
  | errFullUpdate int64 string
  | errPublicFull int64 string
  | errPublicDelta int64 string
  | errDelta int64 string
  | errCompactDelta int64 u64 string
  | errMissingOwnerScoped int64

section \<open>Sending through the listener\<close>

text \<open>The listener's message wrapper is \<^verbatim>\<open>WrapEntityUpdate\<close>; a nil slice is empty.\<close>

definition ln_Wrap :: "bytes option \<Rightarrow> bytes" where
  "ln_Wrap data = WrapEntityUpdate (case data of None \<Rightarrow> [] | Some d \<Rightarrow> d)"

definition ln_SessionIDs :: "'e srvEnv \<Rightarrow> netCall list \<Rightarrow> int64 list \<times> netCall list" where
  "ln_SessionIDs env net = (sort_key sint (map fst (en_sessions env net)), net @ [NetSessionIDs])"

definition ln_SessionTransport :: "'e srvEnv \<Rightarrow> int64 \<Rightarrow> netCall list \<Rightarrow> Transport option \<times> netCall list" where
  "ln_SessionTransport env sessionID net = (map_of (en_sessions env net) sessionID, net @ [NetTransport sessionID])"

definition ln_SendBatch :: "'e srvEnv \<Rightarrow> int64 \<Rightarrow> bytes list \<Rightarrow> netCall list \<Rightarrow> serverError option \<times> netCall list" where
  "ln_SendBatch env sessionID frames net =
     (if length frames = 0 then (None, net)
      else case validateReliableMessageSizes frames of
             Some e \<Rightarrow> (Some (errPayload e), net)
           | None \<Rightarrow>
               if map_of (en_sessions env net) sessionID = None
               then (Some (ErrSessionNotFound sessionID), net @ [NetSendBatch sessionID frames False])
               else (None, net @ [NetSendBatch sessionID frames True]))"

text \<open>\<^verbatim>\<open>sendEventualStateOwned\<close> of the session: nothing is queued on a closing session.\<close>

definition sess_sendEventualStateOwned ::
  "'e srvEnv \<Rightarrow> int64 \<Rightarrow> u64 \<Rightarrow> bytes \<Rightarrow> netCall list \<Rightarrow> serverError option \<times> netCall list" where
  "sess_sendEventualStateOwned env sessionID token data net =
     (if \<not> en_protocol env sessionID then (Some ErrReliableDatagramsNotSupported, net)
      else if length data = 0 \<or> en_isClosing env net sessionID
      then (None, net @ [NetSendEventual sessionID token data False])
      else case validateEventualStateDatagramPayloadSize data of
             Some e \<Rightarrow> (Some (errDatagram e), net)
           | None \<Rightarrow> (None, net @ [NetSendEventual sessionID token data True]))"

definition ln_SendEventualStateOwned ::
  "'e srvEnv \<Rightarrow> int64 \<Rightarrow> u64 \<Rightarrow> bytes \<Rightarrow> netCall list \<Rightarrow> serverError option \<times> netCall list" where
  "ln_SendEventualStateOwned env sessionID token data net =
     (if en_Transport env \<noteq> TransportWebTransport then (Some ErrReliableDatagramsNotSupported, net)
      else if map_of (en_sessions env net) sessionID = None
      then (Some (ErrSessionNotFound sessionID), net @ [NetSendEventual sessionID token data False])
      else if \<not> en_protocol env sessionID then (Some ErrReliableDatagramsNotSupported, net)
      else case validateEventualStateDatagramPayloadSize data of
             Some e \<Rightarrow> (Some (errDatagram e), net)
           | None \<Rightarrow> sess_sendEventualStateOwned env sessionID token data net)"

fun isDisconnectedSessionSend :: "serverError \<Rightarrow> bool" where
  "isDisconnectedSessionSend (ErrSessionNotFound _) = True"
| "isDisconnectedSessionSend _ = False"

section \<open>The server\<close>

record ReplicationStats =
  rs_LastTick :: u64
  rs_DeltasFlushed :: nat
  rs_StreamBatchedFrames :: nat
  rs_StreamWireMsgs :: nat
  rs_DatagramBatchedFrames :: nat
  rs_DatagramWirePayloads :: nat

type_synonym idSet = "(int64, unit) gomap"

record 'e Server =
  sv_idCounter :: int64
  sv_reg :: Registry
  sv_heap :: "'e heap"
  sv_visibility :: Manager
  sv_broadcastKnown :: "(int64, idSet) gomap"
  sv_ownershipRefresh :: "(int64, ownershipRefresh) gomap"
  sv_eventualTrackers :: "(int64, eventualStateTracker) gomap"
  sv_nextEventualToken :: u64
  sv_sessionAvatar :: "(int64, int64) gomap"
  sv_avatarSession :: "(int64, int64) gomap"
  sv_net :: "netCall list"
  sv_tick :: u64
  sv_stats :: ReplicationStats

definition sv_Get :: "'e Server \<Rightarrow> int64 \<Rightarrow> 'e option" where
  "sv_Get s i = map_option (sv_heap s) (reg_Get (sv_reg s) i)"

definition sv_Owner :: "'e Server \<Rightarrow> int64 \<Rightarrow> int64 option" where
  "sv_Owner s entityID = reg_Owner (sv_reg s) entityID"

definition sv_All :: "'e srvEnv \<Rightarrow> 'e Server \<Rightarrow> 'e list" where
  "sv_All env s = map (sv_heap s) (reg_All (en_ordEntities env (rg_entities (sv_reg s))) (sv_reg s))"

definition nextID :: "'e Server \<Rightarrow> int64 \<times> 'e Server" where
  "nextID s = (sv_idCounter s + 1, s\<lparr>sv_idCounter := sv_idCounter s + 1\<rparr>)"

definition ReserveEntityID :: "'e Server \<Rightarrow> int64 \<times> 'e Server" where
  "ReserveEntityID s = nextID s"

definition SetEntityIDCounter :: "int64 \<Rightarrow> 'e Server \<Rightarrow> 'e Server" where
  "SetEntityIDCounter n s = s\<lparr>sv_idCounter := n\<rparr>"

text \<open>The second component is the entities whose \<^verbatim>\<open>OnSpawn\<close> runs.\<close>

definition CreateEntity ::
  "'e srvEnv \<Rightarrow> eref \<Rightarrow> int64 list \<Rightarrow> 'e Server \<Rightarrow> serverError option \<times> eref list \<times> 'e Server" where
  "CreateEntity env e owner s =
     (let ifc = en_ifc env
      in if length owner > 1 then (Some (errOwnerCount (length owner)), [], s)
         else
           case (if ei_EntityID ifc (sv_heap s e) = 0
                 then case ei_SetEntityID ifc (sv_heap s e) of
                        None \<Rightarrow> None
                      | Some setter \<Rightarrow>
                          (case nextID s of (n, s) \<Rightarrow> Some (s\<lparr>sv_heap := (sv_heap s)(e := setter n)\<rparr>))
                 else Some s) of
             None \<Rightarrow> (Some errNoIDSetter, [], s)
           | Some s \<Rightarrow>
               (case (if length owner = 1 then AddOwnedWithoutSpawn ifc (sv_heap s) (sv_reg s) e (hd owner)
                      else AddWithoutSpawn ifc (sv_heap s) (sv_reg s) e) of
                  (Some err, r) \<Rightarrow> (Some (errRegistry err), [], s\<lparr>sv_reg := r\<rparr>)
                | (None, r) \<Rightarrow> (None, NotifySpawn ifc (sv_heap s) e, s\<lparr>sv_reg := r\<rparr>)))"

definition clearAvatarByEntity :: "int64 \<Rightarrow> 'e Server \<Rightarrow> 'e Server" where
  "clearAvatarByEntity entityID s =
     (case map_of (sv_avatarSession s) entityID of
        None \<Rightarrow> s
      | Some sessionID \<Rightarrow>
          (let s = s\<lparr>sv_avatarSession := AList.delete entityID (sv_avatarSession s)\<rparr>
           in if map_of (sv_sessionAvatar s) sessionID = Some entityID
              then s\<lparr>sv_sessionAvatar := AList.delete sessionID (sv_sessionAvatar s)\<rparr> else s))"

text \<open>The first component is the entities whose \<^verbatim>\<open>OnRemove\<close> runs.\<close>

definition DeleteEntity :: "'e srvEnv \<Rightarrow> int64 \<Rightarrow> 'e Server \<Rightarrow> eref list \<times> 'e Server" where
  "DeleteEntity env i s =
     (let s = clearAvatarByEntity i s
      in case reg_DeleteEntity (en_ifc env) (sv_heap s) (sv_reg s) i of
           (removed, r) \<Rightarrow> (removed, s\<lparr>sv_reg := r\<rparr>))"

section \<open>Owners\<close>

definition entityIsOwnerScoped :: "'e srvEnv \<Rightarrow> 'e \<Rightarrow> bool" where
  "entityIsOwnerScoped env e \<longleftrightarrow> ei_PublicFullUpdate (en_ifc env) e \<noteq> None"

definition hasOwnerScopedEntities :: "'e srvEnv \<Rightarrow> 'e list \<Rightarrow> bool" where
  "hasOwnerScopedEntities env live \<longleftrightarrow> list_ex (entityIsOwnerScoped env) live"

definition sessionOwnsEntity :: "'e Server \<Rightarrow> int64 \<Rightarrow> int64 \<Rightarrow> bool" where
  "sessionOwnsEntity s sessionID entityID \<longleftrightarrow> reg_Owner (sv_reg s) entityID = Some sessionID"

definition queueOwnershipRefreshLocked :: "int64 \<Rightarrow> int64 \<Rightarrow> int64 \<Rightarrow> 'e Server \<Rightarrow> 'e Server" where
  "queueOwnershipRefreshLocked entityID oldOwner newOwner s =
     (if oldOwner = newOwner then s
      else
        (let pending = (case map_of (sv_ownershipRefresh s) entityID of
                          None \<Rightarrow> \<lparr>rf_clearOwner = oldOwner, rf_newOwner = 0\<rparr> | Some p \<Rightarrow> p);
             pending = pending\<lparr>rf_newOwner := newOwner\<rparr>
         in if rf_clearOwner pending = rf_newOwner pending
            then s\<lparr>sv_ownershipRefresh := AList.delete entityID (sv_ownershipRefresh s)\<rparr>
            else s\<lparr>sv_ownershipRefresh := AList.update entityID pending (sv_ownershipRefresh s)\<rparr>))"

definition snapshotOwnershipRefreshLocked :: "'e Server \<Rightarrow> (int64, ownershipRefresh) gomap \<times> 'e Server" where
  "snapshotOwnershipRefreshLocked s =
     (if gm_len (sv_ownershipRefresh s) = 0 then ([], s)
      else (sv_ownershipRefresh s, s\<lparr>sv_ownershipRefresh := []\<rparr>))"

definition hasPendingOwnershipRefreshLocked :: "'e Server \<Rightarrow> bool" where
  "hasPendingOwnershipRefreshLocked s \<longleftrightarrow> gm_len (sv_ownershipRefresh s) > 0"

definition SetOwner :: "'e srvEnv \<Rightarrow> int64 \<Rightarrow> int64 \<Rightarrow> 'e Server \<Rightarrow> bool \<times> 'e Server" where
  "SetOwner env entityID sessionID s =
     (case sv_Get s entityID of
        None \<Rightarrow> (False, s)
      | Some e \<Rightarrow>
          (let oldOwner = (case reg_Owner (sv_reg s) entityID of None \<Rightarrow> 0 | Some v \<Rightarrow> v)
           in if oldOwner = sessionID then (True, s)
              else case reg_SetOwner (sv_reg s) entityID sessionID of
                     (False, r) \<Rightarrow> (False, s\<lparr>sv_reg := r\<rparr>)
                   | (True, r) \<Rightarrow>
                       (let s = s\<lparr>sv_reg := r\<rparr>
                        in (True, if entityIsOwnerScoped env e
                                  then queueOwnershipRefreshLocked entityID oldOwner sessionID s else s))))"

section \<open>Visibility groups\<close>

definition JoinVisibilityGroup :: "int64 \<Rightarrow> string \<Rightarrow> 'e Server \<Rightarrow> 'e Server" where
  "JoinVisibilityGroup sessionID grp s = s\<lparr>sv_visibility := JoinGroup (sv_visibility s) sessionID grp\<rparr>"

definition LeaveVisibilityGroup :: "int64 \<Rightarrow> string \<Rightarrow> 'e Server \<Rightarrow> 'e Server" where
  "LeaveVisibilityGroup sessionID grp s = s\<lparr>sv_visibility := LeaveGroup (sv_visibility s) sessionID grp\<rparr>"

definition SetEntityVisibilityGroup :: "int64 \<Rightarrow> string \<Rightarrow> 'e Server \<Rightarrow> 'e Server" where
  "SetEntityVisibilityGroup entityID grp s = s\<lparr>sv_visibility := snd (SetEntityGroup (sv_visibility s) entityID grp)\<rparr>"

section \<open>Loading a snapshot\<close>

text \<open>
  \<open>restore\<close> is the generated \<^verbatim>\<open>RestoreEntity\<close>; the entity it returns is stored at the
  reference \<open>next\<close>, new for each record.  The comparison of identifiers is signed.
\<close>

fun loadLoop ::
  "'e srvEnv \<Rightarrow> (snapRecord \<Rightarrow> string + 'e) \<Rightarrow> snapRecord list \<Rightarrow> eref \<Rightarrow> int64 \<Rightarrow> 'e Server
     \<Rightarrow> (serverError + int64) \<times> 'e Server" where
  "loadLoop env restore [] next maxID s = (Inr maxID, s)"
| "loadLoop env restore (rec # recs) next maxID s =
     (case restore rec of
        Inl err \<Rightarrow> loadLoop env restore recs next maxID s
      | Inr entity \<Rightarrow>
          (case CreateEntity env next [] (s\<lparr>sv_heap := (sv_heap s)(next := entity)\<rparr>) of
             (Some err, _, s) \<Rightarrow> (Inl (errRestoring (rec_EntityID rec) err), s)
           | (None, _, s) \<Rightarrow>
               loadLoop env restore recs (Suc next)
                 (if sint (rec_EntityID rec) > sint maxID then rec_EntityID rec else maxID) s))"

definition LoadSnapshot ::
  "'e srvEnv \<Rightarrow> fs \<Rightarrow> bytes \<Rightarrow> bytes \<Rightarrow> (snapRecord \<Rightarrow> string + 'e) \<Rightarrow> eref \<Rightarrow> 'e Server
     \<Rightarrow> serverError option \<times> 'e Server" where
  "LoadSnapshot env fs path fingerprint restore next s =
     (case Load fs path fingerprint of
        Inl err \<Rightarrow> (Some (errSnapshot err), s)
      | Inr records \<Rightarrow>
          (case loadLoop env restore records next 0 s of
             (Inl err, s) \<Rightarrow> (Some err, s)
           | (Inr maxID, s) \<Rightarrow> (None, if sint maxID > 0 then SetEntityIDCounter maxID s else s)))"

end
