(* ===== verification/Eventual_Send.thy ===== *)
theory Eventual_Send
  imports Server_State
begin

text \<open>
  Sending eventual state (\<^verbatim>\<open>golem/eventual_state.go\<close>, the \<^verbatim>\<open>Server\<close> methods, and
  \<^verbatim>\<open>golem/compact_state.go\<close>): the frame of a change, the packing of frames into datagrams
  below the budget, the fallback to the stream, and the bookkeeping in the tracker.  The scratch
  slices the source reuses start empty in every call and are left out.
\<close>

section \<open>Trackers of the server\<close>

definition eventualTracker :: "'e Server \<Rightarrow> int64 \<Rightarrow> eventualStateTracker \<times> 'e Server" where
  "eventualTracker s sessionID =
     (case map_of (sv_eventualTrackers s) sessionID of
        Some t \<Rightarrow> (t, s)
      | None \<Rightarrow> (newEventualStateTracker,
          s\<lparr>sv_eventualTrackers := AList.update sessionID newEventualStateTracker (sv_eventualTrackers s)\<rparr>))"

text \<open>What the tracker pointer of a session refers to, and a change through it.\<close>

definition trk :: "'e Server \<Rightarrow> int64 \<Rightarrow> eventualStateTracker" where
  "trk s sessionID = fst (eventualTracker s sessionID)"

definition set_trk :: "int64 \<Rightarrow> eventualStateTracker \<Rightarrow> 'e Server \<Rightarrow> 'e Server" where
  "set_trk sessionID t s = s\<lparr>sv_eventualTrackers := AList.update sessionID t (sv_eventualTrackers s)\<rparr>"

definition applyEventualStateFeedback ::
  "'e srvEnv \<Rightarrow> int64 \<Rightarrow> EventualStateDelivery list \<Rightarrow> 'e Server \<Rightarrow> 'e Server" where
  "applyEventualStateFeedback env sessionID feedback s =
     (if length feedback = 0 then s
      else case map_of (sv_eventualTrackers s) sessionID of
             None \<Rightarrow> s
           | Some t \<Rightarrow>
               set_trk sessionID
                 (applyFeedback (en_ordFlight env) (\<lambda>i. reg_Get (sv_reg s) i \<noteq> None) feedback t) s)"

definition nextEventualStateToken :: "'e Server \<Rightarrow> u64 \<times> 'e Server" where
  "nextEventualStateToken s =
     (sv_nextEventualToken s + 1, s\<lparr>sv_nextEventualToken := sv_nextEventualToken s + 1\<rparr>)"

definition eventualChangeForDelta :: "'e srvEnv \<Rightarrow> 'e Server \<Rightarrow> int64 \<Rightarrow> eventualStateChange" where
  "eventualChangeForDelta env s i =
     (case sv_Get s i of
        None \<Rightarrow> ch_zero\<lparr>ch_id := i, ch_full := True\<rparr>
      | Some e \<Rightarrow>
          (case ei_LastFlushMask (en_ifc env) e of
             Some m \<Rightarrow> if m \<noteq> 0 then ch_zero\<lparr>ch_id := i, ch_mask := m\<rparr>
                       else ch_zero\<lparr>ch_id := i, ch_full := True\<rparr>
           | None \<Rightarrow> ch_zero\<lparr>ch_id := i, ch_full := True\<rparr>))"

definition clearEventualEntity :: "'e srvEnv \<Rightarrow> int64 \<Rightarrow> int64 \<Rightarrow> 'e Server \<Rightarrow> 'e Server" where
  "clearEventualEntity env sessionID entityID s =
     (case map_of (sv_eventualTrackers s) sessionID of
        None \<Rightarrow> s
      | Some t \<Rightarrow> set_trk sessionID (clearEntity (en_ordFlight env) entityID t) s)"

text \<open>The trackers are independent, so the order of the outer loop does not matter.\<close>

definition clearEventualEntities :: "'e srvEnv \<Rightarrow> int64 list \<Rightarrow> 'e Server \<Rightarrow> 'e Server" where
  "clearEventualEntities env entityIDs s =
     (if length entityIDs = 0 then s
      else s\<lparr>sv_eventualTrackers :=
             map (\<lambda>(sid, t). (sid, fold (clearEntity (en_ordFlight env)) entityIDs t)) (sv_eventualTrackers s)\<rparr>)"

section \<open>Frames\<close>

record eventualStateFrame =
  ef_datagram :: "bytes option"
  ef_stream :: "bytes option"
  ef_payloadLen :: nat
  ef_fitsDatagram :: bool

definition ef_zero :: eventualStateFrame where
  "ef_zero = \<lparr>ef_datagram = None, ef_stream = None, ef_payloadLen = 0, ef_fitsDatagram = False\<rparr>"

record eventualPreparedFrame =
  pf_change :: eventualStateChange
  pf_frame :: eventualStateFrame
  pf_live :: bool

definition compactDeltaForMask :: "'e srvEnv \<Rightarrow> 'e Server \<Rightarrow> int64 \<Rightarrow> u64 \<Rightarrow> serverError + bytes option" where
  "compactDeltaForMask env s entityID m =
     (if m = 0 then Inr None
      else case sv_Get s entityID of
             None \<Rightarrow> Inr None
           | Some e \<Rightarrow>
               (case ei_MarshalCompactDeltaMask (en_ifc env) e of
                  None \<Rightarrow> Inr None
                | Some f \<Rightarrow>
                    (case f m of Inl err \<Rightarrow> Inl (errCompactDelta entityID m err) | Inr d \<Rightarrow> Inr d)))"

text \<open>The full-state branch and the fallback of \<^verbatim>\<open>eventualFrameForChange\<close> share this choice.\<close>

definition fullFrame :: "'e srvEnv \<Rightarrow> eventualStateChange \<Rightarrow> 'e \<Rightarrow> serverError + eventualStateFrame" where
  "fullFrame env ch e =
     (if ch_public ch then
        (case ei_PublicFullUpdate (en_ifc env) e of
           None \<Rightarrow> Inl (errMissingOwnerScoped (ch_id ch))
         | Some (Inl err) \<Rightarrow> Inl (errFullUpdate (ch_id ch) err)
         | Some (Inr d) \<Rightarrow> Inr (ef_zero\<lparr>ef_stream := Some (ln_Wrap d)\<rparr>))
      else
        (case ei_FullUpdate (en_ifc env) e of
           Inl err \<Rightarrow> Inl (errFullUpdate (ch_id ch) err)
         | Inr d \<Rightarrow> Inr (ef_zero\<lparr>ef_stream := Some (ln_Wrap d)\<rparr>)))"

text \<open>The part of \<^verbatim>\<open>eventualFrameForChange\<close> after the mask is known.\<close>

definition deltaFrame ::
  "'e srvEnv \<Rightarrow> 'e Server \<Rightarrow> eventualStateChange \<Rightarrow> 'e \<Rightarrow> u64 \<Rightarrow> serverError + eventualStateFrame" where
  "deltaFrame env s ch e m =
     (case compactDeltaForMask env s (ch_id ch) m of
        Inl err \<Rightarrow> Inl err
      | Inr compact \<Rightarrow>
          (case (case compact of
                   None \<Rightarrow> None
                 | Some c \<Rightarrow>
                     (let payloadLen = CompactStateDatagramFramePayloadLen c
                      in if payloadLen \<le> EventualStateDatagramPayloadBudget
                         then Some (ef_zero\<lparr>ef_datagram := Some c, ef_payloadLen := payloadLen, ef_fitsDatagram := True\<rparr>)
                         else None)) of
             Some f \<Rightarrow> Inr f
           | None \<Rightarrow>
               if ei_LastFlushMask (en_ifc env) e \<noteq> None then
                 (case ei_MarshalDeltaMask (en_ifc env) e m of
                    Inl err \<Rightarrow> Inl (errDelta (ch_id ch) err)
                  | Inr None \<Rightarrow> Inr ef_zero
                  | Inr (Some d) \<Rightarrow> Inr (ef_zero\<lparr>ef_stream := Some (ln_Wrap (Some d))\<rparr>))
               else fullFrame env ch e))"

text \<open>The boolean of the result: the entity is live.\<close>

definition eventualFrameForChange ::
  "'e srvEnv \<Rightarrow> 'e Server \<Rightarrow> eventualStateChange \<Rightarrow> serverError + eventualStateFrame \<times> bool" where
  "eventualFrameForChange env s ch =
     (case sv_Get s (ch_id ch) of
        None \<Rightarrow> Inr (ef_zero, False)
      | Some e \<Rightarrow>
          if ch_full ch then res_bind (fullFrame env ch e) (\<lambda>f. Inr (f, True))
          else if ch_public ch then
            (if \<not> entityIsOwnerScoped env e then Inl (errMissingOwnerScoped (ch_id ch))
             else
               (let m = ei_PublicReplicationMask (en_ifc env) e (ch_mask ch)
                in if m = 0 then Inr (ef_zero, True)
                   else res_bind (deltaFrame env s ch e m) (\<lambda>f. Inr (f, True))))
          else res_bind (deltaFrame env s ch e (ch_mask ch)) (\<lambda>f. Inr (f, True)))"

type_synonym eventualStateTickCache = "(eventualStateChange, eventualStateFrame) gomap"

definition cache_frame ::
  "'e srvEnv \<Rightarrow> 'e Server \<Rightarrow> eventualStateChange \<Rightarrow> eventualStateTickCache
     \<Rightarrow> serverError + (eventualStateFrame \<times> bool) \<times> eventualStateTickCache" where
  "cache_frame env s ch cache =
     (case map_of cache ch of
        Some f \<Rightarrow> Inr ((f, True), cache)
      | None \<Rightarrow>
          (case eventualFrameForChange env s ch of
             Inl err \<Rightarrow> Inl err
           | Inr (f, live) \<Rightarrow>
               if \<not> live then Inr ((f, False), cache)
               else Inr ((f, True), AList.update ch f cache)))"

definition eventualPreparedFrameForChange ::
  "'e srvEnv \<Rightarrow> 'e Server \<Rightarrow> eventualStateChange \<Rightarrow> serverError + eventualPreparedFrame" where
  "eventualPreparedFrameForChange env s ch =
     res_bind (eventualFrameForChange env s ch)
       (\<lambda>(f, live). Inr \<lparr>pf_change = ch, pf_frame = f, pf_live = live\<rparr>)"

section \<open>Packing and sending\<close>

record eventualStateSendStats =
  ss_streamBatchedFrames :: nat
  ss_streamWireMsgs :: nat
  ss_datagramBatchedFrames :: nat
  ss_datagramWirePayloads :: nat

definition ss_zero :: eventualStateSendStats where
  "ss_zero = \<lparr>ss_streamBatchedFrames = 0, ss_streamWireMsgs = 0, ss_datagramBatchedFrames = 0, ss_datagramWirePayloads = 0\<rparr>"

record 'e sendAcc =
  sa_srv :: "'e Server"
  sa_streamFrames :: "bytes list"
  sa_streamChanges :: "eventualStateChange list"
  sa_pendingChanges :: "eventualStateChange list"
  sa_payload :: bytes
  sa_pendingBytes :: nat
  sa_stats :: eventualStateSendStats

definition sa_init :: "'e Server \<Rightarrow> 'e sendAcc" where
  "sa_init s = \<lparr>sa_srv = s, sa_streamFrames = [], sa_streamChanges = [], sa_pendingChanges = [], sa_payload = [],
     sa_pendingBytes = 0, sa_stats = ss_zero\<rparr>"

definition sa_clearDirty :: "int64 \<Rightarrow> int64 \<Rightarrow> 'e sendAcc \<Rightarrow> 'e sendAcc" where
  "sa_clearDirty sessionID i a =
     a\<lparr>sa_srv := set_trk sessionID (clearDirty i (trk (sa_srv a) sessionID)) (sa_srv a)\<rparr>"

text \<open>
  The closure \<^verbatim>\<open>flushPending\<close>.  The first component is what the caller checks:
  \<open>Some (Inl err)\<close> for an error, \<open>Some (Inr ())\<close> when the session is gone, \<open>None\<close> to go on.
\<close>

definition flushPending :: "'e srvEnv \<Rightarrow> int64 \<Rightarrow> 'e sendAcc \<Rightarrow> (serverError + unit) option \<times> 'e sendAcc" where
  "flushPending env sessionID a =
     (if length (sa_pendingChanges a) = 0 then (None, a)
      else
        (case nextEventualStateToken (sa_srv a) of
           (token, s) \<Rightarrow>
             (case ln_SendEventualStateOwned env sessionID token (sa_payload a) (sv_net s) of
                (Some err, net) \<Rightarrow>
                  (Some (if isDisconnectedSessionSend err then Inr () else Inl err), a\<lparr>sa_srv := s\<lparr>sv_net := net\<rparr>\<rparr>)
              | (None, net) \<Rightarrow>
                  (let s = s\<lparr>sv_net := net\<rparr>;
                       s = set_trk sessionID (tracker_markSent token (sa_pendingChanges a) (trk s sessionID)) s;
                       st = sa_stats a
                   in (None, a\<lparr>sa_srv := s,
                        sa_stats := st\<lparr>ss_datagramBatchedFrames := ss_datagramBatchedFrames st + length (sa_pendingChanges a),
                                       ss_datagramWirePayloads := ss_datagramWirePayloads st + 1\<rparr>,
                        sa_pendingChanges := [], sa_payload := [], sa_pendingBytes := 0\<rparr>)))))"

text \<open>The body of both packing loops once the frame of the change is known.\<close>

definition placeFrame ::
  "'e srvEnv \<Rightarrow> int64 \<Rightarrow> eventualStateChange \<Rightarrow> eventualStateFrame \<Rightarrow> bool \<Rightarrow> 'e sendAcc
     \<Rightarrow> (serverError + unit) option \<times> 'e sendAcc" where
  "placeFrame env sessionID ch frame live a =
     (if \<not> live then (None, sa_clearDirty sessionID (ch_id ch) a)
      else if ef_datagram frame = None \<and> ef_stream frame = None then (None, sa_clearDirty sessionID (ch_id ch) a)
      else if \<not> ef_fitsDatagram frame
      then (None, a\<lparr>sa_streamFrames := sa_streamFrames a @ [case ef_stream frame of None \<Rightarrow> [] | Some d \<Rightarrow> d],
                    sa_streamChanges := sa_streamChanges a @ [ch]\<rparr>)
      else
        (case (if sa_pendingBytes a > 0 \<and> sa_pendingBytes a + ef_payloadLen frame > EventualStateDatagramPayloadBudget
               then flushPending env sessionID a else (None, a)) of
           (Some stop, a) \<Rightarrow> (Some stop, a)
         | (None, a) \<Rightarrow>
             (None, a\<lparr>sa_pendingChanges := sa_pendingChanges a @ [ch],
                      sa_payload := AppendCompactStateDatagramFrame (sa_payload a)
                        (case ef_datagram frame of None \<Rightarrow> [] | Some d \<Rightarrow> d),
                      sa_pendingBytes := sa_pendingBytes a + ef_payloadLen frame\<rparr>)))"

text \<open>What follows both loops: the last datagram and the stream batch.\<close>

definition finishSend ::
  "'e srvEnv \<Rightarrow> int64 \<Rightarrow> 'e sendAcc \<Rightarrow> (serverError + unit) option \<times> 'e sendAcc" where
  "finishSend env sessionID a =
     (case flushPending env sessionID a of
        (Some stop, a) \<Rightarrow> (Some stop, a)
      | (None, a) \<Rightarrow>
          if length (sa_streamFrames a) = 0 then (None, a)
          else
            (case ln_SessionTransport env sessionID (sv_net (sa_srv a)) of
               (tr, net) \<Rightarrow>
                 (let a = a\<lparr>sa_srv := (sa_srv a)\<lparr>sv_net := net\<rparr>\<rparr>
                  in case tr of
                       None \<Rightarrow> (Some (Inr ()), a)
                     | Some transport \<Rightarrow>
                         (case ReliableStreamWriteChunkCount transport (sa_streamFrames a) of
                            Inl err \<Rightarrow> (Some (Inl (errPayload err)), a)
                          | Inr streamWireMsgs \<Rightarrow>
                              (case ln_SendBatch env sessionID (sa_streamFrames a) (sv_net (sa_srv a)) of
                                 (err, net) \<Rightarrow>
                                   (let a = a\<lparr>sa_srv := (sa_srv a)\<lparr>sv_net := net\<rparr>\<rparr>
                                    in case err of
                                         Some e \<Rightarrow> (Some (if isDisconnectedSessionSend e then Inr () else Inl e), a)
                                       | None \<Rightarrow>
                                           (let st = sa_stats a;
                                                a = a\<lparr>sa_stats := st\<lparr>
                                                  ss_streamBatchedFrames := ss_streamBatchedFrames st + length (sa_streamFrames a),
                                                  ss_streamWireMsgs := ss_streamWireMsgs st + streamWireMsgs\<rparr>\<rparr>
                                            in (None, fold (\<lambda>ch. sa_clearDirty sessionID (ch_id ch)) (sa_streamChanges a) a))))))))"

definition sendResult ::
  "(serverError + unit) option \<times> 'e sendAcc \<Rightarrow> serverError option \<times> eventualStateSendStats \<times> 'e Server" where
  "sendResult r =
     (case r of (stop, a) \<Rightarrow> (case stop of Some (Inl e) \<Rightarrow> Some e | _ \<Rightarrow> None, sa_stats a, sa_srv a))"

fun sendChangesLoop ::
  "'e srvEnv \<Rightarrow> int64 \<Rightarrow> eventualStateChange list \<Rightarrow> eventualStateTickCache \<Rightarrow> 'e sendAcc
     \<Rightarrow> ((serverError + unit) option \<times> 'e sendAcc) \<times> eventualStateTickCache" where
  "sendChangesLoop env sessionID [] cache a = (finishSend env sessionID a, cache)"
| "sendChangesLoop env sessionID (ch # chs) cache a =
     (case cache_frame env (sa_srv a) ch cache of
        Inl err \<Rightarrow> ((Some (Inl err), a), cache)
      | Inr ((frame, live), cache) \<Rightarrow>
          (case placeFrame env sessionID ch frame live a of
             (Some stop, a) \<Rightarrow> ((Some stop, a), cache)
           | (None, a) \<Rightarrow> sendChangesLoop env sessionID chs cache a))"

definition sendEventualStateChanges ::
  "'e srvEnv \<Rightarrow> int64 \<Rightarrow> eventualStateTickCache \<Rightarrow> eventualStateChange list \<Rightarrow> 'e Server
     \<Rightarrow> (serverError option \<times> eventualStateSendStats \<times> 'e Server) \<times> eventualStateTickCache" where
  "sendEventualStateChanges env sessionID cache changes s =
     (if length changes = 0 then ((None, ss_zero, s), cache)
      else case sendChangesLoop env sessionID changes cache (sa_init s) of
             (r, cache) \<Rightarrow> (sendResult r, cache))"

definition sendEventualState ::
  "'e srvEnv \<Rightarrow> int64 \<Rightarrow> eventualStateTickCache \<Rightarrow> 'e Server
     \<Rightarrow> (serverError option \<times> eventualStateSendStats \<times> 'e Server) \<times> eventualStateTickCache" where
  "sendEventualState env sessionID cache s =
     (let changes = dirtyChanges (trk s sessionID)
      in if length changes = 0
         then ((None, ss_zero, set_trk sessionID (compactDirtyQueue (trk s sessionID)) s), cache)
         else case sendEventualStateChanges env sessionID cache changes s of
                ((err, st, s), cache) \<Rightarrow>
                  ((err, st, set_trk sessionID (compactDirtyQueue (trk s sessionID)) s), cache))"

fun sendPreparedLoop ::
  "'e srvEnv \<Rightarrow> int64 \<Rightarrow> eventualPreparedFrame list \<Rightarrow> 'e sendAcc \<Rightarrow> (serverError + unit) option \<times> 'e sendAcc" where
  "sendPreparedLoop env sessionID [] a = finishSend env sessionID a"
| "sendPreparedLoop env sessionID (pf # pfs) a =
     (case placeFrame env sessionID (pf_change pf) (pf_frame pf) (pf_live pf) a of
        (Some stop, a) \<Rightarrow> (Some stop, a)
      | (None, a) \<Rightarrow> sendPreparedLoop env sessionID pfs a)"

definition sendPreparedEventualStateFrames ::
  "'e srvEnv \<Rightarrow> int64 \<Rightarrow> eventualPreparedFrame list \<Rightarrow> 'e Server
     \<Rightarrow> serverError option \<times> eventualStateSendStats \<times> 'e Server" where
  "sendPreparedEventualStateFrames env sessionID prepared s =
     (if length prepared = 0 then (None, ss_zero, s)
      else sendResult (sendPreparedLoop env sessionID prepared (sa_init s)))"

text \<open>\<^verbatim>\<open>sendSessionEventualState\<close> of \<^verbatim>\<open>loop.go\<close>.\<close>

definition sendSessionEventualState ::
  "'e srvEnv \<Rightarrow> int64 \<Rightarrow> eventualStateChange list \<Rightarrow> eventualPreparedFrame list \<Rightarrow> eventualStateTickCache \<Rightarrow> 'e Server
     \<Rightarrow> (serverError option \<times> eventualStateSendStats \<times> 'e Server) \<times> eventualStateTickCache" where
  "sendSessionEventualState env sessionID eventualDirty eventualDirectFrames cache s =
     (case eventualTracker s sessionID of
        (t, s) \<Rightarrow>
          if length eventualDirty > 0 \<and> hasDirty t
          then sendEventualState env sessionID cache (set_trk sessionID (fold markDirtyChange eventualDirty t) s)
          else if length eventualDirectFrames > 0
          then (sendPreparedEventualStateFrames env sessionID eventualDirectFrames s, cache)
          else if length eventualDirty > 0
          then sendEventualStateChanges env sessionID cache eventualDirty s
          else sendEventualState env sessionID cache s)"

end
