(* ===== verification/Broadcast.thy ===== *)
theory Broadcast
  imports Eventual_Send
begin

text \<open>
  Replication in broadcast mode (\<^verbatim>\<open>golem/loop.go\<close>, \<^verbatim>\<open>runBroadcastTick\<close> and what it
  calls, with \<^verbatim>\<open>golem/owner_replication.go\<close>): the decision between the blind and the
  filtered path, the known set of every session, the frame each session gets for an entity, and
  the connect-time snapshot.  The user's \<^verbatim>\<open>OnUpdates\<close> callback runs between the flush and
  the sends and may call any operation: it is a function on the server state.
\<close>

section \<open>Known sets\<close>

definition knownOf :: "'e Server \<Rightarrow> int64 \<Rightarrow> idSet" where
  "knownOf s sessionID = (case map_of (sv_broadcastKnown s) sessionID of None \<Rightarrow> [] | Some k \<Rightarrow> k)"

definition sessionKnowsEntity :: "'e Server \<Rightarrow> int64 \<Rightarrow> int64 \<Rightarrow> bool" where
  "sessionKnowsEntity s sessionID entityID =
     (case map_of (sv_broadcastKnown s) sessionID of None \<Rightarrow> False | Some k \<Rightarrow> map_of k entityID \<noteq> None)"

definition SessionsKnowing :: "'e srvEnv \<Rightarrow> int64 \<Rightarrow> 'e Server \<Rightarrow> int64 list \<times> 'e Server" where
  "SessionsKnowing env entityID s =
     (case ln_SessionIDs env (sv_net s) of
        (ids, net) \<Rightarrow> (filter (\<lambda>sid. sessionKnowsEntity s sid entityID) ids, s\<lparr>sv_net := net\<rparr>))"

definition clearBroadcastKnownSession :: "int64 \<Rightarrow> 'e Server \<Rightarrow> 'e Server" where
  "clearBroadcastKnownSession sessionID s =
     s\<lparr>sv_broadcastKnown := AList.delete sessionID (sv_broadcastKnown s)\<rparr>"

fun broadcastDesired :: "Manager \<Rightarrow> int64 \<Rightarrow> int64 list \<Rightarrow> idSet \<Rightarrow> idSet" where
  "broadcastDesired vis sessionID [] desired = desired"
| "broadcastDesired vis sessionID (i # ids) desired =
     broadcastDesired vis sessionID ids (if Allows vis sessionID i then AList.update i () desired else desired)"

fun diffEnter :: "int64 list \<Rightarrow> idSet \<Rightarrow> int64 list \<Rightarrow> int64 list \<Rightarrow> (int64 list \<times> int64 list) \<times> idSet" where
  "diffEnter [] known entered stayed = ((entered, stayed), known)"
| "diffEnter (i # ids) known entered stayed =
     (if map_of known i \<noteq> None then diffEnter ids known entered (stayed @ [i])
      else diffEnter ids (AList.update i () known) (entered @ [i]) stayed)"

fun diffExit :: "int64 list \<Rightarrow> idSet \<Rightarrow> idSet \<Rightarrow> int64 list \<Rightarrow> int64 list \<times> idSet" where
  "diffExit [] desired known exited = (exited, known)"
| "diffExit (i # ids) desired known exited =
     (if map_of desired i = None then diffExit ids desired (AList.delete i known) (exited @ [i])
      else diffExit ids desired known exited)"

text \<open>\<open>live\<close> holds the identifiers of the live entities, in the order of \<^verbatim>\<open>reg.All\<close>.\<close>

definition computeBroadcastDiff ::
  "'e srvEnv \<Rightarrow> int64 \<Rightarrow> int64 list \<Rightarrow> 'e Server \<Rightarrow> (int64 list \<times> int64 list \<times> int64 list) \<times> 'e Server" where
  "computeBroadcastDiff env sessionID live s =
     (let known = knownOf s sessionID;
          desired = broadcastDesired (sv_visibility s) sessionID live [];
          ((entered, stayed), known) = diffEnter (en_ordIDs env desired) known [] [];
          (exited, known) = diffExit (en_ordIDs env known) desired known []
      in ((entered, stayed, exited),
          s\<lparr>sv_broadcastKnown := AList.update sessionID known (sv_broadcastKnown s)\<rparr>))"

definition blindKnown :: "int64 list \<Rightarrow> int64 list \<Rightarrow> int64 \<Rightarrow> (int64, idSet) gomap \<Rightarrow> (int64, idSet) gomap" where
  "blindKnown spawnIDs removalIDs sid bk =
     (let known = (case map_of bk sid of None \<Rightarrow> [] | Some k \<Rightarrow> k);
          known = fold (\<lambda>i. AList.update i ()) spawnIDs known;
          known = fold AList.delete removalIDs known
      in AList.update sid known bk)"

definition applyBlindBroadcastKnown :: "int64 list \<Rightarrow> int64 list \<Rightarrow> int64 list \<Rightarrow> 'e Server \<Rightarrow> 'e Server" where
  "applyBlindBroadcastKnown sessionIDs spawnIDs removalIDs s =
     (if length sessionIDs = 0 then s
      else s\<lparr>sv_broadcastKnown := fold (blindKnown spawnIDs removalIDs) sessionIDs (sv_broadcastKnown s)\<rparr>)"

definition cleanupVisibilityForRemovals :: "int64 list \<Rightarrow> 'e Server \<Rightarrow> 'e Server" where
  "cleanupVisibilityForRemovals removalIDs s =
     (if length removalIDs = 0 then s
      else s\<lparr>sv_visibility := fold (\<lambda>i m. RemoveEntity m i) removalIDs (sv_visibility s)\<rparr>)"

definition cleanupVisibilityOnDisconnect :: "int64 \<Rightarrow> 'e Server \<Rightarrow> 'e Server" where
  "cleanupVisibilityOnDisconnect sessionID s =
     (let s = s\<lparr>sv_visibility := RemoveSession (sv_visibility s) sessionID\<rparr>
      in s\<lparr>sv_broadcastKnown := AList.delete sessionID (sv_broadcastKnown s)\<rparr>)"

definition commitBroadcastSnapshotKnown :: "int64 \<Rightarrow> int64 list \<Rightarrow> 'e Server \<Rightarrow> 'e Server" where
  "commitBroadcastSnapshotKnown sessionID entityIDs s =
     s\<lparr>sv_broadcastKnown :=
        AList.update sessionID (fold (\<lambda>i. AList.update i ()) entityIDs []) (sv_broadcastKnown s)\<rparr>"

definition usesDatagramStateUpdates :: "'e srvEnv \<Rightarrow> bool" where
  "usesDatagramStateUpdates env \<longleftrightarrow> en_StateUpdateLane env = StateUpdateLaneDatagram"

fun hasDatagramLoop :: "'e srvEnv \<Rightarrow> int64 list \<Rightarrow> netCall list \<Rightarrow> bool \<times> netCall list" where
  "hasDatagramLoop env [] net = (False, net)"
| "hasDatagramLoop env (sid # sids) net =
     (case ln_SessionTransport env sid net of
        (tr, net) \<Rightarrow> if tr = Some TransportWebTransport then (True, net) else hasDatagramLoop env sids net)"

definition hasDatagramStateSessions :: "'e srvEnv \<Rightarrow> int64 list \<Rightarrow> netCall list \<Rightarrow> bool \<times> netCall list" where
  "hasDatagramStateSessions env sessionIDs net =
     (if \<not> usesDatagramStateUpdates env then (False, net) else hasDatagramLoop env sessionIDs net)"

definition shouldFilterBroadcastLocked :: "'e srvEnv \<Rightarrow> int64 list \<Rightarrow> 'e list \<Rightarrow> 'e Server \<Rightarrow> bool" where
  "shouldFilterBroadcastLocked env sessionIDs live s =
     (if HasGroupedEntities (sv_visibility s) then True
      else if hasPendingOwnershipRefreshLocked s then True
      else if hasOwnerScopedEntities env live then True
      else list_ex (\<lambda>sid.
             case map_of (sv_broadcastKnown s) sid of
               None \<Rightarrow> length live > 0
             | Some known \<Rightarrow>
                 if gm_len known \<noteq> length live then True
                 else list_ex (\<lambda>e. map_of known (ei_EntityID (en_ifc env) e) = None) live) sessionIDs)"

definition storeReplicationSnapshot :: "nat \<Rightarrow> nat \<Rightarrow> nat \<Rightarrow> nat \<Rightarrow> nat \<Rightarrow> 'e Server \<Rightarrow> 'e Server" where
  "storeReplicationSnapshot streamBatched streamWireMsgs datagramBatched datagramWireMsgs deltasFlushed s =
     s\<lparr>sv_stats := \<lparr>rs_LastTick = sv_tick s, rs_DeltasFlushed = deltasFlushed, rs_StreamBatchedFrames = streamBatched,
        rs_StreamWireMsgs = streamWireMsgs, rs_DatagramBatchedFrames = datagramBatched,
        rs_DatagramWirePayloads = datagramWireMsgs\<rparr>\<rparr>"

section \<open>The frames of a recipient\<close>

type_synonym frameCache = "(int64, bytes) gomap"

definition fullUpdateForSession :: "'e srvEnv \<Rightarrow> 'e Server \<Rightarrow> 'e \<Rightarrow> int64 \<Rightarrow> string + bytes option" where
  "fullUpdateForSession env s e sessionID =
     (case ei_PublicFullUpdate (en_ifc env) e of
        Some r \<Rightarrow> if \<not> sessionOwnsEntity s sessionID (ei_EntityID (en_ifc env) e) then r
                 else ei_FullUpdate (en_ifc env) e
      | None \<Rightarrow> ei_FullUpdate (en_ifc env) e)"

definition eventualChangeForSession ::
  "'e srvEnv \<Rightarrow> 'e Server \<Rightarrow> int64 \<Rightarrow> eventualStateChange \<Rightarrow> eventualStateChange \<times> bool" where
  "eventualChangeForSession env s sessionID ch =
     (case sv_Get s (ch_id ch) of
        None \<Rightarrow> (ch, True)
      | Some e \<Rightarrow>
          if \<not> entityIsOwnerScoped env e \<or> sessionOwnsEntity s sessionID (ch_id ch) then (ch, True)
          else if ch_full ch then (ch_zero\<lparr>ch_id := ch_id ch, ch_full := True, ch_public := True\<rparr>, True)
          else
            (let pubMask = ei_PublicReplicationMask (en_ifc env) e (ch_mask ch)
             in if pubMask = 0 then (ch_zero, False)
                else (ch_zero\<lparr>ch_id := ch_id ch, ch_mask := pubMask, ch_public := True\<rparr>, True)))"

text \<open>A nil entry of the public cache (nothing to send) is \<open>None\<close>.\<close>

definition streamDeltaForSession ::
  "'e srvEnv \<Rightarrow> 'e Server \<Rightarrow> int64 \<Rightarrow> int64 \<Rightarrow> bytes \<Rightarrow> frameCache \<Rightarrow> (int64, bytes option) gomap
     \<Rightarrow> serverError + bytes option \<times> frameCache \<times> (int64, bytes option) gomap" where
  "streamDeltaForSession env s sessionID entityID authDelta authCache publicCache =
     (case sv_Get s entityID of
        None \<Rightarrow> Inr (None, authCache, publicCache)
      | Some e \<Rightarrow>
          if \<not> entityIsOwnerScoped env e \<or> sessionOwnsEntity s sessionID entityID then
            (case map_of authCache entityID of
               Some wrapped \<Rightarrow> Inr (Some wrapped, authCache, publicCache)
             | None \<Rightarrow>
                 (let wrapped = ln_Wrap (Some authDelta)
                  in Inr (Some wrapped, AList.update entityID wrapped authCache, publicCache)))
          else
            (case map_of publicCache entityID of
               Some w \<Rightarrow> Inr (w, authCache, publicCache)
             | None \<Rightarrow>
                 (case ei_LastFlushMask (en_ifc env) e of
                    None \<Rightarrow>
                      (case ei_PublicFullUpdate (en_ifc env) e of
                         None \<Rightarrow> Inr (None, authCache, publicCache)
                       | Some (Inl err) \<Rightarrow> Inl (errPublicFull entityID err)
                       | Some (Inr raw) \<Rightarrow>
                           (let wrapped = ln_Wrap raw
                            in Inr (Some wrapped, authCache, AList.update entityID (Some wrapped) publicCache)))
                  | Some flushed \<Rightarrow>
                      (let pubMask = ei_PublicReplicationMask (en_ifc env) e flushed
                       in if pubMask = 0 then Inr (None, authCache, AList.update entityID None publicCache)
                          else case ei_MarshalDeltaMask (en_ifc env) e pubMask of
                                 Inl err \<Rightarrow> Inl (errPublicDelta entityID err)
                               | Inr None \<Rightarrow> Inr (None, authCache, AList.update entityID None publicCache)
                               | Inr (Some raw) \<Rightarrow>
                                   (let wrapped = ln_Wrap (Some raw)
                                    in Inr (Some wrapped, authCache, AList.update entityID (Some wrapped) publicCache))))))"

text \<open>The authoritative half of \<^verbatim>\<open>wrappedFullForSession\<close>.\<close>

definition wrappedAuthFull ::
  "'e srvEnv \<Rightarrow> 'e \<Rightarrow> int64 \<Rightarrow> (int64, bytes option) gomap \<Rightarrow> frameCache \<Rightarrow> frameCache
     \<Rightarrow> serverError + bytes option \<times> frameCache \<times> frameCache" where
  "wrappedAuthFull env e entityID spawnData authCache publicCache =
     (case map_of authCache entityID of
        Some wrapped \<Rightarrow> Inr (Some wrapped, authCache, publicCache)
      | None \<Rightarrow>
          (case map_of spawnData entityID of
             Some raw \<Rightarrow> Inr (Some (ln_Wrap raw), AList.update entityID (ln_Wrap raw) authCache, publicCache)
           | None \<Rightarrow>
               (case ei_FullUpdate (en_ifc env) e of
                  Inl err \<Rightarrow> Inl (errFullUpdate entityID err)
                | Inr raw \<Rightarrow> Inr (Some (ln_Wrap raw), AList.update entityID (ln_Wrap raw) authCache, publicCache))))"

definition wrappedFullForSession ::
  "'e srvEnv \<Rightarrow> 'e Server \<Rightarrow> int64 \<Rightarrow> int64 \<Rightarrow> (int64, bytes option) gomap \<Rightarrow> frameCache \<Rightarrow> frameCache
     \<Rightarrow> serverError + bytes option \<times> frameCache \<times> frameCache" where
  "wrappedFullForSession env s sessionID entityID spawnData authCache publicCache =
     (case sv_Get s entityID of
        None \<Rightarrow> Inr (None, authCache, publicCache)
      | Some e \<Rightarrow>
          (case ei_PublicFullUpdate (en_ifc env) e of
             Some pub \<Rightarrow>
               if \<not> sessionOwnsEntity s sessionID entityID then
                 (case map_of publicCache entityID of
                    Some wrapped \<Rightarrow> Inr (Some wrapped, authCache, publicCache)
                  | None \<Rightarrow>
                      (case pub of
                         Inl err \<Rightarrow> Inl (errPublicFull entityID err)
                       | Inr raw \<Rightarrow> Inr (Some (ln_Wrap raw), authCache, AList.update entityID (ln_Wrap raw) publicCache)))
               else wrappedAuthFull env e entityID spawnData authCache publicCache
           | None \<Rightarrow> wrappedAuthFull env e entityID spawnData authCache publicCache))"


text \<open>
  \<^verbatim>\<open>appendOwnershipRefreshFrames\<close>: one pending transition at a time, in the order of the
  map.  A recipient that lost the entity gets the public state, the new owner the full state.
\<close>

definition refreshClear ::
  "'e srvEnv \<Rightarrow> int64 \<Rightarrow> int64 \<Rightarrow> (string + bytes option) \<Rightarrow> frameCache \<Rightarrow> 'e Server
     \<Rightarrow> serverError + bytes \<times> frameCache \<times> 'e Server" where
  "refreshClear env sessionID entityID pub publicCache s =
     (let s = clearEventualEntity env sessionID entityID s
      in case map_of publicCache entityID of
           Some wrapped \<Rightarrow> Inr (wrapped, publicCache, s)
         | None \<Rightarrow>
             (case pub of
                Inl err \<Rightarrow> Inl (errPublicFull entityID err)
              | Inr raw \<Rightarrow> Inr (ln_Wrap raw, AList.update entityID (ln_Wrap raw) publicCache, s)))"

definition refreshGrant ::
  "'e srvEnv \<Rightarrow> int64 \<Rightarrow> int64 \<Rightarrow> 'e \<Rightarrow> frameCache \<Rightarrow> 'e Server \<Rightarrow> serverError + bytes \<times> frameCache \<times> 'e Server" where
  "refreshGrant env sessionID entityID e authCache s =
     (let s = clearEventualEntity env sessionID entityID s
      in case map_of authCache entityID of
           Some wrapped \<Rightarrow> Inr (wrapped, authCache, s)
         | None \<Rightarrow>
             (case ei_FullUpdate (en_ifc env) e of
                Inl err \<Rightarrow> Inl (errFullUpdate entityID err)
              | Inr raw \<Rightarrow> Inr (ln_Wrap raw, AList.update entityID (ln_Wrap raw) authCache, s)))"

record 'e frameState =
  fs_srv :: "'e Server"
  fs_full :: frameCache
  fs_publicFull :: frameCache
  fs_deltas :: frameCache
  fs_publicDelta :: "(int64, bytes option) gomap"
  fs_removals :: frameCache
  fs_stream :: "bytes list"
  fs_dirty :: "eventualStateChange list"
  fs_direct :: "eventualPreparedFrame list"

definition refreshOne ::
  "'e srvEnv \<Rightarrow> int64 \<Rightarrow> int64 list \<Rightarrow> int64 \<Rightarrow> ownershipRefresh \<Rightarrow> 'e frameState \<Rightarrow> serverError + 'e frameState" where
  "refreshOne env sessionID stayed entityID ref f =
     (if entityID \<notin> set stayed then Inr f
      else case sv_Get (fs_srv f) entityID of
        None \<Rightarrow> Inr f
      | Some e \<Rightarrow>
          (case ei_PublicFullUpdate (en_ifc env) e of
             None \<Rightarrow> Inr f
           | Some pub \<Rightarrow>
               res_bind
                 (if rf_clearOwner ref = sessionID
                  then res_bind (refreshClear env sessionID entityID pub (fs_publicFull f) (fs_srv f))
                         (\<lambda>(w, c, s). Inr (f\<lparr>fs_srv := s, fs_publicFull := c, fs_stream := fs_stream f @ [w]\<rparr>))
                  else Inr f)
                 (\<lambda>f. if rf_newOwner ref = sessionID \<and> rf_newOwner ref \<noteq> 0
                      then res_bind (refreshGrant env sessionID entityID e (fs_full f) (fs_srv f))
                             (\<lambda>(w, c, s). Inr (f\<lparr>fs_srv := s, fs_full := c, fs_stream := fs_stream f @ [w]\<rparr>))
                      else Inr f)))"

fun refreshLoop ::
  "'e srvEnv \<Rightarrow> int64 \<Rightarrow> int64 list \<Rightarrow> (int64, ownershipRefresh) gomap \<Rightarrow> int64 list \<Rightarrow> 'e frameState
     \<Rightarrow> serverError + 'e frameState" where
  "refreshLoop env sessionID stayed pending [] f = Inr f"
| "refreshLoop env sessionID stayed pending (i # is) f =
     (case map_of pending i of
        None \<Rightarrow> refreshLoop env sessionID stayed pending is f
      | Some ref \<Rightarrow>
          res_bind (refreshOne env sessionID stayed i ref f) (refreshLoop env sessionID stayed pending is))"

definition appendOwnershipRefreshFrames ::
  "'e srvEnv \<Rightarrow> int64 \<Rightarrow> (int64, ownershipRefresh) gomap \<Rightarrow> int64 list \<Rightarrow> 'e frameState \<Rightarrow> serverError + 'e frameState" where
  "appendOwnershipRefreshFrames env sessionID pending stayed f =
     (if gm_len pending = 0 then Inr f
      else refreshLoop env sessionID stayed pending (en_ordRefresh env pending) f)"


section \<open>The filtered path\<close>

text \<open>What the flush of this tick gave, by entity.\<close>

record tickData =
  td_spawnData :: "(int64, bytes option) gomap"
  td_deltaData :: "(int64, bytes) gomap"
  td_changes :: "(int64, eventualStateChange) gomap"
  td_frames :: "(int64, eventualPreparedFrame) gomap"
  td_ownerScopedDeltas :: bool

fun enterLoop ::
  "'e srvEnv \<Rightarrow> tickData \<Rightarrow> int64 \<Rightarrow> bool \<Rightarrow> int64 list \<Rightarrow> 'e frameState \<Rightarrow> serverError + 'e frameState" where
  "enterLoop env td sessionID datagrams [] f = Inr f"
| "enterLoop env td sessionID datagrams (i # is) f =
     (let f = (if datagrams then f\<lparr>fs_srv := clearEventualEntity env sessionID i (fs_srv f)\<rparr> else f)
      in res_bind (wrappedFullForSession env (fs_srv f) sessionID i (td_spawnData td) (fs_full f) (fs_publicFull f))
           (\<lambda>(w, full, pub).
             enterLoop env td sessionID datagrams is
               (f\<lparr>fs_full := full, fs_publicFull := pub,
                  fs_stream := fs_stream f @ (case w of None \<Rightarrow> [] | Some d \<Rightarrow> [d])\<rparr>)))"

text \<open>The delta of a known entity, on the lane of the session.\<close>

definition stayDelta ::
  "'e srvEnv \<Rightarrow> tickData \<Rightarrow> int64 \<Rightarrow> bool \<Rightarrow> int64 \<Rightarrow> bytes \<Rightarrow> 'e frameState \<Rightarrow> serverError + 'e frameState" where
  "stayDelta env td sessionID datagrams i authDelta f =
     (if datagrams then
        (case map_of (td_changes td) i of
           None \<Rightarrow> Inr f
         | Some ch \<Rightarrow>
             (case eventualChangeForSession env (fs_srv f) sessionID ch of
                (sch, send) \<Rightarrow>
                  if \<not> send then Inr f
                  else
                    Inr (f\<lparr>fs_dirty := fs_dirty f @ [sch],
                           fs_direct := fs_direct f @
                             (if \<not> ch_public sch \<and> \<not> td_ownerScopedDeltas td
                              then case map_of (td_frames td) i of None \<Rightarrow> [] | Some pf \<Rightarrow> [pf]
                              else [])\<rparr>)))
      else
        res_bind (streamDeltaForSession env (fs_srv f) sessionID i authDelta (fs_deltas f) (fs_publicDelta f))
          (\<lambda>(w, auth, pub).
            Inr (f\<lparr>fs_deltas := auth, fs_publicDelta := pub,
                   fs_stream := fs_stream f @ (case w of None \<Rightarrow> [] | Some d \<Rightarrow> [d])\<rparr>)))"

fun stayLoop ::
  "'e srvEnv \<Rightarrow> tickData \<Rightarrow> int64 \<Rightarrow> bool \<Rightarrow> int64 list \<Rightarrow> 'e frameState \<Rightarrow> serverError + 'e frameState" where
  "stayLoop env td sessionID datagrams [] f = Inr f"
| "stayLoop env td sessionID datagrams (i # is) f =
     res_bind (case map_of (td_deltaData td) i of
                 None \<Rightarrow> Inr f
               | Some authDelta \<Rightarrow> stayDelta env td sessionID datagrams i authDelta f)
       (\<lambda>f. res_bind
          (if map_of (td_spawnData td) i = None then Inr f
           else
             res_bind (wrappedFullForSession env (fs_srv f) sessionID i (td_spawnData td) (fs_full f) (fs_publicFull f))
               (\<lambda>(w, full, pub).
                 Inr (f\<lparr>fs_full := full, fs_publicFull := pub,
                        fs_stream := fs_stream f @ (case w of None \<Rightarrow> [] | Some d \<Rightarrow> [d])\<rparr>)))
          (stayLoop env td sessionID datagrams is))"

fun exitLoop :: "'e srvEnv \<Rightarrow> int64 \<Rightarrow> bool \<Rightarrow> int64 list \<Rightarrow> 'e frameState \<Rightarrow> serverError + 'e frameState" where
  "exitLoop env sessionID datagrams [] f = Inr f"
| "exitLoop env sessionID datagrams (i # is) f =
     (let f = (if datagrams then f\<lparr>fs_srv := clearEventualEntity env sessionID i (fs_srv f)\<rparr> else f)
      in case map_of (fs_removals f) i of
           Some d \<Rightarrow> exitLoop env sessionID datagrams is (f\<lparr>fs_stream := fs_stream f @ [d]\<rparr>)
         | None \<Rightarrow>
             (case en_removalSerializer env of
                None \<Rightarrow> Inl (errNoRemovalSerializer i)
              | Some ser \<Rightarrow>
                  (let revision = (case sv_Get (fs_srv f) i of
                                     None \<Rightarrow> 0
                                   | Some e \<Rightarrow> (case ei_StateRevision (en_ifc env) e of None \<Rightarrow> 0 | Some r \<Rightarrow> r))
                   in case ser i revision of
                        Inl err \<Rightarrow> Inl (errSerializingRemoval i err)
                      | Inr d \<Rightarrow>
                          (let w = ln_Wrap (Some d)
                           in exitLoop env sessionID datagrams is
                                (f\<lparr>fs_removals := AList.update i w (fs_removals f), fs_stream := fs_stream f @ [w]\<rparr>)))))"

text \<open>
  The stream frames and eventual changes for the entities that entered, stayed and exited; the
  same for the known sets of broadcast mode and for fields of interest.
\<close>

definition diffFrames ::
  "'e srvEnv \<Rightarrow> tickData \<Rightarrow> (int64, ownershipRefresh) gomap \<Rightarrow> int64 \<Rightarrow> bool \<Rightarrow> int64 list \<times> int64 list \<times> int64 list
     \<Rightarrow> 'e frameState \<Rightarrow> serverError + 'e frameState" where
  "diffFrames env td pending sessionID datagrams diff f =
     (case diff of
        (entered, stayed, exited) \<Rightarrow>
          res_bind (enterLoop env td sessionID datagrams entered (f\<lparr>fs_stream := [], fs_dirty := [], fs_direct := []\<rparr>)) (\<lambda>f.
          res_bind (stayLoop env td sessionID datagrams stayed f) (\<lambda>f.
          res_bind (exitLoop env sessionID datagrams exited f) (\<lambda>f.
            appendOwnershipRefreshFrames env sessionID pending stayed f))))"

text \<open>All stream frames and eventual changes of one session, before anything is sent.\<close>

definition sessionFrames ::
  "'e srvEnv \<Rightarrow> tickData \<Rightarrow> (int64, ownershipRefresh) gomap \<Rightarrow> int64 list \<Rightarrow> int64 \<Rightarrow> bool \<Rightarrow> 'e frameState
     \<Rightarrow> serverError + 'e frameState" where
  "sessionFrames env td pending live sessionID datagrams f =
     (case computeBroadcastDiff env sessionID live (fs_srv f) of
        (diff, s) \<Rightarrow> diffFrames env td pending sessionID datagrams diff (f\<lparr>fs_srv := s\<rparr>))"

record 'e tickState =
  ts_frames :: "'e frameState"
  ts_cache :: eventualStateTickCache
  ts_sums :: eventualStateSendStats

definition ts_srv :: "'e tickState \<Rightarrow> 'e Server" where
  "ts_srv ts = fs_srv (ts_frames ts)"

definition ts_update :: "('e Server \<Rightarrow> 'e Server) \<Rightarrow> 'e tickState \<Rightarrow> 'e tickState" where
  "ts_update g ts = ts\<lparr>ts_frames := (ts_frames ts)\<lparr>fs_srv := g (fs_srv (ts_frames ts))\<rparr>\<rparr>"

definition addStats :: "eventualStateSendStats \<Rightarrow> eventualStateSendStats \<Rightarrow> eventualStateSendStats" where
  "addStats a b = \<lparr>ss_streamBatchedFrames = ss_streamBatchedFrames a + ss_streamBatchedFrames b,
     ss_streamWireMsgs = ss_streamWireMsgs a + ss_streamWireMsgs b,
     ss_datagramBatchedFrames = ss_datagramBatchedFrames a + ss_datagramBatchedFrames b,
     ss_datagramWirePayloads = ss_datagramWirePayloads a + ss_datagramWirePayloads b\<rparr>"

definition streamStats :: "Transport \<Rightarrow> bytes list \<Rightarrow> eventualStateSendStats" where
  "streamStats transport frames =
     ss_zero\<lparr>ss_streamBatchedFrames := length frames,
             ss_streamWireMsgs := (case ReliableStreamWriteChunkCount transport frames of Inl _ \<Rightarrow> 0 | Inr c \<Rightarrow> c)\<rparr>"

text \<open>
  The sends of one session.  The first component is the error that ends the tick.  A session
  that is gone loses its known set and the loop goes on.
\<close>

definition sendSessionFrames ::
  "'e srvEnv \<Rightarrow> int64 \<Rightarrow> Transport \<Rightarrow> bool \<Rightarrow> 'e tickState \<Rightarrow> serverError option \<times> 'e tickState" where
  "sendSessionFrames env sessionID transport datagrams ts =
     (let f = ts_frames ts
      in case (if length (fs_stream f) > 0 then ln_SendBatch env sessionID (fs_stream f) (sv_net (fs_srv f))
               else (None, sv_net (fs_srv f))) of
           (err, net) \<Rightarrow>
             (let ts = ts_update (\<lambda>s. s\<lparr>sv_net := net\<rparr>) ts
              in case err of
                   Some e \<Rightarrow>
                     if isDisconnectedSessionSend e
                     then (None, ts_update (clearBroadcastKnownSession sessionID) ts) else (Some e, ts)
                 | None \<Rightarrow>
                     (let ts = (if length (fs_stream f) > 0
                                then ts\<lparr>ts_sums := addStats (ts_sums ts) (streamStats transport (fs_stream f))\<rparr> else ts)
                      in if \<not> datagrams then (None, ts)
                         else case sendSessionEventualState env sessionID (fs_dirty f) (fs_direct f) (ts_cache ts) (ts_srv ts) of
                                ((err, st, s), cache) \<Rightarrow>
                                  (let ts = ts_update (\<lambda>_. s) (ts\<lparr>ts_cache := cache\<rparr>)
                                   in case err of
                                        Some e \<Rightarrow>
                                          if isDisconnectedSessionSend e
                                          then (None, ts_update (clearBroadcastKnownSession sessionID) ts) else (Some e, ts)
                                      | None \<Rightarrow> (None, ts\<lparr>ts_sums := addStats (ts_sums ts) st\<rparr>)))))"

definition filteredSession ::
  "'e srvEnv \<Rightarrow> tickData \<Rightarrow> (int64, ownershipRefresh) gomap \<Rightarrow> int64 list \<Rightarrow> int64 \<Rightarrow> 'e tickState
     \<Rightarrow> serverError option \<times> 'e tickState" where
  "filteredSession env td pending live sessionID ts =
     (case ln_SessionTransport env sessionID (sv_net (ts_srv ts)) of
        (tr, net) \<Rightarrow>
          (let ts = ts_update (\<lambda>s. s\<lparr>sv_net := net\<rparr>) ts
           in case tr of
                None \<Rightarrow> (None, ts_update (clearBroadcastKnownSession sessionID) ts)
              | Some transport \<Rightarrow>
                  (let datagrams = (usesDatagramStateUpdates env \<and> transport = TransportWebTransport)
                   in case sessionFrames env td pending live sessionID datagrams (ts_frames ts) of
                        Inl err \<Rightarrow> (Some err, ts)
                      | Inr f \<Rightarrow> sendSessionFrames env sessionID transport datagrams (ts\<lparr>ts_frames := f\<rparr>))))"

fun filteredSessions ::
  "'e srvEnv \<Rightarrow> tickData \<Rightarrow> (int64, ownershipRefresh) gomap \<Rightarrow> int64 list \<Rightarrow> int64 list \<Rightarrow> 'e tickState
     \<Rightarrow> serverError option \<times> 'e tickState" where
  "filteredSessions env td pending live [] ts = (None, ts)"
| "filteredSessions env td pending live (sid # sids) ts =
     (case filteredSession env td pending live sid ts of
        (Some err, ts) \<Rightarrow> (Some err, ts)
      | (None, ts) \<Rightarrow> filteredSessions env td pending live sids ts)"


text \<open>The maps of the tick, filled from the flush in order; a later entry replaces an earlier one.\<close>

definition put_all :: "('k \<times> 'v) list \<Rightarrow> ('k, 'v) gomap \<Rightarrow> ('k, 'v) gomap" where
  "put_all kvs m = fold (\<lambda>(k, v). AList.update k v) kvs m"

fun removalFrames ::
  "'e srvEnv \<Rightarrow> (int64 \<times> u64) list \<Rightarrow> (int64 \<times> bytes) list \<Rightarrow> serverError + (int64 \<times> bytes) list" where
  "removalFrames env [] acc = Inr acc"
| "removalFrames env ((i, revision) # rs) acc =
     (case en_removalSerializer env of
        None \<Rightarrow> Inl (errNoRemovalSerializer i)
      | Some ser \<Rightarrow>
          (case ser i revision of
             Inl err \<Rightarrow> Inl (errSerializingRemoval i err)
           | Inr d \<Rightarrow> removalFrames env rs (acc @ [(i, d)])))"

definition ownerScopedDelta :: "'e srvEnv \<Rightarrow> 'e Server \<Rightarrow> int64 \<Rightarrow> bool" where
  "ownerScopedDelta env s i = (case sv_Get s i of None \<Rightarrow> False | Some e \<Rightarrow> entityIsOwnerScoped env e)"

fun prepareFrames ::
  "'e srvEnv \<Rightarrow> 'e Server \<Rightarrow> eventualStateChange list \<Rightarrow> (int64, eventualPreparedFrame) gomap
     \<Rightarrow> serverError + (int64, eventualPreparedFrame) gomap" where
  "prepareFrames env s [] acc = Inr acc"
| "prepareFrames env s (ch # chs) acc =
     res_bind (eventualPreparedFrameForChange env s ch)
       (\<lambda>pf. prepareFrames env s chs (AList.update (ch_id ch) pf acc))"

type_synonym 'e updateFunc = "bytes option list \<Rightarrow> 'e Server \<Rightarrow> 'e Server"

definition flushUpdates :: "FlushResult \<Rightarrow> (int64 \<times> bytes) list \<Rightarrow> bytes option list" where
  "flushUpdates result removals = fr_Spawns result @ map Some (fr_Deltas result) @ map (Some \<circ> snd) removals"

text \<open>
  In the update list the filtered path looks removals up by identifier, so two removals of one
  entity in a tick both appear with the later revision.
\<close>

definition lastRemovals :: "(int64 \<times> bytes) list \<Rightarrow> (int64 \<times> bytes) list" where
  "lastRemovals removals = map (\<lambda>(i, d). (i, the (map_of (rev removals) i))) removals"

definition runBroadcastTickFiltered ::
  "'e srvEnv \<Rightarrow> 'e updateFunc option \<Rightarrow> FlushResult \<Rightarrow> nat \<Rightarrow> 'e Server \<Rightarrow> serverError option \<times> 'e Server" where
  "runBroadcastTickFiltered env onUpdates result deltasFlushed s =
     (let spawns = zip (fr_SpawnIDs result) (fr_Spawns result);
          wrapped = put_all (map (\<lambda>(i, d). (i, ln_Wrap d)) spawns) [];
          changes = (if usesDatagramStateUpdates env
                     then put_all (map (\<lambda>i. (i, eventualChangeForDelta env s i)) (fr_DeltaIDs result)) [] else []);
          ownerScopedDeltas = list_ex (ownerScopedDelta env s) (fr_DeltaIDs result)
      in case removalFrames env (zip (fr_Removals result) (fr_RemovalRevisions result)) [] of
           Inl err \<Rightarrow> (Some err, s)
         | Inr removals \<Rightarrow>
             (let s = (if usesDatagramStateUpdates env then clearEventualEntities env (fr_Removals result) s else s);
                  (sessionIDs, net) = ln_SessionIDs env (sv_net s);
                  (hasDatagrams, net) = hasDatagramStateSessions env sessionIDs net;
                  s = s\<lparr>sv_net := net\<rparr>
              in case (if hasDatagrams \<and> \<not> ownerScopedDeltas
                       then prepareFrames env s (List.map_filter (map_of changes) (en_ordChanges env changes)) []
                       else Inr []) of
                   Inl err \<Rightarrow> (Some err, s)
                 | Inr frames \<Rightarrow>
                     (let updates = flushUpdates result (lastRemovals removals);
                          s = (case onUpdates of
                                 Some g \<Rightarrow> if length updates > 0 then g updates s else s | None \<Rightarrow> s);
                          live = map (ei_EntityID (en_ifc env)) (sv_All env s);
                          (pending, s) = snapshotOwnershipRefreshLocked s;
                          td = \<lparr>td_spawnData = put_all spawns [],
                                td_deltaData = put_all (zip (fr_DeltaIDs result) (fr_Deltas result)) [],
                                td_changes = changes, td_frames = frames, td_ownerScopedDeltas = ownerScopedDeltas\<rparr>;
                          f = \<lparr>fs_srv = s, fs_full = wrapped, fs_publicFull = [], fs_deltas = [], fs_publicDelta = [],
                               fs_removals = put_all (map (\<lambda>(i, d). (i, ln_Wrap (Some d))) removals) [],
                               fs_stream = [], fs_dirty = [], fs_direct = []\<rparr>
                      in case filteredSessions env td pending live sessionIDs
                                \<lparr>ts_frames = f, ts_cache = [], ts_sums = ss_zero\<rparr> of
                           (Some err, ts) \<Rightarrow> (Some err, ts_srv ts)
                         | (None, ts) \<Rightarrow>
                             (None, storeReplicationSnapshot (ss_streamBatchedFrames (ts_sums ts)) (ss_streamWireMsgs (ts_sums ts))
                                (ss_datagramBatchedFrames (ts_sums ts)) (ss_datagramWirePayloads (ts_sums ts)) deltasFlushed
                                (cleanupVisibilityForRemovals (fr_Removals result) (ts_srv ts))))))"

section \<open>The blind path\<close>

text \<open>The stream lane: every frame to every session.\<close>

fun blindStreamLoop ::
  "'e srvEnv \<Rightarrow> bytes list \<Rightarrow> int64 list \<Rightarrow> eventualStateSendStats \<Rightarrow> 'e Server
     \<Rightarrow> serverError option \<times> eventualStateSendStats \<times> 'e Server" where
  "blindStreamLoop env frames [] sums s = (None, sums, s)"
| "blindStreamLoop env frames (sid # sids) sums s =
     (case ln_SessionTransport env sid (sv_net s) of
        (None, net) \<Rightarrow> blindStreamLoop env frames sids sums (s\<lparr>sv_net := net\<rparr>)
      | (Some transport, net) \<Rightarrow>
          (case ReliableStreamWriteChunkCount transport frames of
             Inl err \<Rightarrow> (Some (errPayload err), sums, s\<lparr>sv_net := net\<rparr>)
           | Inr wireMsgs \<Rightarrow>
               (case ln_SendBatch env sid frames net of
                  (Some err, net) \<Rightarrow>
                    if isDisconnectedSessionSend err then blindStreamLoop env frames sids sums (s\<lparr>sv_net := net\<rparr>)
                    else (Some err, sums, s\<lparr>sv_net := net\<rparr>)
                | (None, net) \<Rightarrow>
                    blindStreamLoop env frames sids
                      (addStats sums (ss_zero\<lparr>ss_streamBatchedFrames := length frames, ss_streamWireMsgs := wireMsgs\<rparr>))
                      (s\<lparr>sv_net := net\<rparr>))))"

text \<open>The datagram lane: spawns and removals on the stream, deltas as eventual state.\<close>

definition blindEventual ::
  "'e srvEnv \<Rightarrow> int64 \<Rightarrow> eventualStateChange list \<Rightarrow> eventualPreparedFrame list \<Rightarrow> eventualStateTickCache \<Rightarrow> 'e Server
     \<Rightarrow> (serverError option \<times> eventualStateSendStats \<times> 'e Server) \<times> eventualStateTickCache" where
  "blindEventual env sid changes prepared cache s =
     (case eventualTracker s sid of
        (t, s) \<Rightarrow>
          if \<not> hasDirty t then (sendPreparedEventualStateFrames env sid prepared s, cache)
          else sendEventualState env sid cache (set_trk sid (fold markDirtyChange changes t) s))"

fun blindDatagramLoop ::
  "'e srvEnv \<Rightarrow> bytes list \<Rightarrow> bytes list \<Rightarrow> eventualStateChange list \<Rightarrow> eventualPreparedFrame list \<Rightarrow> int64 list
     \<Rightarrow> eventualStateTickCache \<Rightarrow> eventualStateSendStats \<Rightarrow> 'e Server
     \<Rightarrow> serverError option \<times> eventualStateSendStats \<times> 'e Server" where
  "blindDatagramLoop env frames streamFrames changes prepared [] cache sums s = (None, sums, s)"
| "blindDatagramLoop env frames streamFrames changes prepared (sid # sids) cache sums s =
     (case ln_SessionTransport env sid (sv_net s) of
        (None, net) \<Rightarrow> blindDatagramLoop env frames streamFrames changes prepared sids cache sums (s\<lparr>sv_net := net\<rparr>)
      | (Some transport, net) \<Rightarrow>
          if transport \<noteq> TransportWebTransport then
            (case ln_SendBatch env sid frames net of
               (Some err, net) \<Rightarrow>
                 if isDisconnectedSessionSend err
                 then blindDatagramLoop env frames streamFrames changes prepared sids cache sums (s\<lparr>sv_net := net\<rparr>)
                 else (Some err, sums, s\<lparr>sv_net := net\<rparr>)
             | (None, net) \<Rightarrow>
                 blindDatagramLoop env frames streamFrames changes prepared sids cache
                   (addStats sums (streamStats transport frames)) (s\<lparr>sv_net := net\<rparr>))
          else
            (case (if length streamFrames > 0 then ln_SendBatch env sid streamFrames net else (None, net)) of
               (Some err, net) \<Rightarrow>
                 if isDisconnectedSessionSend err
                 then blindDatagramLoop env frames streamFrames changes prepared sids cache sums (s\<lparr>sv_net := net\<rparr>)
                 else (Some err, sums, s\<lparr>sv_net := net\<rparr>)
             | (None, net) \<Rightarrow>
                 (let sums = (if length streamFrames > 0 then addStats sums (streamStats transport streamFrames) else sums)
                  in case blindEventual env sid changes prepared cache (s\<lparr>sv_net := net\<rparr>) of
                       ((Some err, _, s), cache) \<Rightarrow> (Some err, sums, s)
                     | ((None, st, s), cache) \<Rightarrow>
                         blindDatagramLoop env frames streamFrames changes prepared sids cache (addStats sums st) s)))"

fun prepareList ::
  "'e srvEnv \<Rightarrow> 'e Server \<Rightarrow> eventualStateChange list \<Rightarrow> serverError + eventualPreparedFrame list" where
  "prepareList env s [] = Inr []"
| "prepareList env s (ch # chs) =
     res_bind (eventualPreparedFrameForChange env s ch) (\<lambda>pf. res_bind (prepareList env s chs) (\<lambda>pfs. Inr (pf # pfs)))"

definition blindDone ::
  "int64 list \<Rightarrow> FlushResult \<Rightarrow> nat \<Rightarrow> serverError option \<times> eventualStateSendStats \<times> 'e Server
     \<Rightarrow> serverError option \<times> 'e Server" where
  "blindDone sessionIDs result deltasFlushed r =
     (case r of
        (Some err, _, s) \<Rightarrow> (Some err, s)
      | (None, sums, s) \<Rightarrow>
          (None, storeReplicationSnapshot (ss_streamBatchedFrames sums) (ss_streamWireMsgs sums)
             (ss_datagramBatchedFrames sums) (ss_datagramWirePayloads sums) deltasFlushed
             (cleanupVisibilityForRemovals (fr_Removals result)
               (applyBlindBroadcastKnown sessionIDs (fr_SpawnIDs result) (fr_Removals result) s))))"

definition runBroadcastTickBlind ::
  "'e srvEnv \<Rightarrow> 'e updateFunc option \<Rightarrow> FlushResult \<Rightarrow> nat \<Rightarrow> 'e Server \<Rightarrow> serverError option \<times> 'e Server" where
  "runBroadcastTickBlind env onUpdates result deltasFlushed s =
     (case removalFrames env (zip (fr_Removals result) (fr_RemovalRevisions result)) [] of
        Inl err \<Rightarrow> (Some err, s)
      | Inr removals \<Rightarrow>
          (let s = (if usesDatagramStateUpdates env then clearEventualEntities env (fr_Removals result) s else s);
               updates = flushUpdates result removals
           in if length updates = 0
              then (None, storeReplicationSnapshot 0 0 0 0 deltasFlushed
                            (cleanupVisibilityForRemovals (fr_Removals result) s))
              else
                (let s = (case onUpdates of Some g \<Rightarrow> g updates s | None \<Rightarrow> s);
                     (sessionIDs, net) = ln_SessionIDs env (sv_net s);
                     s = s\<lparr>sv_net := net\<rparr>;
                     wrappedUpdates = map ln_Wrap updates
                 in if \<not> usesDatagramStateUpdates env then
                      (case ReliableStreamWriteChunkCount (en_Transport env) wrappedUpdates of
                         Inl err \<Rightarrow> (Some (errPayload err), s)
                       | Inr _ \<Rightarrow>
                           blindDone sessionIDs result deltasFlushed (blindStreamLoop env wrappedUpdates sessionIDs ss_zero s))
                    else
                      (let wrappedStreamUpdates = map ln_Wrap (fr_Spawns result @ map (Some \<circ> snd) removals);
                           (hasDatagrams, net) = hasDatagramStateSessions env sessionIDs (sv_net s);
                           s = s\<lparr>sv_net := net\<rparr>;
                           changes = (if hasDatagrams then map (eventualChangeForDelta env s) (fr_DeltaIDs result) else [])
                       in case prepareList env s changes of
                            Inl err \<Rightarrow> (Some err, s)
                          | Inr prepared \<Rightarrow>
                              blindDone sessionIDs result deltasFlushed
                                (blindDatagramLoop env wrappedUpdates wrappedStreamUpdates changes prepared sessionIDs [] ss_zero s)))))"

section \<open>The tick\<close>

definition runBroadcastTick ::
  "'e srvEnv \<Rightarrow> 'e updateFunc option \<Rightarrow> 'e Server \<Rightarrow> serverError option \<times> 'e Server" where
  "runBroadcastTick env onUpdates s =
     (case reg_FlushAll (en_ifc env) (en_ordEntities env (rg_entities (sv_reg s))) (sv_heap s) (sv_reg s) of
        ((Some err, _), h, r) \<Rightarrow> (Some (errRegistry err), s\<lparr>sv_heap := h, sv_reg := r\<rparr>)
      | ((None, result), h, r) \<Rightarrow>
          (let s = s\<lparr>sv_heap := h, sv_reg := r\<rparr>;
               deltasFlushed = length (fr_Deltas result);
               live = sv_All env s;
               (sessionIDs, net) = ln_SessionIDs env (sv_net s);
               s = s\<lparr>sv_net := net\<rparr>
           in if shouldFilterBroadcastLocked env sessionIDs live s
              then runBroadcastTickFiltered env onUpdates result deltasFlushed s
              else runBroadcastTickBlind env onUpdates result deltasFlushed s))"

section \<open>The snapshot of a new session\<close>

fun snapshotFrames ::
  "'e srvEnv \<Rightarrow> 'e Server \<Rightarrow> int64 \<Rightarrow> 'e list \<Rightarrow> serverError + (int64 \<times> bytes option) list" where
  "snapshotFrames env s sessionID [] = Inr []"
| "snapshotFrames env s sessionID (e # es) =
     (case fullUpdateForSession env s e sessionID of
        Inl err \<Rightarrow> Inl (errFullUpdate (ei_EntityID (en_ifc env) e) err)
      | Inr d \<Rightarrow> res_bind (snapshotFrames env s sessionID es) (\<lambda>r. Inr ((ei_EntityID (en_ifc env) e, d) # r)))"

definition entitySnapshotForSession ::
  "'e srvEnv \<Rightarrow> int64 \<Rightarrow> 'e Server \<Rightarrow> serverError + (int64 \<times> bytes option) list" where
  "entitySnapshotForSession env sessionID s =
     snapshotFrames env s sessionID
       (filter (\<lambda>e. Allows (sv_visibility s) sessionID (ei_EntityID (en_ifc env) e)) (sv_All env s))"

text \<open>
  \<^verbatim>\<open>sendSnapshot\<close> of the listener in broadcast mode: the world frames, then the entity frames,
  then the known set.  \<open>write\<close> says whether the session accepts the next frame.  The result
  has the frames written.
\<close>

fun writeFrames :: "(nat \<Rightarrow> bool) \<Rightarrow> bytes list \<Rightarrow> nat \<Rightarrow> bool \<times> bytes list" where
  "writeFrames write [] n = (True, [])"
| "writeFrames write (d # ds) n =
     (if validateReliableMessageSize d \<noteq> None \<or> \<not> write n then (False, [])
      else case writeFrames write ds (Suc n) of (ok, out) \<Rightarrow> (ok, d # out))"

definition sendSnapshot ::
  "'e srvEnv \<Rightarrow> bytes list \<Rightarrow> (nat \<Rightarrow> bool) \<Rightarrow> int64 \<Rightarrow> 'e Server \<Rightarrow> (bool \<times> bytes list) \<times> 'e Server" where
  "sendSnapshot env worldFrames write sessionID s =
     (case writeFrames write worldFrames 0 of
        (False, out) \<Rightarrow> ((False, out), s)
      | (True, out) \<Rightarrow>
          (case entitySnapshotForSession env sessionID s of
             Inl err \<Rightarrow> ((False, out), s)
           | Inr snaps \<Rightarrow>
               (case writeFrames write (map (ln_Wrap \<circ> snd) snaps) (length worldFrames) of
                  (False, out') \<Rightarrow> ((False, out @ out'), s)
                | (True, out') \<Rightarrow>
                    ((True, out @ out'), commitBroadcastSnapshotKnown sessionID (map fst snaps) s))))"

end
