(* ===== verification/Eventual_Delivery.thy ===== *)
theory Eventual_Delivery
  imports Eventual_Send
begin

text \<open>
  Sending eventual state loses nothing: what a tracker owed before a send is in flight, still
  dirty, on the stream, or has nothing left to send; and every datagram respects the budget.
\<close>

section \<open>Trackers\<close>

lemma trk_set_trk [simp]: "trk (set_trk sid t s) sid' = (if sid' = sid then t else trk s sid')"
  by (simp add: trk_def set_trk_def eventualTracker_def split: option.split)

lemma set_trk_twice [simp]: "set_trk sid t' (set_trk sid t s) = set_trk sid t' s"
  by (simp add: set_trk_def)

lemma set_trk_fields [simp]:
  "sv_reg (set_trk sid t s) = sv_reg s" "sv_heap (set_trk sid t s) = sv_heap s"
  "sv_net (set_trk sid t s) = sv_net s" "sv_nextEventualToken (set_trk sid t s) = sv_nextEventualToken s"
  by (simp_all add: set_trk_def)

lemma trk_cong [simp]:
  "trk (s\<lparr>sv_net := n\<rparr>) sid = trk s sid" "trk (s\<lparr>sv_nextEventualToken := k\<rparr>) sid = trk s sid"
  by (simp_all add: trk_def eventualTracker_def split: option.split)

lemma dirty_clearDirty [simp]:
  "map_of (et_dirtySet (clearDirty i t)) = (map_of (et_dirtySet t))(i := None)"
  "et_inFlight (clearDirty i t) = et_inFlight t"
  by (simp_all add: clearDirty_def)

lemma dirty_clear_all:
  "map_of (et_dirtySet (fold (\<lambda>ch. clearDirty (ch_id ch)) chs t)) i =
     (if i \<in> ch_id ` set chs then None else map_of (et_dirtySet t) i)"
  "et_inFlight (fold (\<lambda>ch. clearDirty (ch_id ch)) chs t) = et_inFlight t"
  by (induction chs arbitrary: t) auto

lemma tracker_markSent_effect:
  assumes "chs \<noteq> []"
  shows "\<exists>c. et_inFlight (tracker_markSent k chs t) = AList.update k \<lparr>ib_cap = c, ib_changes = chs\<rparr> (et_inFlight t)"
    and "map_of (et_dirtySet (tracker_markSent k chs t)) i =
           (if i \<in> ch_id ` set chs then None else map_of (et_dirtySet t) i)"
proof -
  let ?t1 = "case map_of (et_inFlight t) k of Some e \<Rightarrow> releaseInFlightChanges e t | None \<Rightarrow> t"
  have f: "et_inFlight ?t1 = et_inFlight t" "et_dirtySet ?t1 = et_dirtySet t" by (simp_all split: option.split)
  obtain c t2 where b: "borrowInFlightChanges (length chs) ?t1 = (c, t2)" by fastforce
  note B = borrow_spec(3,4) [OF b, unfolded f]
  show "\<exists>c. et_inFlight (tracker_markSent k chs t) = AList.update k \<lparr>ib_cap = c, ib_changes = chs\<rparr> (et_inFlight t)"
    using assms b B by (auto simp: tracker_markSent_def dirty_clear_all(2))
  show "map_of (et_dirtySet (tracker_markSent k chs t)) i =
           (if i \<in> ch_id ` set chs then None else map_of (et_dirtySet t) i)"
    using assms b B by (simp add: tracker_markSent_def dirty_clear_all(1))
qed

section \<open>Frames\<close>

definition frame_ok :: "eventualStateFrame \<Rightarrow> bool" where
  "frame_ok f \<longleftrightarrow> (ef_fitsDatagram f \<longrightarrow>
     (\<exists>c. ef_datagram f = Some c \<and> ef_payloadLen f = CompactStateDatagramFramePayloadLen c
        \<and> ef_payloadLen f \<le> EventualStateDatagramPayloadBudget))"

lemma frame_ok_zero [simp]: "frame_ok ef_zero" "frame_ok (ef_zero\<lparr>ef_stream := d\<rparr>)"
  by (simp_all add: frame_ok_def ef_zero_def)

lemma fullFrame_ok: "fullFrame env ch e = Inr f \<Longrightarrow> frame_ok f"
  by (auto simp: fullFrame_def split: if_splits option.splits sum.splits)

lemma deltaFrame_ok: "deltaFrame env s ch e m = Inr f \<Longrightarrow> frame_ok f"
  by (auto simp: deltaFrame_def fullFrame_ok Let_def frame_ok_def ef_zero_def dest: fullFrame_ok
      split: if_splits option.splits sum.splits)

lemma eventualFrame_ok: "eventualFrameForChange env s ch = Inr (f, live) \<Longrightarrow> frame_ok f"
  by (auto simp: eventualFrameForChange_def Let_def dest: fullFrame_ok deltaFrame_ok
      split: if_splits option.splits)

text \<open>A frame that does not fit a datagram goes to the stream.\<close>

lemma fits_stream:
  "eventualFrameForChange env s ch = Inr (f, live) \<Longrightarrow> \<not> ef_fitsDatagram f \<Longrightarrow> ef_datagram f = None"
  by (auto simp: eventualFrameForChange_def deltaFrame_def fullFrame_def ef_zero_def Let_def
      split: if_splits option.splits sum.splits)

text \<open>A frame depends on the entities only.\<close>

lemma frame_cong:
  "sv_reg s' = sv_reg s \<Longrightarrow> sv_heap s' = sv_heap s \<Longrightarrow>
     eventualFrameForChange env s' ch = eventualFrameForChange env s ch"
proof -
  assume a: "sv_reg s' = sv_reg s" "sv_heap s' = sv_heap s"
  then have "deltaFrame env s' = deltaFrame env s"
    by (intro ext) (simp add: deltaFrame_def compactDeltaForMask_def sv_Get_def)
  then show ?thesis using a by (simp add: eventualFrameForChange_def sv_Get_def Let_def split: option.split)
qed

definition cache_ok :: "'e srvEnv \<Rightarrow> 'e Server \<Rightarrow> eventualStateTickCache \<Rightarrow> bool" where
  "cache_ok env s cache \<longleftrightarrow> (\<forall>ch f. map_of cache ch = Some f \<longrightarrow> eventualFrameForChange env s ch = Inr (f, True))"

lemma cache_ok_Nil [simp]: "cache_ok env s []"
  by (simp add: cache_ok_def)

lemma cache_frame_ok:
  assumes "cache_ok env s cache" and "cache_frame env s ch cache = Inr ((f, live), cache')"
  shows "eventualFrameForChange env s ch = Inr (f, live)" and "cache_ok env s cache'"
  using assms by (auto simp: cache_frame_def cache_ok_def split: option.splits sum.splits if_splits prod.splits)

lemma compact_append: "AppendCompactStateDatagramFrame dst c = dst @ frame_bytes c"
  by (simp add: AppendCompactStateDatagramFrame_def lengthPrefixedReliableChunkEncoder_def appendLengthPrefixed_bytes)

lemma compact_len: "CompactStateDatagramFramePayloadLen c = length (frame_bytes c)"
  by (simp add: CompactStateDatagramFramePayloadLen_def lengthPrefixedReliableChunkEncoder_def)

section \<open>The sending loops\<close>

definition net_since :: "'e Server \<Rightarrow> 'e Server \<Rightarrow> netCall list" where
  "net_since s s' = drop (length (sv_net s)) (sv_net s')"

text \<open>
  Three parts of the state of a loop that started in \<open>s0\<close> with the changes \<open>chs0\<close>: the
  entities and the history, the accounting of the changes (\<open>Open\<close> are those not yet sent, all
  still dirty), and the two batches under construction.
\<close>

definition core :: "'e Server \<Rightarrow> int64 \<Rightarrow> 'e Server \<Rightarrow> bool" where
  "core s0 sid s \<longleftrightarrow> sv_reg s = sv_reg s0 \<and> sv_heap s = sv_heap s0 \<and> take (length (sv_net s0)) (sv_net s) = sv_net s0
     \<and> (\<forall>c \<in> set (net_since s0 s). \<forall>i k d b. c = NetSendEventual i k d b \<longrightarrow> length d \<le> EventualStateDatagramPayloadBudget)"

definition nothingToSend :: "'e srvEnv \<Rightarrow> 'e Server \<Rightarrow> eventualStateChange \<Rightarrow> bool" where
  "nothingToSend env s0 ch \<longleftrightarrow> (\<exists>f live. eventualFrameForChange env s0 ch = Inr (f, live)
     \<and> (\<not> live \<or> (ef_datagram f = None \<and> ef_stream f = None)))"

text \<open>The payload \<open>d\<close> of a datagram contains the compact frame of the change.\<close>

definition datagramCarries :: "'e srvEnv \<Rightarrow> 'e Server \<Rightarrow> bytes \<Rightarrow> eventualStateChange \<Rightarrow> bool" where
  "datagramCarries env s0 d ch \<longleftrightarrow> (\<exists>f c pre post. eventualFrameForChange env s0 ch = Inr (f, True)
     \<and> ef_datagram f = Some c \<and> d = pre @ frame_bytes c @ post)"

text \<open>
  The change is in flight under a token that the listener was given, since \<open>s0\<close>, with a payload
  that contains its frame.  The listener swallows the datagram of a session that is closing.
\<close>

definition sentIn :: "'e srvEnv \<Rightarrow> 'e Server \<Rightarrow> int64 \<Rightarrow> 'e Server \<Rightarrow> eventualStateChange \<Rightarrow> bool" where
  "sentIn env s0 sid s ch \<longleftrightarrow> (\<exists>k d b. ch \<in> set (flightChanges (et_inFlight (trk s sid)) k)
     \<and> NetSendEventual sid k d b \<in> set (net_since s0 s) \<and> datagramCarries env s0 d ch
     \<and> (b \<or> (\<exists>pre post. sv_net s = pre @ post \<and> en_isClosing env pre sid)))"

definition acct ::
  "'e srvEnv \<Rightarrow> 'e Server \<Rightarrow> int64 \<Rightarrow> eventualStateChange set \<Rightarrow> eventualStateChange set \<Rightarrow> 'e Server \<Rightarrow> bool" where
  "acct env s0 sid Chs Open s \<longleftrightarrow> inj_on ch_id Open
     \<and> (\<forall>ch \<in> Open. map_of (et_dirtySet (trk s sid)) (ch_id ch) = Some ch)
     \<and> (\<forall>ch \<in> Chs. ch \<in> Open \<or> sentIn env s0 sid s ch \<or> nothingToSend env s0 ch)"

definition batches :: "'e srvEnv \<Rightarrow> 'e Server \<Rightarrow> 'e sendAcc \<Rightarrow> bool" where
  "batches env s0 a \<longleftrightarrow> sa_pendingBytes a = length (sa_payload a) \<and> length (sa_payload a) \<le> EventualStateDatagramPayloadBudget
     \<and> (\<forall>ch \<in> set (sa_pendingChanges a). datagramCarries env s0 (sa_payload a) ch)
     \<and> (\<forall>ch \<in> set (sa_streamChanges a). \<exists>f d. eventualFrameForChange env s0 ch = Inr (f, True)
            \<and> ef_stream f = Some d \<and> d \<in> set (sa_streamFrames a))"

definition tokens_below :: "eventualStateTracker \<Rightarrow> u64 \<Rightarrow> nat \<Rightarrow> bool" where
  "tokens_below t k n \<longleftrightarrow> (\<forall>j \<in> gm_keys (et_inFlight t). j \<le> k) \<and> unat k + n < 2 ^ 64"

definition send_inv ::
  "'e srvEnv \<Rightarrow> 'e Server \<Rightarrow> int64 \<Rightarrow> eventualStateChange set \<Rightarrow> nat \<Rightarrow> eventualStateChange list \<Rightarrow> 'e sendAcc \<Rightarrow> bool" where
  "send_inv env s0 sid Chs n rest a \<longleftrightarrow> core s0 sid (sa_srv a) \<and> batches env s0 a
     \<and> acct env s0 sid Chs (set (rest @ sa_pendingChanges a @ sa_streamChanges a)) (sa_srv a)
     \<and> distinct (rest @ sa_pendingChanges a @ sa_streamChanges a)
     \<and> tokens_below (trk (sa_srv a) sid) (sv_nextEventualToken (sa_srv a)) n"

text \<open>
  What holds when a send is over, whether it went through or the session was gone: every change
  is still dirty, in flight, on the stream, or had nothing to send.
\<close>

definition send_post :: "'e srvEnv \<Rightarrow> 'e Server \<Rightarrow> int64 \<Rightarrow> eventualStateChange set \<Rightarrow> 'e Server \<Rightarrow> bool" where
  "send_post env s0 sid Chs s \<longleftrightarrow> core s0 sid s
     \<and> (\<forall>ch \<in> Chs. map_of (et_dirtySet (trk s sid)) (ch_id ch) = Some ch \<or> sentIn env s0 sid s ch
          \<or> nothingToSend env s0 ch
          \<or> (\<exists>f d frames. eventualFrameForChange env s0 ch = Inr (f, True) \<and> ef_stream f = Some d
               \<and> d \<in> set frames \<and> NetSendBatch sid frames True \<in> set (net_since s0 s)))"

lemma send_inv_post: "send_inv env s0 sid Chs n rest a \<Longrightarrow> send_post env s0 sid Chs (sa_srv a)"
  unfolding send_inv_def send_post_def acct_def by blast

lemma take_append_same: "take (length (a :: 'b list)) b = a \<Longrightarrow> take (length a) (b @ c) = a"
  by (metis append_eq_conv_conj append_take_drop_id append.assoc)

lemma core_step:
  assumes "core s0 sid s" "sv_reg s' = sv_reg s" "sv_heap s' = sv_heap s" "sv_net s' = sv_net s @ l"
    and "\<forall>c \<in> set l. \<forall>i k d b. c = NetSendEventual i k d b \<longrightarrow> length d \<le> EventualStateDatagramPayloadBudget"
  shows "core s0 sid s'" and "net_since s0 s' = net_since s0 s @ l"
proof -
  have t: "take (length (sv_net s0)) (sv_net s) = sv_net s0" using assms(1) by (simp add: core_def)
  show n: "net_since s0 s' = net_since s0 s @ l"
    using t unfolding net_since_def assms(4) by (metis append_eq_conv_conj append_take_drop_id append.assoc)
  show "core s0 sid s'"
    using assms take_append_same [OF t, of l] unfolding core_def n by auto
qed

lemma core_same: "core s0 sid s \<Longrightarrow> sv_reg s' = sv_reg s \<Longrightarrow> sv_heap s' = sv_heap s \<Longrightarrow> sv_net s' = sv_net s \<Longrightarrow> core s0 sid s'"
  using core_step(1) [of s0 sid s s' "[]"] by simp

lemma flightChanges_update:
  "flightChanges (AList.update k b fl) j = (if j = k then ib_changes b else flightChanges fl j)"
  by (simp add: flightChanges_def)

text \<open>Sending the changes \<open>P\<close> under a new token, and dropping one with nothing to send.\<close>

lemma flight_markSent:
  assumes "P \<noteq> []"
  shows "flightChanges (et_inFlight (tracker_markSent k P t)) j = (if j = k then P else flightChanges (et_inFlight t) j)"
proof -
  obtain c where "et_inFlight (tracker_markSent k P t) = AList.update k \<lparr>ib_cap = c, ib_changes = P\<rparr> (et_inFlight t)"
    using tracker_markSent_effect(1) [OF assms] by blast
  then show ?thesis by (simp add: flightChanges_update)
qed

lemma net_since_append:
  assumes "core s0 sid s" and "sv_net s' = sv_net s @ l"
  shows "net_since s0 s' = net_since s0 s @ l"
proof -
  have "length (sv_net s0) \<le> length (sv_net s)"
  proof -
    have "length (take (length (sv_net s0)) (sv_net s)) = length (sv_net s0)"
      using assms(1) by (simp only: core_def)
    then show ?thesis by (simp add: min_def split: if_splits)
  qed
  then show ?thesis by (simp add: net_since_def assms(2))
qed

text \<open>What was sent stays sent while nothing in flight is dropped and the history only grows.\<close>

lemma sentIn_mono:
  assumes "sentIn env s0 sid s ch" and "core s0 sid s" and "sv_net s' = sv_net s @ l"
    and "\<And>k. flightChanges (et_inFlight (trk s sid)) k \<noteq> [] \<Longrightarrow>
       flightChanges (et_inFlight (trk s' sid)) k = flightChanges (et_inFlight (trk s sid)) k"
  shows "sentIn env s0 sid s' ch"
proof -
  obtain k d b where k: "ch \<in> set (flightChanges (et_inFlight (trk s sid)) k)"
    "NetSendEventual sid k d b \<in> set (net_since s0 s)" "datagramCarries env s0 d ch"
    "b \<or> (\<exists>pre post. sv_net s = pre @ post \<and> en_isClosing env pre sid)"
    using assms(1) unfolding sentIn_def by blast
  have "flightChanges (et_inFlight (trk s' sid)) k = flightChanges (et_inFlight (trk s sid)) k"
    using k(1) by (intro assms(4)) auto
  moreover have "b \<or> (\<exists>pre post. sv_net s' = pre @ post \<and> en_isClosing env pre sid)"
    using k(4) unfolding assms(3) by (metis append.assoc)
  ultimately show ?thesis
    using k net_since_append [OF assms(2,3)] unfolding sentIn_def
    by (intro exI [of _ k] exI [of _ d] exI [of _ b]) auto
qed

lemma acct_markSent:
  assumes "acct env s0 sid Chs Open s" "flightChanges (et_inFlight (trk s sid)) k = []" "P \<noteq> []" "set P \<subseteq> Open"
    and "core s0 sid s" and net: "sv_net s1 = sv_net s @ l" and "trk s1 sid = trk s sid"
    and "NetSendEventual sid k d b \<in> set l" and "\<forall>ch \<in> set P. datagramCarries env s0 d ch"
    and "b \<or> en_isClosing env (sv_net s) sid"
  shows "acct env s0 sid Chs (Open - set P) (set_trk sid (tracker_markSent k P (trk s1 sid)) s1)"
proof -
  let ?s2 = "set_trk sid (tracker_markSent k P (trk s1 sid)) s1"
  have "ch_id ch \<notin> ch_id ` set P" if "ch \<in> Open - set P" for ch
    using that assms(1,4) by (auto simp: acct_def inj_on_def)
  moreover have "sentIn env s0 sid ?s2 ch" if "sentIn env s0 sid s ch" for ch
    by (rule sentIn_mono [OF that assms(5), of ?s2 l])
      (use assms(2,3,7) net in \<open>auto simp: flight_markSent\<close>)
  moreover have "sentIn env s0 sid ?s2 ch" if "ch \<in> set P" for ch
    unfolding sentIn_def using that assms(3,8-10) net net_since_append [OF assms(5), of ?s2 l]
    by (intro exI [of _ k] exI [of _ d] exI [of _ b]) (auto simp: flight_markSent)
  ultimately show ?thesis
    using assms(1,7) unfolding acct_def by (auto simp: inj_on_def tracker_markSent_effect(2) [OF assms(3)])
qed

lemma acct_drop:
  assumes "acct env s0 sid Chs Open s" "nothingToSend env s0 ch" "ch \<in> Open" "core s0 sid s"
    and "trk s' sid = clearDirty (ch_id ch) (trk s sid)" "sv_net s' = sv_net s"
  shows "acct env s0 sid Chs (Open - {ch}) s'"
proof -
  have "sentIn env s0 sid s' x" if "sentIn env s0 sid s x" for x
    by (rule sentIn_mono [OF that assms(4), of s' "[]"]) (use assms(5,6) in simp_all)
  then show ?thesis using assms(1-3,5) unfolding acct_def by (auto simp: inj_on_def)
qed

lemma send_post_mono:
  assumes "send_post env s0 sid Chs s" and "core s0 sid s'" and "sv_net s' = sv_net s @ l"
    and "map_of (et_dirtySet (trk s' sid)) = map_of (et_dirtySet (trk s sid))"
    and "et_inFlight (trk s' sid) = et_inFlight (trk s sid)"
  shows "send_post env s0 sid Chs s'"
proof -
  have c: "core s0 sid s" using assms(1) by (simp add: send_post_def)
  have "sentIn env s0 sid s' ch" if "sentIn env s0 sid s ch" for ch
    by (rule sentIn_mono [OF that c assms(3)]) (simp add: assms(5))
  moreover have "set (net_since s0 s) \<subseteq> set (net_since s0 s')"
    using net_since_append [OF c assms(3)] by simp
  ultimately show ?thesis
    using assms(1,2,4) unfolding send_post_def by (metis subsetD)
qed

lemma ln_SendEventual_net:
  assumes "ln_SendEventualStateOwned env sid k d net = (r, net')"
  shows "\<exists>l. net' = net @ l \<and> (\<forall>x \<in> set l. \<exists>b. x = NetSendEventual sid k d b)
    \<and> (r = None \<and> d \<noteq> [] \<longrightarrow> (\<exists>b. NetSendEventual sid k d b \<in> set l \<and> (b \<or> en_isClosing env net sid)))"
  using assms by (auto simp: ln_SendEventualStateOwned_def sess_sendEventualStateOwned_def split: if_splits option.splits)

lemma unat_Suc_word: "unat (k :: u64) + 1 < 2 ^ 64 \<Longrightarrow> unat (k + 1) = unat k + 1"
  by (simp add: unat_word_ariths)

lemma token_fresh:
  assumes "tokens_below t k (Suc n)"
  shows "flightChanges (et_inFlight t) (k + 1) = []"
    and "\<forall>j \<in> gm_keys (et_inFlight t). j \<le> k + 1" and "unat (k + 1) + n < 2 ^ 64"
proof -
  have u: "unat (k + 1) = unat k + 1" using assms unat_Suc_word [of k] by (simp add: tokens_below_def)
  then have "k + 1 \<notin> gm_keys (et_inFlight t)" using assms by (auto simp: tokens_below_def word_le_nat_alt)
  then show "flightChanges (et_inFlight t) (k + 1) = []"
    by (simp add: flightChanges_def gm_keys_None [symmetric])
  show "\<forall>j \<in> gm_keys (et_inFlight t). j \<le> k + 1"
    using assms u by (force simp: tokens_below_def word_le_nat_alt)
  show "unat (k + 1) + n < 2 ^ 64" using assms u by (simp add: tokens_below_def)
qed

text \<open>A flush keeps the invariant with an empty datagram, or stops the send.\<close>

lemma flushPending_inv:
  assumes i: "send_inv env s0 sid Chs (Suc n) rest a" and f: "flushPending env sid a = (stop, a')"
  shows "send_post env s0 sid Chs (sa_srv a')"
    and "stop = None \<Longrightarrow> send_inv env s0 sid Chs n rest a' \<and> sa_pendingChanges a' = []
           \<and> sa_streamFrames a' = sa_streamFrames a \<and> sa_streamChanges a' = sa_streamChanges a
           \<and> (sa_pendingChanges a \<noteq> [] \<longrightarrow> sa_payload a' = [])"
proof -
  have "send_post env s0 sid Chs (sa_srv a') \<and> (stop = None \<longrightarrow> send_inv env s0 sid Chs n rest a' \<and> sa_pendingChanges a' = []
           \<and> sa_streamFrames a' = sa_streamFrames a \<and> sa_streamChanges a' = sa_streamChanges a
           \<and> (sa_pendingChanges a \<noteq> [] \<longrightarrow> sa_payload a' = []))"
  proof (cases "sa_pendingChanges a = []")
    case True
    then have "a' = a" "stop = None" using f by (simp_all add: flushPending_def)
    then show ?thesis using i send_inv_post [OF i] True by (simp add: send_inv_def tokens_below_def)
  next
    case False
    let ?s = "sa_srv a" and ?P = "sa_pendingChanges a" and ?k = "sv_nextEventualToken (sa_srv a) + 1"
    obtain r net where n: "ln_SendEventualStateOwned env sid ?k (sa_payload a) (sv_net ?s) = (r, net)" by fastforce
    have ba: "\<forall>ch \<in> set ?P. datagramCarries env s0 (sa_payload a) ch"
      using i by (simp add: send_inv_def batches_def)
    have "sa_payload a \<noteq> []"
      using ba False by (cases ?P) (auto simp: datagramCarries_def)
    then obtain l where l: "net = sv_net ?s @ l" "\<forall>x \<in> set l. \<exists>b. x = NetSendEventual sid ?k (sa_payload a) b"
      and given: "r = None \<Longrightarrow> \<exists>b. NetSendEventual sid ?k (sa_payload a) b \<in> set l \<and> (b \<or> en_isClosing env (sv_net ?s) sid)"
      using ln_SendEventual_net [OF n] by blast
    define s1 where "s1 = ?s\<lparr>sv_nextEventualToken := ?k, sv_net := net\<rparr>"
    have small: "\<forall>c \<in> set l. \<forall>i k d b. c = NetSendEventual i k d b \<longrightarrow> length d \<le> EventualStateDatagramPayloadBudget"
      using i l(2) by (auto simp: send_inv_def batches_def)
    have "core s0 sid ?s" using i by (simp add: send_inv_def)
    then have C: "core s0 sid s1" "net_since s0 s1 = net_since s0 ?s @ l"
      using core_step [OF _ _ _ _ small, of s0 sid ?s s1] l(1) by (simp_all add: s1_def)
    note c1 = C(1)
    have t1: "trk s1 sid = trk ?s sid" by (simp add: s1_def)
    have tk: "tokens_below (trk ?s sid) (sv_nextEventualToken ?s) (Suc n)" using i by (simp add: send_inv_def)
    note T = token_fresh [OF tk]
    have sub: "set (net_since s0 ?s) \<subseteq> set (net_since s0 s1)"
      by (simp add: C(2))
    show ?thesis
    proof (cases r)
      case (Some err)
      then have a': "sa_srv a' = s1" and "stop \<noteq> None"
        using f False n by (auto simp: flushPending_def nextEventualStateToken_def s1_def)
      moreover have "send_post env s0 sid Chs s1"
        using send_post_mono [OF send_inv_post [OF i] c1, of l] l(1) t1 by (simp add: s1_def)
      ultimately show ?thesis by auto
    next
      case None
      define s2 where "s2 = set_trk sid (tracker_markSent ?k ?P (trk s1 sid)) s1"
      have a': "stop = None" "sa_srv a' = s2" "sa_pendingChanges a' = []" "sa_payload a' = []" "sa_pendingBytes a' = 0"
        "sa_streamFrames a' = sa_streamFrames a" "sa_streamChanges a' = sa_streamChanges a"
        using f False n None by (auto simp: flushPending_def nextEventualStateToken_def s1_def s2_def Let_def)
      have c2: "core s0 sid s2" by (rule core_same [OF c1]) (simp_all add: s2_def)
      have ac: "acct env s0 sid Chs (set (rest @ ?P @ sa_streamChanges a)) ?s"
        and di: "distinct (rest @ ?P @ sa_streamChanges a)" using i by (simp_all add: send_inv_def)
      obtain b where b: "NetSendEventual sid ?k (sa_payload a) b \<in> set l" "b \<or> en_isClosing env (sv_net ?s) sid"
        using given [OF None] by blast
      have "acct env s0 sid Chs (set (rest @ ?P @ sa_streamChanges a) - set ?P) s2"
        unfolding s2_def
        by (rule acct_markSent [OF ac T(1) False _ \<open>core s0 sid ?s\<close> _ t1 b(1) ba b(2)])
          (use l(1) in \<open>auto simp: s1_def\<close>)
      moreover have "set (rest @ ?P @ sa_streamChanges a) - set ?P = set (rest @ sa_streamChanges a)"
        using di by auto
      moreover have "tokens_below (trk s2 sid) (sv_nextEventualToken s2) n"
      proof -
        obtain c where "et_inFlight (trk s2 sid) = AList.update ?k \<lparr>ib_cap = c, ib_changes = ?P\<rparr> (et_inFlight (trk ?s sid))"
          using tracker_markSent_effect(1) [OF False] by (auto simp: s2_def t1)
        then show ?thesis using T(2,3) by (simp add: tokens_below_def s2_def s1_def)
      qed
      ultimately have "send_inv env s0 sid Chs n rest a'"
        using i c2 di unfolding send_inv_def a' by (simp add: batches_def a' Int_Un_distrib)
      then show ?thesis using send_inv_post a' by blast
    qed
  qed
  then show "send_post env s0 sid Chs (sa_srv a')"
    and "stop = None \<Longrightarrow> send_inv env s0 sid Chs n rest a' \<and> sa_pendingChanges a' = []
           \<and> sa_streamFrames a' = sa_streamFrames a \<and> sa_streamChanges a' = sa_streamChanges a
           \<and> (sa_pendingChanges a \<noteq> [] \<longrightarrow> sa_payload a' = [])" by blast+
qed


lemma sa_clearDirty_fields [simp]:
  "sa_pendingChanges (sa_clearDirty sid i a) = sa_pendingChanges a" "sa_streamChanges (sa_clearDirty sid i a) = sa_streamChanges a"
  "sa_streamFrames (sa_clearDirty sid i a) = sa_streamFrames a" "sa_payload (sa_clearDirty sid i a) = sa_payload a"
  "sa_pendingBytes (sa_clearDirty sid i a) = sa_pendingBytes a"
  "trk (sa_srv (sa_clearDirty sid i a)) sid = clearDirty i (trk (sa_srv a) sid)"
  "sv_nextEventualToken (sa_srv (sa_clearDirty sid i a)) = sv_nextEventualToken (sa_srv a)"
  "sv_net (sa_srv (sa_clearDirty sid i a)) = sv_net (sa_srv a)"
  "sv_reg (sa_srv (sa_clearDirty sid i a)) = sv_reg (sa_srv a)"
  "sv_heap (sa_srv (sa_clearDirty sid i a)) = sv_heap (sa_srv a)"
  by (simp_all add: sa_clearDirty_def)

text \<open>One step of a loop: the change at hand leaves \<open>rest\<close>.\<close>

lemma placeFrame_drop:
  assumes i: "send_inv env s0 sid Chs n (ch # rest) a" and "nothingToSend env s0 ch"
  shows "send_inv env s0 sid Chs n rest (sa_clearDirty sid (ch_id ch) a)"
proof -
  let ?O = "set (ch # rest @ sa_pendingChanges a @ sa_streamChanges a)"
  have "acct env s0 sid Chs (?O - {ch}) (sa_srv (sa_clearDirty sid (ch_id ch) a))"
    by (rule acct_drop [of _ _ _ _ _ "sa_srv a"]) (use i assms(2) in \<open>simp_all add: send_inv_def\<close>)
  moreover have "?O - {ch} = set (rest @ sa_pendingChanges a @ sa_streamChanges a)"
    using i by (auto simp: send_inv_def)
  moreover have "core s0 sid (sa_srv (sa_clearDirty sid (ch_id ch) a))"
    by (rule core_same [of s0 sid "sa_srv a"]) (use i in \<open>simp_all add: send_inv_def\<close>)
  ultimately show ?thesis
    using i by (simp add: send_inv_def batches_def tokens_below_def)
qed

lemma placeFrame_stream:
  assumes i: "send_inv env s0 sid Chs n (ch # rest) a" and "eventualFrameForChange env s0 ch = Inr (f, True)"
    and "ef_stream f = Some d"
  shows "send_inv env s0 sid Chs n rest
           (a\<lparr>sa_streamFrames := sa_streamFrames a @ [d], sa_streamChanges := sa_streamChanges a @ [ch]\<rparr>)"
proof -
  have "set (ch # rest @ sa_pendingChanges a @ sa_streamChanges a)
      = set (rest @ sa_pendingChanges a @ sa_streamChanges a @ [ch])" by auto
  then show ?thesis
    using i assms(2,3) unfolding send_inv_def by (auto simp: batches_def)
qed

lemma datagramCarries_append: "datagramCarries env s0 d ch \<Longrightarrow> datagramCarries env s0 (d @ e) ch"
  by (fastforce simp: datagramCarries_def)

lemma placeFrame_datagram:
  assumes i: "send_inv env s0 sid Chs n (ch # rest) a"
    and "length (sa_payload a) + length (frame_bytes c) \<le> EventualStateDatagramPayloadBudget"
    and "eventualFrameForChange env s0 ch = Inr (f, True)" and "ef_datagram f = Some c"
  shows "send_inv env s0 sid Chs n rest
           (a\<lparr>sa_pendingChanges := sa_pendingChanges a @ [ch], sa_payload := sa_payload a @ frame_bytes c,
              sa_pendingBytes := sa_pendingBytes a + length (frame_bytes c)\<rparr>)"
proof -
  have "set (ch # rest @ sa_pendingChanges a @ sa_streamChanges a)
      = set (rest @ (sa_pendingChanges a @ [ch]) @ sa_streamChanges a)" by auto
  moreover have "datagramCarries env s0 (sa_payload a @ frame_bytes c) ch"
  proof -
    have "sa_payload a @ frame_bytes c = sa_payload a @ frame_bytes c @ []" by simp
    with assms(3,4) show ?thesis unfolding datagramCarries_def by blast
  qed
  ultimately show ?thesis
    using i assms(2) unfolding send_inv_def by (auto simp: batches_def datagramCarries_append)
qed

lemma placeFrame_inv:
  assumes i: "send_inv env s0 sid Chs (Suc n) (ch # rest) a" and pend: "sa_pendingBytes a > 0 \<longleftrightarrow> sa_pendingChanges a \<noteq> []"
    and fr: "eventualFrameForChange env s0 ch = Inr (f, live)"
    and p: "placeFrame env sid ch f live a = (stop, a')"
  shows "send_post env s0 sid Chs (sa_srv a')"
    and "stop = None \<Longrightarrow> send_inv env s0 sid Chs n rest a' \<and> (sa_pendingBytes a' > 0 \<longleftrightarrow> sa_pendingChanges a' \<noteq> [])"
proof -
  have weaken: "send_inv env s0 sid Chs n r b" if "send_inv env s0 sid Chs (Suc n) r b" for r b
    using that by (simp add: send_inv_def tokens_below_def)
  have "send_post env s0 sid Chs (sa_srv a') \<and>
      (stop = None \<longrightarrow> send_inv env s0 sid Chs n rest a' \<and> (sa_pendingBytes a' > 0 \<longleftrightarrow> sa_pendingChanges a' \<noteq> []))"
  proof (cases "\<not> live \<or> ef_datagram f = None \<and> ef_stream f = None")
    case True
    then have "nothingToSend env s0 ch" using fr by (auto simp: nothingToSend_def)
    moreover have "a' = sa_clearDirty sid (ch_id ch) a" "stop = None" using p True by (auto simp: placeFrame_def split: if_splits)
    ultimately show ?thesis
      using weaken [OF placeFrame_drop [OF i]] send_inv_post pend by fastforce
  next
    case live: False
    show ?thesis
    proof (cases "ef_fitsDatagram f")
      case False
      then obtain d where d: "ef_stream f = Some d"
        using live eventualFrame_ok [OF fr] fits_stream [OF fr] by auto
      have "a' = a\<lparr>sa_streamFrames := sa_streamFrames a @ [d], sa_streamChanges := sa_streamChanges a @ [ch]\<rparr>" "stop = None"
        using p live False d by (auto simp: placeFrame_def)
      then show ?thesis
        using weaken [OF placeFrame_stream [OF i _ d]] fr live send_inv_post pend by fastforce
    next
      case True
      then obtain c where c: "ef_datagram f = Some c" "ef_payloadLen f = length (frame_bytes c)"
        "length (frame_bytes c) \<le> EventualStateDatagramPayloadBudget"
        using eventualFrame_ok [OF fr] by (auto simp: frame_ok_def compact_len)
      let ?full = "sa_pendingBytes a > 0 \<and> sa_pendingBytes a + ef_payloadLen f > EventualStateDatagramPayloadBudget"
      obtain r b where rb: "(if ?full then flushPending env sid a else (None, a)) = (r, b)" by fastforce
      have b: "send_post env s0 sid Chs (sa_srv b) \<and> (r = None \<longrightarrow> send_inv env s0 sid Chs n (ch # rest) b
          \<and> length (sa_payload b) + length (frame_bytes c) \<le> EventualStateDatagramPayloadBudget
          \<and> sa_pendingBytes b = length (sa_payload b))"
      proof (cases ?full)
        case True
        then have fl: "flushPending env sid a = (r, b)" using rb by simp
        have "send_post env s0 sid Chs (sa_srv b)" by (rule flushPending_inv(1) [OF i fl])
        moreover have "sa_pendingBytes x = length (sa_payload x)" if "send_inv env s0 sid Chs n r x" for r x
          using that by (simp add: send_inv_def batches_def)
        ultimately show ?thesis
          using flushPending_inv(2) [OF i fl] True pend c(3) by fastforce
      next
        case False
        then have "r = None" "b = a" using rb by auto
        then show ?thesis
          using weaken [OF i] send_inv_post [OF i] False c by (auto simp: send_inv_def batches_def)
      qed
      show ?thesis
      proof (cases r)
        case None
        let ?b = "b\<lparr>sa_pendingChanges := sa_pendingChanges b @ [ch], sa_payload := sa_payload b @ frame_bytes c,
              sa_pendingBytes := sa_pendingBytes b + length (frame_bytes c)\<rparr>"
        have a': "a' = ?b" "stop = None"
          using p live True rb None c by (auto simp: placeFrame_def compact_append)
        have "send_inv env s0 sid Chs n rest ?b"
          by (rule placeFrame_datagram) (use b None fr live c in auto)
        then show ?thesis using send_inv_post unfolding a' by fastforce
      next
        case (Some st)
        then have "stop = Some st" "a' = b" using p live True rb by (auto simp: placeFrame_def)
        then show ?thesis using b by simp
      qed
    qed
  qed
  then show "send_post env s0 sid Chs (sa_srv a')"
    and "stop = None \<Longrightarrow> send_inv env s0 sid Chs n rest a' \<and> (sa_pendingBytes a' > 0 \<longleftrightarrow> sa_pendingChanges a' \<noteq> [])"
    by blast+
qed


lemma fold_clearDirty_fields [simp]:
  fixes a :: "'e sendAcc" and chs sid
  defines "a' \<equiv> fold (\<lambda>ch. sa_clearDirty sid (ch_id ch)) chs a"
  shows "trk (sa_srv a') sid = fold (\<lambda>ch. clearDirty (ch_id ch)) chs (trk (sa_srv a) sid)"
    and "sv_net (sa_srv a') = sv_net (sa_srv a)" "sv_reg (sa_srv a') = sv_reg (sa_srv a)"
    and "sv_heap (sa_srv a') = sv_heap (sa_srv a)"
  unfolding a'_def by (induction chs arbitrary: a) simp_all

lemma core_calls:
  assumes "core s0 sid s" "sv_net s' = sv_net s @ l" "sv_reg s' = sv_reg s" "sv_heap s' = sv_heap s"
    and "\<forall>c \<in> set l. (\<exists>i. c = NetTransport i) \<or> (\<exists>i fs b. c = NetSendBatch i fs b)"
  shows "core s0 sid s'" and "net_since s0 s' = net_since s0 s @ l"
  using core_step [OF assms(1,3,4,2)] assms(5) by force+

lemma finishSend_post:
  assumes i: "send_inv env s0 sid Chs (Suc n) [] a" and f: "finishSend env sid a = (stop, a')"
  shows "send_post env s0 sid Chs (sa_srv a')"
proof -
  obtain st b where b: "flushPending env sid a = (st, b)" by fastforce
  note F = flushPending_inv [OF i b]
  show ?thesis
  proof (cases "st \<noteq> None \<or> sa_streamFrames b = []")
    case True
    then have "a' = b" using f b by (auto simp: finishSend_def split: option.splits)
    then show ?thesis using F(1) by simp
  next
    case False
    then have iv: "send_inv env s0 sid Chs n [] b" and np: "sa_pendingChanges b = []" using F(2) by auto
    have cb: "core s0 sid (sa_srv b)" using iv by (simp add: send_inv_def)
    define s1 where "s1 = (sa_srv b)\<lparr>sv_net := sv_net (sa_srv b) @ [NetTransport sid]\<rparr>"
    have keep: "send_post env s0 sid Chs s'" if "core s0 sid s'" "trk s' sid = trk (sa_srv b) sid"
        "sv_net s' = sv_net (sa_srv b) @ l" for s' l
      using send_post_mono [OF F(1) that(1,3)] that(2) by simp
    have c1: "core s0 sid s1" "net_since s0 s1 = net_since s0 (sa_srv b) @ [NetTransport sid]"
      by (rule core_calls [OF cb, of _ "[NetTransport sid]"], simp_all add: s1_def)+
    have p1: "send_post env s0 sid Chs s1" using keep [of s1 "[NetTransport sid]"] c1 by (auto simp: s1_def)
    obtain r net where sb: "ln_SendBatch env sid (sa_streamFrames b) (sv_net s1) = (r, net)" by fastforce
    define s2 where "s2 = s1\<lparr>sv_net := net\<rparr>"
    have net: "\<exists>l. net = sv_net s1 @ l \<and> (\<forall>c \<in> set l. \<exists>b'. c = NetSendBatch sid (sa_streamFrames b) b')
        \<and> (r = None \<longrightarrow> NetSendBatch sid (sa_streamFrames b) True \<in> set l)"
      using sb False by (auto simp: ln_SendBatch_def split: if_splits option.splits)
    then obtain l where l: "net = sv_net s1 @ l" "\<forall>c \<in> set l. \<exists>b'. c = NetSendBatch sid (sa_streamFrames b) b'"
        "r = None \<longrightarrow> NetSendBatch sid (sa_streamFrames b) True \<in> set l" by blast
    have c2: "core s0 sid s2" "net_since s0 s2 = net_since s0 s1 @ l"
      by (rule core_calls [OF c1(1), of s2 l]; use l in \<open>force simp: s2_def\<close>)+
    have n2: "sv_net s2 = sv_net (sa_srv b) @ NetTransport sid # l" using l(1) by (simp add: s1_def s2_def)
    have p2: "send_post env s0 sid Chs s2"
      by (rule keep [OF c2(1) _ n2]) (simp add: s1_def s2_def)
    have "sa_srv a' = s1 \<or> sa_srv a' = s2 \<or> (r = None \<and> sv_net (sa_srv a') = sv_net s2 \<and> sv_reg (sa_srv a') = sv_reg s2
        \<and> sv_heap (sa_srv a') = sv_heap s2
        \<and> trk (sa_srv a') sid = fold (\<lambda>ch. clearDirty (ch_id ch)) (sa_streamChanges b) (trk s2 sid))"
      using f b False sb
      by (auto simp: finishSend_def ln_SessionTransport_def s1_def s2_def Let_def split: option.splits sum.splits)
    then show ?thesis
    proof (elim disjE conjE)
      let ?t = "fold (\<lambda>ch. clearDirty (ch_id ch)) (sa_streamChanges b) (trk s2 sid)"
      assume r: "r = None" and t: "trk (sa_srv a') sid = ?t" and a': "sv_net (sa_srv a') = sv_net s2"
        "sv_reg (sa_srv a') = sv_reg s2" "sv_heap (sa_srv a') = sv_heap s2"
      have ns: "net_since s0 (sa_srv a') = net_since s0 s2" using a' by (simp add: net_since_def)
      have c: "core s0 sid (sa_srv a')" by (rule core_same [OF c2(1)]) (simp_all add: a')
      have "\<exists>f d frames. eventualFrameForChange env s0 ch = Inr (f, True) \<and> ef_stream f = Some d
          \<and> d \<in> set frames \<and> NetSendBatch sid frames True \<in> set (net_since s0 (sa_srv a'))"
        if "ch \<in> set (sa_streamChanges b)" for ch
        using that iv l(3) r c2(2) unfolding ns send_inv_def batches_def by fastforce
      moreover have "sentIn env s0 sid (sa_srv a') ch" if "sentIn env s0 sid (sa_srv b) ch" for ch
        by (rule sentIn_mono [OF that cb, of _ "NetTransport sid # l"])
          (use a' n2 t in \<open>simp_all add: dirty_clear_all(2) s1_def s2_def\<close>)
      moreover have "\<forall>ch \<in> Chs. ch \<in> set (sa_streamChanges b) \<or> sentIn env s0 sid (sa_srv b) ch \<or> nothingToSend env s0 ch"
        using iv np by (simp add: send_inv_def acct_def)
      ultimately show ?thesis
        using c unfolding send_post_def t by blast
    qed (use p1 p2 in simp_all)
  qed
qed

lemma sendChangesLoop_post:
  assumes "send_inv env s0 sid Chs (Suc (length chs)) chs a" "sa_pendingBytes a > 0 \<longleftrightarrow> sa_pendingChanges a \<noteq> []"
    and "cache_ok env s0 cache" and "sendChangesLoop env sid chs cache a = ((stop, a'), cache')"
  shows "send_post env s0 sid Chs (sa_srv a') \<and> cache_ok env s0 cache'"
  using assms
proof (induction chs arbitrary: a cache)
  case Nil
  then show ?case using finishSend_post [of env s0 sid Chs 0 a] by auto
next
  case (Cons ch chs)
  have w: "cache_frame env (sa_srv a) ch cache = cache_frame env s0 ch cache"
  proof -
    have "eventualFrameForChange env (sa_srv a) ch = eventualFrameForChange env s0 ch"
      by (rule frame_cong) (use Cons.prems(1) in \<open>simp_all add: send_inv_def core_def\<close>)
    then show ?thesis by (cases "map_of cache ch") (simp_all add: cache_frame_def)
  qed
  show ?case
  proof (cases "cache_frame env s0 ch cache")
    case (Inl err)
    then show ?thesis using Cons.prems w send_inv_post [OF Cons.prems(1)] by simp
  next
    case (Inr r)
    obtain f live c where r: "r = ((f, live), c)" by (cases r) auto
    note K = cache_frame_ok [OF Cons.prems(3) Inr [unfolded r]]
    obtain st b where p: "placeFrame env sid ch f live a = (st, b)" by fastforce
    note P = placeFrame_inv [OF Cons.prems(1) [simplified] Cons.prems(2) K(1) p]
    show ?thesis
    proof (cases st)
      case None
      then have "sendChangesLoop env sid chs c b = ((stop, a'), cache')" using Cons.prems(4) w Inr r p by simp
      then show ?thesis using Cons.IH [of b c] P(2) [OF None] K(2) by simp
    next
      case (Some x)
      then show ?thesis using Cons.prems(4) w Inr r p P(1) K(2) by simp
    qed
  qed
qed


section \<open>Nothing is lost\<close>

lemma sendResult_srv: "sendResult (stop, a) = (err, st, s) \<Longrightarrow> s = sa_srv a"
  by (simp add: sendResult_def)

lemma trk_inv_dirty:
  assumes "et_inv t"
  shows "inj_on ch_id (set (dirtyChanges t))" "distinct (dirtyChanges t)"
    and "\<And>ch. ch \<in> set (dirtyChanges t) \<Longrightarrow> map_of (et_dirtySet t) (ch_id ch) = Some ch"
proof -
  have "distinct (map ch_id (dirtyChanges t))" using dirtyChanges_ids(1) [OF assms] set_dirtyIDs [OF assms] by simp
  then show "inj_on ch_id (set (dirtyChanges t))" "distinct (dirtyChanges t)" by (simp_all only: distinct_map)
  show "\<And>ch. ch \<in> set (dirtyChanges t) \<Longrightarrow> map_of (et_dirtySet t) (ch_id ch) = Some ch"
    using dirtyChanges_ids(2) [OF assms] by simp
qed

lemma sendEventualState_post:
  assumes inv: "et_inv (trk s sid)" and tok: "tokens_below (trk s sid) (sv_nextEventualToken s) (Suc (length (dirtyChanges (trk s sid))))"
    and c: "cache_ok env s cache" and e: "sendEventualState env sid cache s = ((err, st, s'), cache')"
  shows "send_post env s sid (set (dirtyChanges (trk s sid))) s'"
proof (cases "dirtyChanges (trk s sid) = []")
  case True
  have "core s sid s" by (simp add: core_def net_since_def)
  moreover have "s' = set_trk sid (compactDirtyQueue (trk s sid)) s" using e True by (simp add: sendEventualState_def)
  ultimately show ?thesis using core_same [of s sid s s'] True by (simp add: send_post_def)
next
  case False
  let ?chs = "dirtyChanges (trk s sid)"
  have i: "send_inv env s sid (set ?chs) (Suc (length ?chs)) ?chs (sa_init s)"
    using trk_inv_dirty [OF inv] tok by (simp add: send_inv_def core_def net_since_def batches_def acct_def sa_init_def)
  obtain stop a where l: "sendChangesLoop env sid ?chs cache (sa_init s) = ((stop, a), cache')"
    and s': "s' = set_trk sid (compactDirtyQueue (trk (sa_srv a) sid)) (sa_srv a)"
    using e False by (auto simp: sendEventualState_def sendEventualStateChanges_def sendResult_def Let_def split: prod.splits)
  have p: "send_post env s sid (set ?chs) (sa_srv a)"
    using sendChangesLoop_post [OF i _ c l] by (simp add: sa_init_def)
  have "core s sid s'" by (rule core_same [of s sid "sa_srv a"]) (use p s' in \<open>simp_all add: send_post_def\<close>)
  then show ?thesis
    by (rule send_post_mono [OF p, of _ "[]"]) (simp_all add: s')
qed

text \<open>
  The code's own reasons for a change to have nothing to send, spelled out: the entity is gone,
  or it is a delta that is empty for this recipient, because none of its fields is public or
  because neither encoder of the entity has bytes for it.
\<close>

definition emptyDelta :: "'e srvEnv \<Rightarrow> 'e \<Rightarrow> u64 \<Rightarrow> bool" where
  "emptyDelta env e m \<longleftrightarrow> ei_MarshalDeltaMask (en_ifc env) e m = Inr None
     \<and> (m = 0 \<or> (case ei_MarshalCompactDeltaMask (en_ifc env) e of None \<Rightarrow> True
          | Some f \<Rightarrow> (case f m of Inl _ \<Rightarrow> False | Inr None \<Rightarrow> True
              | Inr (Some c) \<Rightarrow> CompactStateDatagramFramePayloadLen c > EventualStateDatagramPayloadBudget)))"

definition emptyChange :: "'e srvEnv \<Rightarrow> 'e Server \<Rightarrow> eventualStateChange \<Rightarrow> bool" where
  "emptyChange env s ch \<longleftrightarrow>
     (case sv_Get s (ch_id ch) of
        None \<Rightarrow> True
      | Some e \<Rightarrow> \<not> ch_full ch \<and>
          (if ch_public ch
           then ei_PublicReplicationMask (en_ifc env) e (ch_mask ch) = 0
             \<or> emptyDelta env e (ei_PublicReplicationMask (en_ifc env) e (ch_mask ch))
           else emptyDelta env e (ch_mask ch)))"

lemma fullFrame_some: "fullFrame env ch e = Inr f \<Longrightarrow> ef_stream f \<noteq> None"
  by (auto simp: fullFrame_def ef_zero_def split: if_splits option.splits sum.splits)

lemma deltaFrame_empty:
  assumes "deltaFrame env s ch e m = Inr f" and "sv_Get s (ch_id ch) = Some e"
    and "ef_datagram f = None" and "ef_stream f = None"
  shows "emptyDelta env e m"
  using assms
  by (auto simp: deltaFrame_def compactDeltaForMask_def emptyDelta_def ef_zero_def Let_def
      dest: fullFrame_some split: if_splits option.splits sum.splits)

lemma nothingToSend_empty: "nothingToSend env s ch \<Longrightarrow> emptyChange env s ch"
  by (auto simp: nothingToSend_def eventualFrameForChange_def emptyChange_def Let_def
      dest: fullFrame_some deltaFrame_empty split: option.splits if_splits)

text \<open>
  C13.  Sending a session's dirty state loses nothing and respects the datagram budget, whether the send
  goes through, fails, or the session vanishes at any point.  Every change that was dirty is
  afterwards still dirty as it was; or in flight, and so subject to loss feedback, under a token
  that was handed to the listener during this send with a payload that contains the change's
  own frame; or the change's frame was accepted on the reliable stream; or the change itself had
  nothing to send: its entity is gone, or the delta is empty for this recipient.  Every datagram
  handed to the listener is within the budget.  (Tokens are below the counter, which does not
  wrap during the send.)
\<close>

theorem eventual_send_loses_nothing:
  assumes "et_inv (trk s sid)" and "tokens_below (trk s sid) (sv_nextEventualToken s) (Suc (length (dirtyChanges (trk s sid))))"
    and "cache_ok env s cache" and "sendEventualState env sid cache s = ((err, st, s'), cache')"
  shows "(map_of (et_dirtySet (trk s sid)) i = Some ch \<longrightarrow>
      map_of (et_dirtySet (trk s' sid)) i = Some ch
      \<or> (\<exists>k d b. ch \<in> set (flightChanges (et_inFlight (trk s' sid)) k)
           \<and> NetSendEventual sid k d b \<in> set (net_since s s') \<and> datagramCarries env s d ch
           \<and> (b \<or> (\<exists>pre post. sv_net s' = pre @ post \<and> en_isClosing env pre sid)))
      \<or> (\<exists>f d frames. eventualFrameForChange env s ch = Inr (f, True) \<and> ef_stream f = Some d
           \<and> d \<in> set frames \<and> NetSendBatch sid frames True \<in> set (net_since s s'))
      \<or> emptyChange env s ch)
    \<and> (NetSendEventual j k d b \<in> set (net_since s s') \<longrightarrow> length d \<le> EventualStateDatagramPayloadBudget)"
proof (intro conjI impI)
  note P = sendEventualState_post [OF assms]
  show "length d \<le> EventualStateDatagramPayloadBudget" if "NetSendEventual j k d b \<in> set (net_since s s')"
    using P that by (auto simp: send_post_def core_def)
  assume ch: "map_of (et_dirtySet (trk s sid)) i = Some ch"
  have i: "ch_id ch = i" using ch assms(1) by (simp add: et_inv_def)
  then have "ch \<in> set (dirtyChanges (trk s sid))" using ch dirtyChanges_ids(2) [OF assms(1)] by simp
  then have "map_of (et_dirtySet (trk s' sid)) (ch_id ch) = Some ch \<or> sentIn env s sid s' ch \<or> nothingToSend env s ch
      \<or> (\<exists>f d frames. eventualFrameForChange env s ch = Inr (f, True) \<and> ef_stream f = Some d
               \<and> d \<in> set frames \<and> NetSendBatch sid frames True \<in> set (net_since s s'))"
    using P unfolding send_post_def by blast
  then show "map_of (et_dirtySet (trk s' sid)) i = Some ch
      \<or> (\<exists>k d b. ch \<in> set (flightChanges (et_inFlight (trk s' sid)) k)
           \<and> NetSendEventual sid k d b \<in> set (net_since s s') \<and> datagramCarries env s d ch
           \<and> (b \<or> (\<exists>pre post. sv_net s' = pre @ post \<and> en_isClosing env pre sid)))
      \<or> (\<exists>f d frames. eventualFrameForChange env s ch = Inr (f, True) \<and> ef_stream f = Some d
           \<and> d \<in> set frames \<and> NetSendBatch sid frames True \<in> set (net_since s s'))
      \<or> emptyChange env s ch"
    using i nothingToSend_empty unfolding sentIn_def by metis
qed


section \<open>Example\<close>

text \<open>One WebTransport session, one entity with a compact delta.\<close>

definition demoEnv :: "demoEntity srvEnv" where
  "demoEnv = \<lparr>en_ifc = demoIface\<lparr>ei_MarshalCompactDeltaMask := (\<lambda>_. Some (\<lambda>_. Inr (Some [7])))\<rparr>,
     en_Transport = TransportWebTransport, en_StateUpdateLane = StateUpdateLaneDatagram,
     en_removalSerializer = Some (\<lambda>i v. Inr [1]), en_sessions = (\<lambda>_. [(1, TransportWebTransport)]),
     en_protocol = (\<lambda>_. True), en_isClosing = (\<lambda>_ _. False), en_ordEntities = map fst, en_ordIDs = map fst,
     en_ordRefresh = map fst, en_ordChanges = map fst, en_ordFlight = map fst\<rparr>"

definition demoServer :: "demoEntity Server" where
  "demoServer = \<lparr>sv_idCounter = 2, sv_reg = demoRegistry, sv_heap = demoHeap, sv_visibility = NewManager,
     sv_broadcastKnown = [], sv_ownershipRefresh = [],
     sv_eventualTrackers = [(1, markDirtyMask 2 4 newEventualStateTracker)], sv_nextEventualToken = 0,
     sv_sessionAvatar = [], sv_avatarSession = [], sv_net = [], sv_tick = 1,
     sv_stats = \<lparr>rs_LastTick = 0, rs_DeltasFlushed = 0, rs_StreamBatchedFrames = 0, rs_StreamWireMsgs = 0,
       rs_DatagramBatchedFrames = 0, rs_DatagramWirePayloads = 0\<rparr>\<rparr>"

lemma demo_trk:
  "trk demoServer 1 = \<lparr>et_dirtySet = [(2, \<lparr>ch_id = 2, ch_mask = 4, ch_full = False, ch_public = False\<rparr>)],
     et_dirtyQueue = [2], et_inFlight = [], et_inFlightFree = []\<rparr>"
  by (simp add: trk_def eventualTracker_def demoServer_def markDirtyMask_def markDirtyChange_def ch_zero_def
      newEventualStateTracker_def)

theorem eventual_send_loses_nothing_witness:
  "\<exists>err st s' cache'. sendEventualState demoEnv 1 [] demoServer = ((err, st, s'), cache')
     \<and> (map_of (et_dirtySet (trk s' 1)) 2 = Some (ch_zero\<lparr>ch_id := 2, ch_mask := 4\<rparr>)
        \<or> (\<exists>k d b. ch_zero\<lparr>ch_id := 2, ch_mask := 4\<rparr> \<in> set (flightChanges (et_inFlight (trk s' 1)) k)
             \<and> NetSendEventual 1 k d b \<in> set (net_since demoServer s')))"
proof -
  let ?ch = "ch_zero\<lparr>ch_id := 2, ch_mask := 4\<rparr>"
  obtain err st s' cache' where e: "sendEventualState demoEnv 1 [] demoServer = ((err, st, s'), cache')"
    by (metis prod.exhaust)
  have i: "et_inv (trk demoServer 1)" by (simp add: demo_trk et_inv_def gm_keys_def)
  have t: "tokens_below (trk demoServer 1) (sv_nextEventualToken demoServer) (Suc (length (dirtyChanges (trk demoServer 1))))"
    unfolding demo_trk by (simp add: tokens_below_def dirtyChanges_def demoServer_def List.map_filter_simps)
  have p: "map_of (et_dirtySet (trk demoServer 1)) 2 = Some ?ch" by (simp add: demo_trk ch_zero_def)
  obtain en where en: "sv_Get demoServer 2 = Some en"
    by (simp add: demoServer_def sv_Get_def demoRegistry_def demoHeap_def reg_Get_def)
  have "\<not> emptyChange demoEnv demoServer ?ch"
    by (simp add: emptyChange_def emptyDelta_def en ch_zero_def demoEnv_def demoIface_def compact_len
        EventualStateDatagramPayloadBudget_def)
  moreover have "\<not> (eventualFrameForChange demoEnv demoServer ?ch = Inr (f, True) \<and> ef_stream f = Some d)" for f d
    by (auto simp: eventualFrameForChange_def deltaFrame_def compactDeltaForMask_def en ch_zero_def demoEnv_def
        demoIface_def compact_len ef_zero_def Let_def EventualStateDatagramPayloadBudget_def)
  ultimately show ?thesis
    using e mp [OF conjunct1 [OF eventual_send_loses_nothing [OF i t cache_ok_Nil e]] p] by blast
qed

end
