(* ===== verification/Replication_Safety.thy ===== *)
theory Replication_Safety
  imports Broadcast Eventual_Delivery
begin

text \<open>
  The known sets of broadcast mode (\<^verbatim>\<open>computeBroadcastDiff\<close> of \<^verbatim>\<open>golem/loop.go\<close>) follow the
  visibility policy exactly.
\<close>

section \<open>Enter, stay, exit\<close>

definition iter_ok :: "'e srvEnv \<Rightarrow> bool" where
  "iter_ok env \<longleftrightarrow> (\<forall>m. gm_wf m \<longrightarrow> iter_order (en_ordIDs env m) m)"

lemma broadcastDesired_keys:
  "gm_wf d \<Longrightarrow> gm_wf (broadcastDesired vis sid ids d)
     \<and> gm_keys (broadcastDesired vis sid ids d) = gm_keys d \<union> {i \<in> set ids. Allows vis sid i}"
  by (induction ids arbitrary: d) auto

lemma diffEnter_spec:
  assumes "distinct ids" "gm_wf known" "diffEnter ids known en st = ((en', st'), known')"
  shows "en' = en @ filter (\<lambda>i. i \<notin> gm_keys known) ids" "st' = st @ filter (\<lambda>i. i \<in> gm_keys known) ids"
    "gm_wf known'" "gm_keys known' = gm_keys known \<union> set ids"
proof -
  have "en' = en @ filter (\<lambda>i. i \<notin> gm_keys known) ids \<and> st' = st @ filter (\<lambda>i. i \<in> gm_keys known) ids
      \<and> gm_wf known' \<and> gm_keys known' = gm_keys known \<union> set ids"
    using assms
  proof (induction ids arbitrary: known en st)
    case (Cons i ids)
    have c: "filter (\<lambda>j. j \<notin> insert i (gm_keys known)) ids = filter (\<lambda>j. j \<notin> gm_keys known) ids"
      "filter (\<lambda>j. j \<in> insert i (gm_keys known)) ids = filter (\<lambda>j. j \<in> gm_keys known) ids"
      using Cons.prems(1) by (auto intro!: filter_cong)
    show ?case
    proof (cases "i \<in> gm_keys known")
      case True
      then have "map_of known i \<noteq> None" by (simp add: gm_keys_None)
      then show ?thesis using Cons.IH [of known en "st @ [i]"] Cons.prems True by (auto simp: insert_absorb)
    next
      case False
      then have "map_of known i = None" by (simp add: gm_keys_None)
      then show ?thesis using Cons.IH [of "AList.update i () known" "en @ [i]" st] Cons.prems False c by auto
    qed
  qed simp
  then show "en' = en @ filter (\<lambda>i. i \<notin> gm_keys known) ids" "st' = st @ filter (\<lambda>i. i \<in> gm_keys known) ids"
    "gm_wf known'" "gm_keys known' = gm_keys known \<union> set ids" by blast+
qed

lemma diffExit_spec:
  assumes "gm_wf known" "diffExit ids desired known ex = (ex', known')"
  shows "ex' = ex @ filter (\<lambda>i. i \<notin> gm_keys desired) ids" "gm_wf known'"
    "gm_keys known' = gm_keys known - {i \<in> set ids. i \<notin> gm_keys desired}"
proof -
  have "ex' = ex @ filter (\<lambda>i. i \<notin> gm_keys desired) ids \<and> gm_wf known'
      \<and> gm_keys known' = gm_keys known - {i \<in> set ids. i \<notin> gm_keys desired}"
    using assms
  proof (induction ids arbitrary: known ex)
    case (Cons i ids)
    then show ?case
      using Cons.IH [of "AList.delete i known" "ex @ [i]"] Cons.IH [of known ex]
      by (auto simp: gm_keys_None split: if_splits)
  qed simp
  then show "ex' = ex @ filter (\<lambda>i. i \<notin> gm_keys desired) ids" "gm_wf known'"
    "gm_keys known' = gm_keys known - {i \<in> set ids. i \<notin> gm_keys desired}" by blast+
qed

lemma computeBroadcastDiff_spec:
  assumes "iter_ok env" and "gm_wf (knownOf s sid)"
    and "computeBroadcastDiff env sid live s = ((entered, stayed, exited), s')"
  shows "gm_keys (knownOf s' sid) = {i \<in> set live. Allows (sv_visibility s) sid i}" and "gm_wf (knownOf s' sid)"
    and "set entered = gm_keys (knownOf s' sid) - gm_keys (knownOf s sid)"
    and "set stayed = gm_keys (knownOf s' sid) \<inter> gm_keys (knownOf s sid)"
    and "set exited = gm_keys (knownOf s sid) - gm_keys (knownOf s' sid)"
    and "distinct entered \<and> distinct stayed \<and> distinct exited"
    and "s' = s\<lparr>sv_broadcastKnown := AList.update sid (knownOf s' sid) (sv_broadcastKnown s)\<rparr>"
proof -
  let ?vis = "{i \<in> set live. Allows (sv_visibility s) sid i}"
  define d where "d = broadcastDesired (sv_visibility s) sid live []"
  have d: "gm_wf d" "gm_keys d = ?vis" using broadcastDesired_keys [of "[]" "sv_visibility s" sid live] by (simp_all add: d_def)
  obtain k1 where e: "diffEnter (en_ordIDs env d) (knownOf s sid) [] [] = ((entered, stayed), k1)"
    and x: "diffExit (en_ordIDs env k1) d k1 [] = (exited, knownOf s' sid)"
    and s': "s' = s\<lparr>sv_broadcastKnown := AList.update sid (knownOf s' sid) (sv_broadcastKnown s)\<rparr>"
    using assms(3) by (auto simp: computeBroadcastDiff_def knownOf_def d_def Let_def split: prod.splits)
  have od: "distinct (en_ordIDs env d)" "set (en_ordIDs env d) = ?vis"
    using assms(1) d by (auto simp: iter_ok_def iter_order_def)
  note E = diffEnter_spec [OF od(1) assms(2) e]
  have ok: "distinct (en_ordIDs env k1)" "set (en_ordIDs env k1) = gm_keys k1"
    using assms(1) E(3) by (auto simp: iter_ok_def iter_order_def)
  note X = diffExit_spec [OF E(3) x]
  show K: "gm_keys (knownOf s' sid) = ?vis" using X(2,3) E(4) ok(2) od(2) d(2) by auto
  show "gm_wf (knownOf s' sid)" by (rule X(2))
  show "set entered = gm_keys (knownOf s' sid) - gm_keys (knownOf s sid)" using E(1) od K by auto
  show "set stayed = gm_keys (knownOf s' sid) \<inter> gm_keys (knownOf s sid)" using E(2) od K by auto
  show "set exited = gm_keys (knownOf s sid) - gm_keys (knownOf s' sid)" using X(1) E(4) ok od d K by auto
  show "distinct entered \<and> distinct stayed \<and> distinct exited" using E(1,2) X(1) od ok by simp
  show "s' = s\<lparr>sv_broadcastKnown := AList.update sid (knownOf s' sid) (sv_broadcastKnown s)\<rparr>" by (rule s')
qed

lemma knownOf_other:
  "s' = s\<lparr>sv_broadcastKnown := AList.update sid k (sv_broadcastKnown s)\<rparr> \<Longrightarrow> j \<noteq> sid \<Longrightarrow> knownOf s' j = knownOf s j"
  by (simp add: knownOf_def)

text \<open>
  C12.  A session's known set becomes exactly the live entities its visibility policy allows, and the
  three lists say precisely how: entered are those it did not know, stayed those it knew, exited
  those it knew and may no longer see or that are gone; nothing is listed twice, and no other
  session is affected.  This holds for every order in which the runtime visits the maps.
\<close>

theorem broadcast_diff_exact:
  assumes "iter_ok env" and "gm_wf (knownOf s sid)"
    and "computeBroadcastDiff env sid live s = ((entered, stayed, exited), s')"
  shows "gm_keys (knownOf s' sid) = {i \<in> set live. Allows (sv_visibility s) sid i} \<and> gm_wf (knownOf s' sid)
    \<and> set entered = gm_keys (knownOf s' sid) - gm_keys (knownOf s sid)
    \<and> set stayed = gm_keys (knownOf s' sid) \<inter> gm_keys (knownOf s sid)
    \<and> set exited = gm_keys (knownOf s sid) - gm_keys (knownOf s' sid)
    \<and> distinct entered \<and> distinct stayed \<and> distinct exited
    \<and> (\<forall>j. j \<noteq> sid \<longrightarrow> knownOf s' j = knownOf s j)"
  using computeBroadcastDiff_spec [OF assms] knownOf_other by blast

lemma demo_iter_ok: "iter_ok demoEnv"
  by (auto simp: iter_ok_def iter_order_def demoEnv_def gm_wf_def gm_keys_def)

theorem broadcast_diff_exact_witness:
  "\<exists>en st ex s'. computeBroadcastDiff demoEnv 1 [2, 4] (commitBroadcastSnapshotKnown 1 [2, 3] demoServer) = ((en, st, ex), s')
     \<and> set en = {4} \<and> set st = {2} \<and> set ex = {3}"
proof -
  let ?s = "commitBroadcastSnapshotKnown 1 [2, 3] demoServer"
  obtain en st ex s' where c: "computeBroadcastDiff demoEnv 1 [2, 4] ?s = ((en, st, ex), s')" by (metis prod.exhaust)
  have k: "knownOf ?s 1 = [(2, ()), (3, ())]"
    by (simp add: commitBroadcastSnapshotKnown_def knownOf_def demoServer_def)
  have w: "gm_wf (knownOf ?s 1)" by (simp add: k gm_keys_def)
  note B = broadcast_diff_exact [OF demo_iter_ok w c]
  have "Allows (sv_visibility ?s) 1 i" for i
    by (simp add: commitBroadcastSnapshotKnown_def demoServer_def NewManager_def Allows_def)
  then have "gm_keys (knownOf s' 1) = {2, 4}" using B by auto
  then show ?thesis using B c by (auto simp: k gm_keys_def)
qed

end
