(* ===== verification/Confidentiality.thy ===== *)
theory Confidentiality
  imports Replication_Safety
begin

text \<open>
  What a session can be given in broadcast mode.  The frames the filtered path builds for a
  session are about entities its visibility policy allows, and carry the authoritative state of
  an owner-scoped entity only when the session owns it; everybody else gets the public
  projection.  A whole filtered tick keeps to this; \<^verbatim>\<open>Ownership_Transfer\<close> has the interleavings in
  which the code gives more.
\<close>

section \<open>Permitted frames\<close>

definition authFrames :: "'e srvEnv \<Rightarrow> tickData \<Rightarrow> 'e Server \<Rightarrow> int64 \<Rightarrow> bytes set" where
  "authFrames env td s i =
     {ln_Wrap raw | raw. map_of (td_spawnData td) i = Some raw}
     \<union> {ln_Wrap (Some d) | d. map_of (td_deltaData td) i = Some d}
     \<union> {ln_Wrap raw | raw e. sv_Get s i = Some e \<and> ei_FullUpdate (en_ifc env) e = Inr raw}"

definition publicFrames :: "'e srvEnv \<Rightarrow> 'e Server \<Rightarrow> int64 \<Rightarrow> bytes set" where
  "publicFrames env s i =
     {ln_Wrap raw | raw e. sv_Get s i = Some e \<and> ei_PublicFullUpdate (en_ifc env) e = Some (Inr raw)}
     \<union> {ln_Wrap (Some raw) | raw e m. sv_Get s i = Some e \<and> ei_LastFlushMask (en_ifc env) e = Some m
          \<and> ei_MarshalDeltaMask (en_ifc env) e (ei_PublicReplicationMask (en_ifc env) e m) = Inr (Some raw)}"

definition removalNotices :: "'e srvEnv \<Rightarrow> bytes set" where
  "removalNotices env =
     {ln_Wrap (Some d) | d ser i revision. en_removalSerializer env = Some ser \<and> ser i revision = Inr d}"

text \<open>The session may see all of the entity: it is not owner-scoped, or the session owns it.\<close>

definition fullAccess :: "'e srvEnv \<Rightarrow> 'e Server \<Rightarrow> int64 \<Rightarrow> int64 \<Rightarrow> bool" where
  "fullAccess env s sid i \<longleftrightarrow>
     (\<forall>e. sv_Get s i = Some e \<and> entityIsOwnerScoped env e \<longrightarrow> sessionOwnsEntity s sid i)"

definition mayReceive :: "'e srvEnv \<Rightarrow> tickData \<Rightarrow> 'e Server \<Rightarrow> int64 list \<Rightarrow> int64 \<Rightarrow> bytes \<Rightarrow> bool" where
  "mayReceive env td s live sid w \<longleftrightarrow>
     w \<in> removalNotices env
     \<or> (\<exists>i \<in> set live. Allows (sv_visibility s) sid i
          \<and> (w \<in> publicFrames env s i \<or> w \<in> authFrames env td s i \<and> fullAccess env s sid i))"

text \<open>A change that tells the eventual-state sender to redact, unless the session may see all.\<close>

definition changeRedacted :: "'e srvEnv \<Rightarrow> 'e Server \<Rightarrow> int64 \<Rightarrow> eventualStateChange \<Rightarrow> bool" where
  "changeRedacted env s sid ch \<longleftrightarrow> ch_public ch \<or> fullAccess env s sid (ch_id ch)"

text \<open>A pending grant of an owner-scoped entity names its current owner.\<close>

definition refreshCurrent :: "'e srvEnv \<Rightarrow> 'e Server \<Rightarrow> (int64, ownershipRefresh) gomap \<Rightarrow> bool" where
  "refreshCurrent env s pending \<longleftrightarrow>
     (\<forall>i r e. map_of pending i = Some r \<and> rf_newOwner r \<noteq> 0 \<and> sv_Get s i = Some e \<and> entityIsOwnerScoped env e
        \<longrightarrow> reg_Owner (sv_reg s) i = Some (rf_newOwner r))"

section \<open>The caches of a tick\<close>

definition sameWorld :: "'e Server \<Rightarrow> 'e Server \<Rightarrow> bool" where
  "sameWorld s s' \<longleftrightarrow> sv_reg s' = sv_reg s \<and> sv_heap s' = sv_heap s \<and> sv_visibility s' = sv_visibility s"

definition cachesOK :: "'e srvEnv \<Rightarrow> tickData \<Rightarrow> 'e Server \<Rightarrow> 'e frameState \<Rightarrow> bool" where
  "cachesOK env td s f \<longleftrightarrow>
     (\<forall>i w. (map_of (fs_full f) i = Some w \<longrightarrow> w \<in> authFrames env td s i)
          \<and> (map_of (fs_deltas f) i = Some w \<longrightarrow> w \<in> authFrames env td s i)
          \<and> (map_of (fs_publicFull f) i = Some w \<longrightarrow> w \<in> publicFrames env s i)
          \<and> (map_of (fs_publicDelta f) i = Some (Some w) \<longrightarrow> w \<in> publicFrames env s i)
          \<and> (map_of (fs_removals f) i = Some w \<longrightarrow> w \<in> removalNotices env))"

definition framesOK :: "'e srvEnv \<Rightarrow> tickData \<Rightarrow> 'e Server \<Rightarrow> int64 list \<Rightarrow> int64 \<Rightarrow> 'e frameState \<Rightarrow> bool" where
  "framesOK env td s live sid f \<longleftrightarrow>
     sameWorld s (fs_srv f) \<and> cachesOK env td s f \<and> (\<forall>w \<in> set (fs_stream f). mayReceive env td s live sid w)
     \<and> (\<forall>ch \<in> set (fs_dirty f). changeRedacted env s sid ch)"

lemma sameWorld_refl [simp]: "sameWorld s s"
  by (simp add: sameWorld_def)

lemma sameWorld_trans: "sameWorld a b \<Longrightarrow> sameWorld b c \<Longrightarrow> sameWorld a c"
  by (simp add: sameWorld_def)

lemma sameWorld_view:
  assumes "sameWorld s s'"
  shows "sv_Get s' = sv_Get s" "sessionOwnsEntity s' = sessionOwnsEntity s" "sv_visibility s' = sv_visibility s"
  using assms by (simp_all add: sameWorld_def sv_Get_def [abs_def] sessionOwnsEntity_def [abs_def])

lemma clearEventualEntity_world [simp]: "sameWorld s (clearEventualEntity env sid i s)"
  by (simp add: sameWorld_def clearEventualEntity_def set_trk_def split: option.splits)

lemma framesOK_clear [simp]:
  "framesOK env td s live sid (f\<lparr>fs_srv := clearEventualEntity env sid i (fs_srv f)\<rparr>) = framesOK env td s live sid f"
proof -
  have "sameWorld s (clearEventualEntity env sid i (fs_srv f)) = sameWorld s (fs_srv f)"
    using clearEventualEntity_world [of "fs_srv f" env sid i] by (auto simp: sameWorld_def)
  then show ?thesis by (simp add: framesOK_def cachesOK_def)
qed

lemma mayReceive_auth:
  "i \<in> set live \<Longrightarrow> Allows (sv_visibility s) sid i \<Longrightarrow> w \<in> authFrames env td s i \<Longrightarrow> fullAccess env s sid i
     \<Longrightarrow> mayReceive env td s live sid w"
  by (auto simp: mayReceive_def)

lemma mayReceive_public:
  "i \<in> set live \<Longrightarrow> Allows (sv_visibility s) sid i \<Longrightarrow> w \<in> publicFrames env s i \<Longrightarrow> mayReceive env td s live sid w"
  by (auto simp: mayReceive_def)

lemma publicFull_frame:
  "sv_Get s i = Some e \<Longrightarrow> ei_PublicFullUpdate (en_ifc env) e = Some (Inr raw) \<Longrightarrow> ln_Wrap raw \<in> publicFrames env s i"
  by (auto simp: publicFrames_def)

lemma full_frame:
  "sv_Get s i = Some e \<Longrightarrow> ei_FullUpdate (en_ifc env) e = Inr raw \<Longrightarrow> ln_Wrap raw \<in> authFrames env td s i"
  by (auto simp: authFrames_def)

lemma spawn_frame: "map_of (td_spawnData td) i = Some raw \<Longrightarrow> ln_Wrap raw \<in> authFrames env td s i"
  by (auto simp: authFrames_def)

lemma delta_frame: "map_of (td_deltaData td) i = Some d \<Longrightarrow> ln_Wrap (Some d) \<in> authFrames env td s i"
  by (auto simp: authFrames_def)

lemma publicDelta_frame:
  "sv_Get s i = Some e \<Longrightarrow> ei_LastFlushMask (en_ifc env) e = Some m
     \<Longrightarrow> ei_MarshalDeltaMask (en_ifc env) e (ei_PublicReplicationMask (en_ifc env) e m) = Inr (Some raw)
     \<Longrightarrow> ln_Wrap (Some raw) \<in> publicFrames env s i"
  by (auto simp: publicFrames_def)

section \<open>Building the frames of a session\<close>

text \<open>A full frame for a session, whether it enters, respawns or stays.\<close>

lemma wrappedFull_ok:
  assumes ok: "framesOK env td s live sid f" and i: "i \<in> set live" "Allows (sv_visibility s) sid i"
    and r: "wrappedFullForSession env (fs_srv f) sid i (td_spawnData td) (fs_full f) (fs_publicFull f) = Inr (w, full, pub)"
  shows "framesOK env td s live sid (f\<lparr>fs_full := full, fs_publicFull := pub,
           fs_stream := fs_stream f @ (case w of None \<Rightarrow> [] | Some d \<Rightarrow> [d])\<rparr>)"
proof -
  note c = ok [unfolded framesOK_def cachesOK_def]
  note v = sameWorld_view [OF conjunct1 [OF c]]
  show ?thesis
  proof (cases "sv_Get s i")
    case None
    then show ?thesis using r c by (simp add: wrappedFullForSession_def v framesOK_def cachesOK_def)
  next
    case (Some e)
    show ?thesis
    proof (cases "entityIsOwnerScoped env e \<and> \<not> sessionOwnsEntity s sid i")
      case True
      then obtain p where p: "ei_PublicFullUpdate (en_ifc env) e = Some p" by (auto simp: entityIsOwnerScoped_def)
      then obtain d where d: "w = Some d" "full = fs_full f" "d \<in> publicFrames env s i"
        "pub = fs_publicFull f \<or> pub = AList.update i d (fs_publicFull f)"
        using r True Some c publicFull_frame [OF Some]
        by (cases "map_of (fs_publicFull f) i") (simp_all add: wrappedFullForSession_def v split: sum.splits, metis+)
      then show ?thesis using c mayReceive_public [OF i d(3)] by (auto simp: framesOK_def cachesOK_def split: if_splits)
    next
      case False
      then have acc: "fullAccess env s sid i" using Some by (auto simp: fullAccess_def)
      have "wrappedAuthFull env e i (td_spawnData td) (fs_full f) (fs_publicFull f) = Inr (w, full, pub)"
        using r False Some by (auto simp: wrappedFullForSession_def v entityIsOwnerScoped_def split: option.splits)
      then obtain d where d: "w = Some d" "pub = fs_publicFull f" "d \<in> authFrames env td s i"
        "full = fs_full f \<or> full = AList.update i d (fs_full f)"
        using c full_frame [OF Some] spawn_frame [of td i _ env s]
        by (cases "map_of (fs_full f) i") (simp_all add: wrappedAuthFull_def split: option.splits sum.splits, metis+)
      then show ?thesis using c mayReceive_auth [OF i d(3) acc] by (auto simp: framesOK_def cachesOK_def split: if_splits)
    qed
  qed
qed

lemma streamDelta_ok:
  assumes ok: "framesOK env td s live sid f" and i: "i \<in> set live" "Allows (sv_visibility s) sid i"
    and a: "map_of (td_deltaData td) i = Some authDelta"
    and r: "streamDeltaForSession env (fs_srv f) sid i authDelta (fs_deltas f) (fs_publicDelta f) = Inr (w, auth, pub)"
  shows "framesOK env td s live sid (f\<lparr>fs_deltas := auth, fs_publicDelta := pub,
           fs_stream := fs_stream f @ (case w of None \<Rightarrow> [] | Some d \<Rightarrow> [d])\<rparr>)"
proof -
  note c = ok [unfolded framesOK_def cachesOK_def]
  note v = sameWorld_view [OF conjunct1 [OF c]]
  show ?thesis
  proof (cases "sv_Get s i")
    case None
    then show ?thesis using r c by (simp add: streamDeltaForSession_def v framesOK_def cachesOK_def)
  next
    case (Some e)
    show ?thesis
    proof (cases "entityIsOwnerScoped env e \<and> \<not> sessionOwnsEntity s sid i")
      case True
      have "auth = fs_deltas f \<and> (\<forall>d. w = Some d \<longrightarrow> d \<in> publicFrames env s i)
          \<and> (pub = fs_publicDelta f \<or> pub = AList.update i w (fs_publicDelta f))"
        using r True Some c publicFull_frame [OF Some, of env] publicDelta_frame [OF Some, of env]
        by (cases "map_of (fs_publicDelta f) i")
          (auto simp: streamDeltaForSession_def v Let_def split: option.splits sum.splits if_splits)
      then show ?thesis using c mayReceive_public [OF i, of _ env td]
        by (auto simp: framesOK_def cachesOK_def split: if_splits option.splits)
    next
      case False
      then have acc: "fullAccess env s sid i" using Some by (auto simp: fullAccess_def)
      have "pub = fs_publicDelta f \<and> (\<exists>d. w = Some d \<and> d \<in> authFrames env td s i
          \<and> (auth = fs_deltas f \<or> auth = AList.update i d (fs_deltas f)))"
        using r False Some c delta_frame [OF a, of env s]
        by (cases "map_of (fs_deltas f) i") (simp_all add: streamDeltaForSession_def v Let_def, metis+)
      then show ?thesis using c mayReceive_auth [OF i _ acc, of _ td]
        by (auto simp: framesOK_def cachesOK_def split: if_splits)
    qed
  qed
qed

text \<open>On the datagram lane the change is replaced by a public one, or dropped.\<close>

lemma changeForSession_redacted:
  assumes "eventualChangeForSession env s sid ch = (sch, True)"
  shows "changeRedacted env s sid sch" and "ch_id sch = ch_id ch"
  using assms by (auto simp: eventualChangeForSession_def changeRedacted_def fullAccess_def Let_def
      split: option.splits if_splits)

lemma changeForSession_world:
  "sameWorld s s' \<Longrightarrow> eventualChangeForSession env s' sid ch = eventualChangeForSession env s sid ch"
  by (frule sameWorld_view(1), drule sameWorld_view(2)) (simp add: eventualChangeForSession_def split: option.split)

lemma stayDelta_ok:
  assumes ok: "framesOK env td s live sid f" and i: "i \<in> set live" "Allows (sv_visibility s) sid i"
    and a: "map_of (td_deltaData td) i = Some authDelta"
    and r: "stayDelta env td sid dg i authDelta f = Inr f'"
  shows "framesOK env td s live sid f'"
proof (cases dg)
  case True
  have w: "sameWorld s (fs_srv f)" using ok by (simp add: framesOK_def)
  show ?thesis
    using True r ok changeForSession_redacted(1)
    by (auto simp: stayDelta_def framesOK_def cachesOK_def changeForSession_world [OF w]
        split: option.splits prod.splits if_splits)
next
  case False
  then show ?thesis using r streamDelta_ok [OF ok i a] by (auto simp: stayDelta_def)
qed

lemma enterLoop_ok:
  assumes "framesOK env td s live sid f" "\<forall>i \<in> set is. i \<in> set live \<and> Allows (sv_visibility s) sid i"
    and "enterLoop env td sid dg is f = Inr f'"
  shows "framesOK env td s live sid f'"
  using assms
proof (induction "is" arbitrary: f)
  case (Cons i "is")
  define g where "g = (if dg then f\<lparr>fs_srv := clearEventualEntity env sid i (fs_srv f)\<rparr> else f)"
  have g: "framesOK env td s live sid g" using Cons.prems(1) by (simp add: g_def)
  obtain w full pub where w: "wrappedFullForSession env (fs_srv g) sid i (td_spawnData td) (fs_full g) (fs_publicFull g) = Inr (w, full, pub)"
    and r: "enterLoop env td sid dg is (g\<lparr>fs_full := full, fs_publicFull := pub,
              fs_stream := fs_stream g @ (case w of None \<Rightarrow> [] | Some d \<Rightarrow> [d])\<rparr>) = Inr f'"
    using Cons.prems(3) by (auto simp: Let_def g_def [symmetric])
  show ?case by (rule Cons.IH [OF wrappedFull_ok [OF g _ _ w] _ r]) (use Cons.prems(2) in simp_all)
qed simp

lemma stayLoop_ok:
  assumes "framesOK env td s live sid f" "\<forall>i \<in> set is. i \<in> set live \<and> Allows (sv_visibility s) sid i"
    and "stayLoop env td sid dg is f = Inr f'"
  shows "framesOK env td s live sid f'"
  using assms
proof (induction "is" arbitrary: f)
  case (Cons i "is")
  have i: "i \<in> set live" "Allows (sv_visibility s) sid i" using Cons.prems(2) by simp_all
  obtain g where g: "(case map_of (td_deltaData td) i of None \<Rightarrow> Inr f | Some d \<Rightarrow> stayDelta env td sid dg i d f) = Inr g"
    and r: "res_bind (if map_of (td_spawnData td) i = None then Inr g
           else res_bind (wrappedFullForSession env (fs_srv g) sid i (td_spawnData td) (fs_full g) (fs_publicFull g))
               (\<lambda>(w, full, pub). Inr (g\<lparr>fs_full := full, fs_publicFull := pub,
                        fs_stream := fs_stream g @ (case w of None \<Rightarrow> [] | Some d \<Rightarrow> [d])\<rparr>)))
          (stayLoop env td sid dg is) = Inr f'"
    using Cons.prems(3) by auto
  have g': "framesOK env td s live sid g"
    using g Cons.prems(1) stayDelta_ok [OF Cons.prems(1) i] by (auto split: option.splits)
  obtain h where "framesOK env td s live sid h" "stayLoop env td sid dg is h = Inr f'"
    using r g' wrappedFull_ok [OF g' i] by (auto split: if_splits)
  then show ?case using Cons.IH Cons.prems(2) by simp
qed simp

lemma exitLoop_ok:
  assumes "framesOK env td s live sid f" and "exitLoop env sid dg is f = Inr f'"
  shows "framesOK env td s live sid f'"
  using assms
proof (induction "is" arbitrary: f)
  case (Cons i "is")
  define g where "g = (if dg then f\<lparr>fs_srv := clearEventualEntity env sid i (fs_srv f)\<rparr> else f)"
  have g: "framesOK env td s live sid g" using Cons.prems(1) by (simp add: g_def)
  note r = Cons.prems(2) [simplified, folded g_def, unfolded Let_def]
  have step: "framesOK env td s live sid (g\<lparr>fs_stream := fs_stream g @ [w]\<rparr>)" if "w \<in> removalNotices env" for w
    using g that by (auto simp: framesOK_def cachesOK_def mayReceive_def)
  have step2: "framesOK env td s live sid (g\<lparr>fs_removals := AList.update i w (fs_removals g), fs_stream := fs_stream g @ [w]\<rparr>)"
    if "w \<in> removalNotices env" for w
    using step [OF that] that by (auto simp: framesOK_def cachesOK_def split: if_splits)
  show ?case
  proof (cases "map_of (fs_removals g) i")
    case (Some w)
    then have "w \<in> removalNotices env" using g by (auto simp: framesOK_def cachesOK_def)
    then show ?thesis using r Some Cons.IH [OF step] by simp
  next
    case None
    then obtain ser d rev where d: "en_removalSerializer env = Some ser" "ser i rev = Inr d"
      and e: "exitLoop env sid dg is (g\<lparr>fs_removals := AList.update i (ln_Wrap (Some d)) (fs_removals g),
                fs_stream := fs_stream g @ [ln_Wrap (Some d)]\<rparr>) = Inr f'"
      using r by (auto split: option.splits sum.splits)
    have "ln_Wrap (Some d) \<in> removalNotices env" using d by (auto simp: removalNotices_def)
    then show ?thesis using Cons.IH [OF step2 e] by simp
  qed
qed simp

lemma refreshClear_world:
  "refreshClear env sid i pub c s = Inr (w, c', s') \<Longrightarrow> s' = clearEventualEntity env sid i s"
  by (auto simp: refreshClear_def Let_def split: option.splits sum.splits)

lemma refreshGrant_world:
  "refreshGrant env sid i e c s = Inr (w, c', s') \<Longrightarrow> s' = clearEventualEntity env sid i s"
  by (auto simp: refreshGrant_def Let_def split: option.splits sum.splits)

lemma refreshClear_ok:
  assumes ok: "framesOK env td s live sid f" and i: "i \<in> set live" "Allows (sv_visibility s) sid i"
    and e: "sv_Get s i = Some e" "ei_PublicFullUpdate (en_ifc env) e = Some pub"
    and r: "refreshClear env sid i pub (fs_publicFull f) (fs_srv f) = Inr (w, c, s')"
  shows "framesOK env td s live sid (f\<lparr>fs_srv := s', fs_publicFull := c, fs_stream := fs_stream f @ [w]\<rparr>)"
proof -
  have g: "framesOK env td s live sid (f\<lparr>fs_srv := s'\<rparr>)" using ok by (simp add: refreshClear_world [OF r])
  have "w \<in> publicFrames env s i \<and> (c = fs_publicFull f \<or> c = AList.update i w (fs_publicFull f))"
    using r ok e publicFull_frame [OF e(1), of env]
    by (cases "map_of (fs_publicFull f) i") (auto simp: refreshClear_def Let_def framesOK_def cachesOK_def split: sum.splits)
  then show ?thesis using g mayReceive_public [OF i, of w env td]
    by (auto simp: framesOK_def cachesOK_def split: if_splits)
qed

lemma refreshGrant_ok:
  assumes ok: "framesOK env td s live sid f" and i: "i \<in> set live" "Allows (sv_visibility s) sid i"
    and e: "sv_Get s i = Some e" and own: "sessionOwnsEntity s sid i"
    and r: "refreshGrant env sid i e (fs_full f) (fs_srv f) = Inr (w, c, s')"
  shows "framesOK env td s live sid (f\<lparr>fs_srv := s', fs_full := c, fs_stream := fs_stream f @ [w]\<rparr>)"
proof -
  have g: "framesOK env td s live sid (f\<lparr>fs_srv := s'\<rparr>)" using ok by (simp add: refreshGrant_world [OF r])
  have "w \<in> authFrames env td s i \<and> (c = fs_full f \<or> c = AList.update i w (fs_full f))"
    using r ok full_frame [OF e, of env _ td]
    by (cases "map_of (fs_full f) i") (auto simp: refreshGrant_def Let_def framesOK_def cachesOK_def split: sum.splits)
  moreover have "fullAccess env s sid i" using own by (simp add: fullAccess_def)
  ultimately show ?thesis using g mayReceive_auth [OF i, of w env td]
    by (auto simp: framesOK_def cachesOK_def split: if_splits)
qed

lemma refreshOne_ok:
  assumes ok: "framesOK env td s live sid f" and st: "\<forall>i \<in> set stayed. i \<in> set live \<and> Allows (sv_visibility s) sid i"
    and cur: "refreshCurrent env s pending" "map_of pending i = Some ref"
    and r: "refreshOne env sid stayed i ref f = Inr f'"
  shows "framesOK env td s live sid f'"
proof -
  have w: "sameWorld s (fs_srv f)" using ok by (simp add: framesOK_def)
  note v = sameWorld_view [OF w]
  consider "f' = f" | e pub where "i \<in> set stayed" "sv_Get s i = Some e" "ei_PublicFullUpdate (en_ifc env) e = Some pub"
    using r by (auto simp: refreshOne_def v split: if_splits option.splits)
  then show ?thesis
  proof cases
    case 2
    then have i: "i \<in> set live" "Allows (sv_visibility s) sid i" using st by simp_all
    obtain g where g: "(if rf_clearOwner ref = sid
          then res_bind (refreshClear env sid i pub (fs_publicFull f) (fs_srv f))
                 (\<lambda>(w, c, s). Inr (f\<lparr>fs_srv := s, fs_publicFull := c, fs_stream := fs_stream f @ [w]\<rparr>))
          else Inr f) = Inr g"
      and h: "(if rf_newOwner ref = sid \<and> rf_newOwner ref \<noteq> 0
          then res_bind (refreshGrant env sid i e (fs_full g) (fs_srv g))
                 (\<lambda>(w, c, s). Inr (g\<lparr>fs_srv := s, fs_full := c, fs_stream := fs_stream g @ [w]\<rparr>))
          else Inr g) = Inr f'"
      using r 2 by (simp add: refreshOne_def v) blast
    have g': "framesOK env td s live sid g"
      using g ok refreshClear_ok [OF ok i 2(2,3)] by (auto split: if_splits)
    have own: "sessionOwnsEntity s sid i" if "rf_newOwner ref = sid" "rf_newOwner ref \<noteq> 0"
      using cur that 2(2,3) by (auto simp: refreshCurrent_def sessionOwnsEntity_def entityIsOwnerScoped_def)
    show ?thesis using h g' refreshGrant_ok [OF g' i 2(2) own] by (auto split: if_splits)
  qed (use ok in simp)
qed

lemma refreshLoop_ok:
  assumes "framesOK env td s live sid f" and "\<forall>i \<in> set stayed. i \<in> set live \<and> Allows (sv_visibility s) sid i"
    and "refreshCurrent env s pending" and "refreshLoop env sid stayed pending is f = Inr f'"
  shows "framesOK env td s live sid f'"
  using assms
proof (induction "is" arbitrary: f)
  case (Cons i "is")
  show ?case
  proof (cases "map_of pending i")
    case None
    then show ?thesis using Cons by simp
  next
    case (Some ref)
    then obtain g where "refreshOne env sid stayed i ref f = Inr g" "refreshLoop env sid stayed pending is g = Inr f'"
      using Cons.prems(4) by auto
    then show ?thesis using Cons.IH refreshOne_ok [OF Cons.prems(1-3) Some] Cons.prems(2,3) by blast
  qed
qed simp

lemma diffFrames_ok:
  assumes f: "sameWorld s (fs_srv f)" "cachesOK env td s f" and cur: "refreshCurrent env s pending"
    and vis: "\<forall>i \<in> set en. i \<in> set live \<and> Allows (sv_visibility s) sid i" "\<forall>i \<in> set st. i \<in> set live \<and> Allows (sv_visibility s) sid i"
    and r: "diffFrames env td pending sid dg (en, st, ex) f = Inr f'"
  shows "framesOK env td s live sid f'"
proof -
  let ?f = "f\<lparr>fs_stream := [], fs_dirty := [], fs_direct := []\<rparr>"
  have f: "framesOK env td s live sid ?f" using f by (simp add: framesOK_def cachesOK_def)
  obtain f1 f2 f3 where "enterLoop env td sid dg en ?f = Inr f1" "stayLoop env td sid dg st f1 = Inr f2"
    "exitLoop env sid dg ex f2 = Inr f3" and a: "appendOwnershipRefreshFrames env sid pending st f3 = Inr f'"
    using r by (auto simp: diffFrames_def)
  then have "framesOK env td s live sid f3"
    using exitLoop_ok stayLoop_ok [OF _ vis(2)] enterLoop_ok [OF f vis(1)] by blast
  then show ?thesis using a refreshLoop_ok [OF _ vis(2) cur]
    by (auto simp: appendOwnershipRefreshFrames_def split: if_splits)
qed

lemma sessionFrames_ok:
  assumes it: "iter_ok env" and wf: "gm_wf (knownOf (fs_srv f) sid)" and w: "sameWorld s (fs_srv f)"
    and c: "cachesOK env td s f" and cur: "refreshCurrent env s pending"
    and r: "sessionFrames env td pending live sid dg f = Inr f'"
  shows "framesOK env td s live sid f'"
proof -
  obtain en st ex s1 where d: "computeBroadcastDiff env sid live (fs_srv f) = ((en, st, ex), s1)" by (metis prod.exhaust)
  note D = computeBroadcastDiff_spec [OF it wf d]
  have s1: "sameWorld (fs_srv f) s1" by (subst D(7)) (simp add: sameWorld_def)
  have vis: "\<forall>i \<in> set en. i \<in> set live \<and> Allows (sv_visibility s) sid i" "\<forall>i \<in> set st. i \<in> set live \<and> Allows (sv_visibility s) sid i"
    using D(1,3,4) sameWorld_view(3) [OF w] by auto
  show ?thesis
    by (rule diffFrames_ok [OF _ _ cur vis, of "f\<lparr>fs_srv := s1\<rparr>"])
      (use r d c sameWorld_trans [OF w s1] in \<open>simp_all add: sessionFrames_def cachesOK_def\<close>)
qed

section \<open>Redacted eventual state\<close>

text \<open>The payload is made of the public projection only: what the entity marshals for a public mask.\<close>

definition publicPayload :: "'e srvEnv \<Rightarrow> 'e \<Rightarrow> eventualStateFrame \<Rightarrow> bool" where
  "publicPayload env e fr \<longleftrightarrow>
     (\<forall>w. ef_stream fr = Some w \<longrightarrow>
        (\<exists>d. ei_PublicFullUpdate (en_ifc env) e = Some (Inr d) \<and> w = ln_Wrap d)
        \<or> (\<exists>d m. ei_MarshalDeltaMask (en_ifc env) e (ei_PublicReplicationMask (en_ifc env) e m) = Inr (Some d)
             \<and> w = ln_Wrap (Some d)))
     \<and> (\<forall>c. ef_datagram fr = Some c \<longrightarrow>
        (\<exists>g m. ei_MarshalCompactDeltaMask (en_ifc env) e = Some g
           \<and> g (ei_PublicReplicationMask (en_ifc env) e m) = Inr (Some c)))"

lemma publicPayload_zero [simp]: "publicPayload env e ef_zero"
  by (simp add: publicPayload_def ef_zero_def)

lemma publicPayload_delta:
  "ei_MarshalDeltaMask (en_ifc env) e (ei_PublicReplicationMask (en_ifc env) e m) = Inr (Some d)
     \<Longrightarrow> publicPayload env e (ef_zero\<lparr>ef_stream := Some (ln_Wrap (Some d))\<rparr>)"
  by (auto simp: publicPayload_def ef_zero_def)

lemma fullFrame_public: "ch_public ch \<Longrightarrow> fullFrame env ch e = Inr fr \<Longrightarrow> publicPayload env e fr"
  by (auto simp: fullFrame_def publicPayload_def ef_zero_def split: option.splits sum.splits)

lemma deltaFrame_public:
  assumes "ch_public ch" "sv_Get s (ch_id ch) = Some e" "deltaFrame env s ch e (ei_PublicReplicationMask (en_ifc env) e m) = Inr fr"
  shows "publicPayload env e fr"
proof -
  let ?m = "ei_PublicReplicationMask (en_ifc env) e m"
  obtain compact where c: "compactDeltaForMask env s (ch_id ch) ?m = Inr compact"
    using assms(3) by (auto simp: deltaFrame_def split: sum.splits)
  show ?thesis
  proof (cases "\<exists>c. compact = Some c \<and> CompactStateDatagramFramePayloadLen c \<le> EventualStateDatagramPayloadBudget")
    case True
    then show ?thesis
      using assms(2,3) c by (auto simp: deltaFrame_def compactDeltaForMask_def publicPayload_def ef_zero_def Let_def
          split: if_splits option.splits sum.splits)
  next
    case False
    then have "(if ei_LastFlushMask (en_ifc env) e \<noteq> None then
         (case ei_MarshalDeltaMask (en_ifc env) e ?m of
            Inl err \<Rightarrow> Inl (errDelta (ch_id ch) err)
          | Inr None \<Rightarrow> Inr ef_zero
          | Inr (Some d) \<Rightarrow> Inr (ef_zero\<lparr>ef_stream := Some (ln_Wrap (Some d))\<rparr>))
       else fullFrame env ch e) = Inr fr"
      using assms(3) c by (cases compact) (simp_all add: deltaFrame_def Let_def)
    then show ?thesis using fullFrame_public [OF assms(1)] publicPayload_delta
      by (auto split: if_splits sum.splits option.splits)
  qed
qed

lemma frame_public:
  assumes "ch_public ch" "sv_Get s (ch_id ch) = Some e" "eventualFrameForChange env s ch = Inr (fr, live)"
  shows "publicPayload env e fr"
  using assms deltaFrame_public [OF assms(1,2)] fullFrame_public [OF assms(1)]
  by (auto simp: eventualFrameForChange_def Let_def split: if_splits)

text \<open>
  C19.  The frames a tick builds for a session, on either lane.  Every stream frame is a removal notice,
  or is about a live entity the visibility policy lets the session see and then is the
  public projection unless the entity is not owner-scoped or the session owns it.  Every change
  handed to the eventual-state lane of an owner-scoped entity the session does not own yields
  payloads of the public projection only.  The shared caches keep this for the next session.
\<close>

theorem session_frames_confidential:
  assumes "iter_ok env" and "gm_wf (knownOf (fs_srv f) sid)" and "cachesOK env td (fs_srv f) f"
    and "refreshCurrent env (fs_srv f) pending" and "sessionFrames env td pending live sid dg f = Inr f'"
  shows "(\<forall>w \<in> set (fs_stream f'). mayReceive env td (fs_srv f) live sid w)
    \<and> (\<forall>ch e fr ok. ch \<in> set (fs_dirty f') \<and> sv_Get (fs_srv f') (ch_id ch) = Some e \<and> entityIsOwnerScoped env e
          \<and> \<not> sessionOwnsEntity (fs_srv f') sid (ch_id ch) \<and> eventualFrameForChange env (fs_srv f') ch = Inr (fr, ok)
        \<longrightarrow> publicPayload env e fr)
    \<and> sameWorld (fs_srv f) (fs_srv f') \<and> cachesOK env td (fs_srv f) f'"
proof -
  have F: "framesOK env td (fs_srv f) live sid f'"
    by (rule sessionFrames_ok [OF assms(1,2) _ assms(3,4,5)]) simp
  then have w: "sameWorld (fs_srv f) (fs_srv f')" by (simp add: framesOK_def)
  have "ch_public ch" if "ch \<in> set (fs_dirty f')" "sv_Get (fs_srv f') (ch_id ch) = Some e" "entityIsOwnerScoped env e"
    "\<not> sessionOwnsEntity (fs_srv f') sid (ch_id ch)" for ch e
    using F that sameWorld_view(1,2) [OF w] by (auto simp: framesOK_def changeRedacted_def fullAccess_def)
  then have "publicPayload env e fr" if "ch \<in> set (fs_dirty f')" "sv_Get (fs_srv f') (ch_id ch) = Some e"
    "entityIsOwnerScoped env e" "\<not> sessionOwnsEntity (fs_srv f') sid (ch_id ch)"
    "eventualFrameForChange env (fs_srv f') ch = Inr (fr, ok)" for ch e fr ok
    using frame_public [OF _ that(2,5)] that by simp
  then show ?thesis using F unfolding framesOK_def by blast
qed

section \<open>A whole tick on the stream lane\<close>

definition sentOK :: "'e srvEnv \<Rightarrow> tickData \<Rightarrow> 'e Server \<Rightarrow> int64 list \<Rightarrow> 'e Server \<Rightarrow> bool" where
  "sentOK env td s live s' \<longleftrightarrow>
     (\<exists>l. sv_net s' = sv_net s @ l
        \<and> (\<forall>j frames b. NetSendBatch j frames b \<in> set l \<longrightarrow> (\<forall>w \<in> set frames. mayReceive env td s live j w)))"

definition tickOK :: "'e srvEnv \<Rightarrow> tickData \<Rightarrow> 'e Server \<Rightarrow> int64 list \<Rightarrow> 'e frameState \<Rightarrow> bool" where
  "tickOK env td s live f \<longleftrightarrow>
     sameWorld s (fs_srv f) \<and> cachesOK env td s f \<and> sentOK env td s live (fs_srv f) \<and> (\<forall>j. gm_wf (knownOf (fs_srv f) j))"

lemma sentOK_append:
  assumes "sentOK env td s live s'" "sv_net s'' = sv_net s' @ l"
    and "\<And>j frames b w. NetSendBatch j frames b \<in> set l \<Longrightarrow> w \<in> set frames \<Longrightarrow> mayReceive env td s live j w"
  shows "sentOK env td s live s''"
proof -
  obtain k where "sv_net s' = sv_net s @ k"
    and "\<forall>j frames b. NetSendBatch j frames b \<in> set k \<longrightarrow> (\<forall>w \<in> set frames. mayReceive env td s live j w)"
    using assms(1) by (auto simp: sentOK_def)
  then show ?thesis using assms(2,3) unfolding sentOK_def by (intro exI [of _ "k @ l"]) auto
qed

lemma ln_SendBatch_net:
  "ln_SendBatch env sid frames net = (err, net') \<Longrightarrow> net' = net \<or> (\<exists>b. net' = net @ [NetSendBatch sid frames b])"
  by (auto simp: ln_SendBatch_def split: if_splits option.splits)

lemma tickOK_net:
  assumes "tickOK env td s live f" "net = sv_net (fs_srv f) \<or> net = sv_net (fs_srv f) @ [c]"
    and "\<And>j frames b w. NetSendBatch j frames b = c \<Longrightarrow> w \<in> set frames \<Longrightarrow> mayReceive env td s live j w"
  shows "tickOK env td s live (f\<lparr>fs_srv := (fs_srv f)\<lparr>sv_net := net\<rparr>\<rparr>)"
proof -
  have "sentOK env td s live ((fs_srv f)\<lparr>sv_net := net\<rparr>)"
  proof (cases "net = sv_net (fs_srv f)")
    case True
    then show ?thesis using assms(1) by (simp add: tickOK_def)
  next
    case False
    show ?thesis
      by (rule sentOK_append [of env td s live "fs_srv f" _ "[c]"]) (use assms False in \<open>simp_all add: tickOK_def\<close>)
  qed
  then show ?thesis using assms(1) by (simp add: tickOK_def sameWorld_def cachesOK_def knownOf_def)
qed

lemma tickOK_clearKnown:
  "tickOK env td s live f \<Longrightarrow> tickOK env td s live (f\<lparr>fs_srv := clearBroadcastKnownSession j (fs_srv f)\<rparr>)"
  by (auto simp: tickOK_def sameWorld_def cachesOK_def sentOK_def clearBroadcastKnownSession_def knownOf_def
      split: option.splits if_splits)

text \<open>Building frames does not touch the known sets beyond the diff, nor the network.\<close>

definition sameNet :: "'e frameState \<Rightarrow> 'e frameState \<Rightarrow> bool" where
  "sameNet f f' \<longleftrightarrow> sv_broadcastKnown (fs_srv f') = sv_broadcastKnown (fs_srv f) \<and> sv_net (fs_srv f') = sv_net (fs_srv f)"

lemma sameNet_refl [simp]: "sameNet f f"
  by (simp add: sameNet_def)

lemma clearEventualEntity_net [simp]:
  "sv_broadcastKnown (clearEventualEntity env sid i s) = sv_broadcastKnown s"
  "sv_net (clearEventualEntity env sid i s) = sv_net s"
  by (simp_all add: clearEventualEntity_def set_trk_def split: option.splits)

lemma enterLoop_net: "enterLoop env td sid dg is f = Inr f' \<Longrightarrow> sameNet f f'"
proof (induction "is" arbitrary: f)
  case (Cons i "is")
  define g where "g = (if dg then f\<lparr>fs_srv := clearEventualEntity env sid i (fs_srv f)\<rparr> else f)"
  obtain w full pub where "enterLoop env td sid dg is (g\<lparr>fs_full := full, fs_publicFull := pub,
              fs_stream := fs_stream g @ (case w of None \<Rightarrow> [] | Some d \<Rightarrow> [d])\<rparr>) = Inr f'"
    using Cons.prems by (auto simp: Let_def g_def [symmetric])
  then show ?case using Cons.IH by (fastforce simp: sameNet_def g_def)
qed (simp add: sameNet_def)

lemma stayDelta_net: "stayDelta env td sid dg i d f = Inr f' \<Longrightarrow> sameNet f f'"
  by (auto simp: sameNet_def stayDelta_def split: if_splits option.splits prod.splits)

lemma stayLoop_net: "stayLoop env td sid dg is f = Inr f' \<Longrightarrow> sameNet f f'"
proof (induction "is" arbitrary: f)
  case (Cons i "is")
  obtain g where g: "(case map_of (td_deltaData td) i of None \<Rightarrow> Inr f | Some d \<Rightarrow> stayDelta env td sid dg i d f) = Inr g"
    and r: "stayLoop env td sid dg is g = Inr f' \<or> (\<exists>w full pub. stayLoop env td sid dg is (g\<lparr>fs_full := full,
       fs_publicFull := pub, fs_stream := fs_stream g @ (case w of None \<Rightarrow> [] | Some d \<Rightarrow> [d])\<rparr>) = Inr f')"
    using Cons.prems by (auto split: if_splits)
  have "sameNet f g"
    using g by (cases "map_of (td_deltaData td) i") (auto dest: stayDelta_net)
  then show ?case using r Cons.IH by (fastforce simp: sameNet_def)
qed (simp add: sameNet_def)

lemma exitLoop_net: "exitLoop env sid dg is f = Inr f' \<Longrightarrow> sameNet f f'"
  by (induction "is" arbitrary: f) (fastforce simp: sameNet_def Let_def split: if_splits option.splits sum.splits)+

lemma refreshOne_net: "refreshOne env sid st i ref f = Inr f' \<Longrightarrow> sameNet f f'"
  by (auto simp: refreshOne_def sameNet_def split: if_splits option.splits dest!: refreshClear_world refreshGrant_world)

lemma refreshLoop_net: "refreshLoop env sid st pending is f = Inr f' \<Longrightarrow> sameNet f f'"
proof (induction "is" arbitrary: f)
  case (Cons i "is")
  then show ?case using refreshOne_net by (fastforce simp: sameNet_def split: option.splits)
qed (simp add: sameNet_def)

lemma diffFrames_net: "diffFrames env td pending sid dg d f = Inr f' \<Longrightarrow> sameNet f f'"
proof -
  assume r: "diffFrames env td pending sid dg d f = Inr f'"
  obtain en st ex where d: "d = (en, st, ex)" by (metis prod.exhaust)
  obtain f1 f2 f3 where "enterLoop env td sid dg en (f\<lparr>fs_stream := [], fs_dirty := [], fs_direct := []\<rparr>) = Inr f1"
    "stayLoop env td sid dg st f1 = Inr f2" "exitLoop env sid dg ex f2 = Inr f3"
    "appendOwnershipRefreshFrames env sid pending st f3 = Inr f'"
    using r d by (auto simp: diffFrames_def)
  then show ?thesis
    by (auto dest!: enterLoop_net stayLoop_net exitLoop_net refreshLoop_net
        simp: appendOwnershipRefreshFrames_def sameNet_def split: if_splits)
qed

lemma sessionFrames_known:
  assumes it: "iter_ok env" and wf: "\<forall>j. gm_wf (knownOf (fs_srv f) j)"
    and r: "sessionFrames env td pending live sid dg f = Inr f'"
  shows "(\<forall>j. gm_wf (knownOf (fs_srv f') j)) \<and> sv_net (fs_srv f') = sv_net (fs_srv f)"
proof -
  obtain en st ex s1 where d: "computeBroadcastDiff env sid live (fs_srv f) = ((en, st, ex), s1)" by (metis prod.exhaust)
  note D = computeBroadcastDiff_spec [OF it _ d]
  have wf1: "gm_wf (knownOf s1 j)" for j
    using D(2) wf knownOf_other [OF D(7), of j] by (cases "j = sid") auto
  have "sv_broadcastKnown (fs_srv f') = sv_broadcastKnown s1" "sv_net (fs_srv f') = sv_net s1"
    using r d diffFrames_net [of env td pending sid dg "(en, st, ex)" "f\<lparr>fs_srv := s1\<rparr>" f']
    by (simp_all add: sessionFrames_def sameNet_def)
  then show ?thesis using wf1 arg_cong [OF D(7), of sv_net] wf by (simp add: knownOf_def)
qed

lemma batch_ok:
  assumes ok: "tickOK env td s live f" and F: "framesOK env td s live sid f"
    and b: "(if length (fs_stream f) > 0 then ln_SendBatch env sid (fs_stream f) (sv_net (fs_srv f))
               else (None, sv_net (fs_srv f))) = (e, n)"
  shows "tickOK env td s live (f\<lparr>fs_srv := (fs_srv f)\<lparr>sv_net := n\<rparr>\<rparr>)"
proof -
  have "n = sv_net (fs_srv f) \<or> (\<exists>b. n = sv_net (fs_srv f) @ [NetSendBatch sid (fs_stream f) b])"
    using b ln_SendBatch_net [of env sid "fs_stream f" "sv_net (fs_srv f)"] by (auto split: if_splits)
  then show ?thesis
  proof (elim disjE exE)
    fix b assume "n = sv_net (fs_srv f) @ [NetSendBatch sid (fs_stream f) b]"
    then show ?thesis using F by (intro tickOK_net [OF ok, of _ "NetSendBatch sid (fs_stream f) b"]) (auto simp: framesOK_def)
  qed (rule tickOK_net [OF ok, of _ NetSessionIDs], simp_all)
qed

lemma filteredSession_ok:
  assumes lane: "\<not> usesDatagramStateUpdates env" and it: "iter_ok env" and cur: "refreshCurrent env s pending"
    and ok: "tickOK env td s live (ts_frames ts)"
    and r: "filteredSession env td pending live sid ts = (err, ts')"
  shows "tickOK env td s live (ts_frames ts')"
proof -
  obtain tr net where t: "ln_SessionTransport env sid (sv_net (ts_srv ts)) = (tr, net)" by fastforce
  define u where "u = ts_update (\<lambda>s. s\<lparr>sv_net := net\<rparr>) ts"
  have u: "tickOK env td s live (ts_frames u)"
    unfolding u_def ts_update_def using t
    by (auto simp: ln_SessionTransport_def ts_srv_def intro!: tickOK_net [OF ok, of _ "NetTransport sid"])
  show ?thesis
  proof (cases tr)
    case None
    then show ?thesis using r t tickOK_clearKnown [OF u]
      by (auto simp: filteredSession_def u_def [symmetric] Let_def) (simp add: ts_update_def)
  next
    case (Some transport)
    consider "ts' = u" | f where "sessionFrames env td pending live sid False (ts_frames u) = Inr f"
      "sendSessionFrames env sid transport False (u\<lparr>ts_frames := f\<rparr>) = (err, ts')"
      using r t Some lane by (auto simp: filteredSession_def u_def [symmetric] Let_def split: sum.splits)
    then show ?thesis
    proof cases
      case 1
      then show ?thesis using u by simp
    next
      case 2
      have F: "framesOK env td s live sid f"
        by (rule sessionFrames_ok [OF it _ _ _ cur 2(1)]) (use u in \<open>simp_all add: tickOK_def\<close>)
      have t: "tickOK env td s live f"
        using F u sessionFrames_known [OF it _ 2(1)] by (auto simp: tickOK_def framesOK_def sentOK_def)
      obtain e n where b: "(if length (fs_stream f) > 0 then ln_SendBatch env sid (fs_stream f) (sv_net (fs_srv f))
               else (None, sv_net (fs_srv f))) = (e, n)" by fastforce
      note G = batch_ok [OF t F b]
      then show ?thesis using 2(2) b tickOK_clearKnown [OF G]
        by (auto simp: sendSessionFrames_def Let_def ts_update_def ts_srv_def split: option.splits if_splits)
    qed
  qed
qed

lemma filteredSessions_ok:
  assumes "\<not> usesDatagramStateUpdates env" "iter_ok env" "refreshCurrent env s pending"
    and "tickOK env td s live (ts_frames ts)" "filteredSessions env td pending live sids ts = (err, ts')"
  shows "tickOK env td s live (ts_frames ts')"
  using assms(4,5)
proof (induction sids arbitrary: ts)
  case (Cons sid sids)
  obtain e u where u: "filteredSession env td pending live sid ts = (e, u)" by fastforce
  have "tickOK env td s live (ts_frames u)" by (rule filteredSession_ok [OF assms(1-3) Cons.prems(1) u])
  then show ?case using Cons u by (auto split: option.splits)
qed simp

lemma map_of_put_all: "map_of (put_all kvs m) k = (case map_of (rev kvs) k of None \<Rightarrow> map_of m k | Some v \<Rightarrow> Some v)"
  unfolding put_all_def
  by (induction kvs arbitrary: m) (auto simp: map_add_def split: option.splits)

lemma removalFrames_notices:
  "removalFrames env rs acc = Inr out \<Longrightarrow> (\<forall>(i, d) \<in> set acc. ln_Wrap (Some d) \<in> removalNotices env)
     \<Longrightarrow> (\<forall>(i, d) \<in> set out. ln_Wrap (Some d) \<in> removalNotices env)"
proof (induction env rs acc rule: removalFrames.induct)
  case (2 env i v rs acc)
  then obtain ser d where "en_removalSerializer env = Some ser" "ser i v = Inr d" "removalFrames env rs (acc @ [(i, d)]) = Inr out"
    by (auto split: option.splits sum.splits)
  moreover from this have "ln_Wrap (Some d) \<in> removalNotices env" by (auto simp: removalNotices_def)
  ultimately show ?case using 2 by auto
qed simp

text \<open>The data a flush gives the tick, by entity.\<close>

definition flushData :: "FlushResult \<Rightarrow> tickData" where
  "flushData result = \<lparr>td_spawnData = put_all (zip (fr_SpawnIDs result) (fr_Spawns result)) [],
     td_deltaData = put_all (zip (fr_DeltaIDs result) (fr_Deltas result)) [], td_changes = [], td_frames = [],
     td_ownerScopedDeltas = False\<rparr>"

lemma mayReceive_cong:
  "td_spawnData td = td_spawnData td' \<Longrightarrow> td_deltaData td = td_deltaData td'
     \<Longrightarrow> mayReceive env td s live sid w = mayReceive env td' s live sid w"
  by (simp add: mayReceive_def authFrames_def)

lemma initial_cachesOK:
  assumes "td_spawnData td = put_all spawns []" "\<forall>(i, d) \<in> set removals. ln_Wrap (Some d) \<in> removalNotices env"
    and "fs_full f = put_all (map (\<lambda>(i, d). (i, ln_Wrap d)) spawns) []"
    and "fs_removals f = put_all (map (\<lambda>(i, d). (i, ln_Wrap (Some d))) removals) []"
    and "fs_publicFull f = []" "fs_deltas f = []" "fs_publicDelta f = []"
  shows "cachesOK env td s f"
proof -
  have m: "map_of (map (\<lambda>(i, d). (i, g d)) xs) i = map_option g (map_of xs i)" for g :: "'b \<Rightarrow> 'c" and xs :: "(int64 \<times> 'b) list" and i
    by (induction xs) auto
  have "w \<in> authFrames env td s i" if "map_of (fs_full f) i = Some w" for i w
    using that assms(1,3) spawn_frame [of td i _ env s] by (auto simp: map_of_put_all rev_map m split: option.splits)
  moreover have "w \<in> removalNotices env" if "map_of (fs_removals f) i = Some w" for i w
    using that assms(2,4) by (auto simp: map_of_put_all rev_map m dest!: map_of_SomeD split: option.splits)
  ultimately show ?thesis using assms(5-7) by (simp add: cachesOK_def)
qed

text \<open>
  A whole filtered tick on the stream lane, whatever the connections do meanwhile and whether or
  not it ends in an error: every frame of every batch handed to the network was permitted for
  the session it went to.
\<close>

theorem filtered_tick_confidential:
  assumes "\<not> usesDatagramStateUpdates env" and "iter_ok env" and "\<forall>j. gm_wf (knownOf s j)"
    and "refreshCurrent env s (sv_ownershipRefresh s)"
    and "runBroadcastTickFiltered env None result n s = (err, s')"
    and "NetSendBatch j frames b \<in> set (net_since s s')" and "w \<in> set frames"
  shows "mayReceive env (flushData result) s (map (ei_EntityID (en_ifc env)) (sv_All env s)) j w"
proof -
  let ?live = "map (ei_EntityID (en_ifc env)) (sv_All env s)"
  obtain sids net where n: "ln_SessionIDs env (sv_net s) = (sids, net)" by fastforce
  define s1 where "s1 = s\<lparr>sv_net := net\<rparr>"
  define s2 where "s2 = snd (snapshotOwnershipRefreshLocked s1)"
  have w2: "sameWorld s s2" and net2: "sv_net s2 = sv_net s @ [NetSessionIDs]" and kn2: "knownOf s2 = knownOf s"
    and p: "snapshotOwnershipRefreshLocked s1 = (sv_ownershipRefresh s, s2)"
    using n by (auto simp: s2_def s1_def snapshotOwnershipRefreshLocked_def sameWorld_def knownOf_def ln_SessionIDs_def
        gm_len_def fun_eq_iff)
  show ?thesis
  proof (cases "removalFrames env (zip (fr_Removals result) (fr_RemovalRevisions result)) []")
    case (Inl e)
    then show ?thesis using assms(5,6) by (simp add: runBroadcastTickFiltered_def net_since_def)
  next
    case (Inr removals)
    define td where "td = (flushData result)\<lparr>td_ownerScopedDeltas := list_ex (ownerScopedDelta env s) (fr_DeltaIDs result)\<rparr>"
    define f where "f = \<lparr>fs_srv = s2, fs_full = put_all (map (\<lambda>(i, d). (i, ln_Wrap d)) (zip (fr_SpawnIDs result) (fr_Spawns result))) [],
      fs_publicFull = [], fs_deltas = [], fs_publicDelta = [],
      fs_removals = put_all (map (\<lambda>(i, d). (i, ln_Wrap (Some d))) removals) [], fs_stream = [], fs_dirty = [], fs_direct = []\<rparr>"
    have c: "cachesOK env td s f"
      by (rule initial_cachesOK [OF _ removalFrames_notices [OF Inr]]) (simp_all add: td_def f_def flushData_def)
    have t: "tickOK env td s ?live (ts_frames \<lparr>ts_frames = f, ts_cache = [], ts_sums = ss_zero\<rparr>)"
      using c w2 net2 assms(3) by (simp add: tickOK_def f_def kn2 sentOK_def)
    obtain e ts where r: "filteredSessions env td (sv_ownershipRefresh s) ?live sids \<lparr>ts_frames = f, ts_cache = [], ts_sums = ss_zero\<rparr> = (e, ts)"
      by fastforce
    have T: "tickOK env td s ?live (ts_frames ts)" by (rule filteredSessions_ok [OF assms(1,2,4) t r])
    have "sv_net s' = sv_net (ts_srv ts)"
      using assms(1,5) n r p Inr
      by (auto simp: runBroadcastTickFiltered_def hasDatagramStateSessions_def s1_def td_def f_def flushData_def sv_All_def
          storeReplicationSnapshot_def cleanupVisibilityForRemovals_def Let_def split: option.splits prod.splits)
    then have "mayReceive env td s ?live j w"
      using T assms(6,7) by (auto simp: tickOK_def sentOK_def net_since_def ts_srv_def) blast
    then show ?thesis using mayReceive_cong [of td "flushData result" env s ?live j w] by (simp add: td_def)
  qed
qed

section \<open>Examples\<close>

text \<open>
  Owner-scoped entities: the authoritative state is \<open>de_full\<close>, the public state its head.
  Two WebSocket sessions on the stream lane.
\<close>

definition scopedEnv :: "demoEntity srvEnv" where
  "scopedEnv = demoEnv\<lparr>en_ifc := demoIface\<lparr>ei_PublicFullUpdate := (\<lambda>e. Some (Inr (Some [hd (de_full e)])))\<rparr>,
     en_Transport := TransportWebSocket, en_StateUpdateLane := StateUpdateLaneStream,
     en_sessions := (\<lambda>_. [(1, TransportWebSocket), (2, TransportWebSocket)])\<rparr>"

text \<open>Entity 5 belongs to session 1 and was just created.\<close>

definition scopedServer :: "demoEntity Server" where
  "scopedServer = demoServer\<lparr>sv_reg := \<lparr>rg_entities = [(5, 5)], rg_owners = [(5, 1)], rg_spawned = [], rg_despawned = [],
     rg_despawnedRevision = []\<rparr>, sv_eventualTrackers := []\<rparr>"

definition scopedFlush :: FlushResult where
  "scopedFlush = emptyFlush\<lparr>fr_SpawnIDs := [5], fr_Spawns := [Some [1, 2]]\<rparr>"

lemma wrap_eval: "ln_Wrap (Some [1]) = [10, 1, 1]" "ln_Wrap (Some [1, 2]) = [10, 2, 1, 2]"
  by (code_simp, code_simp)

lemma size_eval:
  "validateReliableMessageSizes [] = None"
  "length w < 10 \<Longrightarrow> validateReliableMessageSizes [w] = None"
  "length w < 10 \<Longrightarrow> length v < 10 \<Longrightarrow> validateReliableMessageSizes [w, v] = None"
  by (simp_all add: validateReliableMessageSizes_def validateReliableMessageSize_def maxReliableMessageBytes_def)

lemmas env_eval = scopedEnv_def demoEnv_def demoIface_def demoHeap_def usesDatagramStateUpdates_def
  StateUpdateLaneStream_def StateUpdateLaneDatagram_def Let_def wrap_eval size_eval

lemmas world_eval = scopedServer_def demoServer_def NewManager_def Allows_def sv_All_def reg_All_def List.map_filter_def
  sv_Get_def reg_Get_def reg_Owner_def sessionOwnsEntity_def knownOf_def gm_len_def

lemmas frames_eval = sessionFrames_def diffFrames_def computeBroadcastDiff_def wrappedFullForSession_def wrappedAuthFull_def
  appendOwnershipRefreshFrames_def

lemmas tick_eval = runBroadcastTickFiltered_def scopedFlush_def emptyFlush_def ln_SessionIDs_def hasDatagramStateSessions_def
  snapshotOwnershipRefreshLocked_def put_all_def filteredSession_def ln_SessionTransport_def ts_update_def ts_srv_def
  sendSessionFrames_def ln_SendBatch_def storeReplicationSnapshot_def cleanupVisibilityForRemovals_def

definition scopedFrames :: "demoEntity frameState" where
  "scopedFrames = \<lparr>fs_srv = scopedServer, fs_full = [], fs_publicFull = [], fs_deltas = [], fs_publicDelta = [], fs_removals = [],
     fs_stream = [], fs_dirty = [], fs_direct = []\<rparr>"

lemma scoped_iter_ok: "iter_ok scopedEnv"
  using demo_iter_ok by (simp add: iter_ok_def scopedEnv_def)

lemma scoped_known: "gm_wf (knownOf scopedServer j)"
  by (simp add: world_eval gm_keys_def)

lemma scoped_refresh: "refreshCurrent scopedEnv scopedServer []" "sv_ownershipRefresh scopedServer = []"
  by (simp_all add: refreshCurrent_def world_eval)

theorem session_frames_confidential_witness:
  "\<exists>f'. sessionFrames scopedEnv (flushData scopedFlush) [] [5] 2 False scopedFrames = Inr f'
     \<and> [10, 1, 1] \<in> set (fs_stream f')
     \<and> mayReceive scopedEnv (flushData scopedFlush) scopedServer [5] 2 [10, 1, 1]"
proof -
  obtain f' where f: "sessionFrames scopedEnv (flushData scopedFlush) [] [5] 2 False scopedFrames = Inr f'"
    and m: "[10, 1, 1] \<in> set (fs_stream f')"
    by (simp add: env_eval world_eval frames_eval scopedFrames_def)
  have k: "gm_wf (knownOf (fs_srv scopedFrames) 2)" "cachesOK scopedEnv (flushData scopedFlush) (fs_srv scopedFrames) scopedFrames"
    "refreshCurrent scopedEnv (fs_srv scopedFrames) []"
    using scoped_known scoped_refresh by (simp_all add: scopedFrames_def cachesOK_def)
  have "mayReceive scopedEnv (flushData scopedFlush) (fs_srv scopedFrames) [5] 2 [10, 1, 1]"
    using session_frames_confidential [OF scoped_iter_ok k f] m by blast
  then show ?thesis using f m by (auto simp: scopedFrames_def)
qed

theorem filtered_tick_confidential_witness:
  "NetSendBatch 2 [[10, 1, 1]] True \<in> set (net_since scopedServer (snd (runBroadcastTickFiltered scopedEnv None scopedFlush 0 scopedServer)))
   \<and> mayReceive scopedEnv (flushData scopedFlush) scopedServer (map (ei_EntityID (en_ifc scopedEnv)) (sv_All scopedEnv scopedServer)) 2 [10, 1, 1]"
proof -
  have n: "NetSendBatch 2 [[10, 1, 1]] True \<in> set (net_since scopedServer (snd (runBroadcastTickFiltered scopedEnv None scopedFlush 0 scopedServer)))"
    by (simp add: env_eval world_eval frames_eval tick_eval net_since_def)
  have l: "\<not> usesDatagramStateUpdates scopedEnv" by (simp add: env_eval)
  have r: "refreshCurrent scopedEnv scopedServer (sv_ownershipRefresh scopedServer)" using scoped_refresh by simp
  show ?thesis
    using n filtered_tick_confidential [OF l scoped_iter_ok allI [OF scoped_known] r prod.collapse [symmetric] n] by simp
qed

end
