(* ===== verification/Ownership_Transfer.thy ===== *)
theory Ownership_Transfer
  imports Confidentiality
begin

text \<open>
  Changes of owner and the transitions queued for the next tick.  The operations on entities keep
  every pending grant pointing at the current owner, as long as identifiers are not reused; the
  last section has what happens when they are, and two more interleavings with a tick.
\<close>

section \<open>Pending grants follow the owner\<close>

datatype ownerOp = OpSetOwner int64 int64 | OpCreateEntity eref "int64 list" | OpDeleteEntity int64

fun ownerStep :: "'e srvEnv \<Rightarrow> ownerOp \<Rightarrow> 'e Server \<Rightarrow> 'e Server" where
  "ownerStep env (OpSetOwner i sid) s = snd (SetOwner env i sid s)"
| "ownerStep env (OpCreateEntity e owner) s = snd (snd (CreateEntity env e owner s))"
| "ownerStep env (OpDeleteEntity i) s = snd (DeleteEntity env i s)"

text \<open>
  A new entity is not registered yet, and its identifier has no transition pending: true of the
  identifiers \<^verbatim>\<open>CreateEntity\<close> assigns, which are new.
\<close>

fun freshFor :: "'e srvEnv \<Rightarrow> ownerOp \<Rightarrow> 'e Server \<Rightarrow> bool" where
  "freshFor env (OpCreateEntity e owner) s \<longleftrightarrow>
     (\<forall>k. map_of (rg_entities (sv_reg s)) k \<noteq> Some e)
     \<and> (let s' = snd (snd (CreateEntity env e owner s))
        in map_of (sv_ownershipRefresh s) (ei_EntityID (en_ifc env) (sv_heap s' e)) = None)"
| "freshFor env _ s \<longleftrightarrow> True"

lemma CreateEntity_effect:
  assumes c: "CreateEntity env e owner s = (err, sp, s')"
  defines "k \<equiv> ei_EntityID (en_ifc env) (sv_heap s' e)"
  shows "sv_ownershipRefresh s' = sv_ownershipRefresh s" "\<forall>x. x \<noteq> e \<longrightarrow> sv_heap s' x = sv_heap s x"
    "sv_reg s' = sv_reg s \<or>
      (\<forall>i. i \<noteq> k \<longrightarrow> reg_Get (sv_reg s') i = reg_Get (sv_reg s) i \<and> reg_Owner (sv_reg s') i = reg_Owner (sv_reg s) i)"
  using c unfolding k_def
  by (auto simp: CreateEntity_def nextID_def AddOwnedWithoutSpawn_def AddWithoutSpawn_def Let_def reg_Get_def reg_Owner_def
      split: if_splits option.splits prod.splits)

lemma refreshCurrent_create:
  assumes cur: "refreshCurrent env s (sv_ownershipRefresh s)" and fr: "freshFor env (OpCreateEntity e owner) s"
  shows "refreshCurrent env (snd (snd (CreateEntity env e owner s))) (sv_ownershipRefresh (snd (snd (CreateEntity env e owner s))))"
proof -
  obtain err sp s' where c: "CreateEntity env e owner s = (err, sp, s')" by (metis prod.exhaust)
  note C = CreateEntity_effect [OF c]
  let ?k = "ei_EntityID (en_ifc env) (sv_heap s' e)"
  have k: "map_of (sv_ownershipRefresh s) ?k = None" and ne: "\<forall>k. map_of (rg_entities (sv_reg s)) k \<noteq> Some e"
    using fr c by (simp_all add: Let_def)
  have same: "sv_Get s' i = sv_Get s i \<and> reg_Owner (sv_reg s') i = reg_Owner (sv_reg s) i"
    if "map_of (sv_ownershipRefresh s) i = Some r" for i r
  proof -
    have i: "i \<noteq> ?k" using that k by auto
    have h: "map_option (sv_heap s') (reg_Get (sv_reg s) i) = map_option (sv_heap s) (reg_Get (sv_reg s) i)"
      using ne C(2) by (cases "reg_Get (sv_reg s) i") (auto simp: reg_Get_def)
    show ?thesis using C(3) i h by (auto simp: sv_Get_def)
  qed
  then show ?thesis using cur c C(1) by (auto simp: refreshCurrent_def)
qed

lemma refreshCurrent_delete:
  assumes "refreshCurrent env s (sv_ownershipRefresh s)"
  shows "refreshCurrent env (snd (DeleteEntity env i s)) (sv_ownershipRefresh (snd (DeleteEntity env i s)))"
proof -
  let ?s' = "snd (DeleteEntity env i s)"
  have a: "sv_reg (clearAvatarByEntity i s) = sv_reg s" "sv_heap (clearAvatarByEntity i s) = sv_heap s"
    "sv_ownershipRefresh (clearAvatarByEntity i s) = sv_ownershipRefresh s"
    by (simp_all add: clearAvatarByEntity_def Let_def split: option.splits)
  have "sv_ownershipRefresh ?s' = sv_ownershipRefresh s" "sv_heap ?s' = sv_heap s"
    by (simp_all add: DeleteEntity_def a Let_def split: prod.splits)
  moreover have "reg_Get (sv_reg ?s') k = None \<or>
      reg_Get (sv_reg ?s') k = reg_Get (sv_reg s) k \<and> reg_Owner (sv_reg ?s') k = reg_Owner (sv_reg s) k" for k
    by (auto simp: DeleteEntity_def a Let_def reg_DeleteEntity_def reg_Get_def reg_Owner_def split: prod.splits option.splits)
  ultimately show ?thesis using assms unfolding refreshCurrent_def sv_Get_def
    by (metis option.map(1) option.distinct(1))
qed

lemma refreshCurrent_setOwner:
  assumes cur: "refreshCurrent env s (sv_ownershipRefresh s)"
  shows "refreshCurrent env (snd (SetOwner env i sid s)) (sv_ownershipRefresh (snd (SetOwner env i sid s)))"
proof (cases "sv_Get s i")
  case None
  then show ?thesis using cur by (simp add: SetOwner_def)
next
  case (Some e)
  define old where "old = (case reg_Owner (sv_reg s) i of None \<Rightarrow> 0 | Some v \<Rightarrow> v)"
  show ?thesis
  proof (cases "old = sid")
    case True
    then show ?thesis using cur Some by (simp add: SetOwner_def Let_def old_def [symmetric])
  next
    case False
    obtain r where r: "reg_SetOwner (sv_reg s) i sid = (True, r)" using Some
      by (auto simp: reg_SetOwner_def sv_Get_def reg_Get_def)
    define s1 where "s1 = s\<lparr>sv_reg := r\<rparr>"
    have S: "snd (SetOwner env i sid s) = (if entityIsOwnerScoped env e then queueOwnershipRefreshLocked i old sid s1 else s1)"
      using Some False r by (simp add: SetOwner_def Let_def old_def [symmetric] s1_def)
    have get: "sv_Get s1 = sv_Get s" using r
      by (auto simp: s1_def sv_Get_def [abs_def] reg_Get_def reg_SetOwner_def split: if_splits)
    have own: "reg_Owner r k = (if k = i then if sid = 0 then None else Some sid else reg_Owner (sv_reg s) k)" for k
      using r by (auto simp: reg_SetOwner_def reg_Owner_def split: if_splits)
    show ?thesis
    proof (cases "entityIsOwnerScoped env e")
      case True
      have g: "sv_Get (queueOwnershipRefreshLocked i old sid s1) = sv_Get s"
        "sv_reg (queueOwnershipRefreshLocked i old sid s1) = r"
        using get by (auto simp: queueOwnershipRefreshLocked_def Let_def s1_def sv_Get_def [abs_def])
      have "sv_ownershipRefresh s1 = sv_ownershipRefresh s" by (simp add: s1_def)
      then show ?thesis using cur False True unfolding S
        by (auto simp: refreshCurrent_def g own) (auto simp: queueOwnershipRefreshLocked_def Let_def split: if_splits option.splits)
    next
      case nsc: False
      have "sv_reg s1 = r" "sv_ownershipRefresh s1 = sv_ownershipRefresh s" by (simp_all add: s1_def)
      then show ?thesis using nsc cur Some unfolding S by (auto simp: refreshCurrent_def get own)
    qed
  qed
qed

text \<open>
  Creating, deleting and transferring entities keeps every pending grant of an owner-scoped entity
  pointing at its current owner, provided a new entity does not take an identifier with a pending
  transition.  Chains of transfers are merged and a transfer back cancels, so this is not a
  matter of the last call only.
\<close>

theorem pending_grants_current:
  assumes "refreshCurrent env s (sv_ownershipRefresh s)" and "freshFor env op s"
  shows "refreshCurrent env (ownerStep env op s) (sv_ownershipRefresh (ownerStep env op s))"
  using assms refreshCurrent_setOwner refreshCurrent_create refreshCurrent_delete
  by (cases op) (simp_all del: freshFor.simps)

text \<open>Session 1 hands entity 5 to session 2, which hands it back: nothing stays pending.\<close>

theorem pending_grants_current_witness:
  "refreshCurrent scopedEnv (ownerStep scopedEnv (OpSetOwner 5 2) scopedServer)
     (sv_ownershipRefresh (ownerStep scopedEnv (OpSetOwner 5 2) scopedServer))
   \<and> sv_ownershipRefresh (ownerStep scopedEnv (OpSetOwner 5 2) scopedServer) = [(5, \<lparr>rf_clearOwner = 1, rf_newOwner = 2\<rparr>)]
   \<and> sv_ownershipRefresh (ownerStep scopedEnv (OpSetOwner 5 1) (ownerStep scopedEnv (OpSetOwner 5 2) scopedServer)) = []"
proof -
  have "refreshCurrent scopedEnv scopedServer (sv_ownershipRefresh scopedServer)" using scoped_refresh by simp
  then have "refreshCurrent scopedEnv (ownerStep scopedEnv (OpSetOwner 5 2) scopedServer)
     (sv_ownershipRefresh (ownerStep scopedEnv (OpSetOwner 5 2) scopedServer))"
    by (rule pending_grants_current) simp
  then show ?thesis
    by (simp add: SetOwner_def env_eval world_eval reg_SetOwner_def queueOwnershipRefreshLocked_def entityIsOwnerScoped_def)
qed

section \<open>Interleavings with a tick\<close>

text \<open>Session 2 is given the full state of entity 5 in a batch.\<close>

definition leaksTo2 :: "demoEntity Server \<Rightarrow> bool" where
  "leaksTo2 s \<longleftrightarrow> list_ex (\<lambda>c. case c of NetSendBatch j frames _ \<Rightarrow> j = 2 \<and> ln_Wrap (Some [1, 2]) \<in> set frames | _ \<Rightarrow> False) (sv_net s)"

definition emptyServer :: "demoEntity Server" where
  "emptyServer = scopedServer\<lparr>sv_reg := NewRegistry\<rparr>"

lemma chunk_count_eval: "ReliableStreamWriteChunkCount TransportWebSocket [[10, 2, 1, 2], [10, 1, 1]] = Inr 1"
  by (simp add: ReliableStreamWriteChunkCount_def countReliableFrameChunks_def normalizeTransport_def
      rawReliableChunkEncoder_def maxWebSocketPayloadBytes_def validateReliableMessageSize_def maxReliableMessageBytes_def Let_def)

lemmas entity_eval = CreateEntity_def AddOwnedWithoutSpawn_def NotifySpawn_def DeleteEntity_def clearAvatarByEntity_def
  reg_DeleteEntity_def removalRevision_def NewRegistry_def SetOwner_def reg_SetOwner_def queueOwnershipRefreshLocked_def
  entityIsOwnerScoped_def

lemmas whole_tick_eval = runBroadcastTick_def reg_FlushAll_def shouldFilterBroadcastLocked_def HasGroupedEntities_def
  hasPendingOwnershipRefreshLocked_def hasOwnerScopedEntities_def runBroadcastTickBlind_def flushUpdates_def
  blindDone_def applyBlindBroadcastKnown_def lastRemovals_def

text \<open>
  An owner-scoped entity created for session 1 and deleted before the same tick is still among the
  spawns of the flush, but no longer live, so the tick sees nothing owner-scoped and takes the
  blind path: session 2 is sent the full private state.  Had the entity lived, session 2 would
  have been sent the public state.
\<close>

theorem short_lived_entity_leaks:
  "leaksTo2 (snd (runBroadcastTick scopedEnv None
     (ownerStep scopedEnv (OpDeleteEntity 5) (ownerStep scopedEnv (OpCreateEntity 5 [1]) emptyServer))))
   \<and> \<not> leaksTo2 (snd (runBroadcastTick scopedEnv None (ownerStep scopedEnv (OpCreateEntity 5 [1]) emptyServer)))"
proof
  show "leaksTo2 (snd (runBroadcastTick scopedEnv None
     (ownerStep scopedEnv (OpDeleteEntity 5) (ownerStep scopedEnv (OpCreateEntity 5 [1]) emptyServer))))"
    by (simp add: leaksTo2_def emptyServer_def entity_eval env_eval world_eval tick_eval whole_tick_eval chunk_count_eval)
  show "\<not> leaksTo2 (snd (runBroadcastTick scopedEnv None (ownerStep scopedEnv (OpCreateEntity 5 [1]) emptyServer)))"
    by (simp add: leaksTo2_def emptyServer_def entity_eval env_eval world_eval tick_eval whole_tick_eval frames_eval)
qed

text \<open>Both sessions know entity 5.\<close>

definition knownServer :: "demoEntity Server" where
  "knownServer = scopedServer\<lparr>sv_broadcastKnown := [(1, [(5, ())]), (2, [(5, ())])]\<rparr>"

definition reusedServer :: "demoEntity Server" where
  "reusedServer = fold (ownerStep scopedEnv) [OpSetOwner 5 2, OpDeleteEntity 5, OpCreateEntity 5 [1]] knownServer"

text \<open>
  A transfer that is pending when the entity is deleted and its identifier used again is applied to
  the new entity: entity 5 is handed to session 2, deleted, and created again for session 1; the
  tick sends session 2 the full state of the new entity although session 1 owns it.
\<close>

theorem stale_grant_leaks:
  "sv_Owner reusedServer 5 = Some 1 \<and> leaksTo2 (snd (runBroadcastTick scopedEnv None reusedServer))"
proof -
  have s: "reusedServer = scopedServer\<lparr>sv_reg := \<lparr>rg_entities = [(5, 5)], rg_owners = [(5, 1)], rg_spawned = [5], rg_despawned = [5],
      rg_despawnedRevision = [5]\<rparr>, sv_ownershipRefresh := [(5, \<lparr>rf_clearOwner = 1, rf_newOwner = 2\<rparr>)],
      sv_broadcastKnown := [(1, [(5, ())]), (2, [(5, ())])]\<rparr>"
    by (simp add: reusedServer_def knownServer_def entity_eval env_eval world_eval)
  show ?thesis unfolding s
    by (simp add: leaksTo2_def sv_Owner_def env_eval world_eval tick_eval whole_tick_eval frames_eval
        refreshOne_def refreshClear_def refreshGrant_def clearEventualEntity_def)
qed

end
