(* ===== verification/Snapshot_Restore.thy ===== *)
theory Snapshot_Restore
  imports Eventual_Delivery
begin

text \<open>
  Saving and restoring a world (\<^verbatim>\<open>SaveSnapshot\<close> and \<^verbatim>\<open>LoadSnapshot\<close> of
  \<^verbatim>\<open>golem/snapshot_api.go\<close>): the persistent entities come back under their identifiers, and the identifiers handed out afterwards are new when
  the world was empty before, but not in general.
\<close>

section \<open>Saving a world\<close>

text \<open>
  What \<^verbatim>\<open>Save\<close> reads from an entity: \<open>typeName\<close> and the optional \<open>isPersistent\<close> are
  methods of the entity beside those of \<open>en_ifc\<close>.  The entities do not change while the background
  goroutine serialises them.
\<close>

definition snapEntityOf :: "('e \<Rightarrow> bytes) \<Rightarrow> ('e \<Rightarrow> bool option) \<Rightarrow> 'e srvEnv \<Rightarrow> 'e \<Rightarrow> snapEntity" where
  "snapEntityOf typeName isPersistent env e =
     \<lparr>se_EntityID = ei_EntityID (en_ifc env) e, se_TypeName = typeName e,
      se_FullUpdate = ei_FullUpdate (en_ifc env) e, se_IsPersistent = isPersistent e\<rparr>"

definition SaveSnapshot ::
  "('e \<Rightarrow> bytes) \<Rightarrow> ('e \<Rightarrow> bool option) \<Rightarrow> 'e srvEnv \<Rightarrow> int64 \<Rightarrow> bytes option option \<Rightarrow> bool
     \<Rightarrow> bytes \<Rightarrow> bytes \<Rightarrow> fs \<Rightarrow> 'e Server \<Rightarrow> snapshotError option \<times> fs" where
  "SaveSnapshot typeName isPersistent env now wr rn fingerprint path fs s =
     save now wr rn (map (snapEntityOf typeName isPersistent env) (sv_All env s)) fingerprint path fs"

text \<open>The record of an entity that is saved.\<close>

definition savedAs :: "('e \<Rightarrow> bytes) \<Rightarrow> ('e \<Rightarrow> bool option) \<Rightarrow> 'e srvEnv \<Rightarrow> 'e \<Rightarrow> snapRecord \<Rightarrow> bool" where
  "savedAs typeName isPersistent env e rc \<longleftrightarrow> isPersistent e \<noteq> Some False
     \<and> ei_FullUpdate (en_ifc env) e = Inr (Some (rec_StateData rc))
     \<and> rec_EntityID rc = ei_EntityID (en_ifc env) e \<and> rec_TypeName rc = typeName e"

lemma persisted_iff:
  "persistedRecord (snapEntityOf typeName isPersistent env e) = Some rc \<longleftrightarrow> savedAs typeName isPersistent env e rc"
  by (cases rc) (auto simp: persistedRecord_def snapEntityOf_def savedAs_def split: sum.splits option.splits)

lemma in_map_filter_map: "rc \<in> set (List.map_filter f (map g xs)) \<longleftrightarrow> (\<exists>x \<in> set xs. f (g x) = Some rc)"
  by (induction xs) (auto simp: map_filter_simps split: option.splits)

lemma length_map_filter_le: "length (List.map_filter f xs) \<le> length xs"
  by (induction xs) (auto simp: map_filter_simps split: option.split)

lemma live_sv_All:
  assumes "iter_order (en_ordEntities env (rg_entities (sv_reg s))) (rg_entities (sv_reg s))"
  shows "x \<in> set (sv_All env s) \<longleftrightarrow> (\<exists>j. sv_Get s j = Some x)"
proof -
  have "r \<in> set (reg_All (en_ordEntities env (rg_entities (sv_reg s))) (sv_reg s)) \<longleftrightarrow> (\<exists>j. reg_Get (sv_reg s) j = Some r)" for r
    using assms in_map_filter_map [of r "map_of (rg_entities (sv_reg s))" "\<lambda>x. x"]
    by (auto simp: reg_All_def iter_order_def gm_keys_dom reg_Get_def)
  then show ?thesis by (simp add: sv_All_def sv_Get_def image_iff) blast
qed

lemma length_sv_All:
  assumes "iter_order (en_ordEntities env (rg_entities (sv_reg s))) (rg_entities (sv_reg s))"
    and "gm_wf (rg_entities (sv_reg s))"
  shows "length (sv_All env s) \<le> length (rg_entities (sv_reg s))"
proof -
  let ?m = "rg_entities (sv_reg s)"
  have "length (en_ordEntities env ?m) = length ?m"
    using assms by (metis distinct_card gm_keys_def gm_wf_def iter_order_def length_map)
  then show ?thesis
    using length_map_filter_le [of "map_of ?m" "en_ordEntities env ?m"] by (simp add: sv_All_def reg_All_def)
qed

section \<open>What a successful load leaves\<close>

definition restores :: "'e srvEnv \<Rightarrow> (snapRecord \<Rightarrow> string + 'e) \<Rightarrow> snapRecord list \<Rightarrow> bool" where
  "restores env restore records \<longleftrightarrow>
     (\<forall>rc \<in> set records. \<forall>e. restore rc = Inr e \<longrightarrow>
        ei_EntityID (en_ifc env) e = rec_EntityID rc \<and> sint (rec_EntityID rc) > 0)"

definition restored :: "(snapRecord \<Rightarrow> string + 'e) \<Rightarrow> snapRecord list \<Rightarrow> int64 \<Rightarrow> 'e \<Rightarrow> bool" where
  "restored restore records i e \<longleftrightarrow> (\<exists>rc \<in> set records. rec_EntityID rc = i \<and> restore rc = Inr e)"

definition loadInv :: "(snapRecord \<Rightarrow> string + 'e) \<Rightarrow> snapRecord list \<Rightarrow> eref \<Rightarrow> int64 \<Rightarrow> 'e Server \<Rightarrow> bool" where
  "loadInv restore done nxt maxID s \<longleftrightarrow>
     (\<forall>k r. map_of (rg_entities (sv_reg s)) k = Some r \<longrightarrow> r < nxt)
     \<and> (\<forall>i e. sv_Get s i = Some e \<longleftrightarrow> restored restore done i e)
     \<and> sint maxID \<ge> 0 \<and> (\<forall>i e. restored restore done i e \<longrightarrow> sint i \<le> sint maxID)"

lemma restored_Nil [simp]: "\<not> restored restore [] i e"
  by (simp add: restored_def)

lemma restored_snoc:
  "restored restore (done @ [rc]) i e \<longleftrightarrow> restored restore done i e \<or> (rec_EntityID rc = i \<and> restore rc = Inr e)"
  by (auto simp: restored_def)

lemma load_create:
  assumes i: "loadInv restore done nxt maxID s" and e: "restore rc = Inr e" "ei_EntityID (en_ifc env) e = rec_EntityID rc"
    and p: "sint (rec_EntityID rc) > 0"
    and c: "CreateEntity env nxt [] (s\<lparr>sv_heap := (sv_heap s)(nxt := e)\<rparr>) = (None, sp, s')"
  shows "loadInv restore (done @ [rc]) (Suc nxt) (if sint (rec_EntityID rc) > sint maxID then rec_EntityID rc else maxID) s'"
proof -
  have nz: "rec_EntityID rc \<noteq> 0" using p by auto
  have n: "map_of (rg_entities (sv_reg s)) (rec_EntityID rc) = None"
    and s': "s' = s\<lparr>sv_heap := (sv_heap s)(nxt := e), sv_reg := (sv_reg s)\<lparr>rg_entities := AList.update (rec_EntityID rc) nxt (rg_entities (sv_reg s)),
        rg_spawned := rg_spawned (sv_reg s) @ [nxt]\<rparr>\<rparr>"
    using c e nz by (auto simp: CreateEntity_def AddWithoutSpawn_def Let_def split: if_splits)
  have lt: "\<forall>k r. map_of (rg_entities (sv_reg s)) k = Some r \<longrightarrow> r < nxt" using i by (simp add: loadInv_def)
  have get: "sv_Get s' j = (if j = rec_EntityID rc then Some e else sv_Get s j)" for j
    using lt by (cases "map_of (rg_entities (sv_reg s)) j") (auto simp: s' sv_Get_def reg_Get_def)
  have none: "\<not> restored restore done (rec_EntityID rc) x" for x
  proof -
    have "sv_Get s (rec_EntityID rc) = None" using n by (simp add: sv_Get_def reg_Get_def)
    then show ?thesis using i by (metis loadInv_def option.distinct(1))
  qed
  have "sv_Get s' j = Some x \<longleftrightarrow> restored restore (done @ [rc]) j x" for j x
    using i none e by (auto simp: get restored_snoc loadInv_def)
  moreover have "r < Suc nxt" if "map_of (rg_entities (sv_reg s')) k = Some r" for k r
    using that lt by (auto simp: s' less_SucI split: if_splits)
  moreover have "sint j \<le> sint (if sint (rec_EntityID rc) > sint maxID then rec_EntityID rc else maxID)"
    if "restored restore (done @ [rc]) j x" for j x
    using that i by (fastforce simp: restored_snoc loadInv_def)
  ultimately show ?thesis using i by (auto simp: loadInv_def)
qed

lemma loadLoop_inv:
  assumes "loadInv restore done nxt maxID s" and "restores env restore records"
    and "loadLoop env restore records nxt maxID s = (Inr m, s')"
  shows "\<exists>n. loadInv restore (done @ records) n m s'"
  using assms
proof (induction records arbitrary: "done" nxt maxID s)
  case (Cons rc recs)
  have r: "restores env restore recs" using Cons.prems(2) by (simp add: restores_def)
  show ?case
  proof (cases "restore rc")
    case (Inl err)
    have "loadInv restore (done @ [rc]) nxt maxID s"
      using Cons.prems(1) Inl by (simp add: loadInv_def restored_snoc)
    then show ?thesis using Cons.IH [OF _ r] Cons.prems(3) Inl by fastforce
  next
    case (Inr e)
    obtain sp s1 where c: "CreateEntity env nxt [] (s\<lparr>sv_heap := (sv_heap s)(nxt := e)\<rparr>) = (None, sp, s1)"
      and l: "loadLoop env restore recs (Suc nxt) (if sint (rec_EntityID rc) > sint maxID then rec_EntityID rc else maxID) s1 = (Inr m, s')"
      using Cons.prems(3) Inr by (auto split: option.splits prod.splits)
    have "ei_EntityID (en_ifc env) e = rec_EntityID rc" "sint (rec_EntityID rc) > 0"
      using Cons.prems(2) Inr by (simp_all add: restores_def)
    from Cons.IH [OF load_create [OF Cons.prems(1) Inr this c] r l] show ?thesis by simp
  qed
qed auto

lemma next_above:
  assumes "sint (c :: int64) < 2 ^ 63 - 1" "0 \<le> sint c" shows "sint (c + 1) = sint c + 1"
  using assms by (simp add: sint_word_ariths signed_take_bit_int_eq_self)

lemma load_into_empty:
  assumes "rg_entities (sv_reg s) = []" and "Load fs path fp = Inr records" and "restores env restore records"
    and "LoadSnapshot env fs path fp restore nxt s = (None, s')"
  shows "(\<forall>i e. sv_Get s' i = Some e \<longleftrightarrow> restored restore records i e)
    \<and> (\<forall>i e. sv_Get s' i = Some e \<longrightarrow> sint i \<le> sint (sv_idCounter s'))
    \<and> (sint (sv_idCounter s') < 2 ^ 63 - 1 \<longrightarrow> 0 \<le> sint (sv_idCounter s') \<longrightarrow> sv_Get s' (fst (ReserveEntityID s')) = None)"
proof -
  obtain m s1 where l: "loadLoop env restore records nxt 0 s = (Inr m, s1)"
    and s': "s' = (if sint m > 0 then SetEntityIDCounter m s1 else s1)"
    using assms(2,4) by (auto simp: LoadSnapshot_def split: prod.splits sum.splits)
  have "loadInv restore [] nxt 0 s" using assms(1) by (simp add: loadInv_def sv_Get_def reg_Get_def)
  from loadLoop_inv [OF this assms(3) l] obtain n where I: "loadInv restore records n m s1" by auto
  have g: "sv_Get s' = sv_Get s1" by (simp add: s' SetEntityIDCounter_def sv_Get_def [abs_def])
  have pos: "sint i > 0" if "restored restore records i e" for i e
    using that assms(3) by (auto simp: restored_def restores_def)
  have le: "sint i \<le> sint (sv_idCounter s')" if "restored restore records i e" for i e
  proof -
    have "sint i \<le> sint m" using I that by (auto simp: loadInv_def)
    then show ?thesis using pos [OF that] by (simp add: s' SetEntityIDCounter_def)
  qed
  have live: "sv_Get s' i = Some e \<longleftrightarrow> restored restore records i e" for i e using I by (simp add: g loadInv_def)
  have "sv_Get s' (sv_idCounter s' + 1) = None" if "sint (sv_idCounter s') < 2 ^ 63 - 1" "0 \<le> sint (sv_idCounter s')"
  proof (rule ccontr)
    assume "sv_Get s' (sv_idCounter s' + 1) \<noteq> None"
    then obtain e where "restored restore records (sv_idCounter s' + 1) e" using live by auto
    from le [OF this] next_above [OF that] show False by simp
  qed
  then show ?thesis using live le by (simp add: ReserveEntityID_def nextID_def)
qed

text \<open>
  C21.  Saving a world and loading it into an empty one brings back
  exactly the persistent entities: an entity is live afterwards under an identifier precisely
  when the saved world had a persistent entity there and the game rebuilt it from that entity's
  own full update and type name.  The identifier counter then is at or above every live
  identifier, so the next entity gets a new one.
\<close>

theorem restore_world:
  assumes "iter_order (en_ordEntities env (rg_entities (sv_reg s0))) (rg_entities (sv_reg s0))"
    and "\<And>i e. sv_Get s0 i = Some e \<Longrightarrow> ei_EntityID (en_ifc env) e = i \<and> sint i > 0"
    and "SaveSnapshot typeName isPersistent env now wr rn fingerprint path fs s0 = (None, fs')"
    and "\<And>i e rc. sv_Get s0 i = Some e \<Longrightarrow> savedAs typeName isPersistent env e rc \<Longrightarrow> rec_small rc"
    and "length (rg_entities (sv_reg s0)) < 2 ^ 32" and "gm_wf (rg_entities (sv_reg s0))" and "length fingerprint < 2 ^ 63"
    and "\<And>rc e. restore rc = Inr e \<Longrightarrow> ei_EntityID (en_ifc env) e = rec_EntityID rc"
    and "rg_entities (sv_reg s) = []" and "LoadSnapshot env fs' path fingerprint restore nxt s = (None, s')"
  shows "(\<forall>i e'. sv_Get s' i = Some e' \<longleftrightarrow>
        (\<exists>e rc. sv_Get s0 i = Some e \<and> savedAs typeName isPersistent env e rc \<and> restore rc = Inr e'))
    \<and> (\<forall>i e. sv_Get s' i = Some e \<longrightarrow> sint i \<le> sint (sv_idCounter s'))
    \<and> (sint (sv_idCounter s') < 2 ^ 63 - 1 \<longrightarrow> 0 \<le> sint (sv_idCounter s') \<longrightarrow> sv_Get s' (fst (ReserveEntityID s')) = None)"
proof -
  let ?es = "map (snapEntityOf typeName isPersistent env) (sv_All env s0)"
  let ?rs = "List.map_filter persistedRecord ?es"
  have live: "x \<in> set (sv_All env s0) \<longleftrightarrow> (\<exists>j. sv_Get s0 j = Some x)" for x
    using live_sv_All [OF assms(1)] .
  have rec: "rc \<in> set ?rs \<longleftrightarrow> (\<exists>j e. sv_Get s0 j = Some e \<and> savedAs typeName isPersistent env e rc)" for rc
    unfolding in_map_filter_map persisted_iff using live by blast
  have "length ?rs \<le> length (sv_All env s0)"
    by (rule order_trans [OF length_map_filter_le]) simp
  also have "\<dots> \<le> length (rg_entities (sv_reg s0))" by (rule length_sv_All [OF assms(1,6)])
  finally have n: "length ?rs < 2 ^ 32" using assms(5) by simp
  have sm: "list_all rec_small ?rs" unfolding list_all_iff using rec assms(4) by blast
  have ld: "Load fs' path fingerprint = Inr ?rs"
    using save_loads [OF assms(3) [unfolded SaveSnapshot_def] sm n assms(7)] .
  have at: "sv_Get s0 (rec_EntityID rc) = Some e \<and> sint (rec_EntityID rc) > 0"
    if "sv_Get s0 j = Some e" "savedAs typeName isPersistent env e rc" for j e rc
    using assms(2) [OF that(1)] that by (simp add: savedAs_def)
  have "restores env restore ?rs"
    unfolding restores_def
  proof (intro ballI allI impI conjI)
    fix rc e assume rc: "rc \<in> set ?rs" and e: "restore rc = Inr e"
    show "ei_EntityID (en_ifc env) e = rec_EntityID rc" using assms(8) [OF e] .
    from rc obtain j x where "sv_Get s0 j = Some x" "savedAs typeName isPersistent env x rc" using rec by blast
    from at [OF this] show "sint (rec_EntityID rc) > 0" by simp
  qed
  note R = load_into_empty [OF assms(9) ld this assms(10)]
  have "restored restore ?rs i e' \<longleftrightarrow>
      (\<exists>e rc. sv_Get s0 i = Some e \<and> savedAs typeName isPersistent env e rc \<and> restore rc = Inr e')" for i e'
  proof
    assume "restored restore ?rs i e'"
    then obtain rc where rc: "rc \<in> set ?rs" "rec_EntityID rc = i" "restore rc = Inr e'"
      by (auto simp: restored_def)
    then obtain j x where x: "sv_Get s0 j = Some x" "savedAs typeName isPersistent env x rc" using rec by blast
    with at [OF this] rc show "\<exists>e rc. sv_Get s0 i = Some e \<and> savedAs typeName isPersistent env e rc \<and> restore rc = Inr e'"
      by blast
  next
    assume "\<exists>e rc. sv_Get s0 i = Some e \<and> savedAs typeName isPersistent env e rc \<and> restore rc = Inr e'"
    then obtain x rc where x: "sv_Get s0 i = Some x" "savedAs typeName isPersistent env x rc" "restore rc = Inr e'" by blast
    then have "rc \<in> set ?rs" using rec by blast
    moreover have "rec_EntityID rc = i" using assms(2) [OF x(1)] x(2) by (simp add: savedAs_def)
    ultimately show "restored restore ?rs i e'" using x(3) by (auto simp: restored_def)
  qed
  with R show ?thesis by simp
qed

section \<open>Examples\<close>

text \<open>A file with entity 6, a game that can rebuild it, and a server that has entity 7 already.\<close>

definition record6 :: snapRecord where
  "record6 = \<lparr>rec_EntityID = 6, rec_TypeName = [0x4E], rec_StateData = [1, 2]\<rparr>"

definition demoFile :: fs where
  "demoFile = [[0x61] \<mapsto> encodeSnapshot 9 [7] [record6]]"

definition demoRestore :: "snapRecord \<Rightarrow> string + demoEntity" where
  "demoRestore rc = Inr \<lparr>de_id = rec_EntityID rc, de_delta = None, de_full = rec_StateData rc\<rparr>"

definition freshServer :: "demoEntity Server" where
  "freshServer = demoServer\<lparr>sv_idCounter := 0, sv_reg := NewRegistry\<rparr>"

definition serverWith7 :: "demoEntity Server" where
  "serverWith7 = demoServer\<lparr>sv_idCounter := 7, sv_reg := NewRegistry\<lparr>rg_entities := [(7, 7)]\<rparr>,
     sv_heap := (\<lambda>_. \<lparr>de_id = 0, de_delta = None, de_full = []\<rparr>)(7 := \<lparr>de_id = 7, de_delta = None, de_full = [3]\<rparr>)\<rparr>"

lemma demoFile_loads: "Load demoFile [0x61] [7] = Inr [record6]"
  using decode_encodeSnapshot [of "[record6]" "[7]" 9 "[7]"] by (simp add: Load_def demoFile_def rec_small_def record6_def)

lemmas load_eval = LoadSnapshot_def demoFile_loads demoRestore_def record6_def CreateEntity_def AddWithoutSpawn_def
  NotifySpawn_def NewRegistry_def demoEnv_def demoIface_def demoServer_def SetEntityIDCounter_def nextID_def Let_def

text \<open>A world with a persistent entity 6 and a transient entity 8, saved and loaded elsewhere.\<close>

definition savedServer :: "demoEntity Server" where
  "savedServer = demoServer\<lparr>sv_reg := NewRegistry\<lparr>rg_entities := [(6, 6), (8, 8)]\<rparr>,
     sv_heap := (\<lambda>i. \<lparr>de_id = of_nat i, de_delta = None, de_full = [1, 2]\<rparr>)\<rparr>"

definition demoPersistent :: "demoEntity \<Rightarrow> bool option" where
  "demoPersistent e = Some (de_id e \<noteq> 8)"

theorem restore_world_witness:
  "\<exists>fs' s'. SaveSnapshot (\<lambda>_. [0x4E]) demoPersistent demoEnv 9 None True [7] [0x61] (\<lambda>_. None) savedServer = (None, fs')
     \<and> LoadSnapshot demoEnv fs' [0x61] [7] demoRestore 1 freshServer = (None, s')
     \<and> sv_Get s' 6 = Some \<lparr>de_id = 6, de_delta = None, de_full = [1, 2]\<rparr> \<and> sv_Get s' 8 = None
     \<and> sv_Get s' (fst (ReserveEntityID s')) = None"
proof -
  let ?tn = "\<lambda>_ :: demoEntity. [0x4E :: byte]"
  have all: "map (snapEntityOf ?tn demoPersistent demoEnv) (sv_All demoEnv savedServer) =
      [\<lparr>se_EntityID = 6, se_TypeName = [0x4E], se_FullUpdate = Inr (Some [1, 2]), se_IsPersistent = Some True\<rparr>,
       \<lparr>se_EntityID = 8, se_TypeName = [0x4E], se_FullUpdate = Inr (Some [1, 2]), se_IsPersistent = Some False\<rparr>]"
    by (simp add: sv_All_def reg_All_def savedServer_def demoServer_def demoEnv_def demoIface_def NewRegistry_def
        map_filter_simps snapEntityOf_def demoPersistent_def)
  have rs: "List.map_filter persistedRecord (map (snapEntityOf ?tn demoPersistent demoEnv) (sv_All demoEnv savedServer)) = [record6]"
    by (simp add: all map_filter_simps persistedRecord_def record6_def)
  obtain fs' where sv: "SaveSnapshot ?tn demoPersistent demoEnv 9 None True [7] [0x61] (\<lambda>_. None) savedServer = (None, fs')"
    by (simp add: SaveSnapshot_def all save_def Let_def)
  have ld: "Load fs' [0x61] [7] = Inr [record6]"
    using save_loads [OF sv [unfolded SaveSnapshot_def]] by (simp add: rs rec_small_def record6_def)
  obtain s' where l: "LoadSnapshot demoEnv fs' [0x61] [7] demoRestore 1 freshServer = (None, s')"
    and c: "sv_idCounter s' = 6"
    by (simp add: load_eval ld freshServer_def)
  have get: "sv_Get savedServer i = (if i = 6 \<or> i = 8 then Some \<lparr>de_id = i, de_delta = None, de_full = [1, 2]\<rparr> else None)" for i
    by (simp add: sv_Get_def reg_Get_def savedServer_def NewRegistry_def)
  have o1: "iter_order (en_ordEntities demoEnv (rg_entities (sv_reg savedServer))) (rg_entities (sv_reg savedServer))"
    by (simp add: demoEnv_def iter_order_def gm_keys_def savedServer_def)
  have i1: "ei_EntityID (en_ifc demoEnv) e = i \<and> sint i > 0" if "sv_Get savedServer i = Some e" for i e
    using that by (auto simp: get demoEnv_def demoIface_def split: if_splits)
  have sm: "rec_small rc" if "sv_Get savedServer i = Some e" "savedAs ?tn demoPersistent demoEnv e rc" for i e rc
  proof -
    have "rec_StateData rc = [1, 2]" "rec_TypeName rc = [0x4E]"
      using that by (auto simp: get savedAs_def demoEnv_def demoIface_def split: if_splits dest: sym)
    then show ?thesis by (simp add: rec_small_def)
  qed
  have e1: "length (rg_entities (sv_reg savedServer)) < 2 ^ 32" "gm_wf (rg_entities (sv_reg savedServer))" "length [7 :: byte] < 2 ^ 63"
    by (simp_all add: savedServer_def gm_wf_def)
  have r1: "ei_EntityID (en_ifc demoEnv) e = rec_EntityID rc" if "demoRestore rc = Inr e" for rc e
    using that by (auto simp: demoRestore_def demoEnv_def demoIface_def)
  have f1: "rg_entities (sv_reg freshServer) = []" by (simp add: freshServer_def NewRegistry_def)
  have R: "(\<forall>i e'. sv_Get s' i = Some e' \<longleftrightarrow> (\<exists>e rc. sv_Get savedServer i = Some e
        \<and> savedAs ?tn demoPersistent demoEnv e rc \<and> demoRestore rc = Inr e'))
    \<and> (\<forall>i e. sv_Get s' i = Some e \<longrightarrow> sint i \<le> sint (sv_idCounter s'))
    \<and> (sint (sv_idCounter s') < 2 ^ 63 - 1 \<longrightarrow> 0 \<le> sint (sv_idCounter s') \<longrightarrow> sv_Get s' (fst (ReserveEntityID s')) = None)"
    using restore_world [OF o1 _ sv _ e1 _ f1 l] i1 sm r1 by simp
  have "savedAs ?tn demoPersistent demoEnv \<lparr>de_id = 6, de_delta = None, de_full = [1, 2]\<rparr> record6"
    by (simp add: savedAs_def demoPersistent_def demoEnv_def demoIface_def record6_def)
  then have "sv_Get s' 6 = Some \<lparr>de_id = 6, de_delta = None, de_full = [1, 2]\<rparr>"
    using R get [of 6] by (auto simp: demoRestore_def record6_def)
  moreover have "sv_Get s' 8 = None"
  proof (cases "sv_Get s' 8")
    case (Some x)
    then obtain e rc where "sv_Get savedServer 8 = Some e" "savedAs ?tn demoPersistent demoEnv e rc" using R by blast
    then show ?thesis using get [of 8] by (auto simp: savedAs_def demoPersistent_def)
  qed
  ultimately show ?thesis using R sv l c by auto
qed

text \<open>
  Loading sets the counter to the largest identifier of the file even when that is lower: a server
  that has handed out 7 identifiers and still has entity 7 loads a file with entity 6, and the next
  \<^verbatim>\<open>CreateEntity\<close> is refused because the identifier it assigns is taken.
\<close>

theorem load_snapshot_rewinds_counter:
  "fst (LoadSnapshot demoEnv demoFile [0x61] [7] demoRestore 1 serverWith7) = None
   \<and> sv_idCounter (snd (LoadSnapshot demoEnv demoFile [0x61] [7] demoRestore 1 serverWith7)) = 6
   \<and> fst (CreateEntity demoEnv 2 [] (snd (LoadSnapshot demoEnv demoFile [0x61] [7] demoRestore 1 serverWith7)))
       = Some (errRegistry (errAlreadyRegistered 7))"
  by (simp add: load_eval serverWith7_def)

end
