(* ===== verification/Tasks.thy ===== *)
theory Tasks
  imports Golem_Prelude "HOL-Library.Multiset"
begin

text \<open>
  Background tasks and posted callbacks (\<^verbatim>\<open>golem/tasks.go\<close>, with the lifecycle part of
  \<^verbatim>\<open>Run\<close> in \<^verbatim>\<open>golem/loop.go\<close>).  Each operation is what the source does under one
  hold of \<^verbatim>\<open>lifeMu\<close> or between two blocking points; the step relation at the end
  interleaves them with the workers and with the tick.  The worker pool is the library Pond: of
  it the model uses that an accepted task is started at most once, that a rejected one is not
  started, and that after cancellation a task not yet started may be skipped and is then counted.
  A callback \<open>'c\<close> and the work \<open>'w\<close> of a task are opaque; a nil function is \<open>None\<close>.
\<close>

section \<open>State\<close>

datatype lifecycleState = lifecycleCreated | lifecycleRunning | lifecycleStopping | lifecycleStopped

definition defaultPostQueueCapacity :: int where "defaultPostQueueCapacity = 1024"
definition defaultAsyncCallbacksPerTick :: int where "defaultAsyncCallbacksPerTick = 256"
definition defaultTaskWorkers :: int where "defaultTaskWorkers = 4"
definition defaultTaskQueueCapacity :: int where "defaultTaskQueueCapacity = 256"
definition defaultTaskCompletionQueueCapacity :: int where "defaultTaskCompletionQueueCapacity = 256"

record taskConfig =
  cf_PostQueueCapacity :: int
  cf_AsyncCallbacksPerTick :: int
  cf_TaskWorkers :: int
  cf_TaskQueueCapacity :: int
  cf_TaskCompletionQueueCapacity :: int

text \<open>\<open>None\<close>: the source panics.\<close>

definition normalizeTaskConfig :: "taskConfig \<Rightarrow> taskConfig option" where
  "normalizeTaskConfig cfg =
     (if cf_PostQueueCapacity cfg < 0 then None
      else if cf_AsyncCallbacksPerTick cfg < 0 then None
      else if cf_TaskWorkers cfg < 0 then None
      else if cf_TaskQueueCapacity cfg < 0 then None
      else if cf_TaskCompletionQueueCapacity cfg < 0 then None
      else
        (let cfg = (if cf_PostQueueCapacity cfg = 0 then cfg\<lparr>cf_PostQueueCapacity := defaultPostQueueCapacity\<rparr> else cfg);
             cfg = (if cf_AsyncCallbacksPerTick cfg = 0
                    then cfg\<lparr>cf_AsyncCallbacksPerTick := defaultAsyncCallbacksPerTick\<rparr> else cfg);
             cfg = (if cf_TaskWorkers cfg = 0 then cfg\<lparr>cf_TaskWorkers := defaultTaskWorkers\<rparr> else cfg);
             cfg = (if cf_TaskQueueCapacity cfg = 0 then cfg\<lparr>cf_TaskQueueCapacity := defaultTaskQueueCapacity\<rparr> else cfg);
             cfg = (if cf_TaskCompletionQueueCapacity cfg = 0
                    then cfg\<lparr>cf_TaskCompletionQueueCapacity := defaultTaskCompletionQueueCapacity\<rparr> else cfg)
         in Some cfg))"

record 'c taskCompletion =
  tc_complete :: 'c
  tc_err :: "string option"

record 'c taskServer =
  tk_config :: taskConfig
  tk_life :: lifecycleState
  tk_postQueue :: "'c list"
  tk_completionQueue :: "'c taskCompletion list"
  tk_asyncPreferCompletion :: bool
  tk_taskPool :: bool
  tk_tasksAccepted :: u64
  tk_tasksFinished :: u64
  tk_taskCompletionsExecuted :: u64
  tk_tasksRejectedFull :: u64
  tk_tasksCancelled :: u64
  tk_taskPanics :: u64
  tk_postsAccepted :: u64
  tk_postsExecuted :: u64
  tk_postsRejectedFull :: u64

definition newTaskServer :: "taskConfig \<Rightarrow> 'c taskServer" where
  "newTaskServer cfg = \<lparr>tk_config = cfg, tk_life = lifecycleCreated, tk_postQueue = [], tk_completionQueue = [],
     tk_asyncPreferCompletion = True, tk_taskPool = False, tk_tasksAccepted = 0, tk_tasksFinished = 0,
     tk_taskCompletionsExecuted = 0, tk_tasksRejectedFull = 0, tk_tasksCancelled = 0, tk_taskPanics = 0,
     tk_postsAccepted = 0, tk_postsExecuted = 0, tk_postsRejectedFull = 0\<rparr>"

definition postCap :: "'c taskServer \<Rightarrow> nat" where
  "postCap s = nat (cf_PostQueueCapacity (tk_config s))"

definition completionCap :: "'c taskServer \<Rightarrow> nat" where
  "completionCap s = nat (cf_TaskCompletionQueueCapacity (tk_config s))"

text \<open>\<open>waiting\<close> and \<open>workers\<close> are the gauges of the pool.\<close>

record TaskStats =
  st_QueuedTasks :: u64
  st_RunningTasks :: u64
  st_QueuedCompletions :: u64
  st_QueuedPosts :: u64
  st_TasksAccepted :: u64
  st_TasksFinished :: u64
  st_TaskCompletionsExecuted :: u64
  st_TasksRejectedFull :: u64
  st_TasksCancelled :: u64
  st_TaskPanics :: u64
  st_PostsAccepted :: u64
  st_PostsExecuted :: u64
  st_PostsRejectedFull :: u64

definition taskStats :: "u64 \<Rightarrow> int64 \<Rightarrow> 'c taskServer \<Rightarrow> TaskStats" where
  "taskStats waiting workers s =
     \<lparr>st_QueuedTasks = (if tk_taskPool s then waiting else 0),
      st_RunningTasks = (if tk_taskPool s \<and> sint workers > 0 then workers else 0),
      st_QueuedCompletions = of_nat (length (tk_completionQueue s)), st_QueuedPosts = of_nat (length (tk_postQueue s)),
      st_TasksAccepted = tk_tasksAccepted s, st_TasksFinished = tk_tasksFinished s,
      st_TaskCompletionsExecuted = tk_taskCompletionsExecuted s, st_TasksRejectedFull = tk_tasksRejectedFull s,
      st_TasksCancelled = tk_tasksCancelled s, st_TaskPanics = tk_taskPanics s, st_PostsAccepted = tk_postsAccepted s,
      st_PostsExecuted = tk_postsExecuted s, st_PostsRejectedFull = tk_postsRejectedFull s\<rparr>"

section \<open>Accepting\<close>

datatype taskError =
    ErrServerNotRunning
  | ErrServerAlreadyRun
  | ErrPostQueueFull
  | ErrTaskQueueFull
  | errNilPost
  | errNilContext
  | errNilWork
  | errNilComplete

definition Post :: "'c option \<Rightarrow> 'c taskServer \<Rightarrow> taskError option \<times> 'c taskServer" where
  "Post fn s =
     (case fn of
        None \<Rightarrow> (Some errNilPost, s)
      | Some f \<Rightarrow>
          if tk_life s \<noteq> lifecycleRunning then (Some ErrServerNotRunning, s)
          else if length (tk_postQueue s) < postCap s
          then (None, s\<lparr>tk_postQueue := tk_postQueue s @ [f], tk_postsAccepted := tk_postsAccepted s + 1\<rparr>)
          else (Some ErrPostQueueFull, s\<lparr>tk_postsRejectedFull := tk_postsRejectedFull s + 1\<rparr>))"

text \<open>\<open>ok\<close> is the answer of \<^verbatim>\<open>TrySubmitErr\<close>, \<open>stopped\<close> of \<^verbatim>\<open>Stopped\<close>.\<close>

definition SubmitTask ::
  "bool \<Rightarrow> 'w option \<Rightarrow> 'c option \<Rightarrow> bool \<Rightarrow> bool \<Rightarrow> 'c taskServer \<Rightarrow> taskError option \<times> 'c taskServer" where
  "SubmitTask ctx work complete ok stopped s =
     (if \<not> ctx then (Some errNilContext, s)
      else if work = None then (Some errNilWork, s)
      else if complete = None then (Some errNilComplete, s)
      else if tk_life s \<noteq> lifecycleRunning then (Some ErrServerNotRunning, s)
      else if \<not> ok then
        (if tk_life s \<noteq> lifecycleRunning \<or> stopped then (Some ErrServerNotRunning, s)
         else (Some ErrTaskQueueFull, s\<lparr>tk_tasksRejectedFull := tk_tasksRejectedFull s + 1\<rparr>))
      else (None, s\<lparr>tk_tasksAccepted := tk_tasksAccepted s + 1\<rparr>))"

section \<open>Running a task\<close>

datatype workResult = WorkReturns "string option" | WorkPanics string

definition ErrTaskPanicked :: string where
  "ErrTaskPanicked = ''golem: task panicked''"

text \<open>
  The error a completion gets and whether the work panicked.  \<open>effErr\<close> is the error of the
  effective context when the work returns.
\<close>

definition taskOutcome :: "workResult \<Rightarrow> string option \<Rightarrow> string option \<times> bool" where
  "taskOutcome r effErr =
     (case r of
        WorkPanics v \<Rightarrow> (Some (ErrTaskPanicked @ '': '' @ v), True)
      | WorkReturns None \<Rightarrow> (effErr, False)
      | WorkReturns (Some e) \<Rightarrow> (Some e, False))"

text \<open>The counters after the work; \<open>ended\<close>: the effective context has ended by then.\<close>

definition finishTask :: "bool \<Rightarrow> bool \<Rightarrow> 'c taskServer \<Rightarrow> 'c taskServer" where
  "finishTask panicked ended s =
     (let s = s\<lparr>tk_tasksFinished := tk_tasksFinished s + 1\<rparr>;
          s = (if panicked then s\<lparr>tk_taskPanics := tk_taskPanics s + 1\<rparr> else s)
      in if ended then s\<lparr>tk_tasksCancelled := tk_tasksCancelled s + 1\<rparr> else s)"

text \<open>The send of the final \<^verbatim>\<open>select\<close>; \<open>None\<close> while the queue is full.\<close>

definition sendCompletion :: "'c taskCompletion \<Rightarrow> 'c taskServer \<Rightarrow> 'c taskServer option" where
  "sendCompletion c s =
     (if length (tk_completionQueue s) < completionCap s
      then Some (s\<lparr>tk_completionQueue := tk_completionQueue s @ [c]\<rparr>) else None)"

section \<open>Draining on the tick\<close>

datatype 'c callback = RunPost 'c | RunCompletion 'c "string option"

record drainer =
  dr_left :: nat
  dr_remainC :: nat
  dr_remainP :: nat
  dr_prefer :: bool

definition drainBegin :: "'c taskServer \<Rightarrow> drainer option" where
  "drainBegin s =
     (if tk_life s \<noteq> lifecycleRunning then None
      else
        (let remainC = length (tk_completionQueue s); remainP = length (tk_postQueue s);
             n = int (remainC + remainP);
             n = (if n > cf_AsyncCallbacksPerTick (tk_config s) then cf_AsyncCallbacksPerTick (tk_config s) else n)
         in Some \<lparr>dr_left = nat n, dr_remainC = remainC, dr_remainP = remainP, dr_prefer = tk_asyncPreferCompletion s\<rparr>))"

text \<open>The two guarded non-blocking receives.\<close>

definition takeCompletion ::
  "drainer \<Rightarrow> 'c taskServer \<Rightarrow> 'c callback option \<times> drainer \<times> 'c taskServer" where
  "takeCompletion d s =
     (if dr_remainC d > 0 then
        (case tk_completionQueue s of
           [] \<Rightarrow> (None, d\<lparr>dr_remainC := 0\<rparr>, s)
         | c # cs \<Rightarrow> (Some (RunCompletion (tc_complete c) (tc_err c)), d\<lparr>dr_remainC := dr_remainC d - 1\<rparr>,
                      s\<lparr>tk_completionQueue := cs\<rparr>))
      else (None, d, s))"

definition takePost :: "drainer \<Rightarrow> 'c taskServer \<Rightarrow> 'c callback option \<times> drainer \<times> 'c taskServer" where
  "takePost d s =
     (if dr_remainP d > 0 then
        (case tk_postQueue s of
           [] \<Rightarrow> (None, d\<lparr>dr_remainP := 0\<rparr>, s)
         | p # ps \<Rightarrow> (Some (RunPost p), d\<lparr>dr_remainP := dr_remainP d - 1\<rparr>, s\<lparr>tk_postQueue := ps\<rparr>))
      else (None, d, s))"

definition countCallback :: "'c callback \<Rightarrow> 'c taskServer \<Rightarrow> 'c taskServer" where
  "countCallback cb s =
     (case cb of
        RunPost _ \<Rightarrow> s\<lparr>tk_postsExecuted := tk_postsExecuted s + 1\<rparr>
      | RunCompletion _ _ \<Rightarrow> s\<lparr>tk_taskCompletionsExecuted := tk_taskCompletionsExecuted s + 1\<rparr>)"

text \<open>One iteration up to the call; \<open>None\<close> ends the drain.\<close>

definition drainStep :: "drainer \<Rightarrow> 'c taskServer \<Rightarrow> ('c callback \<times> drainer \<times> 'c taskServer) option" where
  "drainStep d s =
     (if dr_left d = 0 then None
      else if tk_life s \<noteq> lifecycleRunning then None
      else
        (case (if dr_prefer d
               then (case takeCompletion d s of (None, d, s) \<Rightarrow> takePost d s | r \<Rightarrow> r)
               else (case takePost d s of (None, d, s) \<Rightarrow> takeCompletion d s | r \<Rightarrow> r)) of
           (None, d, s) \<Rightarrow> None
         | (Some cb, d, s) \<Rightarrow>
             (let prefer = (\<not> dr_prefer d);
                  s = s\<lparr>tk_asyncPreferCompletion := prefer\<rparr>
              in Some (cb, d\<lparr>dr_prefer := prefer, dr_left := dr_left d - 1\<rparr>, countCallback cb s))))"

text \<open>The whole drain; \<open>run\<close> is what a callback, and whatever happens meanwhile, does to the state.\<close>

fun drainLoop ::
  "('c callback \<Rightarrow> 'c taskServer \<Rightarrow> 'c taskServer) \<Rightarrow> nat \<Rightarrow> drainer \<Rightarrow> 'c taskServer
     \<Rightarrow> 'c callback list \<times> 'c taskServer" where
  "drainLoop run 0 d s = ([], s)"
| "drainLoop run (Suc n) d s =
     (case drainStep d s of
        None \<Rightarrow> ([], s)
      | Some (cb, d, s) \<Rightarrow> (case drainLoop run n d (run cb s) of (cbs, s) \<Rightarrow> (cb # cbs, s)))"

definition drainAsyncCallbacks ::
  "('c callback \<Rightarrow> 'c taskServer \<Rightarrow> 'c taskServer) \<Rightarrow> 'c taskServer \<Rightarrow> 'c callback list \<times> 'c taskServer" where
  "drainAsyncCallbacks run s =
     (case drainBegin s of None \<Rightarrow> ([], s) | Some d \<Rightarrow> drainLoop run (dr_left d) d s)"

section \<open>Lifecycle\<close>

definition markLifecycleStopping :: "'c taskServer \<Rightarrow> 'c taskServer" where
  "markLifecycleStopping s = (if tk_life s = lifecycleRunning then s\<lparr>tk_life := lifecycleStopping\<rparr> else s)"

definition discardQueuedPostsLocked :: "'c taskServer \<Rightarrow> 'c taskServer" where
  "discardQueuedPostsLocked s = s\<lparr>tk_postQueue := []\<rparr>"

definition discardQueuedCompletionsLocked :: "'c taskServer \<Rightarrow> 'c taskServer" where
  "discardQueuedCompletionsLocked s = s\<lparr>tk_completionQueue := []\<rparr>"

text \<open>The part of \<^verbatim>\<open>finalizeLifecycle\<close> after the pool has stopped; \<open>canceled\<close> is its count of skipped tasks.\<close>

definition finalizeLifecycle :: "u64 \<Rightarrow> 'c taskServer \<Rightarrow> 'c taskServer" where
  "finalizeLifecycle canceled s =
     (let s = markLifecycleStopping s;
          s = (if tk_taskPool s \<and> canceled > 0 then s\<lparr>tk_tasksCancelled := tk_tasksCancelled s + canceled\<rparr> else s)
      in discardQueuedCompletionsLocked (discardQueuedPostsLocked (s\<lparr>tk_life := lifecycleStopped\<rparr>)))"

definition startTaskPool :: "'c taskServer \<Rightarrow> 'c taskServer" where
  "startTaskPool s = s\<lparr>tk_taskPool := True\<rparr>"

text \<open>The start of \<^verbatim>\<open>Run\<close>; \<open>ended\<close>: the caller's context is done already.\<close>

definition runStart :: "bool \<Rightarrow> 'c taskServer \<Rightarrow> taskError option \<times> 'c taskServer" where
  "runStart ended s =
     (if tk_life s \<noteq> lifecycleCreated then (Some ErrServerAlreadyRun, s)
      else
        (let s = startTaskPool s
         in (None, s\<lparr>tk_life := (if ended then lifecycleStopping else lifecycleRunning)\<rparr>)))"

text \<open>The error of \<^verbatim>\<open>Run\<close>; cancellation and deadline errors are replaced by the caller's.\<close>

datatype runError = ContextCanceled | DeadlineExceeded | OtherError string

definition mapRunErr :: "runError option \<Rightarrow> runError option \<Rightarrow> runError option" where
  "mapRunErr loopErr caller =
     (case loopErr of
        None \<Rightarrow> None
      | Some e \<Rightarrow>
          if e = ContextCanceled \<or> e = DeadlineExceeded
          then (case caller of Some err \<Rightarrow> Some err | None \<Rightarrow> loopErr)
          else loopErr)"

section \<open>Interleavings\<close>

text \<open>
  The server with its workers.  The lists after \<open>sy_cancelled\<close> are history: what was accepted,
  run and dropped so far, in order.
\<close>

record ('w, 'c) taskSystem =
  sy_srv :: "'c taskServer"
  sy_waiting :: "('w \<times> 'c) list"
  sy_running :: "('w \<times> 'c) list"
  sy_done :: "'c taskCompletion list"
  sy_drain :: "drainer option"
  sy_runDone :: bool
  sy_accepted :: "'c list"
  sy_finished :: "'c list"
  sy_executed :: "'c list"
  sy_dropped :: "'c list"
  sy_skipped :: "'c list"
  sy_cancelled :: "'c list"
  sy_postsIn :: "'c list"
  sy_postsRun :: "'c list"
  sy_postsLost :: "'c list"

definition initialSystem :: "taskConfig \<Rightarrow> ('w, 'c) taskSystem" where
  "initialSystem cfg = \<lparr>sy_srv = newTaskServer cfg, sy_waiting = [], sy_running = [], sy_done = [], sy_drain = None,
     sy_runDone = False, sy_accepted = [], sy_finished = [], sy_executed = [], sy_dropped = [], sy_skipped = [],
     sy_cancelled = [], sy_postsIn = [], sy_postsRun = [], sy_postsLost = []\<rparr>"

definition ranCallback :: "'c callback \<Rightarrow> ('w, 'c) taskSystem \<Rightarrow> ('w, 'c) taskSystem" where
  "ranCallback cb y =
     (case cb of
        RunPost p \<Rightarrow> y\<lparr>sy_postsRun := sy_postsRun y @ [p]\<rparr>
      | RunCompletion c _ \<Rightarrow> y\<lparr>sy_executed := sy_executed y @ [c]\<rparr>)"

inductive taskStep :: "('w, 'c) taskSystem \<Rightarrow> ('w, 'c) taskSystem \<Rightarrow> bool" where
  run: "runStart ended (sy_srv y) = (err, s) \<Longrightarrow> taskStep y (y\<lparr>sy_srv := s\<rparr>)"
| post: "Post (Some f) (sy_srv y) = (err, s) \<Longrightarrow>
    taskStep y (y\<lparr>sy_srv := s, sy_postsIn := sy_postsIn y @ (if err = None then [f] else [])\<rparr>)"
| submit: "SubmitTask True (Some w) (Some c) ok stopped (sy_srv y) = (err, s) \<Longrightarrow>
    taskStep y (y\<lparr>sy_srv := s, sy_waiting := sy_waiting y @ (if err = None then [(w, c)] else []),
      sy_accepted := sy_accepted y @ (if err = None then [c] else [])\<rparr>)"
| start: "sy_waiting y = a @ t # b \<Longrightarrow> taskStep y (y\<lparr>sy_waiting := a @ b, sy_running := sy_running y @ [t]\<rparr>)"
| finish: "sy_running y = a @ (w, c) # b \<Longrightarrow> taskOutcome r effErr = (err, panicked) \<Longrightarrow> (effErr \<noteq> None \<longrightarrow> ended) \<Longrightarrow>
    taskStep y (y\<lparr>sy_srv := finishTask panicked ended (sy_srv y), sy_running := a @ b,
      sy_done := sy_done y @ [\<lparr>tc_complete = c, tc_err = err\<rparr>], sy_finished := sy_finished y @ [c],
      sy_cancelled := sy_cancelled y @ (if ended then [c] else [])\<rparr>)"
| send: "sy_done y = a @ c # b \<Longrightarrow> sendCompletion c (sy_srv y) = Some s \<Longrightarrow> taskStep y (y\<lparr>sy_srv := s, sy_done := a @ b\<rparr>)"
| escape: "sy_runDone y \<Longrightarrow> sy_done y = a @ c # b \<Longrightarrow>
    taskStep y (y\<lparr>sy_done := a @ b, sy_dropped := sy_dropped y @ [tc_complete c]\<rparr>)"
| drain: "sy_drain y = None \<Longrightarrow> taskStep y (y\<lparr>sy_drain := drainBegin (sy_srv y)\<rparr>)"
| callback: "sy_drain y = Some d \<Longrightarrow> drainStep d (sy_srv y) = Some (cb, d', s) \<Longrightarrow>
    taskStep y (ranCallback cb (y\<lparr>sy_srv := s, sy_drain := Some d'\<rparr>))"
| drained: "sy_drain y = Some d \<Longrightarrow> drainStep d (sy_srv y) = None \<Longrightarrow> taskStep y (y\<lparr>sy_drain := None\<rparr>)"
| stop: "taskStep y (y\<lparr>sy_srv := markLifecycleStopping (sy_srv y)\<rparr>)"
| cancel: "tk_life (sy_srv y) = lifecycleStopping \<Longrightarrow> taskStep y (y\<lparr>sy_runDone := True\<rparr>)"
| skip: "sy_runDone y \<Longrightarrow> sy_waiting y = a @ (w, c) # b \<Longrightarrow>
    taskStep y (y\<lparr>sy_waiting := a @ b, sy_skipped := sy_skipped y @ [c]\<rparr>)"
| finalize: "sy_runDone y \<Longrightarrow> tk_life (sy_srv y) = lifecycleStopping \<Longrightarrow> sy_drain y = None \<Longrightarrow>
    sy_waiting y = [] \<Longrightarrow> sy_running y = [] \<Longrightarrow> sy_done y = [] \<Longrightarrow>
    taskStep y (y\<lparr>sy_srv := finalizeLifecycle (of_nat (length (sy_skipped y))) (sy_srv y),
      sy_dropped := sy_dropped y @ map tc_complete (tk_completionQueue (sy_srv y)),
      sy_cancelled := sy_cancelled y @ sy_skipped y, sy_postsLost := tk_postQueue (sy_srv y)\<rparr>)"

inductive taskReachable :: "taskConfig \<Rightarrow> ('w, 'c) taskSystem \<Rightarrow> bool" for cfg where
  init: "taskReachable cfg (initialSystem cfg)"
| step: "taskReachable cfg y \<Longrightarrow> taskStep y y' \<Longrightarrow> taskReachable cfg y'"

inductive_cases taskStepE: "taskStep y y'"

end
