(* ===== verification/Task_Properties.thy ===== *)
theory Task_Properties
  imports Tasks
begin

text \<open>
  What the task and post pipelines guarantee in every interleaving: accounting, order, bounds,
  and the round-robin order of a drain.
\<close>

section \<open>What holds in every reachable state\<close>

definition taskPlaces :: "('w, 'c) taskSystem \<Rightarrow> 'c multiset" where
  "taskPlaces y = mset (map snd (sy_waiting y)) + mset (map snd (sy_running y)) + mset (map tc_complete (sy_done y))
     + mset (map tc_complete (tk_completionQueue (sy_srv y))) + mset (sy_executed y) + mset (sy_dropped y) + mset (sy_skipped y)"

definition taskInv :: "taskConfig \<Rightarrow> ('w, 'c) taskSystem \<Rightarrow> bool" where
  "taskInv cfg y \<longleftrightarrow>
     (let s = sy_srv y in
      tk_config s = cfg \<and> taskPlaces y = mset (sy_accepted y)
      \<and> mset (sy_finished y) + mset (sy_skipped y) + mset (map snd (sy_waiting y)) + mset (map snd (sy_running y)) = mset (sy_accepted y)
      \<and> sy_postsIn y = sy_postsRun y @ tk_postQueue s @ sy_postsLost y
      \<and> (tk_life s \<noteq> lifecycleStopped \<longrightarrow> sy_postsLost y = [])
      \<and> (tk_life s \<in> {lifecycleCreated, lifecycleRunning} \<longrightarrow> \<not> sy_runDone y)
      \<and> (\<not> sy_runDone y \<longrightarrow> sy_dropped y = [] \<and> sy_skipped y = [])
      \<and> (tk_life s = lifecycleStopped \<longrightarrow> tk_postQueue s = [] \<and> tk_completionQueue s = []
           \<and> sy_waiting y = [] \<and> sy_running y = [] \<and> sy_done y = [])
      \<and> length (tk_postQueue s) \<le> postCap s \<and> length (tk_completionQueue s) \<le> completionCap s
      \<and> (\<forall>d. sy_drain y = Some d \<longrightarrow> tk_life s \<noteq> lifecycleCreated)
      \<and> (tk_life s \<noteq> lifecycleCreated \<longrightarrow> tk_taskPool s))"

definition countersInv :: "('w, 'c) taskSystem \<Rightarrow> bool" where
  "countersInv y \<longleftrightarrow>
     (let s = sy_srv y in
      tk_tasksAccepted s = of_nat (length (sy_accepted y)) \<and> tk_tasksFinished s = of_nat (length (sy_finished y))
      \<and> tk_taskCompletionsExecuted s = of_nat (length (sy_executed y))
      \<and> tk_postsAccepted s = of_nat (length (sy_postsIn y)) \<and> tk_postsExecuted s = of_nat (length (sy_postsRun y))
      \<and> tk_tasksCancelled s = of_nat (length (sy_cancelled y))
      \<and> mset (sy_cancelled y) \<subseteq># mset (sy_finished y) + (if tk_life s = lifecycleStopped then mset (sy_skipped y) else {#}))"

lemma drainStep_effect:
  assumes "drainStep d s = Some (cb, d', s')"
  shows "tk_life s = lifecycleRunning"
    and "(\<exists>p ps. cb = RunPost p \<and> tk_postQueue s = p # ps
            \<and> s' = s\<lparr>tk_postQueue := ps, tk_asyncPreferCompletion := \<not> dr_prefer d, tk_postsExecuted := tk_postsExecuted s + 1\<rparr>)
      \<or> (\<exists>c cs. cb = RunCompletion (tc_complete c) (tc_err c) \<and> tk_completionQueue s = c # cs
            \<and> s' = s\<lparr>tk_completionQueue := cs, tk_asyncPreferCompletion := \<not> dr_prefer d,
                     tk_taskCompletionsExecuted := tk_taskCompletionsExecuted s + 1\<rparr>)"
    and "dr_left d = Suc (dr_left d')" and "dr_prefer d' = (\<not> dr_prefer d)"
  using assms
  by (auto simp: drainStep_def takeCompletion_def takePost_def countCallback_def Let_def
      split: if_splits list.splits option.splits prod.splits)

lemma finishTask_fields [simp]:
  "tk_config (finishTask p e s) = tk_config s" "tk_life (finishTask p e s) = tk_life s"
  "tk_postQueue (finishTask p e s) = tk_postQueue s" "tk_completionQueue (finishTask p e s) = tk_completionQueue s"
  "tk_taskPool (finishTask p e s) = tk_taskPool s" "tk_tasksAccepted (finishTask p e s) = tk_tasksAccepted s"
  "tk_tasksFinished (finishTask p e s) = tk_tasksFinished s + 1"
  "tk_taskCompletionsExecuted (finishTask p e s) = tk_taskCompletionsExecuted s"
  "tk_tasksCancelled (finishTask p e s) = tk_tasksCancelled s + (if e then 1 else 0)"
  "tk_postsAccepted (finishTask p e s) = tk_postsAccepted s" "tk_postsExecuted (finishTask p e s) = tk_postsExecuted s"
  "postCap (finishTask p e s) = postCap s" "completionCap (finishTask p e s) = completionCap s"
  by (simp_all add: finishTask_def postCap_def completionCap_def Let_def)

lemmas cap_defs = postCap_def completionCap_def

lemma taskInv_step:
  assumes "taskStep y y'" "taskInv cfg y" shows "taskInv cfg y'"
  using assms
proof (induction rule: taskStep.induct)
  case run
  then show ?case
    by (auto simp: taskInv_def taskPlaces_def runStart_def startTaskPool_def cap_defs Let_def split: if_splits)
next
  case post
  then show ?case
    by (auto simp: taskInv_def taskPlaces_def Post_def cap_defs Let_def split: if_splits)
next
  case submit
  then show ?case
    by (auto simp: taskInv_def taskPlaces_def SubmitTask_def cap_defs Let_def split: if_splits)
next
  case start
  then show ?case by (auto simp: taskInv_def taskPlaces_def cap_defs Let_def)
next
  case finish
  then show ?case by (auto simp: taskInv_def taskPlaces_def Let_def)
next
  case send
  then show ?case
    by (auto simp: taskInv_def taskPlaces_def sendCompletion_def cap_defs Let_def split: if_splits)
next
  case escape
  then show ?case by (auto simp: taskInv_def taskPlaces_def cap_defs Let_def)
next
  case drain
  then show ?case
    by (auto simp: taskInv_def taskPlaces_def drainBegin_def cap_defs Let_def split: if_splits)
next
  case callback
  then show ?case using drainStep_effect [OF callback(2)]
    by (auto simp: taskInv_def taskPlaces_def ranCallback_def cap_defs Let_def)
next
  case drained
  then show ?case by (auto simp: taskInv_def taskPlaces_def cap_defs Let_def)
next
  case stop
  then show ?case by (auto simp: taskInv_def taskPlaces_def markLifecycleStopping_def cap_defs Let_def)
next
  case cancel
  then show ?case by (auto simp: taskInv_def taskPlaces_def cap_defs Let_def)
next
  case skip
  then show ?case by (auto simp: taskInv_def taskPlaces_def cap_defs Let_def)
next
  case finalize
  then show ?case
    by (auto simp: taskInv_def taskPlaces_def finalizeLifecycle_def markLifecycleStopping_def discardQueuedPostsLocked_def
        discardQueuedCompletionsLocked_def cap_defs Let_def ac_simps)
qed

lemma finalizeLifecycle_fields:
  "tk_life (finalizeLifecycle n s) = lifecycleStopped" "tk_tasksAccepted (finalizeLifecycle n s) = tk_tasksAccepted s"
  "tk_tasksFinished (finalizeLifecycle n s) = tk_tasksFinished s"
  "tk_taskCompletionsExecuted (finalizeLifecycle n s) = tk_taskCompletionsExecuted s"
  "tk_postsAccepted (finalizeLifecycle n s) = tk_postsAccepted s" "tk_postsExecuted (finalizeLifecycle n s) = tk_postsExecuted s"
  "tk_taskPool s \<Longrightarrow> tk_tasksCancelled (finalizeLifecycle n s) = tk_tasksCancelled s + n"
  by (auto simp: finalizeLifecycle_def markLifecycleStopping_def discardQueuedPostsLocked_def
      discardQueuedCompletionsLocked_def Let_def word_gt_0)

lemma countersInv_step:
  assumes "taskStep y y'" "taskInv cfg y" "countersInv y" shows "countersInv y'"
  using assms
proof (induction rule: taskStep.induct)
  case run
  then show ?case by (auto simp: countersInv_def runStart_def startTaskPool_def Let_def split: if_splits)
next
  case post
  then show ?case by (auto simp: countersInv_def Post_def Let_def split: if_splits)
next
  case submit
  then show ?case by (auto simp: countersInv_def SubmitTask_def Let_def split: if_splits)
next
  case start
  then show ?case by (auto simp: countersInv_def Let_def)
next
  case finish
  then show ?case
    by (auto simp: countersInv_def Let_def intro: subset_mset.add_mono subset_mset.trans split: if_splits)
next
  case send
  then show ?case by (auto simp: countersInv_def sendCompletion_def Let_def split: if_splits)
next
  case escape
  then show ?case by (auto simp: countersInv_def Let_def)
next
  case drain
  then show ?case by (auto simp: countersInv_def Let_def)
next
  case callback
  then show ?case using drainStep_effect [OF callback(2)] by (auto simp: countersInv_def ranCallback_def Let_def)
next
  case drained
  then show ?case by (auto simp: countersInv_def Let_def)
next
  case stop
  then show ?case by (auto simp: countersInv_def markLifecycleStopping_def Let_def)
next
  case cancel
  then show ?case by (auto simp: countersInv_def Let_def)
next
  case skip
  then show ?case by (auto simp: countersInv_def taskInv_def Let_def)
next
  case (finalize y)
  let ?s = "sy_srv y"
  have c: "mset (sy_cancelled y) \<subseteq># mset (sy_finished y)" using finalize by (simp add: countersInv_def Let_def)
  have "tk_taskPool ?s" using finalize by (simp add: taskInv_def Let_def)
  then show ?case using finalize subset_mset.add_right_mono [OF c]
    by (simp add: countersInv_def finalizeLifecycle_fields Let_def)
qed

lemma reachable_taskInv:
  assumes "taskReachable cfg y" shows "taskInv cfg y \<and> countersInv y"
  using assms
proof induction
  case init
  then show ?case
    by (simp add: initialSystem_def newTaskServer_def taskInv_def countersInv_def taskPlaces_def cap_defs)
next
  case (step y y')
  then show ?case using taskInv_step countersInv_step by blast
qed

text \<open>
  C22.  In every reachable state each accepted task is in exactly one place: waiting for a worker, running,
  finished and waiting for room, in the completion queue, completed on the tick, or dropped.
  Nothing is dropped while the server runs; dropping needs the run context to have ended.  So
  among distinct tasks no completion runs twice.  The counters say the same (modulo \<open>2 ^ 64\<close>), a
  cancellation is counted at most once per task, and the queues stay within their capacities.
\<close>

theorem tasks_accounted:
  assumes "taskReachable cfg y"
  shows "mset (sy_accepted y) = mset (map snd (sy_waiting y)) + mset (map snd (sy_running y)) + mset (map tc_complete (sy_done y))
      + mset (map tc_complete (tk_completionQueue (sy_srv y))) + mset (sy_executed y) + mset (sy_dropped y) + mset (sy_skipped y)
    \<and> (distinct (sy_accepted y) \<longrightarrow> distinct (sy_executed y))
    \<and> (tk_life (sy_srv y) = lifecycleRunning \<longrightarrow> sy_dropped y = [] \<and> sy_skipped y = [])
    \<and> tk_tasksAccepted (sy_srv y) = of_nat (length (sy_accepted y))
    \<and> tk_tasksFinished (sy_srv y) = of_nat (length (sy_finished y))
    \<and> tk_taskCompletionsExecuted (sy_srv y) = of_nat (length (sy_executed y))
    \<and> tk_tasksCancelled (sy_srv y) = of_nat (length (sy_cancelled y)) \<and> mset (sy_cancelled y) \<subseteq># mset (sy_accepted y)
    \<and> length (tk_completionQueue (sy_srv y)) \<le> completionCap (sy_srv y)"
proof -
  have I: "taskInv cfg y" and C: "countersInv y" using reachable_taskInv [OF assms] by simp_all
  have p: "taskPlaces y = mset (sy_accepted y)" using I by (simp add: taskInv_def Let_def)
  have e: "mset (sy_executed y) \<subseteq># mset (sy_accepted y)"
    unfolding p [symmetric] taskPlaces_def by (simp add: subset_mset.add_increasing subset_mset.add_increasing2)
  have d: "distinct (sy_executed y)" if "distinct (sy_accepted y)"
  proof -
    obtain M where "mset (sy_accepted y) = mset (sy_executed y) + M" using e by (auto simp: mset_subset_eq_exists_conv)
    moreover obtain xs where "mset xs = M" using ex_mset by blast
    ultimately have "mset (sy_accepted y) = mset (sy_executed y @ xs)" by simp
    then show ?thesis using that by (metis distinct_append mset_eq_imp_distinct_iff)
  qed
  have c: "mset (sy_cancelled y) \<subseteq># mset (sy_accepted y)"
  proof -
    have "mset (sy_finished y) + mset (sy_skipped y) \<subseteq># mset (sy_accepted y)"
    proof -
      have "mset (sy_finished y) + mset (sy_skipped y) + (mset (map snd (sy_waiting y)) + mset (map snd (sy_running y))) = mset (sy_accepted y)"
        using I by (simp add: taskInv_def Let_def ac_simps)
      then show ?thesis by (metis mset_subset_eq_add_left)
    qed
    moreover have "mset (sy_cancelled y) \<subseteq># mset (sy_finished y) + mset (sy_skipped y)"
      using C by (auto simp: countersInv_def Let_def subset_mset.add_increasing2 split: if_splits)
    ultimately show ?thesis by (rule subset_mset.order_trans [rotated])
  qed
  show ?thesis using p c d I C unfolding taskPlaces_def by (auto simp: taskInv_def countersInv_def Let_def)
qed

text \<open>
  Posted callbacks run in the order in which they were accepted, each once: at any moment what was
  accepted is what has run, then what is queued, then what shutdown discarded; and after shutdown
  nothing is queued.  The post queue stays within its capacity.
\<close>

theorem posts_fifo:
  assumes "taskReachable cfg y"
  shows "sy_postsIn y = sy_postsRun y @ tk_postQueue (sy_srv y) @ sy_postsLost y
    \<and> (tk_life (sy_srv y) \<noteq> lifecycleStopped \<longrightarrow> sy_postsLost y = [])
    \<and> (tk_life (sy_srv y) = lifecycleStopped \<longrightarrow> tk_postQueue (sy_srv y) = [])
    \<and> tk_postsAccepted (sy_srv y) = of_nat (length (sy_postsIn y)) \<and> tk_postsExecuted (sy_srv y) = of_nat (length (sy_postsRun y))
    \<and> length (tk_postQueue (sy_srv y)) \<le> postCap (sy_srv y)"
  using reachable_taskInv [OF assms] by (auto simp: taskInv_def countersInv_def Let_def)

section \<open>Round robin\<close>

text \<open>The order the source documents: alternate, and when one kind is exhausted go on with the other.\<close>

fun roundRobin :: "bool \<Rightarrow> 'c taskCompletion list \<Rightarrow> 'c list \<Rightarrow> 'c callback list" where
  "roundRobin prefer [] [] = []"
| "roundRobin True (c # cs) ps = RunCompletion (tc_complete c) (tc_err c) # roundRobin False cs ps"
| "roundRobin False cs (p # ps) = RunPost p # roundRobin True cs ps"
| "roundRobin True [] (p # ps) = RunPost p # roundRobin False [] ps"
| "roundRobin False (c # cs) [] = RunCompletion (tc_complete c) (tc_err c) # roundRobin True cs []"

text \<open>While a callback runs, it and the other goroutines can only append to the queues.\<close>

definition appendsOnly :: "('c callback \<Rightarrow> 'c taskServer \<Rightarrow> 'c taskServer) \<Rightarrow> bool" where
  "appendsOnly run \<longleftrightarrow>
     (\<forall>cb s. tk_life (run cb s) = tk_life s \<and> tk_asyncPreferCompletion (run cb s) = tk_asyncPreferCompletion s
        \<and> (\<exists>cs. tk_completionQueue (run cb s) = tk_completionQueue s @ cs) \<and> (\<exists>ps. tk_postQueue (run cb s) = tk_postQueue s @ ps))"

lemma drainStep_eval:
  assumes "tk_life s = lifecycleRunning" "tk_completionQueue s = C @ X" "tk_postQueue s = P @ Y"
    and "dr_left d = Suc n" "dr_remainC d = length C" "dr_remainP d = length P"
  shows "drainStep d s =
    (if C \<noteq> [] \<and> (dr_prefer d \<or> P = []) then
       Some (RunCompletion (tc_complete (hd C)) (tc_err (hd C)),
             d\<lparr>dr_left := n, dr_remainC := length (tl C), dr_prefer := \<not> dr_prefer d\<rparr>,
             s\<lparr>tk_completionQueue := tl C @ X, tk_asyncPreferCompletion := \<not> dr_prefer d,
               tk_taskCompletionsExecuted := tk_taskCompletionsExecuted s + 1\<rparr>)
     else if P \<noteq> [] then
       Some (RunPost (hd P), d\<lparr>dr_left := n, dr_remainP := length (tl P), dr_prefer := \<not> dr_prefer d\<rparr>,
             s\<lparr>tk_postQueue := tl P @ Y, tk_asyncPreferCompletion := \<not> dr_prefer d,
               tk_postsExecuted := tk_postsExecuted s + 1\<rparr>)
     else None)"
  using assms by (cases C; cases P)
    (simp_all add: drainStep_def takeCompletion_def takePost_def countCallback_def Let_def)

lemma drainLoop_round_robin:
  assumes "appendsOnly run" "tk_life s = lifecycleRunning" "tk_completionQueue s = C @ X" "tk_postQueue s = P @ Y"
    and "dr_left d = n" "dr_remainC d = length C" "dr_remainP d = length P" "n \<le> length C + length P"
  shows "fst (drainLoop run n d s) = take n (roundRobin (dr_prefer d) C P)
    \<and> (n > 0 \<longrightarrow> tk_asyncPreferCompletion (snd (drainLoop run n d s)) = (if even n then dr_prefer d else \<not> dr_prefer d))"
  using assms(2-)
proof (induction n arbitrary: d s C P X Y)
  case (Suc n)
  have app: "\<exists>cs. tk_completionQueue (run cb t) = tk_completionQueue t @ cs" "\<exists>ps. tk_postQueue (run cb t) = tk_postQueue t @ ps"
    "tk_life (run cb t) = tk_life t" "tk_asyncPreferCompletion (run cb t) = tk_asyncPreferCompletion t" for cb t
    using assms(1) by (simp_all add: appendsOnly_def)
  note step = drainStep_eval [OF Suc.prems(1-6)]
  show ?case
  proof (cases "C \<noteq> [] \<and> (dr_prefer d \<or> P = [])")
    case True
    let ?cb = "RunCompletion (tc_complete (hd C)) (tc_err (hd C))"
    let ?d = "d\<lparr>dr_left := n, dr_remainC := length (tl C), dr_prefer := \<not> dr_prefer d\<rparr>"
    let ?s = "s\<lparr>tk_completionQueue := tl C @ X, tk_asyncPreferCompletion := \<not> dr_prefer d,
               tk_taskCompletionsExecuted := tk_taskCompletionsExecuted s + 1\<rparr>"
    obtain X' Y' where "tk_completionQueue (run ?cb ?s) = tl C @ X'" "tk_postQueue (run ?cb ?s) = P @ Y'"
      using app(1,2) [of ?cb ?s] Suc.prems(3) by auto
    note IH = Suc.IH [of "run ?cb ?s" "tl C" X' P Y' ?d, OF _ this]
    have rr: "roundRobin (dr_prefer d) C P = ?cb # roundRobin (\<not> dr_prefer d) (tl C) P"
      using True by (cases C; cases P; cases "dr_prefer d") simp_all
    have "drainLoop run (Suc n) d s = (?cb # fst (drainLoop run n ?d (run ?cb ?s)), snd (drainLoop run n ?d (run ?cb ?s)))"
      using step True by (simp split: prod.splits)
    then show ?thesis using IH Suc.prems(1,6,7) True app(3,4) [of ?cb ?s] rr by (cases C; cases n) auto
  next
    case False
    then have P: "P \<noteq> []" and pf: "C = [] \<or> \<not> dr_prefer d" using Suc.prems(7) by auto
    let ?cb = "RunPost (hd P)"
    let ?d = "d\<lparr>dr_left := n, dr_remainP := length (tl P), dr_prefer := \<not> dr_prefer d\<rparr>"
    let ?s = "s\<lparr>tk_postQueue := tl P @ Y, tk_asyncPreferCompletion := \<not> dr_prefer d,
               tk_postsExecuted := tk_postsExecuted s + 1\<rparr>"
    obtain X' Y' where "tk_completionQueue (run ?cb ?s) = C @ X'" "tk_postQueue (run ?cb ?s) = tl P @ Y'"
      using app(1,2) [of ?cb ?s] Suc.prems(2) by auto
    note IH = Suc.IH [of "run ?cb ?s" C X' "tl P" Y' ?d, OF _ this]
    have rr: "roundRobin (dr_prefer d) C P = ?cb # roundRobin (\<not> dr_prefer d) C (tl P)"
      using P pf by (cases P; cases C; cases "dr_prefer d") simp_all
    have "drainLoop run (Suc n) d s = (?cb # fst (drainLoop run n ?d (run ?cb ?s)), snd (drainLoop run n ?d (run ?cb ?s)))"
      using step False P by (simp split: prod.splits)
    then show ?thesis using IH Suc.prems(1,5,7) P app(3,4) [of ?cb ?s] rr by (cases P; cases n) auto
  qed
qed simp

text \<open>
  C23.  A drain runs exactly the documented order, cut at the budget: it alternates between completions and
  posts starting with the preferred kind, takes the other kind when one is exhausted, and considers
  only what was queued when it began, however much the callbacks post.  The preference it leaves
  for the next tick is the opposite of the last slot, so a budget of one alternates across ticks.
\<close>

theorem drain_round_robin:
  assumes "appendsOnly run" and "tk_life s = lifecycleRunning" and "cf_AsyncCallbacksPerTick (tk_config s) \<ge> 0"
    and "drainAsyncCallbacks run s = (cbs, s')"
  shows "cbs = take (nat (cf_AsyncCallbacksPerTick (tk_config s)))
      (roundRobin (tk_asyncPreferCompletion s) (tk_completionQueue s) (tk_postQueue s))
    \<and> tk_asyncPreferCompletion s' = (if even (length cbs) then tk_asyncPreferCompletion s else \<not> tk_asyncPreferCompletion s)"
proof -
  let ?C = "tk_completionQueue s" and ?P = "tk_postQueue s" and ?b = "cf_AsyncCallbacksPerTick (tk_config s)"
  define n where "n = min (nat ?b) (length ?C + length ?P)"
  define d where "d = \<lparr>dr_left = n, dr_remainC = length ?C, dr_remainP = length ?P, dr_prefer = tk_asyncPreferCompletion s\<rparr>"
  have b: "drainBegin s = Some d" using assms(2,3) by (auto simp: drainBegin_def d_def n_def Let_def min_def nat_le_iff)
  have L: "length (roundRobin p C P) = length C + length P" for p and C :: "'a taskCompletion list" and P
    by (induction p C P rule: roundRobin.induct) simp_all
  have r: "(cbs, s') = drainLoop run n d s" using assms(4) b by (simp add: drainAsyncCallbacks_def d_def)
  have "fst (drainLoop run n d s) = take n (roundRobin (dr_prefer d) ?C ?P)
    \<and> (n > 0 \<longrightarrow> tk_asyncPreferCompletion (snd (drainLoop run n d s)) = (if even n then dr_prefer d else \<not> dr_prefer d))"
    by (rule drainLoop_round_robin [OF assms(1,2), of _ "[]" _ "[]"]) (simp_all add: d_def n_def)
  moreover have "take n (roundRobin (dr_prefer d) ?C ?P) = take (nat ?b) (roundRobin (dr_prefer d) ?C ?P)"
    unfolding n_def using L [of "dr_prefer d" ?C ?P] by (metis min.cobounded2 nat_le_linear min_absorb1 min_absorb2 take_all)
  moreover have "length (take n (roundRobin (dr_prefer d) ?C ?P)) = n" using L [of "dr_prefer d" ?C ?P] by (simp add: n_def)
  ultimately show ?thesis using r by (cases "n = 0") (auto simp: d_def dest!: sym [of "(cbs, s')"])
qed

section \<open>Examples\<close>

definition demoTaskConfig :: taskConfig where
  "demoTaskConfig = \<lparr>cf_PostQueueCapacity = 2, cf_AsyncCallbacksPerTick = 1, cf_TaskWorkers = 1, cf_TaskQueueCapacity = 2,
     cf_TaskCompletionQueueCapacity = 1\<rparr>"

text \<open>One completion and two posts queued, with a budget of one.\<close>

definition busyServer :: "nat taskServer" where
  "busyServer = (newTaskServer demoTaskConfig)\<lparr>tk_life := lifecycleRunning, tk_completionQueue := [\<lparr>tc_complete = 7, tc_err = None\<rparr>],
     tk_postQueue := [1, 2]\<rparr>"

theorem drain_round_robin_witness:
  "fst (drainAsyncCallbacks (\<lambda>cb s. s) busyServer) = [RunCompletion 7 None]
   \<and> \<not> tk_asyncPreferCompletion (snd (drainAsyncCallbacks (\<lambda>cb s. s) busyServer))"
proof -
  have a: "appendsOnly (\<lambda>cb s. s :: nat taskServer)" by (simp add: appendsOnly_def)
  have l: "tk_life busyServer = lifecycleRunning" "cf_AsyncCallbacksPerTick (tk_config busyServer) \<ge> 0"
    by (simp_all add: busyServer_def newTaskServer_def demoTaskConfig_def)
  show ?thesis using drain_round_robin [OF a l prod.collapse [symmetric]]
    by (simp add: busyServer_def newTaskServer_def demoTaskConfig_def)
qed

text \<open>A server that ran, accepted a post and a task, and finished the task.\<close>

definition demoSystem1 :: "(nat, nat) taskSystem" where
  "demoSystem1 = (initialSystem demoTaskConfig)\<lparr>sy_srv := snd (runStart False (newTaskServer demoTaskConfig))\<rparr>"

definition demoSystem2 :: "(nat, nat) taskSystem" where
  "demoSystem2 = demoSystem1\<lparr>sy_srv := snd (Post (Some 3) (sy_srv demoSystem1)), sy_postsIn := [3]\<rparr>"

definition demoSystem3 :: "(nat, nat) taskSystem" where
  "demoSystem3 = demoSystem2\<lparr>sy_srv := snd (SubmitTask True (Some (5 :: nat)) (Some 8) True False (sy_srv demoSystem2)),
     sy_waiting := [(5, 8)], sy_accepted := [8]\<rparr>"

lemmas demoSystem_defs = demoSystem1_def demoSystem2_def demoSystem3_def initialSystem_def newTaskServer_def demoTaskConfig_def
  runStart_def startTaskPool_def Post_def SubmitTask_def postCap_def

lemma demoSystem_reachable: "taskReachable demoTaskConfig demoSystem3"
proof -
  have 1: "taskReachable demoTaskConfig demoSystem1"
    using step [OF init run [of False _ None "sy_srv demoSystem1"], of demoTaskConfig] by (simp add: demoSystem_defs)
  have "taskStep demoSystem1 demoSystem2"
    using post [of 3 demoSystem1 None "sy_srv demoSystem2"] by (simp add: demoSystem_defs)
  then have 2: "taskReachable demoTaskConfig demoSystem2" by (rule step [OF 1])
  have "taskStep demoSystem2 demoSystem3"
    using submit [of 5 8 True False demoSystem2 None "sy_srv demoSystem3"] by (simp add: demoSystem_defs)
  then show ?thesis by (rule step [OF 2])
qed

theorem tasks_accounted_witness:
  "sy_dropped demoSystem3 = [] \<and> tk_tasksAccepted (sy_srv demoSystem3) = 1"
  using tasks_accounted [OF demoSystem_reachable] by (simp add: demoSystem_defs)

theorem posts_fifo_witness:
  "sy_postsIn demoSystem3 = sy_postsRun demoSystem3 @ tk_postQueue (sy_srv demoSystem3) \<and> tk_postQueue (sy_srv demoSystem3) = [3]"
  using posts_fifo [OF demoSystem_reachable] by (simp add: demoSystem_defs)

end
