(* ===== verification/Interest_Grid.thy ===== *)
theory Interest_Grid
  imports Golem_Prelude
begin

text \<open>
  The spatial hash grid of interest management (\<^verbatim>\<open>golem/interest/grid.go\<close>).  The
  float64 operations the grid uses are a record \<open>'f fops\<close>: the theorems here hold for every
  such arithmetic, so in particular for IEEE arithmetic with its rounding, and no property of
  real numbers is used.  Cell coordinates are Go \<^verbatim>\<open>int\<close>s, 64-bit words.
\<close>

section \<open>Arithmetic\<close>

record 'f fops =
  fmul :: "'f \<Rightarrow> 'f \<Rightarrow> 'f"
  fadd :: "'f \<Rightarrow> 'f \<Rightarrow> 'f"
  fsub :: "'f \<Rightarrow> 'f \<Rightarrow> 'f"
  frecip :: "'f \<Rightarrow> 'f"
  fle :: "'f \<Rightarrow> 'f \<Rightarrow> bool"
  ffloor :: "'f \<Rightarrow> int64"

text \<open>The counting loop of the cell scan; it runs until \<open>g\<close> exceeds \<open>hi\<close> as a signed number.\<close>

partial_function (option) forCells ::
  "int64 \<Rightarrow> int64 \<Rightarrow> (int64 \<Rightarrow> 'a \<Rightarrow> 'a option) \<Rightarrow> 'a \<Rightarrow> 'a option" where
  "forCells g hi body acc =
     (if sint g \<le> sint hi
      then Option.bind (body g acc) (\<lambda>acc. forCells (g + 1) hi body acc)
      else Some acc)"

section \<open>State and operations\<close>

record cellKey =
  ck_cx :: int64
  ck_cy :: int64

record 'f pos =
  po_x :: 'f
  po_y :: 'f

type_synonym idset = "(int64, unit) gomap"

record 'f Grid =
  gr_cellSize :: 'f
  gr_invCellSize :: 'f
  gr_cells :: "(cellKey, idset) gomap"
  gr_positions :: "(int64, 'f pos) gomap"
  gr_cellOf :: "(int64, cellKey) gomap"

definition NewGrid :: "'f fops \<Rightarrow> 'f \<Rightarrow> 'f Grid" where
  "NewGrid F cellSize = \<lparr>gr_cellSize = cellSize, gr_invCellSize = frecip F cellSize, gr_cells = [],
     gr_positions = [], gr_cellOf = []\<rparr>"

definition toCell :: "'f fops \<Rightarrow> 'f Grid \<Rightarrow> 'f \<Rightarrow> 'f \<Rightarrow> cellKey" where
  "toCell F g x y = \<lparr>ck_cx = ffloor F (fmul F x (gr_invCellSize g)), ck_cy = ffloor F (fmul F y (gr_invCellSize g))\<rparr>"

definition cellAt :: "'f Grid \<Rightarrow> cellKey \<Rightarrow> idset" where
  "cellAt g ck = (case map_of (gr_cells g) ck of None \<Rightarrow> [] | Some c \<Rightarrow> c)"

definition addToCell :: "cellKey \<Rightarrow> int64 \<Rightarrow> 'f Grid \<Rightarrow> 'f Grid" where
  "addToCell ck i g = g\<lparr>gr_cells := AList.update ck (AList.update i () (cellAt g ck)) (gr_cells g)\<rparr>"

definition removeFromCell :: "cellKey \<Rightarrow> int64 \<Rightarrow> 'f Grid \<Rightarrow> 'f Grid" where
  "removeFromCell ck i g =
     (case map_of (gr_cells g) ck of
        None \<Rightarrow> g
      | Some cell \<Rightarrow>
          (let cell = AList.delete i cell
           in if gm_len cell = 0 then g\<lparr>gr_cells := AList.delete ck (gr_cells g)\<rparr>
              else g\<lparr>gr_cells := AList.update ck cell (gr_cells g)\<rparr>))"

text \<open>
  \<^verbatim>\<open>Insert\<close> of a known entity calls \<^verbatim>\<open>Move\<close>, and \<^verbatim>\<open>Move\<close> of one without a cell calls
  \<^verbatim>\<open>Insert\<close>.  The bodies are separate here; \<open>None\<close> is the case in which the two would call each
  other forever.
\<close>

definition insertNew :: "'f fops \<Rightarrow> int64 \<Rightarrow> 'f \<Rightarrow> 'f \<Rightarrow> 'f Grid \<Rightarrow> 'f Grid" where
  "insertNew F i x y g =
     (let ck = toCell F g x y;
          g = g\<lparr>gr_positions := AList.update i \<lparr>po_x = x, po_y = y\<rparr> (gr_positions g)\<rparr>;
          g = g\<lparr>gr_cellOf := AList.update i ck (gr_cellOf g)\<rparr>
      in addToCell ck i g)"

definition moveOld :: "'f fops \<Rightarrow> int64 \<Rightarrow> cellKey \<Rightarrow> 'f \<Rightarrow> 'f \<Rightarrow> 'f Grid \<Rightarrow> 'f Grid" where
  "moveOld F i oldCK x y g =
     (let g = g\<lparr>gr_positions := AList.update i \<lparr>po_x = x, po_y = y\<rparr> (gr_positions g)\<rparr>;
          newCK = toCell F g x y
      in if oldCK = newCK then g
         else
           (let g = removeFromCell oldCK i g;
                g = addToCell newCK i g
            in g\<lparr>gr_cellOf := AList.update i newCK (gr_cellOf g)\<rparr>))"

definition gridInsert :: "'f fops \<Rightarrow> int64 \<Rightarrow> 'f \<Rightarrow> 'f \<Rightarrow> 'f Grid \<Rightarrow> 'f Grid option" where
  "gridInsert F i x y g =
     (if map_of (gr_positions g) i \<noteq> None
      then (case map_of (gr_cellOf g) i of Some oldCK \<Rightarrow> Some (moveOld F i oldCK x y g) | None \<Rightarrow> None)
      else Some (insertNew F i x y g))"

definition gridMove :: "'f fops \<Rightarrow> int64 \<Rightarrow> 'f \<Rightarrow> 'f \<Rightarrow> 'f Grid \<Rightarrow> 'f Grid option" where
  "gridMove F i x y g =
     (case map_of (gr_cellOf g) i of
        None \<Rightarrow> gridInsert F i x y g
      | Some oldCK \<Rightarrow> Some (moveOld F i oldCK x y g))"

definition gridRemove :: "int64 \<Rightarrow> 'f Grid \<Rightarrow> 'f Grid" where
  "gridRemove i g =
     (case map_of (gr_cellOf g) i of
        None \<Rightarrow> g
      | Some ck \<Rightarrow>
          (let g = removeFromCell ck i g
           in g\<lparr>gr_positions := AList.delete i (gr_positions g), gr_cellOf := AList.delete i (gr_cellOf g)\<rparr>))"

definition gridHas :: "'f Grid \<Rightarrow> int64 \<Rightarrow> bool" where
  "gridHas g i \<longleftrightarrow> map_of (gr_positions g) i \<noteq> None"

text \<open>The squared distance from the centre, as the source computes it.\<close>

definition dist2 :: "'f fops \<Rightarrow> 'f \<Rightarrow> 'f \<Rightarrow> 'f pos \<Rightarrow> 'f" where
  "dist2 F cx cy p =
     (let dx = fsub F (po_x p) cx; dy = fsub F (po_y p) cy in fadd F (fmul F dx dx) (fmul F dy dy))"

text \<open>A position that is missing is the zero of its type; \<open>ord\<close> is the order of a cell's map.\<close>

definition scanCell ::
  "'f fops \<Rightarrow> 'f pos \<Rightarrow> (idset \<Rightarrow> int64 list) \<Rightarrow> 'f \<Rightarrow> 'f \<Rightarrow> 'f \<Rightarrow> 'f Grid \<Rightarrow> cellKey \<Rightarrow> int64 list \<Rightarrow> int64 list" where
  "scanCell F zero ord cx cy r2 g ck result =
     result @ filter (\<lambda>i. fle F (dist2 F cx cy (case map_of (gr_positions g) i of None \<Rightarrow> zero | Some p \<Rightarrow> p)) r2)
       (ord (cellAt g ck))"

definition QueryInto ::
  "'f fops \<Rightarrow> 'f pos \<Rightarrow> (idset \<Rightarrow> int64 list) \<Rightarrow> 'f \<Rightarrow> 'f \<Rightarrow> 'f \<Rightarrow> 'f Grid \<Rightarrow> int64 list option" where
  "QueryInto F zero ord cx cy radius g =
     (let r2 = fmul F radius radius;
          minCX = ffloor F (fmul F (fsub F cx radius) (gr_invCellSize g));
          maxCX = ffloor F (fmul F (fadd F cx radius) (gr_invCellSize g));
          minCY = ffloor F (fmul F (fsub F cy radius) (gr_invCellSize g));
          maxCY = ffloor F (fmul F (fadd F cy radius) (gr_invCellSize g))
      in forCells minCX maxCX
           (\<lambda>gx. forCells minCY maxCY (\<lambda>gy result. Some (scanCell F zero ord cx cy r2 g \<lparr>ck_cx = gx, ck_cy = gy\<rparr> result))) [])"

section \<open>The scan terminates\<close>

lemma int64_succ: "sint (g :: int64) < 2 ^ 63 - 1 \<Longrightarrow> sint (g + 1) = sint g + 1"
  using sint_ge [of g] by (simp add: sint_word_ariths signed_take_bit_int_eq_self)

lemma forCells_range:
  assumes "sint hi < 2 ^ 63 - 1"
  shows "forCells lo hi (\<lambda>g acc. Some (f g acc)) acc = Some (fold (\<lambda>k. f (of_int k)) [sint lo..sint hi] acc)"
proof (induction "nat (sint hi + 1 - sint lo)" arbitrary: lo acc)
  case 0
  then show ?case by (simp add: forCells.simps [of lo])
next
  case (Suc n)
  then have le: "sint lo \<le> sint hi" by simp
  have s: "sint (lo + 1) = sint lo + 1" using le assms by (intro int64_succ) simp
  have "n = nat (sint hi + 1 - sint (lo + 1))" using Suc(2) s by simp
  note IH = Suc(1) [OF this, of "f lo acc"]
  have "[sint lo..sint hi] = sint lo # [sint (lo + 1)..sint hi]" using le s by (simp add: upto_rec1)
  then show ?case using le IH by (simp add: forCells.simps [of lo])
qed

text \<open>At the largest \<^verbatim>\<open>int\<close> the counter wraps around and the condition stays true.\<close>

lemma forCells_wraps:
  assumes "sint hi = 2 ^ 63 - 1" shows "forCells lo hi body acc = None"
proof -
  have "sint hi \<noteq> 2 ^ 63 - 1" if "forCells lo hi body acc = Some r" for r
  proof (rule forCells.raw_induct [where P = "\<lambda>g hi body acc r. sint hi \<noteq> 2 ^ 63 - 1", OF _ that])
    fix loop :: "int64 \<Rightarrow> int64 \<Rightarrow> (int64 \<Rightarrow> 'a \<Rightarrow> 'a option) \<Rightarrow> 'a \<Rightarrow> 'a option" and g hi :: int64 and body and acc r :: 'a
    assume IH: "\<And>g hi body acc r. loop g hi body acc = Some r \<Longrightarrow> sint hi \<noteq> 2 ^ 63 - 1"
      and e: "(if sint g \<le> sint hi then Option.bind (body g acc) (loop (g + 1) hi body) else Some acc) = Some r"
    have "sint g \<le> 2 ^ 63 - 1" using sint_lt [of g] by simp
    then show "sint hi \<noteq> 2 ^ 63 - 1" using IH e by (auto simp: bind_eq_Some_conv split: if_splits)
  qed
  then show ?thesis using assms by (cases "forCells lo hi body acc") auto
qed

section \<open>The grid as a map from entities to positions\<close>

definition gridInv :: "'f fops \<Rightarrow> 'f Grid \<Rightarrow> bool" where
  "gridInv F g \<longleftrightarrow>
     gm_wf (gr_positions g) \<and> gm_wf (gr_cellOf g) \<and> gm_wf (gr_cells g)
     \<and> (\<forall>i. map_of (gr_cellOf g) i = map_option (\<lambda>p. toCell F g (po_x p) (po_y p)) (map_of (gr_positions g) i))
     \<and> (\<forall>ck. gm_wf (cellAt g ck) \<and> gm_keys (cellAt g ck) = {i. map_of (gr_cellOf g) i = Some ck})"

lemma gridInv_new: "gridInv F (NewGrid F cellSize)"
  by (simp add: gridInv_def NewGrid_def cellAt_def)

lemma cellAt_add: "cellAt (addToCell ck i g) ck' = (if ck' = ck then AList.update i () (cellAt g ck) else cellAt g ck')"
  by (simp add: cellAt_def addToCell_def)

lemma cellAt_remove:
  assumes "gm_wf (gr_cells g)"
  shows "cellAt (removeFromCell ck i g) ck' = (if ck' = ck then AList.delete i (cellAt g ck) else cellAt g ck')"
proof (cases "map_of (gr_cells g) ck")
  case None
  then show ?thesis by (simp add: cellAt_def removeFromCell_def)
next
  case (Some c)
  then show ?thesis using assms by (auto simp: cellAt_def removeFromCell_def Let_def gm_len_def split: option.splits)
qed

lemma add_fields [simp]:
  "gr_positions (addToCell ck i g) = gr_positions g" "gr_cellOf (addToCell ck i g) = gr_cellOf g"
  "gr_invCellSize (addToCell ck i g) = gr_invCellSize g"
  "gm_wf (gr_cells g) \<Longrightarrow> gm_wf (gr_cells (addToCell ck i g))"
  by (simp_all add: addToCell_def)

lemma remove_fields [simp]:
  "gr_positions (removeFromCell ck i g) = gr_positions g" "gr_cellOf (removeFromCell ck i g) = gr_cellOf g"
  "gr_invCellSize (removeFromCell ck i g) = gr_invCellSize g"
  "gm_wf (gr_cells g) \<Longrightarrow> gm_wf (gr_cells (removeFromCell ck i g))"
  by (simp_all add: removeFromCell_def Let_def split: option.splits)

lemma toCell_cong: "gr_invCellSize g' = gr_invCellSize g \<Longrightarrow> toCell F g' = toCell F g"
  by (simp add: toCell_def fun_eq_iff)

lemma cellAt_cong [simp]:
  "cellAt (g\<lparr>gr_positions := p\<rparr>) = cellAt g" "cellAt (g\<lparr>gr_cellOf := c\<rparr>) = cellAt g"
  by (simp_all add: cellAt_def fun_eq_iff)

lemma insertNew_fields:
  "gr_positions (insertNew F i x y g) = AList.update i \<lparr>po_x = x, po_y = y\<rparr> (gr_positions g)"
  "gr_cellOf (insertNew F i x y g) = AList.update i (toCell F g x y) (gr_cellOf g)"
  "gr_invCellSize (insertNew F i x y g) = gr_invCellSize g"
  "cellAt (insertNew F i x y g) ck =
     (if ck = toCell F g x y then AList.update i () (cellAt g ck) else cellAt g ck)"
  "gm_wf (gr_cells g) \<Longrightarrow> gm_wf (gr_cells (insertNew F i x y g))"
  by (simp_all add: insertNew_def Let_def cellAt_add)

lemma gridInv_insertNew:
  assumes "gridInv F g" "map_of (gr_positions g) i = None"
  shows "gridInv F (insertNew F i x y g)"
proof -
  have n: "map_of (gr_cellOf g) i = None" using assms by (simp add: gridInv_def)
  show ?thesis using assms n
    by (auto simp: gridInv_def insertNew_fields toCell_cong [OF insertNew_fields(3)])
qed

lemma gridInv_moveOld:
  assumes I: "gridInv F g" and c: "map_of (gr_cellOf g) i = Some old"
  shows "gridInv F (moveOld F i old x y g)"
    and "gr_positions (moveOld F i old x y g) = AList.update i \<lparr>po_x = x, po_y = y\<rparr> (gr_positions g)"
    and "gr_invCellSize (moveOld F i old x y g) = gr_invCellSize g"
proof -
  let ?g = "g\<lparr>gr_positions := AList.update i \<lparr>po_x = x, po_y = y\<rparr> (gr_positions g)\<rparr>"
  let ?new = "toCell F g x y"
  have t: "toCell F ?g = toCell F g" by (rule toCell_cong) simp
  have w: "gm_wf (gr_cells ?g)" using I by (simp add: gridInv_def)
  have m: "moveOld F i old x y g = (if old = ?new then ?g
      else (addToCell ?new i (removeFromCell old i ?g))\<lparr>gr_cellOf := AList.update i ?new (gr_cellOf g)\<rparr>)"
    by (simp add: moveOld_def Let_def t)
  show "gr_positions (moveOld F i old x y g) = AList.update i \<lparr>po_x = x, po_y = y\<rparr> (gr_positions g)"
    "gr_invCellSize (moveOld F i old x y g) = gr_invCellSize g" by (simp_all add: m)
  note tt = toCell_cong [OF this(2)]
  show "gridInv F (moveOld F i old x y g)"
  proof (cases "old = ?new")
    case True
    have "moveOld F i old x y g = ?g" unfolding m using True by (rule if_P)
    then show ?thesis using I c True by (simp add: gridInv_def t)
  next
    case False
    have cell: "cellAt (moveOld F i old x y g) ck =
        (if ck = ?new then AList.update i () (cellAt g ck) else if ck = old then AList.delete i (cellAt g ck) else cellAt g ck)" for ck
      using False by (simp add: m cellAt_add cellAt_remove [OF w])
    have co: "gr_cellOf (moveOld F i old x y g) = AList.update i ?new (gr_cellOf g)"
      "gr_positions (moveOld F i old x y g) = AList.update i \<lparr>po_x = x, po_y = y\<rparr> (gr_positions g)"
      "gm_wf (gr_cells (moveOld F i old x y g))" using False w by (simp_all add: m)
    show ?thesis unfolding gridInv_def tt cell co(1,2)
      using I c False co(3) by (auto simp: gridInv_def)
  qed
qed

lemma gridInv_remove:
  assumes "gridInv F g"
  shows "gridInv F (gridRemove i g)" and "map_of (gr_positions (gridRemove i g)) = (map_of (gr_positions g))(i := None)"
    and "gr_invCellSize (gridRemove i g) = gr_invCellSize g"
proof -
  have w: "gm_wf (gr_cells g)" using assms by (simp add: gridInv_def)
  have "gridInv F (gridRemove i g) \<and> map_of (gr_positions (gridRemove i g)) = (map_of (gr_positions g))(i := None)
    \<and> gr_invCellSize (gridRemove i g) = gr_invCellSize g"
  proof (cases "map_of (gr_cellOf g) i")
    case None
    then have "map_of (gr_positions g) i = None" using assms by (simp add: gridInv_def)
    then show ?thesis using assms None by (auto simp: gridRemove_def)
  next
    case (Some ck)
    have t: "toCell F (gridRemove i g) = toCell F g" by (rule toCell_cong) (simp add: gridRemove_def Some Let_def)
    have cell: "cellAt (gridRemove i g) k = (if k = ck then AList.delete i (cellAt g ck) else cellAt g k)" for k
      using cellAt_remove [OF w, of ck i k] by (simp add: gridRemove_def Some Let_def)
    show ?thesis unfolding gridInv_def t cell
      using assms Some w by (auto simp: gridInv_def gridRemove_def Let_def fun_eq_iff split: if_splits)
  qed
  then show "gridInv F (gridRemove i g)" "map_of (gr_positions (gridRemove i g)) = (map_of (gr_positions g))(i := None)"
    "gr_invCellSize (gridRemove i g) = gr_invCellSize g" by simp_all
qed

datatype 'f gridOp = GInsert int64 'f 'f | GMove int64 'f 'f | GRemove int64

fun gridApply :: "'f fops \<Rightarrow> 'f gridOp \<Rightarrow> 'f Grid \<Rightarrow> 'f Grid option" where
  "gridApply F (GInsert i x y) g = gridInsert F i x y g"
| "gridApply F (GMove i x y) g = gridMove F i x y g"
| "gridApply F (GRemove i) g = Some (gridRemove i g)"

fun gridRun :: "'f fops \<Rightarrow> 'f gridOp list \<Rightarrow> 'f Grid \<Rightarrow> 'f Grid option" where
  "gridRun F [] g = Some g"
| "gridRun F (op # ops) g = Option.bind (gridApply F op g) (gridRun F ops)"

fun placeApply :: "'f gridOp \<Rightarrow> (int64 \<rightharpoonup> 'f pos) \<Rightarrow> (int64 \<rightharpoonup> 'f pos)" where
  "placeApply (GInsert i x y) m = m(i \<mapsto> \<lparr>po_x = x, po_y = y\<rparr>)"
| "placeApply (GMove i x y) m = m(i \<mapsto> \<lparr>po_x = x, po_y = y\<rparr>)"
| "placeApply (GRemove i) m = m(i := None)"

lemma gridInsert_ok:
  assumes "gridInv F g"
  shows "\<exists>g'. gridInsert F i x y g = Some g' \<and> gridMove F i x y g = Some g' \<and> gridInv F g'
    \<and> map_of (gr_positions g') = (map_of (gr_positions g))(i \<mapsto> \<lparr>po_x = x, po_y = y\<rparr>) \<and> gr_invCellSize g' = gr_invCellSize g"
proof (cases "map_of (gr_cellOf g) i")
  case None
  then have "map_of (gr_positions g) i = None" using assms by (simp add: gridInv_def)
  then show ?thesis using None gridInv_insertNew [OF assms]
    by (simp add: gridInsert_def gridMove_def insertNew_fields fun_eq_iff)
next
  case (Some ck)
  then have "map_of (gr_positions g) i \<noteq> None" using assms by (auto simp: gridInv_def)
  then show ?thesis using Some gridInv_moveOld [OF assms Some]
    by (auto simp: gridInsert_def gridMove_def fun_eq_iff)
qed

lemma gridRun_ok:
  "gridInv F g \<Longrightarrow> \<exists>g'. gridRun F ops g = Some g' \<and> gridInv F g'
     \<and> map_of (gr_positions g') = fold placeApply ops (map_of (gr_positions g)) \<and> gr_invCellSize g' = gr_invCellSize g"
proof (induction ops arbitrary: g)
  case (Cons op ops)
  obtain g1 where "gridApply F op g = Some g1" "gridInv F g1"
    "map_of (gr_positions g1) = placeApply op (map_of (gr_positions g))" "gr_invCellSize g1 = gr_invCellSize g"
    using gridInsert_ok [OF Cons.prems] gridInv_remove [OF Cons.prems] by (cases op) fastforce+
  then show ?case using Cons.IH [of g1] by auto
qed simp

text \<open>
  Whatever is inserted, moved and removed, in any order and for unknown entities too, the mutual
  recursion of \<^verbatim>\<open>Insert\<close> and \<^verbatim>\<open>Move\<close> ends, the grid gives every entity its last position, and the
  cells partition the entities: an entity is in the cell of its position and in no other.
\<close>

theorem grid_refines_map:
  "\<exists>g. gridRun F ops (NewGrid F cellSize) = Some g \<and> map_of (gr_positions g) = fold placeApply ops Map.empty
     \<and> (\<forall>i. gridHas g i \<longleftrightarrow> fold placeApply ops Map.empty i \<noteq> None)
     \<and> (\<forall>ck i. i \<in> gm_keys (cellAt g ck) \<longleftrightarrow>
          (\<exists>p. fold placeApply ops Map.empty i = Some p \<and> toCell F g (po_x p) (po_y p) = ck))"
  using gridRun_ok [OF gridInv_new [of F cellSize], of ops] by (auto simp: gridInv_def gridHas_def NewGrid_def)

section \<open>Queries\<close>

definition inBox :: "int64 \<Rightarrow> int64 \<Rightarrow> int64 \<Rightarrow> int64 \<Rightarrow> cellKey \<Rightarrow> bool" where
  "inBox minCX maxCX minCY maxCY ck \<longleftrightarrow> sint minCX \<le> sint (ck_cx ck) \<and> sint (ck_cx ck) \<le> sint maxCX
     \<and> sint minCY \<le> sint (ck_cy ck) \<and> sint (ck_cy ck) \<le> sint maxCY"

definition queryBox :: "'f fops \<Rightarrow> 'f \<Rightarrow> 'f \<Rightarrow> 'f \<Rightarrow> 'f Grid \<Rightarrow> cellKey \<Rightarrow> bool" where
  "queryBox F cx cy radius g =
     inBox (ffloor F (fmul F (fsub F cx radius) (gr_invCellSize g))) (ffloor F (fmul F (fadd F cx radius) (gr_invCellSize g)))
       (ffloor F (fmul F (fsub F cy radius) (gr_invCellSize g))) (ffloor F (fmul F (fadd F cy radius) (gr_invCellSize g)))"

definition boxCells :: "int64 \<Rightarrow> int64 \<Rightarrow> int64 \<Rightarrow> int64 \<Rightarrow> cellKey list" where
  "boxCells x0 x1 y0 y1 =
     map (\<lambda>(x, y). \<lparr>ck_cx = of_int x, ck_cy = of_int y\<rparr>) (List.product [sint x0..sint x1] [sint y0..sint y1])"

lemma sint_of_int_range: "sint (a :: int64) \<le> k \<Longrightarrow> k \<le> sint (b :: int64) \<Longrightarrow> sint (of_int k :: int64) = k"
  using sint_ge [of a] sint_lt [of b] by (simp add: sint_sbintrunc' signed_take_bit_int_eq_self)

lemma boxCells_set: "ck \<in> set (boxCells x0 x1 y0 y1) \<longleftrightarrow> inBox x0 x1 y0 y1 ck"
proof
  assume "ck \<in> set (boxCells x0 x1 y0 y1)"
  then show "inBox x0 x1 y0 y1 ck" by (auto simp: boxCells_def inBox_def sint_of_int_range)
next
  assume b: "inBox x0 x1 y0 y1 ck"
  have "ck = \<lparr>ck_cx = of_int (sint (ck_cx ck)), ck_cy = of_int (sint (ck_cy ck))\<rparr>" by simp
  then show "ck \<in> set (boxCells x0 x1 y0 y1)" using b unfolding boxCells_def inBox_def by (force simp: image_iff)
qed

lemma boxCells_distinct: "distinct (boxCells x0 x1 y0 y1)"
proof -
  have inj: "inj_on (of_int :: int \<Rightarrow> int64) {sint a..sint b}" for a b :: int64
    by (rule inj_onI) (metis atLeastAtMost_iff sint_of_int_range)
  show ?thesis
    using inj [of x0 x1] inj [of y0 y1] by (auto simp: boxCells_def distinct_map distinct_product inj_on_def)
qed

lemma fold_scan:
  "fold (\<lambda>x. fold (\<lambda>y result. result @ h x y) ys) xs acc = acc @ concat (map (\<lambda>(x, y). h x y) (List.product xs ys))"
proof (induction xs arbitrary: acc)
  case (Cons x xs)
  have "fold (\<lambda>y result. result @ h x y) ys acc = acc @ concat (map (h x) ys)" for acc
    by (induction ys arbitrary: acc) simp_all
  then show ?case using Cons by (simp add: comp_def)
qed simp

lemma QueryInto_scan:
  assumes "sint (ffloor F (fmul F (fadd F cx radius) (gr_invCellSize g))) < 2 ^ 63 - 1"
    and "sint (ffloor F (fmul F (fadd F cy radius) (gr_invCellSize g))) < 2 ^ 63 - 1"
  shows "QueryInto F zero ord cx cy radius g =
    Some (concat (map (\<lambda>ck. filter (\<lambda>i. fle F (dist2 F cx cy (case map_of (gr_positions g) i of None \<Rightarrow> zero | Some p \<Rightarrow> p)) (fmul F radius radius))
            (ord (cellAt g ck)))
      (boxCells (ffloor F (fmul F (fsub F cx radius) (gr_invCellSize g))) (ffloor F (fmul F (fadd F cx radius) (gr_invCellSize g)))
         (ffloor F (fmul F (fsub F cy radius) (gr_invCellSize g))) (ffloor F (fmul F (fadd F cy radius) (gr_invCellSize g))))))"
proof -
  define h where "h = (\<lambda>ck. filter (\<lambda>i. fle F (dist2 F cx cy (case map_of (gr_positions g) i of None \<Rightarrow> zero | Some p \<Rightarrow> p)) (fmul F radius radius)) (ord (cellAt g ck)))"
  have s: "scanCell F zero ord cx cy (fmul F radius radius) g ck result = result @ h ck" for ck result
    by (simp add: scanCell_def h_def)
  have "fold (\<lambda>x. fold (\<lambda>y result. result @ h \<lparr>ck_cx = of_int x, ck_cy = of_int y\<rparr>) [sint y0..sint y1]) [sint x0..sint x1] acc
      = acc @ concat (map h (boxCells x0 x1 y0 y1))" for x0 x1 y0 y1 acc
    by (simp add: fold_scan boxCells_def comp_def case_prod_unfold)
  then show ?thesis
    unfolding QueryInto_def Let_def s forCells_range [OF assms(2)] forCells_range [OF assms(1)] h_def [symmetric] by simp
qed

lemma QueryInto_diverges:
  assumes "sint (ffloor F (fmul F (fadd F cy radius) (gr_invCellSize g))) = 2 ^ 63 - 1"
  shows "QueryInto F zero ord cx cy radius g =
    (if sint (ffloor F (fmul F (fadd F cx radius) (gr_invCellSize g))) < sint (ffloor F (fmul F (fsub F cx radius) (gr_invCellSize g)))
     then Some [] else None)"
proof -
  let ?x0 = "ffloor F (fmul F (fsub F cx radius) (gr_invCellSize g))" and ?x1 = "ffloor F (fmul F (fadd F cx radius) (gr_invCellSize g))"
  let ?y1 = "ffloor F (fmul F (fadd F cy radius) (gr_invCellSize g))"
  have "forCells lo ?y1 body = (\<lambda>acc. None)" for lo and body :: "int64 \<Rightarrow> int64 list \<Rightarrow> int64 list option"
    by (intro ext forCells_wraps [OF assms])
  then have "QueryInto F zero ord cx cy radius g = forCells ?x0 ?x1 (\<lambda>gx acc. None) []"
    by (simp add: QueryInto_def Let_def)
  also have "\<dots> = (if sint ?x1 < sint ?x0 then Some [] else None)"
    by (simp add: forCells.simps [of ?x0])
  finally show ?thesis .
qed

text \<open>
  C24.  The cell scan returns exactly when neither counter can wrap: the upper cell coordinate of the
  outer loop is below the largest \<^verbatim>\<open>int\<close>, and so is that of the inner loop unless the outer
  loop has no iteration, which then never starts the inner one.
\<close>

theorem query_terminates:
  "(\<exists>r. QueryInto F zero ord cx cy radius g = Some r)
   \<longleftrightarrow> sint (ffloor F (fmul F (fadd F cx radius) (gr_invCellSize g))) < 2 ^ 63 - 1
     \<and> (sint (ffloor F (fmul F (fadd F cy radius) (gr_invCellSize g))) < 2 ^ 63 - 1
        \<or> sint (ffloor F (fmul F (fadd F cx radius) (gr_invCellSize g))) < sint (ffloor F (fmul F (fsub F cx radius) (gr_invCellSize g))))"
  (is "?returns \<longleftrightarrow> ?x1 < 2 ^ 63 - 1 \<and> (?y1 < 2 ^ 63 - 1 \<or> ?x1 < ?x0)")
proof -
  have le: "sint (a :: int64) < 2 ^ 63 - 1 \<or> sint a = 2 ^ 63 - 1" for a using sint_lt [of a] by auto
  show ?thesis
  proof (cases "?x1 = 2 ^ 63 - 1")
    case True
    then have "\<not> ?returns" by (simp add: QueryInto_def Let_def forCells_wraps)
    then show ?thesis using True by simp
  next
    case False
    then have x: "?x1 < 2 ^ 63 - 1" using le by blast
    show ?thesis
    proof (cases "?y1 < 2 ^ 63 - 1")
      case True
      then show ?thesis using x QueryInto_scan [OF x True] by simp
    next
      case False
      then have "?y1 = 2 ^ 63 - 1" using le by blast
      then show ?thesis using x QueryInto_diverges [of F cy radius g zero ord cx] by simp
    qed
  qed
qed

lemma distinct_concat_disjoint:
  "distinct xs \<Longrightarrow> (\<And>x. x \<in> set xs \<Longrightarrow> distinct (h x)) \<Longrightarrow> (\<And>x y. x \<in> set xs \<Longrightarrow> y \<in> set xs \<Longrightarrow> x \<noteq> y \<Longrightarrow> set (h x) \<inter> set (h y) = {})
     \<Longrightarrow> distinct (concat (map h xs))"
  by (induction xs) (simp, fastforce)

lemma QueryInto_exact:
  assumes I: "gridInv F g" and ord: "\<forall>m. gm_wf m \<longrightarrow> iter_order (ord m) m"
    and q: "QueryInto F zero ord cx cy radius g = Some r"
    and top: "sint (ffloor F (fmul F (fadd F cx radius) (gr_invCellSize g))) < 2 ^ 63 - 1"
      "sint (ffloor F (fmul F (fadd F cy radius) (gr_invCellSize g))) < 2 ^ 63 - 1"
  shows "distinct r"
    and "set r = {i. \<exists>p. map_of (gr_positions g) i = Some p \<and> fle F (dist2 F cx cy p) (fmul F radius radius)
                     \<and> queryBox F cx cy radius g (toCell F g (po_x p) (po_y p))}"
proof -
  define h where "h = (\<lambda>ck. filter (\<lambda>i. fle F (dist2 F cx cy (case map_of (gr_positions g) i of None \<Rightarrow> zero | Some p \<Rightarrow> p)) (fmul F radius radius)) (ord (cellAt g ck)))"
  define cks where "cks = boxCells (ffloor F (fmul F (fsub F cx radius) (gr_invCellSize g))) (ffloor F (fmul F (fadd F cx radius) (gr_invCellSize g)))
         (ffloor F (fmul F (fsub F cy radius) (gr_invCellSize g))) (ffloor F (fmul F (fadd F cy radius) (gr_invCellSize g)))"
  have r: "r = concat (map h cks)" using q QueryInto_scan [OF top, of zero ord] by (simp add: h_def cks_def)
  have o: "distinct (ord (cellAt g ck)) \<and> set (ord (cellAt g ck)) = {i. map_of (gr_cellOf g) i = Some ck}" for ck
    using I ord by (auto simp: gridInv_def iter_order_def)
  have "set (h a) \<inter> set (h b) = {}" if "a \<noteq> b" for a b using o that by (auto simp: h_def)
  then show "distinct r" unfolding r
    by (intro distinct_concat_disjoint) (simp_all add: cks_def boxCells_distinct h_def o)
  have c: "map_of (gr_cellOf g) i = map_option (\<lambda>p. toCell F g (po_x p) (po_y p)) (map_of (gr_positions g) i)" for i
    using I by (simp add: gridInv_def)
  show "set r = {i. \<exists>p. map_of (gr_positions g) i = Some p \<and> fle F (dist2 F cx cy p) (fmul F radius radius)
                     \<and> queryBox F cx cy radius g (toCell F g (po_x p) (po_y p))}"
    unfolding r by (auto simp: h_def o c cks_def boxCells_set queryBox_def)
qed

lemma QueryInto_some:
  assumes "QueryInto F zero ord cx cy radius g = Some r"
  shows "(sint (ffloor F (fmul F (fadd F cx radius) (gr_invCellSize g))) < 2 ^ 63 - 1
      \<and> sint (ffloor F (fmul F (fadd F cy radius) (gr_invCellSize g))) < 2 ^ 63 - 1)
    \<or> r = [] \<and> (\<forall>ck. \<not> queryBox F cx cy radius g ck)"
proof -
  let ?x0 = "ffloor F (fmul F (fsub F cx radius) (gr_invCellSize g))" and ?x1 = "ffloor F (fmul F (fadd F cx radius) (gr_invCellSize g))"
  let ?y1 = "ffloor F (fmul F (fadd F cy radius) (gr_invCellSize g))"
  have le: "sint (a :: int64) < 2 ^ 63 - 1 \<or> sint a = 2 ^ 63 - 1" for a using sint_lt [of a] by auto
  show ?thesis
  proof (cases "sint ?x1 < 2 ^ 63 - 1 \<and> sint ?y1 < 2 ^ 63 - 1")
    case False
    have "sint ?x1 \<noteq> 2 ^ 63 - 1" using assms by (auto simp: QueryInto_def Let_def forCells_wraps)
    then have "sint ?y1 = 2 ^ 63 - 1" using False le by blast
    then have "forCells lo ?y1 body = (\<lambda>acc. None)" for lo and body :: "int64 \<Rightarrow> int64 list \<Rightarrow> int64 list option"
      by (intro ext forCells_wraps)
    then have "forCells ?x0 ?x1 (\<lambda>gx acc. None) [] = Some r"
      using assms by (simp add: QueryInto_def Let_def)
    then have "r = [] \<and> sint ?x0 > sint ?x1" by (auto simp: forCells.simps [of ?x0] split: if_splits)
    then show ?thesis by (auto simp: queryBox_def inBox_def)
  qed simp
qed

lemma QueryInto_result:
  assumes "gridInv F g" "\<forall>m. gm_wf m \<longrightarrow> iter_order (ord m) m" "QueryInto F zero ord cx cy radius g = Some r"
  shows "distinct r"
    and "set r = {i. \<exists>p. map_of (gr_positions g) i = Some p \<and> fle F (dist2 F cx cy p) (fmul F radius radius)
                     \<and> queryBox F cx cy radius g (toCell F g (po_x p) (po_y p))}"
  using QueryInto_some [OF assms(3)] QueryInto_exact [OF assms] by auto

text \<open>
  C25.  A query returns each entity at most once, in the order of no particular map: exactly those whose
  squared distance, as computed, is within the squared radius and whose cell lies in the scanned
  box.  Where the arithmetic puts every position within the radius into the box (as exact arithmetic
  does), these are exactly the entities within the radius.
\<close>

theorem query_exact:
  assumes "gridRun F ops (NewGrid F cellSize) = Some g" and "\<forall>m. gm_wf m \<longrightarrow> iter_order (ord m) m"
    and "sint (ffloor F (fmul F (fadd F cx radius) (gr_invCellSize g))) < 2 ^ 63 - 1"
    and "sint (ffloor F (fmul F (fadd F cy radius) (gr_invCellSize g))) < 2 ^ 63 - 1"
  shows "\<exists>r. QueryInto F zero ord cx cy radius g = Some r \<and> distinct r
    \<and> (\<forall>i. i \<in> set r \<longleftrightarrow> (\<exists>p. fold placeApply ops Map.empty i = Some p \<and> fle F (dist2 F cx cy p) (fmul F radius radius)
             \<and> queryBox F cx cy radius g (toCell F g (po_x p) (po_y p))))
    \<and> ((\<forall>p. fle F (dist2 F cx cy p) (fmul F radius radius) \<longrightarrow> queryBox F cx cy radius g (toCell F g (po_x p) (po_y p)))
        \<longrightarrow> (\<forall>i. i \<in> set r \<longleftrightarrow> (\<exists>p. fold placeApply ops Map.empty i = Some p \<and> fle F (dist2 F cx cy p) (fmul F radius radius))))"
proof -
  have g: "gridInv F g" "map_of (gr_positions g) = fold placeApply ops Map.empty"
    using gridRun_ok [OF gridInv_new [of F cellSize], of ops] assms(1) by (auto simp: NewGrid_def)
  obtain r where r: "QueryInto F zero ord cx cy radius g = Some r" using QueryInto_scan [OF assms(3,4)] by blast
  note Q = QueryInto_exact [OF g(1) assms(2) r assms(3,4)]
  have "i \<in> set r \<longleftrightarrow> (\<exists>p. fold placeApply ops Map.empty i = Some p \<and> fle F (dist2 F cx cy p) (fmul F radius radius)
             \<and> queryBox F cx cy radius g (toCell F g (po_x p) (po_y p)))" for i
    using Q(2) by (simp add: g(2))
  then show ?thesis using r Q(1) by blast
qed

text \<open>Integer coordinates with cells of size one.\<close>

definition intOps :: "int fops" where
  "intOps = \<lparr>fmul = (*), fadd = (+), fsub = (-), frecip = (\<lambda>x. x), fle = (\<le>), ffloor = of_int\<rparr>"

definition demoOps :: "int gridOp list" where
  "demoOps = [GInsert 1 0 0, GInsert 2 5 0, GMove 2 1 1, GMove 3 9 9]"

theorem query_exact_witness:
  "\<exists>g r. gridRun intOps demoOps (NewGrid intOps 1) = Some g
     \<and> QueryInto intOps \<lparr>po_x = 0, po_y = 0\<rparr> (map fst) 0 0 2 g = Some r \<and> distinct r \<and> 2 \<in> set r \<and> 3 \<notin> set r"
proof -
  obtain g where g: "gridRun intOps demoOps (NewGrid intOps 1) = Some g" "gr_invCellSize g = 1"
    using gridRun_ok [OF gridInv_new [of intOps 1], of demoOps] by (auto simp: NewGrid_def intOps_def)
  have o: "\<forall>m :: idset. gm_wf m \<longrightarrow> iter_order (map fst m) m" by (simp add: iter_order_keys)
  have t: "sint (ffloor intOps (fmul intOps (fadd intOps 0 2) (gr_invCellSize g))) < 2 ^ 63 - 1" by (simp add: g intOps_def)
  from query_exact [OF g(1) o t t, of "\<lparr>po_x = 0, po_y = 0\<rparr>"] obtain r where
    r: "QueryInto intOps \<lparr>po_x = 0, po_y = 0\<rparr> (map fst) 0 0 2 g = Some r" "distinct r"
    "\<forall>i. i \<in> set r \<longleftrightarrow> (\<exists>p. fold placeApply demoOps Map.empty i = Some p \<and> fle intOps (dist2 intOps 0 0 p) (fmul intOps 2 2)
             \<and> queryBox intOps 0 0 2 g (toCell intOps g (po_x p) (po_y p)))" by blast
  have "2 \<in> set r" "3 \<notin> set r"
    using r(3) by (simp_all add: demoOps_def intOps_def dist2_def queryBox_def inBox_def toCell_def g)
  then show ?thesis using g r by blast
qed

theorem query_terminates_witness:
  "\<exists>r. QueryInto intOps \<lparr>po_x = 0, po_y = 0\<rparr> (map fst) 0 0 2 (NewGrid intOps 1) = Some r"
  using query_terminates [of intOps "\<lparr>po_x = 0, po_y = 0\<rparr>" "map fst" 0 0 2 "NewGrid intOps 1"]
  by (simp add: intOps_def NewGrid_def)

end
