(* ===== verification/Interest_Manager.thy ===== *)
theory Interest_Manager
  imports Interest_Grid Registry
begin

text \<open>
  Interest management (\<^verbatim>\<open>golem/interest/manager.go\<close>): a field of interest per session,
  anchored to an entity, with a larger radius for leaving than for entering; entities flagged as
  global are always of interest.  Per-session scratch (the marks and their generation) is kept
  between ticks and so is part of the state; the reused slices start empty and are left out.
\<close>

section \<open>State\<close>

record 'f FOI =
  foi_EntityID :: int64
  foi_Radius :: 'f
  foi_Margin :: 'f

record Diff =
  df_Entered :: "int64 list"
  df_Stayed :: "int64 list"
  df_Exited :: "int64 list"

definition df_empty :: Diff where
  "df_empty = \<lparr>df_Entered = [], df_Stayed = [], df_Exited = []\<rparr>"

definition candidateMarksCompactionFactor :: nat where "candidateMarksCompactionFactor = 4"
definition candidateMarksCompactionMinSize :: nat where "candidateMarksCompactionMinSize = 256"

record diffScratch =
  ds_diff :: Diff
  ds_candidateMarks :: "(int64, u64) gomap"
  ds_candidateGeneration :: u64

record 'f interestManager =
  im_grid :: "'f Grid"
  im_fois :: "(int64, 'f FOI) gomap"
  im_known :: "(int64, idset) gomap"
  im_globals :: idset
  im_removedGlobals :: idset
  im_tracked :: idset
  im_diffs :: "(int64, Diff) gomap"
  im_diffScratch :: "(int64, diffScratch) gomap"

definition NewInterestManager :: "'f fops \<Rightarrow> 'f \<Rightarrow> 'f interestManager" where
  "NewInterestManager F cellSize = \<lparr>im_grid = NewGrid F cellSize, im_fois = [], im_known = [], im_globals = [],
     im_removedGlobals = [], im_tracked = [], im_diffs = [], im_diffScratch = []\<rparr>"

text \<open>The coordinates of an entity; the conversion from float32 is exact.\<close>

record ('e, 'f) posIface =
  pi_Position :: "'e \<Rightarrow> 'f \<times> 'f"
  pi_Position3D :: "'e \<Rightarrow> ('f \<times> 'f \<times> 'f) option"

definition interestPosition :: "('e, 'f) posIface \<Rightarrow> 'e \<Rightarrow> 'f \<times> 'f" where
  "interestPosition pif e =
     (case pi_Position3D pif e of Some (x, _, z) \<Rightarrow> (x, z) | None \<Rightarrow> pi_Position pif e)"

text \<open>The order in which the runtime visits the maps.\<close>

record 'f iorders =
  io_ids :: "idset \<Rightarrow> int64 list"
  io_fois :: "(int64, 'f FOI) gomap \<Rightarrow> int64 list"

section \<open>Fields of interest\<close>

definition im_AssignFOI :: "int64 \<Rightarrow> int64 \<Rightarrow> 'f \<Rightarrow> 'f \<Rightarrow> 'f interestManager \<Rightarrow> 'f interestManager" where
  "im_AssignFOI sessionID entityID radius margin m =
     (let m = m\<lparr>im_fois := AList.update sessionID
            \<lparr>foi_EntityID = entityID, foi_Radius = radius, foi_Margin = margin\<rparr> (im_fois m)\<rparr>
      in if map_of (im_known m) sessionID = None then m\<lparr>im_known := AList.update sessionID [] (im_known m)\<rparr> else m)"

definition im_RemoveFOI :: "int64 \<Rightarrow> 'f interestManager \<Rightarrow> 'f interestManager" where
  "im_RemoveFOI sessionID m =
     m\<lparr>im_fois := AList.delete sessionID (im_fois m), im_known := AList.delete sessionID (im_known m),
       im_diffs := AList.delete sessionID (im_diffs m), im_diffScratch := AList.delete sessionID (im_diffScratch m)\<rparr>"

definition im_HasFOI :: "'f interestManager \<Rightarrow> int64 \<Rightarrow> bool" where
  "im_HasFOI m sessionID \<longleftrightarrow> map_of (im_fois m) sessionID \<noteq> None"

definition im_Known :: "'f interestManager \<Rightarrow> int64 \<Rightarrow> idset option" where
  "im_Known m sessionID = map_of (im_known m) sessionID"

definition im_IsGlobal :: "'f interestManager \<Rightarrow> int64 \<Rightarrow> bool" where
  "im_IsGlobal m entityID \<longleftrightarrow> map_of (im_globals m) entityID \<noteq> None"

section \<open>Following the registry\<close>

text \<open>\<open>alive\<close> collects the entities seen.\<close>

fun updateAlive ::
  "'f fops \<Rightarrow> 'e entityIface \<Rightarrow> ('e, 'f) posIface \<Rightarrow> 'e list \<Rightarrow> idset \<Rightarrow> 'f interestManager
     \<Rightarrow> (idset \<times> 'f interestManager) option" where
  "updateAlive F ifc pif [] alive m = Some (alive, m)"
| "updateAlive F ifc pif (e # es) alive m =
     (let i = ei_EntityID ifc e; alive = AList.update i () alive
      in if ei_IsGlobal ifc e then
           updateAlive F ifc pif es alive
             (m\<lparr>im_globals := AList.update i () (im_globals m), im_grid := gridRemove i (im_grid m),
                im_tracked := AList.delete i (im_tracked m)\<rparr>)
         else
           (let m = m\<lparr>im_globals := AList.delete i (im_globals m)\<rparr>;
                (x, y) = interestPosition pif e
            in Option.bind (if gridHas (im_grid m) i then gridMove F i x y (im_grid m) else gridInsert F i x y (im_grid m))
                 (\<lambda>g. updateAlive F ifc pif es alive
                        (m\<lparr>im_grid := g, im_tracked := AList.update i () (im_tracked m)\<rparr>))))"

definition dropTracked :: "idset \<Rightarrow> int64 \<Rightarrow> 'f interestManager \<Rightarrow> 'f interestManager" where
  "dropTracked alive i m =
     (if map_of alive i = None
      then m\<lparr>im_grid := gridRemove i (im_grid m), im_tracked := AList.delete i (im_tracked m)\<rparr> else m)"

definition dropGlobal :: "idset \<Rightarrow> int64 \<Rightarrow> 'f interestManager \<Rightarrow> 'f interestManager" where
  "dropGlobal alive i m =
     (if map_of alive i = None
      then m\<lparr>im_removedGlobals := AList.update i () (im_removedGlobals m), im_globals := AList.delete i (im_globals m)\<rparr>
      else m)"

definition UpdateGrid ::
  "'f fops \<Rightarrow> 'f iorders \<Rightarrow> 'e entityIface \<Rightarrow> ('e, 'f) posIface \<Rightarrow> 'e list \<Rightarrow> 'f interestManager \<Rightarrow> 'f interestManager option" where
  "UpdateGrid F ord ifc pif entities m =
     Option.bind (updateAlive F ifc pif entities [] (m\<lparr>im_removedGlobals := []\<rparr>))
       (\<lambda>(alive, m).
         (let m = fold (dropTracked alive) (io_ids ord (im_tracked m)) m
          in Some (fold (dropGlobal alive) (io_ids ord (im_globals m)) m)))"

section \<open>Differences\<close>

definition entityAllowed :: "(int64 \<Rightarrow> int64 \<Rightarrow> bool) option \<Rightarrow> int64 \<Rightarrow> int64 \<Rightarrow> bool" where
  "entityAllowed allow sessionID entityID = (case allow of None \<Rightarrow> True | Some f \<Rightarrow> f sessionID entityID)"

definition diffFor :: "int64 \<Rightarrow> 'f interestManager \<Rightarrow> diffScratch" where
  "diffFor sessionID m =
     (case map_of (im_diffScratch m) sessionID of
        None \<Rightarrow> \<lparr>ds_diff = df_empty, ds_candidateMarks = [], ds_candidateGeneration = 0\<rparr>
      | Some sc \<Rightarrow> sc\<lparr>ds_diff := df_empty\<rparr>)"

definition nextCandidateGeneration :: "diffScratch \<Rightarrow> u64 \<times> diffScratch" where
  "nextCandidateGeneration sc =
     (ds_candidateGeneration sc + 1, sc\<lparr>ds_candidateGeneration := ds_candidateGeneration sc + 1\<rparr>)"

definition shouldCompactCandidateMarks :: "nat \<Rightarrow> nat \<Rightarrow> diffScratch \<Rightarrow> bool" where
  "shouldCompactCandidateMarks candidateCount knownCount sc =
     (let activeSize = candidateCount;
          activeSize = (if knownCount > activeSize then knownCount else activeSize);
          activeSize = (if activeSize < 1 then 1 else activeSize)
      in gm_len (ds_candidateMarks sc) > candidateMarksCompactionMinSize
         \<and> gm_len (ds_candidateMarks sc) > activeSize * candidateMarksCompactionFactor)"

definition compactCandidateMarks :: "int64 list \<Rightarrow> u64 \<Rightarrow> diffScratch \<Rightarrow> diffScratch" where
  "compactCandidateMarks candidates generation sc =
     sc\<lparr>ds_candidateMarks := fold (\<lambda>i. AList.update i generation) candidates []\<rparr>"

record diffAcc =
  da_diff :: Diff
  da_known :: idset

definition addEntered :: "int64 \<Rightarrow> diffAcc \<Rightarrow> diffAcc" where
  "addEntered i a = \<lparr>da_diff = (da_diff a)\<lparr>df_Entered := df_Entered (da_diff a) @ [i]\<rparr>, da_known = AList.update i () (da_known a)\<rparr>"

definition addStayed :: "int64 \<Rightarrow> diffAcc \<Rightarrow> diffAcc" where
  "addStayed i a = a\<lparr>da_diff := (da_diff a)\<lparr>df_Stayed := df_Stayed (da_diff a) @ [i]\<rparr>\<rparr>"

definition addExited :: "int64 \<Rightarrow> diffAcc \<Rightarrow> diffAcc" where
  "addExited i a = \<lparr>da_diff = (da_diff a)\<lparr>df_Exited := df_Exited (da_diff a) @ [i]\<rparr>, da_known = AList.delete i (da_known a)\<rparr>"

text \<open>A candidate of the spatial query; \<open>stay\<close> and \<open>enter\<close> are the two distance tests.\<close>

definition diffCandidate ::
  "(int64 \<Rightarrow> bool) \<Rightarrow> (int64 \<Rightarrow> bool) \<Rightarrow> (int64 \<Rightarrow> bool) \<Rightarrow> int64 \<Rightarrow> diffAcc \<Rightarrow> diffAcc" where
  "diffCandidate stay enter allowed i a =
     (if map_of (da_known a) i \<noteq> None
      then (if stay i \<and> allowed i then addStayed i a else addExited i a)
      else (if enter i \<and> allowed i then addEntered i a else a))"

text \<open>Known entities that were not candidates.\<close>

definition diffKnown :: "idset \<Rightarrow> (int64, u64) gomap \<Rightarrow> u64 \<Rightarrow> int64 \<Rightarrow> diffAcc \<Rightarrow> diffAcc" where
  "diffKnown globals marks generation i a =
     (if map_of globals i \<noteq> None then a
      else case map_of marks i of
             None \<Rightarrow> addExited i a
           | Some stamp \<Rightarrow> if stamp \<noteq> generation then addExited i a else a)"

definition diffGlobal :: "(int64 \<Rightarrow> bool) \<Rightarrow> int64 \<Rightarrow> diffAcc \<Rightarrow> diffAcc" where
  "diffGlobal allowed i a =
     (if \<not> allowed i then (if map_of (da_known a) i \<noteq> None then addExited i a else a)
      else if map_of (da_known a) i \<noteq> None then addStayed i a else addEntered i a)"

definition diffRemovedGlobal :: "int64 \<Rightarrow> diffAcc \<Rightarrow> diffAcc" where
  "diffRemovedGlobal i a = (if map_of (da_known a) i \<noteq> None then addExited i a else a)"

definition appendGlobalsFiltered ::
  "'f iorders \<Rightarrow> (int64 \<Rightarrow> bool) \<Rightarrow> 'f interestManager \<Rightarrow> diffAcc \<Rightarrow> diffAcc" where
  "appendGlobalsFiltered ord allowed m a =
     fold diffRemovedGlobal (io_ids ord (im_removedGlobals m)) (fold (diffGlobal allowed) (io_ids ord (im_globals m)) a)"

definition zeroPos :: "'f \<Rightarrow> 'f pos" where
  "zeroPos z = \<lparr>po_x = z, po_y = z\<rparr>"

definition positionOf :: "'f \<Rightarrow> 'f Grid \<Rightarrow> int64 \<Rightarrow> 'f pos" where
  "positionOf z g i = (case map_of (gr_positions g) i of None \<Rightarrow> zeroPos z | Some p \<Rightarrow> p)"

definition knownFor :: "'f interestManager \<Rightarrow> int64 \<Rightarrow> idset" where
  "knownFor m sessionID = (case map_of (im_known m) sessionID of None \<Rightarrow> [] | Some k \<Rightarrow> k)"

text \<open>One session; \<open>z\<close> is the zero of the coordinates.\<close>

definition sessionDiff ::
  "'f fops \<Rightarrow> 'f \<Rightarrow> 'f iorders \<Rightarrow> (int64 \<Rightarrow> int64 \<Rightarrow> bool) option \<Rightarrow> int64 \<Rightarrow> 'f FOI \<Rightarrow> 'f interestManager
     \<Rightarrow> (diffAcc \<times> diffScratch) option" where
  "sessionDiff F z ord allow sessionID foi m =
     (let allowed = entityAllowed allow sessionID;
          sc = diffFor sessionID m;
          a = \<lparr>da_diff = ds_diff sc, da_known = knownFor m sessionID\<rparr>;
          g = im_grid m
      in case map_of (gr_positions g) (foi_EntityID foi) of
           None \<Rightarrow> Some (appendGlobalsFiltered ord allowed m a, sc)
         | Some foiPos \<Rightarrow>
             Option.bind (QueryInto F (zeroPos z) (io_ids ord) (po_x foiPos) (po_y foiPos) (fadd F (foi_Radius foi) (foi_Margin foi)) g)
               (\<lambda>candidates.
                 (let (generation, sc) = nextCandidateGeneration sc;
                      enterR2 = fmul F (foi_Radius foi) (foi_Radius foi);
                      exitR2 = fmul F (fadd F (foi_Radius foi) (foi_Margin foi)) (fadd F (foi_Radius foi) (foi_Margin foi));
                      d2 = (\<lambda>i. dist2 F (po_x foiPos) (po_y foiPos) (positionOf z g i));
                      sc = sc\<lparr>ds_candidateMarks := fold (\<lambda>i. AList.update i generation) candidates (ds_candidateMarks sc)\<rparr>;
                      a = fold (diffCandidate (\<lambda>i. fle F (d2 i) exitR2) (\<lambda>i. fle F (d2 i) enterR2) allowed) candidates a;
                      sc = (if shouldCompactCandidateMarks (length candidates) (gm_len (da_known a)) sc
                            then compactCandidateMarks candidates generation sc else sc);
                      a = fold (diffKnown (im_globals m) (ds_candidateMarks sc) generation) (io_ids ord (da_known a)) a
                  in Some (appendGlobalsFiltered ord allowed m a, sc))))"

fun computeSessions ::
  "'f fops \<Rightarrow> 'f \<Rightarrow> 'f iorders \<Rightarrow> (int64 \<Rightarrow> int64 \<Rightarrow> bool) option \<Rightarrow> int64 list \<Rightarrow> 'f interestManager
     \<Rightarrow> 'f interestManager option" where
  "computeSessions F z ord allow [] m = Some m"
| "computeSessions F z ord allow (sid # sids) m =
     (case map_of (im_fois m) sid of
        None \<Rightarrow> computeSessions F z ord allow sids m
      | Some foi \<Rightarrow>
          Option.bind (sessionDiff F z ord allow sid foi m)
            (\<lambda>(a, sc). computeSessions F z ord allow sids
               (m\<lparr>im_known := AList.update sid (da_known a) (im_known m), im_diffs := AList.update sid (da_diff a) (im_diffs m),
                  im_diffScratch := AList.update sid (sc\<lparr>ds_diff := da_diff a\<rparr>) (im_diffScratch m)\<rparr>)))"

definition ComputeDiffsFiltered ::
  "'f fops \<Rightarrow> 'f \<Rightarrow> 'f iorders \<Rightarrow> (int64 \<Rightarrow> int64 \<Rightarrow> bool) option \<Rightarrow> 'f interestManager
     \<Rightarrow> ((int64, Diff) gomap \<times> 'f interestManager) option" where
  "ComputeDiffsFiltered F z ord allow m =
     map_option (\<lambda>m. (im_diffs m, m)) (computeSessions F z ord allow (io_fois ord (im_fois m)) (m\<lparr>im_diffs := []\<rparr>))"

definition ComputeDiffs ::
  "'f fops \<Rightarrow> 'f \<Rightarrow> 'f iorders \<Rightarrow> 'f interestManager \<Rightarrow> ((int64, Diff) gomap \<times> 'f interestManager) option" where
  "ComputeDiffs F z ord m = ComputeDiffsFiltered F z ord None m"

end
