(* ===== verification/Interest_Diff.thy ===== *)
theory Interest_Diff
  imports Interest_Manager
begin

text \<open>
  What the per-session differences of interest management mean: the known set becomes exactly
  the entities of interest, and the three lists are the change.
\<close>

section \<open>Decisions\<close>

text \<open>Every loop decides, from whether an entity is known, what happens to it.\<close>

datatype decision = DEnter | DStay | DExit | DKeep

fun applyDecision :: "decision \<Rightarrow> int64 \<Rightarrow> diffAcc \<Rightarrow> diffAcc" where
  "applyDecision DEnter i a = addEntered i a"
| "applyDecision DStay i a = addStayed i a"
| "applyDecision DExit i a = addExited i a"
| "applyDecision DKeep i a = a"

definition keysOf :: "diffAcc \<Rightarrow> int64 set" where
  "keysOf a = gm_keys (da_known a)"

definition decideStep :: "(bool \<Rightarrow> int64 \<Rightarrow> decision) \<Rightarrow> int64 \<Rightarrow> diffAcc \<Rightarrow> diffAcc" where
  "decideStep d i a = applyDecision (d (i \<in> keysOf a) i) i a"

fun keepsKnown :: "bool \<Rightarrow> decision \<Rightarrow> bool" where
  "keepsKnown k DEnter = True"
| "keepsKnown k DStay = True"
| "keepsKnown k DExit = False"
| "keepsKnown k DKeep = k"

definition decisionOK :: "(bool \<Rightarrow> int64 \<Rightarrow> decision) \<Rightarrow> bool" where
  "decisionOK d \<longleftrightarrow> (\<forall>i. d True i \<noteq> DEnter \<and> d False i \<noteq> DStay \<and> d False i \<noteq> DExit)"

lemma decideStep_effect:
  assumes "decisionOK d" "gm_wf (da_known a)"
  shows "gm_wf (da_known (decideStep d i a))"
    and "keysOf (decideStep d i a) = (if keepsKnown (i \<in> keysOf a) (d (i \<in> keysOf a) i) then insert i (keysOf a) else keysOf a - {i})"
    and "df_Entered (da_diff (decideStep d i a)) = df_Entered (da_diff a) @ (if d (i \<in> keysOf a) i = DEnter then [i] else [])"
    and "df_Stayed (da_diff (decideStep d i a)) = df_Stayed (da_diff a) @ (if d (i \<in> keysOf a) i = DStay then [i] else [])"
    and "df_Exited (da_diff (decideStep d i a)) = df_Exited (da_diff a) @ (if d (i \<in> keysOf a) i = DExit then [i] else [])"
proof -
  have ok: "d (i \<in> keysOf a) i = DStay \<Longrightarrow> i \<in> keysOf a" "d (i \<in> keysOf a) i = DExit \<Longrightarrow> i \<in> keysOf a"
    using assms(1) by (auto simp: decisionOK_def) (metis (full_types))+
  show "gm_wf (da_known (decideStep d i a))"
    using assms(2) by (cases "d (i \<in> keysOf a) i") (simp_all add: decideStep_def addEntered_def addStayed_def addExited_def)
  show "keysOf (decideStep d i a) = (if keepsKnown (i \<in> keysOf a) (d (i \<in> keysOf a) i) then insert i (keysOf a) else keysOf a - {i})"
    using ok assms(2)
    by (cases "d (i \<in> keysOf a) i") (auto simp: decideStep_def keysOf_def addEntered_def addStayed_def addExited_def)
  show "df_Entered (da_diff (decideStep d i a)) = df_Entered (da_diff a) @ (if d (i \<in> keysOf a) i = DEnter then [i] else [])"
    "df_Stayed (da_diff (decideStep d i a)) = df_Stayed (da_diff a) @ (if d (i \<in> keysOf a) i = DStay then [i] else [])"
    "df_Exited (da_diff (decideStep d i a)) = df_Exited (da_diff a) @ (if d (i \<in> keysOf a) i = DExit then [i] else [])"
    by (cases "d (i \<in> keysOf a) i"; simp add: decideStep_def addEntered_def addStayed_def addExited_def)+
qed

lemma fold_decide:
  assumes "decisionOK d" "gm_wf (da_known a)" "distinct is"
  defines "b \<equiv> fold (decideStep d) is a"
  shows "gm_wf (da_known b)"
    and "keysOf b = {i. if i \<in> set is then keepsKnown (i \<in> keysOf a) (d (i \<in> keysOf a) i) else i \<in> keysOf a}"
    and "df_Entered (da_diff b) = df_Entered (da_diff a) @ filter (\<lambda>i. d (i \<in> keysOf a) i = DEnter) is"
    and "df_Stayed (da_diff b) = df_Stayed (da_diff a) @ filter (\<lambda>i. d (i \<in> keysOf a) i = DStay) is"
    and "df_Exited (da_diff b) = df_Exited (da_diff a) @ filter (\<lambda>i. d (i \<in> keysOf a) i = DExit) is"
proof -
  have "gm_wf (da_known b)
    \<and> keysOf b = {i. if i \<in> set is then keepsKnown (i \<in> keysOf a) (d (i \<in> keysOf a) i) else i \<in> keysOf a}
    \<and> df_Entered (da_diff b) = df_Entered (da_diff a) @ filter (\<lambda>i. d (i \<in> keysOf a) i = DEnter) is
    \<and> df_Stayed (da_diff b) = df_Stayed (da_diff a) @ filter (\<lambda>i. d (i \<in> keysOf a) i = DStay) is
    \<and> df_Exited (da_diff b) = df_Exited (da_diff a) @ filter (\<lambda>i. d (i \<in> keysOf a) i = DExit) is"
    using assms(2,3) unfolding b_def
  proof (induction "is" arbitrary: a)
    case (Cons i "is")
    note E = decideStep_effect [OF assms(1) Cons.prems(1), of i]
    have same: "(j \<in> keysOf (decideStep d i a)) = (j \<in> keysOf a)" if "j \<noteq> i" for j using that by (simp add: E(2))
    have f: "filter (\<lambda>j. d (j \<in> keysOf (decideStep d i a)) j = x) is = filter (\<lambda>j. d (j \<in> keysOf a) j = x) is" for x
    proof (rule filter_cong [OF refl])
      fix j assume "j \<in> set is"
      then have "j \<noteq> i" using Cons.prems(2) by auto
      then show "(d (j \<in> keysOf (decideStep d i a)) j = x) = (d (j \<in> keysOf a) j = x)" by (simp add: same)
    qed
    have d: "distinct is" "i \<notin> set is" using Cons.prems(2) by simp_all
    note ih = Cons.IH [OF E(1) d(1)]
    have "(if j \<in> set is then keepsKnown (j \<in> keysOf (decideStep d i a)) (d (j \<in> keysOf (decideStep d i a)) j)
           else j \<in> keysOf (decideStep d i a))
        = (if j \<in> set (i # is) then keepsKnown (j \<in> keysOf a) (d (j \<in> keysOf a) j) else j \<in> keysOf a)" for j
    proof (cases "j = i")
      case True
      then show ?thesis using d(2) by (simp add: E(2))
    next
      case False
      then show ?thesis by (simp add: same)
    qed
    then have k: "keysOf (fold (decideStep d) is (decideStep d i a))
        = {j. if j \<in> set (i # is) then keepsKnown (j \<in> keysOf a) (d (j \<in> keysOf a) j) else j \<in> keysOf a}"
      using ih by simp
    show ?case using ih k by (simp add: E(3-5) f del: set_simps)
  qed (auto simp: keysOf_def)
  then show "gm_wf (da_known b)"
    and "keysOf b = {i. if i \<in> set is then keepsKnown (i \<in> keysOf a) (d (i \<in> keysOf a) i) else i \<in> keysOf a}"
    and "df_Entered (da_diff b) = df_Entered (da_diff a) @ filter (\<lambda>i. d (i \<in> keysOf a) i = DEnter) is"
    and "df_Stayed (da_diff b) = df_Stayed (da_diff a) @ filter (\<lambda>i. d (i \<in> keysOf a) i = DStay) is"
    and "df_Exited (da_diff b) = df_Exited (da_diff a) @ filter (\<lambda>i. d (i \<in> keysOf a) i = DExit) is" by blast+
qed

section \<open>The loops as decisions\<close>

definition decCandidate :: "(int64 \<Rightarrow> bool) \<Rightarrow> (int64 \<Rightarrow> bool) \<Rightarrow> (int64 \<Rightarrow> bool) \<Rightarrow> bool \<Rightarrow> int64 \<Rightarrow> decision" where
  "decCandidate stay enter allowed k i =
     (if k then (if stay i \<and> allowed i then DStay else DExit) else if enter i \<and> allowed i then DEnter else DKeep)"

definition decKnown :: "int64 set \<Rightarrow> bool \<Rightarrow> int64 \<Rightarrow> decision" where
  "decKnown keep k i = (if i \<in> keep \<or> \<not> k then DKeep else DExit)"

definition decGlobal :: "(int64 \<Rightarrow> bool) \<Rightarrow> bool \<Rightarrow> int64 \<Rightarrow> decision" where
  "decGlobal allowed k i =
     (if \<not> allowed i then (if k then DExit else DKeep) else if k then DStay else DEnter)"

definition decRemoved :: "bool \<Rightarrow> int64 \<Rightarrow> decision" where
  "decRemoved k i = (if k then DExit else DKeep)"

lemma decisions_ok [simp]:
  "decisionOK (decCandidate s e al)" "decisionOK (decKnown K)" "decisionOK (decGlobal al)" "decisionOK decRemoved"
  by (simp_all add: decisionOK_def decCandidate_def decKnown_def decGlobal_def decRemoved_def)

lemma dec_iffs [simp]:
  "decCandidate s e al k i = DEnter \<longleftrightarrow> \<not> k \<and> e i \<and> al i" "decCandidate s e al k i = DStay \<longleftrightarrow> k \<and> s i \<and> al i"
  "decCandidate s e al k i = DExit \<longleftrightarrow> k \<and> \<not> (s i \<and> al i)"
  "decKnown K k i \<noteq> DEnter" "decKnown K k i \<noteq> DStay" "decKnown K k i = DExit \<longleftrightarrow> k \<and> i \<notin> K"
  "decGlobal al k i = DEnter \<longleftrightarrow> \<not> k \<and> al i" "decGlobal al k i = DStay \<longleftrightarrow> k \<and> al i" "decGlobal al k i = DExit \<longleftrightarrow> k \<and> \<not> al i"
  "decRemoved k i \<noteq> DEnter" "decRemoved k i \<noteq> DStay" "decRemoved k i = DExit \<longleftrightarrow> k"
  by (auto simp: decCandidate_def decKnown_def decGlobal_def decRemoved_def)

lemma diffCandidate_decide: "diffCandidate s e al = decideStep (decCandidate s e al)"
  by (auto simp: fun_eq_iff diffCandidate_def decideStep_def decCandidate_def keysOf_def gm_keys_None)

lemma diffGlobal_decide: "diffGlobal al = decideStep (decGlobal al)"
  by (auto simp: fun_eq_iff diffGlobal_def decideStep_def decGlobal_def keysOf_def gm_keys_None)

lemma diffRemovedGlobal_decide: "diffRemovedGlobal = decideStep decRemoved"
  by (auto simp: fun_eq_iff diffRemovedGlobal_def decideStep_def decRemoved_def keysOf_def gm_keys_None)

lemma fold_diffKnown:
  assumes "distinct is" "set is \<subseteq> keysOf a" "gm_wf (da_known a)"
  shows "fold (diffKnown globals marks gen) is a
    = fold (decideStep (decKnown (gm_keys globals \<union> {i. map_of marks i = Some gen}))) is a"
  using assms
proof (induction "is" arbitrary: a)
  case (Cons i "is")
  let ?d = "decKnown (gm_keys globals \<union> {i. map_of marks i = Some gen})"
  have e: "diffKnown globals marks gen i a = decideStep ?d i a"
    using Cons.prems(2) by (auto simp: diffKnown_def decideStep_def decKnown_def gm_keys_None split: option.splits)
  note E = decideStep_effect [OF decisions_ok(2) Cons.prems(3), of "gm_keys globals \<union> {i. map_of marks i = Some gen}" i]
  have "set is \<subseteq> keysOf (decideStep ?d i a)" using Cons.prems(1,2) by (auto simp: E(2))
  then show ?case using Cons.IH [OF _ _ E(1)] Cons.prems(1) by (simp add: e)
qed simp

lemma map_of_marks:
  "map_of (fold (\<lambda>i. AList.update i g) cs m) i = (if i \<in> set cs then Some g else map_of m i)"
  by (induction cs arbitrary: m) auto

section \<open>A session whose anchor is on the grid\<close>

text \<open>What the difference should be, given the candidates and the two distance tests.\<close>

definition wanted :: "(int64 \<Rightarrow> bool) \<Rightarrow> (int64 \<Rightarrow> bool) \<Rightarrow> (int64 \<Rightarrow> bool) \<Rightarrow> int64 set \<Rightarrow> int64 set \<Rightarrow> int64 set \<Rightarrow> int64 set" where
  "wanted stay enter allowed C G K =
     {i \<in> C. allowed i \<and> (if i \<in> K then stay i else enter i)} \<union> {i \<in> G. allowed i}"

definition exactDiff :: "int64 set \<Rightarrow> int64 set \<Rightarrow> Diff \<Rightarrow> bool" where
  "exactDiff K K' d \<longleftrightarrow> set (df_Entered d) = K' - K \<and> set (df_Stayed d) = K' \<inter> K \<and> set (df_Exited d) = K - K'
     \<and> distinct (df_Entered d) \<and> distinct (df_Stayed d) \<and> distinct (df_Exited d)"

lemma four_loops:
  assumes wf: "gm_wf (da_known a)" and e: "da_diff a = df_empty"
    and C: "distinct cs" and G: "distinct gs" and R: "distinct rs"
    and dis: "set cs \<inter> set gs = {}" "set rs \<inter> set gs = {}" "set rs \<inter> set cs = {}"
    and k1: "a1 = fold (decideStep (decCandidate stay enter al)) cs a"
    and kl: "distinct kl" "set kl = keysOf a1"
    and k2: "a2 = fold (decideStep (decKnown (set gs \<union> set cs))) kl a1"
    and k3: "a3 = fold (decideStep (decGlobal al)) gs a2"
    and k4: "a4 = fold (decideStep decRemoved) rs a3"
  shows "keysOf a4 = wanted stay enter al (set cs) (set gs) (keysOf a)" and "exactDiff (keysOf a) (keysOf a4) (da_diff a4)"
    and "gm_wf (da_known a4)"
proof -
  let ?K = "keysOf a"
  note F1 = fold_decide [OF decisions_ok(1) wf C, of stay enter al, folded k1]
  note F2 = fold_decide [OF decisions_ok(2) F1(1) kl(1), of "set gs \<union> set cs", folded k2]
  note F3 = fold_decide [OF decisions_ok(3) F2(1) G, of al, folded k3]
  note F4 = fold_decide [OF decisions_ok(4) F3(1) R, folded k4]
  have K1: "keysOf a1 = {i. if i \<in> set cs then al i \<and> (if i \<in> ?K then stay i else enter i) else i \<in> ?K}"
    using F1(2) by (auto simp: decCandidate_def split: if_splits)
  have K2: "keysOf a2 = {i \<in> keysOf a1. i \<in> set gs \<or> i \<in> set cs}"
    unfolding F2(2) kl(2) by (auto simp: decKnown_def split: if_splits)
  have K3: "keysOf a3 = {i. if i \<in> set gs then al i else i \<in> keysOf a2}"
    unfolding F3(2) by (auto simp: decGlobal_def split: if_splits)
  have K4: "keysOf a4 = keysOf a3"
    unfolding F4(2) using dis by (auto simp: decRemoved_def K3 K2 split: if_splits)
  show K: "keysOf a4 = wanted stay enter al (set cs) (set gs) ?K"
    unfolding K4 K3 K2 K1 wanted_def using dis by (auto split: if_splits)
  have r: "i \<notin> keysOf a3" if "i \<in> set rs" for i using that dis by (auto simp: K3 K2)
  have en: "df_Entered (da_diff a4) = filter (\<lambda>i. i \<notin> ?K \<and> enter i \<and> al i) cs @ filter (\<lambda>i. i \<notin> keysOf a2 \<and> al i) gs"
    using F1(3) F2(3) F3(3) F4(3) e by (simp add: df_empty_def)
  have st: "df_Stayed (da_diff a4) = filter (\<lambda>i. i \<in> ?K \<and> stay i \<and> al i) cs @ filter (\<lambda>i. i \<in> keysOf a2 \<and> al i) gs"
    using F1(4) F2(4) F3(4) F4(4) e by (simp add: df_empty_def)
  have "filter (\<lambda>i. i \<in> keysOf a3) rs = []" using r by (auto simp: filter_empty_conv)
  then have ex: "df_Exited (da_diff a4) = filter (\<lambda>i. i \<in> ?K \<and> \<not> (stay i \<and> al i)) cs
      @ filter (\<lambda>i. i \<in> keysOf a1 \<and> i \<notin> set gs \<union> set cs) kl @ filter (\<lambda>i. i \<in> keysOf a2 \<and> \<not> al i) gs"
    using F1(5) F2(5) F3(5) F4(5) e by (simp add: df_empty_def)
  have g2: "i \<in> keysOf a2 \<longleftrightarrow> i \<in> ?K" if "i \<in> set gs" for i using that dis(1) by (auto simp: K2 K1)
  show "exactDiff ?K (keysOf a4) (da_diff a4)"
    unfolding exactDiff_def K wanted_def en st ex using C G kl(1) dis g2
    by (auto simp: kl(2) K1 split: if_splits)
  show "gm_wf (da_known a4)" by (rule F4(1))
qed

section \<open>Following the registry\<close>

definition ordersOK :: "'f iorders \<Rightarrow> bool" where
  "ordersOK ord \<longleftrightarrow> (\<forall>m. gm_wf m \<longrightarrow> iter_order (io_ids ord m) m) \<and> (\<forall>m. gm_wf m \<longrightarrow> iter_order (io_fois ord m) m)"

definition managerInv :: "'f fops \<Rightarrow> 'f interestManager \<Rightarrow> bool" where
  "managerInv F m \<longleftrightarrow>
     gridInv F (im_grid m) \<and> gm_wf (im_globals m) \<and> gm_wf (im_removedGlobals m) \<and> gm_wf (im_tracked m)
     \<and> gm_keys (im_tracked m) = gm_keys (gr_positions (im_grid m))
     \<and> gm_keys (im_globals m) \<inter> gm_keys (gr_positions (im_grid m)) = {}
     \<and> gm_keys (im_removedGlobals m) \<inter> (gm_keys (im_globals m) \<union> gm_keys (gr_positions (im_grid m))) = {}"

definition entityAt :: "'e entityIface \<Rightarrow> 'e list \<Rightarrow> int64 \<Rightarrow> 'e option" where
  "entityAt ifc es = map_of (map (\<lambda>e. (ei_EntityID ifc e, e)) es)"

lemma entityAt_simps [simp]:
  "entityAt ifc [] i = None"
  "entityAt ifc (e # es) i = (if i = ei_EntityID ifc e then Some e else entityAt ifc es i)"
  by (simp_all add: entityAt_def)

lemma entityAt_None: "i \<notin> ei_EntityID ifc ` set es \<Longrightarrow> entityAt ifc es i = None"
  by (induction es) auto

lemma updateAlive_ok:
  assumes "distinct (map (ei_EntityID ifc) es)" "gridInv F (im_grid m)" "gm_wf (im_globals m)" "gm_wf (im_tracked m)"
  shows "\<exists>alive' m'. updateAlive F ifc pif es alive m = Some (alive', m')
    \<and> gm_keys alive' = gm_keys alive \<union> ei_EntityID ifc ` set es
    \<and> gridInv F (im_grid m') \<and> gm_wf (im_globals m') \<and> gm_wf (im_tracked m')
    \<and> (\<forall>i. map_of (gr_positions (im_grid m')) i = (case entityAt ifc es i of
            None \<Rightarrow> map_of (gr_positions (im_grid m)) i
          | Some e \<Rightarrow> if ei_IsGlobal ifc e then None
                      else Some \<lparr>po_x = fst (interestPosition pif e), po_y = snd (interestPosition pif e)\<rparr>))
    \<and> (\<forall>i. i \<in> gm_keys (im_tracked m') \<longleftrightarrow> (case entityAt ifc es i of None \<Rightarrow> i \<in> gm_keys (im_tracked m) | Some e \<Rightarrow> \<not> ei_IsGlobal ifc e))
    \<and> (\<forall>i. i \<in> gm_keys (im_globals m') \<longleftrightarrow> (case entityAt ifc es i of None \<Rightarrow> i \<in> gm_keys (im_globals m) | Some e \<Rightarrow> ei_IsGlobal ifc e))
    \<and> im_removedGlobals m' = im_removedGlobals m \<and> im_fois m' = im_fois m \<and> im_known m' = im_known m
    \<and> im_diffScratch m' = im_diffScratch m"
  using assms
proof (induction es arbitrary: alive m)
  case (Cons e es)
  let ?i = "ei_EntityID ifc e"
  have d: "distinct (map (ei_EntityID ifc) es)" and ni: "?i \<notin> ei_EntityID ifc ` set es" using Cons.prems(1) by auto
  note none = entityAt_None [OF ni]
  show ?case
  proof (cases "ei_IsGlobal ifc e")
    case True
    let ?m = "m\<lparr>im_globals := AList.update ?i () (im_globals m), im_grid := gridRemove ?i (im_grid m), im_tracked := AList.delete ?i (im_tracked m)\<rparr>"
    note R = gridInv_remove [OF Cons.prems(2), of ?i]
    from Cons.IH [OF d, of ?m "AList.update ?i () alive"] R(1) Cons.prems(3,4)
    obtain alive' m' where IH: "updateAlive F ifc pif es (AList.update ?i () alive) ?m = Some (alive', m')"
      "gm_keys alive' = gm_keys (AList.update ?i () alive) \<union> ei_EntityID ifc ` set es"
      "gridInv F (im_grid m')" "gm_wf (im_globals m')" "gm_wf (im_tracked m')"
      "\<forall>i. map_of (gr_positions (im_grid m')) i = (case entityAt ifc es i of
            None \<Rightarrow> map_of (gr_positions (im_grid ?m)) i
          | Some e \<Rightarrow> if ei_IsGlobal ifc e then None
                      else Some \<lparr>po_x = fst (interestPosition pif e), po_y = snd (interestPosition pif e)\<rparr>)"
      "\<forall>i. i \<in> gm_keys (im_tracked m') \<longleftrightarrow> (case entityAt ifc es i of None \<Rightarrow> i \<in> gm_keys (im_tracked ?m) | Some e \<Rightarrow> \<not> ei_IsGlobal ifc e)"
      "\<forall>i. i \<in> gm_keys (im_globals m') \<longleftrightarrow> (case entityAt ifc es i of None \<Rightarrow> i \<in> gm_keys (im_globals ?m) | Some e \<Rightarrow> ei_IsGlobal ifc e)"
      "im_removedGlobals m' = im_removedGlobals m" "im_fois m' = im_fois m" "im_known m' = im_known m"
      "im_diffScratch m' = im_diffScratch m" by auto
    show ?thesis
      by (rule exI [of _ alive'], rule exI [of _ m'])
        (use IH True none R(2) in \<open>auto simp: Let_def split: option.splits\<close>)
  next
    case False
    obtain x y where xy: "interestPosition pif e = (x, y)" by fastforce
    let ?m0 = "m\<lparr>im_globals := AList.delete ?i (im_globals m)\<rparr>"
    obtain g where g: "(if gridHas (im_grid ?m0) ?i then gridMove F ?i x y (im_grid ?m0) else gridInsert F ?i x y (im_grid ?m0)) = Some g"
      "gridInv F g" "map_of (gr_positions g) = (map_of (gr_positions (im_grid m)))(?i \<mapsto> \<lparr>po_x = x, po_y = y\<rparr>)"
      using gridInsert_ok [OF Cons.prems(2), of ?i x y] by auto
    let ?m = "?m0\<lparr>im_grid := g, im_tracked := AList.update ?i () (im_tracked m)\<rparr>"
    from Cons.IH [OF d, of ?m "AList.update ?i () alive"] g(2) Cons.prems(3,4)
    obtain alive' m' where IH: "updateAlive F ifc pif es (AList.update ?i () alive) ?m = Some (alive', m')"
      "gm_keys alive' = gm_keys (AList.update ?i () alive) \<union> ei_EntityID ifc ` set es"
      "gridInv F (im_grid m')" "gm_wf (im_globals m')" "gm_wf (im_tracked m')"
      "\<forall>i. map_of (gr_positions (im_grid m')) i = (case entityAt ifc es i of
            None \<Rightarrow> map_of (gr_positions (im_grid ?m)) i
          | Some e \<Rightarrow> if ei_IsGlobal ifc e then None
                      else Some \<lparr>po_x = fst (interestPosition pif e), po_y = snd (interestPosition pif e)\<rparr>)"
      "\<forall>i. i \<in> gm_keys (im_tracked m') \<longleftrightarrow> (case entityAt ifc es i of None \<Rightarrow> i \<in> gm_keys (im_tracked ?m) | Some e \<Rightarrow> \<not> ei_IsGlobal ifc e)"
      "\<forall>i. i \<in> gm_keys (im_globals m') \<longleftrightarrow> (case entityAt ifc es i of None \<Rightarrow> i \<in> gm_keys (im_globals ?m) | Some e \<Rightarrow> ei_IsGlobal ifc e)"
      "im_removedGlobals m' = im_removedGlobals m" "im_fois m' = im_fois m" "im_known m' = im_known m"
      "im_diffScratch m' = im_diffScratch m" by auto
    have u: "updateAlive F ifc pif (e # es) alive m = Some (alive', m')"
      using g(1) IH(1) False by (simp add: Let_def xy)
    show ?thesis
      by (rule exI [of _ alive'], rule exI [of _ m'])
        (use u IH(2-) False none g(3) xy in \<open>auto split: option.splits simp del: updateAlive.simps\<close>)
  qed
qed simp

lemma dropTracked_fold:
  fixes "is" :: "int64 list" and alive :: idset
  assumes "gridInv F (im_grid m)" "gm_wf (im_tracked m)"
  defines "m' \<equiv> fold (dropTracked alive) is m"
  shows "gridInv F (im_grid m')" and "gm_wf (im_tracked m')"
    and "map_of (gr_positions (im_grid m')) = (\<lambda>i. if i \<in> set is - gm_keys alive then None else map_of (gr_positions (im_grid m)) i)"
    and "gm_keys (im_tracked m') = gm_keys (im_tracked m) - (set is - gm_keys alive)"
    and "im_globals m' = im_globals m" "im_removedGlobals m' = im_removedGlobals m" "im_fois m' = im_fois m"
      "im_known m' = im_known m" "im_diffScratch m' = im_diffScratch m"
proof -
  have "gridInv F (im_grid m') \<and> gm_wf (im_tracked m')
    \<and> map_of (gr_positions (im_grid m')) = (\<lambda>i. if i \<in> set is - gm_keys alive then None else map_of (gr_positions (im_grid m)) i)
    \<and> gm_keys (im_tracked m') = gm_keys (im_tracked m) - (set is - gm_keys alive)
    \<and> im_globals m' = im_globals m \<and> im_removedGlobals m' = im_removedGlobals m \<and> im_fois m' = im_fois m
    \<and> im_known m' = im_known m \<and> im_diffScratch m' = im_diffScratch m"
    using assms(1,2) unfolding m'_def
  proof (induction "is" arbitrary: m)
    case (Cons i "is")
    note R = gridInv_remove [OF Cons.prems(1), of i]
    show ?case
    proof (cases "i \<in> gm_keys alive")
      case True
      then have "dropTracked alive i m = m" by (auto simp: dropTracked_def gm_keys_None)
      then show ?thesis using Cons.IH [OF Cons.prems] True by auto
    next
      case False
      let ?m = "m\<lparr>im_grid := gridRemove i (im_grid m), im_tracked := AList.delete i (im_tracked m)\<rparr>"
      have "dropTracked alive i m = ?m" using False by (simp add: dropTracked_def gm_keys_None)
      moreover have "gridInv F (im_grid ?m)" "gm_wf (im_tracked ?m)" using R(1) Cons.prems(2) by simp_all
      ultimately show ?thesis using Cons.IH [of ?m] R(2) False by (auto simp: fun_eq_iff)
    qed
  qed (simp add: fun_eq_iff)
  then show "gridInv F (im_grid m')" "gm_wf (im_tracked m')"
    "map_of (gr_positions (im_grid m')) = (\<lambda>i. if i \<in> set is - gm_keys alive then None else map_of (gr_positions (im_grid m)) i)"
    "gm_keys (im_tracked m') = gm_keys (im_tracked m) - (set is - gm_keys alive)"
    "im_globals m' = im_globals m" "im_removedGlobals m' = im_removedGlobals m" "im_fois m' = im_fois m"
    "im_known m' = im_known m" "im_diffScratch m' = im_diffScratch m" by blast+
qed

lemma dropGlobal_fold:
  fixes "is" :: "int64 list" and alive :: idset
  assumes "gm_wf (im_globals m)" "gm_wf (im_removedGlobals m)"
  defines "m' \<equiv> fold (dropGlobal alive) is m"
  shows "gm_wf (im_globals m')" and "gm_wf (im_removedGlobals m')"
    and "gm_keys (im_globals m') = gm_keys (im_globals m) - (set is - gm_keys alive)"
    and "gm_keys (im_removedGlobals m') = gm_keys (im_removedGlobals m) \<union> (set is - gm_keys alive)"
    and "im_grid m' = im_grid m" "im_tracked m' = im_tracked m" "im_fois m' = im_fois m"
      "im_known m' = im_known m" "im_diffScratch m' = im_diffScratch m"
proof -
  have "gm_wf (im_globals m') \<and> gm_wf (im_removedGlobals m')
    \<and> gm_keys (im_globals m') = gm_keys (im_globals m) - (set is - gm_keys alive)
    \<and> gm_keys (im_removedGlobals m') = gm_keys (im_removedGlobals m) \<union> (set is - gm_keys alive)
    \<and> im_grid m' = im_grid m \<and> im_tracked m' = im_tracked m \<and> im_fois m' = im_fois m
    \<and> im_known m' = im_known m \<and> im_diffScratch m' = im_diffScratch m"
    using assms(1,2) unfolding m'_def
  proof (induction "is" arbitrary: m)
    case (Cons i "is")
    show ?case
    proof (cases "i \<in> gm_keys alive")
      case True
      then have "dropGlobal alive i m = m" by (auto simp: dropGlobal_def gm_keys_None)
      then show ?thesis using Cons.IH [OF Cons.prems] True by auto
    next
      case False
      let ?m = "m\<lparr>im_removedGlobals := AList.update i () (im_removedGlobals m), im_globals := AList.delete i (im_globals m)\<rparr>"
      have "dropGlobal alive i m = ?m" using False by (simp add: dropGlobal_def gm_keys_None)
      then show ?thesis using Cons.IH [of ?m] Cons.prems False by auto
    qed
  qed simp
  then show "gm_wf (im_globals m')" "gm_wf (im_removedGlobals m')"
    "gm_keys (im_globals m') = gm_keys (im_globals m) - (set is - gm_keys alive)"
    "gm_keys (im_removedGlobals m') = gm_keys (im_removedGlobals m) \<union> (set is - gm_keys alive)"
    "im_grid m' = im_grid m" "im_tracked m' = im_tracked m" "im_fois m' = im_fois m"
    "im_known m' = im_known m" "im_diffScratch m' = im_diffScratch m" by blast+
qed

text \<open>
  After synchronising, the grid has exactly the live entities that are not global, at their current
  positions; the globals are exactly the live global entities; and the removed globals are those
  that are no longer live.  Known sets are untouched.  The invariant this needs is restored.
\<close>

lemma UpdateGrid_ok:
  assumes "managerInv F m" and "ordersOK ord" and "distinct (map (ei_EntityID ifc) es)"
  shows "\<exists>m'. UpdateGrid F ord ifc pif es m = Some m' \<and> managerInv F m'
    \<and> (\<forall>i. map_of (gr_positions (im_grid m')) i =
         (case entityAt ifc es i of
            Some e \<Rightarrow> if ei_IsGlobal ifc e then None
                      else Some \<lparr>po_x = fst (interestPosition pif e), po_y = snd (interestPosition pif e)\<rparr>
          | None \<Rightarrow> None))
    \<and> (\<forall>i. im_IsGlobal m' i \<longleftrightarrow> (\<exists>e. entityAt ifc es i = Some e \<and> ei_IsGlobal ifc e))
    \<and> gm_keys (im_removedGlobals m') = {i \<in> gm_keys (im_globals m). entityAt ifc es i = None}
    \<and> im_known m' = im_known m \<and> im_fois m' = im_fois m \<and> im_diffScratch m' = im_diffScratch m"
proof -
  let ?m0 = "m\<lparr>im_removedGlobals := []\<rparr>"
  have m0: "gridInv F (im_grid ?m0)" "gm_wf (im_globals ?m0)" "gm_wf (im_tracked ?m0)"
    using assms(1) by (simp_all add: managerInv_def)
  from updateAlive_ok [OF assms(3) m0, of pif "[]"] obtain alive m1 where u: "updateAlive F ifc pif es [] ?m0 = Some (alive, m1)"
    and al: "gm_keys alive = ei_EntityID ifc ` set es"
    and i1: "gridInv F (im_grid m1)" "gm_wf (im_globals m1)" "gm_wf (im_tracked m1)"
    and p1: "\<forall>i. map_of (gr_positions (im_grid m1)) i = (case entityAt ifc es i of None \<Rightarrow> map_of (gr_positions (im_grid ?m0)) i
        | Some e \<Rightarrow> if ei_IsGlobal ifc e then None else Some \<lparr>po_x = fst (interestPosition pif e), po_y = snd (interestPosition pif e)\<rparr>)"
    and t1: "\<forall>i. i \<in> gm_keys (im_tracked m1) \<longleftrightarrow> (case entityAt ifc es i of None \<Rightarrow> i \<in> gm_keys (im_tracked ?m0) | Some e \<Rightarrow> \<not> ei_IsGlobal ifc e)"
    and g1: "\<forall>i. i \<in> gm_keys (im_globals m1) \<longleftrightarrow> (case entityAt ifc es i of None \<Rightarrow> i \<in> gm_keys (im_globals ?m0) | Some e \<Rightarrow> ei_IsGlobal ifc e)"
    and s1: "im_removedGlobals m1 = im_removedGlobals ?m0" "im_fois m1 = im_fois ?m0" "im_known m1 = im_known ?m0" "im_diffScratch m1 = im_diffScratch ?m0"
    by (auto simp del: interestManager.simps)
  define m2 where "m2 = fold (dropTracked alive) (io_ids ord (im_tracked m1)) m1"
  define m3 where "m3 = fold (dropGlobal alive) (io_ids ord (im_globals m2)) m2"
  note T = dropTracked_fold [OF i1(1,3), of alive "io_ids ord (im_tracked m1)", folded m2_def]
  have w2: "gm_wf (im_globals m2)" "gm_wf (im_removedGlobals m2)" using T(5,6) i1(2) s1(1) by simp_all
  note G = dropGlobal_fold [OF w2, of alive "io_ids ord (im_globals m2)", folded m3_def]
  have st: "set (io_ids ord (im_tracked m1)) = gm_keys (im_tracked m1)" "set (io_ids ord (im_globals m2)) = gm_keys (im_globals m1)"
    using assms(2) i1(2,3) T(5) by (simp_all add: ordersOK_def iter_order_def)
  have ea: "entityAt ifc es i = None \<longleftrightarrow> i \<notin> gm_keys alive" for i
    unfolding al by (induction es) auto
  have tk: "i \<in> gm_keys (im_tracked m) \<longleftrightarrow> map_of (gr_positions (im_grid m)) i \<noteq> None" for i
    using assms(1) by (auto simp: managerInv_def gm_keys_Some)
  have pos: "map_of (gr_positions (im_grid m3)) i = (case entityAt ifc es i of
      Some e \<Rightarrow> if ei_IsGlobal ifc e then None else Some \<lparr>po_x = fst (interestPosition pif e), po_y = snd (interestPosition pif e)\<rparr>
    | None \<Rightarrow> None)" for i
    using p1 t1 st(1) ea [of i] tk [of i] by (auto simp: G(5) T(3) split: option.splits)
  have glob: "i \<in> gm_keys (im_globals m3) \<longleftrightarrow> (\<exists>e. entityAt ifc es i = Some e \<and> ei_IsGlobal ifc e)" for i
    using g1 st(2) ea [of i] T(5) by (auto simp: G(3) split: option.splits)
  have rem: "gm_keys (im_removedGlobals m3) = {i \<in> gm_keys (im_globals m). entityAt ifc es i = None}"
    using g1 st(2) ea s1(1) T(6) by (auto simp: G(4) split: option.splits)
  have trk: "i \<in> gm_keys (im_tracked m3) \<longleftrightarrow> i \<in> gm_keys (gr_positions (im_grid m3))" for i
  proof -
    have k: "i \<in> gm_keys (gr_positions (im_grid m3)) \<longleftrightarrow> map_of (gr_positions (im_grid m3)) i \<noteq> None" by (simp add: gm_keys_None)
    have t: "i \<in> gm_keys (im_tracked m3) \<longleftrightarrow> i \<in> gm_keys (im_tracked m1) \<and> i \<in> gm_keys alive"
      using st(1) by (auto simp: G(6) T(4))
    show ?thesis unfolding k t
      by (cases "entityAt ifc es i") (use ea [of i] pos [of i] t1 [rule_format, of i] in \<open>simp_all\<close>)
  qed
  have "managerInv F m3"
  proof -
    have "i \<notin> gm_keys (gr_positions (im_grid m3))" if "i \<in> gm_keys (im_globals m3)" for i
      using pos [of i] glob [of i] that by (auto simp: gm_keys_None [symmetric])
    moreover have "i \<notin> gm_keys (im_globals m3)" "i \<notin> gm_keys (gr_positions (im_grid m3))" if "i \<in> gm_keys (im_removedGlobals m3)" for i
      using pos [of i] glob [of i] rem that by (auto simp: gm_keys_None [symmetric])
    moreover have "gridInv F (im_grid m3)" "gm_wf (im_tracked m3)" using T(1,2) G(5,6) by simp_all
    moreover have "gm_keys (im_tracked m3) = gm_keys (gr_positions (im_grid m3))" using trk by blast
    ultimately show ?thesis using G(1,2) by (auto simp: managerInv_def)
  qed
  moreover have "UpdateGrid F ord ifc pif es m = Some m3" using u by (simp add: UpdateGrid_def m2_def m3_def Let_def)
  moreover have "im_IsGlobal m3 i \<longleftrightarrow> i \<in> gm_keys (im_globals m3)" for i by (simp add: im_IsGlobal_def gm_keys_Some)
  ultimately show ?thesis using pos glob rem G(7-9) T(7-9) s1 by (intro exI [of _ m3]) simp
qed

end
