(* ===== verification/Interest_Sessions.thy ===== *)
theory Interest_Sessions
  imports Interest_Diff
begin

text \<open>
  The interest differences of all sessions: exact for a session whose anchor is on the grid,
  spatially frozen for one whose anchor is not.
\<close>

section \<open>Marks\<close>

text \<open>
  A mark says that the entity was a candidate in the tick of its stamp.  The stamps of earlier ticks
  are below the current generation as long as the counter has not wrapped.
\<close>

definition stampsOK :: "nat \<Rightarrow> diffScratch \<Rightarrow> bool" where
  "stampsOK n sc \<longleftrightarrow> unat (ds_candidateGeneration sc) + n < 2 ^ 64
     \<and> (\<forall>i v. map_of (ds_candidateMarks sc) i = Some v \<longrightarrow> unat v \<le> unat (ds_candidateGeneration sc))"

lemma stamps_weaken: "stampsOK (Suc n) sc \<Longrightarrow> stampsOK n sc"
  by (simp add: stampsOK_def)

lemma stamp_next: "stampsOK (Suc n) sc \<Longrightarrow> unat (ds_candidateGeneration sc + 1) = unat (ds_candidateGeneration sc) + 1"
  by (simp add: stampsOK_def unat_word_ariths)

lemma stamp_fresh:
  assumes "stampsOK (Suc n) sc"
  shows "map_of (ds_candidateMarks sc) i \<noteq> Some (ds_candidateGeneration sc + 1)"
proof
  assume "map_of (ds_candidateMarks sc) i = Some (ds_candidateGeneration sc + 1)"
  then have "unat (ds_candidateGeneration sc + 1) \<le> unat (ds_candidateGeneration sc)"
    using assms unfolding stampsOK_def by blast
  then show False using stamp_next [OF assms] by simp
qed

lemma stamp_marked:
  assumes "stampsOK (Suc n) sc" "ds_candidateGeneration sc' = ds_candidateGeneration sc + 1"
    and "\<And>i. map_of (ds_candidateMarks sc') i \<in> {map_of (ds_candidateMarks sc) i, Some (ds_candidateGeneration sc + 1), None}"
  shows "stampsOK n sc'"
proof -
  have "unat v \<le> unat (ds_candidateGeneration sc')" if m: "map_of (ds_candidateMarks sc') i = Some v" for i v
  proof -
    consider "map_of (ds_candidateMarks sc) i = Some v" | "v = ds_candidateGeneration sc + 1" using assms(3) [of i] unfolding m by auto
    then show ?thesis
    proof cases
      case 1
      then have "unat v \<le> unat (ds_candidateGeneration sc)" using assms(1) unfolding stampsOK_def by blast
      then show ?thesis using stamp_next [OF assms(1)] assms(2) by simp
    qed (simp add: assms(2))
  qed
  then show ?thesis using stamp_next [OF assms(1)] assms(1,2) by (simp add: stampsOK_def)
qed

section \<open>One session\<close>

text \<open>Within the given squared radius of the anchor, as computed, and in a scanned cell.\<close>

definition reaches :: "'f fops \<Rightarrow> 'f Grid \<Rightarrow> 'f FOI \<Rightarrow> 'f pos \<Rightarrow> 'f \<Rightarrow> 'f pos \<Rightarrow> bool" where
  "reaches F g foi p0 radius p \<longleftrightarrow>
     fle F (dist2 F (po_x p0) (po_y p0) p) (fmul F radius radius)
     \<and> fle F (dist2 F (po_x p0) (po_y p0) p)
         (fmul F (fadd F (foi_Radius foi) (foi_Margin foi)) (fadd F (foi_Radius foi) (foi_Margin foi)))
     \<and> queryBox F (po_x p0) (po_y p0) (fadd F (foi_Radius foi) (foi_Margin foi)) g (toCell F g (po_x p) (po_y p))"

definition inReach :: "'f fops \<Rightarrow> 'f interestManager \<Rightarrow> 'f FOI \<Rightarrow> 'f pos \<Rightarrow> 'f \<Rightarrow> int64 \<Rightarrow> bool" where
  "inReach F m foi p0 radius i \<longleftrightarrow>
     (\<exists>p. map_of (gr_positions (im_grid m)) i = Some p \<and> reaches F (im_grid m) foi p0 radius p)"

definition interesting ::
  "'f fops \<Rightarrow> (int64 \<Rightarrow> int64 \<Rightarrow> bool) option \<Rightarrow> 'f interestManager \<Rightarrow> int64 \<Rightarrow> 'f FOI \<Rightarrow> 'f pos \<Rightarrow> int64 set" where
  "interesting F allow m sid foi p0 =
     {i. entityAllowed allow sid i \<and>
         (im_IsGlobal m i
          \<or> (if i \<in> gm_keys (knownFor m sid) then inReach F m foi p0 (fadd F (foi_Radius foi) (foi_Margin foi)) i
             else inReach F m foi p0 (foi_Radius foi) i))}"

text \<open>Without an anchor: what is known stays known, but for the globals.\<close>

definition frozen :: "(int64 \<Rightarrow> int64 \<Rightarrow> bool) option \<Rightarrow> 'f interestManager \<Rightarrow> int64 \<Rightarrow> int64 set" where
  "frozen allow m sid =
     {i. if im_IsGlobal m i then entityAllowed allow sid i
         else i \<in> gm_keys (knownFor m sid) \<and> i \<notin> gm_keys (im_removedGlobals m)}"

lemma sessionDiff_exact:
  assumes I: "managerInv F m" and ord: "ordersOK ord" and wf: "gm_wf (knownFor m sid)" and st: "stampsOK (Suc n) (diffFor sid m)"
    and p0: "map_of (gr_positions (im_grid m)) (foi_EntityID foi) = Some p0"
    and r: "sessionDiff F z ord allow sid foi m = Some (a, sc)"
  shows "keysOf a = interesting F allow m sid foi p0" and "exactDiff (gm_keys (knownFor m sid)) (keysOf a) (da_diff a)"
    and "gm_wf (da_known a)" and "stampsOK n sc"
proof -
  let ?g = "im_grid m" and ?R = "fadd F (foi_Radius foi) (foi_Margin foi)"
  let ?al = "entityAllowed allow sid" and ?sc = "diffFor sid m"
  let ?d2 = "\<lambda>i. dist2 F (po_x p0) (po_y p0) (positionOf z ?g i)"
  let ?stay = "\<lambda>i. fle F (?d2 i) (fmul F ?R ?R)" and ?enter = "\<lambda>i. fle F (?d2 i) (fmul F (foi_Radius foi) (foi_Radius foi))"
  let ?gen = "ds_candidateGeneration ?sc + 1"
  let ?a = "\<lparr>da_diff = ds_diff ?sc, da_known = knownFor m sid\<rparr>"
  obtain cs where q: "QueryInto F (zeroPos z) (io_ids ord) (po_x p0) (po_y p0) ?R ?g = Some cs"
    using r p0 by (auto simp: sessionDiff_def Let_def bind_eq_Some_conv)
  define marks where "marks = fold (\<lambda>i. AList.update i ?gen) cs (ds_candidateMarks ?sc)"
  define a1 where "a1 = fold (diffCandidate ?stay ?enter ?al) cs ?a"
  define sc1 where "sc1 = (?sc\<lparr>ds_candidateGeneration := ?gen\<rparr>)\<lparr>ds_candidateMarks := marks\<rparr>"
  define sc2 where "sc2 = (if shouldCompactCandidateMarks (length cs) (gm_len (da_known a1)) sc1 then compactCandidateMarks cs ?gen sc1 else sc1)"
  define a2 where "a2 = fold (diffKnown (im_globals m) (ds_candidateMarks sc2) ?gen) (io_ids ord (da_known a1)) a1"
  have "sessionDiff F z ord allow sid foi m = Some (appendGlobalsFiltered ord ?al m a2, sc2)"
    using p0 q unfolding a2_def sc2_def sc1_def a1_def marks_def
    by (simp add: sessionDiff_def Let_def nextCandidateGeneration_def cong: if_cong)
  then have a: "a = appendGlobalsFiltered ord ?al m a2" and sc: "sc = sc2" using r by simp_all
  have gi: "gridInv F ?g" and wg: "gm_wf (im_globals m)" "gm_wf (im_removedGlobals m)" using I by (simp_all add: managerInv_def)
  have io: "\<forall>m. gm_wf m \<longrightarrow> iter_order (io_ids ord m) m" using ord by (simp add: ordersOK_def)
  note Q = QueryInto_result [OF gi io q]
  have fresh: "map_of (ds_candidateMarks ?sc) i \<noteq> Some ?gen" for i by (rule stamp_fresh [OF st])
  have marked: "{i. map_of (ds_candidateMarks sc2) i = Some ?gen} = set cs"
    using fresh by (auto simp: sc2_def sc1_def compactCandidateMarks_def marks_def map_of_marks)
  have gs: "distinct (io_ids ord (im_globals m))" "set (io_ids ord (im_globals m)) = gm_keys (im_globals m)"
    "distinct (io_ids ord (im_removedGlobals m))" "set (io_ids ord (im_removedGlobals m)) = gm_keys (im_removedGlobals m)"
    using io wg by (auto simp: iter_order_def)
  have cp: "set cs \<subseteq> gm_keys (gr_positions ?g)" using Q(2) by (auto simp: gm_keys_Some)
  have dis: "set cs \<inter> set (io_ids ord (im_globals m)) = {}"
    "set (io_ids ord (im_removedGlobals m)) \<inter> set (io_ids ord (im_globals m)) = {}"
    "set (io_ids ord (im_removedGlobals m)) \<inter> set cs = {}"
    using I cp gs by (auto simp: managerInv_def)
  have wfa: "gm_wf (da_known ?a)" "da_diff ?a = df_empty" using wf by (auto simp: diffFor_def split: option.splits)
  have w1: "gm_wf (da_known a1)" unfolding a1_def diffCandidate_decide by (rule fold_decide(1) [OF decisions_ok(1) wfa(1) Q(1)])
  have kl: "distinct (io_ids ord (da_known a1))" "set (io_ids ord (da_known a1)) = keysOf a1"
    using io w1 by (auto simp: iter_order_def keysOf_def)
  have k2: "a2 = fold (decideStep (decKnown (set (io_ids ord (im_globals m)) \<union> set cs))) (io_ids ord (da_known a1)) a1"
    unfolding a2_def gs(2) marked [symmetric] by (rule fold_diffKnown) (use kl w1 in simp_all)
  note L = four_loops [OF wfa Q(1) gs(1,3) dis a1_def [unfolded diffCandidate_decide] kl k2 refl refl,
      folded diffGlobal_decide diffRemovedGlobal_decide]
  have a': "a = fold diffRemovedGlobal (io_ids ord (im_removedGlobals m)) (fold (diffGlobal ?al) (io_ids ord (im_globals m)) a2)"
    by (simp add: a appendGlobalsFiltered_def)
  have cs: "i \<in> set cs \<longleftrightarrow> inReach F m foi p0 ?R i" for i using Q(2) by (auto simp: inReach_def reaches_def)
  have en: "inReach F m foi p0 (foi_Radius foi) i \<longleftrightarrow> i \<in> set cs \<and> ?enter i" for i
    using Q(2) by (auto simp: inReach_def reaches_def positionOf_def)
  have sy: "i \<in> set cs \<Longrightarrow> ?stay i" for i using Q(2) by (auto simp: positionOf_def)
  have gl: "im_IsGlobal m i \<longleftrightarrow> i \<in> gm_keys (im_globals m)" for i by (simp add: im_IsGlobal_def gm_keys_Some)
  have "wanted ?stay ?enter ?al (set cs) (gm_keys (im_globals m)) (gm_keys (knownFor m sid)) = interesting F allow m sid foi p0"
    using sy by (auto simp: wanted_def interesting_def gl en cs [symmetric])
  then show "keysOf a = interesting F allow m sid foi p0" using L(1) by (simp add: a' gs(2) keysOf_def)
  show "exactDiff (gm_keys (knownFor m sid)) (keysOf a) (da_diff a)" using L(2) by (simp add: a' keysOf_def)
  show "gm_wf (da_known a)" using L(3) by (simp add: a')
  show "stampsOK n sc"
    by (rule stamp_marked [OF st]) (auto simp: sc sc2_def sc1_def compactCandidateMarks_def marks_def map_of_marks)
qed

lemma sessionDiff_frozen:
  assumes I: "managerInv F m" and ord: "ordersOK ord" and wf: "gm_wf (knownFor m sid)"
    and p0: "map_of (gr_positions (im_grid m)) (foi_EntityID foi) = None"
  shows "\<exists>a. sessionDiff F z ord allow sid foi m = Some (a, diffFor sid m) \<and> gm_wf (da_known a)
    \<and> keysOf a = frozen allow m sid \<and> set (df_Entered (da_diff a)) = keysOf a - gm_keys (knownFor m sid)
    \<and> set (df_Exited (da_diff a)) = gm_keys (knownFor m sid) - keysOf a
    \<and> set (df_Stayed (da_diff a)) = {i \<in> gm_keys (knownFor m sid). im_IsGlobal m i \<and> entityAllowed allow sid i}"
proof -
  let ?al = "entityAllowed allow sid" and ?a = "\<lparr>da_diff = ds_diff (diffFor sid m), da_known = knownFor m sid\<rparr>"
  let ?gs = "io_ids ord (im_globals m)" and ?rs = "io_ids ord (im_removedGlobals m)"
  have gs: "distinct ?gs" "set ?gs = gm_keys (im_globals m)" "distinct ?rs" "set ?rs = gm_keys (im_removedGlobals m)"
    using ord I by (auto simp: ordersOK_def iter_order_def managerInv_def)
  have dis: "gm_keys (im_removedGlobals m) \<inter> gm_keys (im_globals m) = {}" using I by (auto simp: managerInv_def)
  have e: "da_diff ?a = df_empty" by (auto simp: diffFor_def split: option.splits)
  have k: "keysOf ?a = gm_keys (knownFor m sid)" by (simp add: keysOf_def)
  have wa: "gm_wf (da_known ?a)" using wf by simp
  define a3 where "a3 = fold (decideStep (decGlobal ?al)) ?gs ?a"
  define a4 where "a4 = fold (decideStep decRemoved) ?rs a3"
  note F3 = fold_decide [OF decisions_ok(3) wa gs(1), of ?al, folded a3_def]
  note F4 = fold_decide [OF decisions_ok(4) F3(1) gs(3), folded a4_def]
  have K3: "keysOf a3 = {i. if i \<in> gm_keys (im_globals m) then ?al i else i \<in> gm_keys (knownFor m sid)}"
    unfolding F3(2) k gs(2) by (auto simp: decGlobal_def split: if_splits)
  have K4: "keysOf a4 = keysOf a3 - gm_keys (im_removedGlobals m)"
    unfolding F4(2) gs(4) by (auto simp: decRemoved_def split: if_splits)
  have gl: "im_IsGlobal m i \<longleftrightarrow> i \<in> gm_keys (im_globals m)" for i by (simp add: im_IsGlobal_def gm_keys_Some)
  have "sessionDiff F z ord allow sid foi m = Some (a4, diffFor sid m)"
    using p0 by (simp add: sessionDiff_def Let_def appendGlobalsFiltered_def diffGlobal_decide diffRemovedGlobal_decide a3_def a4_def)
  moreover have "keysOf a4 = frozen allow m sid" using dis by (auto simp: K4 K3 frozen_def gl)
  moreover have "set (df_Entered (da_diff a4)) = keysOf a4 - gm_keys (knownFor m sid)"
    using F3(3) F4(3) e dis unfolding k by (auto simp: gs K4 K3 df_empty_def split: if_splits)
  moreover have "set (df_Exited (da_diff a4)) = gm_keys (knownFor m sid) - keysOf a4"
    using F3(5) F4(5) e dis unfolding k by (auto simp: gs K4 K3 df_empty_def split: if_splits)
  moreover have "set (df_Stayed (da_diff a4)) = {i \<in> gm_keys (knownFor m sid). im_IsGlobal m i \<and> ?al i}"
    using F3(4) F4(4) e unfolding k by (auto simp: gs gl df_empty_def)
  ultimately show ?thesis using F4(1) by blast
qed

section \<open>All sessions\<close>

text \<open>
  What one computation does to a session: with the anchor on the grid the known set becomes the
  entities of interest and the lists are the exact change; without it only global entities move.
\<close>

definition sessionOutcome ::
  "'f fops \<Rightarrow> (int64 \<Rightarrow> int64 \<Rightarrow> bool) option \<Rightarrow> 'f interestManager \<Rightarrow> int64 \<Rightarrow> 'f FOI \<Rightarrow> int64 set \<Rightarrow> Diff \<Rightarrow> bool" where
  "sessionOutcome F allow m sid foi K' d \<longleftrightarrow>
     (case map_of (gr_positions (im_grid m)) (foi_EntityID foi) of
        Some p0 \<Rightarrow> K' = interesting F allow m sid foi p0 \<and> exactDiff (gm_keys (knownFor m sid)) K' d
      | None \<Rightarrow> K' = frozen allow m sid \<and> set (df_Entered d) = K' - gm_keys (knownFor m sid)
                \<and> set (df_Exited d) = gm_keys (knownFor m sid) - K'
                \<and> set (df_Stayed d) = {i \<in> gm_keys (knownFor m sid). im_IsGlobal m i \<and> entityAllowed allow sid i})"

text \<open>The query of every anchored field of interest returns (see the grid).\<close>

definition queriesBounded :: "'f fops \<Rightarrow> 'f interestManager \<Rightarrow> bool" where
  "queriesBounded F m \<longleftrightarrow>
     (\<forall>sid foi p. map_of (im_fois m) sid = Some foi \<and> map_of (gr_positions (im_grid m)) (foi_EntityID foi) = Some p \<longrightarrow>
        sint (ffloor F (fmul F (fadd F (po_x p) (fadd F (foi_Radius foi) (foi_Margin foi))) (gr_invCellSize (im_grid m)))) < 2 ^ 63 - 1
        \<and> sint (ffloor F (fmul F (fadd F (po_y p) (fadd F (foi_Radius foi) (foi_Margin foi))) (gr_invCellSize (im_grid m)))) < 2 ^ 63 - 1)"

text \<open>The sessions' scratch is good for \<open>n\<close> more computations.\<close>

definition sessionsOK :: "nat \<Rightarrow> 'f interestManager \<Rightarrow> bool" where
  "sessionsOK n m \<longleftrightarrow> (\<forall>sid. gm_wf (knownFor m sid) \<and> stampsOK n (diffFor sid m))"

definition sameSpace :: "'f interestManager \<Rightarrow> 'f interestManager \<Rightarrow> bool" where
  "sameSpace m m' \<longleftrightarrow> im_grid m' = im_grid m \<and> im_fois m' = im_fois m \<and> im_globals m' = im_globals m
     \<and> im_removedGlobals m' = im_removedGlobals m \<and> im_tracked m' = im_tracked m"

lemma sameSpace_inv: "sameSpace m m' \<Longrightarrow> managerInv F m' = managerInv F m" "sameSpace m m' \<Longrightarrow> queriesBounded F m' = queriesBounded F m"
  by (simp_all add: sameSpace_def managerInv_def queriesBounded_def)

lemma outcome_cong:
  "sameSpace m m' \<Longrightarrow> knownFor m' sid = knownFor m sid \<Longrightarrow> sessionOutcome F allow m' sid foi K' d = sessionOutcome F allow m sid foi K' d"
  by (simp add: sameSpace_def sessionOutcome_def interesting_def inReach_def frozen_def im_IsGlobal_def split: option.splits)

lemma sessionDiff_outcome:
  assumes I: "managerInv F m" and ord: "ordersOK ord" and q: "queriesBounded F m" and wf: "gm_wf (knownFor m sid)"
    and st: "stampsOK (Suc n) (diffFor sid m)" and foi: "map_of (im_fois m) sid = Some foi"
  shows "\<exists>a sc. sessionDiff F z ord allow sid foi m = Some (a, sc) \<and> sessionOutcome F allow m sid foi (keysOf a) (da_diff a)
    \<and> gm_wf (da_known a) \<and> stampsOK n sc"
proof (cases "map_of (gr_positions (im_grid m)) (foi_EntityID foi)")
    case None
    obtain a where "sessionDiff F z ord allow sid foi m = Some (a, diffFor sid m)" "gm_wf (da_known a)"
      "keysOf a = frozen allow m sid" "set (df_Entered (da_diff a)) = keysOf a - gm_keys (knownFor m sid)"
      "set (df_Exited (da_diff a)) = gm_keys (knownFor m sid) - keysOf a"
      "set (df_Stayed (da_diff a)) = {i \<in> gm_keys (knownFor m sid). im_IsGlobal m i \<and> entityAllowed allow sid i}"
      using sessionDiff_frozen [OF I ord wf None] by blast
    moreover have "stampsOK n (diffFor sid m)" by (rule stamps_weaken [OF st])
    ultimately show ?thesis using None by (auto simp: sessionOutcome_def)
  next
    case (Some p0)
    have b: "sint (ffloor F (fmul F (fadd F (po_x p0) (fadd F (foi_Radius foi) (foi_Margin foi))) (gr_invCellSize (im_grid m)))) < 2 ^ 63 - 1"
      "sint (ffloor F (fmul F (fadd F (po_y p0) (fadd F (foi_Radius foi) (foi_Margin foi))) (gr_invCellSize (im_grid m)))) < 2 ^ 63 - 1"
      using q foi Some unfolding queriesBounded_def by blast+
    obtain cs where "QueryInto F (zeroPos z) (io_ids ord) (po_x p0) (po_y p0) (fadd F (foi_Radius foi) (foi_Margin foi)) (im_grid m) = Some cs"
      using QueryInto_scan [OF b] by blast
    then have "sessionDiff F z ord allow sid foi m \<noteq> None"
      using Some by (simp add: sessionDiff_def Let_def nextCandidateGeneration_def)
    then obtain a sc where r: "sessionDiff F z ord allow sid foi m = Some (a, sc)" by auto
    note E = sessionDiff_exact [OF I ord wf st Some r]
    show ?thesis using r E Some by (auto simp: sessionOutcome_def)
qed

lemma computeSessions_ok:
  assumes ord: "ordersOK ord"
  shows "managerInv F m \<Longrightarrow> queriesBounded F m \<Longrightarrow> distinct sids \<Longrightarrow> set sids \<subseteq> gm_keys (im_fois m)
    \<Longrightarrow> (\<forall>sid. gm_wf (knownFor m sid) \<and> (sid \<in> set sids \<longrightarrow> stampsOK (Suc n) (diffFor sid m)))
    \<Longrightarrow> \<exists>m'. computeSessions F z ord allow sids m = Some m' \<and> sameSpace m m'
      \<and> (\<forall>sid. gm_wf (knownFor m' sid) \<and> (sid \<in> set sids \<longrightarrow> stampsOK n (diffFor sid m')))
      \<and> (\<forall>sid. sid \<notin> set sids \<longrightarrow> knownFor m' sid = knownFor m sid \<and> map_of (im_diffs m') sid = map_of (im_diffs m) sid
              \<and> diffFor sid m' = diffFor sid m)
      \<and> (\<forall>sid foi. sid \<in> set sids \<and> map_of (im_fois m) sid = Some foi \<longrightarrow>
           (\<exists>d. map_of (im_diffs m') sid = Some d \<and> sessionOutcome F allow m sid foi (gm_keys (knownFor m' sid)) d))"
proof (induction sids arbitrary: m)
  case (Cons sid sids)
  obtain foi where foi: "map_of (im_fois m) sid = Some foi" using Cons.prems(4) by (auto simp: gm_keys_Some)
  have st0: "stampsOK (Suc n) (diffFor sid m)" and w0: "gm_wf (knownFor m sid)" using Cons.prems(5) by auto
  obtain a sc where r: "sessionDiff F z ord allow sid foi m = Some (a, sc)"
    and o: "sessionOutcome F allow m sid foi (keysOf a) (da_diff a)" and w: "gm_wf (da_known a)" and st: "stampsOK n sc"
    using sessionDiff_outcome [OF Cons.prems(1) ord Cons.prems(2) w0 st0 foi, of z allow] by blast
  define m1 where "m1 = m\<lparr>im_known := AList.update sid (da_known a) (im_known m), im_diffs := AList.update sid (da_diff a) (im_diffs m),
    im_diffScratch := AList.update sid (sc\<lparr>ds_diff := da_diff a\<rparr>) (im_diffScratch m)\<rparr>"
  have same: "sameSpace m m1" by (simp add: sameSpace_def m1_def)
  have k: "knownFor m1 j = (if j = sid then da_known a else knownFor m j)" for j by (simp add: knownFor_def m1_def)
  have d: "map_of (im_diffs m1) j = (if j = sid then Some (da_diff a) else map_of (im_diffs m) j)" for j by (simp add: m1_def)
  have f: "diffFor j m1 = (if j = sid then sc\<lparr>ds_diff := df_empty\<rparr> else diffFor j m)" for j by (simp add: diffFor_def m1_def)
  have p: "distinct sids" "sid \<notin> set sids" "set sids \<subseteq> gm_keys (im_fois m1)"
    using Cons.prems(3,4) same by (auto simp: sameSpace_def)
  have "\<forall>j. gm_wf (knownFor m1 j) \<and> (j \<in> set sids \<longrightarrow> stampsOK (Suc n) (diffFor j m1))"
    using Cons.prems(5) p(2) w by (auto simp: k f)
  from Cons.IH [OF _ _ p(1,3) this] obtain m' where
    m': "computeSessions F z ord allow sids m1 = Some m'" "sameSpace m1 m'"
    and st': "\<forall>j. gm_wf (knownFor m' j) \<and> (j \<in> set sids \<longrightarrow> stampsOK n (diffFor j m'))"
    and out: "\<forall>j. j \<notin> set sids \<longrightarrow> knownFor m' j = knownFor m1 j \<and> map_of (im_diffs m') j = map_of (im_diffs m1) j
         \<and> diffFor j m' = diffFor j m1"
    and ok: "\<forall>j foi. j \<in> set sids \<and> map_of (im_fois m1) j = Some foi \<longrightarrow>
         (\<exists>d. map_of (im_diffs m') j = Some d \<and> sessionOutcome F allow m1 j foi (gm_keys (knownFor m' j)) d)"
    using Cons.prems(1,2) sameSpace_inv [OF same] by blast
  have c: "computeSessions F z ord allow (sid # sids) m = Some m'" using m'(1) foi r by (simp add: m1_def)
  have s: "sameSpace m m'" using same m'(2) by (simp add: sameSpace_def)
  have t: "gm_wf (knownFor m' j) \<and> (j \<in> set (sid # sids) \<longrightarrow> stampsOK n (diffFor j m'))" for j
    using st' out p(2) st by (auto simp: f stampsOK_def)
  have u: "knownFor m' j = knownFor m j \<and> map_of (im_diffs m') j = map_of (im_diffs m) j \<and> diffFor j m' = diffFor j m"
    if "j \<notin> set (sid # sids)" for j using out that by (simp add: k d f)
  have v: "\<exists>d. map_of (im_diffs m') j = Some d \<and> sessionOutcome F allow m j foi' (gm_keys (knownFor m' j)) d"
    if j: "j \<in> set (sid # sids)" "map_of (im_fois m) j = Some foi'" for j foi'
  proof (cases "j = sid")
    case True
    then show ?thesis using o out p(2) foi j(2) by (auto simp: k d keysOf_def)
  next
    case False
    then obtain e where e: "map_of (im_diffs m') j = Some e" "sessionOutcome F allow m1 j foi' (gm_keys (knownFor m' j)) e"
      using ok j same by (auto simp: sameSpace_def)
    moreover have "knownFor m1 j = knownFor m j" using False by (simp add: k)
    ultimately show ?thesis using outcome_cong [OF same] by metis
  qed
  show ?case using c s t u v by blast
qed (auto simp: sameSpace_def)

lemma ComputeDiffs_exact:
  assumes "managerInv F m" "ordersOK ord" "gm_wf (im_fois m)" "queriesBounded F m" "sessionsOK (Suc n) m"
  shows "\<exists>diffs m'. ComputeDiffsFiltered F z ord allow m = Some (diffs, m') \<and> sameSpace m m' \<and> sessionsOK n m'
    \<and> (\<forall>sid. case map_of (im_fois m) sid of
         None \<Rightarrow> map_of diffs sid = None \<and> knownFor m' sid = knownFor m sid
       | Some foi \<Rightarrow> \<exists>d. map_of diffs sid = Some d \<and> sessionOutcome F allow m sid foi (gm_keys (knownFor m' sid)) d)"
proof -
  let ?m = "m\<lparr>im_diffs := []\<rparr>" and ?s = "io_fois ord (im_fois m)"
  have same: "sameSpace m ?m" by (simp add: sameSpace_def)
  have ks: "knownFor ?m j = knownFor m j" "diffFor j ?m = diffFor j m" for j by (simp_all add: knownFor_def diffFor_def)
  have s: "distinct ?s" "set ?s = gm_keys (im_fois m)" using assms(2,3) by (simp_all add: ordersOK_def iter_order_def)
  have sub: "set ?s \<subseteq> gm_keys (im_fois ?m)" using s(2) by simp
  have st: "\<forall>j. gm_wf (knownFor ?m j) \<and> (j \<in> set ?s \<longrightarrow> stampsOK (Suc n) (diffFor j ?m))"
    using assms(5) by (simp add: sessionsOK_def ks)
  obtain m' where m': "computeSessions F z ord allow ?s ?m = Some m'" "sameSpace ?m m'"
    and st': "\<forall>j. gm_wf (knownFor m' j) \<and> (j \<in> set ?s \<longrightarrow> stampsOK n (diffFor j m'))"
    and out: "\<forall>j. j \<notin> set ?s \<longrightarrow> knownFor m' j = knownFor ?m j \<and> map_of (im_diffs m') j = map_of (im_diffs ?m) j
         \<and> diffFor j m' = diffFor j ?m"
    and ok: "\<forall>j foi. j \<in> set ?s \<and> map_of (im_fois ?m) j = Some foi \<longrightarrow>
         (\<exists>d. map_of (im_diffs m') j = Some d \<and> sessionOutcome F allow ?m j foi (gm_keys (knownFor m' j)) d)"
    using computeSessions_ok [OF assms(2) _ _ s(1) sub st, of F z allow] assms(1,4) sameSpace_inv [OF same, of F] by auto
  have "ComputeDiffsFiltered F z ord allow m = Some (im_diffs m', m')" using m'(1) by (simp add: ComputeDiffsFiltered_def)
  moreover have "sameSpace m m'" using m'(2) by (simp add: sameSpace_def)
  moreover have "sessionsOK n m'"
    unfolding sessionsOK_def
  proof
    fix j
    have "stampsOK n (diffFor j m)" using assms(5) stamps_weaken by (auto simp: sessionsOK_def)
    then show "gm_wf (knownFor m' j) \<and> stampsOK n (diffFor j m')" using st' out ks(2) [of j] by metis
  qed
  moreover have "case map_of (im_fois m) sid of
         None \<Rightarrow> map_of (im_diffs m') sid = None \<and> knownFor m' sid = knownFor m sid
       | Some foi \<Rightarrow> \<exists>d. map_of (im_diffs m') sid = Some d \<and> sessionOutcome F allow m sid foi (gm_keys (knownFor m' sid)) d" for sid
  proof (cases "map_of (im_fois m) sid")
    case None
    then show ?thesis using out s(2) ks(1) [of sid] by (auto simp: gm_keys_Some)
  next
    case (Some foi)
    then have "sid \<in> set ?s" using s(2) by (auto simp: gm_keys_Some)
    then obtain d where "map_of (im_diffs m') sid = Some d" "sessionOutcome F allow ?m sid foi (gm_keys (knownFor m' sid)) d"
      using ok Some by auto
    then show ?thesis using Some by (simp add: outcome_cong [OF same ks(1)])
  qed
  ultimately show ?thesis by blast
qed

section \<open>A whole tick of interest management\<close>

text \<open>The entities a session should know, from the live entities alone.\<close>

definition positionAt :: "('e, 'f) posIface \<Rightarrow> 'e \<Rightarrow> 'f pos" where
  "positionAt pif e = \<lparr>po_x = fst (interestPosition pif e), po_y = snd (interestPosition pif e)\<rparr>"

definition ofInterest ::
  "'f fops \<Rightarrow> 'e entityIface \<Rightarrow> ('e, 'f) posIface \<Rightarrow> (int64 \<Rightarrow> int64 \<Rightarrow> bool) option \<Rightarrow> 'e list \<Rightarrow> 'f Grid \<Rightarrow> int64
     \<Rightarrow> 'f FOI \<Rightarrow> 'e \<Rightarrow> int64 set \<Rightarrow> int64 set" where
  "ofInterest F ifc pif allow es g sid foi anchor K =
     {i. entityAllowed allow sid i \<and>
         (case entityAt ifc es i of
            None \<Rightarrow> False
          | Some e \<Rightarrow> ei_IsGlobal ifc e
              \<or> reaches F g foi (positionAt pif anchor)
                  (if i \<in> K then fadd F (foi_Radius foi) (foi_Margin foi) else foi_Radius foi) (positionAt pif e))}"

text \<open>
  C18.  One tick of interest management, over the live entities.  The grid is synchronised; where every
  scan stays below the largest cell number the differences are computed, and for each session whose
  anchor is a live entity that is not global the known set becomes exactly the live, allowed
  entities that are global or within reach --- radius plus margin for those already known, radius
  for others --- with each list the exact change.  Sessions without a field of interest are
  untouched, and the scratch stays good for the next tick.
\<close>

theorem interest_tick_exact:
  assumes "managerInv F m" and "ordersOK ord" and "gm_wf (im_fois m)" and "sessionsOK (Suc n) m"
    and "distinct (map (ei_EntityID ifc) es)"
  shows "\<exists>m1. UpdateGrid F ord ifc pif es m = Some m1 \<and> managerInv F m1
    \<and> (queriesBounded F m1 \<longrightarrow>
        (\<exists>diffs m2. ComputeDiffsFiltered F z ord allow m1 = Some (diffs, m2) \<and> managerInv F m2 \<and> sessionsOK n m2
          \<and> im_fois m2 = im_fois m
          \<and> (\<forall>sid foi anchor. map_of (im_fois m) sid = Some foi \<and> entityAt ifc es (foi_EntityID foi) = Some anchor
                \<and> \<not> ei_IsGlobal ifc anchor \<longrightarrow>
              gm_keys (knownFor m2 sid) = ofInterest F ifc pif allow es (im_grid m1) sid foi anchor (gm_keys (knownFor m sid))
              \<and> (\<exists>d. map_of diffs sid = Some d \<and> exactDiff (gm_keys (knownFor m sid)) (gm_keys (knownFor m2 sid)) d))
          \<and> (\<forall>sid. map_of (im_fois m) sid = None \<longrightarrow> map_of diffs sid = None \<and> knownFor m2 sid = knownFor m sid)))"
proof -
  obtain m1 where u: "UpdateGrid F ord ifc pif es m = Some m1" "managerInv F m1"
    and pos: "\<forall>i. map_of (gr_positions (im_grid m1)) i = (case entityAt ifc es i of
            Some e \<Rightarrow> if ei_IsGlobal ifc e then None
                      else Some \<lparr>po_x = fst (interestPosition pif e), po_y = snd (interestPosition pif e)\<rparr>
          | None \<Rightarrow> None)"
    and glob: "\<forall>i. im_IsGlobal m1 i \<longleftrightarrow> (\<exists>e. entityAt ifc es i = Some e \<and> ei_IsGlobal ifc e)"
    and same: "im_known m1 = im_known m" "im_fois m1 = im_fois m" "im_diffScratch m1 = im_diffScratch m"
    using UpdateGrid_ok [OF assms(1,2,5), of pif] by blast
  have k: "knownFor m1 = knownFor m" "sessionsOK (Suc n) m1"
    using same assms(4) by (auto simp: fun_eq_iff knownFor_def sessionsOK_def diffFor_def)
  have in1: "interesting F allow m1 sid foi (positionAt pif anchor)
      = ofInterest F ifc pif allow es (im_grid m1) sid foi anchor (gm_keys (knownFor m sid))" for sid foi anchor
    using pos glob
    by (auto simp: interesting_def ofInterest_def inReach_def k(1) positionAt_def split: option.splits if_splits)
  have w1: "gm_wf (im_fois m1)" using assms(3) same(2) by simp
  have "\<exists>diffs m2. ComputeDiffsFiltered F z ord allow m1 = Some (diffs, m2) \<and> managerInv F m2 \<and> sessionsOK n m2
          \<and> im_fois m2 = im_fois m
          \<and> (\<forall>sid foi anchor. map_of (im_fois m) sid = Some foi \<and> entityAt ifc es (foi_EntityID foi) = Some anchor
                \<and> \<not> ei_IsGlobal ifc anchor \<longrightarrow>
              gm_keys (knownFor m2 sid) = ofInterest F ifc pif allow es (im_grid m1) sid foi anchor (gm_keys (knownFor m sid))
              \<and> (\<exists>d. map_of diffs sid = Some d \<and> exactDiff (gm_keys (knownFor m sid)) (gm_keys (knownFor m2 sid)) d))
          \<and> (\<forall>sid. map_of (im_fois m) sid = None \<longrightarrow> map_of diffs sid = None \<and> knownFor m2 sid = knownFor m sid)"
    if q: "queriesBounded F m1"
  proof -
    obtain diffs m2 where c: "ComputeDiffsFiltered F z ord allow m1 = Some (diffs, m2)" "sameSpace m1 m2" "sessionsOK n m2"
      and o: "\<forall>sid. case map_of (im_fois m1) sid of
         None \<Rightarrow> map_of diffs sid = None \<and> knownFor m2 sid = knownFor m1 sid
       | Some foi \<Rightarrow> \<exists>d. map_of diffs sid = Some d \<and> sessionOutcome F allow m1 sid foi (gm_keys (knownFor m2 sid)) d"
      using ComputeDiffs_exact [OF u(2) assms(2) w1 q k(2), of z allow] by (elim exE conjE) (rule that)
    have "gm_keys (knownFor m2 sid) = ofInterest F ifc pif allow es (im_grid m1) sid foi anchor (gm_keys (knownFor m sid))
      \<and> (\<exists>d. map_of diffs sid = Some d \<and> exactDiff (gm_keys (knownFor m sid)) (gm_keys (knownFor m2 sid)) d)"
      if "map_of (im_fois m) sid = Some foi" "entityAt ifc es (foi_EntityID foi) = Some anchor" "\<not> ei_IsGlobal ifc anchor" for sid foi anchor
    proof -
      have p: "map_of (gr_positions (im_grid m1)) (foi_EntityID foi) = Some (positionAt pif anchor)"
        using pos that by (simp add: positionAt_def)
      have "\<exists>d. map_of diffs sid = Some d \<and> sessionOutcome F allow m1 sid foi (gm_keys (knownFor m2 sid)) d"
        using o [rule_format, of sid] that same(2) by simp
      then show ?thesis using p in1 [of sid foi anchor] by (auto simp: sessionOutcome_def k(1))
    qed
    moreover have "map_of diffs sid = None \<and> knownFor m2 sid = knownFor m sid" if "map_of (im_fois m) sid = None" for sid
      using o [rule_format, of sid] that same(2) k(1) by simp
    moreover have "managerInv F m2" "im_fois m2 = im_fois m"
      using sameSpace_inv(1) [OF c(2), of F] u(2) c(2) same(2) by (simp_all add: sameSpace_def)
    ultimately show ?thesis using c by blast
  qed
  then show ?thesis using u by blast
qed

text \<open>
  A session whose anchor entity is no longer live is frozen: every entity it knew that is not
  global stays in its known set and is not reported as exited, even when it is deleted from
  the registry, the anchor itself included.
\<close>

theorem ghosts_without_anchor:
  assumes "managerInv F m" and "ordersOK ord" and "gm_wf (knownFor m sid)" and "distinct (map (ei_EntityID ifc) es)"
    and "entityAt ifc es (foi_EntityID foi) = None" and "entityAt ifc es i = None"
    and "i \<in> gm_keys (knownFor m sid)" and "\<not> im_IsGlobal m i"
  shows "\<exists>m1 a. UpdateGrid F ord ifc pif es m = Some m1 \<and> sessionDiff F z ord allow sid foi m1 = Some (a, diffFor sid m1)
    \<and> i \<in> gm_keys (da_known a) \<and> i \<notin> set (df_Exited (da_diff a))"
proof -
  obtain m1 where u: "UpdateGrid F ord ifc pif es m = Some m1" "managerInv F m1"
    and pos: "map_of (gr_positions (im_grid m1)) (foi_EntityID foi) = None"
    and glob: "\<not> im_IsGlobal m1 i"
    and rem: "gm_keys (im_removedGlobals m1) = {i \<in> gm_keys (im_globals m). entityAt ifc es i = None}"
    and same: "im_known m1 = im_known m"
    using UpdateGrid_ok [OF assms(1,2,4), of pif] assms(5,6) by auto
  have k: "knownFor m1 sid = knownFor m sid" using same by (simp add: knownFor_def)
  have w: "gm_wf (knownFor m1 sid)" using k assms(3) by simp
  obtain a where a: "sessionDiff F z ord allow sid foi m1 = Some (a, diffFor sid m1)" "keysOf a = frozen allow m1 sid"
    "set (df_Exited (da_diff a)) = gm_keys (knownFor m1 sid) - keysOf a"
    using sessionDiff_frozen [OF u(2) assms(2) w pos, of z allow] by blast
  have "i \<in> frozen allow m1 sid"
    using assms(7,8) glob k rem by (auto simp: frozen_def im_IsGlobal_def gm_keys_Some)
  then show ?thesis using u(1) a by (auto simp: keysOf_def)
qed

section \<open>Examples\<close>

text \<open>
  Entity \<open>i\<close> stands at \<open>i\<close> on a line; session 7 watches around entity 1, with radius 2 and margin 1.
\<close>

definition linePos :: "(demoEntity, int) posIface" where
  "linePos = \<lparr>pi_Position = (\<lambda>e. (uint (de_id e), 0)), pi_Position3D = (\<lambda>_. None)\<rparr>"

definition keyOrders :: "int iorders" where
  "keyOrders = \<lparr>io_ids = map fst, io_fois = map fst\<rparr>"

definition lineManager :: "int interestManager" where
  "lineManager = im_AssignFOI 7 1 2 1 (NewInterestManager intOps 1)"

definition lineEntities :: "demoEntity list" where
  "lineEntities = map demoHeap [1, 2, 5]"

lemma keyOrders_ok: "ordersOK keyOrders"
  by (simp add: ordersOK_def keyOrders_def iter_order_keys)

lemma lineManager_inv: "managerInv intOps (lineManager\<lparr>im_known := k\<rparr>)"
  by (simp add: managerInv_def lineManager_def im_AssignFOI_def NewInterestManager_def gridInv_new)
    (simp add: NewGrid_def gm_keys_def)

lemma lineManager_sessions: "gm_wf (im_fois lineManager)" "sessionsOK (Suc 0) lineManager"
  by (auto simp: sessionsOK_def lineManager_def im_AssignFOI_def NewInterestManager_def gm_wf_def knownFor_def
      diffFor_def stampsOK_def)

lemma line_eval:
  "im_fois (the (UpdateGrid intOps keyOrders demoIface linePos lineEntities lineManager)) = [(7, \<lparr>foi_EntityID = 1, foi_Radius = 2, foi_Margin = 1\<rparr>)]"
  "gr_positions (im_grid (the (UpdateGrid intOps keyOrders demoIface linePos lineEntities lineManager)))
     = [(1, \<lparr>po_x = 1, po_y = 0\<rparr>), (2, \<lparr>po_x = 2, po_y = 0\<rparr>), (5, \<lparr>po_x = 5, po_y = 0\<rparr>)]"
  "gr_invCellSize (im_grid (the (UpdateGrid intOps keyOrders demoIface linePos lineEntities lineManager))) = 1"
  by (code_simp, code_simp, code_simp)

theorem interest_tick_exact_witness:
  "\<exists>m1 diffs m2 d. UpdateGrid intOps keyOrders demoIface linePos lineEntities lineManager = Some m1
     \<and> ComputeDiffsFiltered intOps 0 keyOrders None m1 = Some (diffs, m2) \<and> gm_keys (knownFor m2 7) = {1, 2}
     \<and> map_of diffs 7 = Some d \<and> set (df_Entered d) = {1, 2}"
proof -
  have inv: "managerInv intOps lineManager" using lineManager_inv [of "im_known lineManager"] by simp
  have d: "distinct (map (ei_EntityID demoIface) lineEntities)"
    by (simp add: lineEntities_def demoIface_def demoHeap_def)
  obtain m1 where m1: "UpdateGrid intOps keyOrders demoIface linePos lineEntities lineManager = Some m1"
    and c: "queriesBounded intOps m1 \<longrightarrow>
        (\<exists>diffs m2. ComputeDiffsFiltered intOps 0 keyOrders None m1 = Some (diffs, m2)
          \<and> (\<forall>sid foi anchor. map_of (im_fois lineManager) sid = Some foi \<and> entityAt demoIface lineEntities (foi_EntityID foi) = Some anchor
                \<and> \<not> ei_IsGlobal demoIface anchor \<longrightarrow>
              gm_keys (knownFor m2 sid) = ofInterest intOps demoIface linePos None lineEntities (im_grid m1) sid foi anchor (gm_keys (knownFor lineManager sid))
              \<and> (\<exists>d. map_of diffs sid = Some d \<and> exactDiff (gm_keys (knownFor lineManager sid)) (gm_keys (knownFor m2 sid)) d)))"
    using interest_tick_exact [OF inv keyOrders_ok lineManager_sessions d, of linePos 0 None] by blast
  note ev = line_eval [unfolded m1, simplified]
  have "queriesBounded intOps m1" by (auto simp: queriesBounded_def ev intOps_def split: if_splits)
  then obtain diffs m2 where r: "ComputeDiffsFiltered intOps 0 keyOrders None m1 = Some (diffs, m2)"
    and k: "\<forall>sid foi anchor. map_of (im_fois lineManager) sid = Some foi \<and> entityAt demoIface lineEntities (foi_EntityID foi) = Some anchor
                \<and> \<not> ei_IsGlobal demoIface anchor \<longrightarrow>
              gm_keys (knownFor m2 sid) = ofInterest intOps demoIface linePos None lineEntities (im_grid m1) sid foi anchor (gm_keys (knownFor lineManager sid))
              \<and> (\<exists>d. map_of diffs sid = Some d \<and> exactDiff (gm_keys (knownFor lineManager sid)) (gm_keys (knownFor m2 sid)) d)"
    using c by blast
  let ?foi = "\<lparr>foi_EntityID = 1, foi_Radius = 2, foi_Margin = 1\<rparr> :: int FOI"
  have f: "map_of (im_fois lineManager) 7 = Some ?foi" "knownFor lineManager 7 = []"
    by (simp_all add: lineManager_def im_AssignFOI_def NewInterestManager_def knownFor_def)
  have a: "entityAt demoIface lineEntities (foi_EntityID ?foi) = Some (demoHeap 1)"
    "\<not> ei_IsGlobal demoIface (demoHeap 1)"
    by (simp_all add: lineEntities_def demoIface_def demoHeap_def)
  have "gm_keys (knownFor m2 7) = ofInterest intOps demoIface linePos None lineEntities (im_grid m1) 7 ?foi (demoHeap 1) (gm_keys (knownFor lineManager 7))
    \<and> (\<exists>d. map_of diffs 7 = Some d \<and> exactDiff (gm_keys (knownFor lineManager 7)) (gm_keys (knownFor m2 7)) d)"
    using k f(1) a by blast
  moreover have e0: "gm_keys (knownFor lineManager 7) = {}" by (simp add: f(2) gm_keys_def)
  ultimately have "gm_keys (knownFor m2 7) = ofInterest intOps demoIface linePos None lineEntities (im_grid m1) 7 ?foi (demoHeap 1) {}
    \<and> (\<exists>d. map_of diffs 7 = Some d \<and> exactDiff {} (gm_keys (knownFor m2 7)) d)" unfolding e0 by blast
  then have kn: "gm_keys (knownFor m2 7) = ofInterest intOps demoIface linePos None lineEntities (im_grid m1) 7 ?foi (demoHeap 1) {}"
    and "\<exists>d. map_of diffs 7 = Some d \<and> exactDiff {} (gm_keys (knownFor m2 7)) d" by (rule conjunct1, rule conjunct2)
  then obtain e where e: "map_of diffs 7 = Some e" "exactDiff {} (gm_keys (knownFor m2 7)) e" by blast
  have "ofInterest intOps demoIface linePos None lineEntities (im_grid m1) 7 ?foi (demoHeap 1) {} = {1, 2}"
    by (auto simp: ofInterest_def entityAllowed_def lineEntities_def reaches_def positionAt_def interestPosition_def linePos_def
        dist2_def intOps_def queryBox_def inBox_def toCell_def ev demoIface_def demoHeap_def split: if_splits)
  then show ?thesis using m1 r kn e by (auto simp: exactDiff_def)
qed

theorem ghosts_without_anchor_witness:
  "\<exists>m1 a. UpdateGrid intOps keyOrders demoIface linePos [] (lineManager\<lparr>im_known := [(7, [(1, ()), (2, ())])]\<rparr>) = Some m1
     \<and> sessionDiff intOps 0 keyOrders None 7 \<lparr>foi_EntityID = 1, foi_Radius = 2, foi_Margin = 1\<rparr> m1 = Some (a, diffFor 7 m1)
     \<and> 2 \<in> gm_keys (da_known a) \<and> 2 \<notin> set (df_Exited (da_diff a))"
proof -
  let ?m = "lineManager\<lparr>im_known := [(7, [(1, ()), (2, ())])]\<rparr>"
  have k: "gm_wf (knownFor ?m 7)" "2 \<in> gm_keys (knownFor ?m 7)"
    by (simp_all add: knownFor_def gm_wf_def gm_keys_def)
  have g: "\<not> im_IsGlobal ?m 2"
    by (simp add: im_IsGlobal_def lineManager_def im_AssignFOI_def NewInterestManager_def)
  show ?thesis
    using ghosts_without_anchor [OF lineManager_inv keyOrders_ok k(1) _ _ _ k(2) g, of demoIface "[]"
        "\<lparr>foi_EntityID = 1, foi_Radius = 2, foi_Margin = 1\<rparr>" linePos 0 None] by simp
qed

end
