(* ===== verification/Interest_Tick.thy ===== *)
theory Interest_Tick
  imports Confidentiality Interest_Sessions
begin

text \<open>
  Replication with interest management (\<^verbatim>\<open>golem/loop.go\<close>, \<^verbatim>\<open>runInterestTick\<close>): the grid and
  the differences first, then the flush, then for every session with a difference the frames and
  the sends.  The \<^verbatim>\<open>OnUpdates\<close> callback runs before the sessions are read.  A tick that never
  leaves a cell scan is \<open>None\<close>.
\<close>

section \<open>The tick\<close>

definition sendInterestFrames ::
  "'e srvEnv \<Rightarrow> int64 \<Rightarrow> Transport \<Rightarrow> bool \<Rightarrow> 'e tickState \<Rightarrow> serverError option \<times> 'e tickState" where
  "sendInterestFrames env sessionID transport datagrams ts =
     (let f = ts_frames ts
      in case (if length (fs_stream f) > 0 then ln_SendBatch env sessionID (fs_stream f) (sv_net (fs_srv f))
               else (None, sv_net (fs_srv f))) of
           (err, net) \<Rightarrow>
             (let ts = ts_update (\<lambda>s. s\<lparr>sv_net := net\<rparr>) ts
              in case err of
                   Some e \<Rightarrow> if isDisconnectedSessionSend e then (None, ts) else (Some e, ts)
                 | None \<Rightarrow>
                     (let ts = (if length (fs_stream f) > 0
                                then ts\<lparr>ts_sums := addStats (ts_sums ts) (streamStats transport (fs_stream f))\<rparr> else ts)
                      in if \<not> datagrams then (None, ts)
                         else case sendSessionEventualState env sessionID (fs_dirty f) (fs_direct f) (ts_cache ts) (ts_srv ts) of
                                ((err, st, s), cache) \<Rightarrow>
                                  (let ts = ts_update (\<lambda>_. s) (ts\<lparr>ts_cache := cache\<rparr>)
                                   in case err of
                                        Some e \<Rightarrow> (Some e, ts)
                                      | None \<Rightarrow> (None, ts\<lparr>ts_sums := addStats (ts_sums ts) st\<rparr>)))))"

definition interestSession ::
  "'e srvEnv \<Rightarrow> tickData \<Rightarrow> (int64, ownershipRefresh) gomap \<Rightarrow> (int64, Diff) gomap \<Rightarrow> int64 \<Rightarrow> 'e tickState
     \<Rightarrow> serverError option \<times> 'e tickState" where
  "interestSession env td pending diffs sessionID ts =
     (case ln_SessionTransport env sessionID (sv_net (ts_srv ts)) of
        (tr, net) \<Rightarrow>
          (let ts = ts_update (\<lambda>s. s\<lparr>sv_net := net\<rparr>) ts
           in case tr of
                None \<Rightarrow> (None, ts)
              | Some transport \<Rightarrow>
                  (let datagrams = (usesDatagramStateUpdates env \<and> transport = TransportWebTransport)
                   in case map_of diffs sessionID of
                        None \<Rightarrow> (None, ts)
                      | Some d \<Rightarrow>
                          (case diffFrames env td pending sessionID datagrams (df_Entered d, df_Stayed d, df_Exited d) (ts_frames ts) of
                             Inl err \<Rightarrow> (Some err, ts)
                           | Inr f \<Rightarrow> sendInterestFrames env sessionID transport datagrams (ts\<lparr>ts_frames := f\<rparr>)))))"

fun interestSessions ::
  "'e srvEnv \<Rightarrow> tickData \<Rightarrow> (int64, ownershipRefresh) gomap \<Rightarrow> (int64, Diff) gomap \<Rightarrow> int64 list \<Rightarrow> 'e tickState
     \<Rightarrow> serverError option \<times> 'e tickState" where
  "interestSessions env td pending diffs [] ts = (None, ts)"
| "interestSessions env td pending diffs (sid # sids) ts =
     (case interestSession env td pending diffs sid ts of
        (Some err, ts) \<Rightarrow> (Some err, ts)
      | (None, ts) \<Rightarrow> interestSessions env td pending diffs sids ts)"

text \<open>What follows the flush.\<close>

definition interestFlushed ::
  "'e srvEnv \<Rightarrow> 'e updateFunc option \<Rightarrow> (int64, Diff) gomap \<Rightarrow> (int64, ownershipRefresh) gomap \<Rightarrow> FlushResult \<Rightarrow> 'e Server
     \<Rightarrow> serverError option \<times> 'e Server" where
  "interestFlushed env onUpdates diffs pending result s =
     (let spawns = zip (fr_SpawnIDs result) (fr_Spawns result);
          wrapped = put_all (map (\<lambda>(i, d). (i, ln_Wrap d)) spawns) [];
          changes = (if usesDatagramStateUpdates env
                     then put_all (map (\<lambda>i. (i, eventualChangeForDelta env s i)) (fr_DeltaIDs result)) [] else []);
          ownerScopedDeltas = list_ex (ownerScopedDelta env s) (fr_DeltaIDs result)
      in case removalFrames env (zip (fr_Removals result) (fr_RemovalRevisions result)) [] of
           Inl err \<Rightarrow> (Some err, s)
         | Inr removals \<Rightarrow>
             (let s = (if usesDatagramStateUpdates env then clearEventualEntities env (fr_Removals result) s else s);
                  updates = flushUpdates result (lastRemovals removals);
                  s = (case onUpdates of Some g \<Rightarrow> if length updates > 0 then g updates s else s | None \<Rightarrow> s);
                  (sessionIDs, net) = ln_SessionIDs env (sv_net s);
                  (hasDatagrams, net) = hasDatagramStateSessions env sessionIDs net;
                  s = s\<lparr>sv_net := net\<rparr>
              in case (if hasDatagrams \<and> \<not> ownerScopedDeltas
                       then prepareFrames env s (List.map_filter (map_of changes) (en_ordChanges env changes)) []
                       else Inr []) of
                   Inl err \<Rightarrow> (Some err, s)
                 | Inr frames \<Rightarrow>
                     (let td = \<lparr>td_spawnData = put_all spawns [],
                                td_deltaData = put_all (zip (fr_DeltaIDs result) (fr_Deltas result)) [],
                                td_changes = changes, td_frames = frames, td_ownerScopedDeltas = ownerScopedDeltas\<rparr>;
                          f = \<lparr>fs_srv = s, fs_full = wrapped, fs_publicFull = [], fs_deltas = [], fs_publicDelta = [],
                               fs_removals = put_all (map (\<lambda>(i, d). (i, ln_Wrap (Some d))) removals) [],
                               fs_stream = [], fs_dirty = [], fs_direct = []\<rparr>
                      in case interestSessions env td pending diffs sessionIDs
                                \<lparr>ts_frames = f, ts_cache = [], ts_sums = ss_zero\<rparr> of
                           (Some err, ts) \<Rightarrow> (Some err, ts_srv ts)
                         | (None, ts) \<Rightarrow>
                             (None, storeReplicationSnapshot (ss_streamBatchedFrames (ts_sums ts)) (ss_streamWireMsgs (ts_sums ts))
                                (ss_datagramBatchedFrames (ts_sums ts)) (ss_datagramWirePayloads (ts_sums ts)) (length (fr_Deltas result))
                                (cleanupVisibilityForRemovals (fr_Removals result) (ts_srv ts))))))"

definition runInterestTick ::
  "'f fops \<Rightarrow> 'f \<Rightarrow> 'f iorders \<Rightarrow> ('e, 'f) posIface \<Rightarrow> 'e srvEnv \<Rightarrow> 'e updateFunc option \<Rightarrow> 'f interestManager \<Rightarrow> 'e Server
     \<Rightarrow> ((serverError option \<times> 'e Server) \<times> 'f interestManager) option" where
  "runInterestTick F z ord pif env onUpdates m s =
     Option.bind (UpdateGrid F ord (en_ifc env) pif (sv_All env s) m) (\<lambda>m.
     Option.bind (ComputeDiffsFiltered F z ord (Some (Allows (sv_visibility s))) m) (\<lambda>(diffs, m).
       (case snapshotOwnershipRefreshLocked s of
          (pending, s) \<Rightarrow>
            (case reg_FlushAll (en_ifc env) (en_ordEntities env (rg_entities (sv_reg s))) (sv_heap s) (sv_reg s) of
               ((Some err, _), h, r) \<Rightarrow> Some ((Some (errRegistry err), s\<lparr>sv_heap := h, sv_reg := r\<rparr>), m)
             | ((None, result), h, r) \<Rightarrow>
                 Some (interestFlushed env onUpdates diffs pending result (s\<lparr>sv_heap := h, sv_reg := r\<rparr>), m)))))"

section \<open>Confidentiality\<close>

text \<open>The entities a difference announces or keeps are live and allowed.\<close>

definition diffsAllowed :: "Manager \<Rightarrow> int64 list \<Rightarrow> (int64, Diff) gomap \<Rightarrow> bool" where
  "diffsAllowed vis live diffs \<longleftrightarrow>
     (\<forall>sid d. map_of diffs sid = Some d \<longrightarrow> (\<forall>i \<in> set (df_Entered d) \<union> set (df_Stayed d). i \<in> set live \<and> Allows vis sid i))"

lemma outcome_allowed:
  assumes "sessionOutcome F (Some allow) m sid foi K' d" "i \<in> set (df_Entered d) \<union> set (df_Stayed d)"
  shows "allow sid i \<and> (im_IsGlobal m i \<or> map_of (gr_positions (im_grid m)) i \<noteq> None)"
  using assms
  by (auto simp: sessionOutcome_def exactDiff_def interesting_def inReach_def frozen_def entityAllowed_def
      split: option.splits if_splits)

lemma entityAt_live: "entityAt ifc es i = Some e \<Longrightarrow> i \<in> set (map (ei_EntityID ifc) es)"
  by (induction es) (auto split: if_splits)

lemma interestDiffs_allowed:
  assumes "managerInv F m" "ordersOK ord" "gm_wf (im_fois m)" "sessionsOK (Suc n) m" "distinct (map (ei_EntityID ifc) es)"
    and "UpdateGrid F ord ifc pif es m = Some m1" "queriesBounded F m1"
  shows "\<exists>diffs m2. ComputeDiffsFiltered F z ord (Some (Allows vis)) m1 = Some (diffs, m2)
    \<and> diffsAllowed vis (map (ei_EntityID ifc) es) diffs"
proof -
  have u: "managerInv F m1" "im_known m1 = im_known m" "im_fois m1 = im_fois m" "im_diffScratch m1 = im_diffScratch m"
    and pos: "\<forall>i. map_of (gr_positions (im_grid m1)) i \<noteq> None \<longrightarrow> entityAt ifc es i \<noteq> None"
    and glob: "\<forall>i. im_IsGlobal m1 i \<longrightarrow> entityAt ifc es i \<noteq> None"
    using UpdateGrid_ok [OF assms(1,2,5), of pif] assms(6) by (auto split: option.splits)
  have s: "sessionsOK (Suc n) m1" using u assms(4) by (auto simp: knownFor_def sessionsOK_def diffFor_def)
  have w: "gm_wf (im_fois m1)" using u(3) assms(3) by simp
  obtain diffs m2 where c: "ComputeDiffsFiltered F z ord (Some (Allows vis)) m1 = Some (diffs, m2)"
    and o: "\<forall>sid. case map_of (im_fois m1) sid of
         None \<Rightarrow> map_of diffs sid = None \<and> knownFor m2 sid = knownFor m1 sid
       | Some foi \<Rightarrow> \<exists>d. map_of diffs sid = Some d \<and> sessionOutcome F (Some (Allows vis)) m1 sid foi (gm_keys (knownFor m2 sid)) d"
    using ComputeDiffs_exact [OF u(1) assms(2) w assms(7) s, of z "Some (Allows vis)"] by (elim exE conjE) (rule that)
  have "i \<in> set (map (ei_EntityID ifc) es) \<and> Allows vis sid i"
    if d: "map_of diffs sid = Some d" "i \<in> set (df_Entered d) \<union> set (df_Stayed d)" for sid d i
  proof -
    obtain foi where "map_of (im_fois m1) sid = Some foi" "sessionOutcome F (Some (Allows vis)) m1 sid foi (gm_keys (knownFor m2 sid)) d"
      using o [rule_format, of sid] d(1) by (auto split: option.splits)
    then have "Allows vis sid i \<and> (im_IsGlobal m1 i \<or> map_of (gr_positions (im_grid m1)) i \<noteq> None)"
      using outcome_allowed d(2) by blast
    then show ?thesis using pos glob entityAt_live [of ifc es i] by blast
  qed
  then show ?thesis using c by (auto simp: diffsAllowed_def)
qed

lemma interestSession_ok:
  assumes lane: "\<not> usesDatagramStateUpdates env" and cur: "refreshCurrent env s pending"
    and vis: "diffsAllowed (sv_visibility s) live diffs"
    and ok: "tickOK env td s live (ts_frames ts)"
    and r: "interestSession env td pending diffs sid ts = (err, ts')"
  shows "tickOK env td s live (ts_frames ts')"
proof -
  obtain tr net where t: "ln_SessionTransport env sid (sv_net (ts_srv ts)) = (tr, net)" by fastforce
  define u where "u = ts_update (\<lambda>s. s\<lparr>sv_net := net\<rparr>) ts"
  have u: "tickOK env td s live (ts_frames u)"
    unfolding u_def ts_update_def using t
    by (auto simp: ln_SessionTransport_def ts_srv_def intro!: tickOK_net [OF ok, of _ "NetTransport sid"])
  consider "ts' = u" | d f transport where "map_of diffs sid = Some d"
    "diffFrames env td pending sid False (df_Entered d, df_Stayed d, df_Exited d) (ts_frames u) = Inr f"
    "sendInterestFrames env sid transport False (u\<lparr>ts_frames := f\<rparr>) = (err, ts')"
    using r t lane by (auto simp: interestSession_def u_def [symmetric] Let_def split: sum.splits option.splits)
  then show ?thesis
  proof cases
    case 1
    then show ?thesis using u by simp
  next
    case 2
    have v: "\<forall>i \<in> set (df_Entered d). i \<in> set live \<and> Allows (sv_visibility s) sid i"
      "\<forall>i \<in> set (df_Stayed d). i \<in> set live \<and> Allows (sv_visibility s) sid i"
      using vis 2(1) by (auto simp: diffsAllowed_def)
    have F: "framesOK env td s live sid f"
      by (rule diffFrames_ok [OF _ _ cur v 2(2)]) (use u in \<open>simp_all add: tickOK_def\<close>)
    have t: "tickOK env td s live f"
      using F u diffFrames_net [OF 2(2)] by (auto simp: tickOK_def framesOK_def sentOK_def sameNet_def knownOf_def)
    obtain e n where b: "(if length (fs_stream f) > 0 then ln_SendBatch env sid (fs_stream f) (sv_net (fs_srv f))
             else (None, sv_net (fs_srv f))) = (e, n)" by fastforce
    show ?thesis using 2(3) b batch_ok [OF t F b]
      by (auto simp: sendInterestFrames_def Let_def ts_update_def ts_srv_def split: option.splits if_splits)
  qed
qed

lemma interestSessions_ok:
  assumes "\<not> usesDatagramStateUpdates env" "refreshCurrent env s pending" "diffsAllowed (sv_visibility s) live diffs"
    and "tickOK env td s live (ts_frames ts)" "interestSessions env td pending diffs sids ts = (err, ts')"
  shows "tickOK env td s live (ts_frames ts')"
  using assms(4,5)
proof (induction sids arbitrary: ts)
  case (Cons sid sids)
  obtain e u where u: "interestSession env td pending diffs sid ts = (e, u)" by fastforce
  have "tickOK env td s live (ts_frames u)" by (rule interestSession_ok [OF assms(1-3) Cons.prems(1) u])
  then show ?case using Cons u by (auto split: option.splits)
qed simp

lemma interestFlushed_ok:
  assumes "\<not> usesDatagramStateUpdates env" "refreshCurrent env s pending" "diffsAllowed (sv_visibility s) live diffs"
    and "\<forall>j. gm_wf (knownOf s j)" and "interestFlushed env None diffs pending result s = (err, s')"
    and "NetSendBatch j frames b \<in> set (net_since s s')" and "w \<in> set frames"
  shows "mayReceive env (flushData result) s live j w"
proof (cases "removalFrames env (zip (fr_Removals result) (fr_RemovalRevisions result)) []")
  case (Inl e)
  then show ?thesis using assms(5,6) by (simp add: interestFlushed_def net_since_def)
next
  case (Inr removals)
  obtain sids net where n: "ln_SessionIDs env (sv_net s) = (sids, net)" by fastforce
  define td where "td = (flushData result)\<lparr>td_ownerScopedDeltas := list_ex (ownerScopedDelta env s) (fr_DeltaIDs result)\<rparr>"
  define f where "f = \<lparr>fs_srv = s\<lparr>sv_net := net\<rparr>, fs_full = put_all (map (\<lambda>(i, d). (i, ln_Wrap d)) (zip (fr_SpawnIDs result) (fr_Spawns result))) [],
    fs_publicFull = [], fs_deltas = [], fs_publicDelta = [],
    fs_removals = put_all (map (\<lambda>(i, d). (i, ln_Wrap (Some d))) removals) [], fs_stream = [], fs_dirty = [], fs_direct = []\<rparr>"
  have c: "cachesOK env td s f"
    by (rule initial_cachesOK [OF _ removalFrames_notices [OF Inr]]) (simp_all add: td_def f_def flushData_def)
  have t: "tickOK env td s live (ts_frames \<lparr>ts_frames = f, ts_cache = [], ts_sums = ss_zero\<rparr>)"
    using c n assms(4) by (simp add: tickOK_def f_def sentOK_def sameWorld_def knownOf_def ln_SessionIDs_def) auto
  obtain e ts where r: "interestSessions env td pending diffs sids \<lparr>ts_frames = f, ts_cache = [], ts_sums = ss_zero\<rparr> = (e, ts)"
    by fastforce
  have T: "tickOK env td s live (ts_frames ts)" by (rule interestSessions_ok [OF assms(1-3) t r])
  have "sv_net s' = sv_net (ts_srv ts)"
    using assms(1,5) n r Inr
    by (auto simp: interestFlushed_def hasDatagramStateSessions_def td_def f_def flushData_def
        storeReplicationSnapshot_def cleanupVisibilityForRemovals_def Let_def split: option.splits prod.splits)
  then have "mayReceive env td s live j w"
    using T assms(6,7) by (auto simp: tickOK_def sentOK_def net_since_def ts_srv_def) blast
  then show ?thesis using mayReceive_cong [of td "flushData result" env s live j w] by (simp add: td_def)
qed

text \<open>
  C20.  A whole tick with interest management on the stream lane, whatever the connections do
  meanwhile and whether or not it ends in an error: the tick returns, and every frame of every
  batch was permitted for the session it went to --- about an entity that was live and allowed
  when the differences were computed, in full only if the session may see all of it at the flush.
\<close>

theorem interest_tick_confidential:
  assumes "\<not> usesDatagramStateUpdates env" and "\<forall>j. gm_wf (knownOf s j)"
    and "managerInv F m" and "ordersOK ord" and "gm_wf (im_fois m)" and "sessionsOK (Suc n) m"
    and "distinct (map (ei_EntityID (en_ifc env)) (sv_All env s))"
    and "UpdateGrid F ord (en_ifc env) pif (sv_All env s) m = Some m1" and "queriesBounded F m1"
    and "reg_FlushAll (en_ifc env) (en_ordEntities env (rg_entities (sv_reg s))) (sv_heap s) (sv_reg s) = ((None, result), h, r)"
    and "refreshCurrent env (s\<lparr>sv_heap := h, sv_reg := r\<rparr>) (sv_ownershipRefresh s)"
  shows "\<exists>err s' m'. runInterestTick F z ord pif env None m s = Some ((err, s'), m')
    \<and> (\<forall>j frames b w. NetSendBatch j frames b \<in> set (net_since s s') \<and> w \<in> set frames \<longrightarrow>
         mayReceive env (flushData result) (s\<lparr>sv_heap := h, sv_reg := r\<rparr>) (map (ei_EntityID (en_ifc env)) (sv_All env s)) j w)"
proof -
  obtain diffs m2 where d: "ComputeDiffsFiltered F z ord (Some (Allows (sv_visibility s))) m1 = Some (diffs, m2)"
    "diffsAllowed (sv_visibility s) (map (ei_EntityID (en_ifc env)) (sv_All env s)) diffs"
    using interestDiffs_allowed [OF assms(3-9)] by blast
  define s1 where "s1 = s\<lparr>sv_ownershipRefresh := [], sv_heap := h, sv_reg := r\<rparr>"
  have p: "snapshotOwnershipRefreshLocked s = (sv_ownershipRefresh s, s\<lparr>sv_ownershipRefresh := []\<rparr>)"
    by (auto simp: snapshotOwnershipRefreshLocked_def gm_len_def)
  obtain err s' where f: "interestFlushed env None diffs (sv_ownershipRefresh s) result s1 = (err, s')" by fastforce
  have run: "runInterestTick F z ord pif env None m s = Some ((err, s'), m2)"
    using assms(8,10) d(1) p f by (simp add: runInterestTick_def s1_def)
  have same: "sv_visibility s1 = sv_visibility s" "sv_net s1 = sv_net s" "knownOf s1 = knownOf s"
    by (simp_all add: s1_def knownOf_def fun_eq_iff)
  have eq: "mayReceive env td s1 l j w = mayReceive env td (s\<lparr>sv_heap := h, sv_reg := r\<rparr>) l j w"
    "refreshCurrent env s1 q = refreshCurrent env (s\<lparr>sv_heap := h, sv_reg := r\<rparr>) q" for td l j w q
    by (simp_all add: s1_def mayReceive_def publicFrames_def authFrames_def fullAccess_def sessionOwnsEntity_def sv_Get_def
        refreshCurrent_def)
  have "mayReceive env (flushData result) s1 (map (ei_EntityID (en_ifc env)) (sv_All env s)) j w"
    if "NetSendBatch j frames b \<in> set (net_since s s')" "w \<in> set frames" for j frames b w
  proof (rule interestFlushed_ok [OF assms(1) _ _ _ f])
    show "NetSendBatch j frames b \<in> set (net_since s1 s')" using that(1) same(2) by (simp add: net_since_def)
  qed (use assms(2,11) d(2) same that(2) eq(2) in simp_all)
  then show ?thesis using run eq(1) by blast
qed


section \<open>Example\<close>

text \<open>Entity 5 belongs to session 1; session 2 watches around it.\<close>

definition watchManager :: "int interestManager" where
  "watchManager = im_AssignFOI 2 5 2 1 (NewInterestManager intOps 1)"

text \<open>The scan, executable where it ends.\<close>

definition scanFrom :: "'f fops \<Rightarrow> 'f pos \<Rightarrow> (idset \<Rightarrow> int64 list) \<Rightarrow> 'f \<Rightarrow> 'f \<Rightarrow> 'f \<Rightarrow> 'f Grid \<Rightarrow> int64 list option" where
  [code del]: "scanFrom = QueryInto"

lemma QueryInto_code [code]:
  "QueryInto F zero ord cx cy radius g =
     (if sint (ffloor F (fmul F (fadd F cx radius) (gr_invCellSize g))) < 2 ^ 63 - 1
         \<and> sint (ffloor F (fmul F (fadd F cy radius) (gr_invCellSize g))) < 2 ^ 63 - 1
      then Some (concat (map (\<lambda>ck. filter (\<lambda>i. fle F (dist2 F cx cy (case map_of (gr_positions g) i of None \<Rightarrow> zero | Some p \<Rightarrow> p)) (fmul F radius radius))
              (ord (cellAt g ck)))
        (boxCells (ffloor F (fmul F (fsub F cx radius) (gr_invCellSize g))) (ffloor F (fmul F (fadd F cx radius) (gr_invCellSize g)))
           (ffloor F (fmul F (fsub F cy radius) (gr_invCellSize g))) (ffloor F (fmul F (fadd F cy radius) (gr_invCellSize g))))))
      else scanFrom F zero ord cx cy radius g)"
  by (simp add: QueryInto_scan scanFrom_def)

lemma watch_grid:
  "map_option im_grid (UpdateGrid intOps keyOrders (en_ifc scopedEnv) linePos (sv_All scopedEnv scopedServer) watchManager)
     = Some \<lparr>gr_cellSize = 1, gr_invCellSize = 1, gr_cells = [(\<lparr>ck_cx = 5, ck_cy = 0\<rparr>, [(5, ())])],
             gr_positions = [(5, \<lparr>po_x = 5, po_y = 0\<rparr>)], gr_cellOf = [(5, \<lparr>ck_cx = 5, ck_cy = 0\<rparr>)]\<rparr>"
  by code_simp

lemma watch_query:
  "QueryInto intOps (zeroPos 0) (map fst) 5 0 3 \<lparr>gr_cellSize = 1, gr_invCellSize = 1, gr_cells = [(\<lparr>ck_cx = 5, ck_cy = 0\<rparr>, [(5, ())])],
             gr_positions = [(5, \<lparr>po_x = 5, po_y = 0\<rparr>)], gr_cellOf = [(5, \<lparr>ck_cx = 5, ck_cy = 0\<rparr>)]\<rparr> = Some [5]"
  by code_simp

lemma watch_diffs:
  "map_option fst (ComputeDiffsFiltered intOps 0 keyOrders (Some (Allows (sv_visibility scopedServer)))
     (the (UpdateGrid intOps keyOrders (en_ifc scopedEnv) linePos (sv_All scopedEnv scopedServer) watchManager)))
     = Some [(2, \<lparr>df_Entered = [5], df_Stayed = [], df_Exited = []\<rparr>)]"
  by code_simp

definition watchHeap :: "demoEntity heap" where
  "watchHeap = demoHeap(5 := (demoHeap 5)\<lparr>de_delta := None\<rparr>)"

definition watchFlush :: FlushResult where
  "watchFlush = emptyFlush\<lparr>fr_DeltaIDs := [5], fr_Deltas := [[9]]\<rparr>"

lemma watch_flush:
  "reg_FlushAll (en_ifc scopedEnv) (en_ordEntities scopedEnv (rg_entities (sv_reg scopedServer))) (sv_heap scopedServer) (sv_reg scopedServer)
     = ((None, watchFlush), watchHeap, sv_reg scopedServer)"
  by (simp add: env_eval world_eval reg_FlushAll_def watchFlush_def watchHeap_def emptyFlush_def)

lemma watch_sent:
  "NetSendBatch 2 [[10, 1, 1]] True
     \<in> set (net_since scopedServer (snd (interestFlushed scopedEnv None [(2, \<lparr>df_Entered = [5], df_Stayed = [], df_Exited = []\<rparr>)] []
          watchFlush (scopedServer\<lparr>sv_heap := watchHeap\<rparr>))))"
  by (simp add: env_eval world_eval frames_eval tick_eval net_since_def interestFlushed_def watchFlush_def watchHeap_def
      interestSession_def sendInterestFrames_def)

theorem interest_tick_confidential_witness:
  "\<exists>err s' m'. runInterestTick intOps 0 keyOrders linePos scopedEnv None watchManager scopedServer = Some ((err, s'), m')
     \<and> NetSendBatch 2 [[10, 1, 1]] True \<in> set (net_since scopedServer s')
     \<and> mayReceive scopedEnv (flushData watchFlush) (scopedServer\<lparr>sv_heap := watchHeap, sv_reg := sv_reg scopedServer\<rparr>)
         (map (ei_EntityID (en_ifc scopedEnv)) (sv_All scopedEnv scopedServer)) 2 [10, 1, 1]"
proof -
  have l: "\<not> usesDatagramStateUpdates scopedEnv" by (simp add: env_eval)
  have m: "managerInv intOps watchManager" "gm_wf (im_fois watchManager)" "sessionsOK (Suc 0) watchManager"
    using gridInv_new [of intOps 1]
    by (auto simp: managerInv_def sessionsOK_def watchManager_def im_AssignFOI_def NewInterestManager_def gm_wf_def knownFor_def
        diffFor_def stampsOK_def gm_keys_def NewGrid_def)
  have d: "distinct (map (ei_EntityID (en_ifc scopedEnv)) (sv_All scopedEnv scopedServer))"
    by (simp add: env_eval world_eval)
  obtain m1 where m1: "UpdateGrid intOps keyOrders (en_ifc scopedEnv) linePos (sv_All scopedEnv scopedServer) watchManager = Some m1"
    and g: "im_grid m1 = \<lparr>gr_cellSize = 1, gr_invCellSize = 1, gr_cells = [(\<lparr>ck_cx = 5, ck_cy = 0\<rparr>, [(5, ())])],
             gr_positions = [(5, \<lparr>po_x = 5, po_y = 0\<rparr>)], gr_cellOf = [(5, \<lparr>ck_cx = 5, ck_cy = 0\<rparr>)]\<rparr>"
    using watch_grid by auto
  have "im_fois m1 = im_fois watchManager" using UpdateGrid_ok [OF m(1) keyOrders_ok d, of linePos] m1 by auto
  then have q: "queriesBounded intOps m1"
    by (auto simp: queriesBounded_def g watchManager_def im_AssignFOI_def NewInterestManager_def intOps_def split: if_splits)
  have o: "sv_ownershipRefresh scopedServer = []" by (simp add: world_eval)
  have c: "refreshCurrent scopedEnv (scopedServer\<lparr>sv_heap := watchHeap, sv_reg := sv_reg scopedServer\<rparr>) (sv_ownershipRefresh scopedServer)"
    by (simp add: refreshCurrent_def o)
  obtain err s' m' where t: "runInterestTick intOps 0 keyOrders linePos scopedEnv None watchManager scopedServer = Some ((err, s'), m')"
    and p: "\<forall>j frames b w. NetSendBatch j frames b \<in> set (net_since scopedServer s') \<and> w \<in> set frames \<longrightarrow>
         mayReceive scopedEnv (flushData watchFlush) (scopedServer\<lparr>sv_heap := watchHeap, sv_reg := sv_reg scopedServer\<rparr>)
           (map (ei_EntityID (en_ifc scopedEnv)) (sv_All scopedEnv scopedServer)) j w"
    using interest_tick_confidential [OF l allI [OF scoped_known] m(1) keyOrders_ok m(2,3) d m1 q watch_flush c, of 0] by blast
  obtain m2 where "ComputeDiffsFiltered intOps 0 keyOrders (Some (Allows (sv_visibility scopedServer))) m1
      = Some ([(2, \<lparr>df_Entered = [5], df_Stayed = [], df_Exited = []\<rparr>)], m2)"
    using watch_diffs m1 by auto
  then have "s' = snd (interestFlushed scopedEnv None [(2, \<lparr>df_Entered = [5], df_Stayed = [], df_Exited = []\<rparr>)] [] watchFlush
      (scopedServer\<lparr>sv_heap := watchHeap\<rparr>))"
    using t m1 watch_flush o by (auto simp: runInterestTick_def snapshotOwnershipRefreshLocked_def gm_len_def)
  then have n: "NetSendBatch 2 [[10, 1, 1]] True \<in> set (net_since scopedServer s')" using watch_sent by simp
  have "[10, 1, 1] \<in> set [[10, 1, 1 :: byte]]" by simp
  then show ?thesis using t n p by blast
qed

end
