(* ===== verification/Avatar.thy ===== *)
theory Avatar
  imports Eventual_Delivery Interest_Manager
begin

text \<open>
  Session avatars (\<^verbatim>\<open>golem/avatar.go\<close>).  \<^verbatim>\<open>SpawnAvatar\<close>, \<^verbatim>\<open>DeleteEntity\<close> and the
  cleanup of a disconnect run on different goroutines and hold no lock across their parts, so
  each is a thread that advances by one critical section (or one registry call) at a time, and
  the step relation at the end interleaves them.  The interest manager is \<open>None\<close> when interest
  management is off.
\<close>

section \<open>State\<close>

definition avatarSpawnPending :: int64 where "avatarSpawnPending = -1"

record 'f AvatarOptions =
  ao_FOIRadius :: 'f
  ao_FOIMargin :: 'f

record ('e, 'f) avatarWorld =
  aw_srv :: "'e Server"
  aw_interest :: "'f interestManager option"

definition aw_update :: "('e Server \<Rightarrow> 'e Server) \<Rightarrow> ('e, 'f) avatarWorld \<Rightarrow> ('e, 'f) avatarWorld" where
  "aw_update g w = w\<lparr>aw_srv := g (aw_srv w)\<rparr>"

datatype avatarError =
    errNilSession
  | errNegativeRadius
  | errSpawnInProgress int64
  | errHasAvatar int64 int64
  | errCreate serverError
  | errNeedsInterest
  | errReservationLost int64
  | errAvatarTaken int64 int64

definition AvatarEntity :: "'e Server \<Rightarrow> int64 \<Rightarrow> 'e option" where
  "AvatarEntity s sessionID =
     (case map_of (sv_sessionAvatar s) sessionID of
        None \<Rightarrow> None
      | Some entityID \<Rightarrow> if entityID = avatarSpawnPending then None else sv_Get s entityID)"

section \<open>Critical sections\<close>

text \<open>
  \<^verbatim>\<open>reserveAvatarSlot\<close> in two: the look at the slot, which says how to go on, and the removal of
  a stale entry.
\<close>

datatype reserveResult = Reserved | SpawnInProgress | Occupied int64

definition reserveLook :: "int64 \<Rightarrow> 'e Server \<Rightarrow> reserveResult \<times> 'e Server" where
  "reserveLook sessionID s =
     (case map_of (sv_sessionAvatar s) sessionID of
        None \<Rightarrow> (Reserved, s\<lparr>sv_sessionAvatar := AList.update sessionID avatarSpawnPending (sv_sessionAvatar s)\<rparr>)
      | Some existingID \<Rightarrow> (if existingID = avatarSpawnPending then SpawnInProgress else Occupied existingID, s))"

definition clearStale :: "int64 \<Rightarrow> int64 \<Rightarrow> 'e Server \<Rightarrow> 'e Server" where
  "clearStale sessionID existingID s =
     (if map_of (sv_sessionAvatar s) sessionID = Some existingID
      then s\<lparr>sv_sessionAvatar := AList.delete sessionID (sv_sessionAvatar s),
             sv_avatarSession := AList.delete existingID (sv_avatarSession s)\<rparr>
      else s)"

definition releaseAvatarReservation :: "int64 \<Rightarrow> 'e Server \<Rightarrow> 'e Server" where
  "releaseAvatarReservation sessionID s =
     (if map_of (sv_sessionAvatar s) sessionID = Some avatarSpawnPending
      then s\<lparr>sv_sessionAvatar := AList.delete sessionID (sv_sessionAvatar s)\<rparr> else s)"

definition commitAvatar :: "int64 \<Rightarrow> int64 \<Rightarrow> 'e Server \<Rightarrow> avatarError option \<times> 'e Server" where
  "commitAvatar sessionID entityID s =
     (if map_of (sv_sessionAvatar s) sessionID \<noteq> Some avatarSpawnPending then (Some (errReservationLost sessionID), s)
      else
        let commit = s\<lparr>sv_sessionAvatar := AList.update sessionID entityID (sv_sessionAvatar s),
                       sv_avatarSession := AList.update entityID sessionID (sv_avatarSession s)\<rparr>
        in case map_of (sv_avatarSession s) entityID of
             Some other \<Rightarrow> if other \<noteq> sessionID then (Some (errAvatarTaken entityID other), s) else (None, commit)
           | None \<Rightarrow> (None, commit))"

definition takeAvatarBySession :: "int64 \<Rightarrow> 'e Server \<Rightarrow> int64 option \<times> 'e Server" where
  "takeAvatarBySession sessionID s =
     (case map_of (sv_sessionAvatar s) sessionID of
        None \<Rightarrow> (None, s)
      | Some entityID \<Rightarrow>
          if entityID = avatarSpawnPending then (None, s)
          else (Some entityID,
                s\<lparr>sv_sessionAvatar := AList.delete sessionID (sv_sessionAvatar s),
                  sv_avatarSession := AList.delete entityID (sv_avatarSession s)\<rparr>))"

text \<open>A removal from the registry; the hook \<^verbatim>\<open>OnRemove\<close> is a thread of its own.\<close>

definition deleteFromRegistry :: "'e srvEnv \<Rightarrow> int64 \<Rightarrow> 'e Server \<Rightarrow> 'e Server" where
  "deleteFromRegistry env i s = s\<lparr>sv_reg := snd (reg_DeleteEntity (en_ifc env) (sv_heap s) (sv_reg s) i)\<rparr>"

section \<open>Threads\<close>

text \<open>Where a thread is; \<open>Done\<close> carries the error \<^verbatim>\<open>SpawnAvatar\<close> returns.\<close>

datatype avatarPC =
    SpReserve
  | SpOccupied int64
  | SpStale int64
  | SpCreate
  | SpFOI int64
  | SpCommit int64 bool
  | SpUndoFOI int64 avatarError
  | SpDelete int64 avatarError
  | SpRelease avatarError
  | CuFOI
  | CuTake
  | CuDelete int64
  | DeClear int64
  | DeDelete int64
  | Done "avatarError option"

record 'f avatarThread =
  at_session :: int64
  at_entity :: eref
  at_opts :: "'f AvatarOptions"
  at_pc :: avatarPC

text \<open>The call: its argument checks; \<open>neg\<close> and \<open>pos\<close> are the comparisons of the radius with zero.\<close>

definition spawnCall :: "('f \<Rightarrow> bool) \<Rightarrow> int64 option \<Rightarrow> eref \<Rightarrow> 'f AvatarOptions \<Rightarrow> avatarError + 'f avatarThread" where
  "spawnCall neg sess e opts =
     (case sess of
        None \<Rightarrow> Inl errNilSession
      | Some sid \<Rightarrow> if neg (ao_FOIRadius opts) then Inl errNegativeRadius
                   else Inr \<lparr>at_session = sid, at_entity = e, at_opts = opts, at_pc = SpReserve\<rparr>)"

definition cleanupAvatarOnDisconnect :: "int64 \<Rightarrow> 'f AvatarOptions \<Rightarrow> 'f avatarThread" where
  "cleanupAvatarOnDisconnect sid opts = \<lparr>at_session = sid, at_entity = 0, at_opts = opts, at_pc = CuFOI\<rparr>"

definition deleteCall :: "int64 \<Rightarrow> 'f AvatarOptions \<Rightarrow> 'f avatarThread" where
  "deleteCall i opts = \<lparr>at_session = 0, at_entity = 0, at_opts = opts, at_pc = DeClear i\<rparr>"

text \<open>\<^verbatim>\<open>RemoveFOI\<close> and \<^verbatim>\<open>AssignFOI\<close> of the server; without interest management they are not called.\<close>

definition removeFOI :: "int64 \<Rightarrow> ('e, 'f) avatarWorld \<Rightarrow> ('e, 'f) avatarWorld" where
  "removeFOI sid w = w\<lparr>aw_interest := map_option (im_RemoveFOI sid) (aw_interest w)\<rparr>"

definition threadStep ::
  "('f \<Rightarrow> bool) \<Rightarrow> 'e srvEnv \<Rightarrow> 'f avatarThread \<Rightarrow> ('e, 'f) avatarWorld \<Rightarrow> avatarPC \<times> ('e, 'f) avatarWorld" where
  "threadStep pos env t w =
     (let sid = at_session t; s = aw_srv w
      in case at_pc t of
           SpReserve \<Rightarrow>
             (case reserveLook sid s of
                (Reserved, s) \<Rightarrow> (SpCreate, w\<lparr>aw_srv := s\<rparr>)
              | (SpawnInProgress, s) \<Rightarrow> (Done (Some (errSpawnInProgress sid)), w\<lparr>aw_srv := s\<rparr>)
              | (Occupied existingID, s) \<Rightarrow> (SpOccupied existingID, w\<lparr>aw_srv := s\<rparr>))
         | SpOccupied existingID \<Rightarrow>
             (if sv_Get s existingID \<noteq> None then Done (Some (errHasAvatar sid existingID)) else SpStale existingID, w)
         | SpStale existingID \<Rightarrow> (SpReserve, aw_update (clearStale sid existingID) w)
         | SpCreate \<Rightarrow>
             (case CreateEntity env (at_entity t) [sid] s of
                (Some err, _, s) \<Rightarrow> (SpRelease (errCreate err), w\<lparr>aw_srv := s\<rparr>)
              | (None, _, s) \<Rightarrow> (SpFOI (ei_EntityID (en_ifc env) (sv_heap s (at_entity t))), w\<lparr>aw_srv := s\<rparr>))
         | SpFOI entityID \<Rightarrow>
             (if \<not> pos (ao_FOIRadius (at_opts t)) then (SpCommit entityID False, w)
              else case aw_interest w of
                     None \<Rightarrow> (SpDelete entityID errNeedsInterest, w)
                   | Some m \<Rightarrow>
                       (SpCommit entityID True,
                        w\<lparr>aw_interest := Some (im_AssignFOI sid entityID (ao_FOIRadius (at_opts t)) (ao_FOIMargin (at_opts t)) m)\<rparr>))
         | SpCommit entityID foiAssigned \<Rightarrow>
             (case commitAvatar sid entityID s of
                (None, s) \<Rightarrow> (Done None, w\<lparr>aw_srv := s\<rparr>)
              | (Some err, s) \<Rightarrow> (if foiAssigned then SpUndoFOI entityID err else SpDelete entityID err, w\<lparr>aw_srv := s\<rparr>))
         | SpUndoFOI entityID err \<Rightarrow> (SpDelete entityID err, removeFOI sid w)
         | SpDelete entityID err \<Rightarrow> (SpRelease err, aw_update (deleteFromRegistry env entityID) w)
         | SpRelease err \<Rightarrow> (Done (Some err), aw_update (releaseAvatarReservation sid) w)
         | CuFOI \<Rightarrow> (CuTake, removeFOI sid w)
         | CuTake \<Rightarrow>
             (case takeAvatarBySession sid s of
                (None, s) \<Rightarrow> (Done None, w\<lparr>aw_srv := s\<rparr>)
              | (Some entityID, s) \<Rightarrow> (CuDelete entityID, w\<lparr>aw_srv := s\<rparr>))
         | CuDelete entityID \<Rightarrow> (Done None, aw_update (deleteFromRegistry env entityID) w)
         | DeClear i \<Rightarrow> (DeDelete i, aw_update (clearAvatarByEntity i) w)
         | DeDelete i \<Rightarrow> (Done None, aw_update (deleteFromRegistry env i) w)
         | Done r \<Rightarrow> (Done r, w))"

text \<open>
  The interleaving.  Any other operation of the server may run in between; it leaves the two
  indexes alone.  The identifier given to an avatar is not the reserved one: those of the server's
  counter are positive.
\<close>

inductive avatarStep ::
  "('f \<Rightarrow> bool) \<Rightarrow> ('f \<Rightarrow> bool) \<Rightarrow> 'e srvEnv \<Rightarrow> ('e, 'f) avatarWorld \<times> 'f avatarThread list
     \<Rightarrow> ('e, 'f) avatarWorld \<times> 'f avatarThread list \<Rightarrow> bool" for neg pos env where
  spawn: "spawnCall neg (Some sid) e opts = Inr t \<Longrightarrow> avatarStep neg pos env (w, ts) (w, ts @ [t])"
| disconnect: "avatarStep neg pos env (w, ts) (w, ts @ [cleanupAvatarOnDisconnect sid opts])"
| delete: "avatarStep neg pos env (w, ts) (w, ts @ [deleteCall i opts])"
| advance: "k < length ts \<Longrightarrow> threadStep pos env (ts ! k) w = (pc, w') \<Longrightarrow> pc \<noteq> SpFOI avatarSpawnPending
    \<Longrightarrow> avatarStep neg pos env (w, ts) (w', ts[k := (ts ! k)\<lparr>at_pc := pc\<rparr>])"
| other: "sv_sessionAvatar (aw_srv w') = sv_sessionAvatar (aw_srv w) \<Longrightarrow> sv_avatarSession (aw_srv w') = sv_avatarSession (aw_srv w)
    \<Longrightarrow> avatarStep neg pos env (w, ts) (w', ts)"

inductive avatarReachable ::
  "('f \<Rightarrow> bool) \<Rightarrow> ('f \<Rightarrow> bool) \<Rightarrow> 'e srvEnv \<Rightarrow> ('e, 'f) avatarWorld \<Rightarrow> ('e, 'f) avatarWorld \<times> 'f avatarThread list \<Rightarrow> bool"
  for neg pos env w0 where
  start: "avatarReachable neg pos env w0 (w0, [])"
| step: "avatarReachable neg pos env w0 x \<Longrightarrow> avatarStep neg pos env x y \<Longrightarrow> avatarReachable neg pos env w0 y"

section \<open>The indexes\<close>

text \<open>The parts of a spawn between its reservation and its end.\<close>

fun holdsSlot :: "avatarPC \<Rightarrow> bool" where
  "holdsSlot SpCreate = True"
| "holdsSlot (SpFOI i) = True"
| "holdsSlot (SpCommit i b) = True"
| "holdsSlot (SpUndoFOI i e) = True"
| "holdsSlot (SpDelete i e) = True"
| "holdsSlot (SpRelease e) = True"
| "holdsSlot _ = False"

text \<open>A thread never carries the reserved identifier, nor the error of a lost reservation.\<close>

fun pcOK :: "avatarPC \<Rightarrow> bool" where
  "pcOK (SpOccupied i) = (i \<noteq> avatarSpawnPending)"
| "pcOK (SpStale i) = (i \<noteq> avatarSpawnPending)"
| "pcOK (SpFOI i) = (i \<noteq> avatarSpawnPending)"
| "pcOK (SpCommit i b) = (i \<noteq> avatarSpawnPending)"
| "pcOK (SpUndoFOI i e) = (\<forall>j. e \<noteq> errReservationLost j)"
| "pcOK (SpDelete i e) = (\<forall>j. e \<noteq> errReservationLost j)"
| "pcOK (SpRelease e) = (\<forall>j. e \<noteq> errReservationLost j)"
| "pcOK (Done r) = (\<forall>j. r \<noteq> Some (errReservationLost j))"
| "pcOK _ = True"

definition slotHolders :: "int64 \<Rightarrow> 'f avatarThread list \<Rightarrow> nat" where
  "slotHolders sid ts = length (filter (\<lambda>t. at_session t = sid \<and> holdsSlot (at_pc t)) ts)"

definition indexInverse :: "'e Server \<Rightarrow> bool" where
  "indexInverse s \<longleftrightarrow>
     (\<forall>e sid. map_of (sv_avatarSession s) e = Some sid \<longleftrightarrow>
        map_of (sv_sessionAvatar s) sid = Some e \<and> e \<noteq> avatarSpawnPending)"

definition avatarInv :: "('e, 'f) avatarWorld \<times> 'f avatarThread list \<Rightarrow> bool" where
  "avatarInv x \<longleftrightarrow>
     indexInverse (aw_srv (fst x)) \<and> (\<forall>t \<in> set (snd x). pcOK (at_pc t))
     \<and> (\<forall>sid. slotHolders sid (snd x)
          = (if map_of (sv_sessionAvatar (aw_srv (fst x))) sid = Some avatarSpawnPending then 1 else 0))"

section \<open>Every part keeps the indexes inverse\<close>

definition slotPending :: "'e Server \<Rightarrow> int64 \<Rightarrow> bool" where
  "slotPending s sid \<longleftrightarrow> map_of (sv_sessionAvatar s) sid = Some avatarSpawnPending"

definition sameIndexes :: "'e Server \<Rightarrow> 'e Server \<Rightarrow> bool" where
  "sameIndexes s s' \<longleftrightarrow> sv_sessionAvatar s' = sv_sessionAvatar s \<and> sv_avatarSession s' = sv_avatarSession s"

lemma sameIndexes_simps [simp]:
  "sameIndexes s s" "sameIndexes s (deleteFromRegistry env i s)" "sameIndexes (aw_srv w) (aw_srv (removeFOI sid w))"
  by (simp_all add: sameIndexes_def deleteFromRegistry_def removeFOI_def)

lemma CreateEntity_indexes: "CreateEntity env e own s = (err, l, s') \<Longrightarrow> sameIndexes s s'"
  by (auto simp: CreateEntity_def sameIndexes_def nextID_def Let_def split: if_splits option.splits prod.splits)

text \<open>What one part does to the indexes, from the slot it works on.\<close>

definition slotStep :: "int64 \<Rightarrow> bool \<Rightarrow> bool \<Rightarrow> 'e Server \<Rightarrow> 'e Server \<Rightarrow> bool" where
  "slotStep sid h h' s s' \<longleftrightarrow>
     indexInverse s' \<and> (\<forall>j. slotPending s' j \<longleftrightarrow> (if j = sid \<and> h \<noteq> h' then h' else slotPending s j)) \<and> (\<not> h \<and> h' \<longrightarrow> \<not> slotPending s sid)"

lemma slotStep_same: "indexInverse s \<Longrightarrow> sameIndexes s s' \<Longrightarrow> slotStep sid h h s s'"
  by (simp add: slotStep_def sameIndexes_def indexInverse_def slotPending_def)

lemma slotStep_reserve:
  "indexInverse s \<Longrightarrow> reserveLook sid s = (Reserved, s') \<Longrightarrow> slotStep sid False True s s'"
  by (auto simp: slotStep_def reserveLook_def indexInverse_def slotPending_def split: option.splits if_splits)

lemma slotStep_stale:
  assumes I: "indexInverse s" and i: "i \<noteq> avatarSpawnPending"
  shows "slotStep sid False False s (clearStale sid i s)"
  using I i unfolding slotStep_def clearStale_def indexInverse_def slotPending_def by auto (metis option.inject)

lemma slotStep_release:
  "indexInverse s \<Longrightarrow> slotPending s sid \<Longrightarrow> slotStep sid True False s (releaseAvatarReservation sid s)"
  by (auto simp: slotStep_def releaseAvatarReservation_def indexInverse_def slotPending_def)

lemma slotStep_commit:
  assumes I: "indexInverse s" and p: "slotPending s sid" and i: "i \<noteq> avatarSpawnPending" and c: "commitAvatar sid i s = (err, s')"
  shows "(case err of None \<Rightarrow> slotStep sid True False s s' | Some e \<Rightarrow> s' = s \<and> (\<forall>j. e \<noteq> errReservationLost j))"
proof (cases "map_of (sv_avatarSession s) i")
  case None
  have "\<nexists>j. map_of (sv_sessionAvatar s) j = Some i" using I i None unfolding indexInverse_def by (metis option.distinct(1))
  then show ?thesis using I p i c None
    by (auto simp: commitAvatar_def slotPending_def slotStep_def indexInverse_def split: if_splits)
next
  case (Some other)
  then have "map_of (sv_sessionAvatar s) other = Some i" using I by (simp add: indexInverse_def)
  then have "other \<noteq> sid" using p i by (auto simp: slotPending_def)
  then show ?thesis using p c Some by (auto simp: commitAvatar_def slotPending_def)
qed

lemma slotStep_take:
  "indexInverse s \<Longrightarrow> takeAvatarBySession sid s = (r, s') \<Longrightarrow> slotStep j h h s s'"
  unfolding takeAvatarBySession_def slotStep_def indexInverse_def slotPending_def
  by (auto split: option.splits if_splits) (metis option.inject)

lemma slotStep_clear: "indexInverse s \<Longrightarrow> slotStep j h h s (clearAvatarByEntity i s)"
  unfolding clearAvatarByEntity_def slotStep_def indexInverse_def slotPending_def Let_def
  by (auto split: option.splits) (metis option.inject)

lemma threadStep_slot:
  assumes I: "indexInverse (aw_srv w)" and ok: "pcOK (at_pc t)" and p: "holdsSlot (at_pc t) \<Longrightarrow> slotPending (aw_srv w) (at_session t)"
    and r: "threadStep pos env t w = (pc, w')" and n: "pc \<noteq> SpFOI avatarSpawnPending"
  shows "slotStep (at_session t) (holdsSlot (at_pc t)) (holdsSlot pc) (aw_srv w) (aw_srv w') \<and> pcOK pc"
proof (cases "at_pc t")
  case SpReserve
  obtain res s' where l: "reserveLook (at_session t) (aw_srv w) = (res, s')" by fastforce
  show ?thesis
  proof (cases res)
    case Reserved
    then show ?thesis using r SpReserve l slotStep_reserve [OF I] by (auto simp: threadStep_def)
  qed (use r SpReserve l slotStep_same [OF I] in
      \<open>auto simp: threadStep_def reserveLook_def sameIndexes_def split: option.splits if_splits\<close>)
next
  case (SpStale i)
  then show ?thesis using r ok slotStep_stale [OF I] by (auto simp: threadStep_def aw_update_def Let_def)
next
  case SpCreate
  obtain err l s' where c: "CreateEntity env (at_entity t) [at_session t] (aw_srv w) = (err, l, s')" by (metis prod.exhaust)
  then show ?thesis using r SpCreate n slotStep_same [OF I CreateEntity_indexes [OF c]]
    by (auto simp: threadStep_def Let_def split: option.splits)
next
  case (SpCommit i b)
  obtain err s' where c: "commitAvatar (at_session t) i (aw_srv w) = (err, s')" by fastforce
  show ?thesis using r SpCommit ok p slotStep_commit [OF I _ _ c] c slotStep_same [OF I]
    by (auto simp: threadStep_def Let_def split: option.splits)
next
  case (SpRelease e)
  then show ?thesis using r p ok slotStep_release [OF I] by (auto simp: threadStep_def aw_update_def Let_def)
next
  case CuTake
  obtain e s' where c: "takeAvatarBySession (at_session t) (aw_srv w) = (e, s')" by fastforce
  show ?thesis using r CuTake c slotStep_take [OF I c] by (auto simp: threadStep_def Let_def split: option.splits)
next
  case (DeClear i)
  then show ?thesis using r slotStep_clear [OF I] by (auto simp: threadStep_def aw_update_def Let_def)
qed (use r ok slotStep_same [OF I] in
    \<open>auto simp: threadStep_def aw_update_def Let_def sameIndexes_def deleteFromRegistry_def removeFOI_def split: option.splits if_splits\<close>)

lemma filter_update:
  "k < length xs \<Longrightarrow> length (filter P (xs[k := y])) + (if P (xs ! k) then 1 else 0) = length (filter P xs) + (if P y then 1 else 0)"
proof (induction xs arbitrary: k)
  case (Cons x xs)
  then show ?case by (cases k) auto
qed simp

lemma slotHolders_advance:
  "k < length ts \<Longrightarrow> slotHolders sid (ts[k := (ts ! k)\<lparr>at_pc := pc\<rparr>])
       + (if at_session (ts ! k) = sid \<and> holdsSlot (at_pc (ts ! k)) then 1 else 0)
     = slotHolders sid ts + (if at_session (ts ! k) = sid \<and> holdsSlot pc then 1 else 0)"
  unfolding slotHolders_def
  using filter_update [of k ts "\<lambda>t. at_session t = sid \<and> holdsSlot (at_pc t)" "(ts ! k)\<lparr>at_pc := pc\<rparr>"] by simp

lemma slotHolders_pos: "k < length ts \<Longrightarrow> holdsSlot (at_pc (ts ! k)) \<Longrightarrow> slotHolders (at_session (ts ! k)) ts > 0"
  unfolding slotHolders_def by (simp add: filter_empty_conv) (metis nth_mem)

lemma avatarInv_step:
  assumes "avatarStep neg pos env x y" "avatarInv x" shows "avatarInv y"
  using assms
proof (cases rule: avatarStep.cases)
  case (advance k ts w pc w')
  let ?t = "ts ! k"
  have I: "indexInverse (aw_srv w)" and ok: "\<forall>t \<in> set ts. pcOK (at_pc t)"
    and c: "\<And>sid. slotHolders sid ts = (if slotPending (aw_srv w) sid then 1 else 0)"
    using assms(2) advance(1) by (auto simp: avatarInv_def slotPending_def)
  have p: "holdsSlot (at_pc ?t) \<Longrightarrow> slotPending (aw_srv w) (at_session ?t)"
    using slotHolders_pos [OF advance(3)] c [of "at_session ?t"] by (auto split: if_splits)
  have S: "slotStep (at_session ?t) (holdsSlot (at_pc ?t)) (holdsSlot pc) (aw_srv w) (aw_srv w') \<and> pcOK pc"
    using threadStep_slot [OF I _ p advance(4,5)] ok advance(3) by simp
  have "slotHolders sid (ts[k := ?t\<lparr>at_pc := pc\<rparr>]) = (if slotPending (aw_srv w') sid then 1 else 0)" for sid
    using slotHolders_advance [OF advance(3), of sid pc] c [of sid] S p by (auto simp: slotStep_def split: if_splits)
  moreover have "\<forall>t \<in> set (ts[k := ?t\<lparr>at_pc := pc\<rparr>]). pcOK (at_pc t)"
    using ok S set_update_subset_insert [of ts k "?t\<lparr>at_pc := pc\<rparr>"] by auto
  ultimately show ?thesis using S advance(2) by (simp add: avatarInv_def slotStep_def slotPending_def)
qed (auto simp: avatarInv_def spawnCall_def cleanupAvatarOnDisconnect_def deleteCall_def slotHolders_def indexInverse_def
    split: option.splits if_splits)

text \<open>
  C26.  Whatever the interleaving of spawns, deletions, disconnects and other operations: the two
  indexes are inverse to each other, a reserved slot belongs to exactly one spawn in progress,
  and no spawn ever finds its reservation gone.
\<close>

theorem avatar_indexes_inverse:
  assumes "sv_sessionAvatar (aw_srv w0) = []" and "sv_avatarSession (aw_srv w0) = []"
    and "avatarReachable neg pos env w0 (w, ts)"
  shows "(\<forall>e sid. map_of (sv_avatarSession (aw_srv w)) e = Some sid \<longleftrightarrow>
            map_of (sv_sessionAvatar (aw_srv w)) sid = Some e \<and> e \<noteq> avatarSpawnPending)
    \<and> (\<forall>sid. slotHolders sid ts = (if map_of (sv_sessionAvatar (aw_srv w)) sid = Some avatarSpawnPending then 1 else 0))
    \<and> (\<forall>t \<in> set ts. \<forall>sid. at_pc t \<noteq> Done (Some (errReservationLost sid)))"
proof -
  have "avatarInv x" if "avatarReachable neg pos env w0 x" for x
    using that
  proof induction
    case start
    then show ?case using assms(1,2) by (simp add: avatarInv_def indexInverse_def slotHolders_def)
  next
    case (step x y)
    then show ?case using avatarInv_step by blast
  qed
  then have I: "avatarInv (w, ts)" using assms(3) by blast
  then have "\<forall>t \<in> set ts. \<forall>sid. at_pc t \<noteq> Done (Some (errReservationLost sid))"
    by (auto simp: avatarInv_def dest!: bspec)
  then show ?thesis using I by (simp add: avatarInv_def indexInverse_def)
qed

section \<open>A disconnect during a spawn\<close>

text \<open>Advancing the threads in a given order.\<close>

fun advanceAll ::
  "('f \<Rightarrow> bool) \<Rightarrow> 'e srvEnv \<Rightarrow> nat list \<Rightarrow> ('e, 'f) avatarWorld \<times> 'f avatarThread list
     \<Rightarrow> (('e, 'f) avatarWorld \<times> 'f avatarThread list) option" where
  "advanceAll pos env [] x = Some x"
| "advanceAll pos env (k # ks) (w, ts) =
     (if k < length ts
      then case threadStep pos env (ts ! k) w of
             (pc, w') \<Rightarrow> if pc = SpFOI avatarSpawnPending then None
                        else advanceAll pos env ks (w', ts[k := (ts ! k)\<lparr>at_pc := pc\<rparr>])
      else None)"

lemma advanceAll_reachable:
  "avatarReachable neg pos env w0 x \<Longrightarrow> advanceAll pos env ks x = Some y \<Longrightarrow> avatarReachable neg pos env w0 y"
proof (induction pos env ks x rule: advanceAll.induct)
  case (2 pos env k ks w ts)
  obtain pc w' where t: "threadStep pos env (ts ! k) w = (pc, w')" by fastforce
  then have k: "k < length ts" "pc \<noteq> SpFOI avatarSpawnPending"
    and r: "advanceAll pos env ks (w', ts[k := (ts ! k)\<lparr>at_pc := pc\<rparr>]) = Some y"
    using 2(3) by (auto split: if_splits)
  show ?case
    by (rule 2(1) [OF k(1) t [symmetric] k(2) avatarReachable.step [OF 2(2) avatarStep.advance [OF k(1) t k(2)]] r])
qed simp

definition leakWorld :: "(demoEntity, int) avatarWorld" where
  "leakWorld = \<lparr>aw_srv = demoServer, aw_interest = Some (NewInterestManager intOps 1)\<rparr>"

definition leakOptions :: "int AvatarOptions" where
  "leakOptions = \<lparr>ao_FOIRadius = 2, ao_FOIMargin = 1\<rparr>"

definition leakThreads :: "int avatarThread list" where
  "leakThreads = [\<lparr>at_session = 7, at_entity = 9, at_opts = leakOptions, at_pc = SpReserve\<rparr>, cleanupAvatarOnDisconnect 7 leakOptions]"

lemma leak_run:
  "(case advanceAll (\<lambda>x. 0 < x) demoEnv [0, 0, 1, 1, 0, 0] (leakWorld, leakThreads) of
      Some (w, [t, u]) \<Rightarrow> t = (leakThreads ! 0)\<lparr>at_pc := Done None\<rparr>
        \<and> u = (cleanupAvatarOnDisconnect 7 leakOptions)\<lparr>at_pc := Done None\<rparr>
        \<and> map_option de_id (AvatarEntity (aw_srv w) 7) = Some 9 \<and> map_option (\<lambda>m. im_HasFOI m 7) (aw_interest w) = Some True
    | _ \<Rightarrow> False)"
  by code_simp

lemma leak_start: "avatarReachable (\<lambda>x. x < 0) (\<lambda>x. 0 < x) demoEnv leakWorld (leakWorld, leakThreads)"
proof -
  have c: "spawnCall (\<lambda>x. x < 0) (Some 7) 9 leakOptions = Inr (leakThreads ! 0)"
    by (simp add: spawnCall_def leakOptions_def leakThreads_def)
  show ?thesis
    using avatarReachable.step [OF avatarReachable.step [OF avatarReachable.start avatarStep.spawn [OF c]]
        avatarStep.disconnect [where sid = 7 and opts = leakOptions]]
    by (simp add: leakThreads_def)
qed

lemma reserved_run:
  "(case advanceAll (\<lambda>x. 0 < x) demoEnv [0, 0, 1, 1] (leakWorld, leakThreads) of
      Some (w, ts) \<Rightarrow> map_of (sv_sessionAvatar (aw_srv w)) 7 = Some avatarSpawnPending | None \<Rightarrow> False)"
  by code_simp

text \<open>
  A disconnect that is cleaned up while the spawn holds its reservation: the cleanup finds no
  avatar, the spawn then assigns the field of interest and commits without an error, and when both
  have ended the session that is gone still has a live avatar and a field of interest.
\<close>

theorem disconnect_leaks_avatar:
  "\<exists>w t u. avatarReachable (\<lambda>x. x < 0) (\<lambda>x. 0 < x) demoEnv leakWorld (w, [t, u])
     \<and> t = (leakThreads ! 0)\<lparr>at_pc := Done None\<rparr> \<and> u = (cleanupAvatarOnDisconnect 7 leakOptions)\<lparr>at_pc := Done None\<rparr>
     \<and> AvatarEntity (aw_srv w) 7 \<noteq> None \<and> map_option (\<lambda>m. im_HasFOI m 7) (aw_interest w) = Some True"
proof -
  obtain w t u where r: "advanceAll (\<lambda>x. 0 < x) demoEnv [0, 0, 1, 1, 0, 0] (leakWorld, leakThreads) = Some (w, [t, u])"
    and e: "t = (leakThreads ! 0)\<lparr>at_pc := Done None\<rparr>" "u = (cleanupAvatarOnDisconnect 7 leakOptions)\<lparr>at_pc := Done None\<rparr>"
      "AvatarEntity (aw_srv w) 7 \<noteq> None" "map_option (\<lambda>m. im_HasFOI m 7) (aw_interest w) = Some True"
    using leak_run by (auto split: option.splits prod.splits list.splits)
  show ?thesis using advanceAll_reachable [OF leak_start r] e by blast
qed

theorem avatar_indexes_inverse_witness:
  "\<exists>w ts. avatarReachable (\<lambda>x. x < 0) (\<lambda>x. 0 < x) demoEnv leakWorld (w, ts)
     \<and> map_of (sv_sessionAvatar (aw_srv w)) 7 = Some avatarSpawnPending \<and> slotHolders 7 ts = 1"
proof -
  obtain w ts where r: "advanceAll (\<lambda>x. 0 < x) demoEnv [0, 0, 1, 1] (leakWorld, leakThreads) = Some (w, ts)"
    and p: "map_of (sv_sessionAvatar (aw_srv w)) 7 = Some avatarSpawnPending"
    using reserved_run by (auto split: option.splits prod.splits)
  note R = advanceAll_reachable [OF leak_start r]
  have "sv_sessionAvatar (aw_srv leakWorld) = []" "sv_avatarSession (aw_srv leakWorld) = []"
    by (simp_all add: leakWorld_def demoServer_def)
  from avatar_indexes_inverse [OF this R] have "slotHolders 7 ts = 1" using p by simp
  then show ?thesis using R p by blast
qed

end
