(* ===== verification/Session_Events.thy ===== *)
theory Session_Events
  imports Avatar Broadcast
begin

text \<open>
  The session events of the server (\<^verbatim>\<open>golem/loop.go\<close>): the bounded queue the connection
  goroutines fill and the tick goroutine drains, the user's callbacks, and the cleanup of a
  session that disconnected.  A session is its identifier; a callback may call any operation and
  is a function on the server's state.
\<close>

section \<open>The queue\<close>

datatype pendingMsg =
    msgConnect int64
  | msgMessage int64 bytes
  | msgDatagram int64 bytes
  | msgReliableUnordered int64 bytes
  | msgReliableOrdered int64 bytes
  | msgEventualFeedback int64 "EventualStateDelivery list"
  | msgDisconnect int64

definition msgQueueCap :: nat where "msgQueueCap = 4096"

definition enqueue :: "pendingMsg \<Rightarrow> pendingMsg list \<Rightarrow> pendingMsg list" where
  "enqueue m q = (if length q < msgQueueCap then q @ [m] else q)"

text \<open>The hooks the listener calls on the connection goroutine; the payload is copied.\<close>

definition enqueueConnect :: "int64 \<Rightarrow> pendingMsg list \<Rightarrow> pendingMsg list" where
  "enqueueConnect sess = enqueue (msgConnect sess)"

definition enqueueMessage :: "int64 \<Rightarrow> bytes \<Rightarrow> pendingMsg list \<Rightarrow> pendingMsg list" where
  "enqueueMessage sess data = enqueue (msgMessage sess data)"

definition enqueueDatagram :: "int64 \<Rightarrow> bytes \<Rightarrow> pendingMsg list \<Rightarrow> pendingMsg list" where
  "enqueueDatagram sess data = enqueue (msgDatagram sess data)"

definition enqueueReliableUnordered :: "int64 \<Rightarrow> bytes \<Rightarrow> pendingMsg list \<Rightarrow> pendingMsg list" where
  "enqueueReliableUnordered sess data = enqueue (msgReliableUnordered sess data)"

definition enqueueReliableOrdered :: "int64 \<Rightarrow> bytes \<Rightarrow> pendingMsg list \<Rightarrow> pendingMsg list" where
  "enqueueReliableOrdered sess data = enqueue (msgReliableOrdered sess data)"

definition enqueueEventualStateFeedback :: "int64 \<Rightarrow> EventualStateDelivery list \<Rightarrow> pendingMsg list \<Rightarrow> pendingMsg list" where
  "enqueueEventualStateFeedback sess feedback = enqueue (msgEventualFeedback sess feedback)"

definition enqueueDisconnect :: "int64 \<Rightarrow> pendingMsg list \<Rightarrow> pendingMsg list" where
  "enqueueDisconnect sess = enqueue (msgDisconnect sess)"

section \<open>Draining\<close>

record ('e, 'f) sessionHooks =
  hk_onConnect :: "(int64 \<Rightarrow> ('e, 'f) avatarWorld \<Rightarrow> ('e, 'f) avatarWorld) option"
  hk_onMessage :: "(int64 \<Rightarrow> bytes \<Rightarrow> ('e, 'f) avatarWorld \<Rightarrow> ('e, 'f) avatarWorld) option"
  hk_onDatagram :: "(int64 \<Rightarrow> bytes \<Rightarrow> ('e, 'f) avatarWorld \<Rightarrow> ('e, 'f) avatarWorld) option"
  hk_onReliableUnordered :: "(int64 \<Rightarrow> bytes \<Rightarrow> ('e, 'f) avatarWorld \<Rightarrow> ('e, 'f) avatarWorld) option"
  hk_onReliableOrdered :: "(int64 \<Rightarrow> bytes \<Rightarrow> ('e, 'f) avatarWorld \<Rightarrow> ('e, 'f) avatarWorld) option"
  hk_onDisconnect :: "(int64 \<Rightarrow> ('e, 'f) avatarWorld \<Rightarrow> ('e, 'f) avatarWorld) option"

definition runHook :: "('a \<Rightarrow> 'w \<Rightarrow> 'w) option \<Rightarrow> 'a \<Rightarrow> 'w \<Rightarrow> 'w" where
  "runHook h x w = (case h of None \<Rightarrow> w | Some g \<Rightarrow> g x w)"

definition runDataHook :: "('a \<Rightarrow> bytes \<Rightarrow> 'w \<Rightarrow> 'w) option \<Rightarrow> 'a \<Rightarrow> bytes \<Rightarrow> 'w \<Rightarrow> 'w" where
  "runDataHook h x data w = (case h of None \<Rightarrow> w | Some g \<Rightarrow> g x data w)"

text \<open>The avatar cleanup, run through on its own.\<close>

definition cleanupAvatar :: "'e srvEnv \<Rightarrow> int64 \<Rightarrow> ('e, 'f) avatarWorld \<Rightarrow> ('e, 'f) avatarWorld" where
  "cleanupAvatar env sid w =
     (let w = removeFOI sid w
      in case takeAvatarBySession sid (aw_srv w) of
           (None, s) \<Rightarrow> w\<lparr>aw_srv := s\<rparr>
         | (Some entityID, s) \<Rightarrow> aw_update (deleteFromRegistry env entityID) (w\<lparr>aw_srv := s\<rparr>))"

fun handleMsg :: "'e srvEnv \<Rightarrow> ('e, 'f) sessionHooks \<Rightarrow> pendingMsg \<Rightarrow> ('e, 'f) avatarWorld \<Rightarrow> ('e, 'f) avatarWorld" where
  "handleMsg env hk (msgConnect sid) w = runHook (hk_onConnect hk) sid w"
| "handleMsg env hk (msgMessage sid data) w = runDataHook (hk_onMessage hk) sid data w"
| "handleMsg env hk (msgDatagram sid data) w = runDataHook (hk_onDatagram hk) sid data w"
| "handleMsg env hk (msgReliableUnordered sid data) w = runDataHook (hk_onReliableUnordered hk) sid data w"
| "handleMsg env hk (msgReliableOrdered sid data) w = runDataHook (hk_onReliableOrdered hk) sid data w"
| "handleMsg env hk (msgEventualFeedback sid feedback) w = aw_update (applyEventualStateFeedback env sid feedback) w"
| "handleMsg env hk (msgDisconnect sid) w =
     (let w = aw_update (\<lambda>s. s\<lparr>sv_eventualTrackers := AList.delete sid (sv_eventualTrackers s)\<rparr>) w;
          w = runHook (hk_onDisconnect hk) sid w;
          w = cleanupAvatar env sid w
      in aw_update (cleanupVisibilityOnDisconnect sid) w)"

text \<open>
  The loop ends when it finds the queue empty; \<open>q\<close> is everything it received until then, in
  order, what arrived in the meantime included.
\<close>

definition drainMessages ::
  "'e srvEnv \<Rightarrow> ('e, 'f) sessionHooks \<Rightarrow> pendingMsg list \<Rightarrow> ('e, 'f) avatarWorld \<Rightarrow> ('e, 'f) avatarWorld" where
  "drainMessages env hk q w = fold (handleMsg env hk) q w"

section \<open>What is left of a session\<close>

text \<open>
  What the cleanup removes: the known set, the group memberships, the field of interest with its
  known set and difference buffers, the avatar and both avatar indexes (a reservation of a spawn in progress may stay).
\<close>

definition sessionGone :: "int64 \<Rightarrow> ('e, 'f) avatarWorld \<Rightarrow> bool" where
  "sessionGone sid w \<longleftrightarrow>
     map_of (sv_broadcastKnown (aw_srv w)) sid = None
     \<and> (\<forall>i. Allows (sv_visibility (aw_srv w)) sid i \<longleftrightarrow> EntityGroup (sv_visibility (aw_srv w)) i = '''')
     \<and> (\<forall>m. aw_interest w = Some m \<longrightarrow> \<not> im_HasFOI m sid \<and> im_Known m sid = None
          \<and> map_of (im_diffs m) sid = None \<and> map_of (im_diffScratch m) sid = None)
     \<and> map_of (sv_sessionAvatar (aw_srv w)) sid \<in> {None, Some avatarSpawnPending}
     \<and> AvatarEntity (aw_srv w) sid = None \<and> (\<forall>e. map_of (sv_avatarSession (aw_srv w)) e \<noteq> Some sid)"

text \<open>
  What the cleanup keeps of the session: the entities it owns apart from its avatar, with the
  session as their owner, and the pending ownership refreshes.
\<close>

definition sessionResidue :: "int64 \<Rightarrow> ('e, 'f) avatarWorld \<Rightarrow> ('e, 'f) avatarWorld \<Rightarrow> bool" where
  "sessionResidue sid w w' \<longleftrightarrow>
     (\<forall>i. i = avatarSpawnPending \<or> map_of (sv_sessionAvatar (aw_srv w)) sid \<noteq> Some i \<longrightarrow>
        sv_Get (aw_srv w') i = sv_Get (aw_srv w) i
        \<and> reg_Owner (sv_reg (aw_srv w')) i = reg_Owner (sv_reg (aw_srv w)) i)
     \<and> sv_ownershipRefresh (aw_srv w') = sv_ownershipRefresh (aw_srv w)"

text \<open>Another session is as before.\<close>

definition sessionKept :: "int64 \<Rightarrow> ('e, 'f) avatarWorld \<Rightarrow> ('e, 'f) avatarWorld \<Rightarrow> bool" where
  "sessionKept sid w w' \<longleftrightarrow>
     map_of (sv_broadcastKnown (aw_srv w')) sid = map_of (sv_broadcastKnown (aw_srv w)) sid
     \<and> (\<forall>i. Allows (sv_visibility (aw_srv w')) sid i \<longleftrightarrow> Allows (sv_visibility (aw_srv w)) sid i)
     \<and> map_option (\<lambda>m. (map_of (im_fois m) sid, im_Known m sid)) (aw_interest w')
       = map_option (\<lambda>m. (map_of (im_fois m) sid, im_Known m sid)) (aw_interest w)
     \<and> map_of (sv_sessionAvatar (aw_srv w')) sid = map_of (sv_sessionAvatar (aw_srv w)) sid
     \<and> AvatarEntity (aw_srv w') sid = AvatarEntity (aw_srv w) sid"

lemma RemoveSession_Allows:
  assumes "vm_inv m"
  shows "Allows (RemoveSession m sid) j i \<longleftrightarrow> (if j = sid then EntityGroup m i = '''' else Allows m j i)"
    and "EntityGroup (RemoveSession m sid) = EntityGroup m"
proof -
  have r: "vm_inv (RemoveSession m sid)" "EntityGroup (RemoveSession m sid) = EntityGroup m"
    "groups_of (RemoveSession m sid) = (groups_of m)(sid := {})"
    using RemoveSession_ok [OF assms, of sid] by (simp_all add: vm_policy_def)
  then show "Allows (RemoveSession m sid) j i \<longleftrightarrow> (if j = sid then EntityGroup m i = '''' else Allows m j i)"
    by (simp add: Allows_groups)
  show "EntityGroup (RemoveSession m sid) = EntityGroup m" by (rule r(2))
qed

lemma im_RemoveFOI_session:
  "\<not> im_HasFOI (im_RemoveFOI sid m) sid" "im_Known (im_RemoveFOI sid m) sid = None"
  "map_of (im_diffs (im_RemoveFOI sid m)) sid = None" "map_of (im_diffScratch (im_RemoveFOI sid m)) sid = None"
  "j \<noteq> sid \<Longrightarrow> map_of (im_fois (im_RemoveFOI sid m)) j = map_of (im_fois m) j"
  "j \<noteq> sid \<Longrightarrow> im_Known (im_RemoveFOI sid m) j = im_Known m j"
  by (simp_all add: im_RemoveFOI_def im_HasFOI_def im_Known_def)

lemma deleteFromRegistry_fields [simp]:
  "sv_sessionAvatar (deleteFromRegistry env i s) = sv_sessionAvatar s"
  "sv_avatarSession (deleteFromRegistry env i s) = sv_avatarSession s"
  "sv_visibility (deleteFromRegistry env i s) = sv_visibility s"
  "sv_broadcastKnown (deleteFromRegistry env i s) = sv_broadcastKnown s"
  "sv_eventualTrackers (deleteFromRegistry env i s) = sv_eventualTrackers s"
  "sv_ownershipRefresh (deleteFromRegistry env i s) = sv_ownershipRefresh s"
  by (simp_all add: deleteFromRegistry_def)

lemma deleteFromRegistry_Get:
  "sv_Get (deleteFromRegistry env i s) j = (if j = i then None else sv_Get s j)"
  by (auto simp: deleteFromRegistry_def sv_Get_def reg_Get_def reg_DeleteEntity_def split: option.splits)

lemma deleteFromRegistry_Owner:
  "j \<noteq> i \<Longrightarrow> reg_Owner (sv_reg (deleteFromRegistry env i s)) j = reg_Owner (sv_reg s) j"
  by (auto simp: deleteFromRegistry_def reg_Owner_def reg_DeleteEntity_def split: option.splits)

lemma sv_Get_trackers [simp]: "sv_Get (s\<lparr>sv_eventualTrackers := a\<rparr>) i = sv_Get s i"
  by (simp add: sv_Get_def)

lemma sv_Get_avatars [simp]: "sv_Get (s\<lparr>sv_sessionAvatar := a, sv_avatarSession := b\<rparr>) i = sv_Get s i"
  by (simp add: sv_Get_def)

text \<open>The fields after the disconnect of \<open>sid\<close>, from those the callback leaves in \<open>w1\<close>.\<close>

definition disconnected :: "int64 \<Rightarrow> ('e, 'f) avatarWorld \<Rightarrow> ('e, 'f) avatarWorld \<Rightarrow> bool" where
  "disconnected sid w1 w' \<longleftrightarrow>
     sv_visibility (aw_srv w') = RemoveSession (sv_visibility (aw_srv w1)) sid
     \<and> sv_broadcastKnown (aw_srv w') = AList.delete sid (sv_broadcastKnown (aw_srv w1))
     \<and> aw_interest w' = map_option (im_RemoveFOI sid) (aw_interest w1)
     \<and> sv_eventualTrackers (aw_srv w') = sv_eventualTrackers (aw_srv w1)
     \<and> map_of (sv_sessionAvatar (aw_srv w'))
       = (\<lambda>j. if j = sid \<and> map_of (sv_sessionAvatar (aw_srv w1)) sid \<noteq> Some avatarSpawnPending then None
             else map_of (sv_sessionAvatar (aw_srv w1)) j)
     \<and> map_of (sv_avatarSession (aw_srv w'))
       = (\<lambda>e. if map_of (sv_avatarSession (aw_srv w1)) e = Some sid then None else map_of (sv_avatarSession (aw_srv w1)) e)
     \<and> sv_Get (aw_srv w')
       = (\<lambda>i. if map_of (sv_sessionAvatar (aw_srv w1)) sid = Some i \<and> i \<noteq> avatarSpawnPending then None else sv_Get (aw_srv w1) i)
     \<and> sv_ownershipRefresh (aw_srv w') = sv_ownershipRefresh (aw_srv w1)
     \<and> (\<forall>i. i = avatarSpawnPending \<or> map_of (sv_sessionAvatar (aw_srv w1)) sid \<noteq> Some i \<longrightarrow>
          reg_Owner (sv_reg (aw_srv w')) i = reg_Owner (sv_reg (aw_srv w1)) i)"

lemma handle_disconnect:
  assumes "indexInverse (aw_srv w1)"
    and "w1 = runHook (hk_onDisconnect hk) sid (aw_update (\<lambda>s. s\<lparr>sv_eventualTrackers := AList.delete sid (sv_eventualTrackers s)\<rparr>) w)"
  shows "disconnected sid w1 (handleMsg env hk (msgDisconnect sid) w)"
proof -
  obtain r s where t: "takeAvatarBySession sid (aw_srv w1) = (r, s)" by fastforce
  define g where "g = (case r of None \<Rightarrow> s | Some i \<Rightarrow> deleteFromRegistry env i s)"
  have w': "handleMsg env hk (msgDisconnect sid) w
      = \<lparr>aw_srv = cleanupVisibilityOnDisconnect sid g, aw_interest = map_option (im_RemoveFOI sid) (aw_interest w1)\<rparr>"
    using assms(2) t by (auto simp: cleanupAvatar_def removeFOI_def aw_update_def g_def Let_def split: option.splits)
  have f: "sv_visibility g = sv_visibility (aw_srv w1)" "sv_broadcastKnown g = sv_broadcastKnown (aw_srv w1)"
    "sv_eventualTrackers g = sv_eventualTrackers (aw_srv w1)"
    "sv_ownershipRefresh g = sv_ownershipRefresh (aw_srv w1)"
    using t by (auto simp: g_def takeAvatarBySession_def split: option.splits if_splits)
  have av: "map_of (sv_sessionAvatar g) j = (if j = sid \<and> map_of (sv_sessionAvatar (aw_srv w1)) sid \<noteq> Some avatarSpawnPending then None
      else map_of (sv_sessionAvatar (aw_srv w1)) j)" for j
    using t by (auto simp: g_def takeAvatarBySession_def split: option.splits if_splits)
  have as: "map_of (sv_avatarSession g) e
      = (if map_of (sv_avatarSession (aw_srv w1)) e = Some sid then None else map_of (sv_avatarSession (aw_srv w1)) e)" for e
    using t assms(1) by (auto simp: g_def takeAvatarBySession_def indexInverse_def split: option.splits if_splits)
  have get: "sv_Get g i = (if map_of (sv_sessionAvatar (aw_srv w1)) sid = Some i \<and> i \<noteq> avatarSpawnPending then None
      else sv_Get (aw_srv w1) i)" for i
    using t by (auto simp: g_def takeAvatarBySession_def deleteFromRegistry_Get split: option.splits if_splits)
  have own: "reg_Owner (sv_reg g) i = reg_Owner (sv_reg (aw_srv w1)) i"
    if "i = avatarSpawnPending \<or> map_of (sv_sessionAvatar (aw_srv w1)) sid \<noteq> Some i" for i
    using t that by (auto simp: g_def takeAvatarBySession_def deleteFromRegistry_Owner split: option.splits if_splits)
  have cl: "sv_sessionAvatar (cleanupVisibilityOnDisconnect sid g) = sv_sessionAvatar g"
    "sv_avatarSession (cleanupVisibilityOnDisconnect sid g) = sv_avatarSession g"
    "sv_eventualTrackers (cleanupVisibilityOnDisconnect sid g) = sv_eventualTrackers g"
    "sv_Get (cleanupVisibilityOnDisconnect sid g) = sv_Get g"
    "sv_ownershipRefresh (cleanupVisibilityOnDisconnect sid g) = sv_ownershipRefresh g"
    "sv_reg (cleanupVisibilityOnDisconnect sid g) = sv_reg g"
    "sv_visibility (cleanupVisibilityOnDisconnect sid g) = RemoveSession (sv_visibility (aw_srv w1)) sid"
    "sv_broadcastKnown (cleanupVisibilityOnDisconnect sid g) = AList.delete sid (sv_broadcastKnown (aw_srv w1))"
    by (simp_all add: cleanupVisibilityOnDisconnect_def Let_def sv_Get_def fun_eq_iff f)
  show ?thesis unfolding disconnected_def w' using av as get own by (simp add: cl f fun_eq_iff)
qed

lemma avatar_unique:
  "indexInverse s \<Longrightarrow> map_of (sv_sessionAvatar s) j = Some i \<Longrightarrow> map_of (sv_sessionAvatar s) k = Some i
     \<Longrightarrow> i \<noteq> avatarSpawnPending \<Longrightarrow> j = k"
  unfolding indexInverse_def by (metis option.inject)

lemma disconnected_kept:
  assumes "disconnected sid w1 w'" "indexInverse (aw_srv w1)" "vm_inv (sv_visibility (aw_srv w1))" "j \<noteq> sid"
  shows "sessionKept j w1 w'"
proof -
  have "i \<noteq> avatarSpawnPending \<Longrightarrow> map_of (sv_sessionAvatar (aw_srv w1)) j = Some i \<Longrightarrow> map_of (sv_sessionAvatar (aw_srv w1)) sid \<noteq> Some i" for i
    using avatar_unique [OF assms(2)] assms(4) by blast
  then show ?thesis
    using assms(1,4) unfolding sessionKept_def disconnected_def
    by (auto simp: RemoveSession_Allows [OF assms(3)] im_RemoveFOI_session AvatarEntity_def option.map_comp comp_def
        split: option.splits)
qed

lemma disconnected_inv:
  assumes "disconnected sid w1 w'" "indexInverse (aw_srv w1)" "vm_inv (sv_visibility (aw_srv w1))"
  shows "indexInverse (aw_srv w')" and "vm_inv (sv_visibility (aw_srv w'))"
proof -
  show "indexInverse (aw_srv w')"
    using assms(1,2) avatar_unique [OF assms(2)] unfolding disconnected_def indexInverse_def
    by (auto split: if_splits)
  show "vm_inv (sv_visibility (aw_srv w'))"
    using assms(1) RemoveSession_ok [OF assms(3), of sid] by (simp add: disconnected_def)
qed

lemma disconnected_residue: "disconnected sid w1 w' \<Longrightarrow> sessionResidue sid w1 w'"
  unfolding disconnected_def sessionResidue_def by (auto simp: option.map_comp comp_def)

text \<open>
  C27.  What the handling of a disconnect does to the state \<open>w1\<close> that the user's callback leaves.  It
  removes the known set, the group memberships, the field of interest with its buffers, the avatar
  and its indexes of the session (a reservation of a spawn in progress stays); the avatar is out of
  the registry; without a callback the session's tracker is gone too.  It keeps every other entity,
  with its owner even when that is the session, and the pending ownership refreshes; and every
  other session is as in \<open>w1\<close>.
\<close>

theorem disconnect_cleans_up:
  assumes "w1 = runHook (hk_onDisconnect hk) sid (aw_update (\<lambda>s. s\<lparr>sv_eventualTrackers := AList.delete sid (sv_eventualTrackers s)\<rparr>) w)"
    and "vm_inv (sv_visibility (aw_srv w1))" and "indexInverse (aw_srv w1)"
    and "handleMsg env hk (msgDisconnect sid) w = w'"
  shows "sessionGone sid w' \<and> sessionResidue sid w1 w' \<and> (\<forall>j. j \<noteq> sid \<longrightarrow> sessionKept j w1 w')
    \<and> (\<forall>i. map_of (sv_sessionAvatar (aw_srv w1)) sid = Some i \<and> i \<noteq> avatarSpawnPending \<longrightarrow> sv_Get (aw_srv w') i = None)
    \<and> (hk_onDisconnect hk = None \<longrightarrow> map_of (sv_eventualTrackers (aw_srv w')) sid = None)"
proof -
  have D: "disconnected sid w1 w'" unfolding assms(4) [symmetric] by (rule handle_disconnect [OF assms(3,1)])
  have "sessionGone sid w'"
    using D unfolding sessionGone_def disconnected_def
    by (auto simp: RemoveSession_Allows [OF assms(2)] im_RemoveFOI_session AvatarEntity_def split: option.splits)
  moreover have "hk_onDisconnect hk = None \<longrightarrow> map_of (sv_eventualTrackers (aw_srv w')) sid = None"
    using assms(1) D by (simp add: disconnected_def runHook_def aw_update_def)
  ultimately show ?thesis using disconnected_kept [OF D assms(3,2)] disconnected_residue [OF D] D by (simp add: disconnected_def)
qed

section \<open>A full queue\<close>

definition noHooks :: "('e, 'f) sessionHooks" where
  "noHooks = \<lparr>hk_onConnect = None, hk_onMessage = None, hk_onDatagram = None, hk_onReliableUnordered = None,
     hk_onReliableOrdered = None, hk_onDisconnect = None\<rparr>"

lemma sessionKept_refl: "sessionKept j w w"
  by (simp add: sessionKept_def)

lemma sessionKept_trans: "sessionKept j a b \<Longrightarrow> sessionKept j b c \<Longrightarrow> sessionKept j a c"
  by (simp add: sessionKept_def)

lemma handleMsg_kept:
  assumes "indexInverse (aw_srv w)" "vm_inv (sv_visibility (aw_srv w))" "m \<noteq> msgDisconnect j"
  shows "sessionKept j w (handleMsg env noHooks m w) \<and> indexInverse (aw_srv (handleMsg env noHooks m w))
    \<and> vm_inv (sv_visibility (aw_srv (handleMsg env noHooks m w)))"
proof (cases m)
  case (msgEventualFeedback sid fb)
  then show ?thesis using assms
    by (auto simp: aw_update_def sessionKept_def AvatarEntity_def applyEventualStateFeedback_def set_trk_def indexInverse_def sv_Get_def
        split: option.splits)
next
  case (msgDisconnect sid)
  let ?w = "aw_update (\<lambda>s. s\<lparr>sv_eventualTrackers := AList.delete sid (sv_eventualTrackers s)\<rparr>) w"
  have i: "indexInverse (aw_srv ?w)" "vm_inv (sv_visibility (aw_srv ?w))"
    using assms by (simp_all add: aw_update_def indexInverse_def)
  have D: "disconnected sid ?w (handleMsg env noHooks (msgDisconnect sid) w)"
    by (rule handle_disconnect [OF i(1)]) (simp add: noHooks_def runHook_def)
  have "sessionKept j w ?w" by (simp add: sessionKept_def aw_update_def AvatarEntity_def split: option.splits)
  moreover have "j \<noteq> sid" using assms(3) msgDisconnect by auto
  ultimately show ?thesis
    unfolding msgDisconnect using sessionKept_trans disconnected_kept [OF D i] disconnected_inv [OF D i] by blast
qed (use assms in \<open>simp_all add: noHooks_def runHook_def runDataHook_def sessionKept_refl\<close>)

text \<open>
  C28.  A disconnect that finds the queue full is dropped, and the server without callbacks never
  cleans up: after everything in the queue has been handled the session that is gone still has its
  known set, its groups, its field of interest and its avatar.
\<close>

theorem full_queue_keeps_session:
  assumes "length q = msgQueueCap" and "msgDisconnect sid \<notin> set q"
    and "indexInverse (aw_srv w)" and "vm_inv (sv_visibility (aw_srv w))"
  shows "enqueueDisconnect sid q = q \<and> sessionKept sid w (drainMessages env noHooks (enqueueDisconnect sid q) w)"
proof -
  have q: "enqueueDisconnect sid q = q" using assms(1) by (simp add: enqueueDisconnect_def enqueue_def)
  have "sessionKept sid w (fold (handleMsg env noHooks) ms w)" if "msgDisconnect sid \<notin> set ms" for ms
    using that assms(3,4)
  proof (induction ms arbitrary: w)
    case (Cons m ms)
    then have "m \<noteq> msgDisconnect sid" by auto
    note K = handleMsg_kept [OF Cons.prems(2,3) this, of env]
    then show ?case using Cons.IH [of "handleMsg env noHooks m w"] Cons.prems(1) sessionKept_trans by auto
  qed (simp add: sessionKept_refl)
  then show ?thesis using q assms(2) by (simp add: drainMessages_def)
qed

section \<open>Examples\<close>

text \<open>Session 7 has entity 2 as its avatar, a field of interest and a known set; session 1 the avatar 1.\<close>

definition eventWorld :: "(demoEntity, int) avatarWorld" where
  "eventWorld = \<lparr>aw_srv = demoServer\<lparr>sv_sessionAvatar := [(7, 2), (1, 1)], sv_avatarSession := [(2, 7), (1, 1)],
       sv_broadcastKnown := [(7, [(1, ())])]\<rparr>,
     aw_interest = Some (im_AssignFOI 7 2 2 1 (NewInterestManager intOps 1))\<rparr>"

lemma eventWorld_ok: "indexInverse (aw_srv eventWorld)" "vm_inv (sv_visibility (aw_srv eventWorld))"
  using vm_inv_new by (auto simp: indexInverse_def eventWorld_def demoServer_def avatarSpawnPending_def)

theorem disconnect_cleans_up_witness:
  "sessionGone 7 (handleMsg demoEnv noHooks (msgDisconnect 7) eventWorld)
     \<and> sv_Get (aw_srv eventWorld) 2 \<noteq> None
     \<and> sv_Get (aw_srv (handleMsg demoEnv noHooks (msgDisconnect 7) eventWorld)) 2 = None"
proof -
  let ?w = "aw_update (\<lambda>s. s\<lparr>sv_eventualTrackers := AList.delete 7 (sv_eventualTrackers s)\<rparr>) eventWorld"
  have i: "vm_inv (sv_visibility (aw_srv ?w))" "indexInverse (aw_srv ?w)"
    using eventWorld_ok by (simp_all add: aw_update_def indexInverse_def)
  have h: "?w = runHook (hk_onDisconnect noHooks) 7 ?w" by (simp add: noHooks_def runHook_def)
  note D = disconnect_cleans_up [OF h i refl, of demoEnv]
  have a: "map_of (sv_sessionAvatar (aw_srv ?w)) 7 = Some 2" "2 \<noteq> avatarSpawnPending"
    by (simp_all add: eventWorld_def aw_update_def avatarSpawnPending_def)
  have g: "sv_Get (aw_srv eventWorld) 2 \<noteq> None"
    by (simp add: eventWorld_def demoServer_def demoRegistry_def sv_Get_def reg_Get_def)
  show ?thesis using D a g by blast
qed

theorem full_queue_keeps_session_witness:
  "sessionKept 7 eventWorld (drainMessages demoEnv noHooks (enqueueDisconnect 7 (replicate msgQueueCap (msgMessage 1 []))) eventWorld)
     \<and> AvatarEntity (aw_srv eventWorld) 7 \<noteq> None"
proof -
  let ?q = "replicate msgQueueCap (msgMessage 1 [])"
  have "length ?q = msgQueueCap" "msgDisconnect 7 \<notin> set ?q" by simp_all
  moreover have "AvatarEntity (aw_srv eventWorld) 7 \<noteq> None"
    by (simp add: eventWorld_def demoServer_def demoRegistry_def sv_Get_def reg_Get_def AvatarEntity_def avatarSpawnPending_def)
  ultimately show ?thesis using full_queue_keeps_session [of ?q 7 eventWorld demoEnv, OF _ _ eventWorld_ok] by blast
qed

end
