(* ===== verification/Session_Core.thy ===== *)
theory Session_Core
  imports Datagram_Protocol Payload_Framing
begin

text \<open>
  A connected client (\<^verbatim>\<open>Session\<close> of \<^verbatim>\<open>golem/net/session.go\<close>): its bounded send queues, the
  choice of what to write next, the handling of what arrives, and closing.  The transport is an
  oracle: whether a write succeeds is a function of everything written so far.  Goroutines started
  with \<^verbatim>\<open>go s.closeNow()\<close> are counted until they run.  The reused packet buffer is left out.
\<close>

section \<open>State\<close>

definition maxDatagramDrainSendsPerWake :: nat where "maxDatagramDrainSendsPerWake = 512"
definition maxDatagramDrainDuration :: duration where "maxDatagramDrainDuration = 8 * millisecond"
definition datagramFreshReliableSendReserve :: int where "datagramFreshReliableSendReserve = 64"
definition datagramResendBudgetPerDrain :: int where "datagramResendBudgetPerDrain = 128"

datatype wireCall =
    WireBatch "bytes list" bool
  | WireDatagram bytes bool

datatype sessionError =
    errProtocol datagramError
  | errProtocolWrite string
  | errRawStateWrite string
  | errStreamWrite string
  | errControlFrame payloadError
  | sessUnreliableNotSupported
  | sessReliableDatagramsNotSupported

text \<open>Calls of the hooks the listener passes to \<^verbatim>\<open>readPump\<close>.\<close>

datatype sessionCall =
    CallMessage bytes
  | CallDatagram bytes
  | CallReliableUnordered bytes
  | CallReliableOrdered bytes
  | CallFeedback "EventualStateDelivery list"

text \<open>
  What a session finds outside: the transport's answers (\<open>None\<close> is success), the order of the
  in-flight map, and which hooks are set.
\<close>

record channelEnv =
  ce_WriteBatch :: "wireCall list \<Rightarrow> bytes list \<Rightarrow> string option"
  ce_WriteDatagram :: "wireCall list \<Rightarrow> bytes \<Rightarrow> string option"
  ce_ordFlight :: "(u16, pendingEventualStateDatagram) gomap \<Rightarrow> u16 list"
  ce_onMsg :: bool
  ce_onDatagram :: bool
  ce_onReliableUnordered :: bool
  ce_onReliableOrdered :: bool
  ce_onEventualStateFeedback :: bool

record Session =
  cs_ID :: int64
  cs_Transport :: Transport
  cs_actualTransport :: Transport
  cs_datagrams :: bool
  cs_protocol :: "datagramProtocolState option"
  cs_streamSend :: "bytes list list"
  cs_unreliableSend :: "bytes list"
  cs_rawStateSend :: "bytes list"
  cs_eventualSend :: "eventualStateDatagram list"
  cs_wake :: bool
  cs_closeState :: "string option"
  cs_closers :: nat
  cs_closeOnce :: bool
  cs_abortOnce :: bool
  cs_wireDatagramOK :: u64
  cs_streamBatchOK :: u64
  cs_wire :: "wireCall list"
  cs_closes :: "string list"

definition newSession :: "int64 \<Rightarrow> bool \<Rightarrow> Session" where
  "newSession i datagrams =
     (let t = (if datagrams then TransportWebTransport else TransportWebSocket)
      in \<lparr>cs_ID = i, cs_Transport = t, cs_actualTransport = t, cs_datagrams = datagrams,
          cs_protocol = (if datagrams then Some newDatagramProtocolState else None),
          cs_streamSend = [], cs_unreliableSend = [], cs_rawStateSend = [], cs_eventualSend = [],
          cs_wake = False, cs_closeState = None, cs_closers = 0, cs_closeOnce = False, cs_abortOnce = False,
          cs_wireDatagramOK = 0, cs_streamBatchOK = 0, cs_wire = [], cs_closes = []\<rparr>)"

definition newWebSocketSession :: "int64 \<Rightarrow> Session" where
  "newWebSocketSession i = newSession i False"

definition newWebTransportSession :: "int64 \<Rightarrow> Session" where
  "newWebTransportSession i = newSession i True"

definition transportKind :: "Session \<Rightarrow> Transport" where
  "transportKind s = (if cs_actualTransport s \<noteq> '''' then cs_actualTransport s else cs_Transport s)"

definition SupportsUnreliable :: "Session \<Rightarrow> bool" where
  "SupportsUnreliable s = cs_datagrams s"

definition SupportsReliableDatagrams :: "Session \<Rightarrow> bool" where
  "SupportsReliableDatagrams s = (cs_protocol s \<noteq> None)"

definition set_protocol :: "datagramProtocolState \<Rightarrow> Session \<Rightarrow> Session" where
  "set_protocol p s = s\<lparr>cs_protocol := Some p\<rparr>"

section \<open>Closing\<close>

definition IsClosing :: "Session \<Rightarrow> bool" where
  "IsClosing s \<longleftrightarrow> cs_closeState s \<noteq> None"

definition requestedCloseReason :: "Session \<Rightarrow> string" where
  "requestedCloseReason s = (case cs_closeState s of None \<Rightarrow> '''' | Some reason \<Rightarrow> reason)"

text \<open>The close state and the closing of \<^verbatim>\<open>done\<close>, which the write pump waits for, in one.\<close>

definition beginClose :: "string \<Rightarrow> Session \<Rightarrow> bool \<times> Session" where
  "beginClose reason s =
     (if cs_closeState s \<noteq> None then (False, s) else (True, s\<lparr>cs_closeState := Some reason\<rparr>))"

definition shutdown :: "Session \<Rightarrow> Session" where
  "shutdown s = snd (beginClose '''' s)"

text \<open>The close handshake of the transport is recorded with the reason it carries.\<close>

definition closeNow :: "Session \<Rightarrow> Session" where
  "closeNow s =
     (let s = snd (beginClose '''' s)
      in if cs_closeOnce s then s
         else s\<lparr>cs_closeOnce := True, cs_closes := cs_closes s @ [requestedCloseReason s]\<rparr>)"

definition goCloseNow :: "Session \<Rightarrow> Session" where
  "goCloseNow s = s\<lparr>cs_closers := cs_closers s + 1\<rparr>"

definition CloseWithReason :: "string \<Rightarrow> Session \<Rightarrow> Session" where
  "CloseWithReason reason s = (case beginClose reason s of (ok, s) \<Rightarrow> if ok then closeNow s else s)"

definition sessClose :: "Session \<Rightarrow> Session" where
  "sessClose s = CloseWithReason '''' s"

definition RequestCloseWithReason :: "string \<Rightarrow> Session \<Rightarrow> Session" where
  "RequestCloseWithReason reason s = (case beginClose reason s of (ok, s) \<Rightarrow> if ok then goCloseNow s else s)"

definition abortClose :: "Session \<Rightarrow> Session" where
  "abortClose s = s\<lparr>cs_abortOnce := True\<rparr>"

section \<open>Queueing\<close>

text \<open>A full wake channel keeps its one token.\<close>

definition signalWake :: "Session \<Rightarrow> Session" where
  "signalWake s = s\<lparr>cs_wake := True\<rparr>"

text \<open>
  One body for the four \<^verbatim>\<open>queue...\<close> methods: \<open>len\<close> is the length of the channel, \<open>push\<close> the send.
  A send on a full channel closes the slow session.
\<close>

definition queueOn :: "(Session \<Rightarrow> nat) \<Rightarrow> (Session \<Rightarrow> Session) \<Rightarrow> Session \<Rightarrow> Session" where
  "queueOn len push s =
     (if IsClosing s then s
      else if len s < sendBufSize then signalWake (push s)
      else case beginClose '''' s of (ok, s) \<Rightarrow> if ok then goCloseNow s else s)"

definition pushStream :: "bytes list \<Rightarrow> Session \<Rightarrow> Session" where
  "pushStream frames s = s\<lparr>cs_streamSend := cs_streamSend s @ [frames]\<rparr>"

definition pushUnreliable :: "bytes \<Rightarrow> Session \<Rightarrow> Session" where
  "pushUnreliable data s = s\<lparr>cs_unreliableSend := cs_unreliableSend s @ [data]\<rparr>"

definition pushRawState :: "bytes \<Rightarrow> Session \<Rightarrow> Session" where
  "pushRawState data s = s\<lparr>cs_rawStateSend := cs_rawStateSend s @ [data]\<rparr>"

definition pushEventual :: "eventualStateDatagram \<Rightarrow> Session \<Rightarrow> Session" where
  "pushEventual msg s = s\<lparr>cs_eventualSend := cs_eventualSend s @ [msg]\<rparr>"

definition queueStream :: "bytes list \<Rightarrow> Session \<Rightarrow> Session" where
  "queueStream frames s = queueOn (length o cs_streamSend) (pushStream frames) s"

definition queueUnreliable :: "bytes \<Rightarrow> Session \<Rightarrow> Session" where
  "queueUnreliable data s = queueOn (length o cs_unreliableSend) (pushUnreliable data) s"

definition queueRawState :: "bytes \<Rightarrow> Session \<Rightarrow> Session" where
  "queueRawState data s = queueOn (length o cs_rawStateSend) (pushRawState data) s"

definition queueEventualState :: "eventualStateDatagram \<Rightarrow> Session \<Rightarrow> Session" where
  "queueEventualState msg s = queueOn (length o cs_eventualSend) (pushEventual msg) s"

definition queueReliable :: "datagramLane \<Rightarrow> bytes \<Rightarrow> time \<Rightarrow> Session \<Rightarrow> sessionError option \<times> Session" where
  "queueReliable ln data now s =
     (case cs_protocol s of
        None \<Rightarrow> (Some sessReliableDatagramsNotSupported, s)
      | Some p \<Rightarrow>
          if length data = 0 \<or> IsClosing s then (None, s)
          else case enqueueReliable ln data now p of
                 (None, p) \<Rightarrow> (None, signalWake (set_protocol p s))
               | (Some err, p) \<Rightarrow>
                   (case beginClose '''' (set_protocol p s) of
                      (ok, s) \<Rightarrow> if ok then (Some (errProtocol err), goCloseNow s) else (None, s)))"

section \<open>The sending interface\<close>

definition sess_SendBatch :: "bytes list \<Rightarrow> Session \<Rightarrow> Session" where
  "sess_SendBatch frames s = (if length frames = 0 then s else queueStream frames s)"

definition sess_Send :: "bytes \<Rightarrow> Session \<Rightarrow> Session" where
  "sess_Send data s = sess_SendBatch [data] s"

definition sess_SendUnreliable :: "bytes \<Rightarrow> Session \<Rightarrow> sessionError option \<times> Session" where
  "sess_SendUnreliable data s =
     (if \<not> cs_datagrams s then (Some sessUnreliableNotSupported, s)
      else if length data = 0 \<or> IsClosing s then (None, s)
      else case validateUnreliableDatagramPayloadSize data of
             Some e \<Rightarrow> (Some (errProtocol e), s)
           | None \<Rightarrow> (None, queueUnreliable data s))"

definition sendUnreliableStateOwned :: "bytes \<Rightarrow> Session \<Rightarrow> sessionError option \<times> Session" where
  "sendUnreliableStateOwned data s =
     (if \<not> cs_datagrams s then (Some sessUnreliableNotSupported, s)
      else if length data = 0 \<or> IsClosing s then (None, s)
      else case validateDatagramSize data of
             Some e \<Rightarrow> (Some (errProtocol e), s)
           | None \<Rightarrow> (None, queueRawState data s))"

definition sendUnreliableState :: "bytes \<Rightarrow> Session \<Rightarrow> sessionError option \<times> Session" where
  "sendUnreliableState data s = sendUnreliableStateOwned ([] @ data) s"

definition sess_SendReliableUnordered :: "bytes \<Rightarrow> time \<Rightarrow> Session \<Rightarrow> sessionError option \<times> Session" where
  "sess_SendReliableUnordered data now s = queueReliable datagramLaneReliableUnordered data now s"

definition sess_SendReliableOrdered :: "bytes \<Rightarrow> time \<Rightarrow> Session \<Rightarrow> sessionError option \<times> Session" where
  "sess_SendReliableOrdered data now s = queueReliable datagramLaneReliableOrdered data now s"

definition sendEventualStateOwned :: "u64 \<Rightarrow> bytes \<Rightarrow> time \<Rightarrow> Session \<Rightarrow> sessionError option \<times> Session" where
  "sendEventualStateOwned token data now s =
     (if cs_protocol s = None then (Some sessReliableDatagramsNotSupported, s)
      else if length data = 0 \<or> IsClosing s then (None, s)
      else case validateEventualStateDatagramPayloadSize data of
             Some e \<Rightarrow> (Some (errProtocol e), s)
           | None \<Rightarrow> (None, queueEventualState \<lparr>es_token = token, es_payload = data, es_queuedAt = now\<rparr> s))"

definition sess_SendEventualState :: "u64 \<Rightarrow> bytes \<Rightarrow> time \<Rightarrow> Session \<Rightarrow> sessionError option \<times> Session" where
  "sess_SendEventualState token data now s =
     (if length data = 0 then (None, s) else sendEventualStateOwned token ([] @ data) now s)"

section \<open>Writing\<close>

definition writeProtocolDatagram :: "channelEnv \<Rightarrow> bytes \<Rightarrow> Session \<Rightarrow> sessionError option \<times> Session" where
  "writeProtocolDatagram env data s =
     (if \<not> cs_datagrams s then (Some sessReliableDatagramsNotSupported, s)
      else case ce_WriteDatagram env (cs_wire s) data of
             Some e \<Rightarrow> (Some (errProtocolWrite e), s\<lparr>cs_wire := cs_wire s @ [WireDatagram data False]\<rparr>)
           | None \<Rightarrow> (None, s\<lparr>cs_wire := cs_wire s @ [WireDatagram data True],
                              cs_wireDatagramOK := cs_wireDatagramOK s + 1\<rparr>))"

definition writeRawStateDatagram :: "channelEnv \<Rightarrow> bytes \<Rightarrow> Session \<Rightarrow> sessionError option \<times> Session" where
  "writeRawStateDatagram env data s =
     (if \<not> cs_datagrams s then (Some sessUnreliableNotSupported, s)
      else case ce_WriteDatagram env (cs_wire s) data of
             Some e \<Rightarrow> (Some (errRawStateWrite e), s\<lparr>cs_wire := cs_wire s @ [WireDatagram data False]\<rparr>)
           | None \<Rightarrow> (None, s\<lparr>cs_wire := cs_wire s @ [WireDatagram data True],
                              cs_wireDatagramOK := cs_wireDatagramOK s + 1\<rparr>))"

definition writeBatch :: "channelEnv \<Rightarrow> bytes list \<Rightarrow> Session \<Rightarrow> sessionError option \<times> Session" where
  "writeBatch env frames s =
     (if length frames = 0 then (None, s)
      else case ce_WriteBatch env (cs_wire s) frames of
             Some e \<Rightarrow> (Some (errStreamWrite e), s\<lparr>cs_wire := cs_wire s @ [WireBatch frames False]\<rparr>)
           | None \<Rightarrow> (None, s\<lparr>cs_wire := cs_wire s @ [WireBatch frames True],
                              cs_streamBatchOK := cs_streamBatchOK s + 1\<rparr>))"

definition writeUnreliable :: "channelEnv \<Rightarrow> bytes \<Rightarrow> Session \<Rightarrow> sessionError option \<times> Session" where
  "writeUnreliable env data s =
     (case cs_protocol s of
        None \<Rightarrow> (Some sessUnreliableNotSupported, s)
      | Some p \<Rightarrow>
          if \<not> cs_datagrams s then (Some sessUnreliableNotSupported, s)
          else case newUnreliablePacketInto data [] p of
                 (Inl err, p) \<Rightarrow> (Some (errProtocol err), set_protocol p s)
               | (Inr packet, p) \<Rightarrow> writeProtocolDatagram env packet (set_protocol p s))"

text \<open>Receiving from a channel without waiting.\<close>

definition tryRecvStream :: "Session \<Rightarrow> bytes list option \<times> Session" where
  "tryRecvStream s =
     (case cs_streamSend s of [] \<Rightarrow> (None, s) | frames # q \<Rightarrow> (Some frames, s\<lparr>cs_streamSend := q\<rparr>))"

definition tryRecvUnreliable :: "Session \<Rightarrow> bytes option \<times> Session" where
  "tryRecvUnreliable s =
     (case cs_unreliableSend s of [] \<Rightarrow> (None, s) | data # q \<Rightarrow> (Some data, s\<lparr>cs_unreliableSend := q\<rparr>))"

definition tryRecvRawState :: "Session \<Rightarrow> bytes option \<times> Session" where
  "tryRecvRawState s =
     (case cs_rawStateSend s of [] \<Rightarrow> (None, s) | data # q \<Rightarrow> (Some data, s\<lparr>cs_rawStateSend := q\<rparr>))"

text \<open>
  The parts of \<^verbatim>\<open>writeOne\<close> that hold the protocol lock: an error, a packet to write, or nothing.
\<close>

datatype 'a pick = SecError sessionError | SecPacket 'a | SecNone

definition nextAckForWrite :: "time \<Rightarrow> Session \<Rightarrow> bytes pick \<times> Session" where
  "nextAckForWrite now s =
     (case cs_protocol s of
        None \<Rightarrow> (SecNone, s)
      | Some p \<Rightarrow>
          (case checkOrderedGap now p of
             Some e \<Rightarrow> (SecError (errProtocol e), s)
           | None \<Rightarrow>
               (case nextAckPacketInto now [] p of
                  (Inl e, p) \<Rightarrow> (SecError (errProtocol e), set_protocol p s)
                | (Inr (Some packet), p) \<Rightarrow> (SecPacket packet, set_protocol p s)
                | (Inr None, p) \<Rightarrow> (SecNone, set_protocol p s))))"

primrec moveEventual :: "eventualStateDatagram list \<Rightarrow> datagramProtocolState
    \<Rightarrow> (sessionError option \<times> eventualStateDatagram list) \<times> datagramProtocolState" where
  "moveEventual [] p = ((None, []), p)"
| "moveEventual (msg # q) p =
     (case enqueueEventualState (es_token msg) (es_payload msg) (es_queuedAt msg) p of
        (Some err, p) \<Rightarrow> ((Some (errProtocol err), q), p)
      | (None, p) \<Rightarrow> moveEventual q p)"

definition nextEventualStatePacketForWrite :: "time \<Rightarrow> Session \<Rightarrow> bytes pick \<times> Session" where
  "nextEventualStatePacketForWrite now s =
     (case cs_protocol s of
        None \<Rightarrow> (SecNone, s)
      | Some p \<Rightarrow>
          (case moveEventual (cs_eventualSend s) p of
             ((Some err, q), p) \<Rightarrow> (SecError err, set_protocol p (s\<lparr>cs_eventualSend := q\<rparr>))
           | ((None, q), p) \<Rightarrow>
               (case nextEventualStatePacketInto now [] p of
                  (Inl e, p) \<Rightarrow> (SecError (errProtocol e), set_protocol p (s\<lparr>cs_eventualSend := q\<rparr>))
                | (Inr (Some packet), p) \<Rightarrow> (SecPacket packet, set_protocol p (s\<lparr>cs_eventualSend := q\<rparr>))
                | (Inr None, p) \<Rightarrow> (SecNone, set_protocol p (s\<lparr>cs_eventualSend := q\<rparr>)))))"

text \<open>One pass over the two reliable lanes.\<close>

definition reliablePass :: "time \<Rightarrow> bool \<Rightarrow> datagramProtocolState \<Rightarrow> (bytes \<times> bool) pick \<times> datagramProtocolState" where
  "reliablePass now passAllowResend p =
     (case nextReliablePacketInto datagramLaneReliableOrdered now passAllowResend [] p of
        (Inl e, p) \<Rightarrow> (SecError (errProtocol e), p)
      | (Inr (Some r), p) \<Rightarrow> (SecPacket r, p)
      | (Inr None, p) \<Rightarrow>
          (case nextReliablePacketInto datagramLaneReliableUnordered now passAllowResend [] p of
             (Inl e, p) \<Rightarrow> (SecError (errProtocol e), p)
           | (Inr (Some r), p) \<Rightarrow> (SecPacket r, p)
           | (Inr None, p) \<Rightarrow> (SecNone, p)))"

primrec reliablePasses :: "time \<Rightarrow> bool list \<Rightarrow> datagramProtocolState \<Rightarrow> (bytes \<times> bool) pick \<times> datagramProtocolState" where
  "reliablePasses now [] p = (SecNone, p)"
| "reliablePasses now (b # bs) p =
     (case reliablePass now b p of (SecNone, p) \<Rightarrow> reliablePasses now bs p | (r, p) \<Rightarrow> (r, p))"

definition nextReliablePacketForWrite :: "time \<Rightarrow> bool \<Rightarrow> bool \<Rightarrow> Session \<Rightarrow> (bytes \<times> bool) pick \<times> Session" where
  "nextReliablePacketForWrite now allowResend preferFresh s =
     (case cs_protocol s of
        None \<Rightarrow> (SecNone, s)
      | Some p \<Rightarrow>
          let passes = (if preferFresh then False # (if allowResend then [True] else []) else [allowResend])
          in case reliablePasses now passes p of (r, p) \<Rightarrow> (r, set_protocol p s))"

record datagramDrainBudget =
  db_freshReliableSendReserve :: int
  db_resendBudget :: int

definition newDatagramDrainBudget :: datagramDrainBudget where
  "newDatagramDrainBudget =
     \<lparr>db_freshReliableSendReserve = datagramFreshReliableSendReserve, db_resendBudget = datagramResendBudgetPerDrain\<rparr>"

definition preferFresh :: "datagramDrainBudget option \<Rightarrow> bool" where
  "preferFresh b = (case b of None \<Rightarrow> False | Some b \<Rightarrow> db_freshReliableSendReserve b > 0)"

definition allowResend :: "datagramDrainBudget option \<Rightarrow> bool" where
  "allowResend b = (case b of None \<Rightarrow> True | Some b \<Rightarrow> db_resendBudget b > 0)"

definition chargeBudget :: "bool \<Rightarrow> datagramDrainBudget \<Rightarrow> datagramDrainBudget" where
  "chargeBudget resend b =
     (let b = (if db_freshReliableSendReserve b > 0
               then b\<lparr>db_freshReliableSendReserve := db_freshReliableSendReserve b - 1\<rparr> else b)
      in if resend \<and> db_resendBudget b > 0 then b\<lparr>db_resendBudget := db_resendBudget b - 1\<rparr> else b)"

text \<open>The pair \<^verbatim>\<open>(bool, error)\<close> of \<^verbatim>\<open>writeOne\<close>, with the budget it leaves; a nil budget is \<open>None\<close>.\<close>

definition writeOne ::
  "channelEnv \<Rightarrow> time \<Rightarrow> datagramDrainBudget option \<Rightarrow> Session
     \<Rightarrow> (bool \<times> sessionError option) \<times> datagramDrainBudget option \<times> Session" where
  "writeOne env now budget s =
     (case nextAckForWrite now s of
        (SecError e, s) \<Rightarrow> ((False, Some e), budget, s)
      | (SecPacket packet, s) \<Rightarrow> (case writeProtocolDatagram env packet s of (e, s) \<Rightarrow> ((True, e), budget, s))
      | (SecNone, s) \<Rightarrow>
      case tryRecvUnreliable s of
        (Some payload, s) \<Rightarrow> (case writeUnreliable env payload s of (e, s) \<Rightarrow> ((True, e), budget, s))
      | (None, s) \<Rightarrow>
      case tryRecvRawState s of
        (Some payload, s) \<Rightarrow> (case writeRawStateDatagram env payload s of (e, s) \<Rightarrow> ((True, e), budget, s))
      | (None, s) \<Rightarrow>
      case nextEventualStatePacketForWrite now s of
        (SecError e, s) \<Rightarrow> ((False, Some e), budget, s)
      | (SecPacket packet, s) \<Rightarrow> (case writeProtocolDatagram env packet s of (e, s) \<Rightarrow> ((True, e), budget, s))
      | (SecNone, s) \<Rightarrow>
      case nextReliablePacketForWrite now (allowResend budget) (preferFresh budget) s of
        (SecError e, s) \<Rightarrow> ((False, Some e), budget, s)
      | (SecPacket (packet, resend), s) \<Rightarrow>
          (case writeProtocolDatagram env packet s of
             (e, s) \<Rightarrow> ((True, e), map_option (chargeBudget resend) budget, s))
      | (SecNone, s) \<Rightarrow>
      case tryRecvStream s of
        (Some frames, s) \<Rightarrow> (case writeBatch env frames s of (e, s) \<Rightarrow> ((True, e), budget, s))
      | (None, s) \<Rightarrow> ((False, None), budget, s))"

text \<open>\<open>clock n\<close> is the reading of the clock when \<open>n\<close> iterations are left.\<close>

primrec drainOutboundLoop ::
  "channelEnv \<Rightarrow> (nat \<Rightarrow> time) \<Rightarrow> time \<Rightarrow> nat \<Rightarrow> datagramDrainBudget \<Rightarrow> Session \<Rightarrow> sessionError option \<times> Session" where
  "drainOutboundLoop env clock deadline 0 budget s = (None, s)"
| "drainOutboundLoop env clock deadline (Suc n) budget s =
     (if clock (Suc n) > deadline then (None, s)
      else case writeOne env (clock (Suc n)) (Some budget) s of
             ((sent, Some err), budget', s) \<Rightarrow> (Some err, s)
           | ((sent, None), budget', s) \<Rightarrow>
               if \<not> sent then (None, s)
               else drainOutboundLoop env clock deadline n (case budget' of None \<Rightarrow> budget | Some b \<Rightarrow> b) s)"

definition drainOutbound :: "channelEnv \<Rightarrow> time \<Rightarrow> (nat \<Rightarrow> time) \<Rightarrow> Session \<Rightarrow> sessionError option \<times> Session" where
  "drainOutbound env start clock s =
     drainOutboundLoop env clock (start + maxDatagramDrainDuration) maxDatagramDrainSendsPerWake newDatagramDrainBudget s"

definition nextOutboundWake :: "time \<Rightarrow> Session \<Rightarrow> time option \<times> Session" where
  "nextOutboundWake now s =
     (if length (cs_streamSend s) > 0 then (Some now, s)
      else if length (cs_unreliableSend s) > 0 then (Some now, s)
      else if length (cs_rawStateSend s) > 0 then (Some now, s)
      else if length (cs_eventualSend s) > 0 then (Some now, s)
      else case cs_protocol s of
             None \<Rightarrow> (None, s)
           | Some p \<Rightarrow> (case nextWakeTime now p of (w, p) \<Rightarrow> (w, set_protocol p s)))"

section \<open>Reading\<close>

definition handleIncomingDatagram ::
  "channelEnv \<Rightarrow> time \<Rightarrow> bytes \<Rightarrow> Session \<Rightarrow> (sessionError + datagramDelivery list \<times> bool) \<times> Session" where
  "handleIncomingDatagram env now data s =
     (case cs_protocol s of
        None \<Rightarrow> (Inr ([\<lparr>dd_lane = datagramLaneUnreliable, dd_data = data\<rparr>], False), s)
      | Some p \<Rightarrow>
          (case handleIncoming (ce_ordFlight env (ps_inFlightEventual p)) now data p of
             (Inl e, p) \<Rightarrow> (Inl (errProtocol e), set_protocol p s)
           | (Inr r, p) \<Rightarrow> (Inr r, set_protocol p s)))"

definition drainEventualStateFeedback :: "Session \<Rightarrow> EventualStateDelivery list \<times> Session" where
  "drainEventualStateFeedback s =
     (case cs_protocol s of
        None \<Rightarrow> ([], s)
      | Some p \<Rightarrow> (case drainEventualFeedback p of (fs, p) \<Rightarrow> (fs, set_protocol p s)))"

text \<open>The results \<^verbatim>\<open>(payload, feedback, wake, err)\<close>; a payload that goes with an error is not used.\<close>

definition handleReliableAckControlFrame ::
  "channelEnv \<Rightarrow> time \<Rightarrow> bytes \<Rightarrow> Session
     \<Rightarrow> (bytes \<times> EventualStateDelivery list \<times> bool \<times> sessionError option) \<times> Session" where
  "handleReliableAckControlFrame env now data s =
     (case decodeClientReliableAckControlFrame data of
        Inl e \<Rightarrow> (([], [], False, Some (errControlFrame e)), s)
      | Inr (payload, ackSeq, ackMask, ok) \<Rightarrow>
          if \<not> ok then ((payload, [], False, None), s)
          else case cs_protocol s of
                 None \<Rightarrow> ((payload, [], False, None), s)
               | Some p \<Rightarrow>
                   (case applyPeerAcks (ce_ordFlight env (ps_inFlightEventual p)) ackSeq ackMask now p of
                      ((wake, e), p) \<Rightarrow>
                        (case drainEventualFeedback p of
                           (fs, p) \<Rightarrow> ((payload, fs, wake, map_option errProtocol e), set_protocol p s))))"

definition deliver :: "channelEnv \<Rightarrow> datagramDelivery \<Rightarrow> sessionCall list" where
  "deliver env d =
     (if dd_lane d = datagramLaneUnreliable then (if ce_onDatagram env then [CallDatagram (dd_data d)] else [])
      else if dd_lane d = datagramLaneReliableUnordered
      then (if ce_onReliableUnordered env then [CallReliableUnordered (dd_data d)] else [])
      else if dd_lane d = datagramLaneReliableOrdered
      then (if ce_onReliableOrdered env then [CallReliableOrdered (dd_data d)] else [])
      else [])"

text \<open>
  The callbacks of \<^verbatim>\<open>readPump\<close>: the hook calls they make, and whether they end the pump.  The
  hooks of the server queue an event and leave the session as it is.
\<close>

definition feedbackCall :: "channelEnv \<Rightarrow> EventualStateDelivery list \<Rightarrow> sessionCall list" where
  "feedbackCall env fs = (if length fs > 0 \<and> ce_onEventualStateFeedback env then [CallFeedback fs] else [])"

definition onDatagramRead :: "channelEnv \<Rightarrow> time \<Rightarrow> bytes \<Rightarrow> Session \<Rightarrow> (sessionCall list \<times> bool) \<times> Session" where
  "onDatagramRead env now data s =
     (if IsClosing s then (([], False), s)
      else case handleIncomingDatagram env now data s of
             (r, s) \<Rightarrow>
               (case drainEventualStateFeedback s of
                  (fs, s) \<Rightarrow>
                    (case r of
                       Inl e \<Rightarrow> (([], True), closeNow s)
                     | Inr (deliveries, wake) \<Rightarrow>
                         ((feedbackCall env fs @ concat (map (deliver env) deliveries), False),
                          if wake then signalWake s else s))))"

definition onReliableRead :: "channelEnv \<Rightarrow> time \<Rightarrow> bytes \<Rightarrow> Session \<Rightarrow> (sessionCall list \<times> bool) \<times> Session" where
  "onReliableRead env now data s =
     (if IsClosing s then (([], False), s)
      else if isClientCloseControlFrame data then (([], True), sessClose s)
      else case handleReliableAckControlFrame env now data s of
             ((data, fs, wake, err), s) \<Rightarrow>
               (let s = (if wake then signalWake s else s)
                in if err \<noteq> None then (([], True), closeNow s)
                   else if length data = 0 then ((feedbackCall env fs, False), s)
                   else ((feedbackCall env fs @ (if ce_onMsg env then [CallMessage data] else []), False), s)))"

section \<open>Sampling the queues\<close>

record SessionOutboundSnapshot =
  os_SessionID :: int64
  os_StreamBatchesQueued :: nat
  os_UnreliableQueued :: nat
  os_PendingOrdered :: nat
  os_InFlightOrdered :: nat
  os_HeadAgeOrdered :: duration
  os_PendingUnordered :: nat
  os_InFlightUnordered :: nat
  os_HeadAgeUnordered :: duration
  os_EventualQueued :: nat
  os_EventualInFlight :: nat
  os_InboundPackets :: u64
  os_InboundAckOnly :: u64

definition headAge :: "time \<Rightarrow> reliableDatagramMessage list \<Rightarrow> duration" where
  "headAge now ms = (case ms of [] \<Rightarrow> 0 | m # _ \<Rightarrow> timeSub now (rm_queuedAt m))"

definition OutboundSnapshot :: "time \<Rightarrow> Session \<Rightarrow> SessionOutboundSnapshot" where
  "OutboundSnapshot now s =
     (let out = \<lparr>os_SessionID = cs_ID s, os_StreamBatchesQueued = length (cs_streamSend s),
                os_UnreliableQueued = length (cs_unreliableSend s), os_PendingOrdered = 0, os_InFlightOrdered = 0,
                os_HeadAgeOrdered = 0, os_PendingUnordered = 0, os_InFlightUnordered = 0, os_HeadAgeUnordered = 0,
                os_EventualQueued = length (cs_eventualSend s), os_EventualInFlight = 0,
                os_InboundPackets = 0, os_InboundAckOnly = 0\<rparr>
      in case cs_protocol s of
           None \<Rightarrow> out
         | Some p \<Rightarrow>
             out\<lparr>os_PendingOrdered := length (ps_pendingOrdered p),
                 os_InFlightOrdered := length (filter rm_inFlight (ps_pendingOrdered p)),
                 os_HeadAgeOrdered := headAge now (ps_pendingOrdered p),
                 os_PendingUnordered := length (ps_pendingUnordered p),
                 os_InFlightUnordered := length (filter rm_inFlight (ps_pendingUnordered p)),
                 os_HeadAgeUnordered := headAge now (ps_pendingUnordered p),
                 os_EventualInFlight := gm_len (ps_inFlightEventual p),
                 os_InboundPackets := ps_inboundPackets p, os_InboundAckOnly := ps_inboundAckOnly p\<rparr>)"

end
