(* ===== verification/Session_Pump.thy ===== *)
theory Session_Pump
  imports Session_Core Datagram_EndToEnd
begin

text \<open>
  The goroutines of a session (\<^verbatim>\<open>golem/net/session.go\<close>): the write pump, the senders, the two
  readers and whoever closes, interleaved at the points where they take the protocol lock, touch a
  channel or the close state.  The theorems say that nothing queued on the stream is lost or
  reordered, that the first request to close wins, and that the write pump never sleeps while there
  is something to write.
\<close>

section \<open>Goroutines\<close>

datatype sendJob =
    JobStream "bytes list"
  | JobUnreliable bytes
  | JobRawState bytes
  | JobEventual eventualStateDatagram
  | JobReliable datagramLane bytes time

text \<open>
  Senders (\<open>Sd\<close>): the \<^verbatim>\<open>queue...\<close> methods.  Readers: the datagram callback (\<open>Rd\<close>) and the stream
  callback (\<open>Ak\<close>) of \<^verbatim>\<open>readPump\<close>; the hooks they call leave the session alone.  Closers (\<open>Cl\<close>).
\<close>

datatype sessPC =
    SdCheck sendJob
  | SdPush sendJob
  | SdOverflow
  | SdSignal
  | RdCheck time bytes
  | RdHandle time bytes
  | RdFeedback bool bool
  | RdWake bool bool
  | AkCheck time bytes
  | AkHandle time bytes
  | ClBegin string bool
  | ClNow
  | ClShutdown
  | SdDone

definition supported :: "sendJob \<Rightarrow> Session \<Rightarrow> bool" where
  "supported j s =
     (case j of JobStream frames \<Rightarrow> frames \<noteq> [] | JobUnreliable d \<Rightarrow> cs_datagrams s | JobRawState d \<Rightarrow> cs_datagrams s
      | JobEventual m \<Rightarrow> cs_protocol s \<noteq> None | JobReliable l d t \<Rightarrow> cs_protocol s \<noteq> None)"

definition pushOn :: "nat \<Rightarrow> Session \<Rightarrow> Session \<Rightarrow> sessPC \<times> Session" where
  "pushOn len pushed s = (if len < sendBufSize then (SdSignal, pushed) else (SdOverflow, s))"

definition pushJob :: "sendJob \<Rightarrow> Session \<Rightarrow> sessPC \<times> Session" where
  "pushJob j s =
     (case j of
        JobStream frames \<Rightarrow> pushOn (length (cs_streamSend s)) (pushStream frames s) s
      | JobUnreliable data \<Rightarrow> pushOn (length (cs_unreliableSend s)) (pushUnreliable data s) s
      | JobRawState data \<Rightarrow> pushOn (length (cs_rawStateSend s)) (pushRawState data s) s
      | JobEventual msg \<Rightarrow> pushOn (length (cs_eventualSend s)) (pushEventual msg s) s
      | JobReliable ln data now \<Rightarrow>
          (case cs_protocol s of
             None \<Rightarrow> (SdDone, s)
           | Some p \<Rightarrow>
               (case enqueueReliable ln data now p of
                  (None, p) \<Rightarrow> (SdSignal, set_protocol p s)
                | (Some err, p) \<Rightarrow> (SdOverflow, set_protocol p s))))"

fun sessStep :: "channelEnv \<Rightarrow> sessPC \<Rightarrow> Session \<Rightarrow> sessPC \<times> Session" where
  "sessStep env (SdCheck j) s = (if \<not> supported j s \<or> IsClosing s then SdDone else SdPush j, s)"
| "sessStep env (SdPush j) s = pushJob j s"
| "sessStep env SdOverflow s = (SdDone, case beginClose '''' s of (ok, s) \<Rightarrow> if ok then goCloseNow s else s)"
| "sessStep env SdSignal s = (SdDone, signalWake s)"
| "sessStep env (RdCheck now data) s = (if IsClosing s then SdDone else RdHandle now data, s)"
| "sessStep env (RdHandle now data) s =
     (case handleIncomingDatagram env now data s of
        (Inl e, s) \<Rightarrow> (RdFeedback False True, s) | (Inr (deliveries, wake), s) \<Rightarrow> (RdFeedback wake False, s))"
| "sessStep env (RdFeedback wake err) s = (RdWake wake err, snd (drainEventualStateFeedback s))"
| "sessStep env (RdWake wake err) s = (if err then ClNow else SdDone, if wake then signalWake s else s)"
| "sessStep env (AkCheck now data) s =
     (if IsClosing s then SdDone else if isClientCloseControlFrame data then ClBegin '''' True else AkHandle now data, s)"
| "sessStep env (AkHandle now data) s =
     (case handleReliableAckControlFrame env now data s of
        ((payload, feedback, wake, err), s) \<Rightarrow> (RdWake wake (err \<noteq> None), s))"
| "sessStep env (ClBegin reason wait) s =
     (case beginClose reason s of
        (False, s) \<Rightarrow> (SdDone, s)
      | (True, s) \<Rightarrow> if wait then (ClNow, s) else (SdDone, goCloseNow s))"
| "sessStep env ClNow s = (SdDone, closeNow s)"
| "sessStep env ClShutdown s = (SdDone, shutdown s)"
| "sessStep env SdDone s = (SdDone, s)"

text \<open>A thread that runs on its own is the method of \<^verbatim>\<open>Session_Core\<close>.\<close>

primrec runSess :: "channelEnv \<Rightarrow> nat \<Rightarrow> sessPC \<times> Session \<Rightarrow> sessPC \<times> Session" where
  "runSess env 0 x = x"
| "runSess env (Suc n) x = runSess env n (sessStep env (fst x) (snd x))"

lemmas pump_defs = supported_def pushOn_def pushJob_def queueOn_def pushStream_def pushUnreliable_def pushRawState_def
  pushEventual_def signalWake_def beginClose_def goCloseNow_def IsClosing_def set_protocol_def shutdown_def

lemma run_senders:
  "frames \<noteq> [] \<Longrightarrow> runSess env 3 (SdCheck (JobStream frames), s) = (SdDone, sess_SendBatch frames s)"
  "cs_datagrams s \<Longrightarrow> runSess env 3 (SdCheck (JobUnreliable d), s) = (SdDone, queueUnreliable d s)"
  "cs_datagrams s \<Longrightarrow> runSess env 3 (SdCheck (JobRawState d), s) = (SdDone, queueRawState d s)"
  "cs_protocol s \<noteq> None \<Longrightarrow> runSess env 3 (SdCheck (JobEventual m), s) = (SdDone, queueEventualState m s)"
  "d \<noteq> [] \<Longrightarrow> runSess env 3 (SdCheck (JobReliable l d t), s) = (SdDone, snd (queueReliable l d t s))"
  by (auto simp: numeral_3_eq_3 sess_SendBatch_def queueStream_def queueUnreliable_def queueRawState_def
      queueEventualState_def queueReliable_def pump_defs split: option.splits prod.splits)

lemma run_readers:
  "runSess env 5 (RdCheck now data, s) = (SdDone, snd (onDatagramRead env now data s))"
  "runSess env 5 (AkCheck now data, s) = (SdDone, snd (onReliableRead env now data s))"
  by (auto simp: eval_nat_numeral onDatagramRead_def onReliableRead_def sessClose_def CloseWithReason_def IsClosing_def
      closeNow_def beginClose_def handleIncomingDatagram_def drainEventualStateFeedback_def signalWake_def Let_def
      split: option.splits prod.splits sum.splits)

section \<open>The write pump\<close>

datatype writeJob = WjDatagram bytes | WjRawState bytes | WjUnreliable bytes | WjReliable bytes bool | WjBatch "bytes list"

datatype drainPart = DpAck | DpUnreliable | DpRawState | DpEventual | DpReliable "bool list" | DpStream

datatype wakePart = WkStream | WkUnreliable | WkRawState | WkEventual | WkProtocol

record drainCtx =
  dc_left :: nat
  dc_deadline :: time
  dc_now :: time
  dc_budget :: datagramDrainBudget

text \<open>
  \<open>WpSelect now timer\<close>: waiting, with the timer computed from the reading \<open>now\<close>.
\<close>

datatype writerPC =
    WpTop
  | WpDrain drainCtx
  | WpPart drainPart drainCtx
  | WpWrite writeJob drainCtx
  | WpWake wakePart time
  | WpSelect time "time option"
  | WpClose
  | WpExit

definition reliablePassList :: "datagramDrainBudget \<Rightarrow> bool list" where
  "reliablePassList b =
     (let ar = allowResend (Some b) in if preferFresh (Some b) then False # (if ar then [True] else []) else [ar])"

fun partStep :: "time \<Rightarrow> drainPart \<Rightarrow> drainCtx \<Rightarrow> Session \<Rightarrow> writerPC \<times> Session" where
  "partStep t DpAck c s =
     (case nextAckForWrite (dc_now c) s of
        (SecError e, s) \<Rightarrow> (WpClose, s) | (SecPacket packet, s) \<Rightarrow> (WpWrite (WjDatagram packet) c, s)
      | (SecNone, s) \<Rightarrow> (WpPart DpUnreliable c, s))"
| "partStep t DpUnreliable c s =
     (case tryRecvUnreliable s of
        (Some payload, s) \<Rightarrow> (WpWrite (WjUnreliable payload) c, s) | (None, s) \<Rightarrow> (WpPart DpRawState c, s))"
| "partStep t DpRawState c s =
     (case tryRecvRawState s of
        (Some payload, s) \<Rightarrow> (WpWrite (WjRawState payload) c, s) | (None, s) \<Rightarrow> (WpPart DpEventual c, s))"
| "partStep t DpEventual c s =
     (case nextEventualStatePacketForWrite (dc_now c) s of
        (SecError e, s) \<Rightarrow> (WpClose, s) | (SecPacket packet, s) \<Rightarrow> (WpWrite (WjDatagram packet) c, s)
      | (SecNone, s) \<Rightarrow> (WpPart (DpReliable (reliablePassList (dc_budget c))) c, s))"
| "partStep t (DpReliable []) c s = (WpPart DpStream c, s)"
| "partStep t (DpReliable (b # bs)) c s =
     (case cs_protocol s of
        None \<Rightarrow> (WpPart DpStream c, s)
      | Some p \<Rightarrow>
          (case reliablePass (dc_now c) b p of
             (SecError e, p) \<Rightarrow> (WpClose, set_protocol p s)
           | (SecPacket (packet, resend), p) \<Rightarrow> (WpWrite (WjReliable packet resend) c, set_protocol p s)
           | (SecNone, p) \<Rightarrow> (WpPart (DpReliable bs) c, set_protocol p s)))"
| "partStep t DpStream c s =
     (case tryRecvStream s of (Some frames, s) \<Rightarrow> (WpWrite (WjBatch frames) c, s) | (None, s) \<Rightarrow> (WpWake WkStream t, s))"

definition written :: "drainCtx \<Rightarrow> sessionError option \<times> Session \<Rightarrow> writerPC \<times> Session" where
  "written c r = (case r of (None, s) \<Rightarrow> (WpDrain c, s) | (Some e, s) \<Rightarrow> (WpClose, s))"

fun writeStep :: "channelEnv \<Rightarrow> writeJob \<Rightarrow> drainCtx \<Rightarrow> Session \<Rightarrow> writerPC \<times> Session" where
  "writeStep env (WjDatagram packet) c s = written c (writeProtocolDatagram env packet s)"
| "writeStep env (WjRawState payload) c s = written c (writeRawStateDatagram env payload s)"
| "writeStep env (WjReliable packet resend) c s =
     written (c\<lparr>dc_budget := chargeBudget resend (dc_budget c)\<rparr>) (writeProtocolDatagram env packet s)"
| "writeStep env (WjBatch frames) c s = written c (writeBatch env frames s)"
| "writeStep env (WjUnreliable payload) c s =
     (case cs_protocol s of
        None \<Rightarrow> (WpClose, s)
      | Some p \<Rightarrow>
          if \<not> cs_datagrams s then (WpClose, s)
          else case newUnreliablePacketInto payload [] p of
                 (Inl e, p) \<Rightarrow> (WpClose, set_protocol p s)
               | (Inr packet, p) \<Rightarrow> (WpWrite (WjDatagram packet) c, set_protocol p s))"

text \<open>\<open>t\<close> is what the clock reads; a wake time that has passed starts the loop again at once.\<close>

fun wakeStep :: "time \<Rightarrow> wakePart \<Rightarrow> time \<Rightarrow> Session \<Rightarrow> writerPC \<times> Session" where
  "wakeStep t WkStream now s = (if length (cs_streamSend s) > 0 then WpTop else WpWake WkUnreliable now, s)"
| "wakeStep t WkUnreliable now s = (if length (cs_unreliableSend s) > 0 then WpTop else WpWake WkRawState now, s)"
| "wakeStep t WkRawState now s = (if length (cs_rawStateSend s) > 0 then WpTop else WpWake WkEventual now, s)"
| "wakeStep t WkEventual now s = (if length (cs_eventualSend s) > 0 then WpTop else WpWake WkProtocol now, s)"
| "wakeStep t WkProtocol now s =
     (case cs_protocol s of
        None \<Rightarrow> (WpSelect now None, s)
      | Some p \<Rightarrow>
          (case nextWakeTime now p of
             (None, p) \<Rightarrow> (WpSelect now None, set_protocol p s)
           | (Some wakeAt, p) \<Rightarrow> (if wakeAt - t \<le> 0 then WpTop else WpSelect now (Some wakeAt), set_protocol p s)))"

fun writerStep :: "channelEnv \<Rightarrow> time \<Rightarrow> writerPC \<Rightarrow> Session \<Rightarrow> writerPC \<times> Session" where
  "writerStep env t WpTop s =
     (if IsClosing s then (WpClose, s)
      else (WpDrain \<lparr>dc_left = maxDatagramDrainSendsPerWake, dc_deadline = t + maxDatagramDrainDuration, dc_now = t,
                    dc_budget = newDatagramDrainBudget\<rparr>, s))"
| "writerStep env t (WpDrain c) s =
     (if dc_left c = 0 \<or> t > dc_deadline c then (WpWake WkStream t, s)
      else (WpPart DpAck (c\<lparr>dc_left := dc_left c - 1, dc_now := t\<rparr>), s))"
| "writerStep env t (WpPart part c) s = partStep t part c s"
| "writerStep env t (WpWrite job c) s = writeStep env job c s"
| "writerStep env t (WpWake part now) s = wakeStep t part now s"
| "writerStep env t (WpSelect now timer) s = (WpSelect now timer, s)"
| "writerStep env t WpClose s = (WpExit, closeNow s)"
| "writerStep env t WpExit s = (WpExit, s)"

section \<open>The session as a system of goroutines\<close>

text \<open>\<open>py_accepted\<close> and \<open>py_refused\<close> record what became of the batches handed to \<^verbatim>\<open>SendBatch\<close>.\<close>

record pumpSystem =
  py_ses :: Session
  py_writer :: writerPC
  py_threads :: "sessPC list"
  py_accepted :: "bytes list list"
  py_refused :: "bytes list list"

definition acceptedBy :: "sessPC \<Rightarrow> Session \<Rightarrow> bytes list list" where
  "acceptedBy pc s =
     (case pc of SdPush (JobStream frames) \<Rightarrow> if length (cs_streamSend s) < sendBufSize then [frames] else [] | _ \<Rightarrow> [])"

definition refusedBy :: "sessPC \<Rightarrow> Session \<Rightarrow> bytes list list" where
  "refusedBy pc s =
     (case pc of
        SdCheck (JobStream frames) \<Rightarrow> if supported (JobStream frames) s \<and> IsClosing s then [frames] else []
      | SdPush (JobStream frames) \<Rightarrow> if length (cs_streamSend s) < sendBufSize then [] else [frames]
      | _ \<Rightarrow> [])"

text \<open>Where a call starts.\<close>

inductive callStart :: "sessPC \<Rightarrow> bool" where
  "callStart (SdCheck j)"
| "callStart (RdCheck now data)"
| "callStart (AkCheck now data)"
| "callStart (ClBegin reason wait)"
| "callStart ClNow"
| "callStart ClShutdown"

inductive pumpStep :: "channelEnv \<Rightarrow> pumpSystem \<Rightarrow> pumpSystem \<Rightarrow> bool" for env where
  call: "callStart pc \<Longrightarrow> pumpStep env y (y\<lparr>py_threads := py_threads y @ [pc]\<rparr>)"
| thread: "k < length (py_threads y) \<Longrightarrow> sessStep env (py_threads y ! k) (py_ses y) = (pc, s)
    \<Longrightarrow> pumpStep env y (y\<lparr>py_ses := s, py_threads := (py_threads y)[k := pc],
          py_accepted := py_accepted y @ acceptedBy (py_threads y ! k) (py_ses y),
          py_refused := py_refused y @ refusedBy (py_threads y ! k) (py_ses y)\<rparr>)"
| goClose: "cs_closers (py_ses y) = Suc n
    \<Longrightarrow> pumpStep env y (y\<lparr>py_ses := closeNow ((py_ses y)\<lparr>cs_closers := n\<rparr>)\<rparr>)"
| writer: "writerStep env t (py_writer y) (py_ses y) = (pc, s) \<Longrightarrow> pumpStep env y (y\<lparr>py_ses := s, py_writer := pc\<rparr>)"
| ctxDone: "py_writer y = WpSelect now timer \<Longrightarrow> pumpStep env y (y\<lparr>py_writer := WpClose\<rparr>)"
| closed: "py_writer y = WpSelect now timer \<Longrightarrow> IsClosing (py_ses y) \<Longrightarrow> pumpStep env y (y\<lparr>py_writer := WpClose\<rparr>)"
| woken: "py_writer y = WpSelect now timer \<Longrightarrow> cs_wake (py_ses y)
    \<Longrightarrow> pumpStep env y (y\<lparr>py_writer := WpTop, py_ses := (py_ses y)\<lparr>cs_wake := False\<rparr>\<rparr>)"
| timer: "py_writer y = WpSelect now (Some wakeAt) \<Longrightarrow> t \<ge> wakeAt \<Longrightarrow> pumpStep env y (y\<lparr>py_writer := WpTop\<rparr>)"

definition pumpStart :: "int64 \<Rightarrow> bool \<Rightarrow> pumpSystem" where
  "pumpStart i datagrams =
     \<lparr>py_ses = newSession i datagrams, py_writer = WpTop, py_threads = [], py_accepted = [], py_refused = []\<rparr>"

inductive pumpReachable :: "channelEnv \<Rightarrow> pumpSystem \<Rightarrow> bool" for env where
  start: "pumpReachable env (pumpStart i datagrams)"
| step: "pumpReachable env y \<Longrightarrow> pumpStep env y z \<Longrightarrow> pumpReachable env z"

section \<open>Facts about single steps\<close>

lemmas session_unfold = pushJob_def pushOn_def handleIncomingDatagram_def drainEventualStateFeedback_def
  handleReliableAckControlFrame_def beginClose_def goCloseNow_def closeNow_def shutdown_def signalWake_def
  set_protocol_def Let_def pushStream_def pushUnreliable_def pushRawState_def pushEventual_def

lemmas session_splits = option.splits prod.splits sum.splits if_splits sendJob.splits

lemma closeNow_fields [simp]:
  "cs_streamSend (closeNow s) = cs_streamSend s" "cs_wire (closeNow s) = cs_wire s" "cs_protocol (closeNow s) = cs_protocol s"
  "cs_unreliableSend (closeNow s) = cs_unreliableSend s" "cs_rawStateSend (closeNow s) = cs_rawStateSend s"
  "cs_eventualSend (closeNow s) = cs_eventualSend s" "cs_wake (closeNow s) = cs_wake s"
  by (simp_all add: closeNow_def beginClose_def Let_def)

lemma thread_stream:
  assumes "sessStep env pc s = (pc', s')"
  shows "cs_streamSend s' = cs_streamSend s @ acceptedBy pc s \<and> cs_wire s' = cs_wire s"
proof (cases pc)
  case (SdPush j)
  then show ?thesis using assms by (auto simp: session_unfold acceptedBy_def split: session_splits)
qed (use assms in \<open>auto simp: session_unfold acceptedBy_def split: session_splits\<close>)

definition wireBatches :: "wireCall list \<Rightarrow> bytes list list" where
  "wireBatches ws = List.map_filter (\<lambda>w. case w of WireBatch frames ok \<Rightarrow> Some frames | WireDatagram d ok \<Rightarrow> None) ws"

lemma wireBatches_append [simp]: "wireBatches (xs @ ys) = wireBatches xs @ wireBatches ys"
  by (simp add: wireBatches_def map_filter_def)

lemma wireBatches_simps [simp]:
  "wireBatches [] = []" "wireBatches [WireBatch f ok] = [f]" "wireBatches [WireDatagram d ok] = []"
  by (simp_all add: wireBatches_def map_filter_simps)

fun inHand :: "writerPC \<Rightarrow> bytes list list" where
  "inHand (WpWrite (WjBatch frames) c) = [frames]"
| "inHand _ = []"

lemma inHand_written [simp]: "inHand (fst (written c r)) = []"
  by (simp add: written_def split: prod.splits option.splits)

lemmas write_unfold = writeProtocolDatagram_def writeRawStateDatagram_def writeBatch_def written_def
lemmas part_unfold = nextAckForWrite_def tryRecvUnreliable_def tryRecvRawState_def nextEventualStatePacketForWrite_def
  tryRecvStream_def set_protocol_def

lemma part_stream:
  "partStep t part c s = (pc', s') \<Longrightarrow> inHand pc' @ cs_streamSend s' = cs_streamSend s \<and> cs_wire s' = cs_wire s"
proof (cases part)
  case (DpReliable bs)
  then show "partStep t part c s = (pc', s') \<Longrightarrow> ?thesis"
    by (cases bs) (auto simp: part_unfold split: option.splits prod.splits pick.splits sum.splits)
qed (auto simp: part_unfold split: option.splits prod.splits pick.splits list.splits sum.splits)

lemma writer_stream:
  assumes "writerStep env t pc s = (pc', s')" "[] \<notin> set (inHand pc)"
  shows "wireBatches (cs_wire s') @ inHand pc' @ cs_streamSend s' = wireBatches (cs_wire s) @ inHand pc @ cs_streamSend s"
proof (cases pc)
  case (WpPart part c)
  then show ?thesis using part_stream [of t part c s pc' s'] assms by simp
next
  case (WpWrite job c)
  then show ?thesis using assms
    by (cases job) (auto simp: write_unfold set_protocol_def split: option.splits prod.splits if_splits sum.splits)
next
  case (WpWake part now)
  then show ?thesis using assms
    by (cases part) (auto simp: set_protocol_def split: option.splits prod.splits if_splits)
qed (use assms in \<open>auto split: if_splits\<close>)

section \<open>The stream\<close>

definition wireOK :: "wireCall \<Rightarrow> bool" where
  "wireOK w = (case w of WireBatch frames ok \<Rightarrow> ok | WireDatagram d ok \<Rightarrow> ok)"

definition writesOK :: "wireCall list \<Rightarrow> writerPC \<Rightarrow> bool" where
  "writesOK ws pc \<longleftrightarrow> list_all wireOK (butlast ws) \<and> (list_all wireOK ws \<or> pc = WpClose \<or> pc = WpExit)"

lemma writesOK_same: "writesOK ws pc \<Longrightarrow> pc \<noteq> WpClose \<Longrightarrow> pc \<noteq> WpExit \<Longrightarrow> writesOK ws pc'"
  by (simp add: writesOK_def)

lemma writesOK_snoc: "writesOK ws pc \<Longrightarrow> pc \<noteq> WpClose \<Longrightarrow> pc \<noteq> WpExit \<Longrightarrow> wireOK w \<or> pc' = WpClose \<Longrightarrow> writesOK (ws @ [w]) pc'"
  by (auto simp: writesOK_def)

lemma writer_writes:
  assumes "writerStep env t pc s = (pc', s')" "writesOK (cs_wire s) pc"
  shows "writesOK (cs_wire s') pc'"
proof (cases pc)
  case (WpPart part c)
  then show ?thesis using part_stream [of t part c s pc' s'] assms by (auto intro: writesOK_same)
next
  case (WpWrite job c)
  have m: "list_all wireOK (cs_wire s)" using assms(2) by (simp add: writesOK_def WpWrite)
  show ?thesis using assms(1) m unfolding WpWrite
    by (cases job) (auto simp: write_unfold set_protocol_def writesOK_def wireOK_def list_all_iff dest: in_set_butlastD
        split: option.splits prod.splits if_splits sum.splits)
next
  case (WpWake part now)
  then show ?thesis using assms
    by (cases part) (auto simp: set_protocol_def writesOK_def split: option.splits prod.splits if_splits)
qed (use assms in \<open>auto simp: writesOK_def split: if_splits\<close>)

definition closeInv :: "Session \<Rightarrow> bool" where
  "closeInv s \<longleftrightarrow> cs_closes s = (if cs_closeOnce s then [requestedCloseReason s] else []) \<and> (cs_closeOnce s \<longrightarrow> IsClosing s)"

text \<open>The reason, once given, stays; and the transport is closed with it once at most.\<close>

definition closeKept :: "Session \<Rightarrow> Session \<Rightarrow> bool" where
  "closeKept s s' \<longleftrightarrow> (\<forall>r. cs_closeState s = Some r \<longrightarrow> cs_closeState s' = Some r) \<and> (closeInv s \<longrightarrow> closeInv s')
     \<and> (cs_closeOnce s \<longrightarrow> cs_closeOnce s')"

lemma closeKept_same:
  "cs_closeState s' = cs_closeState s \<Longrightarrow> cs_closeOnce s' = cs_closeOnce s \<Longrightarrow> cs_closes s' = cs_closes s \<Longrightarrow> closeKept s s'"
  by (simp add: closeKept_def closeInv_def requestedCloseReason_def IsClosing_def)

lemma closeKept_closeNow: "closeKept s (closeNow s)" "IsClosing (closeNow s)" "cs_closeOnce (closeNow s)"
  by (auto simp: closeKept_def closeInv_def closeNow_def beginClose_def requestedCloseReason_def IsClosing_def Let_def)

lemma closeKept_begin: "closeKept s (snd (beginClose r s))" "closeKept s (goCloseNow (snd (beginClose r s)))"
  by (auto simp: closeKept_def closeInv_def beginClose_def goCloseNow_def requestedCloseReason_def IsClosing_def Let_def)

lemma thread_close:
  assumes "sessStep env pc s = (pc', s')"
  shows "closeKept s s'"
proof (cases pc)
  case (SdPush j)
  then show ?thesis using assms by (auto simp: session_unfold intro!: closeKept_same split: session_splits)
next
  case SdOverflow
  then show ?thesis using assms closeKept_begin [of s "''''"] by (auto split: prod.splits simp: closeKept_same)
next
  case (ClBegin r wait)
  then show ?thesis using assms closeKept_begin [of s r] by (cases "beginClose r s") (auto split: if_splits bool.splits)
next
  case ClShutdown
  then show ?thesis using assms closeKept_begin(1) [of s "''''"] by (simp add: shutdown_def)
next
  case ClNow
  then show ?thesis using assms closeKept_closeNow by auto
qed (use assms in \<open>auto simp: session_unfold intro!: closeKept_same split: session_splits\<close>)

lemma writer_close:
  assumes "writerStep env t pc s = (pc', s')"
  shows "closeKept s s'" and "pc' = WpExit \<Longrightarrow> pc \<noteq> WpExit \<Longrightarrow> cs_closeOnce s'"
proof -
  show "closeKept s s'"
  proof (cases pc)
    case (WpPart part c)
    then show ?thesis using assms
    proof (cases part)
      case (DpReliable bs)
      then show ?thesis using assms WpPart
        by (cases bs) (auto simp: part_unfold intro!: closeKept_same split: option.splits prod.splits pick.splits)
    qed (auto simp: part_unfold intro!: closeKept_same split: option.splits prod.splits pick.splits list.splits sum.splits)
  next
    case (WpWrite job c)
    then show ?thesis using assms
      by (cases job) (auto simp: write_unfold set_protocol_def intro!: closeKept_same
          split: option.splits prod.splits if_splits sum.splits)
  next
    case (WpWake part now)
    then show ?thesis using assms
      by (cases part) (auto simp: set_protocol_def intro!: closeKept_same split: option.splits prod.splits if_splits)
  next
    case WpClose
    then show ?thesis using assms closeKept_closeNow by auto
  qed (use assms in \<open>auto intro!: closeKept_same split: if_splits\<close>)
  show "pc' = WpExit \<Longrightarrow> pc \<noteq> WpExit \<Longrightarrow> cs_closeOnce s'"
  proof (cases pc)
    case (WpPart part c)
    then show "pc' = WpExit \<Longrightarrow> ?thesis" using assms
    proof (cases part)
      case (DpReliable bs)
      then show "pc' = WpExit \<Longrightarrow> ?thesis" using assms WpPart
        by (cases bs) (auto split: option.splits prod.splits pick.splits)
    qed (auto split: option.splits prod.splits pick.splits list.splits sum.splits)
  next
    case (WpWrite job c)
    then show "pc' = WpExit \<Longrightarrow> ?thesis" using assms
      by (cases job) (auto simp: written_def split: option.splits prod.splits if_splits sum.splits)
  next
    case (WpWake part now)
    then show "pc' = WpExit \<Longrightarrow> ?thesis" using assms
      by (cases part) (auto split: option.splits prod.splits if_splits)
  next
    case WpClose
    then show ?thesis using assms closeKept_closeNow by auto
  qed (use assms in \<open>auto split: if_splits\<close>)
qed

definition jobOK :: "sessPC \<Rightarrow> bool" where
  "jobOK pc \<longleftrightarrow> pc \<noteq> SdPush (JobStream [])"

text \<open>The stream lane: what was written, what the pump holds, what is queued.\<close>

definition streamLane :: "writerPC \<Rightarrow> Session \<Rightarrow> bytes list list" where
  "streamLane pc s = wireBatches (cs_wire s) @ inHand pc @ cs_streamSend s"

text \<open>What holds in every reachable state of the stream lane and of the close state.\<close>

definition pumpInv :: "pumpSystem \<Rightarrow> bool" where
  "pumpInv y \<longleftrightarrow>
     py_accepted y = streamLane (py_writer y) (py_ses y)
     \<and> [] \<notin> set (streamLane (py_writer y) (py_ses y)) \<and> list_all jobOK (py_threads y)
     \<and> length (cs_streamSend (py_ses y)) \<le> sendBufSize
     \<and> (py_refused y \<noteq> [] \<longrightarrow> IsClosing (py_ses y) \<or> SdOverflow \<in> set (py_threads y))
     \<and> writesOK (cs_wire (py_ses y)) (py_writer y) \<and> closeInv (py_ses y)
     \<and> (py_writer y = WpExit \<longrightarrow> cs_closeOnce (py_ses y))"

lemma pumpInv_start: "pumpInv (pumpStart i datagrams)"
  by (simp add: pumpInv_def streamLane_def pumpStart_def newSession_def Let_def writesOK_def closeInv_def)

lemma IsClosing_mono: "closeKept s s' \<Longrightarrow> IsClosing s \<Longrightarrow> IsClosing s'"
  by (auto simp: closeKept_def IsClosing_def)

lemma thread_jobOK: "sessStep env pc s = (pc', s') \<Longrightarrow> jobOK pc'"
  by (cases pc) (auto simp: jobOK_def supported_def pushJob_def pushOn_def split: session_splits bool.splits)

lemma acceptedBy_OK: "jobOK pc \<Longrightarrow> [] \<notin> set (acceptedBy pc s)"
  by (auto simp: jobOK_def acceptedBy_def split: sessPC.splits sendJob.splits if_splits)

lemma acceptedBy_room: "acceptedBy pc s = [] \<or> (length (acceptedBy pc s) = 1 \<and> length (cs_streamSend s) < sendBufSize)"
  by (auto simp: acceptedBy_def split: sessPC.splits sendJob.splits)

lemma refusedBy_closes:
  assumes "sessStep env pc s = (pc', s')" "refusedBy pc s \<noteq> [] \<or> pc = SdOverflow"
  shows "IsClosing s' \<or> pc' = SdOverflow"
  using assms by (cases pc) (auto simp: refusedBy_def session_unfold IsClosing_def split: session_splits)

lemma set_update_other: "x \<in> set xs \<Longrightarrow> x \<noteq> xs ! k \<Longrightarrow> x \<in> set (xs[k := y])"
  by (metis in_set_conv_nth length_list_update nth_list_update_neq)

lemma pumpInv_thread:
  assumes "pumpInv y" "k < length (py_threads y)" "sessStep env (py_threads y ! k) (py_ses y) = (pc, s)"
  shows "pumpInv (y\<lparr>py_ses := s, py_threads := (py_threads y)[k := pc],
          py_accepted := py_accepted y @ acceptedBy (py_threads y ! k) (py_ses y),
          py_refused := py_refused y @ refusedBy (py_threads y ! k) (py_ses y)\<rparr>)"
proof -
  let ?pc = "py_threads y ! k" and ?s = "py_ses y"
  have S: "cs_streamSend s = cs_streamSend ?s @ acceptedBy ?pc ?s" "cs_wire s = cs_wire ?s"
    using thread_stream [OF assms(3)] by auto
  then have V: "streamLane (py_writer y) s = streamLane (py_writer y) ?s @ acceptedBy ?pc ?s" by (simp add: streamLane_def)
  have ok: "jobOK ?pc" "list_all jobOK ((py_threads y)[k := pc])"
    using assms(1,2) thread_jobOK [OF assms(3)]
    by (auto simp: pumpInv_def list_all_iff dest!: subsetD [OF set_update_subset_insert])
  have len: "length (cs_streamSend s) \<le> sendBufSize"
    using acceptedBy_room [of ?pc ?s] assms(1) by (auto simp: S pumpInv_def)
  have K: "closeKept ?s s" by (rule thread_close [OF assms(3)])
  have ref: "IsClosing s \<or> SdOverflow \<in> set ((py_threads y)[k := pc])"
    if "py_refused y @ refusedBy ?pc ?s \<noteq> []"
  proof (cases "refusedBy ?pc ?s \<noteq> [] \<or> ?pc = SdOverflow")
    case True
    then show ?thesis using refusedBy_closes [OF assms(3)] assms(2) by (metis set_update_memI)
  next
    case False
    then have "IsClosing ?s \<or> SdOverflow \<in> set (py_threads y)" using that assms(1) by (auto simp: pumpInv_def)
    then show ?thesis using IsClosing_mono [OF K] set_update_other False by metis
  qed
  have O: "cs_closeOnce ?s \<longrightarrow> cs_closeOnce s" and C: "closeInv ?s \<longrightarrow> closeInv s" using K by (auto simp: closeKept_def)
  show ?thesis
    using assms(1) ok acceptedBy_OK [OF ok(1), of ?s] len ref O C by (simp add: pumpInv_def S V)
qed

lemma pumpInv_close:
  assumes "pumpInv y"
  shows "pumpInv (y\<lparr>py_ses := closeNow ((py_ses y)\<lparr>cs_closers := n\<rparr>)\<rparr>)"
proof -
  have c: "closeInv ((py_ses y)\<lparr>cs_closers := n\<rparr>)"
    using assms by (simp add: pumpInv_def closeInv_def requestedCloseReason_def IsClosing_def)
  then show ?thesis
    using assms closeKept_closeNow [of "(py_ses y)\<lparr>cs_closers := n\<rparr>"] by (simp add: pumpInv_def closeKept_def streamLane_def)
qed

lemma writer_len:
  assumes "writerStep env t pc s = (pc', s')"
  shows "length (cs_streamSend s') \<le> length (cs_streamSend s)"
proof (cases pc)
  case (WpPart part c)
  then have "inHand pc' @ cs_streamSend s' = cs_streamSend s" using part_stream [of t part c s pc' s'] assms by simp
  then show ?thesis by (metis le_add2 length_append)
next
  case (WpWrite job c)
  then show ?thesis using assms
    by (cases job) (auto simp: write_unfold set_protocol_def split: option.splits prod.splits if_splits sum.splits)
next
  case (WpWake part now)
  then show ?thesis using assms
    by (cases part) (auto simp: set_protocol_def split: option.splits prod.splits if_splits)
qed (use assms in \<open>auto split: if_splits\<close>)

lemma pumpInv_writer:
  assumes "pumpInv y" "writerStep env t (py_writer y) (py_ses y) = (pc, s)"
  shows "pumpInv (y\<lparr>py_ses := s, py_writer := pc\<rparr>)"
proof -
  have ne: "[] \<notin> set (inHand (py_writer y))" using assms(1) by (simp add: pumpInv_def streamLane_def)
  have W: "streamLane pc s = streamLane (py_writer y) (py_ses y)"
    using writer_stream [OF assms(2) ne] by (simp add: streamLane_def)
  have K: "closeKept (py_ses y) s" by (rule writer_close(1) [OF assms(2)])
  have len: "length (cs_streamSend s) \<le> length (cs_streamSend (py_ses y))" by (rule writer_len [OF assms(2)])
  have "py_writer y = WpExit \<Longrightarrow> s = py_ses y \<and> pc = WpExit" using assms(2) by simp
  then have X: "pc = WpExit \<longrightarrow> cs_closeOnce s" using assms(1) writer_close(2) [OF assms(2)] by (auto simp: pumpInv_def)
  show ?thesis
    using assms(1) writer_writes [OF assms(2)] K len IsClosing_mono [OF K] X
    by (auto simp: pumpInv_def W closeKept_def)
qed

lemma pumpStep_inv: "pumpStep env y z \<Longrightarrow> pumpInv y \<Longrightarrow> pumpInv z"
proof (induction rule: pumpStep.induct)
  case (call pc y)
  then show ?case by (cases rule: callStart.cases) (auto simp: pumpInv_def jobOK_def streamLane_def)
next
  case (thread k y pc s)
  then show ?case by (intro pumpInv_thread)
next
  case (goClose y n)
  then show ?case by (intro pumpInv_close)
next
  case (writer t y pc s)
  then show ?case by (intro pumpInv_writer)
qed (auto simp: pumpInv_def streamLane_def writesOK_def closeInv_def requestedCloseReason_def IsClosing_def)

lemma pumpReachable_inv: "pumpReachable env y \<Longrightarrow> pumpInv y"
  by (induction rule: pumpReachable.induct) (auto intro: pumpInv_start pumpStep_inv)

section \<open>When the pump has to wake\<close>

definition wakeTime :: "time \<Rightarrow> Session \<Rightarrow> time option" where
  "wakeTime now s = (case cs_protocol s of None \<Rightarrow> None | Some p \<Rightarrow> fst (nextWakeTime now p))"

lemma earliestExpiry_Nil [simp]: "earliestExpiry [] = 0"
  by (simp add: earliestExpiry_def)

definition currentExpiry :: "datagramProtocolState \<Rightarrow> time" where
  "currentExpiry p =
     (if ps_eventualExpiry p = 0 \<and> gm_len (ps_inFlightEventual p) > 0 then earliestExpiry (map snd (ps_inFlightEventual p))
      else ps_eventualExpiry p)"

lemma nextWake_eq:
  "fst (nextWakeTime now p) =
     (let wake = (if ps_ackDirty p
                  then if ps_ackDueAt p = 0 \<or> \<not> ps_ackDueAt p > now then addWake now now None
                       else addWake now (ps_ackDueAt p) None
                  else None);
          wake = fold (addReliableWake now) (ps_pendingOrdered p) wake;
          wake = fold (addReliableWake now) (ps_pendingUnordered p) wake;
          wake = (if pendingEventualLen (ps_pendingEventual p) > 0 then addWake now now wake else wake);
          wake = (if currentExpiry p \<noteq> 0 then addWake now (currentExpiry p) wake else wake)
      in if or_gapSince (ps_orderedRecv p) \<noteq> 0
         then addWake now (or_gapSince (ps_orderedRecv p) + datagramReliableOrderedGapTimeout) wake else wake)"
proof -
  let ?q = "if ps_eventualExpiry p = 0 \<and> gm_len (ps_inFlightEventual p) > 0 then recomputeEventualExpiry p else p"
  have "ps_eventualExpiry ?q = currentExpiry p" "ps_orderedRecv ?q = ps_orderedRecv p"
    by (simp_all add: recomputeEventualExpiry_def currentExpiry_def)
  then show ?thesis by (simp only: nextWakeTime_def Let_def fst_conv)
qed

lemma nextWake_cong:
  assumes "ps_ackDirty p' = ps_ackDirty p" "ps_ackDueAt p' = ps_ackDueAt p" "ps_pendingOrdered p' = ps_pendingOrdered p"
    "ps_pendingUnordered p' = ps_pendingUnordered p" "ps_pendingEventual p' = ps_pendingEventual p"
    "currentExpiry p' = currentExpiry p" "ps_orderedRecv p' = ps_orderedRecv p"
  shows "fst (nextWakeTime t p') = fst (nextWakeTime t p)"
  unfolding nextWake_eq assms ..

lemma nextWake_stable: "nextWakeTime now p = (w, p') \<Longrightarrow> fst (nextWakeTime now p') = w"
proof -
  assume a: "nextWakeTime now p = (w, p')"
  then have p': "p' = (if ps_eventualExpiry p = 0 \<and> gm_len (ps_inFlightEventual p) > 0 then recomputeEventualExpiry p else p)"
    by (simp add: nextWakeTime_def Let_def)
  have "fst (nextWakeTime now p') = fst (nextWakeTime now p)"
    by (rule nextWake_cong) (auto simp: p' recomputeEventualExpiry_def currentExpiry_def)
  then show ?thesis using a by simp
qed

lemma pruneLoop_changed: "pr_changed r \<Longrightarrow> pr_changed (pruneLoop a am now r q)"
  by (induction q arbitrary: r) (auto simp: Let_def split: packetAckStatus.splits)

lemma pruneLoop_unchanged:
  "\<not> pr_changed (pruneLoop a am now r q) \<Longrightarrow> pr_kept (pruneLoop a am now r q) = pr_kept r @ q"
  by (induction q arbitrary: r) (auto simp: Let_def pruneLoop_changed split: packetAckStatus.splits)

lemma pruneReliable_unchanged: "pruneReliableQueue a am now q = ((False, None), q') \<Longrightarrow> q' = q"
  using pruneLoop_unchanged [of a am now "\<lparr>pr_kept = [], pr_seen = [], pr_changed = False, pr_stalled = False\<rparr>" q]
  by (auto simp: pruneReliableQueue_def Let_def split: if_splits)

lemma pruneEventual_changed: "pruneEventualLoop a am now ks True p = ((c, e), p') \<Longrightarrow> c"
  by (induction ks arbitrary: p) (auto simp: Let_def split: packetAckStatus.splits option.splits if_splits)

lemma pruneEventual_unchanged: "pruneEventualLoop a am now ks False p = ((False, None), p') \<Longrightarrow> p' = p"
  by (induction ks arbitrary: p)
    (auto simp: Let_def dest: pruneEventual_changed split: packetAckStatus.splits option.splits if_splits)

lemma prune_unchanged: "pruneAckedMessages ks a am now p = ((False, None), p') \<Longrightarrow> p' = p"
  by (auto simp: pruneAckedMessages_def pruneEventualState_def
      dest!: pruneReliable_unchanged pruneEventual_unchanged split: prod.splits if_splits)

lemma acks_unchanged: "applyPeerAcks ks a am now p = ((False, None), p') \<Longrightarrow> fst (nextWakeTime t p') = fst (nextWakeTime t p)"
  by (auto simp: applyPeerAcks_def currentExpiry_def intro!: nextWake_cong dest!: prune_unchanged split: if_splits)

lemma acks_counted:
  "fst (nextWakeTime t (p\<lparr>ps_inboundPackets := n\<rparr>)) = fst (nextWakeTime t p)"
  "fst (nextWakeTime t (p\<lparr>ps_inboundAckOnly := n\<rparr>)) = fst (nextWakeTime t p)"
  "fst (nextWakeTime t (p\<lparr>ps_recvPackets := w\<rparr>)) = fst (nextWakeTime t p)"
  "fst (nextWakeTime t (p\<lparr>ps_eventualFeedback := fs\<rparr>)) = fst (nextWakeTime t p)"
  "fst (nextWakeTime t (p\<lparr>ps_nextMessageID := m\<rparr>)) = fst (nextWakeTime t p)"
  "fst (nextWakeTime t (p\<lparr>ps_nextMessageID := m, ps_nextOrderedSeq := o'\<rparr>)) = fst (nextWakeTime t p)"
  by (rule nextWake_cong; simp add: currentExpiry_def)+

lemma deliver_wakes: "deliverPayload packet now p = (Inr (ds, wake), p') \<Longrightarrow> wake"
  by (auto simp: deliverPayload_def Let_def split: if_splits prod.splits)

lemma incoming_unchanged:
  assumes "handleIncoming ks now data p = (Inr (ds, False), p')"
  shows "fst (nextWakeTime t p') = fst (nextWakeTime t p)"
proof -
  obtain packet where d: "decodeDatagramPacket data = Inr packet" using assms by (auto simp: handleIncoming_def split: sum.splits)
  obtain c e p1 where a: "applyPeerAcks ks (dp_ackSeq packet) (dp_ackMask packet) now (p\<lparr>ps_inboundPackets := ps_inboundPackets p + 1\<rparr>) = ((c, e), p1)"
    by (metis prod.collapse)
  have e: "e = None" "\<not> c" and p': "p' = p1\<lparr>ps_inboundAckOnly := ps_inboundAckOnly p1 + 1\<rparr> \<or> (\<exists>w. p' = p1\<lparr>ps_recvPackets := w\<rparr>)"
    using assms d a by (auto simp: handleIncoming_def Let_def dest: deliver_wakes split: option.splits if_splits prod.splits)
  have "fst (nextWakeTime t p1) = fst (nextWakeTime t p)"
    using acks_unchanged [of ks _ _ now "p\<lparr>ps_inboundPackets := ps_inboundPackets p + 1\<rparr>" p1 t] a e by (simp add: acks_counted)
  then show ?thesis using p' acks_counted by metis
qed

lemma enqueueReliable_refused:
  "enqueueReliable ln data now p = (Some err, p') \<Longrightarrow> fst (nextWakeTime t p') = fst (nextWakeTime t p)"
  by (auto simp: enqueueReliable_def Let_def acks_counted split: option.splits if_splits)

lemma feedback_wake: "drainEventualFeedback p = (fs, p') \<Longrightarrow> fst (nextWakeTime t p') = fst (nextWakeTime t p)"
  by (auto simp: drainEventualFeedback_def acks_counted split: if_splits)

text \<open>A goroutine that will still signal the pump, or close the session.\<close>

fun isWaker :: "sessPC \<Rightarrow> bool" where
  "isWaker SdSignal = True"
| "isWaker (RdFeedback wake err) = (wake \<or> err)"
| "isWaker (RdWake wake err) = (wake \<or> err)"
| "isWaker ClNow = True"
| "isWaker _ = False"

definition awake :: "pumpSystem \<Rightarrow> bool" where
  "awake y \<longleftrightarrow> cs_wake (py_ses y) \<or> IsClosing (py_ses y) \<or> (\<exists>pc \<in> set (py_threads y). isWaker pc)"

text \<open>The queues found empty before the given check.\<close>

fun quiet :: "wakePart \<Rightarrow> Session \<Rightarrow> bool" where
  "quiet WkStream s = True"
| "quiet WkUnreliable s = (cs_streamSend s = [])"
| "quiet WkRawState s = (cs_streamSend s = [] \<and> cs_unreliableSend s = [])"
| "quiet WkEventual s = (cs_streamSend s = [] \<and> cs_unreliableSend s = [] \<and> cs_rawStateSend s = [])"
| "quiet WkProtocol s =
     (cs_streamSend s = [] \<and> cs_unreliableSend s = [] \<and> cs_rawStateSend s = [] \<and> cs_eventualSend s = [])"

definition resting :: "writerPC \<Rightarrow> Session \<Rightarrow> bool" where
  "resting pc s =
     (case pc of
        WpWake part now \<Rightarrow> quiet part s
      | WpSelect now timer \<Rightarrow> quiet WkProtocol s \<and> wakeTime now s = timer
      | _ \<Rightarrow> True)"

definition sameWork :: "Session \<Rightarrow> Session \<Rightarrow> bool" where
  "sameWork s s' \<longleftrightarrow> cs_streamSend s' = cs_streamSend s \<and> cs_unreliableSend s' = cs_unreliableSend s
     \<and> cs_rawStateSend s' = cs_rawStateSend s \<and> cs_eventualSend s' = cs_eventualSend s \<and> (\<forall>t. wakeTime t s' = wakeTime t s)"

lemma resting_same: "sameWork s s' \<Longrightarrow> resting pc s \<Longrightarrow> resting pc s'"
proof (cases pc)
  case (WpWake part now)
  then show "sameWork s s' \<Longrightarrow> resting pc s \<Longrightarrow> ?thesis" by (cases part) (auto simp: sameWork_def resting_def)
qed (auto simp: sameWork_def resting_def)

lemma sameWork_fields:
  "cs_streamSend s' = cs_streamSend s \<Longrightarrow> cs_unreliableSend s' = cs_unreliableSend s \<Longrightarrow> cs_rawStateSend s' = cs_rawStateSend s
     \<Longrightarrow> cs_eventualSend s' = cs_eventualSend s \<Longrightarrow> cs_protocol s' = cs_protocol s \<Longrightarrow> sameWork s s'"
  by (simp add: sameWork_def wakeTime_def)

lemma acks_feedback:
  "applyPeerAcks ks a am now p = ((False, None), p1) \<Longrightarrow> drainEventualFeedback p1 = (fs, p2)
     \<Longrightarrow> fst (nextWakeTime t p2) = fst (nextWakeTime t p)"
  by (simp add: acks_unchanged feedback_wake)

text \<open>A change that adds work leaves a goroutine that will signal it.\<close>

lemma thread_work:
  assumes "sessStep env pc s = (pc', s')"
  shows "isWaker pc' \<or> sameWork s s'"
proof (cases pc)
  case (SdPush j)
  show ?thesis
  proof (cases j)
    case (JobReliable l d t)
    then show ?thesis using assms SdPush
      by (auto simp: pushJob_def set_protocol_def sameWork_def wakeTime_def dest: enqueueReliable_refused split: option.splits prod.splits)
  qed (use assms SdPush in \<open>auto simp: pushJob_def pushOn_def sameWork_fields split: if_splits\<close>)
next
  case (RdHandle now data)
  then show ?thesis using assms
    by (auto simp: handleIncomingDatagram_def set_protocol_def sameWork_def wakeTime_def dest: incoming_unchanged
        split: option.splits prod.splits sum.splits)
next
  case (RdFeedback wake err)
  then show ?thesis using assms
    by (auto simp: drainEventualStateFeedback_def set_protocol_def sameWork_def wakeTime_def dest: feedback_wake
        split: option.splits prod.splits)
next
  case (AkHandle now data)
  then show ?thesis using assms
    by (auto simp: handleReliableAckControlFrame_def set_protocol_def sameWork_def wakeTime_def intro!: acks_feedback
        split: option.splits prod.splits sum.splits if_splits)
qed (use assms in \<open>auto simp: beginClose_def goCloseNow_def shutdown_def signalWake_def sameWork_fields
    split: if_splits prod.splits bool.splits\<close>)

lemma thread_awake:
  assumes "sessStep env pc s = (pc', s')"
  shows "cs_wake s \<Longrightarrow> cs_wake s'" and "isWaker pc \<Longrightarrow> isWaker pc' \<or> cs_wake s' \<or> IsClosing s'"
proof -
  show "cs_wake s \<Longrightarrow> cs_wake s'"
    using assms by (cases pc) (auto simp: session_unfold split: session_splits bool.splits)
  show "isWaker pc \<Longrightarrow> isWaker pc' \<or> cs_wake s' \<or> IsClosing s'"
    using assms by (cases pc) (auto simp: signalWake_def closeKept_closeNow split: if_splits)
qed

definition sleepInv :: "pumpSystem \<Rightarrow> bool" where
  "sleepInv y \<longleftrightarrow> awake y \<or> resting (py_writer y) (py_ses y)"

lemma awake_thread:
  assumes "awake y" "k < length (py_threads y)" "sessStep env (py_threads y ! k) (py_ses y) = (pc, s)"
  shows "awake (y\<lparr>py_ses := s, py_threads := (py_threads y)[k := pc], py_accepted := a, py_refused := r\<rparr>)"
proof -
  have m: "cs_wake (py_ses y) \<Longrightarrow> cs_wake s" "IsClosing (py_ses y) \<Longrightarrow> IsClosing s"
    using thread_awake(1) [OF assms(3)] IsClosing_mono [OF thread_close [OF assms(3)]] by auto
  have "isWaker pc \<or> cs_wake s \<or> IsClosing s \<or> (\<exists>pc' \<in> set ((py_threads y)[k := pc]). isWaker pc')"
    if "x \<in> set (py_threads y)" "isWaker x" for x
    using that thread_awake(2) [OF assms(3)] set_update_other [of x "py_threads y" k pc] by metis
  then show ?thesis using assms(1,2) m set_update_memI [of k "py_threads y" pc] by (auto simp: awake_def)
qed

lemma writer_wake:
  assumes "writerStep env t pc s = (pc', s')"
  shows "cs_wake s' = cs_wake s" and "resting pc s \<Longrightarrow> resting pc' s'"
proof -
  show "cs_wake s' = cs_wake s"
  proof (cases pc)
    case (WpPart part c)
    then show ?thesis using assms
    proof (cases part)
      case (DpReliable bs)
      then show ?thesis using assms WpPart
        by (cases bs) (auto simp: part_unfold split: option.splits prod.splits pick.splits)
    qed (auto simp: part_unfold split: option.splits prod.splits pick.splits list.splits sum.splits)
  next
    case (WpWrite job c)
    then show ?thesis using assms
      by (cases job) (auto simp: write_unfold set_protocol_def split: option.splits prod.splits if_splits sum.splits)
  next
    case (WpWake part now)
    then show ?thesis using assms
      by (cases part) (auto simp: set_protocol_def split: option.splits prod.splits if_splits)
  qed (use assms in \<open>auto split: if_splits\<close>)
  show "resting pc' s'" if "resting pc s"
  proof (cases pc)
    case (WpPart part c)
    then show ?thesis using assms
    proof (cases part)
      case (DpReliable bs)
      then show ?thesis using assms WpPart
        by (cases bs) (auto simp: resting_def split: option.splits prod.splits pick.splits)
    qed (auto simp: resting_def split: option.splits prod.splits pick.splits list.splits sum.splits)
  next
    case (WpWrite job c)
    then show ?thesis using assms
      by (cases job) (auto simp: written_def resting_def split: option.splits prod.splits if_splits sum.splits)
  next
    case (WpWake part now)
    then show ?thesis using assms that
      by (cases part) (auto simp: set_protocol_def resting_def wakeTime_def dest: nextWake_stable split: option.splits prod.splits if_splits)
  qed (use assms that in \<open>auto simp: resting_def split: if_splits\<close>)
qed

lemma pumpStep_sleep:
  assumes "pumpStep env y z" "sleepInv y"
  shows "sleepInv z"
  using assms
proof (induction rule: pumpStep.induct)
  case (call pc y)
  then show ?case by (auto simp: sleepInv_def awake_def)
next
  case (thread k y pc s)
  show ?case
  proof (cases "awake y \<or> isWaker pc")
    case True
    then show ?thesis using awake_thread [OF _ thread(1,2)] set_update_memI [OF thread(1), of pc]
      unfolding sleepInv_def awake_def by (auto simp del: set_update_memI)
  next
    case False
    then show ?thesis using thread(3) thread_work [OF thread(2)] resting_same unfolding sleepInv_def by auto
  qed
next
  case (goClose y n)
  then show ?case using closeKept_closeNow by (simp add: sleepInv_def awake_def)
next
  case (writer t y pc s)
  have "IsClosing (py_ses y) \<Longrightarrow> IsClosing s" using IsClosing_mono writer_close(1) [OF writer(1)] by blast
  then show ?case using writer(2) writer_wake [OF writer(1)] unfolding sleepInv_def awake_def by auto
qed (auto simp: sleepInv_def resting_def)

lemma pumpReachable_sleep: "pumpReachable env y \<Longrightarrow> sleepInv y"
proof (induction rule: pumpReachable.induct)
  case (start i datagrams)
  then show ?case by (simp add: sleepInv_def resting_def pumpStart_def)
qed (rule pumpStep_sleep)

section \<open>What the goroutines guarantee\<close>

text \<open>
  C4.  Nothing handed to the stream is lost, repeated or reordered: in every reachable state the batches
  accepted from \<^verbatim>\<open>SendBatch\<close>, in the order of their sends, are those written to the transport, then
  the one the pump holds, then those in the queue; the queue is within its capacity; only the last
  write can have failed; and a batch is refused only by a session that is closing or about to.
\<close>

theorem stream_in_order:
  assumes "pumpReachable env y"
  shows "py_accepted y = wireBatches (cs_wire (py_ses y)) @ inHand (py_writer y) @ cs_streamSend (py_ses y)
    \<and> length (cs_streamSend (py_ses y)) \<le> sendBufSize \<and> list_all wireOK (butlast (cs_wire (py_ses y)))
    \<and> (py_refused y \<noteq> [] \<longrightarrow> IsClosing (py_ses y) \<or> SdOverflow \<in> set (py_threads y))"
  using pumpReachable_inv [OF assms] by (simp add: pumpInv_def streamLane_def writesOK_def)

lemma pumpStep_close: "pumpStep env y z \<Longrightarrow> closeKept (py_ses y) (py_ses z)"
proof (induction rule: pumpStep.induct)
  case (thread k y pc s)
  then show ?case using thread_close by auto
next
  case (goClose y n)
  then show ?case
    using closeKept_closeNow(1) [of "(py_ses y)\<lparr>cs_closers := n\<rparr>"]
    by (simp add: closeKept_def closeInv_def [of "py_ses y"] closeInv_def [of "(py_ses y)\<lparr>cs_closers := n\<rparr>"]
        requestedCloseReason_def IsClosing_def)
next
  case (writer t y pc s)
  then show ?case using writer_close(1) by auto
qed (auto intro!: closeKept_same)

lemma pumpSteps_close: "(pumpStep env)\<^sup>*\<^sup>* y z \<Longrightarrow> closeKept (py_ses y) (py_ses z)"
  by (induction rule: rtranclp_induct) (auto simp: closeKept_same closeKept_def dest: pumpStep_close)

lemma pumpSteps_reachable: "(pumpStep env)\<^sup>*\<^sup>* y z \<Longrightarrow> pumpReachable env y \<Longrightarrow> pumpReachable env z"
  by (induction rule: rtranclp_induct) (auto intro: pumpReachable.step)

text \<open>
  The first request to close wins.  Once a session has a reason to close, it keeps that reason
  whatever else happens, the transport is closed at most once and with that reason, and it has been
  closed by the time the write pump has ended.
\<close>

theorem first_close_wins:
  assumes "pumpReachable env y" and "cs_closeState (py_ses y) = Some reason" and "(pumpStep env)\<^sup>*\<^sup>* y z"
  shows "cs_closeState (py_ses z) = Some reason
    \<and> (cs_closes (py_ses z) = [] \<or> cs_closes (py_ses z) = [reason])
    \<and> (py_writer z = WpExit \<longrightarrow> cs_closes (py_ses z) = [reason])"
proof -
  have "pumpInv z" by (rule pumpReachable_inv [OF pumpSteps_reachable [OF assms(3,1)]])
  moreover have "cs_closeState (py_ses z) = Some reason" using pumpSteps_close [OF assms(3)] assms(2) by (simp add: closeKept_def)
  ultimately show ?thesis by (auto simp: pumpInv_def closeInv_def requestedCloseReason_def)
qed

text \<open>Everything the protocol has to do is due no earlier than the timer fires.\<close>

definition deadlinesMet :: "time \<Rightarrow> time option \<Rightarrow> datagramProtocolState \<Rightarrow> bool" where
  "deadlinesMet now timer p \<longleftrightarrow>
     (ps_ackDirty p \<longrightarrow> wakes_by timer (max now (ps_ackDueAt p)))
     \<and> (\<forall>m \<in> set (ps_pendingOrdered p @ ps_pendingUnordered p).
          wakes_by timer (rm_due now m) \<and> wakes_by timer (rm_expiry now m))
     \<and> (pendingEventualLen (ps_pendingEventual p) > 0 \<longrightarrow> wakes_by timer now)
     \<and> (eventualDeadline p \<noteq> 0 \<longrightarrow> wakes_by timer (eventualDeadline p))
     \<and> (or_gapSince (ps_orderedRecv p) \<noteq> 0 \<longrightarrow>
          wakes_by timer (orNow now (or_gapSince (ps_orderedRecv p) + datagramReliableOrderedGapTimeout)))"

text \<open>
  C5.  The write pump never sleeps while there is work.  Whenever it waits, with no wake-up signal
  pending, the session open and no goroutine on its way to signal or close, all four queues are
  empty and the timer fires no later than any deadline of the protocol: an owed acknowledgement, the
  next send of every reliable message and the end of its time to live, queued eventual state, the
  expiry of eventual state in flight, the end of an open gap.  It holds for every interleaving of
  senders, readers and pump, so no wake-up is lost.
\<close>

theorem pump_never_oversleeps:
  assumes "pumpReachable env y" and "py_writer y = WpSelect now timer" and "\<not> awake y"
  shows "cs_streamSend (py_ses y) = [] \<and> cs_unreliableSend (py_ses y) = [] \<and> cs_rawStateSend (py_ses y) = []
    \<and> cs_eventualSend (py_ses y) = [] \<and> (\<forall>p. cs_protocol (py_ses y) = Some p \<longrightarrow> deadlinesMet now timer p)"
proof -
  have R: "quiet WkProtocol (py_ses y)" "wakeTime now (py_ses y) = timer"
    using pumpReachable_sleep [OF assms(1)] assms(2,3) by (simp_all add: sleepInv_def resting_def)
  have "deadlinesMet now timer p" if p: "cs_protocol (py_ses y) = Some p" for p
  proof -
    have t: "timer = fst (nextWakeTime now p)" using R(2) p by (simp add: wakeTime_def)
    show ?thesis unfolding deadlinesMet_def t using wake_no_missed_deadline [of p now] by blast
  qed
  then show ?thesis using R(1) by simp
qed

section \<open>A drain\<close>

text \<open>The lock sections leave the wire and the other queues alone.\<close>

definition keepsQueues :: "Session \<Rightarrow> Session \<Rightarrow> bool" where
  "keepsQueues s s' \<longleftrightarrow> cs_wire s' = cs_wire s \<and> cs_streamSend s' = cs_streamSend s
     \<and> cs_unreliableSend s' = cs_unreliableSend s \<and> cs_rawStateSend s' = cs_rawStateSend s
     \<and> (cs_protocol s' = None) = (cs_protocol s = None)"

lemma moveEventual_all: "moveEventual q p = ((None, q'), p') \<Longrightarrow> q' = []"
  by (induction q arbitrary: p) (auto split: prod.splits option.splits)

lemma pick_frames:
  "nextAckForWrite now s = (r, s') \<Longrightarrow> keepsQueues s s' \<and> cs_eventualSend s' = cs_eventualSend s"
  "nextReliablePacketForWrite now ar pf s = (r2, s') \<Longrightarrow> keepsQueues s s' \<and> cs_eventualSend s' = cs_eventualSend s"
  "nextEventualStatePacketForWrite now s = (r, s') \<Longrightarrow>
     keepsQueues s s' \<and> (cs_protocol s = None \<longrightarrow> s' = s) \<and> (r = SecNone \<and> cs_protocol s \<noteq> None \<longrightarrow> cs_eventualSend s' = [])"
  by (auto simp: keepsQueues_def nextAckForWrite_def nextReliablePacketForWrite_def nextEventualStatePacketForWrite_def
      set_protocol_def Let_def dest: moveEventual_all split: option.splits prod.splits sum.splits)

definition sentOne :: "Session \<Rightarrow> Session \<Rightarrow> bool" where
  "sentOne s s' \<longleftrightarrow> (\<exists>w. wireOK w \<and> cs_wire s' = cs_wire s @ [w])"

lemma writes_sent:
  "writeProtocolDatagram env d s = (None, s') \<Longrightarrow> sentOne s s' \<and> cs_streamSend s' = cs_streamSend s \<and> cs_protocol s' = cs_protocol s \<and> cs_eventualSend s' = cs_eventualSend s"
  "writeRawStateDatagram env d s = (None, s') \<Longrightarrow> sentOne s s' \<and> cs_streamSend s' = cs_streamSend s \<and> cs_protocol s' = cs_protocol s \<and> cs_eventualSend s' = cs_eventualSend s"
  "writeUnreliable env d s = (None, s') \<Longrightarrow> sentOne s s' \<and> cs_streamSend s' = cs_streamSend s \<and> (cs_protocol s' = None) = (cs_protocol s = None) \<and> cs_eventualSend s' = cs_eventualSend s"
  "frames \<noteq> [] \<Longrightarrow> writeBatch env frames s = (None, s') \<Longrightarrow> sentOne s s' \<and> cs_streamSend s' = cs_streamSend s \<and> cs_protocol s' = cs_protocol s \<and> cs_eventualSend s' = cs_eventualSend s"
  by (auto simp: sentOne_def wireOK_def writeUnreliable_def write_unfold set_protocol_def
      split: option.splits prod.splits sum.splits if_splits)

lemma sentOne_cong: "sentOne s s' \<Longrightarrow> cs_wire s = cs_wire s0 \<Longrightarrow> sentOne s0 s'"
  by (simp add: sentOne_def)

text \<open>What a queue can hold: no empty batches, and no eventual state without the protocol.\<close>

definition queuesOK :: "Session \<Rightarrow> bool" where
  "queuesOK s \<longleftrightarrow> [] \<notin> set (cs_streamSend s) \<and> (cs_protocol s = None \<longrightarrow> cs_eventualSend s = [])"

lemma writeOne_sent:
  assumes "writeOne env now budget s = ((sent, None), b, s')" "queuesOK s"
  shows "queuesOK s' \<and> (if sent then sentOne s s' else quiet WkProtocol s' \<and> cs_wire s' = cs_wire s)"
proof -
  obtain r1 s1 where 1: "nextAckForWrite now s = (r1, s1)" by fastforce
  obtain r2 s2 where 2: "tryRecvUnreliable s1 = (r2, s2)" by fastforce
  obtain r3 s3 where 3: "tryRecvRawState s2 = (r3, s3)" by fastforce
  obtain r4 s4 where 4: "nextEventualStatePacketForWrite now s3 = (r4, s4)" by fastforce
  obtain r5 s5 where 5: "nextReliablePacketForWrite now (allowResend budget) (preferFresh budget) s4 = (r5, s5)" by fastforce
  obtain r6 s6 where 6: "tryRecvStream s5 = (r6, s6)" by fastforce
  note K = pick_frames(1) [OF 1] pick_frames(3) [OF 4] pick_frames(2) [OF 5]
  have R2: "if r2 = None then s2 = s1 \<and> cs_unreliableSend s1 = [] else keepsQueues s1 (s2\<lparr>cs_unreliableSend := cs_unreliableSend s1\<rparr>) \<and> cs_eventualSend s2 = cs_eventualSend s1"
    using 2 by (auto simp: tryRecvUnreliable_def keepsQueues_def split: list.splits)
  have R3: "if r3 = None then s3 = s2 \<and> cs_rawStateSend s2 = [] else keepsQueues s2 (s3\<lparr>cs_rawStateSend := cs_rawStateSend s2\<rparr>) \<and> cs_eventualSend s3 = cs_eventualSend s2"
    using 3 by (auto simp: tryRecvRawState_def keepsQueues_def split: list.splits)
  have R6: "case r6 of None \<Rightarrow> s6 = s5 \<and> cs_streamSend s5 = [] | Some f \<Rightarrow> cs_streamSend s5 = f # cs_streamSend s6
      \<and> cs_wire s6 = cs_wire s5 \<and> cs_protocol s6 = cs_protocol s5 \<and> cs_eventualSend s6 = cs_eventualSend s5"
    using 6 by (auto simp: tryRecvStream_def split: list.splits)
  note W = writes_sent [unfolded sentOne_def]
  show ?thesis
  proof (cases r1)
    case (SecPacket d)
    have w: "writeProtocolDatagram env d s1 = (None, s')" "sent" using assms(1) by (auto simp: writeOne_def 1 SecPacket split: prod.splits)
    show ?thesis using W(1) [OF w(1)] w(2) K(1) assms(2) by (auto simp: queuesOK_def keepsQueues_def sentOne_def)
  next
    case SecNone
    note r1 = SecNone
    show ?thesis
    proof (cases r2)
      case (Some d)
      have w: "writeUnreliable env d s2 = (None, s')" "sent" using assms(1) by (auto simp: writeOne_def 1 2 r1 Some split: prod.splits)
      show ?thesis using W(3) [OF w(1)] w(2) K(1) R2 assms(2) Some by (auto simp: queuesOK_def keepsQueues_def sentOne_def)
    next
      case None
      note r2 = None
      show ?thesis
      proof (cases r3)
        case (Some d)
        have w: "writeRawStateDatagram env d s3 = (None, s')" "sent"
          using assms(1) by (auto simp: writeOne_def 1 2 3 r1 r2 Some split: prod.splits)
        show ?thesis using W(2) [OF w(1)] w(2) K(1) R2 R3 assms(2) r2 Some by (auto simp: queuesOK_def keepsQueues_def sentOne_def)
      next
        case None
        note r3 = None
        show ?thesis
        proof (cases r4)
          case (SecPacket d)
          have w: "writeProtocolDatagram env d s4 = (None, s')" "sent"
            using assms(1) by (auto simp: writeOne_def 1 2 3 4 r1 r2 r3 SecPacket split: prod.splits)
          show ?thesis using W(1) [OF w(1)] w(2) K(1,2) R2 R3 assms(2) r2 r3 by (auto simp: queuesOK_def keepsQueues_def sentOne_def)
        next
          case SecNone
          note r4 = SecNone
          show ?thesis
          proof (cases r5)
            case (SecPacket d)
            have w: "writeProtocolDatagram env (fst d) s5 = (None, s')" "sent"
              using assms(1) by (auto simp: writeOne_def 1 2 3 4 5 r1 r2 r3 r4 SecPacket split: prod.splits)
            show ?thesis using W(1) [OF w(1)] w(2) K R2 R3 assms(2) r2 r3 by (auto simp: queuesOK_def keepsQueues_def sentOne_def)
          next
            case SecNone
            note r5 = SecNone
            show ?thesis
            proof (cases r6)
              case None
              have w: "s' = s6" "\<not> sent" using assms(1) by (simp_all add: writeOne_def 1 2 3 4 5 6 r1 r2 r3 r4 r5 None)
              have e: "s2 = s1" "s3 = s1" "s6 = s5" "cs_streamSend s5 = []" "cs_unreliableSend s1 = []" "cs_rawStateSend s1 = []"
                using R2 R3 R6 r2 r3 None by simp_all
              show ?thesis using w(2) K assms(2) r4 unfolding w(1) e(3) by (auto simp: e queuesOK_def keepsQueues_def)
            next
              case (Some f)
              then have "f \<noteq> []" using assms(2) K R2 R3 R6 r2 r3 r4 by (auto simp: queuesOK_def keepsQueues_def)
              moreover have w: "writeBatch env f s6 = (None, s')" "sent"
                using assms(1) by (auto simp: writeOne_def 1 2 3 4 5 6 r1 r2 r3 r4 r5 Some split: prod.splits)
              ultimately show ?thesis using W(4) [OF _ w(1)] w(2) K R2 R3 R6 assms(2) r2 r3 Some
                by (auto simp: queuesOK_def keepsQueues_def sentOne_def)
            qed
          qed (use assms in \<open>simp add: writeOne_def 1 2 3 4 5 r1 r2 r3 r4\<close>)
        qed (use assms in \<open>simp add: writeOne_def 1 2 3 4 r1 r2 r3\<close>)
      qed
    qed
  qed (use assms in \<open>simp add: writeOne_def 1\<close>)
qed


lemma drainOutboundLoop_complete:
  assumes "drainOutboundLoop env clock deadline n budget s = (None, s')" "queuesOK s" "\<forall>k. clock k \<le> deadline"
  shows "\<exists>ws. cs_wire s' = cs_wire s @ ws \<and> list_all wireOK ws \<and> length ws \<le> n \<and> (length ws = n \<or> quiet WkProtocol s')"
  using assms(1,2)
proof (induction n arbitrary: budget s)
  case (Suc n)
  obtain sent e b s1 where w: "writeOne env (clock (Suc n)) (Some budget) s = ((sent, e), b, s1)" by (metis surj_pair)
  have c: "\<not> clock (Suc n) > deadline" using assms(3) by (simp add: not_less)
  have e: "e = None" using Suc.prems(1) w c by (cases e) simp_all
  note W = writeOne_sent [OF w [unfolded e] Suc.prems(2)]
  show ?case
  proof (cases sent)
    case True
    then have "drainOutboundLoop env clock deadline n (case b of None \<Rightarrow> budget | Some b \<Rightarrow> b) s1 = (None, s')"
      using Suc.prems(1) w e c by simp
    then obtain ws where ws: "cs_wire s' = cs_wire s1 @ ws" "list_all wireOK ws" "length ws \<le> n" "length ws = n \<or> quiet WkProtocol s'"
      using Suc.IH W by blast
    obtain x where "wireOK x" "cs_wire s1 = cs_wire s @ [x]" using W True by (auto simp: sentOne_def)
    then show ?thesis using ws by (intro exI [of _ "x # ws"]) auto
  next
    case False
    then have "s' = s1" using Suc.prems(1) w e c by simp
    then show ?thesis using W False by (intro exI [of _ "[]"]) auto
  qed
qed simp

text \<open>
  A drain ends: it writes at most 512 times, and if it ends without an error before its time is
  up, it has either written 512 times or left nothing to write in any of the four queues; every write
  it made succeeded.
\<close>

theorem drain_complete:
  assumes "drainOutbound env start clock s = (None, s')" and "queuesOK s"
    and "\<forall>k. clock k \<le> start + maxDatagramDrainDuration"
  shows "\<exists>ws. cs_wire s' = cs_wire s @ ws \<and> list_all wireOK ws \<and> length ws \<le> maxDatagramDrainSendsPerWake
    \<and> (length ws = maxDatagramDrainSendsPerWake
       \<or> cs_streamSend s' = [] \<and> cs_unreliableSend s' = [] \<and> cs_rawStateSend s' = [] \<and> cs_eventualSend s' = [])"
  using drainOutboundLoop_complete [OF assms(1) [unfolded drainOutbound_def] assms(2,3)] by simp


section \<open>Examples\<close>

text \<open>A schedule: which goroutine moves next; a move that is not possible changes nothing.\<close>

datatype pumpChoice = ChCall sessPC | ChThread nat | ChWriter time | ChWoken

fun isCall :: "sessPC \<Rightarrow> bool" where
  "isCall (SdCheck j) = True"
| "isCall (RdCheck now data) = True"
| "isCall (ClBegin reason wait) = True"
| "isCall _ = False"

fun pumpMove :: "channelEnv \<Rightarrow> pumpChoice \<Rightarrow> pumpSystem \<Rightarrow> pumpSystem" where
  "pumpMove env (ChCall pc) y = (if isCall pc then y\<lparr>py_threads := py_threads y @ [pc]\<rparr> else y)"
| "pumpMove env (ChThread k) y =
     (if k < length (py_threads y)
      then case sessStep env (py_threads y ! k) (py_ses y) of
             (pc, s) \<Rightarrow> y\<lparr>py_ses := s, py_threads := (py_threads y)[k := pc],
                         py_accepted := py_accepted y @ acceptedBy (py_threads y ! k) (py_ses y),
                         py_refused := py_refused y @ refusedBy (py_threads y ! k) (py_ses y)\<rparr>
      else y)"
| "pumpMove env (ChWriter t) y =
     (case writerStep env t (py_writer y) (py_ses y) of (pc, s) \<Rightarrow> y\<lparr>py_ses := s, py_writer := pc\<rparr>)"
| "pumpMove env ChWoken y =
     (case py_writer y of
        WpSelect now timer \<Rightarrow>
          if cs_wake (py_ses y) then y\<lparr>py_writer := WpTop, py_ses := (py_ses y)\<lparr>cs_wake := False\<rparr>\<rparr> else y
      | _ \<Rightarrow> y)"

lemma pumpMove_reachable: "pumpReachable env y \<Longrightarrow> pumpReachable env (pumpMove env c y)"
proof (cases c)
  case (ChCall pc)
  have "isCall pc \<Longrightarrow> callStart pc" by (cases pc) (auto intro: callStart.intros)
  then show "pumpReachable env y \<Longrightarrow> ?thesis" using ChCall by (auto intro: pumpReachable.step pumpStep.call)
next
  case (ChThread k)
  then show "pumpReachable env y \<Longrightarrow> ?thesis"
    by (auto split: prod.splits intro: pumpReachable.step pumpStep.thread)
next
  case (ChWriter t)
  then show "pumpReachable env y \<Longrightarrow> ?thesis"
    by (auto split: prod.splits intro: pumpReachable.step pumpStep.writer)
next
  case ChWoken
  then show "pumpReachable env y \<Longrightarrow> ?thesis"
    by (auto split: writerPC.splits intro: pumpReachable.step pumpStep.woken)
qed

definition pumpRun :: "channelEnv \<Rightarrow> pumpChoice list \<Rightarrow> pumpSystem \<Rightarrow> pumpSystem" where
  "pumpRun env cs y = fold (pumpMove env) cs y"

lemma pumpRun_reachable: "pumpReachable env y \<Longrightarrow> pumpReachable env (pumpRun env cs y)"
  unfolding pumpRun_def by (induction cs arbitrary: y) (auto intro: pumpMove_reachable)

text \<open>A transport that takes everything, and every hook set.\<close>

definition demoChannels :: channelEnv where
  "demoChannels = \<lparr>ce_WriteBatch = (\<lambda>ws fs. None), ce_WriteDatagram = (\<lambda>ws d. None), ce_ordFlight = map fst, ce_onMsg = True,
     ce_onDatagram = True, ce_onReliableUnordered = True, ce_onReliableOrdered = True, ce_onEventualStateFeedback = True\<rparr>"

text \<open>Two batches sent by two goroutines; the pump writes the first.\<close>

definition streamRun :: pumpSystem where
  "streamRun = pumpRun demoChannels
     ([ChCall (SdCheck (JobStream [[1]])), ChCall (SdCheck (JobStream [[2], [3]])), ChThread 1, ChThread 0, ChThread 0, ChThread 1]
      @ replicate 9 (ChWriter 5)) (pumpStart 7 False)"

lemma streamRun_reachable: "pumpReachable demoChannels streamRun"
  unfolding streamRun_def by (rule pumpRun_reachable) (rule pumpReachable.start)

theorem stream_in_order_witness:
  "py_accepted streamRun = wireBatches (cs_wire (py_ses streamRun)) @ inHand (py_writer streamRun) @ cs_streamSend (py_ses streamRun)
     \<and> py_accepted streamRun = [[[1]], [[2], [3]]] \<and> cs_wire (py_ses streamRun) = [WireBatch [[1]] True]"
proof -
  have "py_accepted streamRun = [[[1]], [[2], [3]]]" "cs_wire (py_ses streamRun) = [WireBatch [[1]] True]" by code_simp+
  then show ?thesis using stream_in_order [OF streamRun_reachable] by blast
qed

text \<open>A request with a reason, then another close, and the pump ends.\<close>

definition closeRun :: pumpSystem where
  "closeRun = pumpRun demoChannels [ChCall (ClBegin ''kick'' False), ChThread 0] (pumpStart 7 False)"

definition closeMoves :: "pumpChoice list" where
  "closeMoves = [ChCall (ClBegin ''bye'' True), ChThread 1, ChWriter 5, ChWriter 5]"

lemma pumpMove_steps: "(pumpStep env)\<^sup>*\<^sup>* y (pumpMove env c y)"
proof (cases c)
  case (ChCall pc)
  have "isCall pc \<Longrightarrow> callStart pc" by (cases pc) (auto intro: callStart.intros)
  then show ?thesis using ChCall by (auto intro: pumpStep.call)
next
  case (ChThread k)
  then show ?thesis by (auto split: prod.splits intro: pumpStep.thread)
next
  case (ChWriter t)
  then show ?thesis by (auto split: prod.splits intro: pumpStep.writer)
next
  case ChWoken
  then show ?thesis by (auto split: writerPC.splits intro: pumpStep.woken)
qed

lemma pumpRun_steps: "(pumpStep env)\<^sup>*\<^sup>* y (pumpRun env cs y)"
  unfolding pumpRun_def
proof (induction cs arbitrary: y)
  case (Cons c cs)
  then show ?case using rtranclp_trans [OF pumpMove_steps Cons.IH] by simp
qed simp

theorem first_close_wins_witness:
  "cs_closes (py_ses (pumpRun demoChannels closeMoves closeRun)) = [''kick'']"
proof -
  have r: "pumpReachable demoChannels closeRun" unfolding closeRun_def by (rule pumpRun_reachable) (rule pumpReachable.start)
  have "cs_closeState (py_ses closeRun) = Some ''kick''" "py_writer (pumpRun demoChannels closeMoves closeRun) = WpExit"
    by code_simp+
  then show ?thesis using first_close_wins [OF r _ pumpRun_steps] by blast
qed

text \<open>
  A reliable message is sent at time 5; the pump then waits for the time to repeat it.
\<close>

definition sleepRun :: pumpSystem where
  "sleepRun = pumpRun demoChannels
     ([ChCall (SdCheck (JobReliable datagramLaneReliableOrdered [1] 3))] @ replicate 3 (ChThread 0) @ replicate 30 (ChWriter 5)
       @ [ChWoken] @ replicate 30 (ChWriter 6)) (pumpStart 7 True)"

theorem pump_never_oversleeps_witness:
  "py_writer sleepRun = WpSelect 6 (Some 75000005) \<and> cs_streamSend (py_ses sleepRun) = []"
proof -
  have r: "pumpReachable demoChannels sleepRun" unfolding sleepRun_def by (rule pumpRun_reachable) (rule pumpReachable.start)
  have w: "py_writer sleepRun = WpSelect 6 (Some 75000005)" by code_simp
  have "\<not> awake sleepRun" by code_simp
  then show ?thesis using pump_never_oversleeps [OF r w] w by blast
qed

definition drainSession :: Session where
  "drainSession = queueUnreliable [1, 2] (queueStream [[3]] (newWebTransportSession 7))"

theorem drain_complete_witness:
  "cs_streamSend (snd (drainOutbound demoChannels 5 (\<lambda>k. 6) drainSession)) = []"
proof -
  have "fst (drainOutbound demoChannels 5 (\<lambda>k. 6) drainSession) = None" "length (cs_wire (snd (drainOutbound demoChannels 5 (\<lambda>k. 6) drainSession))) = 2"
    "cs_wire drainSession = []" "queuesOK drainSession"
    by code_simp+
  then show ?thesis
    using drain_complete [of demoChannels 5 "\<lambda>k. 6" drainSession] 
    by (cases "drainOutbound demoChannels 5 (\<lambda>k. 6) drainSession")
      (auto simp: maxDatagramDrainDuration_def maxDatagramDrainSendsPerWake_def)
qed

section \<open>The protocol of a session\<close>

definition protocolOK :: "Session \<Rightarrow> bool" where
  "protocolOK s \<longleftrightarrow> (\<forall>p. cs_protocol s = Some p \<longrightarrow> ps_reachable p)"

lemma protocolOK_set: "protocolOK (set_protocol p s) \<longleftrightarrow> ps_reachable p"
  by (simp add: protocolOK_def set_protocol_def)

lemma protocolOK_same: "cs_protocol s' = cs_protocol s \<Longrightarrow> protocolOK s \<Longrightarrow> protocolOK s'"
  by (simp add: protocolOK_def)

text \<open>Every call a session makes on its protocol is a step.\<close>

lemmas protocol_steps = ps_step.intros [THEN ps_reachable.step [rotated]]

lemma moveEventual_reachable: "moveEventual q p = (r, p') \<Longrightarrow> ps_reachable p \<Longrightarrow> ps_reachable p'"
  by (induction q arbitrary: p) (auto split: prod.splits option.splits intro: protocol_steps(2))

lemma pass_reachable: "reliablePass now b p = (r, p') \<Longrightarrow> ps_reachable p \<Longrightarrow> ps_reachable p'"
  by (auto simp: reliablePass_def split: prod.splits sum.splits option.splits intro: protocol_steps(5))

lemma thread_protocol:
  assumes "sessStep env pc s = (pc', s')" "protocolOK s"
  shows "protocolOK s'"
proof (cases pc)
  case (SdPush j)
  show ?thesis
  proof (cases j)
    case (JobReliable l d t)
    then show ?thesis using assms SdPush
      by (auto simp: pushJob_def protocolOK_def set_protocol_def intro: protocol_steps(1) split: option.splits prod.splits)
  qed (use assms SdPush in \<open>auto simp: session_unfold intro: protocolOK_same split: if_splits\<close>)
next
  case (RdHandle now data)
  then show ?thesis using assms
    by (auto simp: handleIncomingDatagram_def protocolOK_def set_protocol_def intro: protocol_steps(8) split: option.splits prod.splits sum.splits)
next
  case (RdFeedback wake err)
  then show ?thesis using assms
    by (auto simp: drainEventualStateFeedback_def protocolOK_def set_protocol_def intro: protocol_steps(10) split: option.splits prod.splits)
next
  case (AkHandle now data)
  then show ?thesis using assms
    by (auto simp: handleReliableAckControlFrame_def protocolOK_def set_protocol_def intro: protocol_steps(9,10)
        split: option.splits prod.splits sum.splits if_splits)
qed (use assms in \<open>auto simp: beginClose_def goCloseNow_def shutdown_def signalWake_def intro: protocolOK_same
    split: if_splits prod.splits bool.splits\<close>)

lemma writer_protocol:
  assumes "writerStep env t pc s = (pc', s')" "protocolOK s"
  shows "protocolOK s'"
proof (cases pc)
  case (WpPart part c)
  then show ?thesis using assms
  proof (cases part)
    case DpAck
    then show ?thesis using assms WpPart
      by (auto simp: part_unfold protocolOK_def intro: protocol_steps(4) split: option.splits prod.splits pick.splits sum.splits)
  next
    case DpEventual
    then show ?thesis using assms WpPart
      by (auto simp: part_unfold protocolOK_def intro: protocol_steps(6) moveEventual_reachable
          split: option.splits prod.splits pick.splits sum.splits)
  next
    case (DpReliable bs)
    then show ?thesis using assms WpPart
      by (cases bs) (auto simp: protocolOK_def set_protocol_def dest: pass_reachable split: option.splits prod.splits pick.splits)
  qed (auto simp: part_unfold intro: protocolOK_same split: option.splits prod.splits pick.splits list.splits)
next
  case (WpWrite job c)
  then show ?thesis using assms
    by (cases job) (auto simp: write_unfold set_protocol_def protocolOK_def intro: protocol_steps(3)
        split: option.splits prod.splits if_splits sum.splits)
next
  case (WpWake part now)
  then show ?thesis using assms
    by (cases part) (auto simp: set_protocol_def protocolOK_def intro: protocol_steps(7) split: option.splits prod.splits if_splits)
qed (use assms in \<open>auto intro: protocolOK_same split: if_splits\<close>)

text \<open>The channels are bounded too.\<close>

definition channelsOK :: "Session \<Rightarrow> bool" where
  "channelsOK s \<longleftrightarrow> length (cs_streamSend s) \<le> sendBufSize \<and> length (cs_unreliableSend s) \<le> sendBufSize
     \<and> length (cs_rawStateSend s) \<le> sendBufSize \<and> length (cs_eventualSend s) \<le> sendBufSize"

lemma thread_channels:
  assumes "sessStep env pc s = (pc', s')" "channelsOK s"
  shows "channelsOK s'"
proof (cases pc)
  case (SdPush j)
  then show ?thesis using assms by (cases j) (auto simp: session_unfold channelsOK_def split: session_splits)
qed (use assms in \<open>auto simp: session_unfold channelsOK_def split: session_splits bool.splits\<close>)

lemma moveEventual_length: "moveEventual q p = ((e, q'), p') \<Longrightarrow> length q' \<le> length q"
  by (induction q arbitrary: p) (fastforce split: prod.splits option.splits)+

lemma writer_channels:
  assumes "writerStep env t pc s = (pc', s')" "channelsOK s"
  shows "channelsOK s'"
proof (cases pc)
  case (WpPart part c)
  then show ?thesis using assms
  proof (cases part)
    case (DpReliable bs)
    then show ?thesis using assms WpPart
      by (cases bs) (auto simp: channelsOK_def set_protocol_def split: option.splits prod.splits pick.splits)
  next
    case DpEventual
    have "length q' \<le> length (cs_eventualSend s)" if "moveEventual (cs_eventualSend s) p = ((e, q'), p')" for p e q' p'
      using moveEventual_length [OF that] .
    then show ?thesis using assms WpPart DpEventual
      by (fastforce simp: part_unfold channelsOK_def split: option.splits prod.splits pick.splits sum.splits)
  qed (auto simp: part_unfold channelsOK_def split: option.splits prod.splits pick.splits list.splits sum.splits)
next
  case (WpWrite job c)
  then show ?thesis using assms
    by (cases job) (auto simp: write_unfold set_protocol_def channelsOK_def split: option.splits prod.splits if_splits sum.splits)
next
  case (WpWake part now)
  then show ?thesis using assms
    by (cases part) (auto simp: set_protocol_def channelsOK_def split: option.splits prod.splits if_splits)
qed (use assms in \<open>auto simp: channelsOK_def split: if_splits\<close>)

lemma pumpReachable_bounds: "pumpReachable env y \<Longrightarrow> protocolOK (py_ses y) \<and> channelsOK (py_ses y)"
proof (induction rule: pumpReachable.induct)
  case (start i datagrams)
  then show ?case by (simp add: pumpStart_def newSession_def Let_def protocolOK_def channelsOK_def ps_reachable.init)
next
  case (step y z)
  from step(2,3) show ?case
  proof (induction rule: pumpStep.induct)
    case (thread k y pc s)
    then show ?case using thread_protocol thread_channels by auto
  next
    case (writer t y pc s)
    then show ?case using writer_protocol writer_channels by auto
  next
    case (goClose y n)
    then show ?case by (simp add: protocolOK_def channelsOK_def)
  qed (auto simp: protocolOK_def channelsOK_def)
qed


text \<open>
  C29.  A session holds a bounded amount of data whatever its client and the game do: in every
  reachable state at most 512 entries in each of its four channels, 512 messages per reliable lane,
  512 queued and 257 unacknowledged eventual-state messages, and nothing sent more than 8 times.
\<close>

theorem session_bounded:
  assumes "pumpReachable env y"
  shows "length (cs_streamSend (py_ses y)) \<le> 512 \<and> length (cs_unreliableSend (py_ses y)) \<le> 512
    \<and> length (cs_rawStateSend (py_ses y)) \<le> 512 \<and> length (cs_eventualSend (py_ses y)) \<le> 512
    \<and> (\<forall>p. cs_protocol (py_ses y) = Some p \<longrightarrow>
         length (ps_pendingOrdered p) \<le> 512 \<and> length (ps_pendingUnordered p) \<le> 512
         \<and> pendingEventualLen (ps_pendingEventual p) \<le> 512 \<and> gm_len (ps_inFlightEventual p) \<le> 257
         \<and> (\<forall>m \<in> set (ps_pendingOrdered p @ ps_pendingUnordered p). rm_attempts m \<le> 8))"
proof -
  have B: "protocolOK (py_ses y)" "channelsOK (py_ses y)" using pumpReachable_bounds [OF assms] by auto
  have "length (ps_pendingOrdered p) \<le> 512 \<and> length (ps_pendingUnordered p) \<le> 512
      \<and> pendingEventualLen (ps_pendingEventual p) \<le> 512 \<and> gm_len (ps_inFlightEventual p) \<le> 257
         \<and> (\<forall>m \<in> set (ps_pendingOrdered p @ ps_pendingUnordered p). rm_attempts m \<le> 8)"
    if p: "cs_protocol (py_ses y) = Some p" for p
  proof -
    have i: "ps_inv p" using B(1) p ps_reachable_inv by (auto simp: protocolOK_def)
    then show ?thesis by (auto simp: ps_inv_def eq_inv_def pendingEventualLen_def rm_fits_def list_all_iff)
  qed
  then show ?thesis using B(2) by (simp add: channelsOK_def)
qed

text \<open>A session with something queued.\<close>

theorem session_bounded_witness:
  "length (cs_streamSend (py_ses streamRun)) \<le> 512 \<and> cs_streamSend (py_ses streamRun) \<noteq> []"
proof -
  have "cs_streamSend (py_ses streamRun) \<noteq> []" by code_simp
  then show ?thesis using session_bounded [OF streamRun_reachable] by blast
qed

end
