(* ===== verification/Listener.thy ===== *)
theory Listener
  imports Session_Core
begin

text \<open>
  The sending side of the listener (\<^verbatim>\<open>golem/net/listener.go\<close>): the sessions it has, the checks
  each send makes, and the broadcasts over all sessions.  Sessions are shared by reference, so they
  live in a heap indexed by their identifier; identifiers come from a counter and are never reused.
  Broadcasts hold the read lock and visit the sessions in the order \<open>ks\<close> of the map iteration.
\<close>

section \<open>State\<close>

text \<open>
  \<open>li_sessions\<close> are the connected sessions, \<open>li_pending\<close> those accepted but not yet connected; the
  counters of \<^verbatim>\<open>OutboundBacklogForLog\<close> are maps from sessions to totals.
\<close>

record Listener =
  li_Transport :: Transport
  li_Path :: string
  li_heap :: "int64 \<Rightarrow> Session"
  li_sessions :: "(int64, unit) gomap"
  li_pending :: "(int64, unit) gomap"
  li_closing :: bool
  li_nextID :: int64
  li_interestEnabled :: bool
  li_messageWrapper :: "(bytes \<Rightarrow> bytes) option"
  li_outboundDgramPrev :: "(int64, u64) gomap"
  li_outboundStreamPrev :: "(int64, u64) gomap"
  li_inboundPacketPrev :: "(int64, u64) gomap"
  li_inboundAckPrev :: "(int64, u64) gomap"

datatype listenerError =
    lnPayload payloadError
  | lnDatagram datagramError
  | lnSession sessionError
  | lnSessionNotFound int64
  | lnUnreliableNotSupported
  | lnReliableDatagramsNotSupported

definition NewListener :: "Transport \<Rightarrow> string \<Rightarrow> (int64 \<Rightarrow> Session) \<Rightarrow> Listener" where
  "NewListener transport path h =
     (let t = normalizeTransport transport
      in \<lparr>li_Transport = t,
          li_Path = (if path = '''' then if t = TransportWebTransport then ''/wt'' else ''/ws'' else path),
          li_heap = h, li_sessions = [], li_pending = [], li_closing = False, li_nextID = 0,
          li_interestEnabled = False, li_messageWrapper = None, li_outboundDgramPrev = [], li_outboundStreamPrev = [],
          li_inboundPacketPrev = [], li_inboundAckPrev = []\<rparr>)"

definition li_wrap :: "Listener \<Rightarrow> bytes \<Rightarrow> bytes" where
  "li_wrap l data = (case li_messageWrapper l of None \<Rightarrow> data | Some f \<Rightarrow> f data)"

definition li_session :: "Listener \<Rightarrow> int64 \<Rightarrow> Session option" where
  "li_session l sessionID = (if map_of (li_sessions l) sessionID = None then None else Some (li_heap l sessionID))"

definition li_put :: "int64 \<Rightarrow> Session \<Rightarrow> Listener \<Rightarrow> Listener" where
  "li_put i s l = l\<lparr>li_heap := (li_heap l)(i := s)\<rparr>"

definition li_SessionIDs :: "Listener \<Rightarrow> int64 list" where
  "li_SessionIDs l = sort_key sint (map fst (li_sessions l))"

definition li_SessionTransport :: "Listener \<Rightarrow> int64 \<Rightarrow> Transport option" where
  "li_SessionTransport l sessionID = map_option transportKind (li_session l sessionID)"

section \<open>Sends to one session\<close>

text \<open>What \<open>f\<close> does to a session, through the listener's reference to it.\<close>

definition onSession ::
  "int64 \<Rightarrow> (Session \<Rightarrow> listenerError option \<times> Session) \<Rightarrow> Listener \<Rightarrow> listenerError option \<times> Listener" where
  "onSession sessionID f l =
     (case li_session l sessionID of
        None \<Rightarrow> (Some (lnSessionNotFound sessionID), l)
      | Some s \<Rightarrow> (case f s of (e, s) \<Rightarrow> (e, li_put sessionID s l)))"

definition viaSession :: "(Session \<Rightarrow> sessionError option \<times> Session) \<Rightarrow> Session \<Rightarrow> listenerError option \<times> Session" where
  "viaSession f s = (case f s of (e, s) \<Rightarrow> (map_option lnSession e, s))"

text \<open>The payloads of a batch one after the other, up to the first error; the argument counts those left.\<close>

primrec sendPayloads ::
  "(nat \<Rightarrow> bytes \<Rightarrow> Session \<Rightarrow> sessionError option \<times> Session) \<Rightarrow> bytes list \<Rightarrow> Session \<Rightarrow> sessionError option \<times> Session" where
  "sendPayloads f [] s = (None, s)"
| "sendPayloads f (p # ps) s = (case f (length ps) p s of (Some e, s) \<Rightarrow> (Some e, s) | (None, s) \<Rightarrow> sendPayloads f ps s)"

definition li_Send :: "int64 \<Rightarrow> bytes \<Rightarrow> Listener \<Rightarrow> listenerError option \<times> Listener" where
  "li_Send sessionID data l =
     (case validateReliableMessageSize data of
        Some e \<Rightarrow> (Some (lnPayload e), l)
      | None \<Rightarrow> onSession sessionID (\<lambda>s. (None, sess_Send data s)) l)"

definition li_SendWrapped :: "int64 \<Rightarrow> bytes \<Rightarrow> Listener \<Rightarrow> listenerError option \<times> Listener" where
  "li_SendWrapped sessionID data l = li_Send sessionID (li_wrap l data) l"

definition li_SendBatch :: "int64 \<Rightarrow> bytes list \<Rightarrow> Listener \<Rightarrow> listenerError option \<times> Listener" where
  "li_SendBatch sessionID frames l =
     (if length frames = 0 then (None, l)
      else case validateReliableMessageSizes frames of
             Some e \<Rightarrow> (Some (lnPayload e), l)
           | None \<Rightarrow> onSession sessionID (\<lambda>s. (None, sess_SendBatch frames s)) l)"

text \<open>Datagrams: only on a WebTransport listener and for a session that supports them.\<close>

definition reliableOnly :: "(Session \<Rightarrow> listenerError option \<times> Session) \<Rightarrow> Session \<Rightarrow> listenerError option \<times> Session" where
  "reliableOnly f s = (if \<not> SupportsReliableDatagrams s then (Some lnReliableDatagramsNotSupported, s) else f s)"

definition unreliableOnly :: "(Session \<Rightarrow> listenerError option \<times> Session) \<Rightarrow> Session \<Rightarrow> listenerError option \<times> Session" where
  "unreliableOnly f s = (if \<not> SupportsUnreliable s then (Some lnUnreliableNotSupported, s) else f s)"

definition li_SendReliableOrderedBatch ::
  "(nat \<Rightarrow> time) \<Rightarrow> int64 \<Rightarrow> bytes list \<Rightarrow> Listener \<Rightarrow> listenerError option \<times> Listener" where
  "li_SendReliableOrderedBatch clock sessionID frames l =
     (if li_Transport l \<noteq> TransportWebTransport then (Some lnReliableDatagramsNotSupported, l)
      else onSession sessionID (reliableOnly (\<lambda>s.
             if length frames = 0 then (None, s)
             else case chunkReliableOrderedDatagramFrames frames of
                    Inl e \<Rightarrow> (Some (lnPayload e), s)
                  | Inr payloads \<Rightarrow>
                      viaSession (sendPayloads (\<lambda>n p. sess_SendReliableOrdered p (clock n)) payloads) s)) l)"

definition li_SendUnreliableStateBatch :: "int64 \<Rightarrow> bytes list \<Rightarrow> Listener \<Rightarrow> listenerError option \<times> Listener" where
  "li_SendUnreliableStateBatch sessionID frames l =
     (if li_Transport l \<noteq> TransportWebTransport then (Some lnUnreliableNotSupported, l)
      else onSession sessionID (unreliableOnly (\<lambda>s.
             if length frames = 0 then (None, s)
             else case UnreliableStateDatagramPayloads frames of
                    Inl e \<Rightarrow> (Some (lnPayload e), s)
                  | Inr payloads \<Rightarrow> viaSession (sendPayloads (\<lambda>n. sendUnreliableStateOwned) payloads) s)) l)"

definition li_SendUnreliableStateOwned :: "int64 \<Rightarrow> bytes \<Rightarrow> Listener \<Rightarrow> listenerError option \<times> Listener" where
  "li_SendUnreliableStateOwned sessionID data l =
     (if li_Transport l \<noteq> TransportWebTransport then (Some lnUnreliableNotSupported, l)
      else onSession sessionID (unreliableOnly (\<lambda>s.
             case validateDatagramSize data of
               Some e \<Rightarrow> (Some (lnDatagram e), s)
             | None \<Rightarrow> viaSession (sendUnreliableStateOwned data) s)) l)"

definition li_SendUnreliable :: "int64 \<Rightarrow> bytes \<Rightarrow> Listener \<Rightarrow> listenerError option \<times> Listener" where
  "li_SendUnreliable sessionID data l =
     (if li_Transport l \<noteq> TransportWebTransport then (Some lnUnreliableNotSupported, l)
      else onSession sessionID (unreliableOnly (\<lambda>s.
             case validateDatagramSize data of
               Some e \<Rightarrow> (Some (lnDatagram e), s)
             | None \<Rightarrow> viaSession (sess_SendUnreliable data) s)) l)"

definition li_SendReliableUnordered :: "time \<Rightarrow> int64 \<Rightarrow> bytes \<Rightarrow> Listener \<Rightarrow> listenerError option \<times> Listener" where
  "li_SendReliableUnordered now sessionID data l =
     (if li_Transport l \<noteq> TransportWebTransport then (Some lnReliableDatagramsNotSupported, l)
      else onSession sessionID (reliableOnly (\<lambda>s.
             case validateReliableDatagramMessageSize datagramLaneReliableUnordered data of
               Some e \<Rightarrow> (Some (lnDatagram e), s)
             | None \<Rightarrow> viaSession (sess_SendReliableUnordered data now) s)) l)"

definition li_SendReliableOrdered :: "time \<Rightarrow> int64 \<Rightarrow> bytes \<Rightarrow> Listener \<Rightarrow> listenerError option \<times> Listener" where
  "li_SendReliableOrdered now sessionID data l =
     (if li_Transport l \<noteq> TransportWebTransport then (Some lnReliableDatagramsNotSupported, l)
      else onSession sessionID (reliableOnly (\<lambda>s.
             case validateReliableDatagramMessageSize datagramLaneReliableOrdered data of
               Some e \<Rightarrow> (Some (lnDatagram e), s)
             | None \<Rightarrow> viaSession (sess_SendReliableOrdered data now) s)) l)"

definition li_SendEventualState :: "time \<Rightarrow> int64 \<Rightarrow> u64 \<Rightarrow> bytes \<Rightarrow> Listener \<Rightarrow> listenerError option \<times> Listener" where
  "li_SendEventualState now sessionID token data l =
     (if li_Transport l \<noteq> TransportWebTransport then (Some lnReliableDatagramsNotSupported, l)
      else onSession sessionID (reliableOnly (\<lambda>s.
             case validateEventualStateDatagramPayloadSize data of
               Some e \<Rightarrow> (Some (lnDatagram e), s)
             | None \<Rightarrow> viaSession (sess_SendEventualState token data now) s)) l)"

definition li_SendEventualStateOwned :: "time \<Rightarrow> int64 \<Rightarrow> u64 \<Rightarrow> bytes \<Rightarrow> Listener \<Rightarrow> listenerError option \<times> Listener" where
  "li_SendEventualStateOwned now sessionID token data l =
     (if li_Transport l \<noteq> TransportWebTransport then (Some lnReliableDatagramsNotSupported, l)
      else onSession sessionID (reliableOnly (\<lambda>s.
             case validateEventualStateDatagramPayloadSize data of
               Some e \<Rightarrow> (Some (lnDatagram e), s)
             | None \<Rightarrow> viaSession (sendEventualStateOwned token data now) s)) l)"

section \<open>Broadcasts\<close>

text \<open>The loop over the sessions, up to the first error.\<close>

primrec broadcastLoop ::
  "(int64 \<Rightarrow> Session \<Rightarrow> sessionError option \<times> Session) \<Rightarrow> int64 list \<Rightarrow> Listener \<Rightarrow> listenerError option \<times> Listener" where
  "broadcastLoop f [] l = (None, l)"
| "broadcastLoop f (k # ks) l =
     (case f k (li_heap l k) of
        (Some e, s) \<Rightarrow> (Some (lnSession e), li_put k s l)
      | (None, s) \<Rightarrow> broadcastLoop f ks (li_put k s l))"

definition skipUnless :: "(Session \<Rightarrow> bool) \<Rightarrow> (Session \<Rightarrow> sessionError option \<times> Session) \<Rightarrow> Session \<Rightarrow> sessionError option \<times> Session" where
  "skipUnless supports f s = (if \<not> supports s then (None, s) else f s)"

definition BroadcastRaw :: "int64 list \<Rightarrow> bytes \<Rightarrow> Listener \<Rightarrow> listenerError option \<times> Listener" where
  "BroadcastRaw ks data l =
     (case validateReliableMessageSize data of
        Some e \<Rightarrow> (Some (lnPayload e), l)
      | None \<Rightarrow> broadcastLoop (\<lambda>k s. (None, sess_Send data s)) ks l)"

definition BroadcastBatch :: "int64 list \<Rightarrow> bytes list \<Rightarrow> Listener \<Rightarrow> listenerError option \<times> Listener" where
  "BroadcastBatch ks deltas l =
     (if length deltas = 0 then (None, l)
      else let wrapped = map (li_wrap l) deltas
           in case validateReliableMessageSizes wrapped of
                Some e \<Rightarrow> (Some (lnPayload e), l)
              | None \<Rightarrow> broadcastLoop (\<lambda>k s. (None, sess_SendBatch wrapped s)) ks l)"

text \<open>\<^verbatim>\<open>Broadcast\<close> has the body of \<^verbatim>\<open>BroadcastBatch\<close>.\<close>

definition li_Broadcast :: "int64 list \<Rightarrow> bytes list \<Rightarrow> Listener \<Rightarrow> listenerError option \<times> Listener" where
  "li_Broadcast ks deltas l = BroadcastBatch ks deltas l"

definition BroadcastReliableOrderedBatch ::
  "(int64 \<Rightarrow> nat \<Rightarrow> time) \<Rightarrow> int64 list \<Rightarrow> bytes list \<Rightarrow> Listener \<Rightarrow> listenerError option \<times> Listener" where
  "BroadcastReliableOrderedBatch clock ks deltas l =
     (if li_Transport l \<noteq> TransportWebTransport then (Some lnReliableDatagramsNotSupported, l)
      else if length deltas = 0 then (None, l)
      else case chunkReliableOrderedDatagramFrames (map (li_wrap l) deltas) of
             Inl e \<Rightarrow> (Some (lnPayload e), l)
           | Inr payloads \<Rightarrow>
               broadcastLoop (\<lambda>k. skipUnless SupportsReliableDatagrams
                 (sendPayloads (\<lambda>n p. sess_SendReliableOrdered p (clock k n)) payloads)) ks l)"

definition BroadcastUnreliableStateWrappedBatch :: "int64 list \<Rightarrow> bytes list \<Rightarrow> Listener \<Rightarrow> listenerError option \<times> Listener" where
  "BroadcastUnreliableStateWrappedBatch ks frames l =
     (if li_Transport l \<noteq> TransportWebTransport then (Some lnUnreliableNotSupported, l)
      else if length frames = 0 then (None, l)
      else case UnreliableStateDatagramPayloads frames of
             Inl e \<Rightarrow> (Some (lnPayload e), l)
           | Inr payloads \<Rightarrow>
               broadcastLoop (\<lambda>k. skipUnless SupportsUnreliable (sendPayloads (\<lambda>n. sendUnreliableStateOwned) payloads)) ks l)"

definition BroadcastUnreliableStateBatch :: "int64 list \<Rightarrow> bytes list \<Rightarrow> Listener \<Rightarrow> listenerError option \<times> Listener" where
  "BroadcastUnreliableStateBatch ks deltas l =
     (if li_Transport l \<noteq> TransportWebTransport then (Some lnUnreliableNotSupported, l)
      else if length deltas = 0 then (None, l)
      else BroadcastUnreliableStateWrappedBatch ks (map (li_wrap l) deltas) l)"

definition BroadcastUnreliable :: "int64 list \<Rightarrow> bytes \<Rightarrow> Listener \<Rightarrow> listenerError option \<times> Listener" where
  "BroadcastUnreliable ks data l =
     (if li_Transport l \<noteq> TransportWebTransport then (Some lnUnreliableNotSupported, l)
      else case validateDatagramSize data of
             Some e \<Rightarrow> (Some (lnDatagram e), l)
           | None \<Rightarrow> broadcastLoop (\<lambda>k. skipUnless SupportsUnreliable (sess_SendUnreliable data)) ks l)"

definition BroadcastReliableUnordered ::
  "(int64 \<Rightarrow> time) \<Rightarrow> int64 list \<Rightarrow> bytes \<Rightarrow> Listener \<Rightarrow> listenerError option \<times> Listener" where
  "BroadcastReliableUnordered clock ks data l =
     (if li_Transport l \<noteq> TransportWebTransport then (Some lnReliableDatagramsNotSupported, l)
      else case validateReliableDatagramMessageSize datagramLaneReliableUnordered data of
             Some e \<Rightarrow> (Some (lnDatagram e), l)
           | None \<Rightarrow>
               broadcastLoop (\<lambda>k. skipUnless SupportsReliableDatagrams (sess_SendReliableUnordered data (clock k))) ks l)"

definition BroadcastReliableOrdered ::
  "(int64 \<Rightarrow> time) \<Rightarrow> int64 list \<Rightarrow> bytes \<Rightarrow> Listener \<Rightarrow> listenerError option \<times> Listener" where
  "BroadcastReliableOrdered clock ks data l =
     (if li_Transport l \<noteq> TransportWebTransport then (Some lnReliableDatagramsNotSupported, l)
      else case validateReliableDatagramMessageSize datagramLaneReliableOrdered data of
             Some e \<Rightarrow> (Some (lnDatagram e), l)
           | None \<Rightarrow>
               broadcastLoop (\<lambda>k. skipUnless SupportsReliableDatagrams (sess_SendReliableOrdered data (clock k))) ks l)"

section \<open>The snapshot for a new session\<close>

datatype snapshotFailure =
    snapSource string
  | snapSize payloadError
  | snapWrite sessionError

record EntitySnapshot =
  sn_EntityID :: int64
  sn_Data :: bytes

text \<open>Each frame is checked and written as a batch of its own, on the goroutine of the handler.\<close>

primrec sendFrames :: "channelEnv \<Rightarrow> bytes list \<Rightarrow> Session \<Rightarrow> snapshotFailure option \<times> Session" where
  "sendFrames env [] s = (None, s)"
| "sendFrames env (f # fs) s =
     (case validateReliableMessageSize f of
        Some e \<Rightarrow> (Some (snapSize e), s)
      | None \<Rightarrow>
          (case writeBatch env [f] s of
             (Some e, s) \<Rightarrow> (Some (snapWrite e), s) | (None, s) \<Rightarrow> sendFrames env fs s))"

text \<open>
  \<open>world\<close> and \<open>entities\<close> are what \<^verbatim>\<open>worldSnapshotFunc\<close> and \<^verbatim>\<open>entitySnapshotFunc\<close> answer, if they are set;
  \<open>everything\<close> what \<^verbatim>\<open>registry.SnapshotAll\<close> answers.  The result has the argument of the call of
  \<^verbatim>\<open>entitySnapshotComplete\<close>, if it is set and reached.
\<close>

definition li_sendSnapshot ::
  "channelEnv \<Rightarrow> Listener \<Rightarrow> (string + bytes list) option \<Rightarrow> (string + EntitySnapshot list) option \<Rightarrow> string + bytes list \<Rightarrow> bool
     \<Rightarrow> Session \<Rightarrow> (snapshotFailure option \<times> int64 list option) \<times> Session" where
  "li_sendSnapshot env l world entities everything complete s =
     (let finish = (\<lambda>ids r. case r of
                      (Some e, s) \<Rightarrow> ((Some e, None), s)
                    | (None, s) \<Rightarrow> ((None, if complete then Some ids else None), s));
          entityPart = (\<lambda>s.
            if li_interestEnabled l then ((None, None), s)
            else case entities of
                   Some (Inl e) \<Rightarrow> ((Some (snapSource e), None), s)
                 | Some (Inr snaps) \<Rightarrow> finish (map sn_EntityID snaps) (sendFrames env (map (li_wrap l o sn_Data) snaps) s)
                 | None \<Rightarrow>
                     (case everything of
                        Inl e \<Rightarrow> ((Some (snapSource e), None), s)
                      | Inr snapshots \<Rightarrow> finish [] (sendFrames env (map (li_wrap l) snapshots) s)))
      in case world of
           None \<Rightarrow> entityPart s
         | Some (Inl e) \<Rightarrow> ((Some (snapSource e), None), s)
         | Some (Inr worldFrames) \<Rightarrow>
             (case sendFrames env worldFrames s of
                (Some e, s) \<Rightarrow> ((Some e, None), s) | (None, s) \<Rightarrow> entityPart s))"

section \<open>Admission and removal\<close>

text \<open>\<^verbatim>\<open>beginSessionHandler\<close> also counts the handler; the count is with the goroutines.\<close>

definition beginSessionHandler :: "Listener \<Rightarrow> bool" where
  "beginSessionHandler l \<longleftrightarrow> \<not> li_closing l"

definition beginAcceptedSession :: "int64 \<Rightarrow> Listener \<Rightarrow> bool \<times> Listener" where
  "beginAcceptedSession i l =
     (if li_closing l then (False, l) else (True, l\<lparr>li_pending := AList.update i () (li_pending l)\<rparr>))"

definition addSession :: "int64 \<Rightarrow> Listener \<Rightarrow> bool \<times> Listener" where
  "addSession i l =
     (let l = l\<lparr>li_pending := AList.delete i (li_pending l)\<rparr>
      in if li_closing l then (False, l) else (True, l\<lparr>li_sessions := AList.update i () (li_sessions l)\<rparr>))"

definition removeSession :: "int64 \<Rightarrow> Listener \<Rightarrow> Listener" where
  "removeSession i l =
     (let l = l\<lparr>li_pending := AList.delete i (li_pending l), li_sessions := AList.delete i (li_sessions l)\<rparr>;
          l = l\<lparr>li_outboundDgramPrev := AList.delete i (li_outboundDgramPrev l),
                li_outboundStreamPrev := AList.delete i (li_outboundStreamPrev l)\<rparr>
      in li_put i (shutdown (li_heap l i)) l)"

section \<open>Counters for the log\<close>

definition uint64Delta :: "u64 \<Rightarrow> u64 \<Rightarrow> u64" where
  "uint64Delta b a = (if b \<ge> a then b - a else (NOT 0 - a + 1) + b)"

lemma uint64Delta_sub: "uint64Delta b a = b - a"
  by (simp add: uint64Delta_def)

record sessionBacklog =
  bl_id :: int64
  bl_snapshot :: SessionOutboundSnapshot
  bl_dgrams :: u64
  bl_streams :: u64
  bl_packets :: u64
  bl_acks :: u64

definition counterDelta :: "(int64, u64) gomap \<Rightarrow> int64 \<Rightarrow> u64 \<Rightarrow> u64" where
  "counterDelta prev i tot = (case map_of prev i of None \<Rightarrow> 0 | Some p \<Rightarrow> uint64Delta tot p)"

definition backlogOf :: "time \<Rightarrow> int64 \<Rightarrow> Listener \<Rightarrow> sessionBacklog \<times> Listener" where
  "backlogOf now i l =
     (let sess = li_heap l i; sn = OutboundSnapshot now sess
      in (\<lparr>bl_id = i, bl_snapshot = sn, bl_dgrams = counterDelta (li_outboundDgramPrev l) i (cs_wireDatagramOK sess),
           bl_streams = counterDelta (li_outboundStreamPrev l) i (cs_streamBatchOK sess),
           bl_packets = counterDelta (li_inboundPacketPrev l) i (os_InboundPackets sn),
           bl_acks = counterDelta (li_inboundAckPrev l) i (os_InboundAckOnly sn)\<rparr>,
          l\<lparr>li_outboundDgramPrev := AList.update i (cs_wireDatagramOK sess) (li_outboundDgramPrev l),
            li_outboundStreamPrev := AList.update i (cs_streamBatchOK sess) (li_outboundStreamPrev l),
            li_inboundPacketPrev := AList.update i (os_InboundPackets sn) (li_inboundPacketPrev l),
            li_inboundAckPrev := AList.update i (os_InboundAckOnly sn) (li_inboundAckPrev l)\<rparr>))"

primrec backlogLoop :: "time \<Rightarrow> int64 list \<Rightarrow> Listener \<Rightarrow> sessionBacklog list \<times> Listener" where
  "backlogLoop now [] l = ([], l)"
| "backlogLoop now (i # ids) l =
     (case backlogOf now i l of (b, l) \<Rightarrow> (case backlogLoop now ids l of (bs, l) \<Rightarrow> (b # bs, l)))"

text \<open>The figures of the line \<^verbatim>\<open>OutboundBacklogForLog\<close> prints; the session list is copied before.\<close>

definition OutboundBacklogForLog :: "time \<Rightarrow> Listener \<Rightarrow> sessionBacklog list \<times> Listener" where
  "OutboundBacklogForLog now l = backlogLoop now (li_SessionIDs l) l"

section \<open>What a broadcast does\<close>

lemma put_heap [simp]: "li_heap (li_put i s l) = (li_heap l)(i := s)" "li_sessions (li_put i s l) = li_sessions l"
  "li_Transport (li_put i s l) = li_Transport l"
  by (simp_all add: li_put_def)

lemma broadcastLoop_all:
  assumes "\<And>k s. f k s = (None, g s)" "distinct ks"
  shows "broadcastLoop f ks l = (None, l\<lparr>li_heap := (\<lambda>i. if i \<in> set ks then g (li_heap l i) else li_heap l i)\<rparr>)"
  using assms(2)
proof (induction ks arbitrary: l)
  case (Cons k ks)
  then show ?case by (auto simp: assms(1) li_put_def fun_eq_iff intro!: arg_cong [of _ _ "\<lambda>h. li_heap_update (\<lambda>_. h) l"])
qed simp

lemma broadcastLoop_stops:
  assumes "distinct (as @ k # bs)" "fst (f k (li_heap l k)) \<noteq> None"
  shows "fst (broadcastLoop f (as @ k # bs) l) \<noteq> None
    \<and> (\<forall>i \<in> set bs. li_heap (snd (broadcastLoop f (as @ k # bs) l)) i = li_heap l i)"
  using assms
proof (induction as arbitrary: l)
  case (Cons a as)
  then show ?case by (fastforce split: prod.splits option.splits)
qed (auto split: prod.splits option.splits)

text \<open>What handing a batch to one session comes to.\<close>

definition batchHandedOver :: "bytes list \<Rightarrow> Session \<Rightarrow> Session \<Rightarrow> bool" where
  "batchHandedOver frames s s' \<longleftrightarrow>
     (if IsClosing s then s' = s
      else if length (cs_streamSend s) < sendBufSize
      then s' = s\<lparr>cs_streamSend := cs_streamSend s @ [frames], cs_wake := True\<rparr>
      else s' = s\<lparr>cs_closeState := Some '''', cs_closers := cs_closers s + 1\<rparr>)"

lemma SendBatch_handedOver: "frames \<noteq> [] \<Longrightarrow> batchHandedOver frames s (sess_SendBatch frames s)"
  by (simp add: batchHandedOver_def sess_SendBatch_def queueStream_def queueOn_def pushStream_def signalWake_def beginClose_def
      goCloseNow_def IsClosing_def)

text \<open>
  A broadcast reaches every connected session once, in whatever order the sessions are visited:
  if a frame is too large nobody gets anything; otherwise the wrapped frames are queued as one batch
  for every session that is open and has room, a session without room starts to close, a closing one
  is left alone, and no other session is touched.
\<close>

theorem broadcast_batch_exact:
  assumes "iter_order ks (li_sessions l)" and "deltas \<noteq> []" and "BroadcastBatch ks deltas l = (e, l')"
  shows "(case validateReliableMessageSizes (map (li_wrap l) deltas) of
            Some err \<Rightarrow> e = Some (lnPayload err) \<and> l' = l
          | None \<Rightarrow> e = None \<and> li_sessions l' = li_sessions l
              \<and> (\<forall>i \<in> gm_keys (li_sessions l). batchHandedOver (map (li_wrap l) deltas) (li_heap l i) (li_heap l' i))
              \<and> (\<forall>i. i \<notin> gm_keys (li_sessions l) \<longrightarrow> li_heap l' i = li_heap l i))"
proof (cases "validateReliableMessageSizes (map (li_wrap l) deltas)")
  case None
  have "broadcastLoop (\<lambda>k s. (None, sess_SendBatch (map (li_wrap l) deltas) s)) ks l = (e, l')"
    using assms(2,3) None by (simp add: BroadcastBatch_def Let_def)
  then have "e = None" "l' = l\<lparr>li_heap := (\<lambda>i. if i \<in> set ks then sess_SendBatch (map (li_wrap l) deltas) (li_heap l i) else li_heap l i)\<rparr>"
    using broadcastLoop_all [where f = "\<lambda>k s. (None, sess_SendBatch (map (li_wrap l) deltas) s)"
        and g = "sess_SendBatch (map (li_wrap l) deltas)", OF refl, of ks l] assms(1)
    by (auto simp: iter_order_def)
  then show ?thesis using None assms(1,2) by (auto simp: iter_order_def SendBatch_handedOver)
qed (use assms(2,3) in \<open>simp add: BroadcastBatch_def Let_def\<close>)

text \<open>
  C30.  One slow client starves others: if the queue of a session is full, a reliable ordered broadcast
  ends there with an error, and the sessions the map iteration would have visited later get nothing,
  although they are open and have room.
\<close>

theorem full_session_starves_broadcast:
  assumes "li_Transport l = TransportWebTransport" and "distinct (as @ slow # bs)"
    and "validateReliableDatagramMessageSize datagramLaneReliableOrdered data = None" and "data \<noteq> []"
    and "cs_protocol (li_heap l slow) = Some p" and "sendBufSize \<le> length (ps_pendingOrdered p)" and "\<not> IsClosing (li_heap l slow)"
  shows "fst (BroadcastReliableOrdered clock (as @ slow # bs) data l) \<noteq> None
    \<and> (\<forall>i \<in> set bs. li_heap (snd (BroadcastReliableOrdered clock (as @ slow # bs) data l)) i = li_heap l i)"
proof -
  have "fst (skipUnless SupportsReliableDatagrams (sess_SendReliableOrdered data (clock slow)) (li_heap l slow)) \<noteq> None"
    using assms(3-7)
    by (auto simp: skipUnless_def SupportsReliableDatagrams_def sess_SendReliableOrdered_def queueReliable_def enqueueReliable_def
        pendingQueue_def beginClose_def IsClosing_def set_protocol_def Let_def split: prod.splits)
  then show ?thesis
    using broadcastLoop_stops [OF assms(2), of "\<lambda>k. skipUnless SupportsReliableDatagrams (sess_SendReliableOrdered data (clock k))" l]
      assms(1,3) by (simp add: BroadcastReliableOrdered_def)
qed

section \<open>The snapshot\<close>

definition worldFrames :: "(string + bytes list) option \<Rightarrow> bytes list" where
  "worldFrames world = (case world of Some (Inr fs) \<Rightarrow> fs | _ \<Rightarrow> [])"

definition entityFrames :: "Listener \<Rightarrow> (string + EntitySnapshot list) option \<Rightarrow> string + bytes list \<Rightarrow> bytes list" where
  "entityFrames l entities everything =
     map (li_wrap l) (case entities of Some (Inr snaps) \<Rightarrow> map sn_Data snaps | Some (Inl e) \<Rightarrow> []
                      | None \<Rightarrow> (case everything of Inr fs \<Rightarrow> fs | Inl e \<Rightarrow> []))"

definition entityIDs :: "(string + EntitySnapshot list) option \<Rightarrow> int64 list" where
  "entityIDs entities = (case entities of Some (Inr snaps) \<Rightarrow> map sn_EntityID snaps | _ \<Rightarrow> [])"

lemma sendFrames_written:
  "sendFrames env fs s = (None, s') \<Longrightarrow> cs_wire s' = cs_wire s @ map (\<lambda>f. WireBatch [f] True) fs"
  by (induction fs arbitrary: s) (auto simp: writeBatch_def split: option.splits prod.splits)

text \<open>
  A new session is told exactly what the server believes it knows.  When the snapshot succeeds in
  broadcast mode, the session has been written the world frames and then the frame of every entity,
  each as a batch of its own and in order, and the completion hook is called with exactly the
  identifiers of those entities; with interest management only the world frames are written and the
  hook is not called; and after any failure the hook is not called.
\<close>

theorem snapshot_known_exact:
  assumes "li_sendSnapshot env l world entities everything complete s = ((e, called), s')"
  shows "(e \<noteq> None \<longrightarrow> called = None)
    \<and> (e = None \<longrightarrow>
         (if li_interestEnabled l
          then called = None \<and> cs_wire s' = cs_wire s @ map (\<lambda>f. WireBatch [f] True) (worldFrames world)
          else called = (if complete then Some (entityIDs entities) else None)
            \<and> cs_wire s' = cs_wire s @ map (\<lambda>f. WireBatch [f] True) (worldFrames world @ entityFrames l entities everything)))"
  using assms
  by (auto simp: li_sendSnapshot_def worldFrames_def entityFrames_def entityIDs_def Let_def comp_def
      dest!: sendFrames_written split: option.splits sum.splits prod.splits if_splits)

section \<open>Examples\<close>

text \<open>Three sessions: 1 is open, 2 is full on the reliable ordered lane, 3 is open.\<close>

definition fullProtocol :: datagramProtocolState where
  "fullProtocol = newDatagramProtocolState\<lparr>ps_pendingOrdered := replicate 512
     \<lparr>rm_lane = datagramLaneReliableOrdered, rm_messageID = 0, rm_orderedSeq = 0, rm_payload = [1], rm_queuedAt = 1,
      rm_lastSentAt = 0, rm_nextSendAt = 1, rm_lastPacket = 0, rm_attempts = 0, rm_inFlight = False\<rparr>\<rparr>"

definition threeSessions :: Listener where
  "threeSessions = (NewListener TransportWebTransport ''''
     (\<lambda>i. let s = newWebTransportSession i in if i = 2 then set_protocol fullProtocol s else s))
       \<lparr>li_sessions := [(1, ()), (2, ()), (3, ())]\<rparr>"

definition demoWire :: channelEnv where
  "demoWire = \<lparr>ce_WriteBatch = (\<lambda>ws fs. None), ce_WriteDatagram = (\<lambda>ws d. None), ce_ordFlight = map fst, ce_onMsg = True,
     ce_onDatagram = True, ce_onReliableUnordered = True, ce_onReliableOrdered = True, ce_onEventualStateFeedback = True\<rparr>"

theorem broadcast_batch_exact_witness:
  "cs_streamSend (li_heap (snd (BroadcastBatch [3, 1, 2] [[7]] threeSessions)) 3) = [[[7]]]"
proof -
  have o: "iter_order [3, 1, 2] (li_sessions threeSessions)" by (auto simp: threeSessions_def iter_order_def gm_keys_def)
  obtain e l' where b: "BroadcastBatch [3, 1, 2] [[7]] threeSessions = (e, l')" by fastforce
  have "map (li_wrap threeSessions) [[7]] = [[7]]" by (simp add: threeSessions_def NewListener_def li_wrap_def Let_def)
  moreover have "validateReliableMessageSizes [[7]] = None"
    by (simp add: validateReliableMessageSizes_def validateReliableMessageSize_def)
  moreover have "3 \<in> gm_keys (li_sessions threeSessions)" by (simp add: threeSessions_def gm_keys_def)
  moreover have "\<not> IsClosing (li_heap threeSessions 3)" "cs_streamSend (li_heap threeSessions 3) = []"
    by (simp_all add: threeSessions_def NewListener_def newWebTransportSession_def newSession_def IsClosing_def Let_def)
  ultimately show ?thesis using broadcast_batch_exact [OF o _ b] b by (auto simp: batchHandedOver_def)
qed

theorem full_session_starves_broadcast_witness:
  "fst (BroadcastReliableOrdered (\<lambda>i. 5) [1, 2, 3] [9] threeSessions) \<noteq> None
     \<and> ps_pendingOrdered (the (cs_protocol (li_heap (snd (BroadcastReliableOrdered (\<lambda>i. 5) [1, 2, 3] [9] threeSessions)) 3))) = []"
proof -
  have t: "li_Transport threeSessions = TransportWebTransport"
    by (simp add: threeSessions_def NewListener_def normalizeTransport_def TransportWebTransport_def Let_def)
  have v: "validateReliableDatagramMessageSize datagramLaneReliableOrdered [9] = None" by code_simp
  have p: "cs_protocol (li_heap threeSessions 2) = Some fullProtocol" "\<not> IsClosing (li_heap threeSessions 2)"
    "cs_protocol (li_heap threeSessions 3) = Some newDatagramProtocolState"
    by (simp_all add: threeSessions_def NewListener_def set_protocol_def newWebTransportSession_def newSession_def IsClosing_def Let_def)
  have q: "sendBufSize \<le> length (ps_pendingOrdered fullProtocol)" by (simp add: fullProtocol_def)
  have d: "distinct ([1] @ 2 # [3 :: int64])" by simp
  from full_session_starves_broadcast [OF t d v _ p(1) q p(2), of "\<lambda>i. 5"] show ?thesis
    by (simp add: p(3)) (simp add: newDatagramProtocolState_def)
qed

theorem snapshot_known_exact_witness:
  "snd (fst (li_sendSnapshot demoWire threeSessions (Some (Inr [[4]])) (Some (Inr [\<lparr>sn_EntityID = 5, sn_Data = [6]\<rparr>])) (Inr []) True
     (newWebSocketSession 9))) = Some [5]"
proof -
  let ?r = "li_sendSnapshot demoWire threeSessions (Some (Inr [[4]])) (Some (Inr [\<lparr>sn_EntityID = 5, sn_Data = [6]\<rparr>])) (Inr []) True
     (newWebSocketSession 9)"
  have w: "li_wrap threeSessions = (\<lambda>d. d)" and i: "\<not> li_interestEnabled threeSessions"
    by (simp_all add: threeSessions_def NewListener_def li_wrap_def Let_def fun_eq_iff)
  have v: "validateReliableMessageSize [4] = None" "validateReliableMessageSize [6] = None"
    by (simp_all add: validateReliableMessageSize_def)
  have "fst (fst ?r) = None"
    by (simp add: li_sendSnapshot_def w i v demoWire_def writeBatch_def Let_def comp_def)
  moreover obtain e called s' where r: "?r = ((e, called), s')" by (metis prod.collapse)
  ultimately show ?thesis using snapshot_known_exact [OF r] r i by (simp add: entityIDs_def)
qed

end
