(* ===== verification/Listener_Lifecycle.thy ===== *)
theory Listener_Lifecycle
  imports Listener Session_Pump
begin

text \<open>
  The life of the sessions of a listener (\<^verbatim>\<open>golem/net/listener.go\<close>: \<^verbatim>\<open>handleWS\<close>, \<^verbatim>\<open>handleWebTransport\<close>,
  \<^verbatim>\<open>serveAcceptedSession\<close>, \<^verbatim>\<open>CloseSessions\<close>).  Each request is a goroutine of its own that advances by one
  critical section or call at a time; so does each call of \<^verbatim>\<open>CloseSessions\<close>.  What a session does
  between is any change that keeps a close request (\<open>closeKept\<close> of \<^verbatim>\<open>Session_Pump\<close>).
\<close>

section \<open>Handlers\<close>

text \<open>
  \<open>HdFailed i pending\<close>: the snapshot or the admission of the session failed; \<open>pending\<close> tells whether it is
  still among the pending sessions.  \<open>HdRemove i connected pending\<close>: about to run the deferred
  \<^verbatim>\<open>removeSession\<close>.  \<open>HdFinish\<close>: about to run the deferred \<^verbatim>\<open>sessionHandlers.Done\<close>.
\<close>

datatype handlerPC =
    HdBegin
  | HdRejected
  | HdAuth
  | HdUpgrade
  | HdCreate
  | HdAccept int64
  | HdRefused int64
  | HdSnapshot int64
  | HdFailed int64 bool
  | HdAdd int64
  | HdConnect int64
  | HdPump int64
  | HdDisconnect int64
  | HdRemove int64 bool bool
  | HdFinish "int64 option"
  | HdDone "int64 option"

datatype closerPC = CsStart | CsClosing "int64 list" | CsWait | CsReturned

datatype lifeEvent = EvConnect int64 | EvDisconnect int64

record lifeState =
  lc_listener :: Listener
  lc_handlers :: nat
  lc_threads :: "handlerPC list"
  lc_closers :: "closerPC list"
  lc_events :: "lifeEvent list"

text \<open>The goroutine \<^verbatim>\<open>CloseSessions\<close> starts for a session, and what a refused session does itself.\<close>

definition forceClose :: "Session \<Rightarrow> Session" where
  "forceClose s = closeNow (abortClose (snd (beginClose '''' s)))"

definition createSession :: "bool \<Rightarrow> Listener \<Rightarrow> int64 \<times> Listener" where
  "createSession datagrams l =
     (let i = li_nextID l + 1
      in (i, li_put i (newSession i datagrams) (l\<lparr>li_nextID := i\<rparr>)))"

text \<open>
  One step of a handler: the position it reaches, the listener, the change of the handler count and
  the hooks called.  \<open>ok\<close> is the outcome of what the handler cannot control: the authorisation, the
  upgrade, the snapshot; for a new session it says whether it has datagrams.
\<close>

fun handlerStep :: "bool \<Rightarrow> handlerPC \<Rightarrow> Listener \<Rightarrow> handlerPC \<times> Listener \<times> int \<times> lifeEvent list" where
  "handlerStep ok HdBegin l = (if beginSessionHandler l then (HdAuth, l, 1, []) else (HdRejected, l, 0, []))"
| "handlerStep ok HdRejected l = (HdRejected, l, 0, [])"
| "handlerStep ok HdAuth l = (if ok then HdUpgrade else HdFinish None, l, 0, [])"
| "handlerStep ok HdUpgrade l = (if ok then HdCreate else HdFinish None, l, 0, [])"
| "handlerStep ok HdCreate l = (case createSession ok l of (i, l) \<Rightarrow> (HdAccept i, l, 0, []))"
| "handlerStep ok (HdAccept i) l =
     (case beginAcceptedSession i l of (True, l) \<Rightarrow> (HdSnapshot i, l, 0, []) | (False, l) \<Rightarrow> (HdRefused i, l, 0, []))"
| "handlerStep ok (HdRefused i) l = (HdFinish (Some i), li_put i (forceClose (li_heap l i)) l, 0, [])"
| "handlerStep ok (HdSnapshot i) l = (if ok then HdAdd i else HdFailed i True, l, 0, [])"
| "handlerStep ok (HdFailed i pending) l = (HdRemove i False pending, li_put i (sessClose (li_heap l i)) l, 0, [])"
| "handlerStep ok (HdAdd i) l =
     (case addSession i l of (True, l) \<Rightarrow> (HdConnect i, l, 0, []) | (False, l) \<Rightarrow> (HdFailed i False, l, 0, []))"
| "handlerStep ok (HdConnect i) l = (HdPump i, l, 0, [EvConnect i])"
| "handlerStep ok (HdPump i) l = (HdDisconnect i, li_put i (closeNow (li_heap l i)) l, 0, [])"
| "handlerStep ok (HdDisconnect i) l = (HdRemove i True False, l, 0, [EvDisconnect i])"
| "handlerStep ok (HdRemove i connected pending) l = (HdFinish (Some i), removeSession i l, 0, [])"
| "handlerStep ok (HdFinish r) l = (HdDone r, l, -1, [])"
| "handlerStep ok (HdDone r) l = (HdDone r, l, 0, [])"

text \<open>
  The system.  The identifier counter is a 64-bit word; a listener that had accepted \<open>2 ^ 64\<close> sessions
  would reuse identifiers.
\<close>

inductive lifeStep :: "lifeState \<Rightarrow> lifeState \<Rightarrow> bool" where
  request: "lifeStep st (st\<lparr>lc_threads := lc_threads st @ [HdBegin]\<rparr>)"
| handler: "k < length (lc_threads st) \<Longrightarrow> handlerStep ok (lc_threads st ! k) (lc_listener st) = (pc, l, d, ev)
    \<Longrightarrow> (lc_threads st ! k = HdCreate \<longrightarrow> unat (li_nextID (lc_listener st)) + 1 < 2 ^ 64)
    \<Longrightarrow> lifeStep st (st\<lparr>lc_threads := (lc_threads st)[k := pc], lc_listener := l,
          lc_handlers := nat (int (lc_handlers st) + d), lc_events := lc_events st @ ev\<rparr>)"
| session: "closeKept (li_heap (lc_listener st) i) s
    \<Longrightarrow> lifeStep st (st\<lparr>lc_listener := li_put i s (lc_listener st)\<rparr>)"
| closeCall: "lifeStep st (st\<lparr>lc_closers := lc_closers st @ [CsStart]\<rparr>)"
| collect: "k < length (lc_closers st) \<Longrightarrow> lc_closers st ! k = CsStart
    \<Longrightarrow> lifeStep st (st\<lparr>lc_listener := (lc_listener st)\<lparr>li_closing := True\<rparr>,
          lc_closers := (lc_closers st)[k := CsClosing (map fst (li_sessions (lc_listener st)) @ map fst (li_pending (lc_listener st)))]\<rparr>)"
| closeOne: "k < length (lc_closers st) \<Longrightarrow> lc_closers st ! k = CsClosing ids \<Longrightarrow> i \<in> set ids
    \<Longrightarrow> lifeStep st (st\<lparr>lc_listener := li_put i (forceClose (li_heap (lc_listener st) i)) (lc_listener st),
          lc_closers := (lc_closers st)[k := CsClosing (remove1 i ids)]\<rparr>)"
| closedAll: "k < length (lc_closers st) \<Longrightarrow> lc_closers st ! k = CsClosing []
    \<Longrightarrow> lifeStep st (st\<lparr>lc_closers := (lc_closers st)[k := CsWait]\<rparr>)"
| waited: "k < length (lc_closers st) \<Longrightarrow> lc_closers st ! k = CsWait \<Longrightarrow> lc_handlers st = 0
    \<Longrightarrow> lifeStep st (st\<lparr>lc_closers := (lc_closers st)[k := CsReturned]\<rparr>)"

definition lifeStart :: "Transport \<Rightarrow> string \<Rightarrow> (int64 \<Rightarrow> Session) \<Rightarrow> lifeState" where
  "lifeStart t path h =
     \<lparr>lc_listener = NewListener t path h, lc_handlers = 0, lc_threads = [], lc_closers = [], lc_events = []\<rparr>"

inductive lifeReachable :: "lifeState \<Rightarrow> bool" where
  start: "lifeReachable (lifeStart t path h)"
| step: "lifeReachable st \<Longrightarrow> lifeStep st st' \<Longrightarrow> lifeReachable st'"

section \<open>The invariant\<close>

text \<open>A handler counted by \<^verbatim>\<open>sessionHandlers\<close>, and the session a handler serves.\<close>

fun counted :: "handlerPC \<Rightarrow> bool" where
  "counted HdBegin = False"
| "counted HdRejected = False"
| "counted (HdDone r) = False"
| "counted _ = True"

fun servedBy :: "handlerPC \<Rightarrow> int64 option" where
  "servedBy (HdAccept i) = Some i"
| "servedBy (HdRefused i) = Some i"
| "servedBy (HdSnapshot i) = Some i"
| "servedBy (HdFailed i p) = Some i"
| "servedBy (HdAdd i) = Some i"
| "servedBy (HdConnect i) = Some i"
| "servedBy (HdPump i) = Some i"
| "servedBy (HdDisconnect i) = Some i"
| "servedBy (HdRemove i c p) = Some i"
| "servedBy (HdFinish r) = r"
| "servedBy (HdDone r) = r"
| "servedBy _ = None"

text \<open>Whether the session of a handler is connected, pending, over; and the hooks called for it, where known.\<close>

fun isConnected :: "handlerPC \<Rightarrow> bool" where
  "isConnected (HdConnect i) = True"
| "isConnected (HdPump i) = True"
| "isConnected (HdDisconnect i) = True"
| "isConnected (HdRemove i c p) = c"
| "isConnected _ = False"

fun isPending :: "handlerPC \<Rightarrow> bool" where
  "isPending (HdSnapshot i) = True"
| "isPending (HdFailed i p) = p"
| "isPending (HdAdd i) = True"
| "isPending (HdRemove i c p) = (\<not> c \<and> p)"
| "isPending _ = False"

fun isOver :: "handlerPC \<Rightarrow> bool" where
  "isOver (HdFinish r) = True"
| "isOver (HdDone r) = True"
| "isOver _ = False"

fun hooksOf :: "handlerPC \<Rightarrow> int64 \<Rightarrow> lifeEvent list set" where
  "hooksOf (HdPump j) i = {[EvConnect i]}"
| "hooksOf (HdDisconnect j) i = {[EvConnect i]}"
| "hooksOf (HdRemove j c p) i = {if c then [EvConnect i, EvDisconnect i] else []}"
| "hooksOf (HdFinish r) i = {[], [EvConnect i, EvDisconnect i]}"
| "hooksOf (HdDone r) i = {[], [EvConnect i, EvDisconnect i]}"
| "hooksOf _ i = {[]}"

definition eventsFor :: "int64 \<Rightarrow> lifeEvent list \<Rightarrow> lifeEvent list" where
  "eventsFor i evs = filter (\<lambda>e. e = EvConnect i \<or> e = EvDisconnect i) evs"

definition servedOK :: "Listener \<Rightarrow> lifeEvent list \<Rightarrow> handlerPC \<Rightarrow> int64 \<Rightarrow> bool" where
  "servedOK l evs pc i \<longleftrightarrow>
     unat i \<le> unat (li_nextID l) \<and> (i \<in> gm_keys (li_sessions l)) = isConnected pc \<and> (i \<in> gm_keys (li_pending l)) = isPending pc
     \<and> eventsFor i evs \<in> hooksOf pc i \<and> (isOver pc \<longrightarrow> IsClosing (li_heap l i))"

definition lifeInv :: "lifeState \<Rightarrow> bool" where
  "lifeInv st \<longleftrightarrow>
     lc_handlers st = length (filter counted (lc_threads st))
     \<and> (\<forall>k < length (lc_threads st). \<forall>i. servedBy (lc_threads st ! k) = Some i
          \<longrightarrow> servedOK (lc_listener st) (lc_events st) (lc_threads st ! k) i)
     \<and> (\<forall>j < length (lc_threads st). \<forall>k < length (lc_threads st). \<forall>i.
          servedBy (lc_threads st ! j) = Some i \<and> servedBy (lc_threads st ! k) = Some i \<longrightarrow> j = k)
     \<and> (\<forall>i. i \<in> gm_keys (li_sessions (lc_listener st)) \<union> gm_keys (li_pending (lc_listener st)) \<or> eventsFor i (lc_events st) \<noteq> []
          \<longrightarrow> (\<exists>pc \<in> set (lc_threads st). servedBy pc = Some i))
     \<and> (\<forall>c \<in> set (lc_closers st). c \<noteq> CsStart \<longrightarrow> li_closing (lc_listener st))
     \<and> (CsReturned \<in> set (lc_closers st) \<longrightarrow> lc_handlers st = 0)"

section \<open>Steps keep the invariant\<close>

lemma eventsFor_append [simp]: "eventsFor i (xs @ ys) = eventsFor i xs @ eventsFor i ys"
  by (simp add: eventsFor_def)

lemma eventsFor_simps [simp]:
  "eventsFor i [] = []" "eventsFor i [EvConnect j] = (if j = i then [EvConnect i] else [])"
  "eventsFor i [EvDisconnect j] = (if j = i then [EvDisconnect i] else [])"
  by (auto simp: eventsFor_def)

lemma put_fields [simp]:
  "li_pending (li_put i s l) = li_pending l" "li_nextID (li_put i s l) = li_nextID l" "li_closing (li_put i s l) = li_closing l"
  by (simp_all add: li_put_def)

text \<open>What a step that does not serve \<open>j\<close> leaves as it was.\<close>

definition sameFor :: "int64 \<Rightarrow> Listener \<Rightarrow> Listener \<Rightarrow> lifeEvent list \<Rightarrow> bool" where
  "sameFor j l l' ev \<longleftrightarrow> (j \<in> gm_keys (li_sessions l')) = (j \<in> gm_keys (li_sessions l))
     \<and> (j \<in> gm_keys (li_pending l')) = (j \<in> gm_keys (li_pending l)) \<and> eventsFor j ev = []
     \<and> (IsClosing (li_heap l j) \<longrightarrow> IsClosing (li_heap l' j)) \<and> unat (li_nextID l) \<le> unat (li_nextID l')"

lemma servedOK_same: "sameFor i l l' ev \<Longrightarrow> servedOK l evs pc i \<Longrightarrow> servedOK l' (evs @ ev) pc i"
  by (auto simp: sameFor_def servedOK_def)

lemma closes_forced: "IsClosing (closeNow s)" "IsClosing (forceClose s)" "IsClosing (sessClose s)" "IsClosing (shutdown s)"
proof -
  show "IsClosing (closeNow s)" for s by (rule closeKept_closeNow)
  then show "IsClosing (forceClose s)" "IsClosing (sessClose s)"
    by (auto simp: forceClose_def sessClose_def CloseWithReason_def beginClose_def IsClosing_def)
  show "IsClosing (shutdown s)" by (simp add: shutdown_def beginClose_def IsClosing_def)
qed

lemmas step_defs = beginAcceptedSession_def addSession_def removeSession_def createSession_def Let_def

lemma handler_serves:
  assumes "handlerStep ok pc l = (pc', l', d, ev)" "servedBy pc = Some i"
  shows "servedBy pc' = Some i" and "servedOK l evs pc i \<Longrightarrow> servedOK l' (evs @ ev) pc' i"
    and "j \<noteq> i \<Longrightarrow> sameFor j l l' ev" and "li_closing l' = li_closing l"
proof -
  show "servedBy pc' = Some i" using assms by (cases pc) (auto simp: step_defs split: if_splits prod.splits bool.splits)
  show "servedOK l evs pc i \<Longrightarrow> servedOK l' (evs @ ev) pc' i"
    using assms by (cases pc) (auto simp: step_defs servedOK_def closes_forced split: if_splits prod.splits bool.splits)
  show "j \<noteq> i \<Longrightarrow> sameFor j l l' ev"
    using assms by (cases pc) (auto simp: step_defs sameFor_def split: if_splits prod.splits bool.splits)
  show "li_closing l' = li_closing l"
    using assms by (cases pc) (auto simp: step_defs li_put_def split: if_splits prod.splits bool.splits)
qed

lemma handler_unserved:
  assumes "handlerStep ok pc l = (pc', l', d, ev)" "servedBy pc = None" "pc \<noteq> HdCreate"
  shows "servedBy pc' = None \<and> l' = l \<and> ev = []"
  using assms by (cases pc) (auto split: if_splits)

lemma handler_count:
  "handlerStep ok pc l = (pc', l', d, ev) \<Longrightarrow> d = (if counted pc' then 1 else 0) - (if counted pc then 1 else 0)"
  by (cases pc) (auto simp: step_defs split: if_splits prod.splits bool.splits)

lemma counted_update:
  "k < length xs \<Longrightarrow> int (length (filter counted (xs[k := pc])))
     = int (length (filter counted xs)) + (if counted pc then 1 else 0) - (if counted (xs ! k) then 1 else 0)"
proof -
  assume k: "k < length xs"
  then have "filter counted xs = filter counted (take k xs) @ filter counted [xs ! k] @ filter counted (drop (Suc k) xs)"
    by (metis filter_append id_take_nth_drop append_Cons append_Nil)
  then show ?thesis using k by (simp add: upd_conv_take_nth_drop)
qed

text \<open>The parts of the invariant.\<close>

definition allServed :: "lifeState \<Rightarrow> bool" where
  "allServed st \<longleftrightarrow> (\<forall>k < length (lc_threads st). \<forall>i. servedBy (lc_threads st ! k) = Some i
     \<longrightarrow> servedOK (lc_listener st) (lc_events st) (lc_threads st ! k) i)"

definition servedOnce :: "handlerPC list \<Rightarrow> bool" where
  "servedOnce ts \<longleftrightarrow> (\<forall>j < length ts. \<forall>k < length ts. \<forall>i. servedBy (ts ! j) = Some i \<and> servedBy (ts ! k) = Some i \<longrightarrow> j = k)"

definition known :: "Listener \<Rightarrow> lifeEvent list \<Rightarrow> int64 \<Rightarrow> bool" where
  "known l evs i \<longleftrightarrow> i \<in> gm_keys (li_sessions l) \<union> gm_keys (li_pending l) \<or> eventsFor i evs \<noteq> []"

definition allKnownServed :: "lifeState \<Rightarrow> bool" where
  "allKnownServed st \<longleftrightarrow> (\<forall>i. known (lc_listener st) (lc_events st) i \<longrightarrow> (\<exists>pc \<in> set (lc_threads st). servedBy pc = Some i))"

definition closersOK :: "lifeState \<Rightarrow> bool" where
  "closersOK st \<longleftrightarrow> (\<forall>c \<in> set (lc_closers st). c \<noteq> CsStart \<longrightarrow> li_closing (lc_listener st))
     \<and> (CsReturned \<in> set (lc_closers st) \<longrightarrow> lc_handlers st = 0)"

lemma lifeInv_parts:
  "lifeInv st \<longleftrightarrow> lc_handlers st = length (filter counted (lc_threads st)) \<and> allServed st \<and> servedOnce (lc_threads st)
     \<and> allKnownServed st \<and> closersOK st"
  by (simp add: lifeInv_def allServed_def servedOnce_def known_def allKnownServed_def closersOK_def)

lemma known_same: "sameFor j l l' ev \<Longrightarrow> known l' (evs @ ev) j = known l evs j"
  by (auto simp: sameFor_def known_def)

lemma servedOnce_update:
  assumes "servedOnce ts" "k < length ts" "servedBy pc = servedBy (ts ! k) \<or> (\<forall>x \<in> set ts. servedBy pc \<noteq> servedBy x)"
  shows "servedOnce (ts[k := pc])"
proof -
  have "x = y" if "x < length ts" "y < length ts" "servedBy (ts[k := pc] ! x) = Some i" "servedBy (ts[k := pc] ! y) = Some i" for x y i
  proof (cases "servedBy pc = servedBy (ts ! k)")
    case True
    then have "servedBy (ts[k := pc] ! z) = servedBy (ts ! z)" for z by (cases "z = k") (use assms(2) in auto)
    then show ?thesis using that assms(1) by (auto simp: servedOnce_def)
  next
    case False
    then have n: "z < length ts \<Longrightarrow> servedBy pc \<noteq> servedBy (ts ! z)" for z using assms(3) by auto
    have "x = k \<longleftrightarrow> y = k" using n [of x] n [of y] that assms(2) by (cases "x = k"; cases "y = k") simp_all
    then show ?thesis using that assms(1,2) unfolding servedOnce_def by (cases "x = k") simp_all
  qed
  then show ?thesis by (auto simp: servedOnce_def)
qed

lemma served_update:
  assumes "allServed st" "servedOnce (lc_threads st)" "k < length (lc_threads st)" "servedBy (lc_threads st ! k) = Some i"
    and "servedBy pc = Some i" "servedOK l (lc_events st @ ev) pc i" "\<And>j. j \<noteq> i \<Longrightarrow> sameFor j (lc_listener st) l ev"
  shows "allServed (st\<lparr>lc_threads := (lc_threads st)[k := pc], lc_listener := l, lc_handlers := n, lc_events := lc_events st @ ev\<rparr>)"
  unfolding allServed_def
proof (intro allI impI, simp)
  fix k' j assume k': "k' < length (lc_threads st)" and s: "servedBy ((lc_threads st)[k := pc] ! k') = Some j"
  show "servedOK l (lc_events st @ ev) ((lc_threads st)[k := pc] ! k') j"
  proof (cases "k' = k")
    case True
    then show ?thesis using assms(3,5,6) s by simp
  next
    case False
    then have "servedBy (lc_threads st ! k') = Some j" using s by simp
    moreover have "j \<noteq> i" using calculation assms(2-4) k' False by (auto simp: servedOnce_def)
    ultimately show ?thesis using servedOK_same [OF assms(7)] assms(1) k' False by (simp add: allServed_def)
  qed
qed

lemma known_update:
  assumes "allKnownServed st" "k < length (lc_threads st)" "servedBy (lc_threads st ! k) = Some i" "servedBy pc = Some i"
    and "\<And>j. j \<noteq> i \<Longrightarrow> sameFor j (lc_listener st) l ev"
  shows "allKnownServed (st\<lparr>lc_threads := (lc_threads st)[k := pc], lc_listener := l, lc_handlers := n, lc_events := lc_events st @ ev\<rparr>)"
  unfolding allKnownServed_def
proof (intro allI impI, simp)
  fix j assume "known l (lc_events st @ ev) j"
  show "\<exists>x \<in> set ((lc_threads st)[k := pc]). servedBy x = Some j"
  proof (cases "j = i")
    case True
    then show ?thesis using assms(2,4) set_update_memI by metis
  next
    case False
    then have "known (lc_listener st) (lc_events st) j" using known_same [OF assms(5)] \<open>known l (lc_events st @ ev) j\<close> by simp
    then obtain x where "x \<in> set (lc_threads st)" "servedBy x = Some j" using assms(1) by (auto simp: allKnownServed_def)
    then show ?thesis using set_update_other [of x "lc_threads st" k pc] assms(3) False by (metis option.inject)
  qed
qed

lemma fresh_session:
  assumes "lifeInv st" "unat (li_nextID (lc_listener st)) + 1 < 2 ^ 64"
  defines "i \<equiv> li_nextID (lc_listener st) + 1"
  shows "unat i = unat (li_nextID (lc_listener st)) + 1" and "\<forall>x \<in> set (lc_threads st). servedBy x \<noteq> Some i"
    and "\<not> known (lc_listener st) (lc_events st) i"
proof -
  show u: "unat i = unat (li_nextID (lc_listener st)) + 1"
    using assms(2) unfolding i_def by (subst unat_add_lem [THEN iffD1]) auto
  show f: "\<forall>x \<in> set (lc_threads st). servedBy x \<noteq> Some i"
  proof (intro ballI notI)
    fix x assume "x \<in> set (lc_threads st)" "servedBy x = Some i"
    then have "unat i \<le> unat (li_nextID (lc_listener st))"
      using assms(1) by (auto simp: lifeInv_parts allServed_def servedOK_def in_set_conv_nth)
    then show False using u by simp
  qed
  then show "\<not> known (lc_listener st) (lc_events st) i" using assms(1) by (auto simp: lifeInv_parts allKnownServed_def)
qed

lemma uncounted_stays: "handlerStep ok pc l = (pc', l', d, ev) \<Longrightarrow> \<not> counted pc \<Longrightarrow> li_closing l \<Longrightarrow> \<not> counted pc'"
  by (cases pc) (auto simp: beginSessionHandler_def)

lemma lifeInv_handler:
  assumes inv: "lifeInv st" and k: "k < length (lc_threads st)"
    and h: "handlerStep ok (lc_threads st ! k) (lc_listener st) = (pc, l, d, ev)"
    and bound: "lc_threads st ! k = HdCreate \<longrightarrow> unat (li_nextID (lc_listener st)) + 1 < 2 ^ 64"
  shows "lifeInv (st\<lparr>lc_threads := (lc_threads st)[k := pc], lc_listener := l,
          lc_handlers := nat (int (lc_handlers st) + d), lc_events := lc_events st @ ev\<rparr>)" (is "lifeInv ?st'")
proof -
  let ?old = "lc_threads st ! k"
  have I: "lc_handlers st = length (filter counted (lc_threads st))" "allServed st" "servedOnce (lc_threads st)"
    "allKnownServed st" "closersOK st"
    using inv by (simp_all add: lifeInv_parts)
  have count: "lc_handlers ?st' = length (filter counted (lc_threads ?st'))"
    using counted_update [OF k, of pc] handler_count [OF h] I(1) by simp
  have "li_closing l = li_closing (lc_listener st) \<and> allServed ?st' \<and> servedOnce (lc_threads ?st') \<and> allKnownServed ?st'"
  proof (cases "servedBy ?old")
    case (Some i)
    note H = handler_serves [OF h Some]
    have ok: "servedOK l (lc_events st @ ev) pc i" using H(2) I(2) k Some by (auto simp: allServed_def)
    show ?thesis
      using H(4) served_update [OF I(2,3) k Some H(1) ok H(3)] known_update [OF I(4) k Some H(1,3)]
        servedOnce_update [OF I(3) k] H(1) Some by simp
  next
    case None
    show ?thesis
    proof (cases "?old = HdCreate")
      case True
      let ?i = "li_nextID (lc_listener st) + 1"
      have u: "unat ?i = unat (li_nextID (lc_listener st)) + 1" and f: "\<forall>x \<in> set (lc_threads st). servedBy x \<noteq> Some ?i"
        and n: "\<not> known (lc_listener st) (lc_events st) ?i"
        using fresh_session [OF inv] bound True by auto
      have p: "pc = HdAccept ?i" "l = li_put ?i (newSession ?i ok) ((lc_listener st)\<lparr>li_nextID := ?i\<rparr>)" "ev = []"
        using h True by (auto simp: createSession_def Let_def)
      have same: "sameFor j (lc_listener st) l []" if "j \<noteq> ?i" for j
        using that u by (simp add: sameFor_def p)
      have kn: "known l (lc_events st) j = known (lc_listener st) (lc_events st) j" for j by (simp add: known_def p)
      have "servedOK l (lc_events st) ((lc_threads st)[k := pc] ! m) j"
        if "m < length (lc_threads st)" "servedBy ((lc_threads st)[k := pc] ! m) = Some j" for m j
      proof (cases "m = k")
        case True
        then show ?thesis using that n u by (auto simp: p servedOK_def known_def)
      next
        case False
        then have "servedBy (lc_threads st ! m) = Some j" "j \<noteq> ?i" using that f by auto
        then show ?thesis using servedOK_same [OF same, of j "lc_events st"] I(2) that False by (simp add: allServed_def)
      qed
      moreover have "\<exists>x \<in> set ((lc_threads st)[k := pc]). servedBy x = Some j" if "known (lc_listener st) (lc_events st) j" for j
        using I(4) that set_update_other [of _ "lc_threads st" k pc] None unfolding allKnownServed_def by (metis option.distinct(1))
      moreover have "servedOnce ((lc_threads st)[k := pc])"
        by (rule servedOnce_update [OF I(3) k]) (use f in \<open>simp add: p, metis\<close>)
      moreover have "li_closing l = li_closing (lc_listener st)" by (simp add: p)
      ultimately show ?thesis by (simp add: allServed_def allKnownServed_def kn p(3))
    next
      case False
      have s: "servedBy pc = None" "l = lc_listener st" "ev = []" using handler_unserved [OF h None False] by auto
      have "\<exists>x \<in> set ((lc_threads st)[k := pc]). servedBy x = Some j" if "known (lc_listener st) (lc_events st) j" for j
        using I(4) that set_update_other [of _ "lc_threads st" k pc] None unfolding allKnownServed_def by (metis option.distinct(1))
      moreover have "servedOK l (lc_events st) ((lc_threads st)[k := pc] ! m) j"
        if "m < length (lc_threads st)" "servedBy ((lc_threads st)[k := pc] ! m) = Some j" for m j
        using that I(2) s(1) by (cases "m = k") (auto simp: allServed_def s)
      ultimately show ?thesis
        using servedOnce_update [OF I(3) k, of pc] None s(1) by (auto simp: allServed_def allKnownServed_def s)
    qed
  qed
  moreover have "lc_handlers ?st' = 0" if r: "CsReturned \<in> set (lc_closers st)"
  proof -
    have z: "lc_handlers st = 0" "li_closing (lc_listener st)" using I(5) r by (auto simp: closersOK_def)
    then have "\<not> counted ?old" using I(1) k by (auto simp: filter_empty_conv)
    then have "d = 0" using uncounted_stays [OF h _ z(2)] handler_count [OF h] by simp
    then show ?thesis using z by simp
  qed
  ultimately show ?thesis using count I(5) by (simp add: lifeInv_parts closersOK_def)
qed

lemma lifeInv_heap:
  assumes "lifeInv st" "IsClosing (li_heap (lc_listener st) i) \<longrightarrow> IsClosing s"
  shows "lifeInv (st\<lparr>lc_listener := li_put i s (lc_listener st)\<rparr>)"
  using assms by (auto simp: lifeInv_def servedOK_def)

lemma closers_update:
  "lifeInv st \<Longrightarrow> li_closing (lc_listener st) \<Longrightarrow> (c = CsReturned \<longrightarrow> lc_handlers st = 0)
     \<Longrightarrow> lifeInv (st\<lparr>lc_closers := (lc_closers st)[k := c]\<rparr>)"
  by (auto simp: lifeInv_def dest!: subsetD [OF set_update_subset_insert])

lemma closing_of: "lifeInv st \<Longrightarrow> k < length (lc_closers st) \<Longrightarrow> lc_closers st ! k = c \<Longrightarrow> c \<noteq> CsStart \<Longrightarrow> li_closing (lc_listener st)"
  using nth_mem by (fastforce simp: lifeInv_parts closersOK_def)

lemma lifeStep_inv: "lifeStep st st' \<Longrightarrow> lifeInv st \<Longrightarrow> lifeInv st'"
proof (induction rule: lifeStep.induct)
  case (request st)
  then show ?case by (auto simp: lifeInv_def nth_append)
next
  case (handler k st ok pc l d ev)
  then show ?case using lifeInv_handler by blast
next
  case (session st i s)
  then show ?case by (intro lifeInv_heap) (auto dest: IsClosing_mono)
next
  case (closeCall st)
  then show ?case by (auto simp: lifeInv_def)
next
  case (collect k st)
  have "lifeInv (st\<lparr>lc_listener := (lc_listener st)\<lparr>li_closing := True\<rparr>\<rparr>)"
    using collect(3) by (auto simp: lifeInv_def servedOK_def)
  from closers_update [OF this] show ?case by simp
next
  case (closeOne k st ids i)
  have c: "li_closing (lc_listener st)" using closing_of [OF closeOne(4,1,2)] by simp
  have L: "lifeInv (st\<lparr>lc_listener := li_put i (forceClose (li_heap (lc_listener st) i)) (lc_listener st)\<rparr>)"
    by (intro lifeInv_heap closeOne(4)) (simp add: closes_forced)
  from closers_update [OF this] c show ?case by simp
next
  case (closedAll k st)
  then have "li_closing (lc_listener st)" using closing_of [OF closedAll(3,1,2)] by simp
  then show ?case using closers_update [OF closedAll(3)] by simp
next
  case (waited k st)
  then have "li_closing (lc_listener st)" using closing_of [OF waited(4,1,2)] by simp
  then show ?case using closers_update [OF waited(4)] waited(3) by simp
qed

lemma lifeReachable_inv: "lifeReachable st \<Longrightarrow> lifeInv st"
proof (induction rule: lifeReachable.induct)
  case (start t path h)
  then show ?case by (simp add: lifeInv_def lifeStart_def NewListener_def Let_def)
qed (rule lifeStep_inv)

section \<open>What the listener guarantees\<close>

text \<open>
  C6.  The game sees every session connect once and then disconnect once: in every reachable state
  the hooks called for an identifier are none, a connect, or a connect and then a disconnect; while a
  session is connected it is not pending; and a connected session whose connect hook has run and
  disconnect hook has not is one its handler is pumping.
\<close>

theorem connect_disconnect_paired:
  assumes "lifeReachable st"
  shows "eventsFor i (lc_events st) \<in> {[], [EvConnect i], [EvConnect i, EvDisconnect i]}
    \<and> (i \<in> gm_keys (li_sessions (lc_listener st)) \<longrightarrow> i \<notin> gm_keys (li_pending (lc_listener st)))
    \<and> (eventsFor i (lc_events st) = [EvConnect i] \<longrightarrow> i \<in> gm_keys (li_sessions (lc_listener st)))"
proof -
  have I: "allServed st" "allKnownServed st" using lifeReachable_inv [OF assms] by (simp_all add: lifeInv_parts)
  show ?thesis
  proof (cases "known (lc_listener st) (lc_events st) i")
    case True
    then obtain pc where "pc \<in> set (lc_threads st)" "servedBy pc = Some i" using I(2) by (auto simp: allKnownServed_def)
    then have "servedOK (lc_listener st) (lc_events st) pc i" using I(1) by (auto simp: allServed_def in_set_conv_nth)
    then show ?thesis by (cases pc) (auto simp: servedOK_def split: if_splits)
  qed (auto simp: known_def)
qed

text \<open>
  C7.  \<^verbatim>\<open>CloseSessions\<close> does what it says.  Once a call has returned, in that state and in every
  later one no session is connected or pending, no handler is running, every session that ever
  connected has disconnected, and every session a handler served is closed for good.
\<close>

theorem shutdown_complete:
  assumes "lifeReachable st" and "CsReturned \<in> set (lc_closers st)"
  shows "li_sessions (lc_listener st) = [] \<and> li_pending (lc_listener st) = []
    \<and> (\<forall>pc \<in> set (lc_threads st). \<not> counted pc)
    \<and> (\<forall>i. eventsFor i (lc_events st) \<in> {[], [EvConnect i, EvDisconnect i]})
    \<and> (\<forall>pc \<in> set (lc_threads st). \<forall>i. servedBy pc = Some i \<longrightarrow> IsClosing (li_heap (lc_listener st) i))"
proof -
  have inv: "lifeInv st" by (rule lifeReachable_inv [OF assms(1)])
  then have I: "allServed st" "allKnownServed st" by (simp_all add: lifeInv_parts)
  have "lc_handlers st = 0" using inv assms(2) unfolding lifeInv_def by blast
  then have "length (filter counted (lc_threads st)) = 0" using inv by (simp only: lifeInv_parts)
  then have c: "\<forall>pc \<in> set (lc_threads st). \<not> counted pc" by (simp add: filter_empty_conv)
  have over: "servedOK (lc_listener st) (lc_events st) pc i \<and> isOver pc \<and> \<not> isConnected pc \<and> \<not> isPending pc
      \<and> eventsFor i (lc_events st) \<in> {[], [EvConnect i, EvDisconnect i]}"
    if "pc \<in> set (lc_threads st)" "servedBy pc = Some i" for pc i
  proof -
    have "servedOK (lc_listener st) (lc_events st) pc i" using I(1) that by (auto simp: allServed_def in_set_conv_nth)
    then show ?thesis using c that by (cases pc) (auto simp: servedOK_def)
  qed
  have gone: "\<not> (i \<in> gm_keys (li_sessions (lc_listener st)) \<union> gm_keys (li_pending (lc_listener st)))
      \<and> eventsFor i (lc_events st) \<in> {[], [EvConnect i, EvDisconnect i]}" for i
  proof (cases "known (lc_listener st) (lc_events st) i")
    case True
    then obtain pc where "pc \<in> set (lc_threads st)" "servedBy pc = Some i" using I(2) by (auto simp: allKnownServed_def)
    then show ?thesis using over [of pc i] by (auto simp: servedOK_def)
  qed (auto simp: known_def)
  have "gm_keys (li_sessions (lc_listener st)) = {}" "gm_keys (li_pending (lc_listener st)) = {}" using gone by blast+
  then have "li_sessions (lc_listener st) = []" "li_pending (lc_listener st) = []" by (simp_all add: gm_keys_def)
  then show ?thesis using c gone over by (auto simp: servedOK_def)
qed

section \<open>Examples\<close>

datatype lifeChoice =
    LfRequest
  | LfHandler bool nat
  | LfCloseCall
  | LfCollect nat
  | LfCloseOne nat int64
  | LfClosedAll nat
  | LfWaited nat

text \<open>A move that is not possible changes nothing.\<close>

definition setCloser :: "nat \<Rightarrow> closerPC \<Rightarrow> closerPC \<Rightarrow> (lifeState \<Rightarrow> lifeState) \<Rightarrow> lifeState \<Rightarrow> lifeState" where
  "setCloser k old new f st =
     (if k < length (lc_closers st) \<and> lc_closers st ! k = old
      then (f st)\<lparr>lc_closers := (lc_closers st)[k := new]\<rparr> else st)"

fun lifeMove :: "lifeChoice \<Rightarrow> lifeState \<Rightarrow> lifeState" where
  "lifeMove LfRequest st = st\<lparr>lc_threads := lc_threads st @ [HdBegin]\<rparr>"
| "lifeMove (LfHandler ok k) st =
     (if k < length (lc_threads st) \<and> li_nextID (lc_listener st) < 1000
      then case handlerStep ok (lc_threads st ! k) (lc_listener st) of
             (pc, l, d, ev) \<Rightarrow> st\<lparr>lc_threads := (lc_threads st)[k := pc], lc_listener := l,
               lc_handlers := nat (int (lc_handlers st) + d), lc_events := lc_events st @ ev\<rparr>
      else st)"
| "lifeMove LfCloseCall st = st\<lparr>lc_closers := lc_closers st @ [CsStart]\<rparr>"
| "lifeMove (LfCollect k) st =
     setCloser k CsStart (CsClosing (map fst (li_sessions (lc_listener st)) @ map fst (li_pending (lc_listener st))))
       (\<lambda>st. st\<lparr>lc_listener := (lc_listener st)\<lparr>li_closing := True\<rparr>\<rparr>) st"
| "lifeMove (LfCloseOne k i) st =
     setCloser k (CsClosing [i]) (CsClosing [])
       (\<lambda>st. st\<lparr>lc_listener := li_put i (forceClose (li_heap (lc_listener st) i)) (lc_listener st)\<rparr>) st"
| "lifeMove (LfClosedAll k) st = setCloser k (CsClosing []) CsWait (\<lambda>st. st) st"
| "lifeMove (LfWaited k) st = (if lc_handlers st = 0 then setCloser k CsWait CsReturned (\<lambda>st. st) st else st)"

lemma small_id: "i < 1000 \<Longrightarrow> unat (i :: int64) + 1 < 2 ^ 64"
  by (simp add: word_less_nat_alt)

lemma setCloser_reachable:
  assumes "lifeReachable st"
    and "k < length (lc_closers st) \<Longrightarrow> lc_closers st ! k = old \<Longrightarrow> lifeStep st ((f st)\<lparr>lc_closers := (lc_closers st)[k := new]\<rparr>)"
  shows "lifeReachable (setCloser k old new f st)"
  using assms by (auto simp: setCloser_def intro: lifeReachable.step)

lemma lifeMove_reachable:
  assumes r: "lifeReachable st"
  shows "lifeReachable (lifeMove c st)"
proof (cases c)
  case LfRequest
  then show ?thesis using lifeReachable.step [OF r lifeStep.request] by simp
next
  case (LfHandler ok k)
  obtain pc l d ev where h: "handlerStep ok (lc_threads st ! k) (lc_listener st) = (pc, l, d, ev)" by (metis prod_cases4)
  show ?thesis
  proof (cases "k < length (lc_threads st) \<and> li_nextID (lc_listener st) < 1000")
    case True
    then show ?thesis using lifeReachable.step [OF r lifeStep.handler [OF _ h]] small_id by (simp add: LfHandler h)
  next
    case False
    then show ?thesis using r by (simp only: LfHandler lifeMove.simps if_False)
  qed
next
  case LfCloseCall
  then show ?thesis using lifeReachable.step [OF r lifeStep.closeCall] by simp
next
  case (LfCollect k)
  show ?thesis unfolding LfCollect lifeMove.simps
    by (rule setCloser_reachable [OF r]) (use lifeStep.collect [of k st] in simp)
next
  case (LfCloseOne k i)
  show ?thesis unfolding LfCloseOne lifeMove.simps
    by (rule setCloser_reachable [OF r]) (use lifeStep.closeOne [of k st "[i]" i] in simp)
next
  case (LfClosedAll k)
  show ?thesis unfolding LfClosedAll lifeMove.simps
    by (rule setCloser_reachable [OF r]) (use lifeStep.closedAll [of k st] in simp)
next
  case (LfWaited k)
  show ?thesis
  proof (cases "lc_handlers st = 0")
    case True
    show ?thesis unfolding LfWaited lifeMove.simps if_P [OF True]
      by (rule setCloser_reachable [OF r]) (use lifeStep.waited [of k st] True in simp)
  qed (simp add: LfWaited r)
qed

lemma lifeMoves_reachable: "lifeReachable st \<Longrightarrow> lifeReachable (fold lifeMove cs st)"
  by (induction cs arbitrary: st) (auto intro: lifeMove_reachable)

text \<open>A request served as session 1 up to its connect, then a shutdown.\<close>

definition servedRun :: lifeState where
  "servedRun = fold lifeMove (LfRequest # replicate 8 (LfHandler True 0)) (lifeStart TransportWebTransport '''' newWebSocketSession)"

definition shutdownRun :: lifeState where
  "shutdownRun = fold lifeMove ([LfCloseCall, LfCollect 0, LfCloseOne 0 1, LfClosedAll 0] @ replicate 4 (LfHandler True 0) @ [LfWaited 0])
     servedRun"

lemma servedRun_reachable: "lifeReachable servedRun"
  unfolding servedRun_def by (rule lifeMoves_reachable) (rule lifeReachable.start)

theorem connect_disconnect_paired_witness:
  "1 \<in> gm_keys (li_sessions (lc_listener servedRun)) \<and> 1 \<notin> gm_keys (li_pending (lc_listener servedRun))"
proof -
  have "eventsFor 1 (lc_events servedRun) = [EvConnect 1]" by code_simp
  then show ?thesis using connect_disconnect_paired [OF servedRun_reachable, of 1] by blast
qed

theorem shutdown_complete_witness:
  "li_sessions (lc_listener shutdownRun) = [] \<and> lc_events shutdownRun = [EvConnect 1, EvDisconnect 1]"
proof -
  have r: "lifeReachable shutdownRun" unfolding shutdownRun_def by (rule lifeMoves_reachable [OF servedRun_reachable])
  have c: "CsReturned \<in> set (lc_closers shutdownRun)" and e: "lc_events shutdownRun = [EvConnect 1, EvDisconnect 1]"
    by code_simp+
  then show ?thesis using shutdown_complete [OF r c] e by blast
qed

end
