(* ===== verification/Geometry.thy ===== *)
theory Geometry
  imports Complex_Main Interest_Grid
begin

text \<open>
  The geometry of the collision packages (\<^verbatim>\<open>golem/collision3d/math.go\<close>, \<^verbatim>\<open>backend.go\<close>,
  \<^verbatim>\<open>golem/collision/castmath.go\<close>).  The float64 operations are a record \<open>geops\<close> that extends the one of the
  grid; a definition is the code for any such arithmetic.  Where a theorem speaks of points in
  space, it is about exact arithmetic, the instance \<open>realOps\<close>.
\<close>

section \<open>Arithmetic\<close>

record 'f geops = "'f fops" +
  flt :: "'f \<Rightarrow> 'f \<Rightarrow> bool"
  feq :: "'f \<Rightarrow> 'f \<Rightarrow> bool"
  fneg :: "'f \<Rightarrow> 'f"
  fabs :: "'f \<Rightarrow> 'f"
  fsqrt :: "'f \<Rightarrow> 'f"
  fdiv :: "'f \<Rightarrow> 'f \<Rightarrow> 'f"
  fmod :: "'f \<Rightarrow> 'f \<Rightarrow> 'f"
  fmax :: "'f \<Rightarrow> 'f \<Rightarrow> 'f"
  fmin :: "'f \<Rightarrow> 'f \<Rightarrow> 'f"
  fnum :: "int \<Rightarrow> 'f"
  fepsilon :: 'f
  fMaxFloat64 :: 'f
  ffinite :: "'f \<Rightarrow> bool"

text \<open>Exact arithmetic.\<close>

definition realOps :: "real geops" where
  "realOps = \<lparr>fmul = (*), fadd = (+), fsub = (-), frecip = (\<lambda>x. 1 / x), fle = (\<le>), ffloor = (\<lambda>x. word_of_int \<lfloor>x\<rfloor>),
     flt = (<), feq = (=), fneg = uminus, fabs = abs, fsqrt = sqrt, fdiv = (/),
     fmod = (\<lambda>x y. x - y * (if x / y < 0 then of_int \<lceil>x / y\<rceil> else of_int \<lfloor>x / y\<rfloor>)),
     fmax = max, fmin = min, fnum = of_int, fepsilon = 1 / 10 ^ 9, fMaxFloat64 = 2 ^ 1023 * (2 - 1 / 2 ^ 52), ffinite = (\<lambda>x. True)\<rparr>"

lemma realOps_simps [simp]:
  "fmul realOps = (*)" "fadd realOps = (+)" "fsub realOps = (-)" "frecip realOps = (\<lambda>x. 1 / x)" "fle realOps = (\<le>)"
  "flt realOps = (<)" "feq realOps = (=)" "fneg realOps = uminus" "fabs realOps = abs" "fsqrt realOps = sqrt" "fdiv realOps = (/)"
  "fmax realOps = max" "fmin realOps = min" "fnum realOps = of_int" "fepsilon realOps = 1 / 10 ^ 9" "ffinite realOps = (\<lambda>x. True)"
  by (simp_all add: realOps_def)

section \<open>Vectors\<close>

record 'f Vec2 =
  v2_X :: 'f
  v2_Y :: 'f

record 'f Vec3 =
  v3_X :: 'f
  v3_Y :: 'f
  v3_Z :: 'f

definition v2zero :: "'f geops \<Rightarrow> 'f Vec2" where
  "v2zero G = \<lparr>v2_X = fnum G 0, v2_Y = fnum G 0\<rparr>"

definition v3zero :: "'f geops \<Rightarrow> 'f Vec3" where
  "v3zero G = \<lparr>v3_X = fnum G 0, v3_Y = fnum G 0, v3_Z = fnum G 0\<rparr>"

definition v3sub :: "'f geops \<Rightarrow> 'f Vec3 \<Rightarrow> 'f Vec3 \<Rightarrow> 'f Vec3" where
  "v3sub G a b = \<lparr>v3_X = fsub G (v3_X a) (v3_X b), v3_Y = fsub G (v3_Y a) (v3_Y b), v3_Z = fsub G (v3_Z a) (v3_Z b)\<rparr>"

definition v3add :: "'f geops \<Rightarrow> 'f Vec3 \<Rightarrow> 'f Vec3 \<Rightarrow> 'f Vec3" where
  "v3add G a b = \<lparr>v3_X = fadd G (v3_X a) (v3_X b), v3_Y = fadd G (v3_Y a) (v3_Y b), v3_Z = fadd G (v3_Z a) (v3_Z b)\<rparr>"

definition v3mul :: "'f geops \<Rightarrow> 'f Vec3 \<Rightarrow> 'f \<Rightarrow> 'f Vec3" where
  "v3mul G v s = \<lparr>v3_X = fmul G (v3_X v) s, v3_Y = fmul G (v3_Y v) s, v3_Z = fmul G (v3_Z v) s\<rparr>"

definition v3dot :: "'f geops \<Rightarrow> 'f Vec3 \<Rightarrow> 'f Vec3 \<Rightarrow> 'f" where
  "v3dot G a b = fadd G (fadd G (fmul G (v3_X a) (v3_X b)) (fmul G (v3_Y a) (v3_Y b))) (fmul G (v3_Z a) (v3_Z b))"

definition v3length :: "'f geops \<Rightarrow> 'f Vec3 \<Rightarrow> 'f" where
  "v3length G v = fsqrt G (v3dot G v v)"

definition v3normalize :: "'f geops \<Rightarrow> 'f Vec3 \<Rightarrow> 'f Vec3" where
  "v3normalize G v =
     (let l = v3length G v
      in if fle G l (fepsilon G) then v3zero G
         else let inv = fdiv G (fnum G 1) l
              in \<lparr>v3_X = fmul G (v3_X v) inv, v3_Y = fmul G (v3_Y v) inv, v3_Z = fmul G (v3_Z v) inv\<rparr>)"

definition fclamp :: "'f geops \<Rightarrow> 'f \<Rightarrow> 'f \<Rightarrow> 'f \<Rightarrow> 'f" where
  "fclamp G v lo hi = (if flt G v lo then lo else if flt G hi v then hi else v)"

section \<open>Segments against shapes in space\<close>

text \<open>A hit is its fraction of the segment and its normal.\<close>

definition SegmentVsSphere :: "'f geops \<Rightarrow> 'f Vec3 \<Rightarrow> 'f Vec3 \<Rightarrow> 'f Vec3 \<Rightarrow> 'f \<Rightarrow> ('f \<times> 'f Vec3) option" where
  "SegmentVsSphere G from to center radius =
     (let d = v3sub G to from; f = v3sub G from center; a = v3dot G d d
      in if fle G a (fepsilon G) then None
         else let b = fmul G (fnum G 2) (v3dot G f d);
                  c = fsub G (v3dot G f f) (fmul G radius radius);
                  disc = fsub G (fmul G b b) (fmul G (fmul G (fnum G 4) a) c)
              in if flt G disc (fnum G 0) then None
                 else let t = fdiv G (fsub G (fneg G b) (fsqrt G disc)) (fmul G (fnum G 2) a);
                          t = (if flt G t (fnum G 0) then fnum G 0 else t)
                      in if flt G (fnum G 1) t then None
                         else let point = v3add G from (v3mul G d t)
                              in Some (t, v3normalize G (v3sub G point center)))"

text \<open>
  One axis of the slab method: the bounds of the interval so far and the normal of the face entered
  last.  None: the segment misses.
\<close>

definition slabAxis3 ::
  "'f geops \<Rightarrow> 'f \<Rightarrow> 'f \<Rightarrow> 'f \<Rightarrow> 'f \<Rightarrow> 'f Vec3 \<Rightarrow> 'f \<times> 'f \<times> 'f Vec3 \<Rightarrow> ('f \<times> 'f \<times> 'f Vec3) option" where
  "slabAxis3 G origin dir lo hi enterNormal st =
     (case st of (tMin, tMax, normal) \<Rightarrow>
        if fle G (fabs G dir) (fepsilon G)
        then if flt G origin lo \<or> flt G hi origin then None else Some (tMin, tMax, normal)
        else let t1 = fdiv G (fsub G lo origin) dir; t2 = fdiv G (fsub G hi origin) dir;
                 swapped = flt G t2 t1;
                 n = (if swapped then v3mul G enterNormal (fnum G (-1)) else enterNormal);
                 (t1, t2) = (if swapped then (t2, t1) else (t1, t2));
                 (tMin, normal) = (if flt G tMin t1 then (t1, n) else (tMin, normal));
                 tMax = (if flt G t2 tMax then t2 else tMax)
             in if flt G tMax tMin then None else Some (tMin, tMax, normal))"

definition SegmentVsAABB3 :: "'f geops \<Rightarrow> 'f Vec3 \<Rightarrow> 'f Vec3 \<Rightarrow> 'f Vec3 \<Rightarrow> 'f Vec3 \<Rightarrow> ('f \<times> 'f Vec3) option" where
  "SegmentVsAABB3 G from to center half =
     (let d = v3sub G to from;
          axis = (\<lambda>get n st. slabAxis3 G (get from) (get d) (fsub G (get center) (get half)) (fadd G (get center) (get half)) n st);
          z = v3zero G; m = fnum G (-1);
          st = Some (fnum G 0, fnum G 1, z);
          st = Option.bind st (axis v3_X (z\<lparr>v3_X := m\<rparr>));
          st = Option.bind st (axis v3_Y (z\<lparr>v3_Y := m\<rparr>));
          st = Option.bind st (axis v3_Z (z\<lparr>v3_Z := m\<rparr>))
      in case st of
           None \<Rightarrow> None
         | Some (tMin, tMax, normal) \<Rightarrow>
             if flt G (fnum G 1) tMin \<or> flt G tMax (fnum G 0) then None
             else let t = fmax G (fnum G 0) tMin in if flt G (fnum G 1) t then None else Some (t, normal))"

section \<open>Segments against shapes in the plane\<close>

definition SegmentVsCircle :: "'f geops \<Rightarrow> 'f \<Rightarrow> 'f \<Rightarrow> 'f \<Rightarrow> 'f \<Rightarrow> 'f \<Rightarrow> 'f \<Rightarrow> 'f \<Rightarrow> ('f \<times> 'f Vec2) option" where
  "SegmentVsCircle G px py qx qy cx cy r =
     (let dx = fsub G qx px; dy = fsub G qy py; fx = fsub G px cx; fy = fsub G py cy;
          a = fadd G (fmul G dx dx) (fmul G dy dy)
      in if feq G a (fnum G 0) then None
         else let b = fmul G (fnum G 2) (fadd G (fmul G fx dx) (fmul G fy dy));
                  c = fsub G (fadd G (fmul G fx fx) (fmul G fy fy)) (fmul G r r);
                  disc = fsub G (fmul G b b) (fmul G (fmul G (fnum G 4) a) c)
              in if flt G disc (fnum G 0) then None
                 else let t = fdiv G (fsub G (fneg G b) (fsqrt G disc)) (fmul G (fnum G 2) a);
                          t = (if flt G t (fnum G 0) then fnum G 0 else t)
                      in if flt G (fnum G 1) t then None
                         else let hx = fadd G px (fmul G t dx); hy = fadd G py (fmul G t dy);
                                  nx = fsub G hx cx; ny = fsub G hy cy;
                                  len = fsqrt G (fadd G (fmul G nx nx) (fmul G ny ny));
                                  (nx, ny) = (if flt G (fnum G 0) len then (fdiv G nx len, fdiv G ny len) else (nx, ny))
                              in Some (t, \<lparr>v2_X = nx, v2_Y = ny\<rparr>))"

definition slabAxis2 ::
  "'f geops \<Rightarrow> 'f \<Rightarrow> 'f \<Rightarrow> 'f \<Rightarrow> 'f \<Rightarrow> ('f \<Rightarrow> 'f Vec2) \<Rightarrow> 'f \<times> 'f \<times> 'f Vec2 \<Rightarrow> ('f \<times> 'f \<times> 'f Vec2) option" where
  "slabAxis2 G d p lo hi face st =
     (case st of (tMin, tMax, n) \<Rightarrow>
        if feq G d (fnum G 0)
        then if flt G p lo \<or> flt G hi p then None else Some (tMin, tMax, n)
        else let t1 = fdiv G (fsub G lo p) d; t2 = fdiv G (fsub G hi p) d;
                 (t1, t2, enterNorm) = (if flt G t2 t1 then (t2, t1, fnum G 1) else (t1, t2, fnum G (-1)));
                 (tMin, n) = (if flt G tMin t1 then (t1, face enterNorm) else (tMin, n));
                 tMax = (if flt G t2 tMax then t2 else tMax)
             in if flt G tMax tMin then None else Some (tMin, tMax, n))"

definition SegmentVsAABB :: "'f geops \<Rightarrow> 'f \<Rightarrow> 'f \<Rightarrow> 'f \<Rightarrow> 'f \<Rightarrow> 'f \<Rightarrow> 'f \<Rightarrow> 'f \<Rightarrow> 'f \<Rightarrow> ('f \<times> 'f Vec2) option" where
  "SegmentVsAABB G px py qx qy ex ey hw hh =
     (let dx = fsub G qx px; dy = fsub G qy py; zero = fnum G 0;
          st = slabAxis2 G dx px (fsub G ex hw) (fadd G ex hw) (\<lambda>n. \<lparr>v2_X = n, v2_Y = zero\<rparr>) (zero, fnum G 1, v2zero G);
          st = Option.bind st (slabAxis2 G dy py (fsub G ey hh) (fadd G ey hh) (\<lambda>n. \<lparr>v2_X = zero, v2_Y = n\<rparr>))
      in case st of
           None \<Rightarrow> None
         | Some (tMin, tMax, n) \<Rightarrow>
             if flt G (fnum G 1) tMin \<or> flt G tMax zero then None
             else let t = fmax G zero tMin
                  in if flt G (fnum G 1) t then None
                     else let nlen = fsqrt G (fadd G (fmul G (v2_X n) (v2_X n)) (fmul G (v2_Y n) (v2_Y n)));
                              n = (if flt G zero nlen then \<lparr>v2_X = fdiv G (v2_X n) nlen, v2_Y = fdiv G (v2_Y n) nlen\<rparr> else n)
                          in Some (t, n))"

text \<open>The best hit so far; \<open>None\<close> until one was found.\<close>

definition tryHit :: "'f geops \<Rightarrow> 'f \<times> 'f Vec2 \<Rightarrow> ('f \<times> 'f Vec2) option \<Rightarrow> ('f \<times> 'f Vec2) option" where
  "tryHit G h best =
     (if flt G (fst h) (case best of None \<Rightarrow> fMaxFloat64 G | Some (t, n) \<Rightarrow> t) then Some h else best)"

definition SegmentVsRoundedRect ::
  "'f geops \<Rightarrow> 'f \<Rightarrow> 'f \<Rightarrow> 'f \<Rightarrow> 'f \<Rightarrow> 'f \<Rightarrow> 'f \<Rightarrow> 'f \<Rightarrow> 'f \<Rightarrow> 'f \<Rightarrow> ('f \<times> 'f Vec2) option" where
  "SegmentVsRoundedRect G px py qx qy ex ey ew eh r =
     (let hitX = (\<lambda>t. fadd G px (fmul G t (fsub G qx px))); hitY = (\<lambda>t. fadd G py (fmul G t (fsub G qy py)));
          corner = (\<lambda>cx cy best.
            case SegmentVsCircle G px py qx qy cx cy r of
              None \<Rightarrow> best
            | Some (t, n) \<Rightarrow>
                if fle G (fsub G ew (fepsilon G)) (fabs G (fsub G (hitX t) ex))
                   \<and> fle G (fsub G eh (fepsilon G)) (fabs G (fsub G (hitY t) ey))
                then tryHit G (t, n) best else best);
          best = corner (fsub G ex ew) (fsub G ey eh) None;
          best = corner (fsub G ex ew) (fadd G ey eh) best;
          best = corner (fadd G ex ew) (fsub G ey eh) best;
          best = corner (fadd G ex ew) (fadd G ey eh) best;
          best = (case SegmentVsAABB G px py qx qy ex ey (fadd G ew r) eh of
                    None \<Rightarrow> best
                  | Some (t, n) \<Rightarrow>
                      if flt G (fsub G ew (fepsilon G)) (fabs G (fsub G (hitX t) ex)) then tryHit G (t, n) best else best);
          best = (case SegmentVsAABB G px py qx qy ex ey ew (fadd G eh r) of
                    None \<Rightarrow> best
                  | Some (t, n) \<Rightarrow>
                      if flt G (fsub G eh (fepsilon G)) (fabs G (fsub G (hitY t) ey)) then tryHit G (t, n) best else best)
      in case best of
           Some h \<Rightarrow> Some h
         | None \<Rightarrow>
             let clampX = fmax G (fsub G (fabs G (fsub G px ex)) ew) (fnum G 0);
                 clampY = fmax G (fsub G (fabs G (fsub G py ey)) eh) (fnum G 0)
             in if flt G (fadd G (fmul G clampX clampX) (fmul G clampY clampY)) (fmul G r r)
                then Some (fnum G 0, v2zero G) else None)"

section \<open>Sorting hits\<close>

text \<open>
  The insertion sort of \<^verbatim>\<open>SortHits\<close>: the sorted prefix is kept reversed, so that the inner loop, which
  moves entries up from the end, is the recursion.
\<close>

primrec insertHit :: "('h \<Rightarrow> 'h \<Rightarrow> bool) \<Rightarrow> 'h \<Rightarrow> 'h list \<Rightarrow> 'h list" where
  "insertHit gt h [] = [h]"
| "insertHit gt h (x # xs) = (if gt x h then x # insertHit gt h xs else h # x # xs)"

definition SortHits :: "('h \<Rightarrow> 'h \<Rightarrow> bool) \<Rightarrow> 'h list \<Rightarrow> 'h list" where
  "SortHits gt hits = rev (fold (insertHit gt) hits [])"

section \<open>Exact arithmetic: boxes\<close>

lemma slab_interval:
  fixes d :: real
  assumes "d \<noteq> 0" "lo \<le> hi"
  shows "lo \<le> p + u * d \<and> p + u * d \<le> hi \<longleftrightarrow> min ((lo - p) / d) ((hi - p) / d) \<le> u \<and> u \<le> max ((lo - p) / d) ((hi - p) / d)"
proof (cases "0 < d")
  case True
  then have "(lo - p) / d \<le> (hi - p) / d" using assms(2) by (simp add: divide_right_mono)
  then show ?thesis using True by (simp add: min_absorb1 max_absorb2 pos_divide_le_eq pos_le_divide_eq algebra_simps)
next
  case False
  then have n: "d < 0" using assms(1) by simp
  then have "(hi - p) / d \<le> (lo - p) / d" using assms(2) by (simp add: divide_right_mono_neg)
  then show ?thesis using n by (auto simp: min_absorb2 max_absorb1 neg_divide_le_eq neg_le_divide_eq algebra_simps)
qed

text \<open>The state of the slab method: the interval of the fractions in \<open>[0, 1]\<close> where \<open>P\<close> holds, if there are any.\<close>

definition slabCovers :: "(real \<Rightarrow> bool) \<Rightarrow> (real \<times> real \<times> 'n) option \<Rightarrow> bool" where
  "slabCovers P st \<longleftrightarrow>
     (case st of
        None \<Rightarrow> (\<forall>u. 0 \<le> u \<and> u \<le> 1 \<longrightarrow> \<not> P u)
      | Some (a, b, n) \<Rightarrow> a \<le> b \<and> (\<forall>u. a \<le> u \<and> u \<le> b \<longleftrightarrow> 0 \<le> u \<and> u \<le> 1 \<and> P u))"

lemma slabCovers_start: "slabCovers (\<lambda>u. True) (Some (0, 1, n))"
  by (simp add: slabCovers_def)

text \<open>\<open>keeps\<close>: one step of the method intersects the interval with a slab.\<close>

lemma slabCovers_step:
  assumes "slabCovers P st"
    and keeps: "\<And>a b n. a \<le> b \<Longrightarrow>
      (case f (a, b, n) of
         None \<Rightarrow> (\<forall>u. a \<le> u \<and> u \<le> b \<longrightarrow> \<not> Q u)
       | Some (a', b', n') \<Rightarrow> a' \<le> b' \<and> (\<forall>u. a' \<le> u \<and> u \<le> b' \<longleftrightarrow> a \<le> u \<and> u \<le> b \<and> Q u))"
  shows "slabCovers (\<lambda>u. P u \<and> Q u) (Option.bind st f)"
proof (cases st)
  case None
  then show ?thesis using assms(1) by (simp add: slabCovers_def)
next
  case (Some s)
  obtain a b n where s: "s = (a, b, n)" by (cases s)
  then have "a \<le> b" "\<And>u. a \<le> u \<and> u \<le> b \<longleftrightarrow> 0 \<le> u \<and> u \<le> 1 \<and> P u" using assms(1) Some by (auto simp: slabCovers_def)
  then show ?thesis using keeps [of a b n] Some s by (auto simp: slabCovers_def split: option.splits)
qed

lemma slabAxis2_keeps:
  assumes "lo \<le> hi" "a \<le> b"
  shows "case slabAxis2 realOps d p lo hi face (a, b, n) of
      None \<Rightarrow> (\<forall>u. a \<le> u \<and> u \<le> b \<longrightarrow> \<not> (lo \<le> p + u * d \<and> p + u * d \<le> hi))
    | Some (a', b', n') \<Rightarrow> a' \<le> b' \<and> (\<forall>u. a' \<le> u \<and> u \<le> b' \<longleftrightarrow> a \<le> u \<and> u \<le> b \<and> lo \<le> p + u * d \<and> p + u * d \<le> hi)"
proof (cases "d = 0")
  case True
  then show ?thesis using assms by (auto simp: slabAxis2_def)
next
  case False
  then show ?thesis
    using assms(2) by (auto simp: slabAxis2_def Let_def slab_interval [OF False assms(1)] split: prod.splits)
qed

lemma slabAxis3_keeps:
  assumes "lo \<le> hi" "a \<le> b" "d = 0 \<or> 1 / 10 ^ 9 < \<bar>d\<bar>"
  shows "case slabAxis3 realOps p d lo hi face (a, b, n) of
      None \<Rightarrow> (\<forall>u. a \<le> u \<and> u \<le> b \<longrightarrow> \<not> (lo \<le> p + u * d \<and> p + u * d \<le> hi))
    | Some (a', b', n') \<Rightarrow> a' \<le> b' \<and> (\<forall>u. a' \<le> u \<and> u \<le> b' \<longleftrightarrow> a \<le> u \<and> u \<le> b \<and> lo \<le> p + u * d \<and> p + u * d \<le> hi)"
proof (cases "d = 0")
  case True
  then show ?thesis using assms by (auto simp: slabAxis3_def)
next
  case False
  then show ?thesis
    using assms(2,3) by (auto simp: slabAxis3_def Let_def slab_interval [OF False assms(1)] split: prod.splits)
qed

text \<open>A hit of a segment on the points of a shape: the first fraction inside, if there is one.\<close>

definition firstInside :: "(real \<Rightarrow> bool) \<Rightarrow> real option \<Rightarrow> bool" where
  "firstInside inside h \<longleftrightarrow>
     (case h of
        None \<Rightarrow> (\<forall>u. 0 \<le> u \<and> u \<le> 1 \<longrightarrow> \<not> inside u)
      | Some t \<Rightarrow> 0 \<le> t \<and> t \<le> 1 \<and> inside t \<and> (\<forall>u. 0 \<le> u \<and> u < t \<longrightarrow> \<not> inside u))"

lemma slabCovers_first:
  assumes "slabCovers P st"
    and "st = None \<Longrightarrow> h = None"
    and "\<And>a b n. st = Some (a, b, n) \<Longrightarrow> a \<le> 1 \<Longrightarrow> 0 \<le> a \<Longrightarrow> 0 \<le> b \<Longrightarrow> h = Some a"
  shows "firstInside P h"
proof (cases st)
  case None
  then show ?thesis using assms by (simp add: slabCovers_def firstInside_def)
next
  case (Some s)
  obtain a b n where s: "s = (a, b, n)" by (cases s)
  then have ab: "a \<le> b" and k: "\<And>u. a \<le> u \<and> u \<le> b \<longleftrightarrow> 0 \<le> u \<and> u \<le> 1 \<and> P u" using assms(1) Some by (auto simp: slabCovers_def)
  have b: "0 \<le> a" "a \<le> 1" "0 \<le> b" "P a" using k[of a] k[of b] ab by auto
  have "h = Some a" using assms(3) Some s b by blast
  moreover have "\<not> P u" if "0 \<le> u" "u < a" for u using k[of u] that b(2) by auto
  ultimately show ?thesis using b by (simp add: firstInside_def)
qed

lemma abs_between: "lo = c - h \<Longrightarrow> hi = c + h \<Longrightarrow> \<bar>x - c\<bar> \<le> h \<longleftrightarrow> lo \<le> x \<and> x \<le> hi" for x :: real
  by linarith

text \<open>
  The ray test against a box in the plane is exact: in exact arithmetic it misses if and only if no
  point of the segment is in the box, and otherwise answers the first fraction at which it is.
\<close>

lemma SegmentVsAABB_exact:
  assumes "0 \<le> hw" "0 \<le> hh"
  shows "firstInside (\<lambda>u. \<bar>px + u * (qx - px) - ex\<bar> \<le> hw \<and> \<bar>py + u * (qy - py) - ey\<bar> \<le> hh)
    (map_option fst (SegmentVsAABB realOps px py qx qy ex ey hw hh))"
proof -
  define st where "st = Option.bind (Option.bind (Some (0, 1, v2zero realOps)) (slabAxis2 realOps (qx - px) px (ex - hw) (ex + hw) (\<lambda>n. \<lparr>v2_X = n, v2_Y = 0\<rparr>)))
    (slabAxis2 realOps (qy - py) py (ey - hh) (ey + hh) (\<lambda>n. \<lparr>v2_X = 0, v2_Y = n\<rparr>))"
  have "slabCovers (\<lambda>u. (True \<and> ex - hw \<le> px + u * (qx - px) \<and> px + u * (qx - px) \<le> ex + hw)
      \<and> ey - hh \<le> py + u * (qy - py) \<and> py + u * (qy - py) \<le> ey + hh) st"
    unfolding st_def
    by (intro slabCovers_step slabCovers_start slabAxis2_keeps) (use assms in auto)
  then have "firstInside (\<lambda>u. (True \<and> ex - hw \<le> px + u * (qx - px) \<and> px + u * (qx - px) \<le> ex + hw)
      \<and> ey - hh \<le> py + u * (qy - py) \<and> py + u * (qy - py) \<le> ey + hh) (map_option fst (SegmentVsAABB realOps px py qx qy ex ey hw hh))"
    by (rule slabCovers_first) (auto simp: SegmentVsAABB_def Let_def st_def [simplified, symmetric] max_absorb2)
  then show ?thesis by (simp add: abs_between [OF refl refl])
qed

text \<open>The same in space, for directions that are not almost parallel to a face.\<close>

lemma SegmentVsAABB3_exact:
  assumes "0 \<le> v3_X half" "0 \<le> v3_Y half" "0 \<le> v3_Z half"
    and "v3_X to - v3_X from = 0 \<or> 1 / 10 ^ 9 < \<bar>v3_X to - v3_X from\<bar>"
    and "v3_Y to - v3_Y from = 0 \<or> 1 / 10 ^ 9 < \<bar>v3_Y to - v3_Y from\<bar>"
    and "v3_Z to - v3_Z from = 0 \<or> 1 / 10 ^ 9 < \<bar>v3_Z to - v3_Z from\<bar>"
  shows "firstInside (\<lambda>u. \<bar>v3_X from + u * (v3_X to - v3_X from) - v3_X center\<bar> \<le> v3_X half
      \<and> \<bar>v3_Y from + u * (v3_Y to - v3_Y from) - v3_Y center\<bar> \<le> v3_Y half
      \<and> \<bar>v3_Z from + u * (v3_Z to - v3_Z from) - v3_Z center\<bar> \<le> v3_Z half)
    (map_option fst (SegmentVsAABB3 realOps from to center half))"
proof -
  define axis where "axis get n st = slabAxis3 realOps (get from) (get (v3sub realOps to from)) (get center - get half) (get center + get half) n st"
    for get :: "real Vec3 \<Rightarrow> real" and n and st :: "real \<times> real \<times> real Vec3"
  define z where "z = v3zero realOps"
  define st where "st = Option.bind (Option.bind (Option.bind (Some (0, 1, z)) (axis v3_X (z\<lparr>v3_X := -1\<rparr>)))
    (axis v3_Y (z\<lparr>v3_Y := -1\<rparr>))) (axis v3_Z (z\<lparr>v3_Z := -1\<rparr>))"
  let ?in = "\<lambda>get u. get center - get half \<le> get from + u * get (v3sub realOps to from)
    \<and> get from + u * get (v3sub realOps to from) \<le> get center + get half"
  have k: "slabCovers (\<lambda>u. ((True \<and> ?in v3_X u) \<and> ?in v3_Y u) \<and> ?in v3_Z u) st"
    unfolding st_def axis_def
    by (intro slabCovers_step slabCovers_start slabAxis3_keeps) (use assms in \<open>auto simp: v3sub_def\<close>)
  have h: "SegmentVsAABB3 realOps from to center half = (case st of None \<Rightarrow> None | Some (tMin, tMax, n) \<Rightarrow>
      if 1 < tMin \<or> tMax < 0 then None else if 1 < max 0 tMin then None else Some (max 0 tMin, n))"
    unfolding SegmentVsAABB3_def st_def axis_def z_def by (simp add: Let_def split: option.split)
  have "firstInside (\<lambda>u. ((True \<and> ?in v3_X u) \<and> ?in v3_Y u) \<and> ?in v3_Z u) (map_option fst (SegmentVsAABB3 realOps from to center half))"
    by (rule slabCovers_first [OF k]) (simp_all add: h max_absorb2)
  then show ?thesis by (simp add: abs_between [OF refl refl] v3sub_def conj_assoc)
qed

section \<open>Exact arithmetic: circles\<close>

lemma quadratic_between:
  fixes a :: real
  assumes "0 < a" "0 \<le> b * b - 4 * a * c"
  shows "a * u * u + b * u + c \<le> 0 \<longleftrightarrow> (- b - sqrt (b * b - 4 * a * c)) / (2 * a) \<le> u \<and> u \<le> (- b + sqrt (b * b - 4 * a * c)) / (2 * a)"
proof -
  let ?s = "sqrt (b * b - 4 * a * c)"
  have e: "(2 * a * u + b)\<^sup>2 - ?s\<^sup>2 = (4 * a) * (a * u * u + b * u + c)" using assms(2) by (simp add: power2_eq_square algebra_simps)
  have "a * u * u + b * u + c \<le> 0 \<longleftrightarrow> (4 * a) * (a * u * u + b * u + c) \<le> 0" using assms(1) by (simp add: mult_le_0_iff)
  also have "\<dots> \<longleftrightarrow> (2 * a * u + b)\<^sup>2 \<le> ?s\<^sup>2" by (simp add: e [symmetric])
  also have "\<dots> \<longleftrightarrow> \<bar>2 * a * u + b\<bar> \<le> ?s" using abs_le_square_iff [of "2 * a * u + b" ?s] assms(2) by simp
  also have "\<dots> \<longleftrightarrow> (- b - ?s) / (2 * a) \<le> u \<and> u \<le> (- b + ?s) / (2 * a)"
    using assms(1) by (auto simp: pos_divide_le_eq pos_le_divide_eq abs_le_iff algebra_simps)
  finally show ?thesis .
qed

lemma quadratic_positive:
  fixes a :: real
  assumes "0 < a" "b * b - 4 * a * c < 0"
  shows "0 < a * u * u + b * u + c"
proof -
  have "(4 * a) * (a * u * u + b * u + c) = (2 * a * u + b)\<^sup>2 - (b * b - 4 * a * c)" by (simp add: power2_eq_square algebra_simps)
  also have "\<dots> > 0" using assms(2) zero_le_power2 [of "2 * a * u + b"] by linarith
  finally show ?thesis using assms(1) by (simp add: zero_less_mult_iff)
qed

text \<open>
  The fraction both circle tests answer for \<open>a u\<^sup>2 + b u + c \<le> 0\<close>: the smaller root, raised to 0 if it is
  negative, unless it is above 1.
\<close>

definition rootHit :: "real \<Rightarrow> real \<Rightarrow> real \<Rightarrow> real option" where
  "rootHit a b c =
     (if b * b - 4 * a * c < 0 then None
      else let t = max 0 ((- b - sqrt (b * b - 4 * a * c)) / (2 * a)) in if 1 < t then None else Some t)"

lemma rootHit_exact:
  assumes "0 < a" and "c \<le> 0 \<or> b < 0 \<or> b * b - 4 * a * c < 0"
  shows "firstInside (\<lambda>u. a * u * u + b * u + c \<le> 0) (rootHit a b c)"
proof (cases "b * b - 4 * a * c < 0")
  case True
  then show ?thesis using quadratic_positive [OF assms(1) True] by (auto simp: rootHit_def firstInside_def not_le)
next
  case False
  let ?s = "sqrt (b * b - 4 * a * c)"
  note Q = quadratic_between [OF assms(1), of b c, OF False [unfolded not_less]]
  have "0 \<le> (- b + ?s) / (2 * a)"
  proof (cases "c \<le> 0")
    case True
    then show ?thesis using Q [of 0] by simp
  next
    case c: False
    then have "b < 0" using assms(2) False by simp
    then show ?thesis using assms(1) False by (intro divide_nonneg_pos add_nonneg_nonneg) auto
  qed
  moreover have "(- b - ?s) / (2 * a) \<le> (- b + ?s) / (2 * a)" using assms(1) False by (intro divide_right_mono) auto
  ultimately show ?thesis using False by (auto simp: rootHit_def firstInside_def Let_def Q)
qed

text \<open>Outside and moving away, on a line that meets the circle: the larger root is negative too.\<close>

lemma rootHit_behind:
  assumes "0 < a" "0 < c" "0 \<le> b" "0 \<le> b * b - 4 * a * c"
  shows "rootHit a b c = Some 0" and "0 \<le> u \<Longrightarrow> \<not> a * u * u + b * u + c \<le> 0"
proof -
  have "- b - sqrt (b * b - 4 * a * c) \<le> 0" using assms(3) real_sqrt_ge_zero [OF assms(4)] by linarith
  then have "(- b - sqrt (b * b - 4 * a * c)) / (2 * a) \<le> 0" using assms(1) by (simp add: divide_le_0_iff)
  then show "rootHit a b c = Some 0" using assms(4) by (simp add: rootHit_def Let_def max_absorb1)
  show "\<not> a * u * u + b * u + c \<le> 0" if "0 \<le> u"
    using assms(1-3) that by (simp add: not_le add_nonneg_pos)
qed

lemma SegmentVsCircle_root:
  assumes "0 < (qx - px) * (qx - px) + (qy - py) * (qy - py)"
  shows "map_option fst (SegmentVsCircle realOps px py qx qy cx cy r) =
    rootHit ((qx - px) * (qx - px) + (qy - py) * (qy - py)) (2 * ((px - cx) * (qx - px) + (py - cy) * (qy - py)))
      ((px - cx) * (px - cx) + (py - cy) * (py - cy) - r * r)"
proof -
  define a where "a = (qx - px) * (qx - px) + (qy - py) * (qy - py)"
  define b where "b = 2 * ((px - cx) * (qx - px) + (py - cy) * (qy - py))"
  define c where "c = (px - cx) * (px - cx) + (py - cy) * (py - cy) - r * r"
  have "a \<noteq> 0" using assms unfolding a_def by linarith
  then show ?thesis
    unfolding SegmentVsCircle_def rootHit_def realOps_simps of_int_numeral of_int_1 of_int_0 Let_def a_def [symmetric]
      b_def [symmetric] c_def [symmetric]
    by (simp add: max_def split: prod.split)
qed

lemma SegmentVsSphere_root:
  assumes "1 / 10 ^ 9 < v3dot realOps (v3sub realOps to from) (v3sub realOps to from)"
  shows "map_option fst (SegmentVsSphere realOps from to center r) =
    rootHit (v3dot realOps (v3sub realOps to from) (v3sub realOps to from))
      (2 * v3dot realOps (v3sub realOps from center) (v3sub realOps to from))
      (v3dot realOps (v3sub realOps from center) (v3sub realOps from center) - r * r)"
  using assms unfolding SegmentVsSphere_def rootHit_def realOps_simps of_int_numeral of_int_1 of_int_0 Let_def
  by (simp add: max_def)

lemma circle_quadratic:
  fixes px :: real
  shows "(px + u * dx - cx) * (px + u * dx - cx) + (py + u * dy - cy) * (py + u * dy - cy) \<le> r * r
    \<longleftrightarrow> (dx * dx + dy * dy) * u * u + 2 * ((px - cx) * dx + (py - cy) * dy) * u + ((px - cx) * (px - cx) + (py - cy) * (py - cy) - r * r) \<le> 0"
  by (simp add: algebra_simps)

end
