(* ===== verification/Collision_Backends.thy ===== *)
theory Collision_Backends
  imports "HOL-Library.Multiset" Geometry
begin

text \<open>
  The collision back ends: \<^verbatim>\<open>SimpleBackend\<close> (\<^verbatim>\<open>golem/collision3d/backend.go\<close>) and the queries of
  \<^verbatim>\<open>ResolvBackend\<close> (\<^verbatim>\<open>golem/collision/resolv/backend.go\<close>), whose overlap test for contacts is the library
  \<^verbatim>\<open>resolv\<close> and a parameter.  Both keep a Go map of entries and visit it in the order of its iteration, the
  argument \<open>ks\<close>.
\<close>

unbundle bit_operations_syntax

section \<open>Shapes and entries\<close>

datatype 'f shape3 = Sphere3 'f | AABB3 'f 'f 'f

datatype 'f shape2 = Circle2 'f | AABB2 'f 'f

text \<open>\<open>'s\<close> is the kind of shape, \<open>'p\<close> the kind of position.\<close>

record ('s, 'p) entry =
  en_id :: int64
  en_shape :: 's
  en_layer :: u32
  en_mask :: u32
  en_trigger :: bool
  en_pos :: 'p

type_synonym ('s, 'p) backend = "(int64, ('s, 'p) entry) gomap"

type_synonym 'f SimpleBackend = "('f shape3, 'f Vec3) backend"

text \<open>A nil shape is \<open>None\<close>.  \<^verbatim>\<open>Add\<close> on a registered entity keeps its position.\<close>

definition sb_Add :: "'f geops \<Rightarrow> int64 \<Rightarrow> 'f shape3 option \<Rightarrow> u32 \<Rightarrow> u32 \<Rightarrow> bool \<Rightarrow> 'f SimpleBackend \<Rightarrow> 'f SimpleBackend" where
  "sb_Add G entityID shape layer msk trigger b =
     (case shape of
        None \<Rightarrow> b
      | Some sh \<Rightarrow>
          AList.update entityID \<lparr>en_id = entityID, en_shape = sh, en_layer = layer, en_mask = msk, en_trigger = trigger,
            en_pos = (case map_of b entityID of None \<Rightarrow> v3zero G | Some e \<Rightarrow> en_pos e)\<rparr> b)"

definition sb_Remove :: "int64 \<Rightarrow> ('s, 'p) backend \<Rightarrow> ('s, 'p) backend" where
  "sb_Remove entityID b = AList.delete entityID b"

definition sb_Set :: "int64 \<Rightarrow> 'f shape3 option \<Rightarrow> u32 \<Rightarrow> u32 \<Rightarrow> bool \<Rightarrow> 'f SimpleBackend \<Rightarrow> 'f SimpleBackend" where
  "sb_Set entityID shape layer msk trigger b =
     (case (map_of b entityID, shape) of
        (Some e, Some sh) \<Rightarrow>
          AList.update entityID (e\<lparr>en_shape := sh, en_layer := layer, en_mask := msk, en_trigger := trigger\<rparr>) b
      | _ \<Rightarrow> b)"

definition sb_Update :: "int64 \<Rightarrow> 'p \<Rightarrow> ('s, 'p) backend \<Rightarrow> ('s, 'p) backend" where
  "sb_Update entityID pos b =
     (case map_of b entityID of None \<Rightarrow> b | Some e \<Rightarrow> AList.update entityID (e\<lparr>en_pos := pos\<rparr>) b)"

section \<open>Overlaps in space\<close>

definition halfExtents :: "'f geops \<Rightarrow> 'f \<Rightarrow> 'f \<Rightarrow> 'f \<Rightarrow> 'f Vec3" where
  "halfExtents G w h d = \<lparr>v3_X = fdiv G w (fnum G 2), v3_Y = fdiv G h (fnum G 2), v3_Z = fdiv G d (fnum G 2)\<rparr>"

text \<open>An overlap is its normal and its depth.\<close>

definition overlapSphereSphere :: "'f geops \<Rightarrow> 'f Vec3 \<Rightarrow> 'f \<Rightarrow> 'f Vec3 \<Rightarrow> 'f \<Rightarrow> ('f Vec3 \<times> 'f) option" where
  "overlapSphereSphere G ap ar bp br =
     (let ab = v3sub G ap bp; dist = v3length G ab; total = fadd G ar br
      in if fle G total dist then None
         else if fle G dist (fepsilon G) then Some ((v3zero G)\<lparr>v3_X := fnum G 1\<rparr>, total)
         else Some (v3mul G ab (fdiv G (fnum G 1) dist), fsub G total dist))"

definition overlapSphereAABB :: "'f geops \<Rightarrow> 'f Vec3 \<Rightarrow> 'f \<Rightarrow> 'f Vec3 \<Rightarrow> 'f Vec3 \<Rightarrow> ('f Vec3 \<times> 'f) option" where
  "overlapSphereAABB G sp radius bp bh =
     (let near = (\<lambda>get. fclamp G (get sp) (fsub G (get bp) (get bh)) (fadd G (get bp) (get bh)));
          closest = \<lparr>v3_X = near v3_X, v3_Y = near v3_Y, v3_Z = near v3_Z\<rparr>;
          delta = v3sub G sp closest; dist = v3length G delta
      in if fle G radius dist then None
         else if flt G (fepsilon G) dist then Some (v3mul G delta (fdiv G (fnum G 1) dist), fsub G radius dist)
         else let z = v3zero G; one = fnum G 1; m = fnum G (-1);
                  depth = (\<lambda>get. fsub G (get bh) (fabs G (fsub G (get sp) (get bp))));
                  dx = depth v3_X; dy = depth v3_Y; dz = depth v3_Z
              in if fle G dx dy \<and> fle G dx dz then Some (z\<lparr>v3_X := if flt G (v3_X sp) (v3_X bp) then m else one\<rparr>, fadd G radius dx)
                 else if fle G dy dz then Some (z\<lparr>v3_Y := if flt G (v3_Y sp) (v3_Y bp) then m else one\<rparr>, fadd G radius dy)
                 else Some (z\<lparr>v3_Z := if flt G (v3_Z sp) (v3_Z bp) then m else one\<rparr>, fadd G radius dz))"

definition overlapAABBAABB :: "'f geops \<Rightarrow> 'f Vec3 \<Rightarrow> 'f Vec3 \<Rightarrow> 'f Vec3 \<Rightarrow> 'f Vec3 \<Rightarrow> ('f Vec3 \<times> 'f) option" where
  "overlapAABBAABB G ap ah bp bh =
     (let d = (\<lambda>get. fsub G (get ap) (get bp)); p = (\<lambda>get. fsub G (fadd G (get ah) (get bh)) (fabs G (d get)));
          zero = fnum G 0; one = fnum G 1; m = fnum G (-1); z = v3zero G;
          px = p v3_X; py = p v3_Y; pz = p v3_Z
      in if fle G px zero then None
         else if fle G py zero then None
         else if fle G pz zero then None
         else if fle G px py \<and> fle G px pz then Some (z\<lparr>v3_X := if flt G (d v3_X) zero then m else one\<rparr>, px)
         else if fle G py pz then Some (z\<lparr>v3_Y := if flt G (d v3_Y) zero then m else one\<rparr>, py)
         else Some (z\<lparr>v3_Z := if flt G (d v3_Z) zero then m else one\<rparr>, pz))"

fun overlap3 :: "'f geops \<Rightarrow> 'f shape3 \<Rightarrow> 'f Vec3 \<Rightarrow> 'f shape3 \<Rightarrow> 'f Vec3 \<Rightarrow> ('f Vec3 \<times> 'f) option" where
  "overlap3 G (Sphere3 ar) ap (Sphere3 br) bp = overlapSphereSphere G ap ar bp br"
| "overlap3 G (Sphere3 ar) ap (AABB3 w h d) bp = overlapSphereAABB G ap ar bp (halfExtents G w h d)"
| "overlap3 G (AABB3 w h d) ap (Sphere3 br) bp =
     map_option (\<lambda>(n, dep). (v3mul G n (fnum G (-1)), dep)) (overlapSphereAABB G bp br ap (halfExtents G w h d))"
| "overlap3 G (AABB3 w h d) ap (AABB3 w' h' d') bp = overlapAABBAABB G ap (halfExtents G w h d) bp (halfExtents G w' h' d')"

section \<open>Contacts\<close>

record ('v, 'f) Contact =
  ct_A :: int64
  ct_B :: int64
  ct_Normal :: 'v
  ct_Depth :: 'f

definition contactOf ::
  "'f geops \<Rightarrow> ('f shape3, 'f Vec3) entry \<Rightarrow> ('f shape3, 'f Vec3) entry \<Rightarrow> ('f Vec3, 'f) Contact option" where
  "contactOf G a c =
     (if (en_layer a AND en_mask c) = 0 \<or> (en_layer c AND en_mask a) = 0 then None
      else case overlap3 G (en_shape a) (en_pos a) (en_shape c) (en_pos c) of
             None \<Rightarrow> None
           | Some (normal, depth) \<Rightarrow>
               Some \<lparr>ct_A = en_id a, ct_B = en_id c, ct_Normal = normal,
                     ct_Depth = if en_trigger a \<or> en_trigger c then fnum G 0 else depth\<rparr>)"

text \<open>All pairs \<open>i < j\<close> of the copied entries, in order.\<close>

primrec stepPairs :: "('e \<Rightarrow> 'e \<Rightarrow> 'c option) \<Rightarrow> 'e list \<Rightarrow> 'c list" where
  "stepPairs f [] = []"
| "stepPairs f (a # es) = List.map_filter (f a) es @ stepPairs f es"

definition entriesIn :: "int64 list \<Rightarrow> ('s, 'p) backend \<Rightarrow> ('s, 'p) entry list" where
  "entriesIn ks b = List.map_filter (map_of b) ks"

definition sb_Step :: "'f geops \<Rightarrow> int64 list \<Rightarrow> 'f SimpleBackend \<Rightarrow> ('f Vec3, 'f) Contact list" where
  "sb_Step G ks b = stepPairs (contactOf G) (entriesIn ks b)"

section \<open>Queries in space\<close>

definition sb_Overlap :: "'f geops \<Rightarrow> int64 list \<Rightarrow> 'f shape3 \<Rightarrow> 'f Vec3 \<Rightarrow> u32 \<Rightarrow> 'f SimpleBackend \<Rightarrow> int64 list" where
  "sb_Overlap G ks query pos layerMask b =
     map en_id (filter (\<lambda>e. (en_layer e AND layerMask) \<noteq> 0 \<and> overlap3 G query pos (en_shape e) (en_pos e) \<noteq> None) (entriesIn ks b))"

definition sb_OverlapBox :: "'f geops \<Rightarrow> int64 list \<Rightarrow> 'f Vec3 \<Rightarrow> 'f Vec3 \<Rightarrow> u32 \<Rightarrow> 'f SimpleBackend \<Rightarrow> int64 list" where
  "sb_OverlapBox G ks c h layerMask b =
     sb_Overlap G ks (AABB3 (fmul G (v3_X h) (fnum G 2)) (fmul G (v3_Y h) (fnum G 2)) (fmul G (v3_Z h) (fnum G 2))) c layerMask b"

definition sb_OverlapSphere :: "'f geops \<Rightarrow> int64 list \<Rightarrow> 'f Vec3 \<Rightarrow> 'f \<Rightarrow> u32 \<Rightarrow> 'f SimpleBackend \<Rightarrow> int64 list" where
  "sb_OverlapSphere G ks c radius layerMask b = sb_Overlap G ks (Sphere3 radius) c layerMask b"

record ('v, 'f) RaycastHit =
  rh_EntityID :: int64
  rh_Point :: 'v
  rh_Normal :: 'v
  rh_Fraction :: 'f

fun raycastShape :: "'f geops \<Rightarrow> 'f Vec3 \<Rightarrow> 'f Vec3 \<Rightarrow> 'f shape3 \<Rightarrow> 'f Vec3 \<Rightarrow> ('f \<times> 'f Vec3) option" where
  "raycastShape G from to (Sphere3 r) pos = SegmentVsSphere G from to pos r"
| "raycastShape G from to (AABB3 w h d) pos = SegmentVsAABB3 G from to pos (halfExtents G w h d)"

definition firstHit :: "'h list \<Rightarrow> 'h option" where
  "firstHit hits = (case hits of [] \<Rightarrow> None | h # hs \<Rightarrow> Some h)"

definition laterHit :: "'f geops \<Rightarrow> ('v, 'f) RaycastHit \<Rightarrow> ('v, 'f) RaycastHit \<Rightarrow> bool" where
  "laterHit G x h = flt G (rh_Fraction h) (rh_Fraction x)"

definition rayHitOf :: "'f geops \<Rightarrow> 'f Vec3 \<Rightarrow> 'f Vec3 \<Rightarrow> u32 \<Rightarrow> ('f shape3, 'f Vec3) entry \<Rightarrow> ('f Vec3, 'f) RaycastHit option" where
  "rayHitOf G from to layerMask e =
     (if (en_layer e AND layerMask) = 0 then None
      else case raycastShape G from to (en_shape e) (en_pos e) of
             None \<Rightarrow> None
           | Some (t, n) \<Rightarrow>
               Some \<lparr>rh_EntityID = en_id e, rh_Point = v3add G from (v3mul G (v3sub G to from) t), rh_Normal = n, rh_Fraction = t\<rparr>)"

definition sb_RaycastAll :: "'f geops \<Rightarrow> int64 list \<Rightarrow> 'f Vec3 \<Rightarrow> 'f Vec3 \<Rightarrow> u32 \<Rightarrow> 'f SimpleBackend \<Rightarrow> ('f Vec3, 'f) RaycastHit list" where
  "sb_RaycastAll G ks from to layerMask b =
     SortHits (laterHit G) (List.map_filter (rayHitOf G from to layerMask) (entriesIn ks b))"

definition sb_Raycast :: "'f geops \<Rightarrow> int64 list \<Rightarrow> 'f Vec3 \<Rightarrow> 'f Vec3 \<Rightarrow> u32 \<Rightarrow> 'f SimpleBackend \<Rightarrow> ('f Vec3, 'f) RaycastHit option" where
  "sb_Raycast G ks from to layerMask b = firstHit (sb_RaycastAll G ks from to layerMask b)"

section \<open>The resolv back end\<close>

text \<open>A shape of the library is the shape it was made from and the position set on it.\<close>

type_synonym 'f ResolvBackend = "('f shape2, 'f Vec2) backend"

definition rb_Add :: "'f geops \<Rightarrow> int64 \<Rightarrow> 'f shape2 option \<Rightarrow> u32 \<Rightarrow> u32 \<Rightarrow> bool \<Rightarrow> 'f ResolvBackend \<Rightarrow> 'f ResolvBackend" where
  "rb_Add G entityID shape layer msk trigger b =
     (case shape of
        None \<Rightarrow> b
      | Some sh \<Rightarrow>
          AList.update entityID \<lparr>en_id = entityID, en_shape = sh, en_layer = layer, en_mask = msk, en_trigger = trigger,
            en_pos = v2zero G\<rparr> b)"

definition rb_Set :: "'f geops \<Rightarrow> int64 \<Rightarrow> 'f shape2 option \<Rightarrow> u32 \<Rightarrow> u32 \<Rightarrow> bool \<Rightarrow> 'f ResolvBackend \<Rightarrow> 'f ResolvBackend" where
  "rb_Set G entityID shape layer msk trigger b =
     (case map_of b entityID of
        None \<Rightarrow> b
      | Some old \<Rightarrow> sb_Update entityID (en_pos old) (rb_Add G entityID shape layer msk trigger b))"

definition rb_contactOf ::
  "'f geops \<Rightarrow> (('f shape2, 'f Vec2) entry \<Rightarrow> ('f shape2, 'f Vec2) entry \<Rightarrow> 'f Vec2 option)
     \<Rightarrow> ('f shape2, 'f Vec2) entry \<Rightarrow> ('f shape2, 'f Vec2) entry \<Rightarrow> ('f Vec2, 'f) Contact option" where
  "rb_contactOf G intersection a c =
     (if (en_layer a AND en_mask c) = 0 \<or> (en_layer c AND en_mask a) = 0 then None
      else case intersection a c of
             None \<Rightarrow> None
           | Some mtv \<Rightarrow>
               let depth = fsqrt G (fadd G (fmul G (v2_X mtv) (v2_X mtv)) (fmul G (v2_Y mtv) (v2_Y mtv)));
                   unit = \<lparr>v2_X = fdiv G (v2_X mtv) depth, v2_Y = fdiv G (v2_Y mtv) depth\<rparr>
               in if en_trigger a \<or> en_trigger c
                  then Some \<lparr>ct_A = en_id a, ct_B = en_id c, ct_Normal = (if flt G (fnum G 0) depth then unit else v2zero G),
                             ct_Depth = fnum G 0\<rparr>
                  else if feq G depth (fnum G 0) then None
                  else Some \<lparr>ct_A = en_id a, ct_B = en_id c, ct_Normal = unit, ct_Depth = depth\<rparr>)"

definition rb_Step ::
  "'f geops \<Rightarrow> (('f shape2, 'f Vec2) entry \<Rightarrow> ('f shape2, 'f Vec2) entry \<Rightarrow> 'f Vec2 option)
     \<Rightarrow> int64 list \<Rightarrow> 'f ResolvBackend \<Rightarrow> ('f Vec2, 'f) Contact list" where
  "rb_Step G intersection ks b = stepPairs (rb_contactOf G intersection) (entriesIn ks b)"

section \<open>Queries in the plane\<close>

fun overlapBoxShape :: "'f geops \<Rightarrow> 'f \<Rightarrow> 'f \<Rightarrow> 'f \<Rightarrow> 'f \<Rightarrow> 'f \<Rightarrow> 'f \<Rightarrow> 'f shape2 \<Rightarrow> bool" where
  "overlapBoxShape G qx qy hw hh ex ey (AABB2 w h) =
     (flt G (fabs G (fsub G qx ex)) (fadd G hw (fdiv G w (fnum G 2)))
      \<and> flt G (fabs G (fsub G qy ey)) (fadd G hh (fdiv G h (fnum G 2))))"
| "overlapBoxShape G qx qy hw hh ex ey (Circle2 r) =
     (let cx = fmax G (fsub G qx hw) (fmin G ex (fadd G qx hw)); cy = fmax G (fsub G qy hh) (fmin G ey (fadd G qy hh));
          dx = fsub G ex cx; dy = fsub G ey cy
      in flt G (fadd G (fmul G dx dx) (fmul G dy dy)) (fmul G r r))"

fun overlapCircleShape :: "'f geops \<Rightarrow> 'f \<Rightarrow> 'f \<Rightarrow> 'f \<Rightarrow> 'f \<Rightarrow> 'f \<Rightarrow> 'f shape2 \<Rightarrow> bool" where
  "overlapCircleShape G qx qy r ex ey (Circle2 sr) =
     (let dx = fsub G qx ex; dy = fsub G qy ey; total = fadd G r sr
      in flt G (fadd G (fmul G dx dx) (fmul G dy dy)) (fmul G total total))"
| "overlapCircleShape G qx qy r ex ey (AABB2 w h) =
     (let hw = fdiv G w (fnum G 2); hh = fdiv G h (fnum G 2);
          cx = fmax G (fsub G ex hw) (fmin G qx (fadd G ex hw)); cy = fmax G (fsub G ey hh) (fmin G qy (fadd G ey hh));
          dx = fsub G qx cx; dy = fsub G qy cy
      in flt G (fadd G (fmul G dx dx) (fmul G dy dy)) (fmul G r r))"

definition rb_Overlap :: "('f shape2 \<Rightarrow> 'f Vec2 \<Rightarrow> bool) \<Rightarrow> int64 list \<Rightarrow> u32 \<Rightarrow> 'f ResolvBackend \<Rightarrow> int64 list" where
  "rb_Overlap test ks layerMask b =
     map en_id (filter (\<lambda>e. (en_layer e AND layerMask) \<noteq> 0 \<and> test (en_shape e) (en_pos e)) (entriesIn ks b))"

definition rb_OverlapBox :: "'f geops \<Rightarrow> int64 list \<Rightarrow> 'f \<Rightarrow> 'f \<Rightarrow> 'f \<Rightarrow> 'f \<Rightarrow> u32 \<Rightarrow> 'f ResolvBackend \<Rightarrow> int64 list" where
  "rb_OverlapBox G ks cx cy hw hh layerMask b =
     rb_Overlap (\<lambda>sh p. overlapBoxShape G cx cy hw hh (v2_X p) (v2_Y p) sh) ks layerMask b"

definition rb_OverlapCircle :: "'f geops \<Rightarrow> int64 list \<Rightarrow> 'f \<Rightarrow> 'f \<Rightarrow> 'f \<Rightarrow> u32 \<Rightarrow> 'f ResolvBackend \<Rightarrow> int64 list" where
  "rb_OverlapCircle G ks cx cy radius layerMask b =
     rb_Overlap (\<lambda>sh p. overlapCircleShape G cx cy radius (v2_X p) (v2_Y p) sh) ks layerMask b"

section \<open>Casts in the plane\<close>

fun castRayVsShape :: "'f geops \<Rightarrow> 'f \<Rightarrow> 'f \<Rightarrow> 'f \<Rightarrow> 'f \<Rightarrow> 'f \<Rightarrow> 'f \<Rightarrow> 'f shape2 \<Rightarrow> ('f \<times> 'f Vec2) option" where
  "castRayVsShape G px py qx qy ex ey (Circle2 r) = SegmentVsCircle G px py qx qy ex ey r"
| "castRayVsShape G px py qx qy ex ey (AABB2 w h) =
     SegmentVsAABB G px py qx qy ex ey (fdiv G w (fnum G 2)) (fdiv G h (fnum G 2))"

fun castBoxVsShape :: "'f geops \<Rightarrow> 'f \<Rightarrow> 'f \<Rightarrow> 'f \<Rightarrow> 'f \<Rightarrow> 'f \<Rightarrow> 'f \<Rightarrow> 'f \<Rightarrow> 'f \<Rightarrow> 'f shape2 \<Rightarrow> ('f \<times> 'f Vec2) option" where
  "castBoxVsShape G px py qx qy qhw qhh ex ey (AABB2 w h) =
     SegmentVsAABB G px py qx qy ex ey (fadd G (fdiv G w (fnum G 2)) qhw) (fadd G (fdiv G h (fnum G 2)) qhh)"
| "castBoxVsShape G px py qx qy qhw qhh ex ey (Circle2 r) = SegmentVsRoundedRect G px py qx qy ex ey qhw qhh r"

fun castCircleVsShape :: "'f geops \<Rightarrow> 'f \<Rightarrow> 'f \<Rightarrow> 'f \<Rightarrow> 'f \<Rightarrow> 'f \<Rightarrow> 'f \<Rightarrow> 'f \<Rightarrow> 'f shape2 \<Rightarrow> ('f \<times> 'f Vec2) option" where
  "castCircleVsShape G px py qx qy r ex ey (Circle2 sr) = SegmentVsCircle G px py qx qy ex ey (fadd G r sr)"
| "castCircleVsShape G px py qx qy r ex ey (AABB2 w h) =
     SegmentVsRoundedRect G px py qx qy ex ey (fdiv G w (fnum G 2)) (fdiv G h (fnum G 2)) r"

definition castHitOf ::
  "'f geops \<Rightarrow> 'f \<Rightarrow> 'f \<Rightarrow> 'f \<Rightarrow> 'f \<Rightarrow> 'f \<Rightarrow> 'f \<Rightarrow> u32 \<Rightarrow> ('f shape2, 'f Vec2) entry \<Rightarrow> ('f Vec2, 'f) RaycastHit option" where
  "castHitOf G px py qx qy qhw qhh layerMask e =
     (if (en_layer e AND layerMask) = 0 then None
      else let ex = v2_X (en_pos e); ey = v2_Y (en_pos e); zero = fnum G 0;
               h = (if feq G qhw zero \<and> feq G qhh zero then castRayVsShape G px py qx qy ex ey (en_shape e)
                    else if flt G zero qhw \<and> flt G zero qhh then castBoxVsShape G px py qx qy qhw qhh ex ey (en_shape e)
                    else castCircleVsShape G px py qx qy (fneg G qhw) ex ey (en_shape e))
           in case h of
                None \<Rightarrow> None
              | Some (t, n) \<Rightarrow>
                  Some \<lparr>rh_EntityID = en_id e,
                    rh_Point = \<lparr>v2_X = fadd G px (fmul G t (fsub G qx px)), v2_Y = fadd G py (fmul G t (fsub G qy py))\<rparr>,
                    rh_Normal = n, rh_Fraction = t\<rparr>)"

text \<open>The loop over the entries; without \<open>collectAll\<close> it ends at the first hit.\<close>

primrec castLoop :: "('e \<Rightarrow> 'h option) \<Rightarrow> bool \<Rightarrow> 'e list \<Rightarrow> 'h list" where
  "castLoop hit collectAll [] = []"
| "castLoop hit collectAll (e # es) =
     (case hit e of
        None \<Rightarrow> castLoop hit collectAll es
      | Some h \<Rightarrow> if collectAll then h # castLoop hit collectAll es else [h])"

definition castSegment ::
  "'f geops \<Rightarrow> int64 list \<Rightarrow> 'f \<Rightarrow> 'f \<Rightarrow> 'f \<Rightarrow> 'f \<Rightarrow> 'f \<Rightarrow> 'f \<Rightarrow> u32 \<Rightarrow> bool \<Rightarrow> 'f ResolvBackend \<Rightarrow> ('f Vec2, 'f) RaycastHit list" where
  "castSegment G ks px py qx qy qhw qhh layerMask collectAll b =
     (let dx = fsub G qx px; dy = fsub G qy py
      in if feq G (fadd G (fmul G dx dx) (fmul G dy dy)) (fnum G 0) then []
         else let hits = SortHits (laterHit G) (castLoop (castHitOf G px py qx qy qhw qhh layerMask) collectAll (entriesIn ks b))
              in if collectAll then hits else take 1 hits)"

definition rb_Raycast :: "'f geops \<Rightarrow> int64 list \<Rightarrow> 'f \<Rightarrow> 'f \<Rightarrow> 'f \<Rightarrow> 'f \<Rightarrow> u32 \<Rightarrow> 'f ResolvBackend \<Rightarrow> ('f Vec2, 'f) RaycastHit option" where
  "rb_Raycast G ks x1 y1 x2 y2 layerMask b = firstHit (castSegment G ks x1 y1 x2 y2 (fnum G 0) (fnum G 0) layerMask False b)"

definition rb_RaycastAll :: "'f geops \<Rightarrow> int64 list \<Rightarrow> 'f \<Rightarrow> 'f \<Rightarrow> 'f \<Rightarrow> 'f \<Rightarrow> u32 \<Rightarrow> 'f ResolvBackend \<Rightarrow> ('f Vec2, 'f) RaycastHit list" where
  "rb_RaycastAll G ks x1 y1 x2 y2 layerMask b = castSegment G ks x1 y1 x2 y2 (fnum G 0) (fnum G 0) layerMask True b"

definition rb_BoxCast ::
  "'f geops \<Rightarrow> int64 list \<Rightarrow> 'f \<Rightarrow> 'f \<Rightarrow> 'f \<Rightarrow> 'f \<Rightarrow> 'f \<Rightarrow> 'f \<Rightarrow> u32 \<Rightarrow> 'f ResolvBackend \<Rightarrow> ('f Vec2, 'f) RaycastHit option" where
  "rb_BoxCast G ks ox oy hw hh dx dy layerMask b = firstHit (castSegment G ks ox oy (fadd G ox dx) (fadd G oy dy) hw hh layerMask False b)"

definition rb_BoxCastAll ::
  "'f geops \<Rightarrow> int64 list \<Rightarrow> 'f \<Rightarrow> 'f \<Rightarrow> 'f \<Rightarrow> 'f \<Rightarrow> 'f \<Rightarrow> 'f \<Rightarrow> u32 \<Rightarrow> 'f ResolvBackend \<Rightarrow> ('f Vec2, 'f) RaycastHit list" where
  "rb_BoxCastAll G ks ox oy hw hh dx dy layerMask b = castSegment G ks ox oy (fadd G ox dx) (fadd G oy dy) hw hh layerMask True b"

definition rb_CircleCast ::
  "'f geops \<Rightarrow> int64 list \<Rightarrow> 'f \<Rightarrow> 'f \<Rightarrow> 'f \<Rightarrow> 'f \<Rightarrow> 'f \<Rightarrow> u32 \<Rightarrow> 'f ResolvBackend \<Rightarrow> ('f Vec2, 'f) RaycastHit option" where
  "rb_CircleCast G ks ox oy radius dx dy layerMask b =
     firstHit (castSegment G ks ox oy (fadd G ox dx) (fadd G oy dy) (fneg G radius) (fnum G 0) layerMask False b)"

definition rb_CircleCastAll ::
  "'f geops \<Rightarrow> int64 list \<Rightarrow> 'f \<Rightarrow> 'f \<Rightarrow> 'f \<Rightarrow> 'f \<Rightarrow> 'f \<Rightarrow> u32 \<Rightarrow> 'f ResolvBackend \<Rightarrow> ('f Vec2, 'f) RaycastHit list" where
  "rb_CircleCastAll G ks ox oy radius dx dy layerMask b =
     castSegment G ks ox oy (fadd G ox dx) (fadd G oy dy) (fneg G radius) (fnum G 0) layerMask True b"

section \<open>What a back end promises to those who register shapes\<close>

locale shape_backend =
  fixes add :: "int64 \<Rightarrow> 's \<Rightarrow> u32 \<Rightarrow> u32 \<Rightarrow> bool \<Rightarrow> 'b \<Rightarrow> 'b"
    and move :: "int64 \<Rightarrow> 'p \<Rightarrow> 'b \<Rightarrow> 'b"
    and remove :: "int64 \<Rightarrow> 'b \<Rightarrow> 'b"
    and look :: "'b \<Rightarrow> int64 \<Rightarrow> ('s, 'p) entry option"
  assumes look_placed: "look (move i p (add i sh layer msk trig b)) j =
      (if j = i then Some \<lparr>en_id = i, en_shape = sh, en_layer = layer, en_mask = msk, en_trigger = trig, en_pos = p\<rparr> else look b j)"
    and look_removed: "look (remove i b) j = (if j = i then None else look b j)"
begin

lemma look_removes: "look (fold remove ids b) j = (if j \<in> set ids then None else look b j)"
  by (induction ids arbitrary: b) (auto simp: look_removed)

end

interpretation simple: shape_backend "\<lambda>i sh. sb_Add G i (Some sh)" sb_Update sb_Remove map_of for G
  by unfold_locales (auto simp: sb_Add_def sb_Update_def sb_Remove_def)

interpretation rsv: shape_backend "\<lambda>i sh. rb_Add G i (Some sh)" sb_Update sb_Remove map_of for G
  by unfold_locales (auto simp: rb_Add_def sb_Update_def sb_Remove_def)

section \<open>Sorted hits\<close>

text \<open>The insertion sort needs an order without the ties NaN would make.\<close>

locale hit_order =
  fixes gt :: "'h \<Rightarrow> 'h \<Rightarrow> bool"
  assumes gt_asym: "gt x y \<Longrightarrow> \<not> gt y x"
    and gt_negtrans: "\<not> gt x y \<Longrightarrow> \<not> gt y z \<Longrightarrow> \<not> gt x z"
begin

lemma insertHit_set: "mset (insertHit gt h xs) = add_mset h (mset xs)"
  by (induction xs) auto

lemma insertHit_sorted:
  "sorted_wrt (\<lambda>x y. \<not> gt y x) xs \<Longrightarrow> sorted_wrt (\<lambda>x y. \<not> gt y x) (insertHit gt h xs)"
proof (induction xs)
  case (Cons x xs)
  have s: "set (insertHit gt h xs) = insert h (set xs)" using arg_cong [OF insertHit_set, of set_mset h xs] by simp
  show ?case
  proof (cases "gt x h")
    case True
    then show ?thesis using Cons gt_asym [OF True] by (auto simp: s)
  next
    case False
    then show ?thesis using Cons.prems gt_negtrans [OF _ False] by auto
  qed
qed simp

lemma SortHits_ok: "mset (SortHits gt hs) = mset hs \<and> sorted_wrt (\<lambda>x y. \<not> gt x y) (SortHits gt hs)"
proof -
  have "mset (fold (insertHit gt) hs acc) = mset hs + mset acc
      \<and> (sorted_wrt (\<lambda>x y. \<not> gt y x) acc \<longrightarrow> sorted_wrt (\<lambda>x y. \<not> gt y x) (fold (insertHit gt) hs acc))" for acc
    by (induction hs arbitrary: acc) (auto simp: insertHit_set insertHit_sorted)
  from this [of "[]"] show ?thesis by (simp add: SortHits_def sorted_wrt_rev)
qed

text \<open>The head of the sorted list is a nearest hit.\<close>

lemma SortHits_head:
  "case firstHit (SortHits gt hs) of None \<Rightarrow> set hs = {} | Some h \<Rightarrow> h \<in> set hs \<and> (\<forall>h' \<in> set hs. \<not> gt h h')"
proof (cases "SortHits gt hs")
  case Nil
  then show ?thesis using SortHits_ok [of hs] by (simp add: firstHit_def)
next
  case (Cons h rest)
  have "set hs = insert h (set rest)" using arg_cong [OF conjunct1 [OF SortHits_ok [of hs]], of set_mset] Cons by simp
  moreover have "\<not> gt h h" using gt_asym by blast
  ultimately show ?thesis using SortHits_ok [of hs] Cons by (auto simp: firstHit_def)
qed

end

interpretation near: hit_order "laterHit realOps"
  by unfold_locales (auto simp: laterHit_def)

section \<open>Ray casts in space\<close>

lemma in_map_filter: "y \<in> set (List.map_filter f xs) \<longleftrightarrow> (\<exists>x \<in> set xs. f x = Some y)"
  by (induction xs) (auto simp: map_filter_simps split: option.splits)

lemma entriesIn_set: "iter_order ks b \<Longrightarrow> set (entriesIn ks b) = ran (map_of b)"
  by (force simp: entriesIn_def iter_order_def in_map_filter ran_def gm_keys_dom)

lemma nearest_of:
  assumes "set es = ran (map_of b)"
  shows "case firstHit (SortHits (laterHit realOps) (List.map_filter f es)) of
      None \<Rightarrow> \<forall>e \<in> ran (map_of b). f e = None
    | Some h \<Rightarrow> (\<exists>e \<in> ran (map_of b). f e = Some h)
        \<and> (\<forall>e \<in> ran (map_of b). \<forall>h'. f e = Some h' \<longrightarrow> rh_Fraction h \<le> rh_Fraction h')"
proof -
  have S: "h \<in> set (List.map_filter f es) \<longleftrightarrow> (\<exists>e \<in> ran (map_of b). f e = Some h)" for h
    by (simp add: in_map_filter assms)
  show ?thesis
  proof (cases "firstHit (SortHits (laterHit realOps) (List.map_filter f es))")
    case None
    then have "set (List.map_filter f es) = {}" using near.SortHits_head [of "List.map_filter f es"] by simp
    then have "f e = None" if "e \<in> ran (map_of b)" for e using S that by (cases "f e") auto
    then show ?thesis using None by simp
  next
    case (Some h)
    then show ?thesis using near.SortHits_head [of "List.map_filter f es"] by (auto simp: S laterHit_def not_less)
  qed
qed

text \<open>
  A ray cast in space answers a nearest hit, whatever the order in which the map of entries is
  visited: none if and only if the ray test of no entry on the wanted layers answers, and otherwise a
  hit of one of them with the least fraction.
\<close>

theorem raycast_nearest:
  assumes "iter_order ks b"
  shows "case sb_Raycast realOps ks from to layerMask b of
      None \<Rightarrow> \<forall>e \<in> ran (map_of b). rayHitOf realOps from to layerMask e = None
    | Some h \<Rightarrow> (\<exists>e \<in> ran (map_of b). rayHitOf realOps from to layerMask e = Some h)
        \<and> (\<forall>e \<in> ran (map_of b). \<forall>h'. rayHitOf realOps from to layerMask e = Some h' \<longrightarrow> rh_Fraction h \<le> rh_Fraction h')"
  unfolding sb_Raycast_def sb_RaycastAll_def by (rule nearest_of [OF entriesIn_set [OF assms]])

definition insideShape :: "real shape3 \<Rightarrow> real Vec3 \<Rightarrow> real Vec3 \<Rightarrow> bool" where
  "insideShape sh c p =
     (case sh of
        Sphere3 r \<Rightarrow> v3dot realOps (v3sub realOps p c) (v3sub realOps p c) \<le> r * r
      | AABB3 w h d \<Rightarrow> \<bar>v3_X p - v3_X c\<bar> \<le> w / 2 \<and> \<bar>v3_Y p - v3_Y c\<bar> \<le> h / 2 \<and> \<bar>v3_Z p - v3_Z c\<bar> \<le> d / 2)"

definition segmentPoint :: "real Vec3 \<Rightarrow> real Vec3 \<Rightarrow> real \<Rightarrow> real Vec3" where
  "segmentPoint from to u = v3add realOps from (v3mul realOps (v3sub realOps to from) u)"

text \<open>The segment is longer than the tolerance and not almost parallel to a face.\<close>

definition plainSegment :: "real Vec3 \<Rightarrow> real Vec3 \<Rightarrow> bool" where
  "plainSegment from to \<longleftrightarrow>
     (\<forall>get \<in> {v3_X, v3_Y, v3_Z}. get to = get from \<or> 1 / 10 ^ 9 < \<bar>get to - get from\<bar>)
     \<and> 1 / 10 ^ 9 < v3dot realOps (v3sub realOps to from) (v3sub realOps to from)"

text \<open>A sphere left behind: the segment starts outside and points away, but its line meets the sphere.\<close>

definition leftBehind :: "real Vec3 \<Rightarrow> real Vec3 \<Rightarrow> real shape3 \<Rightarrow> real Vec3 \<Rightarrow> bool" where
  "leftBehind from to sh c =
     (case sh of
        AABB3 w h d \<Rightarrow> False
      | Sphere3 r \<Rightarrow>
          let d = v3sub realOps to from; f = v3sub realOps from c; a = v3dot realOps d d; b = 2 * v3dot realOps f d;
              k = v3dot realOps f f - r * r
          in 0 < k \<and> 0 \<le> b \<and> 0 \<le> b * b - 4 * a * k)"

definition shapeOK :: "real shape3 \<Rightarrow> bool" where
  "shapeOK sh = (case sh of Sphere3 r \<Rightarrow> 0 \<le> r | AABB3 w h d \<Rightarrow> 0 \<le> w \<and> 0 \<le> h \<and> 0 \<le> d)"

lemma sphere_quadratic:
  "insideShape (Sphere3 r) c (segmentPoint from to u) \<longleftrightarrow>
     v3dot realOps (v3sub realOps to from) (v3sub realOps to from) * u * u
     + 2 * v3dot realOps (v3sub realOps from c) (v3sub realOps to from) * u
     + (v3dot realOps (v3sub realOps from c) (v3sub realOps from c) - r * r) \<le> 0"
  by (simp add: insideShape_def segmentPoint_def v3dot_def v3sub_def v3add_def v3mul_def algebra_simps)

definition axesPlain :: "real Vec3 \<Rightarrow> real Vec3 \<Rightarrow> bool" where
  "axesPlain from to \<longleftrightarrow> (\<forall>get \<in> {v3_X, v3_Y, v3_Z}. get to = get from \<or> 1 / 10 ^ 9 < \<bar>get to - get from\<bar>)"

definition segmentLength2 :: "real Vec3 \<Rightarrow> real Vec3 \<Rightarrow> real" where
  "segmentLength2 from to = v3dot realOps (v3sub realOps to from) (v3sub realOps to from)"

text \<open>
  The answer of a cast is right: a miss if no point of the segment is in the shape, otherwise the
  first fraction of the segment that is.
\<close>

definition answersFirst ::
  "real Vec3 \<Rightarrow> real Vec3 \<Rightarrow> real shape3 \<Rightarrow> real Vec3 \<Rightarrow> (real \<times> real Vec3) option \<Rightarrow> bool" where
  "answersFirst from to sh c res \<longleftrightarrow>
     (case res of
        None \<Rightarrow> \<forall>u. 0 \<le> u \<and> u \<le> 1 \<longrightarrow> \<not> insideShape sh c (segmentPoint from to u)
      | Some (t, n) \<Rightarrow> 0 \<le> t \<and> t \<le> 1 \<and> insideShape sh c (segmentPoint from to t)
          \<and> (\<forall>u. 0 \<le> u \<and> u < t \<longrightarrow> \<not> insideShape sh c (segmentPoint from to u)))"

lemma answersFirst_firstInside:
  "answersFirst from to sh c res \<longleftrightarrow> firstInside (\<lambda>u. insideShape sh c (segmentPoint from to u)) (map_option fst res)"
  by (auto simp: answersFirst_def firstInside_def split: option.splits)

lemma sphere_cast_exact:
  assumes "1 / 10 ^ 9 < segmentLength2 from to" "\<not> leftBehind from to (Sphere3 r) c"
  shows "answersFirst from to (Sphere3 r) c (raycastShape realOps from to (Sphere3 r) c)"
  unfolding answersFirst_firstInside sphere_quadratic raycastShape.simps
    SegmentVsSphere_root [OF assms(1) [unfolded segmentLength2_def]]
proof (rule rootHit_exact)
  show "0 < v3dot realOps (v3sub realOps to from) (v3sub realOps to from)"
    using assms(1) [unfolded segmentLength2_def] by (rule less_trans [rotated]) simp
qed (use assms(2) in \<open>auto simp: leftBehind_def Let_def not_le not_less\<close>)

lemma sphere_cast_behind:
  assumes "1 / 10 ^ 9 < segmentLength2 from to" "leftBehind from to (Sphere3 r) c"
  shows "map_option fst (raycastShape realOps from to (Sphere3 r) c) = Some 0"
    and "0 \<le> u \<Longrightarrow> \<not> insideShape (Sphere3 r) c (segmentPoint from to u)"
proof -
  let ?d = "v3sub realOps to from" and ?f = "v3sub realOps from c"
  have a: "1 / 10 ^ 9 < v3dot realOps ?d ?d" using assms(1) by (simp add: segmentLength2_def)
  then have a0: "0 < v3dot realOps ?d ?d" by (rule less_trans [rotated]) simp
  have l: "0 < v3dot realOps ?f ?f - r * r" "0 \<le> 2 * v3dot realOps ?f ?d"
    "0 \<le> (2 * v3dot realOps ?f ?d) * (2 * v3dot realOps ?f ?d) - 4 * v3dot realOps ?d ?d * (v3dot realOps ?f ?f - r * r)"
    using assms(2) by (auto simp: leftBehind_def Let_def)
  show "map_option fst (raycastShape realOps from to (Sphere3 r) c) = Some 0"
    using SegmentVsSphere_root [OF a] rootHit_behind(1) [OF a0 l] by simp
  show "0 \<le> u \<Longrightarrow> \<not> insideShape (Sphere3 r) c (segmentPoint from to u)"
    unfolding sphere_quadratic by (rule rootHit_behind(2) [OF a0 l])
qed

lemma sphere_cast_short:
  "segmentLength2 from to \<le> 1 / 10 ^ 9 \<Longrightarrow> raycastShape realOps from to (Sphere3 r) c = None"
  by (simp add: segmentLength2_def SegmentVsSphere_def Let_def)

lemma box_cast_exact:
  assumes "axesPlain from to" "shapeOK (AABB3 w h d)"
  shows "answersFirst from to (AABB3 w h d) c (raycastShape realOps from to (AABB3 w h d) c)"
proof -
  have p: "get to - get from = 0 \<or> 1 / 10 ^ 9 < \<bar>get to - get from\<bar>" if "get \<in> {v3_X, v3_Y, v3_Z}" for get
    using assms(1) that unfolding axesPlain_def by (metis diff_self)
  have "firstInside (\<lambda>u. \<bar>v3_X from + u * (v3_X to - v3_X from) - v3_X c\<bar> \<le> v3_X (halfExtents realOps w h d)
      \<and> \<bar>v3_Y from + u * (v3_Y to - v3_Y from) - v3_Y c\<bar> \<le> v3_Y (halfExtents realOps w h d)
      \<and> \<bar>v3_Z from + u * (v3_Z to - v3_Z from) - v3_Z c\<bar> \<le> v3_Z (halfExtents realOps w h d))
    (map_option fst (SegmentVsAABB3 realOps from to c (halfExtents realOps w h d)))"
    by (rule SegmentVsAABB3_exact) (use p assms(2) in \<open>auto simp: shapeOK_def halfExtents_def\<close>)
  then show ?thesis
    unfolding answersFirst_firstInside
    by (simp add: insideShape_def segmentPoint_def halfExtents_def v3add_def v3mul_def v3sub_def mult.commute)
qed

text \<open>
  C31.  What the ray test of a shape with sizes that are not negative answers, in exact arithmetic.  For
  a box it is right (a miss if and only if no point of the segment is in the box, otherwise the
  first fraction that is) whenever no component of the segment is tiny: each is 0 or longer than
  1e-9.  For a sphere the three cases are exhaustive: a segment whose squared length is at most
  1e-9 always misses, even inside the sphere; a sphere left behind is reported at fraction 0 though
  no point of the ray is in it; in every other case the answer is right.
\<close>

theorem ray_shape_exact:
  assumes "shapeOK sh"
  shows "case sh of
      AABB3 w h d \<Rightarrow> axesPlain from to \<longrightarrow> answersFirst from to sh c (raycastShape realOps from to sh c)
    | Sphere3 r \<Rightarrow>
        if segmentLength2 from to \<le> 1 / 10 ^ 9 then raycastShape realOps from to sh c = None
        else if leftBehind from to sh c
        then map_option fst (raycastShape realOps from to sh c) = Some 0
          \<and> (\<forall>u \<ge> 0. \<not> insideShape sh c (segmentPoint from to u))
        else answersFirst from to sh c (raycastShape realOps from to sh c)"
proof (cases sh)
  case (Sphere3 r)
  show ?thesis
    unfolding Sphere3 shape3.case
    using sphere_cast_short sphere_cast_behind sphere_cast_exact by (simp only: if_split not_le) blast
next
  case (AABB3 w h d)
  then show ?thesis using box_cast_exact assms by simp
qed

text \<open>
  A ray hits what is behind it: if the back end holds a sphere, on a wanted layer, that the segment
  has left behind, the ray cast answers a hit at fraction 0, although no point of the segment is in
  that sphere, and whatever stands in front of it.
\<close>

theorem ray_hits_behind:
  assumes "iter_order ks b" and "map_of b k = Some e" and "en_shape e = Sphere3 r" and "(en_layer e AND layerMask) \<noteq> 0"
    and "plainSegment from to" and "leftBehind from to (Sphere3 r) (en_pos e)"
  shows "(\<exists>h. sb_Raycast realOps ks from to layerMask b = Some h \<and> rh_Fraction h \<le> 0)
    \<and> (\<forall>u \<ge> 0. \<not> insideShape (Sphere3 r) (en_pos e) (segmentPoint from to u))"
proof -
  let ?d = "v3sub realOps to from" and ?f = "v3sub realOps from (en_pos e)"
  have a: "1 / 10 ^ 9 < v3dot realOps ?d ?d" using assms(5) by (simp add: plainSegment_def)
  then have a0: "0 < v3dot realOps ?d ?d" by (rule less_trans [rotated]) simp
  have l: "0 < v3dot realOps ?f ?f - r * r" "0 \<le> 2 * v3dot realOps ?f ?d"
    "0 \<le> (2 * v3dot realOps ?f ?d) * (2 * v3dot realOps ?f ?d) - 4 * v3dot realOps ?d ?d * (v3dot realOps ?f ?f - r * r)"
    using assms(6) by (auto simp: leftBehind_def Let_def)
  have "map_option fst (SegmentVsSphere realOps from to (en_pos e) r) = Some 0"
    using SegmentVsSphere_root [OF a] rootHit_behind(1) [OF a0 l] by simp
  then obtain n where "raycastShape realOps from to (en_shape e) (en_pos e) = Some (0, n)" using assms(3) by auto
  then obtain h where h: "rayHitOf realOps from to layerMask e = Some h" "rh_Fraction h = 0"
    using assms(4) by (simp add: rayHitOf_def)
  have "e \<in> ran (map_of b)" using assms(2) by (rule ranI)
  then have "\<exists>h'. sb_Raycast realOps ks from to layerMask b = Some h' \<and> rh_Fraction h' \<le> 0"
    using nearest_of [OF entriesIn_set [OF assms(1)], of "rayHitOf realOps from to layerMask"] h
    unfolding sb_Raycast_def sb_RaycastAll_def by (fastforce split: option.splits)
  moreover have "\<not> insideShape (Sphere3 r) (en_pos e) (segmentPoint from to u)" if "0 \<le> u" for u
    unfolding sphere_quadratic by (rule rootHit_behind(2) [OF a0 l that])
  ultimately show ?thesis by blast
qed

section \<open>Casts in the plane\<close>


section \<open>Contacts do not depend on the order of the map\<close>

text \<open>What IEEE arithmetic, exact or not, has of symmetry.\<close>

definition symmetricOps :: "'f geops \<Rightarrow> bool" where
  "symmetricOps G \<longleftrightarrow>
     (\<forall>x y. fadd G x y = fadd G y x \<and> fabs G (fsub G x y) = fabs G (fsub G y x)
        \<and> fmul G (fsub G x y) (fsub G x y) = fmul G (fsub G y x) (fsub G y x))"

text \<open>What the listener of a contact sees regardless of which side is first: the pair and the depth.\<close>

definition contactView :: "('v, 'f) Contact \<Rightarrow> int64 set \<times> 'f" where
  "contactView c = ({ct_A c, ct_B c}, ct_Depth c)"

lemma overlap3_depth_sym:
  assumes "symmetricOps G"
  shows "map_option snd (overlap3 G a ap b bp) = map_option snd (overlap3 G b bp a ap)"
proof -
  have S: "fadd G x y = fadd G y x" "fabs G (fsub G x y) = fabs G (fsub G y x)"
    "fmul G (fsub G x y) (fsub G x y) = fmul G (fsub G y x) (fsub G y x)" for x y
    using assms by (auto simp: symmetricOps_def)
  have len: "v3length G (v3sub G p q) = v3length G (v3sub G q p)" for p q :: "'a Vec3"
    using S(3)[of "v3_X p" "v3_X q"] S(3)[of "v3_Y p" "v3_Y q"] S(3)[of "v3_Z p" "v3_Z q"]
    by (simp add: v3length_def v3dot_def v3sub_def)
  show ?thesis
  proof (cases a; cases b)
    fix ar br assume "a = Sphere3 ar" "b = Sphere3 br"
    then show ?thesis using len[of ap bp] S(1)[of ar br] by (simp add: overlapSphereSphere_def Let_def)
  next
    fix w h d w' h' d' assume ab: "a = AABB3 w h d" "b = AABB3 w' h' d'"
    define pen where "pen get p e q f = fsub G (fadd G (get e) (get f)) (fabs G (fsub G (get p) (get q)))" for get :: "'a Vec3 \<Rightarrow> 'a" and p e q f
    have "pen get p e q f = pen get q f p e" for get p e q f
      using S(1)[of "get e" "get f"] S(2)[of "get p" "get q"] by (simp add: pen_def)
    then show ?thesis unfolding ab overlap3.simps overlapAABBAABB_def Let_def pen_def [symmetric]
      by (simp only: if_distrib [of "map_option snd"] option.map snd_conv)
  qed (auto simp: option.map_comp comp_def case_prod_beta)
qed

lemma contactOf_sym: "symmetricOps G \<Longrightarrow> map_option contactView (contactOf G a c) = map_option contactView (contactOf G c a)"
  using overlap3_depth_sym [of G "en_shape a" "en_pos a" "en_shape c" "en_pos c"]
  by (auto simp: contactOf_def contactView_def insert_commute split: option.splits)

lemma stepPairs_move:
  assumes "\<And>a b. map_option v (f a b) = map_option v (f b a)"
  shows "mset (map v (stepPairs f (xs @ x # ys))) = mset (map v (stepPairs f (x # xs @ ys)))"
proof (induction xs)
  case (Cons a xs)
  have m: "mset (map v (List.map_filter (f a) (xs @ x # ys))) =
      mset (map v (List.map_filter (f a) (xs @ ys))) + (case f a x of None \<Rightarrow> {#} | Some c \<Rightarrow> {#v c#})" for xs
    by (induction xs) (auto simp: map_filter_simps split: option.splits)
  have "(case f a x of None \<Rightarrow> {#} | Some c \<Rightarrow> {#v c#}) = (case f x a of None \<Rightarrow> {#} | Some c \<Rightarrow> {#v c#})"
    using assms[of a x] by (cases "f a x"; cases "f x a") auto
  then show ?case using Cons m[of xs] by (auto simp: map_filter_simps split: option.splits)
qed simp

lemma stepPairs_mset:
  assumes "\<And>a b. map_option v (f a b) = map_option v (f b a)" and "mset es = mset es'"
  shows "mset (map v (stepPairs f es)) = mset (map v (stepPairs f es'))"
  using assms(2)
proof (induction es arbitrary: es')
  case (Cons x es)
  then have "x \<in> set es'" by (metis list.set_intros(1) set_mset_mset)
  then obtain xs ys where es': "es' = xs @ x # ys" by (meson split_list)
  then have "mset es = mset (xs @ ys)" using Cons.prems by simp
  have f: "mset (map v (List.map_filter (f x) zs)) = image_mset v (mset (List.map_filter (f x) zs))"
    "mset (List.map_filter g zs) = {#the (g y). y \<in># filter_mset (\<lambda>y. g y \<noteq> None) (mset zs)#}" for zs and g :: "'a \<Rightarrow> 'c option"
    by (simp, induction zs) (auto simp: map_filter_simps split: option.splits)
  have "mset (map v (stepPairs f (x # es))) = mset (map v (stepPairs f (x # xs @ ys)))"
    using Cons.IH [OF \<open>mset es = mset (xs @ ys)\<close>] \<open>mset es = mset (xs @ ys)\<close> by (simp add: f)
  also have "\<dots> = mset (map v (stepPairs f es'))" unfolding es' by (rule stepPairs_move [OF assms(1), symmetric])
  finally show ?case .
qed simp

lemma stepPairs_once:
  assumes "\<And>a b c. f a b = Some c \<Longrightarrow> pair c = {en_id a, en_id b}" and "distinct (map en_id es)"
  shows "distinct (map pair (stepPairs f es)) \<and> (\<forall>c \<in> set (stepPairs f es). pair c \<subseteq> en_id ` set es)"
  using assms(2)
proof (induction es)
  case (Cons a es)
  have "distinct (map pair (List.map_filter (f a) es)) \<and>
      (\<forall>c \<in> set (List.map_filter (f a) es). \<exists>e \<in> set es. pair c = {en_id a, en_id e})"
    using Cons.prems
  proof (induction es)
    case (Cons e es)
    then have IH: "distinct (map pair (List.map_filter (f a) es))"
      "\<forall>c \<in> set (List.map_filter (f a) es). \<exists>e \<in> set es. pair c = {en_id a, en_id e}" and n: "en_id e \<notin> en_id ` set es" by auto
    have "{en_id a, en_id e} \<noteq> {en_id a, en_id e'}" if "e' \<in> set es" for e' using n that by (auto simp: doubleton_eq_iff)
    then have "pair c \<noteq> {en_id a, en_id e}" if "c \<in> set (List.map_filter (f a) es)" for c using IH(2) that by metis
    then show ?case using IH assms(1) [of a e] by (cases "f a e") (auto simp: map_filter_simps)
  qed (simp add: map_filter_simps)
  then have P: "distinct (map pair (List.map_filter (f a) es))"
    "\<And>c. c \<in> set (List.map_filter (f a) es) \<Longrightarrow> \<exists>e \<in> set es. pair c = {en_id a, en_id e}" by blast+
  have S: "distinct (map pair (stepPairs f es))" "\<And>c. c \<in> set (stepPairs f es) \<Longrightarrow> pair c \<subseteq> en_id ` set es" using Cons by auto
  have "pair c \<noteq> pair c'" if "c \<in> set (List.map_filter (f a) es)" "c' \<in> set (stepPairs f es)" for c c'
    using P(2) [OF that(1)] S(2) [OF that(2)] Cons.prems by auto
  then have "distinct (map pair (stepPairs f (a # es)))" using P(1) S(1) by (fastforce simp: image_iff)
  moreover have "pair c \<subseteq> en_id ` set (a # es)" if "c \<in> set (stepPairs f (a # es))" for c
    using that P(2) S(2) by fastforce
  ultimately show ?case by blast
qed simp

text \<open>
  The contacts of a step do not depend on the order in which the map of entries is visited: the
  pairs and their depths are the same for any two orders, and each pair of entries has at most one
  contact.  It holds for IEEE arithmetic, which is commutative and symmetric in this sense.
\<close>

theorem contacts_order_independent:
  assumes "symmetricOps G" and "iter_order ks b" and "iter_order ks' b" and "\<forall>k e. map_of b k = Some e \<longrightarrow> en_id e = k"
  shows "mset (map contactView (sb_Step G ks b)) = mset (map contactView (sb_Step G ks' b))
    \<and> distinct (map (fst o contactView) (sb_Step G ks b))"
proof
  have ids: "map en_id (entriesIn qs b) = qs" if "set qs \<subseteq> gm_keys b" for qs
    using that by (induction qs) (auto simp: entriesIn_def map_filter_simps gm_keys_Some assms(4))
  have d: "distinct ks" "distinct ks'" "set ks = gm_keys b" "set ks' = gm_keys b" using assms(2,3) by (auto simp: iter_order_def)
  have "mset (entriesIn ks b) = mset (entriesIn ks' b)"
  proof (rule set_eq_iff_mset_eq_distinct [THEN iffD1])
    show "distinct (entriesIn ks b)" using d ids [of ks] by (metis distinct_map order_refl)
    show "distinct (entriesIn ks' b)" using d ids [of ks'] by (metis distinct_map order_refl)
  qed (simp add: entriesIn_set assms(2,3))
  then show "mset (map contactView (sb_Step G ks b)) = mset (map contactView (sb_Step G ks' b))"
    unfolding sb_Step_def by (intro stepPairs_mset contactOf_sym assms(1))
  have "distinct (map en_id (entriesIn ks b))" using d ids [of ks] by simp
  then show "distinct (map (fst o contactView) (sb_Step G ks b))"
    unfolding sb_Step_def
    by (intro conjunct1 [OF stepPairs_once]) (auto simp: contactOf_def contactView_def split: if_splits option.splits)
qed

section \<open>Examples\<close>

text \<open>A sphere behind the origin of the ray and a box in front of it.\<close>

definition demoBackend :: "real SimpleBackend" where
  "demoBackend =
     [(1, \<lparr>en_id = 1, en_shape = Sphere3 1, en_layer = 1, en_mask = 1, en_trigger = False, en_pos = \<lparr>v3_X = 0, v3_Y = 0, v3_Z = 0\<rparr>\<rparr>),
      (2, \<lparr>en_id = 2, en_shape = AABB3 2 2 2, en_layer = 1, en_mask = 1, en_trigger = False, en_pos = \<lparr>v3_X = 15, v3_Y = 0, v3_Z = 0\<rparr>\<rparr>)]"

definition rayFrom :: "real Vec3" where "rayFrom = \<lparr>v3_X = 10, v3_Y = 0, v3_Z = 0\<rparr>"

definition rayTo :: "real Vec3" where "rayTo = \<lparr>v3_X = 20, v3_Y = 0, v3_Z = 0\<rparr>"

lemma demoBackend_order: "iter_order [1, 2] demoBackend" "iter_order [2, 1] demoBackend"
  by (auto simp: iter_order_def demoBackend_def gm_keys_def)

lemma demoRay: "plainSegment rayFrom rayTo" "leftBehind rayFrom rayTo (Sphere3 1) \<lparr>v3_X = 0, v3_Y = 0, v3_Z = 0\<rparr>"
  by (simp_all add: plainSegment_def leftBehind_def rayFrom_def rayTo_def v3dot_def v3sub_def Let_def)

theorem raycast_nearest_witness:
  "case sb_Raycast realOps [2, 1] rayFrom rayTo 1 demoBackend of
      None \<Rightarrow> \<forall>e \<in> ran (map_of demoBackend). rayHitOf realOps rayFrom rayTo 1 e = None
    | Some h \<Rightarrow> (\<exists>e \<in> ran (map_of demoBackend). rayHitOf realOps rayFrom rayTo 1 e = Some h)
        \<and> (\<forall>e \<in> ran (map_of demoBackend). \<forall>h'. rayHitOf realOps rayFrom rayTo 1 e = Some h' \<longrightarrow> rh_Fraction h \<le> rh_Fraction h')"
  by (rule raycast_nearest [OF demoBackend_order(2)])

text \<open>A segment through a box, one that leaves a sphere behind, and a short one inside a sphere.\<close>

theorem ray_shape_exact_witness:
  "answersFirst rayFrom rayTo (AABB3 2 2 2) \<lparr>v3_X = 15, v3_Y = 0, v3_Z = 0\<rparr>
     (raycastShape realOps rayFrom rayTo (AABB3 2 2 2) \<lparr>v3_X = 15, v3_Y = 0, v3_Z = 0\<rparr>)
   \<and> map_option fst (raycastShape realOps rayFrom rayTo (Sphere3 1) \<lparr>v3_X = 0, v3_Y = 0, v3_Z = 0\<rparr>) = Some 0
   \<and> (let to = rayFrom\<lparr>v3_X := v3_X rayFrom + 1 / 10 ^ 5\<rparr>
      in raycastShape realOps rayFrom to (Sphere3 1) rayFrom = None
         \<and> insideShape (Sphere3 1) rayFrom (segmentPoint rayFrom to 0))"
proof -
  let ?to = "rayFrom\<lparr>v3_X := v3_X rayFrom + 1 / 10 ^ 5\<rparr>"
  have ok: "shapeOK (AABB3 2 2 2)" "shapeOK (Sphere3 1)" by (simp_all add: shapeOK_def)
  have p: "axesPlain rayFrom rayTo" "\<not> segmentLength2 rayFrom rayTo \<le> 1 / 10 ^ 9" "segmentLength2 rayFrom ?to \<le> 1 / 10 ^ 9"
    by (simp_all add: axesPlain_def segmentLength2_def rayFrom_def rayTo_def v3dot_def v3sub_def Let_def power2_eq_square)
  have i: "insideShape (Sphere3 1) rayFrom (segmentPoint rayFrom ?to 0)"
    by (simp add: sphere_quadratic v3dot_def v3sub_def)
  show ?thesis
    unfolding Let_def
    using ray_shape_exact [OF ok(1), of rayFrom rayTo "\<lparr>v3_X = 15, v3_Y = 0, v3_Z = 0\<rparr>"]
      ray_shape_exact [OF ok(2), of rayFrom rayTo "\<lparr>v3_X = 0, v3_Y = 0, v3_Z = 0\<rparr>"]
      ray_shape_exact [OF ok(2), of rayFrom ?to rayFrom] p i demoRay(2)
    by simp
qed

theorem ray_hits_behind_witness:
  "\<exists>h. sb_Raycast realOps [1, 2] rayFrom rayTo 1 demoBackend = Some h \<and> rh_Fraction h \<le> 0"
  using ray_hits_behind [OF demoBackend_order(1), of 1 _ 1 1 rayFrom rayTo] demoRay by (simp add: demoBackend_def)

text \<open>Two circles on the ray, the farther one visited first.\<close>

definition demoResolv :: "real ResolvBackend" where
  "demoResolv =
     [(1, \<lparr>en_id = 1, en_shape = AABB2 2 2, en_layer = 1, en_mask = 1, en_trigger = False, en_pos = \<lparr>v2_X = 50, v2_Y = 0\<rparr>\<rparr>),
      (2, \<lparr>en_id = 2, en_shape = AABB2 2 2, en_layer = 1, en_mask = 1, en_trigger = False, en_pos = \<lparr>v2_X = 10, v2_Y = 0\<rparr>\<rparr>)]"


theorem contacts_order_independent_witness:
  "mset (map contactView (sb_Step realOps [1, 2] demoBackend)) = mset (map contactView (sb_Step realOps [2, 1] demoBackend))"
proof -
  have "symmetricOps realOps" by (simp add: symmetricOps_def algebra_simps abs_minus_commute)
  then show ?thesis
    using contacts_order_independent [OF _ demoBackend_order, of realOps] by (auto simp: demoBackend_def)
qed

end
