(* ===== verification/Collision_Layers.thy ===== *)
theory Collision_Layers
  imports Collision_Backends
begin

text \<open>
  Named collision layers (\<^verbatim>\<open>golem/collision/layers.go\<close>; \<^verbatim>\<open>golem/collision3d/layers.go\<close> is the same code
  over the other shapes): names get bit positions, a matrix says which layers collide, and shapes are
  registered under a name.  A panic is a value; the receiver keeps what was done before it.
\<close>

unbundle bit_operations_syntax

section \<open>Layers\<close>

text \<open>The methods of a \<^verbatim>\<open>Backend\<close> that \<^verbatim>\<open>Layers\<close> calls, and those of the two back ends of the repository.\<close>

record ('s, 'b) backendOps =
  bo_Add :: "int64 \<Rightarrow> 's option \<Rightarrow> u32 \<Rightarrow> u32 \<Rightarrow> bool \<Rightarrow> 'b \<Rightarrow> 'b"
  bo_Set :: "int64 \<Rightarrow> 's option \<Rightarrow> u32 \<Rightarrow> u32 \<Rightarrow> bool \<Rightarrow> 'b \<Rightarrow> 'b"
  bo_Remove :: "int64 \<Rightarrow> 'b \<Rightarrow> 'b"

definition simpleOps :: "'f geops \<Rightarrow> ('f shape3, 'f SimpleBackend) backendOps" where
  "simpleOps G = \<lparr>bo_Add = sb_Add G, bo_Set = sb_Set, bo_Remove = sb_Remove\<rparr>"

definition resolvOps :: "'f geops \<Rightarrow> ('f shape2, 'f ResolvBackend) backendOps" where
  "resolvOps G = \<lparr>bo_Add = rb_Add G, bo_Set = rb_Set G, bo_Remove = sb_Remove\<rparr>"

record 'b Layers =
  lay_indices :: "(string, nat) gomap"
  lay_matrix :: "u32 list"
  lay_backend :: "'b option"

datatype layersPanic =
    alreadyDefined string
  | tooManyLayers
  | notDefined string
  | noBackend

text \<open>\<^verbatim>\<open>1 << idx\<close>\<close>

definition shl1 :: "nat \<Rightarrow> u32" where
  "shl1 idx = push_bit idx 1"

definition NewLayers :: "'b Layers" where
  "NewLayers = \<lparr>lay_indices = [], lay_matrix = replicate 32 0, lay_backend = None\<rparr>"

definition BindBackend :: "'b \<Rightarrow> 'b Layers \<Rightarrow> 'b Layers" where
  "BindBackend b l = l\<lparr>lay_backend := Some b\<rparr>"

fun Define :: "string list \<Rightarrow> 'b Layers \<Rightarrow> layersPanic option \<times> 'b Layers" where
  "Define [] l = (None, l)"
| "Define (name # names) l =
     (if name \<in> gm_keys (lay_indices l) then (Some (alreadyDefined name), l)
      else let idx = gm_len (lay_indices l)
           in if idx \<ge> 32 then (Some tooManyLayers, l)
              else Define names (l\<lparr>lay_indices := AList.update name idx (lay_indices l)\<rparr>))"

definition mustIndex :: "'b Layers \<Rightarrow> string \<Rightarrow> layersPanic + nat" where
  "mustIndex l name = (case map_of (lay_indices l) name of None \<Rightarrow> Inl (notDefined name) | Some idx \<Rightarrow> Inr idx)"

definition mustBackend :: "'b Layers \<Rightarrow> layersPanic + 'b" where
  "mustBackend l = (case lay_backend l of None \<Rightarrow> Inl noBackend | Some b \<Rightarrow> Inr b)"

definition SetCollides :: "string \<Rightarrow> string \<Rightarrow> 'b Layers \<Rightarrow> layersPanic option \<times> 'b Layers" where
  "SetCollides a b l =
     (case res_bind (mustIndex l a) (\<lambda>ai. res_bind (mustIndex l b) (\<lambda>bi. Inr (ai, bi))) of
        Inl p \<Rightarrow> (Some p, l)
      | Inr (ai, bi) \<Rightarrow>
          (let m = lay_matrix l;
               m = m[ai := m ! ai OR shl1 bi];
               m = m[bi := m ! bi OR shl1 ai]
           in (None, l\<lparr>lay_matrix := m\<rparr>)))"

definition LayerBit :: "'b Layers \<Rightarrow> string \<Rightarrow> layersPanic + u32" where
  "LayerBit l name = res_bind (mustIndex l name) (\<lambda>idx. Inr (shl1 idx))"

definition LayerMask :: "'b Layers \<Rightarrow> string \<Rightarrow> layersPanic + u32" where
  "LayerMask l name = res_bind (mustIndex l name) (\<lambda>idx. Inr (lay_matrix l ! idx))"

text \<open>The receiver may be nil.\<close>

definition LookupLayer :: "'b Layers option \<Rightarrow> string \<Rightarrow> (u32 \<times> u32) option" where
  "LookupLayer lo name =
     (case lo of
        None \<Rightarrow> None
      | Some l \<Rightarrow> map_option (\<lambda>idx. (shl1 idx, lay_matrix l ! idx)) (map_of (lay_indices l) name))"

fun maskForLoop :: "'b Layers \<Rightarrow> string list \<Rightarrow> u32 \<Rightarrow> layersPanic + u32" where
  "maskForLoop l [] out = Inr out"
| "maskForLoop l (name # names) out = res_bind (mustIndex l name) (\<lambda>idx. maskForLoop l names (out OR shl1 idx))"

definition MaskFor :: "'b Layers \<Rightarrow> string list \<Rightarrow> layersPanic + u32" where
  "MaskFor l names = maskForLoop l names 0"

text \<open>The steps before the call of the back end, in order: it is bound, then the name is looked up.\<close>

definition withLayer ::
  "(u32 \<Rightarrow> u32 \<Rightarrow> 'b \<Rightarrow> 'b) \<Rightarrow> string \<Rightarrow> 'b Layers \<Rightarrow> layersPanic option \<times> 'b Layers" where
  "withLayer call layerName l =
     (case res_bind (mustBackend l) (\<lambda>b. res_bind (LayerBit l layerName) (\<lambda>bt. res_bind (LayerMask l layerName) (\<lambda>m.
        Inr (call bt m b)))) of
        Inl p \<Rightarrow> (Some p, l)
      | Inr b \<Rightarrow> (None, l\<lparr>lay_backend := Some b\<rparr>))"

definition lay_Add :: "('s, 'b) backendOps \<Rightarrow> int64 \<Rightarrow> 's option \<Rightarrow> string \<Rightarrow> bool \<Rightarrow> 'b Layers \<Rightarrow> layersPanic option \<times> 'b Layers" where
  "lay_Add ops entityID shape layerName trigger l =
     withLayer (\<lambda>layer msk. bo_Add ops entityID shape layer msk trigger) layerName l"

definition lay_Set :: "('s, 'b) backendOps \<Rightarrow> int64 \<Rightarrow> 's option \<Rightarrow> string \<Rightarrow> bool \<Rightarrow> 'b Layers \<Rightarrow> layersPanic option \<times> 'b Layers" where
  "lay_Set ops entityID shape layerName trigger l =
     withLayer (\<lambda>layer msk. bo_Set ops entityID shape layer msk trigger) layerName l"

definition lay_Remove :: "('s, 'b) backendOps \<Rightarrow> int64 \<Rightarrow> 'b Layers \<Rightarrow> layersPanic option \<times> 'b Layers" where
  "lay_Remove ops entityID l =
     (case mustBackend l of
        Inl p \<Rightarrow> (Some p, l)
      | Inr b \<Rightarrow> (None, l\<lparr>lay_backend := Some (bo_Remove ops entityID b)\<rparr>))"

section \<open>The relation of layers\<close>

lemma shl1_bit: "i < 32 \<Longrightarrow> bit (shl1 i) j \<longleftrightarrow> j = i"
  by (auto simp: shl1_def bit_exp_iff)

lemma shl1_inj: "i < 32 \<Longrightarrow> j < 32 \<Longrightarrow> shl1 i = shl1 j \<longleftrightarrow> i = j"
  by (metis shl1_bit)

lemma shl1_and: assumes "i < 32" shows "shl1 i AND x = 0 \<longleftrightarrow> \<not> bit x i"
proof
  assume "shl1 i AND x = 0"
  then have "\<not> bit (shl1 i AND x) i" by simp
  then show "\<not> bit x i" using assms by (simp add: bit_and_iff shl1_bit)
next
  assume "\<not> bit x i"
  then show "shl1 i AND x = 0" using assms by (intro bit_word_eqI) (auto simp: bit_and_iff shl1_bit)
qed

text \<open>
  What \<open>Define\<close> and \<open>SetCollides\<close> mean: the matrix is a symmetric relation \<open>R\<close> on the names, spread
  over the bits.
\<close>

definition layersInv :: "'b Layers \<Rightarrow> (string \<times> string) set \<Rightarrow> bool" where
  "layersInv l R \<longleftrightarrow>
     gm_wf (lay_indices l) \<and> gm_len (lay_indices l) \<le> 32 \<and> length (lay_matrix l) = 32
     \<and> (\<forall>n i. map_of (lay_indices l) n = Some i \<longrightarrow> i < gm_len (lay_indices l))
     \<and> (\<forall>n m i. map_of (lay_indices l) n = Some i \<longrightarrow> map_of (lay_indices l) m = Some i \<longrightarrow> n = m)
     \<and> (\<forall>n m i j. map_of (lay_indices l) n = Some i \<longrightarrow> map_of (lay_indices l) m = Some j \<longrightarrow>
          bit (lay_matrix l ! i) j = ((n, m) \<in> R))
     \<and> (\<forall>i < 32. \<forall>j. gm_len (lay_indices l) \<le> i \<or> gm_len (lay_indices l) \<le> j \<longrightarrow> \<not> bit (lay_matrix l ! i) j)
     \<and> R \<subseteq> gm_keys (lay_indices l) \<times> gm_keys (lay_indices l) \<and> sym R"

lemma layersInvD:
  assumes "layersInv l R"
  shows "map_of (lay_indices l) n = Some i \<Longrightarrow> i < gm_len (lay_indices l)"
    and "map_of (lay_indices l) n = Some i \<Longrightarrow> i < 32"
    and "map_of (lay_indices l) n = Some i \<Longrightarrow> map_of (lay_indices l) m = Some i \<Longrightarrow> n = m"
    and "map_of (lay_indices l) n = Some i \<Longrightarrow> map_of (lay_indices l) m = Some j \<Longrightarrow> bit (lay_matrix l ! i) j = ((n, m) \<in> R)"
    and "i < 32 \<Longrightarrow> gm_len (lay_indices l) \<le> i \<or> gm_len (lay_indices l) \<le> j \<Longrightarrow> \<not> bit (lay_matrix l ! i) j"
    and "length (lay_matrix l) = 32" "gm_len (lay_indices l) \<le> 32" "sym R"
    and "R \<subseteq> gm_keys (lay_indices l) \<times> gm_keys (lay_indices l)" "gm_wf (lay_indices l)"
proof -
  show a: "map_of (lay_indices l) n = Some i \<Longrightarrow> i < gm_len (lay_indices l)" and "gm_len (lay_indices l) \<le> 32" for n i
    using assms unfolding layersInv_def by blast+
  then show "map_of (lay_indices l) n = Some i \<Longrightarrow> i < 32" by (meson order_less_le_trans)
qed (use assms in \<open>unfold layersInv_def, blast+\<close>)

lemma layersInv_new: "layersInv NewLayers {}"
  by (simp add: layersInv_def NewLayers_def gm_len_def sym_def)

lemma layersInv_bind: "layersInv l R \<Longrightarrow> layersInv (l\<lparr>lay_backend := b\<rparr>) R"
  by (simp add: layersInv_def)

lemma gm_len_update_new: "k \<notin> gm_keys m \<Longrightarrow> gm_len (AList.update k v m) = Suc (gm_len m)"
  by (induction m) (auto simp: gm_len_def gm_keys_def)

lemma layersInv_define1:
  assumes I: "layersInv l R" and n: "name \<notin> gm_keys (lay_indices l)" and len: "gm_len (lay_indices l) < 32"
  shows "layersInv (l\<lparr>lay_indices := AList.update name (gm_len (lay_indices l)) (lay_indices l)\<rparr>) R"
proof -
  let ?k = "gm_len (lay_indices l)"
  have R: "(name, m) \<notin> R" "(m, name) \<notin> R" for m using I n by (auto simp: layersInv_def)
  have lt: "i < ?k" if "map_of (lay_indices l) m = Some i" for m i using I that by (simp add: layersInv_def)
  have old: "bit (lay_matrix l ! i) j = ((m, m') \<in> R)"
    if "map_of (lay_indices l) m = Some i" "map_of (lay_indices l) m' = Some j" for m m' i j
    using I that by (simp add: layersInv_def)
  have zero: "\<not> bit (lay_matrix l ! i) j" if "i < 32" "?k \<le> i \<or> ?k \<le> j" for i j
    using I that unfolding layersInv_def by blast
  have bits: "bit (lay_matrix l ! i) j = ((m, m') \<in> R)"
    if "((map_of (lay_indices l))(name \<mapsto> ?k)) m = Some i" "((map_of (lay_indices l))(name \<mapsto> ?k)) m' = Some j" for m m' i j
  proof (cases "m = name \<or> m' = name")
    case True
    then have "i = ?k \<or> j = ?k" "i < 32" using that lt [of m i] len by (auto split: if_splits)
    then show ?thesis using True R zero by auto
  next
    case False
    then show ?thesis using that old by simp
  qed
  have inj: "m = m'" if "((map_of (lay_indices l))(name \<mapsto> ?k)) m = Some i" "((map_of (lay_indices l))(name \<mapsto> ?k)) m' = Some i" for m m' i
    using that lt [of m i] lt [of m' i] I unfolding layersInv_def by (auto split: if_splits)
  have range: "i < Suc ?k" if "((map_of (lay_indices l))(name \<mapsto> ?k)) m = Some i" for m i
    using that lt [of m i] by (auto split: if_splits)
  have rest: "gm_wf (lay_indices l)" "length (lay_matrix l) = 32" "R \<subseteq> gm_keys (lay_indices l) \<times> gm_keys (lay_indices l)" "sym R"
    using I by (simp_all add: layersInv_def)
  have zero': "\<not> bit (lay_matrix l ! i) j" if "i < 32" "Suc ?k \<le> i \<or> Suc ?k \<le> j" for i j
    using zero [of i j] that by linarith
  show ?thesis
    unfolding layersInv_def
  proof (intro conjI allI impI, goal_cases)
    case 4 then show ?case using range by (simp add: gm_len_update_new [OF n])
  next
    case 5 then show ?case using inj by (simp del: fun_upd_apply)
  next
    case 6 then show ?case using bits by (simp del: fun_upd_apply)
  next
    case 7 then show ?case using zero' by (simp add: gm_len_update_new [OF n])
  qed (use rest len in \<open>auto simp: gm_len_update_new [OF n]\<close>)
qed

lemma Define_ok:
  assumes "layersInv l R"
  shows "layersInv (snd (Define names l)) R"
  using assms
proof (induction names l rule: Define.induct)
  case (2 name names l)
  show ?case
  proof (cases "name \<in> gm_keys (lay_indices l) \<or> gm_len (lay_indices l) \<ge> 32")
    case True
    then show ?thesis using 2(2) by (auto simp: Let_def)
  next
    case False
    then show ?thesis using 2(1) [OF _ refl _ layersInv_define1 [OF 2(2)]] by (simp add: Let_def)
  qed
qed simp

lemma SetCollides_ok:
  assumes I: "layersInv l R" and s: "SetCollides a b l = (None, l')"
  shows "layersInv l' (R \<union> {(a, b), (b, a)})"
proof -
  obtain ai bi where ab: "map_of (lay_indices l) a = Some ai" "map_of (lay_indices l) b = Some bi"
    using s by (auto simp: SetCollides_def mustIndex_def split: option.splits)
  have l': "l' = l\<lparr>lay_matrix := (lay_matrix l)[ai := lay_matrix l ! ai OR shl1 bi,
      bi := (lay_matrix l)[ai := lay_matrix l ! ai OR shl1 bi] ! bi OR shl1 ai]\<rparr>"
    using s ab by (simp add: SetCollides_def mustIndex_def Let_def)
  note D = layersInvD [OF I]
  have lt: "ai < gm_len (lay_indices l)" "bi < gm_len (lay_indices l)" "gm_len (lay_indices l) \<le> 32" "length (lay_matrix l) = 32"
    using ab D by blast+
  have row: "bit (lay_matrix l' ! i) j \<longleftrightarrow> bit (lay_matrix l ! i) j \<or> (i = ai \<and> j = bi) \<or> (i = bi \<and> j = ai)" if "i < 32" for i j
    using lt that by (auto simp: l' nth_list_update bit_or_iff shl1_bit)
  have idx: "(i = k) = (n = c)" if "map_of (lay_indices l) n = Some i" "map_of (lay_indices l) c = Some k" for n c i k
    using that D(3) [of n k c] by auto
  have same: "lay_indices l' = lay_indices l" "length (lay_matrix l') = 32" using lt by (simp_all add: l')
  have bits: "bit (lay_matrix l' ! i) j = ((n, m) \<in> R \<union> {(a, b), (b, a)})"
    if "map_of (lay_indices l) n = Some i" "map_of (lay_indices l) m = Some j" for n m i j
  proof -
    have "i < 32" using D(2) that by blast
    moreover have "bit (lay_matrix l ! i) j = ((n, m) \<in> R)" using D(4) that by blast
    moreover have "(i = ai) = (n = a)" "(i = bi) = (n = b)" "(j = ai) = (m = a)" "(j = bi) = (m = b)"
      using idx that ab by blast+
    ultimately show ?thesis by (auto simp: row)
  qed
  have zero: "\<not> bit (lay_matrix l' ! i) j" if "i < 32" "gm_len (lay_indices l) \<le> i \<or> gm_len (lay_indices l) \<le> j" for i j
    using D(5) [OF that] that lt row [OF that(1), of j] by auto
  have keys: "a \<in> gm_keys (lay_indices l)" "b \<in> gm_keys (lay_indices l)" using ab by (auto simp: gm_keys_Some)
  show ?thesis
    unfolding layersInv_def same
  proof (intro conjI allI impI, goal_cases)
    case 6 then show ?case using bits by blast
  next
    case 7 then show ?case using zero by blast
  next
    case 5 then show ?case using D(3) by blast
  next
    case 9 then show ?case using D(8) by (auto simp: sym_def)
  qed (use D keys in blast)+
qed

section \<open>Masks of queries\<close>

lemma maskForLoop_spec:
  assumes "layersInv l R" and "set names \<subseteq> gm_keys (lay_indices l)"
  shows "\<exists>m. maskForLoop l names out = Inr m \<and>
    (\<forall>n i. map_of (lay_indices l) n = Some i \<longrightarrow> bit m i = (bit out i \<or> n \<in> set names))"
  using assms(2)
proof (induction names arbitrary: out)
  case (Cons name names)
  then obtain k where k: "map_of (lay_indices l) name = Some k" by (auto simp: gm_keys_Some)
  then have k32: "k < 32" using layersInvD(2) [OF assms(1)] by blast
  obtain m where m: "maskForLoop l names (out OR shl1 k) = Inr m"
    "\<forall>n i. map_of (lay_indices l) n = Some i \<longrightarrow> bit m i = (bit (out OR shl1 k) i \<or> n \<in> set names)"
    using Cons.IH [of "out OR shl1 k"] Cons.prems by auto
  have "(i = k) = (n = name)" if "map_of (lay_indices l) n = Some i" for n i
    using layersInvD(3) [OF assms(1), of n i name] k that by auto
  then show ?case using m k k32 by (auto simp: mustIndex_def bit_or_iff shl1_bit)
qed simp

text \<open>\<open>Define\<close> succeeds exactly for new names that fit.\<close>

lemma Define_succeeds:
  "fst (Define names l) = None \<longleftrightarrow>
     distinct names \<and> set names \<inter> gm_keys (lay_indices l) = {} \<and> (names = [] \<or> gm_len (lay_indices l) + length names \<le> 32)"
proof (induction names l rule: Define.induct)
  case (2 name names l)
  show ?case
  proof (cases "name \<in> gm_keys (lay_indices l) \<or> gm_len (lay_indices l) \<ge> 32")
    case True
    then show ?thesis by (auto simp: Let_def)
  next
    case False
    then show ?thesis using 2(1) [OF _ refl] by (auto simp: Let_def gm_len_update_new)
  qed
qed simp

section \<open>Registered shapes\<close>

text \<open>What \<open>Layers\<close> relies on: a back end keeps the layer and mask it was given, and invents none.\<close>

locale registering_backend =
  fixes ops :: "('s, ('s, 'p) backend) backendOps"
  assumes added: "map_of (bo_Add ops i sh ly mk tr b) j = Some e \<Longrightarrow> map_of b j = Some e \<or> en_layer e = ly \<and> en_mask e = mk"
    and reset: "map_of (bo_Set ops i sh ly mk tr b) j = Some e \<Longrightarrow> map_of b j = Some e \<or> en_layer e = ly \<and> en_mask e = mk"
    and removed: "map_of (bo_Remove ops i b) j = Some e \<Longrightarrow> map_of b j = Some e"

text \<open>The mask of a shape is a part of its layer's row: rows only grow after it was registered.\<close>

definition onLayer :: "'b Layers \<Rightarrow> ('s, 'p) entry \<Rightarrow> string \<Rightarrow> bool" where
  "onLayer l e name \<longleftrightarrow>
     (\<exists>i. map_of (lay_indices l) name = Some i \<and> en_layer e = shl1 i \<and> (\<forall>j. bit (en_mask e) j \<longrightarrow> bit (lay_matrix l ! i) j))"

definition shapesOK :: "('s, 'p) backend Layers \<Rightarrow> bool" where
  "shapesOK l \<longleftrightarrow> (\<forall>b j e. lay_backend l = Some b \<longrightarrow> map_of b j = Some e \<longrightarrow> (\<exists>name. onLayer l e name))"

inductive layersReach ::
  "('s, ('s, 'p) backend) backendOps \<Rightarrow> ('s, 'p) backend Layers \<Rightarrow> (string \<times> string) set \<Rightarrow> bool" for ops where
  new: "layersReach ops NewLayers {}"
| bind: "layersReach ops l R \<Longrightarrow> layersReach ops (BindBackend [] l) R"
| named: "layersReach ops l R \<Longrightarrow> layersReach ops (snd (Define names l)) R"
| collides: "layersReach ops l R \<Longrightarrow> SetCollides a b l = (None, l') \<Longrightarrow> layersReach ops l' (R \<union> {(a, b), (b, a)})"
| add: "layersReach ops l R \<Longrightarrow> layersReach ops (snd (lay_Add ops i sh name trigger l)) R"
| set: "layersReach ops l R \<Longrightarrow> layersReach ops (snd (lay_Set ops i sh name trigger l)) R"
| remove: "layersReach ops l R \<Longrightarrow> layersReach ops (snd (lay_Remove ops i l)) R"
| update: "layersReach ops l R \<Longrightarrow> lay_backend l = Some b \<Longrightarrow> layersReach ops (l\<lparr>lay_backend := Some (sb_Update i p b)\<rparr>) R"

lemma withLayer_cases:
  obtains p where "withLayer call name l = (Some p, l)"
  | b i where "lay_backend l = Some b" "map_of (lay_indices l) name = Some i"
      "withLayer call name l = (None, l\<lparr>lay_backend := Some (call (shl1 i) (lay_matrix l ! i) b)\<rparr>)"
  unfolding withLayer_def mustBackend_def LayerBit_def LayerMask_def mustIndex_def by (fastforce split: option.splits)

lemma layersReach_inv: "layersReach ops l R \<Longrightarrow> layersInv l R"
proof (induction rule: layersReach.induct)
  case (add l R i sh name trigger)
  then show ?case unfolding lay_Add_def
    by (rule_tac withLayer_cases [of "\<lambda>ly mk. bo_Add ops i sh ly mk trigger" name l]) (auto intro: layersInv_bind)
next
  case (set l R i sh name trigger)
  then show ?case unfolding lay_Set_def
    by (rule_tac withLayer_cases [of "\<lambda>ly mk. bo_Set ops i sh ly mk trigger" name l]) (auto intro: layersInv_bind)
next
  case (remove l R i)
  then show ?case by (auto simp: lay_Remove_def intro: layersInv_bind split: sum.splits)
next
  case (collides l R a b l')
  then show ?case by (blast intro: SetCollides_ok)
qed (auto simp: BindBackend_def intro: layersInv_new layersInv_bind Define_ok)

lemma onLayer_mono:
  assumes "onLayer l e name" and "\<And>n i. map_of (lay_indices l) n = Some i \<Longrightarrow> map_of (lay_indices l') n = Some i"
    and "\<And>i j. map_of (lay_indices l) name = Some i \<Longrightarrow> bit (lay_matrix l ! i) j \<Longrightarrow> bit (lay_matrix l' ! i) j"
  shows "onLayer l' e name"
  using assms unfolding onLayer_def by blast

lemma Define_grows: "map_of (lay_indices l) n = Some i \<Longrightarrow> map_of (lay_indices (snd (Define names l))) n = Some i"
proof (induction names l rule: Define.induct)
  case (2 name names l)
  then show ?case by (cases "n = name") (auto simp: Let_def gm_keys_Some)
qed simp

lemma Define_rest: "lay_matrix (snd (Define names l)) = lay_matrix l \<and> lay_backend (snd (Define names l)) = lay_backend l"
  by (induction names l rule: Define.induct) (auto simp: Let_def)

lemma SetCollides_grows:
  assumes "SetCollides a b l = (None, l')" and "length (lay_matrix l) = 32" "i < 32" "bit (lay_matrix l ! i) j"
  shows "bit (lay_matrix l' ! i) j"
proof -
  obtain ai bi where "l' = l\<lparr>lay_matrix := (lay_matrix l)[ai := lay_matrix l ! ai OR shl1 bi,
      bi := (lay_matrix l)[ai := lay_matrix l ! ai OR shl1 bi] ! bi OR shl1 ai]\<rparr>"
    using assms(1) by (auto simp: SetCollides_def Let_def split: sum.splits)
  then show ?thesis using assms(2-4) by (cases "i = bi"; cases "i = ai"; cases "ai = bi") (auto simp: nth_list_update bit_or_iff)
qed

lemma SetCollides_rest: "SetCollides a b l = (None, l') \<Longrightarrow> lay_indices l' = lay_indices l \<and> lay_backend l' = lay_backend l"
  by (auto simp: SetCollides_def Let_def split: sum.splits)

lemma withLayer_shapes:
  assumes ok: "shapesOK l"
    and call: "\<And>ly mk b j e. map_of (call ly mk b) j = Some e \<Longrightarrow> map_of b j = Some e \<or> en_layer e = ly \<and> en_mask e = mk"
  shows "shapesOK (snd (withLayer call name l))"
proof (rule withLayer_cases [of call name l])
  fix p assume "withLayer call name l = (Some p, l)"
  then show ?thesis using ok by simp
next
  fix b i assume h: "lay_backend l = Some b" "map_of (lay_indices l) name = Some i"
    "withLayer call name l = (None, l\<lparr>lay_backend := Some (call (shl1 i) (lay_matrix l ! i) b)\<rparr>)"
  have "\<exists>n. onLayer l e n" if "map_of (call (shl1 i) (lay_matrix l ! i) b) j = Some e" for j e
    using call [OF that] ok h(1,2) unfolding shapesOK_def onLayer_def by metis
  then show ?thesis using h(3) by (simp add: shapesOK_def onLayer_def)
qed

context registering_backend
begin

lemma shapes_registered: "layersReach ops l R \<Longrightarrow> shapesOK l"
proof (induction rule: layersReach.induct)
  case (named l R names)
  have "onLayer (snd (Define names l)) e n" if "onLayer l e n" for e :: "('s, 'p) entry" and n
    using that by (rule onLayer_mono) (simp_all add: Define_grows Define_rest)
  then show ?case using named.IH Define_rest [of names l] unfolding shapesOK_def by metis
next
  case (collides l R a b l')
  have I: "layersInv l R" using layersReach_inv [OF collides.hyps(1)] .
  have "onLayer l' e n" if "onLayer l e n" for e :: "('s, 'p) entry" and n
    using that
  proof (rule onLayer_mono)
    show "bit (lay_matrix l' ! i) j" if "map_of (lay_indices l) n = Some i" "bit (lay_matrix l ! i) j" for i j
      using SetCollides_grows [OF collides.hyps(2) layersInvD(6) [OF I] layersInvD(2) [OF I that(1)] that(2)] .
  qed (simp add: SetCollides_rest [OF collides.hyps(2)])
  then show ?case using collides.IH SetCollides_rest [OF collides.hyps(2)] unfolding shapesOK_def by metis
next
  case (add l R i sh name trigger)
  show ?case unfolding lay_Add_def by (rule withLayer_shapes [OF add.IH added])
next
  case (set l R i sh name trigger)
  show ?case unfolding lay_Set_def by (rule withLayer_shapes [OF set.IH reset])
next
  case (remove l R i)
  show ?case
  proof (cases "lay_backend l")
    case (Some b)
    have "\<exists>n. onLayer l e n" if "map_of (bo_Remove ops i b) j = Some e" for j e
      using removed [OF that] remove.IH Some unfolding shapesOK_def by blast
    then show ?thesis using Some by (simp add: lay_Remove_def mustBackend_def shapesOK_def onLayer_def)
  qed (use remove.IH in \<open>simp add: lay_Remove_def mustBackend_def\<close>)
next
  case (update l R b i p)
  have "\<exists>n. onLayer l e n" if upd: "map_of (sb_Update i p b) j = Some e" for j e
  proof -
    obtain e0 where "map_of b j = Some e0" "en_layer e = en_layer e0" "en_mask e = en_mask e0"
      using upd by (cases "map_of b i"; cases "j = i") (auto simp: sb_Update_def)
    then show ?thesis using update.IH update.hyps(2) by (simp add: shapesOK_def onLayer_def)
  qed
  then show ?case by (simp add: shapesOK_def onLayer_def)
qed (simp_all add: shapesOK_def NewLayers_def BindBackend_def)

text \<open>Two shapes whose masks admit each other are on layers that collide.\<close>

lemma masks_admit:
  assumes "layersReach ops l R" and "lay_backend l = Some b" and "map_of b i = Some e" "map_of b j = Some e'"
    and "(en_layer e AND en_mask e') \<noteq> 0"
  shows "\<exists>x y. onLayer l e x \<and> onLayer l e' y \<and> (x, y) \<in> R \<and> (y, x) \<in> R"
proof -
  note I = layersReach_inv [OF assms(1)]
  obtain x y where on: "onLayer l e x" "onLayer l e' y" using shapes_registered [OF assms(1)] assms(2-4) unfolding shapesOK_def by metis
  obtain ix iy where ix: "map_of (lay_indices l) x = Some ix" "en_layer e = shl1 ix"
    and iy: "map_of (lay_indices l) y = Some iy" "\<And>k. bit (en_mask e') k \<Longrightarrow> bit (lay_matrix l ! iy) k"
    using on unfolding onLayer_def by metis
  have "bit (en_mask e') ix" using assms(5) ix shl1_and [OF layersInvD(2) [OF I ix(1)]] by simp
  then have "(y, x) \<in> R" using layersInvD(4) [OF I iy(1) ix(1)] iy(2) by blast
  then show ?thesis using on layersInvD(8) [OF I] unfolding sym_def by blast
qed

end

interpretation simpleReg: registering_backend "simpleOps G" for G
  by unfold_locales (auto simp: simpleOps_def sb_Add_def sb_Set_def sb_Remove_def split: option.splits if_splits)

interpretation rsvReg: registering_backend "resolvOps G" for G
  by unfold_locales (auto simp: resolvOps_def rb_Add_def rb_Set_def sb_Update_def sb_Remove_def split: option.splits if_splits)

lemma stepPairs_from: "c \<in> set (stepPairs f es) \<Longrightarrow> \<exists>e \<in> set es. \<exists>e' \<in> set es. f e e' = Some c"
  by (induction es) (auto simp: in_map_filter)

section \<open>Properties\<close>

text \<open>
  C34.  The bits mean the relation: after any sequence of operations, for two defined names the bit of
  one is in the mask of the other exactly when \<open>SetCollides\<close> was called for the pair, in either order;
  different names have disjoint bits; and a query mask built from defined names selects exactly the
  layers named.
\<close>

theorem layers_relation:
  assumes "layersReach ops l R" and "LookupLayer (Some l) x = Some (lx, mx)" and "LookupLayer (Some l) y = Some (ly, my)"
    and "\<forall>n \<in> set names. LookupLayer (Some l) n \<noteq> None"
  shows "((lx AND my) \<noteq> 0) = ((x, y) \<in> R) \<and> ((ly AND mx) \<noteq> 0) = ((x, y) \<in> R) \<and> ((lx AND ly) \<noteq> 0) = (x = y)
    \<and> LayerBit l x = Inr lx \<and> LayerMask l x = Inr mx
    \<and> (\<exists>m. MaskFor l names = Inr m \<and> ((lx AND m) \<noteq> 0) = (x \<in> set names))"
proof -
  note I = layersReach_inv [OF assms(1)]
  obtain i j where i: "map_of (lay_indices l) x = Some i" "lx = shl1 i" "mx = lay_matrix l ! i"
    and j: "map_of (lay_indices l) y = Some j" "ly = shl1 j" "my = lay_matrix l ! j"
    using assms(2,3) by (auto simp: LookupLayer_def)
  have b: "bit (lay_matrix l ! j) i = ((x, y) \<in> R)" "bit (lay_matrix l ! i) j = ((x, y) \<in> R)"
    using layersInvD(4) [OF I j(1) i(1)] layersInvD(4) [OF I i(1) j(1)] layersInvD(8) [OF I] by (auto simp: sym_def)
  have eq: "(i = j) = (x = y)" using layersInvD(3) [OF I i(1), of y] i(1) j(1) by auto
  have lt: "i < 32" "j < 32" using layersInvD(2) [OF I] i(1) j(1) by blast+
  have "set names \<subseteq> gm_keys (lay_indices l)" using assms(4) by (auto simp: LookupLayer_def gm_keys_Some)
  then obtain m where m: "MaskFor l names = Inr m" "bit m i = (x \<in> set names)"
    using maskForLoop_spec [OF I, of names 0] i(1) unfolding MaskFor_def by fastforce
  show ?thesis
    using b eq lt m i j by (auto simp: shl1_and shl1_bit LayerBit_def LayerMask_def mustIndex_def)
qed

text \<open>
  No contact between layers that do not collide: however shapes are registered, replaced,
  moved and removed through the named layers, and whatever is defined in between, every contact either
  back end reports is between two entities on layers for which \<open>SetCollides\<close> was called.
\<close>

theorem contacts_respect_layers:
  "(layersReach (simpleOps G) l R \<longrightarrow> lay_backend l = Some b \<longrightarrow> c \<in> set (sb_Step G ks b) \<longrightarrow>
      (\<exists>i j e e' x y. map_of b i = Some e \<and> map_of b j = Some e' \<and> en_id e = ct_A c \<and> en_id e' = ct_B c
        \<and> onLayer l e x \<and> onLayer l e' y \<and> (x, y) \<in> R \<and> (y, x) \<in> R))
   \<and> (layersReach (resolvOps G) l' R' \<longrightarrow> lay_backend l' = Some b' \<longrightarrow> c' \<in> set (rb_Step G intersection ks b') \<longrightarrow>
      (\<exists>i j e e' x y. map_of b' i = Some e \<and> map_of b' j = Some e' \<and> en_id e = ct_A c' \<and> en_id e' = ct_B c'
        \<and> onLayer l' e x \<and> onLayer l' e' y \<and> (x, y) \<in> R' \<and> (y, x) \<in> R'))"
proof -
  have inMap: "\<exists>i j. map_of b i = Some e \<and> map_of b j = Some e'" if "e \<in> set (entriesIn ks b)" "e' \<in> set (entriesIn ks b)"
    for e e' :: "('s, 'p) entry" and b using that by (auto simp: entriesIn_def in_map_filter)
  show ?thesis
  proof (intro conjI impI)
    assume h: "layersReach (simpleOps G) l R" "lay_backend l = Some b" "c \<in> set (sb_Step G ks b)"
    then obtain e e' where e: "e \<in> set (entriesIn ks b)" "e' \<in> set (entriesIn ks b)" "contactOf G e e' = Some c"
      unfolding sb_Step_def by (blast dest: stepPairs_from)
    then have "(en_layer e AND en_mask e') \<noteq> 0" "en_id e = ct_A c" "en_id e' = ct_B c"
      by (auto simp: contactOf_def split: if_splits option.splits)
    then show "\<exists>i j e e' x y. map_of b i = Some e \<and> map_of b j = Some e' \<and> en_id e = ct_A c \<and> en_id e' = ct_B c
        \<and> onLayer l e x \<and> onLayer l e' y \<and> (x, y) \<in> R \<and> (y, x) \<in> R"
      using inMap [OF e(1,2)] simpleReg.masks_admit [OF h(1,2)] by metis
  next
    assume h: "layersReach (resolvOps G) l' R'" "lay_backend l' = Some b'" "c' \<in> set (rb_Step G intersection ks b')"
    then obtain e e' where e: "e \<in> set (entriesIn ks b')" "e' \<in> set (entriesIn ks b')" "rb_contactOf G intersection e e' = Some c'"
      unfolding rb_Step_def by (blast dest: stepPairs_from)
    then have "(en_layer e AND en_mask e') \<noteq> 0" "en_id e = ct_A c'" "en_id e' = ct_B c'"
      by (auto simp: rb_contactOf_def Let_def split: if_splits option.splits)
    then show "\<exists>i j e e' x y. map_of b' i = Some e \<and> map_of b' j = Some e' \<and> en_id e = ct_A c' \<and> en_id e' = ct_B c'
        \<and> onLayer l' e x \<and> onLayer l' e' y \<and> (x, y) \<in> R' \<and> (y, x) \<in> R'"
      using inMap [OF e(1,2)] rsvReg.masks_admit [OF h(1,2)] by metis
  qed
qed

section \<open>Examples\<close>

text \<open>Two layers that collide and a sphere on each, both at the origin.\<close>

definition demoDefined :: "real SimpleBackend Layers" where
  "demoDefined = snd (SetCollides ''mob'' ''wall'' (snd (Define [''mob'', ''wall''] (BindBackend [] NewLayers))))"

definition demoLayers :: "real SimpleBackend Layers" where
  "demoLayers =
     snd (lay_Add (simpleOps realOps) 2 (Some (Sphere3 1)) ''wall'' False
       (snd (lay_Add (simpleOps realOps) 1 (Some (Sphere3 1)) ''mob'' False demoDefined)))"

lemma demoDefined_eval:
  "demoDefined = \<lparr>lay_indices = [(''mob'', 0), (''wall'', 1)], lay_matrix = [2, 1] @ replicate 30 0, lay_backend = Some []\<rparr>"
  "SetCollides ''mob'' ''wall'' (snd (Define [''mob'', ''wall''] (BindBackend [] NewLayers))) = (None, demoDefined)"
  by (simp_all add: demoDefined_def NewLayers_def BindBackend_def SetCollides_def mustIndex_def shl1_def Let_def gm_len_def gm_keys_def
      eval_nat_numeral)

lemma demoLayers_reach:
  "layersReach (simpleOps realOps) demoDefined {(''mob'', ''wall''), (''wall'', ''mob'')}"
  "layersReach (simpleOps realOps) demoLayers {(''mob'', ''wall''), (''wall'', ''mob'')}"
proof -
  show r: "layersReach (simpleOps realOps) demoDefined {(''mob'', ''wall''), (''wall'', ''mob'')}"
    using layersReach.collides [OF layersReach.named [OF layersReach.bind [OF layersReach.new]] demoDefined_eval(2)] by simp
  show "layersReach (simpleOps realOps) demoLayers {(''mob'', ''wall''), (''wall'', ''mob'')}"
    unfolding demoLayers_def by (intro layersReach.add r)
qed

lemma demoLayers_eval:
  "demoLayers = demoDefined\<lparr>lay_backend := Some
     [(1, \<lparr>en_id = 1, en_shape = Sphere3 1, en_layer = 1, en_mask = 2, en_trigger = False, en_pos = v3zero realOps\<rparr>),
      (2, \<lparr>en_id = 2, en_shape = Sphere3 1, en_layer = 2, en_mask = 1, en_trigger = False, en_pos = v3zero realOps\<rparr>)]\<rparr>"
  by (simp add: demoLayers_def demoDefined_eval(1) lay_Add_def withLayer_def mustBackend_def LayerBit_def LayerMask_def mustIndex_def
      simpleOps_def sb_Add_def shl1_def)

theorem layers_relation_witness:
  "LookupLayer (Some demoDefined) ''mob'' = Some (1, 2) \<and> LookupLayer (Some demoDefined) ''wall'' = Some (2, 1)
    \<and> MaskFor demoDefined [''mob'', ''wall''] = Inr 3
    \<and> (((1 :: u32) AND 1) \<noteq> 0) = ((''mob'', ''wall'') \<in> {(''mob'', ''wall''), (''wall'', ''mob'')})"
proof -
  have l: "LookupLayer (Some demoDefined) ''mob'' = Some (1, 2)" "LookupLayer (Some demoDefined) ''wall'' = Some (2, 1)"
    by (simp_all add: demoDefined_eval(1) LookupLayer_def shl1_def)
  have "MaskFor demoDefined [''mob'', ''wall''] = Inr 3"
    by (simp add: demoDefined_eval(1) MaskFor_def mustIndex_def shl1_def)
  then show ?thesis using l layers_relation [OF demoLayers_reach(1) l, of "[''mob'', ''wall'']"] by simp
qed

theorem contacts_respect_layers_witness:
  "\<exists>c x y (e :: (real shape3, real Vec3) entry) (e' :: (real shape3, real Vec3) entry). c \<in> set (sb_Step realOps [1, 2] (the (lay_backend demoLayers))) \<and> ct_A c = 1 \<and> ct_B c = 2
     \<and> onLayer demoLayers e x \<and> onLayer demoLayers e' y \<and> (x, y) \<in> {(''mob'', ''wall''), (''wall'', ''mob'')}"
proof -
  obtain c where c: "c \<in> set (sb_Step realOps [1, 2] (the (lay_backend demoLayers)))" "ct_A c = 1" "ct_B c = 2"
    by (auto simp: demoLayers_eval sb_Step_def entriesIn_def map_filter_simps contactOf_def overlapSphereSphere_def v3zero_def
        v3sub_def v3length_def v3dot_def v3normalize_def Let_def)
  have b: "lay_backend demoLayers = Some (the (lay_backend demoLayers))" by (simp add: demoLayers_eval)
  show ?thesis
    using contacts_respect_layers [THEN conjunct1, rule_format, OF demoLayers_reach(2) b c(1)] c by blast
qed

end
