(* ===== verification/Contact_Events.thy ===== *)
theory Contact_Events
  imports Collision_Backends Server_State
begin

text \<open>
  Contact events (\<^verbatim>\<open>golem/collision_events.go\<close>): from the contacts of each tick the server works out which
  pairs of entities began, went on or stopped to touch and calls the hooks of the entities.  An entity
  is a reference; a hook is a function on the server, and which hooks an entity has is fixed by its
  type.
\<close>

section \<open>State and hooks\<close>

datatype contactSort = Trigger | Solid

datatype contactPhase = Enter | Stay | Exit

text \<open>A call of a hook: \<^verbatim>\<open>OnTriggerEnter\<close> and so on, with normal and depth for solid contacts in progress.\<close>

record 'f contactCall =
  cc_sort :: contactSort
  cc_phase :: contactPhase
  cc_receiver :: eref
  cc_other :: "eref option"
  cc_data :: "('f Vec2 \<times> 'f) option"

record ('e, 'f) contactEnv =
  xe_implements :: "contactSort \<Rightarrow> contactPhase \<Rightarrow> eref \<Rightarrow> bool"
  xe_react :: "'f contactCall \<Rightarrow> 'e Server \<Rightarrow> 'e Server"

type_synonym pairset = "(int64 \<times> int64, unit) gomap"

text \<open>\<open>cx_calls\<close> is the history of the calls made.\<close>

record ('e, 'f) contactState =
  cx_srv :: "'e Server"
  cx_contactEventsEnabled :: bool
  cx_triggerPairs :: pairset
  cx_solidPairs :: pairset
  cx_calls :: "'f contactCall list"

definition EnableContactEvents :: "('e, 'f) contactState \<Rightarrow> ('e, 'f) contactState" where
  "EnableContactEvents st = st\<lparr>cx_contactEventsEnabled := True, cx_triggerPairs := [], cx_solidPairs := []\<rparr>"

definition contactKey :: "int64 \<Rightarrow> int64 \<Rightarrow> int64 \<times> int64" where
  "contactKey a b = (if sint a < sint b then (a, b) else (b, a))"

section \<open>Dispatch\<close>

definition callHook :: "('e, 'f) contactEnv \<Rightarrow> 'f contactCall \<Rightarrow> ('e, 'f) contactState \<Rightarrow> ('e, 'f) contactState" where
  "callHook env c st =
     (if xe_implements env (cc_sort c) (cc_phase c) (cc_receiver c)
      then st\<lparr>cx_srv := xe_react env c (cx_srv st), cx_calls := cx_calls st @ [c]\<rparr> else st)"

text \<open>Both lookups come first; an entity that is not registered is nil for the other side.\<close>

definition bothSides ::
  "('e, 'f) contactEnv \<Rightarrow> contactSort \<Rightarrow> contactPhase \<Rightarrow> int64 \<Rightarrow> ('f Vec2 \<times> 'f) option \<Rightarrow> int64 \<Rightarrow> ('f Vec2 \<times> 'f) option
     \<Rightarrow> ('e, 'f) contactState \<Rightarrow> ('e, 'f) contactState" where
  "bothSides env srt phase a dataA b dataB st =
     (let eA = reg_Get (sv_reg (cx_srv st)) a; eB = reg_Get (sv_reg (cx_srv st)) b;
          side = (\<lambda>e other d st. case e of
             None \<Rightarrow> st
           | Some r \<Rightarrow> callHook env \<lparr>cc_sort = srt, cc_phase = phase, cc_receiver = r, cc_other = other, cc_data = d\<rparr> st)
      in side eB eA dataB (side eA eB dataA st))"

definition activeEvent ::
  "'f geops \<Rightarrow> ('e, 'f) contactEnv \<Rightarrow> contactSort \<Rightarrow> bool \<Rightarrow> ('f Vec2, 'f) Contact \<Rightarrow> ('e, 'f) contactState \<Rightarrow> ('e, 'f) contactState" where
  "activeEvent G env srt wasActive c st =
     (let phase = (if wasActive then Stay else Enter); n = ct_Normal c;
          normalForB = \<lparr>v2_X = fneg G (v2_X n), v2_Y = fneg G (v2_Y n)\<rparr>
      in case srt of
           Trigger \<Rightarrow> bothSides env Trigger phase (ct_A c) None (ct_B c) None st
         | Solid \<Rightarrow> bothSides env Solid phase (ct_A c) (Some (n, ct_Depth c)) (ct_B c) (Some (normalForB, ct_Depth c)) st)"

definition activeLoop ::
  "'f geops \<Rightarrow> ('e, 'f) contactEnv \<Rightarrow> contactSort \<Rightarrow> pairset \<Rightarrow> (int64 \<times> int64, ('f Vec2, 'f) Contact) gomap \<Rightarrow> (int64 \<times> int64) list
     \<Rightarrow> ('e, 'f) contactState \<Rightarrow> ('e, 'f) contactState" where
  "activeLoop G env srt pairs current ks st =
     fold (\<lambda>key st. case map_of current key of
             None \<Rightarrow> st | Some c \<Rightarrow> activeEvent G env srt (key \<in> gm_keys pairs) c st) ks st"

definition contactExitLoop ::
  "('e, 'f) contactEnv \<Rightarrow> contactSort \<Rightarrow> (int64 \<times> int64, ('f Vec2, 'f) Contact) gomap \<Rightarrow> (int64 \<times> int64) list
     \<Rightarrow> ('e, 'f) contactState \<Rightarrow> ('e, 'f) contactState" where
  "contactExitLoop env srt current ks st =
     fold (\<lambda>key st. if key \<in> gm_keys current then st else bothSides env srt Exit (fst key) None (snd key) None st) ks st"

text \<open>The contacts of one sort by pair; the last one of a pair stays.\<close>

definition isTrigger :: "'f geops \<Rightarrow> ('f Vec2, 'f) Contact \<Rightarrow> bool" where
  "isTrigger G c = feq G (ct_Depth c) (fnum G 0)"

definition currentOf :: "'f geops \<Rightarrow> contactSort \<Rightarrow> ('f Vec2, 'f) Contact list \<Rightarrow> (int64 \<times> int64, ('f Vec2, 'f) Contact) gomap" where
  "currentOf G srt contacts =
     fold (\<lambda>c m. if isTrigger G c = (srt = Trigger) then AList.update (contactKey (ct_A c) (ct_B c)) c m else m) contacts []"

text \<open>The orders in which the four maps are visited.\<close>

record contactOrders =
  xo_trigger :: "(int64 \<times> int64) list"
  xo_triggerExit :: "(int64 \<times> int64) list"
  xo_solid :: "(int64 \<times> int64) list"
  xo_solidExit :: "(int64 \<times> int64) list"

definition dispatchContactEvents ::
  "'f geops \<Rightarrow> ('e, 'f) contactEnv \<Rightarrow> contactOrders \<Rightarrow> ('f Vec2, 'f) Contact list \<Rightarrow> ('e, 'f) contactState \<Rightarrow> ('e, 'f) contactState" where
  "dispatchContactEvents G env ord contacts st =
     (let currentTrigger = currentOf G Trigger contacts; currentSolid = currentOf G Solid contacts;
          st = activeLoop G env Trigger (cx_triggerPairs st) currentTrigger (xo_trigger ord) st;
          st = contactExitLoop env Trigger currentTrigger (xo_triggerExit ord) st;
          st = activeLoop G env Solid (cx_solidPairs st) currentSolid (xo_solid ord) st;
          st = contactExitLoop env Solid currentSolid (xo_solidExit ord) st
      in st\<lparr>cx_triggerPairs := map (\<lambda>p. (fst p, ())) currentTrigger, cx_solidPairs := map (\<lambda>p. (fst p, ())) currentSolid\<rparr>)"

definition contactOrdersOK :: "'f geops \<Rightarrow> contactOrders \<Rightarrow> ('f Vec2, 'f) Contact list \<Rightarrow> ('e, 'f) contactState \<Rightarrow> bool" where
  "contactOrdersOK G ord contacts st \<longleftrightarrow>
     iter_order (xo_trigger ord) (currentOf G Trigger contacts) \<and> iter_order (xo_triggerExit ord) (cx_triggerPairs st)
     \<and> iter_order (xo_solid ord) (currentOf G Solid contacts) \<and> iter_order (xo_solidExit ord) (cx_solidPairs st)"

section \<open>Enter, stay, exit\<close>

text \<open>What one entity is told about another, in one sort of contact.\<close>

definition phasesOf :: "contactSort \<Rightarrow> eref \<Rightarrow> eref \<Rightarrow> 'f contactCall list \<Rightarrow> contactPhase list" where
  "phasesOf srt r o' calls =
     map cc_phase (filter (\<lambda>c. cc_sort c = srt \<and> cc_receiver c = r \<and> cc_other c = Some o') calls)"

text \<open>The protocol a listener expects: begin, go on, end; \<open>None\<close> when it is broken.\<close>

fun runPhases :: "bool \<Rightarrow> contactPhase list \<Rightarrow> bool option" where
  "runPhases active [] = Some active"
| "runPhases False (Enter # ps) = runPhases True ps"
| "runPhases True (Stay # ps) = runPhases True ps"
| "runPhases True (Exit # ps) = runPhases False ps"
| "runPhases active (p # ps) = None"

lemma runPhases_append: "runPhases x (ps @ qs) = Option.bind (runPhases x ps) (\<lambda>y. runPhases y qs)"
  by (induction x ps rule: runPhases.induct) auto

definition pairsOf :: "contactSort \<Rightarrow> ('e, 'f) contactState \<Rightarrow> pairset" where
  "pairsOf srt st = (case srt of Trigger \<Rightarrow> cx_triggerPairs st | Solid \<Rightarrow> cx_solidPairs st)"

text \<open>The two entities are registered, each under one identifier only.\<close>

definition bothThere :: "int64 \<Rightarrow> eref \<Rightarrow> int64 \<Rightarrow> eref \<Rightarrow> 'e Server \<Rightarrow> bool" where
  "bothThere a ra b rb s \<longleftrightarrow>
     (\<forall>i. reg_Get (sv_reg s) i = Some ra \<longleftrightarrow> i = a) \<and> (\<forall>i. reg_Get (sv_reg s) i = Some rb \<longleftrightarrow> i = b)"

lemma contactKey_sym: "contactKey a b = contactKey b a"
proof -
  have "a = b" if "sint a = sint b" using that by (rule signed_word_eqI)
  then show ?thesis by (auto simp: contactKey_def not_less)
qed

lemma contactKey_set: "{fst (contactKey a b), snd (contactKey a b)} = {a, b}"
  by (auto simp: contactKey_def)

lemma contactKey_eq: "contactKey a b = contactKey c d \<longleftrightarrow> {a, b} = {c, d}"
proof
  assume "contactKey a b = contactKey c d"
  then show "{a, b} = {c, d}" using contactKey_set [of a b] contactKey_set [of c d] by simp
qed (auto simp: doubleton_eq_iff contactKey_sym)

lemma contactKey_canonical: "contactKey (fst (contactKey a b)) (snd (contactKey a b)) = contactKey a b"
  by (simp add: contactKey_eq contactKey_set)

text \<open>\<open>keeps\<close>: hooks leave the two entities registered.\<close>

definition keepsThere :: "('e, 'f) contactEnv \<Rightarrow> int64 \<Rightarrow> eref \<Rightarrow> int64 \<Rightarrow> eref \<Rightarrow> bool" where
  "keepsThere env a ra b rb \<longleftrightarrow> (\<forall>c s. bothThere a ra b rb s \<longrightarrow> bothThere a ra b rb (xe_react env c s))"

lemma bothSides_phases:
  fixes env :: "('e, 'f) contactEnv" and st :: "('e, 'f) contactState"
  assumes "keepsThere env a ra b rb" "bothThere a ra b rb (cx_srv st)" "a \<noteq> b" "xe_implements env srt phase ra"
  shows "bothThere a ra b rb (cx_srv (bothSides env srt' phase x dx y dy st))
    \<and> phasesOf srt ra rb (cx_calls (bothSides env srt' phase x dx y dy st))
      = phasesOf srt ra rb (cx_calls st) @ (if srt' = srt \<and> {x, y} = {a, b} then [phase] else [])"
proof -
  have R: "reg_Get (sv_reg (cx_srv st)) a = Some ra" "reg_Get (sv_reg (cx_srv st)) b = Some rb" "ra \<noteq> rb"
    using assms(2,3) unfolding bothThere_def by metis+
  have N: "reg_Get (sv_reg (cx_srv st)) i \<noteq> Some ra" if "i \<noteq> a" for i using assms(2) that by (simp add: bothThere_def)
  have M: "reg_Get (sv_reg (cx_srv st)) i \<noteq> Some rb" if "i \<noteq> b" for i using assms(2) that by (simp add: bothThere_def)
  have C: "bothThere a ra b rb (cx_srv (callHook env c st'))" if "bothThere a ra b rb (cx_srv st')" for c and st' :: "('e, 'f) contactState"
    using assms(1) that by (simp add: callHook_def keepsThere_def)
  have kept: "bothThere a ra b rb (cx_srv (bothSides env srt' phase x dx y dy st))"
    using assms(2) by (auto simp: bothSides_def Let_def C split: option.splits)
  have P: "phasesOf srt ra rb (cx_calls (callHook env c st')) = phasesOf srt ra rb (cx_calls st')
      @ (if cc_sort c = srt \<and> cc_receiver c = ra \<and> cc_other c = Some rb \<and> xe_implements env (cc_sort c) (cc_phase c) ra then [cc_phase c] else [])"
    for c and st' :: "('e, 'f) contactState"
    by (auto simp: callHook_def phasesOf_def)
  have "phasesOf srt ra rb (cx_calls (bothSides env srt' phase x dx y dy st))
      = phasesOf srt ra rb (cx_calls st) @ (if srt' = srt \<and> {x, y} = {a, b} then [phase] else [])"
  proof (cases "x = a \<and> y = b \<or> x = b \<and> y = a")
    case True
    then show ?thesis using R assms(3,4) by (auto simp: bothSides_def Let_def P doubleton_eq_iff)
  next
    case False
    then show ?thesis using N[of x] M[of x] N[of y] M[of y] R
      by (auto simp: bothSides_def Let_def P doubleton_eq_iff split: option.splits)
  qed
  with kept show ?thesis ..
qed

lemma fold_phases:
  assumes "\<And>k st. k \<in> set ks \<Longrightarrow> P st \<Longrightarrow> P (f k st) \<and> ph (f k st) = ph st @ (if k = k0 then e else [])"
    and "distinct ks" "P st"
  shows "P (fold f ks st) \<and> ph (fold f ks st) = ph st @ (if k0 \<in> set ks then e else [])"
  using assms
proof (induction ks arbitrary: st)
  case (Cons k ks)
  have "P (f k st) \<and> ph (f k st) = ph st @ (if k = k0 then e else [])" using Cons.prems by simp
  then show ?case using Cons.IH [of "f k st"] Cons.prems by auto
qed simp

lemma currentOf_key:
  fixes G :: "'f geops"
  shows "map_of (currentOf G srt contacts) key = Some c \<Longrightarrow> contactKey (ct_A c) (ct_B c) = key"
proof -
  define OK where "OK m \<longleftrightarrow> (\<forall>key c. map_of m key = Some c \<longrightarrow> contactKey (ct_A c) (ct_B c) = key)"
    for m :: "(int64 \<times> int64, ('f Vec2, 'f) Contact) gomap"
  have u: "OK m \<Longrightarrow> OK (AList.update (contactKey (ct_A c) (ct_B c)) c m)" for m c by (simp add: OK_def)
  have "OK m \<Longrightarrow> OK (fold (\<lambda>c m. if isTrigger G c = (srt = Trigger) then AList.update (contactKey (ct_A c) (ct_B c)) c m else m) contacts m)" for m
    by (induction contacts arbitrary: m) (simp_all add: u)
  moreover have "OK []" by (simp add: OK_def)
  ultimately have "OK (currentOf G srt contacts)" by (simp add: currentOf_def)
  then show "map_of (currentOf G srt contacts) key = Some c \<Longrightarrow> contactKey (ct_A c) (ct_B c) = key" unfolding OK_def by blast
qed

lemma activeEvent_sides:
  obtains dx dy where "activeEvent G env srt w c st = bothSides env srt (if w then Stay else Enter) (ct_A c) dx (ct_B c) dy st"
  by (cases srt) (auto simp: activeEvent_def Let_def)

lemma activeLoop_phases:
  fixes env :: "('e, 'f) contactEnv" and st :: "('e, 'f) contactState"
  assumes "keepsThere env a ra b rb" "bothThere a ra b rb (cx_srv st)" "a \<noteq> b" "\<forall>phase. xe_implements env srt phase ra"
    and "iter_order ks (currentOf G srt' contacts)"
  shows "bothThere a ra b rb (cx_srv (activeLoop G env srt' pairs (currentOf G srt' contacts) ks st))
    \<and> phasesOf srt ra rb (cx_calls (activeLoop G env srt' pairs (currentOf G srt' contacts) ks st))
      = phasesOf srt ra rb (cx_calls st) @ (if srt' = srt \<and> contactKey a b \<in> gm_keys (currentOf G srt' contacts)
          then [if contactKey a b \<in> gm_keys pairs then Stay else Enter] else [])"
proof -
  let ?cur = "currentOf G srt' contacts"
  let ?f = "\<lambda>key (st :: ('e, 'f) contactState). case map_of ?cur key of None \<Rightarrow> st | Some c \<Rightarrow> activeEvent G env srt' (key \<in> gm_keys pairs) c st"
  have "bothThere a ra b rb (cx_srv (fold ?f ks st)) \<and> phasesOf srt ra rb (cx_calls (fold ?f ks st))
      = phasesOf srt ra rb (cx_calls st) @ (if contactKey a b \<in> set ks
          then (if srt' = srt then [if contactKey a b \<in> gm_keys pairs then Stay else Enter] else []) else [])"
  proof (rule fold_phases [where P = "\<lambda>st. bothThere a ra b rb (cx_srv st)" and ph = "\<lambda>st. phasesOf srt ra rb (cx_calls st)"])
    fix key and st :: "('e, 'f) contactState" assume k: "key \<in> set ks" "bothThere a ra b rb (cx_srv st)"
    then obtain c where c: "map_of ?cur key = Some c" using assms(5) by (auto simp: iter_order_def gm_keys_Some)
    then have e: "{ct_A c, ct_B c} = {a, b} \<longleftrightarrow> key = contactKey a b" using currentOf_key [OF c] contactKey_eq by metis
    have B: "bothThere a ra b rb (cx_srv (bothSides env srt' phase (ct_A c) dx (ct_B c) dy st))
      \<and> phasesOf srt ra rb (cx_calls (bothSides env srt' phase (ct_A c) dx (ct_B c) dy st))
        = phasesOf srt ra rb (cx_calls st) @ (if srt' = srt \<and> key = contactKey a b then [phase] else [])" for phase dx dy
      using bothSides_phases [OF assms(1) k(2) assms(3), of srt phase] assms(4) e by simp
    show "bothThere a ra b rb (cx_srv (?f key st)) \<and> phasesOf srt ra rb (cx_calls (?f key st))
      = phasesOf srt ra rb (cx_calls st) @ (if key = contactKey a b
          then (if srt' = srt then [if contactKey a b \<in> gm_keys pairs then Stay else Enter] else []) else [])"
      by (rule activeEvent_sides [of G env srt' "key \<in> gm_keys pairs" c st]) (simp add: c B)
  qed (use assms in \<open>auto simp: iter_order_def\<close>)
  then show ?thesis using assms(5) by (auto simp: activeLoop_def iter_order_def)
qed

lemma contactExitLoop_phases:
  fixes env :: "('e, 'f) contactEnv" and st :: "('e, 'f) contactState"
  assumes "keepsThere env a ra b rb" "bothThere a ra b rb (cx_srv st)" "a \<noteq> b" "\<forall>phase. xe_implements env srt phase ra"
    and "distinct ks" "\<forall>key \<in> set ks. contactKey (fst key) (snd key) = key"
  shows "bothThere a ra b rb (cx_srv (contactExitLoop env srt' cur ks st))
    \<and> phasesOf srt ra rb (cx_calls (contactExitLoop env srt' cur ks st))
      = phasesOf srt ra rb (cx_calls st) @ (if srt' = srt \<and> contactKey a b \<in> set ks \<and> contactKey a b \<notin> gm_keys cur then [Exit] else [])"
proof -
  let ?f = "\<lambda>key (st :: ('e, 'f) contactState). if key \<in> gm_keys cur then st else bothSides env srt' Exit (fst key) None (snd key) None st"
  have "bothThere a ra b rb (cx_srv (fold ?f ks st)) \<and> phasesOf srt ra rb (cx_calls (fold ?f ks st))
      = phasesOf srt ra rb (cx_calls st) @ (if contactKey a b \<in> set ks
          then (if srt' = srt \<and> contactKey a b \<notin> gm_keys cur then [Exit] else []) else [])"
  proof (rule fold_phases [where P = "\<lambda>st. bothThere a ra b rb (cx_srv st)" and ph = "\<lambda>st. phasesOf srt ra rb (cx_calls st)"])
    fix key and st :: "('e, 'f) contactState" assume k: "key \<in> set ks" "bothThere a ra b rb (cx_srv st)"
    then have e: "{fst key, snd key} = {a, b} \<longleftrightarrow> key = contactKey a b" using assms(6) by (metis contactKey_eq)
    have B: "bothThere a ra b rb (cx_srv (bothSides env srt' Exit (fst key) None (snd key) None st))
      \<and> phasesOf srt ra rb (cx_calls (bothSides env srt' Exit (fst key) None (snd key) None st))
        = phasesOf srt ra rb (cx_calls st) @ (if srt' = srt \<and> key = contactKey a b then [Exit] else [])"
      using bothSides_phases [OF assms(1) k(2) assms(3), of srt Exit] assms(4) e by simp
    show "bothThere a ra b rb (cx_srv (?f key st)) \<and> phasesOf srt ra rb (cx_calls (?f key st))
      = phasesOf srt ra rb (cx_calls st) @ (if key = contactKey a b
          then (if srt' = srt \<and> contactKey a b \<notin> gm_keys cur then [Exit] else []) else [])"
      using B k(2) by (cases "key \<in> gm_keys cur") auto
  qed (use assms in auto)
  then show ?thesis by (auto simp: contactExitLoop_def)
qed

lemma bothSides_pairs [simp]:
  "cx_solidPairs (bothSides env srt phase x dx y dy st) = cx_solidPairs st"
  "cx_triggerPairs (bothSides env srt phase x dx y dy st) = cx_triggerPairs st"
  by (auto simp: bothSides_def callHook_def Let_def split: option.splits)

lemma fold_same: "(\<And>k st. k \<in> set ks \<Longrightarrow> g (f k st) = g st) \<Longrightarrow> g (fold f ks st) = g st"
  by (induction ks arbitrary: st) auto

lemma loops_pairs [simp]:
  "cx_solidPairs (activeLoop G env srt pairs cur ks st) = cx_solidPairs st"
  "cx_triggerPairs (activeLoop G env srt pairs cur ks st) = cx_triggerPairs st"
  "cx_solidPairs (contactExitLoop env srt cur ks st) = cx_solidPairs st"
  "cx_triggerPairs (contactExitLoop env srt cur ks st) = cx_triggerPairs st"
  unfolding activeLoop_def contactExitLoop_def
  by (auto intro!: fold_same simp: activeEvent_def Let_def split: option.splits contactSort.splits)

lemma gm_keys_unit [simp]: "gm_keys (map (\<lambda>p. (fst p, ())) m) = gm_keys m"
  by (simp add: gm_keys_def image_image)

lemma dispatch_phases:
  fixes env :: "('e, 'f) contactEnv" and st :: "('e, 'f) contactState"
  assumes "keepsThere env a ra b rb" "bothThere a ra b rb (cx_srv st)" "a \<noteq> b" "\<forall>phase. xe_implements env srt phase ra"
    and "contactOrdersOK G ord contacts st" "\<forall>key \<in> gm_keys (cx_triggerPairs st) \<union> gm_keys (cx_solidPairs st). contactKey (fst key) (snd key) = key"
    and d: "st' = dispatchContactEvents G env ord contacts st"
  shows "bothThere a ra b rb (cx_srv st')
    \<and> (\<forall>key \<in> gm_keys (cx_triggerPairs st') \<union> gm_keys (cx_solidPairs st'). contactKey (fst key) (snd key) = key)
    \<and> phasesOf srt ra rb (cx_calls st') = phasesOf srt ra rb (cx_calls st)
        @ (if contactKey a b \<in> gm_keys (pairsOf srt st') then [if contactKey a b \<in> gm_keys (pairsOf srt st) then Stay else Enter]
           else if contactKey a b \<in> gm_keys (pairsOf srt st) then [Exit] else [])"
proof -
  let ?T = "currentOf G Trigger contacts" and ?S = "currentOf G Solid contacts" and ?k = "contactKey a b"
  have o: "iter_order (xo_trigger ord) ?T" "iter_order (xo_solid ord) ?S" "distinct (xo_triggerExit ord)" "distinct (xo_solidExit ord)"
    "set (xo_triggerExit ord) = gm_keys (cx_triggerPairs st)" "set (xo_solidExit ord) = gm_keys (cx_solidPairs st)"
    using assms(5) by (auto simp: contactOrdersOK_def iter_order_def)
  have K: "\<forall>key \<in> gm_keys (currentOf G s contacts). contactKey (fst key) (snd key) = key" for s
    by (auto simp: gm_keys_Some contactKey_canonical dest!: currentOf_key) (metis contactKey_canonical fst_conv snd_conv)
  define s1 where "s1 = activeLoop G env Trigger (cx_triggerPairs st) ?T (xo_trigger ord) st"
  define s2 where "s2 = contactExitLoop env Trigger ?T (xo_triggerExit ord) s1"
  define s3 where "s3 = activeLoop G env Solid (cx_solidPairs s2) ?S (xo_solid ord) s2"
  define s4 where "s4 = contactExitLoop env Solid ?S (xo_solidExit ord) s3"
  have st': "st' = s4\<lparr>cx_triggerPairs := map (\<lambda>p. (fst p, ())) ?T, cx_solidPairs := map (\<lambda>p. (fst p, ())) ?S\<rparr>"
    by (simp add: d dispatchContactEvents_def Let_def s1_def s2_def s3_def s4_def)
  note p1 = activeLoop_phases [OF assms(1-4) o(1), of "cx_triggerPairs st", folded s1_def]
  have p2: "bothThere a ra b rb (cx_srv s2) \<and> phasesOf srt ra rb (cx_calls s2) = phasesOf srt ra rb (cx_calls s1)
      @ (if Trigger = srt \<and> ?k \<in> gm_keys (cx_triggerPairs st) \<and> ?k \<notin> gm_keys ?T then [Exit] else [])"
    using contactExitLoop_phases [OF assms(1) conjunct1 [OF p1] assms(3,4) o(3), of Trigger ?T, folded s2_def] assms(6) o(5) by auto
  have p3: "bothThere a ra b rb (cx_srv s3) \<and> phasesOf srt ra rb (cx_calls s3) = phasesOf srt ra rb (cx_calls s2)
      @ (if Solid = srt \<and> ?k \<in> gm_keys ?S then [if ?k \<in> gm_keys (cx_solidPairs st) then Stay else Enter] else [])"
    using activeLoop_phases [OF assms(1) conjunct1 [OF p2] assms(3,4) o(2), of "cx_solidPairs s2", folded s3_def]
    by (simp add: s2_def s1_def)
  have p4: "bothThere a ra b rb (cx_srv s4) \<and> phasesOf srt ra rb (cx_calls s4) = phasesOf srt ra rb (cx_calls s3)
      @ (if Solid = srt \<and> ?k \<in> gm_keys (cx_solidPairs st) \<and> ?k \<notin> gm_keys ?S then [Exit] else [])"
    using contactExitLoop_phases [OF assms(1) conjunct1 [OF p3] assms(3,4) o(4), of Solid ?S, folded s4_def] assms(6) o(6) by auto
  have k: "\<forall>key \<in> gm_keys (cx_triggerPairs st') \<union> gm_keys (cx_solidPairs st'). contactKey (fst key) (snd key) = key"
    using K by (auto simp: st')
  show ?thesis
    using p1 p2 p3 p4 k by (cases srt) (auto simp: st' pairsOf_def)
qed

section \<open>Over the ticks\<close>

text \<open>
  A run since the events were enabled: between ticks the game may do anything to the server that leaves
  the two entities registered.
\<close>

inductive contactReach ::
  "'f geops \<Rightarrow> ('e, 'f) contactEnv \<Rightarrow> ('e Server \<Rightarrow> bool) \<Rightarrow> ('e, 'f) contactState \<Rightarrow> bool" for G env there where
  enabled: "there (cx_srv st) \<Longrightarrow> contactReach G env there (EnableContactEvents st\<lparr>cx_calls := []\<rparr>)"
| tick: "contactReach G env there st \<Longrightarrow> there s \<Longrightarrow> contactOrdersOK G ord contacts st
    \<Longrightarrow> contactReach G env there (dispatchContactEvents G env ord contacts (st\<lparr>cx_srv := s\<rparr>))"

text \<open>
  C33.  Contact events come in the right order.  As long as two entities stay registered, what the
  one is told about the other, for triggers and for solid contacts each, is a sequence of enter, any
  number of stays and exit, again and again, and it is between an enter and an exit exactly when the
  pair was touching in the last tick; whatever the back end reports, the hooks do to the rest of the
  world, and the maps are visited in.
\<close>

theorem contacts_alternate:
  assumes "contactReach G env (bothThere a ra b rb) st" and "a \<noteq> b" and "keepsThere env a ra b rb"
    and "\<forall>phase. xe_implements env srt phase ra"
  shows "runPhases False (phasesOf srt ra rb (cx_calls st)) = Some (contactKey a b \<in> gm_keys (pairsOf srt st))"
proof -
  have "bothThere a ra b rb (cx_srv st)
    \<and> (\<forall>key \<in> gm_keys (cx_triggerPairs st) \<union> gm_keys (cx_solidPairs st). contactKey (fst key) (snd key) = key)
    \<and> runPhases False (phasesOf srt ra rb (cx_calls st)) = Some (contactKey a b \<in> gm_keys (pairsOf srt st))"
    using assms(1)
  proof (induction rule: contactReach.induct)
    case (enabled st)
    then show ?case by (cases srt) (auto simp: EnableContactEvents_def phasesOf_def pairsOf_def)
  next
    case (tick st s ord contacts)
    have p: "pairsOf srt (st\<lparr>cx_srv := s\<rparr>) = pairsOf srt st" by (cases srt) (simp_all add: pairsOf_def)
    have "contactOrdersOK G ord contacts (st\<lparr>cx_srv := s\<rparr>)" using tick(3) by (simp add: contactOrdersOK_def)
    then show ?case
      using dispatch_phases [OF assms(3) _ assms(2,4), of "st\<lparr>cx_srv := s\<rparr>" G ord contacts, OF _ _ _ refl] tick
      by (auto simp: runPhases_append p)
  qed
  then show ?thesis by blast
qed

section \<open>Examples\<close>

text \<open>Entities 1 and 2 touch in two ticks and then part; all entities have all hooks, which do nothing.\<close>

definition quietHooks :: "('e, 'f) contactEnv" where
  "quietHooks = \<lparr>xe_implements = (\<lambda>srt phase r. True), xe_react = (\<lambda>c s. s)\<rparr>"

definition twoEntities :: "nat Server" where
  "twoEntities = \<lparr>sv_idCounter = 2, sv_reg = NewRegistry\<lparr>rg_entities := [(1, 10), (2, 20)]\<rparr>, sv_heap = (\<lambda>r. r),
     sv_visibility = NewManager, sv_broadcastKnown = [], sv_ownershipRefresh = [], sv_eventualTrackers = [],
     sv_nextEventualToken = 0, sv_sessionAvatar = [], sv_avatarSession = [], sv_net = [], sv_tick = 1,
     sv_stats = \<lparr>rs_LastTick = 0, rs_DeltasFlushed = 0, rs_StreamBatchedFrames = 0, rs_StreamWireMsgs = 0,
       rs_DatagramBatchedFrames = 0, rs_DatagramWirePayloads = 0\<rparr>\<rparr>"

definition touching :: "(real Vec2, real) Contact" where
  "touching = \<lparr>ct_A = 2, ct_B = 1, ct_Normal = \<lparr>v2_X = 1, v2_Y = 0\<rparr>, ct_Depth = 1\<rparr>"

definition ordersOf :: "(int64 \<times> int64) list \<Rightarrow> (int64 \<times> int64) list \<Rightarrow> contactOrders" where
  "ordersOf now before = \<lparr>xo_trigger = [], xo_triggerExit = [], xo_solid = now, xo_solidExit = before\<rparr>"

lemma touching_key: "contactKey 2 1 = (1, 2)"
  by (simp add: contactKey_def)

lemma twoEntities_there: "bothThere 1 10 2 20 twoEntities"
  by (auto simp: bothThere_def twoEntities_def reg_Get_def NewRegistry_def)

lemma touching_current [simp]:
  "currentOf realOps Solid [touching] = [((1, 2), touching)]" "currentOf realOps Trigger [touching] = []"
  "currentOf realOps srt [] = []"
  by (simp_all add: currentOf_def isTrigger_def touching_def touching_key)

lemma twoEntities_get [simp]: "reg_Get (sv_reg twoEntities) 1 = Some 10" "reg_Get (sv_reg twoEntities) 2 = Some 20"
  by (simp_all add: twoEntities_def reg_Get_def NewRegistry_def)

definition runState :: "pairset \<Rightarrow> real contactCall list \<Rightarrow> (nat, real) contactState" where
  "runState pairs calls = \<lparr>cx_srv = twoEntities, cx_contactEventsEnabled = True, cx_triggerPairs = [], cx_solidPairs = pairs, cx_calls = calls\<rparr>"

definition callsOf :: "contactPhase \<Rightarrow> (real Vec2 \<times> real) option \<Rightarrow> (real Vec2 \<times> real) option \<Rightarrow> real contactCall list" where
  "callsOf phase d1 d2 =
     [\<lparr>cc_sort = Solid, cc_phase = phase, cc_receiver = 20, cc_other = Some 10, cc_data = d1\<rparr>,
      \<lparr>cc_sort = Solid, cc_phase = phase, cc_receiver = 10, cc_other = Some 20, cc_data = d2\<rparr>]"

lemmas dispatch_eval = dispatchContactEvents_def activeLoop_def contactExitLoop_def activeEvent_def bothSides_def callHook_def
  quietHooks_def ordersOf_def runState_def callsOf_def Let_def gm_keys_def

lemma demo_ticks:
  "\<exists>d1 d2. dispatchContactEvents realOps quietHooks (ordersOf [(1, 2)] []) [touching] (runState [] cs)
     = runState [((1, 2), ())] (cs @ callsOf Enter d1 d2)"
  "\<exists>d1 d2. dispatchContactEvents realOps quietHooks (ordersOf [(1, 2)] [(1, 2)]) [touching] (runState [((1, 2), ())] cs)
     = runState [((1, 2), ())] (cs @ callsOf Stay d1 d2)"
  "dispatchContactEvents realOps quietHooks (ordersOf [] [(1, 2)]) [] (runState [((1, 2), ())] cs)
     = runState [] (cs @ [\<lparr>cc_sort = Solid, cc_phase = Exit, cc_receiver = 10, cc_other = Some 20, cc_data = None\<rparr>,
         \<lparr>cc_sort = Solid, cc_phase = Exit, cc_receiver = 20, cc_other = Some 10, cc_data = None\<rparr>])"
  by (simp_all add: dispatch_eval touching_def [THEN arg_cong [of _ _ ct_A], simplified]
      touching_def [THEN arg_cong [of _ _ ct_B], simplified])

lemma demo_reach:
  assumes "contactReach realOps quietHooks (bothThere 1 10 2 20) (runState p cs)" "contactOrdersOK realOps ord contacts (runState p cs)"
  shows "contactReach realOps quietHooks (bothThere 1 10 2 20) (dispatchContactEvents realOps quietHooks ord contacts (runState p cs))"
  using contactReach.tick [OF assms(1) twoEntities_there assms(2)] by (simp add: runState_def)

lemma demo_orders:
  "contactOrdersOK realOps (ordersOf [(1, 2)] []) [touching] (runState [] cs)"
  "contactOrdersOK realOps (ordersOf [(1, 2)] [(1, 2)]) [touching] (runState [((1, 2), ())] cs)"
  "contactOrdersOK realOps (ordersOf [] [(1, 2)]) [] (runState [((1, 2), ())] cs)"
  by (simp_all add: contactOrdersOK_def ordersOf_def runState_def iter_order_def gm_keys_def)

theorem contacts_alternate_witness:
  "\<exists>st :: (nat, real) contactState. phasesOf Solid 10 20 (cx_calls st) = [Enter, Stay, Exit]
    \<and> runPhases False (phasesOf Solid 10 20 (cx_calls st)) = Some (contactKey 1 2 \<in> gm_keys (pairsOf Solid st))"
proof -
  have r0: "contactReach realOps quietHooks (bothThere 1 10 2 20) (runState [] [])"
    using contactReach.enabled [of "bothThere 1 10 2 20" "runState [] []" realOps quietHooks] twoEntities_there
    by (simp add: EnableContactEvents_def runState_def)
  obtain d1 d2 where r1: "contactReach realOps quietHooks (bothThere 1 10 2 20) (runState [((1, 2), ())] (callsOf Enter d1 d2))"
    using demo_ticks(1) [of "[]"] demo_reach [OF r0 demo_orders(1)] by auto
  obtain d3 d4 where r2: "contactReach realOps quietHooks (bothThere 1 10 2 20) (runState [((1, 2), ())] (callsOf Enter d1 d2 @ callsOf Stay d3 d4))"
    using demo_ticks(2) [of "callsOf Enter d1 d2"] demo_reach [OF r1 demo_orders(2)] by auto
  note r3 = demo_reach [OF r2 demo_orders(3), unfolded demo_ticks(3)]
  have "keepsThere (quietHooks :: (nat, real) contactEnv) 1 10 2 20" "\<forall>phase. xe_implements (quietHooks :: (nat, real) contactEnv) Solid phase 10"
    by (simp_all add: keepsThere_def quietHooks_def)
  note alternate = contacts_alternate [OF r3 _ this]
  let ?st = "runState [] ((callsOf Enter d1 d2 @ callsOf Stay d3 d4) @
    [\<lparr>cc_sort = Solid, cc_phase = Exit, cc_receiver = 10, cc_other = Some 20, cc_data = None\<rparr>,
     \<lparr>cc_sort = Solid, cc_phase = Exit, cc_receiver = 20, cc_other = Some 10, cc_data = None\<rparr>])"
  have "runPhases False (phasesOf Solid 10 20 (cx_calls ?st)) = Some (contactKey 1 2 \<in> gm_keys (pairsOf Solid ?st))"
    by (rule alternate) simp
  moreover have "phasesOf Solid 10 20 (cx_calls ?st) = [Enter, Stay, Exit]" by (simp add: runState_def callsOf_def phasesOf_def)
  ultimately show ?thesis by blast
qed

end
