(* ===== verification/Colliders.thy ===== *)
theory Colliders
  imports Collision_Layers Contact_Events Session_Events
begin

text \<open>
  Colliders of entities (\<^verbatim>\<open>golem/collider.go\<close>), the part of \<^verbatim>\<open>CreateEntity\<close>, \<^verbatim>\<open>DeleteEntity\<close> and of the tick that
  deals with them (\<^verbatim>\<open>golem/loop.go\<close>), and the spatial queries of the server (\<^verbatim>\<open>golem/spatial.go\<close>).  An
  entity declares its shape through an optional interface; the named layers register it.
\<close>

unbundle bit_operations_syntax

section \<open>Registration\<close>

text \<open>\<open>None\<close>: the entity does not implement the provider; a nil shape is \<open>None\<close> inside.\<close>

record ('e, 's2, 's3) colliderIface =
  ci_Collider :: "'e \<Rightarrow> ('s2 option \<times> string \<times> bool) option"
  ci_Collider3D :: "'e \<Rightarrow> ('s3 option \<times> string \<times> bool) option"

record ('e, 'b2, 'b3) colliderServer =
  cs_srv :: "'e Server"
  cs_layers :: "'b2 Layers option"
  cs_layers3D :: "'b3 Layers option"

definition SetCollisionLayers :: "'b2 Layers option \<Rightarrow> ('e, 'b2, 'b3) colliderServer \<Rightarrow> ('e, 'b2, 'b3) colliderServer" where
  "SetCollisionLayers l w = w\<lparr>cs_layers := l\<rparr>"

definition SetCollisionLayers3D :: "'b3 Layers option \<Rightarrow> ('e, 'b2, 'b3) colliderServer \<Rightarrow> ('e, 'b2, 'b3) colliderServer" where
  "SetCollisionLayers3D l w = w\<lparr>cs_layers3D := l\<rparr>"

definition registerOn ::
  "('s, 'b) backendOps \<Rightarrow> ('s option \<times> string \<times> bool) option \<Rightarrow> int64 \<Rightarrow> 'b Layers option \<Rightarrow> layersPanic option \<times> 'b Layers option" where
  "registerOn ops provider i lo =
     (case (provider, lo) of
        (Some (shape, layer, trigger), Some l) \<Rightarrow> apsnd Some (lay_Add ops i shape layer trigger l)
      | _ \<Rightarrow> (None, lo))"

definition unregisterOn ::
  "('s, 'b) backendOps \<Rightarrow> ('s option \<times> string \<times> bool) option \<Rightarrow> int64 \<Rightarrow> 'b Layers option \<Rightarrow> layersPanic option \<times> 'b Layers option" where
  "unregisterOn ops provider i lo =
     (case (provider, lo) of
        (Some _, Some l) \<Rightarrow> apsnd Some (lay_Remove ops i l)
      | _ \<Rightarrow> (None, lo))"

definition registerCollider ::
  "('s2, 'b2) backendOps \<Rightarrow> ('s3, 'b3) backendOps \<Rightarrow> ('e, 's2, 's3) colliderIface \<Rightarrow> 'e srvEnv \<Rightarrow> 'e
     \<Rightarrow> ('e, 'b2, 'b3) colliderServer \<Rightarrow> layersPanic option \<times> ('e, 'b2, 'b3) colliderServer" where
  "registerCollider ops2 ops3 ci env e w =
     (case registerOn ops2 (ci_Collider ci e) (ei_EntityID (en_ifc env) e) (cs_layers w) of
        (Some p, l) \<Rightarrow> (Some p, w\<lparr>cs_layers := l\<rparr>)
      | (None, l) \<Rightarrow>
          (case registerOn ops3 (ci_Collider3D ci e) (ei_EntityID (en_ifc env) e) (cs_layers3D w) of
             (r, l3) \<Rightarrow> (r, w\<lparr>cs_layers := l, cs_layers3D := l3\<rparr>)))"

definition unregisterCollider ::
  "('s2, 'b2) backendOps \<Rightarrow> ('s3, 'b3) backendOps \<Rightarrow> ('e, 's2, 's3) colliderIface \<Rightarrow> 'e srvEnv \<Rightarrow> 'e
     \<Rightarrow> ('e, 'b2, 'b3) colliderServer \<Rightarrow> layersPanic option \<times> ('e, 'b2, 'b3) colliderServer" where
  "unregisterCollider ops2 ops3 ci env e w =
     (case unregisterOn ops2 (ci_Collider ci e) (ei_EntityID (en_ifc env) e) (cs_layers w) of
        (Some p, l) \<Rightarrow> (Some p, w\<lparr>cs_layers := l\<rparr>)
      | (None, l) \<Rightarrow>
          (case unregisterOn ops3 (ci_Collider3D ci e) (ei_EntityID (en_ifc env) e) (cs_layers3D w) of
             (r, l3) \<Rightarrow> (r, w\<lparr>cs_layers := l, cs_layers3D := l3\<rparr>)))"

datatype createResult = Created | CreateFailed serverError | CreatePanicked layersPanic

text \<open>Registration comes after the insertion into the registry and before \<^verbatim>\<open>OnSpawn\<close>, which a panic skips.\<close>

definition CreateCollidable ::
  "('s2, 'b2) backendOps \<Rightarrow> ('s3, 'b3) backendOps \<Rightarrow> ('e, 's2, 's3) colliderIface \<Rightarrow> 'e srvEnv \<Rightarrow> eref \<Rightarrow> int64 list
     \<Rightarrow> ('e, 'b2, 'b3) colliderServer \<Rightarrow> createResult \<times> eref list \<times> ('e, 'b2, 'b3) colliderServer" where
  "CreateCollidable ops2 ops3 ci env e owner w =
     (case CreateEntity env e owner (cs_srv w) of
        (Some err, _, s) \<Rightarrow> (CreateFailed err, [], w\<lparr>cs_srv := s\<rparr>)
      | (None, spawned, s) \<Rightarrow>
          (case registerCollider ops2 ops3 ci env (sv_heap s e) (w\<lparr>cs_srv := s\<rparr>) of
             (Some p, w) \<Rightarrow> (CreatePanicked p, [], w)
           | (None, w) \<Rightarrow> (Created, spawned, w)))"

text \<open>The avatar indexes are cleared first, the shape goes before the entity.\<close>

definition DeleteCollidable ::
  "('s2, 'b2) backendOps \<Rightarrow> ('s3, 'b3) backendOps \<Rightarrow> ('e, 's2, 's3) colliderIface \<Rightarrow> 'e srvEnv \<Rightarrow> int64
     \<Rightarrow> ('e, 'b2, 'b3) colliderServer \<Rightarrow> layersPanic option \<times> eref list \<times> ('e, 'b2, 'b3) colliderServer" where
  "DeleteCollidable ops2 ops3 ci env i w =
     (let s = clearAvatarByEntity i (cs_srv w); w = w\<lparr>cs_srv := s\<rparr>
      in case (case sv_Get s i of None \<Rightarrow> (None, w) | Some e \<Rightarrow> unregisterCollider ops2 ops3 ci env e w) of
           (Some p, w) \<Rightarrow> (Some p, [], w)
         | (None, w) \<Rightarrow>
             (case reg_DeleteEntity (en_ifc env) (sv_heap s) (sv_reg s) i of
                (removed, r) \<Rightarrow> (None, removed, w\<lparr>cs_srv := s\<lparr>sv_reg := r\<rparr>\<rparr>)))"

section \<open>The collision part of a tick\<close>

text \<open>Only the simple back end has positions in space; a back end that does not move shapes has an empty \<^verbatim>\<open>ReadBack\<close>.\<close>

definition updatePosition3D :: "('e, 'f) posIface \<Rightarrow> 'e srvEnv \<Rightarrow> 'e \<Rightarrow> 'f SimpleBackend \<Rightarrow> 'f SimpleBackend" where
  "updatePosition3D pif env e b =
     (case pi_Position3D pif e of
        None \<Rightarrow> b
      | Some (x, y, z) \<Rightarrow> sb_Update (ei_EntityID (en_ifc env) e) \<lparr>v3_X = x, v3_Y = y, v3_Z = z\<rparr> b)"

definition updatePositions3D ::
  "('e, 'f) posIface \<Rightarrow> 'e srvEnv \<Rightarrow> 'e Server \<Rightarrow> 'f SimpleBackend \<Rightarrow> 'f SimpleBackend" where
  "updatePositions3D pif env s b = fold (updatePosition3D pif env) (sv_All env s) b"

definition collisionTick3D ::
  "'f geops \<Rightarrow> ('e, 'f) posIface \<Rightarrow> 'e srvEnv \<Rightarrow> int64 list \<Rightarrow> (('f Vec3, 'f) Contact list \<Rightarrow> 'e Server \<Rightarrow> 'e Server) option
     \<Rightarrow> 'f SimpleBackend \<Rightarrow> 'e Server \<Rightarrow> ('f Vec3, 'f) Contact list \<times> 'f SimpleBackend \<times> 'e Server" where
  "collisionTick3D G pif env ks onContact3D b s =
     (let b = updatePositions3D pif env s b; contacts = sb_Step G ks b
      in (contacts, b, case onContact3D of
            None \<Rightarrow> s | Some f \<Rightarrow> if length contacts > 0 then f contacts s else s))"

definition updatePositions ::
  "('e, 'f) posIface \<Rightarrow> 'e srvEnv \<Rightarrow> 'e Server \<Rightarrow> 'f ResolvBackend \<Rightarrow> 'f ResolvBackend" where
  "updatePositions pif env s b =
     fold (\<lambda>e b. case pi_Position pif e of
             (x, y) \<Rightarrow> sb_Update (ei_EntityID (en_ifc env) e) \<lparr>v2_X = x, v2_Y = y\<rparr> b) (sv_All env s) b"

definition collisionTick ::
  "'f geops \<Rightarrow> ('e, 'f) contactEnv \<Rightarrow> ('e, 'f) posIface \<Rightarrow> 'e srvEnv
     \<Rightarrow> (('f shape2, 'f Vec2) entry \<Rightarrow> ('f shape2, 'f Vec2) entry \<Rightarrow> 'f Vec2 option) \<Rightarrow> int64 list \<Rightarrow> contactOrders
     \<Rightarrow> (('f Vec2, 'f) Contact list \<Rightarrow> 'e Server \<Rightarrow> 'e Server) option \<Rightarrow> 'f ResolvBackend \<Rightarrow> ('e, 'f) contactState
     \<Rightarrow> 'f ResolvBackend \<times> ('e, 'f) contactState" where
  "collisionTick G xenv pif env intersection ks ord onContact b st =
     (let b = updatePositions pif env (cx_srv st) b; contacts = rb_Step G intersection ks b;
          st = (case onContact of
                  None \<Rightarrow> st | Some f \<Rightarrow> if length contacts > 0 then st\<lparr>cx_srv := f contacts (cx_srv st)\<rparr> else st)
      in (b, if cx_contactEventsEnabled st then dispatchContactEvents G xenv ord contacts st else st))"

section \<open>Queries of the server\<close>

definition OverlapOfType :: "('e \<Rightarrow> 't option) \<Rightarrow> 'e Server \<Rightarrow> int64 list \<Rightarrow> 't list" where
  "OverlapOfType asType s entityIDs = List.map_filter (\<lambda>i. Option.bind (sv_Get s i) asType) entityIDs"

section \<open>Shapes follow the registry\<close>

definition entryView :: "('s, 'p) entry \<Rightarrow> int64 \<times> 's \<times> u32 \<times> u32 \<times> bool" where
  "entryView e = (en_id e, en_shape e, en_layer e, en_mask e, en_trigger e)"

text \<open>A back end that holds one entry per identifier, the last one added.\<close>

lemma apsnd_eq: "apsnd f x = (a, y) \<longleftrightarrow> (\<exists>z. x = (a, z) \<and> y = f z)"
  by (cases x) auto

locale keyed_backend = registering_backend +
  assumes add_view: "map_option entryView (map_of (bo_Add ops i sh ly mk tr b) j) =
      (if j = i \<and> sh \<noteq> None then Some (i, the sh, ly, mk, tr) else map_option entryView (map_of b j))"
    and remove_view: "map_option entryView (map_of (bo_Remove ops i b) j) = (if j = i then None else map_option entryView (map_of b j))"
begin

lemma remove_self: "map_of (bo_Remove ops i b) i = None"
  using remove_view [of i b i] by simp

lemma registerOn_view:
  assumes "registerOn ops p i (Some l) = (None, Some l')" and "lay_backend l = Some b"
  shows "\<exists>b'. lay_backend l' = Some b' \<and> lay_indices l' = lay_indices l \<and> lay_matrix l' = lay_matrix l
    \<and> (\<forall>j. map_option entryView (map_of b' j) =
        (case p of
           Some (Some sh, ly, tr) \<Rightarrow>
             if j = i then map_option (\<lambda>k. (i, sh, shl1 k, lay_matrix l ! k, tr)) (map_of (lay_indices l) ly)
             else map_option entryView (map_of b j)
         | _ \<Rightarrow> map_option entryView (map_of b j)))
    \<and> (\<forall>sh ly tr. p = Some (sh, ly, tr) \<longrightarrow> map_of (lay_indices l) ly \<noteq> None)"
proof (cases p)
  case None
  then show ?thesis using assms by (auto simp: registerOn_def)
next
  case (Some q)
  obtain sh ly tr where q: "q = (sh, ly, tr)" by (cases q)
  have r: "withLayer (\<lambda>layer msk. bo_Add ops i sh layer msk tr) ly l = (None, l')"
    using assms(1) by (simp add: registerOn_def Some q lay_Add_def apsnd_def map_prod_def split: prod.splits)
  then show ?thesis
    using assms(2) by (cases rule: withLayer_cases [of "\<lambda>layer msk. bo_Add ops i sh layer msk tr" ly l])
      (auto simp: Some q add_view simp del: map_option_eq_Some option.map_disc_iff split: option.splits)
qed

lemma unregisterOn_view:
  assumes "unregisterOn ops p i (Some l) = (None, Some l')" and "lay_backend l = Some b"
  shows "\<exists>b'. lay_backend l' = Some b' \<and> lay_indices l' = lay_indices l \<and> lay_matrix l' = lay_matrix l
    \<and> (\<forall>j. map_option entryView (map_of b' j) = (if j = i \<and> p \<noteq> None then None else map_option entryView (map_of b j)))"
  using assms
  by (cases p) (auto simp: unregisterOn_def lay_Remove_def mustBackend_def remove_view remove_self simp del: map_option_eq_Some option.map_disc_iff)

end

interpretation simpleKeyed: keyed_backend "simpleOps G" for G
  by unfold_locales (auto simp: simpleOps_def sb_Add_def sb_Remove_def entryView_def split: option.splits)

interpretation rsvKeyed: keyed_backend "resolvOps G" for G
  by unfold_locales (auto simp: resolvOps_def rb_Add_def sb_Remove_def entryView_def split: option.splits)

text \<open>The entry the registry asks for.\<close>

definition wantedView ::
  "'b Layers \<Rightarrow> ('e \<Rightarrow> ('s option \<times> string \<times> bool) option) \<Rightarrow> 'e Server \<Rightarrow> int64 \<Rightarrow> (int64 \<times> 's \<times> u32 \<times> u32 \<times> bool) option" where
  "wantedView l provider s i =
     (case Option.bind (sv_Get s i) provider of
        Some (Some sh, ly, tr) \<Rightarrow> map_option (\<lambda>k. (i, sh, shl1 k, lay_matrix l ! k, tr)) (map_of (lay_indices l) ly)
      | _ \<Rightarrow> None)"

lemma wantedView_same: "lay_indices l' = lay_indices l \<Longrightarrow> lay_matrix l' = lay_matrix l \<Longrightarrow> wantedView l' = wantedView l"
  by (auto simp: wantedView_def fun_eq_iff split: option.splits)

text \<open>
  The entry of an identifier is the one the registry asks for; where the registry asks for none
  there is none, unless the identifier is one of \<open>G\<close>.
\<close>

definition entryRight ::
  "int64 set \<Rightarrow> 'b Layers \<Rightarrow> ('e \<Rightarrow> ('s option \<times> string \<times> bool) option) \<Rightarrow> 'e Server \<Rightarrow> int64
     \<Rightarrow> (int64 \<times> 's \<times> u32 \<times> u32 \<times> bool) option \<Rightarrow> bool" where
  "entryRight G l provider s i v \<longleftrightarrow>
     (case wantedView l provider s i of
        Some x \<Rightarrow> v = Some x
      | None \<Rightarrow> (case v of None \<Rightarrow> True | Some x \<Rightarrow> i \<in> G \<and> fst x = i))"

definition followsRegistry ::
  "int64 set \<Rightarrow> ('e \<Rightarrow> ('s option \<times> string \<times> bool) option) \<Rightarrow> 'e Server \<Rightarrow> ('s, 'p) backend Layers option \<Rightarrow> bool" where
  "followsRegistry G provider s lo \<longleftrightarrow>
     (\<forall>l. lo = Some l \<longrightarrow> (\<exists>b. lay_backend l = Some b
        \<and> (\<forall>i. entryRight G l provider s i (map_option entryView (map_of b i)))
        \<and> (\<forall>i e sh ly tr. sv_Get s i = Some e \<longrightarrow> provider e = Some (sh, ly, tr) \<longrightarrow> map_of (lay_indices l) ly \<noteq> None)))"

text \<open>
  Runs of a server whose layers were set up before the first entity.  \<open>removed\<close> is a deletion that
  goes straight to the registry, as \<^verbatim>\<open>SpawnAvatar\<close> rolls back and the cleanup of a disconnected session
  deletes the avatar (\<^verbatim>\<open>golem/avatar.go\<close>): the collider is not unregistered.  The game may add and take
  away shapes of its own under identifiers of no entity.  \<open>other\<close> is anything else the
  server and the game do: the registry stays, and registered entities keep their identifier and their
  collider; shapes may move.  A new entity is one that is not registered.  The set collects the
  identifiers that can have a shape without an entity.
\<close>

definition sameColliders ::
  "('e, 's2, 's3) colliderIface \<Rightarrow> 'e srvEnv \<Rightarrow> 'e Server \<Rightarrow> 'e Server \<Rightarrow> bool" where
  "sameColliders ci env s s' \<longleftrightarrow>
     rg_entities (sv_reg s') = rg_entities (sv_reg s)
     \<and> (\<forall>i r. reg_Get (sv_reg s) i = Some r \<longrightarrow>
          ei_EntityID (en_ifc env) (sv_heap s' r) = ei_EntityID (en_ifc env) (sv_heap s r)
          \<and> ci_Collider ci (sv_heap s' r) = ci_Collider ci (sv_heap s r)
          \<and> ci_Collider3D ci (sv_heap s' r) = ci_Collider3D ci (sv_heap s r))"

definition freshStart :: "('e, ('s2, 'p2) backend, ('s3, 'p3) backend) colliderServer \<Rightarrow> bool" where
  "freshStart w \<longleftrightarrow> rg_entities (sv_reg (cs_srv w)) = []
     \<and> (\<forall>l. cs_layers w = Some l \<longrightarrow> lay_backend l = Some []) \<and> (\<forall>l. cs_layers3D w = Some l \<longrightarrow> lay_backend l = Some [])"

inductive colliderReach ::
  "('s2, ('s2, 'p2) backend) backendOps \<Rightarrow> ('s3, ('s3, 'p3) backend) backendOps \<Rightarrow> ('e, 's2, 's3) colliderIface \<Rightarrow> 'e srvEnv
     \<Rightarrow> ('e, ('s2, 'p2) backend, ('s3, 'p3) backend) colliderServer
     \<Rightarrow> ('e, ('s2, 'p2) backend, ('s3, 'p3) backend) colliderServer \<Rightarrow> int64 set \<Rightarrow> bool" for ops2 ops3 ci env w0 where
  start: "freshStart w0 \<Longrightarrow> colliderReach ops2 ops3 ci env w0 w0 {}"
| create: "colliderReach ops2 ops3 ci env w0 w G \<Longrightarrow> \<forall>i. reg_Get (sv_reg (cs_srv w)) i \<noteq> Some e \<Longrightarrow>
    CreateCollidable ops2 ops3 ci env e owner w = (r, sp, w') \<Longrightarrow> (\<forall>p. r \<noteq> CreatePanicked p) \<Longrightarrow> colliderReach ops2 ops3 ci env w0 w' G"
| delete: "colliderReach ops2 ops3 ci env w0 w G \<Longrightarrow> DeleteCollidable ops2 ops3 ci env i w = (None, sp, w') \<Longrightarrow> colliderReach ops2 ops3 ci env w0 w' G"
| removed: "colliderReach ops2 ops3 ci env w0 w G \<Longrightarrow> colliderReach ops2 ops3 ci env w0 (w\<lparr>cs_srv := deleteFromRegistry env i (cs_srv w)\<rparr>) (insert i G)"
| other: "colliderReach ops2 ops3 ci env w0 w G \<Longrightarrow> sameColliders ci env (cs_srv w) s \<Longrightarrow> colliderReach ops2 ops3 ci env w0 (w\<lparr>cs_srv := s\<rparr>) G"
| moved: "colliderReach ops2 ops3 ci env w0 w G \<Longrightarrow> cs_layers w = Some l \<Longrightarrow> lay_backend l = Some b \<Longrightarrow>
    colliderReach ops2 ops3 ci env w0 (w\<lparr>cs_layers := Some (l\<lparr>lay_backend := Some (sb_Update i p b)\<rparr>)\<rparr>) G"
| moved3D: "colliderReach ops2 ops3 ci env w0 w G \<Longrightarrow> cs_layers3D w = Some l \<Longrightarrow> lay_backend l = Some b \<Longrightarrow>
    colliderReach ops2 ops3 ci env w0 (w\<lparr>cs_layers3D := Some (l\<lparr>lay_backend := Some (sb_Update i p b)\<rparr>)\<rparr>) G"
| placed: "colliderReach ops2 ops3 ci env w0 w G \<Longrightarrow> cs_layers w = Some l \<Longrightarrow> lay_backend l = Some b \<Longrightarrow> sv_Get (cs_srv w) i = None \<Longrightarrow>
    colliderReach ops2 ops3 ci env w0 (w\<lparr>cs_layers := Some (l\<lparr>lay_backend := Some (bo_Add ops2 i sh ly mk tr b)\<rparr>)\<rparr>) (insert i G)"
| placed3D: "colliderReach ops2 ops3 ci env w0 w G \<Longrightarrow> cs_layers3D w = Some l \<Longrightarrow> lay_backend l = Some b \<Longrightarrow> sv_Get (cs_srv w) i = None \<Longrightarrow>
    colliderReach ops2 ops3 ci env w0 (w\<lparr>cs_layers3D := Some (l\<lparr>lay_backend := Some (bo_Add ops3 i sh3 ly mk tr b)\<rparr>)\<rparr>) (insert i G)"
| taken: "colliderReach ops2 ops3 ci env w0 w G \<Longrightarrow> cs_layers w = Some l \<Longrightarrow> lay_backend l = Some b \<Longrightarrow> sv_Get (cs_srv w) i = None \<Longrightarrow>
    colliderReach ops2 ops3 ci env w0 (w\<lparr>cs_layers := Some (l\<lparr>lay_backend := Some (bo_Remove ops2 i b)\<rparr>)\<rparr>) G"
| taken3D: "colliderReach ops2 ops3 ci env w0 w G \<Longrightarrow> cs_layers3D w = Some l \<Longrightarrow> lay_backend l = Some b \<Longrightarrow> sv_Get (cs_srv w) i = None \<Longrightarrow>
    colliderReach ops2 ops3 ci env w0 (w\<lparr>cs_layers3D := Some (l\<lparr>lay_backend := Some (bo_Remove ops3 i b)\<rparr>)\<rparr>) G"

text \<open>What holds on the way: registered entities carry the identifier they are registered under.\<close>

definition keysOK :: "'e srvEnv \<Rightarrow> 'e Server \<Rightarrow> bool" where
  "keysOK env s \<longleftrightarrow> (\<forall>i r. reg_Get (sv_reg s) i = Some r \<longrightarrow> ei_EntityID (en_ifc env) (sv_heap s r) = i)"

definition layersAs :: "'b Layers option \<Rightarrow> 'b Layers option \<Rightarrow> bool" where
  "layersAs lo lo' \<longleftrightarrow> rel_option (\<lambda>l l'. lay_indices l' = lay_indices l \<and> lay_matrix l' = lay_matrix l) lo lo'"

definition collidersInv where
  "collidersInv ci env w0 w G \<longleftrightarrow> keysOK env (cs_srv w)
     \<and> followsRegistry G (ci_Collider ci) (cs_srv w) (cs_layers w) \<and> followsRegistry G (ci_Collider3D ci) (cs_srv w) (cs_layers3D w)
     \<and> layersAs (cs_layers w0) (cs_layers w) \<and> layersAs (cs_layers3D w0) (cs_layers3D w)"

lemma sb_Update_view: "map_option entryView (map_of (sb_Update i p b) j) = map_option entryView (map_of b j)"
  by (auto simp: sb_Update_def entryView_def split: option.splits)

lemma sb_Update_dom: "map_of (sb_Update i p b) j = None \<longleftrightarrow> map_of b j = None"
  by (auto simp: sb_Update_def split: option.splits)

lemma followsI:
  assumes "lay_backend l = Some b" and "\<And>i. entryRight G l provider s i (map_option entryView (map_of b i))"
    and "\<And>i e sh ly tr. sv_Get s i = Some e \<Longrightarrow> provider e = Some (sh, ly, tr) \<Longrightarrow> map_of (lay_indices l) ly \<noteq> None"
  shows "followsRegistry G provider s (Some l)"
  using assms unfolding followsRegistry_def by blast

lemma followsE:
  assumes "followsRegistry G provider s (Some l)"
  obtains b where "lay_backend l = Some b" and "\<And>i. entryRight G l provider s i (map_option entryView (map_of b i))"
    and "\<And>i e sh ly tr. sv_Get s i = Some e \<Longrightarrow> provider e = Some (sh, ly, tr) \<Longrightarrow> map_of (lay_indices l) ly \<noteq> None"
  using assms unfolding followsRegistry_def by metis

lemma entryRight_mono: "entryRight G l provider s i v \<Longrightarrow> G \<subseteq> G' \<Longrightarrow> entryRight G' l provider s i v"
  by (auto simp: entryRight_def split: option.splits)

text \<open>Changes of the layers, the registry and the back end that leave the entry of an identifier right.\<close>

lemma entryRight_same:
  assumes "entryRight G l provider s i v" and "lay_indices l' = lay_indices l" "lay_matrix l' = lay_matrix l"
    and "Option.bind (sv_Get s' i) provider = Option.bind (sv_Get s i) provider"
  shows "entryRight G l' provider s' i v"
  using assms(1) unfolding entryRight_def wantedView_same [OF assms(2,3)] by (simp add: wantedView_def assms(4))

lemma entryRight_gone:
  "entryRight G l provider s i v \<Longrightarrow> sv_Get s' i = None \<Longrightarrow> entryRight (insert i G) l provider s' i v"
  by (auto simp: entryRight_def wantedView_def split: option.splits)

lemma follows_moved:
  assumes "followsRegistry G provider s (Some l)" and "lay_backend l = Some b"
  shows "followsRegistry G provider s (Some (l\<lparr>lay_backend := Some (sb_Update i p b)\<rparr>))"
proof (rule followsE [OF assms(1)])
  fix b' assume b': "lay_backend l = Some b'" "\<And>i. entryRight G l provider s i (map_option entryView (map_of b' i))"
    "\<And>i e sh ly tr. sv_Get s i = Some e \<Longrightarrow> provider e = Some (sh, ly, tr) \<Longrightarrow> map_of (lay_indices l) ly \<noteq> None"
  show ?thesis
  proof (rule followsI)
    show "entryRight G (l\<lparr>lay_backend := Some (sb_Update i p b)\<rparr>) provider s j (map_option entryView (map_of (sb_Update i p b) j))" for j
      unfolding sb_Update_view using entryRight_same [OF b'(2), where s' = s and l' = "l\<lparr>lay_backend := Some (sb_Update i p b)\<rparr>"] b'(1) assms(2)
      by simp
  qed (use b'(3) in simp_all)
qed

lemma follows_same:
  assumes F: "followsRegistry G provider s lo" and B: "\<And>i. Option.bind (sv_Get s' i) provider = Option.bind (sv_Get s i) provider"
  shows "followsRegistry G provider s' lo"
proof (cases lo)
  case None
  then show ?thesis by (simp add: followsRegistry_def)
next
  case (Some l)
  show ?thesis
  proof (rule followsE [OF F [unfolded Some]])
    fix b assume b: "lay_backend l = Some b" "\<And>i. entryRight G l provider s i (map_option entryView (map_of b i))"
      "\<And>i e sh ly tr. sv_Get s i = Some e \<Longrightarrow> provider e = Some (sh, ly, tr) \<Longrightarrow> map_of (lay_indices l) ly \<noteq> None"
    show ?thesis
      unfolding Some
    proof (rule followsI [OF b(1)])
      show "entryRight G l provider s' i (map_option entryView (map_of b i))" for i
        using entryRight_same [OF b(2) refl refl B] .
    next
      fix i e sh ly tr assume h: "sv_Get s' i = Some e" "provider e = Some (sh, ly, tr)"
      then obtain e' where "sv_Get s i = Some e'" "provider e' = Some (sh, ly, tr)"
        using B [of i] by (cases "sv_Get s i") auto
      then show "map_of (lay_indices l) ly \<noteq> None" using b(3) by blast
    qed
  qed
qed

text \<open>An entity left the registry and its shape stayed.\<close>

lemma follows_removed:
  assumes F: "followsRegistry G provider s lo" and get: "\<And>j. sv_Get s' j = (if j = i then None else sv_Get s j)"
  shows "followsRegistry (insert i G) provider s' lo"
proof (cases lo)
  case None
  then show ?thesis by (simp add: followsRegistry_def)
next
  case (Some l)
  show ?thesis
  proof (rule followsE [OF F [unfolded Some]])
    fix b assume b: "lay_backend l = Some b" "\<And>i. entryRight G l provider s i (map_option entryView (map_of b i))"
      "\<And>i e sh ly tr. sv_Get s i = Some e \<Longrightarrow> provider e = Some (sh, ly, tr) \<Longrightarrow> map_of (lay_indices l) ly \<noteq> None"
    show ?thesis
      unfolding Some
    proof (rule followsI [OF b(1)])
      fix j
      show "entryRight (insert i G) l provider s' j (map_option entryView (map_of b j))"
      proof (cases "j = i")
        case True
        then show ?thesis using get entryRight_gone [OF b(2) [of i], of s'] by simp
      next
        case False
        then have "entryRight G l provider s' j (map_option entryView (map_of b j))"
          using entryRight_same [OF b(2) refl refl, where s' = s'] get by simp
        then show ?thesis by (rule entryRight_mono) blast
      qed
    qed (use get b(3) in \<open>auto split: if_splits\<close>)
  qed
qed

text \<open>A shape under an identifier of no entity was added or taken away.\<close>

lemma follows_shape:
  assumes F: "followsRegistry G provider s (Some l)" and b: "lay_backend l = Some b" and i: "sv_Get s i = None"
    and view: "\<And>j. j \<noteq> i \<Longrightarrow> map_option entryView (map_of b' j) = map_option entryView (map_of b j)"
    and own: "map_of b' i \<noteq> None \<Longrightarrow> i \<in> G' \<and> en_id (the (map_of b' i)) = i" and G: "G \<subseteq> G'"
  shows "followsRegistry G' provider s (Some (l\<lparr>lay_backend := Some b'\<rparr>))"
proof (rule followsE [OF F])
  fix b0 assume b0: "lay_backend l = Some b0" "\<And>i. entryRight G l provider s i (map_option entryView (map_of b0 i))"
    "\<And>i e sh ly tr. sv_Get s i = Some e \<Longrightarrow> provider e = Some (sh, ly, tr) \<Longrightarrow> map_of (lay_indices l) ly \<noteq> None"
  show ?thesis
  proof (rule followsI)
    fix j
    have "entryRight G' l provider s j (map_option entryView (map_of b' j))"
    proof (cases "j = i")
      case True
      then show ?thesis using own i by (auto simp: entryRight_def wantedView_def entryView_def split: option.splits)
    next
      case False
      have "b0 = b" using b0(1) b by simp
      then have "entryRight G l provider s j (map_option entryView (map_of b' j))" unfolding view [OF False] using b0(2) by simp
      then show ?thesis by (rule entryRight_mono [OF _ G])
    qed
    then show "entryRight G' (l\<lparr>lay_backend := Some b'\<rparr>) provider s j (map_option entryView (map_of b' j))"
      by (rule entryRight_same) simp_all
  qed (use b0(3) in simp_all)
qed

context keyed_backend
begin

lemma follows_placed:
  assumes "followsRegistry G provider s (Some l)" "lay_backend l = Some b" "sv_Get s i = None"
  shows "followsRegistry (insert i G) provider s (Some (l\<lparr>lay_backend := Some (bo_Add ops i sh ly mk tr b)\<rparr>))"
proof (rule follows_shape [OF assms])
  assume n: "map_of (bo_Add ops i sh ly mk tr b) i \<noteq> None"
  show "i \<in> insert i G \<and> en_id (the (map_of (bo_Add ops i sh ly mk tr b) i)) = i"
  proof (cases sh)
    case None
    then have v: "map_option entryView (map_of (bo_Add ops i sh ly mk tr b) i) = map_option entryView (map_of b i)"
      using add_view [of i sh ly mk tr b i] by simp
    obtain ent where e: "map_of (bo_Add ops i sh ly mk tr b) i = Some ent" using n by blast
    have "entryRight G l provider s i (map_option entryView (map_of b i))"
      using assms(1,2) by (auto elim: followsE)
    then show ?thesis using assms(3) e v by (auto simp: entryRight_def wantedView_def entryView_def split: option.splits)
  next
    case (Some x)
    then show ?thesis using add_view [of i sh ly mk tr b i] n by (auto simp: entryView_def)
  qed
qed (use add_view [of i sh ly mk tr b] in \<open>auto simp del: map_option_eq_Some option.map_disc_iff\<close>)

lemma follows_taken:
  assumes "followsRegistry G provider s (Some l)" "lay_backend l = Some b" "sv_Get s i = None"
  shows "followsRegistry G provider s (Some (l\<lparr>lay_backend := Some (bo_Remove ops i b)\<rparr>))"
  by (rule follows_shape [OF assms])
     (use remove_view [of i b] remove_self in \<open>auto simp del: map_option_eq_Some option.map_disc_iff\<close>)

text \<open>An entity was added: its shape is the only change.\<close>

lemma follows_registered:
  assumes "followsRegistry G provider s lo" and "registerOn ops (provider e) i lo = (None, lo')"
    and get: "\<And>j. sv_Get s' j = (if j = i then Some e else sv_Get s j)" and "sv_Get s i = None"
  shows "followsRegistry G provider s' lo' \<and> layersAs lo lo'"
proof (cases lo)
  case None
  then show ?thesis using assms(2) by (auto simp: registerOn_def followsRegistry_def layersAs_def split: option.splits)
next
  case (Some l)
  obtain b where b: "lay_backend l = Some b" "\<And>j. entryRight G l provider s j (map_option entryView (map_of b j))"
    "\<And>j e sh ly tr. sv_Get s j = Some e \<Longrightarrow> provider e = Some (sh, ly, tr) \<Longrightarrow> map_of (lay_indices l) ly \<noteq> None"
    using followsE [OF assms(1) [unfolded Some]] by metis
  obtain l' where l': "lo' = Some l'" using assms(2) Some by (auto simp: registerOn_def apsnd_eq split: option.splits)
  obtain b' where b': "lay_backend l' = Some b'" and same: "lay_indices l' = lay_indices l" "lay_matrix l' = lay_matrix l"
    and view: "\<And>j. map_option entryView (map_of b' j) =
        (case provider e of
           Some (Some sh, ly, tr) \<Rightarrow>
             if j = i then map_option (\<lambda>k. (i, sh, shl1 k, lay_matrix l ! k, tr)) (map_of (lay_indices l) ly)
             else map_option entryView (map_of b j)
         | _ \<Rightarrow> map_option entryView (map_of b j))"
    and dom: "\<And>sh ly tr. provider e = Some (sh, ly, tr) \<Longrightarrow> map_of (lay_indices l) ly \<noteq> None"
    using registerOn_view [OF assms(2) [unfolded Some l'] b(1)] by blast
  have "entryRight G l' provider s' j (map_option entryView (map_of b' j))" for j
  proof (cases "j = i")
    case True
    then show ?thesis
      using b(2) [of i] dom unfolding view entryRight_def wantedView_same [OF same]
      by (auto simp: wantedView_def get assms(4) split: option.splits)
  next
    case False
    have "map_option entryView (map_of b' j) = map_option entryView (map_of b j)"
      unfolding view using False by (simp split: option.split prod.split)
    then show ?thesis using entryRight_same [OF b(2) same, where s' = s'] False by (simp add: get)
  qed
  moreover have "map_of (lay_indices l') ly \<noteq> None" if "sv_Get s' j = Some e'" "provider e' = Some (sh, ly, tr)" for j e' sh ly tr
    using that b(3) dom unfolding same by (simp add: get split: if_splits)
  ultimately have "followsRegistry G provider s' lo'" unfolding l' by (rule followsI [OF b'])
  then show ?thesis by (simp add: layersAs_def l' Some same)
qed

lemma follows_unregistered:
  assumes "followsRegistry G provider s lo" and "unregisterOn ops (provider e) i lo = (None, lo')"
    and get: "\<And>j. sv_Get s' j = (if j = i then None else sv_Get s j)" and e: "sv_Get s i = Some e"
  shows "followsRegistry G provider s' lo' \<and> layersAs lo lo'"
proof (cases lo)
  case None
  then show ?thesis using assms(2) by (auto simp: unregisterOn_def followsRegistry_def layersAs_def split: option.splits)
next
  case (Some l)
  obtain b where b: "lay_backend l = Some b" "\<And>j. entryRight G l provider s j (map_option entryView (map_of b j))"
    "\<And>j e sh ly tr. sv_Get s j = Some e \<Longrightarrow> provider e = Some (sh, ly, tr) \<Longrightarrow> map_of (lay_indices l) ly \<noteq> None"
    using followsE [OF assms(1) [unfolded Some]] by metis
  obtain l' where l': "lo' = Some l'" using assms(2) Some by (auto simp: unregisterOn_def apsnd_eq split: option.splits)
  obtain b' where b': "lay_backend l' = Some b'" and same: "lay_indices l' = lay_indices l" "lay_matrix l' = lay_matrix l"
    and view: "\<And>j. map_option entryView (map_of b' j) =
      (if j = i \<and> provider e \<noteq> None then None else map_option entryView (map_of b j))"
    using unregisterOn_view [OF assms(2) [unfolded Some l'] b(1)] by blast
  have "entryRight G l' provider s' j (map_option entryView (map_of b' j))" for j
  proof (cases "j = i")
    case True
    then show ?thesis
      using b(2) [of i] e unfolding view entryRight_def wantedView_same [OF same]
      by (auto simp: wantedView_def get split: option.splits)
  next
    case False
    have "map_option entryView (map_of b' j) = map_option entryView (map_of b j)" unfolding view using False by simp
    then show ?thesis using entryRight_same [OF b(2) same, where s' = s'] False by (simp add: get)
  qed
  moreover have "map_of (lay_indices l') ly \<noteq> None" if "sv_Get s' j = Some e'" "provider e' = Some (sh, ly, tr)" for j e' sh ly tr
    using that b(3) unfolding same by (simp add: get split: if_splits)
  ultimately have "followsRegistry G provider s' lo'" unfolding l' by (rule followsI [OF b'])
  then show ?thesis by (simp add: layersAs_def l' Some same)
qed

end

lemma CreateEntity_get:
  assumes c: "CreateEntity env e owner s = (err, sp, s')" and ne: "\<forall>i. reg_Get (sv_reg s) i \<noteq> Some e"
  shows "err \<noteq> None \<Longrightarrow> sv_Get s' = sv_Get s"
    and "err = None \<Longrightarrow> sv_Get s (ei_EntityID (en_ifc env) (sv_heap s' e)) = None
      \<and> sv_Get s' = (sv_Get s)(ei_EntityID (en_ifc env) (sv_heap s' e) \<mapsto> sv_heap s' e)"
    and "keysOK env s \<Longrightarrow> keysOK env s'"
proof -
  have h: "\<forall>x. x \<noteq> e \<longrightarrow> sv_heap s' x = sv_heap s x"
    using c by (auto simp: CreateEntity_def nextID_def Let_def split: if_splits option.splits prod.splits)
  have r: "if err = None then reg_Get (sv_reg s) (ei_EntityID (en_ifc env) (sv_heap s' e)) = None
      \<and> reg_Get (sv_reg s') = (reg_Get (sv_reg s))(ei_EntityID (en_ifc env) (sv_heap s' e) \<mapsto> e) else reg_Get (sv_reg s') = reg_Get (sv_reg s)"
    using c by (auto simp: CreateEntity_def nextID_def AddOwnedWithoutSpawn_def AddWithoutSpawn_def Let_def reg_Get_def fun_eq_iff
        split: if_splits option.splits prod.splits)
  have old: "map_option (sv_heap s') (reg_Get (sv_reg s) i) = map_option (sv_heap s) (reg_Get (sv_reg s) i)" for i
    using h ne by (cases "reg_Get (sv_reg s) i") auto
  show "err \<noteq> None \<Longrightarrow> sv_Get s' = sv_Get s" using r old by (simp add: sv_Get_def fun_eq_iff)
  show "err = None \<Longrightarrow> sv_Get s (ei_EntityID (en_ifc env) (sv_heap s' e)) = None
      \<and> sv_Get s' = (sv_Get s)(ei_EntityID (en_ifc env) (sv_heap s' e) \<mapsto> sv_heap s' e)"
    using r old by (simp add: sv_Get_def fun_eq_iff)
  show "keysOK env s \<Longrightarrow> keysOK env s'"
    unfolding keysOK_def using r h ne by (auto split: if_splits; metis)
qed

lemma follows_mono: "followsRegistry G provider s lo \<Longrightarrow> followsRegistry (insert i G) provider s lo"
  unfolding followsRegistry_def by (blast intro: entryRight_mono)

lemma follows_get: "followsRegistry G provider s lo \<Longrightarrow> sv_Get s' = sv_Get s \<Longrightarrow> followsRegistry G provider s' lo"
  by (rule follows_same) simp_all

lemma layersAs_trans: "layersAs a b \<Longrightarrow> layersAs b c \<Longrightarrow> layersAs a c"
  by (cases a; cases b; cases c) (auto simp: layersAs_def)

lemma layersAs_refl: "layersAs a a"
  by (cases a) (auto simp: layersAs_def)

lemma clearAvatar_same: "sv_reg (clearAvatarByEntity i s) = sv_reg s" "sv_heap (clearAvatarByEntity i s) = sv_heap s"
  by (auto simp: clearAvatarByEntity_def Let_def split: option.splits)

locale two_backends = one: keyed_backend ops2 + two: keyed_backend ops3
  for ops2 :: "('s2, ('s2, 'p2) backend) backendOps" and ops3 :: "('s3, ('s3, 'p3) backend) backendOps"
begin

lemma inv_created:
  assumes I: "collidersInv ci env w0 w G" and ne: "\<forall>i. reg_Get (sv_reg (cs_srv w)) i \<noteq> Some e"
    and c: "CreateCollidable ops2 ops3 ci env e owner w = (r, sp, w')" "\<forall>p. r \<noteq> CreatePanicked p"
  shows "collidersInv ci env w0 w' G"
proof -
  obtain err sp' s where ce: "CreateEntity env e owner (cs_srv w) = (err, sp', s)" by (metis prod.exhaust)
  note G = CreateEntity_get [OF ce ne]
  have K: "keysOK env s" using G(3) I by (simp add: collidersInv_def)
  show ?thesis
  proof (cases err)
    case (Some x)
    then have "w' = w\<lparr>cs_srv := s\<rparr>" using c ce by (simp add: CreateCollidable_def)
    moreover have "sv_Get s = sv_Get (cs_srv w)" using G(1) Some by simp
    ultimately show ?thesis using I K by (auto simp: collidersInv_def intro: follows_get)
  next
    case None
    let ?k = "ei_EntityID (en_ifc env) (sv_heap s e)"
    have get: "sv_Get s j = (if j = ?k then Some (sv_heap s e) else sv_Get (cs_srv w) j)" "sv_Get (cs_srv w) ?k = None" for j
      using G(2) [OF None] by simp_all
    obtain l l3 where reg: "registerOn ops2 (ci_Collider ci (sv_heap s e)) ?k (cs_layers w) = (None, l)"
        "registerOn ops3 (ci_Collider3D ci (sv_heap s e)) ?k (cs_layers3D w) = (None, l3)"
      and w': "w' = w\<lparr>cs_srv := s, cs_layers := l, cs_layers3D := l3\<rparr>"
      using c ce None by (auto simp: CreateCollidable_def registerCollider_def split: prod.splits option.splits)
    have "followsRegistry G (ci_Collider ci) s l \<and> layersAs (cs_layers w) l"
      using I by (intro one.follows_registered [where provider = "ci_Collider ci" and e = "sv_heap s e", OF _ reg(1) get]) (simp add: collidersInv_def)
    moreover have "followsRegistry G (ci_Collider3D ci) s l3 \<and> layersAs (cs_layers3D w) l3"
      using I by (intro two.follows_registered [where provider = "ci_Collider3D ci" and e = "sv_heap s e", OF _ reg(2) get]) (simp add: collidersInv_def)
    ultimately show ?thesis using I K by (auto simp: collidersInv_def w' intro: layersAs_trans)
  qed
qed

lemma inv_deleted:
  assumes I: "collidersInv ci env w0 w G" and d: "DeleteCollidable ops2 ops3 ci env i w = (None, sp, w')"
  shows "collidersInv ci env w0 w' G"
proof -
  define s where "s = clearAvatarByEntity i (cs_srv w)"
  have S: "sv_reg s = sv_reg (cs_srv w)" "sv_heap s = sv_heap (cs_srv w)" by (simp_all add: s_def clearAvatar_same)
  have G: "sv_Get s = sv_Get (cs_srv w)" by (simp add: sv_Get_def fun_eq_iff S)
  have K: "keysOK env s" using I S by (simp add: collidersInv_def keysOK_def)
  show ?thesis
  proof (cases "sv_Get s i")
    case None
    then have "map_of (rg_entities (sv_reg s)) i = None" by (simp add: sv_Get_def reg_Get_def)
    then have "w' = w\<lparr>cs_srv := s\<rparr>"
      using d None by (simp add: DeleteCollidable_def s_def [symmetric] reg_DeleteEntity_def Let_def)
    then show ?thesis using I K G by (auto simp: collidersInv_def intro: follows_get)
  next
    case (Some e)
    then obtain r where r: "reg_Get (sv_reg s) i = Some r" "sv_heap s r = e" by (auto simp: sv_Get_def)
    then have id: "ei_EntityID (en_ifc env) e = i" using K by (auto simp: keysOK_def)
    obtain r' where r': "sv_reg (cs_srv w') = r'" "reg_Get r' = (reg_Get (sv_reg s))(i := None)" "sv_heap (cs_srv w') = sv_heap s"
      and reg: "unregisterOn ops2 (ci_Collider ci e) i (cs_layers w) = (None, cs_layers w')"
        "unregisterOn ops3 (ci_Collider3D ci e) i (cs_layers3D w) = (None, cs_layers3D w')"
      using d Some r id
      by (auto simp: DeleteCollidable_def s_def [symmetric] unregisterCollider_def Let_def reg_DeleteEntity_def reg_Get_def fun_eq_iff
          split: prod.splits option.splits)
    have get: "sv_Get (cs_srv w') j = (if j = i then None else sv_Get (cs_srv w) j)" for j
      by (simp add: sv_Get_def r' G S)
    have e: "sv_Get (cs_srv w) i = Some e" using Some G by simp
    have "followsRegistry G (ci_Collider ci) (cs_srv w') (cs_layers w') \<and> layersAs (cs_layers w) (cs_layers w')"
      using I by (intro one.follows_unregistered [where provider = "ci_Collider ci" and e = e, OF _ reg(1) get e]) (simp add: collidersInv_def)
    moreover have "followsRegistry G (ci_Collider3D ci) (cs_srv w') (cs_layers3D w') \<and> layersAs (cs_layers3D w) (cs_layers3D w')"
      using I by (intro two.follows_unregistered [where provider = "ci_Collider3D ci" and e = e, OF _ reg(2) get e]) (simp add: collidersInv_def)
    moreover have "keysOK env (cs_srv w')" using K by (auto simp: keysOK_def r' split: if_splits)
    ultimately show ?thesis using I by (auto simp: collidersInv_def intro: layersAs_trans)
  qed
qed

lemma inv_same:
  assumes I: "collidersInv ci env w0 w G" and "sameColliders ci env (cs_srv w) s"
  shows "collidersInv ci env w0 (w\<lparr>cs_srv := s\<rparr>) G"
proof -
  have r: "reg_Get (sv_reg s) = reg_Get (sv_reg (cs_srv w))" using assms(2) by (simp add: sameColliders_def reg_Get_def fun_eq_iff)
  have "Option.bind (sv_Get s i) (ci_Collider ci) = Option.bind (sv_Get (cs_srv w) i) (ci_Collider ci)"
    "Option.bind (sv_Get s i) (ci_Collider3D ci) = Option.bind (sv_Get (cs_srv w) i) (ci_Collider3D ci)" for i
    using assms(2) r by (cases "reg_Get (sv_reg (cs_srv w)) i"; auto simp: sv_Get_def sameColliders_def)+
  moreover have "keysOK env s" using assms r by (auto simp: keysOK_def sameColliders_def collidersInv_def)
  ultimately show ?thesis using I by (auto simp: collidersInv_def intro: follows_same)
qed

lemma inv_removed:
  assumes I: "collidersInv ci env w0 w G"
  shows "collidersInv ci env w0 (w\<lparr>cs_srv := deleteFromRegistry env i (cs_srv w)\<rparr>) (insert i G)"
proof -
  let ?s = "deleteFromRegistry env i (cs_srv w)"
  have "reg_Get (sv_reg ?s) j = (if j = i then None else reg_Get (sv_reg (cs_srv w)) j)" "sv_heap ?s = sv_heap (cs_srv w)" for j
    by (auto simp: deleteFromRegistry_def reg_DeleteEntity_def reg_Get_def split: option.splits)
  then have "keysOK env ?s" using I by (auto simp: collidersInv_def keysOK_def split: if_splits)
  then show ?thesis
    using I follows_removed [OF _ deleteFromRegistry_Get, of G "ci_Collider ci" "cs_srv w" "cs_layers w" i env]
      follows_removed [OF _ deleteFromRegistry_Get, of G "ci_Collider3D ci" "cs_srv w" "cs_layers3D w" i env]
    by (simp add: collidersInv_def)
qed

lemma reach_inv: "colliderReach ops2 ops3 ci env w0 w G \<Longrightarrow> collidersInv ci env w0 w G"
proof (induction rule: colliderReach.induct)
  case start
  then have "sv_Get (cs_srv w0) i = None" for i by (simp add: freshStart_def sv_Get_def reg_Get_def)
  then show ?case using start
    by (auto simp: collidersInv_def freshStart_def keysOK_def reg_Get_def layersAs_refl followsRegistry_def wantedView_def entryRight_def)
next
  case (create w G e owner r sp w')
  then show ?case using inv_created by blast
next
  case (delete w G i sp w')
  then show ?case using inv_deleted by blast
next
  case (removed w G i)
  show ?case by (rule inv_removed [OF removed.IH])
next
  case (other w G s)
  show ?case by (rule inv_same [OF other.IH other.hyps(2)])
next
  case (moved w G l b i p)
  then show ?case by (cases "cs_layers w0") (auto simp: collidersInv_def layersAs_def follows_moved)
next
  case (moved3D w G l b i p)
  then show ?case by (cases "cs_layers3D w0") (auto simp: collidersInv_def layersAs_def follows_moved)
next
  case (placed w G l b i sh ly mk tr)
  then show ?case
    by (cases "cs_layers w0") (auto simp: collidersInv_def layersAs_def intro: one.follows_placed follows_mono)
next
  case (placed3D w G l b i sh3 ly mk tr)
  then show ?case
    by (cases "cs_layers3D w0") (auto simp: collidersInv_def layersAs_def intro: two.follows_placed follows_mono)
next
  case (taken w G l b i)
  then show ?case by (cases "cs_layers w0") (auto simp: collidersInv_def layersAs_def one.follows_taken)
next
  case (taken3D w G l b i)
  then show ?case by (cases "cs_layers3D w0") (auto simp: collidersInv_def layersAs_def two.follows_taken)
qed

end

interpretation colliderBackends: two_backends "resolvOps G" "simpleOps G" for G
  by (rule two_backends.intro [OF rsvKeyed.keyed_backend_axioms simpleKeyed.keyed_backend_axioms])

text \<open>
  C35.  Shapes follow the registry: if the layers were set before the first entity, then after any
  sequence of creations, deletions, moves and other work in which no registration panicked, both back
  ends hold for each live entity that declares a shape exactly one entry, with the shape, trigger flag,
  layer bit and mask of its declaration.  An identifier without such an entity has no entry, unless
  it is one of \<open>G\<close>: the game added a shape of its own there, or the entity left the registry
  without \<^verbatim>\<open>Server.DeleteEntity\<close>, as the avatar of a session that disconnects does.
\<close>

theorem colliders_follow_registry:
  assumes "colliderReach (resolvOps F) (simpleOps F) ci env w0 w G"
  shows "(\<forall>l. cs_layers w = Some l \<longrightarrow> (\<exists>b. lay_backend l = Some b
            \<and> (\<forall>i. entryRight G l (ci_Collider ci) (cs_srv w) i (map_option entryView (map_of b i)))))
    \<and> (\<forall>l. cs_layers3D w = Some l \<longrightarrow> (\<exists>b. lay_backend l = Some b
            \<and> (\<forall>i. entryRight G l (ci_Collider3D ci) (cs_srv w) i (map_option entryView (map_of b i)))))"
  using colliderBackends.reach_inv [OF assms] unfolding collidersInv_def followsRegistry_def by blast

text \<open>
  The shape of an avatar outlives it: the cleanup after a disconnect takes the avatar out of the
  registry, and the layers keep its entry as it was.
\<close>

lemma sameColliders_avatar:
  "takeAvatarBySession sid s = (r, s') \<Longrightarrow> sameColliders ci env s s'"
  by (auto simp: takeAvatarBySession_def sameColliders_def split: option.splits if_splits)

theorem disconnect_leaves_shape:
  assumes "colliderReach (resolvOps F) (simpleOps F) ci env w0 w G" and "cs_layers3D w = Some l" "lay_backend l = Some b"
    and "map_of (sv_sessionAvatar (cs_srv w)) sid = Some i" "i \<noteq> avatarSpawnPending"
    and "wantedView l (ci_Collider3D ci) (cs_srv w) i = Some x"
    and "cleanupAvatar env sid \<lparr>aw_srv = cs_srv w, aw_interest = m\<rparr> = aw" and "w' = w\<lparr>cs_srv := aw_srv aw\<rparr>"
  shows "colliderReach (resolvOps F) (simpleOps F) ci env w0 w' (insert i G)"
    and "sv_Get (cs_srv w') i = None" and "cs_layers3D w' = Some l" and "map_option entryView (map_of b i) = Some x"
proof -
  obtain s where t: "takeAvatarBySession sid (cs_srv w) = (Some i, s)"
    using assms(4,5) by (simp add: takeAvatarBySession_def)
  have aw: "aw_srv aw = deleteFromRegistry env i s"
    using assms(7) t by (auto simp: cleanupAvatar_def removeFOI_def aw_update_def Let_def)
  have "colliderReach (resolvOps F) (simpleOps F) ci env w0 (w\<lparr>cs_srv := s\<rparr>) G"
    by (rule colliderReach.other [OF assms(1) sameColliders_avatar [OF t]])
  from colliderReach.removed [OF this, of i]
  show "colliderReach (resolvOps F) (simpleOps F) ci env w0 w' (insert i G)" by (simp add: assms(8) aw)
  show "sv_Get (cs_srv w') i = None" by (simp add: assms(8) aw deleteFromRegistry_Get)
  show "cs_layers3D w' = Some l" using assms(2,8) by simp
  have "entryRight G l (ci_Collider3D ci) (cs_srv w) i (map_option entryView (map_of b i))"
    using colliderBackends.reach_inv [OF assms(1)] assms(2,3) unfolding collidersInv_def followsRegistry_def by auto
  then show "map_option entryView (map_of b i) = Some x" by (simp add: entryRight_def assms(6))
qed

section \<open>The contacts of a tick\<close>

definition position3 :: "('e, 'f) posIface \<Rightarrow> 'e \<Rightarrow> 'f Vec3 option" where
  "position3 pif e = map_option (\<lambda>(x, y, z). \<lparr>v3_X = x, v3_Y = y, v3_Z = z\<rparr>) (pi_Position3D pif e)"

lemma updates_view: "map_option entryView (map_of (fold (updatePosition3D pif env) es b) i) = map_option entryView (map_of b i)"
  by (induction es arbitrary: b)
     (simp_all add: updatePosition3D_def sb_Update_view del: map_option_eq_Some option.map_disc_iff split: option.split prod.split)

lemma update_at:
  "map_of b i = Some ent \<Longrightarrow> ei_EntityID (en_ifc env) e = i \<Longrightarrow> position3 pif e = Some p \<Longrightarrow>
    \<exists>ent'. map_of (updatePosition3D pif env e b) i = Some ent' \<and> entryView ent' = entryView ent \<and> en_pos ent' = p"
  "ei_EntityID (en_ifc env) e \<noteq> i \<Longrightarrow> map_of (updatePosition3D pif env e b) i = map_of b i"
  by (auto simp: position3_def updatePosition3D_def sb_Update_def entryView_def split: option.splits)

lemma updates_fold:
  assumes "\<And>e. e \<in> set es \<Longrightarrow> ei_EntityID (en_ifc env) e = i \<Longrightarrow> position3 pif e = Some p"
    and "\<exists>e \<in> set es. ei_EntityID (en_ifc env) e = i" and "map_of b i = Some ent"
  shows "\<exists>ent'. map_of (fold (updatePosition3D pif env) es b) i = Some ent' \<and> entryView ent' = entryView ent \<and> en_pos ent' = p"
  using assms
proof (induction es rule: rev_induct)
  case (snoc e es)
  show ?case
  proof (cases "ei_EntityID (en_ifc env) e = i")
    case True
    obtain ent' where "map_of (fold (updatePosition3D pif env) es b) i = Some ent'" "entryView ent' = entryView ent"
      using updates_view [of pif env es b i] snoc.prems(3) by auto
    then show ?thesis using update_at(1) [OF _ True] snoc.prems(1) [of e] True by fastforce
  next
    case False
    have "\<exists>e \<in> set es. ei_EntityID (en_ifc env) e = i" using snoc.prems(2) False by auto
    then obtain ent' where "map_of (fold (updatePosition3D pif env) es b) i = Some ent'" "entryView ent' = entryView ent" "en_pos ent' = p"
      using snoc.IH snoc.prems(1,3) by auto
    then show ?thesis by (simp add: update_at(2) [OF False])
  qed
qed simp

lemma updates_position:
  assumes "keysOK env s" and "iter_order (en_ordEntities env (rg_entities (sv_reg s))) (rg_entities (sv_reg s))"
    and "sv_Get s i = Some e" "position3 pif e = Some p" and "map_of b i = Some ent"
  shows "\<exists>ent'. map_of (updatePositions3D pif env s b) i = Some ent' \<and> entryView ent' = entryView ent \<and> en_pos ent' = p"
  unfolding updatePositions3D_def
proof (rule updates_fold [OF _ _ assms(5)])
  have live: "x \<in> set (sv_All env s) \<longleftrightarrow> (\<exists>j. sv_Get s j = Some x)" for x
  proof -
    have "r \<in> set (reg_All (en_ordEntities env (rg_entities (sv_reg s))) (sv_reg s)) \<longleftrightarrow> (\<exists>j. reg_Get (sv_reg s) j = Some r)" for r
      using assms(2) by (auto simp: reg_All_def in_map_filter iter_order_def gm_keys_dom reg_Get_def)
    then show ?thesis by (simp add: sv_All_def sv_Get_def image_iff) blast
  qed
  have key: "ei_EntityID (en_ifc env) x = j" if "sv_Get s j = Some x" for x j
    using assms(1) that by (auto simp: keysOK_def sv_Get_def)
  show "\<exists>e \<in> set (sv_All env s). ei_EntityID (en_ifc env) e = i" using live key assms(3) by blast
  show "position3 pif x = Some p" if "x \<in> set (sv_All env s)" "ei_EntityID (en_ifc env) x = i" for x
    using that live key assms(3,4) by fastforce
qed

lemma stepPairs_hit:
  assumes "e \<in> set es" "e' \<in> set es" "e \<noteq> e'" and "f e e' \<noteq> None" "f e' e \<noteq> None"
  shows "\<exists>c \<in> set (stepPairs f es). f e e' = Some c \<or> f e' e = Some c"
  using assms(1,2)
proof (induction es)
  case (Cons x es)
  consider "e = x" "e' \<in> set es" | "e' = x" "e \<in> set es" | "e \<in> set es" "e' \<in> set es" using Cons.prems assms(3) by auto
  then show ?case
    by cases (use assms(4,5) Cons.IH in \<open>fastforce simp: in_map_filter\<close>)+
qed simp

lemma wantedView_Some:
  "wantedView l provider s k = Some v \<longleftrightarrow>
     (\<exists>e sh x tr kx. sv_Get s k = Some e \<and> provider e = Some (Some sh, x, tr) \<and> map_of (lay_indices l) x = Some kx
        \<and> v = (k, sh, shl1 kx, lay_matrix l ! kx, tr))"
  by (cases "sv_Get s k") (auto simp: wantedView_def split: option.splits)

lemma layersInv_same: "layersInv l R \<Longrightarrow> lay_indices l' = lay_indices l \<Longrightarrow> lay_matrix l' = lay_matrix l \<Longrightarrow> layersInv l' R"
  by (simp add: layersInv_def)

lemma overlap3_none_sym: "symmetricOps G \<Longrightarrow> overlap3 G a ap b bp = None \<longleftrightarrow> overlap3 G b bp a ap = None"
  using overlap3_depth_sym [of G a ap b bp] by (cases "overlap3 G a ap b bp"; cases "overlap3 G b bp a ap") auto

lemma contactOf_none_sym: "symmetricOps G \<Longrightarrow> contactOf G a c = None \<longleftrightarrow> contactOf G c a = None"
  using contactOf_sym [of G a c] by (cases "contactOf G a c"; cases "contactOf G c a") auto

lemma contactOf_ids: "contactOf G a c = Some k \<Longrightarrow> ct_A k = en_id a \<and> ct_B k = en_id c"
  by (auto simp: contactOf_def split: if_splits option.splits)

lemma contactOf_ok:
  "contactOf G a c \<noteq> None \<longleftrightarrow> (en_layer a AND en_mask c) \<noteq> 0 \<and> (en_layer c AND en_mask a) \<noteq> 0
     \<and> overlap3 G (en_shape a) (en_pos a) (en_shape c) (en_pos c) \<noteq> None"
  by (auto simp: contactOf_def split: option.splits)

text \<open>A step reports a pair exactly when the test of its two entries succeeds.\<close>

lemma sb_Step_pair:
  assumes sym: "symmetricOps G" and ord: "iter_order ks b" and key: "\<And>k e. map_of b k = Some e \<Longrightarrow> en_id e = k" and ij: "i \<noteq> j"
  shows "(\<exists>c \<in> set (sb_Step G ks b). {ct_A c, ct_B c} = {i, j}) \<longleftrightarrow>
    (\<exists>e e'. map_of b i = Some e \<and> map_of b j = Some e' \<and> contactOf G e e' \<noteq> None)"
proof -
  have mem: "e \<in> set (entriesIn ks b) \<longleftrightarrow> map_of b (en_id e) = Some e" for e
    using entriesIn_set [OF ord] key by (auto simp: ran_def)
  show ?thesis
  proof
    assume "\<exists>c \<in> set (sb_Step G ks b). {ct_A c, ct_B c} = {i, j}"
    then obtain c e e' where c: "{ct_A c, ct_B c} = {i, j}" "map_of b (en_id e) = Some e" "map_of b (en_id e') = Some e'" "contactOf G e e' = Some c"
      unfolding sb_Step_def using stepPairs_from mem by metis
    then have "en_id e = i \<and> en_id e' = j \<or> en_id e = j \<and> en_id e' = i"
      using contactOf_ids [OF c(4)] by (auto simp: doubleton_eq_iff)
    then show "\<exists>e e'. map_of b i = Some e \<and> map_of b j = Some e' \<and> contactOf G e e' \<noteq> None"
      using c(2-4) contactOf_none_sym [OF sym, of e e'] by auto
  next
    assume "\<exists>e e'. map_of b i = Some e \<and> map_of b j = Some e' \<and> contactOf G e e' \<noteq> None"
    then obtain e e' where e: "map_of b i = Some e" "map_of b j = Some e'" "contactOf G e e' \<noteq> None" by blast
    have id: "en_id e = i" "en_id e' = j" using e(1,2) key by blast+
    have m: "e \<in> set (entriesIn ks b)" "e' \<in> set (entriesIn ks b)" "e \<noteq> e'" unfolding mem using id e ij by simp_all blast
    have "contactOf G e' e \<noteq> None" using e(3) contactOf_none_sym [OF sym, of e e'] by simp
    from stepPairs_hit [where f = "contactOf G", OF m e(3) this]
    obtain c where "c \<in> set (sb_Step G ks b)" "contactOf G e e' = Some c \<or> contactOf G e' e = Some c"
      unfolding sb_Step_def by blast
    moreover have "{ct_A c, ct_B c} = {i, j}" using calculation(2) by (auto simp: id dest!: contactOf_ids)
    ultimately show "\<exists>c \<in> set (sb_Step G ks b). {ct_A c, ct_B c} = {i, j}" by blast
  qed
qed

text \<open>When two live entities are in contact, in terms of what they declare.\<close>

definition touching3D ::
  "'f geops \<Rightarrow> ('e, 's2, 'f shape3) colliderIface \<Rightarrow> ('e, 'f) posIface \<Rightarrow> (string \<times> string) set \<Rightarrow> 'e \<Rightarrow> 'e \<Rightarrow> bool" where
  "touching3D G ci pif R e e' \<longleftrightarrow>
     (case (ci_Collider3D ci e, ci_Collider3D ci e', position3 pif e, position3 pif e') of
        (Some (Some sh, x, _), Some (Some sh', y, _), Some p, Some p') \<Rightarrow> (x, y) \<in> R \<and> overlap3 G sh p sh' p' \<noteq> None
      | _ \<Rightarrow> False)"

lemma touching3D_iff:
  "touching3D G ci pif R e e' \<longleftrightarrow>
     (\<exists>sh x tr sh' y tr' p p'. ci_Collider3D ci e = Some (Some sh, x, tr) \<and> ci_Collider3D ci e' = Some (Some sh', y, tr')
        \<and> position3 pif e = Some p \<and> position3 pif e' = Some p' \<and> (x, y) \<in> R \<and> overlap3 G sh p sh' p' \<noteq> None)"
  unfolding touching3D_def by (auto split: option.split)

text \<open>An identifier whose entry, if there is one, stands for no live entity.\<close>

definition shapeWithoutEntity ::
  "int64 set \<Rightarrow> 'b Layers \<Rightarrow> ('e \<Rightarrow> ('s option \<times> string \<times> bool) option) \<Rightarrow> 'e Server \<Rightarrow> int64 \<Rightarrow> bool" where
  "shapeWithoutEntity G l provider s i \<longleftrightarrow> i \<in> G \<and> wantedView l provider s i = None"

text \<open>
  C36.  The contacts of a tick in space are right, from the declarations of the entities to the back
  end.  Two live entities that declare shapes on layers that were configured to collide, and whose shapes
  overlap at the positions the entities have in this tick, are reported in contact; and a pair that
  is reported is such a pair, unless one of the two is a shape without an entity: one the game added
  itself, or one that an avatar deleted straight from the registry left behind.
\<close>

theorem tick_contacts_exact:
  assumes "colliderReach (resolvOps F) (simpleOps F) ci env w0 w G"
    and "cs_layers3D w0 = Some l0" "layersReach (simpleOps F) l0 R" and "cs_layers3D w = Some l" "lay_backend l = Some b"
    and "symmetricOps F" and "iter_order ks (updatePositions3D pif env (cs_srv w) b)"
    and "iter_order (en_ordEntities env (rg_entities (sv_reg (cs_srv w)))) (rg_entities (sv_reg (cs_srv w)))"
    and "\<forall>i e. sv_Get (cs_srv w) i = Some e \<longrightarrow> ci_Collider3D ci e \<noteq> None \<longrightarrow> pi_Position3D pif e \<noteq> None"
    and "i \<noteq> j"
    and "meet \<longleftrightarrow> (\<exists>e e'. sv_Get (cs_srv w) i = Some e \<and> sv_Get (cs_srv w) j = Some e' \<and> touching3D F ci pif R e e')"
    and "reported \<longleftrightarrow>
      (\<exists>c \<in> set (fst (collisionTick3D F pif env ks onContact3D b (cs_srv w))). {ct_A c, ct_B c} = {i, j})"
  shows "(meet \<longrightarrow> reported)
    \<and> (reported \<longrightarrow> meet \<or> shapeWithoutEntity G l (ci_Collider3D ci) (cs_srv w) i
        \<or> shapeWithoutEntity G l (ci_Collider3D ci) (cs_srv w) j)"
proof -
  let ?s = "cs_srv w" and ?b = "updatePositions3D pif env (cs_srv w) b"
  have I: "collidersInv ci env w0 w G" by (rule colliderBackends.reach_inv [OF assms(1)])
  have K: "keysOK env ?s" using I by (simp add: collidersInv_def)
  have right: "entryRight G l (ci_Collider3D ci) ?s k (map_option entryView (map_of b k))"
    and dom: "sv_Get ?s k = Some e \<Longrightarrow> ci_Collider3D ci e = Some (sh, ly, tr) \<Longrightarrow> map_of (lay_indices l) ly \<noteq> None" for k e sh ly tr
    using I assms(4,5) unfolding collidersInv_def followsRegistry_def by auto
  have L: "lay_indices l = lay_indices l0" "lay_matrix l = lay_matrix l0"
    using I assms(2,4) by (auto simp: collidersInv_def layersAs_def)
  have LI: "layersInv l R" using layersInv_same [OF layersReach_inv [OF assms(3)] L] .
  have bview: "map_option entryView (map_of ?b k) = map_option entryView (map_of b k)" for k
    by (simp add: updatePositions3D_def updates_view)
  let ?ghost = "\<lambda>k. shapeWithoutEntity G l (ci_Collider3D ci) ?s k"
  have wanted: "wantedView l (ci_Collider3D ci) ?s k = Some (entryView ent) \<or> ?ghost k \<and> en_id ent = k"
    if "map_of ?b k = Some ent" for k ent
    using right [of k] bview [of k] that
    by (auto simp: entryRight_def shapeWithoutEntity_def entryView_def split: option.splits)
  have key: "en_id ent = k" if "map_of ?b k = Some ent" for k ent
    using wanted [OF that] by (auto simp: wantedView_Some entryView_def)
  have entry: "\<exists>e sh x tr kx p. sv_Get ?s k = Some e \<and> ci_Collider3D ci e = Some (Some sh, x, tr) \<and> position3 pif e = Some p
      \<and> map_of (lay_indices l) x = Some kx \<and> en_shape ent = sh \<and> en_layer ent = shl1 kx \<and> en_mask ent = lay_matrix l ! kx
      \<and> en_pos ent = p" if h: "map_of ?b k = Some ent" "\<not> ?ghost k" for k ent
  proof -
    have "wantedView l (ci_Collider3D ci) ?s k = Some (entryView ent)" using wanted [OF h(1)] h(2) by simp
    then obtain e sh x tr kx where e: "sv_Get ?s k = Some e" "ci_Collider3D ci e = Some (Some sh, x, tr)"
      "map_of (lay_indices l) x = Some kx" "entryView ent = (k, sh, shl1 kx, lay_matrix l ! kx, tr)"
      by (auto simp: wantedView_Some)
    obtain p where p: "position3 pif e = Some p" using assms(9) [rule_format, OF e(1)] e(2) by (cases "pi_Position3D pif e") (auto simp: position3_def)
    obtain ent0 where ent0: "map_of b k = Some ent0"
      using bview [of k] h(1) by (cases "map_of b k") auto
    have "en_pos ent = p" using updates_position [OF K assms(8) e(1) p ent0] h(1) by auto
    then show ?thesis using e p by (auto simp: entryView_def)
  qed
  have there: "\<exists>ent. map_of ?b k = Some ent" if g: "sv_Get ?s k = Some e" "ci_Collider3D ci e = Some (Some sh, x, tr)" for k e sh x tr
  proof -
    obtain v where "wantedView l (ci_Collider3D ci) ?s k = Some v" using dom [OF g] g by (auto simp: wantedView_Some)
    then show ?thesis using right [of k] bview [of k] by (auto simp: entryRight_def)
  qed
  have solid: "\<not> ?ghost k" if "sv_Get ?s k = Some e" "ci_Collider3D ci e = Some (Some sh, x, tr)" for k e sh x tr
    using dom [OF that] that by (auto simp: shapeWithoutEntity_def wantedView_def)
  have masks: "(shl1 kx AND lay_matrix l ! ky) \<noteq> 0 \<longleftrightarrow> (x, y) \<in> R"
    if "map_of (lay_indices l) x = Some kx" "map_of (lay_indices l) y = Some ky" for x y kx ky
    using layersInvD(4) [OF LI that(2,1)] layersInvD(8) [OF LI] shl1_and [OF layersInvD(2) [OF LI that(1)]] by (auto simp: sym_def)
  have symR: "(x, y) \<in> R \<longleftrightarrow> (y, x) \<in> R" for x y using layersInvD(8) [OF LI] by (auto simp: sym_def)
  have step: "reported \<longleftrightarrow>
      (\<exists>ent ent'. map_of ?b i = Some ent \<and> map_of ?b j = Some ent' \<and> contactOf F ent ent' \<noteq> None)"
    unfolding assms(12) using sb_Step_pair [OF assms(6,7) key assms(10)] by (simp add: collisionTick3D_def Let_def)
  have "meet" if rep: reported and g: "\<not> ?ghost i" "\<not> ?ghost j"
  proof -
    obtain ent ent' where h: "map_of ?b i = Some ent" "map_of ?b j = Some ent'" "contactOf F ent ent' \<noteq> None" using rep step by blast
    obtain e sh x tr kx p where e: "sv_Get ?s i = Some e" "ci_Collider3D ci e = Some (Some sh, x, tr)" "position3 pif e = Some p"
      "map_of (lay_indices l) x = Some kx" "en_shape ent = sh" "en_layer ent = shl1 kx" "en_pos ent = p"
      using entry [OF h(1) g(1)] by blast
    obtain e' sh' y tr' ky p' where e': "sv_Get ?s j = Some e'" "ci_Collider3D ci e' = Some (Some sh', y, tr')"
      "position3 pif e' = Some p'" "map_of (lay_indices l) y = Some ky" "en_shape ent' = sh'" "en_mask ent' = lay_matrix l ! ky"
      "en_pos ent' = p'"
      using entry [OF h(2) g(2)] by blast
    have "touching3D F ci pif R e e'"
      using h(3) [unfolded contactOf_ok] masks [OF e(4) e'(4)] e e' by (simp add: touching3D_def)
    then show ?thesis using e(1) e'(1) unfolding assms(11) by blast
  qed
  moreover have "reported" if t: meet
  proof -
    obtain e e' sh x tr sh' y tr' p p' where h: "sv_Get ?s i = Some e" "sv_Get ?s j = Some e'"
      "ci_Collider3D ci e = Some (Some sh, x, tr)" "ci_Collider3D ci e' = Some (Some sh', y, tr')"
      "position3 pif e = Some p" "position3 pif e' = Some p'" "(x, y) \<in> R" "overlap3 F sh p sh' p' \<noteq> None"
      using t unfolding assms(11) touching3D_iff by blast
    obtain ent ent' where ent: "map_of ?b i = Some ent" "map_of ?b j = Some ent'" using there h(1-4) by blast
    obtain kx where kx: "map_of (lay_indices l) x = Some kx" "en_shape ent = sh" "en_layer ent = shl1 kx"
      "en_mask ent = lay_matrix l ! kx" "en_pos ent = p"
      using entry [OF ent(1) solid [OF h(1,3)]] h(1,3,5) by auto
    obtain ky where ky: "map_of (lay_indices l) y = Some ky" "en_shape ent' = sh'" "en_layer ent' = shl1 ky"
      "en_mask ent' = lay_matrix l ! ky" "en_pos ent' = p'"
      using entry [OF ent(2) solid [OF h(2,4)]] h(2,4,6) by auto
    have "contactOf F ent ent' \<noteq> None"
      unfolding contactOf_ok using kx ky h(7,8) masks [OF kx(1) ky(1)] masks [OF ky(1) kx(1)] symR by simp
    then show ?thesis using ent step by blast
  qed
  ultimately show ?thesis by blast
qed

section \<open>Examples\<close>

text \<open>Two spheres of radius 1 on layers that collide, at 1 and 2 on a line.\<close>

definition sphereEnv :: "demoEntity srvEnv" where
  "sphereEnv = \<lparr>en_ifc = demoIface, en_Transport = TransportWebTransport, en_StateUpdateLane = StateUpdateLaneStream,
     en_removalSerializer = None, en_sessions = (\<lambda>_. []), en_protocol = (\<lambda>_. True), en_isClosing = (\<lambda>_ _. False),
     en_ordEntities = map fst, en_ordIDs = map fst, en_ordRefresh = map fst, en_ordChanges = map fst, en_ordFlight = map fst\<rparr>"

definition sphereIface :: "(demoEntity, real shape2, real shape3) colliderIface" where
  "sphereIface = \<lparr>ci_Collider = (\<lambda>_. None),
     ci_Collider3D = (\<lambda>e. Some (Some (Sphere3 1), if de_id e = 1 then ''mob'' else ''wall'', False))\<rparr>"

definition spherePos :: "(demoEntity, real) posIface" where
  "spherePos = \<lparr>pi_Position = (\<lambda>e. (0, 0)), pi_Position3D = (\<lambda>e. Some (of_int (uint (de_id e)), 0, 0))\<rparr>"

definition sphereStart :: "(demoEntity, real ResolvBackend, real SimpleBackend) colliderServer" where
  "sphereStart = \<lparr>cs_srv = \<lparr>sv_idCounter = 2, sv_reg = NewRegistry, sv_heap = demoHeap,
     sv_visibility = NewManager, sv_broadcastKnown = [], sv_ownershipRefresh = [], sv_eventualTrackers = [],
     sv_nextEventualToken = 0, sv_sessionAvatar = [], sv_avatarSession = [], sv_net = [], sv_tick = 1,
     sv_stats = \<lparr>rs_LastTick = 0, rs_DeltasFlushed = 0, rs_StreamBatchedFrames = 0, rs_StreamWireMsgs = 0,
       rs_DatagramBatchedFrames = 0, rs_DatagramWirePayloads = 0\<rparr>\<rparr>, cs_layers = None, cs_layers3D = Some demoDefined\<rparr>"

definition sphereWorld :: "(demoEntity, real ResolvBackend, real SimpleBackend) colliderServer" where
  "sphereWorld = sphereStart\<lparr>cs_srv := (cs_srv sphereStart)\<lparr>sv_reg := NewRegistry\<lparr>rg_entities := [(1, 1), (2, 2)], rg_spawned := [1, 2]\<rparr>\<rparr>,
     cs_layers3D := Some (demoDefined\<lparr>lay_backend := Some
     [(1, \<lparr>en_id = 1, en_shape = Sphere3 1, en_layer = 1, en_mask = 2, en_trigger = False, en_pos = v3zero realOps\<rparr>),
      (2, \<lparr>en_id = 2, en_shape = Sphere3 1, en_layer = 2, en_mask = 1, en_trigger = False, en_pos = v3zero realOps\<rparr>)]\<rparr>)\<rparr>"

lemma sphere_reach: "colliderReach (resolvOps realOps) (simpleOps realOps) sphereIface sphereEnv sphereStart sphereWorld {}"
proof -
  let ?w1 = "sphereStart\<lparr>cs_srv := (cs_srv sphereStart)\<lparr>sv_reg := NewRegistry\<lparr>rg_entities := [(1, 1)], rg_spawned := [1]\<rparr>\<rparr>,
     cs_layers3D := Some (demoDefined\<lparr>lay_backend := Some
     [(1, \<lparr>en_id = 1, en_shape = Sphere3 1, en_layer = 1, en_mask = 2, en_trigger = False, en_pos = v3zero realOps\<rparr>)]\<rparr>)\<rparr>"
  note eval = CreateCollidable_def CreateEntity_def AddWithoutSpawn_def registerCollider_def registerOn_def lay_Add_def withLayer_def
    mustBackend_def LayerBit_def LayerMask_def mustIndex_def simpleOps_def sb_Add_def shl1_def NotifySpawn_def NewRegistry_def
    sphereStart_def sphereEnv_def sphereIface_def demoIface_def demoHeap_def demoDefined_eval(1)
  have s: "freshStart sphereStart"
    by (simp add: freshStart_def sphereStart_def NewRegistry_def demoDefined_eval(1))
  have c1: "CreateCollidable (resolvOps realOps) (simpleOps realOps) sphereIface sphereEnv 1 [] sphereStart = (Created, [], ?w1)"
    by (simp add: eval)
  have c2: "CreateCollidable (resolvOps realOps) (simpleOps realOps) sphereIface sphereEnv 2 [] ?w1 = (Created, [], sphereWorld)"
    by (simp add: eval sphereWorld_def)
  have r1: "colliderReach (resolvOps realOps) (simpleOps realOps) sphereIface sphereEnv sphereStart ?w1 {}"
    by (rule colliderReach.create [OF colliderReach.start [OF s] _ c1]) (simp_all add: sphereStart_def reg_Get_def NewRegistry_def)
  show ?thesis
    by (rule colliderReach.create [OF r1 _ c2]) (simp_all add: sphereStart_def reg_Get_def NewRegistry_def)
qed

theorem colliders_follow_registry_witness:
  "map_option entryView (map_of (the (lay_backend (the (cs_layers3D sphereWorld)))) 2)
     = wantedView (the (cs_layers3D sphereWorld)) (ci_Collider3D sphereIface) (cs_srv sphereWorld) 2
   \<and> wantedView (the (cs_layers3D sphereWorld)) (ci_Collider3D sphereIface) (cs_srv sphereWorld) 2 = Some (2, Sphere3 1, 2, 1, False)"
proof -
  obtain l where l: "cs_layers3D sphereWorld = Some l" by (simp add: sphereWorld_def)
  have "wantedView l (ci_Collider3D sphereIface) (cs_srv sphereWorld) 2 = Some (2, Sphere3 1, 2, 1, False)"
    using l by (auto simp: sphereWorld_def sphereStart_def demoDefined_eval(1) wantedView_def sv_Get_def reg_Get_def demoHeap_def
        sphereIface_def shl1_def)
  moreover obtain b where "lay_backend l = Some b"
    "\<forall>i. entryRight {} l (ci_Collider3D sphereIface) (cs_srv sphereWorld) i (map_option entryView (map_of b i))"
    using colliders_follow_registry [OF sphere_reach] l by blast
  moreover from this(2) [rule_format, of 2] have "map_option entryView (map_of b 2) = Some (2, Sphere3 1, 2, 1, False)"
    unfolding entryRight_def calculation(1) by simp
  ultimately show ?thesis using l by (simp del: map_option_eq_Some)
qed

theorem tick_contacts_exact_witness:
  "\<exists>c \<in> set (fst (collisionTick3D realOps spherePos sphereEnv [1, 2] None
       (the (lay_backend (the (cs_layers3D sphereWorld)))) (cs_srv sphereWorld))). {ct_A c, ct_B c} = {1, 2}"
proof -
  let ?w = sphereWorld
  have sym: "symmetricOps realOps" by (simp add: symmetricOps_def algebra_simps abs_minus_commute)
  have all: "sv_All sphereEnv (cs_srv ?w) = [demoHeap 1, demoHeap 2]"
    by (simp add: sv_All_def reg_All_def sphereWorld_def sphereStart_def sphereEnv_def NewRegistry_def map_filter_simps)
  have ord: "iter_order [1, 2] (updatePositions3D spherePos sphereEnv (cs_srv ?w) (the (lay_backend (the (cs_layers3D ?w)))))"
    by (simp add: updatePositions3D_def all) (simp add: updatePosition3D_def spherePos_def sphereEnv_def demoIface_def demoHeap_def
        sphereWorld_def sb_Update_def iter_order_def gm_keys_def)
  have get: "sv_Get (cs_srv ?w) 1 = Some (demoHeap 1)" "sv_Get (cs_srv ?w) 2 = Some (demoHeap 2)"
    by (simp_all add: sv_Get_def reg_Get_def sphereWorld_def sphereStart_def)
  have t: "touching3D realOps sphereIface spherePos {(''mob'', ''wall''), (''wall'', ''mob'')} (demoHeap 1) (demoHeap 2)"
    by (simp add: touching3D_def sphereIface_def spherePos_def position3_def demoHeap_def overlapSphereSphere_def v3sub_def v3length_def
        v3dot_def v3normalize_def Let_def)
  obtain l b where l: "cs_layers3D ?w = Some l" "lay_backend l = Some b" by (simp add: sphereWorld_def)
  have "(\<exists>c \<in> set (fst (collisionTick3D realOps spherePos sphereEnv [1, 2] None b (cs_srv ?w))). {ct_A c, ct_B c} = {1, 2})"
    by (rule tick_contacts_exact [OF sphere_reach _ demoLayers_reach(1) l sym _ _ _ _ refl refl, where pif = spherePos, THEN conjunct1, rule_format])
      (use ord l get t in \<open>auto simp: sphereStart_def sphereEnv_def spherePos_def sphereWorld_def iter_order_def gm_keys_def NewRegistry_def\<close>)
  then show ?thesis using l by simp
qed

text \<open>
  Entity 2 is the avatar of session 7.  After the cleanup of the disconnect it is not live, and the
  next tick still reports entity 1 in contact with it.
\<close>

definition avatarSpheres :: "demoEntity Server" where
  "avatarSpheres = (cs_srv sphereWorld)\<lparr>sv_sessionAvatar := [(7, 2)], sv_avatarSession := [(2, 7)]\<rparr>"

lemma avatarSpheres_reach:
  "colliderReach (resolvOps realOps) (simpleOps realOps) sphereIface sphereEnv sphereStart (sphereWorld\<lparr>cs_srv := avatarSpheres\<rparr>) {}"
  by (rule colliderReach.other [OF sphere_reach]) (simp add: sameColliders_def avatarSpheres_def)

theorem ghost_in_contact:
  fixes m :: "real interestManager option"
  defines "s \<equiv> aw_srv (cleanupAvatar sphereEnv 7 \<lparr>aw_srv = avatarSpheres, aw_interest = m\<rparr>)"
  shows "sv_Get s 2 = None
    \<and> (\<exists>c \<in> set (fst (collisionTick3D realOps spherePos sphereEnv [1, 2] None
         (the (lay_backend (the (cs_layers3D sphereWorld)))) s)). {ct_A c, ct_B c} = {1, 2})"
proof -
  have s: "sv_reg s = NewRegistry\<lparr>rg_entities := [(1, 1)], rg_spawned := [1, 2], rg_despawned := [2],
      rg_despawnedRevision := [removalRevision demoIface (demoHeap 2)]\<rparr>" "sv_heap s = demoHeap"
    by (auto simp: s_def avatarSpheres_def cleanupAvatar_def removeFOI_def aw_update_def takeAvatarBySession_def avatarSpawnPending_def
        deleteFromRegistry_def reg_DeleteEntity_def sphereWorld_def sphereStart_def NewRegistry_def sphereEnv_def demoIface_def Let_def)
  have all: "sv_All sphereEnv s = [demoHeap 1]"
    by (simp add: sv_All_def reg_All_def s sphereEnv_def NewRegistry_def map_filter_simps)
  have "sv_Get s 2 = None" by (simp add: sv_Get_def reg_Get_def s)
  moreover have "\<exists>c \<in> set (fst (collisionTick3D realOps spherePos sphereEnv [1, 2] None
         (the (lay_backend (the (cs_layers3D sphereWorld)))) s)). {ct_A c, ct_B c} = {1, 2}"
    by (simp add: collisionTick3D_def Let_def updatePositions3D_def all)
       (simp add: updatePosition3D_def spherePos_def sphereEnv_def demoIface_def demoHeap_def sphereWorld_def sb_Update_def
         sb_Step_def entriesIn_def map_filter_simps contactOf_def overlapSphereSphere_def v3sub_def v3length_def v3dot_def v3normalize_def
         v3zero_def Let_def)
  ultimately show ?thesis by blast
qed

end
