(* ===== verification/Footprint.thy ===== *)
theory Footprint
  imports "HOL-Library.Char_ord" "HOL-Library.List_Lexorder" Geometry
begin

text \<open>
  Footprint files (\<^verbatim>\<open>golem/footprint/format.go\<close>, \<^verbatim>\<open>load.go\<close>): collision prefabs, checked after the YAML
  library has decoded them.  The decoder is a parameter; text is ASCII, so trimming and lower case are
  those of ASCII; float64 is the record of \<open>Geometry\<close>.
\<close>

section \<open>Text\<close>

definition isSpace :: "char \<Rightarrow> bool" where
  "isSpace c \<longleftrightarrow> c \<in> {CHR 0x09, CHR 0x0A, CHR 0x0B, CHR 0x0C, CHR 0x0D, CHR '' ''}"

definition TrimSpace :: "string \<Rightarrow> string" where
  "TrimSpace s = rev (dropWhile isSpace (rev (dropWhile isSpace s)))"

definition lowerChar :: "char \<Rightarrow> char" where
  "lowerChar c = (let n = of_char c :: nat in if 65 \<le> n \<and> n \<le> 90 then char_of (n + 32) else c)"

definition ToLower :: "string \<Rightarrow> string" where
  "ToLower s = map lowerChar s"

definition hexChar :: "char \<Rightarrow> bool" where
  "hexChar c \<longleftrightarrow> (let n = of_char c :: nat in 48 \<le> n \<and> n \<le> 57 \<or> 97 \<le> n \<and> n \<le> 102)"

section \<open>Documents and sets\<close>

definition FormatVersion :: int where "FormatVersion = 1"

definition ShapeCircle :: string where "ShapeCircle = ''circle''"
definition ShapeAABB :: string where "ShapeAABB = ''aabb''"
definition ShapeSphere :: string where "ShapeSphere = ''sphere''"

text \<open>A nil map or slice of the decoder is \<open>None\<close>.\<close>

record 'f shapeDoc =
  sd_Type :: string
  sd_R :: 'f
  sd_W :: 'f
  sd_H :: 'f
  sd_D :: 'f
  sd_Offset :: "(string, 'f) gomap option"
  sd_Trigger :: bool
  sd_Layer :: string

record 'f footprintDoc =
  fd_Name :: string
  fd_AssetPath :: string
  fd_Alias :: string
  fd_Shapes :: "'f shapeDoc list option"

record 'f fileDoc =
  doc_Version :: int
  doc_Dimensions :: int
  doc_Footprints :: "(string, 'f footprintDoc) gomap option"

record 'f fpShape =
  sh_Type :: string
  sh_R :: 'f
  sh_W :: 'f
  sh_H :: 'f
  sh_D :: 'f
  sh_OffsetX :: 'f
  sh_OffsetY :: 'f
  sh_OffsetZ :: 'f
  sh_Trigger :: bool
  sh_Layer :: string

record 'f Footprint =
  fp_GUID :: string
  fp_Dimensions :: int
  fp_Name :: string
  fp_AssetPath :: string
  fp_Alias :: string
  fp_Shapes :: "'f fpShape list"

record 'f fpSet =
  fs_Version :: int
  fs_Dimensions :: int
  fs_byGUID :: "(string, 'f Footprint) gomap"
  fs_byAlias :: "(string, 'f Footprint) gomap"

datatype footprintError =
    errVersionRequired
  | errVersion int
  | errDimensionsRequired
  | errDimensions int
  | errFootprintsRequired
  | errDuplicateGUID string
  | errBlankAlias string
  | errDuplicateAlias string
  | errShapesRequired string
  | errInvalidGUID string
  | errShape string nat footprintError
  | errTypeRequired
  | errLayerRequired
  | errOffsetRequired
  | errOffsetKeys int
  | errInvalidDimensions int
  | errNotFinite string
  | errNotPositive string
  | errMustNotSet string
  | errKind string int

section \<open>Checks\<close>

definition requireFinite :: "'f geops \<Rightarrow> string \<Rightarrow> 'f \<Rightarrow> footprintError + unit" where
  "requireFinite G name v = (if ffinite G v then Inr () else Inl (errNotFinite name))"

definition requirePositive :: "'f geops \<Rightarrow> string \<Rightarrow> 'f \<Rightarrow> footprintError + unit" where
  "requirePositive G name v =
     res_bind (requireFinite G name v) (\<lambda>_. if fle G v (fnum G 0) then Inl (errNotPositive name) else Inr ())"

definition normalizeGUID :: "string \<Rightarrow> string" where
  "normalizeGUID guid = ToLower (TrimSpace guid)"

definition validateGUID :: "string \<Rightarrow> footprintError + string" where
  "validateGUID raw =
     (let guid = normalizeGUID raw
      in if length guid \<noteq> 32 then Inl (errInvalidGUID raw)
         else if list_all hexChar guid then Inr guid else Inl (errInvalidGUID raw))"

definition parseOffset :: "'f geops \<Rightarrow> (string, 'f) gomap \<Rightarrow> int \<Rightarrow> footprintError + 'f \<times> 'f \<times> 'f" where
  "parseOffset G m dimensions =
     (if dimensions = 2 then
        if gm_len m \<noteq> 2 then Inl (errOffsetKeys 2)
        else case (map_of m ''x'', map_of m ''y'') of
               (Some x, Some y) \<Rightarrow>
                 res_bind (requireFinite G ''offset.x'' x) (\<lambda>_.
                 res_bind (requireFinite G ''offset.y'' y) (\<lambda>_. Inr (x, y, fnum G 0)))
             | _ \<Rightarrow> Inl (errOffsetKeys 2)
      else if dimensions = 3 then
        if gm_len m \<noteq> 3 then Inl (errOffsetKeys 3)
        else case (map_of m ''x'', map_of m ''y'', map_of m ''z'') of
               (Some x, Some y, Some z) \<Rightarrow>
                 res_bind (requireFinite G ''offset.x'' x) (\<lambda>_.
                 res_bind (requireFinite G ''offset.y'' y) (\<lambda>_.
                 res_bind (requireFinite G ''offset.z'' z) (\<lambda>_. Inr (x, y, z))))
             | _ \<Rightarrow> Inl (errOffsetKeys 3)
      else Inl (errInvalidDimensions dimensions))"

definition unset :: "'f geops \<Rightarrow> 'f list \<Rightarrow> bool" where
  "unset G vs \<longleftrightarrow> list_all (\<lambda>v. feq G v (fnum G 0)) vs"

text \<open>The sizes of a shape, by dimension and type.\<close>

definition parseSizes :: "'f geops \<Rightarrow> 'f shapeDoc \<Rightarrow> int \<Rightarrow> string \<Rightarrow> 'f fpShape \<Rightarrow> footprintError + 'f fpShape" where
  "parseSizes G sd dimensions typ sh =
     (if dimensions = 2 then
        if typ = ShapeCircle then
          res_bind (requirePositive G ''r'' (sd_R sd)) (\<lambda>_.
            if \<not> unset G [sd_W sd, sd_H sd, sd_D sd] then Inl (errMustNotSet ''w/h/d'') else Inr (sh\<lparr>sh_R := sd_R sd\<rparr>))
        else if typ = ShapeAABB then
          res_bind (requirePositive G ''w'' (sd_W sd)) (\<lambda>_.
          res_bind (requirePositive G ''h'' (sd_H sd)) (\<lambda>_.
            if \<not> unset G [sd_R sd, sd_D sd] then Inl (errMustNotSet ''r/d'')
            else Inr (sh\<lparr>sh_W := sd_W sd, sh_H := sd_H sd\<rparr>)))
        else Inl (errKind typ 2)
      else if dimensions = 3 then
        if typ = ShapeSphere then
          res_bind (requirePositive G ''r'' (sd_R sd)) (\<lambda>_.
            if \<not> unset G [sd_W sd, sd_H sd, sd_D sd] then Inl (errMustNotSet ''w/h/d'') else Inr (sh\<lparr>sh_R := sd_R sd\<rparr>))
        else if typ = ShapeAABB then
          res_bind (requirePositive G ''w'' (sd_W sd)) (\<lambda>_.
          res_bind (requirePositive G ''h'' (sd_H sd)) (\<lambda>_.
          res_bind (requirePositive G ''d'' (sd_D sd)) (\<lambda>_.
            if \<not> unset G [sd_R sd] then Inl (errMustNotSet ''r'')
            else Inr (sh\<lparr>sh_W := sd_W sd, sh_H := sd_H sd, sh_D := sd_D sd\<rparr>))))
        else Inl (errKind typ 3)
      else Inr sh)"

definition parseShape :: "'f geops \<Rightarrow> string \<Rightarrow> nat \<Rightarrow> 'f shapeDoc \<Rightarrow> int \<Rightarrow> footprintError + 'f fpShape" where
  "parseShape G guid index sd dimensions =
     (let inShape = (\<lambda>r. case r of Inl e \<Rightarrow> Inl (errShape guid index e) | Inr v \<Rightarrow> Inr v);
          typ = ToLower (TrimSpace (sd_Type sd)); layer = TrimSpace (sd_Layer sd)
      in inShape
           (if TrimSpace (sd_Type sd) = '''' then Inl errTypeRequired
            else if layer = '''' then Inl errLayerRequired
            else case sd_Offset sd of
                   None \<Rightarrow> Inl errOffsetRequired
                 | Some m \<Rightarrow>
                     res_bind (parseOffset G m dimensions) (\<lambda>(ox, oy, oz).
                       parseSizes G sd dimensions typ
                         \<lparr>sh_Type = typ, sh_R = fnum G 0, sh_W = fnum G 0, sh_H = fnum G 0, sh_D = fnum G 0,
                          sh_OffsetX = ox, sh_OffsetY = oy, sh_OffsetZ = oz, sh_Trigger = sd_Trigger sd, sh_Layer = layer\<rparr>)))"

fun parseShapeList :: "'f geops \<Rightarrow> string \<Rightarrow> nat \<Rightarrow> 'f shapeDoc list \<Rightarrow> int \<Rightarrow> footprintError + 'f fpShape list" where
  "parseShapeList G guid i [] dimensions = Inr []"
| "parseShapeList G guid i (sd # sds) dimensions =
     res_bind (parseShape G guid i sd dimensions) (\<lambda>sh.
     res_bind (parseShapeList G guid (Suc i) sds dimensions) (\<lambda>out. Inr (sh # out)))"

definition parseShapes :: "'f geops \<Rightarrow> string \<Rightarrow> 'f shapeDoc list option \<Rightarrow> int \<Rightarrow> footprintError + 'f fpShape list" where
  "parseShapes G guid docs dimensions =
     (case docs of None \<Rightarrow> Inl (errShapesRequired guid) | Some sds \<Rightarrow> parseShapeList G guid 0 sds dimensions)"

section \<open>Building a set\<close>

text \<open>The body of the loop over the keys.\<close>

definition addFootprint ::
  "'f geops \<Rightarrow> int \<Rightarrow> string \<Rightarrow> 'f footprintDoc \<Rightarrow> 'f fpSet \<Rightarrow> footprintError + 'f fpSet" where
  "addFootprint G dimensions rawGUID fdoc st =
     res_bind (validateGUID rawGUID) (\<lambda>guid.
       if guid \<in> gm_keys (fs_byGUID st) then Inl (errDuplicateGUID guid)
       else let aliasName = TrimSpace (fd_Alias fdoc)
            in if fd_Alias fdoc \<noteq> '''' \<and> aliasName = '''' then Inl (errBlankAlias guid)
               else if aliasName \<noteq> '''' \<and> aliasName \<in> gm_keys (fs_byAlias st) then Inl (errDuplicateAlias aliasName)
               else res_bind (parseShapes G guid (fd_Shapes fdoc) dimensions) (\<lambda>shapes.
                 let fp = \<lparr>fp_GUID = guid, fp_Dimensions = dimensions, fp_Name = fd_Name fdoc, fp_AssetPath = fd_AssetPath fdoc,
                           fp_Alias = aliasName, fp_Shapes = shapes\<rparr>;
                     st = st\<lparr>fs_byGUID := AList.update guid fp (fs_byGUID st)\<rparr>
                 in Inr (if aliasName \<noteq> '''' then st\<lparr>fs_byAlias := AList.update aliasName fp (fs_byAlias st)\<rparr> else st)))"

fun buildLoop ::
  "'f geops \<Rightarrow> int \<Rightarrow> (string, 'f footprintDoc) gomap \<Rightarrow> string list \<Rightarrow> 'f fpSet \<Rightarrow> footprintError + 'f fpSet" where
  "buildLoop G dimensions docs [] st = Inr st"
| "buildLoop G dimensions docs (rawGUID # ks) st =
     (case map_of docs rawGUID of
        None \<Rightarrow> buildLoop G dimensions docs ks st
      | Some fdoc \<Rightarrow> res_bind (addFootprint G dimensions rawGUID fdoc st) (buildLoop G dimensions docs ks))"

text \<open>\<open>ks\<close>: the keys in the order in which the map yields them; they are sorted by bytes.\<close>

definition buildSet :: "'f geops \<Rightarrow> string list \<Rightarrow> 'f fileDoc \<Rightarrow> footprintError + 'f fpSet" where
  "buildSet G ks doc =
     (if doc_Version doc = 0 then Inl errVersionRequired
      else if doc_Version doc \<noteq> FormatVersion then Inl (errVersion (doc_Version doc))
      else if doc_Dimensions doc = 0 then Inl errDimensionsRequired
      else if doc_Dimensions doc \<noteq> 2 \<and> doc_Dimensions doc \<noteq> 3 then Inl (errDimensions (doc_Dimensions doc))
      else case doc_Footprints doc of
             None \<Rightarrow> Inl errFootprintsRequired
           | Some docs \<Rightarrow>
               buildLoop G (doc_Dimensions doc) docs (sort ks)
                 \<lparr>fs_Version = doc_Version doc, fs_Dimensions = doc_Dimensions doc, fs_byGUID = [], fs_byAlias = []\<rparr>)"

section \<open>Loading and lookup\<close>

datatype parseError = errDecode string | errTrailing | errBuild footprintError | errRead string | errFile string parseError

text \<open>What the YAML decoder gives: the first document, then the end, a further document or an error.\<close>

datatype yamlRest = YamlEOF | YamlDocument | YamlError string

definition ParseFootprints ::
  "'f geops \<Rightarrow> ('d \<Rightarrow> (string + 'f fileDoc) \<times> yamlRest) \<Rightarrow> string list \<Rightarrow> 'd \<Rightarrow> parseError + 'f fpSet" where
  "ParseFootprints G decode ks data =
     (case decode data of
        (Inl err, _) \<Rightarrow> Inl (errDecode err)
      | (Inr doc, YamlDocument) \<Rightarrow> Inl errTrailing
      | (Inr doc, YamlError err) \<Rightarrow> Inl (errDecode err)
      | (Inr doc, YamlEOF) \<Rightarrow> (case buildSet G ks doc of Inl e \<Rightarrow> Inl (errBuild e) | Inr s \<Rightarrow> Inr s))"

definition LoadFootprints ::
  "'f geops \<Rightarrow> (string \<Rightarrow> string + 'd) \<Rightarrow> ('d \<Rightarrow> (string + 'f fileDoc) \<times> yamlRest) \<Rightarrow> string list \<Rightarrow> string \<Rightarrow> parseError + 'f fpSet" where
  "LoadFootprints G readFile decode ks path =
     (case readFile path of
        Inl err \<Rightarrow> Inl (errRead err)
      | Inr data \<Rightarrow>
          (case ParseFootprints G decode ks data of Inl e \<Rightarrow> Inl (errFile path e) | Inr s \<Rightarrow> Inr s))"

definition LookupGUID :: "'f fpSet option \<Rightarrow> string \<Rightarrow> 'f Footprint option" where
  "LookupGUID s guid = (case s of None \<Rightarrow> None | Some s \<Rightarrow> map_of (fs_byGUID s) (normalizeGUID guid))"

definition LookupAlias :: "'f fpSet option \<Rightarrow> string \<Rightarrow> 'f Footprint option" where
  "LookupAlias s aliasName = (case s of None \<Rightarrow> None | Some s \<Rightarrow> if aliasName = '''' then None else map_of (fs_byAlias s) aliasName)"

section \<open>Text lemmas\<close>

lemma dropWhile_idem [simp]: "dropWhile P (dropWhile P xs) = dropWhile P xs"
  by (induction xs) auto

lemma dropWhile_hd: "xs \<noteq> [] \<Longrightarrow> \<not> P (hd xs) \<Longrightarrow> dropWhile P xs = xs"
  by (cases xs) auto

lemma TrimSpace_trimmed: "TrimSpace (TrimSpace s) = TrimSpace s"
proof -
  define t where "t = dropWhile isSpace s"
  define u where "u = rev (dropWhile isSpace (rev t))"
  have "dropWhile isSpace u = u"
  proof (cases "u = []")
    case False
    obtain w where w: "t = u @ w" unfolding u_def by (metis rev_append rev_rev_ident takeWhile_dropWhile_id)
    then have "hd u = hd t" "t \<noteq> []" using False by auto
    then show ?thesis using False hd_dropWhile [of isSpace s] by (intro dropWhile_hd) (auto simp: t_def)
  qed simp
  moreover have "rev (dropWhile isSpace (rev u)) = u" by (simp add: u_def)
  ultimately show ?thesis by (simp add: TrimSpace_def t_def u_def)
qed

lemma lowerChar_space [simp]: "isSpace (lowerChar c) = isSpace c"
proof -
  have s: "isSpace c \<longleftrightarrow> (of_char c :: nat) \<in> {9, 10, 11, 12, 13, 32}" for c
  proof -
    have eq: "c = d \<longleftrightarrow> (of_char c :: nat) = of_char d" for d by simp
    show ?thesis
      using eq [of "CHR 0x09"] eq [of "CHR 0x0A"] eq [of "CHR 0x0B"] eq [of "CHR 0x0C"] eq [of "CHR 0x0D"] eq [of "CHR '' ''"]
      by (simp add: isSpace_def)
  qed
  show ?thesis unfolding s lowerChar_def by (auto simp: Let_def of_char_of)
qed

lemma lowerChar_idem [simp]: "lowerChar (lowerChar c) = lowerChar c"
  by (auto simp: lowerChar_def Let_def of_char_of)

lemma dropWhile_lower: "dropWhile isSpace (map lowerChar s) = map lowerChar (dropWhile isSpace s)"
  by (simp add: dropWhile_map comp_def)

lemma TrimSpace_lower: "TrimSpace (ToLower s) = ToLower (TrimSpace s)"
  by (simp add: TrimSpace_def ToLower_def dropWhile_lower rev_map)

lemma normalizeGUID_idem: "normalizeGUID (normalizeGUID g) = normalizeGUID g"
  by (simp add: normalizeGUID_def TrimSpace_lower TrimSpace_trimmed) (simp add: ToLower_def)

section \<open>Loaded sets are well typed\<close>

definition positiveSize :: "'f geops \<Rightarrow> 'f \<Rightarrow> bool" where
  "positiveSize G v \<longleftrightarrow> ffinite G v \<and> \<not> fle G v (fnum G 0)"

text \<open>Exactly the sizes of its kind are set; the others have the zero value.\<close>

definition shapeTyped :: "'f geops \<Rightarrow> int \<Rightarrow> 'f fpShape \<Rightarrow> bool" where
  "shapeTyped G dims sh \<longleftrightarrow>
     sh_Layer sh \<noteq> '''' \<and> TrimSpace (sh_Layer sh) = sh_Layer sh \<and> ffinite G (sh_OffsetX sh) \<and> ffinite G (sh_OffsetY sh)
     \<and> (if dims = 3 then ffinite G (sh_OffsetZ sh) else sh_OffsetZ sh = fnum G 0)
     \<and> (if sh_Type sh = ShapeAABB
        then sh_R sh = fnum G 0 \<and> positiveSize G (sh_W sh) \<and> positiveSize G (sh_H sh)
          \<and> (if dims = 3 then positiveSize G (sh_D sh) else sh_D sh = fnum G 0)
        else sh_Type sh = (if dims = 3 then ShapeSphere else ShapeCircle)
          \<and> positiveSize G (sh_R sh) \<and> sh_W sh = fnum G 0 \<and> sh_H sh = fnum G 0 \<and> sh_D sh = fnum G 0)"

definition lowerHex :: "string \<Rightarrow> bool" where
  "lowerHex g \<longleftrightarrow> length g = 32 \<and> list_all hexChar g"

definition setTyped :: "'f geops \<Rightarrow> 'f fpSet \<Rightarrow> bool" where
  "setTyped G st \<longleftrightarrow>
     fs_Version st = FormatVersion \<and> (fs_Dimensions st = 2 \<or> fs_Dimensions st = 3) \<and> gm_wf (fs_byGUID st)
     \<and> (\<forall>g fp. map_of (fs_byGUID st) g = Some fp \<longrightarrow>
          lowerHex g \<and> fp_GUID fp = g \<and> fp_Dimensions fp = fs_Dimensions st
          \<and> (\<forall>sh \<in> set (fp_Shapes fp). shapeTyped G (fs_Dimensions st) sh)
          \<and> (fp_Alias fp \<noteq> '''' \<longrightarrow> map_of (fs_byAlias st) (fp_Alias fp) = Some fp))
     \<and> (\<forall>a fp. map_of (fs_byAlias st) a = Some fp \<longrightarrow>
          a \<noteq> '''' \<and> fp_Alias fp = a \<and> map_of (fs_byGUID st) (fp_GUID fp) = Some fp)"

lemma parseOffset_typed:
  assumes "parseOffset G m dims = Inr (x, y, z)"
  shows "(dims = 2 \<or> dims = 3) \<and> ffinite G x \<and> ffinite G y \<and> (if dims = 3 then ffinite G z else z = fnum G 0)"
  using assms
  by (auto simp: parseOffset_def requireFinite_def split: if_splits option.splits)

lemma requirePositive_ok: "requirePositive G name v = Inr u \<longleftrightarrow> positiveSize G v"
  by (auto simp: requirePositive_def requireFinite_def positiveSize_def)

lemma parseShape_typed:
  assumes "parseShape G guid i sd dims = Inr sh"
  shows "shapeTyped G dims sh"
proof -
  have ne: "ShapeSphere \<noteq> ShapeAABB" "ShapeCircle \<noteq> ShapeAABB" by (simp_all add: ShapeSphere_def ShapeCircle_def ShapeAABB_def)
  obtain m ox oy oz where h: "TrimSpace (sd_Layer sd) \<noteq> ''''" "parseOffset G m dims = Inr (ox, oy, oz)"
    "parseSizes G sd dims (ToLower (TrimSpace (sd_Type sd)))
       \<lparr>sh_Type = ToLower (TrimSpace (sd_Type sd)), sh_R = fnum G 0, sh_W = fnum G 0, sh_H = fnum G 0, sh_D = fnum G 0,
        sh_OffsetX = ox, sh_OffsetY = oy, sh_OffsetZ = oz, sh_Trigger = sd_Trigger sd, sh_Layer = TrimSpace (sd_Layer sd)\<rparr> = Inr sh"
    using assms by (auto simp: parseShape_def Let_def split: sum.splits if_splits option.splits)
  show ?thesis
    using h(1,3) parseOffset_typed [OF h(2)] ne
    by (auto simp: parseSizes_def shapeTyped_def requirePositive_ok TrimSpace_trimmed split: if_splits)
qed

lemma parseShapeList_typed:
  "parseShapeList G guid i sds dims = Inr shs \<Longrightarrow> length shs = length sds \<and> (\<forall>sh \<in> set shs. shapeTyped G dims sh)"
  by (induction G guid i sds dims arbitrary: shs rule: parseShapeList.induct) (auto intro: parseShape_typed)

text \<open>The entry a document entry stands for.\<close>

definition entryOf :: "'f geops \<Rightarrow> int \<Rightarrow> 'f footprintDoc \<Rightarrow> 'f Footprint \<Rightarrow> bool" where
  "entryOf G dims fdoc fp \<longleftrightarrow> fp_Name fp = fd_Name fdoc \<and> fp_AssetPath fp = fd_AssetPath fdoc
     \<and> fp_Alias fp = TrimSpace (fd_Alias fdoc) \<and> parseShapes G (fp_GUID fp) (fd_Shapes fdoc) dims = Inr (fp_Shapes fp)"

lemma addFootprint_typed:
  assumes T: "setTyped G st" and a: "addFootprint G (fs_Dimensions st) raw fdoc st = Inr st'"
  shows "setTyped G st' \<and> fs_Dimensions st' = fs_Dimensions st"
    and "\<exists>fp. map_of (fs_byGUID st') = (map_of (fs_byGUID st))(normalizeGUID raw \<mapsto> fp) \<and> entryOf G (fs_Dimensions st) fdoc fp
      \<and> normalizeGUID raw \<notin> gm_keys (fs_byGUID st)"
proof -
  let ?guid = "normalizeGUID raw" and ?aliasName = "TrimSpace (fd_Alias fdoc)"
  have g: "lowerHex ?guid" "validateGUID raw = Inr ?guid" and new: "?guid \<notin> gm_keys (fs_byGUID st)"
    and al: "?aliasName \<noteq> '''' \<longrightarrow> ?aliasName \<notin> gm_keys (fs_byAlias st)"
    using a by (auto simp: addFootprint_def validateGUID_def Let_def lowerHex_def split: if_splits)
  obtain shapes where sh: "parseShapes G ?guid (fd_Shapes fdoc) (fs_Dimensions st) = Inr shapes"
    using a g(2) new al by (auto simp: addFootprint_def Let_def split: if_splits)
  define fp where "fp = \<lparr>fp_GUID = ?guid, fp_Dimensions = fs_Dimensions st, fp_Name = fd_Name fdoc, fp_AssetPath = fd_AssetPath fdoc,
    fp_Alias = ?aliasName, fp_Shapes = shapes\<rparr>"
  have st': "fs_byGUID st' = AList.update ?guid fp (fs_byGUID st)" "fs_Dimensions st' = fs_Dimensions st" "fs_Version st' = fs_Version st"
    "fs_byAlias st' = (if ?aliasName \<noteq> '''' then AList.update ?aliasName fp (fs_byAlias st) else fs_byAlias st)"
    using a g(2) new al sh by (auto simp: addFootprint_def Let_def fp_def split: if_splits)
  have typed: "\<forall>s \<in> set shapes. shapeTyped G (fs_Dimensions st) s"
    using sh parseShapeList_typed by (fastforce simp: parseShapes_def split: option.splits)
  have oldG: "map_of (fs_byGUID st) ?guid = None" using new by (simp add: gm_keys_None)
  have oldA: "?aliasName \<noteq> '''' \<Longrightarrow> map_of (fs_byAlias st) ?aliasName = None" using al by (simp add: gm_keys_None)
  have G0: "lowerHex k \<and> fp_GUID f = k \<and> fp_Dimensions f = fs_Dimensions st
      \<and> (\<forall>sh \<in> set (fp_Shapes f). shapeTyped G (fs_Dimensions st) sh)
      \<and> (fp_Alias f \<noteq> '''' \<longrightarrow> map_of (fs_byAlias st) (fp_Alias f) = Some f)" if "map_of (fs_byGUID st) k = Some f" for k f
    using T that by (simp add: setTyped_def)
  have A0: "a \<noteq> '''' \<and> fp_Alias f = a \<and> map_of (fs_byGUID st) (fp_GUID f) = Some f" if "map_of (fs_byAlias st) a = Some f" for a f
    using T that by (simp add: setTyped_def)
  have G1: "lowerHex k \<and> fp_GUID f = k \<and> fp_Dimensions f = fs_Dimensions st
      \<and> (\<forall>sh \<in> set (fp_Shapes f). shapeTyped G (fs_Dimensions st) sh)
      \<and> (fp_Alias f \<noteq> '''' \<longrightarrow> map_of (fs_byAlias st') (fp_Alias f) = Some f)" if h: "map_of (fs_byGUID st') k = Some f" for k f
  proof (cases "k = ?guid")
    case True
    then have "f = fp" using h st'(1) by simp
    then show ?thesis using True g(1) typed by (simp add: fp_def st'(4))
  next
    case False
    then have o: "map_of (fs_byGUID st) k = Some f" using h st'(1) by simp
    then have "fp_Alias f \<noteq> '''' \<Longrightarrow> fp_Alias f \<noteq> ?aliasName" using G0 [OF o] oldA by auto
    then show ?thesis using G0 [OF o] by (simp add: st'(4))
  qed
  have A1: "a \<noteq> '''' \<and> fp_Alias f = a \<and> map_of (fs_byGUID st') (fp_GUID f) = Some f" if h: "map_of (fs_byAlias st') a = Some f" for a f
  proof (cases "a = ?aliasName \<and> ?aliasName \<noteq> ''''")
    case True
    then have "f = fp" using h by (simp add: st'(4))
    then show ?thesis using True by (simp add: fp_def st'(1))
  next
    case False
    then have o: "map_of (fs_byAlias st) a = Some f" using h by (auto simp: st'(4) split: if_splits)
    have "fp_GUID f \<noteq> ?guid" using A0 [OF o] oldG by auto
    then show ?thesis using A0 [OF o] by (simp add: st'(1))
  qed
  show "setTyped G st' \<and> fs_Dimensions st' = fs_Dimensions st"
  proof -
    have r: "fs_Version st' = FormatVersion" "fs_Dimensions st = 2 \<or> fs_Dimensions st = 3" "gm_wf (fs_byGUID st')"
      using T by (simp_all add: setTyped_def st')
    show ?thesis unfolding setTyped_def st'(2) using r G1 A1 by blast
  qed
  show "\<exists>fp. map_of (fs_byGUID st') = (map_of (fs_byGUID st))(?guid \<mapsto> fp) \<and> entryOf G (fs_Dimensions st) fdoc fp
      \<and> ?guid \<notin> gm_keys (fs_byGUID st)"
    using sh new by (intro exI [of _ fp]) (simp add: st' entryOf_def fp_def)
qed

lemma buildLoop_typed:
  assumes "setTyped G st" and "buildLoop G (fs_Dimensions st) docs ks st = Inr st'" and "set ks \<subseteq> gm_keys docs"
  shows "setTyped G st' \<and> fs_Dimensions st' = fs_Dimensions st
    \<and> (\<forall>g fp. map_of (fs_byGUID st) g = Some fp \<longrightarrow> map_of (fs_byGUID st') g = Some fp)
    \<and> gm_keys (fs_byGUID st') = gm_keys (fs_byGUID st) \<union> normalizeGUID ` set ks
    \<and> inj_on normalizeGUID (set ks) \<and> normalizeGUID ` set ks \<inter> gm_keys (fs_byGUID st) = {}
    \<and> (\<forall>raw \<in> set ks. \<exists>fdoc fp. map_of docs raw = Some fdoc \<and> map_of (fs_byGUID st') (normalizeGUID raw) = Some fp
          \<and> entryOf G (fs_Dimensions st) fdoc fp)"
  using assms
proof (induction ks arbitrary: st)
  case Nil
  then show ?case by simp
next
  case (Cons raw ks)
  obtain fdoc where fdoc: "map_of docs raw = Some fdoc" using Cons.prems(3) by (auto simp: gm_keys_Some)
  obtain st1 where st1: "addFootprint G (fs_Dimensions st) raw fdoc st = Inr st1"
    "buildLoop G (fs_Dimensions st) docs ks st1 = Inr st'"
    using Cons.prems(2) fdoc by auto
  note A = addFootprint_typed [OF Cons.prems(1) st1(1)]
  obtain fp where fp: "map_of (fs_byGUID st1) = (map_of (fs_byGUID st))(normalizeGUID raw \<mapsto> fp)" "entryOf G (fs_Dimensions st) fdoc fp"
    "normalizeGUID raw \<notin> gm_keys (fs_byGUID st)" using A(2) by blast
  have k1: "gm_keys (fs_byGUID st1) = insert (normalizeGUID raw) (gm_keys (fs_byGUID st))" by (simp add: gm_keys_dom fp(1))
  have IH: "setTyped G st' \<and> fs_Dimensions st' = fs_Dimensions st
    \<and> (\<forall>g fp. map_of (fs_byGUID st1) g = Some fp \<longrightarrow> map_of (fs_byGUID st') g = Some fp)
    \<and> gm_keys (fs_byGUID st') = gm_keys (fs_byGUID st1) \<union> normalizeGUID ` set ks
    \<and> inj_on normalizeGUID (set ks) \<and> normalizeGUID ` set ks \<inter> gm_keys (fs_byGUID st1) = {}
    \<and> (\<forall>raw \<in> set ks. \<exists>fdoc fp. map_of docs raw = Some fdoc \<and> map_of (fs_byGUID st') (normalizeGUID raw) = Some fp
          \<and> entryOf G (fs_Dimensions st) fdoc fp)"
    using Cons.IH [of st1] A(1) st1(2) Cons.prems(3) by simp
  have old: "map_of (fs_byGUID st') g = Some f" if "map_of (fs_byGUID st) g = Some f" for g f
  proof -
    have "g \<noteq> normalizeGUID raw" using fp(3) that by (auto simp: gm_keys_Some)
    then show ?thesis using IH fp(1) that by simp
  qed
  have "map_of (fs_byGUID st') (normalizeGUID raw) = Some fp" using IH fp(1) by simp
  moreover have "normalizeGUID raw \<notin> normalizeGUID ` set ks" using IH k1 by auto
  ultimately show ?case using IH old fdoc fp k1 by (auto simp: inj_on_insert)
qed

text \<open>
  C37.  A footprint document that is accepted gives a well typed set: version 1, dimension 2 or 3; keys
  are 32 lower-case hexadecimal digits and name their footprint; every shape is of a kind of that
  dimension with exactly its sizes set, positive and finite, and a layer; the aliases are an exact
  inverse index.  Each entry of the document is there, under its key in any capitalisation, no two keys
  fall together, and the result does not depend on the order of the map.
\<close>

theorem loaded_set_typed:
  assumes "buildSet G ks doc = Inr st" and "doc_Footprints doc = Some docs" and "iter_order ks docs"
  shows "setTyped G st \<and> fs_Dimensions st = doc_Dimensions doc
    \<and> gm_keys (fs_byGUID st) = normalizeGUID ` gm_keys docs \<and> inj_on normalizeGUID (gm_keys docs)
    \<and> (\<forall>raw fdoc. map_of docs raw = Some fdoc \<longrightarrow>
         (\<exists>fp. LookupGUID (Some st) raw = Some fp \<and> LookupGUID (Some st) (normalizeGUID raw) = Some fp
            \<and> entryOf G (doc_Dimensions doc) fdoc fp))
    \<and> (\<forall>ks'. iter_order ks' docs \<longrightarrow> buildSet G ks' doc = buildSet G ks doc)"
proof -
  define s0 :: "'a fpSet" where
    "s0 = \<lparr>fs_Version = doc_Version doc, fs_Dimensions = doc_Dimensions doc, fs_byGUID = [], fs_byAlias = []\<rparr>"
  have b: "buildLoop G (doc_Dimensions doc) docs (sort ks) s0 = Inr st" and h: "doc_Version doc = FormatVersion"
    "doc_Dimensions doc = 2 \<or> doc_Dimensions doc = 3"
    using assms(1,2) by (auto simp: buildSet_def s0_def split: if_splits)
  have T0: "setTyped G s0" using h by (simp add: setTyped_def s0_def)
  have k: "set (sort ks) = gm_keys docs" using assms(3) by (simp add: iter_order_def)
  have d: "fs_Dimensions s0 = doc_Dimensions doc" "fs_byGUID s0 = []" by (simp_all add: s0_def)
  note L = buildLoop_typed [OF T0, of docs "sort ks" st, unfolded d k, OF b subset_refl]
  have "sort ks' = sort ks" if "iter_order ks' docs" for ks'
    using assms(3) that by (intro sorted_distinct_set_unique) (simp_all add: iter_order_def)
  then have "buildSet G ks' doc = buildSet G ks doc" if "iter_order ks' docs" for ks'
    unfolding buildSet_def using that by (simp only: assms(2) option.case)
  moreover have "\<exists>fp. LookupGUID (Some st) raw = Some fp \<and> LookupGUID (Some st) (normalizeGUID raw) = Some fp
      \<and> entryOf G (doc_Dimensions doc) fdoc fp" if "map_of docs raw = Some fdoc" for raw fdoc
  proof -
    have "raw \<in> gm_keys docs" using that by (auto simp: gm_keys_Some)
    moreover have "\<forall>raw \<in> gm_keys docs. \<exists>fdoc fp. map_of docs raw = Some fdoc \<and> map_of (fs_byGUID st) (normalizeGUID raw) = Some fp
        \<and> entryOf G (doc_Dimensions doc) fdoc fp" using L by (elim conjE)
    ultimately obtain f fp where "map_of docs raw = Some f" "map_of (fs_byGUID st) (normalizeGUID raw) = Some fp"
      "entryOf G (doc_Dimensions doc) f fp" by blast
    with that have "map_of (fs_byGUID st) (normalizeGUID raw) = Some fp" "entryOf G (doc_Dimensions doc) fdoc fp" by simp_all
    then show ?thesis by (auto simp: LookupGUID_def normalizeGUID_idem)
  qed
  moreover have "setTyped G st \<and> fs_Dimensions st = doc_Dimensions doc
    \<and> gm_keys (fs_byGUID st) = normalizeGUID ` gm_keys docs \<and> inj_on normalizeGUID (gm_keys docs)"
    using L by (elim conjE) simp
  ultimately show ?thesis by (intro conjI allI impI) (elim conjE, assumption | blast)+
qed

section \<open>An example\<close>

text \<open>A document with one prefab, a circle, under a key in capitals.\<close>

definition demoGUID :: string where
  "demoGUID = ''0123456789ABCDEF0123456789ABCDEF''"

definition demoDoc :: "real fileDoc" where
  "demoDoc = \<lparr>doc_Version = 1, doc_Dimensions = 2, doc_Footprints = Some
     [(demoGUID, \<lparr>fd_Name = ''crate'', fd_AssetPath = '''', fd_Alias = '' crate'', fd_Shapes = Some
        [\<lparr>sd_Type = ''Circle'', sd_R = 2, sd_W = 0, sd_H = 0, sd_D = 0, sd_Offset = Some [(''x'', 1), (''y'', 0)],
          sd_Trigger = False, sd_Layer = ''wall ''\<rparr>]\<rparr>)]\<rparr>"

definition demoShape :: "real fpShape" where
  "demoShape = \<lparr>sh_Type = ShapeCircle, sh_R = 2, sh_W = 0, sh_H = 0, sh_D = 0, sh_OffsetX = 1, sh_OffsetY = 0, sh_OffsetZ = 0,
     sh_Trigger = False, sh_Layer = ''wall''\<rparr>"

definition demoFootprint :: "real Footprint" where
  "demoFootprint = \<lparr>fp_GUID = ''0123456789abcdef0123456789abcdef'', fp_Dimensions = 2, fp_Name = ''crate'', fp_AssetPath = '''',
     fp_Alias = ''crate'', fp_Shapes = [demoShape]\<rparr>"

lemma demoText:
  "normalizeGUID demoGUID = ''0123456789abcdef0123456789abcdef''" "TrimSpace '' crate'' = ''crate''" "TrimSpace ''wall '' = ''wall''"
  "ToLower (TrimSpace ''Circle'') = ''circle''"
  by code_simp+

lemma demoDoc_built:
  "buildSet realOps [demoGUID] demoDoc = Inr \<lparr>fs_Version = 1, fs_Dimensions = 2,
     fs_byGUID = [(''0123456789abcdef0123456789abcdef'', demoFootprint)], fs_byAlias = [(''crate'', demoFootprint)]\<rparr>"
proof -
  have v: "validateGUID demoGUID = Inr ''0123456789abcdef0123456789abcdef''"
    by code_simp
  have s: "parseShapes realOps g (Some [\<lparr>sd_Type = ''Circle'', sd_R = 2, sd_W = 0, sd_H = 0, sd_D = 0,
      sd_Offset = Some [(''x'', 1), (''y'', 0)], sd_Trigger = False, sd_Layer = ''wall ''\<rparr>]) 2 = Inr [demoShape]" for g
  proof -
    have t: "TrimSpace ''Circle'' = ''Circle''" "ToLower ''Circle'' = ''circle''" by code_simp+
    show ?thesis
      by (simp add: parseShapes_def parseShape_def demoText t Let_def parseOffset_def gm_len_def requireFinite_def parseSizes_def
          requirePositive_def unset_def ShapeCircle_def demoShape_def)
  qed
  show ?thesis
    using v s by (simp add: buildSet_def demoDoc_def FormatVersion_def addFootprint_def demoText Let_def demoFootprint_def)
qed

theorem loaded_set_typed_witness:
  "case buildSet realOps [demoGUID] demoDoc of
     Inl e \<Rightarrow> False
   | Inr st \<Rightarrow> setTyped realOps st \<and> LookupGUID (Some st) demoGUID = Some demoFootprint"
proof -
  have "iter_order [demoGUID] [(demoGUID, x)]" for x :: "real footprintDoc" by (simp add: iter_order_def gm_keys_def)
  then have "setTyped realOps \<lparr>fs_Version = 1, fs_Dimensions = 2,
     fs_byGUID = [(''0123456789abcdef0123456789abcdef'', demoFootprint)], fs_byAlias = [(''crate'', demoFootprint)]\<rparr>"
    using loaded_set_typed [OF demoDoc_built] by (simp add: demoDoc_def)
  then show ?thesis unfolding demoDoc_built by (simp add: LookupGUID_def demoText)
qed

end
