(* ===== verification/Footprint_Place.thy ===== *)
theory Footprint_Place
  imports Footprint Collision_Layers
begin

text \<open>
  Placing footprints (\<^verbatim>\<open>golem/footprint/transform.go\<close>, \<^verbatim>\<open>allocator.go\<close>, \<^verbatim>\<open>layers.go\<close>, \<^verbatim>\<open>place2d.go\<close>,
  \<^verbatim>\<open>place3d.go\<close>): the shapes of a prefab are scaled, turned and registered in a back end under new negative
  identifiers; a handle takes them out again.
\<close>

section \<open>Transforms\<close>

record 'f Transform2D =
  t2_X :: 'f
  t2_Y :: 'f
  t2_Scale :: 'f
  t2_RotationDegrees :: 'f

record 'f Transform3D =
  t3_X :: 'f
  t3_Y :: 'f
  t3_Z :: 'f
  t3_Scale :: 'f
  t3_YawDegrees :: 'f

datatype placeError =
    errBackendRequired
  | errResolverRequired
  | errNilFootprint
  | errPlaceDimensions int
  | errTransform footprintError
  | errQuarterTurn
  | errUnknownLayer string nat string
  | errDepth string nat
  | errPlaceKind string nat string
  | errAllocator int64

definition finiteAt :: "'f geops \<Rightarrow> string \<Rightarrow> 'f \<Rightarrow> placeError + unit" where
  "finiteAt G name v = (case requireFinite G name v of Inl e \<Rightarrow> Inl (errTransform e) | Inr u \<Rightarrow> Inr u)"

definition validateScale :: "'f geops \<Rightarrow> 'f \<Rightarrow> placeError + unit" where
  "validateScale G scale =
     res_bind (finiteAt G ''scale'' scale) (\<lambda>_.
       if fle G scale (fnum G 0) then Inl (errTransform (errNotPositive ''scale'')) else Inr ())"

definition quarterTurnIndex :: "'f geops \<Rightarrow> 'f \<Rightarrow> placeError + nat" where
  "quarterTurnIndex G degrees =
     res_bind (finiteAt G ''rotation'' degrees) (\<lambda>_.
       let m = fmod G degrees (fnum G 360); m = (if flt G m (fnum G 0) then fadd G m (fnum G 360) else m)
       in if feq G m (fnum G 0) then Inr 0
          else if feq G m (fnum G 90) then Inr 1
          else if feq G m (fnum G 180) then Inr 2
          else if feq G m (fnum G 270) then Inr 3
          else Inl errQuarterTurn)"

definition transformPoint2D :: "'f geops \<Rightarrow> 'f \<Rightarrow> 'f \<Rightarrow> 'f \<Rightarrow> nat \<Rightarrow> 'f \<times> 'f" where
  "transformPoint2D G x y scale turn =
     (let x = fmul G x scale; y = fmul G y scale
      in if turn = 1 then (fneg G y, x)
         else if turn = 2 then (fneg G x, fneg G y)
         else if turn = 3 then (y, fneg G x)
         else (x, y))"

definition transformPoint3D :: "'f geops \<Rightarrow> 'f \<Rightarrow> 'f \<Rightarrow> 'f \<Rightarrow> 'f \<Rightarrow> nat \<Rightarrow> 'f \<times> 'f \<times> 'f" where
  "transformPoint3D G x y z scale turn =
     (let x = fmul G x scale; y = fmul G y scale; z = fmul G z scale
      in if turn = 1 then (z, y, fneg G x)
         else if turn = 2 then (fneg G x, y, fneg G z)
         else if turn = 3 then (fneg G z, y, x)
         else (x, y, z))"

definition transformAABB2D :: "'f geops \<Rightarrow> 'f \<Rightarrow> 'f \<Rightarrow> 'f \<Rightarrow> nat \<Rightarrow> 'f \<times> 'f" where
  "transformAABB2D G w h scale turn =
     (let w = fmul G w scale; h = fmul G h scale in if turn = 1 \<or> turn = 3 then (h, w) else (w, h))"

definition transformAABB3D :: "'f geops \<Rightarrow> 'f \<Rightarrow> 'f \<Rightarrow> 'f \<Rightarrow> 'f \<Rightarrow> nat \<Rightarrow> 'f \<times> 'f \<times> 'f" where
  "transformAABB3D G w h d scale turn =
     (let w = fmul G w scale; h = fmul G h scale; d = fmul G d scale
      in if turn = 1 \<or> turn = 3 then (d, h, w) else (w, h, d))"

section \<open>Placing\<close>

text \<open>\<^verbatim>\<open>Next\<close> of an allocator is a function on its state; \<^verbatim>\<open>AtomicAllocator\<close> counts down.\<close>

definition atomicNext :: "int64 \<Rightarrow> int64 \<times> int64" where
  "atomicNext n = (n - 1, n - 1)"

type_synonym layerResolver = "string \<Rightarrow> (u32 \<times> u32) option"

definition LayersResolver :: "'b Layers option \<Rightarrow> layerResolver" where
  "LayersResolver layers label = LookupLayer layers label"

record ('s, 'p) prepared =
  pr_shape :: 's
  pr_layer :: u32
  pr_mask :: u32
  pr_pos :: 'p
  pr_trig :: bool

record handle =
  hd_ids :: "int64 list"
  hd_removed :: bool

definition handle_IDs :: "handle option \<Rightarrow> int64 list" where
  "handle_IDs h = (case h of None \<Rightarrow> [] | Some h \<Rightarrow> hd_ids h)"

text \<open>Only the first call removes.\<close>

definition handle_Remove :: "(int64 \<Rightarrow> 'b \<Rightarrow> 'b) \<Rightarrow> handle option \<Rightarrow> 'b \<Rightarrow> handle option \<times> 'b" where
  "handle_Remove remove h b =
     (case h of
        None \<Rightarrow> (None, b)
      | Some hh \<Rightarrow> if hd_removed hh then (Some hh, b) else (Some (hh\<lparr>hd_removed := True\<rparr>), fold remove (hd_ids hh) b))"

fun prepareShapes :: "(nat \<Rightarrow> 'f fpShape \<Rightarrow> placeError + ('s, 'p) prepared) \<Rightarrow> nat \<Rightarrow> 'f fpShape list \<Rightarrow> placeError + ('s, 'p) prepared list" where
  "prepareShapes f i [] = Inr []"
| "prepareShapes f i (sh # shs) =
     res_bind (f i sh) (\<lambda>item. res_bind (prepareShapes f (Suc i) shs) (\<lambda>items. Inr (item # items)))"

text \<open>The registration loop; an identifier that is not negative takes back what was added.\<close>

fun registerPrepared ::
  "(int64 \<Rightarrow> 's \<Rightarrow> u32 \<Rightarrow> u32 \<Rightarrow> bool \<Rightarrow> 'b \<Rightarrow> 'b) \<Rightarrow> (int64 \<Rightarrow> 'p \<Rightarrow> 'b \<Rightarrow> 'b) \<Rightarrow> (int64 \<Rightarrow> 'b \<Rightarrow> 'b) \<Rightarrow> ('a \<Rightarrow> int64 \<times> 'a)
     \<Rightarrow> ('s, 'p) prepared list \<Rightarrow> int64 list \<Rightarrow> 'a \<Rightarrow> 'b \<Rightarrow> (placeError + handle) \<times> 'a \<times> 'b" where
  "registerPrepared add move remove next [] ids a b = (Inr \<lparr>hd_ids = ids, hd_removed = False\<rparr>, a, b)"
| "registerPrepared add move remove next (item # items) ids a b =
     (case next a of
        (i, a) \<Rightarrow>
          if \<not> sint i < 0
          then (Inl (errAllocator i), a, snd (handle_Remove remove (Some \<lparr>hd_ids = ids, hd_removed = False\<rparr>) b))
          else registerPrepared add move remove next items (ids @ [i]) a
                 (move i (pr_pos item) (add i (pr_shape item) (pr_layer item) (pr_mask item) (pr_trig item) b)))"

definition placeWith where
  "placeWith add move remove next prep a b =
     (case prep of
        Inl e \<Rightarrow> (Inl e, a, b)
      | Inr items \<Rightarrow> registerPrepared add move remove next items [] a b)"

section \<open>In the plane\<close>

definition validateShapeFor2D :: "'f geops \<Rightarrow> string \<Rightarrow> nat \<Rightarrow> 'f fpShape \<Rightarrow> placeError + unit" where
  "validateShapeFor2D G guid i sh =
     (if sh_Type sh = ShapeCircle \<or> sh_Type sh = ShapeAABB
      then if \<not> feq G (sh_D sh) (fnum G 0) then Inl (errDepth guid i) else Inr ()
      else if sh_Type sh = ShapeSphere then Inl (errPlaceKind guid i (sh_Type sh)) else Inr ())"

definition prepareShape2D ::
  "'f geops \<Rightarrow> layerResolver \<Rightarrow> string \<Rightarrow> 'f Transform2D \<Rightarrow> nat \<Rightarrow> nat \<Rightarrow> 'f fpShape \<Rightarrow> placeError + ('f shape2, 'f Vec2) prepared" where
  "prepareShape2D G resolve guid t turn i sh =
     res_bind (validateShapeFor2D G guid i sh) (\<lambda>_.
       case resolve (sh_Layer sh) of
         None \<Rightarrow> Inl (errUnknownLayer guid i (sh_Layer sh))
       | Some (layer, msk) \<Rightarrow>
           (case transformPoint2D G (sh_OffsetX sh) (sh_OffsetY sh) (t2_Scale t) turn of
              (ox, oy) \<Rightarrow>
                let item = (\<lambda>shape. \<lparr>pr_shape = shape, pr_layer = layer, pr_mask = msk,
                      pr_pos = \<lparr>v2_X = fadd G (t2_X t) ox, v2_Y = fadd G (t2_Y t) oy\<rparr>, pr_trig = sh_Trigger sh\<rparr>)
                in if sh_Type sh = ShapeCircle then Inr (item (Circle2 (fmul G (sh_R sh) (t2_Scale t))))
                   else if sh_Type sh = ShapeAABB
                   then (case transformAABB2D G (sh_W sh) (sh_H sh) (t2_Scale t) turn of (w, h) \<Rightarrow> Inr (item (AABB2 w h)))
                   else Inl (errPlaceKind guid i (sh_Type sh))))"

definition prepare2D ::
  "'f geops \<Rightarrow> layerResolver option \<Rightarrow> 'f Footprint option \<Rightarrow> 'f Transform2D \<Rightarrow> placeError + ('f shape2, 'f Vec2) prepared list" where
  "prepare2D G resolve fp t =
     (case (resolve, fp) of
        (None, _) \<Rightarrow> Inl errResolverRequired
      | (_, None) \<Rightarrow> Inl errNilFootprint
      | (Some resolve, Some fp) \<Rightarrow>
          if fp_Dimensions fp \<noteq> 2 then Inl (errPlaceDimensions (fp_Dimensions fp))
          else res_bind (finiteAt G ''translation.x'' (t2_X t)) (\<lambda>_.
               res_bind (finiteAt G ''translation.y'' (t2_Y t)) (\<lambda>_.
               res_bind (validateScale G (t2_Scale t)) (\<lambda>_.
               res_bind (quarterTurnIndex G (t2_RotationDegrees t)) (\<lambda>turn.
                 prepareShapes (prepareShape2D G resolve (fp_GUID fp) t turn) 0 (fp_Shapes fp))))))"

text \<open>Without a back end nothing happens; \<open>add\<close>, \<open>move\<close> and \<open>remove\<close> are its methods.\<close>

definition Place2D where
  "Place2D G add move remove next resolve fp t a bo =
     (case bo of
        None \<Rightarrow> (Inl errBackendRequired, a, None)
      | Some b \<Rightarrow> (case placeWith add move remove next (prepare2D G resolve fp t) a b of (r, a, b) \<Rightarrow> (r, a, Some b)))"

section \<open>In space\<close>

definition validateShapeFor3D :: "'f geops \<Rightarrow> string \<Rightarrow> nat \<Rightarrow> 'f fpShape \<Rightarrow> placeError + unit" where
  "validateShapeFor3D G guid i sh =
     (if sh_Type sh = ShapeAABB then if fle G (sh_D sh) (fnum G 0) then Inl (errDepth guid i) else Inr ()
      else if sh_Type sh = ShapeCircle then Inl (errPlaceKind guid i (sh_Type sh)) else Inr ())"

definition prepareShape3D ::
  "'f geops \<Rightarrow> layerResolver \<Rightarrow> string \<Rightarrow> 'f Transform3D \<Rightarrow> nat \<Rightarrow> nat \<Rightarrow> 'f fpShape \<Rightarrow> placeError + ('f shape3, 'f Vec3) prepared" where
  "prepareShape3D G resolve guid t turn i sh =
     res_bind (validateShapeFor3D G guid i sh) (\<lambda>_.
       case resolve (sh_Layer sh) of
         None \<Rightarrow> Inl (errUnknownLayer guid i (sh_Layer sh))
       | Some (layer, msk) \<Rightarrow>
           (case transformPoint3D G (sh_OffsetX sh) (sh_OffsetY sh) (sh_OffsetZ sh) (t3_Scale t) turn of
              (ox, oy, oz) \<Rightarrow>
                let item = (\<lambda>shape. \<lparr>pr_shape = shape, pr_layer = layer, pr_mask = msk,
                      pr_pos = \<lparr>v3_X = fadd G (t3_X t) ox, v3_Y = fadd G (t3_Y t) oy, v3_Z = fadd G (t3_Z t) oz\<rparr>,
                      pr_trig = sh_Trigger sh\<rparr>)
                in if sh_Type sh = ShapeSphere then Inr (item (Sphere3 (fmul G (sh_R sh) (t3_Scale t))))
                   else if sh_Type sh = ShapeAABB
                   then (case transformAABB3D G (sh_W sh) (sh_H sh) (sh_D sh) (t3_Scale t) turn of (w, h, d) \<Rightarrow> Inr (item (AABB3 w h d)))
                   else Inl (errPlaceKind guid i (sh_Type sh))))"

definition prepare3D ::
  "'f geops \<Rightarrow> layerResolver option \<Rightarrow> 'f Footprint option \<Rightarrow> 'f Transform3D \<Rightarrow> placeError + ('f shape3, 'f Vec3) prepared list" where
  "prepare3D G resolve fp t =
     (case (resolve, fp) of
        (None, _) \<Rightarrow> Inl errResolverRequired
      | (_, None) \<Rightarrow> Inl errNilFootprint
      | (Some resolve, Some fp) \<Rightarrow>
          if fp_Dimensions fp \<noteq> 3 then Inl (errPlaceDimensions (fp_Dimensions fp))
          else res_bind (finiteAt G ''translation.x'' (t3_X t)) (\<lambda>_.
               res_bind (finiteAt G ''translation.y'' (t3_Y t)) (\<lambda>_.
               res_bind (finiteAt G ''translation.z'' (t3_Z t)) (\<lambda>_.
               res_bind (validateScale G (t3_Scale t)) (\<lambda>_.
               res_bind (quarterTurnIndex G (t3_YawDegrees t)) (\<lambda>turn.
                 prepareShapes (prepareShape3D G resolve (fp_GUID fp) t turn) 0 (fp_Shapes fp)))))))"

definition Place3D where
  "Place3D G add move remove next resolve fp t a bo =
     (case bo of
        None \<Rightarrow> (Inl errBackendRequired, a, None)
      | Some b \<Rightarrow> (case placeWith add move remove next (prepare3D G resolve fp t) a b of (r, a, b) \<Rightarrow> (r, a, Some b)))"

section \<open>What placing does to a back end\<close>

text \<open>The identifiers an allocator gives next.\<close>

fun allocIds :: "('a \<Rightarrow> int64 \<times> 'a) \<Rightarrow> nat \<Rightarrow> 'a \<Rightarrow> int64 list" where
  "allocIds next 0 a = []"
| "allocIds next (Suc n) a = fst (next a) # allocIds next n (snd (next a))"

lemma allocIds_length [simp]: "length (allocIds next n a) = n"
  by (induction n arbitrary: a) auto

lemma allocIds_prefix: "m \<le> n \<Longrightarrow> set (allocIds next m a) \<subseteq> set (allocIds next n a)"
proof (induction m arbitrary: n a)
  case (Suc m)
  then show ?case by (cases n) auto
qed simp

definition entryAt :: "int64 \<Rightarrow> ('s, 'p) prepared \<Rightarrow> ('s, 'p) entry" where
  "entryAt i item = \<lparr>en_id = i, en_shape = pr_shape item, en_layer = pr_layer item, en_mask = pr_mask item,
     en_trigger = pr_trig item, en_pos = pr_pos item\<rparr>"

context shape_backend
begin

lemma register_spec:
  assumes "registerPrepared add move remove next items ids a b = (r, a', b')" and "distinct (allocIds next (length items) a)"
  shows "case r of
      Inr h \<Rightarrow> hd_ids h = ids @ allocIds next (length items) a \<and> \<not> hd_removed h \<and> (\<forall>i \<in> set (allocIds next (length items) a). sint i < 0)
        \<and> (\<forall>j. look b' j = (case map_of (zip (allocIds next (length items) a) items) j of Some item \<Rightarrow> Some (entryAt j item) | None \<Rightarrow> look b j))
    | Inl e \<Rightarrow> (\<exists>i \<in> set (allocIds next (length items) a). \<not> sint i < 0)
        \<and> (\<exists>js. set js \<subseteq> set (allocIds next (length items) a) \<and> (\<forall>j. look b' j = (if j \<in> set ids \<union> set js then None else look b j)))"
  using assms
proof (induction items arbitrary: ids a b)
  case Nil
  then show ?case by auto
next
  case (Cons item items)
  obtain i a1 where n: "next a = (i, a1)" by fastforce
  have d: "i \<notin> set (allocIds next (length items) a1)" "distinct (allocIds next (length items) a1)" using Cons.prems(2) n by auto
  show ?case
  proof (cases "sint i < 0")
    case False
    then have "r = Inl (errAllocator i)" "b' = fold remove ids b" using Cons.prems(1) n by (auto simp: handle_Remove_def)
    then show ?thesis using False n by (auto simp: look_removes intro!: exI [of _ "[]"])
  next
    case True
    define b1 where "b1 = move i (pr_pos item) (add i (pr_shape item) (pr_layer item) (pr_mask item) (pr_trig item) b)"
    have l1: "look b1 j = (if j = i then Some (entryAt i item) else look b j)" for j
      by (simp add: b1_def look_placed entryAt_def)
    have reg: "registerPrepared add move remove next items (ids @ [i]) a1 b1 = (r, a', b')"
      using Cons.prems(1) n True by (simp add: b1_def)
    note IH = Cons.IH [OF reg d(2)]
    show ?thesis
    proof (cases r)
      case (Inr h)
      have z: "map_of (zip (allocIds next (length items) a1) items) i = None"
        using d(1) by (simp add: map_of_zip_is_None)
      have lk: "look b' j = (case map_of (zip (allocIds next (length items) a1) items) j of Some item \<Rightarrow> Some (entryAt j item) | None \<Rightarrow> look b1 j)" for j
        using IH Inr by simp
      have "look b' j = (case map_of (zip (allocIds next (length (item # items)) a) (item # items)) j of
          Some item \<Rightarrow> Some (entryAt j item) | None \<Rightarrow> look b j)" for j
      proof (cases "j = i")
        case True
        have "look b' i = Some (entryAt i item)" unfolding lk z by (simp add: l1)
        then show ?thesis using True n by simp
      next
        case False
        then have e: "look b1 j = look b j" by (simp add: l1)
        show ?thesis unfolding lk e using False n by simp
      qed
      then show ?thesis using IH True n by (simp add: Inr)
    next
      case (Inl e)
      then obtain js where "set js \<subseteq> set (allocIds next (length items) a1)"
        "\<forall>j. look b' j = (if j \<in> set (ids @ [i]) \<union> set js then None else look b1 j)" "\<exists>i \<in> set (allocIds next (length items) a1). \<not> sint i < 0"
        using IH by auto
      then show ?thesis using n Inl by (auto simp: l1 intro!: exI [of _ "i # js"])
    qed
  qed
qed

text \<open>All shapes are placed under fresh identifiers, or nothing changes; removing a placement undoes it.\<close>

lemma place_spec:
  assumes p: "placeWith add move remove next prep a b = (r, a', b')"
    and fresh: "\<And>n. prep = Inr items \<Longrightarrow> n = length items \<Longrightarrow> distinct (allocIds next n a) \<and> (\<forall>i \<in> set (allocIds next n a). look b i = None)"
    and prep: "\<And>its. prep = Inr its \<Longrightarrow> its = items"
  shows "case r of
      Inl e \<Rightarrow> \<forall>j. look b' j = look b j
    | Inr h \<Rightarrow> prep = Inr items \<and> hd_ids h = allocIds next (length items) a \<and> \<not> hd_removed h
        \<and> distinct (hd_ids h) \<and> (\<forall>i \<in> set (hd_ids h). sint i < 0)
        \<and> (\<forall>j. look b' j = (case map_of (zip (hd_ids h) items) j of Some item \<Rightarrow> Some (entryAt j item) | None \<Rightarrow> look b j))
        \<and> (\<forall>j. look (snd (handle_Remove remove (Some h) b')) j = look b j)
        \<and> (\<forall>b''. snd (handle_Remove remove (fst (handle_Remove remove (Some h) b')) b'') = b'')"
proof (cases prep)
  case (Inl e)
  then show ?thesis using p by (auto simp: placeWith_def)
next
  case (Inr its)
  then have its: "its = items" using prep by simp
  have f: "distinct (allocIds next (length items) a)" "\<forall>i \<in> set (allocIds next (length items) a). look b i = None"
    using fresh Inr its by auto
  have R: "registerPrepared add move remove next items [] a b = (r, a', b')" using p Inr its by (simp add: placeWith_def)
  note S = register_spec [OF R f(1)]
  show ?thesis
  proof (cases r)
    case (Inl e)
    then obtain js where "set js \<subseteq> set (allocIds next (length items) a)" "\<forall>j. look b' j = (if j \<in> set js then None else look b j)"
      using S by auto
    then show ?thesis using f(2) Inl by auto
  next
    case r: (Inr h)
    have ids: "hd_ids h = allocIds next (length items) a" "\<not> hd_removed h" and neg: "\<forall>i \<in> set (hd_ids h). sint i < 0"
      and look': "look b' j = (case map_of (zip (hd_ids h) items) j of Some item \<Rightarrow> Some (entryAt j item) | None \<Rightarrow> look b j)" for j
      using S r by auto
    have undone: "look (snd (handle_Remove remove (Some h) b')) j = look b j" for j
    proof (cases "j \<in> set (hd_ids h)")
      case True
      then show ?thesis using f(2) ids by (simp add: handle_Remove_def look_removes)
    next
      case False
      have z: "map_of (zip (hd_ids h) items) j = None" using False ids by (simp add: map_of_zip_is_None)
      have "look b' j = look b j" unfolding look' z by simp
      then show ?thesis using False ids by (simp add: handle_Remove_def look_removes)
    qed
    have "snd (handle_Remove remove (fst (handle_Remove remove (Some h) b')) b'') = b''" for b''
      by (simp add: handle_Remove_def)
    then show ?thesis using r Inr its ids neg look' f(1) undone by simp
  qed
qed

end

section \<open>Turning is turning\<close>

lemma fmod_adjusted:
  fixes d :: real
  assumes "m = fmod realOps d 360"
  shows "(if m < 0 then m + 360 else m) = d - 360 * of_int \<lfloor>d / 360\<rfloor>"
proof (cases "d / 360 < 0")
  case False
  then have "m = d - 360 * of_int \<lfloor>d / 360\<rfloor>" using assms by (simp add: realOps_def)
  moreover have "of_int \<lfloor>d / 360\<rfloor> \<le> d / 360" by (rule of_int_floor_le)
  ultimately show ?thesis by simp
next
  case True
  then have m: "m = d - 360 * of_int \<lceil>d / 360\<rceil>" using assms by (simp add: realOps_def)
  show ?thesis
  proof (cases "of_int \<lceil>d / 360\<rceil> = d / 360")
    case True
    then have "m = 0" using m by simp
    moreover have "\<lfloor>d / 360\<rfloor> = \<lceil>d / 360\<rceil>" using True by (metis floor_of_int)
    ultimately show ?thesis using m by simp
  next
    case False
    then have "\<lceil>d / 360\<rceil> = \<lfloor>d / 360\<rfloor> + 1" by (metis ceiling_altdef of_int_floor_le ceiling_of_int)
    moreover have "d < 360 * of_int \<lceil>d / 360\<rceil>" using False le_of_int_ceiling [of "d / 360"] by linarith
    ultimately show ?thesis using m by simp
  qed
qed

lemma quarterTurn_exact:
  "quarterTurnIndex realOps d = Inr k \<longleftrightarrow> k < 4 \<and> (\<exists>m :: int. d = 90 * real k + 360 * of_int m)"
proof -
  define a where "a = d - 360 * of_int \<lfloor>d / 360\<rfloor>"
  have q: "quarterTurnIndex realOps d = (if a = 0 then Inr 0 else if a = 90 then Inr 1 else if a = 180 then Inr 2
      else if a = 270 then Inr 3 else Inl errQuarterTurn)"
    by (simp only: quarterTurnIndex_def finiteAt_def requireFinite_def Let_def realOps_simps of_int_numeral of_int_0 if_True sum.case
        res_bind.simps fmod_adjusted [OF refl] a_def)
  have "(\<exists>m :: int. d = 90 * real k + 360 * of_int m) \<longleftrightarrow> a = 90 * real k" if "k < 4"
  proof
    assume "\<exists>m :: int. d = 90 * real k + 360 * of_int m"
    then obtain m :: int where m: "d = 90 * real k + 360 * of_int m" ..
    have "\<lfloor>d / 360\<rfloor> = m" using that by (intro floor_unique) (simp_all add: m)
    then show "a = 90 * real k" by (simp add: a_def m)
  next
    assume "a = 90 * real k"
    then show "\<exists>m :: int. d = 90 * real k + 360 * of_int m" by (intro exI [of _ "\<lfloor>d / 360\<rfloor>"]) (simp add: a_def)
  qed
  moreover have "k < 4 \<longleftrightarrow> k = 0 \<or> k = 1 \<or> k = 2 \<or> k = 3" by auto
  ultimately show ?thesis unfolding q by (auto split: if_splits)
qed

text \<open>Degrees as an angle.\<close>

definition radians :: "real \<Rightarrow> real" where
  "radians d = d * pi / 180"

lemma quarter_cos_sin:
  assumes "quarterTurnIndex realOps d = Inr k"
  shows "k < 4" "cos (radians d) = (if k = 0 then 1 else if k = 2 then -1 else 0)"
    "sin (radians d) = (if k = 1 then 1 else if k = 3 then -1 else 0)"
proof -
  obtain m :: int where k: "k < 4" and d: "d = 90 * real k + 360 * of_int m" using assms quarterTurn_exact by blast
  have r: "radians d = real k * (pi / 2) + 2 * pi * of_int m" by (simp add: radians_def d field_simps)
  have cs: "cos (radians d) = cos (real k * (pi / 2))" "sin (radians d) = sin (real k * (pi / 2))"
    unfolding r by (simp_all add: cos_add sin_add cos_int_2pin sin_int_2pin)
  have k4: "k = 0 \<or> k = 1 \<or> k = 2 \<or> k = 3" using k by auto
  have t: "cos (3 * (pi / 2)) = 0" "sin (3 * (pi / 2)) = -1"
    using cos_add [of pi "pi / 2"] sin_add [of pi "pi / 2"] by (simp_all add: algebra_simps)
  show "k < 4" by (rule k)
  show "cos (radians d) = (if k = 0 then 1 else if k = 2 then -1 else 0)" using k4 t unfolding cs by auto
  show "sin (radians d) = (if k = 1 then 1 else if k = 3 then -1 else 0)" using k4 t unfolding cs by auto
qed

lemma scaled_abs: "0 < s \<Longrightarrow> \<bar>a * s - b * s\<bar> \<le> w * s / 2 \<longleftrightarrow> \<bar>a - b\<bar> \<le> w / 2" for s :: real
proof -
  assume s: "0 < s"
  have "\<bar>a * s - b * s\<bar> = \<bar>a - b\<bar> * s" using s by (simp add: abs_mult left_diff_distrib [symmetric])
  moreover have "\<bar>a - b\<bar> * s \<le> w * s / 2 \<longleftrightarrow> \<bar>a - b\<bar> * s \<le> (w / 2) * s" by simp
  ultimately show ?thesis using s by (simp only: mult_le_cancel_right_pos)
qed

definition insideBox2 :: "real \<times> real \<Rightarrow> real \<times> real \<Rightarrow> real \<times> real \<Rightarrow> bool" where
  "insideBox2 c e p \<longleftrightarrow> \<bar>fst p - fst c\<bar> \<le> fst e / 2 \<and> \<bar>snd p - snd c\<bar> \<le> snd e / 2"

definition insideBox3 :: "real \<times> real \<times> real \<Rightarrow> real \<times> real \<times> real \<Rightarrow> real \<times> real \<times> real \<Rightarrow> bool" where
  "insideBox3 c e p \<longleftrightarrow> \<bar>fst p - fst c\<bar> \<le> fst e / 2 \<and> \<bar>fst (snd p) - fst (snd c)\<bar> \<le> fst (snd e) / 2
     \<and> \<bar>snd (snd p) - snd (snd c)\<bar> \<le> snd (snd e) / 2"

text \<open>
  C38.  Placement turns and scales, in exact (real) arithmetic: an angle that is accepted is a whole
  number of quarter turns in either direction, the offsets are rotated by exactly that angle (around Z
  in the plane, around Y in space) and scaled, and a box with its sides swapped accordingly is the
  image of the original box: a point lies in one exactly when its image lies in the other.  With
  the rounding of \<^verbatim>\<open>float64\<close> the first part fails, see \<open>inexact_angle_accepted\<close>.
\<close>

theorem placement_is_rotation:
  assumes "quarterTurnIndex realOps d = Inr turn"
  shows "turn < 4 \<and> (\<exists>m :: int. d = 90 * real turn + 360 * of_int m)
    \<and> transformPoint2D realOps x y s turn =
      (s * (x * cos (radians d) - y * sin (radians d)), s * (x * sin (radians d) + y * cos (radians d)))
    \<and> transformPoint3D realOps x y z s turn =
      (s * (x * cos (radians d) + z * sin (radians d)), s * y, s * (z * cos (radians d) - x * sin (radians d)))
    \<and> (0 < s \<longrightarrow>
        insideBox2 (transformPoint2D realOps x y s turn) (transformAABB2D realOps w h s turn) (transformPoint2D realOps px py s turn)
          = insideBox2 (x, y) (w, h) (px, py)
      \<and> insideBox3 (transformPoint3D realOps x y z s turn) (transformAABB3D realOps w h dp s turn) (transformPoint3D realOps px py pz s turn)
          = insideBox3 (x, y, z) (w, h, dp) (px, py, pz))"
proof -
  note q = quarter_cos_sin [OF assms]
  have k: "turn = 0 \<or> turn = 1 \<or> turn = 2 \<or> turn = 3" using q(1) by auto
  have m: "turn < 4" "\<exists>m :: int. d = 90 * real turn + 360 * of_int m" using assms unfolding quarterTurn_exact by blast+
  show ?thesis
  proof (intro conjI impI m)
    show "transformPoint2D realOps x y s turn =
      (s * (x * cos (radians d) - y * sin (radians d)), s * (x * sin (radians d) + y * cos (radians d)))"
      using k by (auto simp: q transformPoint2D_def Let_def)
    show "transformPoint3D realOps x y z s turn =
      (s * (x * cos (radians d) + z * sin (radians d)), s * y, s * (z * cos (radians d) - x * sin (radians d)))"
      using k by (auto simp: q transformPoint3D_def Let_def)
  next
    assume s: "0 < s"
    have S2: "\<bar>a * s - b * s\<bar> * 2 \<le> e * s \<longleftrightarrow> \<bar>a - b\<bar> * 2 \<le> e" "\<bar>b * s - a * s\<bar> * 2 \<le> e * s \<longleftrightarrow> \<bar>a - b\<bar> * 2 \<le> e" for a b e
    proof -
      have h: "u \<le> v / 2 \<longleftrightarrow> u * 2 \<le> v" for u v :: real by linarith
      show "\<bar>a * s - b * s\<bar> * 2 \<le> e * s \<longleftrightarrow> \<bar>a - b\<bar> * 2 \<le> e" using scaled_abs [OF s, of a b e, unfolded h] .
      show "\<bar>b * s - a * s\<bar> * 2 \<le> e * s \<longleftrightarrow> \<bar>a - b\<bar> * 2 \<le> e"
        using scaled_abs [OF s, of b a e, unfolded h abs_minus_commute [of b a]] .
    qed
    show "insideBox2 (transformPoint2D realOps x y s turn) (transformAABB2D realOps w h s turn) (transformPoint2D realOps px py s turn)
          = insideBox2 (x, y) (w, h) (px, py)"
      using k by (elim disjE) (simp_all only: insideBox2_def transformPoint2D_def transformAABB2D_def Let_def realOps_simps fst_conv snd_conv
        if_True if_False, auto simp: S2(1) abs_minus_commute [of x px] abs_minus_commute [of y py] abs_minus_commute [of z pz])
    show "insideBox3 (transformPoint3D realOps x y z s turn) (transformAABB3D realOps w h dp s turn) (transformPoint3D realOps px py pz s turn)
          = insideBox3 (x, y, z) (w, h, dp) (px, py, pz)"
      using k by (elim disjE) (simp_all only: insideBox3_def transformPoint3D_def transformAABB3D_def Let_def realOps_simps fst_conv snd_conv
        if_True if_False, auto simp: S2(1) abs_minus_commute [of x px] abs_minus_commute [of y py] abs_minus_commute [of z pz])
  qed
qed

text \<open>A turn by minus 90 degrees.\<close>

text \<open>
  \<^verbatim>\<open>quarterTurnIndex\<close> adds 360 to a negative remainder, and between 256 and 512 a \<^verbatim>\<open>float64\<close> is a
  multiple of \<open>2 ^ -44\<close>: the sum is rounded to a nearest one.  The neighbours of -90 in \<^verbatim>\<open>float64\<close>,
  at a distance of \<open>2 ^ -46\<close>, are thereby accepted as three quarter turns, though they are not
  multiples of 90, while the neighbours of 270 are refused.
\<close>

definition roundSum :: "real \<Rightarrow> real" where
  "roundSum x = (if 256 \<le> x \<and> x < 512 then of_int (round (x * 2 ^ 44)) / 2 ^ 44 else x)"

definition roundedOps :: "real geops" where
  "roundedOps = realOps\<lparr>fadd := (\<lambda>x y. roundSum (x + y))\<rparr>"

theorem inexact_angle_accepted:
  "quarterTurnIndex roundedOps (- 90 + 1 / 2 ^ 46) = Inr 3 \<and> quarterTurnIndex roundedOps (- 90 - 1 / 2 ^ 46) = Inr 3
   \<and> (\<exists>msg. quarterTurnIndex roundedOps (270 + 1 / 2 ^ 44) = Inl msg) \<and> (\<exists>msg. quarterTurnIndex realOps (- 90 + 1 / 2 ^ 46) = Inl msg)"
proof -
  have f: "fmod roundedOps d 360 = d" if "\<bar>d\<bar> < 360" for d
  proof -
    have "(if d / 360 < 0 then of_int \<lceil>d / 360\<rceil> else of_int \<lfloor>d / 360\<rfloor>) = (0 :: real)"
    proof (cases "d < 0")
      case True
      then have "\<lceil>d / 360\<rceil> = 0" using that by (intro ceiling_unique) auto
      then show ?thesis using True by simp
    next
      case False
      then have "\<lfloor>d / 360\<rfloor> = 0" using that by (intro floor_unique) auto
      then show ?thesis using False by simp
    qed
    then show ?thesis by (simp add: roundedOps_def realOps_def)
  qed
  have rd: "roundSum (270 + 1 / 2 ^ 46) = 270" "roundSum (270 - 1 / 2 ^ 46) = 270"
    by (simp_all add: roundSum_def round_def floor_unique)
  note q = quarterTurnIndex_def finiteAt_def requireFinite_def Let_def
  have "quarterTurnIndex roundedOps (- 90 + 1 / 2 ^ 46) = Inr 3"
    using f [of "- 90 + 1 / 2 ^ 46"] rd(1) by (simp add: q) (simp add: roundedOps_def)
  moreover have "quarterTurnIndex roundedOps (- 90 - 1 / 2 ^ 46) = Inr 3"
    using f [of "- 90 - 1 / 2 ^ 46"] rd(2) by (simp add: q) (simp add: roundedOps_def)
  moreover have "\<exists>msg. quarterTurnIndex roundedOps (270 + 1 / 2 ^ 44) = Inl msg"
    using f [of "270 + 1 / 2 ^ 44"] by (simp add: q) (simp add: roundedOps_def)
  moreover have "\<exists>msg. quarterTurnIndex realOps (- 90 + 1 / 2 ^ 46) = Inl msg"
  proof (cases "quarterTurnIndex realOps (- 90 + 1 / 2 ^ 46)")
    case (Inr k)
    then obtain m :: int where "- 90 + 1 / 2 ^ 46 = 90 * real k + 360 * of_int m" unfolding quarterTurn_exact by blast
    then have "1 / 2 ^ 46 = of_int (90 * (int k + 1) + 360 * m) * (1 :: real)" by simp
    then have "(1 :: real) = of_int ((90 * (int k + 1) + 360 * m) * 2 ^ 46)" by (simp add: field_simps)
    then have "1 = (90 * (int k + 1) + 360 * m) * 2 ^ 46" by (metis of_int_1 of_int_eq_iff)
    then have "(2 :: int) ^ 46 dvd 1" by (metis dvd_triv_right)
    then show ?thesis by simp
  qed blast
  ultimately show ?thesis by blast
qed

theorem placement_is_rotation_witness:
  "quarterTurnIndex realOps (- 90) = Inr 3
    \<and> transformPoint2D realOps 1 0 2 3 = (2 * (1 * cos (radians (- 90)) - 0 * sin (radians (- 90))), 2 * (1 * sin (radians (- 90)) + 0 * cos (radians (- 90))))"
proof -
  have "quarterTurnIndex realOps (- 90) = Inr 3"
    unfolding quarterTurn_exact by (intro conjI exI [of _ "-1"]) simp_all
  then show ?thesis using placement_is_rotation [of "- 90" 3 1 0 2] by blast
qed

section \<open>All or nothing\<close>

text \<open>The allocator's next identifiers are new for the back end, as its contract demands.\<close>

definition freshIds :: "('a \<Rightarrow> int64 \<times> 'a) \<Rightarrow> nat \<Rightarrow> 'a \<Rightarrow> ('s, 'p) backend \<Rightarrow> bool" where
  "freshIds next n a b \<longleftrightarrow> distinct (allocIds next n a) \<and> set (allocIds next n a) \<inter> gm_keys b = {}"

lemma freshIds_map: "freshIds next n a b \<Longrightarrow> distinct (allocIds next n a) \<and> (\<forall>i \<in> set (allocIds next n a). map_of b i = None)"
  by (auto simp: freshIds_def gm_keys_None)

lemma prepareShapes_length: "prepareShapes f i shs = Inr items \<Longrightarrow> length items = length shs"
  by (induction f i shs arbitrary: items rule: prepareShapes.induct) auto

lemma prepare_length:
  "prepare2D G resolve (Some fp) t = Inr items \<Longrightarrow> length items = length (fp_Shapes fp)"
  "prepare3D G resolve (Some fp) t3 = Inr items3 \<Longrightarrow> length items3 = length (fp_Shapes fp)"
  by (auto simp: prepare2D_def prepare3D_def dest: prepareShapes_length split: option.splits if_splits)

text \<open>What a caller sees of a placement: with a handle, of its removal too.\<close>

definition placedOrNot ::
  "(int64 \<Rightarrow> ('s, 'p) backend \<Rightarrow> ('s, 'p) backend) \<Rightarrow> nat \<Rightarrow> ('s, 'p) backend \<Rightarrow> placeError + handle \<Rightarrow> ('s, 'p) backend \<Rightarrow> bool" where
  "placedOrNot remove n b r b' \<longleftrightarrow>
     (case r of
        Inl e \<Rightarrow> map_of b' = map_of b
      | Inr h \<Rightarrow> length (hd_ids h) = n \<and> distinct (hd_ids h) \<and> (\<forall>i \<in> set (hd_ids h). sint i < 0 \<and> map_of b i = None)
          \<and> (\<forall>j. map_of b' j = None \<longleftrightarrow> map_of b j = None \<and> j \<notin> set (hd_ids h)) \<and> (\<forall>j. j \<notin> set (hd_ids h) \<longrightarrow> map_of b' j = map_of b j)
          \<and> map_of (snd (handle_Remove remove (Some h) b')) = map_of b
          \<and> (\<forall>b''. snd (handle_Remove remove (fst (handle_Remove remove (Some h) b')) b'') = b''))"

lemma placedOrNotI:
  assumes "case r of
      Inl e \<Rightarrow> \<forall>j. map_of b' j = map_of b j
    | Inr h \<Rightarrow> prep = Inr items \<and> hd_ids h = allocIds next (length items) a \<and> \<not> hd_removed h
        \<and> distinct (hd_ids h) \<and> (\<forall>i \<in> set (hd_ids h). sint i < 0)
        \<and> (\<forall>j. map_of b' j = (case map_of (zip (hd_ids h) items) j of Some item \<Rightarrow> Some (entryAt j item) | None \<Rightarrow> map_of b j))
        \<and> (\<forall>j. map_of (snd (handle_Remove remove (Some h) b')) j = map_of b j)
        \<and> (\<forall>b''. snd (handle_Remove remove (fst (handle_Remove remove (Some h) b')) b'') = b'')"
    and "freshIds next n a b" and "prep = Inr items \<Longrightarrow> length items = n"
  shows "placedOrNot remove n b r b'"
proof (cases r)
  case (Inl e)
  then show ?thesis using assms(1) by (simp add: placedOrNot_def fun_eq_iff)
next
  case (Inr h)
  then have h: "hd_ids h = allocIds next n a" "length items = n" "distinct (hd_ids h)" "\<forall>i \<in> set (hd_ids h). sint i < 0"
    and lk: "map_of b' j = (case map_of (zip (hd_ids h) items) j of Some item \<Rightarrow> Some (entryAt j item) | None \<Rightarrow> map_of b j)"
    and rm: "map_of (snd (handle_Remove remove (Some h) b')) j = map_of b j"
      "snd (handle_Remove remove (fst (handle_Remove remove (Some h) b')) b'') = b''" for j b''
    using assms(1,3) by auto
  have out: "map_of b' j = map_of b j" if "j \<notin> set (hd_ids h)" for j
  proof -
    have "map_of (zip (hd_ids h) items) j = None" using that h(1,2) by (simp add: map_of_zip_is_None)
    then show ?thesis unfolding lk by simp
  qed
  have ins: "map_of b' j \<noteq> None \<and> map_of b j = None" if k: "j \<in> set (hd_ids h)" for j
  proof (cases "map_of (zip (hd_ids h) items) j")
    case None
    then show ?thesis using k h(1,2) by (simp add: map_of_zip_is_None)
  next
    case (Some item)
    then have "map_of b' j = Some (entryAt j item)" unfolding lk by simp
    then show ?thesis using freshIds_map [OF assms(2)] k h(1) by simp
  qed
  have none: "map_of b' j = None \<longleftrightarrow> map_of b j = None \<and> j \<notin> set (hd_ids h)" for j
    using out ins by (cases "j \<in> set (hd_ids h)") simp_all
  show ?thesis using Inr h none out ins rm by (simp add: placedOrNot_def fun_eq_iff)
qed

lemma placed2D:
  assumes "placeWith (\<lambda>i sh. rb_Add G i (Some sh)) sb_Update sb_Remove next prep a b = (r, a', b')" and "freshIds next n a b"
    and "\<And>its. prep = Inr its \<Longrightarrow> length its = n"
  shows "placedOrNot sb_Remove n b r b'"
proof -
  define items where "items = (case prep of Inr its \<Rightarrow> its | Inl e \<Rightarrow> [])"
  have len: "length items = n" if "prep = Inr items" using assms(3) that by blast
  have prep: "its = items" if "prep = Inr its" for its using that by (simp add: items_def)
  show ?thesis
  proof (rule placedOrNotI [OF rsv.place_spec [OF assms(1)] assms(2) len])
    show "distinct (allocIds next m a) \<and> (\<forall>i \<in> set (allocIds next m a). map_of b i = None)"
      if "prep = Inr items" "m = length items" for m
      using freshIds_map [OF assms(2)] len [OF that(1)] that(2) by simp
    show "its = items" if "prep = Inr its" for its using prep [OF that] .
  qed
qed

lemma placed3D:
  assumes "placeWith (\<lambda>i sh. sb_Add G i (Some sh)) sb_Update sb_Remove next prep a b = (r, a', b')" and "freshIds next n a b"
    and "\<And>its. prep = Inr its \<Longrightarrow> length its = n"
  shows "placedOrNot sb_Remove n b r b'"
proof -
  define items where "items = (case prep of Inr its \<Rightarrow> its | Inl e \<Rightarrow> [])"
  have len: "length items = n" if "prep = Inr items" using assms(3) that by blast
  have prep: "its = items" if "prep = Inr its" for its using that by (simp add: items_def)
  show ?thesis
  proof (rule placedOrNotI [OF simple.place_spec [OF assms(1)] assms(2) len])
    show "distinct (allocIds next m a) \<and> (\<forall>i \<in> set (allocIds next m a). map_of b i = None)"
      if "prep = Inr items" "m = length items" for m
      using freshIds_map [OF assms(2)] len [OF that(1)] that(2) by simp
    show "its = items" if "prep = Inr its" for its using prep [OF that] .
  qed
qed

text \<open>
  C39.  A placement is all or nothing: when it fails, for whatever reason and at whatever shape, the back
  end is as before; when it succeeds, there is one entry for each shape under a new negative identifier
  and nothing else has changed, removing the handle restores the back end exactly and removing it again
  does nothing.
\<close>

theorem placement_all_or_nothing:
  "(freshIds next (length (fp_Shapes fp)) a b \<longrightarrow>
      Place2D G (\<lambda>i sh. rb_Add G i (Some sh)) sb_Update sb_Remove next resolve (Some fp) t a (Some b) = (r, a', Some b') \<longrightarrow>
      placedOrNot sb_Remove (length (fp_Shapes fp)) b r b')
   \<and> (freshIds next (length (fp_Shapes fp)) a b3 \<longrightarrow>
      Place3D G (\<lambda>i sh. sb_Add G i (Some sh)) sb_Update sb_Remove next resolve (Some fp) t3 a (Some b3) = (r, a', Some b3') \<longrightarrow>
      placedOrNot sb_Remove (length (fp_Shapes fp)) b3 r b3')"
proof (intro conjI impI)
  assume f: "freshIds next (length (fp_Shapes fp)) a b"
    and p: "Place2D G (\<lambda>i sh. rb_Add G i (Some sh)) sb_Update sb_Remove next resolve (Some fp) t a (Some b) = (r, a', Some b')"
  then show "placedOrNot sb_Remove (length (fp_Shapes fp)) b r b'"
    by (intro placed2D [OF _ f prepare_length(1)]) (auto simp: Place2D_def split: prod.splits)
next
  assume f: "freshIds next (length (fp_Shapes fp)) a b3"
    and p: "Place3D G (\<lambda>i sh. sb_Add G i (Some sh)) sb_Update sb_Remove next resolve (Some fp) t3 a (Some b3) = (r, a', Some b3')"
  then show "placedOrNot sb_Remove (length (fp_Shapes fp)) b3 r b3'"
    by (intro placed3D [OF _ f prepare_length(2)]) (auto simp: Place3D_def split: prod.splits)
qed

section \<open>What is loaded can be placed\<close>

lemma allocIds_atomic: "allocIds atomicNext n a = map (\<lambda>k. a - 1 - of_nat k) [0..<n]"
proof (induction n arbitrary: a)
  case (Suc n)
  have "[0..<Suc n] = 0 # map Suc [0..<n]" by (simp only: upt_conv_Cons map_Suc_upt)
  then show ?case using Suc by (simp add: atomicNext_def algebra_simps)
qed simp

lemma sint_down:
  fixes a :: int64
  assumes "sint a \<le> 0" and "int k < 2 ^ 63 + sint a"
  shows "sint (a - 1 - of_nat k) = sint a - 1 - int k"
proof -
  have w: "a - 1 - of_nat k = word_of_int (sint a - 1 - int k)" by simp
  have g: "sint (word_of_int x :: int64) = x" if "- (2 ^ 63) \<le> x" "x < 2 ^ 63" for x
    using that by (simp add: sint_sbintrunc' signed_take_bit_int_eq_self)
  show ?thesis unfolding w using assms by (intro g) simp_all
qed

text \<open>The shared allocator, not yet used up, and a back end that holds only identifiers it has given and those of entities.\<close>

definition atomicReady :: "nat \<Rightarrow> int64 \<Rightarrow> ('s, 'p) backend \<Rightarrow> bool" where
  "atomicReady n a b \<longleftrightarrow> sint a \<le> 0 \<and> int n \<le> 2 ^ 63 + sint a \<and> (\<forall>j \<in> gm_keys b. sint a \<le> sint j)"

lemma atomic_ids:
  assumes "atomicReady n a b"
  shows "freshIds atomicNext n a b" "\<forall>i \<in> set (allocIds atomicNext n a). sint i < 0"
proof -
  have s: "sint (a - 1 - of_nat k) = sint a - 1 - int k" if "k < n" for k
    using assms that by (intro sint_down) (auto simp: atomicReady_def)
  have "distinct (map (\<lambda>k. a - 1 - of_nat k) [0..<n])"
    unfolding distinct_map by (auto intro!: inj_onI) (metis s of_nat_eq_iff add_left_cancel diff_add_cancel diff_left_imp_eq)
  then show "freshIds atomicNext n a b" using s assms
    by (auto simp: freshIds_def allocIds_atomic atomicReady_def dest!: s)
  show "\<forall>i \<in> set (allocIds atomicNext n a). sint i < 0" using s assms by (auto simp: allocIds_atomic atomicReady_def)
qed

lemma atomic_state: "registerPrepared add move remove atomicNext items ids a b = (Inr h, a', b') \<Longrightarrow> a' = a - of_nat (length items)"
  by (induction items arbitrary: ids a b) (auto simp: atomicNext_def algebra_simps split: if_splits)

lemma prepareShapes_all: "(\<And>i sh. sh \<in> set shs \<Longrightarrow> f i sh = Inr (g sh)) \<Longrightarrow> prepareShapes f i shs = Inr (map g shs)"
  by (induction shs arbitrary: i) auto

text \<open>The shape a placement registers.\<close>

definition item2D :: "'f geops \<Rightarrow> layerResolver \<Rightarrow> 'f Transform2D \<Rightarrow> nat \<Rightarrow> 'f fpShape \<Rightarrow> ('f shape2, 'f Vec2) prepared" where
  "item2D G resolve t turn sh =
     (let p = transformPoint2D G (sh_OffsetX sh) (sh_OffsetY sh) (t2_Scale t) turn; e = transformAABB2D G (sh_W sh) (sh_H sh) (t2_Scale t) turn
      in \<lparr>pr_shape = (if sh_Type sh = ShapeCircle then Circle2 (fmul G (sh_R sh) (t2_Scale t)) else AABB2 (fst e) (snd e)),
          pr_layer = fst (the (resolve (sh_Layer sh))), pr_mask = snd (the (resolve (sh_Layer sh))),
          pr_pos = \<lparr>v2_X = fadd G (t2_X t) (fst p), v2_Y = fadd G (t2_Y t) (snd p)\<rparr>, pr_trig = sh_Trigger sh\<rparr>)"

definition item3D :: "'f geops \<Rightarrow> layerResolver \<Rightarrow> 'f Transform3D \<Rightarrow> nat \<Rightarrow> 'f fpShape \<Rightarrow> ('f shape3, 'f Vec3) prepared" where
  "item3D G resolve t turn sh =
     (let p = transformPoint3D G (sh_OffsetX sh) (sh_OffsetY sh) (sh_OffsetZ sh) (t3_Scale t) turn;
          e = transformAABB3D G (sh_W sh) (sh_H sh) (sh_D sh) (t3_Scale t) turn
      in \<lparr>pr_shape = (if sh_Type sh = ShapeSphere then Sphere3 (fmul G (sh_R sh) (t3_Scale t)) else AABB3 (fst e) (fst (snd e)) (snd (snd e))),
          pr_layer = fst (the (resolve (sh_Layer sh))), pr_mask = snd (the (resolve (sh_Layer sh))),
          pr_pos = \<lparr>v3_X = fadd G (t3_X t) (fst p), v3_Y = fadd G (t3_Y t) (fst (snd p)), v3_Z = fadd G (t3_Z t) (snd (snd p))\<rparr>,
          pr_trig = sh_Trigger sh\<rparr>)"

lemma shape_names: "ShapeSphere \<noteq> ShapeAABB" "ShapeCircle \<noteq> ShapeAABB" "ShapeSphere \<noteq> ShapeCircle"
  by (simp_all add: ShapeSphere_def ShapeCircle_def ShapeAABB_def)

lemma prepareShape2D_typed:
  assumes "shapeTyped G 2 sh" and "resolve (sh_Layer sh) \<noteq> None" and "feq G (fnum G 0) (fnum G 0)"
  shows "prepareShape2D G resolve guid t turn i sh = Inr (item2D G resolve t turn sh)"
  using assms shape_names
  by (auto simp: prepareShape2D_def validateShapeFor2D_def shapeTyped_def item2D_def Let_def split: if_splits prod.splits)

lemma prepareShape3D_typed:
  assumes "shapeTyped G 3 sh" and "resolve (sh_Layer sh) \<noteq> None"
  shows "prepareShape3D G resolve guid t turn i sh = Inr (item3D G resolve t turn sh)"
  using assms shape_names
  by (auto simp: prepareShape3D_def validateShapeFor3D_def shapeTyped_def positiveSize_def item3D_def Let_def split: if_splits prod.splits)

definition transformOK2 :: "'f geops \<Rightarrow> 'f Transform2D \<Rightarrow> nat \<Rightarrow> bool" where
  "transformOK2 G t turn \<longleftrightarrow> ffinite G (t2_X t) \<and> ffinite G (t2_Y t) \<and> positiveSize G (t2_Scale t)
     \<and> quarterTurnIndex G (t2_RotationDegrees t) = Inr turn"

definition transformOK3 :: "'f geops \<Rightarrow> 'f Transform3D \<Rightarrow> nat \<Rightarrow> bool" where
  "transformOK3 G t turn \<longleftrightarrow> ffinite G (t3_X t) \<and> ffinite G (t3_Y t) \<and> ffinite G (t3_Z t) \<and> positiveSize G (t3_Scale t)
     \<and> quarterTurnIndex G (t3_YawDegrees t) = Inr turn"

lemma prepare2D_typed:
  assumes "fp_Dimensions fp = 2" "\<forall>sh \<in> set (fp_Shapes fp). shapeTyped G 2 sh \<and> resolve (sh_Layer sh) \<noteq> None"
    and "transformOK2 G t turn" "feq G (fnum G 0) (fnum G 0)"
  shows "prepare2D G (Some resolve) (Some fp) t = Inr (map (item2D G resolve t turn) (fp_Shapes fp))"
  using assms prepareShapes_all [of "fp_Shapes fp" "prepareShape2D G resolve (fp_GUID fp) t turn" "item2D G resolve t turn" 0]
  by (simp add: prepare2D_def transformOK2_def validateScale_def finiteAt_def requireFinite_def positiveSize_def prepareShape2D_typed)

lemma prepare3D_typed:
  assumes "fp_Dimensions fp = 3" "\<forall>sh \<in> set (fp_Shapes fp). shapeTyped G 3 sh \<and> resolve (sh_Layer sh) \<noteq> None"
    and "transformOK3 G t turn"
  shows "prepare3D G (Some resolve) (Some fp) t = Inr (map (item3D G resolve t turn) (fp_Shapes fp))"
  using assms prepareShapes_all [of "fp_Shapes fp" "prepareShape3D G resolve (fp_GUID fp) t turn" "item3D G resolve t turn" 0]
  by (simp add: prepare3D_def transformOK3_def validateScale_def finiteAt_def requireFinite_def positiveSize_def prepareShape3D_typed)

context shape_backend
begin

lemma register_atomic:
  assumes "distinct (allocIds atomicNext (length items) a)" and "\<forall>i \<in> set (allocIds atomicNext (length items) a). sint i < 0"
  shows "\<exists>b'. placeWith add move remove atomicNext (Inr items) a b =
      (Inr \<lparr>hd_ids = allocIds atomicNext (length items) a, hd_removed = False\<rparr>, a - of_nat (length items), b')
    \<and> (\<forall>k < length items. look b' (a - 1 - of_nat k) = Some (entryAt (a - 1 - of_nat k) (items ! k)))"
proof -
  obtain r a' b' where R: "registerPrepared add move remove atomicNext items [] a b = (r, a', b')" by (metis prod.exhaust)
  note S = register_spec [OF R assms(1)]
  obtain h where r: "r = Inr h" using S assms(2) by (cases r) auto
  have h: "h = \<lparr>hd_ids = allocIds atomicNext (length items) a, hd_removed = False\<rparr>" using S r by simp
  have a': "a' = a - of_nat (length items)" using atomic_state [OF R [unfolded r]] .
  have lk: "look b' j = (case map_of (zip (allocIds atomicNext (length items) a) items) j of Some item \<Rightarrow> Some (entryAt j item) | None \<Rightarrow> look b j)" for j
    using S r by simp
  have "look b' (a - 1 - of_nat k) = Some (entryAt (a - 1 - of_nat k) (items ! k))" if "k < length items" for k
  proof -
    have n: "allocIds atomicNext (length items) a ! k = a - 1 - of_nat k" using that by (simp add: allocIds_atomic)
    have "map_of (zip (allocIds atomicNext (length items) a) items) (allocIds atomicNext (length items) a ! k) = Some (items ! k)"
      by (rule map_of_zip_nth) (use assms(1) that in simp_all)
    then show ?thesis unfolding lk n by simp
  qed
  then show ?thesis using R r h a' by (simp add: placeWith_def)
qed

end

text \<open>
  C40.  A loaded footprint can be placed: for a well typed set and a footprint found in it by GUID, a
  finite translation, a positive finite scale, an accepted angle and known layers, the placer of the
  set's dimension never refuses; it registers every shape, transformed, with the resolved layer and mask,
  under the next identifiers of the shared allocator, as long as that is not used up.
\<close>

theorem loaded_footprints_place:
  assumes "setTyped G st" and "LookupGUID (Some st) g = Some fp" and "feq G (fnum G 0) (fnum G 0)"
    and "\<forall>sh \<in> set (fp_Shapes fp). resolve (sh_Layer sh) \<noteq> None"
  shows "(fs_Dimensions st = 2 \<and> transformOK2 G t2 turn \<and> atomicReady (length (fp_Shapes fp)) a b2 \<longrightarrow>
      (\<exists>b'. Place2D G (\<lambda>i sh. rb_Add G i (Some sh)) sb_Update sb_Remove atomicNext (Some resolve) (Some fp) t2 a (Some b2)
          = (Inr \<lparr>hd_ids = map (\<lambda>k. a - 1 - of_nat k) [0..<length (fp_Shapes fp)], hd_removed = False\<rparr>,
             a - of_nat (length (fp_Shapes fp)), Some b')
        \<and> (\<forall>k < length (fp_Shapes fp). map_of b' (a - 1 - of_nat k)
              = Some (entryAt (a - 1 - of_nat k) (item2D G resolve t2 turn (fp_Shapes fp ! k))))))
    \<and> (fs_Dimensions st = 3 \<and> transformOK3 G t3 turn \<and> atomicReady (length (fp_Shapes fp)) a b3 \<longrightarrow>
      (\<exists>b'. Place3D G (\<lambda>i sh. sb_Add G i (Some sh)) sb_Update sb_Remove atomicNext (Some resolve) (Some fp) t3 a (Some b3)
          = (Inr \<lparr>hd_ids = map (\<lambda>k. a - 1 - of_nat k) [0..<length (fp_Shapes fp)], hd_removed = False\<rparr>,
             a - of_nat (length (fp_Shapes fp)), Some b')
        \<and> (\<forall>k < length (fp_Shapes fp). map_of b' (a - 1 - of_nat k)
              = Some (entryAt (a - 1 - of_nat k) (item3D G resolve t3 turn (fp_Shapes fp ! k))))))"
proof -
  have fp: "fp_Dimensions fp = fs_Dimensions st" "\<forall>sh \<in> set (fp_Shapes fp). shapeTyped G (fs_Dimensions st) sh"
    using assms(1,2) by (auto simp: setTyped_def LookupGUID_def)
  show ?thesis
  proof (intro conjI impI)
    assume h: "fs_Dimensions st = 2 \<and> transformOK2 G t2 turn \<and> atomicReady (length (fp_Shapes fp)) a b2"
    then have "atomicReady (length (fp_Shapes fp)) a b2" by blast
    from atomic_ids [OF this] have ids: "distinct (allocIds atomicNext (length (fp_Shapes fp)) a)"
      "\<forall>i \<in> set (allocIds atomicNext (length (fp_Shapes fp)) a). sint i < 0" by (auto simp: freshIds_def)
    have p: "prepare2D G (Some resolve) (Some fp) t2 = Inr (map (item2D G resolve t2 turn) (fp_Shapes fp))"
      using fp assms(3,4) h by (intro prepare2D_typed) auto
    show "\<exists>b'. Place2D G (\<lambda>i sh. rb_Add G i (Some sh)) sb_Update sb_Remove atomicNext (Some resolve) (Some fp) t2 a (Some b2)
          = (Inr \<lparr>hd_ids = map (\<lambda>k. a - 1 - of_nat k) [0..<length (fp_Shapes fp)], hd_removed = False\<rparr>,
             a - of_nat (length (fp_Shapes fp)), Some b')
        \<and> (\<forall>k < length (fp_Shapes fp). map_of b' (a - 1 - of_nat k)
              = Some (entryAt (a - 1 - of_nat k) (item2D G resolve t2 turn (fp_Shapes fp ! k))))"
      using rsv.register_atomic [of "map (item2D G resolve t2 turn) (fp_Shapes fp)" a G b2] ids
      by (auto simp: Place2D_def p allocIds_atomic)
  next
    assume h: "fs_Dimensions st = 3 \<and> transformOK3 G t3 turn \<and> atomicReady (length (fp_Shapes fp)) a b3"
    then have "atomicReady (length (fp_Shapes fp)) a b3" by blast
    from atomic_ids [OF this] have ids: "distinct (allocIds atomicNext (length (fp_Shapes fp)) a)"
      "\<forall>i \<in> set (allocIds atomicNext (length (fp_Shapes fp)) a). sint i < 0" by (auto simp: freshIds_def)
    have p: "prepare3D G (Some resolve) (Some fp) t3 = Inr (map (item3D G resolve t3 turn) (fp_Shapes fp))"
      using fp assms(3,4) h by (intro prepare3D_typed) auto
    show "\<exists>b'. Place3D G (\<lambda>i sh. sb_Add G i (Some sh)) sb_Update sb_Remove atomicNext (Some resolve) (Some fp) t3 a (Some b3)
          = (Inr \<lparr>hd_ids = map (\<lambda>k. a - 1 - of_nat k) [0..<length (fp_Shapes fp)], hd_removed = False\<rparr>,
             a - of_nat (length (fp_Shapes fp)), Some b')
        \<and> (\<forall>k < length (fp_Shapes fp). map_of b' (a - 1 - of_nat k)
              = Some (entryAt (a - 1 - of_nat k) (item3D G resolve t3 turn (fp_Shapes fp ! k))))"
      using simple.register_atomic [of "map (item3D G resolve t3 turn) (fp_Shapes fp)" a G b3] ids
      by (auto simp: Place3D_def p allocIds_atomic)
  qed
qed

section \<open>An example\<close>

text \<open>The crate, twice as large and turned by minus 90 degrees, next to an entity.\<close>

definition crateAt :: "real Transform2D" where
  "crateAt = \<lparr>t2_X = 10, t2_Y = 0, t2_Scale = 2, t2_RotationDegrees = - 90\<rparr>"

definition crateSet :: "real fpSet" where
  "crateSet = \<lparr>fs_Version = 1, fs_Dimensions = 2, fs_byGUID = [(fp_GUID demoFootprint, demoFootprint)],
     fs_byAlias = [(''crate'', demoFootprint)]\<rparr>"

definition wallLayer :: layerResolver where
  "wallLayer label = (if label = ''wall'' then Some (2, 1) else None)"

lemma crateSet_typed: "setTyped realOps crateSet" "LookupGUID (Some crateSet) demoGUID = Some demoFootprint"
proof -
  have "lowerHex (fp_GUID demoFootprint)" unfolding demoFootprint_def by simp code_simp
  moreover have "TrimSpace ''wall'' = ''wall''" by code_simp
  ultimately show "setTyped realOps crateSet"
    by (simp add: setTyped_def crateSet_def FormatVersion_def demoFootprint_def demoShape_def shapeTyped_def positiveSize_def
        ShapeCircle_def ShapeAABB_def)
  show "LookupGUID (Some crateSet) demoGUID = Some demoFootprint"
    by (simp add: LookupGUID_def demoText crateSet_def demoFootprint_def)
qed

lemma crate_turn: "transformOK2 realOps crateAt 3"
  unfolding transformOK2_def crateAt_def by (simp add: positiveSize_def quarterTurn_exact exI [of _ "-1 :: int"])

theorem loaded_footprints_place_witness:
  "\<exists>b'. Place2D realOps (\<lambda>i sh. rb_Add realOps i (Some sh)) sb_Update sb_Remove atomicNext (Some wallLayer) (Some demoFootprint) crateAt 0
       (Some demoResolv) = (Inr \<lparr>hd_ids = [-1], hd_removed = False\<rparr>, -1, Some b')
     \<and> map_of b' (-1) = Some \<lparr>en_id = -1, en_shape = Circle2 4, en_layer = 2, en_mask = 1, en_trigger = False,
          en_pos = \<lparr>v2_X = 10, v2_Y = -2\<rparr>\<rparr>"
proof -
  have r: "atomicReady (length (fp_Shapes demoFootprint)) 0 demoResolv"
    by (simp add: atomicReady_def demoFootprint_def demoResolv_def gm_keys_def)
  show ?thesis
    using loaded_footprints_place [OF crateSet_typed, of wallLayer crateAt 3 0 demoResolv] crate_turn r
    by (auto simp: demoFootprint_def demoShape_def wallLayer_def crateSet_def item2D_def transformPoint2D_def crateAt_def entryAt_def
        ShapeCircle_def)
qed

theorem placement_all_or_nothing_witness:
  "placedOrNot sb_Remove 1 demoResolv
     (fst (Place2D realOps (\<lambda>i sh. rb_Add realOps i (Some sh)) sb_Update sb_Remove atomicNext (Some wallLayer) (Some demoFootprint) crateAt 0
       (Some demoResolv)))
     (the (snd (snd (Place2D realOps (\<lambda>i sh. rb_Add realOps i (Some sh)) sb_Update sb_Remove atomicNext (Some wallLayer) (Some demoFootprint)
       crateAt 0 (Some demoResolv)))))"
proof -
  obtain r a' b' where p: "Place2D realOps (\<lambda>i sh. rb_Add realOps i (Some sh)) sb_Update sb_Remove atomicNext (Some wallLayer)
      (Some demoFootprint) crateAt 0 (Some demoResolv) = (r, a', Some b')"
    by (cases "placeWith (\<lambda>i sh. rb_Add realOps i (Some sh)) sb_Update sb_Remove atomicNext
        (prepare2D realOps (Some wallLayer) (Some demoFootprint) crateAt) 0 demoResolv") (simp add: Place2D_def)
  have "freshIds atomicNext (length (fp_Shapes demoFootprint)) 0 demoResolv"
    by (rule atomic_ids) (simp add: atomicReady_def demoFootprint_def demoResolv_def gm_keys_def)
  then show ?thesis using placement_all_or_nothing [THEN conjunct1, rule_format, OF _ p] p by (simp add: demoFootprint_def)
qed

end
