(* ===== verification/Spec2Isabelle.thy ===== *)
theory Spec2Isabelle
  imports Client_Datagram World_Store Snapshot Replication_Safety
    Ownership_Transfer Snapshot_Restore Task_Properties Interest_Tick Session_Events
    Session_Pump Listener_Lifecycle Colliders Footprint_Place
begin

text \<open>
  A verification development for the Golem engine, a multiplayer game server in Go with generated
  clients.  All file names are below \<^verbatim>\<open>src/\<close>.

  \<^bold>\<open>The program.\<close>  A \<^verbatim>\<open>Server\<close> (\<^verbatim>\<open>golem/loop.go\<close>) owns a registry of entities, a store of world
  data, a visibility policy and, optionally, interest management.  Connection goroutines put session
  events into a bounded queue; the tick goroutine drains background callbacks, then that queue, runs
  the entities, flushes the registry and replicates the result to the sessions, either to everybody
  (broadcast mode, filtered by visibility and ownership) or by each session's field of interest.
  Frames go out as batches on a reliable stream, or as unreliable and eventual-state datagrams, which
  a small transport protocol of its own (\<^verbatim>\<open>golem/net/datagram_*.go\<close>) numbers, acknowledges,
  repeats and orders.  The client undoes the framing and hands envelopes to generated code.

  \<^bold>\<open>Theories, bottom up.\<close>
  \<^item> \<^verbatim>\<open>Golem_Prelude\<close>, \<^verbatim>\<open>Go_Binary\<close>: machine words, Go maps as association lists, iteration order of
    maps as an argument, times, errors as sums, the fixed-width codecs of \<^verbatim>\<open>encoding/binary\<close>, and
    the generic lemmas and hint collections all others use.
  \<^item> \<^verbatim>\<open>Pb_Codec\<close>: \<^verbatim>\<open>golem/pb\<close> and the envelopes of \<^verbatim>\<open>golem/servermsg.go\<close>; panics are errors.
  \<^item> \<^verbatim>\<open>Ack_Window\<close>, \<^verbatim>\<open>Datagram_Codec\<close>, \<^verbatim>\<open>Ordered_Receive\<close>, \<^verbatim>\<open>Datagram_Protocol\<close>: sequence windows, packet
    format, reordering buffer, and every operation of \<^verbatim>\<open>datagramProtocolState\<close>.
    \<^verbatim>\<open>Datagram_Invariant\<close> makes the endpoint a state machine and proves its invariant;
    \<^verbatim>\<open>Datagram_Lanes\<close> and \<^verbatim>\<open>Datagram_EndToEnd\<close> prove what each lane and two endpoints together guarantee.
  \<^item> \<^verbatim>\<open>Payload_Framing\<close> and \<^verbatim>\<open>Client_Framing\<close>: both ends of the framing (\<^verbatim>\<open>golem/net/payload.go\<close>,
    \<^verbatim>\<open>control_frame.go\<close>, \<^verbatim>\<open>golem-go-client/framing.go\<close>).
  \<^item> \<^verbatim>\<open>Client_Datagram\<close>: the Go client's own datagram endpoint (\<^verbatim>\<open>golem-go-client/webtransport.go\<close>): it
    agrees with the server on windows and packets, keeps what is not acknowledged, hands over the
    ordered lane as one stream, and the three places where it differs from the server.
  \<^item> \<^verbatim>\<open>Session_Core\<close>, \<^verbatim>\<open>Session_Pump\<close>: a session (\<^verbatim>\<open>golem/net/session.go\<close>).  The first has its operations
    as functions, the second the same code as goroutines that interleave at channel operations and
    critical sections, linked to the first by \<open>run_senders\<close>, and the write pump among them.
  \<^item> \<^verbatim>\<open>Listener\<close>, \<^verbatim>\<open>Listener_Lifecycle\<close>: \<^verbatim>\<open>golem/net/listener.go\<close>: sends, broadcasts and join snapshots
    over a heap of sessions; then the request handlers and \<^verbatim>\<open>CloseSessions\<close> as threads.
  \<^item> \<^verbatim>\<open>Visibility\<close>, \<^verbatim>\<open>Registry\<close>, \<^verbatim>\<open>World_Store\<close>, \<^verbatim>\<open>Snapshot\<close>: the managers the server owns, one Go package
    each.
  \<^item> \<^verbatim>\<open>Server_State\<close>: the fields of \<^verbatim>\<open>Server\<close> and its entity operations.  What the server sends is
    recorded as a history of calls on the listener, with the results the network gives as input.
  \<^item> \<^verbatim>\<open>Eventual_Tracker\<close>, \<^verbatim>\<open>Eventual_Send\<close>, \<^verbatim>\<open>Eventual_Delivery\<close>: eventual state
    (\<^verbatim>\<open>golem/eventual_state.go\<close>): what is owed to a session, its sending, and that nothing is lost.
  \<^item> \<^verbatim>\<open>Broadcast\<close>, \<^verbatim>\<open>Replication_Safety\<close>, \<^verbatim>\<open>Confidentiality\<close>, \<^verbatim>\<open>Ownership_Transfer\<close>: the broadcast tick,
    that known sets follow the policy, that sessions get what they may see, and ownership changes.
  \<^item> \<^verbatim>\<open>Interest_Grid\<close>, \<^verbatim>\<open>Interest_Manager\<close>, \<^verbatim>\<open>Interest_Diff\<close>, \<^verbatim>\<open>Interest_Sessions\<close>, \<^verbatim>\<open>Interest_Tick\<close>: the hash
    grid, the manager, the meaning of its differences, and the tick that sends them.
  \<^item> \<^verbatim>\<open>Tasks\<close>, \<^verbatim>\<open>Task_Properties\<close>: background tasks and posts (\<^verbatim>\<open>golem/tasks.go\<close>) as a step relation.
  \<^item> \<^verbatim>\<open>Avatar\<close>, \<^verbatim>\<open>Session_Events\<close>: session avatars as interleaved threads, the event queue and the
    disconnect: what it removes and what it keeps.
  \<^item> \<^verbatim>\<open>Snapshot_Restore\<close>: saving a world and loading it elsewhere.
  \<^item> \<^verbatim>\<open>Geometry\<close>, \<^verbatim>\<open>Collision_Backends\<close>, \<^verbatim>\<open>Contact_Events\<close>: the segment tests of \<^verbatim>\<open>golem/collision\<close> and
    \<^verbatim>\<open>golem/collision3d\<close>, the back ends that need no physics package, and the contact events
    (\<^verbatim>\<open>golem/collision_events.go\<close>) the server makes of their contacts.
  \<^item> \<^verbatim>\<open>Collision_Layers\<close>, \<^verbatim>\<open>Colliders\<close>: named layers over a back end, and the shapes entities declare,
    from creation to the contacts of a tick.  Deletions that go straight to the registry
    (\<^verbatim>\<open>golem/avatar.go\<close>) are steps of their own: they leave the shape behind.
  \<^item> \<^verbatim>\<open>Footprint\<close>, \<^verbatim>\<open>Footprint_Place\<close>: collision prefabs (\<^verbatim>\<open>golem/footprint\<close>), their validation and placement.

  \<^bold>\<open>Kinds of lemmas.\<close>  Codecs: round trips and exactness.  Data structures: refinement of an abstract
  map, set or queue, often through a locale that states the interface, interpreted on the code's
  model.  State machines: an inductive step relation with one rule per operation, an invariant
  proved by rule induction, and safety read off it.  Replication: exactness of the differences,
  confidentiality of every frame, conservation of what is owed.  Loops: total functions where the
  recursion is structural, \<open>partial_function (option)\<close> where the source may run for ever, and then a
  theorem that says when it ends.  No theorem depends on a bound on the length of a run; word
  counters that a theorem needs not to wrap are named in its hypotheses.

  \<^bold>\<open>Modelling choices.\<close>  Identifiers are 64-bit words; a pointer to an entity is a reference into a
  heap, and the generated methods of entities are a record of functions.  Goroutines appear as
  interleavings of critical sections where they can interfere (\<^verbatim>\<open>Tasks\<close>, \<^verbatim>\<open>Avatar\<close>,
  \<^verbatim>\<open>Session_Pump\<close>, \<^verbatim>\<open>Listener_Lifecycle\<close>); elsewhere a
  mutex makes an operation atomic.  Floating-point coordinates are a record of operations; theorems
  about geometry take exact real arithmetic for it and say so, the others hold for any, and one
  instance that rounds a sum as \<^verbatim>\<open>float64\<close> does shows where exactness matters.

  \<^bold>\<open>Not modelled.\<close>  The transports, TLS, authentication and HTTP host (library calls around
  goroutines); the adapter of the cp physics package, navigation, LDtk and Tiled, which
  wrap third-party packages and parsers; the schema compiler and the code generators, which
  produce text from parsed YAML; the channel around the Go client's endpoint
  and the clients in TypeScript and C#.
\<close>

end
